(* ===== verification/Prelude.thy ===== *)
theory Prelude
  imports Main "HOL-Library.AList" "HOL-Library.Monad_Syntax"
begin

text \<open>
  Shared vocabulary of the development: the collections that the component proofs feed
  to the simplifier, Go's built-in maps (with the difference between a nil map and an
  empty one), Go's truncated remainder, and the generic list and option lemmas used by
  several components.
\<close>

named_theorems engine_defs \<open>definitions of the engine that symbolic execution unfolds\<close>
named_theorems frame_rules \<open>frame facts of the transition functions\<close>

section \<open>Go maps\<close>

text \<open>
  A Go map that is not nil is an association list over distinct keys (\<open>'v gomap\<close> when the
  keys are strings, as nearly everywhere); a Go map variable, which may be nil, is an \<open>option\<close> of one. Iteration order is the order of the
  list: Go leaves it unspecified, so where a definition iterates over a map the components
  either prove that the order does not matter or say that it does.
\<close>

type_synonym 'v gomap = "(string \<times> 'v) list"

definition mget :: "('k \<times> 'v) list option \<Rightarrow> 'k \<Rightarrow> 'v option" where
  "mget m k = (case m of None \<Rightarrow> None | Some al \<Rightarrow> map_of al k)"

definition mput :: "'k \<Rightarrow> 'v \<Rightarrow> ('k \<times> 'v) list \<Rightarrow> ('k \<times> 'v) list" where
  "mput k v m = AList.update k v m"

definition mdel :: "'k \<Rightarrow> ('k \<times> 'v) list \<Rightarrow> ('k \<times> 'v) list" where
  "mdel k m = AList.delete k m"

definition mwf :: "('k \<times> 'v) list \<Rightarrow> bool" where
  "mwf m \<longleftrightarrow> distinct (map fst m)"

definition mkeys :: "('k \<times> 'v) list \<Rightarrow> 'k list" where
  "mkeys m = map fst m"

text \<open>Writing through a possibly nil map allocates it first (the code's \<open>if m == nil\<close>).\<close>

definition mputo :: "'k \<Rightarrow> 'v \<Rightarrow> ('k \<times> 'v) list option \<Rightarrow> ('k \<times> 'v) list option" where
  "mputo k v m = Some (mput k v (case m of None \<Rightarrow> [] | Some al \<Rightarrow> al))"

text \<open>Deleting from a nil map does nothing.\<close>

definition mdelo :: "'k \<Rightarrow> ('k \<times> 'v) list option \<Rightarrow> ('k \<times> 'v) list option" where
  "mdelo k m = map_option (mdel k) m"

text \<open>The contract a client of Go's map type relies on.\<close>

locale go_map =
  fixes emp :: "'m"
    and get :: "'m \<Rightarrow> 'k \<Rightarrow> 'v option"
    and put :: "'k \<Rightarrow> 'v \<Rightarrow> 'm \<Rightarrow> 'm"
    and del :: "'k \<Rightarrow> 'm \<Rightarrow> 'm"
    and ok :: "'m \<Rightarrow> bool"
  assumes get_emp: "get emp k = None"
    and get_put: "get (put k v m) j = (if j = k then Some v else get m j)"
    and get_del: "get (del k m) j = (if j = k then None else get m j)"
    and ok_emp: "ok emp"
    and ok_put: "ok m \<Longrightarrow> ok (put k v m)"
    and ok_del: "ok m \<Longrightarrow> ok (del k m)"
begin

lemma get_put_same: "get (put k v m) k = Some v"
  by (simp add: get_put)

lemma get_del_put: "get (del k (put k v m)) j = get (del k m) j"
  by (simp add: get_put get_del)

lemma get_fold_put:
  "get (fold (\<lambda>k. put k (f k)) ks m) j = (if j \<in> set ks then Some (f j) else get m j)"
  by (induction ks arbitrary: m) (auto simp: get_put)

lemma get_fold_del:
  "get (fold del ks m) j = (if j \<in> set ks then None else get m j)"
  by (induction ks arbitrary: m) (auto simp: get_del)

lemma ok_fold_put: "ok m \<Longrightarrow> ok (fold (\<lambda>k. put k (f k)) ks m)"
  by (induction ks arbitrary: m) (auto simp: ok_put)

end

interpretation gomap: go_map "[]" map_of mput mdel mwf
  by unfold_locales
    (simp_all add: mput_def mdel_def mwf_def update_conv' delete_conv' distinct_update distinct_delete)

lemmas map_of_mput [simp] = gomap.get_put
lemmas map_of_mdel [simp] = gomap.get_del
lemmas mwf_intros [intro, simp] = gomap.ok_emp gomap.ok_put gomap.ok_del

lemma mget_simps [simp]:
  "mget None k = None"
  "mget (Some al) k = map_of al k"
  by (simp_all add: mget_def)

lemma mget_mputo [simp]: "mget (mputo k v m) j = (if j = k then Some v else mget m j)"
  by (cases m) (simp_all add: mputo_def)

lemma mget_mdelo [simp]: "mget (mdelo k m) j = (if j = k then None else mget m j)"
  by (cases m) (simp_all add: mdelo_def)

lemma map_of_eq_empty_iff: "map_of m = Map.empty \<longleftrightarrow> m = []"
  by (cases m) (auto simp: fun_eq_iff)

lemma mdel_eq_Nil: "mdel k m = [] \<longleftrightarrow> (\<forall>j. j \<noteq> k \<longrightarrow> map_of m j = None)"
proof -
  have "mdel k m = [] \<longleftrightarrow> map_of (mdel k m) = Map.empty"
    by (simp add: map_of_eq_empty_iff)
  also have "\<dots> \<longleftrightarrow> (\<forall>j. j \<noteq> k \<longrightarrow> map_of m j = None)"
    by (auto simp: fun_eq_iff)
  finally show ?thesis .
qed

section \<open>Integers\<close>

text \<open>
  Go's \<open>%\<close> truncates towards zero: the sign of the result is the sign of the dividend.
  Counters of the engine (state ids, turns, move counts, indices) are \<open>int\<close>.
\<close>

definition gomod :: "int \<Rightarrow> int \<Rightarrow> int" where
  "gomod a b = sgn a * (\<bar>a\<bar> mod \<bar>b\<bar>)"

lemma gomod_nonneg: "0 \<le> a \<Longrightarrow> 0 < b \<Longrightarrow> gomod a b = a mod b"
  by (cases "a = 0") (simp_all add: gomod_def)

lemma gomod_range: "0 \<le> a \<Longrightarrow> 0 < b \<Longrightarrow> 0 \<le> gomod a b \<and> gomod a b < b"
  by (simp add: gomod_nonneg)

text \<open>
  Reading a slice at an index: out of range is a run-time panic, written \<open>None\<close>.
\<close>

definition index_at :: "'a list \<Rightarrow> int \<Rightarrow> 'a option" where
  "index_at xs i = (if 0 \<le> i \<and> i < int (length xs) then Some (xs ! nat i) else None)"

lemma index_at_in: "0 \<le> i \<Longrightarrow> i < int (length xs) \<Longrightarrow> index_at xs i = Some (xs ! nat i)"
  by (simp add: index_at_def)

lemma index_at_Some: "index_at xs i = Some x \<longleftrightarrow> 0 \<le> i \<and> i < int (length xs) \<and> x = xs ! nat i"
  by (auto simp: index_at_def)

section \<open>Lists\<close>

text \<open>The code's search loops: the index of the first element with a property, if any.\<close>

fun find_index :: "('a \<Rightarrow> bool) \<Rightarrow> 'a list \<Rightarrow> nat option" where
  "find_index P [] = None"
| "find_index P (x # xs) = (if P x then Some 0 else map_option Suc (find_index P xs))"

lemma find_index_None: "find_index P xs = None \<longleftrightarrow> (\<forall>x \<in> set xs. \<not> P x)"
  by (induction xs) auto

lemma find_index_Some:
  "find_index P xs = Some i \<Longrightarrow> i < length xs \<and> P (xs ! i) \<and> (\<forall>j < i. \<not> P (xs ! j))"
proof (induction xs arbitrary: i)
  case (Cons x xs)
  show ?case
  proof (cases "P x")
    case False
    with Cons.prems obtain k where k: "i = Suc k" "find_index P xs = Some k" by auto
    with Cons.IH [OF k(2)] False show ?thesis by (auto simp: less_Suc_eq_0_disj)
  qed (use Cons.prems in auto)
qed simp

definition remove_at :: "nat \<Rightarrow> 'a list \<Rightarrow> 'a list" where
  "remove_at i xs = take i xs @ drop (Suc i) xs"

lemma length_remove_at: "i < length xs \<Longrightarrow> length (remove_at i xs) = length xs - 1"
  by (simp add: remove_at_def)

lemma set_remove_at: "set (remove_at i xs) \<subseteq> set xs"
  using set_take_subset set_drop_subset by (fastforce simp: remove_at_def)

lemma remove_at_distinct:
  assumes "distinct xs" "i < length xs"
  shows "remove_at i xs = filter (\<lambda>x. x \<noteq> xs ! i) xs"
proof -
  have split: "xs = take i xs @ xs ! i # drop (Suc i) xs"
    using assms(2) by (rule id_take_nth_drop)
  with assms(1) have d: "distinct (take i xs @ xs ! i # drop (Suc i) xs)" by simp
  have l: "filter (\<lambda>x. x \<noteq> xs ! i) (take i xs) = take i xs"
    by (rule filter_True) (use d in auto)
  have r: "filter (\<lambda>x. x \<noteq> xs ! i) (drop (Suc i) xs) = drop (Suc i) xs"
    by (rule filter_True) (use d in auto)
  have "filter (\<lambda>x. x \<noteq> xs ! i) xs =
        filter (\<lambda>x. x \<noteq> xs ! i) (take i xs @ xs ! i # drop (Suc i) xs)"
    using split by simp
  also have "\<dots> = remove_at i xs" by (simp add: l r remove_at_def)
  finally show ?thesis ..
qed

text \<open>\<open>strings.Split\<close> by a one-character separator.\<close>

fun splitOn :: "char \<Rightarrow> string \<Rightarrow> string list" where
  "splitOn sep [] = [[]]"
| "splitOn sep (c # cs) = (if c = sep then [] # splitOn sep cs
     else case splitOn sep cs of [] \<Rightarrow> [[c]] | s # ss \<Rightarrow> (c # s) # ss)"

lemma splitOn_plain: "sep \<notin> set s \<Longrightarrow> splitOn sep s = [s]"
  by (induction s) auto

lemma splitOn_append: "sep \<notin> set s \<Longrightarrow> splitOn sep (s @ sep # t) = s # splitOn sep t"
  by (induction s) auto

section \<open>Options\<close>

lemma bind_Some_iff [simp]:
  "Option.bind m f = Some y \<longleftrightarrow> (\<exists>x. m = Some x \<and> f x = Some y)"
  by (cases m) auto

lemma case_prod_eq_iff:
  "(case p of (a, b) \<Rightarrow> f a b) = y \<longleftrightarrow> (\<exists>a b. p = (a, b) \<and> f a b = y)"
  by (cases p) auto

lemma case_sum_eq_iff:
  "(case s of Inl e \<Rightarrow> f e | Inr x \<Rightarrow> g x) = y \<longleftrightarrow> (\<exists>e. s = Inl e \<and> f e = y) \<or> (\<exists>x. s = Inr x \<and> g x = y)"
  by (cases s) auto

lemma sum_case_Inr_iff:
  "(case s of Inl e \<Rightarrow> Inl e | Inr x \<Rightarrow> f x) = Inr y \<longleftrightarrow> (\<exists>x. s = Inr x \<and> f x = Inr y)"
  by (cases s) auto

end
