(* ===== verification/GoValue.thy ===== *)
theory GoValue
  imports Complex_Main Prelude
begin

text \<open>
  Go's \<open>any\<close> as the engine sees it: move arguments, prompt candidates, game-over values,
  opaque block data and plugin data. Numbers carry the name of their (possibly defined)
  type, so that \<open>reflect.DeepEqual\<close>, which distinguishes types, and \<open>asNumber\<close>, which does
  not, can both be written down. Where DeepEqual compares maps they are kept as their entries
  in increasing key order.
  Pointers are names of cells in the memory that game code may mutate.

  Source: \<open>core/target.go\<close> (asNumber, containsCandidate, ValidateSelection) and
  \<open>core/assignment.go\<close> (ValidateAssignment and its helpers), with the part of the Go
  language they use: float64 conversion of integers and DeepEqual.
\<close>

section \<open>float64\<close>

text \<open>
  A float64 is a finite value, an infinity or a NaN. Converting an integer rounds it to
  53 significant bits, ties to even; the result of rounding an integer is an integer.
\<close>

datatype f64 = Fin rat | PosInf | NegInf | NaN

fun f64_eq :: "f64 \<Rightarrow> f64 \<Rightarrow> bool" where
  "f64_eq (Fin x) (Fin y) = (x = y)"
| "f64_eq PosInf PosInf = True"
| "f64_eq NegInf NegInf = True"
| "f64_eq _ _ = False"

fun bitlen :: "nat \<Rightarrow> nat" where
  "bitlen n = (if n = 0 then 0 else Suc (bitlen (n div 2)))"

declare bitlen.simps [simp del]

definition f64_round_nat :: "nat \<Rightarrow> nat" where
  "f64_round_nat n =
     (let e = bitlen n - 53; q = n div 2 ^ e; r = n mod 2 ^ e;
          up = (2 ^ e < 2 * r \<or> 2 * r = 2 ^ e \<and> odd q)
      in (if up then Suc q else q) * 2 ^ e)"

definition int_to_f64 :: "int \<Rightarrow> f64" where
  "int_to_f64 i = Fin (of_int (sgn i * int (f64_round_nat (nat \<bar>i\<bar>))))"

lemma bitlen_le: "n < 2 ^ k \<Longrightarrow> bitlen n \<le> k"
proof (induction k arbitrary: n)
  case 0
  then show ?case by (simp add: bitlen.simps)
next
  case (Suc k)
  then have "n div 2 < 2 ^ k" by simp
  then have "bitlen (n div 2) \<le> k" by (rule Suc.IH)
  then show ?case by (subst bitlen.simps) simp
qed

lemma f64_round_exact: "n < 2 ^ 53 \<Longrightarrow> f64_round_nat n = n"
  using bitlen_le [of n 53] by (simp add: f64_round_nat_def)

text \<open>Integers of at most 53 bits are represented exactly, so comparing them is exact.\<close>

lemma int_to_f64_exact: "\<bar>i\<bar> < 2 ^ 53 \<Longrightarrow> int_to_f64 i = Fin (of_int i)"
proof -
  assume "\<bar>i\<bar> < 2 ^ 53"
  then have "nat \<bar>i\<bar> < 2 ^ 53" by simp
  then have "f64_round_nat (nat \<bar>i\<bar>) = nat \<bar>i\<bar>" by (rule f64_round_exact)
  then show ?thesis by (simp add: int_to_f64_def sgn_mult_abs)
qed

lemma int_to_f64_eq:
  "\<bar>i\<bar> < 2 ^ 53 \<Longrightarrow> \<bar>j\<bar> < 2 ^ 53 \<Longrightarrow> f64_eq (int_to_f64 i) (int_to_f64 j) \<longleftrightarrow> i = j"
  by (simp add: int_to_f64_exact)

section \<open>Values\<close>

datatype goval =
    VNil
  | VBool bool
  | VStr string
  | VInt string int            \<comment> \<open>an integer kind or a defined type over one\<close>
  | VFloat string f64          \<comment> \<open>a float kind or a defined type over one\<close>
  | VPair goval goval          \<comment> \<open>\<open>[2]any\<close>\<close>
  | VList "goval list"         \<comment> \<open>\<open>[]any\<close>\<close>
  | VMap "(string \<times> goval) list"  \<comment> \<open>\<open>map[string]any\<close>\<close>
  | VIntMap "(string \<times> int) list"  \<comment> \<open>\<open>map[string]int\<close>\<close>
  | VRef nat                   \<comment> \<open>a pointer\<close>

abbreviation VI :: "int \<Rightarrow> goval" where
  "VI \<equiv> VInt ''int''"

abbreviation VF :: "rat \<Rightarrow> goval" where
  "VF x \<equiv> VFloat ''float64'' (Fin x)"

text \<open>\<open>reflect.DeepEqual\<close> on values that share no memory.\<close>

fun deep_equal :: "goval \<Rightarrow> goval \<Rightarrow> bool"
and deep_equal_list :: "goval list \<Rightarrow> goval list \<Rightarrow> bool"
and deep_equal_map :: "(string \<times> goval) list \<Rightarrow> (string \<times> goval) list \<Rightarrow> bool" where
  "deep_equal VNil v = (v = VNil)"
| "deep_equal (VBool a) v = (v = VBool a)"
| "deep_equal (VStr a) v = (v = VStr a)"
| "deep_equal (VInt t a) v = (v = VInt t a)"
| "deep_equal (VFloat t a) v = (case v of VFloat u b \<Rightarrow> t = u \<and> f64_eq a b | _ \<Rightarrow> False)"
| "deep_equal (VPair a b) v = (case v of VPair c d \<Rightarrow> deep_equal a c \<and> deep_equal b d | _ \<Rightarrow> False)"
| "deep_equal (VList as) v = (case v of VList bs \<Rightarrow> deep_equal_list as bs | _ \<Rightarrow> False)"
| "deep_equal (VMap as) v = (case v of VMap bs \<Rightarrow> deep_equal_map as bs | _ \<Rightarrow> False)"
| "deep_equal (VIntMap as) v = (v = VIntMap as)"
| "deep_equal (VRef a) v = (v = VRef a)"
| "deep_equal_list [] ws = (ws = [])"
| "deep_equal_list (a # as) ws =
     (case ws of [] \<Rightarrow> False | b # bs \<Rightarrow> deep_equal a b \<and> deep_equal_list as bs)"
| "deep_equal_map [] ws = (ws = [])"
| "deep_equal_map (e # as) ws =
     (case ws of [] \<Rightarrow> False
      | f # bs \<Rightarrow> fst e = fst f \<and> deep_equal (snd e) (snd f) \<and> deep_equal_map as bs)"

section \<open>Selections (\<open>core/target.go\<close>)\<close>

text \<open>Every numeric kind, defined numeric types included, becomes a float64.\<close>

fun asNumber :: "goval \<Rightarrow> f64 option" where
  "asNumber (VInt t n) = Some (int_to_f64 n)"
| "asNumber (VFloat t x) = Some x"
| "asNumber _ = None"

definition containsCandidate :: "goval list \<Rightarrow> goval \<Rightarrow> bool" where
  "containsCandidate cands want =
     (case asNumber want of
        Some n \<Rightarrow> list_ex (\<lambda>c. case asNumber c of Some cf \<Rightarrow> f64_eq cf n | None \<Rightarrow> False) cands
      | None \<Rightarrow> list_ex (\<lambda>c. deep_equal c want) cands)"

record targetRequest =
  trKind :: string
  trCandidates :: "goval list"
  trMin :: int
  trMax :: int
  trSource :: goval
  trData :: "goval gomap option"

datatype selError = SelBadRequest | ErrTargetCardinality | ErrTargetNotCandidate

definition ValidateSelection :: "targetRequest \<Rightarrow> goval list \<Rightarrow> selError option" where
  "ValidateSelection req sel =
     (let mn = (if trMin req = 0 then 1 else trMin req);
          mx = (if trMax req = 0 then mn else trMax req)
      in if mx < mn then Some SelBadRequest
         else if int (length sel) < mn \<or> mx < int (length sel) then Some ErrTargetCardinality
         else if trCandidates req = [] then None
         else if list_ex (\<lambda>s. \<not> containsCandidate (trCandidates req) s) sel
              then Some ErrTargetNotCandidate
         else None)"

section \<open>Pairings (\<open>core/assignment.go\<close>)\<close>

record assignmentRequest =
  arKind :: string
  arPairs :: "(goval \<times> goval) list"
  arMaxPerLeft :: int
  arMaxPerRight :: int
  arAllowEmpty :: bool
  arSource :: goval
  arData :: "goval gomap option"

datatype assignError =
    AssignBadRequest
  | ErrAssignmentNotLegal
  | ErrAssignmentCardinality
  | ErrAssignmentEmpty
  | ErrAssignmentDuplicate
  | ErrAssignmentMalformed

fun asPair :: "goval \<Rightarrow> (goval \<times> goval) option" where
  "asPair (VPair a b) = Some (a, b)"
| "asPair (VList [a, b]) = Some (a, b)"
| "asPair _ = None"

definition sameItem :: "goval \<Rightarrow> goval \<Rightarrow> bool" where
  "sameItem a b =
     (case asNumber a of
        Some af \<Rightarrow> (case asNumber b of Some bf \<Rightarrow> f64_eq af bf | None \<Rightarrow> False)
      | None \<Rightarrow> deep_equal a b)"

definition samePair :: "goval \<times> goval \<Rightarrow> goval \<times> goval \<Rightarrow> bool" where
  "samePair p q = (sameItem (fst p) (fst q) \<and> sameItem (snd p) (snd q))"

definition containsPair :: "(goval \<times> goval) list \<Rightarrow> goval \<times> goval \<Rightarrow> bool" where
  "containsPair ps want = list_ex (\<lambda>p. samePair p want) ps"

text \<open>The first loop: decode every argument, stopping at the first that is not a pair.\<close>

fun asPairs :: "goval list \<Rightarrow> (goval \<times> goval) list option" where
  "asPairs [] = Some []"
| "asPairs (a # as) =
     (case asPair a of None \<Rightarrow> None | Some p \<Rightarrow> map_option ((#) p) (asPairs as))"

text \<open>The second loop: each pair is offered and differs from those before it (\<open>seen\<close>).\<close>

fun checkPairs :: "(goval \<times> goval) list \<Rightarrow> (goval \<times> goval) list \<Rightarrow> (goval \<times> goval) list
    \<Rightarrow> assignError option" where
  "checkPairs offered seen [] = None"
| "checkPairs offered seen (p # ps) =
     (if \<not> containsPair offered p then Some ErrAssignmentNotLegal
      else if list_ex (\<lambda>q. samePair q p) seen then Some ErrAssignmentDuplicate
      else checkPairs offered (seen @ [p]) ps)"

definition uses :: "(goval \<times> goval \<Rightarrow> goval) \<Rightarrow> (goval \<times> goval) list \<Rightarrow> goval \<times> goval \<Rightarrow> nat" where
  "uses side chosen p = length (filter (\<lambda>q. sameItem (side q) (side p)) chosen)"

definition ValidateAssignment ::
  "assignmentRequest \<Rightarrow> goval list \<Rightarrow> assignError + (goval \<times> goval) list" where
  "ValidateAssignment req args =
     (if arMaxPerLeft req < 0 \<or> arMaxPerRight req < 0 then Inl AssignBadRequest
      else if args = [] then (if arAllowEmpty req then Inr [] else Inl ErrAssignmentEmpty)
      else case asPairs args of
        None \<Rightarrow> Inl ErrAssignmentMalformed
      | Some chosen \<Rightarrow>
          (let maxL = (if arMaxPerLeft req = 0 then 1 else arMaxPerLeft req);
               maxR = (if arMaxPerRight req = 0 then 1 else arMaxPerRight req)
           in case checkPairs (arPairs req) [] chosen of
                Some e \<Rightarrow> Inl e
              | None \<Rightarrow>
                  if list_ex (\<lambda>p. maxL < int (uses fst chosen p) \<or> maxR < int (uses snd chosen p)) chosen
                  then Inl ErrAssignmentCardinality
                  else Inr chosen))"

section \<open>Properties\<close>

text \<open>
  What it means to answer a selection prompt: the number of picks is within the bounds the
  request means (0 standing for the documented defaults) and, for a closed prompt, every
  pick is one of the candidates.
\<close>

definition effMin :: "targetRequest \<Rightarrow> int" where
  "effMin req = (if trMin req = 0 then 1 else trMin req)"

definition effMax :: "targetRequest \<Rightarrow> int" where
  "effMax req = (if trMax req = 0 then effMin req else trMax req)"

text \<open>
  ValidateSelection accepts exactly the selections whose size lies within the
  effective bounds of the request and, when the request lists candidates, all of whose
  entries are candidates; in particular no selection answers a request whose effective
  maximum is below its effective minimum.
\<close>

theorem ValidateSelection_accepts_iff:
  "ValidateSelection req sel = None \<longleftrightarrow>
     effMin req \<le> int (length sel) \<and> int (length sel) \<le> effMax req \<and>
     (trCandidates req = [] \<or> list_all (containsCandidate (trCandidates req)) sel)"
  by (auto simp: ValidateSelection_def Let_def effMin_def effMax_def list_ex_iff list_all_iff)

text \<open>A pairing answer is legal when it uses only offered pairs, none twice, within the caps.\<close>

definition capOf :: "int \<Rightarrow> int" where
  "capOf n = (if n = 0 then 1 else n)"

definition legalAnswer :: "assignmentRequest \<Rightarrow> (goval \<times> goval) list \<Rightarrow> bool" where
  "legalAnswer req chosen \<longleftrightarrow>
     (\<forall>p \<in> set chosen. containsPair (arPairs req) p) \<and>
     sorted_wrt (\<lambda>p q. \<not> samePair p q) chosen \<and>
     (\<forall>p \<in> set chosen. int (uses fst chosen p) \<le> capOf (arMaxPerLeft req) \<and>
                        int (uses snd chosen p) \<le> capOf (arMaxPerRight req))"

lemma checkPairs_None_iff:
  "checkPairs offered seen ps = None \<longleftrightarrow>
     (\<forall>p \<in> set ps. containsPair offered p) \<and>
     (\<forall>p \<in> set ps. \<forall>q \<in> set seen. \<not> samePair q p) \<and>
     sorted_wrt (\<lambda>p q. \<not> samePair p q) ps"
  by (induction offered seen ps rule: checkPairs.induct) (auto simp: list_ex_iff)

lemma ValidateAssignment_Inr_iff:
  "ValidateAssignment req args = Inr chosen \<longleftrightarrow>
     0 \<le> arMaxPerLeft req \<and> 0 \<le> arMaxPerRight req \<and>
     (if args = [] then arAllowEmpty req \<and> chosen = []
      else asPairs args = Some chosen \<and> legalAnswer req chosen)"
proof (cases "args = [] \<or> arMaxPerLeft req < 0 \<or> arMaxPerRight req < 0 \<or> asPairs args = None")
  case True
  then show ?thesis by (auto simp: ValidateAssignment_def)
next
  case False
  then obtain ps where ps: "asPairs args = Some ps" by auto
  let ?over = "list_ex (\<lambda>p. capOf (arMaxPerLeft req) < int (uses fst ps p) \<or>
                            capOf (arMaxPerRight req) < int (uses snd ps p)) ps"
  have legal: "legalAnswer req ps \<longleftrightarrow> checkPairs (arPairs req) [] ps = None \<and> \<not> ?over"
    by (auto simp: legalAnswer_def checkPairs_None_iff list_ex_iff not_less)
  have "ValidateAssignment req args =
     (case checkPairs (arPairs req) [] ps of Some e \<Rightarrow> Inl e
      | None \<Rightarrow> if ?over then Inl ErrAssignmentCardinality else Inr ps)"
    using False ps by (simp add: ValidateAssignment_def capOf_def)
  then have "ValidateAssignment req args = Inr chosen \<longleftrightarrow> chosen = ps \<and> legalAnswer req ps"
    by (auto simp: legal split: option.splits if_splits)
  with False ps show ?thesis by auto
qed

text \<open>
  ValidateAssignment returns a pairing exactly when the request's caps are not
  negative and either the answer is empty and allowed to be, or every argument decodes to
  a pair (the result, in argument order) and the pairs are all offered, pairwise
  different and within the per-item caps.
\<close>

theorem ValidateAssignment_accepts_iff:
  "ValidateAssignment req args = Inr chosen \<longleftrightarrow>
     0 \<le> arMaxPerLeft req \<and> 0 \<le> arMaxPerRight req \<and>
     (if args = [] then arAllowEmpty req \<and> chosen = []
      else asPairs args = Some chosen \<and> legalAnswer req chosen)"
  by (rule ValidateAssignment_Inr_iff)

text \<open>
  A JSON round trip turns every number into a float64 and every array into \<open>[]any\<close>;
  strings, booleans and null come back as they were.
\<close>

fun jsonTrip :: "goval \<Rightarrow> goval" where
  "jsonTrip (VInt t n) = VFloat ''float64'' (int_to_f64 n)"
| "jsonTrip (VFloat t x) = VFloat ''float64'' x"
| "jsonTrip (VPair a b) = VList [jsonTrip a, jsonTrip b]"
| "jsonTrip (VList vs) = VList (map jsonTrip vs)"
| "jsonTrip (VMap m) = VMap (map (\<lambda>(k, v). (k, jsonTrip v)) m)"
| "jsonTrip (VIntMap m) = VMap (map (\<lambda>(k, n). (k, VFloat ''float64'' (int_to_f64 n))) m)"
| "jsonTrip v = v"

fun scalar :: "goval \<Rightarrow> bool" where
  "scalar (VPair _ _) = False"
| "scalar (VList _) = False"
| "scalar (VMap _) = False"
| "scalar (VIntMap _) = False"
| "scalar (VRef _) = False"
| "scalar _ = True"

lemma asNumber_jsonTrip [simp]: "asNumber (jsonTrip v) = asNumber v"
  by (cases v) simp_all

lemma jsonTrip_scalar: "scalar v \<Longrightarrow> asNumber v = None \<Longrightarrow> jsonTrip v = v"
  by (cases v) simp_all

lemma containsCandidate_jsonTrip:
  "scalar v \<Longrightarrow> containsCandidate cs (jsonTrip v) = containsCandidate cs v"
  by (cases "asNumber v") (simp_all add: containsCandidate_def jsonTrip_scalar)

lemma sameItem_jsonTrip_right: "scalar b \<Longrightarrow> sameItem a (jsonTrip b) = sameItem a b"
  by (cases "asNumber a"; cases "asNumber b"; cases a; cases b) (simp_all add: sameItem_def)

lemma sameItem_jsonTrip_left: "scalar a \<Longrightarrow> sameItem (jsonTrip a) b = sameItem a b"
  by (cases a) (simp_all add: sameItem_def)

text \<open>
  A selection of scalar items (numbers of any type, strings, booleans) is judged the
  same whether the player's values arrive as Go values or after a JSON round trip.
\<close>

theorem ValidateSelection_json_invariant:
  assumes "list_all scalar sel"
  shows "ValidateSelection req (map jsonTrip sel) = ValidateSelection req sel"
  using assms
  by (auto simp: ValidateSelection_def Let_def list_ex_iff list_all_iff containsCandidate_jsonTrip)

theorem ValidateSelection_json_invariant_witness:
  "list_all scalar [VI 3, VStr ''b''] \<and>
   ValidateSelection \<lparr>trKind = ''k'', trCandidates = [VInt ''EntityID'' 3, VStr ''b''], trMin = 2,
       trMax = 0, trSource = VNil, trData = None\<rparr> (map jsonTrip [VI 3, VStr ''b'']) = None"
proof -
  have h: "list_all scalar [VI 3, VStr ''b'']" by simp
  have "ValidateSelection \<lparr>trKind = ''k'', trCandidates = [VInt ''EntityID'' 3, VStr ''b''], trMin = 2,
       trMax = 0, trSource = VNil, trData = None\<rparr> [VI 3, VStr ''b''] = None"
    by (simp add: ValidateSelection_def containsCandidate_def int_to_f64_def)
  then show ?thesis using h ValidateSelection_json_invariant [OF h] by simp
qed

text \<open>
  Comparing identifiers through float64 conflates 64-bit identifiers that differ only
  below the 53-bit precision: a prompt offering entity 9007199254740992 accepts entity
  9007199254740993, which is not a candidate.
\<close>

theorem containsCandidate_conflates_large_ids:
  "containsCandidate [VInt ''EntityID'' 9007199254740992] (VInt ''EntityID'' 9007199254740993) \<and>
   \<not> deep_equal (VInt ''EntityID'' 9007199254740992) (VInt ''EntityID'' 9007199254740993)"
proof -
  have "f64_round_nat 9007199254740992 = 9007199254740992"
       "f64_round_nat 9007199254740993 = 9007199254740992"
    by (simp_all add: f64_round_nat_def bitlen.simps)
  then show ?thesis by (simp add: containsCandidate_def int_to_f64_def)
qed

end
