(* ===== verification/EngineTypes.thy ===== *)
theory EngineTypes
  imports GoValue "HOL-Library.Word"
begin

text \<open>
  The data model of \<open>core/\<close>: \<open>Ctx\<close> (ctx.go), \<open>State\<close> (state.go), the log (log.go), prompts
  and queued actions (queue.go), events (events.go), moves and move contexts (move.go),
  turn, stage and phase configurations (turn.go, stage.go, phase.go), plugins (plugin.go)
  and \<open>Game\<close> (game.go), with the queueing APIs handed to game code.

  \<open>'g\<close> is the type of a game's own state \<open>G\<close>, which the engine never inspects; \<open>'h\<close> is the
  memory that game code and plugins may mutate in place (everything their pointers reach).
  The engine threads \<open>'h\<close> through every call of game code and never rolls it back.

  Game code (moves, hooks, predicates) is a function from its \<open>MoveContext\<close> and the memory
  to its result, the requests it made through the queueing APIs (\<open>effects\<close>) and the new
  memory. The APIs only ever append, so the requests of a call are exactly what it adds to
  the queues it was handed. Turn-order callbacks and \<open>Phase.Next\<close> make no requests.
\<close>

section \<open>Errors\<close>

text \<open>
  The sentinel errors of the reducer; errors that wrap a sentinel are that sentinel. \<open>ErrConfig\<close>
  is asMove's complaint about a malformed move table and \<open>ErrGame\<close> an error of game code.
\<close>

datatype gerror =
    ErrInvalidMove | ErrWrongPlayer | ErrUnknownMove | ErrGameOver | ErrMinMoves
  | ErrInactivePlayer | ErrStaleState | ErrBlocked | ErrUnknownResumeTag | ErrMoveNotInStage
  | ErrServerOnly | ErrDrainOverflow
  | ErrConfig string
  | ErrGame string

section \<open>Ctx\<close>

record ctx =
  NumPlayers :: int
  CurrentPlayer :: string
  PlayOrder :: "string list"
  PlayOrderPos :: int
  Turn :: int
  Phase :: string
  ActivePlayers :: "string gomap option"
  Gameover :: goval
  NumMoves :: int
  NowMs :: int
  Seed :: "64 word"

section \<open>Log entries, prompts, queued actions\<close>

record logEntry =
  leKind :: string
  leMove :: string
  lePlayerID :: string
  leArgs :: "goval list"
  leNowMs :: int
  leTurn :: int
  lePhase :: string
  leStage :: string
  leRedact :: bool
  leUndoable :: bool
  leParent :: int
  leResumeTag :: string
  leServerDispatch :: bool

definition emptyLogEntry :: logEntry where
  "emptyLogEntry = \<lparr>leKind = '''', leMove = '''', lePlayerID = '''', leArgs = [], leNowMs = 0,
     leTurn = 0, lePhase = '''', leStage = '''', leRedact = False, leUndoable = False,
     leParent = 0, leResumeTag = '''', leServerDispatch = False\<rparr>"

record queuedAction =
  qaPlayerID :: string
  qaMove :: string
  qaArgs :: "goval list"

record blockSpec =
  bTag :: string
  bPlayerID :: string
  bMove :: string
  bOrder :: int
  bData :: goval
  bTarget :: "targetRequest option"
  bAssignment :: "assignmentRequest option"

definition blankBlock :: blockSpec where
  "blankBlock = \<lparr>bTag = '''', bPlayerID = '''', bMove = '''', bOrder = 0, bData = VNil,
                 bTarget = None, bAssignment = None\<rparr>"

section \<open>Active-player configurations\<close>

datatype activePlayersConfig = ActivePlayersConfig
  (apcCurrentPlayer: "string option")
  (apcOthers: "string option")
  (apcAll: "string option")
  (apcValue: "string gomap option")
  (apcMinMoves: int)
  (apcMaxMoves: int)
  (apcPerPlayerMinMoves: "int gomap option")
  (apcPerPlayerMaxMoves: "int gomap option")
  (apcRevert: bool)
  (apcNext: "activePlayersConfig option")

record activeFrame =
  afActivePlayers :: "string gomap option"
  afMoveCounts :: "int gomap option"
  afStageMin :: "int gomap option"
  afStageMax :: "int gomap option"

section \<open>State\<close>

text \<open>
  An undo snapshot is a State whose own snapshot stack is nil (cloneStateForSnapshot), so the
  recursive type \<open>State\<close> is the record of a snapshot extended with the stack of snapshots.
\<close>

record 'g snapshot =
  G :: 'g
  rawG :: "string option"
  rawPlugins :: "string gomap option"
  Ctx :: ctx
  StateID :: int
  Plugins :: "goval gomap option"
  Log :: "logEntry list"
  Undone :: "logEntry list"
  Queue :: "queuedAction list"
  Blocks :: "blockSpec list"
  ActiveStack :: "activeFrame list"
  PendingNext :: "activePlayersConfig option"
  MoveCounts :: "int gomap option"
  StageMinMoves :: "int gomap option"
  StageMaxMoves :: "int gomap option"

record 'g state = "'g snapshot" +
  TurnSnapshots :: "'g snapshot list"

section \<open>Events\<close>

record setStageOpts =
  ssStage :: string
  ssMinMoves :: int
  ssMaxMoves :: int
  ssHasMin :: bool
  ssHasMax :: bool

datatype event =
    EvEndTurn string
  | EvPass
  | EvEndPhase
  | EvSetPhase string
  | EvEndStage
  | EvSetStage string
  | EvSetStageLong setStageOpts
  | EvEndGame goval
  | EvSetActivePlayers activePlayersConfig
  | EvRemovePlayer string
  | EvRunMove string "goval list"

text \<open>The \<open>Events\<close> methods append to the queue of the surrounding drain.\<close>

definition evEndTurn :: "string list \<Rightarrow> event list \<Rightarrow> event list" where
  "evEndTurn nxt q = q @ [EvEndTurn (case nxt of [] \<Rightarrow> '''' | p # _ \<Rightarrow> p)]"

definition evPass :: "event list \<Rightarrow> event list" where
  "evPass q = q @ [EvPass]"

definition evEndPhase :: "event list \<Rightarrow> event list" where
  "evEndPhase q = q @ [EvEndPhase]"

definition evSetPhase :: "string \<Rightarrow> event list \<Rightarrow> event list" where
  "evSetPhase name q = q @ [EvSetPhase name]"

definition evEndStage :: "event list \<Rightarrow> event list" where
  "evEndStage q = q @ [EvEndStage]"

definition evSetStage :: "string \<Rightarrow> event list \<Rightarrow> event list" where
  "evSetStage name q = q @ [EvSetStage name]"

definition evSetStageLong :: "string \<Rightarrow> int \<Rightarrow> int \<Rightarrow> event list \<Rightarrow> event list" where
  "evSetStageLong stage mn mx q = q @ [EvSetStageLong
     \<lparr>ssStage = stage, ssMinMoves = (if 0 \<le> mn then mn else 0), ssMaxMoves = (if 0 \<le> mx then mx else 0),
      ssHasMin = (0 \<le> mn), ssHasMax = (0 \<le> mx)\<rparr>]"

definition evEndGame :: "goval list \<Rightarrow> event list \<Rightarrow> event list" where
  "evEndGame result q = q @ [EvEndGame (case result of [] \<Rightarrow> VBool True | r # _ \<Rightarrow> r)]"

definition evSetActivePlayers :: "activePlayersConfig \<Rightarrow> event list \<Rightarrow> event list" where
  "evSetActivePlayers cfg q = q @ [EvSetActivePlayers cfg]"

definition evRemovePlayer :: "string \<Rightarrow> event list \<Rightarrow> event list" where
  "evRemovePlayer pid q = q @ [EvRemovePlayer pid]"

definition evRunMove :: "string \<Rightarrow> goval list \<Rightarrow> event list \<Rightarrow> event list" where
  "evRunMove name args q = q @ [EvRunMove name args]"

definition evDrain :: "event list \<Rightarrow> event list \<times> event list" where
  "evDrain q = (q, [])"

section \<open>The action queue\<close>

record queue =
  qPending :: "queuedAction list"
  qBlocks :: "blockSpec list"

definition emptyQueue :: queue where
  "emptyQueue = \<lparr>qPending = [], qBlocks = []\<rparr>"

type_synonym blockOption = "blockSpec \<Rightarrow> blockSpec"

definition AnsweredBy :: "string \<Rightarrow> blockOption" where
  "AnsweredBy mv b = b\<lparr>bMove := mv\<rparr>"

definition newBlock :: "blockSpec \<Rightarrow> blockOption list \<Rightarrow> blockSpec" where
  "newBlock b opts = fold (\<lambda>opt b. opt b) opts b"

definition qPush :: "string \<Rightarrow> string \<Rightarrow> goval list \<Rightarrow> queue \<Rightarrow> queue" where
  "qPush pid mv args q =
     q\<lparr>qPending := qPending q @ [\<lparr>qaPlayerID = pid, qaMove = mv, qaArgs = args\<rparr>]\<rparr>"

definition qBlock :: "string \<Rightarrow> string \<Rightarrow> goval \<Rightarrow> blockOption list \<Rightarrow> queue \<Rightarrow> queue" where
  "qBlock tag pid data opts q =
     q\<lparr>qBlocks := qBlocks q @ [newBlock (blankBlock\<lparr>bTag := tag, bPlayerID := pid, bData := data\<rparr>) opts]\<rparr>"

definition qRequestTarget :: "string \<Rightarrow> targetRequest \<Rightarrow> blockOption list \<Rightarrow> queue \<Rightarrow> queue" where
  "qRequestTarget pid req opts q =
     q\<lparr>qBlocks := qBlocks q @
        [newBlock (blankBlock\<lparr>bTag := trKind req, bPlayerID := pid, bTarget := Some req\<rparr>) opts]\<rparr>"

definition qRequestAssignment :: "string \<Rightarrow> assignmentRequest \<Rightarrow> blockOption list \<Rightarrow> queue \<Rightarrow> queue" where
  "qRequestAssignment pid req opts q =
     q\<lparr>qBlocks := qBlocks q @
        [newBlock (blankBlock\<lparr>bTag := arKind req, bPlayerID := pid, bAssignment := Some req\<rparr>) opts]\<rparr>"

definition qUnblock :: "string \<Rightarrow> string \<Rightarrow> queue \<Rightarrow> queue \<times> bool" where
  "qUnblock tag pid q =
     (case find_index (\<lambda>b. bTag b = tag \<and> bPlayerID b = pid) (qBlocks q) of
        Some i \<Rightarrow> (q\<lparr>qBlocks := remove_at i (qBlocks q)\<rparr>, True)
      | None \<Rightarrow> (q, False))"

definition qPendingBlocks :: "queue \<Rightarrow> blockSpec list" where
  "qPendingBlocks q = qBlocks q"

definition qDrain :: "queue \<Rightarrow> (queuedAction list \<times> blockSpec list) \<times> queue" where
  "qDrain q = ((qPending q, qBlocks q), emptyQueue)"

text \<open>The requests a call of game code makes on the action queue, in order.\<close>

datatype queueOp =
    OpPush string string "goval list"
  | OpBlock string string goval "blockOption list"
  | OpTarget string targetRequest "blockOption list"
  | OpAssignment string assignmentRequest "blockOption list"
  | OpUnblock string string

fun runOp :: "queueOp \<Rightarrow> queue \<Rightarrow> queue" where
  "runOp (OpPush pid mv args) q = qPush pid mv args q"
| "runOp (OpBlock tag pid data opts) q = qBlock tag pid data opts q"
| "runOp (OpTarget pid req opts) q = qRequestTarget pid req opts q"
| "runOp (OpAssignment pid req opts) q = qRequestAssignment pid req opts q"
| "runOp (OpUnblock tag pid) q = fst (qUnblock tag pid q)"

section \<open>Game code\<close>

record 'g moveContext =
  mcG :: 'g
  mcCtx :: ctx
  mcPlayerID :: string
  mcPlugins :: "goval gomap option"
  mcQueue :: "queue option"
  mcResumingBlock :: "blockSpec option"
  mcExtra :: "logEntry list"
  mcChainedMoves :: nat

record effects =
  efEvents :: "event list"
  efOps :: "queueOp list"
  efDrops :: "string list"
  efLog :: "logEntry list"

definition noEffects :: effects where
  "noEffects = \<lparr>efEvents = [], efOps = [], efDrops = [], efLog = []\<rparr>"

type_synonym ('g, 'h, 'a) callback = "'g moveContext \<Rightarrow> 'h \<Rightarrow> 'a \<times> effects \<times> 'h"
type_synonym ('g, 'h) hookFn = "('g, 'h, 'g) callback"
type_synonym ('g, 'h) moveFn = "'g moveContext \<Rightarrow> goval list \<Rightarrow> 'h \<Rightarrow> (gerror + 'g) \<times> effects \<times> 'h"

text \<open>\<open>AddLog\<close> fills in the kind, turn and phase an entry leaves empty.\<close>

definition AddLog :: "ctx \<Rightarrow> logEntry \<Rightarrow> logEntry" where
  "AddLog c e = e\<lparr>leKind := (if leKind e = '''' then ''custom'' else leKind e),
                  leTurn := (if leTurn e = 0 then Turn c else leTurn e),
                  lePhase := (if lePhase e = '''' then Phase c else lePhase e)\<rparr>"

definition mcPlugin :: "'g moveContext \<Rightarrow> string \<Rightarrow> goval" where
  "mcPlugin mc name = (case mget (mcPlugins mc) name of Some v \<Rightarrow> v | None \<Rightarrow> VNil)"

text \<open>\<open>Undoable\<close> and \<open>Redact\<close> accept nil, a bool, a predicate, or anything else.\<close>

datatype ('g, 'h) flag =
    FlagNil
  | FlagBool bool
  | FlagFn "'g moveContext \<Rightarrow> 'h \<Rightarrow> bool"
  | FlagOther

record ('g, 'h) move =
  mvMove :: "('g, 'h) moveFn option"
  mvUndoable :: "('g, 'h) flag"
  mvRedact :: "('g, 'h) flag"
  mvServerOnly :: bool
  mvNoLimit :: bool
  mvIgnoreStaleStateID :: bool
  mvTimeout :: int
  mvIgnoreBlocks :: bool
  mvAnyPlayer :: bool

definition mkMove :: "('g, 'h) moveFn \<Rightarrow> ('g, 'h) move" where
  "mkMove f = \<lparr>mvMove = Some f, mvUndoable = FlagNil, mvRedact = FlagNil, mvServerOnly = False,
     mvNoLimit = False, mvIgnoreStaleStateID = False, mvTimeout = 0, mvIgnoreBlocks = False,
     mvAnyPlayer = False\<rparr>"

fun flagValue :: "bool \<Rightarrow> ('g, 'h) flag \<Rightarrow> 'g moveContext \<Rightarrow> 'h \<Rightarrow> bool" where
  "flagValue dflt FlagNil mc h = dflt"
| "flagValue dflt (FlagBool b) mc h = b"
| "flagValue dflt (FlagFn f) mc h = f mc h"
| "flagValue dflt FlagOther mc h = dflt"

definition IsUndoable :: "('g, 'h) move \<Rightarrow> 'g moveContext \<Rightarrow> 'h \<Rightarrow> bool" where
  "IsUndoable m = flagValue True (mvUndoable m)"

definition IsRedacted :: "('g, 'h) move \<Rightarrow> 'g moveContext \<Rightarrow> 'h \<Rightarrow> bool" where
  "IsRedacted m = flagValue False (mvRedact m)"

text \<open>An entry of a move table: a long-form Move, a bare function, or anything else.\<close>

datatype ('g, 'h) rawMove =
    RawMove "('g, 'h) move"
  | RawFn "('g, 'h) moveFn"
  | RawBad string

fun asMove :: "('g, 'h) rawMove \<Rightarrow> gerror + ('g, 'h) move" where
  "asMove (RawMove m) = (if mvMove m = None then Inl (ErrConfig ''move has nil Move function'') else Inr m)"
| "asMove (RawFn f) = Inr (mkMove f)"
| "asMove (RawBad t) = Inl (ErrConfig ''unsupported move type'')"

section \<open>Configurations\<close>

record ('g, 'h) stageConfig =
  scMoves :: "('g, 'h) rawMove gomap option"
  scExclusive :: bool
  scNext :: string
  scOnBegin :: "('g, 'h) hookFn option"
  scOnEnd :: "('g, 'h) hookFn option"

text \<open>
  The outer option of \<open>Next\<close> is a run-time panic (the round-robin orders divide by the
  number of players), the inner one is Go's nil: the phase should end.
\<close>

record ('g, 'h) turnOrder =
  toFirst :: "('g moveContext \<Rightarrow> 'h \<Rightarrow> int \<times> 'h) option"
  toNext :: "('g moveContext \<Rightarrow> 'h \<Rightarrow> (int option \<times> 'h) option) option"
  toPlayOrder :: "('g moveContext \<Rightarrow> 'h \<Rightarrow> string list \<times> 'h) option"

record ('g, 'h) turnConfig =
  tcOrder :: "('g, 'h) turnOrder"
  tcOnBegin :: "('g, 'h) hookFn option"
  tcOnEnd :: "('g, 'h) hookFn option"
  tcOnMove :: "('g, 'h) hookFn option"
  tcEndIf :: "('g, 'h, bool \<times> string) callback option"
  tcMinMoves :: int
  tcMaxMoves :: int
  tcTimeBudget :: int
  tcActivePlayers :: "activePlayersConfig option"
  tcStages :: "('g, 'h) stageConfig gomap"

datatype ('g, 'h) phaseNext =
    NextNil
  | NextName string
  | NextFn "'g moveContext \<Rightarrow> 'h \<Rightarrow> string \<times> 'h"
  | NextOther

record ('g, 'h) phaseConfig =
  pcOnBegin :: "('g, 'h) hookFn option"
  pcOnEnd :: "('g, 'h) hookFn option"
  pcEndIf :: "('g, 'h, bool \<times> string) callback option"
  pcMoves :: "('g, 'h) rawMove gomap option"
  pcTurn :: "('g, 'h) turnConfig option"
  pcStart :: bool
  pcNext :: "('g, 'h) phaseNext"

fun resolveNextPhase :: "('g, 'h) phaseConfig \<Rightarrow> 'g moveContext \<Rightarrow> 'h \<Rightarrow> string \<times> 'h" where
  "resolveNextPhase p mc h = (case pcNext p of
     NextNil \<Rightarrow> ('''', h)
   | NextName n \<Rightarrow> (n, h)
   | NextFn f \<Rightarrow> f mc h
   | NextOther \<Rightarrow> ('''', h))"

section \<open>Plugins and games\<close>

datatype gameMethod =
    GameMethodMove | GameMethodTurnOnBegin | GameMethodTurnOnEnd | GameMethodTurnOnMove
  | GameMethodPhaseOnBegin | GameMethodPhaseOnEnd | GameMethodGameOnEnd
  | GameMethodStageOnBegin | GameMethodStageOnEnd

text \<open>
  A plugin with the optional interfaces it implements. The \<open>*Game\<close> argument of the methods is
  always the game the plugin is registered on, so it is part of the method.
\<close>

record ('g, 'h) plugin =
  plName :: string
  plSetup :: "('g \<Rightarrow> ctx \<Rightarrow> 'h \<Rightarrow> goval \<times> 'h) option"
  plAPI :: "(goval \<Rightarrow> 'g \<Rightarrow> ctx \<Rightarrow> string \<Rightarrow> 'h \<Rightarrow> goval \<times> 'h) option"
  plFlush :: "(goval \<Rightarrow> goval \<Rightarrow> 'g \<Rightarrow> ctx \<Rightarrow> 'h \<Rightarrow> goval \<times> 'h) option"
  plIsInvalid :: "(goval \<Rightarrow> 'g \<Rightarrow> ctx \<Rightarrow> 'h \<Rightarrow> gerror option) option"
  plPlayerView :: "(goval \<Rightarrow> 'g \<Rightarrow> ctx \<Rightarrow> string \<Rightarrow> goval) option"
  plWrapMove :: "(('g, 'h) moveFn \<Rightarrow> ('g, 'h) moveFn) option"
  plWrapHook :: "(('g, 'h) hookFn \<Rightarrow> gameMethod \<Rightarrow> ('g, 'h) hookFn) option"

record enumerateAction =
  eaMove :: string
  eaArgs :: "goval list"

text \<open>\<open>gmNilG\<close> is the nil \<open>G\<close> a game without a \<open>Setup\<close> starts from.\<close>

record ('g, 'h) game =
  gmName :: string
  gmMinPlayers :: int
  gmMaxPlayers :: int
  gmSetup :: "(ctx \<Rightarrow> goval \<Rightarrow> 'h \<Rightarrow> 'g \<times> 'h) option"
  gmNilG :: 'g
  gmValidateSetupData :: "(goval \<Rightarrow> int \<Rightarrow> string) option"
  gmMoves :: "('g, 'h) rawMove gomap option"
  gmTurn :: "('g, 'h) turnConfig option"
  gmPhases :: "('g, 'h) phaseConfig gomap"
  gmEndIf :: "('g, 'h, goval) callback option"
  gmOnEnd :: "('g, 'h) hookFn option"
  gmOnUndo :: "('g, 'h) hookFn option"
  gmPlayerView :: "('g \<Rightarrow> ctx \<Rightarrow> string \<Rightarrow> 'g) option"
  gmBlockView :: "(blockSpec \<Rightarrow> string \<Rightarrow> blockSpec) option"
  gmSeed :: goval
  gmDisableUndo :: bool
  gmPlugins :: "('g, 'h) plugin list"
  gmEnumerate :: "('g \<Rightarrow> ctx \<Rightarrow> string \<Rightarrow> enumerateAction list) option"

definition PlayerCount :: "('g, 'h) game \<Rightarrow> int \<Rightarrow> int" where
  "PlayerCount g requested =
     (let n = (if 0 < requested then requested
               else if 0 < gmMaxPlayers g then gmMaxPlayers g
               else if 0 < gmMinPlayers g then gmMinPlayers g
               else 2);
          n = (if 0 < gmMinPlayers g \<and> n < gmMinPlayers g then gmMinPlayers g else n)
      in if 0 < gmMaxPlayers g \<and> gmMaxPlayers g < n then gmMaxPlayers g else n)"

definition startPhase :: "('g, 'h) game \<Rightarrow> string" where
  "startPhase g = (case find (\<lambda>(_, p). pcStart p) (gmPhases g) of Some (name, _) \<Rightarrow> name | None \<Rightarrow> '''')"

definition scopeMoves :: "('g, 'h) game \<Rightarrow> string \<Rightarrow> ('g, 'h) rawMove gomap option" where
  "scopeMoves g phase =
     (case (if phase \<noteq> '''' then map_of (gmPhases g) phase else None) of
        Some p \<Rightarrow> (if pcMoves p \<noteq> None then pcMoves p else gmMoves g)
      | None \<Rightarrow> gmMoves g)"

definition scopeTurn :: "('g, 'h) game \<Rightarrow> string \<Rightarrow> ('g, 'h) turnConfig option" where
  "scopeTurn g phase =
     (case (if phase \<noteq> '''' then map_of (gmPhases g) phase else None) of
        Some p \<Rightarrow> (if pcTurn p \<noteq> None then pcTurn p else gmTurn g)
      | None \<Rightarrow> gmTurn g)"

text \<open>A stage name denotes the phase's entry if the active phase has one, else the game's.\<close>

definition lookupStage :: "('g, 'h) game \<Rightarrow> string \<Rightarrow> string \<Rightarrow> ('g, 'h) stageConfig option" where
  "lookupStage g phase stage =
     (let inPhase = (case (if phase \<noteq> '''' then map_of (gmPhases g) phase else None) of
                       Some p \<Rightarrow> (case pcTurn p of Some t \<Rightarrow> map_of (tcStages t) stage | None \<Rightarrow> None)
                     | None \<Rightarrow> None)
      in case inPhase of
           Some s \<Rightarrow> Some s
         | None \<Rightarrow> (case gmTurn g of Some t \<Rightarrow> map_of (tcStages t) stage | None \<Rightarrow> None))"

section \<open>Requests\<close>

record moveRequest =
  rqPlayerID :: string
  rqMove :: string
  rqArgs :: "goval list"
  rqStateID :: int
  rqResumeTag :: string
  rqNowMs :: int
  rqServerDispatch :: bool
  rqFromClient :: bool

end
