(* ===== verification/Stages.thy ===== *)
theory Stages
  imports EngineTypes
begin

text \<open>
  The active-player state machine: \<open>ActivePlayersConfig\<close> presets and the in-order chain
  (stage.go), installing a configuration and draining it (transitions.go), per-player move
  budgets (reducer.go), and the container copies of undo.go.
\<close>

section \<open>Presets and the in-order chain (\<open>core/stage.go\<close>)\<close>

definition emptyConfig :: activePlayersConfig where
  "emptyConfig = ActivePlayersConfig None None None None 0 0 None None False None"

definition StageNull :: string where
  "StageNull = ''''"

definition ActivePlayersAll :: activePlayersConfig where
  "ActivePlayersAll = ActivePlayersConfig None None (Some StageNull) None 0 0 None None False None"

definition ActivePlayersAllOnce :: activePlayersConfig where
  "ActivePlayersAllOnce = ActivePlayersConfig None None (Some StageNull) None 1 1 None None False None"

definition ActivePlayersOthers :: activePlayersConfig where
  "ActivePlayersOthers = ActivePlayersConfig None (Some StageNull) None None 0 0 None None False None"

definition ActivePlayersOthersOnce :: activePlayersConfig where
  "ActivePlayersOthersOnce = ActivePlayersConfig None (Some StageNull) None None 1 1 None None False None"

definition orderLink :: "string \<Rightarrow> int \<Rightarrow> int \<Rightarrow> string \<Rightarrow> activePlayersConfig option \<Rightarrow> activePlayersConfig" where
  "orderLink stage mn mx p nxt =
     ActivePlayersConfig None None None (Some [(p, stage)]) mn mx None None False nxt"

text \<open>The chain is built from the last player backwards.\<close>

definition ActivePlayersInOrder :: "string list \<Rightarrow> string \<Rightarrow> int \<Rightarrow> int \<Rightarrow> activePlayersConfig" where
  "ActivePlayersInOrder players stage mn mx =
     (if players = [] then emptyConfig
      else fold (\<lambda>p prev. orderLink stage mn mx p (Some prev)) (rev (butlast players))
             (orderLink stage mn mx (last players) None))"

section \<open>Copies (\<open>core/transitions.go\<close>, \<open>core/undo.go\<close>)\<close>

definition copyMap :: "'v gomap option \<Rightarrow> 'v gomap option" where
  "copyMap m = map_option (\<lambda>al. fold (\<lambda>(k, v). mput k v) al []) m"

definition copyStrMap :: "string gomap option \<Rightarrow> string gomap option" where
  "copyStrMap m = copyMap m"

definition copyIntMap :: "int gomap option \<Rightarrow> int gomap option" where
  "copyIntMap m = copyMap m"

definition copyFrame :: "activeFrame \<Rightarrow> activeFrame" where
  "copyFrame f = \<lparr>afActivePlayers = copyStrMap (afActivePlayers f), afMoveCounts = copyIntMap (afMoveCounts f),
                  afStageMin = copyIntMap (afStageMin f), afStageMax = copyIntMap (afStageMax f)\<rparr>"

definition ownContainers :: "'g state \<Rightarrow> 'g state" where
  "ownContainers s =
     s\<lparr>Plugins := copyMap (Plugins s),
       Ctx := (Ctx s)\<lparr>ActivePlayers := copyStrMap (ActivePlayers (Ctx s))\<rparr>,
       MoveCounts := copyIntMap (MoveCounts s),
       StageMinMoves := copyIntMap (StageMinMoves s),
       StageMaxMoves := copyIntMap (StageMaxMoves s),
       ActiveStack := map copyFrame (ActiveStack s)\<rparr>"

section \<open>Installing and draining a configuration (\<open>core/transitions.go\<close>)\<close>

text \<open>Later assignments win: all, then others, then the current player, then explicit values.\<close>

definition activeMap :: "ctx \<Rightarrow> activePlayersConfig \<Rightarrow> string gomap" where
  "activeMap c cfg =
     (let out = (case apcAll cfg of None \<Rightarrow> []
                 | Some s \<Rightarrow> fold (\<lambda>p. mput p s) (PlayOrder c) []);
          out = (case apcOthers cfg of None \<Rightarrow> out
                 | Some s \<Rightarrow> fold (\<lambda>p m. if p \<noteq> CurrentPlayer c then mput p s m else m) (PlayOrder c) out);
          out = (case apcCurrentPlayer cfg of None \<Rightarrow> out | Some s \<Rightarrow> mput (CurrentPlayer c) s out)
      in case apcValue cfg of None \<Rightarrow> out | Some v \<Rightarrow> fold (\<lambda>(p, s). mput p s) v out)"

definition stageLimits :: "int \<Rightarrow> int gomap option \<Rightarrow> string list \<Rightarrow> int gomap" where
  "stageLimits bound per pids =
     fold (\<lambda>pid m.
        (let m = (if 0 < bound then mput pid bound m else m)
         in case mget per pid of Some v \<Rightarrow> mput pid v m | None \<Rightarrow> m)) pids []"

definition nilIfEmpty :: "'v gomap \<Rightarrow> 'v gomap option" where
  "nilIfEmpty m = (if m = [] then None else Some m)"

definition applySetActivePlayers :: "'g state \<Rightarrow> activePlayersConfig \<Rightarrow> 'g state" where
  "applySetActivePlayers st cfg =
     (let stack = (if apcRevert cfg
                   then ActiveStack st @
                     [\<lparr>afActivePlayers = copyStrMap (ActivePlayers (Ctx st)),
                       afMoveCounts = copyIntMap (MoveCounts st),
                       afStageMin = copyIntMap (StageMinMoves st),
                       afStageMax = copyIntMap (StageMaxMoves st)\<rparr>]
                   else ActiveStack st);
          out = activeMap (Ctx st) cfg;
          mins = stageLimits (apcMinMoves cfg) (apcPerPlayerMinMoves cfg) (mkeys out);
          maxs = stageLimits (apcMaxMoves cfg) (apcPerPlayerMaxMoves cfg) (mkeys out)
      in st\<lparr>ActiveStack := stack, PendingNext := apcNext cfg,
            Ctx := (Ctx st)\<lparr>ActivePlayers := nilIfEmpty out\<rparr>,
            MoveCounts := None,
            StageMinMoves := nilIfEmpty mins,
            StageMaxMoves := nilIfEmpty maxs\<rparr>)"

definition drainActivePlayers :: "'g state \<Rightarrow> 'g state" where
  "drainActivePlayers st =
     (if ActiveStack st \<noteq> [] then
        (let top = last (ActiveStack st)
         in st\<lparr>ActiveStack := butlast (ActiveStack st),
               Ctx := (Ctx st)\<lparr>ActivePlayers := afActivePlayers top\<rparr>,
               MoveCounts := afMoveCounts top,
               StageMinMoves := afStageMin top,
               StageMaxMoves := afStageMax top\<rparr>)
      else case PendingNext st of
        Some cfg \<Rightarrow> applySetActivePlayers (st\<lparr>PendingNext := None\<rparr>) cfg
      | None \<Rightarrow> st\<lparr>Ctx := (Ctx st)\<lparr>ActivePlayers := None\<rparr>, MoveCounts := None,
                   StageMinMoves := None, StageMaxMoves := None\<rparr>)"

definition applyActivePlayersFromTurn :: "('g, 'h) game \<Rightarrow> 'g state \<Rightarrow> 'g state" where
  "applyActivePlayersFromTurn game st =
     (case scopeTurn game (Phase (Ctx st)) of
        None \<Rightarrow> st
      | Some t \<Rightarrow> (case tcActivePlayers t of None \<Rightarrow> st | Some cfg \<Rightarrow> applySetActivePlayers st cfg))"

section \<open>Move budgets (\<open>core/reducer.go\<close>)\<close>

definition bumpStageMoveCount :: "'g state \<Rightarrow> string \<Rightarrow> 'g state" where
  "bumpStageMoveCount st pid =
     (if mget (ActivePlayers (Ctx st)) pid = None then st
      else st\<lparr>MoveCounts := mputo pid ((case mget (MoveCounts st) pid of Some n \<Rightarrow> n | None \<Rightarrow> 0) + 1)
                                 (MoveCounts st)\<rparr>)"

text \<open>One iteration of the loop over the active players; \<open>changed\<close> is the second component.\<close>

definition budgetSpent :: "'g state \<Rightarrow> string \<Rightarrow> bool" where
  "budgetSpent st pid =
     (case mget (StageMaxMoves st) pid of
        None \<Rightarrow> False
      | Some mx \<Rightarrow> 0 < mx \<and> mx \<le> (case mget (MoveCounts st) pid of Some n \<Rightarrow> n | None \<Rightarrow> 0))"

definition dropActive :: "'g state \<Rightarrow> string \<Rightarrow> 'g state" where
  "dropActive st pid =
     st\<lparr>Ctx := (Ctx st)\<lparr>ActivePlayers := mdelo pid (ActivePlayers (Ctx st))\<rparr>,
        StageMinMoves := mdelo pid (StageMinMoves st),
        StageMaxMoves := mdelo pid (StageMaxMoves st),
        MoveCounts := mdelo pid (MoveCounts st)\<rparr>"

fun autoEndLoop :: "string list \<Rightarrow> 'g state \<Rightarrow> bool \<Rightarrow> 'g state \<times> bool" where
  "autoEndLoop [] st changed = (st, changed)"
| "autoEndLoop (pid # pids) st changed =
     (if budgetSpent st pid then autoEndLoop pids (dropActive st pid) True
      else autoEndLoop pids st changed)"

definition autoEndStagesByMaxMoves :: "'g state \<Rightarrow> 'g state" where
  "autoEndStagesByMaxMoves st =
     (case ActivePlayers (Ctx st) of
        None \<Rightarrow> st
      | Some ap \<Rightarrow>
          (let (st', changed) = autoEndLoop (mkeys ap) st False
           in if changed \<and> ActivePlayers (Ctx st') = Some [] then drainActivePlayers st' else st'))"

section \<open>Lemmas\<close>

lemma fold_pairs_get:
  "map_of (fold (\<lambda>(k, v). mput k v) al m) j =
     (case map_of (rev al) j of Some v \<Rightarrow> Some v | None \<Rightarrow> map_of m j)"
proof (induction al arbitrary: m)
  case (Cons a al)
  then show ?case
    by (cases a) (auto simp: map_of_append map_add_def split: option.splits)
qed simp

lemma mput_fresh: "k \<notin> set (map fst m) \<Longrightarrow> mput k v m = m @ [(k, v)]"
  by (induction m) (auto simp: mput_def)

lemma fold_mput_fresh:
  "distinct (map fst (m @ al)) \<Longrightarrow> fold (\<lambda>(k, v). mput k v) al m = m @ al"
proof (induction al arbitrary: m)
  case (Cons a al)
  obtain k v where a: "a = (k, v)" by (cases a)
  have "mput k v m = m @ [(k, v)]" using Cons.prems a by (intro mput_fresh) auto
  moreover have "fold (\<lambda>(k, v). mput k v) al (m @ [(k, v)]) = (m @ [(k, v)]) @ al"
    by (rule Cons.IH) (use Cons.prems a in auto)
  ultimately show ?case using a by simp
qed simp

text \<open>Copying a Go map gives an equal map.\<close>

definition owf :: "'v gomap option \<Rightarrow> bool" where
  "owf m \<longleftrightarrow> (case m of None \<Rightarrow> True | Some al \<Rightarrow> mwf al)"

lemma copyMap_id: "owf m \<Longrightarrow> copyMap m = m"
  using fold_mput_fresh [of "[]"] by (cases m) (auto simp: owf_def copyMap_def mwf_def)

definition frame_wf :: "activeFrame \<Rightarrow> bool" where
  "frame_wf f \<longleftrightarrow> owf (afActivePlayers f) \<and> owf (afMoveCounts f) \<and> owf (afStageMin f) \<and> owf (afStageMax f)"

definition maps_wf :: "'g state \<Rightarrow> bool" where
  "maps_wf st \<longleftrightarrow> owf (ActivePlayers (Ctx st)) \<and> owf (MoveCounts st) \<and> owf (StageMinMoves st) \<and>
     owf (StageMaxMoves st) \<and> owf (Plugins st) \<and> (\<forall>f \<in> set (ActiveStack st). frame_wf f)"

lemma ownContainers_id:
  assumes "maps_wf st"
  shows "ownContainers st = st"
proof -
  have "map copyFrame (ActiveStack st) = ActiveStack st"
    using assms by (intro map_idI) (auto simp: maps_wf_def frame_wf_def copyFrame_def copyStrMap_def
        copyIntMap_def copyMap_id)
  with assms show ?thesis
    by (simp add: ownContainers_def maps_wf_def copyStrMap_def copyIntMap_def copyMap_id)
qed

lemma owf_simps [simp]: "owf None" "owf (Some al) = mwf al"
  by (simp_all add: owf_def)

lemma mwf_fold_if: "mwf m \<Longrightarrow> mwf (fold (\<lambda>p m. if Q p then mput p (f p) m else m) ps m)"
  by (induction ps arbitrary: m) auto

lemma mwf_fold_pairs: "mwf m \<Longrightarrow> mwf (fold (\<lambda>(p, s). mput p s) v m)"
  by (induction v arbitrary: m) auto

lemma mwf_activeMap: "mwf (activeMap c cfg)"
  unfolding activeMap_def Let_def
  by (auto split: option.splits intro!: mwf_fold_if mwf_fold_pairs gomap.ok_fold_put)

lemma mwf_stageLimits: "mwf (stageLimits l per pids)"
proof -
  have "mwf m \<Longrightarrow> mwf (fold (\<lambda>pid m. let m = (if 0 < l then mput pid l m else m)
         in case mget per pid of Some v \<Rightarrow> mput pid v m | None \<Rightarrow> m) pids m)" for m
    by (induction pids arbitrary: m) (auto simp: Let_def split: option.splits)
  then show ?thesis by (simp add: stageLimits_def)
qed

lemma owf_nilIfEmpty [simp]: "owf (nilIfEmpty m) = mwf m"
  by (auto simp: nilIfEmpty_def mwf_def)

lemma mget_nilIfEmpty [simp]: "mget (nilIfEmpty m) k = map_of m k"
  by (simp add: nilIfEmpty_def)

lemma map_of_fold_others:
  "map_of (fold (\<lambda>p m. if Q p then mput p s m else m) ps m) j =
     (if j \<in> set ps \<and> Q j then Some s else map_of m j)"
  by (induction ps arbitrary: m) auto

lemma stageLimits_get:
  "map_of (stageLimits l per pids) j =
     (if j \<notin> set pids then None
      else case mget per j of Some v \<Rightarrow> Some v | None \<Rightarrow> (if 0 < l then Some l else None))"
proof -
  have "map_of (fold (\<lambda>pid m. let m = (if 0 < l then mput pid l m else m)
         in case mget per pid of Some v \<Rightarrow> mput pid v m | None \<Rightarrow> m) pids m) j =
     (if j \<notin> set pids then map_of m j
      else case mget per j of Some v \<Rightarrow> Some v | None \<Rightarrow> (if 0 < l then Some l else map_of m j))" for m
    by (induction pids arbitrary: m) (auto simp: Let_def split: option.splits if_splits)
  from this [of "[]"] show ?thesis by (simp add: stageLimits_def split: option.split)
qed

lemma applySetActivePlayers_fields [simp]:
  "ActiveStack (applySetActivePlayers st cfg) =
     (if apcRevert cfg then ActiveStack st @
       [\<lparr>afActivePlayers = copyStrMap (ActivePlayers (Ctx st)), afMoveCounts = copyIntMap (MoveCounts st),
         afStageMin = copyIntMap (StageMinMoves st), afStageMax = copyIntMap (StageMaxMoves st)\<rparr>]
      else ActiveStack st)"
  "PendingNext (applySetActivePlayers st cfg) = apcNext cfg"
  "Ctx (applySetActivePlayers st cfg) = (Ctx st)\<lparr>ActivePlayers := nilIfEmpty (activeMap (Ctx st) cfg)\<rparr>"
  "MoveCounts (applySetActivePlayers st cfg) = None"
  "G (applySetActivePlayers st cfg) = G st"
  "StateID (applySetActivePlayers st cfg) = StateID st"
  "Plugins (applySetActivePlayers st cfg) = Plugins st"
  "Log (applySetActivePlayers st cfg) = Log st"
  "Undone (applySetActivePlayers st cfg) = Undone st"
  "Queue (applySetActivePlayers st cfg) = Queue st"
  "Blocks (applySetActivePlayers st cfg) = Blocks st"
  "TurnSnapshots (applySetActivePlayers st cfg) = TurnSnapshots st"
  by (simp_all add: applySetActivePlayers_def Let_def)

text \<open>The stage a configuration gives a player: the last of its four clauses that names them.\<close>

definition configuredStage :: "ctx \<Rightarrow> activePlayersConfig \<Rightarrow> string \<Rightarrow> string option" where
  "configuredStage c cfg p =
     (case mget (map_option rev (apcValue cfg)) p of
        Some s \<Rightarrow> Some s
      | None \<Rightarrow>
         (if p = CurrentPlayer c \<and> apcCurrentPlayer cfg \<noteq> None then apcCurrentPlayer cfg
          else if p \<in> set (PlayOrder c) \<and> p \<noteq> CurrentPlayer c \<and> apcOthers cfg \<noteq> None then apcOthers cfg
          else if p \<in> set (PlayOrder c) then apcAll cfg
          else None))"

lemma activeMap_get: "map_of (activeMap c cfg) p = configuredStage c cfg p"
proof -
  let ?all = "case apcAll cfg of None \<Rightarrow> [] | Some s \<Rightarrow> fold (\<lambda>p. mput p s) (PlayOrder c) []"
  let ?oth = "case apcOthers cfg of None \<Rightarrow> ?all
     | Some s \<Rightarrow> fold (\<lambda>p m. if p \<noteq> CurrentPlayer c then mput p s m else m) (PlayOrder c) ?all"
  let ?cur = "case apcCurrentPlayer cfg of None \<Rightarrow> ?oth | Some s \<Rightarrow> mput (CurrentPlayer c) s ?oth"
  have all: "map_of ?all p = (if p \<in> set (PlayOrder c) then apcAll cfg else None)"
    by (simp add: gomap.get_fold_put split: option.split)
  have oth: "map_of ?oth p = (if p \<in> set (PlayOrder c) \<and> p \<noteq> CurrentPlayer c \<and> apcOthers cfg \<noteq> None
      then apcOthers cfg else map_of ?all p)"
    by (cases "apcOthers cfg") (auto simp: map_of_fold_others)
  have cur: "map_of ?cur p = (if p = CurrentPlayer c \<and> apcCurrentPlayer cfg \<noteq> None
      then apcCurrentPlayer cfg else map_of ?oth p)"
    by (simp split: option.split)
  have "map_of (activeMap c cfg) p =
      (case mget (map_option rev (apcValue cfg)) p of Some s \<Rightarrow> Some s | None \<Rightarrow> map_of ?cur p)"
    by (simp add: activeMap_def Let_def fold_pairs_get split: option.split)
  then show ?thesis unfolding cur oth all configuredStage_def by (simp split: option.split)
qed

lemma set_mkeys_activeMap: "p \<in> set (mkeys (activeMap c cfg)) \<longleftrightarrow> configuredStage c cfg p \<noteq> None"
  by (simp add: mkeys_def activeMap_get [symmetric] map_of_eq_None_iff)

section \<open>Properties\<close>

text \<open>
  Installing an active-players configuration makes a player active in exactly the
  stage the configuration gives them (explicit values over the current-player clause over
  others over all), resets every move count, and bounds each active player by their own
  limit if they have one and by the common limit otherwise; players the configuration does
  not mention get no limit. A configuration that names nobody leaves no active set at all.
\<close>

theorem applySetActivePlayers_spec:
  "mget (ActivePlayers (Ctx (applySetActivePlayers st cfg))) p = configuredStage (Ctx st) cfg p \<and>
   ActivePlayers (Ctx (applySetActivePlayers st cfg)) \<noteq> Some [] \<and>
   MoveCounts (applySetActivePlayers st cfg) = None \<and>
   mget (StageMaxMoves (applySetActivePlayers st cfg)) p =
     (if configuredStage (Ctx st) cfg p = None then None
      else case mget (apcPerPlayerMaxMoves cfg) p of Some v \<Rightarrow> Some v
           | None \<Rightarrow> if 0 < apcMaxMoves cfg then Some (apcMaxMoves cfg) else None) \<and>
   mget (StageMinMoves (applySetActivePlayers st cfg)) p =
     (if configuredStage (Ctx st) cfg p = None then None
      else case mget (apcPerPlayerMinMoves cfg) p of Some v \<Rightarrow> Some v
           | None \<Rightarrow> if 0 < apcMinMoves cfg then Some (apcMinMoves cfg) else None)"
proof -
  have lims: "StageMaxMoves (applySetActivePlayers st cfg) =
       nilIfEmpty (stageLimits (apcMaxMoves cfg) (apcPerPlayerMaxMoves cfg) (mkeys (activeMap (Ctx st) cfg)))"
       "StageMinMoves (applySetActivePlayers st cfg) =
       nilIfEmpty (stageLimits (apcMinMoves cfg) (apcPerPlayerMinMoves cfg) (mkeys (activeMap (Ctx st) cfg)))"
    by (simp_all add: applySetActivePlayers_def Let_def)
  have "ActivePlayers (Ctx (applySetActivePlayers st cfg)) \<noteq> Some []" by (simp add: nilIfEmpty_def)
  then show ?thesis
    by (simp add: lims stageLimits_get set_mkeys_activeMap activeMap_get)
qed

text \<open>
  A configuration installed with Revert is undone by draining it: the active set, the
  move counts and the limits that were in force before come back, and so does the stack.
\<close>

theorem revert_restores:
  assumes "maps_wf st" "apcRevert cfg" "ActiveStack st' = ActiveStack (applySetActivePlayers st cfg)"
  shows "ActivePlayers (Ctx (drainActivePlayers st')) = ActivePlayers (Ctx st) \<and>
         MoveCounts (drainActivePlayers st') = MoveCounts st \<and>
         StageMinMoves (drainActivePlayers st') = StageMinMoves st \<and>
         StageMaxMoves (drainActivePlayers st') = StageMaxMoves st \<and>
         ActiveStack (drainActivePlayers st') = ActiveStack st"
  using assms
  by (simp add: drainActivePlayers_def Let_def maps_wf_def copyStrMap_def copyIntMap_def copyMap_id)

lemma ActivePlayersInOrder_Cons:
  "ActivePlayersInOrder (p # ps) stage mn mx =
     orderLink stage mn mx p (if ps = [] then None else Some (ActivePlayersInOrder ps stage mn mx))"
  by (simp add: ActivePlayersInOrder_def)

lemma activeMap_orderLink: "activeMap c (orderLink stage mn mx p nxt) = [(p, stage)]"
  by (simp add: activeMap_def orderLink_def mput_def)

lemma inOrder_installed:
  assumes "ActiveStack st = []"
  shows "ActivePlayers (Ctx (applySetActivePlayers st (ActivePlayersInOrder (p # ps) stage mn mx))) =
           Some [(p, stage)]"
    and "ActiveStack (applySetActivePlayers st (ActivePlayersInOrder (p # ps) stage mn mx)) = []"
    and "PendingNext (applySetActivePlayers st (ActivePlayersInOrder (p # ps) stage mn mx)) =
           (if ps = [] then None else Some (ActivePlayersInOrder ps stage mn mx))"
  using assms
  by (simp_all add: ActivePlayersInOrder_Cons activeMap_orderLink nilIfEmpty_def)
     (simp_all add: orderLink_def)

text \<open>
  The in-order chain activates its players one after the other: after k drains of the
  active set exactly the k-th player is active, and once every player has been drained
  there is no active set any more.
\<close>

theorem inOrder_activates_each:
  assumes "ActiveStack st = []" "k \<le> length players" "players \<noteq> []"
  shows "ActivePlayers (Ctx ((drainActivePlayers ^^ k)
           (applySetActivePlayers st (ActivePlayersInOrder players stage mn mx)))) =
         (if k < length players then Some [(players ! k, stage)] else None)"
  using assms
proof (induction k arbitrary: st players)
  case 0
  then show ?case
    by (cases players) (simp_all add: inOrder_installed(1) del: applySetActivePlayers_fields)
next
  case (Suc k)
  then obtain p ps where ps: "players = p # ps" by (cases players) auto
  let ?st = "applySetActivePlayers st (ActivePlayersInOrder players stage mn mx)"
  have stack: "ActiveStack ?st = []" unfolding ps by (rule inOrder_installed(2) [OF Suc.prems(1)])
  show ?case
  proof (cases "ps = []")
    case True
    then have "k = 0" using Suc.prems(2) by (simp add: ps)
    with True stack inOrder_installed(3) [OF Suc.prems(1), of p ps stage mn mx] show ?thesis
      by (simp add: ps drainActivePlayers_def)
  next
    case False
    have "drainActivePlayers ?st =
        applySetActivePlayers (?st\<lparr>PendingNext := None\<rparr>) (ActivePlayersInOrder ps stage mn mx)"
      using False stack inOrder_installed(3) [OF Suc.prems(1), of p ps stage mn mx]
      by (simp add: ps drainActivePlayers_def)
    moreover have "k \<le> length ps" using Suc.prems(2) by (simp add: ps)
    moreover have "ActiveStack (?st\<lparr>PendingNext := None\<rparr>) = []" using stack by simp
    ultimately show ?thesis
      using Suc.IH [of "?st\<lparr>PendingNext := None\<rparr>" ps] False by (simp add: ps funpow_swap1)
  qed
qed

text \<open>A start state for the witnesses below: three seats, nobody active.\<close>

definition blankCtx :: ctx where
  "blankCtx = \<lparr>NumPlayers = 3, CurrentPlayer = ''0'', PlayOrder = [''0'', ''1'', ''2''], PlayOrderPos = 0,
     Turn = 1, Phase = '''', ActivePlayers = None, Gameover = VNil, NumMoves = 0, NowMs = 0, Seed = 0\<rparr>"

definition blankState :: "'g \<Rightarrow> 'g state" where
  "blankState g = \<lparr>G = g, rawG = None, rawPlugins = None, Ctx = blankCtx, StateID = 0, Plugins = None,
     Log = [], Undone = [], Queue = [], Blocks = [], ActiveStack = [], PendingNext = None,
     MoveCounts = None, StageMinMoves = None, StageMaxMoves = None, TurnSnapshots = []\<rparr>"

theorem revert_restores_witness:
  "maps_wf (blankState ()) \<and> apcRevert (ActivePlayersConfig (Some ''s'') None None None 0 0 None None True None) \<and>
   ActivePlayers (Ctx (drainActivePlayers (applySetActivePlayers (blankState ())
     (ActivePlayersConfig (Some ''s'') None None None 0 0 None None True None)))) = None"
proof -
  let ?cfg = "ActivePlayersConfig (Some ''s'') None None None 0 0 None None True None"
  have h: "maps_wf (blankState ())" "apcRevert ?cfg"
    by (simp_all add: maps_wf_def blankState_def blankCtx_def)
  show ?thesis using h revert_restores [OF h refl] by (simp add: blankState_def blankCtx_def)
qed

theorem inOrder_activates_each_witness:
  "ActivePlayers (Ctx ((drainActivePlayers ^^ 1)
     (applySetActivePlayers (blankState ()) (ActivePlayersInOrder [''2'', ''0''] ''bid'' 0 1)))) =
   Some [(''0'', ''bid'')]"
proof -
  have h: "ActiveStack (blankState ()) = []" "1 \<le> length [''2'', ''0'']" "[''2'', ''0''] \<noteq> []"
    by (simp_all add: blankState_def)
  show ?thesis using inOrder_activates_each [OF h, of "''bid''" 0 1] by simp
qed

lemma dropActive_gets:
  "mget (ActivePlayers (Ctx (dropActive st p))) q = (if q = p then None else mget (ActivePlayers (Ctx st)) q)"
  "mget (MoveCounts (dropActive st p)) q = (if q = p then None else mget (MoveCounts st) q)"
  "mget (StageMaxMoves (dropActive st p)) q = (if q = p then None else mget (StageMaxMoves st) q)"
  by (simp_all add: dropActive_def)

lemma budgetSpent_dropActive: "budgetSpent (dropActive st p) q \<longleftrightarrow> q \<noteq> p \<and> budgetSpent st q"
  by (cases "q = p") (simp_all add: budgetSpent_def dropActive_gets split: option.split)

lemma autoEndLoop_active:
  "mget (ActivePlayers (Ctx (fst (autoEndLoop ps st ch)))) q =
     (if q \<in> set ps \<and> budgetSpent st q then None else mget (ActivePlayers (Ctx st)) q)"
proof (induction ps st ch rule: autoEndLoop.induct)
  case (2 p ps st ch)
  then show ?case by (auto simp: budgetSpent_dropActive dropActive_gets)
qed simp

text \<open>
  After a move the engine retires exactly the active players who have used up their
  stage budget: whatever order the map is iterated in, when some active player still has
  budget, precisely the players whose budget is spent leave the active set and everyone
  else keeps their stage.
\<close>

theorem autoEnd_retires_spent_players:
  assumes "ActivePlayers (Ctx st) = Some ap" "\<exists>q. mget (Some ap) q \<noteq> None \<and> \<not> budgetSpent st q"
  shows "mget (ActivePlayers (Ctx (autoEndStagesByMaxMoves st))) p =
           (if budgetSpent st p then None else mget (Some ap) p)"
proof -
  let ?r = "autoEndLoop (mkeys ap) st False"
  have keys: "q \<in> set (mkeys ap) \<longleftrightarrow> mget (Some ap) q \<noteq> None" for q
    by (simp add: mkeys_def map_of_eq_None_iff)
  have get: "mget (ActivePlayers (Ctx (fst ?r))) q =
      (if budgetSpent st q then None else mget (Some ap) q)" for q
    using autoEndLoop_active [of "mkeys ap" st False q] keys [of q] assms(1) by auto
  obtain q where "mget (Some ap) q \<noteq> None" "\<not> budgetSpent st q" using assms(2) by blast
  then have "mget (ActivePlayers (Ctx (fst ?r))) q \<noteq> None" by (simp add: get)
  then have "ActivePlayers (Ctx (fst ?r)) \<noteq> Some []" by auto
  then have "autoEndStagesByMaxMoves st = fst ?r"
    using assms(1) by (simp add: autoEndStagesByMaxMoves_def split_beta Let_def)
  then show ?thesis by (simp only: get)
qed

theorem autoEnd_retires_spent_players_witness:
  "mget (ActivePlayers (Ctx (autoEndStagesByMaxMoves (bumpStageMoveCount
     (applySetActivePlayers (blankState ()) ActivePlayersAllOnce) ''1'')))) ''1'' = None \<and>
   mget (ActivePlayers (Ctx (autoEndStagesByMaxMoves (bumpStageMoveCount
     (applySetActivePlayers (blankState ()) ActivePlayersAllOnce) ''1'')))) ''2'' = Some ''''"
proof -
  let ?st = "bumpStageMoveCount (applySetActivePlayers (blankState ()) ActivePlayersAllOnce) ''1''"
  have ev: "ActivePlayers (Ctx ?st) = Some [(''0'', ''''), (''1'', ''''), (''2'', '''')]"
    "\<not> budgetSpent ?st ''2''" "budgetSpent ?st ''1''"
    by (simp_all add: bumpStageMoveCount_def applySetActivePlayers_def activeMap_def blankState_def blankCtx_def
        ActivePlayersAllOnce_def StageNull_def mput_def nilIfEmpty_def stageLimits_def mkeys_def
        budgetSpent_def mputo_def Let_def)
  have "\<exists>q. mget (Some [(''0'', ''''), (''1'', ''''), (''2'', '''')]) q \<noteq> None \<and> \<not> budgetSpent ?st q"
    using ev(2) by (intro exI [of _ "''2''"]) simp
  from autoEnd_retires_spent_players [OF ev(1) this, of "''1''"]
    autoEnd_retires_spent_players [OF ev(1) this, of "''2''"] ev
  show ?thesis by simp
qed

end
