(* ===== verification/Hooks.thy ===== *)
theory Hooks
  imports Stages
begin

text \<open>
  Plugins (\<open>core/plugin.go\<close>) and the environment that engine-invoked game code runs in
  (\<open>hookEnv\<close> of \<open>core/transitions.go\<close>): the event queue shared with the surrounding drain
  loop, the action queue of the surrounding move, its DropBlocksFor list, the plugin API
  table, and the memory game code may mutate.
\<close>

section \<open>Plugins\<close>

fun wrapMoves :: "('g, 'h) plugin list \<Rightarrow> ('g, 'h) moveFn \<Rightarrow> ('g, 'h) moveFn" where
  "wrapMoves [] fn = fn"
| "wrapMoves (p # ps) fn = wrapMoves ps (case plWrapMove p of Some w \<Rightarrow> w fn | None \<Rightarrow> fn)"

definition applyFnWrapMove :: "('g, 'h) game \<Rightarrow> ('g, 'h) moveFn \<Rightarrow> ('g, 'h) moveFn" where
  "applyFnWrapMove game fn = wrapMoves (gmPlugins game) fn"

fun wrapHooks :: "('g, 'h) plugin list \<Rightarrow> ('g, 'h) hookFn \<Rightarrow> gameMethod \<Rightarrow> ('g, 'h) hookFn" where
  "wrapHooks [] fn kind = fn"
| "wrapHooks (p # ps) fn kind = wrapHooks ps (case plWrapHook p of Some w \<Rightarrow> w fn kind | None \<Rightarrow> fn) kind"

definition applyFnWrapHook :: "('g, 'h) game \<Rightarrow> ('g, 'h) hookFn \<Rightarrow> gameMethod \<Rightarrow> ('g, 'h) hookFn" where
  "applyFnWrapHook game fn kind = wrapHooks (gmPlugins game) fn kind"

definition pluginDataFor :: "'g state \<Rightarrow> string \<Rightarrow> goval" where
  "pluginDataFor st name = (case mget (Plugins st) name of Some v \<Rightarrow> v | None \<Rightarrow> VNil)"

fun pluginSetupLoop :: "('g, 'h) plugin list \<Rightarrow> 'g state \<Rightarrow> 'h \<Rightarrow> 'g state \<times> 'h" where
  "pluginSetupLoop [] st h = (st, h)"
| "pluginSetupLoop (p # ps) st h =
     (case plSetup p of
        None \<Rightarrow> pluginSetupLoop ps st h
      | Some f \<Rightarrow> (let (v, h') = f (G st) (Ctx st) h
                   in pluginSetupLoop ps (st\<lparr>Plugins := mputo (plName p) v (Plugins st)\<rparr>) h'))"

definition runPluginSetup :: "('g, 'h) game \<Rightarrow> 'g state \<Rightarrow> 'h \<Rightarrow> 'g state \<times> 'h" where
  "runPluginSetup game st h =
     (if gmPlugins game = [] then (st, h)
      else pluginSetupLoop (gmPlugins game)
             (st\<lparr>Plugins := Some (case Plugins st of None \<Rightarrow> [] | Some m \<Rightarrow> m)\<rparr>) h)"

fun pluginAPILoop :: "('g, 'h) plugin list \<Rightarrow> 'g state \<Rightarrow> string \<Rightarrow> goval gomap \<Rightarrow> 'h \<Rightarrow> goval gomap \<times> 'h" where
  "pluginAPILoop [] st pid out h = (out, h)"
| "pluginAPILoop (p # ps) st pid out h =
     (case plAPI p of
        None \<Rightarrow> pluginAPILoop ps st pid out h
      | Some f \<Rightarrow> (let (v, h') = f (pluginDataFor st (plName p)) (G st) (Ctx st) pid h
                   in pluginAPILoop ps st pid (mput (plName p) v out) h'))"

definition buildPluginAPIs :: "('g, 'h) game \<Rightarrow> 'g state \<Rightarrow> string \<Rightarrow> 'h \<Rightarrow> goval gomap option \<times> 'h" where
  "buildPluginAPIs game st pid h =
     (if gmPlugins game = [] then (None, h)
      else (let (out, h') = pluginAPILoop (gmPlugins game) st pid [] h in (Some out, h')))"

fun flushLoop :: "('g, 'h) plugin list \<Rightarrow> 'g moveContext \<Rightarrow> 'g state \<Rightarrow> 'h \<Rightarrow> 'g state \<times> 'h" where
  "flushLoop [] mc st h = (st, h)"
| "flushLoop (p # ps) mc st h =
     (let name = plName p; api = mcPlugin mc name; data = pluginDataFor st name
      in case plFlush p of
           Some f \<Rightarrow> (let (v, h') = f data api (mcG mc) (mcCtx mc) h
                      in flushLoop ps mc (st\<lparr>Plugins := mputo name v (Plugins st)\<rparr>) h')
         | None \<Rightarrow> (if api \<noteq> VNil
                    then flushLoop ps mc (st\<lparr>Plugins := mputo name api (Plugins st)\<rparr>) h
                    else flushLoop ps mc st h))"

definition flushPlugins :: "('g, 'h) game \<Rightarrow> 'g state \<Rightarrow> 'g moveContext \<Rightarrow> 'h \<Rightarrow> 'g state \<times> 'h" where
  "flushPlugins game st mc h =
     (if gmPlugins game = [] then (st, h)
      else flushLoop (gmPlugins game) mc
             (st\<lparr>Plugins := Some (case Plugins st of None \<Rightarrow> [] | Some m \<Rightarrow> m)\<rparr>) h)"

fun validateLoop :: "('g, 'h) plugin list \<Rightarrow> 'g state \<Rightarrow> 'h \<Rightarrow> gerror option" where
  "validateLoop [] st h = None"
| "validateLoop (p # ps) st h =
     (case plIsInvalid p of
        None \<Rightarrow> validateLoop ps st h
      | Some f \<Rightarrow> (case f (pluginDataFor st (plName p)) (G st) (Ctx st) h of
                     Some e \<Rightarrow> Some e
                   | None \<Rightarrow> validateLoop ps st h))"

definition validatePlugins :: "('g, 'h) game \<Rightarrow> 'g state \<Rightarrow> 'h \<Rightarrow> gerror option" where
  "validatePlugins game st h = validateLoop (gmPlugins game) st h"

fun redactLoop :: "('g, 'h) plugin list \<Rightarrow> 'g state \<Rightarrow> string \<Rightarrow> goval gomap \<Rightarrow> goval gomap" where
  "redactLoop [] st pid out = out"
| "redactLoop (p # ps) st pid out =
     (let data = pluginDataFor st (plName p);
          data = (case plPlayerView p of Some f \<Rightarrow> f data (G st) (Ctx st) pid | None \<Rightarrow> data)
      in redactLoop ps st pid (if data \<noteq> VNil then mput (plName p) data out else out))"

definition redactPluginData :: "('g, 'h) game \<Rightarrow> 'g state \<Rightarrow> string \<Rightarrow> goval gomap option" where
  "redactPluginData game st pid =
     (if gmPlugins game = [] \<or> Plugins st = None then Plugins st
      else Some (redactLoop (gmPlugins game) st pid []))"

section \<open>The hook environment\<close>

text \<open>
  \<open>envDrops\<close> is \<open>None\<close> where no DropBlocksFor list is shared (drain steps): requests made
  there go nowhere.
\<close>

record 'h hookEnv =
  envEvents :: "event list"
  envQueue :: queue
  envDrops :: "string list option"
  envPlugins :: "goval gomap option"
  envHeap :: 'h

definition newHookEnv :: "('g, 'h) game \<Rightarrow> 'g state \<Rightarrow> 'h \<Rightarrow> 'h hookEnv" where
  "newHookEnv game st h =
     (let (apis, h') = buildPluginAPIs game st '''' h
      in \<lparr>envEvents = [], envQueue = emptyQueue, envDrops = Some [], envPlugins = apis, envHeap = h'\<rparr>)"

definition envMC :: "'h hookEnv \<Rightarrow> 'g state \<Rightarrow> string \<Rightarrow> 'g moveContext" where
  "envMC env st pid =
     \<lparr>mcG = G st, mcCtx = Ctx st, mcPlayerID = pid, mcPlugins = envPlugins env,
      mcQueue = Some (envQueue env), mcResumingBlock = None, mcExtra = [], mcChainedMoves = 0\<rparr>"

definition mcNoEvents :: "'h hookEnv \<Rightarrow> 'g state \<Rightarrow> 'g moveContext" where
  "mcNoEvents env st =
     \<lparr>mcG = G st, mcCtx = Ctx st, mcPlayerID = '''', mcPlugins = envPlugins env,
      mcQueue = None, mcResumingBlock = None, mcExtra = [], mcChainedMoves = 0\<rparr>"

text \<open>What a call of game code leaves in the environment.\<close>

definition perform :: "effects \<Rightarrow> 'h \<Rightarrow> 'h hookEnv \<Rightarrow> 'h hookEnv" where
  "perform ef h env =
     env\<lparr>envEvents := envEvents env @ efEvents ef,
         envQueue := fold runOp (efOps ef) (envQueue env),
         envDrops := map_option (\<lambda>d. d @ efDrops ef) (envDrops env),
         envHeap := h\<rparr>"

text \<open>The entries a call appended with AddLog, completed from the context it saw.\<close>

definition loggedBy :: "'g moveContext \<Rightarrow> effects \<Rightarrow> logEntry list" where
  "loggedBy mc ef = map (AddLog (mcCtx mc)) (efLog ef)"

definition flushExtraLog :: "'g state \<Rightarrow> logEntry list \<Rightarrow> 'g state" where
  "flushExtraLog st entries = st\<lparr>Log := Log st @ entries\<rparr>"

text \<open>
  The three lines every lifecycle hook is run with: build its context, replace \<open>G\<close> by the
  wrapped hook's result, and flush the log entries it added.
\<close>

definition runHook :: "('g, 'h) game \<Rightarrow> ('g, 'h) hookFn \<Rightarrow> gameMethod \<Rightarrow> 'g state \<Rightarrow> string \<Rightarrow> 'h hookEnv
    \<Rightarrow> 'g state \<times> 'h hookEnv" where
  "runHook game f kind st pid env =
     (let mc = envMC env st pid;
          (g', ef, h') = applyFnWrapHook game f kind mc (envHeap env)
      in (flushExtraLog (st\<lparr>G := g'\<rparr>) (loggedBy mc ef), perform ef h' env))"

definition runHookOpt :: "('g, 'h) game \<Rightarrow> ('g, 'h) hookFn option \<Rightarrow> gameMethod \<Rightarrow> 'g state \<Rightarrow> string \<Rightarrow> 'h hookEnv
    \<Rightarrow> 'g state \<times> 'h hookEnv" where
  "runHookOpt game fo kind st pid env =
     (case fo of None \<Rightarrow> (st, env) | Some f \<Rightarrow> runHook game f kind st pid env)"

text \<open>A predicate (EndIf) sees the full context; the entries it logs are not flushed.\<close>

definition runPred :: "('g, 'h, 'a) callback \<Rightarrow> 'g state \<Rightarrow> string \<Rightarrow> 'h hookEnv \<Rightarrow> 'a \<times> 'h hookEnv" where
  "runPred f st pid env =
     (let (a, ef, h') = f (envMC env st pid) (envHeap env) in (a, perform ef h' env))"

section \<open>What game code can leave in the log\<close>

definition turnConfigs :: "('g, 'h) game \<Rightarrow> ('g, 'h) turnConfig set" where
  "turnConfigs game = set_option (gmTurn game) \<union> (\<Union>p \<in> snd ` set (gmPhases game). set_option (pcTurn p))"

definition stageConfigs :: "('g, 'h) game \<Rightarrow> ('g, 'h) stageConfig set" where
  "stageConfigs game = (\<Union>t \<in> turnConfigs game. snd ` set (tcStages t))"

definition phaseConfigs :: "('g, 'h) game \<Rightarrow> ('g, 'h) phaseConfig set" where
  "phaseConfigs game = snd ` set (gmPhases game)"

text \<open>Every hook the engine can run, with the kind it is wrapped as.\<close>

definition gameHooks :: "('g, 'h) game \<Rightarrow> (('g, 'h) hookFn \<times> gameMethod) set" where
  "gameHooks game =
     (\<Union>t \<in> turnConfigs game.
        (\<lambda>f. (f, GameMethodTurnOnBegin)) ` set_option (tcOnBegin t) \<union>
        (\<lambda>f. (f, GameMethodTurnOnEnd)) ` set_option (tcOnEnd t) \<union>
        (\<lambda>f. (f, GameMethodTurnOnMove)) ` set_option (tcOnMove t)) \<union>
     (\<Union>s \<in> stageConfigs game.
        (\<lambda>f. (f, GameMethodStageOnBegin)) ` set_option (scOnBegin s) \<union>
        (\<lambda>f. (f, GameMethodStageOnEnd)) ` set_option (scOnEnd s)) \<union>
     (\<Union>p \<in> phaseConfigs game.
        (\<lambda>f. (f, GameMethodPhaseOnBegin)) ` set_option (pcOnBegin p) \<union>
        (\<lambda>f. (f, GameMethodPhaseOnEnd)) ` set_option (pcOnEnd p)) \<union>
     (\<lambda>f. (f, GameMethodGameOnEnd)) ` set_option (gmOnEnd game)"

definition moveTables :: "('g, 'h) game \<Rightarrow> ('g, 'h) rawMove gomap set" where
  "moveTables game = set_option (gmMoves game) \<union> (\<Union>p \<in> phaseConfigs game. set_option (pcMoves p)) \<union>
     (\<Union>s \<in> stageConfigs game. set_option (scMoves s))"

definition gameMoves :: "('g, 'h) game \<Rightarrow> ('g, 'h) move set" where
  "gameMoves game = {m. \<exists>t \<in> moveTables game. \<exists>r \<in> snd ` set t. asMove r = Inr m}"

definition logsHook :: "(logEntry \<Rightarrow> bool) \<Rightarrow> ('g, 'h) hookFn \<Rightarrow> bool" where
  "logsHook P f \<longleftrightarrow> (\<forall>mc h. list_all P (loggedBy mc (fst (snd (f mc h)))))"

definition logsMove :: "(logEntry \<Rightarrow> bool) \<Rightarrow> ('g, 'h) moveFn \<Rightarrow> bool" where
  "logsMove P f \<longleftrightarrow> (\<forall>mc args h. list_all P (loggedBy mc (fst (snd (f mc args h)))))"

text \<open>All log entries that game code adds satisfy \<open>P\<close>.\<close>

definition logsOk :: "(logEntry \<Rightarrow> bool) \<Rightarrow> ('g, 'h) game \<Rightarrow> bool" where
  "logsOk P game \<longleftrightarrow>
     (\<forall>(f, kind) \<in> gameHooks game. logsHook P (applyFnWrapHook game f kind)) \<and>
     (\<forall>m \<in> gameMoves game. \<forall>f \<in> set_option (mvMove m). logsMove P f \<and> logsMove P (applyFnWrapMove game f))"

lemma logsOk_True [simp]: "logsOk (\<lambda>_. True) game"
  by (auto simp: logsOk_def logsHook_def logsMove_def list_all_iff)

section \<open>Frames\<close>

text \<open>
  What no transition touches (pending prompts, queued actions, plugin data, the match seed
  and the request time), what only grows (the log, by entries satisfying \<open>P\<close>, and the state
  id), and what is either kept or cleared (the undo snapshots and the redo stack).
\<close>

definition undoKept :: "'g state \<Rightarrow> 'g state \<Rightarrow> bool" where
  "undoKept st st' \<longleftrightarrow> (TurnSnapshots st' = TurnSnapshots st \<or> TurnSnapshots st' = []) \<and>
     (Undone st' = Undone st \<or> Undone st' = [])"

definition grows :: "(logEntry \<Rightarrow> bool) \<Rightarrow> 'g state \<Rightarrow> 'g state \<Rightarrow> bool" where
  "grows P st st' \<longleftrightarrow>
     Blocks st' = Blocks st \<and> Queue st' = Queue st \<and> Plugins st' = Plugins st \<and>
     Seed (Ctx st') = Seed (Ctx st) \<and> NowMs (Ctx st') = NowMs (Ctx st) \<and> undoKept st st' \<and>
     StateID st \<le> StateID st' \<and> (\<exists>xs. Log st' = Log st @ xs \<and> list_all P xs)"

lemma undoKept_refl [simp, intro]: "undoKept st st"
  by (simp add: undoKept_def)

lemma undoKeptI [simp, intro]:
  "TurnSnapshots st' = TurnSnapshots st \<Longrightarrow> Undone st' = Undone st \<Longrightarrow> undoKept st st'"
  "TurnSnapshots st' = [] \<Longrightarrow> Undone st' = [] \<Longrightarrow> undoKept st st'"
  by (simp_all add: undoKept_def)

lemma undoKept_trans: "undoKept a b \<Longrightarrow> undoKept b c \<Longrightarrow> undoKept a c"
  by (auto simp: undoKept_def)

lemma growsI:
  "Blocks st' = Blocks st \<Longrightarrow> Queue st' = Queue st \<Longrightarrow> Plugins st' = Plugins st \<Longrightarrow>
   Seed (Ctx st') = Seed (Ctx st) \<Longrightarrow> NowMs (Ctx st') = NowMs (Ctx st) \<Longrightarrow> undoKept st st' \<Longrightarrow>
   StateID st \<le> StateID st' \<Longrightarrow> Log st' = Log st @ xs \<Longrightarrow> list_all P xs \<Longrightarrow> grows P st st'"
  by (auto simp: grows_def)

lemma grows_refl [simp, intro]: "grows P st st"
  by (rule growsI [where xs = "[]"]) simp_all

lemma grows_trans [trans]: "grows P a b \<Longrightarrow> grows P b c \<Longrightarrow> grows P a c"
  unfolding grows_def by (auto simp: list_all_append intro: undoKept_trans)

lemma grows_same_log:
  "Blocks st' = Blocks st \<Longrightarrow> Queue st' = Queue st \<Longrightarrow> Plugins st' = Plugins st \<Longrightarrow>
   Seed (Ctx st') = Seed (Ctx st) \<Longrightarrow> NowMs (Ctx st') = NowMs (Ctx st) \<Longrightarrow> undoKept st st' \<Longrightarrow>
   StateID st' = StateID st \<Longrightarrow> Log st' = Log st \<Longrightarrow> grows P st st'"
  by (rule growsI [where xs = "[]"]) simp_all

lemma grows_applySetActivePlayers [simp, intro]: "grows P st (applySetActivePlayers st cfg)"
  by (rule grows_same_log) simp_all

lemma grows_applyActivePlayersFromTurn [simp, intro]: "grows P st (applyActivePlayersFromTurn game st)"
  by (auto simp: applyActivePlayersFromTurn_def split: option.splits)

lemma grows_drainActivePlayers [simp, intro]: "grows P st (drainActivePlayers st)"
  by (rule grows_same_log) (simp_all add: drainActivePlayers_def Let_def split: option.splits)

lemma grows_autoEndLoop: "grows P st (fst (autoEndLoop ps st ch))"
proof (induction ps st ch rule: autoEndLoop.induct)
  case (2 p ps st ch)
  have "grows P st (dropActive st p)" by (rule grows_same_log) (simp_all add: dropActive_def)
  with 2 show ?case by (auto intro: grows_trans)
qed simp

lemma grows_autoEnd [simp, intro]: "grows P st (autoEndStagesByMaxMoves st)"
proof (cases "ActivePlayers (Ctx st)")
  case None
  then show ?thesis by (simp add: autoEndStagesByMaxMoves_def)
next
  case (Some ap)
  have "grows P st (fst (autoEndLoop (mkeys ap) st False))" by (rule grows_autoEndLoop)
  then show ?thesis
    using Some by (auto simp: autoEndStagesByMaxMoves_def Let_def split_beta intro: grows_trans)
qed

lemma grows_bumpStageMoveCount [simp, intro]: "grows P st (bumpStageMoveCount st pid)"
  by (rule grows_same_log) (simp_all add: bumpStageMoveCount_def)

lemma grows_ctx_update:
  "Seed c = Seed (Ctx st) \<Longrightarrow> NowMs c = NowMs (Ctx st) \<Longrightarrow> grows P st (st\<lparr>Ctx := c\<rparr>)"
  by (rule grows_same_log) simp_all

lemma runHook_eqs:
  assumes "runHook game f kind st pid env = (st', env')"
  obtains g' ef h' where "applyFnWrapHook game f kind (envMC env st pid) (envHeap env) = (g', ef, h')"
    and "st' = st\<lparr>G := g', Log := Log st @ loggedBy (envMC env st pid) ef\<rparr>" and "env' = perform ef h' env"
  using assms by (auto simp: runHook_def Let_def flushExtraLog_def split: prod.splits)

lemma grows_runHook:
  assumes "runHook game f kind st pid env = (st', env')" "logsHook P (applyFnWrapHook game f kind)"
  shows "grows P st st'"
proof -
  obtain g' ef h' where call: "applyFnWrapHook game f kind (envMC env st pid) (envHeap env) = (g', ef, h')"
    and st': "st' = st\<lparr>G := g', Log := Log st @ loggedBy (envMC env st pid) ef\<rparr>"
    using assms(1) by (rule runHook_eqs)
  have "list_all P (loggedBy (envMC env st pid) ef)"
    using assms(2) call by (metis fst_conv logsHook_def snd_conv)
  then show ?thesis by (intro growsI [where xs = "loggedBy (envMC env st pid) ef"]) (simp_all add: st')
qed

lemma grows_runHookOpt:
  assumes "runHookOpt game fo kind st pid env = (st', env')"
    and "\<And>f. fo = Some f \<Longrightarrow> (f, kind) \<in> gameHooks game" "logsOk P game"
  shows "grows P st st'"
proof (cases fo)
  case (Some f)
  with assms(2,3) have "logsHook P (applyFnWrapHook game f kind)" by (auto simp: logsOk_def)
  with assms(1) Some show ?thesis by (auto simp: runHookOpt_def intro: grows_runHook)
qed (use assms(1) in \<open>simp add: runHookOpt_def\<close>)

lemma runHookOpt_keeps_ctx:
  "runHookOpt game fo kind st pid env = (st', env') \<Longrightarrow>
     Ctx st' = Ctx st \<and> MoveCounts st' = MoveCounts st \<and> StageMinMoves st' = StageMinMoves st \<and>
     StageMaxMoves st' = StageMaxMoves st \<and> ActiveStack st' = ActiveStack st \<and>
     PendingNext st' = PendingNext st \<and> TurnSnapshots st' = TurnSnapshots st \<and> Undone st' = Undone st \<and>
     StateID st' = StateID st \<and> Blocks st' = Blocks st \<and> Queue st' = Queue st \<and> Plugins st' = Plugins st"
  by (cases fo) (auto simp: runHookOpt_def elim!: runHook_eqs)

lemma scopeTurn_turnConfigs: "scopeTurn game ph = Some t \<Longrightarrow> t \<in> turnConfigs game"
  by (force simp: scopeTurn_def turnConfigs_def dest: map_of_SomeD split: option.splits if_splits)

lemma lookupStage_stageConfigs:
  assumes "lookupStage game ph s = Some sc"
  shows "sc \<in> stageConfigs game"
proof -
  consider p t where "map_of (gmPhases game) ph = Some p" "pcTurn p = Some t" "map_of (tcStages t) s = Some sc"
    | t where "gmTurn game = Some t" "map_of (tcStages t) s = Some sc"
    using assms by (auto simp: lookupStage_def Let_def split: option.splits if_splits)
  then show ?thesis
    by cases (force simp: stageConfigs_def turnConfigs_def dest: map_of_SomeD)+
qed

lemma gameHooks_intros:
  "t \<in> turnConfigs game \<Longrightarrow> tcOnBegin t = Some f \<Longrightarrow> (f, GameMethodTurnOnBegin) \<in> gameHooks game"
  "t \<in> turnConfigs game \<Longrightarrow> tcOnEnd t = Some f \<Longrightarrow> (f, GameMethodTurnOnEnd) \<in> gameHooks game"
  "t \<in> turnConfigs game \<Longrightarrow> tcOnMove t = Some f \<Longrightarrow> (f, GameMethodTurnOnMove) \<in> gameHooks game"
  "s \<in> stageConfigs game \<Longrightarrow> scOnBegin s = Some f \<Longrightarrow> (f, GameMethodStageOnBegin) \<in> gameHooks game"
  "s \<in> stageConfigs game \<Longrightarrow> scOnEnd s = Some f \<Longrightarrow> (f, GameMethodStageOnEnd) \<in> gameHooks game"
  "p \<in> phaseConfigs game \<Longrightarrow> pcOnBegin p = Some f \<Longrightarrow> (f, GameMethodPhaseOnBegin) \<in> gameHooks game"
  "p \<in> phaseConfigs game \<Longrightarrow> pcOnEnd p = Some f \<Longrightarrow> (f, GameMethodPhaseOnEnd) \<in> gameHooks game"
  "gmOnEnd game = Some f \<Longrightarrow> (f, GameMethodGameOnEnd) \<in> gameHooks game"
  unfolding gameHooks_def by auto

lemma phaseConfigs_map_of: "map_of (gmPhases game) ph = Some p \<Longrightarrow> p \<in> phaseConfigs game"
  by (force simp: phaseConfigs_def dest: map_of_SomeD)

end
