(* ===== verification/TurnOrders.thy ===== *)
theory TurnOrders
  imports Hooks
begin

text \<open>
  Turn orders (\<open>core/turn.go\<close>): the built-in orders, the contract the rotation code relies
  on, and the proof that every built-in order meets it.
\<close>

section \<open>The built-in orders\<close>

definition IsDefault :: "('g, 'h) turnOrder \<Rightarrow> bool" where
  "IsDefault ord = (toFirst ord = None \<and> toNext ord = None \<and> toPlayOrder ord = None)"

text \<open>\<open>(PlayOrderPos + 1) % NumPlayers\<close>, which panics when there are no players.\<close>

definition nextRoundRobin :: "'g moveContext \<Rightarrow> 'h \<Rightarrow> (int option \<times> 'h) option" where
  "nextRoundRobin mc h =
     (if NumPlayers (mcCtx mc) = 0 then None
      else Some (Some (gomod (PlayOrderPos (mcCtx mc) + 1) (NumPlayers (mcCtx mc))), h))"

definition nextOnce :: "'g moveContext \<Rightarrow> 'h \<Rightarrow> (int option \<times> 'h) option" where
  "nextOnce mc h =
     (let n = PlayOrderPos (mcCtx mc) + 1
      in if NumPlayers (mcCtx mc) \<le> n then Some (None, h) else Some (Some n, h))"

definition nextCustom :: "'g moveContext \<Rightarrow> 'h \<Rightarrow> (int option \<times> 'h) option" where
  "nextCustom mc h =
     (if PlayOrder (mcCtx mc) = [] then None
      else Some (Some (gomod (PlayOrderPos (mcCtx mc) + 1) (int (length (PlayOrder (mcCtx mc))))), h))"

definition TurnOrderDefault :: "('g, 'h) turnOrder" where
  "TurnOrderDefault = \<lparr>toFirst = Some (\<lambda>mc h. (0, h)), toNext = Some nextRoundRobin, toPlayOrder = None\<rparr>"

definition TurnOrderReset :: "('g, 'h) turnOrder" where
  "TurnOrderReset = \<lparr>toFirst = Some (\<lambda>mc h. (0, h)), toNext = Some nextRoundRobin, toPlayOrder = None\<rparr>"

definition TurnOrderContinue :: "('g, 'h) turnOrder" where
  "TurnOrderContinue = \<lparr>toFirst = Some (\<lambda>mc h. (PlayOrderPos (mcCtx mc), h)),
                        toNext = Some nextRoundRobin, toPlayOrder = None\<rparr>"

definition TurnOrderOnce :: "('g, 'h) turnOrder" where
  "TurnOrderOnce = \<lparr>toFirst = Some (\<lambda>mc h. (0, h)), toNext = Some nextOnce, toPlayOrder = None\<rparr>"

definition TurnOrderCustom :: "string list \<Rightarrow> ('g, 'h) turnOrder" where
  "TurnOrderCustom ord = \<lparr>toFirst = Some (\<lambda>mc h. (0, h)), toNext = Some nextCustom,
                          toPlayOrder = Some (\<lambda>mc h. (ord, h))\<rparr>"

definition TurnOrderCustomFrom :: "('g \<Rightarrow> string list) \<Rightarrow> ('g, 'h) turnOrder" where
  "TurnOrderCustomFrom getter = \<lparr>toFirst = Some (\<lambda>mc h. (0, h)), toNext = Some nextCustom,
                                 toPlayOrder = Some (\<lambda>mc h. (getter (mcG mc), h))\<rparr>"

text \<open>The zero order of a TurnConfig means the default order.\<close>

definition zeroOrder :: "('g, 'h) turnOrder" where
  "zeroOrder = \<lparr>toFirst = None, toNext = None, toPlayOrder = None\<rparr>"

definition effectiveOrder :: "('g, 'h) turnConfig option \<Rightarrow> ('g, 'h) turnOrder" where
  "effectiveOrder turn =
     (case turn of
        Some t \<Rightarrow> (if IsDefault (tcOrder t) then TurnOrderDefault else tcOrder t)
      | None \<Rightarrow> TurnOrderDefault)"

section \<open>Seats\<close>

text \<open>\<open>strconv.Itoa\<close> on a non-negative number.\<close>

fun itoa :: "nat \<Rightarrow> string" where
  "itoa n = (if n < 10 then [char_of (48 + n)] else itoa (n div 10) @ [char_of (48 + n mod 10)])"

declare itoa.simps [simp del]

definition defaultPlayOrder :: "int \<Rightarrow> string list" where
  "defaultPlayOrder n = map itoa [0..<nat n]"

text \<open>
  The seating invariant: no more seats in the play order than players, and the cursor points
  at a seat whenever there is one. (Eliminating players shortens PlayOrder but leaves
  NumPlayers alone.)
\<close>

definition seatsOk :: "ctx \<Rightarrow> bool" where
  "seatsOk c \<longleftrightarrow> int (length (PlayOrder c)) \<le> NumPlayers c \<and>
     (PlayOrder c = [] \<or> 0 \<le> PlayOrderPos c \<and> PlayOrderPos c < int (length (PlayOrder c)))"

text \<open>
  What the rotation code relies on. In a well-seated, non-empty game \<open>Next\<close> returns (does not
  panic) a position that is not negative, or nil; \<open>First\<close> returns a position within the play
  order that the order installs.
\<close>

definition orderResult :: "('g, 'h) turnOrder \<Rightarrow> 'g moveContext \<Rightarrow> 'h \<Rightarrow> string list \<times> 'h" where
  "orderResult ord mc h =
     (case toPlayOrder ord of Some f \<Rightarrow> f mc h | None \<Rightarrow> (PlayOrder (mcCtx mc), h))"

locale turn_order =
  fixes ord :: "('g, 'h) turnOrder"
  assumes next_total: "\<And>f mc h. toNext ord = Some f \<Longrightarrow> seatsOk (mcCtx mc) \<Longrightarrow> PlayOrder (mcCtx mc) \<noteq> [] \<Longrightarrow>
      \<exists>r h'. f mc h = Some (r, h') \<and> (\<forall>n. r = Some n \<longrightarrow> 0 \<le> n)"
    and first_in_range: "\<And>f mc h. toFirst ord = Some f \<Longrightarrow> seatsOk (mcCtx mc) \<Longrightarrow>
      fst (orderResult ord mc h) \<noteq> [] \<Longrightarrow>
      0 \<le> fst (f mc h') \<and> fst (f mc h') < int (length (fst (orderResult ord mc h)))"

text \<open>A round-robin order that never ends the phase also names the next seat exactly.\<close>

locale cyclic_order = turn_order ord for ord :: "('g, 'h) turnOrder" +
  assumes next_cyclic: "\<And>f mc h. toNext ord = Some f \<Longrightarrow> seatsOk (mcCtx mc) \<Longrightarrow> PlayOrder (mcCtx mc) \<noteq> [] \<Longrightarrow>
      \<exists>n. f mc h = Some (Some n, h) \<and>
          n mod int (length (PlayOrder (mcCtx mc))) =
            (PlayOrderPos (mcCtx mc) + 1) mod int (length (PlayOrder (mcCtx mc))) \<and>
          n \<le> int (length (PlayOrder (mcCtx mc)))"

lemma seatsOk_bounds:
  assumes "seatsOk c" "PlayOrder c \<noteq> []"
  shows "0 \<le> PlayOrderPos c" "PlayOrderPos c < int (length (PlayOrder c))"
    "int (length (PlayOrder c)) \<le> NumPlayers c" "0 < NumPlayers c"
proof -
  have "0 < int (length (PlayOrder c))" using assms(2) by simp
  then show "0 \<le> PlayOrderPos c" "PlayOrderPos c < int (length (PlayOrder c))"
    "int (length (PlayOrder c)) \<le> NumPlayers c" "0 < NumPlayers c"
    using assms unfolding seatsOk_def by auto
qed

text \<open>
  After eliminations NumPlayers exceeds the number of seats; the round-robin step is still
  the next seat, up to the wrap-around that the rotation code applies.
\<close>

lemma nextRoundRobin_cyclic:
  assumes "seatsOk (mcCtx mc)" "PlayOrder (mcCtx mc) \<noteq> []"
  shows "\<exists>n. nextRoundRobin mc h = Some (Some n, h) \<and> 0 \<le> n \<and>
          n mod int (length (PlayOrder (mcCtx mc))) =
            (PlayOrderPos (mcCtx mc) + 1) mod int (length (PlayOrder (mcCtx mc))) \<and>
          n \<le> int (length (PlayOrder (mcCtx mc)))"
proof -
  note b = seatsOk_bounds [OF assms]
  let ?p = "PlayOrderPos (mcCtx mc) + 1" and ?n = "NumPlayers (mcCtx mc)"
  let ?l = "int (length (PlayOrder (mcCtx mc)))"
  have g: "gomod ?p ?n = ?p mod ?n" using b by (intro gomod_nonneg) auto
  show ?thesis
  proof (cases "?p < ?n")
    case True
    then have "?p mod ?n = ?p" using b by simp
    then show ?thesis using b g by (simp add: nextRoundRobin_def)
  next
    case False
    then have eq: "?p = ?n" "?n = ?l" using b by auto
    then show ?thesis using b g by (simp add: nextRoundRobin_def)
  qed
qed

lemma nextCustom_cyclic:
  assumes "seatsOk (mcCtx mc)" "PlayOrder (mcCtx mc) \<noteq> []"
  shows "\<exists>n. nextCustom mc h = Some (Some n, h) \<and> 0 \<le> n \<and>
          n mod int (length (PlayOrder (mcCtx mc))) =
            (PlayOrderPos (mcCtx mc) + 1) mod int (length (PlayOrder (mcCtx mc))) \<and>
          n \<le> int (length (PlayOrder (mcCtx mc)))"
proof -
  note b = seatsOk_bounds [OF assms]
  let ?p = "PlayOrderPos (mcCtx mc) + 1" and ?l = "int (length (PlayOrder (mcCtx mc)))"
  have "gomod ?p ?l = ?p mod ?l" using b by (intro gomod_nonneg) auto
  moreover have "?p mod ?l \<le> ?l" using b pos_mod_bound [of ?l ?p] by linarith
  moreover have "0 \<le> ?p mod ?l" using b by (intro pos_mod_sign) linarith
  ultimately show ?thesis using assms by (simp add: nextCustom_def)
qed

lemma orderResult_none: "toPlayOrder ord = None \<Longrightarrow> orderResult ord mc h = (PlayOrder (mcCtx mc), h)"
  by (simp add: orderResult_def)

lemma cyclic_orderI:
  fixes ord :: "('g, 'h) turnOrder"
  assumes nx: "toNext ord = Some nx"
    and step: "\<And>mc h. seatsOk (mcCtx mc) \<Longrightarrow> PlayOrder (mcCtx mc) \<noteq> [] \<Longrightarrow>
      \<exists>n. nx mc h = Some (Some n, h) \<and> 0 \<le> n \<and>
          n mod int (length (PlayOrder (mcCtx mc))) =
            (PlayOrderPos (mcCtx mc) + 1) mod int (length (PlayOrder (mcCtx mc))) \<and>
          n \<le> int (length (PlayOrder (mcCtx mc)))"
    and first: "\<And>f mc h h'. toFirst ord = Some f \<Longrightarrow> seatsOk (mcCtx mc) \<Longrightarrow>
      fst (orderResult ord mc h) \<noteq> [] \<Longrightarrow>
      0 \<le> fst (f mc h') \<and> fst (f mc h') < int (length (fst (orderResult ord mc h)))"
  shows "cyclic_order ord"
proof unfold_locales
  fix f and mc :: "'g moveContext" and h :: 'h
  assume ok: "toNext ord = Some f" "seatsOk (mcCtx mc)" "PlayOrder (mcCtx mc) \<noteq> []"
  then show "\<exists>r h'. f mc h = Some (r, h') \<and> (\<forall>n. r = Some n \<longrightarrow> 0 \<le> n)"
    using step [OF ok(2,3), of h] nx by auto
  show "\<exists>n. f mc h = Some (Some n, h) \<and>
          n mod int (length (PlayOrder (mcCtx mc))) =
            (PlayOrderPos (mcCtx mc) + 1) mod int (length (PlayOrder (mcCtx mc))) \<and>
          n \<le> int (length (PlayOrder (mcCtx mc)))"
    using step [OF ok(2,3), of h] nx ok(1) by auto
qed (rule first)

interpretation roundRobin: cyclic_order TurnOrderDefault
  by (rule cyclic_orderI [where nx = nextRoundRobin])
    (auto simp: TurnOrderDefault_def intro: nextRoundRobin_cyclic)

interpretation continueOrder: cyclic_order TurnOrderContinue
  by (rule cyclic_orderI [where nx = nextRoundRobin])
    (auto simp: TurnOrderContinue_def orderResult_def intro: nextRoundRobin_cyclic dest: seatsOk_bounds)

interpretation customOrder: cyclic_order "TurnOrderCustom ord" for ord
  by (rule cyclic_orderI [where nx = nextCustom])
    (auto simp: TurnOrderCustom_def intro: nextCustom_cyclic)

interpretation customFromOrder: cyclic_order "TurnOrderCustomFrom getter" for getter
  by (rule cyclic_orderI [where nx = nextCustom])
    (auto simp: TurnOrderCustomFrom_def intro: nextCustom_cyclic)

interpretation onceOrder: turn_order TurnOrderOnce
proof unfold_locales
  fix f :: "'a moveContext \<Rightarrow> 'b \<Rightarrow> (int option \<times> 'b) option" and mc :: "'a moveContext" and h :: 'b
  assume "toNext TurnOrderOnce = Some f" "seatsOk (mcCtx mc)" "PlayOrder (mcCtx mc) \<noteq> []"
  then show "\<exists>r h'. f mc h = Some (r, h') \<and> (\<forall>n. r = Some n \<longrightarrow> 0 \<le> n)"
    by (auto simp: TurnOrderOnce_def nextOnce_def Let_def dest: seatsOk_bounds)
next
  fix f :: "'a moveContext \<Rightarrow> 'b \<Rightarrow> int \<times> 'b" and mc :: "'a moveContext" and h h' :: 'b
  assume "toFirst TurnOrderOnce = Some f" "fst (orderResult TurnOrderOnce mc h) \<noteq> []"
  then show "0 \<le> fst (f mc h') \<and> fst (f mc h') < int (length (fst (orderResult TurnOrderOnce mc h)))"
    by (auto simp: TurnOrderOnce_def)
qed

lemma TurnOrderReset_eq: "TurnOrderReset = TurnOrderDefault"
  by (simp add: TurnOrderReset_def TurnOrderDefault_def)

section \<open>Decimal seat names\<close>

lemma itoa_digits: "n < 10 \<Longrightarrow> itoa n = [char_of (48 + n)]"
  by (simp add: itoa.simps)

text \<open>\<open>ParseInt\<close>'s reading of a decimal string, the inverse of \<open>itoa\<close>.\<close>

definition atoi :: "string \<Rightarrow> nat" where
  "atoi s = foldl (\<lambda>acc c. 10 * acc + (of_char c - 48)) 0 s"

lemma atoi_itoa: "atoi (itoa n) = n"
proof (induction n rule: itoa.induct)
  case (1 n)
  show ?case
  proof (cases "n < 10")
    case True
    then show ?thesis by (simp add: itoa_digits atoi_def)
  next
    case False
    have "atoi (itoa n) = 10 * atoi (itoa (n div 10)) + n mod 10"
      using False by (subst itoa.simps) (simp add: atoi_def)
    then show ?thesis using 1 False by simp
  qed
qed

lemma itoa_inj: "itoa m = itoa n \<Longrightarrow> m = n"
  by (metis atoi_itoa)

lemma distinct_defaultPlayOrder: "distinct (defaultPlayOrder n)"
  by (auto simp: defaultPlayOrder_def distinct_map inj_on_def dest: itoa_inj)

lemma length_defaultPlayOrder [simp]: "length (defaultPlayOrder n) = nat n"
  by (simp add: defaultPlayOrder_def)

end
