(* ===== verification/Transitions.thy ===== *)
theory Transitions
  imports TurnOrders
begin

text \<open>
  Turn, phase and stage rotation and the event drain (\<open>core/transitions.go\<close>). A transition
  takes the state and the hook environment and returns both; \<open>None\<close> is a run-time panic (an
  index out of range, a division by zero in a turn order) or, for the event drain, a drain
  that never ends because hooks keep queueing events.
\<close>

definition maxChainedMoves :: nat where
  "maxChainedMoves = 32"

section \<open>Hooks that open a turn or a phase\<close>

definition turnHook :: "(('g, 'h) turnConfig \<Rightarrow> ('g, 'h) hookFn option) \<Rightarrow> ('g, 'h) turnConfig option
    \<Rightarrow> ('g, 'h) hookFn option" where
  "turnHook sel turn = (case turn of None \<Rightarrow> None | Some t \<Rightarrow> sel t)"

definition runTurnOnBegin :: "('g, 'h) game \<Rightarrow> 'g state \<Rightarrow> 'h hookEnv \<Rightarrow> 'g state \<times> 'h hookEnv" where
  "runTurnOnBegin game st env =
     runHookOpt game (turnHook tcOnBegin (scopeTurn game (Phase (Ctx st)))) GameMethodTurnOnBegin st '''' env"

definition runPhaseOnBegin :: "('g, 'h) game \<Rightarrow> 'g state \<Rightarrow> 'h hookEnv \<Rightarrow> 'g state \<times> 'h hookEnv" where
  "runPhaseOnBegin game st env =
     (if Phase (Ctx st) = '''' then (st, env)
      else case map_of (gmPhases game) (Phase (Ctx st)) of
        None \<Rightarrow> (st, env)
      | Some p \<Rightarrow> runHookOpt game (pcOnBegin p) GameMethodPhaseOnBegin st '''' env)"

definition runGameOnEnd :: "('g, 'h) game \<Rightarrow> 'g state \<Rightarrow> 'h hookEnv \<Rightarrow> 'g state \<times> 'h hookEnv" where
  "runGameOnEnd game st env = runHookOpt game (gmOnEnd game) GameMethodGameOnEnd st '''' env"

text \<open>
  Entering a phase: the order may override PlayOrder (and with it NumPlayers), then chooses
  the first position; the current player is whoever sits there.
\<close>

definition applyTurnOrderFirst :: "('g, 'h) game \<Rightarrow> 'g state \<Rightarrow> 'g moveContext \<Rightarrow> 'h \<Rightarrow> ('g state \<times> 'h) option" where
  "applyTurnOrderFirst game st mc h =
     (let ord = effectiveOrder (scopeTurn game (Phase (Ctx st)));
          (st, h) = (case toPlayOrder ord of
             Some f \<Rightarrow> (let (po, h) = f mc h
                        in (st\<lparr>Ctx := (Ctx st)\<lparr>PlayOrder := po, NumPlayers := int (length po)\<rparr>\<rparr>, h))
           | None \<Rightarrow> (st, h));
          (pos, h) = (case toFirst ord of Some f \<Rightarrow> f mc h | None \<Rightarrow> (0, h));
          st = st\<lparr>Ctx := (Ctx st)\<lparr>PlayOrderPos := pos\<rparr>\<rparr>
      in if PlayOrder (Ctx st) = [] then Some (st, h)
         else case index_at (PlayOrder (Ctx st)) pos of
           None \<Rightarrow> None
         | Some p \<Rightarrow> Some (st\<lparr>Ctx := (Ctx st)\<lparr>CurrentPlayer := p\<rparr>\<rparr>, h))"

definition runPhaseEnter :: "('g, 'h) game \<Rightarrow> 'g state \<Rightarrow> 'h hookEnv \<Rightarrow> ('g state \<times> 'h hookEnv) option" where
  "runPhaseEnter game st env = do {
     (st, h) \<leftarrow> applyTurnOrderFirst game st (envMC env st '''') (envHeap env);
     let st = applyActivePlayersFromTurn game st;
     let (st, env) = runPhaseOnBegin game st (env\<lparr>envHeap := h\<rparr>);
     Some (runTurnOnBegin game st env)
   }"

section \<open>Rotation\<close>

text \<open>Leaving a phase: end the turn, choose the target, run the phase's OnEnd, clear turn state.\<close>

definition clearTurnState :: "'g state \<Rightarrow> 'g state" where
  "clearTurnState st =
     st\<lparr>Ctx := (Ctx st)\<lparr>NumMoves := 0, ActivePlayers := None\<rparr>, MoveCounts := None,
        StageMinMoves := None, StageMaxMoves := None, ActiveStack := [], PendingNext := None\<rparr>"

definition leavePhase :: "('g, 'h) game \<Rightarrow> ('g, 'h) phaseConfig \<Rightarrow> 'g state \<Rightarrow> string \<Rightarrow> 'h hookEnv
    \<Rightarrow> 'g state \<times> 'h hookEnv" where
  "leavePhase game current st nextPhase env =
     (let (st, env) = runHookOpt game (turnHook tcOnEnd (scopeTurn game (Phase (Ctx st))))
                        GameMethodTurnOnEnd st '''' env;
          (target, h) = (if nextPhase = '''' then resolveNextPhase current (mcNoEvents env st) (envHeap env)
                         else (nextPhase, envHeap env));
          (st, env) = runHookOpt game (pcOnEnd current) GameMethodPhaseOnEnd st '''' (env\<lparr>envHeap := h\<rparr>);
          st = clearTurnState st
      in (st\<lparr>Ctx := (Ctx st)\<lparr>Phase := target, Turn := Turn (Ctx st) + 1\<rparr>\<rparr>, env))"

definition moveCursor :: "'g state \<Rightarrow> int \<Rightarrow> 'h hookEnv \<Rightarrow> ('g state \<times> 'h hookEnv) option" where
  "moveCursor st pos env =
     (case index_at (PlayOrder (Ctx st)) pos of
        None \<Rightarrow> None
      | Some p \<Rightarrow> Some (st\<lparr>Ctx := (Ctx st)\<lparr>PlayOrderPos := pos, CurrentPlayer := p\<rparr>\<rparr>, env))"

function advancePlayOrderPos :: "('g, 'h) game \<Rightarrow> 'g state \<Rightarrow> ('g, 'h) turnConfig option \<Rightarrow> 'h hookEnv
    \<Rightarrow> ('g state \<times> 'h hookEnv) option"
and endPhase :: "('g, 'h) game \<Rightarrow> 'g state \<Rightarrow> string \<Rightarrow> 'h hookEnv \<Rightarrow> ('g state \<times> 'h hookEnv) option" where
  "advancePlayOrderPos game st turn env =
     (if PlayOrder (Ctx st) = [] then Some (st, env)
      else case toNext (effectiveOrder turn) of
        None \<Rightarrow> moveCursor st (gomod (PlayOrderPos (Ctx st) + 1) (int (length (PlayOrder (Ctx st))))) env
      | Some f \<Rightarrow>
          (case f (mcNoEvents env st) (envHeap env) of
             None \<Rightarrow> None
           | Some (None, h) \<Rightarrow> endPhase game st '''' (env\<lparr>envHeap := h\<rparr>)
           | Some (Some n, h) \<Rightarrow>
               moveCursor st (if int (length (PlayOrder (Ctx st))) \<le> n
                              then gomod n (int (length (PlayOrder (Ctx st)))) else n)
                          (env\<lparr>envHeap := h\<rparr>)))"
| "endPhase game st nextPhase env =
     (if Phase (Ctx st) = '''' then
        (if nextPhase = '''' then Some (st, env)
         else runPhaseEnter game (st\<lparr>Ctx := (Ctx st)\<lparr>Phase := nextPhase\<rparr>\<rparr>) env)
      else case map_of (gmPhases game) (Phase (Ctx st)) of
        None \<Rightarrow> Some (st, env)
      | Some current \<Rightarrow>
          (let (st', env') = leavePhase game current st nextPhase env
           in if Phase (Ctx st') = '''' then
                Option.bind (advancePlayOrderPos game st' (gmTurn game) env') (\<lambda>(st', env').
                  Some (runTurnOnBegin game (applyActivePlayersFromTurn game st') env'))
              else runPhaseEnter game st' env'))"
  by pat_completeness auto

termination
proof (relation "measure (\<lambda>x. case x of
      Inl (game, st, turn, env) \<Rightarrow> (if Phase (Ctx st) = '''' then 1 else 3)
    | Inr (game, st, np, env) \<Rightarrow> (if Phase (Ctx st) = '''' then 0 else 2))")
qed auto

declare advancePlayOrderPos.simps [simp del] endPhase.simps [simp del]

text \<open>The player of the next turn: the one named, or the one the turn order chooses.\<close>

definition nextSeat :: "('g, 'h) game \<Rightarrow> 'g state \<Rightarrow> ('g, 'h) turnConfig option \<Rightarrow> string \<Rightarrow> 'h hookEnv
    \<Rightarrow> ('g state \<times> 'h hookEnv) option" where
  "nextSeat game st turn nextPlayer env =
     (if nextPlayer \<noteq> '''' then
        (let c = (Ctx st)\<lparr>CurrentPlayer := nextPlayer\<rparr>;
             c = (case find_index (\<lambda>p. p = nextPlayer) (PlayOrder c) of
                    Some i \<Rightarrow> c\<lparr>PlayOrderPos := int i\<rparr> | None \<Rightarrow> c)
         in Some (st\<lparr>Ctx := c\<rparr>, env))
      else advancePlayOrderPos game st turn env)"

definition beginTurn :: "('g, 'h) game \<Rightarrow> 'g state \<Rightarrow> 'h hookEnv \<Rightarrow> 'g state \<times> 'h hookEnv" where
  "beginTurn game st env =
     (let st = st\<lparr>Ctx := (Ctx st)\<lparr>Turn := Turn (Ctx st) + 1\<rparr>\<rparr>
      in runTurnOnBegin game (applyActivePlayersFromTurn game st) env)"

definition endTurn :: "('g, 'h) game \<Rightarrow> 'g state \<Rightarrow> string \<Rightarrow> 'h hookEnv \<Rightarrow> ('g state \<times> 'h hookEnv) option" where
  "endTurn game st nextPlayer env =
     (let turn = scopeTurn game (Phase (Ctx st));
          (st, env) = runHookOpt game (turnHook tcOnEnd turn) GameMethodTurnOnEnd st '''' env;
          st = (clearTurnState st)\<lparr>TurnSnapshots := [], Undone := []\<rparr>
      in do {
        (st, env) \<leftarrow> nextSeat game st turn nextPlayer env;
        if nextPlayer = '''' \<and> Gameover (Ctx st) \<noteq> VNil then Some (st, env)
        else Some (beginTurn game st env)
      })"

section \<open>Stages\<close>

definition setStage :: "('g, 'h) game \<Rightarrow> 'g state \<Rightarrow> string \<Rightarrow> string \<Rightarrow> 'h hookEnv \<Rightarrow> 'g state \<times> 'h hookEnv" where
  "setStage game st pid stageName env =
     (let st = st\<lparr>Ctx := (Ctx st)\<lparr>ActivePlayers := mputo pid stageName (ActivePlayers (Ctx st))\<rparr>,
                  MoveCounts := mdelo pid (MoveCounts st)\<rparr>
      in runHookOpt game (Option.bind (lookupStage game (Phase (Ctx st)) stageName) scOnBegin)
           GameMethodStageOnBegin st pid env)"

definition setStageLong :: "('g, 'h) game \<Rightarrow> 'g state \<Rightarrow> string \<Rightarrow> setStageOpts \<Rightarrow> 'h hookEnv
    \<Rightarrow> 'g state \<times> 'h hookEnv" where
  "setStageLong game st pid opts env =
     (let (st, env) = setStage game st pid (ssStage opts) env;
          st = (if ssHasMin opts then st\<lparr>StageMinMoves := mputo pid (ssMinMoves opts) (StageMinMoves st)\<rparr> else st);
          st = (if ssHasMax opts then st\<lparr>StageMaxMoves := mputo pid (ssMaxMoves opts) (StageMaxMoves st)\<rparr> else st)
      in (st, env))"

text \<open>
  The stage a player goes to next: the Next of the active phase's entry if it names one, else
  the Next of the game-level entry.
\<close>

definition nextStageOf :: "('g, 'h) game \<Rightarrow> string \<Rightarrow> string \<Rightarrow> string" where
  "nextStageOf game phase stage =
     (let fromPhase = (case (if phase \<noteq> '''' then map_of (gmPhases game) phase else None) of
             Some p \<Rightarrow> (case pcTurn p of
                          Some t \<Rightarrow> (case map_of (tcStages t) stage of Some s \<Rightarrow> scNext s | None \<Rightarrow> '''')
                        | None \<Rightarrow> '''')
           | None \<Rightarrow> '''')
      in if fromPhase \<noteq> '''' then fromPhase
         else case gmTurn game of
           Some t \<Rightarrow> (case map_of (tcStages t) stage of Some s \<Rightarrow> scNext s | None \<Rightarrow> '''')
         | None \<Rightarrow> '''')"

definition endStage :: "('g, 'h) game \<Rightarrow> 'g state \<Rightarrow> string \<Rightarrow> 'h hookEnv \<Rightarrow> 'g state \<times> 'h hookEnv" where
  "endStage game st pid env =
     (if ActivePlayers (Ctx st) = None then (st, env)
      else
        (let cur = (case mget (ActivePlayers (Ctx st)) pid of Some s \<Rightarrow> s | None \<Rightarrow> '''');
             (st, env) = runHookOpt game (Option.bind (lookupStage game (Phase (Ctx st)) cur) scOnEnd)
                           GameMethodStageOnEnd st pid env;
             nxt = nextStageOf game (Phase (Ctx st)) cur
         in if nxt \<noteq> '''' then setStage game st pid nxt env
            else (let st = dropActive st pid
                  in (if ActivePlayers (Ctx st) = Some [] then drainActivePlayers st else st, env))))"

section \<open>Elimination\<close>

text \<open>
  Splicing a seat out moves the cursor down when the seat lay before it and back to the start
  when it falls off the end; the current player is then whoever sits at the cursor.
\<close>

definition spliceSeat :: "ctx \<Rightarrow> nat \<Rightarrow> ctx option" where
  "spliceSeat c idx =
     (let order = remove_at idx (PlayOrder c);
          pos = (if int idx < PlayOrderPos c then PlayOrderPos c - 1 else PlayOrderPos c)
      in if order = [] then Some (c\<lparr>PlayOrder := [], CurrentPlayer := '''', PlayOrderPos := 0\<rparr>)
         else (let pos = (if int (length order) \<le> pos then 0 else pos)
               in case index_at order pos of
                    None \<Rightarrow> None
                  | Some p \<Rightarrow> Some (c\<lparr>PlayOrder := order, PlayOrderPos := pos, CurrentPlayer := p\<rparr>)))"

definition leaveActive :: "ctx \<Rightarrow> string \<Rightarrow> ctx" where
  "leaveActive c pid =
     (let ap = mdelo pid (ActivePlayers c) in c\<lparr>ActivePlayers := (if ap = Some [] then None else ap)\<rparr>)"

definition removePlayer :: "('g, 'h) game \<Rightarrow> 'g state \<Rightarrow> string \<Rightarrow> 'h hookEnv \<Rightarrow> ('g state \<times> 'h hookEnv) option" where
  "removePlayer game st pid env =
     (case find_index (\<lambda>p. p = pid) (PlayOrder (Ctx st)) of
        None \<Rightarrow> Some (st, env)
      | Some idx \<Rightarrow> do {
          c \<leftarrow> spliceSeat (Ctx st) idx;
          if PlayOrder c = [] then Some (st\<lparr>Ctx := c\<rparr>, env)
          else do {
            (st, env) \<leftarrow> (if CurrentPlayer (Ctx st) = pid then endTurn game (st\<lparr>Ctx := c\<rparr>) '''' env
                         else Some (st\<lparr>Ctx := c\<rparr>, env));
            Some (st\<lparr>Ctx := leaveActive (Ctx st) pid\<rparr>, env)
          }})"

section \<open>Draining events\<close>

text \<open>
  A chained move runs in the surrounding move's player context, resolves from the phase or
  global table only, and is dropped silently when it does not resolve or fails; what it
  queued before failing stays queued.
\<close>

definition runChainedMove :: "('g, 'h) game \<Rightarrow> 'g state \<Rightarrow> 'g moveContext \<Rightarrow> string \<Rightarrow> goval list \<Rightarrow> 'h hookEnv
    \<Rightarrow> 'g state \<times> 'h hookEnv" where
  "runChainedMove game st parent name args env =
     (case mget (scopeMoves game (Phase (Ctx st))) name of
        None \<Rightarrow> (st, env)
      | Some raw \<Rightarrow>
          (case asMove raw of
             Inl e \<Rightarrow> (st, env)
           | Inr m \<Rightarrow>
               (case mvMove m of
                  None \<Rightarrow> (st, env)
                | Some f \<Rightarrow>
                    (let mc = \<lparr>mcG = G st, mcCtx = Ctx st, mcPlayerID = mcPlayerID parent,
                               mcPlugins = mcPlugins parent, mcQueue = Some (envQueue env),
                               mcResumingBlock = None, mcExtra = [], mcChainedMoves = mcChainedMoves parent\<rparr>;
                         (r, ef, h) = f mc args (envHeap env);
                         env = perform ef h env
                     in case r of
                          Inl e \<Rightarrow> (st, env)
                        | Inr g \<Rightarrow>
                            (st\<lparr>G := g, StateID := StateID st + 1,
                                Log := Log st @
                                  [emptyLogEntry\<lparr>leKind := ''chained-move'', leMove := name,
                                     lePlayerID := mcPlayerID parent, leArgs := args,
                                     leTurn := Turn (Ctx st), lePhase := Phase (Ctx st)\<rparr>] @ loggedBy mc ef\<rparr>,
                             env)))))"

definition minMovesUnmet :: "('g, 'h) game \<Rightarrow> 'g state \<Rightarrow> bool" where
  "minMovesUnmet game st =
     (case scopeTurn game (Phase (Ctx st)) of
        None \<Rightarrow> False
      | Some t \<Rightarrow> 0 < tcMinMoves t \<and> NumMoves (Ctx st) < tcMinMoves t)"

fun applyTransition :: "('g, 'h) game \<Rightarrow> event \<Rightarrow> 'g state \<Rightarrow> 'g moveContext \<Rightarrow> 'h hookEnv
    \<Rightarrow> ('g state \<times> 'h hookEnv) option" where
  "applyTransition game (EvEndTurn nxt) st mc env = endTurn game st nxt env"
| "applyTransition game EvPass st mc env = endTurn game st '''' env"
| "applyTransition game EvEndPhase st mc env = endPhase game st '''' env"
| "applyTransition game (EvSetPhase ph) st mc env = endPhase game st ph env"
| "applyTransition game EvEndStage st mc env = Some (endStage game st (mcPlayerID mc) env)"
| "applyTransition game (EvSetStage s) st mc env = Some (setStage game st (mcPlayerID mc) s env)"
| "applyTransition game (EvSetStageLong opts) st mc env = Some (setStageLong game st (mcPlayerID mc) opts env)"
| "applyTransition game (EvEndGame v) st mc env =
     Some (runGameOnEnd game (st\<lparr>Ctx := (Ctx st)\<lparr>Gameover := v\<rparr>\<rparr>) env)"
| "applyTransition game (EvSetActivePlayers cfg) st mc env = Some (applySetActivePlayers st cfg, env)"
| "applyTransition game (EvRemovePlayer pid) st mc env = removePlayer game st pid env"
| "applyTransition game (EvRunMove name args) st mc env = Some (runChainedMove game st mc name args env)"

text \<open>
  One event: an EndTurn below MinMoves and a chained move beyond the cap are skipped;
  otherwise the transition is applied and the working context refreshed.
\<close>

definition refresh :: "'g state \<Rightarrow> 'g moveContext \<Rightarrow> 'g moveContext" where
  "refresh st mc = mc\<lparr>mcG := G st, mcCtx := Ctx st\<rparr>"

definition applyEvent :: "('g, 'h) game \<Rightarrow> event \<Rightarrow> 'g state \<Rightarrow> 'g moveContext \<Rightarrow> 'h hookEnv
    \<Rightarrow> ('g state \<times> 'g moveContext \<times> 'h hookEnv) option" where
  "applyEvent game ev st mc env =
     (let mc = (case ev of EvRunMove _ _ \<Rightarrow> mc\<lparr>mcChainedMoves := Suc (mcChainedMoves mc)\<rparr> | _ \<Rightarrow> mc);
          skip = (case ev of
                    EvEndTurn _ \<Rightarrow> minMovesUnmet game st
                  | EvPass \<Rightarrow> minMovesUnmet game st
                  | EvRunMove _ _ \<Rightarrow> maxChainedMoves < mcChainedMoves mc
                  | _ \<Rightarrow> False)
      in if skip then Some (st, mc, env)
         else Option.bind (applyTransition game ev st mc env)
                (\<lambda>(st, env). Some (st, refresh st mc, env)))"

fun applyBatch :: "('g, 'h) game \<Rightarrow> event list \<Rightarrow> 'g state \<Rightarrow> 'g moveContext \<Rightarrow> 'h hookEnv
    \<Rightarrow> ('g state \<times> 'g moveContext \<times> 'h hookEnv) option" where
  "applyBatch game [] st mc env = Some (st, mc, env)"
| "applyBatch game (ev # evs) st mc env =
     Option.bind (applyEvent game ev st mc env) (\<lambda>(st, mc, env). applyBatch game evs st mc env)"

partial_function (option) drainEvents :: "('g, 'h) game \<Rightarrow> 'g state \<Rightarrow> 'g moveContext \<Rightarrow> 'h hookEnv
    \<Rightarrow> ('g state \<times> 'g moveContext \<times> 'h hookEnv) option" where
  "drainEvents game st mc env =
     (let (batch, rest) = evDrain (envEvents env)
      in if batch = [] then Some (st, mc, env)
         else Option.bind (applyBatch game batch st mc (env\<lparr>envEvents := rest\<rparr>))
                (\<lambda>(st, mc, env). drainEvents game st mc env))"

declare drainEvents.simps [code]

section \<open>Frames\<close>

text \<open>
  No transition touches the pending prompts, the queued actions or the plugin data, and the
  log and the state id only grow; the rules below carry this from the hooks up to the drain.
\<close>

lemma hook_in_scope:
  "turnHook tcOnBegin (scopeTurn game ph) = Some f \<Longrightarrow> (f, GameMethodTurnOnBegin) \<in> gameHooks game"
  "turnHook tcOnEnd (scopeTurn game ph) = Some f \<Longrightarrow> (f, GameMethodTurnOnEnd) \<in> gameHooks game"
  by (auto simp: turnHook_def split: option.splits dest: scopeTurn_turnConfigs intro: gameHooks_intros)

lemma stageHook_in_scope:
  "Option.bind (lookupStage game ph s) scOnBegin = Some f \<Longrightarrow> (f, GameMethodStageOnBegin) \<in> gameHooks game"
  "Option.bind (lookupStage game ph s) scOnEnd = Some f \<Longrightarrow> (f, GameMethodStageOnEnd) \<in> gameHooks game"
  by (auto dest: lookupStage_stageConfigs intro: gameHooks_intros)

lemma grows_runTurnOnBegin [frame_rules]:
  "runTurnOnBegin game st env = (st', env') \<Longrightarrow> logsOk P game \<Longrightarrow> grows P st st'"
  unfolding runTurnOnBegin_def by (rule grows_runHookOpt) (auto intro: hook_in_scope)

lemma grows_runPhaseOnBegin [frame_rules]:
  "runPhaseOnBegin game st env = (st', env') \<Longrightarrow> logsOk P game \<Longrightarrow> grows P st st'"
  by (auto simp: runPhaseOnBegin_def split: if_splits option.splits
      intro: grows_runHookOpt gameHooks_intros phaseConfigs_map_of)

lemma grows_runGameOnEnd [frame_rules]:
  "runGameOnEnd game st env = (st', env') \<Longrightarrow> logsOk P game \<Longrightarrow> grows P st st'"
  unfolding runGameOnEnd_def by (rule grows_runHookOpt) (auto intro: gameHooks_intros)

lemma grows_applyTurnOrderFirst [frame_rules]:
  assumes "applyTurnOrderFirst game st mc h = Some (st', h')"
  shows "grows P st st'"
  using assms
  by (intro grows_same_log)
    (auto simp: applyTurnOrderFirst_def Let_def split: option.splits prod.splits if_splits)

lemma grows_runPhaseEnter [frame_rules]:
  assumes "runPhaseEnter game st env = Some (st', env')" "logsOk P game"
  shows "grows P st st'"
proof -
  obtain s1 h1 s2 e2 where
    "applyTurnOrderFirst game st (envMC env st '''') (envHeap env) = Some (s1, h1)"
    "runPhaseOnBegin game (applyActivePlayersFromTurn game s1) (env\<lparr>envHeap := h1\<rparr>) = (s2, e2)"
    "runTurnOnBegin game s2 e2 = (st', env')"
    using assms(1) by (auto simp: runPhaseEnter_def Let_def case_prod_eq_iff)
  then have "grows P st s1" "grows P s1 (applyActivePlayersFromTurn game s1)"
    "grows P (applyActivePlayersFromTurn game s1) s2" "grows P s2 st'"
    using assms(2) by (auto intro: frame_rules)
  then show ?thesis by (blast intro: grows_trans)
qed

lemma grows_clearTurnState [simp, intro]: "grows P st (clearTurnState st)"
  by (rule grows_same_log) (simp_all add: clearTurnState_def)

lemma grows_leavePhase [frame_rules]:
  assumes "leavePhase game current st np env = (st', env')" "logsOk P game" "current \<in> phaseConfigs game"
  shows "grows P st st'"
proof -
  obtain s1 e1 s2 e2 target h where
    h1: "runHookOpt game (turnHook tcOnEnd (scopeTurn game (Phase (Ctx st)))) GameMethodTurnOnEnd st '''' env = (s1, e1)"
    and h2: "runHookOpt game (pcOnEnd current) GameMethodPhaseOnEnd s1 '''' (e1\<lparr>envHeap := h\<rparr>) = (s2, e2)"
    and st': "st' = (clearTurnState s2)\<lparr>Ctx := (Ctx (clearTurnState s2))\<lparr>Phase := target, Turn := Turn (Ctx s2) + 1\<rparr>\<rparr>"
    using assms(1) by (auto simp: leavePhase_def clearTurnState_def Let_def split: prod.splits)
  have "grows P st s1" using h1 hook_in_scope(2) assms(2) by (rule grows_runHookOpt)
  also have "grows P s1 s2" using h2 gameHooks_intros(7) [OF assms(3)] assms(2) by (rule grows_runHookOpt)
  also have "grows P s2 (clearTurnState s2)" by simp
  also have "grows P (clearTurnState s2) st'" unfolding st' by (rule grows_ctx_update) simp_all
  finally show ?thesis .
qed

lemma grows_moveCursor [frame_rules]:
  "moveCursor st pos env = Some (st', env') \<Longrightarrow> grows P st st'"
  by (auto simp: moveCursor_def split: option.splits intro!: grows_ctx_update)

lemma grows_endPhase_step:
  assumes "endPhase game st np env = Some (st', env')" and logs: "logsOk P game"
    and adv: "\<And>current s1 e1 s2 e2. Phase (Ctx st) \<noteq> '''' \<Longrightarrow> map_of (gmPhases game) (Phase (Ctx st)) = Some current \<Longrightarrow>
      leavePhase game current st np env = (s1, e1) \<Longrightarrow> Phase (Ctx s1) = '''' \<Longrightarrow>
      advancePlayOrderPos game s1 (gmTurn game) e1 = Some (s2, e2) \<Longrightarrow> grows P s1 s2"
  shows "grows P st st'"
proof (cases "Phase (Ctx st) = '''' \<or> map_of (gmPhases game) (Phase (Ctx st)) = None")
  case True
  have "grows P st (st\<lparr>Ctx := (Ctx st)\<lparr>Phase := np\<rparr>\<rparr>)" by (rule grows_ctx_update) simp_all
  with True assms(1) logs show ?thesis
    by (subst (asm) endPhase.simps) (auto split: if_splits dest!: grows_runPhaseEnter intro: grows_trans)
next
  case False
  then obtain current where phase: "Phase (Ctx st) \<noteq> ''''" and cur: "map_of (gmPhases game) (Phase (Ctx st)) = Some current"
    by auto
  obtain s1 e1 where lv: "leavePhase game current st np env = (s1, e1)" by fastforce
  have "grows P st s1" using lv logs phaseConfigs_map_of [OF cur] by (rule grows_leavePhase)
  also have "grows P s1 st'"
  proof (cases "Phase (Ctx s1) = ''''")
    case True
    then obtain s2 e2 where a: "advancePlayOrderPos game s1 (gmTurn game) e1 = Some (s2, e2)"
      and b: "runTurnOnBegin game (applyActivePlayersFromTurn game s2) e2 = (st', env')"
      using assms(1) phase cur lv by (subst (asm) endPhase.simps) auto
    have "grows P s1 s2" using adv [OF phase cur lv True a] .
    also have "grows P s2 (applyActivePlayersFromTurn game s2)" by simp
    also have "grows P (applyActivePlayersFromTurn game s2) st'" using b logs by (rule grows_runTurnOnBegin)
    finally show ?thesis .
  next
    case False
    then have "runPhaseEnter game s1 e1 = Some (st', env')"
      using assms(1) phase cur lv by (subst (asm) endPhase.simps) auto
    then show ?thesis using logs by (rule grows_runPhaseEnter)
  qed
  finally show ?thesis .
qed

lemma grows_rotation:
  assumes "logsOk P game"
  shows "advancePlayOrderPos game st turn env = Some (st', env') \<Longrightarrow> grows P st st'"
    and "endPhase game st np env = Some (st', env') \<Longrightarrow> grows P st st'"
  using assms
proof (induction game st turn env and game st np env arbitrary: st' env' and st' env'
    rule: advancePlayOrderPos_endPhase.induct)
  case (1 game st turn env)
  from 1(2) show ?case
    by (subst (asm) advancePlayOrderPos.simps)
      (auto split: if_splits option.splits prod.splits intro: frame_rules 1(1) [OF _ _ _ _ _ _ 1(3)])
next
  case (2 game st np env)
  show ?case using 2(2,3) by (rule grows_endPhase_step) (use 2(1,3) in auto)
qed

lemmas grows_advancePlayOrderPos [frame_rules] = grows_rotation(1)
lemmas grows_endPhase [frame_rules] = grows_rotation(2)

lemma grows_nextSeat [frame_rules]:
  "nextSeat game st turn nxt env = Some (st', env') \<Longrightarrow> logsOk P game \<Longrightarrow> grows P st st'"
  by (auto simp: nextSeat_def Let_def split: if_splits option.splits
      intro!: grows_ctx_update dest!: grows_advancePlayOrderPos)

lemma grows_beginTurn [frame_rules]:
  assumes "beginTurn game st env = (st', env')" "logsOk P game"
  shows "grows P st st'"
proof -
  let ?s = "st\<lparr>Ctx := (Ctx st)\<lparr>Turn := Turn (Ctx st) + 1\<rparr>\<rparr>"
  have "grows P st ?s" by (rule grows_ctx_update) simp_all
  also have "grows P ?s (applyActivePlayersFromTurn game ?s)" by simp
  also have "grows P (applyActivePlayersFromTurn game ?s) st'"
    using assms by (auto simp: beginTurn_def Let_def intro: grows_runTurnOnBegin)
  finally show ?thesis .
qed

lemma endTurn_cases:
  assumes "endTurn game st nxt env = Some (st', env')"
  obtains s1 e1 s2 e2 where
    "runHookOpt game (turnHook tcOnEnd (scopeTurn game (Phase (Ctx st)))) GameMethodTurnOnEnd st '''' env = (s1, e1)"
    "nextSeat game ((clearTurnState s1)\<lparr>TurnSnapshots := [], Undone := []\<rparr>)
       (scopeTurn game (Phase (Ctx st))) nxt e1 = Some (s2, e2)"
    "if nxt = '''' \<and> Gameover (Ctx s2) \<noteq> VNil then (st', env') = (s2, e2) else (st', env') = beginTurn game s2 e2"
  using assms unfolding endTurn_def Let_def case_prod_eq_iff bind_Some_iff
  by (auto split: if_splits)

lemma grows_endTurn [frame_rules]:
  assumes "endTurn game st nxt env = Some (st', env')" "logsOk P game"
  shows "grows P st st'"
proof -
  obtain s1 e1 s2 e2 where
    h: "runHookOpt game (turnHook tcOnEnd (scopeTurn game (Phase (Ctx st)))) GameMethodTurnOnEnd st '''' env = (s1, e1)"
    and n: "nextSeat game ((clearTurnState s1)\<lparr>TurnSnapshots := [], Undone := []\<rparr>)
       (scopeTurn game (Phase (Ctx st))) nxt e1 = Some (s2, e2)"
    and b: "if nxt = '''' \<and> Gameover (Ctx s2) \<noteq> VNil then (st', env') = (s2, e2) else (st', env') = beginTurn game s2 e2"
    using assms(1) by (rule endTurn_cases)
  let ?s = "(clearTurnState s1)\<lparr>TurnSnapshots := [], Undone := []\<rparr>"

  have "grows P st s1" using h hook_in_scope(2) assms(2) by (rule grows_runHookOpt)
  also have "grows P s1 ?s" by (rule grows_same_log) (simp_all add: clearTurnState_def)
  also have "grows P ?s s2" using n assms(2) by (rule grows_nextSeat)
  also have "grows P s2 st'" using b assms(2) by (auto split: if_splits intro: grows_beginTurn [OF sym])
  finally show ?thesis .
qed

lemma grows_setStage [frame_rules]:
  assumes "setStage game st pid s env = (st', env')" "logsOk P game"
  shows "grows P st st'"
proof -
  let ?s = "st\<lparr>Ctx := (Ctx st)\<lparr>ActivePlayers := mputo pid s (ActivePlayers (Ctx st))\<rparr>, MoveCounts := mdelo pid (MoveCounts st)\<rparr>"
  have "grows P st ?s" by (rule grows_same_log) simp_all
  also have "grows P ?s st'"
    using assms(1) unfolding setStage_def Let_def by (rule grows_runHookOpt [OF _ stageHook_in_scope(1) assms(2)])
  finally show ?thesis .
qed

lemma grows_limits:
  "grows P st (st\<lparr>StageMinMoves := a\<rparr>)" "grows P st (st\<lparr>StageMaxMoves := b\<rparr>)"
  by (rule grows_same_log; simp)+

lemma grows_setStageLong [frame_rules]:
  assumes "setStageLong game st pid opts env = (st', env')" "logsOk P game"
  shows "grows P st st'"
proof -
  obtain s1 where "setStage game st pid (ssStage opts) env = (s1, env')" "grows P s1 st'"
    using assms(1) grows_limits grows_trans
    by (cases "ssHasMin opts"; cases "ssHasMax opts")
      (auto simp: setStageLong_def Let_def case_prod_eq_iff intro: grows_limits grows_trans [OF grows_limits(1) grows_limits(2)])
  then show ?thesis using assms(2) by (blast intro: grows_trans grows_setStage)
qed

lemma grows_dropActive [simp, intro]: "grows P st (dropActive st pid)"
  by (rule grows_same_log) (simp_all add: dropActive_def)

lemma grows_endStage [frame_rules]:
  assumes "endStage game st pid env = (st', env')" "logsOk P game"
  shows "grows P st st'"
proof (cases "ActivePlayers (Ctx st) = None")
  case False
  define cur where "cur = (case mget (ActivePlayers (Ctx st)) pid of Some s \<Rightarrow> s | None \<Rightarrow> '''')"
  obtain s1 e1 where h: "runHookOpt game (Option.bind (lookupStage game (Phase (Ctx st)) cur) scOnEnd)
      GameMethodStageOnEnd st pid env = (s1, e1)" by fastforce
  have "grows P st s1" using h stageHook_in_scope(2) assms(2) by (rule grows_runHookOpt)
  also have "grows P s1 st'"
    using assms False h
    by (auto simp: endStage_def Let_def cur_def split: if_splits
        intro: grows_setStage grows_trans [OF grows_dropActive])
  finally show ?thesis .
qed (use assms in \<open>simp add: endStage_def\<close>)

lemma spliceSeat_keeps:
  "spliceSeat c idx = Some c' \<Longrightarrow> Seed c' = Seed c \<and> NowMs c' = NowMs c"
  by (auto simp: spliceSeat_def Let_def split: if_splits option.splits)

lemma leaveActive_keeps [simp]:
  "Seed (leaveActive c pid) = Seed c" "NowMs (leaveActive c pid) = NowMs c"
  "PlayOrder (leaveActive c pid) = PlayOrder c" "PlayOrderPos (leaveActive c pid) = PlayOrderPos c"
  "NumPlayers (leaveActive c pid) = NumPlayers c" "CurrentPlayer (leaveActive c pid) = CurrentPlayer c"
  by (simp_all add: leaveActive_def Let_def)

lemma grows_removePlayer [frame_rules]:
  assumes "removePlayer game st pid env = Some (st', env')" "logsOk P game"
  shows "grows P st st'"
proof (cases "find_index (\<lambda>p. p = pid) (PlayOrder (Ctx st))")
  case (Some idx)
  then obtain c where c: "spliceSeat (Ctx st) idx = Some c"
    using assms(1) by (auto simp: removePlayer_def)
  then have g: "grows P st (st\<lparr>Ctx := c\<rparr>)" by (intro grows_ctx_update) (auto dest: spliceSeat_keeps)
  have last: "grows P s (s\<lparr>Ctx := leaveActive (Ctx s) pid\<rparr>)" for s :: "'a state" by (rule grows_ctx_update) simp_all
  consider "st' = st\<lparr>Ctx := c\<rparr>" | "st' = st\<lparr>Ctx := leaveActive c pid\<rparr>"
    | s2 where "endTurn game (st\<lparr>Ctx := c\<rparr>) '''' env = Some (s2, env')"
        "st' = s2\<lparr>Ctx := leaveActive (Ctx s2) pid\<rparr>"
    using assms(1) Some c by (auto simp: removePlayer_def case_prod_eq_iff split: if_splits)
  then show ?thesis
  proof cases
    case 2
    with g last [of "st\<lparr>Ctx := c\<rparr>"] show ?thesis by (auto intro: grows_trans)
  next
    case 3
    note g
    also have "grows P (st\<lparr>Ctx := c\<rparr>) s2" using 3(1) assms(2) by (rule grows_endTurn)
    also have "grows P s2 st'" using last 3(2) by simp
    finally show ?thesis .
  qed (use g in simp)
qed (use assms in \<open>simp add: removePlayer_def\<close>)

lemma scopeMoves_gameMoves:
  assumes "mget (scopeMoves game ph) name = Some raw" "asMove raw = Inr m"
  shows "m \<in> gameMoves game"
proof -
  obtain t where t: "scopeMoves game ph = Some t" "map_of t name = Some raw"
    using assms(1) by (cases "scopeMoves game ph") auto
  have "t \<in> moveTables game"
    using t(1) by (force simp: scopeMoves_def moveTables_def dest: phaseConfigs_map_of split: option.splits if_splits)
  moreover have "raw \<in> snd ` set t" using t(2) by (force dest: map_of_SomeD)
  ultimately show ?thesis using assms(2) unfolding gameMoves_def by blast
qed

lemma grows_runChainedMove [frame_rules]:
  assumes "runChainedMove game st mc name args env = (st', env')" "logsOk P game"
    and chained: "\<And>e. leKind e = ''chained-move'' \<Longrightarrow> P e"
  shows "grows P st st'"
proof (cases "mget (scopeMoves game (Phase (Ctx st))) name")
  case None
  with assms(1) show ?thesis by (simp add: runChainedMove_def)
next
  case raw: (Some raw)
  show ?thesis
  proof (cases "asMove raw")
    case (Inl e)
    with raw assms(1) show ?thesis by (simp add: runChainedMove_def)
  next
    case m: (Inr m)
    show ?thesis
    proof (cases "mvMove m")
      case None
      with raw m assms(1) show ?thesis by (simp add: runChainedMove_def)
    next
      case f: (Some f)
      let ?mc = "\<lparr>mcG = G st, mcCtx = Ctx st, mcPlayerID = mcPlayerID mc, mcPlugins = mcPlugins mc,
        mcQueue = Some (envQueue env), mcResumingBlock = None, mcExtra = [], mcChainedMoves = mcChainedMoves mc\<rparr>"
      have "logsMove P f"
        using scopeMoves_gameMoves [OF raw m] f assms(2) by (auto simp: logsOk_def)
      then have log: "list_all P (loggedBy ?mc (fst (snd (f ?mc args (envHeap env)))))"
        by (simp only: logsMove_def)
      show ?thesis
      proof (cases "fst (f ?mc args (envHeap env))")
        case (Inl e)
        then show ?thesis
          using assms(1) raw m f by (auto simp: runChainedMove_def Let_def split_beta)
      next
        case (Inr g)
        then show ?thesis
          using assms(1) raw m f log
          by (intro growsI [where xs = "_ # loggedBy ?mc (fst (snd (f ?mc args (envHeap env))))"])
            (auto simp: runChainedMove_def Let_def split_beta emptyLogEntry_def intro: chained)
      qed
    qed
  qed
qed

lemma grows_applyTransition [frame_rules]:
  assumes "applyTransition game ev st mc env = Some (st', env')" "logsOk P game"
    and "\<And>e. leKind e = ''chained-move'' \<Longrightarrow> P e"
  shows "grows P st st'"
proof (cases ev)
  case (EvEndGame v)
  have "grows P st (st\<lparr>Ctx := (Ctx st)\<lparr>Gameover := v\<rparr>\<rparr>)" by (rule grows_ctx_update) simp_all
  also have "grows P (st\<lparr>Ctx := (Ctx st)\<lparr>Gameover := v\<rparr>\<rparr>) st'"
    using assms EvEndGame by (auto intro: grows_runGameOnEnd)
  finally show ?thesis .
qed (use assms in \<open>auto intro: frame_rules\<close>)

lemma grows_applyEvent [frame_rules]:
  "applyEvent game ev st mc env = Some (st', mc', env') \<Longrightarrow> logsOk P game \<Longrightarrow>
   (\<And>e. leKind e = ''chained-move'' \<Longrightarrow> P e) \<Longrightarrow> grows P st st'"
  by (auto simp: applyEvent_def Let_def case_prod_eq_iff split: if_splits dest!: grows_applyTransition)

lemma grows_applyBatch [frame_rules]:
  assumes "logsOk P game" and "\<And>e. leKind e = ''chained-move'' \<Longrightarrow> P e"
  shows "applyBatch game evs st mc env = Some (st', mc', env') \<Longrightarrow> grows P st st'"
proof (induction evs arbitrary: st mc env)
  case (Cons ev evs)
  then obtain s1 m1 e1 where "applyEvent game ev st mc env = Some (s1, m1, e1)"
    "applyBatch game evs s1 m1 e1 = Some (st', mc', env')"
    by (auto simp: case_prod_eq_iff)
  then show ?case using Cons.IH assms by (blast intro: grows_trans grows_applyEvent)
qed simp

text \<open>
  The rule for the drain loop: what every batch preserves, the drain preserves, and it stops
  with no event pending.
\<close>

lemma drainEvents_invariant:
  assumes "drainEvents game st mc env = Some (st', mc', env')"
    and "R st mc env"
    and step: "\<And>s m e s' m' e'. R s m e \<Longrightarrow> envEvents e \<noteq> [] \<Longrightarrow>
      applyBatch game (envEvents e) s m (e\<lparr>envEvents := []\<rparr>) = Some (s', m', e') \<Longrightarrow> R s' m' e'"
  shows "R st' mc' env' \<and> envEvents env' = []"
proof -
  define Q where "Q = (\<lambda>(g :: ('a, 'b) game) s m e r. g = game \<longrightarrow> R s m e \<longrightarrow>
    (case r of (s', m', e') \<Rightarrow> R s' m' e' \<and> envEvents e' = []))"
  have "Q game st mc env (st', mc', env')"
  proof (rule drainEvents.raw_induct [OF _ assms(1), where P = Q])
    fix drain and g :: "('a, 'b) game" and s m and e :: "'b hookEnv" and r
    assume ih: "\<And>g s m e r. drain g s m e = Some r \<Longrightarrow> Q g s m e r"
      and eq: "(let (batch, rest) = evDrain (envEvents e)
         in if batch = [] then Some (s, m, e)
            else applyBatch g batch s m (e\<lparr>envEvents := rest\<rparr>) \<bind> (\<lambda>(s, m, e). drain g s m e)) = Some r"
    show "Q g s m e r"
    proof (cases "envEvents e = []")
      case True
      with eq show ?thesis by (auto simp: Q_def evDrain_def)
    next
      case False
      with eq obtain s1 m1 e1 where
        b: "applyBatch g (envEvents e) s m (e\<lparr>envEvents := []\<rparr>) = Some (s1, m1, e1)"
        and d: "drain g s1 m1 e1 = Some r"
        by (auto simp: evDrain_def)
      show ?thesis using ih [OF d] step [OF _ False] b by (auto simp: Q_def)
    qed
  qed
  with assms(2) show ?thesis by (simp add: Q_def)
qed

lemma grows_drainEvents [frame_rules]:
  assumes "drainEvents game st mc env = Some (st', mc', env')" "logsOk P game"
    and "\<And>e. leKind e = ''chained-move'' \<Longrightarrow> P e"
  shows "grows P st st'"
proof -
  have "grows P st st' \<and> envEvents env' = []"
    using assms(1) grows_refl
  proof (rule drainEvents_invariant [where R = "\<lambda>s m e. grows P st s"])
    show "grows P st s'" if "grows P st s" "applyBatch game (envEvents e) s m (e\<lparr>envEvents := []\<rparr>) = Some (s', m', e')"
      for s m e s' m' e'
      using that(1) grows_applyBatch [OF assms(2,3) that(2)] by (rule grows_trans)
  qed
  then show ?thesis ..
qed

end
