(* ===== verification/Rotation.thy ===== *)
theory Rotation
  imports Transitions
begin

text \<open>
  Correctness of the transitions of \<open>core/transitions.go\<close>: no transition panics and all keep
  the cursor on a seat, the event drain returns when hooks queue no events (and need not
  otherwise), turns go round the table, and what eliminating a player does to the order.
\<close>

section \<open>Rotation never panics and keeps the seating invariant\<close>

text \<open>Every turn order of the game meets the contract of \<^theory_text>\<open>turn_order\<close>.\<close>

definition ordersOk :: "('g, 'h) game \<Rightarrow> bool" where
  "ordersOk game \<longleftrightarrow> (\<forall>t \<in> turnConfigs game. turn_order (effectiveOrder (Some t)))"

text \<open>No hook of the game queues events.\<close>

definition quietHooks :: "('g, 'h) game \<Rightarrow> bool" where
  "quietHooks game \<longleftrightarrow>
     (\<forall>(f, kind) \<in> gameHooks game. \<forall>mc h. efEvents (fst (snd (applyFnWrapHook game f kind mc h))) = [])"

text \<open>
  A transition runs safely when it does not panic, keeps the seating invariant, and queues no
  further event if the hooks queue none.
\<close>

definition safely :: "('g, 'h) game \<Rightarrow> 'h hookEnv \<Rightarrow> ('g state \<times> 'h hookEnv) option \<Rightarrow> bool" where
  "safely game env r \<longleftrightarrow> (\<exists>st' env'. r = Some (st', env') \<and> seatsOk (Ctx st') \<and>
     (quietHooks game \<longrightarrow> envEvents env' = envEvents env))"

lemma safelyI:
  "r = Some (st', env') \<Longrightarrow> seatsOk (Ctx st') \<Longrightarrow>
   (quietHooks game \<Longrightarrow> envEvents env' = envEvents env) \<Longrightarrow> safely game env r"
  by (simp add: safely_def)

lemma safely_bind:
  assumes "safely game env r"
    and "\<And>s e. r = Some (s, e) \<Longrightarrow> seatsOk (Ctx s) \<Longrightarrow> safely game e (k (s, e))"
  shows "safely game env (r \<bind> k)"
proof -
  obtain s e where r: "r = Some (s, e)" and s: "seatsOk (Ctx s)"
    and e: "quietHooks game \<Longrightarrow> envEvents e = envEvents env"
    using assms(1) by (auto simp: safely_def)
  from assms(2) [OF r s] r e show ?thesis by (auto simp: safely_def)
qed

lemma safely_trans:
  "safely game e r \<Longrightarrow> (quietHooks game \<Longrightarrow> envEvents e = envEvents env) \<Longrightarrow> safely game env r"
  by (auto simp: safely_def)

lemma seatsOk_updates [simp]:
  "seatsOk (c\<lparr>Turn := t\<rparr>) = seatsOk c" "seatsOk (c\<lparr>Phase := p\<rparr>) = seatsOk c"
  "seatsOk (c\<lparr>ActivePlayers := a\<rparr>) = seatsOk c" "seatsOk (c\<lparr>Gameover := v\<rparr>) = seatsOk c"
  "seatsOk (c\<lparr>NumMoves := n\<rparr>) = seatsOk c" "seatsOk (c\<lparr>CurrentPlayer := q\<rparr>) = seatsOk c"
  "seatsOk (c\<lparr>NowMs := w\<rparr>) = seatsOk c"
  by (simp_all add: seatsOk_def)

lemma seatsOk_applySetActivePlayers [simp]: "seatsOk (Ctx (applySetActivePlayers st cfg)) = seatsOk (Ctx st)"
  by (simp add: seatsOk_def)

lemma seatsOk_applyActivePlayersFromTurn [simp]:
  "seatsOk (Ctx (applyActivePlayersFromTurn game st)) = seatsOk (Ctx st)"
  by (simp add: applyActivePlayersFromTurn_def split: option.splits)

lemma seatsOk_drainActivePlayers [simp]: "seatsOk (Ctx (drainActivePlayers st)) = seatsOk (Ctx st)"
  by (simp add: drainActivePlayers_def Let_def split: option.splits)

lemma seatsOk_dropActive [simp]: "seatsOk (Ctx (dropActive st pid)) = seatsOk (Ctx st)"
  by (simp add: dropActive_def)

lemma seatsOk_clearTurnState [simp]: "seatsOk (Ctx (clearTurnState st)) = seatsOk (Ctx st)"
  by (simp add: clearTurnState_def)

lemma quiet_runHookOpt:
  assumes "runHookOpt game fo kind st pid env = (st', env')" "quietHooks game"
    and "\<And>f. fo = Some f \<Longrightarrow> (f, kind) \<in> gameHooks game"
  shows "envEvents env' = envEvents env"
proof (cases fo)
  case (Some f)
  obtain g' ef h' where call: "applyFnWrapHook game f kind (envMC env st pid) (envHeap env) = (g', ef, h')"
    and "env' = perform ef h' env"
    using assms(1) Some by (auto simp: runHookOpt_def elim!: runHook_eqs)
  moreover have "efEvents ef = []"
    using assms(2) assms(3) [OF Some] call unfolding quietHooks_def by (metis (mono_tags, lifting) case_prodD fst_conv snd_conv)
  ultimately show ?thesis by (simp add: perform_def)
qed (use assms(1) in \<open>simp add: runHookOpt_def\<close>)

lemma safely_runHookOpt:
  assumes "seatsOk (Ctx st)" and "\<And>f. fo = Some f \<Longrightarrow> (f, kind) \<in> gameHooks game"
  shows "safely game env (Some (runHookOpt game fo kind st pid env))"
proof -
  obtain s e where r: "runHookOpt game fo kind st pid env = (s, e)" by fastforce
  show ?thesis
    unfolding r using r assms by (intro safelyI [OF refl]) (auto dest: runHookOpt_keeps_ctx quiet_runHookOpt)
qed

lemma safely_runTurnOnBegin: "seatsOk (Ctx st) \<Longrightarrow> safely game env (Some (runTurnOnBegin game st env))"
  unfolding runTurnOnBegin_def by (rule safely_runHookOpt) (auto intro: hook_in_scope)

lemma safely_runPhaseOnBegin:
  "seatsOk (Ctx st) \<Longrightarrow> safely game env (Some (runPhaseOnBegin game st env))"
  unfolding runPhaseOnBegin_def
  by (auto split: option.splits simp: safely_def [where r = "Some (_, _)"]
      intro!: safely_runHookOpt intro: gameHooks_intros phaseConfigs_map_of)

lemma safely_runGameOnEnd: "seatsOk (Ctx st) \<Longrightarrow> safely game env (Some (runGameOnEnd game st env))"
  unfolding runGameOnEnd_def by (rule safely_runHookOpt) (auto intro: gameHooks_intros)

lemma order_contract: "ordersOk game \<Longrightarrow> turn_order (effectiveOrder (scopeTurn game ph))"
  by (cases "scopeTurn game ph")
    (auto simp: ordersOk_def effectiveOrder_def [of None] roundRobin.turn_order_axioms dest: scopeTurn_turnConfigs)

lemma order_contract_global: "ordersOk game \<Longrightarrow> turn_order (effectiveOrder (gmTurn game))"
  using order_contract [of game "''''"] by (simp add: scopeTurn_def)

lemma applyTurnOrderFirst_seats:
  assumes ord: "turn_order (effectiveOrder (scopeTurn game (Phase (Ctx st))))"
    and "seatsOk (Ctx st)" "mcCtx mc = Ctx st"
  shows "\<exists>st' h'. applyTurnOrderFirst game st mc h = Some (st', h') \<and> seatsOk (Ctx st')"
proof -
  let ?ord = "effectiveOrder (scopeTurn game (Phase (Ctx st)))"
  let ?po = "fst (orderResult ?ord mc h)" and ?h = "snd (orderResult ?ord mc h)"
  let ?pos = "case toFirst ?ord of Some f \<Rightarrow> fst (f mc ?h) | None \<Rightarrow> 0"
  have pos: "?po \<noteq> [] \<Longrightarrow> 0 \<le> ?pos \<and> ?pos < int (length ?po)"
    using turn_order.first_in_range [OF ord, of _ mc h ?h] assms(2,3) by (auto split: option.splits)
  show ?thesis
  proof (cases "toPlayOrder ?ord")
    case None
    then have po: "?po = PlayOrder (Ctx st)" "?h = h" using assms(3) by (simp_all add: orderResult_def)
    then show ?thesis
      using pos assms(2) None
      by (cases "toFirst ?ord") (auto simp: applyTurnOrderFirst_def Let_def index_at_in split_beta seatsOk_def)
  next
    case (Some f)
    then have po: "f mc h = (?po, ?h)" by (simp add: orderResult_def)
    then show ?thesis
      using pos Some
      by (cases "toFirst ?ord") (auto simp: applyTurnOrderFirst_def Let_def index_at_in split_beta seatsOk_def)
  qed
qed

lemma safely_runPhaseEnter:
  assumes "ordersOk game" "seatsOk (Ctx st)"
  shows "safely game env (runPhaseEnter game st env)"
proof -
  obtain s1 h1 where first: "applyTurnOrderFirst game st (envMC env st '''') (envHeap env) = Some (s1, h1)"
    and s1: "seatsOk (Ctx s1)"
    using applyTurnOrderFirst_seats [OF order_contract [OF assms(1)] assms(2), of "envMC env st ''''" "envHeap env"]
    by (auto simp: envMC_def)
  obtain s2 e2 where b: "runPhaseOnBegin game (applyActivePlayersFromTurn game s1) (env\<lparr>envHeap := h1\<rparr>) = (s2, e2)"
    by fastforce
  have "safely game (env\<lparr>envHeap := h1\<rparr>) (Some (s2, e2))"
    using safely_runPhaseOnBegin [of "applyActivePlayersFromTurn game s1" game "env\<lparr>envHeap := h1\<rparr>"] s1 b by simp
  then have s2: "seatsOk (Ctx s2)" and e2: "quietHooks game \<Longrightarrow> envEvents e2 = envEvents env"
    by (auto simp: safely_def)
  have "runPhaseEnter game st env = Some (runTurnOnBegin game s2 e2)"
    using first b by (simp add: runPhaseEnter_def)
  then show ?thesis using safely_trans [OF safely_runTurnOnBegin [OF s2] e2] by simp
qed

lemma safely_leavePhase:
  assumes "seatsOk (Ctx st)" "current \<in> phaseConfigs game"
  shows "safely game env (Some (leavePhase game current st np env))"
proof -
  obtain s1 e1 where h1: "runHookOpt game (turnHook tcOnEnd (scopeTurn game (Phase (Ctx st)))) GameMethodTurnOnEnd
      st '''' env = (s1, e1)" by fastforce
  obtain target h where t: "(if np = '''' then resolveNextPhase current (mcNoEvents e1 s1) (envHeap e1)
      else (np, envHeap e1)) = (target, h)" by fastforce
  obtain s2 e2 where h2: "runHookOpt game (pcOnEnd current) GameMethodPhaseOnEnd s1 '''' (e1\<lparr>envHeap := h\<rparr>) = (s2, e2)"
    by fastforce
  have "leavePhase game current st np env =
      ((clearTurnState s2)\<lparr>Ctx := (Ctx (clearTurnState s2))\<lparr>Phase := target, Turn := Turn (Ctx (clearTurnState s2)) + 1\<rparr>\<rparr>, e2)"
    using h1 t h2 by (simp add: leavePhase_def Let_def)
  moreover have "quietHooks game \<Longrightarrow> envEvents e2 = envEvents env"
    using quiet_runHookOpt [OF h1 _ hook_in_scope(2)]
      quiet_runHookOpt [OF h2 _ gameHooks_intros(7) [OF assms(2)]] by simp
  ultimately show ?thesis
    using assms(1) runHookOpt_keeps_ctx [OF h1] runHookOpt_keeps_ctx [OF h2] by (auto simp: safely_def)
qed

lemma safely_moveCursor:
  "seatsOk (Ctx st) \<Longrightarrow> 0 \<le> pos \<Longrightarrow> pos < int (length (PlayOrder (Ctx st))) \<Longrightarrow>
   envEvents e = envEvents env \<Longrightarrow> safely game env (moveCursor st pos e)"
  by (auto simp: moveCursor_def index_at_in safely_def seatsOk_def)

lemma safely_advance_step:
  assumes ord: "turn_order (effectiveOrder turn)" and seats: "seatsOk (Ctx st)"
    and ends: "\<And>h. PlayOrder (Ctx st) \<noteq> [] \<Longrightarrow> (\<exists>f. toNext (effectiveOrder turn) = Some f \<and>
      f (mcNoEvents env st) (envHeap env) = Some (None, h)) \<Longrightarrow>
      safely game (env\<lparr>envHeap := h\<rparr>) (endPhase game st '''' (env\<lparr>envHeap := h\<rparr>))"
  shows "safely game env (advancePlayOrderPos game st turn env)"
proof (cases "PlayOrder (Ctx st) = []")
  case True
  then show ?thesis using seats by (subst advancePlayOrderPos.simps) (simp add: safely_def)
next
  case False
  let ?len = "int (length (PlayOrder (Ctx st)))"
  note b = seatsOk_bounds [OF seats False]
  show ?thesis
  proof (cases "toNext (effectiveOrder turn)")
    case None
    then show ?thesis
      using False b gomod_range [of "PlayOrderPos (Ctx st) + 1" ?len]
      by (subst advancePlayOrderPos.simps) (simp add: safely_moveCursor [OF seats])
  next
    case (Some f)
    obtain r h where call: "f (mcNoEvents env st) (envHeap env) = Some (r, h)" and r: "\<forall>n. r = Some n \<longrightarrow> 0 \<le> n"
      using turn_order.next_total [OF ord Some, of "mcNoEvents env st" "envHeap env"] seats False
      by (auto simp: mcNoEvents_def)
    show ?thesis
    proof (cases r)
      case None
      then show ?thesis using False Some call ends [OF False, of h]
        by (subst advancePlayOrderPos.simps) (auto intro: safely_trans)
    next
      case (Some n)
      then show ?thesis
        using False \<open>toNext (effectiveOrder turn) = Some f\<close> call r gomod_range [of n ?len]
        by (subst advancePlayOrderPos.simps) (auto intro!: safely_moveCursor [OF seats])
    qed
  qed
qed

lemma safely_endPhase_step:
  assumes orders: "ordersOk game" and seats: "seatsOk (Ctx st)"
    and adv: "\<And>current s e. Phase (Ctx st) \<noteq> '''' \<Longrightarrow> map_of (gmPhases game) (Phase (Ctx st)) = Some current \<Longrightarrow>
      leavePhase game current st np env = (s, e) \<Longrightarrow> Phase (Ctx s) = '''' \<Longrightarrow> seatsOk (Ctx s) \<Longrightarrow>
      safely game e (advancePlayOrderPos game s (gmTurn game) e)"
  shows "safely game env (endPhase game st np env)"
proof (cases "Phase (Ctx st) = '''' \<or> map_of (gmPhases game) (Phase (Ctx st)) = None")
  case True
  then show ?thesis using seats orders
    by (subst endPhase.simps) (auto intro!: safely_runPhaseEnter simp: safely_def [where r = "Some (_, _)"])
next
  case False
  then obtain current where phase: "Phase (Ctx st) \<noteq> ''''" and cur: "map_of (gmPhases game) (Phase (Ctx st)) = Some current"
    by auto
  obtain s1 e1 where lv: "leavePhase game current st np env = (s1, e1)" by fastforce
  have "safely game env (Some (s1, e1))"
    using safely_leavePhase [OF seats phaseConfigs_map_of [OF cur], of env np] lv by simp
  then have s1: "seatsOk (Ctx s1)" and e1: "quietHooks game \<Longrightarrow> envEvents e1 = envEvents env"
    by (auto simp: safely_def)
  show ?thesis
  proof (cases "Phase (Ctx s1) = ''''")
    case True
    have "safely game e1 (advancePlayOrderPos game s1 (gmTurn game) e1 \<bind>
        (\<lambda>(st', env'). Some (runTurnOnBegin game (applyActivePlayersFromTurn game st') env')))"
      using adv [OF phase cur lv True s1] by (rule safely_bind) (auto intro: safely_runTurnOnBegin)
    then show ?thesis using phase cur lv True
      by (subst endPhase.simps) (auto intro: safely_trans [OF _ e1])
  next
    case False
    then show ?thesis using phase cur lv safely_trans [OF safely_runPhaseEnter [OF orders s1] e1]
      by (subst endPhase.simps) auto
  qed
qed

lemma safely_rotation:
  assumes "ordersOk game"
  shows "turn_order (effectiveOrder turn) \<Longrightarrow> seatsOk (Ctx st) \<Longrightarrow> safely game env (advancePlayOrderPos game st turn env)"
    and "seatsOk (Ctx st) \<Longrightarrow> safely game env (endPhase game st np env)"
  using assms
proof (induction game st turn env and game st np env rule: advancePlayOrderPos_endPhase.induct)
  case (1 game st turn env)
  show ?case using 1(2,3) by (rule safely_advance_step) (use 1(1,3,4) in fastforce)
next
  case (2 game st np env)
  show ?case using 2(3,2) by (rule safely_endPhase_step) (use 2(1,3) order_contract_global [OF 2(3)] in auto)
qed

lemma safely_nextSeat:
  assumes "ordersOk game" "turn_order (effectiveOrder turn)" "seatsOk (Ctx st)"
  shows "safely game env (nextSeat game st turn nxt env)"
proof (cases "nxt = ''''")
  case True
  then show ?thesis using safely_rotation(1) [OF assms] by (simp add: nextSeat_def)
next
  case False
  then show ?thesis
    using assms(3) find_index_Some [of "\<lambda>p. p = nxt" "PlayOrder (Ctx st)"]
    by (fastforce simp: nextSeat_def Let_def safely_def seatsOk_def split: option.splits)
qed

lemma safely_beginTurn: "seatsOk (Ctx st) \<Longrightarrow> safely game env (Some (beginTurn game st env))"
  unfolding beginTurn_def Let_def by (rule safely_runTurnOnBegin) simp

lemma safely_endTurn:
  assumes "ordersOk game" "seatsOk (Ctx st)"
  shows "safely game env (endTurn game st nxt env)"
proof -
  let ?turn = "scopeTurn game (Phase (Ctx st))"
  obtain s1 e1 where h: "runHookOpt game (turnHook tcOnEnd ?turn) GameMethodTurnOnEnd st '''' env = (s1, e1)"
    by fastforce
  let ?s = "(clearTurnState s1)\<lparr>TurnSnapshots := [], Undone := []\<rparr>"
  have s: "seatsOk (Ctx ?s)" using assms(2) runHookOpt_keeps_ctx [OF h] by simp
  have "safely game e1 (nextSeat game ?s ?turn nxt e1 \<bind> (\<lambda>(st, env).
      if nxt = '''' \<and> Gameover (Ctx st) \<noteq> VNil then Some (st, env) else Some (beginTurn game st env)))"
    by (rule safely_bind [OF safely_nextSeat [OF assms(1) order_contract [OF assms(1)] s]])
      (auto intro: safely_beginTurn simp: safely_def [where r = "Some (_, _)"])
  then have "safely game env (nextSeat game ?s ?turn nxt e1 \<bind> (\<lambda>(st, env).
      if nxt = '''' \<and> Gameover (Ctx st) \<noteq> VNil then Some (st, env) else Some (beginTurn game st env)))"
    by (rule safely_trans) (rule quiet_runHookOpt [OF h _ hook_in_scope(2)])
  then show ?thesis using h by (simp add: endTurn_def Let_def)
qed

lemma safely_setStage: "seatsOk (Ctx st) \<Longrightarrow> safely game env (Some (setStage game st pid s env))"
  unfolding setStage_def Let_def by (rule safely_runHookOpt [OF _ stageHook_in_scope(1)]) simp_all

lemma safely_setStageLong:
  assumes "seatsOk (Ctx st)"
  shows "safely game env (Some (setStageLong game st pid opts env))"
proof -
  obtain s e where r: "setStage game st pid (ssStage opts) env = (s, e)" by fastforce
  then have "safely game env (Some (s, e))" using safely_setStage [OF assms] by metis
  then show ?thesis using r by (auto simp: setStageLong_def Let_def safely_def)
qed

lemma safely_endStage:
  assumes "seatsOk (Ctx st)"
  shows "safely game env (Some (endStage game st pid env))"
proof (cases "ActivePlayers (Ctx st) = None")
  case True
  then show ?thesis using assms by (simp add: endStage_def safely_def)
next
  case False
  define cur where "cur = (case mget (ActivePlayers (Ctx st)) pid of Some s \<Rightarrow> s | None \<Rightarrow> '''')"
  obtain s1 e1 where h: "runHookOpt game (Option.bind (lookupStage game (Phase (Ctx st)) cur) scOnEnd)
      GameMethodStageOnEnd st pid env = (s1, e1)" by fastforce
  have e1: "quietHooks game \<Longrightarrow> envEvents e1 = envEvents env"
    using h by (rule quiet_runHookOpt [OF _ _ stageHook_in_scope(2)])
  have s1: "seatsOk (Ctx s1)" using assms runHookOpt_keeps_ctx [OF h] by simp
  show ?thesis
  proof (cases "nextStageOf game (Phase (Ctx s1)) cur = ''''")
    case True
    then show ?thesis using False h s1 e1 unfolding cur_def
      by (auto simp: endStage_def Let_def intro!: safelyI [OF refl])
  next
    case nxt: False
    then show ?thesis
      using False h safely_trans [OF safely_setStage [OF s1] e1] unfolding cur_def
      by (auto simp: endStage_def Let_def)
  qed
qed

lemma spliceSeat_seats:
  assumes "seatsOk c" "idx < length (PlayOrder c)"
  shows "\<exists>c'. spliceSeat c idx = Some c' \<and> seatsOk c'"
proof (cases "remove_at idx (PlayOrder c) = []")
  case True
  then show ?thesis using assms by (auto simp: spliceSeat_def seatsOk_def)
next
  case False
  define order where "order = remove_at idx (PlayOrder c)"
  define pos where "pos = (if int idx < PlayOrderPos c then PlayOrderPos c - 1 else PlayOrderPos c)"
  define pos' where "pos' = (if int (length order) \<le> pos then 0 else pos)"
  have len: "0 < length order" "length order < length (PlayOrder c)"
    using False assms(2) length_remove_at [OF assms(2)] by (simp_all add: order_def flip: length_greater_0_conv)
  then have "PlayOrder c \<noteq> []" by auto
  note b = seatsOk_bounds [OF assms(1) this]
  have "0 \<le> pos" using b by (auto simp: pos_def)
  then have pos': "0 \<le> pos'" "pos' < int (length order)" using len by (auto simp: pos'_def)
  then have "spliceSeat c idx = Some (c\<lparr>PlayOrder := order, PlayOrderPos := pos', CurrentPlayer := order ! nat pos'\<rparr>)"
    using False unfolding order_def pos'_def pos_def by (simp add: spliceSeat_def Let_def index_at_in)
  then show ?thesis using pos' len b by (auto simp: seatsOk_def)
qed

lemma safely_removePlayer:
  assumes "ordersOk game" "seatsOk (Ctx st)"
  shows "safely game env (removePlayer game st pid env)"
proof (cases "find_index (\<lambda>p. p = pid) (PlayOrder (Ctx st))")
  case None
  then show ?thesis using assms by (simp add: removePlayer_def safely_def)
next
  case (Some idx)
  obtain c where c: "spliceSeat (Ctx st) idx = Some c" "seatsOk c"
    using spliceSeat_seats [OF assms(2)] find_index_Some [OF Some] by blast
  let ?r = "if CurrentPlayer (Ctx st) = pid then endTurn game (st\<lparr>Ctx := c\<rparr>) '''' env else Some (st\<lparr>Ctx := c\<rparr>, env)"
  have "safely game env ?r" using c(2) safely_endTurn [OF assms(1)] by (auto simp: safely_def [where r = "Some (_, _)"])
  then have "safely game env (?r \<bind> (\<lambda>(st, env). Some (st\<lparr>Ctx := leaveActive (Ctx st) pid\<rparr>, env)))"
    by (rule safely_bind) (auto simp: safely_def leaveActive_def Let_def)
  then show ?thesis using Some c by (auto simp: removePlayer_def safely_def [where r = "Some (_, _)"])
qed

lemma runChainedMove_ctx: "runChainedMove game st mc name args env = (st', env') \<Longrightarrow> Ctx st' = Ctx st"
  by (auto simp: runChainedMove_def Let_def split: option.splits sum.splits prod.splits)

lemma safely_applyTransition:
  assumes "ordersOk game" "seatsOk (Ctx st)"
  shows "\<exists>st' env'. applyTransition game ev st mc env = Some (st', env') \<and> seatsOk (Ctx st') \<and>
    (quietHooks game \<and> (\<forall>name args. ev \<noteq> EvRunMove name args) \<longrightarrow> envEvents env' = envEvents env)"
proof (cases "\<exists>name args. ev = EvRunMove name args")
  case True
  then obtain name args where ev: "ev = EvRunMove name args" by blast
  then show ?thesis using assms(2)
    by (cases "runChainedMove game st mc name args env") (auto dest: runChainedMove_ctx)
next
  case False
  have "safely game env (applyTransition game ev st mc env)"
    using False assms
    by (cases ev) (auto intro: safely_endTurn safely_rotation(2) safely_endStage safely_setStage
        safely_setStageLong safely_runGameOnEnd safely_removePlayer simp: safely_def [where r = "Some (_, _)"])
  then show ?thesis by (auto simp: safely_def)
qed

section \<open>The drain returns\<close>

text \<open>
  What one batch does when no hook queues events: it does not panic, keeps the seating
  invariant, and either leaves nothing queued or has used up some of the 32 chained moves.
\<close>

lemma applyEvent_progress:
  assumes "ordersOk game" "seatsOk (Ctx st)"
  shows "\<exists>st' mc' env'. applyEvent game ev st mc env = Some (st', mc', env') \<and> seatsOk (Ctx st') \<and>
    mcChainedMoves mc \<le> mcChainedMoves mc' \<and>
    (quietHooks game \<longrightarrow> envEvents env' = envEvents env \<or>
       mcChainedMoves mc < mcChainedMoves mc' \<and> mcChainedMoves mc' \<le> maxChainedMoves)"
proof -
  define m where "m = (case ev of EvRunMove _ _ \<Rightarrow> mc\<lparr>mcChainedMoves := Suc (mcChainedMoves mc)\<rparr> | _ \<Rightarrow> mc)"
  obtain s e where r: "applyTransition game ev st m env = Some (s, e)" "seatsOk (Ctx s)"
    "quietHooks game \<and> (\<forall>name args. ev \<noteq> EvRunMove name args) \<longrightarrow> envEvents e = envEvents env"
    using safely_applyTransition [OF assms, of ev m env] by blast
  show ?thesis
  proof (cases "\<exists>name args. ev = EvRunMove name args")
    case True
    then show ?thesis using assms(2) r
      by (cases "maxChainedMoves < Suc (mcChainedMoves mc)")
        (auto simp: applyEvent_def m_def refresh_def)
  next
    case False
    then have m: "m = mc" by (auto simp: m_def split: event.splits)
    show ?thesis
    proof (cases "minMovesUnmet game st \<and> (ev = EvPass \<or> (\<exists>p. ev = EvEndTurn p))")
      case True
      then show ?thesis using assms(2) by (auto simp: applyEvent_def)
    next
      case skip: False
      have "applyEvent game ev st mc env = Some (s, refresh s mc, e)"
        using False skip r(1) m by (cases ev) (auto simp: applyEvent_def Let_def)
      then show ?thesis using r(2,3) False by (auto simp: refresh_def)
    qed
  qed
qed

lemma applyBatch_progress:
  assumes "ordersOk game" "seatsOk (Ctx st)"
  shows "\<exists>st' mc' env'. applyBatch game evs st mc env = Some (st', mc', env') \<and> seatsOk (Ctx st') \<and>
    mcChainedMoves mc \<le> mcChainedMoves mc' \<and>
    (quietHooks game \<longrightarrow> envEvents env' = envEvents env \<or>
       mcChainedMoves mc < mcChainedMoves mc' \<and> mcChainedMoves mc < maxChainedMoves)"
  using assms(2)
proof (induction evs arbitrary: st mc env)
  case (Cons ev evs)
  obtain s m e where ev: "applyEvent game ev st mc env = Some (s, m, e)" "seatsOk (Ctx s)"
    "mcChainedMoves mc \<le> mcChainedMoves m"
    "quietHooks game \<longrightarrow> envEvents e = envEvents env \<or>
       mcChainedMoves mc < mcChainedMoves m \<and> mcChainedMoves m \<le> maxChainedMoves"
    using applyEvent_progress [OF assms(1) Cons.prems, of ev mc env] by blast
  from Cons.IH [OF ev(2), of m e] obtain s' m' e' where
    "applyBatch game evs s m e = Some (s', m', e')" "seatsOk (Ctx s')" "mcChainedMoves m \<le> mcChainedMoves m'"
    "quietHooks game \<longrightarrow> envEvents e' = envEvents e \<or>
       mcChainedMoves m < mcChainedMoves m' \<and> mcChainedMoves m < maxChainedMoves"
    by blast
  with ev show ?case by (intro exI [of _ s'] exI [of _ m'] exI [of _ e']) auto
qed simp

lemma drainEvents_step:
  "applyBatch game (envEvents env) st mc (env\<lparr>envEvents := []\<rparr>) = Some (s, m, e) \<Longrightarrow> envEvents env \<noteq> [] \<Longrightarrow>
   drainEvents game st mc env = drainEvents game s m e"
  by (subst drainEvents.simps) (simp add: evDrain_def)

lemma drainEvents_done: "envEvents env = [] \<Longrightarrow> drainEvents game st mc env = Some (st, mc, env)"
  by (subst drainEvents.simps) (simp add: evDrain_def)

lemma drainEvents_total:
  assumes "ordersOk game" "quietHooks game"
  shows "seatsOk (Ctx st) \<Longrightarrow> \<exists>st' mc' env'. drainEvents game st mc env = Some (st', mc', env') \<and>
    seatsOk (Ctx st') \<and> envEvents env' = []"
proof (induction "Suc maxChainedMoves - mcChainedMoves mc" arbitrary: st mc env rule: less_induct)
  case less
  show ?case
  proof (cases "envEvents env = []")
    case True
    then show ?thesis using less.prems by (simp add: drainEvents_done)
  next
    case False
    obtain s m e where b: "applyBatch game (envEvents env) st mc (env\<lparr>envEvents := []\<rparr>) = Some (s, m, e)"
      "seatsOk (Ctx s)" "mcChainedMoves mc \<le> mcChainedMoves m"
      "envEvents e = [] \<or> mcChainedMoves mc < mcChainedMoves m \<and> mcChainedMoves mc < maxChainedMoves"
      using applyBatch_progress [OF assms(1) less.prems, of "envEvents env" mc "env\<lparr>envEvents := []\<rparr>"] assms(2)
      by auto
    have "\<exists>st' mc' env'. drainEvents game s m e = Some (st', mc', env') \<and> seatsOk (Ctx st') \<and> envEvents env' = []"
      using b(4)
    proof
      assume "envEvents e = []"
      then show ?thesis using b(2) by (simp add: drainEvents_done)
    qed (use less.hyps b(2) in auto)
    then show ?thesis using drainEvents_step [OF b(1) False] by simp
  qed
qed

lemma drainEvents_keeps_seats:
  assumes "drainEvents game st mc env = Some (st', mc', env')" "ordersOk game" "seatsOk (Ctx st)"
  shows "seatsOk (Ctx st')"
proof -
  have "seatsOk (Ctx st') \<and> envEvents env' = []"
    using assms(1,3)
  proof (rule drainEvents_invariant [where R = "\<lambda>s m e. seatsOk (Ctx s)"])
    show "seatsOk (Ctx s')" if "seatsOk (Ctx s)" "applyBatch game (envEvents e) s m (e\<lparr>envEvents := []\<rparr>) = Some (s', m', e')"
      for s m e s' m' e'
      using applyBatch_progress [OF assms(2) that(1), of "envEvents e" m "e\<lparr>envEvents := []\<rparr>"] that(2) by simp
  qed
  then show ?thesis ..
qed

section \<open>Properties of rotation\<close>

text \<open>A game with no configuration at all, and the state of an \<open>n\<close>-player match before any move.\<close>

definition blankTurn :: "('g, 'h) turnConfig" where
  "blankTurn = \<lparr>tcOrder = zeroOrder, tcOnBegin = None, tcOnEnd = None, tcOnMove = None, tcEndIf = None,
     tcMinMoves = 0, tcMaxMoves = 0, tcTimeBudget = 0, tcActivePlayers = None, tcStages = []\<rparr>"

definition blankGame :: "'g \<Rightarrow> ('g, 'h) game" where
  "blankGame g = \<lparr>gmName = '''', gmMinPlayers = 0, gmMaxPlayers = 0, gmSetup = None, gmNilG = g,
     gmValidateSetupData = None, gmMoves = None, gmTurn = None, gmPhases = [], gmEndIf = None,
     gmOnEnd = None, gmOnUndo = None, gmPlayerView = None, gmBlockView = None, gmSeed = VNil,
     gmDisableUndo = False, gmPlugins = [], gmEnumerate = None\<rparr>"

definition seatedState :: "'g \<Rightarrow> string list \<Rightarrow> int \<Rightarrow> 'g state" where
  "seatedState g order pos = (blankState g)\<lparr>Ctx := blankCtx\<lparr>NumPlayers := int (length order),
     PlayOrder := order, PlayOrderPos := pos, CurrentPlayer := order ! nat pos, Turn := 1\<rparr>\<rparr>"

definition blankEnv :: "'h \<Rightarrow> 'h hookEnv" where
  "blankEnv h = \<lparr>envEvents = [], envQueue = emptyQueue, envDrops = Some [], envPlugins = None, envHeap = h\<rparr>"

lemma blankGame_configs [simp]:
  "turnConfigs ((blankGame g)\<lparr>gmTurn := t\<rparr>) = set_option t" "turnConfigs (blankGame g) = {}"
  by (auto simp: turnConfigs_def blankGame_def)

lemma effectiveOrder_None [simp]: "effectiveOrder None = TurnOrderDefault"
  by (simp add: effectiveOrder_def)

lemma ordersOk_blank [simp]: "ordersOk (blankGame g)"
  by (simp add: ordersOk_def)

lemma quietHooks_blank [simp]: "quietHooks (blankGame g)"
  by (simp add: quietHooks_def gameHooks_def stageConfigs_def phaseConfigs_def turnConfigs_def blankGame_def)

text \<open>
  C16. No transition an event can ask for panics, and every one keeps the cursor on a seat: if
  all turn orders of the game meet their contract and the match is well seated, then ending a
  turn or a phase, changing stages or active players, ending the game, eliminating a player
  and running a chained move each produce a well-seated state.
\<close>

theorem transitions_never_panic:
  assumes "ordersOk game" "seatsOk (Ctx st)"
  shows "\<exists>st' env'. applyTransition game ev st mc env = Some (st', env') \<and> seatsOk (Ctx st')"
  using safely_applyTransition [OF assms] by blast

theorem transitions_never_panic_witness:
  "\<exists>st' env'. applyTransition (blankGame (0::nat)) (EvRemovePlayer ''1'') (seatedState 0 [''0'', ''1'', ''2''] 1)
     (mcNoEvents (blankEnv ()) (seatedState 0 [''0'', ''1'', ''2''] 1)) (blankEnv ()) = Some (st', env') \<and> seatsOk (Ctx st')"
  by (rule transitions_never_panic) (simp_all add: seatedState_def seatsOk_def blankCtx_def blankState_def)

text \<open>
  C17. The event drain returns. If no hook queues events, then however many events a move
  queues, and whatever the moves it chains with RunMove queue in turn, the drain loop stops
  (at most 32 chained moves run), leaves no event pending and the match well seated.
\<close>

theorem drainEvents_returns:
  assumes "ordersOk game" "quietHooks game" "seatsOk (Ctx st)"
  shows "\<exists>st' mc' env'. drainEvents game st mc env = Some (st', mc', env') \<and> seatsOk (Ctx st') \<and> envEvents env' = []"
  using assms by (rule drainEvents_total)

definition chainMove :: "(nat, unit) moveFn" where
  "chainMove mc args h = (Inr (Suc (mcG mc)), noEffects\<lparr>efEvents := [EvRunMove ''chain'' [], EvEndTurn '''']\<rparr>, h)"

definition chainGame :: "(nat, unit) game" where
  "chainGame = (blankGame 0)\<lparr>gmMoves := Some [(''chain'', RawFn chainMove)]\<rparr>"

theorem drainEvents_returns_witness:
  "\<exists>st' mc' env'. drainEvents chainGame (seatedState 0 [''0'', ''1''] 0)
     (mcNoEvents (blankEnv ()) (seatedState 0 [''0'', ''1''] 0))
     ((blankEnv ())\<lparr>envEvents := [EvRunMove ''chain'' []]\<rparr>) = Some (st', mc', env') \<and>
     seatsOk (Ctx st') \<and> envEvents env' = []"
  by (rule drainEvents_returns)
    (simp_all add: chainGame_def ordersOk_def quietHooks_def gameHooks_def stageConfigs_def phaseConfigs_def
      turnConfigs_def blankGame_def seatedState_def seatsOk_def blankCtx_def blankState_def)

text \<open>
  A game whose Turn.OnBegin queues another EndTurn: every batch of the drain queues the next.
\<close>

definition restlessTurn :: "(nat, unit) turnConfig" where
  "restlessTurn = blankTurn\<lparr>tcOnBegin := Some (\<lambda>mc h. (mcG mc, noEffects\<lparr>efEvents := [EvEndTurn '''']\<rparr>, h))\<rparr>"

definition restlessGame :: "(nat, unit) game" where
  "restlessGame = (blankGame 0)\<lparr>gmTurn := Some restlessTurn\<rparr>"

lemma advance_cyclic:
  assumes ord: "cyclic_order (effectiveOrder turn)" and seats: "seatsOk (Ctx st)" "PlayOrder (Ctx st) \<noteq> []"
  shows "\<exists>pos. pos = (PlayOrderPos (Ctx st) + 1) mod int (length (PlayOrder (Ctx st))) \<and>
    advancePlayOrderPos game st turn env =
      Some (st\<lparr>Ctx := (Ctx st)\<lparr>PlayOrderPos := pos, CurrentPlayer := PlayOrder (Ctx st) ! nat pos\<rparr>\<rparr>, env)"
proof -
  let ?len = "int (length (PlayOrder (Ctx st)))" and ?next = "PlayOrderPos (Ctx st) + 1"
  note b = seatsOk_bounds [OF seats]
  have len: "0 < ?len" using seats(2) by simp
  then have at: "index_at (PlayOrder (Ctx st)) (?next mod ?len) = Some (PlayOrder (Ctx st) ! nat (?next mod ?len))"
    by (simp add: index_at_in)
  show ?thesis
  proof (cases "toNext (effectiveOrder turn)")
    case None
    have "gomod ?next ?len = ?next mod ?len" using b len by (intro gomod_nonneg) auto
    then show ?thesis using None seats(2) at
      by (subst advancePlayOrderPos.simps) (simp add: moveCursor_def)
  next
    case (Some f)
    obtain n where n: "f (mcNoEvents env st) (envHeap env) = Some (Some n, envHeap env)"
      "n mod ?len = ?next mod ?len" "n \<le> ?len"
      using cyclic_order.next_cyclic [OF ord Some, of "mcNoEvents env st" "envHeap env"] seats
      by (auto simp: mcNoEvents_def)
    obtain r h where "f (mcNoEvents env st) (envHeap env) = Some (r, h)" "\<forall>n. r = Some n \<longrightarrow> 0 \<le> n"
      using turn_order.next_total [OF cyclic_order.axioms(1) [OF ord] Some, of "mcNoEvents env st" "envHeap env"] seats
      by (auto simp: mcNoEvents_def)
    with n(1) have n0: "0 \<le> n" by simp
    have "(if ?len \<le> n then gomod n ?len else n) = ?next mod ?len"
      using n(2) n0 len by (auto simp: gomod_nonneg)
    then show ?thesis using Some n(1) seats(2) at
      by (subst advancePlayOrderPos.simps) (simp add: moveCursor_def)
  qed
qed

text \<open>What one rotation leaves: the next seat plays, and the turn-scoped state is fresh.\<close>

lemma endTurn_cyclic:
  assumes ord: "cyclic_order (effectiveOrder (scopeTurn game (Phase (Ctx st))))"
    and seats: "seatsOk (Ctx st)" "PlayOrder (Ctx st) \<noteq> []" and live: "Gameover (Ctx st) = VNil"
  shows "\<exists>st' env'. endTurn game st '''' env = Some (st', env') \<and>
    PlayOrder (Ctx st') = PlayOrder (Ctx st) \<and> NumPlayers (Ctx st') = NumPlayers (Ctx st) \<and>
    PlayOrderPos (Ctx st') = (PlayOrderPos (Ctx st) + 1) mod int (length (PlayOrder (Ctx st))) \<and>
    CurrentPlayer (Ctx st') = PlayOrder (Ctx st) ! nat (PlayOrderPos (Ctx st')) \<and>
    Turn (Ctx st') = Turn (Ctx st) + 1 \<and> Phase (Ctx st') = Phase (Ctx st) \<and> Gameover (Ctx st') = VNil \<and>
    NumMoves (Ctx st') = 0 \<and> TurnSnapshots st' = [] \<and> Undone st' = []"
proof -
  let ?turn = "scopeTurn game (Phase (Ctx st))"
  obtain s1 e1 where h: "runHookOpt game (turnHook tcOnEnd ?turn) GameMethodTurnOnEnd st '''' env = (s1, e1)"
    by fastforce
  let ?s = "(clearTurnState s1)\<lparr>TurnSnapshots := [], Undone := []\<rparr>"
  have c: "Ctx ?s = (Ctx st)\<lparr>NumMoves := 0, ActivePlayers := None\<rparr>"
    using runHookOpt_keeps_ctx [OF h] by (simp add: clearTurnState_def)
  obtain pos where pos: "pos = (PlayOrderPos (Ctx st) + 1) mod int (length (PlayOrder (Ctx st)))"
    and adv: "advancePlayOrderPos game ?s ?turn e1 =
      Some (?s\<lparr>Ctx := (Ctx ?s)\<lparr>PlayOrderPos := pos, CurrentPlayer := PlayOrder (Ctx st) ! nat pos\<rparr>\<rparr>, e1)"
    using advance_cyclic [OF ord, of ?s game e1] seats c by auto
  define s2 where "s2 = ?s\<lparr>Ctx := (Ctx ?s)\<lparr>PlayOrderPos := pos, CurrentPlayer := PlayOrder (Ctx st) ! nat pos\<rparr>\<rparr>"
  obtain s3 e3 where b: "beginTurn game s2 e1 = (s3, e3)" by fastforce
  have "endTurn game st '''' env = Some (s3, e3)"
    using h adv b live c by (simp add: endTurn_def nextSeat_def s2_def)
  moreover
  define a where "a = applyActivePlayersFromTurn game (s2\<lparr>Ctx := (Ctx s2)\<lparr>Turn := Turn (Ctx s2) + 1\<rparr>\<rparr>)"
  have "Ctx s3 = Ctx a \<and> TurnSnapshots s3 = TurnSnapshots a \<and> Undone s3 = Undone a"
    using b runHookOpt_keeps_ctx unfolding beginTurn_def runTurnOnBegin_def Let_def a_def by metis
  moreover have "PlayOrder (Ctx a) = PlayOrder (Ctx st)" "NumPlayers (Ctx a) = NumPlayers (Ctx st)"
    "PlayOrderPos (Ctx a) = pos" "CurrentPlayer (Ctx a) = PlayOrder (Ctx st) ! nat pos"
    "Turn (Ctx a) = Turn (Ctx st) + 1" "Phase (Ctx a) = Phase (Ctx st)" "Gameover (Ctx a) = VNil"
    "NumMoves (Ctx a) = 0" "TurnSnapshots a = []" "Undone a = []"
    using c live by (simp_all add: a_def s2_def applyActivePlayersFromTurn_def split: option.splits)
  ultimately show ?thesis using pos by auto
qed

fun endTurns :: "('g, 'h) game \<Rightarrow> nat \<Rightarrow> 'g state \<Rightarrow> 'h hookEnv \<Rightarrow> ('g state \<times> 'h hookEnv) option" where
  "endTurns game 0 st env = Some (st, env)"
| "endTurns game (Suc k) st env = endTurn game st '''' env \<bind> (\<lambda>(st, env). endTurns game k st env)"

text \<open>
  C7. Turns go round the table. Under a round-robin order (the default, Reset, Continue and
  the custom orders are proved to be such), ending the turn \<open>k\<close> times brings the turn to the
  seat \<open>k\<close> places further on, modulo the number of seats still in play, whatever the hooks
  do; the turn counter grows by \<open>k\<close>. This also holds after eliminations, when NumPlayers is
  larger than the number of seats.
\<close>

theorem endTurn_rotates:
  assumes ord: "cyclic_order (effectiveOrder (scopeTurn game (Phase (Ctx st))))"
    and seats: "seatsOk (Ctx st)" "PlayOrder (Ctx st) \<noteq> []" and live: "Gameover (Ctx st) = VNil"
    and cur: "CurrentPlayer (Ctx st) = PlayOrder (Ctx st) ! nat (PlayOrderPos (Ctx st))"
  shows "\<exists>st' env'. endTurns game k st env = Some (st', env') \<and>
    PlayOrderPos (Ctx st') = (PlayOrderPos (Ctx st) + int k) mod int (length (PlayOrder (Ctx st))) \<and>
    CurrentPlayer (Ctx st') = PlayOrder (Ctx st) ! nat (PlayOrderPos (Ctx st')) \<and>
    Turn (Ctx st') = Turn (Ctx st) + int k \<and> PlayOrder (Ctx st') = PlayOrder (Ctx st)"
  using assms
proof (induction k arbitrary: st env)
  case 0
  then show ?case using seatsOk_bounds [OF 0(2,3)] by simp
next
  case (Suc k)
  let ?len = "int (length (PlayOrder (Ctx st)))"
  obtain s e where s: "endTurn game st '''' env = Some (s, e)"
    "PlayOrder (Ctx s) = PlayOrder (Ctx st)" "NumPlayers (Ctx s) = NumPlayers (Ctx st)"
    "PlayOrderPos (Ctx s) = (PlayOrderPos (Ctx st) + 1) mod ?len"
    "CurrentPlayer (Ctx s) = PlayOrder (Ctx st) ! nat (PlayOrderPos (Ctx s))"
    "Turn (Ctx s) = Turn (Ctx st) + 1" "Phase (Ctx s) = Phase (Ctx st)" "Gameover (Ctx s) = VNil"
    using endTurn_cyclic [OF Suc.prems(1-4), of env] by blast
  have "0 < ?len" using Suc.prems(3) by simp
  then have "seatsOk (Ctx s)" using s(2-4) seatsOk_bounds [OF Suc.prems(2,3)] by (simp add: seatsOk_def)
  with Suc.IH [of s e] Suc.prems s obtain s' e' where
    "endTurns game k s e = Some (s', e')"
    "PlayOrderPos (Ctx s') = (PlayOrderPos (Ctx s) + int k) mod ?len"
    "CurrentPlayer (Ctx s') = PlayOrder (Ctx st) ! nat (PlayOrderPos (Ctx s'))"
    "Turn (Ctx s') = Turn (Ctx st) + 1 + int k" "PlayOrder (Ctx s') = PlayOrder (Ctx st)"
    by auto
  then show ?case using s(1,4) by (auto simp: mod_simps algebra_simps)
qed

theorem endTurn_rotates_witness:
  "\<exists>st' env'. endTurns (blankGame (0::nat)) 5 (seatedState 0 [''0'', ''1'', ''2''] 1) (blankEnv ()) = Some (st', env') \<and>
    PlayOrderPos (Ctx st') = 0 \<and> CurrentPlayer (Ctx st') = ''0'' \<and> Turn (Ctx st') = 6"
  using endTurn_rotates [of "blankGame (0::nat)" "seatedState 0 [''0'', ''1'', ''2''] 1" 5 "blankEnv ()"]
  by (auto simp: seatedState_def blankState_def blankCtx_def seatsOk_def scopeTurn_def
      blankGame_def roundRobin.cyclic_order_axioms)

lemma restless_endTurn_events:
  assumes "endTurn restlessGame s '''' (e\<lparr>envEvents := []\<rparr>) = Some (s1, e1)"
    and "envEvents e = [EvEndTurn ''''] \<and> seatsOk (Ctx s) \<and> PlayOrder (Ctx s) = [''0'', ''1''] \<and>
      Gameover (Ctx s) = VNil \<and> Phase (Ctx s) = ''''"
  shows "envEvents e1 = [EvEndTurn '''']"
proof -
  have turn: "scopeTurn restlessGame '''' = Some restlessTurn" "gmPlugins restlessGame = []"
    "gmPhases restlessGame = []" "gmTurn restlessGame = Some restlessTurn"
    by (simp_all add: scopeTurn_def restlessGame_def blankGame_def)
  have ord: "cyclic_order (effectiveOrder (Some restlessTurn))"
    using roundRobin.cyclic_order_axioms
    by (simp add: restlessTurn_def blankTurn_def effectiveOrder_def zeroOrder_def IsDefault_def)
  let ?s = "(clearTurnState s)\<lparr>TurnSnapshots := [], Undone := []\<rparr>"
  have "seatsOk (Ctx ?s)" "PlayOrder (Ctx ?s) \<noteq> []" using assms(2) by (simp_all add: clearTurnState_def)
  from advance_cyclic [OF ord this] obtain pos where
    "advancePlayOrderPos restlessGame ?s (Some restlessTurn) (e\<lparr>envEvents := []\<rparr>) =
      Some (?s\<lparr>Ctx := (Ctx ?s)\<lparr>PlayOrderPos := pos, CurrentPlayer := PlayOrder (Ctx ?s) ! nat pos\<rparr>\<rparr>, e\<lparr>envEvents := []\<rparr>)"
    by blast
  with assms turn show ?thesis
    by (auto simp: endTurn_def nextSeat_def turnHook_def runHookOpt_def beginTurn_def runTurnOnBegin_def
        restlessTurn_def blankTurn_def applyActivePlayersFromTurn_def scopeTurn_def clearTurnState_def
        runHook_def Let_def perform_def applyFnWrapHook_def noEffects_def)
qed

text \<open>
  The cap on chained moves does not bound the hooks: with a Turn.OnBegin that queues an
  EndTurn, draining a single EndTurn never returns.
\<close>

theorem drainEvents_can_diverge:
  "drainEvents restlessGame (seatedState 0 [''0'', ''1''] 0)
     (mcNoEvents (blankEnv ()) (seatedState 0 [''0'', ''1''] 0))
     ((blankEnv ())\<lparr>envEvents := [EvEndTurn '''']\<rparr>) = None"
proof (rule ccontr)
  assume "\<not> ?thesis"
  then obtain st' mc' env' where d: "drainEvents restlessGame (seatedState 0 [''0'', ''1''] 0)
     (mcNoEvents (blankEnv ()) (seatedState 0 [''0'', ''1''] 0))
     ((blankEnv ())\<lparr>envEvents := [EvEndTurn '''']\<rparr>) = Some (st', mc', env')" by auto
  let ?R = "\<lambda>(s :: nat state) (m :: nat moveContext) (e :: unit hookEnv). envEvents e = [EvEndTurn ''''] \<and> seatsOk (Ctx s) \<and>
    PlayOrder (Ctx s) = [''0'', ''1''] \<and> Gameover (Ctx s) = VNil \<and> Phase (Ctx s) = ''''"
  have "?R st' mc' env' \<and> envEvents env' = []"
    using d
  proof (rule drainEvents_invariant)
    fix s :: "nat state" and m and e :: "unit hookEnv" and s' m' e'
    assume R: "?R s m e" and b: "applyBatch restlessGame (envEvents e) s m (e\<lparr>envEvents := []\<rparr>) = Some (s', m', e')"
    have o: "effectiveOrder (scopeTurn restlessGame '''') = TurnOrderDefault"
      by (simp add: scopeTurn_def restlessGame_def blankGame_def restlessTurn_def blankTurn_def effectiveOrder_def
          zeroOrder_def IsDefault_def)
    obtain s1 e1 where t: "endTurn restlessGame s '''' (e\<lparr>envEvents := []\<rparr>) = Some (s1, e1)" "?R s1 m' (e1\<lparr>envEvents := [EvEndTurn '''']\<rparr>)"
    proof -
      have "cyclic_order (effectiveOrder (scopeTurn restlessGame (Phase (Ctx s))))"
        using R o roundRobin.cyclic_order_axioms [where ?'a = nat and ?'b = unit] by simp
      from endTurn_cyclic [OF this, of "e\<lparr>envEvents := []\<rparr>"] R obtain s1 e1 where
        "endTurn restlessGame s '''' (e\<lparr>envEvents := []\<rparr>) = Some (s1, e1)"
        "PlayOrder (Ctx s1) = [''0'', ''1'']" "NumPlayers (Ctx s1) = NumPlayers (Ctx s)" "Phase (Ctx s1) = ''''"
        "Gameover (Ctx s1) = VNil" "PlayOrderPos (Ctx s1) = (PlayOrderPos (Ctx s) + 1) mod 2"
        by auto
      then show ?thesis using R that by (auto simp: seatsOk_def)
    qed
    moreover have "envEvents e1 = [EvEndTurn '''']"
      using t(1) R by (rule restless_endTurn_events)
    moreover have "minMovesUnmet restlessGame s = False"
      using R by (simp add: minMovesUnmet_def scopeTurn_def restlessGame_def blankGame_def restlessTurn_def blankTurn_def)
    ultimately show "?R s' m' e'"
      using b R by (auto simp: applyEvent_def)
  qed (simp add: seatedState_def blankState_def blankCtx_def seatsOk_def blankEnv_def)
  then show False by auto
qed

lemma nth_remove_at:
  "i < length xs \<Longrightarrow> j < length xs - 1 \<Longrightarrow> remove_at i xs ! j = (if j < i then xs ! j else xs ! Suc j)"
  by (auto simp: remove_at_def nth_append min_def)

text \<open>Where the cursor lands when a seat is spliced out.\<close>

lemma spliceSeat_eq:
  assumes seats: "seatsOk c" and idx: "idx < length (PlayOrder c)" and two: "2 \<le> length (PlayOrder c)"
    and pos: "PlayOrderPos c = int p"
    and p': "p' = (if idx < p then p - 1 else if p = length (PlayOrder c) - 1 then 0 else p)"
  shows "spliceSeat c idx = Some (c\<lparr>PlayOrder := remove_at idx (PlayOrder c), PlayOrderPos := int p',
           CurrentPlayer := remove_at idx (PlayOrder c) ! p'\<rparr>)"
    and "p' < length (PlayOrder c) - 1"
proof -
  let ?o = "remove_at idx (PlayOrder c)"
  have len: "length ?o = length (PlayOrder c) - 1" using idx by (rule length_remove_at)
  have ne: "PlayOrder c \<noteq> []" using two by auto
  have p: "p < length (PlayOrder c)" using seatsOk_bounds(2) [OF seats ne] pos by simp
  show p'': "p' < length (PlayOrder c) - 1" using p idx two by (auto simp: p')
  have cur: "(if int (length ?o) \<le> (if int idx < int p then int p - 1 else int p) then 0
      else if int idx < int p then int p - 1 else int p) = int p'"
    using p idx two by (auto simp: len p' of_nat_diff)
  have "?o \<noteq> []" using len two by auto
  moreover have "index_at ?o (int p') = Some (?o ! p')" using p'' len by (simp add: index_at_in)
  ultimately show "spliceSeat c idx = Some (c\<lparr>PlayOrder := ?o, PlayOrderPos := int p', CurrentPlayer := ?o ! p'\<rparr>)"
    unfolding spliceSeat_def Let_def pos cur by simp
qed

text \<open>
  Eliminating a player who is not on turn takes exactly that seat out of the order and out
  of the active set, and leaves the turn where it is: the current player, and the seat the
  cursor points at, are unchanged.
\<close>

theorem removePlayer_bystander:
  assumes seats: "seatsOk (Ctx st)" "distinct (PlayOrder (Ctx st))" "PlayOrder (Ctx st) \<noteq> []"
    and cur: "CurrentPlayer (Ctx st) = PlayOrder (Ctx st) ! nat (PlayOrderPos (Ctx st))"
    and pid: "pid \<in> set (PlayOrder (Ctx st))" "pid \<noteq> CurrentPlayer (Ctx st)"
  shows "\<exists>st'. removePlayer game st pid env = Some (st', env) \<and>
    PlayOrder (Ctx st') = filter (\<lambda>p. p \<noteq> pid) (PlayOrder (Ctx st)) \<and>
    CurrentPlayer (Ctx st') = CurrentPlayer (Ctx st) \<and>
    PlayOrder (Ctx st') ! nat (PlayOrderPos (Ctx st')) = CurrentPlayer (Ctx st) \<and>
    mget (ActivePlayers (Ctx st')) pid = None \<and> Turn (Ctx st') = Turn (Ctx st)"
proof -
  let ?xs = "PlayOrder (Ctx st)"
  obtain idx where idx: "find_index (\<lambda>p. p = pid) ?xs = Some idx"
    using pid(1) find_index_None [of "\<lambda>p. p = pid" ?xs] by blast
  note i = find_index_Some [OF idx]
  obtain p where p: "PlayOrderPos (Ctx st) = int p" "p < length ?xs"
    using seatsOk_bounds [OF seats(1,3)] by (metis nonneg_int_cases of_nat_less_iff)
  have ne: "idx \<noteq> p" using i pid(2) cur p by auto
  then have two: "2 \<le> length ?xs" using i p(2) by linarith
  define p' where "p' = (if idx < p then p - 1 else if p = length ?xs - 1 then 0 else p)"
  note splice = spliceSeat_eq [OF seats(1) conjunct1 [OF i] two p(1) p'_def]
  have at: "remove_at idx ?xs ! p' = CurrentPlayer (Ctx st)"
    using nth_remove_at [of idx ?xs p'] splice(2) i ne p cur by (auto simp: p'_def)
  have order: "remove_at idx ?xs = filter (\<lambda>q. q \<noteq> pid) ?xs"
    using remove_at_distinct [OF seats(2), of idx] i by simp
  have "remove_at idx ?xs \<noteq> []" using length_remove_at [of idx ?xs] i two by auto
  then have "removePlayer game st pid env = Some
      (st\<lparr>Ctx := leaveActive ((Ctx st)\<lparr>PlayOrder := remove_at idx ?xs, PlayOrderPos := int p',
         CurrentPlayer := remove_at idx ?xs ! p'\<rparr>) pid\<rparr>, env)"
    using idx splice(1) pid(2) by (simp add: removePlayer_def)
  then show ?thesis using at order by (auto simp: leaveActive_def Let_def)
qed

theorem removePlayer_bystander_witness:
  "\<exists>st'. removePlayer (blankGame (0::nat)) (seatedState 0 [''0'', ''1'', ''2''] 2) ''0'' (blankEnv ()) = Some (st', blankEnv ()) \<and>
    PlayOrder (Ctx st') = [''1'', ''2''] \<and> CurrentPlayer (Ctx st') = ''2''"
  using removePlayer_bystander [of "seatedState (0::nat) [''0'', ''1'', ''2''] 2" "''0''" "blankGame 0" "blankEnv ()"]
  by (auto simp: seatedState_def blankState_def blankCtx_def seatsOk_def numeral_2_eq_2)

text \<open>The seat after the one the cursor lands on when its own seat \<open>p\<close> is spliced out.\<close>

lemma nth_after_splice:
  assumes p: "p < length xs" and three: "3 \<le> length xs"
  shows "remove_at p xs ! (Suc (if p = length xs - 1 then 0 else p) mod (length xs - 1)) = xs ! ((p + 2) mod length xs)"
proof -
  obtain n where n: "length xs = n + 3" using three by (metis add.commute le_Suc_ex)
  consider "p = n + 2" | "p = n + 1" | "p < n + 1" using p n by linarith
  then show ?thesis
  proof cases
    case 1
    then have "p + 2 = (n + 3) + 1" by simp
    then have "(p + 2) mod (n + 3) = 1" by (simp only: mod_add_self1) simp
    then show ?thesis using 1 n nth_remove_at [of p xs 1] by simp
  next
    case 2
    then have "p + 2 = n + 3" by simp
    then have "(p + 2) mod (n + 3) = 0" by (simp only: mod_self)
    then show ?thesis using 2 n nth_remove_at [of p xs 0] by simp
  qed (use n nth_remove_at [of p xs "Suc p"] in auto)
qed

text \<open>
  Eliminating the player on turn skips a seat: with three or more seats and a round-robin
  order the turn goes to the seat two places on, not to the next one, because the cursor
  already points at the next seat when the turn is ended.
\<close>

theorem removePlayer_current_skips_next:
  assumes ord: "cyclic_order (effectiveOrder (scopeTurn game (Phase (Ctx st))))"
    and seats: "seatsOk (Ctx st)" "distinct (PlayOrder (Ctx st))" "3 \<le> length (PlayOrder (Ctx st))"
    and live: "Gameover (Ctx st) = VNil"
    and cur: "CurrentPlayer (Ctx st) = PlayOrder (Ctx st) ! nat (PlayOrderPos (Ctx st))"
  shows "\<exists>st' env'. removePlayer game st (CurrentPlayer (Ctx st)) env = Some (st', env') \<and>
    CurrentPlayer (Ctx st') =
      PlayOrder (Ctx st) ! nat ((PlayOrderPos (Ctx st) + 2) mod int (length (PlayOrder (Ctx st))))"
proof -
  let ?xs = "PlayOrder (Ctx st)" and ?pid = "CurrentPlayer (Ctx st)"
  have ne: "?xs \<noteq> []" using seats(3) by auto
  obtain p where p: "PlayOrderPos (Ctx st) = int p" "p < length ?xs"
    using seatsOk_bounds [OF seats(1) ne] by (metis nonneg_int_cases of_nat_less_iff)
  obtain idx where idx: "find_index (\<lambda>q. q = ?pid) ?xs = Some idx"
    using find_index_None [of "\<lambda>q. q = ?pid" ?xs] cur p by (metis nat_int not_Some_eq nth_mem)
  have ip: "idx = p" using find_index_Some [OF idx] cur p seats(2) by (auto simp: nth_eq_iff_index_eq)
  define p' where "p' = (if p = length ?xs - 1 then 0 else p)"
  let ?o = "remove_at p ?xs"
  let ?c = "(Ctx st)\<lparr>PlayOrder := ?o, PlayOrderPos := int p', CurrentPlayer := ?o ! p'\<rparr>"
  have len: "length ?o = length ?xs - 1" using p(2) by (rule length_remove_at)
  have splice: "spliceSeat (Ctx st) p = Some ?c" and p': "p' < length ?xs - 1"
    using spliceSeat_eq [OF seats(1) p(2) _ p(1), of p'] seats(3) by (auto simp: p'_def)
  have "seatsOk ?c" using seatsOk_bounds(3) [OF seats(1) ne] p' len by (auto simp: seatsOk_def)
  moreover have "?o \<noteq> []" using len seats(3) by auto
  ultimately obtain s e where t: "endTurn game (st\<lparr>Ctx := ?c\<rparr>) '''' env = Some (s, e)"
    "CurrentPlayer (Ctx s) = ?o ! nat ((int p' + 1) mod int (length ?o))"
    using endTurn_cyclic [of game "st\<lparr>Ctx := ?c\<rparr>" env] ord live by auto
  have "nat ((int p' + 1) mod int (length ?o)) = Suc p' mod (length ?xs - 1)"
    using len nat_int [of "Suc p' mod (length ?xs - 1)"] by (simp add: zmod_int add.commute)
  moreover have "?o ! (Suc p' mod (length ?xs - 1)) = ?xs ! ((p + 2) mod length ?xs)"
    unfolding p'_def using p(2) seats(3) by (rule nth_after_splice)
  moreover have "nat ((int p + 2) mod int (length ?xs)) = (p + 2) mod length ?xs"
    using nat_int [of "(p + 2) mod length ?xs"] by (simp add: zmod_int add.commute)
  ultimately have "CurrentPlayer (Ctx s) = ?xs ! nat ((PlayOrderPos (Ctx st) + 2) mod int (length ?xs))"
    using t(2) p(1) by simp
  moreover have "removePlayer game st ?pid env = Some (s\<lparr>Ctx := leaveActive (Ctx s) ?pid\<rparr>, e)"
    using idx ip splice t(1) \<open>?o \<noteq> []\<close> by (simp add: removePlayer_def)
  ultimately show ?thesis by auto
qed

theorem removePlayer_current_skips_next_witness:
  "\<exists>st' env'. removePlayer (blankGame (0::nat)) (seatedState 0 [''0'', ''1'', ''2''] 0) ''0'' (blankEnv ()) = Some (st', env') \<and>
    CurrentPlayer (Ctx st') = ''2''"
  using removePlayer_current_skips_next [of "blankGame (0::nat)" "seatedState 0 [''0'', ''1'', ''2''] 0" "blankEnv ()"]
  by (auto simp: seatedState_def blankState_def blankCtx_def seatsOk_def scopeTurn_def
      blankGame_def roundRobin.cyclic_order_axioms)

text \<open>
  A phase played once round the table, with hooks that count how often they run: OnEnd adds
  100 and OnBegin adds 1 to the game state.
\<close>

definition countingTurn :: "(nat, unit) turnConfig" where
  "countingTurn = blankTurn\<lparr>tcOnBegin := Some (\<lambda>mc h. (mcG mc + 1, noEffects, h)),
                            tcOnEnd := Some (\<lambda>mc h. (mcG mc + 100, noEffects, h))\<rparr>"

definition draftPhase :: "(nat, unit) phaseConfig" where
  "draftPhase = \<lparr>pcOnBegin = None, pcOnEnd = None, pcEndIf = None, pcMoves = None,
     pcTurn = Some (countingTurn\<lparr>tcOrder := TurnOrderOnce\<rparr>), pcStart = True, pcNext = NextNil\<rparr>"

definition draftGame :: "(nat, unit) game" where
  "draftGame = (blankGame 0)\<lparr>gmTurn := Some countingTurn, gmPhases := [(''draft'', draftPhase)]\<rparr>"

definition draftState :: "nat state" where
  "draftState = (seatedState 0 [''0'', ''1''] 1)\<lparr>Ctx := (Ctx (seatedState (0::nat) [''0'', ''1''] 1))\<lparr>Phase := ''draft''\<rparr>\<rparr>"

text \<open>
  When a turn order ends the phase (TurnOrderOnce after its last seat), the turn is ended
  and begun twice: Turn.OnEnd and Turn.OnBegin each run twice and the turn counter grows by
  two for the one turn that ended.
\<close>

theorem once_order_ends_the_turn_twice:
  "map_option (\<lambda>(st, env). (G st, Turn (Ctx st) - Turn (Ctx draftState), Phase (Ctx st), CurrentPlayer (Ctx st)))
     (endTurn draftGame draftState '''' (blankEnv ())) = Some (202, 2, '''', ''0'')"
  by code_simp

end
