(* ===== verification/Reducer.thy ===== *)
theory Reducer
  imports Rotation
begin

text \<open>
  The reducer (\<open>core/reducer.go\<close>): the checks a request must pass, the move pipeline, the
  cascade of queued actions, and \<open>Apply\<close>, which returns the given state on any error.

  A result \<open>Some (Inl e, h)\<close> is the Go error \<open>e\<close>, with the memory \<open>h\<close> that game code has
  already written; \<open>None\<close> is a run-time panic or an event drain that never ends.
\<close>

definition MaxDrainDepth :: nat where
  "MaxDrainDepth = 200"

section \<open>The checks\<close>

definition findBlock :: "blockSpec list \<Rightarrow> string \<Rightarrow> string \<Rightarrow> string \<Rightarrow> nat option" where
  "findBlock blocks tag pid mv =
     find_index (\<lambda>b. bTag b = tag \<and> bPlayerID b = pid \<and> (bMove b = '''' \<or> bMove b = mv)) blocks"

record exemptions =
  exTurn :: bool
  exStageScope :: bool

definition exemptionsFor :: "('g, 'h) move \<Rightarrow> blockSpec option \<Rightarrow> moveRequest \<Rightarrow> exemptions" where
  "exemptionsFor mv resuming req =
     (let namedAnswer = (case resuming of Some b \<Rightarrow> bMove b \<noteq> '''' | None \<Rightarrow> False)
      in \<lparr>exTurn = (mvAnyPlayer mv \<or> resuming \<noteq> None),
          exStageScope = (mvAnyPlayer mv \<or> mvIgnoreBlocks mv \<or> namedAnswer \<or> rqServerDispatch req)\<rparr>)"

definition authorizedStage :: "ctx \<Rightarrow> string \<Rightarrow> string \<times> gerror option" where
  "authorizedStage c pid =
     (case ActivePlayers c of
        Some ap \<Rightarrow> (case map_of ap pid of
                      None \<Rightarrow> ('''', Some ErrInactivePlayer)
                    | Some stage \<Rightarrow> (stage, None))
      | None \<Rightarrow> (if pid \<noteq> CurrentPlayer c then ('''', Some ErrWrongPlayer) else ('''', None)))"

definition authorizedStageDrain :: "ctx \<Rightarrow> string \<Rightarrow> string" where
  "authorizedStageDrain c pid =
     (case ActivePlayers c of
        Some ap \<Rightarrow> (case map_of ap pid of Some stage \<Rightarrow> stage | None \<Rightarrow> '''')
      | None \<Rightarrow> '''')"

text \<open>The stage's entry for a name, if the stage has one.\<close>

definition stageEntry :: "('g, 'h) game \<Rightarrow> string \<Rightarrow> string \<Rightarrow> string \<Rightarrow> ('g, 'h) rawMove option" where
  "stageEntry game phase stage name =
     (if stage = '''' then None
      else case lookupStage game phase stage of None \<Rightarrow> None | Some sc \<Rightarrow> mget (scMoves sc) name)"

definition resolveMove :: "('g, 'h) game \<Rightarrow> ctx \<Rightarrow> string \<Rightarrow> string \<Rightarrow> (gerror + ('g, 'h) move) \<times> bool" where
  "resolveMove game c stage name =
     (case stageEntry game (Phase c) stage name of
        Some v \<Rightarrow> (asMove v, True)
      | None \<Rightarrow> (case mget (scopeMoves game (Phase c)) name of
                   Some v \<Rightarrow> (asMove v, False)
                 | None \<Rightarrow> (Inl ErrUnknownMove, False)))"

text \<open>A request with a resume tag consumes the first pending prompt it may answer.\<close>

definition takeBlock :: "blockSpec list \<Rightarrow> moveRequest \<Rightarrow> gerror + (blockSpec option \<times> blockSpec list)" where
  "takeBlock blocks req =
     (if rqResumeTag req = '''' then Inr (None, blocks)
      else case findBlock blocks (rqResumeTag req) (rqPlayerID req) (rqMove req) of
        None \<Rightarrow> Inl ErrUnknownResumeTag
      | Some i \<Rightarrow> Inr (Some (blocks ! i), remove_at i blocks))"

definition isExclusive :: "('g, 'h) game \<Rightarrow> string \<Rightarrow> string \<Rightarrow> bool" where
  "isExclusive game phase stage =
     (case lookupStage game phase stage of Some sc \<Rightarrow> scExclusive sc | None \<Rightarrow> False)"

text \<open>
  The checks of applyExternal, up to the point where it takes private containers. They
  return the state with the request time and the remaining prompts, the move to run and the
  prompt it answers.
\<close>

definition admit :: "('g, 'h) game \<Rightarrow> 'g state \<Rightarrow> moveRequest
    \<Rightarrow> gerror + ('g state \<times> ('g, 'h) move \<times> blockSpec option)" where
  "admit game st req =
     (if Gameover (Ctx st) \<noteq> VNil then Inl ErrGameOver
      else
        let st = st\<lparr>Ctx := (Ctx st)\<lparr>NowMs := rqNowMs req\<rparr>\<rparr>
        in case takeBlock (Blocks st) req of
          Inl e \<Rightarrow> Inl e
        | Inr (resuming, blocks) \<Rightarrow>
            let st = st\<lparr>Blocks := blocks\<rparr>;
                (stage, authErr) = authorizedStage (Ctx st) (rqPlayerID req);
                (resolved, inStage) = resolveMove game (Ctx st) stage (rqMove req)
            in case resolved of
              Inl e \<Rightarrow> (case authErr of Some a \<Rightarrow> Inl a | None \<Rightarrow> Inl e)
            | Inr mv \<Rightarrow>
                if rqFromClient req \<and> mvServerOnly mv then Inl ErrServerOnly
                else if resuming = None \<and> blocks \<noteq> [] \<and> \<not> mvIgnoreBlocks mv then Inl ErrBlocked
                else if authErr \<noteq> None \<and> \<not> exTurn (exemptionsFor mv resuming req) then Inl (the authErr)
                else if 0 < rqStateID req \<and> rqStateID req \<noteq> StateID st \<and> \<not> mvIgnoreStaleStateID mv
                  then Inl ErrStaleState
                else if stage \<noteq> '''' \<and> \<not> inStage \<and> \<not> exStageScope (exemptionsFor mv resuming req)
                        \<and> isExclusive game (Phase (Ctx st)) stage
                  then Inl ErrMoveNotInStage
                else Inr (st, mv, resuming))"

section \<open>Prompts and the action queue\<close>

definition withoutBlocksFor :: "blockSpec list \<Rightarrow> string list \<Rightarrow> blockSpec list" where
  "withoutBlocksFor blocks players =
     (if players = [] \<or> blocks = [] then blocks
      else filter (\<lambda>b. bPlayerID b \<notin> set players) blocks)"

definition harvestQueue :: "'g state \<Rightarrow> queue \<Rightarrow> 'g state" where
  "harvestQueue st q =
     (let ((pending, blocks), _) = qDrain q
      in st\<lparr>Queue := Queue st @ pending, Blocks := Blocks st @ blocks\<rparr>)"

section \<open>Drain steps\<close>

definition stepEntry :: "queuedAction \<Rightarrow> ctx \<Rightarrow> string \<Rightarrow> int \<Rightarrow> logEntry" where
  "stepEntry action c stage parentIdx =
     emptyLogEntry\<lparr>leKind := ''drain-step'', leMove := qaMove action, lePlayerID := qaPlayerID action,
       leArgs := qaArgs action, leTurn := Turn c, lePhase := Phase c, leStage := stage,
       leParent := parentIdx\<rparr>"

definition applyStep :: "('g, 'h) game \<Rightarrow> 'g state \<Rightarrow> queuedAction \<Rightarrow> int \<Rightarrow> 'h
    \<Rightarrow> ((gerror + 'g state) \<times> 'h) option" where
  "applyStep game st action parentIdx h =
     (let pid = qaPlayerID action;
          stage = authorizedStageDrain (Ctx st) pid
      in case fst (resolveMove game (Ctx st) stage (qaMove action)) of
        Inl e \<Rightarrow> Some (Inl e, h)
      | Inr mv \<Rightarrow>
          let (apis, h) = buildPluginAPIs game st pid h;
              mc = \<lparr>mcG = G st, mcCtx = Ctx st, mcPlayerID = pid, mcPlugins = apis, mcQueue = Some emptyQueue,
                    mcResumingBlock = None, mcExtra = [], mcChainedMoves = 0\<rparr>;
              env = \<lparr>envEvents = [], envQueue = emptyQueue, envDrops = None, envPlugins = apis, envHeap = h\<rparr>
          in case mvMove mv of
            None \<Rightarrow> None
          | Some f \<Rightarrow>
              let (r, ef, h) = applyFnWrapMove game f mc (qaArgs action) h;
                  env = perform ef h env
              in case r of
                Inl e \<Rightarrow> Some (Inl e, h)
              | Inr g \<Rightarrow>
                  let next = st\<lparr>G := g, Log := Log st @ [stepEntry action (Ctx st) stage parentIdx]\<rparr>;
                      mc = mc\<lparr>mcG := g, mcExtra := loggedBy mc ef\<rparr>;
                      (next, h) = flushPlugins game next mc (envHeap env)
                  in case validatePlugins game next h of
                    Some e \<Rightarrow> Some (Inl e, h)
                  | None \<Rightarrow> do {
                      (next, mc, env) \<leftarrow> drainEvents game next mc (env\<lparr>envHeap := h\<rparr>);
                      Some (Inr (harvestQueue (next\<lparr>Log := Log next @ mcExtra mc\<rparr>) (envQueue env)), envHeap env)
                    })"

text \<open>
  The drain loop of drainCascade with \<open>n\<close> steps left before the cap: it stops when the queue
  is empty, at the first prompt, or at game over.
\<close>

definition quiescent :: "'g state \<Rightarrow> bool" where
  "quiescent st \<longleftrightarrow> Queue st = [] \<or> Blocks st \<noteq> [] \<or> Gameover (Ctx st) \<noteq> VNil"

fun cascadeLoop :: "('g, 'h) game \<Rightarrow> int \<Rightarrow> nat \<Rightarrow> 'g state \<Rightarrow> 'h \<Rightarrow> ((gerror + 'g state) \<times> 'h) option" where
  "cascadeLoop game parentIdx n st h =
     (if quiescent st then Some (Inr st, h)
      else case n of
        0 \<Rightarrow> Some (Inl ErrDrainOverflow, h)
      | Suc n \<Rightarrow> do {
          (r, h) \<leftarrow> applyStep game (st\<lparr>Queue := tl (Queue st)\<rparr>) (hd (Queue st)) parentIdx h;
          (case r of Inl e \<Rightarrow> Some (Inl e, h) | Inr st \<Rightarrow> cascadeLoop game parentIdx n st h)
        })"

declare cascadeLoop.simps [simp del]

text \<open>On failure the state is the one after the harvest, before the first step.\<close>

definition drainCascade :: "('g, 'h) game \<Rightarrow> 'g state \<Rightarrow> queue \<Rightarrow> int \<Rightarrow> 'h
    \<Rightarrow> ('g state \<times> gerror option \<times> 'h) option" where
  "drainCascade game st q parentIdx h =
     (let st = harvestQueue st q
      in if quiescent st then Some (st, None, h)
         else do {
           (r, h) \<leftarrow> cascadeLoop game parentIdx MaxDrainDepth (ownContainers st) h;
           Some (case r of Inl e \<Rightarrow> (st, Some e, h) | Inr st' \<Rightarrow> (st', None, h))
         })"

section \<open>Automatic ends\<close>

definition checkTurnAutoEnd :: "('g, 'h) game \<Rightarrow> 'g state \<Rightarrow> ('g, 'h) move \<Rightarrow> 'h hookEnv
    \<Rightarrow> ('g state \<times> 'h hookEnv) option" where
  "checkTurnAutoEnd game st mv env =
     (case scopeTurn game (Phase (Ctx st)) of
        None \<Rightarrow> Some (st, env)
      | Some turn \<Rightarrow>
          let ((fin, nxt), env) = (case tcEndIf turn of
                 Some f \<Rightarrow> runPred f st '''' env
               | None \<Rightarrow> ((False, ''''), env))
          in if fin then endTurn game st nxt env
             else if 0 < tcMaxMoves turn \<and> tcMaxMoves turn \<le> NumMoves (Ctx st) \<and> \<not> mvNoLimit mv
               then endTurn game st '''' env
             else Some (st, env))"

definition checkPhaseEndIf :: "('g, 'h) game \<Rightarrow> 'g state \<Rightarrow> 'h hookEnv \<Rightarrow> ('g state \<times> 'h hookEnv) option" where
  "checkPhaseEndIf game st env =
     (if Phase (Ctx st) = '''' then Some (st, env)
      else case Option.bind (map_of (gmPhases game) (Phase (Ctx st))) pcEndIf of
        None \<Rightarrow> Some (st, env)
      | Some f \<Rightarrow>
          let ((fin, nxt), env) = runPred f st '''' env
          in if fin then endPhase game st nxt env else Some (st, env))"

definition checkGameEndIf :: "('g, 'h) game \<Rightarrow> 'g state \<Rightarrow> string \<Rightarrow> 'h hookEnv \<Rightarrow> 'g state \<times> 'h hookEnv" where
  "checkGameEndIf game st pid env =
     (if Gameover (Ctx st) \<noteq> VNil then (st, env)
      else case gmEndIf game of
        None \<Rightarrow> (st, env)
      | Some f \<Rightarrow>
          let (res, env) = runPred f st pid env
          in if res \<noteq> VNil then runGameOnEnd game (st\<lparr>Ctx := (Ctx st)\<lparr>Gameover := res\<rparr>\<rparr>) env
             else (st, env))"

text \<open>The checks after the events of a move have drained, each only while the game is on.\<close>

definition endChecks :: "('g, 'h) game \<Rightarrow> 'g state \<Rightarrow> ('g, 'h) move \<Rightarrow> string \<Rightarrow> 'h hookEnv
    \<Rightarrow> ('g state \<times> 'h hookEnv) option" where
  "endChecks game st mv pid env = do {
     let (st, env) = checkGameEndIf game st pid env;
     (st, env) \<leftarrow> (if Gameover (Ctx st) = VNil then checkPhaseEndIf game st env else Some (st, env));
     let st = (if Gameover (Ctx st) = VNil then autoEndStagesByMaxMoves st else st);
     (if Gameover (Ctx st) = VNil then checkTurnAutoEnd game st mv env else Some (st, env))
   }"

section \<open>External moves\<close>

text \<open>An undo snapshot has containers of its own and no snapshot stack.\<close>

definition cloneStateForSnapshot :: "'g state \<Rightarrow> 'g snapshot" where
  "cloneStateForSnapshot st = snapshot.truncate (ownContainers st)"

definition moveEntry :: "moveRequest \<Rightarrow> ctx \<Rightarrow> bool \<Rightarrow> bool \<Rightarrow> logEntry" where
  "moveEntry req c redact undoable =
     \<lparr>leKind = ''move'', leMove = rqMove req, lePlayerID = rqPlayerID req, leArgs = rqArgs req,
      leNowMs = rqNowMs req, leTurn = Turn c, lePhase = Phase c,
      leStage = (case mget (ActivePlayers c) (rqPlayerID req) of Some s \<Rightarrow> s | None \<Rightarrow> ''''),
      leRedact = redact, leUndoable = undoable, leParent = -1, leResumeTag = rqResumeTag req,
      leServerDispatch = rqServerDispatch req\<rparr>"

text \<open>Turn.OnMove runs in the move's own context, after the move; what it logs joins the move's entries.\<close>

definition runOnMove :: "('g, 'h) game \<Rightarrow> 'g state \<Rightarrow> 'g moveContext \<Rightarrow> 'h hookEnv
    \<Rightarrow> 'g state \<times> 'g moveContext \<times> 'h hookEnv" where
  "runOnMove game st mc env =
     (case turnHook tcOnMove (scopeTurn game (Phase (Ctx st))) of
        None \<Rightarrow> (st, mc, env)
      | Some f \<Rightarrow>
          let (g, ef, h) = applyFnWrapHook game f GameMethodTurnOnMove (mc\<lparr>mcQueue := Some (envQueue env)\<rparr>) (envHeap env)
          in (st\<lparr>G := g\<rparr>, mc\<lparr>mcG := g, mcExtra := mcExtra mc @ loggedBy mc ef\<rparr>, perform ef h env))"

definition countMove :: "('g, 'h) move \<Rightarrow> string \<Rightarrow> 'g state \<Rightarrow> 'g state" where
  "countMove mv pid st =
     (if mvNoLimit mv then st
      else bumpStageMoveCount (st\<lparr>Ctx := (Ctx st)\<lparr>NumMoves := NumMoves (Ctx st) + 1\<rparr>\<rparr>) pid)"

text \<open>
  From the accepted move's result on: log it, flush and validate the plugins, run OnMove,
  count the move, drain the events, check the ends, drain again, flush the log, drop the
  abandoned prompts, and run the cascade.
\<close>

definition settleMove :: "('g, 'h) game \<Rightarrow> 'g state \<Rightarrow> ('g, 'h) move \<Rightarrow> string \<Rightarrow> 'g moveContext \<Rightarrow> 'h hookEnv
    \<Rightarrow> ('g state \<times> 'h hookEnv) option" where
  "settleMove game st mv pid mc env = do {
     let (st, mc, env) = runOnMove game st mc env;
     let st = countMove mv pid st;
     (st, mc, env) \<leftarrow> drainEvents game st mc env;
     (st, env) \<leftarrow> endChecks game st mv pid env;
     (st, mc, env) \<leftarrow> drainEvents game st mc env;
     let st = st\<lparr>Log := Log st @ mcExtra mc\<rparr>;
     Some (st\<lparr>Blocks := withoutBlocksFor (Blocks st) (case envDrops env of Some d \<Rightarrow> d | None \<Rightarrow> [])\<rparr>, env)
   }"

definition runMove :: "('g, 'h) game \<Rightarrow> 'g state \<Rightarrow> ('g, 'h) move \<Rightarrow> blockSpec option \<Rightarrow> moveRequest \<Rightarrow> 'h
    \<Rightarrow> ((gerror + 'g state) \<times> 'h) option" where
  "runMove game st mv resuming req h =
     (let st = ownContainers st;
          pid = rqPlayerID req;
          (apis, h) = buildPluginAPIs game st pid h;
          mc = \<lparr>mcG = G st, mcCtx = Ctx st, mcPlayerID = pid, mcPlugins = apis, mcQueue = Some emptyQueue,
                mcResumingBlock = resuming, mcExtra = [], mcChainedMoves = 0\<rparr>;
          env = \<lparr>envEvents = [], envQueue = emptyQueue, envDrops = Some [], envPlugins = apis, envHeap = h\<rparr>;
          undoable = (IsUndoable mv mc h \<and> \<not> gmDisableUndo game);
          redact = IsRedacted mv mc h
      in case mvMove mv of
        None \<Rightarrow> None
      | Some f \<Rightarrow>
          let (r, ef, h) = applyFnWrapMove game f mc (rqArgs req) h;
              env = perform ef h env
          in case r of
            Inl e \<Rightarrow> Some (Inl e, h)
          | Inr g \<Rightarrow>
              let mc = mc\<lparr>mcG := g, mcExtra := loggedBy mc ef\<rparr>;
                  parentIdx = int (length (Log st));
                  next = st\<lparr>G := g, StateID := StateID st + 1,
                            Log := Log st @ [moveEntry req (Ctx st) redact undoable], Undone := [],
                            TurnSnapshots := TurnSnapshots st @ (if undoable then [cloneStateForSnapshot st] else [])\<rparr>;
                  (next, h) = flushPlugins game next mc (envHeap env)
              in case validatePlugins game next h of
                Some e \<Rightarrow> Some (Inl e, h)
              | None \<Rightarrow> do {
                  (next, env) \<leftarrow> settleMove game next mv pid mc (env\<lparr>envHeap := h\<rparr>);
                  (next, err, h) \<leftarrow> drainCascade game next (envQueue env) parentIdx (envHeap env);
                  Some (case err of Some e \<Rightarrow> Inl e | None \<Rightarrow> Inr next, h)
                })"

definition applyExternal :: "('g, 'h) game \<Rightarrow> 'g state \<Rightarrow> moveRequest \<Rightarrow> 'h \<Rightarrow> ((gerror + 'g state) \<times> 'h) option" where
  "applyExternal game st req h =
     (case admit game st req of
        Inl e \<Rightarrow> Some (Inl e, h)
      | Inr (st, mv, resuming) \<Rightarrow> runMove game st mv resuming req h)"

definition ApplyContext :: "('g, 'h) game \<Rightarrow> 'g state \<Rightarrow> moveRequest \<Rightarrow> 'h \<Rightarrow> ('g state \<times> gerror option \<times> 'h) option" where
  "ApplyContext game st req h = do {
     (r, h) \<leftarrow> applyExternal game st req h;
     Some (case r of Inl e \<Rightarrow> (st, Some e, h) | Inr st' \<Rightarrow> (st', None, h))
   }"

definition Apply :: "('g, 'h) game \<Rightarrow> 'g state \<Rightarrow> moveRequest \<Rightarrow> 'h \<Rightarrow> ('g state \<times> gerror option \<times> 'h) option" where
  "Apply game st req h = ApplyContext game st req h"

section \<open>Frames of the reducer\<close>

lemma Plugins_same: "\<exists>p. st = st\<lparr>Plugins := p\<rparr>"
  by (rule exI [of _ "Plugins st"]) simp

lemma grows_checkTurnAutoEnd [frame_rules]:
  "checkTurnAutoEnd game st mv env = Some (st', env') \<Longrightarrow> logsOk P game \<Longrightarrow> grows P st st'"
  by (auto simp: checkTurnAutoEnd_def Let_def split: option.splits prod.splits if_splits dest: grows_endTurn)

lemma grows_checkPhaseEndIf [frame_rules]:
  "checkPhaseEndIf game st env = Some (st', env') \<Longrightarrow> logsOk P game \<Longrightarrow> grows P st st'"
  by (auto simp: checkPhaseEndIf_def Let_def split: option.splits prod.splits if_splits dest: grows_endPhase)

lemma grows_checkGameEndIf [frame_rules]:
  assumes "checkGameEndIf game st pid env = (st', env')" "logsOk P game"
  shows "grows P st st'"
proof -
  have end': "grows P st (st\<lparr>Ctx := (Ctx st)\<lparr>Gameover := v\<rparr>\<rparr>)" for v by (rule grows_ctx_update) simp_all
  from assms show ?thesis
    by (auto simp: checkGameEndIf_def Let_def split: option.splits prod.splits if_splits
        dest!: grows_runGameOnEnd intro: grows_trans [OF end'])
qed

lemma endChecks_cases:
  assumes "endChecks game st mv pid env = Some (st', env')"
  obtains s1 e1 s2 e2 s3 where "checkGameEndIf game st pid env = (s1, e1)"
    "if Gameover (Ctx s1) = VNil then checkPhaseEndIf game s1 e1 = Some (s2, e2) else s2 = s1 \<and> e2 = e1"
    "s3 = (if Gameover (Ctx s2) = VNil then autoEndStagesByMaxMoves s2 else s2)"
    "if Gameover (Ctx s3) = VNil then checkTurnAutoEnd game s3 mv e2 = Some (st', env') else st' = s3 \<and> env' = e2"
proof -
  obtain s1 e1 where g: "checkGameEndIf game st pid env = (s1, e1)" by fastforce
  obtain s2 e2 where p: "(if Gameover (Ctx s1) = VNil then checkPhaseEndIf game s1 e1 else Some (s1, e1)) = Some (s2, e2)"
    and t: "(let s3 = (if Gameover (Ctx s2) = VNil then autoEndStagesByMaxMoves s2 else s2)
       in if Gameover (Ctx s3) = VNil then checkTurnAutoEnd game s3 mv e2 else Some (s3, e2)) = Some (st', env')"
    using assms g unfolding endChecks_def bind_Some_iff by (auto simp: case_prod_eq_iff)
  define s3 where "s3 = (if Gameover (Ctx s2) = VNil then autoEndStagesByMaxMoves s2 else s2)"
  have t': "if Gameover (Ctx s3) = VNil then checkTurnAutoEnd game s3 mv e2 = Some (st', env') else st' = s3 \<and> env' = e2"
    using t unfolding Let_def s3_def [symmetric] by (simp split: if_splits)
  have p': "if Gameover (Ctx s1) = VNil then checkPhaseEndIf game s1 e1 = Some (s2, e2) else s2 = s1 \<and> e2 = e1"
    using p by (simp split: if_splits)
  show ?thesis using that [OF g p' s3_def t'] .
qed

lemma grows_endChecks [frame_rules]:
  assumes "endChecks game st mv pid env = Some (st', env')" "logsOk P game"
  shows "grows P st st'"
proof -
  obtain s1 e1 s2 e2 s3 where c: "checkGameEndIf game st pid env = (s1, e1)"
    "if Gameover (Ctx s1) = VNil then checkPhaseEndIf game s1 e1 = Some (s2, e2) else s2 = s1 \<and> e2 = e1"
    "s3 = (if Gameover (Ctx s2) = VNil then autoEndStagesByMaxMoves s2 else s2)"
    "if Gameover (Ctx s3) = VNil then checkTurnAutoEnd game s3 mv e2 = Some (st', env') else st' = s3 \<and> env' = e2"
    using assms(1) by (rule endChecks_cases)
  have "grows P st s1" using c(1) assms(2) by (rule grows_checkGameEndIf)
  also have "grows P s1 s2" using c(2) assms(2) by (auto split: if_splits intro: grows_checkPhaseEndIf)
  also have "grows P s2 s3" using c(3) by simp
  also have "grows P s3 st'" using c(4) assms(2) by (auto split: if_splits intro: grows_checkTurnAutoEnd)
  finally show ?thesis .
qed

lemma refresh_keeps [simp]:
  "mcExtra (refresh st mc) = mcExtra mc" "mcPlayerID (refresh st mc) = mcPlayerID mc"
  by (simp_all add: refresh_def)

lemma applyEvent_mc: "applyEvent game ev st mc env = Some (st', mc', env') \<Longrightarrow> mcExtra mc' = mcExtra mc"
  by (auto simp: applyEvent_def Let_def case_prod_eq_iff split: if_splits event.splits)

lemma applyBatch_mc: "applyBatch game evs st mc env = Some (st', mc', env') \<Longrightarrow> mcExtra mc' = mcExtra mc"
  by (induction evs arbitrary: st mc env) (auto simp: case_prod_eq_iff dest: applyEvent_mc)

lemma drainEvents_mc:
  assumes "drainEvents game st mc env = Some (st', mc', env')"
  shows "mcExtra mc' = mcExtra mc"
proof -
  have "mcExtra mc' = mcExtra mc \<and> envEvents env' = []"
    using assms by (rule drainEvents_invariant) (auto dest: applyBatch_mc)
  then show ?thesis ..
qed

lemma flushLoop_fields: "flushLoop ps mc st h = (st', h') \<Longrightarrow> \<exists>p. st' = st\<lparr>Plugins := p\<rparr>"
proof (induction ps mc st h rule: flushLoop.induct)
  case (2 p ps mc st h)
  then show ?case by (fastforce simp: Let_def split: option.splits if_splits prod.splits)
qed (auto intro: Plugins_same)

lemma flushPlugins_fields:
  assumes "flushPlugins game st mc h = (st', h')"
  obtains p where "st' = st\<lparr>Plugins := p\<rparr>"
proof -
  have "\<exists>p. st' = st\<lparr>Plugins := p\<rparr>"
    using assms by (auto simp: flushPlugins_def split: if_splits dest!: flushLoop_fields intro: Plugins_same)
  then show ?thesis using that by blast
qed

text \<open>What the cascade keeps and extends; unlike a transition it may raise prompts and queue actions.\<close>

definition logGrows :: "(logEntry \<Rightarrow> bool) \<Rightarrow> 'g state \<Rightarrow> 'g state \<Rightarrow> bool" where
  "logGrows P st st' \<longleftrightarrow> Seed (Ctx st') = Seed (Ctx st) \<and> NowMs (Ctx st') = NowMs (Ctx st) \<and>
     StateID st \<le> StateID st' \<and> (\<exists>xs. Log st' = Log st @ xs \<and> list_all P xs) \<and>
     (\<exists>bs. Blocks st' = Blocks st @ bs) \<and> undoKept st st'"

lemma logGrows_refl [simp, intro]: "logGrows P st st"
  by (simp add: logGrows_def)

lemma logGrows_trans [trans]: "logGrows P a b \<Longrightarrow> logGrows P b c \<Longrightarrow> logGrows P a c"
  unfolding logGrows_def by (auto simp: list_all_append intro: undoKept_trans)

lemma grows_logGrows: "grows P a b \<Longrightarrow> logGrows P a b"
  by (auto simp: grows_def logGrows_def)

lemma logGrows_harvest [simp, intro]: "logGrows P st (harvestQueue st q)"
  by (simp add: harvestQueue_def qDrain_def logGrows_def)

lemma ownContainers_keeps [simp]:
  "Log (ownContainers st) = Log st" "Blocks (ownContainers st) = Blocks st" "Queue (ownContainers st) = Queue st"
  "StateID (ownContainers st) = StateID st" "Seed (Ctx (ownContainers st)) = Seed (Ctx st)"
  "NowMs (Ctx (ownContainers st)) = NowMs (Ctx st)" "Gameover (Ctx (ownContainers st)) = Gameover (Ctx st)"
  "Undone (ownContainers st) = Undone st" "TurnSnapshots (ownContainers st) = TurnSnapshots st"
  "G (ownContainers st) = G st" "seatsOk (Ctx (ownContainers st)) = seatsOk (Ctx st)"
  "Phase (Ctx (ownContainers st)) = Phase (Ctx st)" "Turn (Ctx (ownContainers st)) = Turn (Ctx st)"
  by (simp_all add: ownContainers_def)

lemma logGrows_own [simp, intro]: "logGrows P st (ownContainers st)"
  by (simp add: logGrows_def)

lemma resolveMove_gameMoves:
  assumes "fst (resolveMove game c stage name) = Inr m"
  shows "m \<in> gameMoves game"
proof (cases "stageEntry game (Phase c) stage name")
  case (Some v)
  then obtain sc t where sc: "lookupStage game (Phase c) stage = Some sc" "scMoves sc = Some t" "map_of t name = Some v"
    by (auto simp: stageEntry_def mget_def split: if_splits option.splits)
  have "t \<in> moveTables game"
    using lookupStage_stageConfigs [OF sc(1)] sc(2) by (force simp: moveTables_def)
  moreover have "v \<in> snd ` set t" using sc(3) by (force dest: map_of_SomeD)
  moreover have "asMove v = Inr m" using assms Some by (simp add: resolveMove_def)
  ultimately show ?thesis unfolding gameMoves_def by blast
next
  case None
  with assms show ?thesis
    by (auto simp: resolveMove_def split: option.splits intro: scopeMoves_gameMoves)
qed

lemma gameMoves_fn: "m \<in> gameMoves game \<Longrightarrow> \<exists>f. mvMove m = Some f"
proof -
  have "asMove r = Inr m \<Longrightarrow> \<exists>f. mvMove m = Some f" for r :: "('a, 'b) rawMove"
    by (cases r) (auto simp: mkMove_def split: if_splits)
  then show "m \<in> gameMoves game \<Longrightarrow> \<exists>f. mvMove m = Some f" unfolding gameMoves_def by blast
qed

lemma logsMove_wrapped:
  "logsOk P game \<Longrightarrow> m \<in> gameMoves game \<Longrightarrow> mvMove m = Some f \<Longrightarrow> applyFnWrapMove game f mc args h = (r, ef, h') \<Longrightarrow>
   list_all P (loggedBy mc ef)"
  unfolding logsOk_def logsMove_def by (metis fst_conv option.set_intros snd_conv)

text \<open>A successful drain step, taken apart.\<close>

lemma applyStep_cases:
  assumes "applyStep game st action parentIdx h = Some (Inr st', h')"
  obtains mv f g ef apis h1 h2 h3 p mc env s1 mc1 env1 where
    "mv \<in> gameMoves game" "mvMove mv = Some f"
    "mc = \<lparr>mcG = G st, mcCtx = Ctx st, mcPlayerID = qaPlayerID action, mcPlugins = apis,
       mcQueue = Some emptyQueue, mcResumingBlock = None, mcExtra = [], mcChainedMoves = 0\<rparr>"
    "applyFnWrapMove game f mc (qaArgs action) h1 = (Inr g, ef, h2)"
    "drainEvents game (st\<lparr>G := g, Log := Log st @ [stepEntry action (Ctx st) (authorizedStageDrain (Ctx st) (qaPlayerID action)) parentIdx],
         Plugins := p\<rparr>) (mc\<lparr>mcG := g, mcExtra := loggedBy mc ef\<rparr>) env = Some (s1, mc1, env1)"
    "st' = harvestQueue (s1\<lparr>Log := Log s1 @ mcExtra mc1\<rparr>) (envQueue env1)" "h' = envHeap env1"
    "envQueue env = fold runOp (efOps ef) emptyQueue"
proof -
  let ?stage = "authorizedStageDrain (Ctx st) (qaPlayerID action)"
  obtain mv where mv: "fst (resolveMove game (Ctx st) ?stage (qaMove action)) = Inr mv"
    using assms by (cases "fst (resolveMove game (Ctx st) ?stage (qaMove action))") (auto simp: applyStep_def Let_def)
  obtain f where f: "mvMove mv = Some f" using gameMoves_fn [OF resolveMove_gameMoves [OF mv]] by blast
  obtain apis h1 where api: "buildPluginAPIs game st (qaPlayerID action) h = (apis, h1)" by fastforce
  define mc where "mc = \<lparr>mcG = G st, mcCtx = Ctx st, mcPlayerID = qaPlayerID action, mcPlugins = apis,
       mcQueue = Some emptyQueue, mcResumingBlock = None, mcExtra = [], mcChainedMoves = 0\<rparr>"
  obtain r ef h2 where call: "applyFnWrapMove game f mc (qaArgs action) h1 = (r, ef, h2)"
    using prod_cases3 by blast
  obtain g where r: "r = Inr g"
    using assms mv f api call by (cases r) (simp_all add: applyStep_def Let_def mc_def)
  define s where "s = st\<lparr>G := g, Log := Log st @ [stepEntry action (Ctx st) ?stage parentIdx]\<rparr>"
  obtain s0 h3 where fl: "flushPlugins game s (mc\<lparr>mcG := g, mcExtra := loggedBy mc ef\<rparr>) h2 = (s0, h3)" by fastforce
  obtain p where p: "s0 = s\<lparr>Plugins := p\<rparr>" using fl by (rule flushPlugins_fields)
  from assms mv f api call r fl have "validatePlugins game s0 h3 = None"
    by (cases "validatePlugins game s0 h3") (simp_all add: applyStep_def Let_def mc_def s_def perform_def)
  with assms mv f api call r fl obtain s1 mc1 env1 env where
    "drainEvents game s0 (mc\<lparr>mcG := g, mcExtra := loggedBy mc ef\<rparr>) env = Some (s1, mc1, env1)"
    "st' = harvestQueue (s1\<lparr>Log := Log s1 @ mcExtra mc1\<rparr>) (envQueue env1)" "h' = envHeap env1"
    "envQueue env = fold runOp (efOps ef) emptyQueue"
    by (auto simp: applyStep_def Let_def mc_def s_def perform_def)
  then show ?thesis
    using that [OF resolveMove_gameMoves [OF mv] f mc_def] call r unfolding p s_def by auto
qed

text \<open>The entries the engine itself adds below a move: drain steps and chained moves.\<close>

definition engineLogs :: "(logEntry \<Rightarrow> bool) \<Rightarrow> bool" where
  "engineLogs P \<longleftrightarrow> (\<forall>e. leKind e \<in> {''drain-step'', ''chained-move''} \<longrightarrow> P e)"

lemma engineLogs_chained: "engineLogs P \<Longrightarrow> leKind e = ''chained-move'' \<Longrightarrow> P e"
  by (simp add: engineLogs_def)

lemma logGrows_applyStep:
  assumes "applyStep game st action parentIdx h = Some (Inr st', h')" "logsOk P game" "engineLogs P"
  shows "logGrows P st st'"
  using assms(1)
proof (rule applyStep_cases)
  fix mv f g ef apis h1 h2 p env s1 mc1 env1 and mc :: "'a moveContext"
  let ?e = "stepEntry action (Ctx st) (authorizedStageDrain (Ctx st) (qaPlayerID action)) parentIdx"
  let ?s = "st\<lparr>G := g, Log := Log st @ [?e], Plugins := p\<rparr>"
  assume mv: "mv \<in> gameMoves game" "mvMove mv = Some f"
    and call: "applyFnWrapMove game f mc (qaArgs action) h1 = (Inr g, ef, h2)"
    and drain: "drainEvents game ?s (mc\<lparr>mcG := g, mcExtra := loggedBy mc ef\<rparr>) env = Some (s1, mc1, env1)"
    and st': "st' = harvestQueue (s1\<lparr>Log := Log s1 @ mcExtra mc1\<rparr>) (envQueue env1)"
  have "P ?e" using assms(3) by (simp add: engineLogs_def stepEntry_def)
  then have "logGrows P st ?s" by (simp add: logGrows_def)
  also have "logGrows P ?s s1"
    using grows_drainEvents [OF drain assms(2) engineLogs_chained [OF assms(3)]] by (rule grows_logGrows)
  also have "logGrows P s1 (s1\<lparr>Log := Log s1 @ mcExtra mc1\<rparr>)"
    using logsMove_wrapped [OF assms(2) mv call] drainEvents_mc [OF drain] by (simp add: logGrows_def)
  also have "logGrows P (s1\<lparr>Log := Log s1 @ mcExtra mc1\<rparr>) st'" by (simp add: st')
  finally show ?thesis .
qed

lemma logGrows_queue [simp, intro]: "logGrows P st (st\<lparr>Queue := q\<rparr>)"
  by (simp add: logGrows_def)

lemma cascadeLoop_done: "quiescent st \<Longrightarrow> cascadeLoop game parentIdx n st h = Some (Inr st, h)"
  by (subst cascadeLoop.simps) simp

lemma cascadeLoop_Suc:
  "\<not> quiescent st \<Longrightarrow> cascadeLoop game parentIdx (Suc n) st h =
     applyStep game (st\<lparr>Queue := tl (Queue st)\<rparr>) (hd (Queue st)) parentIdx h \<bind>
       (\<lambda>(r, h). case r of Inl e \<Rightarrow> Some (Inl e, h) | Inr st \<Rightarrow> cascadeLoop game parentIdx n st h)"
  by (subst cascadeLoop.simps) simp

lemma cascadeLoop_0: "\<not> quiescent st \<Longrightarrow> cascadeLoop game parentIdx 0 st h = Some (Inl ErrDrainOverflow, h)"
  by (subst cascadeLoop.simps) simp

text \<open>The rule for the cascade: what every step establishes across itself, the whole cascade does.\<close>

lemma cascadeLoop_rel:
  assumes "cascadeLoop game parentIdx n st h = Some (Inr st', h')"
    and step: "\<And>s q s' h h'. \<not> quiescent s \<Longrightarrow> Queue s = q # tl (Queue s) \<Longrightarrow>
      applyStep game (s\<lparr>Queue := tl (Queue s)\<rparr>) q parentIdx h = Some (Inr s', h') \<Longrightarrow> R s s'"
    and refl: "\<And>s. R s s" and trans: "\<And>a b c. R a b \<Longrightarrow> R b c \<Longrightarrow> R a c"
  shows "R st st' \<and> quiescent st'"
  using assms(1)
proof (induction n arbitrary: st h)
  case 0
  then show ?case by (cases "quiescent st") (auto simp: cascadeLoop_done cascadeLoop_0 refl)
next
  case (Suc n)
  show ?case
  proof (cases "quiescent st")
    case True
    then show ?thesis using Suc.prems by (auto simp: cascadeLoop_done refl)
  next
    case False
    then have q: "Queue st = hd (Queue st) # tl (Queue st)" by (simp add: quiescent_def)
    from False Suc.prems obtain s1 h1 where
      s: "applyStep game (st\<lparr>Queue := tl (Queue st)\<rparr>) (hd (Queue st)) parentIdx h = Some (Inr s1, h1)"
      and l: "cascadeLoop game parentIdx n s1 h1 = Some (Inr st', h')"
      by (auto simp: cascadeLoop_Suc case_sum_eq_iff)
    show ?thesis using step [OF False q s] Suc.IH [OF l] trans by blast
  qed
qed

lemma logGrows_cascadeLoop:
  assumes "cascadeLoop game parentIdx n st h = Some (Inr st', h')" "logsOk P game" "engineLogs P"
  shows "logGrows P st st' \<and> quiescent st'"
  using assms(1)
  by (rule cascadeLoop_rel)
    (auto intro: logGrows_trans logGrows_trans [OF logGrows_queue] logGrows_applyStep [OF _ assms(2,3)])

lemma drainCascade_success:
  assumes "drainCascade game st q parentIdx h = Some (st', None, h')" "logsOk P game" "engineLogs P"
  shows "logGrows P (harvestQueue st q) st' \<and> quiescent st'"
proof (cases "quiescent (harvestQueue st q)")
  case True
  with assms(1) show ?thesis by (auto simp: drainCascade_def)
next
  case False
  with assms(1) obtain h1 where
    "cascadeLoop game parentIdx MaxDrainDepth (ownContainers (harvestQueue st q)) h = Some (Inr st', h1)"
    by (auto simp: drainCascade_def Let_def case_sum_eq_iff)
  from logGrows_cascadeLoop [OF this assms(2,3)] show ?thesis
    by (blast intro: logGrows_trans logGrows_own)
qed

lemma settleMove_cases:
  assumes "settleMove game st mv pid mc env = Some (st', env')"
  obtains s0 mc0 env0 s1 mc1 env1 s2 env2 s3 mc3 where
    "runOnMove game st mc env = (s0, mc0, env0)"
    "drainEvents game (countMove mv pid s0) mc0 env0 = Some (s1, mc1, env1)"
    "endChecks game s1 mv pid env1 = Some (s2, env2)"
    "drainEvents game s2 mc1 env2 = Some (s3, mc3, env')"
    "st' = s3\<lparr>Log := Log s3 @ mcExtra mc3,
              Blocks := withoutBlocksFor (Blocks s3) (case envDrops env' of Some d \<Rightarrow> d | None \<Rightarrow> [])\<rparr>"
  using assms unfolding settleMove_def Let_def case_prod_eq_iff bind_Some_iff by auto

lemma runOnMove_frame:
  assumes "runOnMove game st mc env = (st', mc', env')" "logsOk P game" "list_all P (mcExtra mc)"
  shows "grows P st st' \<and> list_all P (mcExtra mc') \<and> Ctx st' = Ctx st \<and> TurnSnapshots st' = TurnSnapshots st"
proof (cases "turnHook tcOnMove (scopeTurn game (Phase (Ctx st)))")
  case None
  then show ?thesis using assms by (simp add: runOnMove_def)
next
  case (Some f)
  then have "(f, GameMethodTurnOnMove) \<in> gameHooks game"
    by (auto simp: turnHook_def split: option.splits dest: scopeTurn_turnConfigs intro: gameHooks_intros)
  then have logs: "logsHook P (applyFnWrapHook game f GameMethodTurnOnMove)" using assms(2) by (auto simp: logsOk_def)
  let ?mc = "mc\<lparr>mcQueue := Some (envQueue env)\<rparr>"
  obtain g ef h where call: "applyFnWrapHook game f GameMethodTurnOnMove ?mc (envHeap env) = (g, ef, h)"
    using prod_cases3 by blast
  have "list_all P (loggedBy ?mc ef)" using logs call unfolding logsHook_def by (metis fst_conv snd_conv)
  then have "list_all P (loggedBy mc ef)" by (simp add: loggedBy_def)
  with assms(1,3) Some call show ?thesis
    by (auto simp: runOnMove_def Let_def intro: grows_same_log)
qed

lemma grows_countMove [simp, intro]: "grows P st (countMove mv pid st)"
proof -
  have "grows P st (st\<lparr>Ctx := (Ctx st)\<lparr>NumMoves := NumMoves (Ctx st) + 1\<rparr>\<rparr>)" by (rule grows_ctx_update) simp_all
  then show ?thesis unfolding countMove_def by (auto intro: grows_trans)
qed

text \<open>Settling a move only extends the log, and only removes prompts that were dropped.\<close>

lemma settleMove_frame:
  assumes "settleMove game st mv pid mc env = Some (st', env')" "logsOk P game" "engineLogs P" "list_all P (mcExtra mc)"
  shows "\<exists>xs. Log st' = Log st @ xs \<and> list_all P xs \<and> StateID st \<le> StateID st' \<and>
    Seed (Ctx st') = Seed (Ctx st) \<and> NowMs (Ctx st') = NowMs (Ctx st) \<and> Queue st' = Queue st \<and> undoKept st st' \<and>
    Blocks st' = withoutBlocksFor (Blocks st) (case envDrops env' of Some d \<Rightarrow> d | None \<Rightarrow> [])"
  using assms(1)
proof (rule settleMove_cases)
  fix s0 mc0 env0 s1 mc1 env1 s2 env2 s3 mc3
  assume on: "runOnMove game st mc env = (s0, mc0, env0)"
    and d1: "drainEvents game (countMove mv pid s0) mc0 env0 = Some (s1, mc1, env1)"
    and ends: "endChecks game s1 mv pid env1 = Some (s2, env2)"
    and d2: "drainEvents game s2 mc1 env2 = Some (s3, mc3, env')"
    and st': "st' = s3\<lparr>Log := Log s3 @ mcExtra mc3,
              Blocks := withoutBlocksFor (Blocks s3) (case envDrops env' of Some d \<Rightarrow> d | None \<Rightarrow> [])\<rparr>"
  note ch = engineLogs_chained [OF assms(3)]
  have "grows P st s0" "list_all P (mcExtra mc0)" using runOnMove_frame [OF on assms(2,4)] by auto
  note this(1)
  also have "grows P s0 (countMove mv pid s0)" by simp
  also have "grows P (countMove mv pid s0) s1" using d1 assms(2) ch by (rule grows_drainEvents)
  also have "grows P s1 s2" using ends assms(2) by (rule grows_endChecks)
  also have "grows P s2 s3" using d2 assms(2) ch by (rule grows_drainEvents)
  finally have g: "grows P st s3" .
  have "list_all P (mcExtra mc3)"
    using drainEvents_mc [OF d1] drainEvents_mc [OF d2] \<open>list_all P (mcExtra mc0)\<close> by simp
  moreover have "undoKept st st'" using g by (auto simp: st' grows_def undoKept_def)
  ultimately show ?thesis using g by (auto simp: st' grows_def list_all_append)
qed

text \<open>A successful external move, taken apart.\<close>

lemma runMove_cases:
  assumes "runMove game st mv resuming req h = Some (Inr st', h')"
  obtains f apis h1 h2 mc g ef undoable redact p env s1 env1 where
    "mvMove mv = Some f" "buildPluginAPIs game (ownContainers st) (rqPlayerID req) h = (apis, h1)"
    "mc = \<lparr>mcG = G st, mcCtx = Ctx (ownContainers st), mcPlayerID = rqPlayerID req, mcPlugins = apis,
       mcQueue = Some emptyQueue, mcResumingBlock = resuming, mcExtra = [], mcChainedMoves = 0\<rparr>"
    "undoable = (IsUndoable mv mc h1 \<and> \<not> gmDisableUndo game)" "redact = IsRedacted mv mc h1"
    "applyFnWrapMove game f mc (rqArgs req) h1 = (Inr g, ef, h2)"
    "settleMove game ((ownContainers st)\<lparr>G := g, StateID := StateID st + 1,
         Log := Log st @ [moveEntry req (Ctx (ownContainers st)) redact undoable], Undone := [],
         TurnSnapshots := TurnSnapshots st @ (if undoable then [cloneStateForSnapshot (ownContainers st)] else []),
         Plugins := p\<rparr>) mv (rqPlayerID req) (mc\<lparr>mcG := g, mcExtra := loggedBy mc ef\<rparr>) env = Some (s1, env1)"
    "drainCascade game s1 (envQueue env1) (int (length (Log st))) (envHeap env1) = Some (st', None, h')"
    "envEvents env = efEvents ef" "envDrops env = Some (efDrops ef)" "envQueue env = fold runOp (efOps ef) emptyQueue"
proof -
  obtain f where f: "mvMove mv = Some f"
    using assms by (cases "mvMove mv") (auto simp: runMove_def Let_def split: prod.splits)
  obtain apis h1 where api: "buildPluginAPIs game (ownContainers st) (rqPlayerID req) h = (apis, h1)" by fastforce
  define mc where "mc = \<lparr>mcG = G st, mcCtx = Ctx (ownContainers st), mcPlayerID = rqPlayerID req, mcPlugins = apis,
       mcQueue = Some emptyQueue, mcResumingBlock = resuming, mcExtra = [], mcChainedMoves = 0\<rparr>"
  define undoable where "undoable = (IsUndoable mv mc h1 \<and> \<not> gmDisableUndo game)"
  define redact where "redact = IsRedacted mv mc h1"
  obtain r ef h2 where call: "applyFnWrapMove game f mc (rqArgs req) h1 = (r, ef, h2)" using prod_cases3 by blast
  obtain g where r: "r = Inr g"
    using assms f api call by (cases r) (simp_all add: runMove_def Let_def mc_def)
  define s where "s = (ownContainers st)\<lparr>G := g, StateID := StateID st + 1,
         Log := Log st @ [moveEntry req (Ctx (ownContainers st)) redact undoable], Undone := [],
         TurnSnapshots := TurnSnapshots st @ (if undoable then [cloneStateForSnapshot (ownContainers st)] else [])\<rparr>"

  obtain s0 h3 where fl: "flushPlugins game s (mc\<lparr>mcG := g, mcExtra := loggedBy mc ef\<rparr>) h2 = (s0, h3)" by fastforce
  obtain p where p: "s0 = s\<lparr>Plugins := p\<rparr>" using fl by (rule flushPlugins_fields)
  note facts = f api call [unfolded r mc_def] fl [unfolded s_def mc_def undoable_def redact_def]
  have v: "validatePlugins game s0 h3 = None"
    using assms facts by (cases "validatePlugins game s0 h3") (simp_all add: runMove_def Let_def perform_def mc_def)
  obtain s1 env1 env where
    settle: "settleMove game s0 mv (rqPlayerID req) (mc\<lparr>mcG := g, mcExtra := loggedBy mc ef\<rparr>) env = Some (s1, env1)"
    and casc: "drainCascade game s1 (envQueue env1) (int (length (Log st))) (envHeap env1) = Some (st', None, h')"
    and ev: "envEvents env = efEvents ef" "envDrops env = Some (efDrops ef)"
      "envQueue env = fold runOp (efOps ef) emptyQueue"
    using assms facts v
    by (auto simp: runMove_def Let_def perform_def mc_def split: option.splits)
  show ?thesis
    using that [OF f api mc_def undoable_def redact_def call [unfolded r] settle [unfolded p s_def] casc ev] by simp
qed

end
