(* ===== verification/Applying.thy ===== *)
theory Applying
  imports Reducer
begin

text \<open>
  Correctness of \<open>Apply\<close>: exactly which requests pass the checks, that a refused request has no
  effect, that an accepted one returns a settled state, and what it does to the log, the
  state id and the pending prompts.
\<close>

section \<open>Apply returns\<close>

lemma checkTurnAutoEnd_total:
  assumes "ordersOk game" "seatsOk (Ctx st)"
  shows "\<exists>st' env'. checkTurnAutoEnd game st mv env = Some (st', env') \<and> seatsOk (Ctx st')"
proof (cases "scopeTurn game (Phase (Ctx st))")
  case (Some turn)
  have e: "\<exists>st' env'. endTurn game st nxt env = Some (st', env') \<and> seatsOk (Ctx st')" for nxt env
    using safely_endTurn [OF assms] unfolding safely_def by blast
  show ?thesis using Some e assms(2)
    by (auto simp: checkTurnAutoEnd_def Let_def split: option.splits prod.splits)
qed (use assms in \<open>simp add: checkTurnAutoEnd_def\<close>)

lemma checkPhaseEndIf_total:
  assumes "ordersOk game" "seatsOk (Ctx st)"
  shows "\<exists>st' env'. checkPhaseEndIf game st env = Some (st', env') \<and> seatsOk (Ctx st')"
proof -
  have e: "\<exists>st' env'. endPhase game st nxt env = Some (st', env') \<and> seatsOk (Ctx st')" for nxt env
    using safely_rotation(2) [OF assms] unfolding safely_def by blast
  show ?thesis using e assms(2)
    by (auto simp: checkPhaseEndIf_def Let_def split: option.splits prod.splits)
qed

lemma checkGameEndIf_seats:
  assumes "checkGameEndIf game st pid env = (st', env')" "seatsOk (Ctx st)"
  shows "seatsOk (Ctx st')"
proof -
  have "seatsOk (Ctx s')" if "runGameOnEnd game s e = (s', e')" "seatsOk (Ctx s)" for s e s' e'
    using safely_runGameOnEnd [OF that(2), of game e] that(1) by (auto simp: safely_def)
  with assms show ?thesis
    by (auto simp: checkGameEndIf_def Let_def split: if_splits option.splits prod.splits)
qed

lemma seatsOk_autoEndLoop [simp]: "seatsOk (Ctx (fst (autoEndLoop ps st ch))) = seatsOk (Ctx st)"
  by (induction ps st ch rule: autoEndLoop.induct) auto

lemma seatsOk_autoEnd [simp]: "seatsOk (Ctx (autoEndStagesByMaxMoves st)) = seatsOk (Ctx st)"
  by (auto simp: autoEndStagesByMaxMoves_def Let_def split_beta split: option.splits)

lemma endChecks_total:
  assumes "ordersOk game" "seatsOk (Ctx st)"
  shows "\<exists>st' env'. endChecks game st mv pid env = Some (st', env') \<and> seatsOk (Ctx st')"
proof -
  obtain s1 e1 where g: "checkGameEndIf game st pid env = (s1, e1)" by fastforce
  then have s1: "seatsOk (Ctx s1)" using assms(2) by (rule checkGameEndIf_seats)
  obtain s2 e2 where p: "(if Gameover (Ctx s1) = VNil then checkPhaseEndIf game s1 e1 else Some (s1, e1)) = Some (s2, e2)"
    and s2: "seatsOk (Ctx s2)"
    using checkPhaseEndIf_total [OF assms(1) s1, of e1] s1 by (cases "Gameover (Ctx s1) = VNil") auto
  define s3 where "s3 = (if Gameover (Ctx s2) = VNil then autoEndStagesByMaxMoves s2 else s2)"
  have s3: "seatsOk (Ctx s3)" using s2 by (simp add: s3_def)
  obtain s4 e4 where t: "(if Gameover (Ctx s3) = VNil then checkTurnAutoEnd game s3 mv e2 else Some (s3, e2)) = Some (s4, e4)"
    and s4: "seatsOk (Ctx s4)"
    using checkTurnAutoEnd_total [OF assms(1) s3, of mv e2] s3 by (cases "Gameover (Ctx s3) = VNil") auto
  have "endChecks game st mv pid env = Some (s4, e4)"
    using g p t [unfolded s3_def] by (simp add: endChecks_def Let_def)
  with s4 show ?thesis by blast
qed

lemma seatsOk_countMove [simp]: "seatsOk (Ctx (countMove mv pid st)) = seatsOk (Ctx st)"
  by (simp add: countMove_def bumpStageMoveCount_def)

lemma settleMove_total:
  assumes "ordersOk game" "quietHooks game" "seatsOk (Ctx st)"
  shows "\<exists>st' env'. settleMove game st mv pid mc env = Some (st', env') \<and> seatsOk (Ctx st')"
proof -
  obtain s0 mc0 env0 where on: "runOnMove game st mc env = (s0, mc0, env0)" using prod_cases3 by blast
  have "Ctx s0 = Ctx st"
    using on by (auto simp: runOnMove_def Let_def split: option.splits prod.splits)
  then have s0: "seatsOk (Ctx (countMove mv pid s0))" using assms(3) by simp
  obtain s1 mc1 env1 where d1: "drainEvents game (countMove mv pid s0) mc0 env0 = Some (s1, mc1, env1)" and s1: "seatsOk (Ctx s1)"
    using drainEvents_total [OF assms(1,2) s0] by blast
  obtain s2 env2 where e: "endChecks game s1 mv pid env1 = Some (s2, env2)" and s2: "seatsOk (Ctx s2)"
    using endChecks_total [OF assms(1) s1] by blast
  obtain s3 mc3 env3 where d2: "drainEvents game s2 mc1 env2 = Some (s3, mc3, env3)" and s3: "seatsOk (Ctx s3)"
    using drainEvents_total [OF assms(1,2) s2] by blast
  show ?thesis using on d1 e d2 s3 by (simp add: settleMove_def Let_def)
qed

lemma seatsOk_harvest [simp]: "seatsOk (Ctx (harvestQueue st q)) = seatsOk (Ctx st)"
  by (simp add: harvestQueue_def qDrain_def)

lemma applyStep_total:
  assumes "ordersOk game" "quietHooks game" "seatsOk (Ctx st)"
  shows "\<exists>r h'. applyStep game st action parentIdx h = Some (r, h') \<and> (\<forall>st'. r = Inr st' \<longrightarrow> seatsOk (Ctx st'))"
proof (cases "fst (resolveMove game (Ctx st) (authorizedStageDrain (Ctx st) (qaPlayerID action)) (qaMove action))")
  case (Inl e)
  then show ?thesis by (simp add: applyStep_def)
next
  case (Inr mv)
  then obtain f where f: "mvMove mv = Some f" using gameMoves_fn resolveMove_gameMoves by blast
  obtain apis h1 where api: "buildPluginAPIs game st (qaPlayerID action) h = (apis, h1)" by fastforce
  let ?mc = "\<lparr>mcG = G st, mcCtx = Ctx st, mcPlayerID = qaPlayerID action, mcPlugins = apis,
       mcQueue = Some emptyQueue, mcResumingBlock = None, mcExtra = [], mcChainedMoves = 0\<rparr>"
  obtain r ef h2 where call: "applyFnWrapMove game f ?mc (qaArgs action) h1 = (r, ef, h2)" using prod_cases3 by blast
  show ?thesis
  proof (cases r)
    case (Inl e)
    then show ?thesis using Inr f api call by (simp add: applyStep_def)
  next
    case g: (Inr g)
    let ?s = "st\<lparr>G := g, Log := Log st @ [stepEntry action (Ctx st) (authorizedStageDrain (Ctx st) (qaPlayerID action)) parentIdx]\<rparr>"
    obtain s0 h3 where fl: "flushPlugins game ?s (?mc\<lparr>mcG := g, mcExtra := loggedBy ?mc ef\<rparr>) h2 = (s0, h3)" by fastforce
    have s0: "seatsOk (Ctx s0)" using fl by (rule flushPlugins_fields) (use assms(3) in simp)
    show ?thesis
    proof (cases "validatePlugins game s0 h3")
      case None
      let ?env = "(perform ef h2 \<lparr>envEvents = [], envQueue = emptyQueue, envDrops = None, envPlugins = apis, envHeap = h1\<rparr>)\<lparr>envHeap := h3\<rparr>"
      obtain s1 m1 e1 where d: "drainEvents game s0 (?mc\<lparr>mcG := g, mcExtra := loggedBy ?mc ef\<rparr>) ?env = Some (s1, m1, e1)"
        and s1: "seatsOk (Ctx s1)"
        using drainEvents_total [OF assms(1,2) s0] by blast
      have "applyStep game st action parentIdx h =
          Some (Inr (harvestQueue (s1\<lparr>Log := Log s1 @ mcExtra m1\<rparr>) (envQueue e1)), envHeap e1)"
        using Inr f api call g fl None d by (simp add: applyStep_def Let_def perform_def)
      then show ?thesis using s1 by simp
    next
      case (Some e)
      then show ?thesis using Inr f api call g fl by (simp add: applyStep_def Let_def perform_def)
    qed
  qed
qed

lemma cascadeLoop_total:
  assumes "ordersOk game" "quietHooks game"
  shows "seatsOk (Ctx st) \<Longrightarrow>
    \<exists>r h'. cascadeLoop game parentIdx n st h = Some (r, h') \<and> (\<forall>st'. r = Inr st' \<longrightarrow> seatsOk (Ctx st'))"
proof (induction n arbitrary: st h)
  case 0
  then show ?case by (cases "quiescent st") (simp_all add: cascadeLoop_done cascadeLoop_0)
next
  case (Suc n)
  show ?case
  proof (cases "quiescent st")
    case True
    then show ?thesis using Suc.prems by (simp add: cascadeLoop_done)
  next
    case False
    obtain r h1 where s: "applyStep game (st\<lparr>Queue := tl (Queue st)\<rparr>) (hd (Queue st)) parentIdx h = Some (r, h1)"
      and ok: "\<forall>st'. r = Inr st' \<longrightarrow> seatsOk (Ctx st')"
      using applyStep_total [OF assms, of "st\<lparr>Queue := tl (Queue st)\<rparr>" "hd (Queue st)" parentIdx h] Suc.prems
      by auto
    show ?thesis using False s ok Suc.IH by (cases r) (auto simp: cascadeLoop_Suc)
  qed
qed

lemma drainCascade_total:
  assumes "ordersOk game" "quietHooks game" "seatsOk (Ctx st)"
  shows "\<exists>st' err h'. drainCascade game st q parentIdx h = Some (st', err, h') \<and> seatsOk (Ctx st')"
proof (cases "quiescent (harvestQueue st q)")
  case True
  then show ?thesis using assms(3) by (simp add: drainCascade_def)
next
  case False
  obtain r h1 where "cascadeLoop game parentIdx MaxDrainDepth (ownContainers (harvestQueue st q)) h = Some (r, h1)"
    "\<forall>st'. r = Inr st' \<longrightarrow> seatsOk (Ctx st')"
    using cascadeLoop_total [OF assms(1,2), of "ownContainers (harvestQueue st q)" parentIdx MaxDrainDepth h] assms(3)
    by auto
  then show ?thesis using False assms(3) by (cases r) (auto simp: drainCascade_def Let_def)
qed

lemma runMove_total:
  assumes "ordersOk game" "quietHooks game" "seatsOk (Ctx st)" "mv \<in> gameMoves game"
  shows "\<exists>r h'. runMove game st mv resuming req h = Some (r, h') \<and> (\<forall>st'. r = Inr st' \<longrightarrow> seatsOk (Ctx st'))"
proof -
  obtain f where f: "mvMove mv = Some f" using gameMoves_fn [OF assms(4)] by blast
  obtain apis h1 where api: "buildPluginAPIs game (ownContainers st) (rqPlayerID req) h = (apis, h1)" by fastforce
  define mc where "mc = \<lparr>mcG = G st, mcCtx = Ctx (ownContainers st), mcPlayerID = rqPlayerID req, mcPlugins = apis,
       mcQueue = Some emptyQueue, mcResumingBlock = resuming, mcExtra = [], mcChainedMoves = 0\<rparr>"
  define undoable where "undoable = (IsUndoable mv mc h1 \<and> \<not> gmDisableUndo game)"
  obtain r ef h2 where call: "applyFnWrapMove game f mc (rqArgs req) h1 = (r, ef, h2)" using prod_cases3 by blast
  show ?thesis
  proof (cases r)
    case (Inl e)
    then show ?thesis using f api call [unfolded mc_def] by (simp add: runMove_def Let_def)
  next
    case g: (Inr g)
    define s where "s = (ownContainers st)\<lparr>G := g, StateID := StateID st + 1,
         Log := Log st @ [moveEntry req (Ctx (ownContainers st)) (IsRedacted mv mc h1) undoable], Undone := [],
         TurnSnapshots := TurnSnapshots st @ (if undoable then [cloneStateForSnapshot (ownContainers st)] else [])\<rparr>"
    obtain s0 h3 where fl: "flushPlugins game s (mc\<lparr>mcG := g, mcExtra := loggedBy mc ef\<rparr>) h2 = (s0, h3)" by fastforce
    have s0: "seatsOk (Ctx s0)" using fl by (rule flushPlugins_fields) (use assms(3) in \<open>simp add: s_def\<close>)
    note facts = f api call [unfolded g mc_def] fl [unfolded s_def undoable_def mc_def]
    show ?thesis
    proof (cases "validatePlugins game s0 h3")
      case (Some e)
      then show ?thesis using facts by (simp add: runMove_def Let_def perform_def)
    next
      case None
      define env where "env = (perform ef h2 \<lparr>envEvents = [], envQueue = emptyQueue, envDrops = Some [],
        envPlugins = apis, envHeap = h1\<rparr>)\<lparr>envHeap := h3\<rparr>"
      obtain s1 env1 where st: "settleMove game s0 mv (rqPlayerID req) (mc\<lparr>mcG := g, mcExtra := loggedBy mc ef\<rparr>) env = Some (s1, env1)"
        and s1: "seatsOk (Ctx s1)"
        using settleMove_total [OF assms(1,2) s0] by blast
      obtain s2 err h4 where c: "drainCascade game s1 (envQueue env1) (int (length (Log st))) (envHeap env1) = Some (s2, err, h4)"
        and s2: "seatsOk (Ctx s2)"
        using drainCascade_total [OF assms(1,2) s1] by blast
      show ?thesis
        using facts None st [unfolded env_def mc_def] c s2
        by (auto simp: runMove_def Let_def perform_def split: option.splits)
    qed
  qed
qed

lemma admit_keeps:
  assumes "admit game st req = Inr (st', mv, resuming)"
  shows "\<exists>blocks. takeBlock (Blocks st) req = Inr (resuming, blocks) \<and>
      st' = st\<lparr>Ctx := (Ctx st)\<lparr>NowMs := rqNowMs req\<rparr>, Blocks := blocks\<rparr> \<and> mv \<in> gameMoves game \<and>
      Gameover (Ctx st) = VNil"
proof -
  obtain resuming' blocks where t: "takeBlock (Blocks st) req = Inr (resuming', blocks)"
    using assms by (cases "takeBlock (Blocks st) req") (auto simp: admit_def split: if_splits)
  obtain stage authErr where a: "authorizedStage ((Ctx st)\<lparr>NowMs := rqNowMs req\<rparr>) (rqPlayerID req) = (stage, authErr)"
    by fastforce
  obtain rm inStage where r: "resolveMove game ((Ctx st)\<lparr>NowMs := rqNowMs req\<rparr>) stage (rqMove req) = (rm, inStage)" by fastforce
  obtain mv' where m: "rm = Inr mv'"
    using assms t a r by (cases rm) (auto simp: admit_def Let_def split: if_splits option.splits)
  have "st' = st\<lparr>Ctx := (Ctx st)\<lparr>NowMs := rqNowMs req\<rparr>, Blocks := blocks\<rparr> \<and> mv' = mv \<and> resuming' = resuming \<and> Gameover (Ctx st) = VNil"
    using assms t a r m by (auto simp: admit_def Let_def split: if_splits)
  with t r m resolveMove_gameMoves [of game "(Ctx st)\<lparr>NowMs := rqNowMs req\<rparr>" stage "rqMove req" mv'] show ?thesis by auto
qed

section \<open>The checks\<close>

text \<open>
  The stated rules. A seat may act if it is in the active set or, without one, if it is the
  current player; a prompt may be answered by the player it addresses, with its tag and, when
  it names one, with its move.
\<close>

definition seatMayAct :: "ctx \<Rightarrow> string \<Rightarrow> bool" where
  "seatMayAct c pid \<longleftrightarrow> (case ActivePlayers c of Some ap \<Rightarrow> map_of ap pid \<noteq> None | None \<Rightarrow> pid = CurrentPlayer c)"

definition stageOf :: "ctx \<Rightarrow> string \<Rightarrow> string" where
  "stageOf c pid = (case mget (ActivePlayers c) pid of Some s \<Rightarrow> s | None \<Rightarrow> '''')"

definition answers :: "moveRequest \<Rightarrow> blockSpec \<Rightarrow> bool" where
  "answers req b \<longleftrightarrow> rqResumeTag req \<noteq> '''' \<and> bTag b = rqResumeTag req \<and> bPlayerID b = rqPlayerID req \<and>
     (bMove b = '''' \<or> bMove b = rqMove req)"

definition answered :: "'g state \<Rightarrow> moveRequest \<Rightarrow> blockSpec option" where
  "answered st req = find (answers req) (Blocks st)"

definition mayApply :: "('g, 'h) game \<Rightarrow> 'g state \<Rightarrow> moveRequest \<Rightarrow> ('g, 'h) move \<Rightarrow> bool" where
  "mayApply game st req m \<longleftrightarrow>
     Gameover (Ctx st) = VNil \<and>
     (\<exists>inStage. resolveMove game (Ctx st) (stageOf (Ctx st) (rqPlayerID req)) (rqMove req) = (Inr m, inStage) \<and>
        (isExclusive game (Phase (Ctx st)) (stageOf (Ctx st) (rqPlayerID req)) \<and> stageOf (Ctx st) (rqPlayerID req) \<noteq> '''' \<longrightarrow>
           inStage \<or> mvAnyPlayer m \<or> mvIgnoreBlocks m \<or> rqServerDispatch req \<or>
           (\<exists>b. answered st req = Some b \<and> bMove b \<noteq> ''''))) \<and>
     (rqFromClient req \<longrightarrow> \<not> mvServerOnly m) \<and>
     (rqResumeTag req \<noteq> '''' \<longrightarrow> answered st req \<noteq> None) \<and>
     (Blocks st \<noteq> [] \<longrightarrow> answered st req \<noteq> None \<or> mvIgnoreBlocks m) \<and>
     (seatMayAct (Ctx st) (rqPlayerID req) \<or> mvAnyPlayer m \<or> answered st req \<noteq> None) \<and>
     (0 < rqStateID req \<longrightarrow> rqStateID req = StateID st \<or> mvIgnoreStaleStateID m)"

lemma find_eq_find_index: "find P xs = map_option ((!) xs) (find_index P xs)"
  by (induction xs) (auto simp: option.map_comp comp_def)

lemma takeBlock_answered:
  "takeBlock (Blocks st) req =
     (if rqResumeTag req = '''' then Inr (None, Blocks st)
      else case find_index (answers req) (Blocks st) of
        None \<Rightarrow> Inl ErrUnknownResumeTag
      | Some i \<Rightarrow> Inr (answered st req, remove_at i (Blocks st)))"
proof -
  have "findBlock (Blocks st) (rqResumeTag req) (rqPlayerID req) (rqMove req) = find_index (answers req) (Blocks st)"
    if "rqResumeTag req \<noteq> ''''"
  proof -
    have "answers req = (\<lambda>b. bTag b = rqResumeTag req \<and> bPlayerID b = rqPlayerID req \<and>
        (bMove b = '''' \<or> bMove b = rqMove req))"
      using that by (simp add: fun_eq_iff answers_def)
    then show ?thesis by (simp add: findBlock_def)
  qed
  then show ?thesis
    by (auto simp: takeBlock_def answered_def find_eq_find_index split: option.splits)
qed

lemma answered_None_untagged: "rqResumeTag req = '''' \<Longrightarrow> answered st req = None"
  by (simp add: answered_def answers_def find_None_iff)

lemma authorizedStage_spec:
  "authorizedStage c pid = (stageOf c pid, err) \<Longrightarrow> err = None \<longleftrightarrow> seatMayAct c pid"
  "fst (authorizedStage c pid) = stageOf c pid"
  by (auto simp: authorizedStage_def seatMayAct_def stageOf_def split: option.splits if_splits)

lemma ctx_NowMs_irrelevant [simp]:
  "resolveMove game (c\<lparr>NowMs := n\<rparr>) = resolveMove game c" "authorizedStage (c\<lparr>NowMs := n\<rparr>) = authorizedStage c"
  by (auto simp: fun_eq_iff resolveMove_def authorizedStage_def split: option.splits)

lemma admit_rules:
  "(\<exists>st' resuming. admit game st req = Inr (st', m, resuming)) \<longleftrightarrow> mayApply game st req m"
proof -
  obtain stage authErr where auth: "authorizedStage (Ctx st) (rqPlayerID req) = (stage, authErr)" by fastforce
  have stage: "stage = stageOf (Ctx st) (rqPlayerID req)" using authorizedStage_spec(2) auth by (metis fst_conv)
  have may: "authErr = None \<longleftrightarrow> seatMayAct (Ctx st) (rqPlayerID req)"
    using authorizedStage_spec(1) auth stage by blast
  obtain rm inStage where rm: "resolveMove game (Ctx st) stage (rqMove req) = (rm, inStage)" by fastforce
  show ?thesis
  proof (cases "rqResumeTag req = ''''")
    case True
    then have "takeBlock (Blocks st) req = Inr (None, Blocks st)" by (simp add: takeBlock_def)
    then show ?thesis
      using auth rm stage may True answered_None_untagged [OF True, of st]
      by (cases rm) (auto simp: admit_def mayApply_def Let_def exemptionsFor_def split: option.splits)
  next
    case tag: False
    show ?thesis
    proof (cases "find_index (answers req) (Blocks st)")
      case None
      then show ?thesis using tag
        by (auto simp: admit_def mayApply_def takeBlock_answered answered_def find_eq_find_index)
    next
      case (Some i)
      then obtain b where b: "answered st req = Some b" by (simp add: answered_def find_eq_find_index)
      have "takeBlock (Blocks st) req = Inr (Some b, remove_at i (Blocks st))"
        using tag Some b by (simp add: takeBlock_answered)
      then show ?thesis
        using auth rm stage may tag b
        by (cases rm) (auto simp: admit_def mayApply_def Let_def exemptionsFor_def split: option.splits)
    qed
  qed
qed

text \<open>
  C4. The checks admit exactly the requests the rules allow: the game is on; the name resolves
  to a move, in the player's stage first; a client does not make a ServerOnly move; a resume
  tag answers a pending prompt, and with prompts pending every other move but an IgnoreBlocks
  one is refused; the seat may act, or the move is AnyPlayer, or the player answers a prompt;
  the client's state id is current; and an exclusive stage holds its players to its own
  moves, but for AnyPlayer, IgnoreBlocks and server-dispatched moves and named answers.
\<close>

theorem admit_iff_mayApply:
  "(\<exists>st' resuming. admit game st req = Inr (st', m, resuming)) \<longleftrightarrow> mayApply game st req m"
  by (rule admit_rules)

section \<open>What Apply returns\<close>

lemma Apply_success:
  assumes "Apply game st req h = Some (st', None, h')"
  obtains s mv resuming where "admit game st req = Inr (s, mv, resuming)" "runMove game s mv resuming req h = Some (Inr st', h')"
proof -
  obtain r where r: "applyExternal game st req h = Some (r, h')" "r = Inr st'"
    using assms by (auto simp: Apply_def ApplyContext_def case_prod_eq_iff case_sum_eq_iff)
  obtain s mv resuming where a: "admit game st req = Inr (s, mv, resuming)"
    using r by (cases "admit game st req") (auto simp: applyExternal_def)
  with r show ?thesis using that [OF a] by (simp add: applyExternal_def)
qed

lemma Apply_failure:
  "Apply game st req h = Some (st', Some e, h') \<Longrightarrow> st' = st"
  by (auto simp: Apply_def ApplyContext_def case_prod_eq_iff case_sum_eq_iff)

lemma Apply_refused: "admit game st req = Inl e \<Longrightarrow> Apply game st req h = Some (st, Some e, h)"
  by (simp add: Apply_def ApplyContext_def applyExternal_def)

text \<open>What an accepted move leaves of the state it was applied to, taken step by step.\<close>

lemma Apply_frame:
  assumes ok: "Apply game st req h = Some (st', None, h')" and logs: "logsOk P game" "engineLogs P"
  shows "\<exists>e xs drops bs i s. Log st' = Log st @ e # xs \<and> list_all P xs \<and>
      s = st\<lparr>Ctx := (Ctx st)\<lparr>NowMs := rqNowMs req\<rparr>, Blocks := bs\<rparr> \<and> Undone st' = [] \<and>
      (TurnSnapshots st' = [] \<or> TurnSnapshots st' = TurnSnapshots st \<or>
       TurnSnapshots st' = TurnSnapshots st @ [cloneStateForSnapshot (ownContainers s)]) \<and>
      (\<exists>c u r. e = moveEntry req c r u \<and> Turn c = Turn (Ctx st) \<and> Phase c = Phase (Ctx st)) \<and>
      StateID st + 1 \<le> StateID st' \<and> quiescent st' \<and>
      Seed (Ctx st') = Seed (Ctx st) \<and> NowMs (Ctx st') = rqNowMs req \<and>
      takeBlock (Blocks st) req = Inr (i, bs) \<and>
      (\<exists>new. Blocks st' = withoutBlocksFor bs drops @ new)"
proof -
  obtain s mv resuming where adm: "admit game st req = Inr (s, mv, resuming)"
    and run: "runMove game s mv resuming req h = Some (Inr st', h')"
    using ok by (rule Apply_success)
  obtain blocks where t: "takeBlock (Blocks st) req = Inr (resuming, blocks)"
    and s: "s = st\<lparr>Ctx := (Ctx st)\<lparr>NowMs := rqNowMs req\<rparr>, Blocks := blocks\<rparr>" and mv: "mv \<in> gameMoves game"
    using admit_keeps [OF adm] by blast
  obtain f h1 h2 g ef undoable redact p env s1 env1 and mc :: "'a moveContext" where f: "mvMove mv = Some f"
    and call: "applyFnWrapMove game f mc (rqArgs req) h1 = (Inr g, ef, h2)"
    and settle: "settleMove game ((ownContainers s)\<lparr>G := g, StateID := StateID s + 1,
         Log := Log s @ [moveEntry req (Ctx (ownContainers s)) redact undoable], Undone := [],
         TurnSnapshots := TurnSnapshots s @ (if undoable then [cloneStateForSnapshot (ownContainers s)] else []),
         Plugins := p\<rparr>) mv (rqPlayerID req) (mc\<lparr>mcG := g, mcExtra := loggedBy mc ef\<rparr>) env = Some (s1, env1)"
    and casc: "drainCascade game s1 (envQueue env1) (int (length (Log s))) (envHeap env1) = Some (st', None, h')"
    using run by (rule runMove_cases)
  have "list_all P (loggedBy mc ef)" using logs(1) mv f call by (rule logsMove_wrapped)
  from settleMove_frame [OF settle logs] this obtain xs where
    s1: "Log s1 = Log st @ moveEntry req (Ctx (ownContainers s)) redact undoable # xs" "list_all P xs"
      "StateID st + 1 \<le> StateID s1" "Seed (Ctx s1) = Seed (Ctx st)" "NowMs (Ctx s1) = rqNowMs req"
      "Blocks s1 = withoutBlocksFor blocks (case envDrops env1 of Some d \<Rightarrow> d | None \<Rightarrow> [])"
      "Undone s1 = []" "TurnSnapshots s1 = [] \<or> TurnSnapshots s1 = TurnSnapshots st \<or>
         TurnSnapshots s1 = TurnSnapshots st @ [cloneStateForSnapshot (ownContainers s)]"
    by (auto simp: s undoKept_def split: if_splits)
  have "logGrows P s1 st' \<and> quiescent st'"
    using drainCascade_success [OF casc logs] logGrows_harvest logGrows_trans by blast
  then obtain ys new where "quiescent st'" "Log st' = Log s1 @ ys" "list_all P ys" "StateID s1 \<le> StateID st'"
    "Seed (Ctx st') = Seed (Ctx s1)" "NowMs (Ctx st') = NowMs (Ctx s1)" "Blocks st' = Blocks s1 @ new" "undoKept s1 st'"
    by (auto simp: logGrows_def)
  moreover have "Undone st' = []" "TurnSnapshots st' = [] \<or> TurnSnapshots st' = TurnSnapshots st \<or>
         TurnSnapshots st' = TurnSnapshots st @ [cloneStateForSnapshot (ownContainers s)]"
    using s1(7,8) calculation(8) by (auto simp: undoKept_def)
  moreover have "\<exists>c u r. moveEntry req (Ctx (ownContainers s)) redact undoable = moveEntry req c r u \<and>
      Turn c = Turn (Ctx st) \<and> Phase c = Phase (Ctx st)"
    by (rule exI [of _ "Ctx (ownContainers s)"]) (auto simp: s)
  ultimately show ?thesis using s1 t
    by (intro exI [of _ "moveEntry req (Ctx (ownContainers s)) redact undoable"] exI [of _ "xs @ ys"]
        exI [of _ "case envDrops env1 of Some d \<Rightarrow> d | None \<Rightarrow> []"] exI [of _ blocks] exI [of _ resuming] exI [of _ s])
      (auto simp: list_all_append s)
qed

text \<open>
  C2. Apply always returns, and atomically. In a game whose turn orders meet their contract
  and whose hooks queue no events, Apply on a well-seated match neither panics nor hangs,
  whatever the moves do. On an error the state is the one it was given. Otherwise the state
  is well seated and settled (nothing queued, or a prompt pending, or the game over), the
  state id has grown and the log has been extended.
\<close>

theorem Apply_total_and_atomic:
  assumes "ordersOk game" "quietHooks game" "seatsOk (Ctx st)"
  shows "\<exists>st' err h'. Apply game st req h = Some (st', err, h') \<and> seatsOk (Ctx st') \<and>
    (err \<noteq> None \<longrightarrow> st' = st) \<and>
    (err = None \<longrightarrow> quiescent st' \<and> StateID st < StateID st' \<and> length (Log st) < length (Log st'))"
proof (cases "admit game st req")
  case (Inl e)
  then show ?thesis using assms(3) by (auto simp: Apply_refused)
next
  case (Inr adm)
  then obtain s mv resuming where a: "admit game st req = Inr (s, mv, resuming)" by (cases adm) auto
  have "seatsOk (Ctx s)" "mv \<in> gameMoves game" using admit_keeps [OF a] assms(3) by auto
  then obtain r h' where run: "runMove game s mv resuming req h = Some (r, h')"
    and seats: "\<forall>st'. r = Inr st' \<longrightarrow> seatsOk (Ctx st')"
    using runMove_total [OF assms(1,2)] by blast
  then have app: "Apply game st req h = Some (case r of Inl e \<Rightarrow> (st, Some e, h') | Inr st' \<Rightarrow> (st', None, h'))"
    using a by (simp add: Apply_def ApplyContext_def applyExternal_def)
  show ?thesis
  proof (cases r)
    case (Inl e)
    then show ?thesis using app assms(3) by simp
  next
    case st': (Inr st')
    with app have "Apply game st req h = Some (st', None, h')" by simp
    from Apply_frame [OF this, of "\<lambda>_. True"] this st' seats show ?thesis by (auto simp: engineLogs_def)
  qed
qed

theorem Apply_total_and_atomic_witness:
  "\<exists>st' err h'. Apply chainGame (seatedState 0 [''0'', ''1''] 0)
      \<lparr>rqPlayerID = ''0'', rqMove = ''chain'', rqArgs = [], rqStateID = 0, rqResumeTag = '''', rqNowMs = 0,
       rqServerDispatch = False, rqFromClient = True\<rparr> () = Some (st', err, h') \<and> seatsOk (Ctx st')"
  using Apply_total_and_atomic [of chainGame "seatedState 0 [''0'', ''1''] 0"
      "\<lparr>rqPlayerID = ''0'', rqMove = ''chain'', rqArgs = [], rqStateID = 0, rqResumeTag = '''', rqNowMs = 0,
       rqServerDispatch = False, rqFromClient = True\<rparr>" "()"]
  by (auto simp: chainGame_def ordersOk_def quietHooks_def gameHooks_def stageConfigs_def phaseConfigs_def
      turnConfigs_def blankGame_def seatedState_def seatsOk_def blankCtx_def blankState_def)

text \<open>
  A request the rules do not allow has no effect at all: Apply returns the given state and
  an error, and no game code has run, so the memory is untouched.
\<close>

theorem Apply_refuses_without_effect:
  assumes "\<And>m. \<not> mayApply game st req m"
  shows "\<exists>e. Apply game st req h = Some (st, Some e, h)"
proof (cases "admit game st req")
  case (Inl e)
  then show ?thesis by (auto simp: Apply_refused)
next
  case (Inr adm)
  then obtain s m resuming where "admit game st req = Inr (s, m, resuming)" by (cases adm) auto
  then have "mayApply game st req m" using admit_rules by blast
  with assms show ?thesis by blast
qed

definition request :: "string \<Rightarrow> string \<Rightarrow> goval list \<Rightarrow> moveRequest" where
  "request pid mv args = \<lparr>rqPlayerID = pid, rqMove = mv, rqArgs = args, rqStateID = 0, rqResumeTag = '''',
     rqNowMs = 0, rqServerDispatch = False, rqFromClient = False\<rparr>"

theorem Apply_refuses_without_effect_witness:
  "\<exists>e. Apply chainGame (seatedState 0 [''0'', ''1''] 0) (request ''1'' ''chain'' []) () =
     Some (seatedState 0 [''0'', ''1''] 0, Some e, ())"
  by (rule Apply_refuses_without_effect)
    (auto simp: mayApply_def chainGame_def blankGame_def seatedState_def blankState_def blankCtx_def request_def
      seatMayAct_def answered_def stageOf_def resolveMove_def stageEntry_def scopeMoves_def mkMove_def)

text \<open>
  C6. The log is a faithful record. An accepted move appends its own entry first, carrying the
  request's player, move, arguments, time, resume tag and dispatch authority with the turn
  and phase it was made in, and below it only entries that are not moves, as long as game
  code itself never logs an entry of kind \<open>move\<close>. Earlier entries are untouched and the
  match seed never changes.
\<close>

theorem Apply_logs_the_move:
  assumes "Apply game st req h = Some (st', None, h')" "logsOk (\<lambda>e. leKind e \<noteq> ''move'') game"
  shows "\<exists>e xs. Log st' = Log st @ e # xs \<and> list_all (\<lambda>e. leKind e \<noteq> ''move'') xs \<and>
    leKind e = ''move'' \<and> leMove e = rqMove req \<and> lePlayerID e = rqPlayerID req \<and> leArgs e = rqArgs req \<and>
    leNowMs e = rqNowMs req \<and> leResumeTag e = rqResumeTag req \<and> leServerDispatch e = rqServerDispatch req \<and>
    leParent e = -1 \<and> leTurn e = Turn (Ctx st) \<and> lePhase e = Phase (Ctx st) \<and> Seed (Ctx st') = Seed (Ctx st)"
proof -
  have "engineLogs (\<lambda>e. leKind e \<noteq> ''move'')" by (auto simp: engineLogs_def)
  from Apply_frame [OF assms this] obtain e xs c u r where
    "Log st' = Log st @ e # xs" "list_all (\<lambda>e. leKind e \<noteq> ''move'') xs" "e = moveEntry req c r u"
    "Turn c = Turn (Ctx st)" "Phase c = Phase (Ctx st)" "Seed (Ctx st') = Seed (Ctx st)"
    by blast
  then show ?thesis by (intro exI [of _ e] exI [of _ xs]) (simp add: moveEntry_def)
qed

text \<open>A counter game: each player may bump the counter or push a second bump behind it.\<close>

definition bump :: "(nat, unit) moveFn" where
  "bump mc args h = (Inr (Suc (mcG mc)), noEffects, h)"

definition bumpTwice :: "(nat, unit) moveFn" where
  "bumpTwice mc args h =
     (Inr (Suc (mcG mc)), noEffects\<lparr>efOps := [OpPush (mcPlayerID mc) ''bump'' []], efEvents := [EvEndTurn '''']\<rparr>, h)"

definition pushBump :: "(nat, unit) moveFn" where
  "pushBump mc args h =
     (Inr (Suc (mcG mc)), noEffects\<lparr>efOps := [OpPush (mcPlayerID mc) ''bump'' []]\<rparr>, h)"

definition askBoth :: "(nat, unit) moveFn" where
  "askBoth mc args h =
     (Inr (mcG mc), noEffects\<lparr>efOps := [OpBlock ''pay'' ''0'' VNil [], OpBlock ''pay'' ''1'' VNil []]\<rparr>, h)"

definition counterGame :: "(nat, unit) game" where
  "counterGame = (blankGame 0)\<lparr>gmMoves := Some [(''bump'', RawFn bump), (''twice'', RawFn bumpTwice), (''ask'', RawFn askBoth),
     (''push'', RawFn pushBump)]\<rparr>"

definition counterState :: "nat state" where
  "counterState = seatedState 0 [''0'', ''1''] 0"

lemma counterGame_logs [simp]: "logsOk P counterGame"
  by (auto simp: logsOk_def gameHooks_def gameMoves_def moveTables_def stageConfigs_def phaseConfigs_def turnConfigs_def
      counterGame_def blankGame_def mkMove_def logsMove_def bump_def bumpTwice_def askBoth_def pushBump_def applyFnWrapMove_def
      noEffects_def loggedBy_def)

lemma counterGame_accepts:
  "\<exists>st' h'. Apply counterGame counterState (request ''0'' ''twice'' []) () = Some (st', None, h')"
proof -
  have "map_option (\<lambda>(st, e, h). e) (Apply counterGame counterState (request ''0'' ''twice'' []) ()) = Some None"
    by code_simp
  then show ?thesis by auto
qed

theorem Apply_logs_the_move_witness:
  "\<exists>st' h' e xs. Apply counterGame counterState (request ''0'' ''twice'' []) () = Some (st', None, h') \<and>
     Log st' = Log counterState @ e # xs \<and> leMove e = ''twice'' \<and> leParent e = -1"
proof -
  obtain st' h' where ok: "Apply counterGame counterState (request ''0'' ''twice'' []) () = Some (st', None, h')"
    using counterGame_accepts by blast
  from Apply_logs_the_move [OF ok counterGame_logs] obtain e xs where
    "Log st' = Log counterState @ e # xs" "leMove e = rqMove (request ''0'' ''twice'' [])" "leParent e = -1"
    by blast
  with ok show ?thesis by (auto simp: request_def)
qed

text \<open>The prompts that remain after the one a request answers, if it answers one.\<close>

definition remaining :: "'g state \<Rightarrow> moveRequest \<Rightarrow> blockSpec list" where
  "remaining st req = (case find_index (answers req) (Blocks st) of Some i \<Rightarrow> remove_at i (Blocks st) | None \<Rightarrow> Blocks st)"

definition askedState :: "nat state" where
  "askedState = counterState\<lparr>Blocks := [blankBlock\<lparr>bTag := ''pay'', bPlayerID := ''0''\<rparr>, blankBlock\<lparr>bTag := ''pay'', bPlayerID := ''1''\<rparr>]\<rparr>"

definition payRequest :: moveRequest where
  "payRequest = (request ''1'' ''bump'' [])\<lparr>rqResumeTag := ''pay''\<rparr>"

text \<open>Two prompts raised at once are answered one at a time, and hold off every other move.\<close>

lemma counterGame_prompts:
  "map_option (\<lambda>(st, e, h). (map bPlayerID (Blocks st), e)) (Apply counterGame counterState (request ''0'' ''ask'' []) ()) =
     Some ([''0'', ''1''], None)"
  by code_simp

text \<open>Exactly \<open>n\<close> steps of a cascade, each taken from an unsettled state and successful.\<close>

fun cascadeSteps :: "('g, 'h) game \<Rightarrow> int \<Rightarrow> nat \<Rightarrow> 'g state \<Rightarrow> 'h \<Rightarrow> ('g state \<times> 'h) option" where
  "cascadeSteps game parentIdx 0 s h = Some (s, h)"
| "cascadeSteps game parentIdx (Suc n) s h =
     (if quiescent s then None
      else case applyStep game (s\<lparr>Queue := tl (Queue s)\<rparr>) (hd (Queue s)) parentIdx h of
        Some (Inr s', h') \<Rightarrow> cascadeSteps game parentIdx n s' h'
      | _ \<Rightarrow> None)"

lemma cascadeLoop_steps:
  "cascadeSteps game parentIdx n s h = Some (s', h') \<Longrightarrow> cascadeLoop game parentIdx (n + m) s h = cascadeLoop game parentIdx m s' h'"
proof (induction n arbitrary: s h)
  case (Suc n)
  then obtain s1 h1 where "\<not> quiescent s" "applyStep game (s\<lparr>Queue := tl (Queue s)\<rparr>) (hd (Queue s)) parentIdx h = Some (Inr s1, h1)"
    "cascadeSteps game parentIdx n s1 h1 = Some (s', h')"
    by (auto split: if_splits option.splits sum.splits)
  then show ?case using Suc.IH by (simp add: cascadeLoop_Suc)
qed simp

lemma cascadeSteps_unsettled:
  assumes step: "\<And>s h. R s \<Longrightarrow> \<not> quiescent s \<and> (\<exists>s' h'. applyStep game (s\<lparr>Queue := tl (Queue s)\<rparr>) (hd (Queue s)) parentIdx h =
      Some (Inr s', h') \<and> R s')"
  shows "R s \<Longrightarrow> \<exists>s' h'. cascadeSteps game parentIdx n s h = Some (s', h') \<and> R s'"
proof (induction n arbitrary: s h)
  case (Suc n)
  then show ?case using step [OF Suc.prems, of h] Suc.IH by fastforce
qed simp


text \<open>A move that pushes itself again: the cascade never settles.\<close>

definition forever :: "(nat, unit) moveFn" where
  "forever mc args h = (Inr (mcG mc), noEffects\<lparr>efOps := [OpPush (mcPlayerID mc) ''forever'' []]\<rparr>, h)"

definition foreverGame :: "(nat, unit) game" where
  "foreverGame = (blankGame 0)\<lparr>gmMoves := Some [(''forever'', RawFn forever)]\<rparr>"

text \<open>
  C37. A cascade runs to its end or not at all, and the limit is exact. Suppose the cascade has made
  \<open>n\<close> successful steps, \<open>n\<close> at most MaxDrainDepth. If it has then settled, the drain returns that
  state without an error, also at the limit itself. If it has not settled and \<open>n\<close> is MaxDrainDepth, no
  further step is run (the memory is the one after exactly \<open>n\<close> steps), the drain fails with
  ErrDrainOverflow, and if the next step fails below the limit it fails with that step's error; in
  both cases it hands back the state as it was before the first step, the queued actions
  still queued.
\<close>

theorem cascade_limit_is_exact:
  assumes run: "cascadeSteps game parentIdx n (ownContainers (harvestQueue st q)) h = Some (s', h')" "n \<le> MaxDrainDepth"
    and start: "\<not> quiescent (harvestQueue st q)"
  shows "(quiescent s' \<longrightarrow> drainCascade game st q parentIdx h = Some (s', None, h')) \<and>
    (\<not> quiescent s' \<and> n = MaxDrainDepth \<longrightarrow> drainCascade game st q parentIdx h = Some (harvestQueue st q, Some ErrDrainOverflow, h')) \<and>
    (\<not> quiescent s' \<and> n < MaxDrainDepth \<longrightarrow>
       (\<forall>e h''. applyStep game (s'\<lparr>Queue := tl (Queue s')\<rparr>) (hd (Queue s')) parentIdx h' = Some (Inl e, h'') \<longrightarrow>
          drainCascade game st q parentIdx h = Some (harvestQueue st q, Some e, h'')))"
proof -
  obtain m where m: "MaxDrainDepth = n + m" using run(2) le_Suc_ex by blast
  have loop: "drainCascade game st q parentIdx h = map_option (\<lambda>(r, h). case r of Inl e \<Rightarrow> (harvestQueue st q, Some e, h) | Inr st' \<Rightarrow> (st', None, h))
      (cascadeLoop game parentIdx m s' h')"
    using start cascadeLoop_steps [OF run(1), of m] by (auto simp: drainCascade_def m map_option_case split: option.splits sum.splits)
  have "cascadeLoop game parentIdx m s' h' = Some (Inl e, h'')"
    if "\<not> quiescent s'" "n < MaxDrainDepth" "applyStep game (s'\<lparr>Queue := tl (Queue s')\<rparr>) (hd (Queue s')) parentIdx h' = Some (Inl e, h'')" for e h''
    using that m by (cases m) (simp_all add: cascadeLoop_Suc)
  then show ?thesis using m by (auto simp: loop cascadeLoop_done cascadeLoop_0)
qed


definition foreverRunning :: "nat state \<Rightarrow> bool" where
  "foreverRunning s \<longleftrightarrow> Queue s = [\<lparr>qaPlayerID = ''0'', qaMove = ''forever'', qaArgs = []\<rparr>] \<and> Blocks s = [] \<and>
     Gameover (Ctx s) = VNil \<and> Phase (Ctx s) = '''' \<and> ActivePlayers (Ctx s) = None"

lemma forever_step:
  assumes "foreverRunning s"
  shows "\<not> quiescent s \<and> (\<exists>s' h'. applyStep foreverGame (s\<lparr>Queue := tl (Queue s)\<rparr>) (hd (Queue s)) parentIdx h =
      Some (Inr s', h') \<and> foreverRunning s')"
  using assms
  by (simp add: foreverRunning_def quiescent_def applyStep_def authorizedStageDrain_def resolveMove_def stageEntry_def
      scopeMoves_def foreverGame_def blankGame_def mkMove_def buildPluginAPIs_def applyFnWrapMove_def forever_def
      flushPlugins_def validatePlugins_def drainEvents_done perform_def noEffects_def harvestQueue_def qDrain_def
      qPush_def emptyQueue_def loggedBy_def)

theorem cascade_limit_is_exact_witness:
  "\<exists>h'. drainCascade foreverGame counterState (qPush ''0'' ''forever'' [] emptyQueue) 0 () =
     Some (harvestQueue counterState (qPush ''0'' ''forever'' [] emptyQueue), Some ErrDrainOverflow, h')"
proof -
  let ?st = "harvestQueue counterState (qPush ''0'' ''forever'' [] emptyQueue)"
  have r: "foreverRunning (ownContainers ?st)" "foreverRunning ?st"
    by (simp_all add: foreverRunning_def counterState_def seatedState_def blankState_def blankCtx_def
        harvestQueue_def qDrain_def qPush_def emptyQueue_def ownContainers_def copyStrMap_def copyMap_def)
  obtain s' h' where run: "cascadeSteps foreverGame 0 MaxDrainDepth (ownContainers ?st) () = Some (s', h')" "foreverRunning s'"
    using cascadeSteps_unsettled [of foreverRunning foreverGame 0, OF forever_step r(1)] by blast
  then show ?thesis using cascade_limit_is_exact [OF run(1) order_refl] forever_step [OF r(2)] forever_step [OF run(2)] by blast
qed


end
