(* ===== verification/Lifecycle.thy ===== *)
theory Lifecycle
  imports Applying
begin

text \<open>
  The life of a match around \<open>Apply\<close>: creating one (\<open>core/state.go\<close>), forcing a turn to end
  (\<open>core/timeout.go\<close>), undo and redo (\<open>core/undo.go\<close>), replay from the log
  (\<open>core/replay.go\<close>), and game validation (\<open>core/validate.go\<close>).
\<close>

section \<open>Creating a match\<close>

definition freshState :: "'g \<Rightarrow> ctx \<Rightarrow> 'g state" where
  "freshState g c =
     \<lparr>G = g, rawG = None, rawPlugins = None, Ctx = c, StateID = 0, Plugins = None, Log = [], Undone = [],
      Queue = [], Blocks = [], ActiveStack = [], PendingNext = None, MoveCounts = None,
      StageMinMoves = None, StageMaxMoves = None, TurnSnapshots = []\<rparr>"

definition startCtx :: "('g, 'h) game \<Rightarrow> int \<Rightarrow> 64 word \<Rightarrow> ctx option" where
  "startCtx game numPlayers seed =
     (let n = PlayerCount game numPlayers;
          order = defaultPlayOrder n
      in case order of
        [] \<Rightarrow> None
      | p # _ \<Rightarrow> Some \<lparr>NumPlayers = n, CurrentPlayer = p, PlayOrder = order, PlayOrderPos = 0, Turn = 1,
                       Phase = startPhase game, ActivePlayers = None, Gameover = VNil, NumMoves = 0,
                       NowMs = 0, Seed = seed\<rparr>)"

definition NewMatchSeededE :: "('g, 'h) game \<Rightarrow> int \<Rightarrow> goval \<Rightarrow> 64 word \<Rightarrow> 'h
    \<Rightarrow> ('g state \<times> gerror option \<times> 'h) option" where
  "NewMatchSeededE game numPlayers setupData seed h = do {
     c \<leftarrow> startCtx game numPlayers seed;
     let (g, h) = (case gmSetup game of Some f \<Rightarrow> f c setupData h | None \<Rightarrow> (gmNilG game, h));
     let (st, h) = runPluginSetup game (freshState g c) h;
     let env = newHookEnv game st h;
     (st, h) \<leftarrow> applyTurnOrderFirst game st (mcNoEvents env st) (envHeap env);
     let st = applyActivePlayersFromTurn game st;
     let (st, env) = runPhaseOnBegin game st (env\<lparr>envHeap := h\<rparr>);
     let (st, env) = runTurnOnBegin game st env;
     (st, mc, env) \<leftarrow> drainEvents game st (envMC env st '''') env;
     let (st, h) = flushPlugins game st mc (envHeap env);
     drainCascade game st (envQueue env) (-1) h
   }"

definition NewMatchSeeded :: "('g, 'h) game \<Rightarrow> int \<Rightarrow> goval \<Rightarrow> 64 word \<Rightarrow> 'h \<Rightarrow> ('g state \<times> 'h) option" where
  "NewMatchSeeded game numPlayers setupData seed h =
     map_option (\<lambda>(st, _, h). (st, h)) (NewMatchSeededE game numPlayers setupData seed h)"

definition NewMatchE :: "('g, 'h) game \<Rightarrow> int \<Rightarrow> goval \<Rightarrow> 'h \<Rightarrow> ('g state \<times> gerror option \<times> 'h) option" where
  "NewMatchE game numPlayers setupData h = NewMatchSeededE game numPlayers setupData 0 h"

definition NewMatch :: "('g, 'h) game \<Rightarrow> int \<Rightarrow> goval \<Rightarrow> 'h \<Rightarrow> ('g state \<times> 'h) option" where
  "NewMatch game numPlayers setupData h = NewMatchSeeded game numPlayers setupData 0 h"

section \<open>Forcing a turn to end\<close>

definition forceTurn :: "('g, 'h) game \<Rightarrow> 'g state \<Rightarrow> 'h \<Rightarrow> ('g state \<times> gerror option \<times> 'h) option" where
  "forceTurn game st h = do {
     let env = newHookEnv game st h;
     let next = ownContainers st;
     let mc = envMC env next '''';
     (next, env) \<leftarrow> endTurn game next '''' env;
     (next, mc, env) \<leftarrow> drainEvents game next mc env;
     let (next, h) = flushPlugins game next (refresh next mc) (envHeap env);
     let drops = CurrentPlayer (Ctx st) # (case envDrops env of Some d \<Rightarrow> d | None \<Rightarrow> []);
     drainCascade game (next\<lparr>Blocks := withoutBlocksFor (Blocks next) drops\<rparr>) (envQueue env) (-1) h
   }"

definition ForceEndTurnE :: "('g, 'h) game \<Rightarrow> 'g state \<Rightarrow> 'h \<Rightarrow> ('g state \<times> gerror option \<times> 'h) option" where
  "ForceEndTurnE game st h =
     (if Gameover (Ctx st) \<noteq> VNil then Some (st, Some ErrGameOver, h)
      else do {
        (next, err, h) \<leftarrow> forceTurn game st h;
        Some (if err \<noteq> None then (st, err, h) else (next\<lparr>StateID := StateID st + 1\<rparr>, None, h))
      })"

definition ForceEndTurn :: "('g, 'h) game \<Rightarrow> 'g state \<Rightarrow> 'h \<Rightarrow> ('g state \<times> 'h) option" where
  "ForceEndTurn game st h = map_option (\<lambda>(st, _, h). (st, h)) (ForceEndTurnE game st h)"

section \<open>Undo and redo\<close>

definition CanUndo :: "('g, 'h) game \<Rightarrow> 'g state \<Rightarrow> bool" where
  "CanUndo game st = (\<not> gmDisableUndo game \<and> Gameover (Ctx st) = VNil \<and> TurnSnapshots st \<noteq> [])"

definition CanRedo :: "('g, 'h) game \<Rightarrow> 'g state \<Rightarrow> bool" where
  "CanRedo game st = (\<not> gmDisableUndo game \<and> Gameover (Ctx st) = VNil \<and> Undone st \<noteq> [])"

text \<open>A snapshot is a State with a nil snapshot stack.\<close>

definition reinstate :: "'g snapshot \<Rightarrow> 'g state" where
  "reinstate s = snapshot.extend s (state.fields [])"

text \<open>
  OnUndo runs without plugins and without an action queue; the events and log entries it
  adds go nowhere. Taking the last entry of an empty log is a panic.
\<close>

definition Undo :: "('g, 'h) game \<Rightarrow> 'g state \<Rightarrow> 'h \<Rightarrow> ('g state \<times> gerror option \<times> 'h) option" where
  "Undo game st h =
     (if gmDisableUndo game then Some (st, Some ErrInvalidMove, h)
      else if Gameover (Ctx st) \<noteq> VNil then Some (st, Some ErrGameOver, h)
      else if TurnSnapshots st = [] then Some (st, Some ErrInvalidMove, h)
      else if Log st = [] then None
      else
        let last_st = (reinstate (last (TurnSnapshots st)))\<lparr>Undone := Undone st @ [last (Log st)], Log := butlast (Log st)\<rparr>
        in case gmOnUndo game of
          None \<Rightarrow> Some (last_st, None, h)
        | Some f \<Rightarrow>
            let mc = \<lparr>mcG = G last_st, mcCtx = Ctx last_st, mcPlayerID = '''', mcPlugins = None, mcQueue = None,
                      mcResumingBlock = None, mcExtra = [], mcChainedMoves = 0\<rparr>;
                (g, _, h) = f mc h
            in Some (last_st\<lparr>G := g\<rparr>, None, h))"

definition redoRequest :: "logEntry \<Rightarrow> moveRequest" where
  "redoRequest e = \<lparr>rqPlayerID = lePlayerID e, rqMove = leMove e, rqArgs = leArgs e, rqStateID = 0,
     rqResumeTag = '''', rqNowMs = 0, rqServerDispatch = leServerDispatch e, rqFromClient = False\<rparr>"

definition Redo :: "('g, 'h) game \<Rightarrow> 'g state \<Rightarrow> 'h \<Rightarrow> ('g state \<times> gerror option \<times> 'h) option" where
  "Redo game st h =
     (if gmDisableUndo game then Some (st, Some ErrInvalidMove, h)
      else if Gameover (Ctx st) \<noteq> VNil then Some (st, Some ErrGameOver, h)
      else if Undone st = [] then Some (st, Some ErrInvalidMove, h)
      else Apply game (st\<lparr>Undone := butlast (Undone st)\<rparr>) (redoRequest (last (Undone st))) h)"

section \<open>Replay\<close>

definition replayRequest :: "logEntry \<Rightarrow> moveRequest" where
  "replayRequest e = \<lparr>rqPlayerID = lePlayerID e, rqMove = leMove e, rqArgs = leArgs e, rqStateID = 0,
     rqResumeTag = leResumeTag e, rqNowMs = leNowMs e, rqServerDispatch = leServerDispatch e, rqFromClient = False\<rparr>"

fun replayLoop :: "('g, 'h) game \<Rightarrow> int \<Rightarrow> int \<Rightarrow> logEntry list \<Rightarrow> 'g state \<Rightarrow> 'h
    \<Rightarrow> ('g state \<times> gerror option \<times> 'h) option" where
  "replayLoop game untilSteps step [] st h = Some (st, None, h)"
| "replayLoop game untilSteps step (e # es) st h =
     (if leKind e \<noteq> ''move'' then replayLoop game untilSteps step es st h
      else case Apply game st (replayRequest e) h of
        None \<Rightarrow> None
      | Some (_, Some err, h) \<Rightarrow> Some (st, Some err, h)
      | Some (next, None, h) \<Rightarrow>
          if 0 \<le> untilSteps \<and> untilSteps \<le> step + 1 then Some (next, None, h)
          else replayLoop game untilSteps (step + 1) es next h)"

definition ReplayUntilSeeded :: "('g, 'h) game \<Rightarrow> logEntry list \<Rightarrow> int \<Rightarrow> int \<Rightarrow> goval \<Rightarrow> 64 word \<Rightarrow> 'h
    \<Rightarrow> ('g state \<times> gerror option \<times> 'h) option" where
  "ReplayUntilSeeded game entries untilSteps numPlayers setupData seed h = do {
     (st, h) \<leftarrow> NewMatchSeeded game numPlayers setupData seed h;
     (if untilSteps = 0 then Some (st, None, h) else replayLoop game untilSteps 0 entries st h)
   }"

definition ReplayUntil :: "('g, 'h) game \<Rightarrow> logEntry list \<Rightarrow> int \<Rightarrow> int \<Rightarrow> goval \<Rightarrow> 'h
    \<Rightarrow> ('g state \<times> gerror option \<times> 'h) option" where
  "ReplayUntil game entries untilSteps numPlayers setupData h =
     ReplayUntilSeeded game entries untilSteps numPlayers setupData 0 h"

definition ReplaySeeded :: "('g, 'h) game \<Rightarrow> logEntry list \<Rightarrow> int \<Rightarrow> goval \<Rightarrow> 64 word \<Rightarrow> 'h
    \<Rightarrow> ('g state \<times> gerror option \<times> 'h) option" where
  "ReplaySeeded game entries numPlayers setupData seed h =
     ReplayUntilSeeded game entries (-1) numPlayers setupData seed h"

definition Replay :: "('g, 'h) game \<Rightarrow> logEntry list \<Rightarrow> int \<Rightarrow> goval \<Rightarrow> 'h \<Rightarrow> ('g state \<times> gerror option \<times> 'h) option" where
  "Replay game entries numPlayers setupData h = ReplayUntil game entries (-1) numPlayers setupData h"

section \<open>A new match\<close>

lemma PlayerCount_pos: "1 \<le> PlayerCount game n"
  by (auto simp: PlayerCount_def Let_def)

lemma startCtx_Some:
  obtains c where "startCtx game n seed = Some c" "seatsOk c" "Seed c = seed" "Gameover c = VNil"
    "NumPlayers c = PlayerCount game n" "PlayOrder c = defaultPlayOrder (PlayerCount game n)"
    "CurrentPlayer c = hd (PlayOrder c)" "Turn c = 1" "Phase c = startPhase game"
proof -
  have len: "length (defaultPlayOrder (PlayerCount game n)) = nat (PlayerCount game n)" by simp
  have ne: "defaultPlayOrder (PlayerCount game n) \<noteq> []"
  proof
    assume "defaultPlayOrder (PlayerCount game n) = []"
    then have "nat (PlayerCount game n) = 0" using len by (metis list.size(3))
    then show False using PlayerCount_pos [of game n] by simp
  qed
  then obtain p ps where o: "defaultPlayOrder (PlayerCount game n) = p # ps" by (cases "defaultPlayOrder (PlayerCount game n)") auto
  then obtain c where c: "startCtx game n seed = Some c" by (simp add: startCtx_def)
  show ?thesis
    using that [OF c] c o len PlayerCount_pos [of game n]
    by (auto simp: startCtx_def seatsOk_def)
qed

lemma pluginSetupLoop_fields: "pluginSetupLoop ps st h = (st', h') \<Longrightarrow> \<exists>p. st' = st\<lparr>Plugins := p\<rparr>"
proof (induction ps st h rule: pluginSetupLoop.induct)
  case (2 p ps st h)
  then show ?case by (fastforce simp: Let_def split: option.splits prod.splits)
qed (auto intro: Plugins_same)

lemma runPluginSetup_fields:
  assumes "runPluginSetup game st h = (st', h')"
  obtains p where "st' = st\<lparr>Plugins := p\<rparr>"
proof -
  have "\<exists>p. st' = st\<lparr>Plugins := p\<rparr>"
    using assms by (auto simp: runPluginSetup_def split: if_splits dest!: pluginSetupLoop_fields intro: Plugins_same)
  then show ?thesis using that by blast
qed

text \<open>A failed cascade leaves the state before its first step.\<close>

lemma drainCascade_failure:
  "drainCascade game st q parentIdx h = Some (st', Some e, h') \<Longrightarrow> st' = harvestQueue st q"
  by (auto simp: drainCascade_def Let_def case_sum_eq_iff split: if_splits)

lemma drainCascade_frame:
  assumes "drainCascade game st q parentIdx h = Some (st', err, h')" "logsOk P game" "engineLogs P"
  shows "logGrows P st st' \<and> (err = None \<longrightarrow> quiescent st')"
proof (cases err)
  case None
  have "logGrows P (harvestQueue st q) st' \<and> quiescent st'"
    using assms(1) unfolding None by (rule drainCascade_success) (fact assms(2,3))+
  then show ?thesis by (blast intro: logGrows_trans [OF logGrows_harvest])
next
  case (Some e)
  then have "st' = harvestQueue st q" using assms(1) by (auto dest: drainCascade_failure)
  then show ?thesis using Some by simp
qed

text \<open>The stages of match creation, taken apart.\<close>

lemma NewMatch_cases:
  assumes "NewMatchSeededE game n data seed h = Some (st, err, h')"
  obtains c g h0 s1 h1 env0 s2 h2 s3 e3 s4 e4 s5 mc e5 s6 h6 where
    "startCtx game n seed = Some c"
    "(case gmSetup game of Some f \<Rightarrow> f c data h | None \<Rightarrow> (gmNilG game, h)) = (g, h0)"
    "runPluginSetup game (freshState g c) h0 = (s1, h1)" "env0 = newHookEnv game s1 h1"
    "applyTurnOrderFirst game s1 (mcNoEvents env0 s1) (envHeap env0) = Some (s2, h2)"
    "runPhaseOnBegin game (applyActivePlayersFromTurn game s2) (env0\<lparr>envHeap := h2\<rparr>) = (s3, e3)"
    "runTurnOnBegin game s3 e3 = (s4, e4)"
    "drainEvents game s4 (envMC e4 s4 '''') e4 = Some (s5, mc, e5)"
    "flushPlugins game s5 mc (envHeap e5) = (s6, h6)"
    "drainCascade game s6 (envQueue e5) (-1) h6 = Some (st, err, h')"
  using assms unfolding NewMatchSeededE_def Let_def case_prod_eq_iff bind_Some_iff by blast

lemma NewMatch_log:
  assumes "NewMatchSeededE game n data seed h = Some (st, err, h')" "logsOk P game" "engineLogs P"
  shows "list_all P (Log st) \<and> (err = None \<longrightarrow> quiescent st) \<and> Seed (Ctx st) = seed"
proof -
  obtain c g h0 s1 h1 env0 s2 h2 s3 e3 s4 e4 s5 mc e5 s6 h6 where c: "startCtx game n seed = Some c"
    and su: "runPluginSetup game (freshState g c) h0 = (s1, h1)"
    and first: "applyTurnOrderFirst game s1 (mcNoEvents env0 s1) (envHeap env0) = Some (s2, h2)"
    and ph: "runPhaseOnBegin game (applyActivePlayersFromTurn game s2) (env0\<lparr>envHeap := h2\<rparr>) = (s3, e3)"
    and tu: "runTurnOnBegin game s3 e3 = (s4, e4)"
    and dr: "drainEvents game s4 (envMC e4 s4 '''') e4 = Some (s5, mc, e5)"
    and fl: "flushPlugins game s5 mc (envHeap e5) = (s6, h6)"
    and ca: "drainCascade game s6 (envQueue e5) (-1) h6 = Some (st, err, h')"
    using assms(1) by (rule NewMatch_cases)
  have "Seed c = seed" using c startCtx_Some [of game n seed] by (metis option.inject)
  then have s1: "Log s1 = []" "Seed (Ctx s1) = seed" using su by (auto elim!: runPluginSetup_fields simp: freshState_def)

  have "grows P s1 s2" using first by (rule grows_applyTurnOrderFirst)
  also have "grows P s2 (applyActivePlayersFromTurn game s2)" by simp
  also have "grows P \<dots> s3" using ph assms(2) by (rule grows_runPhaseOnBegin)
  also have "grows P s3 s4" using tu assms(2) by (rule grows_runTurnOnBegin)
  also have "grows P s4 s5" using dr assms(2) engineLogs_chained [OF assms(3)] by (rule grows_drainEvents)
  finally have "logGrows P s1 s5" by (rule grows_logGrows)
  moreover have "logGrows P s5 s6" using fl by (rule flushPlugins_fields) (simp add: logGrows_def)
  moreover have "logGrows P s6 st \<and> (err = None \<longrightarrow> quiescent st)"
    using ca assms(2,3) by (rule drainCascade_frame)
  ultimately have "logGrows P s1 st" "err = None \<longrightarrow> quiescent st" by (blast intro: logGrows_trans)+
  with s1 show ?thesis by (auto simp: logGrows_def)
qed

section \<open>Replay\<close>

text \<open>The accepted moves of a match, in order; \<open>None\<close> if one of them is refused.\<close>

fun playAll :: "('g, 'h) game \<Rightarrow> moveRequest list \<Rightarrow> 'g state \<Rightarrow> 'h \<Rightarrow> ('g state \<times> 'h) option" where
  "playAll game [] st h = Some (st, h)"
| "playAll game (req # reqs) st h =
     (case Apply game st req h of Some (st', None, h') \<Rightarrow> playAll game reqs st' h' | _ \<Rightarrow> None)"

text \<open>The state id and the ingress mark of a request can only refuse it; they do not change what it does.\<close>

lemma runMove_request:
  assumes "rqPlayerID req' = rqPlayerID req" "rqMove req' = rqMove req" "rqArgs req' = rqArgs req"
    "rqResumeTag req' = rqResumeTag req" "rqNowMs req' = rqNowMs req" "rqServerDispatch req' = rqServerDispatch req"
  shows "runMove game st mv resuming req' h = runMove game st mv resuming req h"
proof -
  have "moveEntry req' = moveEntry req" by (simp add: fun_eq_iff moveEntry_def assms)
  then show ?thesis by (simp only: runMove_def assms)
qed

lemma admit_request:
  assumes "admit game st req = Inr r"
  shows "admit game st (req\<lparr>rqStateID := 0, rqFromClient := False\<rparr>) = Inr r"
proof -
  let ?req = "req\<lparr>rqStateID := 0, rqFromClient := False\<rparr>"
  have t: "takeBlock (Blocks st) ?req = takeBlock (Blocks st) req" by (simp add: takeBlock_def)
  have e: "exemptionsFor mv b ?req = exemptionsFor mv b req" for mv :: "('a, 'b) move" and b
    by (simp add: exemptionsFor_def)
  obtain resuming blocks where tk: "takeBlock (Blocks st) req = Inr (resuming, blocks)"
    using assms by (cases "takeBlock (Blocks st) req") (auto simp: admit_def split: if_splits)
  obtain stage authErr where a: "authorizedStage (Ctx st) (rqPlayerID req) = (stage, authErr)" by fastforce
  obtain rm inStage where r: "resolveMove game (Ctx st) stage (rqMove req) = (rm, inStage)" by fastforce
  show ?thesis
    using assms t e tk a r by (cases rm) (auto simp: admit_def Let_def split: if_splits option.splits)
qed

lemma Apply_replayed:
  assumes "Apply game st req h = Some (st', None, h')" and "e = moveEntry req c r u"
  shows "Apply game st (replayRequest e) h = Some (st', None, h')"
proof -
  have eq: "replayRequest e = req\<lparr>rqStateID := 0, rqFromClient := False\<rparr>"
    by (simp add: assms(2) replayRequest_def moveEntry_def)
  obtain s mv b where a: "admit game st req = Inr (s, mv, b)" and run: "runMove game s mv b req h = Some (Inr st', h')"
    using assms(1) by (rule Apply_success)
  have "runMove game s mv b (replayRequest e) h = Some (Inr st', h')"
    using run runMove_request [of "replayRequest e" req game s mv b h] by (simp add: eq)
  then show ?thesis using admit_request [OF a] by (simp add: Apply_def ApplyContext_def applyExternal_def eq)
qed

lemma replayLoop_skip:
  "list_all (\<lambda>e. leKind e \<noteq> ''move'') xs \<Longrightarrow> replayLoop game u k (xs @ es) st h = replayLoop game u k es st h"
  by (induction xs) auto

text \<open>The entries a sequence of accepted moves leaves replay to the states it went through.\<close>

lemma replayLoop_playAll:
  assumes logs: "logsOk (\<lambda>e. leKind e \<noteq> ''move'') game"
  shows "playAll game reqs st h = Some (st', h') \<Longrightarrow> \<exists>es. Log st' = Log st @ es \<and>
    (\<forall>k. 0 \<le> k \<longrightarrow> (u < 0 \<or> k + int (length reqs) \<le> u) \<longrightarrow> (\<forall>tl. replayLoop game u k (es @ tl) st h =
       (if reqs \<noteq> [] \<and> 0 \<le> u \<and> k + int (length reqs) = u then Some (st', None, h')
        else replayLoop game u (k + int (length reqs)) tl st' h')))"
proof (induction reqs arbitrary: st h)
  case (Cons req reqs)
  then obtain s1 h1 where ap: "Apply game st req h = Some (s1, None, h1)" and pl: "playAll game reqs s1 h1 = Some (st', h')"
    by (auto split: option.splits)
  obtain e xs c u' r where e: "Log s1 = Log st @ e # xs" "list_all (\<lambda>e. leKind e \<noteq> ''move'') xs" "e = moveEntry req c r u'"
    using Apply_frame [OF ap logs] by (auto simp: engineLogs_def)
  have kind: "leKind e = ''move''" by (simp add: e(3) moveEntry_def)
  note re = Apply_replayed [OF ap e(3)]
  from Cons.IH [OF pl] obtain es where es: "Log st' = Log s1 @ es" and
    loop: "\<And>k tl. 0 \<le> k \<Longrightarrow> u < 0 \<or> k + int (length reqs) \<le> u \<Longrightarrow> replayLoop game u k (es @ tl) s1 h1 =
       (if reqs \<noteq> [] \<and> 0 \<le> u \<and> k + int (length reqs) = u then Some (st', None, h')
        else replayLoop game u (k + int (length reqs)) tl st' h')"
    by blast
  show ?case
  proof (intro exI [of _ "e # xs @ es"] conjI allI impI)
    show "Log st' = Log st @ e # xs @ es" using es e(1) by simp
    fix k tl assume k: "0 \<le> k" and le: "u < 0 \<or> k + int (length (req # reqs)) \<le> u"
    have "replayLoop game u k ((e # xs @ es) @ tl) st h =
        (if 0 \<le> u \<and> u \<le> k + 1 then Some (s1, None, h1) else replayLoop game u (k + 1) (es @ tl) s1 h1)"
      using kind re replayLoop_skip [OF e(2), of game u "k + 1" "es @ tl" s1 h1] by simp
    also have "\<dots> = (if req # reqs \<noteq> [] \<and> 0 \<le> u \<and> k + int (length (req # reqs)) = u then Some (st', None, h')
        else replayLoop game u (k + int (length (req # reqs))) tl st' h')"
    proof (cases "0 \<le> u \<and> u \<le> k + 1")
      case True
      then have "k + (1 + int (length reqs)) \<le> u" "0 \<le> int (length reqs)" using le by auto
      with True have "int (length reqs) \<le> 0" "k + 1 = u" by linarith+
      then have "reqs = []" by simp
      then show ?thesis using True pl \<open>k + 1 = u\<close> by simp
    next
      case False
      then show ?thesis using loop [of "k + 1" tl] k le by (auto simp: algebra_simps)
    qed
    finally show "replayLoop game u k ((e # xs @ es) @ tl) st h =
        (if req # reqs \<noteq> [] \<and> 0 \<le> u \<and> k + int (length (req # reqs)) = u then Some (st', None, h')
         else replayLoop game u (k + int (length (req # reqs))) tl st' h')" .
  qed
qed simp

lemma playAll_take: "playAll game reqs st h = Some r \<Longrightarrow> \<exists>r'. playAll game (take k reqs) st h = Some r'"
proof (induction reqs arbitrary: st h k)
  case (Cons req reqs)
  then obtain s1 h1 where "Apply game st req h = Some (s1, None, h1)" "playAll game reqs s1 h1 = Some r"
    by (auto split: option.splits)
  with Cons.IH [of s1 h1 "k - 1"] show ?case by (cases k) auto
qed simp

lemma playAll_append:
  "playAll game (as @ bs) st h = Option.bind (playAll game as st h) (\<lambda>(s, h). playAll game bs s h)"
  by (induction as arbitrary: st h) (auto split: option.splits)

lemma ReplaySeeded_playAll:
  assumes "NewMatchSeeded game n data seed h = Some (st0, h0)" "playAll game reqs st0 h0 = Some (st, h')"
    and logs: "logsOk (\<lambda>e. leKind e \<noteq> ''move'') game"
  shows "ReplaySeeded game (Log st) n data seed h = Some (st, None, h')"
proof -
  obtain err where "NewMatchSeededE game n data seed h = Some (st0, err, h0)"
    using assms(1) by (auto simp: NewMatchSeeded_def)
  from NewMatch_log [OF this logs] have l0: "list_all (\<lambda>e. leKind e \<noteq> ''move'') (Log st0)"
    by (simp add: engineLogs_def)
  obtain es where es: "Log st = Log st0 @ es" and "\<And>tl. replayLoop game (-1) 0 (es @ tl) st0 h0 =
      replayLoop game (-1) (0 + int (length reqs)) tl st h'"
    using replayLoop_playAll [OF logs assms(2), of "-1"] by auto
  from this(2) [of "[]"] have "replayLoop game (-1) 0 es st0 h0 = Some (st, None, h')" by simp
  then have "replayLoop game (-1) 0 (Log st) st0 h0 = Some (st, None, h')"
    by (simp add: es replayLoop_skip [OF l0])
  then show ?thesis using assms(1) by (simp add: ReplaySeeded_def ReplayUntilSeeded_def)
qed

text \<open>
  C1. Replay reproduces the match. Take a match created from a seed and any sequence of
  accepted moves, with the ids and ingress marks the clients sent. If game code never logs an
  entry of kind \<open>move\<close>, replaying the log of the final state from the same seed, player count
  and setup data returns exactly that state: its game state, context, queue, prompts, plugin
  data, log and undo snapshots.
\<close>

theorem Replay_reproduces_the_match:
  assumes "NewMatchSeeded game n data seed h = Some (st0, h0)" "playAll game reqs st0 h0 = Some (st, h')"
    and logs: "logsOk (\<lambda>e. leKind e \<noteq> ''move'') game"
  shows "ReplaySeeded game (Log st) n data seed h = Some (st, None, h')"
  by (rule ReplaySeeded_playAll [OF assms])

text \<open>
  Replay travels in time: stopping after \<open>k\<close> moves returns the state the match had after
  its first \<open>k\<close> accepted moves.
\<close>

theorem ReplayUntil_travels_in_time:
  assumes "NewMatchSeeded game n data seed h = Some (st0, h0)" "playAll game reqs st0 h0 = Some (st, h')"
    and logs: "logsOk (\<lambda>e. leKind e \<noteq> ''move'') game" and k: "k \<le> length reqs"
  shows "\<exists>stk hk. playAll game (take k reqs) st0 h0 = Some (stk, hk) \<and>
    ReplayUntilSeeded game (Log st) (int k) n data seed h = Some (stk, None, hk)"
proof (cases "k = 0")
  case True
  then show ?thesis using assms(1) by (simp add: ReplayUntilSeeded_def)
next
  case False
  obtain err where "NewMatchSeededE game n data seed h = Some (st0, err, h0)"
    using assms(1) by (auto simp: NewMatchSeeded_def)
  from NewMatch_log [OF this logs] have l0: "list_all (\<lambda>e. leKind e \<noteq> ''move'') (Log st0)"
    by (simp add: engineLogs_def)
  obtain stk hk where p: "playAll game (take k reqs) st0 h0 = Some (stk, hk)"
    using playAll_take [OF assms(2), of k] by auto
  have rest: "playAll game (drop k reqs) stk hk = Some (st, h')"
    using playAll_append [of game "take k reqs" "drop k reqs" st0 h0] p assms(2) by simp
  obtain es where es: "Log stk = Log st0 @ es" and
    loop: "\<And>tl. replayLoop game (int k) 0 (es @ tl) st0 h0 = Some (stk, None, hk)"
    using replayLoop_playAll [OF logs p, of "int k"] k False by (force simp: min_def)
  obtain es' where "Log st = Log stk @ es'" using replayLoop_playAll [OF logs rest, of "-1"] by auto
  then have "replayLoop game (int k) 0 (Log st) st0 h0 = Some (stk, None, hk)"
    using replayLoop_skip [OF l0, of game "int k" 0 "es @ es'" st0 h0] loop [of es'] es by simp
  then show ?thesis using assms(1) p False by (simp add: ReplayUntilSeeded_def)
qed

definition counterPlay :: "moveRequest list" where
  "counterPlay = [(request ''0'' ''twice'' [])\<lparr>rqStateID := 0, rqFromClient := True\<rparr>,
                  (request ''1'' ''bump'' [])\<lparr>rqStateID := 1, rqNowMs := 5\<rparr>]"

lemma counterGame_played:
  "\<exists>st0 h0 st h'. NewMatchSeeded counterGame 2 VNil 7 () = Some (st0, h0) \<and>
     playAll counterGame counterPlay st0 h0 = Some (st, h') \<and> G st = 3"
proof -
  have "Option.bind (NewMatchSeeded counterGame 2 VNil 7 ())
      (\<lambda>(st0, h0). map_option (\<lambda>(st, h). G st) (playAll counterGame counterPlay st0 h0)) = Some 3"
    by code_simp
  then show ?thesis by (auto simp: case_prod_eq_iff)
qed

theorem Replay_reproduces_the_match_witness:
  "\<exists>st h'. G st = 3 \<and> ReplaySeeded counterGame (Log st) 2 VNil 7 () = Some (st, None, h')"
proof -
  obtain st0 h0 st h' where m: "NewMatchSeeded counterGame 2 VNil 7 () = Some (st0, h0)"
    and p: "playAll counterGame counterPlay st0 h0 = Some (st, h')" "G st = 3"
    using counterGame_played by blast
  from Replay_reproduces_the_match [OF m p(1) counterGame_logs] p(2) show ?thesis by blast
qed

theorem ReplayUntil_travels_in_time_witness:
  "\<exists>st0 h0 st h' stk hk. NewMatchSeeded counterGame 2 VNil 7 () = Some (st0, h0) \<and>
     playAll counterGame counterPlay st0 h0 = Some (st, h') \<and>
     playAll counterGame (take 1 counterPlay) st0 h0 = Some (stk, hk) \<and>
     ReplayUntilSeeded counterGame (Log st) (int 1) 2 VNil 7 () = Some (stk, None, hk)"
proof -
  obtain st0 h0 st h' where m: "NewMatchSeeded counterGame 2 VNil 7 () = Some (st0, h0)"
    and p: "playAll counterGame counterPlay st0 h0 = Some (st, h')"
    using counterGame_played by blast
  have "1 \<le> length counterPlay" by (simp add: counterPlay_def)
  from ReplayUntil_travels_in_time [OF m p counterGame_logs this] m p show ?thesis by blast
qed

section \<open>Forced turn ends\<close>

text \<open>
  A forced turn end is not in the log, so a match in which one happened cannot be
  replayed: after the forced end player 1 moves, and replaying that log fails because player 1
  is not on turn.
\<close>

theorem forced_turn_end_breaks_replay:
  "Option.bind (NewMatchSeeded counterGame 2 VNil 7 ()) (\<lambda>(st0, h0).
   Option.bind (ForceEndTurnE counterGame st0 h0) (\<lambda>(st1, e1, h1).
   Option.bind (Apply counterGame st1 (request ''1'' ''bump'' []) h1) (\<lambda>(st2, e2, h2).
     map_option (\<lambda>(st, err, h). (e1, e2, CurrentPlayer (Ctx st1), err)) (ReplaySeeded counterGame (Log st2) 2 VNil 7 ())))) =
   Some (None, None, ''1'', Some ErrWrongPlayer)"
  by code_simp

lemma seatsOk_flushPlugins:
  "flushPlugins game st mc h = (st', h') \<Longrightarrow> seatsOk (Ctx st') = seatsOk (Ctx st)"
  by (auto elim!: flushPlugins_fields)



section \<open>Undo\<close>

lemma reinstate_clone: "reinstate (cloneStateForSnapshot st) = (ownContainers st)\<lparr>TurnSnapshots := []\<rparr>"
  by (simp add: reinstate_def cloneStateForSnapshot_def snapshot.defs state.defs)

lemma Apply_snapshot:
  assumes "Apply game st req h = Some (st', None, h')" "TurnSnapshots st' = TurnSnapshots st @ [s]" "rqResumeTag req = ''''"
    and "maps_wf st"
  shows "reinstate s = st\<lparr>Ctx := (Ctx st)\<lparr>NowMs := rqNowMs req\<rparr>, TurnSnapshots := []\<rparr> \<and> Undone st' = []"
proof -
  obtain bs i s0 where t: "takeBlock (Blocks st) req = Inr (i, bs)" and u: "Undone st' = []"
    and s0: "s0 = st\<lparr>Ctx := (Ctx st)\<lparr>NowMs := rqNowMs req\<rparr>, Blocks := bs\<rparr>"
    and sn: "TurnSnapshots st' = [] \<or> TurnSnapshots st' = TurnSnapshots st \<or>
       TurnSnapshots st' = TurnSnapshots st @ [cloneStateForSnapshot (ownContainers s0)]"
    using Apply_frame [OF assms(1), of "\<lambda>_. True"] by (auto simp: engineLogs_def)
  have "bs = Blocks st" using t assms(3) by (simp add: takeBlock_def)
  then have s0': "s0 = st\<lparr>Ctx := (Ctx st)\<lparr>NowMs := rqNowMs req\<rparr>\<rparr>" using s0 by simp
  have "ownContainers s0 = s0"
    using assms(4) by (intro ownContainers_id) (simp add: s0' maps_wf_def)
  moreover have "s = cloneStateForSnapshot (ownContainers s0)" using sn assms(2) by auto
  ultimately show ?thesis using u by (simp add: reinstate_clone s0')
qed



text \<open>
  Undo does not bring back an answered prompt: the snapshot is taken after the answered
  prompt has been removed, so undoing the answer leaves player 1's prompt gone while the
  answer's effect is undone too.
\<close>

theorem undo_loses_the_answered_prompt:
  "Option.bind (Apply counterGame askedState payRequest ()) (\<lambda>(st1, e1, h1).
     map_option (\<lambda>(st, err, h). (e1, err, G st, map bPlayerID (Blocks st))) (Undo counterGame st1 h1)) =
   Some (None, None, 0, [''0''])"
  by code_simp

text \<open>
  Undoing a move that ran a cascade keeps the move in the log: only the last entry, the
  drain step, is taken off. The game state is back at its start but the log still holds the
  undone move, so replaying it gives a different state, and Redo repeats the drain step
  instead of the move.
\<close>

theorem undo_of_a_cascade_keeps_the_move_logged:
  "Option.bind (NewMatchSeeded counterGame 2 VNil 7 ()) (\<lambda>(st0, h0).
   Option.bind (Apply counterGame st0 (request ''0'' ''push'' []) h0) (\<lambda>(st1, e1, h1).
   Option.bind (Undo counterGame st1 h1) (\<lambda>(st2, e2, h2).
   Option.bind (Redo counterGame st2 h2) (\<lambda>(st3, e3, h3).
     map_option (\<lambda>(st, err, h). (G st1, G st2, map leMove (Log st2), G st3, G st)) (ReplaySeeded counterGame (Log st2) 2 VNil 7 ()))))) =
   Some (2, 0, [''push''], 1, 2)"
  by code_simp

text \<open>Two phases; \<open>go\<close> ends the phase it is made in.\<close>

definition relayPhase :: "string \<Rightarrow> (nat, unit) phaseConfig" where
  "relayPhase nxt = \<lparr>pcOnBegin = None, pcOnEnd = None, pcEndIf = None, pcMoves = None, pcTurn = None, pcStart = False,
     pcNext = NextName nxt\<rparr>"

definition relayGame :: "(nat, unit) game" where
  "relayGame = (blankGame 0)\<lparr>gmMoves := Some [(''go'', RawFn (\<lambda>mc args h. (Inr (mcG mc + 1), noEffects\<lparr>efEvents := [EvEndPhase]\<rparr>, h)))],
     gmPhases := [(''a'', relayPhase ''b''), (''b'', relayPhase ''a'')]\<rparr>"

definition relayState :: "nat state" where
  "relayState = counterState\<lparr>Ctx := (Ctx counterState)\<lparr>Phase := ''a'', CurrentPlayer := ''1'', PlayOrderPos := 1\<rparr>\<rparr>"

text \<open>
  Undo reaches into another player's turn when a phase ended in between: ending a phase
  ends the turn but keeps the snapshots, so after player 1's move moved the match to phase b
  and player 0's turn, undo takes it back to player 1's turn in phase a.
\<close>

theorem undo_crosses_a_phase_end:
  "Option.bind (Apply relayGame relayState (request ''1'' ''go'' []) ()) (\<lambda>(st1, e1, h1).
     map_option (\<lambda>(st, err, h). (CanUndo relayGame st1, (Phase (Ctx st1), CurrentPlayer (Ctx st1), Turn (Ctx st1)),
       err, Phase (Ctx st), CurrentPlayer (Ctx st), Turn (Ctx st))) (Undo relayGame st1 h1)) =
   Some (True, (''b'', ''0'', 2), None, ''a'', ''1'', 1)"
  by code_simp

end
