(* ===== verification/Views.thy ===== *)
theory Views
  imports Lifecycle
begin

text \<open>
  What leaves the server and what a game definition must satisfy: per-seat redaction
  (\<open>PlayerView\<close> in \<open>core/state.go\<close>, \<open>core/playerview.go\<close>, \<open>core/blockview.go\<close>, \<open>redactedLog\<close>
  in \<open>core/log.go\<close>, \<open>redactedBlocks\<close> in \<open>core/queue.go\<close>), the wire form of \<open>Ctx\<close>
  (\<open>core/ctx.go\<close>), the raw bytes kept after decoding, and \<open>Game.Validate\<close>
  (\<open>core/validate.go\<close>).
\<close>

section \<open>Redaction\<close>

definition redactedLog :: "logEntry list \<Rightarrow> string \<Rightarrow> logEntry list" where
  "redactedLog es pid = map (\<lambda>e. if leRedact e \<and> lePlayerID e \<noteq> pid then e\<lparr>leArgs := []\<rparr> else e) es"

definition redactedBlocks :: "('g, 'h) game \<Rightarrow> blockSpec list \<Rightarrow> string \<Rightarrow> blockSpec list" where
  "redactedBlocks game blocks pid =
     (case gmBlockView game of
        None \<Rightarrow> blocks
      | Some f \<Rightarrow> if blocks = [] then blocks else map (\<lambda>b. f b pid) blocks)"

definition HideBlockPayload :: "blockSpec \<Rightarrow> string \<Rightarrow> blockSpec" where
  "HideBlockPayload b viewer =
     (if bPlayerID b = viewer then b else b\<lparr>bData := VNil, bTarget := None, bAssignment := None\<rparr>)"

text \<open>\<open>StripSecrets\<close> is for a G that is a string-keyed map; any other G is returned as it is.\<close>

fun stripPlayers :: "goval \<Rightarrow> string \<Rightarrow> goval" where
  "stripPlayers (VMap players) pid =
     VMap (if pid \<noteq> '''' then (case map_of players pid of Some p \<Rightarrow> [(pid, p)] | None \<Rightarrow> []) else [])"
| "stripPlayers v pid = v"

fun StripSecrets :: "goval \<Rightarrow> ctx \<Rightarrow> string \<Rightarrow> goval" where
  "StripSecrets (VMap m) c pid =
     VMap (map (\<lambda>(k, v). (k, if k = ''players'' then stripPlayers v pid else v))
               (filter (\<lambda>(k, v). k \<noteq> ''secret'') m))"
| "StripSecrets g c pid = g"

definition PlayerView :: "('g, 'h) game \<Rightarrow> 'g state \<Rightarrow> string \<Rightarrow> 'g state" where
  "PlayerView game st pid =
     st\<lparr>G := (case gmPlayerView game of Some f \<Rightarrow> f (G st) (Ctx st) pid | None \<Rightarrow> G st),
        Plugins := redactPluginData game st pid,
        Log := redactedLog (Log st) pid,
        Undone := redactedLog (Undone st) pid,
        Blocks := redactedBlocks game (Blocks st) pid,
        ActiveStack := [], PendingNext := None, MoveCounts := None, StageMinMoves := None, StageMaxMoves := None,
        Ctx := (Ctx st)\<lparr>Seed := 0\<rparr>\<rparr>"

section \<open>The wire form of Ctx\<close>

record wireCtx =
  wNumPlayers :: int
  wCurrentPlayer :: string
  wPlayOrder :: "string list"
  wPlayOrderPos :: int
  wTurn :: int
  wPhase :: string
  wActivePlayers :: "string gomap"
  wGameover :: goval
  wNumMoves :: int
  wSeed :: "64 word"

definition marshalCtx :: "ctx \<Rightarrow> wireCtx" where
  "marshalCtx c = \<lparr>wNumPlayers = NumPlayers c, wCurrentPlayer = CurrentPlayer c, wPlayOrder = PlayOrder c,
     wPlayOrderPos = PlayOrderPos c, wTurn = Turn c, wPhase = Phase c,
     wActivePlayers = (case ActivePlayers c of Some m \<Rightarrow> m | None \<Rightarrow> []),
     wGameover = jsonTrip (Gameover c), wNumMoves = NumMoves c, wSeed = Seed c\<rparr>"

definition unmarshalCtx :: "wireCtx \<Rightarrow> ctx" where
  "unmarshalCtx w = \<lparr>NumPlayers = wNumPlayers w, CurrentPlayer = wCurrentPlayer w, PlayOrder = wPlayOrder w,
     PlayOrderPos = wPlayOrderPos w, Turn = wTurn w, Phase = wPhase w,
     ActivePlayers = (if wActivePlayers w = [] then None else Some (wActivePlayers w)),
     Gameover = wGameover w, NumMoves = wNumMoves w, NowMs = 0, Seed = wSeed w\<rparr>"

section \<open>Raw bytes\<close>

definition RawG :: "'g state \<Rightarrow> string option" where
  "RawG st = rawG st"

definition RawPlugin :: "'g state \<Rightarrow> string \<Rightarrow> string option" where
  "RawPlugin st name = mget (rawPlugins st) name"

definition ClearRaw :: "'g state \<Rightarrow> 'g state" where
  "ClearRaw st = st\<lparr>rawG := None, rawPlugins := None\<rparr>"

section \<open>Validation\<close>

datatype problem =
    SetupNil
  | MultipleStarts "string list"
  | UnknownNext string string
  | BadMove string gerror
  | BadPhaseMove string string gerror
  | BadPhaseStageMove string string string gerror
  | BadStageMove string string gerror
  | PlayerBounds int int

text \<open>The entries of a move table that do not normalise, with asMove's complaint.\<close>

definition badMoves :: "('g, 'h) rawMove gomap option \<Rightarrow> (string \<times> gerror) list" where
  "badMoves tbl =
     List.map_filter (\<lambda>(name, raw). case asMove raw of Inl e \<Rightarrow> Some (name, e) | Inr _ \<Rightarrow> None)
       (case tbl of Some t \<Rightarrow> t | None \<Rightarrow> [])"

definition stageProblems :: "(string \<Rightarrow> string \<Rightarrow> gerror \<Rightarrow> problem) \<Rightarrow> ('g, 'h) turnConfig option \<Rightarrow> problem list" where
  "stageProblems mk turn =
     (case turn of
        None \<Rightarrow> []
      | Some t \<Rightarrow> concat (map (\<lambda>(stage, sc). map (\<lambda>(name, e). mk stage name e) (badMoves (scMoves sc))) (tcStages t)))"

definition Validate :: "('g, 'h) game \<Rightarrow> problem list" where
  "Validate g =
     (if gmSetup g = None then [SetupNil] else []) @
     (let starts = map fst (filter (\<lambda>(_, p). pcStart p) (gmPhases g))
      in if 1 < length starts then [MultipleStarts starts] else []) @
     List.map_filter (\<lambda>(name, p). case pcNext p of
         NextName s \<Rightarrow> (if s \<noteq> '''' \<and> map_of (gmPhases g) s = None then Some (UnknownNext name s) else None)
       | _ \<Rightarrow> None) (gmPhases g) @
     map (\<lambda>(name, e). BadMove name e) (badMoves (gmMoves g)) @
     concat (map (\<lambda>(phaseName, p).
         map (\<lambda>(name, e). BadPhaseMove phaseName name e) (badMoves (pcMoves p)) @
         stageProblems (BadPhaseStageMove phaseName) (pcTurn p)) (gmPhases g)) @
     stageProblems BadStageMove (gmTurn g) @
     (if 0 < gmMinPlayers g \<and> 0 < gmMaxPlayers g \<and> gmMaxPlayers g < gmMinPlayers g
      then [PlayerBounds (gmMinPlayers g) (gmMaxPlayers g)] else [])"

section \<open>Properties\<close>

text \<open>The views the game supplies, for G and for plugin data, do not read the seed out of Ctx.\<close>

definition seedBlind :: "('g, 'h) game \<Rightarrow> bool" where
  "seedBlind game \<longleftrightarrow> (\<forall>f. gmPlayerView game = Some f \<longrightarrow> (\<forall>g c s pid. f g (c\<lparr>Seed := s\<rparr>) pid = f g c pid)) \<and>
     (\<forall>p \<in> set (gmPlugins game). \<forall>f. plPlayerView p = Some f \<longrightarrow> (\<forall>d g c s pid. f d g (c\<lparr>Seed := s\<rparr>) pid = f d g c pid))"

lemma redactLoop_seedBlind:
  assumes "\<forall>p \<in> set ps. \<forall>f. plPlayerView p = Some f \<longrightarrow> (\<forall>d g c s pid. f d g (c\<lparr>Seed := s\<rparr>) pid = f d g c pid)"
    and "Plugins st' = Plugins st" "G st' = G st" "Ctx st' = (Ctx st)\<lparr>Seed := s\<rparr>"
  shows "redactLoop ps st' pid out = redactLoop ps st pid out"
  using assms(1)
proof (induction ps arbitrary: out)
  case (Cons p ps)
  have "pluginDataFor st' (plName p) = pluginDataFor st (plName p)" using assms(2) by (simp add: pluginDataFor_def)
  moreover have "f d (G st') (Ctx st') pid = f d (G st) (Ctx st) pid" if "plPlayerView p = Some f" for f d
    using that Cons.prems by (simp add: assms(3,4))
  ultimately have "(case plPlayerView p of Some f \<Rightarrow> f (pluginDataFor st' (plName p)) (G st') (Ctx st') pid | None \<Rightarrow> pluginDataFor st' (plName p)) =
      (case plPlayerView p of Some f \<Rightarrow> f (pluginDataFor st (plName p)) (G st) (Ctx st) pid | None \<Rightarrow> pluginDataFor st (plName p))"
    by (simp split: option.split)
  moreover have "\<forall>p \<in> set ps. \<forall>f. plPlayerView p = Some f \<longrightarrow> (\<forall>d g c s pid. f d g (c\<lparr>Seed := s\<rparr>) pid = f d g c pid)"
    using Cons.prems by simp
  ultimately show ?case using Cons.IH by (simp only: redactLoop.simps Let_def)
qed simp

text \<open>
  The secret seed and the engine's bookkeeping never leave the server: for a game whose own views do
  not read the seed, what is sent to a seat is the same for two states that differ only in
  the seed, the revert stack, the pending configuration, the stage counters and the undo
  snapshots. (The snapshots stay in the view but are excluded from its JSON form, so what is sent
  is the view without them.)
\<close>

theorem PlayerView_hides_engine_secrets:
  assumes "seedBlind game"
  shows "(PlayerView game (st\<lparr>Ctx := (Ctx st)\<lparr>Seed := s\<rparr>, ActiveStack := a, PendingNext := n, MoveCounts := m,
      StageMinMoves := lo, StageMaxMoves := hi, TurnSnapshots := ts\<rparr>) pid)\<lparr>TurnSnapshots := []\<rparr> =
    (PlayerView game st pid)\<lparr>TurnSnapshots := []\<rparr>"
proof -
  let ?st' = "st\<lparr>Ctx := (Ctx st)\<lparr>Seed := s\<rparr>, ActiveStack := a, PendingNext := n, MoveCounts := m,
      StageMinMoves := lo, StageMaxMoves := hi, TurnSnapshots := ts\<rparr>"
  have "redactPluginData game ?st' pid = redactPluginData game st pid"
    using redactLoop_seedBlind [of "gmPlugins game" ?st' st s] assms by (simp add: redactPluginData_def seedBlind_def)
  then show ?thesis using assms by (simp add: PlayerView_def seedBlind_def split: option.split)
qed


lemma redactedLog_nth:
  "i < length es \<Longrightarrow> redactedLog es pid ! i =
     (if leRedact (es ! i) \<and> lePlayerID (es ! i) \<noteq> pid then (es ! i)\<lparr>leArgs := []\<rparr> else es ! i)"
  by (simp add: redactedLog_def)

text \<open>
  Redacted arguments reach only the seat that made the move: in every other seat's view
  (and the spectators') the entry keeps everything but its arguments; entries that are not
  redacted, and the player's own, are shown in full.
\<close>

theorem PlayerView_redacts_arguments:
  "length (Log (PlayerView game st pid)) = length (Log st) \<and>
   (\<forall>i < length (Log st). let e = Log st ! i; e' = Log (PlayerView game st pid) ! i in
      e' = (if leRedact e \<and> lePlayerID e \<noteq> pid then e\<lparr>leArgs := []\<rparr> else e))"
  by (simp add: PlayerView_def redactedLog_nth Let_def) (simp add: redactedLog_def)

text \<open>
  With HideBlockPayload as its BlockView, a prompt's payload is shown only to the seat it
  addresses, and every seat still sees who is asked, under which tag, and which move answers.
\<close>

theorem HideBlockPayload_hides:
  assumes "gmBlockView game = Some HideBlockPayload" "i < length (Blocks st)"
  shows "let b = Blocks st ! i; b' = Blocks (PlayerView game st pid) ! i in
    bTag b' = bTag b \<and> bPlayerID b' = bPlayerID b \<and> bMove b' = bMove b \<and> bOrder b' = bOrder b \<and>
    (if bPlayerID b = pid then b' = b else bData b' = VNil \<and> bTarget b' = None \<and> bAssignment b' = None)"
  using assms by (auto simp: PlayerView_def redactedBlocks_def HideBlockPayload_def Let_def)

theorem PlayerView_hides_engine_secrets_witness:
  "(PlayerView counterGame (counterState\<lparr>Ctx := (Ctx counterState)\<lparr>Seed := 99\<rparr>, ActiveStack := [], PendingNext := None,
      MoveCounts := Some [(''0'', 4)], StageMinMoves := None, StageMaxMoves := None, TurnSnapshots := []\<rparr>) ''1'')\<lparr>TurnSnapshots := []\<rparr> =
    (PlayerView counterGame counterState ''1'')\<lparr>TurnSnapshots := []\<rparr>"
  by (rule PlayerView_hides_engine_secrets) (simp add: seedBlind_def counterGame_def blankGame_def)


theorem PlayerView_redacts_arguments_witness:
  "let e = (moveEntry (request ''0'' ''bet'' [VI 5]) (Ctx counterState) True True);
       st = counterState\<lparr>Log := [e]\<rparr>
   in leArgs (Log (PlayerView counterGame st ''1'') ! 0) = [] \<and> Log (PlayerView counterGame st ''0'') ! 0 = e"
proof -
  let ?e = "moveEntry (request ''0'' ''bet'' [VI 5]) (Ctx counterState) True True"
  have "leRedact ?e" "lePlayerID ?e = ''0''" by (simp_all add: moveEntry_def request_def)
  then show ?thesis
    using PlayerView_redacts_arguments [of counterGame "counterState\<lparr>Log := [?e]\<rparr>" "''1''"]
      PlayerView_redacts_arguments [of counterGame "counterState\<lparr>Log := [?e]\<rparr>" "''0''"]
    by (simp add: Let_def)
qed

theorem HideBlockPayload_hides_witness:
  "let st = counterState\<lparr>Blocks := [blankBlock\<lparr>bTag := ''peek'', bPlayerID := ''0'', bData := VStr ''queen''\<rparr>]\<rparr>;
       game = counterGame\<lparr>gmBlockView := Some HideBlockPayload\<rparr>
   in bData (Blocks (PlayerView game st ''1'') ! 0) = VNil \<and> bData (Blocks (PlayerView game st ''0'') ! 0) = VStr ''queen''"
  using HideBlockPayload_hides [of "counterGame\<lparr>gmBlockView := Some HideBlockPayload\<rparr>" 0
      "counterState\<lparr>Blocks := [blankBlock\<lparr>bTag := ''peek'', bPlayerID := ''0'', bData := VStr ''queen''\<rparr>]\<rparr>" "''1''"]
    HideBlockPayload_hides [of "counterGame\<lparr>gmBlockView := Some HideBlockPayload\<rparr>" 0
      "counterState\<lparr>Blocks := [blankBlock\<lparr>bTag := ''peek'', bPlayerID := ''0'', bData := VStr ''queen''\<rparr>]\<rparr>" "''0''"]
  by (simp add: Let_def blankBlock_def)

lemma map_of_strip:
  "map_of (map (\<lambda>(k, v). (k, if k = q then f v else v)) (filter (\<lambda>(k, v). k \<noteq> s) m)) k =
     (if k = s then None else map_option (\<lambda>v. if k = q then f v else v) (map_of m k))"
  by (induction m) auto

text \<open>
  StripSecrets hides the secret part and the other players' entries: whatever two game
  states hold under \<open>secret\<close> and under the other players' keys, a seat that sees equal public
  parts and an equal entry of its own sees equal views, key by key.
\<close>

theorem StripSecrets_hides:
  assumes "map_of m ''players'' = Some (VMap ps)" "map_of m' ''players'' = Some (VMap ps')"
    and "\<And>k. k \<noteq> ''secret'' \<Longrightarrow> k \<noteq> ''players'' \<Longrightarrow> map_of m' k = map_of m k"
    and "pid \<noteq> '''' \<Longrightarrow> map_of ps' pid = map_of ps pid"
  shows "\<exists>v v'. StripSecrets (VMap m) c pid = VMap v \<and> StripSecrets (VMap m') c' pid = VMap v' \<and>
    map_of v = map_of v' \<and> map_of v ''secret'' = None"
proof -
  let ?v = "\<lambda>m. map (\<lambda>(k, v). (k, if k = ''players'' then stripPlayers v pid else v)) (filter (\<lambda>(k, v). k \<noteq> ''secret'') m)"
  have get: "map_of (?v m) k = (if k = ''secret'' then None else map_option (\<lambda>v. if k = ''players'' then stripPlayers v pid else v) (map_of m k))"
    for m k by (rule map_of_strip)
  have sp: "stripPlayers (VMap ps') pid = stripPlayers (VMap ps) pid"
    using assms(4) by (cases "pid = ''''") simp_all
  have "map_of (?v m) k = map_of (?v m') k" for k
  proof (cases "k = ''secret'' \<or> k = ''players''")
    case True
    then show ?thesis unfolding get using assms(1,2) sp by (elim disjE) (simp_all del: stripPlayers.simps)
  next
    case False
    then have "map_of m' k = map_of m k" by (intro assms(3)) auto
    then show ?thesis unfolding get by simp
  qed
  moreover have "map_of (?v m) ''secret'' = None" unfolding get by simp
  ultimately show ?thesis by (intro exI conjI ext) (rule StripSecrets.simps, rule StripSecrets.simps, simp_all)
qed

theorem StripSecrets_hides_witness:
  "\<exists>v v'. StripSecrets (VMap [(''secret'', VI 1), (''players'', VMap [(''0'', VI 2), (''1'', VI 3)])]) blankCtx ''0'' = VMap v \<and>
    StripSecrets (VMap [(''secret'', VI 9), (''players'', VMap [(''1'', VI 8), (''0'', VI 2)])]) blankCtx ''0'' = VMap v' \<and>
    map_of v = map_of v' \<and> map_of v ''secret'' = None"
  by (rule StripSecrets_hides [where ps = "[(''0'', VI 2), (''1'', VI 3)]" and ps' = "[(''1'', VI 8), (''0'', VI 2)]"]) simp_all

text \<open>
  Ctx survives persistence: decoding its wire form gives back the context, an empty active
  set normalised to nil (which means the current player may act), the request time dropped,
  and the result of a finished game as JSON returns it. In particular who may act is the same
  before and after, unless the active set was empty but not nil, in which case nobody could.
\<close>

theorem ctx_wire_roundtrip:
  "unmarshalCtx (marshalCtx c) =
     c\<lparr>ActivePlayers := (if ActivePlayers c = Some [] then None else ActivePlayers c), NowMs := 0,
       Gameover := jsonTrip (Gameover c)\<rparr>"
  by (cases "ActivePlayers c") (auto simp: unmarshalCtx_def marshalCtx_def)

lemma map_filter_Nil: "List.map_filter f xs = [] \<Longrightarrow> x \<in> set xs \<Longrightarrow> f x = None"
  by (induction xs) (auto simp: List.map_filter_simps split: option.splits)

lemma badMoves_Nil: "badMoves (Some t) = [] \<Longrightarrow> (name, raw) \<in> set t \<Longrightarrow> \<exists>m. asMove raw = Inr m"
  by (auto simp: badMoves_def split: sum.splits dest!: map_filter_Nil)

lemma stageProblems_Nil:
  "stageProblems mk (Some t) = [] \<Longrightarrow> (stage, sc) \<in> set (tcStages t) \<Longrightarrow> badMoves (scMoves sc) = []"
  by (auto simp: stageProblems_def)

lemma Validate_moves:
  assumes "Validate game = []" "t \<in> moveTables game"
  shows "badMoves (Some t) = []"
proof -
  have g: "badMoves (gmMoves game) = []" and s: "stageProblems BadStageMove (gmTurn game) = []"
    and p: "\<And>name p. (name, p) \<in> set (gmPhases game) \<Longrightarrow>
      badMoves (pcMoves p) = [] \<and> stageProblems (BadPhaseStageMove name) (pcTurn p) = []"
    using assms(1) by (auto simp: Validate_def)
  from assms(2) consider "gmMoves game = Some t" | name q where "(name, q) \<in> set (gmPhases game)" "pcMoves q = Some t"
    | name q u stage sc where "(name, q) \<in> set (gmPhases game)" "pcTurn q = Some u" "(stage, sc) \<in> set (tcStages u)" "scMoves sc = Some t"
    | u stage sc where "gmTurn game = Some u" "(stage, sc) \<in> set (tcStages u)" "scMoves sc = Some t"
    unfolding moveTables_def phaseConfigs_def stageConfigs_def turnConfigs_def by fastforce
  then show ?thesis
    by cases (use g s p stageProblems_Nil in fastforce)+
qed

text \<open>
  Validation is sound. In a game that validates, a registered name always resolves to a
  runnable move (no request, drain step or chained move ever meets a malformed entry), a
  static Next leads to a phase of the game or out of all phases, and the player count stays
  within the declared bounds.
\<close>

theorem Validate_sound:
  assumes "Validate game = []"
  shows "(fst (resolveMove game c stage name) = Inl e \<longrightarrow> e = ErrUnknownMove) \<and>
    (\<forall>ph p s. map_of (gmPhases game) ph = Some p \<longrightarrow> pcNext p = NextName s \<longrightarrow> s = '''' \<or> map_of (gmPhases game) s \<noteq> None) \<and>
    (0 < gmMinPlayers game \<longrightarrow> gmMinPlayers game \<le> PlayerCount game n) \<and>
    (0 < gmMaxPlayers game \<longrightarrow> PlayerCount game n \<le> gmMaxPlayers game)"
proof (intro conjI allI impI)
  show "e = ErrUnknownMove" if "fst (resolveMove game c stage name) = Inl e"
  proof -
    have ok: "\<exists>m. asMove raw = Inr m" if "t \<in> moveTables game" "map_of t name = Some raw" for t raw
      using badMoves_Nil [OF Validate_moves [OF assms that(1)]] map_of_SomeD [OF that(2)] by blast
    have st: "\<exists>t. t \<in> moveTables game \<and> map_of t name = Some v" if "stageEntry game (Phase c) stage name = Some v" for v
      using that lookupStage_stageConfigs
      by (fastforce simp: stageEntry_def moveTables_def mget_def split: if_splits option.splits)
    have sc: "\<exists>t. t \<in> moveTables game \<and> map_of t name = Some v" if "mget (scopeMoves game (Phase c)) name = Some v" for v
      using that phaseConfigs_map_of
      by (fastforce simp: scopeMoves_def moveTables_def mget_def split: if_splits option.splits)
    from that ok st sc show ?thesis
      by (fastforce simp: resolveMove_def split: option.splits)
  qed
  show "s = '''' \<or> map_of (gmPhases game) s \<noteq> None" if "map_of (gmPhases game) ph = Some p" "pcNext p = NextName s" for ph p s
  proof (rule ccontr)
    assume "\<not> ?thesis"
    moreover have "(ph, p) \<in> set (gmPhases game)" using that(1) by (rule map_of_SomeD)
    moreover have "List.map_filter (\<lambda>(name, p). case pcNext p of
         NextName s \<Rightarrow> (if s \<noteq> '''' \<and> map_of (gmPhases game) s = None then Some (UnknownNext name s) else None)
       | _ \<Rightarrow> None) (gmPhases game) = []" using assms by (simp add: Validate_def)
    ultimately show False using that(2) by (auto dest!: map_filter_Nil)
  qed
qed (use assms in \<open>auto simp: Validate_def PlayerCount_def Let_def split: if_splits\<close>)

theorem Validate_sound_witness:
  "Validate (counterGame\<lparr>gmSetup := Some (\<lambda>c d h. (0, h)), gmMinPlayers := 2, gmMaxPlayers := 4\<rparr>) = [] \<and>
   PlayerCount (counterGame\<lparr>gmSetup := Some (\<lambda>c d h. (0, h)), gmMinPlayers := 2, gmMaxPlayers := 4\<rparr>) 9 \<le> 4"
proof -
  let ?g = "counterGame\<lparr>gmSetup := Some (\<lambda>c d h. (0, h)), gmMinPlayers := 2, gmMaxPlayers := 4\<rparr>"
  have v: "Validate ?g = []"
    by (simp add: Validate_def counterGame_def blankGame_def badMoves_def stageProblems_def List.map_filter_simps)
  have "gmMaxPlayers ?g = 4" by simp
  with v Validate_sound [OF v, of blankCtx "''''" "''bump''" ErrGameOver 9] show ?thesis by simp
qed

end
