(* ===== verification/Prompts.thy ===== *)
theory Prompts
  imports Lifecycle "HOL-Library.Sublist"
begin

text \<open>
  What becomes of the pending prompts (\<open>State.Blocks\<close>). Game code can raise prompts through
  the action queue and drop persisted ones with DropBlocksFor, from any move, hook or EndIf
  predicate. A locale states what every call of game code may do to the hook environment and
  carries it through all transitions, the event drain and the settling of a move; the
  interpretation for prompts yields what Apply and ForceEndTurn keep, drop and add.
\<close>

section \<open>Every effect of game code\<close>

definition gameEffects :: "('g, 'h) game \<Rightarrow> effects set" where
  "gameEffects game =
     {fst (snd (applyFnWrapHook game f kind mc h)) | f kind mc h. (f, kind) \<in> gameHooks game} \<union>
     {fst (snd (f mc args h)) | f m mc args h. m \<in> gameMoves game \<and> mvMove m = Some f} \<union>
     {fst (snd (applyFnWrapMove game f mc args h)) | f m mc args h. m \<in> gameMoves game \<and> mvMove m = Some f} \<union>
     {fst (snd (f mc h)) | f t mc h. t \<in> turnConfigs game \<and> tcEndIf t = Some f} \<union>
     {fst (snd (f mc h)) | f p mc h. p \<in> phaseConfigs game \<and> pcEndIf p = Some f} \<union>
     {fst (snd (f mc h)) | f mc h. gmEndIf game = Some f}"

lemma hook_effects:
  "applyFnWrapHook game f kind mc h = (g, ef, h') \<Longrightarrow> (f, kind) \<in> gameHooks game \<Longrightarrow> ef \<in> gameEffects game"
  unfolding gameEffects_def by (metis (mono_tags, lifting) UnI1 fst_conv mem_Collect_eq snd_conv)

lemma move_effects:
  assumes "m \<in> gameMoves game" "mvMove m = Some f"
  shows "f mc args h = (r, ef, h') \<Longrightarrow> ef \<in> gameEffects game"
    and "applyFnWrapMove game f mc args h = (r, ef, h') \<Longrightarrow> ef \<in> gameEffects game"
  using assms unfolding gameEffects_def
  by (metis (mono_tags, lifting) UnI1 UnI2 fst_conv mem_Collect_eq snd_conv)+

lemma pred_effects:
  "t \<in> turnConfigs game \<Longrightarrow> tcEndIf t = Some f \<Longrightarrow> fst (snd (f mc h)) \<in> gameEffects game"
  "p \<in> phaseConfigs game \<Longrightarrow> pcEndIf p = Some f \<Longrightarrow> fst (snd (f mc h)) \<in> gameEffects game"
  "gmEndIf game = Some f' \<Longrightarrow> fst (snd (f' mc h)) \<in> gameEffects game"
  unfolding gameEffects_def by blast+

section \<open>Relations on the environment that game code respects\<close>

locale env_frame =
  fixes game :: "('g, 'h) game"
    and R :: "'h hookEnv \<Rightarrow> 'h hookEnv \<Rightarrow> bool"
  assumes env_refl [simp, intro]: "R e e"
    and env_trans [trans]: "R a b \<Longrightarrow> R b c \<Longrightarrow> R a c"
    and env_events [simp, intro]: "R e (e\<lparr>envEvents := evs\<rparr>)"
    and env_heap [simp, intro]: "R e (e\<lparr>envHeap := h\<rparr>)"
    and env_perform: "ef \<in> gameEffects game \<Longrightarrow> R e (perform ef h e)"
begin

lemma env_runHookOpt:
  assumes "runHookOpt game fo kind st pid env = (st', env')"
    and "\<And>f. fo = Some f \<Longrightarrow> (f, kind) \<in> gameHooks game"
  shows "R env env'"
proof (cases fo)
  case (Some f)
  with assms(1) have "runHook game f kind st pid env = (st', env')" by (simp add: runHookOpt_def)
  then show ?thesis using assms(2) [OF Some] by (auto elim!: runHook_eqs intro: env_perform hook_effects)
qed (use assms(1) in \<open>simp add: runHookOpt_def\<close>)

lemma env_runTurnOnBegin: "runTurnOnBegin game st env = (st', env') \<Longrightarrow> R env env'"
  unfolding runTurnOnBegin_def by (rule env_runHookOpt) (auto intro: hook_in_scope)

lemma env_runPhaseOnBegin: "runPhaseOnBegin game st env = (st', env') \<Longrightarrow> R env env'"
  by (auto simp: runPhaseOnBegin_def split: if_splits option.splits
      intro: env_runHookOpt gameHooks_intros phaseConfigs_map_of)

lemma env_runGameOnEnd: "runGameOnEnd game st env = (st', env') \<Longrightarrow> R env env'"
  unfolding runGameOnEnd_def by (rule env_runHookOpt) (auto intro: gameHooks_intros)

lemma env_runPhaseEnter:
  assumes "runPhaseEnter game st env = Some (st', env')"
  shows "R env env'"
proof -
  obtain s1 h1 s2 e2 where p: "runPhaseOnBegin game s1 (env\<lparr>envHeap := h1\<rparr>) = (s2, e2)"
    and t: "runTurnOnBegin game s2 e2 = (st', env')"
    using assms by (auto simp: runPhaseEnter_def Let_def case_prod_eq_iff)
  have "R env (env\<lparr>envHeap := h1\<rparr>)" by simp
  also have "R \<dots> e2" using p by (rule env_runPhaseOnBegin)
  also have "R \<dots> env'" using t by (rule env_runTurnOnBegin)
  finally show ?thesis .
qed

lemma env_leavePhase:
  assumes "leavePhase game current st np env = (st', env')" "current \<in> phaseConfigs game"
  shows "R env env'"
proof -
  obtain s1 e1 s2 h where
    h1: "runHookOpt game (turnHook tcOnEnd (scopeTurn game (Phase (Ctx st)))) GameMethodTurnOnEnd st '''' env = (s1, e1)"
    and h2: "runHookOpt game (pcOnEnd current) GameMethodPhaseOnEnd s1 '''' (e1\<lparr>envHeap := h\<rparr>) = (s2, env')"
    using assms(1) by (auto simp: leavePhase_def Let_def split: prod.splits)
  have "R env e1" using h1 hook_in_scope(2) by (rule env_runHookOpt)
  also have "R e1 (e1\<lparr>envHeap := h\<rparr>)" by simp
  also have "R \<dots> env'" using h2 gameHooks_intros(7) [OF assms(2)] by (rule env_runHookOpt)
  finally show ?thesis .
qed

lemma env_moveCursor: "moveCursor st pos env = Some (st', env') \<Longrightarrow> env' = env"
  by (auto simp: moveCursor_def split: option.splits)

lemma env_endPhase_step:
  assumes "endPhase game st np env = Some (st', env')"
    and adv: "\<And>current s1 e1 s2 e2. Phase (Ctx st) \<noteq> '''' \<Longrightarrow> map_of (gmPhases game) (Phase (Ctx st)) = Some current \<Longrightarrow>
      leavePhase game current st np env = (s1, e1) \<Longrightarrow> Phase (Ctx s1) = '''' \<Longrightarrow>
      advancePlayOrderPos game s1 (gmTurn game) e1 = Some (s2, e2) \<Longrightarrow> R e1 e2"
  shows "R env env'"
proof (cases "Phase (Ctx st) = ''''")
  case True
  with assms(1) show ?thesis by (subst (asm) endPhase.simps) (auto split: if_splits dest: env_runPhaseEnter)
next
  case phase: False
  show ?thesis
  proof (cases "map_of (gmPhases game) (Phase (Ctx st))")
    case None
    with assms(1) phase show ?thesis by (subst (asm) endPhase.simps) auto
  next
    case (Some current)
    obtain s1 e1 where lv: "leavePhase game current st np env = (s1, e1)" by fastforce
    have "R env e1" using lv phaseConfigs_map_of [OF Some] by (rule env_leavePhase)
    also have "R e1 env'"
    proof (cases "Phase (Ctx s1) = ''''")
      case True
      then obtain s2 e2 where a: "advancePlayOrderPos game s1 (gmTurn game) e1 = Some (s2, e2)"
        and b: "runTurnOnBegin game (applyActivePlayersFromTurn game s2) e2 = (st', env')"
        using assms(1) phase Some lv by (subst (asm) endPhase.simps) auto
      show ?thesis using adv [OF phase Some lv True a] env_runTurnOnBegin [OF b] by (rule env_trans)
    next
      case False
      then have "runPhaseEnter game s1 e1 = Some (st', env')"
        using assms(1) phase Some lv by (subst (asm) endPhase.simps) auto
      then show ?thesis by (rule env_runPhaseEnter)
    qed
    finally show ?thesis .
  qed
qed

lemma env_rotation:
  "advancePlayOrderPos gm st turn env = Some (st', env') \<Longrightarrow> gm = game \<Longrightarrow> R env env'"
  "endPhase gm st np env = Some (st', env') \<Longrightarrow> gm = game \<Longrightarrow> R env env'"
proof (induction gm st turn env and gm st np env arbitrary: st' env' and st' env'
    rule: advancePlayOrderPos_endPhase.induct)
  case (1 gm st turn env)
  from 1(2) show ?case
    by (subst (asm) advancePlayOrderPos.simps)
      (auto split: if_splits option.splits prod.splits dest!: env_moveCursor
        intro: env_trans [OF env_heap] 1(1) [OF _ _ _ _ _ _ 1(3)])
next
  case (2 gm st np env)
  show ?case
    using 2(2) unfolding \<open>gm = game\<close>
    by (rule env_endPhase_step) (use 2(1) 2(3) in \<open>auto\<close>)
qed

lemmas env_advancePlayOrderPos = env_rotation(1) [OF _ refl]
lemmas env_endPhase = env_rotation(2) [OF _ refl]

lemma env_nextSeat: "nextSeat game st turn nxt env = Some (st', env') \<Longrightarrow> R env env'"
  by (auto simp: nextSeat_def Let_def split: if_splits option.splits dest!: env_advancePlayOrderPos)

lemma env_beginTurn: "beginTurn game st env = (st', env') \<Longrightarrow> R env env'"
  by (auto simp: beginTurn_def Let_def intro: env_runTurnOnBegin)

lemma env_endTurn:
  assumes "endTurn game st nxt env = Some (st', env')"
  shows "R env env'"
proof -
  obtain s1 e1 s s2 e2 where
    h: "runHookOpt game (turnHook tcOnEnd (scopeTurn game (Phase (Ctx st)))) GameMethodTurnOnEnd st '''' env = (s1, e1)"
    and n: "nextSeat game s (scopeTurn game (Phase (Ctx st))) nxt e1 = Some (s2, e2)"
    and b: "if nxt = '''' \<and> Gameover (Ctx s2) \<noteq> VNil then (st', env') = (s2, e2) else (st', env') = beginTurn game s2 e2"
    using assms by (rule endTurn_cases)
  have "R env e1" using h hook_in_scope(2) by (rule env_runHookOpt)
  also have "R e1 e2" using n by (rule env_nextSeat)
  also have "R e2 env'" using b by (auto split: if_splits intro: env_beginTurn [OF sym])
  finally show ?thesis .
qed

lemma env_setStage: "setStage game st pid s env = (st', env') \<Longrightarrow> R env env'"
  unfolding setStage_def Let_def by (rule env_runHookOpt [OF _ stageHook_in_scope(1)])

lemma env_setStageLong: "setStageLong game st pid opts env = (st', env') \<Longrightarrow> R env env'"
  by (auto simp: setStageLong_def Let_def case_prod_eq_iff intro: env_setStage)

lemma env_endStage:
  assumes "endStage game st pid env = (st', env')"
  shows "R env env'"
proof (cases "ActivePlayers (Ctx st) = None")
  case False
  define cur where "cur = (case mget (ActivePlayers (Ctx st)) pid of Some s \<Rightarrow> s | None \<Rightarrow> '''')"
  obtain s1 e1 where h: "runHookOpt game (Option.bind (lookupStage game (Phase (Ctx st)) cur) scOnEnd)
      GameMethodStageOnEnd st pid env = (s1, e1)" by fastforce
  have "R env e1" using h stageHook_in_scope(2) by (rule env_runHookOpt)
  also have "R e1 env'"
    using assms False h by (auto simp: endStage_def Let_def cur_def split: if_splits intro: env_setStage)
  finally show ?thesis .
qed (use assms in \<open>simp add: endStage_def\<close>)

lemma env_removePlayer: "removePlayer game st pid env = Some (st', env') \<Longrightarrow> R env env'"
  by (auto simp: removePlayer_def case_prod_eq_iff split: option.splits if_splits intro: env_endTurn)

lemma env_runChainedMove:
  assumes "runChainedMove game st mc name args env = (st', env')"
  shows "R env env'"
proof (cases "\<exists>raw m f. mget (scopeMoves game (Phase (Ctx st))) name = Some raw \<and> asMove raw = Inr m \<and> mvMove m = Some f")
  case True
  then obtain raw m f where m: "mget (scopeMoves game (Phase (Ctx st))) name = Some raw" "asMove raw = Inr m" "mvMove m = Some f"
    by blast
  let ?mc = "\<lparr>mcG = G st, mcCtx = Ctx st, mcPlayerID = mcPlayerID mc, mcPlugins = mcPlugins mc,
    mcQueue = Some (envQueue env), mcResumingBlock = None, mcExtra = [], mcChainedMoves = mcChainedMoves mc\<rparr>"
  obtain r ef h where call: "f ?mc args (envHeap env) = (r, ef, h)" using prod_cases3 by blast
  then have "env' = perform ef h env" using assms m by (cases r) (simp_all add: runChainedMove_def Let_def)
  then show ?thesis using move_effects(1) [OF scopeMoves_gameMoves [OF m(1,2)] m(3) call] by (simp add: env_perform)
next
  case False
  then have "env' = env" using assms by (auto simp: runChainedMove_def split: option.splits sum.splits)
  then show ?thesis by simp
qed


lemmas env_transitions = env_endTurn env_endPhase env_endStage env_setStage env_setStageLong
  env_runGameOnEnd env_removePlayer env_runChainedMove

lemma env_applyTransition: "applyTransition game ev st mc env = Some (st', env') \<Longrightarrow> R env env'"
  by (cases ev) (auto intro: env_transitions)

lemma env_applyEvent: "applyEvent game ev st mc env = Some (st', mc', env') \<Longrightarrow> R env env'"
  by (auto simp: applyEvent_def Let_def case_prod_eq_iff split: if_splits intro: env_applyTransition)

lemma env_applyBatch: "applyBatch game evs st mc env = Some (st', mc', env') \<Longrightarrow> R env env'"
proof (induction evs arbitrary: st mc env)
  case (Cons ev evs)
  then obtain s1 m1 e1 where "applyEvent game ev st mc env = Some (s1, m1, e1)"
    "applyBatch game evs s1 m1 e1 = Some (st', mc', env')"
    by (auto simp: case_prod_eq_iff)
  then show ?case using Cons.IH by (blast intro: env_trans env_applyEvent)
qed simp

lemma env_drainEvents:
  assumes "drainEvents game st mc env = Some (st', mc', env')"
  shows "R env env'"
proof -
  have "R env env' \<and> envEvents env' = []"
    using assms env_refl
  proof (rule drainEvents_invariant [where R = "\<lambda>s m e. R env e"])
    show "R env e'" if "R env e" "applyBatch game (envEvents e) s m (e\<lparr>envEvents := []\<rparr>) = Some (s', m', e')"
      for s m e s' m' e'
      using that(1) env_events env_applyBatch [OF that(2)] by (blast intro: env_trans)
  qed
  then show ?thesis ..
qed

lemma env_runOnMove:
  assumes "runOnMove game st mc env = (st', mc', env')"
  shows "R env env'"
proof (cases "turnHook tcOnMove (scopeTurn game (Phase (Ctx st)))")
  case (Some f)
  then have f: "(f, GameMethodTurnOnMove) \<in> gameHooks game"
    by (auto simp: turnHook_def split: option.splits dest: scopeTurn_turnConfigs intro: gameHooks_intros)
  obtain g ef h where "applyFnWrapHook game f GameMethodTurnOnMove (mc\<lparr>mcQueue := Some (envQueue env)\<rparr>) (envHeap env) = (g, ef, h)"
    using prod_cases3 by blast
  moreover from this assms Some have "env' = perform ef h env" by (simp add: runOnMove_def)
  ultimately show ?thesis using f by (auto intro: env_perform hook_effects)
qed (use assms in \<open>simp add: runOnMove_def\<close>)

lemma env_runPred:
  "runPred f st pid env = (r, env') \<Longrightarrow> (\<And>mc h. fst (snd (f mc h)) \<in> gameEffects game) \<Longrightarrow> R env env'"
  by (cases "f (envMC env st pid) (envHeap env)") (auto simp: runPred_def intro!: env_perform, metis fst_conv snd_conv)

lemma env_checkGameEndIf:
  assumes "checkGameEndIf game st pid env = (st', env')"
  shows "R env env'"
proof (cases "Gameover (Ctx st) = VNil \<and> gmEndIf game \<noteq> None")
  case True
  then obtain f where f: "gmEndIf game = Some f" by blast
  obtain r e where p: "runPred f st pid env = (r, e)" by fastforce
  have "R env e" using p by (rule env_runPred) (use f in \<open>auto intro: pred_effects(3)\<close>)
  also have "R e env'" using assms True f p by (auto simp: checkGameEndIf_def split: if_splits dest: env_runGameOnEnd)
  finally show ?thesis .
qed (use assms in \<open>auto simp: checkGameEndIf_def split: if_splits\<close>)

lemma env_checkPhaseEndIf:
  assumes "checkPhaseEndIf game st env = Some (st', env')"
  shows "R env env'"
proof (cases "\<exists>ph f. Phase (Ctx st) \<noteq> '''' \<and> map_of (gmPhases game) (Phase (Ctx st)) = Some ph \<and> pcEndIf ph = Some f")
  case True
  then obtain ph f where f: "Phase (Ctx st) \<noteq> ''''" "map_of (gmPhases game) (Phase (Ctx st)) = Some ph" "pcEndIf ph = Some f"
    by blast
  obtain fin nxt e where p: "runPred f st '''' env = ((fin, nxt), e)" by (metis surj_pair)
  have "R env e" using p
    by (rule env_runPred) (use f in \<open>auto intro: pred_effects(2) phaseConfigs_map_of\<close>)
  also have "R e env'" using assms f p by (auto simp: checkPhaseEndIf_def split: if_splits dest: env_endPhase)
  finally show ?thesis .
next
  case False
  then show ?thesis using assms
    by (cases "map_of (gmPhases game) (Phase (Ctx st))") (auto simp: checkPhaseEndIf_def split: if_splits option.splits)
qed

lemma env_checkTurnAutoEnd:
  assumes "checkTurnAutoEnd game st mv env = Some (st', env')"
  shows "R env env'"
proof (cases "scopeTurn game (Phase (Ctx st))")
  case (Some t)
  define r where "r = (case tcEndIf t of Some f \<Rightarrow> runPred f st '''' env | None \<Rightarrow> ((False, ''''), env))"
  obtain fin nxt e where p: "r = ((fin, nxt), e)" by (metis surj_pair)
  have "R env e"
  proof (cases "tcEndIf t")
    case (Some f)
    then have "runPred f st '''' env = ((fin, nxt), e)" using p by (simp add: r_def)
    then show ?thesis
      by (rule env_runPred) (use Some \<open>scopeTurn game (Phase (Ctx st)) = Some t\<close> in
        \<open>auto intro: pred_effects(1) scopeTurn_turnConfigs\<close>)
  qed (use p in \<open>simp add: r_def\<close>)
  also have "R e env'"
    using assms Some p by (auto simp: checkTurnAutoEnd_def r_def split: if_splits dest: env_endTurn)
  finally show ?thesis .
qed (use assms in \<open>simp add: checkTurnAutoEnd_def\<close>)

lemma env_endChecks:
  assumes "endChecks game st mv pid env = Some (st', env')"
  shows "R env env'"
proof -
  obtain s1 e1 where g: "checkGameEndIf game st pid env = (s1, e1)" by fastforce
  obtain s2 e2 where p: "(if Gameover (Ctx s1) = VNil then checkPhaseEndIf game s1 e1 else Some (s1, e1)) = Some (s2, e2)"
    and t: "\<exists>s3. (if Gameover (Ctx s3) = VNil then checkTurnAutoEnd game s3 mv e2 else Some (s3, e2)) = Some (st', env')"
    using assms g unfolding endChecks_def Let_def by (auto simp: case_prod_eq_iff simp del: if_split)
  have "R env e1" using g by (rule env_checkGameEndIf)
  also have "R e1 e2" using p by (auto split: if_splits dest: env_checkPhaseEndIf)
  also have "R e2 env'" using t by (auto split: if_splits dest: env_checkTurnAutoEnd)
  finally show ?thesis .
qed

lemma env_settleMove:
  assumes "settleMove game st mv pid mc env = Some (st', env')"
  shows "R env env'"
  using assms
proof (rule settleMove_cases)
  fix s0 mc0 env0 s1 mc1 env1 s2 env2 s3 mc3
  assume "runOnMove game st mc env = (s0, mc0, env0)"
  then have "R env env0" by (rule env_runOnMove)
  also assume "drainEvents game (countMove mv pid s0) mc0 env0 = Some (s1, mc1, env1)"
  then have "R env0 env1" by (rule env_drainEvents)
  also assume "endChecks game s1 mv pid env1 = Some (s2, env2)"
  then have "R env1 env2" by (rule env_endChecks)
  also assume "drainEvents game s2 mc1 env2 = Some (s3, mc3, env')"
  then have "R env2 env'" by (rule env_drainEvents)
  finally show ?thesis .
qed

end

section \<open>Prompts raised and dropped\<close>

text \<open>
  The players some game code can drop the prompts of, and the prompts some game code can raise.
\<close>

definition droppable :: "('g, 'h) game \<Rightarrow> string set" where
  "droppable game = (\<Union>ef \<in> gameEffects game. set (efDrops ef))"

definition raisable :: "('g, 'h) game \<Rightarrow> blockSpec set" where
  "raisable game = (\<Union>ef \<in> gameEffects game. \<Union>op \<in> set (efOps ef). set (qBlocks (runOp op emptyQueue)))"

definition promptsGrow :: "('g, 'h) game \<Rightarrow> 'h hookEnv \<Rightarrow> 'h hookEnv \<Rightarrow> bool" where
  "promptsGrow game e e' \<longleftrightarrow>
     (\<exists>d. envDrops e' = map_option (\<lambda>x. x @ d) (envDrops e) \<and> set d \<subseteq> droppable game) \<and>
     set (qBlocks (envQueue e')) \<subseteq> set (qBlocks (envQueue e)) \<union> raisable game"

lemma runOp_blocks: "set (qBlocks (runOp op q)) \<subseteq> set (qBlocks q) \<union> set (qBlocks (runOp op emptyQueue))"
  by (cases op) (auto simp: qPush_def qBlock_def qRequestTarget_def qRequestAssignment_def qUnblock_def
      emptyQueue_def split: option.splits
      dest: subsetD [OF set_remove_at])

lemma runOps_blocks:
  "set (qBlocks (fold runOp ops q)) \<subseteq> set (qBlocks q) \<union> (\<Union>op \<in> set ops. set (qBlocks (runOp op emptyQueue)))"
proof (induction ops arbitrary: q)
  case (Cons op ops)
  then show ?case using Cons.IH [of "runOp op q"] runOp_blocks [of op q] by auto
qed simp

lemma promptsGrow_trans:
  assumes "promptsGrow game a b" "promptsGrow game b c"
  shows "promptsGrow game a c"
proof -
  obtain d d' where "envDrops b = map_option (\<lambda>x. x @ d) (envDrops a)" "set d \<subseteq> droppable game"
    "envDrops c = map_option (\<lambda>x. x @ d') (envDrops b)" "set d' \<subseteq> droppable game"
    using assms unfolding promptsGrow_def by blast
  then show ?thesis
    using assms by (auto simp: promptsGrow_def option.map_comp comp_def intro!: exI [of _ "d @ d'"])
qed

interpretation prompts: env_frame game "promptsGrow game" for game :: "('g, 'h) game"
proof
  show "promptsGrow game e e" for e :: "'h hookEnv"
    by (auto simp: promptsGrow_def option.map_ident intro!: exI [of _ "[]"])
  show "promptsGrow game a b \<Longrightarrow> promptsGrow game b c \<Longrightarrow> promptsGrow game a c" for a b c :: "'h hookEnv"
    by (rule promptsGrow_trans)
  show "promptsGrow game e (e\<lparr>envEvents := evs\<rparr>)" for e :: "'h hookEnv" and evs
    by (auto simp: promptsGrow_def option.map_ident intro!: exI [of _ "[]"])
  show "promptsGrow game e (e\<lparr>envHeap := h\<rparr>)" for e :: "'h hookEnv" and h
    by (auto simp: promptsGrow_def option.map_ident intro!: exI [of _ "[]"])
  show "promptsGrow game e (perform ef h e)" if "ef \<in> gameEffects game" for e :: "'h hookEnv" and ef h
  proof -
    have "set (efDrops ef) \<subseteq> droppable game" using that by (auto simp: droppable_def)
    moreover have ops: "(\<Union>op \<in> set (efOps ef). set (qBlocks (runOp op emptyQueue))) \<subseteq> raisable game"
      using that unfolding raisable_def by blast
    have "set (qBlocks (fold runOp (efOps ef) (envQueue e))) \<subseteq> set (qBlocks (envQueue e)) \<union> raisable game"
      by (rule order_trans [OF runOps_blocks Un_mono [OF order_refl ops]])
    ultimately show ?thesis by (auto simp: promptsGrow_def perform_def)
  qed
qed

text \<open>A cascade only adds prompts, and only ones game code raises.\<close>

definition promptsAdded :: "('g, 'h) game \<Rightarrow> 'g state \<Rightarrow> 'g state \<Rightarrow> bool" where
  "promptsAdded game st st' \<longleftrightarrow> (\<exists>new. Blocks st' = Blocks st @ new \<and> set new \<subseteq> raisable game)"

lemma promptsAdded_trans [trans]: "promptsAdded game a b \<Longrightarrow> promptsAdded game b c \<Longrightarrow> promptsAdded game a c"
  by (fastforce simp: promptsAdded_def)

lemma promptsAdded_same: "Blocks st' = Blocks st \<Longrightarrow> promptsAdded game st st'"
  by (simp add: promptsAdded_def)

lemma raised_by_ops:
  "ef \<in> gameEffects game \<Longrightarrow> set (qBlocks (fold runOp (efOps ef) emptyQueue)) \<subseteq> raisable game"
  using runOps_blocks [of "efOps ef" emptyQueue] by (fastforce simp: raisable_def emptyQueue_def)

lemma promptsAdded_harvest:
  "set (qBlocks q) \<subseteq> raisable game \<Longrightarrow> promptsAdded game st (harvestQueue st q)"
  by (auto simp: promptsAdded_def harvestQueue_def qDrain_def)

lemma promptsAdded_applyStep:
  assumes "applyStep game st action parentIdx h = Some (Inr st', h')"
  shows "promptsAdded game st st'"
  using assms
proof (rule applyStep_cases)
  fix mv f g ef h1 h2 p s1 mc1 and env env1 :: "'b hookEnv" and mc :: "'a moveContext"
  let ?s = "st\<lparr>G := g, Log := Log st @ [stepEntry action (Ctx st) (authorizedStageDrain (Ctx st) (qaPlayerID action)) parentIdx],
    Plugins := p\<rparr>"
  assume mv: "mv \<in> gameMoves game" "mvMove mv = Some f"
    and call: "applyFnWrapMove game f mc (qaArgs action) h1 = (Inr g, ef, h2)"
    and drain: "drainEvents game ?s (mc\<lparr>mcG := g, mcExtra := loggedBy mc ef\<rparr>) env = Some (s1, mc1, env1)"
    and st': "st' = harvestQueue (s1\<lparr>Log := Log s1 @ mcExtra mc1\<rparr>) (envQueue env1)"
    and q: "envQueue env = fold runOp (efOps ef) emptyQueue"
  have "grows (\<lambda>_. True) ?s s1" using drain by (rule grows_drainEvents) simp_all
  then have "promptsAdded game st (s1\<lparr>Log := Log s1 @ mcExtra mc1\<rparr>)"
    by (intro promptsAdded_same) (simp add: grows_def)
  also have "set (qBlocks (envQueue env1)) \<subseteq> raisable game"
    using prompts.env_drainEvents [OF drain] raised_by_ops [OF move_effects(2) [OF mv call]]
    by (auto simp: promptsGrow_def q)
  then have "promptsAdded game (s1\<lparr>Log := Log s1 @ mcExtra mc1\<rparr>) st'" unfolding st' by (rule promptsAdded_harvest)
  finally show ?thesis .
qed

lemma promptsAdded_drainCascade:
  assumes "drainCascade game st q parentIdx h = Some (st', None, h')" "set (qBlocks q) \<subseteq> raisable game"
  shows "promptsAdded game st st' \<and> quiescent st'"
proof -
  have hv: "promptsAdded game st (harvestQueue st q)" using assms(2) by (rule promptsAdded_harvest)
  show ?thesis
  proof (cases "quiescent (harvestQueue st q)")
    case True
    with assms(1) hv show ?thesis by (auto simp: drainCascade_def)
  next
    case False
    with assms(1) obtain h1 where
      "cascadeLoop game parentIdx MaxDrainDepth (ownContainers (harvestQueue st q)) h = Some (Inr st', h1)"
      by (auto simp: drainCascade_def Let_def case_sum_eq_iff)
    then have "promptsAdded game (ownContainers (harvestQueue st q)) st' \<and> quiescent st'"
      by (rule cascadeLoop_rel)
        (auto intro: promptsAdded_trans promptsAdded_same dest!: promptsAdded_applyStep simp: promptsAdded_def)
    moreover have "promptsAdded game (harvestQueue st q) (ownContainers (harvestQueue st q))"
      by (rule promptsAdded_same) simp
    ultimately show ?thesis using hv by (blast intro: promptsAdded_trans)
  qed
qed

section \<open>Prompts across a move\<close>

lemma withoutBlocksFor_filter: "withoutBlocksFor bs ps = filter (\<lambda>b. bPlayerID b \<notin> set ps) bs"
  by (auto simp: withoutBlocksFor_def)

lemma takeBlock_remaining: "takeBlock (Blocks st) req = Inr (i, bs) \<Longrightarrow> bs = remaining st req"
  by (cases "rqResumeTag req = ''''")
    (auto simp: takeBlock_answered remaining_def answers_def find_index_None split: option.splits dest!: find_index_Some)

lemma Apply_prompts:
  assumes ok: "Apply game st req h = Some (st', None, h')" and adm: "admit game st req = Inr (s, mv, resuming)"
  obtains f mc h1 g ef h2 drops new where "mvMove mv = Some f"
    "applyFnWrapMove game f mc (rqArgs req) h1 = (Inr g, ef, h2)"
    "Blocks st' = filter (\<lambda>b. bPlayerID b \<notin> set (efDrops ef @ drops)) (remaining st req) @ new"
    "set (efDrops ef @ drops) \<subseteq> droppable game" "set new \<subseteq> raisable game" "quiescent st'"
proof -
  have run: "runMove game s mv resuming req h = Some (Inr st', h')" using ok adm by (auto elim!: Apply_success)
  obtain blocks where t: "takeBlock (Blocks st) req = Inr (resuming, blocks)"
    and s: "s = st\<lparr>Ctx := (Ctx st)\<lparr>NowMs := rqNowMs req\<rparr>, Blocks := blocks\<rparr>" and mv: "mv \<in> gameMoves game"
    using admit_keeps [OF adm] by blast
  obtain f h1 h2 g ef undoable redact p env s1 env1 and mc :: "'a moveContext" where f: "mvMove mv = Some f"
    and call: "applyFnWrapMove game f mc (rqArgs req) h1 = (Inr g, ef, h2)"
    and settle: "settleMove game ((ownContainers s)\<lparr>G := g, StateID := StateID s + 1,
         Log := Log s @ [moveEntry req (Ctx (ownContainers s)) redact undoable], Undone := [],
         TurnSnapshots := TurnSnapshots s @ (if undoable then [cloneStateForSnapshot (ownContainers s)] else []),
         Plugins := p\<rparr>) mv (rqPlayerID req) (mc\<lparr>mcG := g, mcExtra := loggedBy mc ef\<rparr>) env = Some (s1, env1)"
    and casc: "drainCascade game s1 (envQueue env1) (int (length (Log s))) (envHeap env1) = Some (st', None, h')"
    and env: "envDrops env = Some (efDrops ef)" "envQueue env = fold runOp (efOps ef) emptyQueue"
    using run by (rule runMove_cases)
  have ef: "ef \<in> gameEffects game" using mv f call by (rule move_effects(2))
  from prompts.env_settleMove [OF settle] obtain d where
    d: "envDrops env1 = Some (efDrops ef @ d)" "set d \<subseteq> droppable game" "set (qBlocks (envQueue env1)) \<subseteq> raisable game"
    using env raised_by_ops [OF ef] by (auto simp: promptsGrow_def)
  have "Blocks s1 = withoutBlocksFor blocks (efDrops ef @ d)"
    using settleMove_frame [OF settle, of "\<lambda>_. True"] d(1) by (auto simp: s engineLogs_def list_all_iff)
  then have "Blocks s1 = filter (\<lambda>b. bPlayerID b \<notin> set (efDrops ef @ d)) (remaining st req)"
    using takeBlock_remaining [OF t] by (simp only: withoutBlocksFor_filter)
  moreover obtain new where "Blocks st' = Blocks s1 @ new" "set new \<subseteq> raisable game" "quiescent st'"
    using promptsAdded_drainCascade [OF casc d(3)] by (auto simp: promptsAdded_def)
  moreover have "set (efDrops ef) \<subseteq> droppable game" using ef by (auto simp: droppable_def)
  ultimately show ?thesis using that [OF f call] d(2) by simp
qed

lemma kept_prompts:
  assumes "set ds \<subseteq> D"
  shows "filter (\<lambda>b. bPlayerID b \<notin> D) (filter (\<lambda>b. bPlayerID b \<notin> set ds) bs) = filter (\<lambda>b. bPlayerID b \<notin> D) bs"
  using assms by (induction bs) auto

text \<open>
  C13. Prompts are neither lost, reordered nor invented. After an accepted move the pending
  prompts are old ones followed by new ones. The old ones appear in their order and leave out
  the first prompt the request answered; of the rest every one stays that is addressed to a
  player whom no code of the game drops. Every new prompt is one that code of the game
  raises; and while any prompt is pending no queued action has been left to run.
\<close>

theorem Apply_keeps_prompts:
  assumes "Apply game st req h = Some (st', None, h')"
  shows "\<exists>kept new. Blocks st' = kept @ new \<and> set new \<subseteq> raisable game \<and> subseq kept (remaining st req) \<and>
    filter (\<lambda>b. bPlayerID b \<notin> droppable game) kept = filter (\<lambda>b. bPlayerID b \<notin> droppable game) (remaining st req) \<and>
    (Queue st' = [] \<or> Blocks st' \<noteq> [] \<or> Gameover (Ctx st') \<noteq> VNil)"
proof -
  obtain s mv resuming where "admit game st req = Inr (s, mv, resuming)" using assms by (rule Apply_success)
  with assms obtain ds new where d: "Blocks st' = filter (\<lambda>b. bPlayerID b \<notin> set ds) (remaining st req) @ new"
    "set ds \<subseteq> droppable game" "set new \<subseteq> raisable game" "quiescent st'"
    by (rule Apply_prompts) blast
  have "Queue st' = [] \<or> Blocks st' \<noteq> [] \<or> Gameover (Ctx st') \<noteq> VNil" using d(4) by (simp add: quiescent_def)
  then show ?thesis using d(1,3) kept_prompts [OF d(2)] subseq_filter_left by blast
qed

text \<open>A game in which player 0 may fold at any time, abandoning every prompt put to them.\<close>

definition foldHand :: "(nat, unit) moveFn" where
  "foldHand mc args h = (Inr (mcG mc), noEffects\<lparr>efDrops := [''0'']\<rparr>, h)"

definition foldGame :: "(nat, unit) game" where
  "foldGame = (blankGame 0)\<lparr>gmMoves := Some [(''bump'', RawFn bump),
     (''fold'', RawMove ((mkMove foldHand)\<lparr>mvIgnoreBlocks := True, mvAnyPlayer := True\<rparr>))]\<rparr>"

lemma foldGame_effects: "gameEffects foldGame \<subseteq> {noEffects, noEffects\<lparr>efDrops := [''0'']\<rparr>}"
  by (auto simp: gameEffects_def gameHooks_def gameMoves_def moveTables_def stageConfigs_def phaseConfigs_def turnConfigs_def
      foldGame_def blankGame_def mkMove_def bump_def foldHand_def applyFnWrapMove_def)

lemma foldGame_prompts: "raisable foldGame = {}" "droppable foldGame \<subseteq> {''0''}"
  using foldGame_effects by (fastforce simp: raisable_def droppable_def noEffects_def)+

lemma foldGame_logs [simp]: "logsOk P foldGame"
  by (auto simp: logsOk_def gameHooks_def gameMoves_def moveTables_def stageConfigs_def phaseConfigs_def turnConfigs_def
      foldGame_def blankGame_def mkMove_def logsMove_def bump_def foldHand_def applyFnWrapMove_def
      noEffects_def loggedBy_def)

theorem Apply_keeps_prompts_witness:
  "\<exists>st' h'. Apply foldGame askedState (request ''0'' ''fold'' []) () = Some (st', None, h') \<and>
    filter (\<lambda>b. bPlayerID b \<noteq> ''0'') (Blocks st') = [blankBlock\<lparr>bTag := ''pay'', bPlayerID := ''1''\<rparr>]"
proof -
  have "map_option (\<lambda>(st, e, h). e) (Apply foldGame askedState (request ''0'' ''fold'' []) ()) = Some None" by code_simp
  then obtain st' h' where ok: "Apply foldGame askedState (request ''0'' ''fold'' []) () = Some (st', None, h')" by auto
  have r: "remaining askedState (request ''0'' ''fold'' []) = Blocks askedState" by code_simp
  from Apply_keeps_prompts [OF ok] foldGame_prompts(1) obtain kept where
    k: "Blocks st' = kept" "filter (\<lambda>b. bPlayerID b \<notin> droppable foldGame) kept = filter (\<lambda>b. bPlayerID b \<notin> droppable foldGame) (Blocks askedState)"
    by (auto simp: r)
  have "filter (\<lambda>b. bPlayerID b \<noteq> ''0'') bs = filter (\<lambda>b. bPlayerID b \<noteq> ''0'') (filter (\<lambda>b. bPlayerID b \<notin> droppable foldGame) bs)" for bs
    using foldGame_prompts(2) by (induction bs) auto
  then have "filter (\<lambda>b. bPlayerID b \<noteq> ''0'') (Blocks st') = filter (\<lambda>b. bPlayerID b \<noteq> ''0'') (Blocks askedState)"
    using k by metis
  moreover have "filter (\<lambda>b. bPlayerID b \<noteq> ''0'') (Blocks askedState) = [blankBlock\<lparr>bTag := ''pay'', bPlayerID := ''1''\<rparr>]" by code_simp
  ultimately show ?thesis using ok by simp
qed

text \<open>
  DropBlocksFor takes effect. If the accepted move drops player \<open>p\<close>'s prompts whenever it
  runs, and no code of the game raises prompts for \<open>p\<close>, then no prompt of \<open>p\<close> is left after it.
\<close>

theorem Apply_drops_prompts:
  assumes "Apply game st req h = Some (st', None, h')" "admit game st req = Inr (s, mv, resuming)"
    and "mvMove mv = Some f" "\<And>mc args h. p \<in> set (efDrops (fst (snd (applyFnWrapMove game f mc args h))))"
    and "\<And>b. b \<in> raisable game \<Longrightarrow> bPlayerID b \<noteq> p"
  shows "list_all (\<lambda>b. bPlayerID b \<noteq> p) (Blocks st')"
proof -
  obtain mc h1 g ef h2 drops new where "applyFnWrapMove game f mc (rqArgs req) h1 = (Inr g, ef, h2)"
    "Blocks st' = filter (\<lambda>b. bPlayerID b \<notin> set (efDrops ef @ drops)) (remaining st req) @ new"
    "set new \<subseteq> raisable game"
    using assms(1,2) by (rule Apply_prompts) (use assms(3) in simp)
  moreover from this(1) assms(4) [of mc "rqArgs req" h1] have "p \<in> set (efDrops ef)" by simp
  ultimately show ?thesis using assms(5) by (auto simp: list_all_iff)
qed

theorem Apply_drops_prompts_witness:
  "\<exists>st' h'. Apply foldGame askedState (request ''0'' ''fold'' []) () = Some (st', None, h') \<and>
    list_all (\<lambda>b. bPlayerID b \<noteq> ''0'') (Blocks st')"
proof -
  let ?mv = "(mkMove foldHand)\<lparr>mvIgnoreBlocks := True, mvAnyPlayer := True\<rparr>"
  have "map_option (\<lambda>(st, e, h). e) (Apply foldGame askedState (request ''0'' ''fold'' []) ()) = Some None" by code_simp
  then obtain st' h' where ok: "Apply foldGame askedState (request ''0'' ''fold'' []) () = Some (st', None, h')" by auto
  have "admit foldGame askedState (request ''0'' ''fold'' []) = Inr (askedState, ?mv, None)"
    by (simp add: admit_def askedState_def counterState_def seatedState_def request_def takeBlock_def authorizedStage_def
        resolveMove_def foldGame_def blankGame_def blankState_def blankCtx_def scopeMoves_def stageEntry_def lookupStage_def Let_def mkMove_def)
  moreover have "''0'' \<in> set (efDrops (fst (snd (applyFnWrapMove foldGame foldHand mc args h))))" for mc args h
    by (simp add: applyFnWrapMove_def foldGame_def blankGame_def foldHand_def)
  ultimately show ?thesis
    using Apply_drops_prompts [OF ok, where f = foldHand and p = "''0''"] ok foldGame_prompts(1) by (auto simp: mkMove_def)
qed

section \<open>Prompts across a forced turn end\<close>

lemma forceTurn_cases:
  assumes "forceTurn game st h = Some (st', err, h')"
  obtains env s1 e1 s2 mc e2 s3 h3 where "env = newHookEnv game st h"
    "endTurn game (ownContainers st) '''' env = Some (s1, e1)"
    "drainEvents game s1 (envMC env (ownContainers st) '''') e1 = Some (s2, mc, e2)"
    "flushPlugins game s2 (refresh s2 mc) (envHeap e2) = (s3, h3)"
    "drainCascade game (s3\<lparr>Blocks := withoutBlocksFor (Blocks s3)
       (CurrentPlayer (Ctx st) # (case envDrops e2 of Some d \<Rightarrow> d | None \<Rightarrow> []))\<rparr>) (envQueue e2) (-1) h3 = Some (st', err, h')"
  using assms unfolding forceTurn_def Let_def case_prod_eq_iff bind_Some_iff by blast

text \<open>
  C15. A forced turn end expires the prompts of the player whose turn it ends, and keeps the
  others: the prompts left are old ones, in their order, none addressed to the ending player,
  and all those of players whom no code of the game drops, followed by prompts that code of
  the game raises. The state id grows by one, the log is only extended, by entries that are
  not moves, and the result is settled.
\<close>

theorem ForceEndTurn_expires_prompts:
  assumes "ForceEndTurnE game st h = Some (st', None, h')" and logs: "logsOk (\<lambda>e. leKind e \<noteq> ''move'') game"
  shows "\<exists>kept new xs. Blocks st' = kept @ new \<and> set new \<subseteq> raisable game \<and>
    subseq kept (filter (\<lambda>b. bPlayerID b \<noteq> CurrentPlayer (Ctx st)) (Blocks st)) \<and>
    filter (\<lambda>b. bPlayerID b \<notin> droppable game) kept =
      filter (\<lambda>b. bPlayerID b \<notin> droppable game) (filter (\<lambda>b. bPlayerID b \<noteq> CurrentPlayer (Ctx st)) (Blocks st)) \<and>
    StateID st' = StateID st + 1 \<and> quiescent st' \<and> Log st' = Log st @ xs \<and> list_all (\<lambda>e. leKind e \<noteq> ''move'') xs"
proof -
  let ?P = "\<lambda>e. leKind e \<noteq> ''move''"
  let ?others = "filter (\<lambda>b. bPlayerID b \<noteq> CurrentPlayer (Ctx st)) (Blocks st)"
  have el: "engineLogs ?P" by (auto simp: engineLogs_def)
  obtain n where f: "forceTurn game st h = Some (n, None, h')" and st': "st' = n\<lparr>StateID := StateID st + 1\<rparr>"
    using assms(1) by (auto simp: ForceEndTurnE_def case_prod_eq_iff split: if_splits)
  obtain env s1 e1 s2 mc e2 s3 h3 where env: "env = newHookEnv game st h"
    and t: "endTurn game (ownContainers st) '''' env = Some (s1, e1)"
    and d: "drainEvents game s1 (envMC env (ownContainers st) '''') e1 = Some (s2, mc, e2)"
    and fl: "flushPlugins game s2 (refresh s2 mc) (envHeap e2) = (s3, h3)"
    and ca: "drainCascade game (s3\<lparr>Blocks := withoutBlocksFor (Blocks s3)
       (CurrentPlayer (Ctx st) # (case envDrops e2 of Some d \<Rightarrow> d | None \<Rightarrow> []))\<rparr>) (envQueue e2) (-1) h3 = Some (n, None, h')"
    using f by (rule forceTurn_cases)
  have "promptsGrow game env e2"
    using prompts.env_endTurn [OF t] prompts.env_drainEvents [OF d] by (rule promptsGrow_trans)
  then obtain drops where e2: "envDrops e2 = Some drops" "set drops \<subseteq> droppable game" "set (qBlocks (envQueue e2)) \<subseteq> raisable game"
    by (auto simp: promptsGrow_def env newHookEnv_def emptyQueue_def split: prod.splits)
  have "grows ?P (ownContainers st) s1" using t logs by (rule grows_endTurn)
  also have "grows ?P s1 s2" using d logs engineLogs_chained [OF el] by (rule grows_drainEvents)
  finally obtain xs where s2: "Log s2 = Log st @ xs" "list_all ?P xs" "Blocks s2 = Blocks st" by (auto simp: grows_def)
  obtain p where s3: "s3 = s2\<lparr>Plugins := p\<rparr>" using fl by (rule flushPlugins_fields)
  note ca' = ca [unfolded e2(1) option.case]
  let ?kept = "filter (\<lambda>b. bPlayerID b \<notin> set drops) ?others"
  have "withoutBlocksFor (Blocks s3) (CurrentPlayer (Ctx st) # drops) = ?kept"
    by (simp add: withoutBlocksFor_filter s3 s2)
  moreover obtain ys where "Log n = Log s2 @ ys" "list_all ?P ys"
    using drainCascade_frame [OF ca' logs el] by (auto simp: logGrows_def s3)
  moreover obtain new where "Blocks n = withoutBlocksFor (Blocks s3) (CurrentPlayer (Ctx st) # drops) @ new"
    "set new \<subseteq> raisable game" "quiescent n"
    using promptsAdded_drainCascade [OF ca' e2(3)] by (auto simp: promptsAdded_def)
  ultimately have "Blocks st' = ?kept @ new" "set new \<subseteq> raisable game" "quiescent st'" "Log st' = Log st @ (xs @ ys)"
    "list_all ?P (xs @ ys)" "StateID st' = StateID st + 1"
    using s2 by (simp_all add: st' quiescent_def)
  then show ?thesis using kept_prompts [OF e2(2), of ?others] subseq_filter_left by blast
qed

theorem ForceEndTurn_expires_prompts_witness:
  "\<exists>st' h'. ForceEndTurnE foldGame askedState () = Some (st', None, h') \<and>
    Blocks st' = [blankBlock\<lparr>bTag := ''pay'', bPlayerID := ''1''\<rparr>] \<and> StateID st' = 1"
proof -
  let ?b = "blankBlock\<lparr>bTag := ''pay'', bPlayerID := ''1''\<rparr>"
  have "map_option (\<lambda>(st, e, h). e) (ForceEndTurnE foldGame askedState ()) = Some None" by code_simp
  then obtain st' h' where ok: "ForceEndTurnE foldGame askedState () = Some (st', None, h')" by auto
  have "filter (\<lambda>b. bPlayerID b \<noteq> CurrentPlayer (Ctx askedState)) (Blocks askedState) = [?b]" "StateID askedState = 0"
    by code_simp+
  with ForceEndTurn_expires_prompts [OF ok foldGame_logs] foldGame_prompts(1) obtain kept where
    k: "Blocks st' = kept" "subseq kept [?b]"
      "filter (\<lambda>b. bPlayerID b \<notin> droppable foldGame) kept = filter (\<lambda>b. bPlayerID b \<notin> droppable foldGame) [?b]" "StateID st' = 1"
    by auto
  moreover have "''1'' \<notin> droppable foldGame" using foldGame_prompts(2) by auto
  ultimately have "kept = [?b]" by (cases kept) (auto simp: blankBlock_def split: if_splits)
  with k ok show ?thesis by auto
qed

end
