(* ===== verification/GameContract.thy ===== *)
theory GameContract
  imports Lifecycle
begin

text \<open>
  The contract between the engine and the rules of a game. A game refines its rules when, on
  states in good order, Apply accepts exactly the requests that are legal and does to an
  abstraction of the state what the rules do. Whatever the rules preserve then holds along
  every match. Besides, the steps of an accepted move as rules for evaluating one game's moves.
\<close>

section \<open>Evaluating a move\<close>

lemma perform_noEffects [simp]: "perform noEffects (envHeap env) env = env"
  by (cases env) (simp add: perform_def noEffects_def option.map_ident)

text \<open>Running a move by the results of its steps, for a game without plugins.\<close>

lemma runMove_steps:
  fixes h :: 'h and game :: "('g, 'h) game"
  defines "env0 \<equiv> \<lparr>envEvents = [], envQueue = emptyQueue, envDrops = Some [], envPlugins = None, envHeap = h\<rparr>"
  assumes "gmPlugins game = []" "mvMove mv = Some f" "s = ownContainers st"
    and mc: "mc = \<lparr>mcG = G s, mcCtx = Ctx s, mcPlayerID = rqPlayerID req, mcPlugins = None, mcQueue = Some emptyQueue,
                mcResumingBlock = resuming, mcExtra = [], mcChainedMoves = 0\<rparr>"
    and u: "u = (IsUndoable mv mc h \<and> \<not> gmDisableUndo game)" "f mc (rqArgs req) h = (Inr g, ef, h1)"
    and "settleMove game (s\<lparr>G := g, StateID := StateID s + 1, Log := Log s @ [moveEntry req (Ctx s) (IsRedacted mv mc h) u], Undone := [],
           TurnSnapshots := TurnSnapshots s @ (if u then [cloneStateForSnapshot (ownContainers st)] else [])\<rparr>) mv (rqPlayerID req)
         (mc\<lparr>mcG := g, mcExtra := loggedBy mc ef\<rparr>) (perform ef h1 env0) = Some (s2, env2)"
    and "drainCascade game s2 (envQueue env2) (int (length (Log s))) (envHeap env2) = Some (st', err, h')"
  shows "runMove game st mv resuming req h = Some (case err of Some e \<Rightarrow> Inl e | None \<Rightarrow> Inr st', h')"
  using assms
  by (simp add: runMove_def buildPluginAPIs_def applyFnWrapMove_def flushPlugins_def validatePlugins_def perform_def Let_def
      split del: if_split)

lemma Apply_admitted:
  "admit game st req = Inr (s, mv, resuming) \<Longrightarrow> runMove game s mv resuming req h = Some (r, h') \<Longrightarrow>
   Apply game st req h = Some (case r of Inl e \<Rightarrow> (st, Some e, h') | Inr st' \<Rightarrow> (st', None, h'))"
  by (simp add: Apply_def ApplyContext_def applyExternal_def)


section \<open>The contract\<close>

locale engine_game =
  fixes game :: "('g, 'h) game"
    and good :: "'g state \<Rightarrow> bool"
    and abs :: "'g state \<Rightarrow> 'a"
    and legal :: "'g state \<Rightarrow> moveRequest \<Rightarrow> 'm option"
    and play :: "'m \<Rightarrow> 'a \<Rightarrow> 'a"
  assumes accepts: "good st \<Longrightarrow> legal st req = Some m \<Longrightarrow>
      \<exists>st'. Apply game st req h = Some (st', None, h) \<and> good st' \<and> abs st' = play m (abs st)"
    and refuses: "good st \<Longrightarrow> legal st req = None \<Longrightarrow> \<exists>e. Apply game st req h = Some (st, Some e, h)"
begin

lemma accepted_legal:
  assumes "good st" "Apply game st req h = Some (st', None, h')"
  obtains m where "legal st req = Some m" "good st'" "abs st' = play m (abs st)"
proof (cases "legal st req")
  case None
  then show ?thesis using refuses [OF assms(1), of req h] assms(2) by auto
next
  case (Some m)
  then show ?thesis using accepts [OF assms(1) Some, of h] assms(2) that by auto
qed

text \<open>What holds of the start and is kept by every legal play holds after any accepted moves.\<close>

lemma playAll_counted:
  assumes "playAll game reqs st h = Some (st', h')" "good st" "J 0 (abs st)"
    and step: "\<And>n st req m. good st \<Longrightarrow> J n (abs st) \<Longrightarrow> legal st req = Some m \<Longrightarrow> J (Suc n) (play m (abs st))"
  shows "good st' \<and> J (length reqs) (abs st')"
proof -
  have "good st' \<and> J (n + length reqs) (abs st')"
    if "playAll game reqs st h = Some (st', h')" "good st" "J n (abs st)" for n reqs st h
    using that
  proof (induction reqs arbitrary: n st h)
    case (Cons req reqs)
    obtain s1 h1 where a: "Apply game st req h = Some (s1, None, h1)" and p: "playAll game reqs s1 h1 = Some (st', h')"
      using Cons.prems(1) by (auto split: option.splits)
    obtain m where "legal st req = Some m" "good s1" "abs s1 = play m (abs st)"
      using Cons.prems(2) a by (rule accepted_legal)
    then show ?case using Cons.IH [OF p, of "Suc n"] step [OF Cons.prems(2,3)] by simp
  qed simp
  from this [of reqs st h 0] assms(1-3) show ?thesis by simp
qed

end

end
