(* ===== verification/TicTacToe.thy ===== *)
theory TicTacToe
  imports GameContract
begin

text \<open>
  The reference game, \<open>games/tictactoe/tictactoe.go\<close>, run on the engine. A cell holds
  \<open>X\<close>, \<open>O\<close> or nothing. Converting a float that does not fit an \<open>int\<close> is left to the
  implementation by the Go language; the conversion is the parameter \<open>cvt\<close>.
\<close>

section \<open>The game\<close>

record tttState =
  Cells :: "string list"

fun toInt :: "(f64 \<Rightarrow> int) \<Rightarrow> goval \<Rightarrow> int option" where
  "toInt cvt (VInt t n) = (if t \<in> {''int'', ''int32'', ''int64''} then Some n else None)"
| "toInt cvt (VFloat t x) =
     (if t \<in> {''float64'', ''float32''} then
        Some (case x of
                Fin q \<Rightarrow> (let n = (if 0 \<le> q then \<lfloor>q\<rfloor> else \<lceil>q\<rceil>)
                          in if - (2 ^ 63) \<le> n \<and> n < 2 ^ 63 then n else cvt x)
              | _ \<Rightarrow> cvt x)
      else None)"
| "toInt cvt _ = None"

definition clickCell :: "(f64 \<Rightarrow> int) \<Rightarrow> (tttState, 'h) moveFn" where
  "clickCell cvt mc args h =
     (case args of
        [] \<Rightarrow> (Inl ErrInvalidMove, noEffects, h)
      | a # _ \<Rightarrow>
          (case toInt cvt a of
             None \<Rightarrow> (Inl ErrInvalidMove, noEffects, h)
           | Some idx \<Rightarrow>
               if idx < 0 \<or> 8 < idx then (Inl ErrInvalidMove, noEffects, h)
               else if Cells (mcG mc) ! nat idx \<noteq> '''' then (Inl ErrInvalidMove, noEffects, h)
               else (let mark = (if CurrentPlayer (mcCtx mc) = ''1'' then ''O'' else ''X'')
                     in (Inr ((mcG mc)\<lparr>Cells := (Cells (mcG mc))[nat idx := mark]\<rparr>), noEffects, h))))"

definition winningLines :: "(nat \<times> nat \<times> nat) list" where
  "winningLines = [(0, 1, 2), (3, 4, 5), (6, 7, 8), (0, 3, 6), (1, 4, 7), (2, 5, 8), (0, 4, 8), (2, 4, 6)]"

definition lineOf :: "string list \<Rightarrow> nat \<times> nat \<times> nat \<Rightarrow> bool" where
  "lineOf cells = (\<lambda>(i, j, k). cells ! i \<noteq> '''' \<and> cells ! i = cells ! j \<and> cells ! j = cells ! k)"

definition tttWinner :: "string list \<Rightarrow> string" where
  "tttWinner cells = (case find (lineOf cells) winningLines of Some (i, _) \<Rightarrow> cells ! i | None \<Rightarrow> '''')"

definition tttEndIf :: "(tttState, 'h, goval) callback" where
  "tttEndIf mc h =
     (if tttWinner (Cells (mcG mc)) \<noteq> '''' then (VMap [(''winner'', VStr (CurrentPlayer (mcCtx mc)))], noEffects, h)
      else if list_all (\<lambda>c. c \<noteq> '''') (Cells (mcG mc)) then (VMap [(''draw'', VBool True)], noEffects, h)
      else (VNil, noEffects, h))"

definition tttEnumerate :: "tttState \<Rightarrow> ctx \<Rightarrow> string \<Rightarrow> enumerateAction list" where
  "tttEnumerate s c pid =
     (if pid \<noteq> CurrentPlayer c then []
      else map (\<lambda>i. \<lparr>eaMove = ''clickCell'', eaArgs = [VI (int i)]\<rparr>)
             (filter (\<lambda>i. Cells s ! i = '''') [0..<length (Cells s)]))"

definition tttTurn :: "(tttState, 'h) turnConfig" where
  "tttTurn = \<lparr>tcOrder = \<lparr>toFirst = None, toNext = None, toPlayOrder = None\<rparr>, tcOnBegin = None, tcOnEnd = None,
     tcOnMove = None, tcEndIf = None, tcMinMoves = 1, tcMaxMoves = 1, tcTimeBudget = 0, tcActivePlayers = None,
     tcStages = []\<rparr>"

definition tictactoe :: "(f64 \<Rightarrow> int) \<Rightarrow> (tttState, 'h) game" where
  "tictactoe cvt = \<lparr>gmName = ''tic-tac-toe'', gmMinPlayers = 2, gmMaxPlayers = 2,
     gmSetup = Some (\<lambda>c d h. (\<lparr>Cells = replicate 9 ''''\<rparr>, h)), gmNilG = \<lparr>Cells = []\<rparr>, gmValidateSetupData = None,
     gmMoves = Some [(''clickCell'', RawFn (clickCell cvt))], gmTurn = Some tttTurn, gmPhases = [],
     gmEndIf = Some tttEndIf, gmOnEnd = None, gmOnUndo = None, gmPlayerView = None, gmBlockView = None,
     gmSeed = VNil, gmDisableUndo = False, gmPlugins = [], gmEnumerate = Some tttEnumerate\<rparr>"

section \<open>One move\<close>

lemma tictactoe_simps [simp]:
  "gmPlugins (tictactoe cvt) = []" "gmPhases (tictactoe cvt) = []" "gmTurn (tictactoe cvt) = Some tttTurn"
  "gmMoves (tictactoe cvt) = Some [(''clickCell'', RawFn (clickCell cvt))]" "gmEndIf (tictactoe cvt) = Some tttEndIf"
  "gmOnEnd (tictactoe cvt) = None" "gmDisableUndo (tictactoe cvt) = False"
  "gmMinPlayers (tictactoe cvt) = 2" "gmMaxPlayers (tictactoe cvt) = 2"
  "gmSetup (tictactoe cvt) = Some (\<lambda>c d h. (\<lparr>Cells = replicate 9 ''''\<rparr>, h))"
  by (simp_all add: tictactoe_def)

lemma scope_tictactoe [simp]: "scopeTurn (tictactoe cvt) ph = Some tttTurn" "scopeMoves (tictactoe cvt) ph = gmMoves (tictactoe cvt)"
  by (simp_all add: scopeTurn_def scopeMoves_def)

text \<open>Between moves: nothing queued, asked or staged, and two seats.\<close>

definition tttSettled :: "tttState state \<Rightarrow> bool" where
  "tttSettled st \<longleftrightarrow> Phase (Ctx st) = '''' \<and> ActivePlayers (Ctx st) = None \<and> Queue st = [] \<and> Blocks st = [] \<and>
     Plugins st = None \<and> PlayOrder (Ctx st) = [''0'', ''1''] \<and> NumPlayers (Ctx st) = 2"

lemma ttt_admit:
  assumes "tttSettled st" "Gameover (Ctx st) = VNil"
  shows "admit (tictactoe cvt) st req =
    (if rqResumeTag req \<noteq> '''' then Inl ErrUnknownResumeTag
     else if rqPlayerID req \<noteq> CurrentPlayer (Ctx st) then Inl ErrWrongPlayer
     else if rqMove req \<noteq> ''clickCell'' then Inl ErrUnknownMove
     else if 0 < rqStateID req \<and> rqStateID req \<noteq> StateID st then Inl ErrStaleState
     else Inr (st\<lparr>Ctx := (Ctx st)\<lparr>NowMs := rqNowMs req\<rparr>\<rparr>, mkMove (clickCell cvt), None))"
  using assms
  by (simp add: tttSettled_def admit_def takeBlock_def findBlock_def authorizedStage_def resolveMove_def stageEntry_def
      mkMove_def exemptionsFor_def Let_def)

lemma ttt_rotate:
  assumes "PlayOrder (Ctx st) = [''0'', ''1'']" "PlayOrderPos (Ctx st) = int n" "n < 2" "NumPlayers (Ctx st) = 2"
  shows "advancePlayOrderPos (tictactoe cvt) st (Some tttTurn) env =
    Some (st\<lparr>Ctx := (Ctx st)\<lparr>PlayOrderPos := 1 - int n, CurrentPlayer := (if n = 0 then ''1'' else ''0'')\<rparr>\<rparr>, env)"
proof -
  have "n = 0 \<or> n = 1" using assms(3) by auto
  then show ?thesis using assms
  by (auto simp: advancePlayOrderPos.simps effectiveOrder_def tttTurn_def IsDefault_def TurnOrderDefault_def
     nextRoundRobin_def mcNoEvents_def moveCursor_def index_at_def gomod_def)
qed

text \<open>The value of the end check for a board and the player to whom it attributes a win.\<close>

definition tttVerdict :: "string list \<Rightarrow> string \<Rightarrow> goval" where
  "tttVerdict cells p =
     (if tttWinner cells \<noteq> '''' then VMap [(''winner'', VStr p)]
      else if list_all (\<lambda>c. c \<noteq> '''') cells then VMap [(''draw'', VBool True)] else VNil)"

lemma tttEndIf_verdict: "tttEndIf mc h = (tttVerdict (Cells (mcG mc)) (CurrentPlayer (mcCtx mc)), noEffects, h)"
  by (simp add: tttEndIf_def tttVerdict_def)

lemma tttTurn_simps [simp]:
  "tcOnBegin tttTurn = None" "tcOnEnd tttTurn = None" "tcOnMove tttTurn = None" "tcEndIf tttTurn = None"
  "tcActivePlayers tttTurn = None" "tcMaxMoves tttTurn = 1"
  by (simp_all add: tttTurn_def)

definition tttPass :: "tttState state \<Rightarrow> tttState state" where
  "tttPass st = (clearTurnState st)\<lparr>TurnSnapshots := [], Undone := [],
     Ctx := (Ctx (clearTurnState st))\<lparr>PlayOrderPos := 1 - PlayOrderPos (Ctx st),
       CurrentPlayer := (if PlayOrderPos (Ctx st) = 0 then ''1'' else ''0''), Turn := Turn (Ctx st) + 1\<rparr>\<rparr>"

lemma ttt_endTurn:
  assumes "tttSettled st" "PlayOrderPos (Ctx st) \<in> {0, 1}" "Gameover (Ctx st) = VNil"
  shows "endTurn (tictactoe cvt) st '''' env = Some (tttPass st, env)"
proof -
  obtain n where n: "PlayOrderPos (Ctx st) = int n" "n < 2" using assms(2) by (metis insertE int_ops(1) int_ops(2) less_numeral_extra(1) one_less_numeral_iff pos2 semiring_norm(76) singletonD)
  show ?thesis
   using assms n
  by (auto simp: endTurn_def turnHook_def runHookOpt_def nextSeat_def ttt_rotate clearTurnState_def tttSettled_def tttPass_def
      beginTurn_def runTurnOnBegin_def applyActivePlayersFromTurn_def)
qed

lemma ttt_settle:
  assumes "tttSettled st" "PlayOrderPos (Ctx st) \<in> {0, 1}" "Gameover (Ctx st) = VNil"
    "NumMoves (Ctx st) = 0" "envEvents env = []" "envDrops env = Some []"
  shows "settleMove (tictactoe cvt) st (mkMove f) pid mc env =
    (let s1 = st\<lparr>Ctx := (Ctx st)\<lparr>NumMoves := 1\<rparr>\<rparr>; v = tttVerdict (Cells (G st)) (CurrentPlayer (Ctx st));
         s2 = (if v = VNil then tttPass s1 else s1\<lparr>Ctx := (Ctx s1)\<lparr>Gameover := v\<rparr>\<rparr>)
     in Some (s2\<lparr>Log := Log s2 @ mcExtra mc\<rparr>, env))"
proof -
  let ?s1 = "st\<lparr>Ctx := (Ctx st)\<lparr>NumMoves := 1\<rparr>\<rparr>"
  have "tttSettled ?s1" using assms(1) by (simp add: tttSettled_def)
  then have et: "endTurn (tictactoe cvt) ?s1 '''' env = Some (tttPass ?s1, env)" using assms by (intro ttt_endTurn) auto
  show ?thesis using assms
   by (simp add: settleMove_def runOnMove_def turnHook_def countMove_def mkMove_def bumpStageMoveCount_def tttSettled_def
     drainEvents_done endChecks_def checkGameEndIf_def checkPhaseEndIf_def autoEndStagesByMaxMoves_def checkTurnAutoEnd_def
    runPred_def runGameOnEnd_def runHookOpt_def withoutBlocksFor_def Let_def tttEndIf_verdict envMC_def et)
qed
definition markOf :: "string \<Rightarrow> string" where
  "markOf p = (if p = ''1'' then ''O'' else ''X'')"

definition chosenCell :: "(f64 \<Rightarrow> int) \<Rightarrow> string list \<Rightarrow> goval list \<Rightarrow> nat option" where
  "chosenCell cvt cells args =
     (case args of [] \<Rightarrow> None
      | a # _ \<Rightarrow> (case toInt cvt a of None \<Rightarrow> None
         | Some i \<Rightarrow> if 0 \<le> i \<and> i \<le> 8 \<and> cells ! nat i = '''' then Some (nat i) else None))"

lemma clickCell_chosen:
  "clickCell cvt mc args h =
     (case chosenCell cvt (Cells (mcG mc)) args of
        None \<Rightarrow> (Inl ErrInvalidMove, noEffects, h)
      | Some i \<Rightarrow> (Inr ((mcG mc)\<lparr>Cells := (Cells (mcG mc))[i := markOf (CurrentPlayer (mcCtx mc))]\<rparr>), noEffects, h))"
  by (auto simp: clickCell_def chosenCell_def markOf_def split: list.splits option.splits)

definition tttGood :: "tttState state \<Rightarrow> bool" where
  "tttGood st \<longleftrightarrow> tttSettled st \<and> PlayOrderPos (Ctx st) \<in> {0, 1} \<and>
     CurrentPlayer (Ctx st) = (if PlayOrderPos (Ctx st) = 0 then ''0'' else ''1'') \<and>
     (Gameover (Ctx st) = VNil \<longrightarrow> NumMoves (Ctx st) = 0) \<and> length (Cells (G st)) = 9"

lemma ownContainers_ttt:
  "ActivePlayers (Ctx (ownContainers st)) = None \<longleftrightarrow> ActivePlayers (Ctx st) = None"
  "Plugins (ownContainers st) = None \<longleftrightarrow> Plugins st = None"
  "PlayOrder (Ctx (ownContainers st)) = PlayOrder (Ctx st)" "PlayOrderPos (Ctx (ownContainers st)) = PlayOrderPos (Ctx st)"
  "CurrentPlayer (Ctx (ownContainers st)) = CurrentPlayer (Ctx st)" "NumMoves (Ctx (ownContainers st)) = NumMoves (Ctx st)"
  "NumPlayers (Ctx (ownContainers st)) = NumPlayers (Ctx st)"
  by (auto simp: ownContainers_def copyStrMap_def copyMap_def split: option.splits)

lemma ttt_runMove_refused:
  assumes "chosenCell cvt (Cells (G st)) (rqArgs req) = None"
  shows "runMove (tictactoe cvt) st (mkMove (clickCell cvt)) None req h = Some (Inl ErrInvalidMove, h)"
  using assms by (simp add: runMove_def mkMove_def buildPluginAPIs_def applyFnWrapMove_def clickCell_chosen Let_def)

lemma ttt_runMove:
  assumes good: "tttGood st" "Gameover (Ctx st) = VNil" and i: "chosenCell cvt (Cells (G st)) (rqArgs req) = Some i"
  shows "\<exists>st'. runMove (tictactoe cvt) st (mkMove (clickCell cvt)) None req h = Some (Inr st', h) \<and> tttGood st' \<and>
    Cells (G st') = (Cells (G st))[i := markOf (CurrentPlayer (Ctx st))] \<and>
    Gameover (Ctx st') = tttVerdict (Cells (G st')) (CurrentPlayer (Ctx st)) \<and>
    CurrentPlayer (Ctx st') = (if Gameover (Ctx st') = VNil then (if CurrentPlayer (Ctx st) = ''0'' then ''1'' else ''0'')
       else CurrentPlayer (Ctx st))"
proof -
  define s where "s = ownContainers st"
  define mc where "mc = \<lparr>mcG = G s, mcCtx = Ctx s, mcPlayerID = rqPlayerID req, mcPlugins = None, mcQueue = Some emptyQueue,
                mcResumingBlock = None, mcExtra = [], mcChainedMoves = 0\<rparr>"
  define u where "u = IsUndoable (mkMove (clickCell cvt)) mc h"
  define r where "r = IsRedacted (mkMove (clickCell cvt)) mc h"
  define g where "g = (G s)\<lparr>Cells := (Cells (G s))[i := markOf (CurrentPlayer (Ctx s))]\<rparr>"
  define s0 where "s0 = s\<lparr>G := g, StateID := StateID s + 1, Log := Log s @ [moveEntry req (Ctx s) r u], Undone := [],
                 TurnSnapshots := TurnSnapshots s @ (if u then [cloneStateForSnapshot (ownContainers st)] else [])\<rparr>"
  define env where "env = \<lparr>envEvents = [], envQueue = emptyQueue, envDrops = Some [], envPlugins = None, envHeap = h\<rparr>"
  have s: "tttGood s" "Gameover (Ctx s) = VNil" "G s = G st" "CurrentPlayer (Ctx s) = CurrentPlayer (Ctx st)"
    using good by (auto simp: s_def tttGood_def tttSettled_def ownContainers_ttt)
  have s0: "tttSettled s0" "PlayOrderPos (Ctx s0) \<in> {0, 1}" "Gameover (Ctx s0) = VNil" "NumMoves (Ctx s0) = 0"
    using s by (auto simp: s0_def tttGood_def tttSettled_def)
  define v where "v = tttVerdict (Cells g) (CurrentPlayer (Ctx st))"
  define s2 where "s2 = (let s1 = s0\<lparr>Ctx := (Ctx s0)\<lparr>NumMoves := 1\<rparr>\<rparr>
     in if v = VNil then tttPass s1 else s1\<lparr>Ctx := (Ctx s1)\<lparr>Gameover := v\<rparr>\<rparr>)"
  have call: "clickCell cvt mc (rqArgs req) h = (Inr g, noEffects, h)"
    using i s by (simp add: clickCell_chosen mc_def g_def)
  have settle: "settleMove (tictactoe cvt) s0 (mkMove (clickCell cvt)) (rqPlayerID req) (mc\<lparr>mcG := g, mcExtra := []\<rparr>) env =
      Some (s2, env)"
    using s0 by (subst ttt_settle) (simp_all add: env_def s2_def v_def s0_def s Let_def)
  have s2: "tttGood s2" "G s2 = g" "Gameover (Ctx s2) = v"
    "CurrentPlayer (Ctx s2) = (if v = VNil then (if CurrentPlayer (Ctx st) = ''0'' then ''1'' else ''0'') else CurrentPlayer (Ctx st))"
    using s by (auto simp: s2_def s0_def g_def tttGood_def tttSettled_def tttPass_def clearTurnState_def Let_def)
  have casc: "drainCascade (tictactoe cvt) s2 (envQueue env) (int (length (Log s))) (envHeap env) = Some (s2, None, h)"
    using s2(1) by (auto simp: drainCascade_def env_def emptyQueue_def harvestQueue_def qDrain_def quiescent_def tttGood_def tttSettled_def)
  have settle': "settleMove (tictactoe cvt) s0 (mkMove (clickCell cvt)) (rqPlayerID req)
      (mc\<lparr>mcG := g, mcExtra := loggedBy mc noEffects\<rparr>) (perform noEffects h env) = Some (s2, env)"
    using settle perform_noEffects [of env] by (simp add: loggedBy_def noEffects_def env_def)
  have "u = (IsUndoable (mkMove (clickCell cvt)) mc h \<and> \<not> gmDisableUndo (tictactoe cvt))" by (simp add: u_def)
  note run = runMove_steps [where f = "clickCell cvt", OF _ _ s_def mc_def this call settle' [unfolded s0_def r_def env_def] casc [unfolded env_def]]
  have "runMove (tictactoe cvt) st (mkMove (clickCell cvt)) None req h = Some (Inr s2, h)"
    using run by (simp add: mkMove_def)
  then show ?thesis using s2 by (auto simp: v_def g_def s)
qed

section \<open>Refinement of the rules\<close>

text \<open>
  The rules, on a board, a player to move and a verdict: taking a cell sets the player's mark
  there; the other player is next unless the board decides the game.
\<close>

definition tttAbs :: "tttState state \<Rightarrow> string list \<times> string \<times> goval" where
  "tttAbs st = (Cells (G st), CurrentPlayer (Ctx st), Gameover (Ctx st))"

definition tttPlay :: "nat \<Rightarrow> string list \<times> string \<times> goval \<Rightarrow> string list \<times> string \<times> goval" where
  "tttPlay i = (\<lambda>(cells, p, v). let cells' = cells[i := markOf p]; v' = tttVerdict cells' p
     in (cells', if v' = VNil then (if p = ''0'' then ''1'' else ''0'') else p, v'))"

text \<open>The cell a request takes, if it is a legal one.\<close>

definition tttRequest :: "(f64 \<Rightarrow> int) \<Rightarrow> tttState state \<Rightarrow> moveRequest \<Rightarrow> nat option" where
  "tttRequest cvt st req =
     (if Gameover (Ctx st) = VNil \<and> rqResumeTag req = '''' \<and> rqPlayerID req = CurrentPlayer (Ctx st) \<and>
         rqMove req = ''clickCell'' \<and> (rqStateID req \<le> 0 \<or> rqStateID req = StateID st)
      then chosenCell cvt (Cells (G st)) (rqArgs req) else None)"

lemma ttt_Apply_legal:
  fixes h :: 'h
  assumes "tttGood st" "tttRequest cvt st req = Some i"
  shows "\<exists>st'. Apply (tictactoe cvt) st req h = Some (st', None, h) \<and> tttGood st' \<and> tttAbs st' = tttPlay i (tttAbs st)"
proof -
  let ?s = "st\<lparr>Ctx := (Ctx st)\<lparr>NowMs := rqNowMs req\<rparr>\<rparr>"
  have over: "Gameover (Ctx st) = VNil" and c: "chosenCell cvt (Cells (G ?s)) (rqArgs req) = Some i"
    using assms(2) by (auto simp: tttRequest_def split: if_splits)
  have "tttSettled st" using assms(1) by (simp add: tttGood_def)
  then have "admit (tictactoe cvt :: (tttState, 'h) game) st req = Inr (?s, mkMove (clickCell cvt), None)"
    using assms(2) over by (subst ttt_admit) (auto simp: tttRequest_def split: if_splits)
  moreover have "tttGood ?s" using assms(1) by (simp add: tttGood_def tttSettled_def)
  ultimately show ?thesis
    using ttt_runMove [of ?s cvt req i h] c over
    by (auto simp: Apply_admitted tttAbs_def tttPlay_def Let_def)
qed

lemma ttt_Apply_illegal:
  fixes h :: 'h
  assumes "tttGood st" "tttRequest cvt st req = None"
  shows "\<exists>e. Apply (tictactoe cvt) st req h = Some (st, Some e, h)"
proof (cases "admit (tictactoe cvt :: (tttState, 'h) game) st req")
  case (Inl e)
  then show ?thesis by (simp add: Apply_refused)
next
  case (Inr a)
  have s: "tttSettled st" using assms(1) by (simp add: tttGood_def)
  have over: "Gameover (Ctx st) = VNil" using Inr by (auto simp: admit_def split: if_splits)
  have a: "a = (st\<lparr>Ctx := (Ctx st)\<lparr>NowMs := rqNowMs req\<rparr>\<rparr>, mkMove (clickCell cvt), None)"
    and "chosenCell cvt (Cells (G st)) (rqArgs req) = None"
    using Inr assms(2) over unfolding ttt_admit [OF s over] by (auto simp: tttRequest_def split: if_splits)
  then show ?thesis using Inr by (simp add: Apply_admitted ttt_runMove_refused)
qed

interpretation ttt: engine_game "tictactoe cvt" tttGood tttAbs "tttRequest cvt" tttPlay for cvt
  by unfold_locales (blast dest: ttt_Apply_legal ttt_Apply_illegal)+

section \<open>The board\<close>

definition boardOk :: "string list \<times> string \<times> goval \<Rightarrow> bool" where
  "boardOk = (\<lambda>(cells, p, v). length cells = 9 \<and> p \<in> {''0'', ''1''} \<and>
     (if v = VNil then tttWinner cells = '''' \<and> '''' \<in> set cells \<and>
        count_list cells ''X'' = count_list cells ''O'' + (if p = ''0'' then 0 else 1)
      else v = tttVerdict cells p \<and> tttWinner cells \<in> {'''', markOf p} \<and>
        count_list cells ''X'' = count_list cells ''O'' + (if p = ''0'' then 1 else 0)))"

lemma tttWinner_cases:
  obtains (none) "tttWinner cells = ''''" "list_all (\<lambda>l. \<not> lineOf cells l) winningLines"
  | (line) i j k where "(i, j, k) \<in> set winningLines" "lineOf cells (i, j, k)" "tttWinner cells = cells ! i" "cells ! i \<noteq> ''''"
proof (cases "find (lineOf cells) winningLines")
  case None
  then have "tttWinner cells = ''''" "list_all (\<lambda>l. \<not> lineOf cells l) winningLines"
    by (simp add: tttWinner_def, auto simp: find_None_iff list_all_iff)
  then show ?thesis by (rule none)
next
  case (Some l)
  obtain i j k where l: "l = (i, j, k)" by (cases l) auto
  have "lineOf cells l" "l \<in> set winningLines" using Some by (auto simp: find_Some_iff)
  moreover have "tttWinner cells = cells ! i" using Some l by (simp add: tttWinner_def)
  ultimately show ?thesis using line [of i j k] l by (auto simp: lineOf_def)
qed

lemma winningLines_range: "(i, j, k) \<in> set winningLines \<Longrightarrow> i < 9 \<and> j < 9 \<and> k < 9"
  by (auto simp: winningLines_def)

text \<open>Only the mark just placed can complete a line.\<close>

lemma tttWinner_update:
  assumes "tttWinner cells = ''''" "length cells = 9" "n < 9"
  shows "tttWinner (cells[n := m]) \<in> {'''', m}"
proof (cases rule: tttWinner_cases [of "cells[n := m]"])
  case (line i j k)
  have "\<not> lineOf cells (i, j, k)"
    using assms(1) line(1) by (cases rule: tttWinner_cases [of cells]) (auto simp: list_all_iff)
  then show ?thesis using line assms(2,3) winningLines_range [OF line(1)]
    by (auto simp: lineOf_def nth_list_update split: if_splits)
qed simp

lemma count_list_update:
  "i < length xs \<Longrightarrow> count_list (xs[i := y]) z =
     (if z = xs ! i then count_list xs z - 1 else count_list xs z) + (if z = y then 1 else 0)"
proof (induction xs arbitrary: i)
  case (Cons x xs)
  then show ?case by (cases i) (auto simp: Suc_diff_Suc count_list_0_iff, metis Suc_pred count_list_0_iff nth_mem neq0_conv)
qed simp

lemma boardOk_play:
  assumes ok: "boardOk (cells, p, VNil)" and i: "i < 9" "cells ! i = ''''"
  shows "boardOk (tttPlay i (cells, p, VNil))"
    and "count_list (fst (tttPlay i (cells, p, VNil))) '''' + 1 = count_list cells ''''"
proof -
  let ?c = "cells[i := markOf p]"
  have l: "length cells = 9" and p: "p = ''0'' \<or> p = ''1''" and w: "tttWinner cells = ''''"
    and n: "count_list cells ''X'' = count_list cells ''O'' + (if p = ''0'' then 0 else 1)"
    using ok by (auto simp: boardOk_def)
  have m: "markOf p \<noteq> ''''" by (simp add: markOf_def)
  have w': "tttWinner ?c \<in> {'''', markOf p}" using tttWinner_update [OF w l i(1)] .
  have "count_list ?c ''X'' = count_list ?c ''O'' + (if p = ''0'' then 1 else 0)"
    using n p i l by (auto simp: count_list_update markOf_def)
  moreover have "tttVerdict ?c p = VNil \<Longrightarrow> tttWinner ?c = '''' \<and> '''' \<in> set ?c"
    by (auto simp: tttVerdict_def list_all_iff split: if_splits)
  ultimately show "boardOk (tttPlay i (cells, p, VNil))"
    using l p w' by (auto simp: boardOk_def tttPlay_def Let_def markOf_def)
  have "'''' \<in> set cells" using i l by (metis nth_mem)
  then have "0 < count_list cells ''''" by (metis count_list_0_iff neq0_conv)
  then show "count_list (fst (tttPlay i (cells, p, VNil))) '''' + 1 = count_list cells ''''"
    using i l m by (simp add: tttPlay_def Let_def count_list_update)
qed

definition tttOpening :: "64 word \<Rightarrow> tttState state" where
  "tttOpening seed = freshState \<lparr>Cells = replicate 9 ''''\<rparr>
     \<lparr>NumPlayers = 2, CurrentPlayer = ''0'', PlayOrder = [''0'', ''1''], PlayOrderPos = 0, Turn = 1, Phase = '''',
      ActivePlayers = None, Gameover = VNil, NumMoves = 0, NowMs = 0, Seed = seed\<rparr>"

lemma ttt_NewMatch: "NewMatchSeeded (tictactoe cvt) n data seed h = Some (tttOpening seed, h)"
proof -
  have pc: "PlayerCount (tictactoe cvt) n = 2" by (auto simp: PlayerCount_def)
  have d: "defaultPlayOrder 2 = [''0'', ''1'']" by code_simp
  have o: "effectiveOrder (Some tttTurn) = TurnOrderDefault" by (simp add: effectiveOrder_def tttTurn_def IsDefault_def)
  show ?thesis
    by (simp add: NewMatchSeeded_def NewMatchSeededE_def startCtx_def pc d o startPhase_def runPluginSetup_def newHookEnv_def
        buildPluginAPIs_def applyTurnOrderFirst_def TurnOrderDefault_def index_at_def
        applyActivePlayersFromTurn_def runPhaseOnBegin_def runTurnOnBegin_def turnHook_def runHookOpt_def drainEvents_done
        flushPlugins_def drainCascade_def harvestQueue_def qDrain_def emptyQueue_def quiescent_def freshState_def tttOpening_def)
qed

lemma tttOpening_good: "tttGood (tttOpening seed)" "tttAbs (tttOpening seed) = (replicate 9 '''', ''0'', VNil)"
  by (simp_all add: tttOpening_def freshState_def tttGood_def tttSettled_def tttAbs_def)

lemma tttOpening_ok: "boardOk (replicate 9 '''', ''0'', VNil)"
  by code_simp

section \<open>Properties\<close>

text \<open>
  C18. The engine runs tic-tac-toe by its rules. In a match in good order a request is accepted
  exactly if the game is on and the player to move asks, under no prompt and no stale state
  id, for a cell that is free; the new state is in good order again, with the board, the
  player to move and the verdict as the rules give them. Any other request changes nothing.
\<close>

theorem tictactoe_refines:
  assumes "tttGood st"
  shows "case tttRequest cvt st req of
      None \<Rightarrow> \<exists>e. Apply (tictactoe cvt) st req h = Some (st, Some e, h)
    | Some i \<Rightarrow> \<exists>st'. Apply (tictactoe cvt) st req h = Some (st', None, h) \<and> tttGood st' \<and> tttAbs st' = tttPlay i (tttAbs st)"
  using ttt_Apply_legal [OF assms] ttt_Apply_illegal [OF assms] by (auto split: option.split)

theorem tictactoe_refines_witness:
  "\<exists>st'. Apply (tictactoe (\<lambda>_. 0)) (tttOpening 7) (request ''0'' ''clickCell'' [VF (9/2)]) () = Some (st', None, ()) \<and>
    tttAbs st' = (['''', '''', '''', '''', ''X'', '''', '''', '''', ''''], ''1'', VNil)"
proof -
  have "tttRequest (\<lambda>_. 0) (tttOpening 7) (request ''0'' ''clickCell'' [VF (9/2)]) = Some 4" by code_simp
  with tictactoe_refines [OF tttOpening_good(1), of "\<lambda>_. 0" 7 "request ''0'' ''clickCell'' [VF (9/2)]" "()"]
  obtain st' where ok: "Apply (tictactoe (\<lambda>_. 0)) (tttOpening 7) (request ''0'' ''clickCell'' [VF (9/2)]) () = Some (st', None, ())"
    "tttAbs st' = tttPlay 4 (tttAbs (tttOpening 7))" by auto
  moreover have "tttPlay 4 (tttAbs (tttOpening 7)) = (['''', '''', '''', '''', ''X'', '''', '''', '''', ''''], ''1'', VNil)"
    by code_simp
  ultimately show ?thesis by auto
qed

lemma tttRequest_free:
  "tttRequest cvt st req = Some i \<Longrightarrow> i < 9 \<and> Cells (G st) ! i = '''' \<and> Gameover (Ctx st) = VNil"
  by (auto simp: tttRequest_def chosenCell_def split: if_splits list.splits option.splits)

definition tttCounted :: "nat \<Rightarrow> string list \<times> string \<times> goval \<Rightarrow> bool" where
  "tttCounted n b \<longleftrightarrow> boardOk b \<and> n + count_list (fst b) '''' = 9"

lemma tttCounted_play:
  assumes "tttCounted n (tttAbs st)" "tttRequest cvt st req = Some i"
  shows "tttCounted (Suc n) (tttPlay i (tttAbs st))"
proof -
  have "tttAbs st = (Cells (G st), CurrentPlayer (Ctx st), VNil)" "i < 9" "Cells (G st) ! i = ''''"
    using tttRequest_free [OF assms(2)] by (auto simp: tttAbs_def)
  then show ?thesis
    using assms(1) boardOk_play [of "Cells (G st)" "CurrentPlayer (Ctx st)" i] by (simp add: tttCounted_def)
qed

lemma tttCounted_opening: "tttCounted 0 (replicate 9 '''', ''0'', VNil)"
  by code_simp

text \<open>
  C19. Every match of tic-tac-toe is fair and ends. However it was started and whatever moves
  were accepted since: there were at most nine of them, one per mark on the board; X has moved
  as often as O, or once more; the game goes on exactly while there is no line and a free
  cell, with the player to move whose turn it is by the count of marks; and when the game is
  over the reported winner owns the line on the board, or the board is full without one.
\<close>

theorem tictactoe_fair:
  assumes "NewMatchSeeded (tictactoe cvt) n data seed h = Some (st0, h0)" "playAll (tictactoe cvt) reqs st0 h0 = Some (st, h')"
  shows "length reqs + count_list (Cells (G st)) '''' = 9 \<and>
    (if Gameover (Ctx st) = VNil
     then tttWinner (Cells (G st)) = '''' \<and> '''' \<in> set (Cells (G st)) \<and>
       CurrentPlayer (Ctx st) = (if count_list (Cells (G st)) ''X'' = count_list (Cells (G st)) ''O'' then ''0'' else ''1'')
     else if tttWinner (Cells (G st)) = ''''
       then '''' \<notin> set (Cells (G st)) \<and> Gameover (Ctx st) = VMap [(''draw'', VBool True)]
     else tttWinner (Cells (G st)) = markOf (CurrentPlayer (Ctx st)) \<and>
       Gameover (Ctx st) = VMap [(''winner'', VStr (CurrentPlayer (Ctx st)))]) \<and>
    count_list (Cells (G st)) ''O'' \<le> count_list (Cells (G st)) ''X'' \<and>
    count_list (Cells (G st)) ''X'' \<le> count_list (Cells (G st)) ''O'' + 1"
proof -
  have "st0 = tttOpening seed" using assms(1) by (simp add: ttt_NewMatch)
  then have "tttCounted (length reqs) (tttAbs st)"
    using ttt.playAll_counted [OF assms(2), of tttCounted] tttOpening_good tttOpening_ok tttCounted_opening tttCounted_play by simp
  then have "boardOk (tttAbs st)" "length reqs + count_list (Cells (G st)) '''' = 9"
    by (simp_all add: tttCounted_def tttAbs_def)
  then show ?thesis
    by (auto simp: boardOk_def tttAbs_def tttVerdict_def list_all_iff markOf_def split: if_splits)
qed

text \<open>
  What a bot is offered is what it may do: while the game is on, the enumerated actions of
  a player are exactly the cells whose click the engine accepts from them, and the player to
  move is offered at least one.
\<close>

theorem tictactoe_enumerates:
  fixes h :: 'h
  assumes "tttGood st" "boardOk (tttAbs st)" "Gameover (Ctx st) = VNil"
  shows "(\<lparr>eaMove = ''clickCell'', eaArgs = [VI k]\<rparr> \<in> set (tttEnumerate (G st) (Ctx st) pid) \<longleftrightarrow>
      (\<exists>st' h'. Apply (tictactoe cvt) st (request pid ''clickCell'' [VI k]) h = Some (st', None, h'))) \<and>
    tttEnumerate (G st) (Ctx st) (CurrentPlayer (Ctx st)) \<noteq> []"
proof
  have l: "length (Cells (G st)) = 9" using assms(1) by (simp add: tttGood_def)
  let ?req = "request pid ''clickCell'' [VI k]"
  have "\<lparr>eaMove = ''clickCell'', eaArgs = [VI k]\<rparr> \<in> set (tttEnumerate (G st) (Ctx st) pid) \<longleftrightarrow>
      pid = CurrentPlayer (Ctx st) \<and> 0 \<le> k \<and> k \<le> 8 \<and> Cells (G st) ! nat k = ''''"
    using l by (auto simp: tttEnumerate_def image_iff intro!: exI [of _ "nat k"])
  also have "\<dots> \<longleftrightarrow> tttRequest cvt st ?req \<noteq> None"
    using assms(3) by (simp add: tttRequest_def request_def chosenCell_def)
  also have "\<dots> \<longleftrightarrow> (\<exists>st' h'. Apply (tictactoe cvt) st ?req h = Some (st', None, h'))"
    using ttt_Apply_legal [OF assms(1), of cvt ?req _ h] ttt_Apply_illegal [OF assms(1), of cvt ?req h] by fastforce
  finally show "\<lparr>eaMove = ''clickCell'', eaArgs = [VI k]\<rparr> \<in> set (tttEnumerate (G st) (Ctx st) pid) \<longleftrightarrow>
      (\<exists>st' h'. Apply (tictactoe cvt) st ?req h = Some (st', None, h'))" .
  have "'''' \<in> set (Cells (G st))" using assms(2,3) by (simp add: boardOk_def tttAbs_def)
  then show "tttEnumerate (G st) (Ctx st) (CurrentPlayer (Ctx st)) \<noteq> []"
    by (auto simp: tttEnumerate_def filter_empty_conv in_set_conv_nth)
qed

theorem tictactoe_enumerates_witness:
  "\<exists>st' h'. Apply (tictactoe (\<lambda>_. 0)) (tttOpening 7) (request ''0'' ''clickCell'' [VI 8]) () = Some (st', None, h')"
proof -
  have "\<lparr>eaMove = ''clickCell'', eaArgs = [VI 8]\<rparr> \<in> set (tttEnumerate (G (tttOpening 7)) (Ctx (tttOpening 7)) ''0'')" by code_simp
  moreover have "Gameover (Ctx (tttOpening 7)) = VNil" by code_simp
  ultimately show ?thesis
    using tictactoe_enumerates [of "tttOpening 7" 8 "''0''" "\<lambda>_. 0" "()"] tttOpening_good tttOpening_ok by simp
qed

text \<open>A game won by player 0 on the top row, and a game that fills the board.\<close>

definition clicks :: "int list \<Rightarrow> moveRequest list" where
  "clicks ks = map (\<lambda>(i, k). request (if even i then ''0'' else ''1'') ''clickCell'' [VI k]) (enumerate 0 ks)"

theorem tictactoe_fair_witness:
  "\<exists>st. playAll (tictactoe (\<lambda>_. 0)) (clicks [0, 4, 1, 5, 2]) (tttOpening 7) () = Some (st, ()) \<and>
    tttWinner (Cells (G st)) = markOf (CurrentPlayer (Ctx st)) \<and> Gameover (Ctx st) = VMap [(''winner'', VStr ''0'')]"
proof -
  have e: "map_option (\<lambda>(st, h). (Cells (G st), CurrentPlayer (Ctx st))) (playAll (tictactoe (\<lambda>_. 0)) (clicks [0, 4, 1, 5, 2]) (tttOpening 7) ()) =
    Some ([''X'', ''X'', ''X'', '''', ''O'', ''O'', '''', '''', ''''], ''0'')" by code_simp
  then obtain st where p: "playAll (tictactoe (\<lambda>_. 0)) (clicks [0, 4, 1, 5, 2]) (tttOpening 7) () = Some (st, ())"
    and c: "Cells (G st) = [''X'', ''X'', ''X'', '''', ''O'', ''O'', '''', '''', '''']" "CurrentPlayer (Ctx st) = ''0''" by auto
  have "tttWinner (Cells (G st)) = ''X''" unfolding c by code_simp
  with tictactoe_fair [OF ttt_NewMatch p] p c(2) show ?thesis by (auto simp: markOf_def split: if_splits)
qed

end
