(* ===== verification/Rps.thy ===== *)
theory Rps
  imports GameContract Views
begin

text \<open>
  Rock-paper-scissors (\<open>games/rps/rps.go\<close>), the reference game for simultaneous actions: every
  seat is active with a budget of one move, the last throw of a round queues a server-only move
  that resolves it in the same call of the reducer, and \<open>PlayerView\<close> together with redacted log
  entries keeps the throws secret until then. Maps are traversed in list order; the loops over
  them do not depend on it.
\<close>

section \<open>The game\<close>

record rpsState =
  rpPending :: "string gomap"
  rpScores :: "int gomap"
  rpLastRound :: "string gomap"
  rpRound :: int

definition winTarget :: int where
  "winTarget = 5"

definition validThrows :: "string list" where
  "validThrows = [''rock'', ''paper'', ''scissors'']"

definition beats :: "string \<Rightarrow> string \<Rightarrow> bool" where
  "beats a b = (if a = ''rock'' then b = ''scissors'' else if a = ''paper'' then b = ''rock''
     else if a = ''scissors'' then b = ''paper'' else False)"

definition copyAll :: "'v gomap \<Rightarrow> 'v gomap" where
  "copyAll m = fold (\<lambda>(k, v). mput k v) m []"

definition rpsClone :: "rpsState \<Rightarrow> rpsState" where
  "rpsClone s = \<lparr>rpPending = copyAll (rpPending s), rpScores = copyAll (rpScores s),
     rpLastRound = copyAll (rpLastRound s), rpRound = rpRound s\<rparr>"

text \<open>The argument of a throw: a string that names one of the three.\<close>

definition throwArg :: "goval list \<Rightarrow> string option" where
  "throwArg args = (case args of VStr t # _ \<Rightarrow> if t \<in> set validThrows then Some t else None | _ \<Rightarrow> None)"

definition submit :: "(rpsState, 'h) moveFn" where
  "submit mc args h =
     (case throwArg args of
        None \<Rightarrow> (Inl ErrInvalidMove, noEffects, h)
      | Some throw \<Rightarrow>
          (let s = rpsClone (mcG mc);
               s = s\<lparr>rpPending := mput (mcPlayerID mc) throw (rpPending s)\<rparr>
           in (Inr s, noEffects\<lparr>efOps := (if int (length (rpPending s)) = NumPlayers (mcCtx mc)
                                          then [OpPush '''' ''reveal'' []] else [])\<rparr>, h)))"

definition scoreOf :: "int gomap \<Rightarrow> string \<Rightarrow> int" where
  "scoreOf m p = (case map_of m p of Some n \<Rightarrow> n | None \<Rightarrow> 0)"

fun scoreAgainst :: "string \<Rightarrow> string \<Rightarrow> string gomap \<Rightarrow> int gomap \<Rightarrow> int gomap" where
  "scoreAgainst p throw [] sc = sc"
| "scoreAgainst p throw ((q, other) # rest) sc =
     scoreAgainst p throw rest (if p \<noteq> q \<and> beats throw other then mput p (scoreOf sc p + 1) sc else sc)"

definition scoreRound :: "string gomap \<Rightarrow> int gomap \<Rightarrow> int gomap" where
  "scoreRound pending sc = fold (\<lambda>(p, throw). scoreAgainst p throw pending) pending sc"

fun leaderLoop :: "string \<Rightarrow> int gomap \<Rightarrow> string" where
  "leaderLoop winner [] = winner"
| "leaderLoop winner ((p, n) # rest) =
     (if winTarget \<le> n then (if winner \<noteq> '''' then '''' else leaderLoop p rest) else leaderLoop winner rest)"

definition leader :: "int gomap \<Rightarrow> string" where
  "leader scores = leaderLoop '''' scores"

definition rpsResult :: "string \<Rightarrow> int gomap \<Rightarrow> goval" where
  "rpsResult w scores = VMap [(''winner'', VStr w), (''scores'', VMap (map (\<lambda>(p, n). (p, VI n)) scores))]"

definition reveal :: "(rpsState, 'h) moveFn" where
  "reveal mc args h =
     (let s = rpsClone (mcG mc);
          s = s\<lparr>rpScores := scoreRound (rpPending s) (rpScores s)\<rparr>;
          s = s\<lparr>rpLastRound := copyAll (rpPending s), rpPending := [], rpRound := rpRound s + 1\<rparr>;
          w = leader (rpScores s)
      in (Inr s, noEffects\<lparr>efEvents := (if w \<noteq> '''' then evEndGame [rpsResult w (rpScores s)] []
                                       else evSetActivePlayers ActivePlayersAllOnce [])\<rparr>, h))"

definition rpsEnumerate :: "rpsState \<Rightarrow> ctx \<Rightarrow> string \<Rightarrow> enumerateAction list" where
  "rpsEnumerate s c pid =
     (if mget (ActivePlayers c) pid = None then []
      else if map_of (rpPending s) pid \<noteq> None then []
      else map (\<lambda>t. \<lparr>eaMove = ''submit'', eaArgs = [VStr t]\<rparr>) validThrows)"

definition rpsPlayerView :: "rpsState \<Rightarrow> ctx \<Rightarrow> string \<Rightarrow> rpsState" where
  "rpsPlayerView s c pid =
     (rpsClone s)\<lparr>rpPending := (if pid = '''' then []
        else case map_of (rpPending s) pid of Some throw \<Rightarrow> [(pid, throw)] | None \<Rightarrow> [])\<rparr>"

definition rpsTurn :: "(rpsState, 'h) turnConfig" where
  "rpsTurn = \<lparr>tcOrder = \<lparr>toFirst = None, toNext = None, toPlayOrder = None\<rparr>, tcOnBegin = None, tcOnEnd = None,
     tcOnMove = None, tcEndIf = None, tcMinMoves = 0, tcMaxMoves = 0, tcTimeBudget = 0,
     tcActivePlayers = Some ActivePlayersAllOnce, tcStages = []\<rparr>"

definition submitMove :: "(rpsState, 'h) move" where
  "submitMove = (mkMove submit)\<lparr>mvRedact := FlagBool True\<rparr>"

definition revealMove :: "(rpsState, 'h) move" where
  "revealMove = (mkMove reveal)\<lparr>mvServerOnly := True, mvNoLimit := True\<rparr>"

definition rps :: "(rpsState, 'h) game" where
  "rps = \<lparr>gmName = ''rock-paper-scissors'', gmMinPlayers = 2, gmMaxPlayers = 4,
     gmSetup = Some (\<lambda>c d h. (\<lparr>rpPending = [], rpScores = [], rpLastRound = [], rpRound = 0\<rparr>, h)),
     gmNilG = \<lparr>rpPending = [], rpScores = [], rpLastRound = [], rpRound = 0\<rparr>, gmValidateSetupData = None,
     gmMoves = Some [(''submit'', RawMove submitMove), (''reveal'', RawMove revealMove)],
     gmTurn = Some rpsTurn, gmPhases = [], gmEndIf = None, gmOnEnd = None, gmOnUndo = None,
     gmPlayerView = Some rpsPlayerView, gmBlockView = None, gmSeed = VNil, gmDisableUndo = False, gmPlugins = [],
     gmEnumerate = Some rpsEnumerate\<rparr>"


lemma rps_simps [simp]:
  "gmPlugins rps = []" "gmPhases rps = []" "gmTurn rps = Some rpsTurn" "gmEndIf rps = None" "gmOnEnd rps = None"
  "gmMoves rps = Some [(''submit'', RawMove submitMove), (''reveal'', RawMove revealMove)]"
  "gmDisableUndo rps = False" "gmBlockView rps = None" "gmMinPlayers rps = 2" "gmMaxPlayers rps = 4" "gmPlayerView rps = Some rpsPlayerView"
  by (simp_all add: rps_def)

lemma rpsTurn_simps [simp]:
  "tcOnBegin rpsTurn = None" "tcOnEnd rpsTurn = None" "tcOnMove rpsTurn = None" "tcEndIf rpsTurn = None"
  "tcActivePlayers rpsTurn = Some ActivePlayersAllOnce" "tcMaxMoves rpsTurn = 0"
  by (simp_all add: rpsTurn_def)

lemma scope_rps [simp]: "scopeTurn rps ph = Some rpsTurn" "scopeMoves rps ph = gmMoves rps"
  by (simp_all add: scopeTurn_def scopeMoves_def)

lemma rps_moves [simp]:
  "mvMove submitMove = Some submit" "mvMove revealMove = Some reveal" "mvNoLimit submitMove = False" "mvNoLimit revealMove"
  "\<not> mvServerOnly submitMove" "mvServerOnly revealMove" "\<not> mvAnyPlayer submitMove" "\<not> mvAnyPlayer revealMove"
  "\<not> mvIgnoreBlocks submitMove" "\<not> mvIgnoreBlocks revealMove" "\<not> mvIgnoreStaleStateID submitMove" "\<not> mvIgnoreStaleStateID revealMove"
  by (simp_all add: submitMove_def revealMove_def mkMove_def)

section \<open>One round\<close>

lemma copyAll_id: "mwf m \<Longrightarrow> copyAll m = m"
  using fold_mput_fresh [of "[]" m] by (simp add: copyAll_def mwf_def)

definition rpsWf :: "rpsState \<Rightarrow> bool" where
  "rpsWf s \<longleftrightarrow> mwf (rpPending s) \<and> mwf (rpScores s) \<and> mwf (rpLastRound s)"

lemma rpsClone_id: "rpsWf s \<Longrightarrow> rpsClone s = s"
  by (simp add: rpsClone_def rpsWf_def copyAll_id)

text \<open>The points a throw earns against the others of a round.\<close>

definition pointsOf :: "(string \<rightharpoonup> string) \<Rightarrow> string \<Rightarrow> int" where
  "pointsOf pend p = (case pend p of None \<Rightarrow> 0
     | Some t \<Rightarrow> int (card {q. q \<noteq> p \<and> (\<exists>u. pend q = Some u \<and> beats t u)}))"

lemma scoreOf_mput [simp]: "scoreOf (mput p n m) q = (if q = p then n else scoreOf m q)"
  by (simp add: scoreOf_def)

lemma mwf_scoreAgainst: "mwf sc \<Longrightarrow> mwf (scoreAgainst p t pend sc)"
  by (induction p t pend sc rule: scoreAgainst.induct) auto

lemma scoreAgainst_spec:
  "mwf pend \<Longrightarrow> scoreOf (scoreAgainst p t pend sc) r =
     scoreOf sc r + (if r = p then int (card {q. q \<noteq> p \<and> (\<exists>u. map_of pend q = Some u \<and> beats t u)}) else 0)"
proof (induction p t pend sc rule: scoreAgainst.induct)
  case (2 p t q u rest sc)
  let ?S = "{q. q \<noteq> p \<and> (\<exists>u. map_of rest q = Some u \<and> beats t u)}"
  have rest: "mwf rest" "map_of rest q = None" using 2(2) by (auto simp: mwf_def map_of_eq_None_iff)
  have fin: "finite ?S" by (rule finite_subset [OF _ finite_dom_map_of [of rest]]) auto
  have "{x. x \<noteq> p \<and> (\<exists>w. map_of ((q, u) # rest) x = Some w \<and> beats t w)} = (if p \<noteq> q \<and> beats t u then insert q ?S else ?S)"
    using rest(2) by auto
  moreover have "q \<notin> ?S" using rest(2) by auto
  ultimately show ?case using 2(1) [OF rest(1)] fin by auto
qed simp

lemma scoreRound_spec:
  assumes "mwf pend"
  shows "scoreOf (scoreRound pend sc) r = scoreOf sc r + pointsOf (map_of pend) r"
proof -
  have "scoreOf (fold (\<lambda>(p, t). scoreAgainst p t pend) xs sc) r = scoreOf sc r +
      (case map_of xs r of None \<Rightarrow> 0 | Some t \<Rightarrow> int (card {q. q \<noteq> r \<and> (\<exists>u. map_of pend q = Some u \<and> beats t u)}))"
    if "mwf xs" for xs
    using that
  proof (induction xs arbitrary: sc)
    case (Cons x xs)
    obtain p t where x: "x = (p, t)" by (cases x)
    have "mwf xs" "map_of xs p = None" using Cons.prems x by (auto simp: mwf_def map_of_eq_None_iff)
    then show ?case using Cons.IH x scoreAgainst_spec [OF assms] by (auto split: option.split)
  qed simp
  then show ?thesis using assms by (simp add: scoreRound_def pointsOf_def)
qed

lemma mwf_scoreRound: "mwf sc \<Longrightarrow> mwf (scoreRound pend sc)"
proof -
  have "mwf sc \<Longrightarrow> mwf (fold (\<lambda>(p, t). scoreAgainst p t pend) xs sc)" for xs
    by (induction xs arbitrary: sc) (auto intro: mwf_scoreAgainst)
  then show "mwf sc \<Longrightarrow> mwf (scoreRound pend sc)" by (simp add: scoreRound_def)
qed

text \<open>Exactly one player has reached the target.\<close>

definition soleLeader :: "(string \<Rightarrow> int) \<Rightarrow> string \<Rightarrow> bool" where
  "soleLeader sc p \<longleftrightarrow> {q. winTarget \<le> sc q} = {p}"

lemma leaderLoop_spec:
  assumes "mwf m" "map_of m '''' = None" "w \<noteq> '''' \<longrightarrow> map_of m w = None"
  shows "leaderLoop w m = (let S = {q. \<exists>n. map_of m q = Some n \<and> winTarget \<le> n} \<union> (if w = '''' then {} else {w})
     in if is_singleton S then the_elem S else '''')"
  using assms
proof (induction w m rule: leaderLoop.induct)
  case (2 w p n rest)
  have r: "mwf rest" "map_of rest p = None" "p \<noteq> ''''" "map_of rest '''' = None" "w \<noteq> '''' \<longrightarrow> map_of rest w = None \<and> w \<noteq> p"
    using 2(3-5) by (auto simp: mwf_def map_of_eq_None_iff split: if_splits)
  let ?R = "{q. \<exists>n. map_of rest q = Some n \<and> winTarget \<le> n}"
  have S: "{q. \<exists>k. map_of ((p, n) # rest) q = Some k \<and> winTarget \<le> k} = (if winTarget \<le> n then insert p ?R else ?R)"
    using r(2) by auto
  show ?case
  proof (cases "winTarget \<le> n \<and> w \<noteq> ''''")
    case True
    then have "\<not> is_singleton (insert p ?R \<union> {w})" using r(5) by (auto simp: is_singleton_def)
    then show ?thesis using True S by (simp add: Let_def)
  next
    case False
    show ?thesis
    proof (cases "winTarget \<le> n")
      case True
      then have w: "w = ''''" using False by simp
      have "?R \<union> {p} = insert p ?R" by blast
      then show ?thesis using True w S r(3) 2(1) [OF True _ r(1,4)] r(2) by simp
    next
      case low: False
      then have "leaderLoop w ((p, n) # rest) = leaderLoop w rest" by simp
      also have "\<dots> = (let S = ?R \<union> (if w = '''' then {} else {w}) in if is_singleton S then the_elem S else '''')"
        using 2(2) [OF low r(1,4)] r(5) by blast
      finally show ?thesis unfolding S using low by simp
    qed
  qed
qed (simp add: is_singleton_def)

lemma leader_sole:
  assumes "mwf m" "map_of m '''' = None" "p \<noteq> ''''"
  shows "leader m = p \<longleftrightarrow> soleLeader (scoreOf m) p"
proof -
  have S: "{q. \<exists>n. map_of m q = Some n \<and> winTarget \<le> n} = {q. winTarget \<le> scoreOf m q}"
    by (auto simp: scoreOf_def winTarget_def split: option.splits)
  have "leader m = (let S = {q. winTarget \<le> scoreOf m q} in if is_singleton S then the_elem S else '''')"
    using leaderLoop_spec [OF assms(1,2), of "''''"] S by (simp add: leader_def)
  then show ?thesis using assms(3) by (simp add: soleLeader_def Let_def is_singleton_the_elem) (metis the_elem_eq is_singleton_def is_singleton_the_elem)
qed


section \<open>The engine between throws\<close>

text \<open>The seats that still have to throw, and the active set as the engine keeps it for them.\<close>

definition waiting :: "rpsState state \<Rightarrow> string list" where
  "waiting st = filter (\<lambda>p. map_of (rpPending (G st)) p = None) (PlayOrder (Ctx st))"

definition armedFor :: "string list \<Rightarrow> rpsState state \<Rightarrow> bool" where
  "armedFor w st \<longleftrightarrow> ActivePlayers (Ctx st) = Some (map (\<lambda>p. (p, '''')) w) \<and>
     StageMinMoves st = Some (map (\<lambda>p. (p, 1)) w) \<and> StageMaxMoves st = Some (map (\<lambda>p. (p, 1)) w) \<and>
     (MoveCounts st = None \<or> MoveCounts st = Some [])"

definition rpsQuiet :: "rpsState state \<Rightarrow> bool" where
  "rpsQuiet st \<longleftrightarrow> Phase (Ctx st) = '''' \<and> Queue st = [] \<and> Blocks st = [] \<and> Plugins st = None \<and> ActiveStack st = [] \<and>
     PendingNext st = None \<and> distinct (PlayOrder (Ctx st)) \<and> PlayOrder (Ctx st) \<noteq> [] \<and> '''' \<notin> set (PlayOrder (Ctx st)) \<and>
     NumPlayers (Ctx st) = int (length (PlayOrder (Ctx st)))"

definition rpsTable :: "rpsState \<Rightarrow> string list \<Rightarrow> bool" where
  "rpsTable s ps \<longleftrightarrow> rpsWf s \<and> set (mkeys (rpPending s)) \<subseteq> set ps \<and> set (mkeys (rpScores s)) \<subseteq> set ps"

definition rpsGood :: "rpsState state \<Rightarrow> bool" where
  "rpsGood st \<longleftrightarrow> rpsQuiet st \<and> rpsTable (G st) (PlayOrder (Ctx st)) \<and>
     (Gameover (Ctx st) = VNil \<longrightarrow> waiting st \<noteq> [] \<and> armedFor (waiting st) st)"

lemma map_of_const: "map_of (map (\<lambda>p. (p, c)) w) p = (if p \<in> set w then Some c else None)"
  by (induction w) auto

lemma mdel_const: "mdel p (map (\<lambda>p. (p, c)) w) = map (\<lambda>p. (p, c)) (filter (\<lambda>q. q \<noteq> p) w)"
  by (induction w) (auto simp: mdel_def AList.delete_eq)

lemma mwf_const: "distinct w \<Longrightarrow> mwf (map (\<lambda>p. (p, c)) w)"
  by (simp add: mwf_def comp_def)

lemma armed_own: "armedFor w st \<Longrightarrow> distinct w \<Longrightarrow> Plugins st = None \<Longrightarrow> ActiveStack st = [] \<Longrightarrow> ownContainers st = st"
  by (rule ownContainers_id) (auto simp: armedFor_def maps_wf_def mwf_const)

text \<open>A throw retires exactly the thrower.\<close>

lemma autoEndLoop_one:
  "distinct ks \<Longrightarrow> p \<in> set ks \<Longrightarrow> (\<And>q. q \<in> set ks \<Longrightarrow> budgetSpent st q \<longleftrightarrow> q = p) \<Longrightarrow>
   autoEndLoop ks st ch = (dropActive st p, True)"
proof (induction ks arbitrary: ch)
  case (Cons k ks)
  have none: "autoEndLoop ks s ch = (s, ch)" if "\<And>q. q \<in> set ks \<Longrightarrow> \<not> budgetSpent s q" for s :: "'a state" and ch ks
    using that by (induction ks) auto
  show ?case
  proof (cases "k = p")
    case True
    then have "\<not> budgetSpent (dropActive st p) q" if "q \<in> set ks" for q
      using that Cons.prems by (auto simp: budgetSpent_dropActive)
    then show ?thesis using True Cons.prems(3) none [of ks "dropActive st p" True] by simp
  next
    case False
    then have k: "\<not> budgetSpent st k" using Cons.prems(3) [of k] by simp
    then show ?thesis using False Cons.IH [of ch] Cons.prems by simp
  qed
qed simp

definition tallied :: "string \<Rightarrow> rpsState state \<Rightarrow> rpsState state" where
  "tallied p st = bumpStageMoveCount (st\<lparr>Ctx := (Ctx st)\<lparr>NumMoves := NumMoves (Ctx st) + 1\<rparr>\<rparr>) p"

lemma countMove_submit [simp]: "countMove submitMove p st = tallied p st"
  by (simp add: countMove_def tallied_def)

definition thrown :: "string \<Rightarrow> rpsState state \<Rightarrow> rpsState state" where
  "thrown p st = (let st = dropActive (tallied p st) p
     in if ActivePlayers (Ctx st) = Some [] then drainActivePlayers st else st)"

lemma rps_autoEnd:
  assumes "armedFor w st" "distinct w" "p \<in> set w"
  shows "autoEndStagesByMaxMoves (tallied p st) = thrown p st"
proof -
  let ?s = "tallied p st"
  have a: "ActivePlayers (Ctx ?s) = Some (map (\<lambda>p. (p, '''')) w)" "StageMaxMoves ?s = Some (map (\<lambda>p. (p, 1)) w)"
    using assms(1) by (simp_all add: armedFor_def tallied_def bumpStageMoveCount_def)
  have m: "mget (MoveCounts ?s) q = (if q = p then Some 1 else None)" for q
    using assms by (auto simp: armedFor_def tallied_def bumpStageMoveCount_def map_of_const)
  have "budgetSpent ?s q \<longleftrightarrow> q = p" if "q \<in> set w" for q
    using that m [of q] a(2) by (auto simp: budgetSpent_def map_of_const)
  then have "autoEndLoop w ?s False = (dropActive ?s p, True)"
    using assms(2,3) by (intro autoEndLoop_one) simp_all
  then show ?thesis using a(1) by (simp add: autoEndStagesByMaxMoves_def thrown_def Let_def mkeys_def comp_def)
qed

lemma settle_submit:
  assumes "armedFor w st" "distinct w" "p \<in> set w" "Phase (Ctx st) = ''''" "Gameover (Ctx st) = VNil" "Blocks st = []"
    "envEvents env = []"
  shows "settleMove rps st submitMove p mc env =
    Some ((thrown p st)\<lparr>Log := Log (thrown p st) @ mcExtra mc\<rparr>, env)"
proof -
  have g: "Gameover (Ctx (thrown p st)) = VNil" "Phase (Ctx (thrown p st)) = ''''" "Blocks (thrown p st) = []"
    using assms(4-6)
    by (auto simp: thrown_def Let_def drainActivePlayers_def dropActive_def tallied_def bumpStageMoveCount_def split: option.split)
  have c: "Gameover (Ctx (tallied p st)) = VNil" "Phase (Ctx (tallied p st)) = ''''"
    using assms(4,5) by (simp_all add: tallied_def bumpStageMoveCount_def)
  have e: "endChecks rps (tallied p st) submitMove p env = Some (thrown p st, env)"
    using g c rps_autoEnd [OF assms(1-3)]
    by (simp add: endChecks_def checkGameEndIf_def checkPhaseEndIf_def checkTurnAutoEnd_def Let_def)
  show ?thesis using assms(7) e g
    by (simp add: settleMove_def runOnMove_def turnHook_def drainEvents_done withoutBlocksFor_def Let_def)
qed


section \<open>Resolving a round\<close>

definition resolved :: "rpsState \<Rightarrow> rpsState" where
  "resolved s = s\<lparr>rpScores := scoreRound (rpPending s) (rpScores s), rpLastRound := rpPending s, rpPending := [],
     rpRound := rpRound s + 1\<rparr>"

definition revealed :: "rpsState state \<Rightarrow> rpsState state" where
  "revealed st = (let s = resolved (G st); w = leader (rpScores s)
     in if w \<noteq> '''' then st\<lparr>G := s, Ctx := (Ctx st)\<lparr>Gameover := rpsResult w (rpScores s)\<rparr>\<rparr>
        else applySetActivePlayers (st\<lparr>G := s\<rparr>) ActivePlayersAllOnce)"

definition revealEvent :: "rpsState \<Rightarrow> event" where
  "revealEvent s = (let w = leader (rpScores s)
     in if w \<noteq> '''' then EvEndGame (rpsResult w (rpScores s)) else EvSetActivePlayers ActivePlayersAllOnce)"

lemma reveal_eq:
  assumes "rpsWf (mcG mc)"
  shows "reveal mc args h = (Inr (resolved (mcG mc)), noEffects\<lparr>efEvents := [revealEvent (resolved (mcG mc))]\<rparr>, h)"
  using assms
  by (simp add: reveal_def rpsClone_id resolved_def copyAll_id rpsWf_def revealEvent_def evEndGame_def evSetActivePlayers_def Let_def)

lemma submit_eq:
  assumes "rpsWf (mcG mc)" "throwArg args = Some t"
  shows "submit mc args h = (Inr ((mcG mc)\<lparr>rpPending := mput (mcPlayerID mc) t (rpPending (mcG mc))\<rparr>),
    noEffects\<lparr>efOps := (if int (length (mput (mcPlayerID mc) t (rpPending (mcG mc)))) = NumPlayers (mcCtx mc)
       then [OpPush '''' ''reveal'' []] else [])\<rparr>, h)"
  using assms by (simp add: submit_def rpsClone_id Let_def)

lemma drain_reveal:
  assumes "envEvents env = [revealEvent (resolved g)]" "G st = resolved g"
  shows "\<exists>mc'. drainEvents rps st mc env = Some (revealed (st\<lparr>G := g\<rparr>), mc', env\<lparr>envEvents := []\<rparr>) \<and>
    mcExtra mc' = mcExtra mc"
proof -
  have "st\<lparr>G := resolved g\<rparr> = st" using assms(2) by simp
  then show ?thesis using assms(1)
    by (subst drainEvents.simps)
      (simp add: evDrain_def applyEvent_def revealEvent_def revealed_def refresh_def runGameOnEnd_def runHookOpt_def drainEvents_done Let_def)
qed


lemma applyStep_reveal:
  assumes "rpsWf (G st)"
  shows "applyStep rps st \<lparr>qaPlayerID = '''', qaMove = ''reveal'', qaArgs = []\<rparr> parent h =
    Some (Inr (revealed (st\<lparr>Log := Log st @
      [stepEntry \<lparr>qaPlayerID = '''', qaMove = ''reveal'', qaArgs = []\<rparr> (Ctx st) (authorizedStageDrain (Ctx st) '''') parent]\<rparr>)), h)"
proof -
  let ?a = "\<lparr>qaPlayerID = '''', qaMove = ''reveal'', qaArgs = []\<rparr>"
  let ?l = "Log st @ [stepEntry ?a (Ctx st) (authorizedStageDrain (Ctx st) '''') parent]"
  let ?mc = "\<lparr>mcG = G st, mcCtx = Ctx st, mcPlayerID = '''', mcPlugins = None, mcQueue = Some emptyQueue,
                    mcResumingBlock = None, mcExtra = [], mcChainedMoves = 0\<rparr>"
  let ?env = "\<lparr>envEvents = [revealEvent (resolved (G st))], envQueue = emptyQueue, envDrops = None, envPlugins = None, envHeap = h\<rparr>"
  have res: "fst (resolveMove rps (Ctx st) stage ''reveal'') = Inr revealMove" for stage
    by (simp add: resolveMove_def stageEntry_def lookupStage_def rpsTurn_def)
  have "\<exists>mc'. drainEvents rps (st\<lparr>G := resolved (G st), Log := ?l\<rparr>) (?mc\<lparr>mcG := resolved (G st), mcExtra := []\<rparr>) ?env =
      Some (revealed (st\<lparr>G := resolved (G st), Log := ?l, G := G st\<rparr>), mc', ?env\<lparr>envEvents := []\<rparr>) \<and>
      mcExtra mc' = mcExtra (?mc\<lparr>mcG := resolved (G st), mcExtra := []\<rparr>)"
    by (rule drain_reveal) simp_all
  moreover have "st\<lparr>G := resolved (G st), Log := ?l, G := G st\<rparr> = st\<lparr>Log := ?l\<rparr>" by simp
  ultimately obtain mc' where d: "drainEvents rps (st\<lparr>G := resolved (G st), Log := ?l\<rparr>) (?mc\<lparr>mcG := resolved (G st), mcExtra := []\<rparr>) ?env =
      Some (revealed (st\<lparr>Log := ?l\<rparr>), mc', ?env\<lparr>envEvents := []\<rparr>)" "mcExtra mc' = []"
    by auto

  have f: "Log (revealed s) = Log s" "Queue (revealed s) = Queue s" "Blocks (revealed s) = Blocks s" for s
    by (simp_all add: revealed_def Let_def)
  show ?thesis
    using d f
    by (simp add: applyStep_def res buildPluginAPIs_def applyFnWrapMove_def reveal_eq assms flushPlugins_def validatePlugins_def
        perform_def noEffects_def loggedBy_def harvestQueue_def qDrain_def emptyQueue_def Let_def)
qed

lemma activeMap_all:
  assumes "distinct (PlayOrder c)"
  shows "activeMap c ActivePlayersAllOnce = map (\<lambda>p. (p, '''')) (PlayOrder c)"
proof -
  have "fold (\<lambda>p. mput p s) ps m = m @ map (\<lambda>p. (p, s)) ps" if "distinct (map fst m @ ps)" for ps and s :: string and m
    using that
  proof (induction ps arbitrary: m)
    case (Cons p ps)
    then have "mput p s m = m @ [(p, s)]" by (intro mput_fresh) auto
    then show ?case using Cons.IH [of "m @ [(p, s)]"] Cons.prems by simp
  qed simp
  from this [of "[]"] assms show ?thesis by (simp add: activeMap_def ActivePlayersAllOnce_def StageNull_def)
qed

lemma stageLimits_one:
  assumes "distinct ps"
  shows "stageLimits 1 None ps = map (\<lambda>p. (p, 1)) ps"
proof -
  have "fold (\<lambda>pid m. let m = (if 0 < (1::int) then mput pid 1 m else m)
      in case mget None pid of Some v \<Rightarrow> mput pid v m | None \<Rightarrow> m) ps m = m @ map (\<lambda>p. (p, 1)) ps"
    if "distinct (map fst m @ ps)" for ps and m :: "int gomap"
    using that
  proof (induction ps arbitrary: m)
    case (Cons p ps)
    then have "mput p 1 m = m @ [(p, 1)]" by (intro mput_fresh) auto
    then show ?case using Cons.IH [of "m @ [(p, 1)]"] Cons.prems by simp
  qed simp
  from this [of "[]"] assms show ?thesis by (simp add: stageLimits_def)
qed

lemma rearmed:
  assumes "distinct (PlayOrder (Ctx st))" "PlayOrder (Ctx st) \<noteq> []"
  shows "armedFor (PlayOrder (Ctx st)) (applySetActivePlayers st ActivePlayersAllOnce)"
  using assms
  by (simp add: armedFor_def applySetActivePlayers_def activeMap_all mkeys_def comp_def stageLimits_one nilIfEmpty_def Let_def)
    (simp add: ActivePlayersAllOnce_def stageLimits_one)


section \<open>A throw\<close>

lemma thrown_fields:
  assumes "ActiveStack st = []" "PendingNext st = None"
  shows "G (thrown p st) = G st" "Queue (thrown p st) = Queue st" "Blocks (thrown p st) = Blocks st" "Plugins (thrown p st) = Plugins st"
    "Log (thrown p st) = Log st" "StateID (thrown p st) = StateID st" "Undone (thrown p st) = Undone st"
    "TurnSnapshots (thrown p st) = TurnSnapshots st" "ActiveStack (thrown p st) = []" "PendingNext (thrown p st) = None"
    "\<exists>a. Ctx (thrown p st) = (Ctx st)\<lparr>NumMoves := NumMoves (Ctx st) + 1, ActivePlayers := a\<rparr>"
    "rawG (thrown p st) = rawG st" "rawPlugins (thrown p st) = rawPlugins st"
  using assms
  by (simp_all add: thrown_def Let_def drainActivePlayers_def dropActive_def tallied_def bumpStageMoveCount_def)
    (metis ctx.surjective ctx.update_convs(6,9))+

lemma thrown_active:
  assumes "armedFor w st" "p \<in> set w" "ActiveStack st = []" "PendingNext st = None"
  shows "if filter (\<lambda>q. q \<noteq> p) w = [] then ActivePlayers (Ctx (thrown p st)) = None \<and> MoveCounts (thrown p st) = None \<and>
       StageMinMoves (thrown p st) = None \<and> StageMaxMoves (thrown p st) = None
     else armedFor (filter (\<lambda>q. q \<noteq> p) w) (thrown p st)"
proof -
  let ?s = "dropActive (tallied p st) p"
  have "mdel p (mput p (1::int) []) = []" by (simp add: mdel_def mput_def)
  then have "MoveCounts ?s = Some []" "ActivePlayers (Ctx ?s) = Some (map (\<lambda>p. (p, '''')) (filter (\<lambda>q. q \<noteq> p) w))"
    "StageMinMoves ?s = Some (map (\<lambda>p. (p, 1)) (filter (\<lambda>q. q \<noteq> p) w))" "StageMaxMoves ?s = Some (map (\<lambda>p. (p, 1)) (filter (\<lambda>q. q \<noteq> p) w))"
    "ActiveStack ?s = []" "PendingNext ?s = None"
    using assms by (auto simp: armedFor_def dropActive_def tallied_def bumpStageMoveCount_def mdelo_def mputo_def mdel_const map_of_const)
  then show ?thesis by (simp add: thrown_def Let_def armedFor_def drainActivePlayers_def)
qed

definition throwing :: "moveRequest \<Rightarrow> string \<Rightarrow> rpsState state \<Rightarrow> rpsState state" where
  "throwing req t st = thrown (rqPlayerID req)
     (st\<lparr>G := (G st)\<lparr>rpPending := mput (rqPlayerID req) t (rpPending (G st))\<rparr>, StateID := StateID st + 1,
         Log := Log st @ [moveEntry req (Ctx st) True True], Undone := [],
         TurnSnapshots := TurnSnapshots st @ [cloneStateForSnapshot st]\<rparr>)"

definition roundFull :: "moveRequest \<Rightarrow> string \<Rightarrow> rpsState state \<Rightarrow> bool" where
  "roundFull req t st \<longleftrightarrow> int (length (mput (rqPlayerID req) t (rpPending (G st)))) = NumPlayers (Ctx st)"

definition afterThrow :: "moveRequest \<Rightarrow> string \<Rightarrow> rpsState state \<Rightarrow> rpsState state" where
  "afterThrow req t st = (let s = throwing req t st
     in if roundFull req t st
        then revealed (s\<lparr>Log := Log s @ [stepEntry \<lparr>qaPlayerID = '''', qaMove = ''reveal'', qaArgs = []\<rparr> (Ctx s) '''' (int (length (Log st)))]\<rparr>)
        else s)"

lemma rpsWf_pending: "rpsWf s \<Longrightarrow> rpsWf (s\<lparr>rpPending := mput p t (rpPending s)\<rparr>)"
  by (simp add: rpsWf_def)

lemma length_pending:
  assumes "rpsTable (G st) (PlayOrder (Ctx st))" "distinct (PlayOrder (Ctx st))" "p \<in> set (waiting st)"
  shows "length (mput p t (rpPending (G st))) = length (PlayOrder (Ctx st)) \<longleftrightarrow> filter (\<lambda>q. q \<noteq> p) (waiting st) = []"
proof -
  let ?m = "rpPending (G st)" let ?ps = "PlayOrder (Ctx st)"
  have p: "p \<in> set ?ps" "p \<notin> set (mkeys ?m)" using assms(3) by (auto simp: waiting_def mkeys_def map_of_eq_None_iff)
  have d: "distinct (mkeys ?m)" "set (mkeys ?m) \<subseteq> set ?ps" using assms(1) by (simp_all add: rpsTable_def rpsWf_def mwf_def mkeys_def)
  have "length (mput p t ?m) = card (insert p (set (mkeys ?m)))"
    using p(2) d(1) distinct_card [OF d(1)] by (simp add: mput_fresh mkeys_def)
  moreover have "length ?ps = card (set ?ps)" using assms(2) by (simp add: distinct_card)
  moreover have "insert p (set (mkeys ?m)) \<subseteq> set ?ps" using p d by auto
  ultimately have "length (mput p t ?m) = length ?ps \<longleftrightarrow> insert p (set (mkeys ?m)) = set ?ps"
    by (metis List.finite_set card_subset_eq)
  also have "\<dots> \<longleftrightarrow> filter (\<lambda>q. q \<noteq> p) (waiting st) = []"
    using p d(2) by (auto simp: waiting_def filter_empty_conv mkeys_def map_of_eq_None_iff)
  finally show ?thesis .
qed


lemma waiting_distinct: "rpsQuiet st \<Longrightarrow> distinct (waiting st)"
  by (simp add: rpsQuiet_def waiting_def)

lemma cascade_reveal:
  assumes "rpsWf (G st)" "Queue st = []" "Blocks st = []" "Gameover (Ctx st) = VNil" "ActivePlayers (Ctx st) = None"
    "maps_wf st"
  shows "drainCascade rps st (qPush '''' ''reveal'' [] emptyQueue) parent h =
    Some (revealed (st\<lparr>Log := Log st @ [stepEntry \<lparr>qaPlayerID = '''', qaMove = ''reveal'', qaArgs = []\<rparr> (Ctx st) '''' parent]\<rparr>), None, h)"
proof -
  let ?a = "\<lparr>qaPlayerID = '''', qaMove = ''reveal'', qaArgs = []\<rparr>"
  let ?q = "st\<lparr>Queue := [?a]\<rparr>"
  let ?r = "revealed (st\<lparr>Log := Log st @ [stepEntry ?a (Ctx st) '''' parent]\<rparr>)"
  have own: "ownContainers ?q = ?q" using assms(6) by (intro ownContainers_id) (simp add: maps_wf_def)
  have st: "?q\<lparr>Queue := tl (Queue ?q)\<rparr> = st" using assms(2) by simp
  have "Queue ?r = []" using assms(2) by (simp add: revealed_def Let_def)
  then have q: "quiescent ?r" by (simp add: quiescent_def)
  have n: "\<not> quiescent ?q" using assms(3,4) by (simp add: quiescent_def)
  have "applyStep rps (?q\<lparr>Queue := tl (Queue ?q)\<rparr>) (hd (Queue ?q)) parent h = Some (Inr ?r, h)"
    unfolding st using applyStep_reveal [OF assms(1), of parent h] assms(5) by (simp add: authorizedStageDrain_def)
  then have "cascadeLoop rps parent 200 ?q h = Some (Inr ?r, h)"
    using cascadeLoop_Suc [OF n, of rps parent 199 h] cascadeLoop_done [OF q, of rps parent 199 h] by simp
  moreover have "harvestQueue st (qPush '''' ''reveal'' [] emptyQueue) = ?q"
    using assms(2,3) by (simp add: harvestQueue_def qDrain_def qPush_def emptyQueue_def)
  ultimately show ?thesis using n own by (simp add: drainCascade_def MaxDrainDepth_def)
qed


lemma rps_throw:
  assumes good: "rpsGood st" "Gameover (Ctx st) = VNil" and p: "rqPlayerID req \<in> set (waiting st)"
    and t: "throwArg (rqArgs req) = Some t"
  shows "runMove rps st submitMove None req h = Some (Inr (afterThrow req t st), h)"
proof -
  let ?p = "rqPlayerID req" let ?g = "(G st)\<lparr>rpPending := mput ?p t (rpPending (G st))\<rparr>"
  have q: "rpsQuiet st" "rpsTable (G st) (PlayOrder (Ctx st))" "armedFor (waiting st) st" using good by (simp_all add: rpsGood_def)
  have d: "distinct (waiting st)" using q(1) by (rule waiting_distinct)
  have own: "st = ownContainers st" using armed_own [OF q(3) d] q(1) by (simp add: rpsQuiet_def)
  have wf: "rpsWf (G st)" using q(2) by (simp add: rpsTable_def)
  define mc where "mc = \<lparr>mcG = G st, mcCtx = Ctx st, mcPlayerID = ?p, mcPlugins = None, mcQueue = Some emptyQueue,
                mcResumingBlock = None, mcExtra = [], mcChainedMoves = 0\<rparr>"
  define ef where "ef = noEffects\<lparr>efOps := (if roundFull req t st then [OpPush '''' ''reveal'' []] else [])\<rparr>"
  define env where "env = \<lparr>envEvents = [], envQueue = (if roundFull req t st then qPush '''' ''reveal'' [] emptyQueue else emptyQueue),
      envDrops = Some [], envPlugins = None, envHeap = h\<rparr>"
  let ?s0 = "st\<lparr>G := ?g, StateID := StateID st + 1, Log := Log st @ [moveEntry req (Ctx st) True True], Undone := [],
         TurnSnapshots := TurnSnapshots st @ [cloneStateForSnapshot st]\<rparr>"
  have call: "submit mc (rqArgs req) h = (Inr ?g, ef, h)"
    using submit_eq [of mc "rqArgs req" t h] wf t by (simp add: mc_def ef_def roundFull_def)
  have s0: "armedFor (waiting st) ?s0" "ActiveStack ?s0 = []" "PendingNext ?s0 = None"
    using q by (simp_all add: armedFor_def rpsQuiet_def)
  have settle: "settleMove rps ?s0 submitMove ?p (mc\<lparr>mcG := ?g, mcExtra := loggedBy mc ef\<rparr>)
      (perform ef h \<lparr>envEvents = [], envQueue = emptyQueue, envDrops = Some [], envPlugins = None, envHeap = h\<rparr>) = Some (throwing req t st, env)"
    using settle_submit [OF s0(1) d p, of "perform ef h \<lparr>envEvents = [], envQueue = emptyQueue, envDrops = Some [], envPlugins = None, envHeap = h\<rparr>"]
      q(1) good(2) by (simp add: perform_def ef_def noEffects_def env_def loggedBy_def throwing_def rpsQuiet_def)
  note f = thrown_fields [OF s0(2,3), of ?p, folded throwing_def]
  obtain a where a: "Ctx (throwing req t st) = (Ctx st)\<lparr>NumMoves := NumMoves (Ctx st) + 1, ActivePlayers := a\<rparr>" using f(11) by auto
  have casc: "drainCascade rps (throwing req t st) (envQueue env) (int (length (Log st))) (envHeap env) = Some (afterThrow req t st, None, h)"
  proof (cases "roundFull req t st")
    case True
    then have "filter (\<lambda>x. x \<noteq> ?p) (waiting st) = []"
      using length_pending [OF q(2) _ p, of t] q(1) by (simp add: roundFull_def rpsQuiet_def)
    then have off: "ActivePlayers (Ctx (throwing req t st)) = None" "maps_wf (throwing req t st)"
      using thrown_active [OF s0(1) p s0(2,3), folded throwing_def] f(4,9) q(1) by (auto simp: maps_wf_def rpsQuiet_def)
    show ?thesis
      using cascade_reveal [OF _ _ _ _ off, of "int (length (Log st))" h] f a True q good(2) wf
      by (simp add: env_def afterThrow_def Let_def rpsQuiet_def rpsWf_pending)
  next
    case False
    then show ?thesis using f q(1)
      by (simp add: env_def drainCascade_def harvestQueue_def qDrain_def emptyQueue_def quiescent_def rpsQuiet_def afterThrow_def)
  qed
  have u: "True = (IsUndoable submitMove mc h \<and> \<not> gmDisableUndo rps)" "IsRedacted submitMove mc h = True"
    by (simp_all add: IsUndoable_def IsRedacted_def submitMove_def mkMove_def)
  have "runMove rps st submitMove None req h = Some (case None of Some e \<Rightarrow> Inl e | None \<Rightarrow> Inr (afterThrow req t st), h)"
    by (rule runMove_steps [where f = submit and mc = mc and u = True and ef = ef, OF _ _ own _ u(1) call])
      (use settle casc u(2) own in \<open>simp_all add: mc_def\<close>)
  then show ?thesis by simp
qed


text \<open>A reveal that the server dispatches on its own resolves the throws made so far.\<close>

definition afterReveal :: "moveRequest \<Rightarrow> rpsState state \<Rightarrow> rpsState state" where
  "afterReveal req st = revealed (st\<lparr>StateID := StateID st + 1, Log := Log st @ [moveEntry req (Ctx st) False True], Undone := [],
     TurnSnapshots := TurnSnapshots st @ [cloneStateForSnapshot st]\<rparr>)"

lemma autoEnd_rearmed:
  assumes "MoveCounts st = None"
  shows "autoEndStagesByMaxMoves st = st"
proof -
  have "\<not> budgetSpent st q" for q using assms by (auto simp: budgetSpent_def split: option.split)
  then have "autoEndLoop ks st ch = (st, ch)" for ks ch by (induction ks) auto
  then show ?thesis by (simp add: autoEndStagesByMaxMoves_def split: option.split)
qed

lemma rps_endChecks:
  assumes "Phase (Ctx st) = ''''" "Gameover (Ctx st) \<noteq> VNil \<or> MoveCounts st = None"
  shows "endChecks rps st revealMove p env = Some (st, env)"
  using assms autoEnd_rearmed [of st]
  by (auto simp: endChecks_def checkGameEndIf_def checkPhaseEndIf_def checkTurnAutoEnd_def Let_def)

lemma revealed_cases:
  "Gameover (Ctx (revealed st)) \<noteq> VNil \<or> MoveCounts (revealed st) = None"
  "Phase (Ctx (revealed st)) = Phase (Ctx st)" "Blocks (revealed st) = Blocks st" "Queue (revealed st) = Queue st"
  "Log (revealed st) = Log st" "G (revealed st) = resolved (G st)" "Plugins (revealed st) = Plugins st"
  "PlayOrder (Ctx (revealed st)) = PlayOrder (Ctx st)" "NumPlayers (Ctx (revealed st)) = NumPlayers (Ctx st)"
  by (auto simp: revealed_def Let_def rpsResult_def)

lemma rps_reveal:
  assumes good: "rpsGood st" "Gameover (Ctx st) = VNil"
  shows "runMove rps st revealMove None req h = Some (Inr (afterReveal req st), h)"
proof -
  let ?p = "rqPlayerID req"
  have q: "rpsQuiet st" "rpsWf (G st)" "armedFor (waiting st) st" using good by (simp_all add: rpsGood_def rpsTable_def)
  have own: "st = ownContainers st" using armed_own [OF q(3) waiting_distinct [OF q(1)]] q(1) by (simp add: rpsQuiet_def)
  define mc where "mc = \<lparr>mcG = G st, mcCtx = Ctx st, mcPlayerID = ?p, mcPlugins = None, mcQueue = Some emptyQueue,
                mcResumingBlock = None, mcExtra = [], mcChainedMoves = 0\<rparr>"
  let ?ef = "noEffects\<lparr>efEvents := [revealEvent (resolved (G st))]\<rparr>"
  let ?env = "\<lparr>envEvents = [], envQueue = emptyQueue, envDrops = Some [], envPlugins = None, envHeap = h\<rparr>"
  let ?s = "st\<lparr>G := resolved (G st), StateID := StateID st + 1, Log := Log st @ [moveEntry req (Ctx st) False True], Undone := [],
     TurnSnapshots := TurnSnapshots st @ [cloneStateForSnapshot st]\<rparr>"
  let ?mc = "mc\<lparr>mcG := resolved (G st), mcExtra := loggedBy mc ?ef\<rparr>"
  have call: "reveal mc (rqArgs req) h = (Inr (resolved (G st)), ?ef, h)" using reveal_eq [of mc] q(2) by (simp add: mc_def)
  have "?s\<lparr>G := G st\<rparr> = st\<lparr>StateID := StateID st + 1, Log := Log st @ [moveEntry req (Ctx st) False True], Undone := [],
     TurnSnapshots := TurnSnapshots st @ [cloneStateForSnapshot st]\<rparr>" by simp
  then obtain mc' where dr: "drainEvents rps ?s ?mc (perform ?ef h ?env) = Some (afterReveal req st, mc', ?env)" "mcExtra mc' = []"
    using drain_reveal [of "perform ?ef h ?env" "G st" ?s ?mc]
    by (auto simp: perform_def noEffects_def loggedBy_def afterReveal_def)
  have ends: "endChecks rps (afterReveal req st) revealMove ?p ?env = Some (afterReveal req st, ?env)"
    using q(1) revealed_cases(1) by (intro rps_endChecks) (auto simp: afterReveal_def revealed_cases rpsQuiet_def)
  have idle: "Blocks (afterReveal req st) = []" "Queue (afterReveal req st) = []"
    using q(1) by (simp_all add: afterReveal_def revealed_cases rpsQuiet_def)
  have settle: "settleMove rps ?s revealMove ?p ?mc (perform ?ef h ?env) = Some (afterReveal req st, ?env)"
    using dr ends idle by (simp add: settleMove_def runOnMove_def turnHook_def countMove_def drainEvents_done withoutBlocksFor_def Let_def)
  have casc: "drainCascade rps (afterReveal req st) (envQueue ?env) (int (length (Log st))) (envHeap ?env) = Some (afterReveal req st, None, h)"
    using idle by (simp add: drainCascade_def harvestQueue_def qDrain_def emptyQueue_def quiescent_def)
  have u: "True = (IsUndoable revealMove mc h \<and> \<not> gmDisableUndo rps)" "IsRedacted revealMove mc h = False"
    by (simp_all add: IsUndoable_def IsRedacted_def revealMove_def mkMove_def)
  have "runMove rps st revealMove None req h = Some (case None of Some e \<Rightarrow> Inl e | None \<Rightarrow> Inr (afterReveal req st), h)"
    by (rule runMove_steps [where f = reveal and mc = mc and u = True and ef = ?ef, OF _ _ own _ u(1) call])
      (use settle casc u(2) own in \<open>simp_all only: mc_def rps_simps rps_moves if_True\<close>)
  then show ?thesis by simp
qed


section \<open>Refinement of the rules\<close>

text \<open>
  The rules, on the seats, the hidden throws, the scores, the last round, the number of rounds
  and the winner. A throw is kept; when every seat has thrown, the round is resolved: every
  player scores a point for each throw theirs beats, and the game is over if exactly one player
  has reached the target.
\<close>

record rpsTableau =
  tbSeats :: "string set"
  tbThrows :: "string \<rightharpoonup> string"
  tbScore :: "string \<Rightarrow> int"
  tbLast :: "string \<rightharpoonup> string"
  tbRound :: int
  tbWinner :: "string option"

datatype rpsAct = Throw string string | Resolve

definition resolveRound :: "rpsTableau \<Rightarrow> rpsTableau" where
  "resolveRound b = (let sc = (\<lambda>p. tbScore b p + pointsOf (tbThrows b) p)
     in b\<lparr>tbThrows := Map.empty, tbScore := sc, tbLast := tbThrows b, tbRound := tbRound b + 1,
          tbWinner := (if \<exists>p. soleLeader sc p then Some (THE p. soleLeader sc p) else None)\<rparr>)"

fun rpsPlay :: "rpsAct \<Rightarrow> rpsTableau \<Rightarrow> rpsTableau" where
  "rpsPlay (Throw p t) b = (let b = b\<lparr>tbThrows := (tbThrows b)(p \<mapsto> t)\<rparr>
     in if dom (tbThrows b) = tbSeats b then resolveRound b else b)"
| "rpsPlay Resolve b = resolveRound b"

definition winnerOf :: "goval \<Rightarrow> string option" where
  "winnerOf v = (case v of VMap ((k, VStr w) # _) \<Rightarrow> Some w | _ \<Rightarrow> None)"

definition rpsAbs :: "rpsState state \<Rightarrow> rpsTableau" where
  "rpsAbs st = \<lparr>tbSeats = set (PlayOrder (Ctx st)), tbThrows = map_of (rpPending (G st)), tbScore = scoreOf (rpScores (G st)),
     tbLast = map_of (rpLastRound (G st)), tbRound = rpRound (G st), tbWinner = winnerOf (Gameover (Ctx st))\<rparr>"

text \<open>What a request asks for, if it may: a throw of a waiting player, or the server's reveal in the name of one.\<close>

definition rpsRequest :: "rpsState state \<Rightarrow> moveRequest \<Rightarrow> rpsAct option" where
  "rpsRequest st req =
     (if Gameover (Ctx st) = VNil \<and> rqResumeTag req = '''' \<and> rqPlayerID req \<in> set (waiting st) \<and>
         (rqStateID req \<le> 0 \<or> rqStateID req = StateID st)
      then if rqMove req = ''submit'' then map_option (Throw (rqPlayerID req)) (throwArg (rqArgs req))
           else if rqMove req = ''reveal'' \<and> \<not> rqFromClient req then Some Resolve else None
      else None)"

lemma soleLeader_unique: "soleLeader sc p \<Longrightarrow> (THE q. soleLeader sc q) = p"
  by (auto simp: soleLeader_def)

lemma resolved_table: "rpsTable s ps \<Longrightarrow> rpsTable (resolved s) ps"
proof -
  have keys: "set (mkeys (scoreAgainst p t xs sc)) \<subseteq> insert p (set (mkeys sc))" for p t xs sc
  proof (induction p t xs sc rule: scoreAgainst.induct)
    case (2 p t q u rest sc)
    then show ?case by (cases "p = q"; cases "beats t u") (simp_all add: mkeys_def mput_def dom_update)
  qed auto
  have "set (mkeys (fold (\<lambda>(p, t). scoreAgainst p t pend) xs sc)) \<subseteq> set (mkeys xs) \<union> set (mkeys sc)" for pend xs sc
  proof (induction xs arbitrary: sc)
    case (Cons x xs)
    obtain p t where x: "x = (p, t)" by (cases x)
    show ?case using Cons.IH [of "scoreAgainst p t pend sc"] keys [of p t pend sc] x by (auto simp: mkeys_def)
  qed simp
  from this [of "rpPending s" "rpPending s" "rpScores s"]
  have "set (mkeys (scoreRound (rpPending s) (rpScores s))) \<subseteq> set (mkeys (rpPending s)) \<union> set (mkeys (rpScores s))"
    by (simp add: scoreRound_def)
  then show "rpsTable s ps \<Longrightarrow> rpsTable (resolved s) ps"
    by (simp add: rpsTable_def resolved_def rpsWf_def mwf_scoreRound) (rule conjI, simp add: mkeys_def, blast)
qed

lemma rpsAbs_revealed:
  assumes "rpsTable (G st) (PlayOrder (Ctx st))" "'''' \<notin> set (PlayOrder (Ctx st))" "Gameover (Ctx st) = VNil"
  shows "rpsAbs (revealed st) = resolveRound (rpsAbs st)"
    "Gameover (Ctx (revealed st)) = VNil \<longleftrightarrow> leader (rpScores (resolved (G st))) = ''''"
proof -
  let ?s = "resolved (G st)" let ?w = "leader (rpScores ?s)"
  have t: "rpsTable ?s (PlayOrder (Ctx st))" using assms(1) by (rule resolved_table)
  have sc: "scoreOf (rpScores ?s) = (\<lambda>p. scoreOf (rpScores (G st)) p + pointsOf (map_of (rpPending (G st))) p)"
    using assms(1) by (auto simp: resolved_def scoreRound_spec rpsTable_def rpsWf_def)
  have l: "?w = p \<longleftrightarrow> soleLeader (scoreOf (rpScores ?s)) p" if "p \<noteq> ''''" for p
    using t assms(2) that by (intro leader_sole) (auto simp: rpsTable_def rpsWf_def mkeys_def map_of_eq_None_iff)
  have none: "\<not> soleLeader (scoreOf (rpScores ?s)) ''''"
  proof
    assume "soleLeader (scoreOf (rpScores ?s)) ''''"
    then have "winTarget \<le> scoreOf (rpScores ?s) ''''" by (auto simp: soleLeader_def)
    then have "map_of (rpScores ?s) '''' \<noteq> None" by (auto simp: scoreOf_def winTarget_def split: option.splits)
    then show False using t assms(2) by (auto simp: rpsTable_def mkeys_def map_of_eq_None_iff)
  qed
  have w: "winnerOf (Gameover (Ctx (revealed st))) = (if ?w = '''' then None else Some ?w)"
    using assms(3) by (simp add: revealed_def Let_def winnerOf_def rpsResult_def)
  have "(if \<exists>p. soleLeader (scoreOf (rpScores ?s)) p then Some (THE p. soleLeader (scoreOf (rpScores ?s)) p) else None) =
      (if ?w = '''' then None else Some ?w)"
    using l none soleLeader_unique by (cases "?w = ''''") metis+
  note win = this [unfolded sc, folded w]
  have f: "rpPending ?s = []" "rpLastRound ?s = rpPending (G st)" "rpRound ?s = rpRound (G st) + 1" by (simp_all add: resolved_def)
  show "rpsAbs (revealed st) = resolveRound (rpsAbs st)"
    unfolding rpsAbs_def resolveRound_def Let_def revealed_cases sc f by (simp add: win [symmetric])
  show "Gameover (Ctx (revealed st)) = VNil \<longleftrightarrow> ?w = ''''" using assms(3) by (simp add: revealed_def Let_def rpsResult_def)
qed


lemma rpsGood_revealed:
  assumes "rpsQuiet st" "rpsTable (G st) (PlayOrder (Ctx st))" "Gameover (Ctx st) = VNil"
  shows "rpsGood (revealed st)"
proof -
  have t: "rpsTable (resolved (G st)) (PlayOrder (Ctx st))" using assms(2) by (rule resolved_table)
  have "'''' \<notin> set (PlayOrder (Ctx st))" using assms(1) by (simp add: rpsQuiet_def)
  note over = rpsAbs_revealed(2) [OF assms(2) this assms(3)]
  have w: "waiting (revealed st) = PlayOrder (Ctx st)" by (simp add: waiting_def revealed_cases resolved_def)
  have q: "rpsQuiet (revealed st)" using assms(1) by (auto simp: rpsQuiet_def revealed_def Let_def ActivePlayersAllOnce_def)
  have "armedFor (PlayOrder (Ctx st)) (revealed st)" if "leader (rpScores (resolved (G st))) = ''''"
    using rearmed [of "st\<lparr>G := resolved (G st)\<rparr>"] assms(1) that by (simp add: revealed_def Let_def rpsQuiet_def)
  then show ?thesis using q t w over assms(1) by (simp add: rpsGood_def revealed_cases rpsQuiet_def)
qed

lemma rps_admit:
  assumes "rpsGood st" "Gameover (Ctx st) = VNil" "rqResumeTag req = ''''" "rqPlayerID req \<in> set (waiting st)"
  shows "admit rps st req =
    (if rqMove req \<notin> {''submit'', ''reveal''} then Inl ErrUnknownMove
     else if rqFromClient req \<and> rqMove req = ''reveal'' then Inl ErrServerOnly
     else if \<not> (rqStateID req \<le> 0 \<or> rqStateID req = StateID st) then Inl ErrStaleState
     else Inr (st\<lparr>Ctx := (Ctx st)\<lparr>NowMs := rqNowMs req\<rparr>\<rparr>, if rqMove req = ''submit'' then submitMove else revealMove, None))"
  using assms
  by (auto simp: rpsGood_def rpsQuiet_def armedFor_def admit_def takeBlock_def authorizedStage_def resolveMove_def
      stageEntry_def exemptionsFor_def map_of_const Let_def)

lemma rps_admit_refused:
  assumes "rpsGood st" "Gameover (Ctx st) = VNil" "rqResumeTag req \<noteq> '''' \<or> rqPlayerID req \<notin> set (waiting st)"
  shows "\<exists>e. admit rps st req = Inl e"
  using assms
  by (auto simp: rpsGood_def rpsQuiet_def armedFor_def admit_def takeBlock_def findBlock_def authorizedStage_def resolveMove_def
      stageEntry_def exemptionsFor_def map_of_const Let_def)

lemma rpsGood_clock: "rpsGood (st\<lparr>Ctx := (Ctx st)\<lparr>NowMs := n\<rparr>\<rparr>) = rpsGood st" "waiting (st\<lparr>Ctx := (Ctx st)\<lparr>NowMs := n\<rparr>\<rparr>) = waiting st"
  "rpsAbs (st\<lparr>Ctx := (Ctx st)\<lparr>NowMs := n\<rparr>\<rparr>) = rpsAbs st"
  by (simp_all add: rpsGood_def rpsQuiet_def waiting_def armedFor_def rpsAbs_def)

lemma waiting_throwing:
  assumes "rpsQuiet st"
  shows "waiting (throwing req t st) = filter (\<lambda>q. q \<noteq> rqPlayerID req) (waiting st)" "G (throwing req t st) = (G st)\<lparr>rpPending := mput (rqPlayerID req) t (rpPending (G st))\<rparr>"
    "PlayOrder (Ctx (throwing req t st)) = PlayOrder (Ctx st)" "Gameover (Ctx (throwing req t st)) = Gameover (Ctx st)"
    "rpsQuiet (throwing req t st)"
proof -
  note f = thrown_fields [of "st\<lparr>G := (G st)\<lparr>rpPending := mput (rqPlayerID req) t (rpPending (G st))\<rparr>, StateID := StateID st + 1,
         Log := Log st @ [moveEntry req (Ctx st) True True], Undone := [],
         TurnSnapshots := TurnSnapshots st @ [cloneStateForSnapshot st]\<rparr>" "rqPlayerID req", folded throwing_def]
  have s: "ActiveStack st = []" "PendingNext st = None" using assms by (simp_all add: rpsQuiet_def)
  obtain a where a: "Ctx (throwing req t st) = (Ctx st)\<lparr>NumMoves := NumMoves (Ctx st) + 1, ActivePlayers := a\<rparr>" using f(11) s by auto
  show g: "G (throwing req t st) = (G st)\<lparr>rpPending := mput (rqPlayerID req) t (rpPending (G st))\<rparr>" using f(1) s by simp
  show "PlayOrder (Ctx (throwing req t st)) = PlayOrder (Ctx st)" "Gameover (Ctx (throwing req t st)) = Gameover (Ctx st)" using a by simp_all
  show "waiting (throwing req t st) = filter (\<lambda>q. q \<noteq> rqPlayerID req) (waiting st)" by (auto simp: waiting_def g a intro: filter_cong)
  show "rpsQuiet (throwing req t st)" using assms f s a by (simp add: rpsQuiet_def)
qed

lemma rpsTable_throw:
  assumes "rpsTable s ps" "p \<in> set ps"
  shows "rpsTable (s\<lparr>rpPending := mput p t (rpPending s)\<rparr>) ps"
  using assms rpsWf_pending [of s p t] by (simp add: rpsTable_def mkeys_def mput_def dom_update)


lemma rps_after_throw:
  assumes good: "rpsGood st" "Gameover (Ctx st) = VNil" and p: "rqPlayerID req \<in> set (waiting st)"
  shows "rpsGood (afterThrow req t st)" "rpsAbs (afterThrow req t st) = rpsPlay (Throw (rqPlayerID req) t) (rpsAbs st)"
proof -
  let ?p = "rqPlayerID req" let ?s = "throwing req t st"
  have q: "rpsQuiet st" "rpsTable (G st) (PlayOrder (Ctx st))" "armedFor (waiting st) st" using good by (simp_all add: rpsGood_def)
  note w = waiting_throwing [OF q(1), of req t]
  have ps: "?p \<in> set (PlayOrder (Ctx st))" using p by (simp add: waiting_def)
  have t: "rpsTable (G ?s) (PlayOrder (Ctx ?s))" using rpsTable_throw [OF q(2) ps] w(2,3) by simp
  have a: "rpsAbs ?s = (rpsAbs st)\<lparr>tbThrows := (tbThrows (rpsAbs st))(?p \<mapsto> t)\<rparr>" by (auto simp: rpsAbs_def w)
  have sub: "dom (map_of (rpPending (G st))) \<subseteq> set (PlayOrder (Ctx st))" using q(2) by (simp add: rpsTable_def dom_map_of_conv_image_fst mkeys_def)
  have full: "roundFull req t st \<longleftrightarrow> filter (\<lambda>x. x \<noteq> ?p) (waiting st) = []"
    using length_pending [OF q(2) _ p] q(1) by (simp add: roundFull_def rpsQuiet_def)
  also have "\<dots> \<longleftrightarrow> dom ((tbThrows (rpsAbs st))(?p \<mapsto> t)) = tbSeats (rpsAbs st)"
    using sub ps by (auto simp: rpsAbs_def waiting_def filter_empty_conv)
  finally have dom: "roundFull req t st \<longleftrightarrow> dom ((tbThrows (rpsAbs st))(?p \<mapsto> t)) = tbSeats (rpsAbs st)" .
  show "rpsGood (afterThrow req t st)"
  proof (cases "roundFull req t st")
    case True
    then show ?thesis using rpsGood_revealed [of "?s\<lparr>Log := l\<rparr>" for l] w good(2) t by (simp add: afterThrow_def Let_def rpsQuiet_def)
  next
    case False
    have "ActiveStack st = []" "PendingNext st = None" using q(1) by (simp_all add: rpsQuiet_def)
    then have "armedFor (filter (\<lambda>x. x \<noteq> ?p) (waiting st)) ?s"
      using False full thrown_active [of "waiting st" "st\<lparr>G := (G st)\<lparr>rpPending := mput ?p t (rpPending (G st))\<rparr>, StateID := StateID st + 1,
         Log := Log st @ [moveEntry req (Ctx st) True True], Undone := [],
         TurnSnapshots := TurnSnapshots st @ [cloneStateForSnapshot st]\<rparr>" ?p, folded throwing_def] q(3) p by (simp add: armedFor_def)
    then show ?thesis using False full w t by (simp add: afterThrow_def rpsGood_def)
  qed
  have l: "rpsAbs (s\<lparr>Log := l\<rparr>) = rpsAbs s" for s l by (simp add: rpsAbs_def)
  show "rpsAbs (afterThrow req t st) = rpsPlay (Throw ?p t) (rpsAbs st)"
    using rpsAbs_revealed(1) [of "?s\<lparr>Log := l\<rparr>" for l] w(4,5) good(2) t dom
    by (simp add: afterThrow_def Let_def l a rpsQuiet_def)
qed

lemma rps_after_reveal:
  assumes good: "rpsGood st" "Gameover (Ctx st) = VNil"
  shows "rpsGood (afterReveal req st)" "rpsAbs (afterReveal req st) = resolveRound (rpsAbs st)"
proof -
  let ?s = "st\<lparr>StateID := StateID st + 1, Log := Log st @ [moveEntry req (Ctx st) False True], Undone := [],
     TurnSnapshots := TurnSnapshots st @ [cloneStateForSnapshot st]\<rparr>"
  have "rpsQuiet ?s" "rpsTable (G ?s) (PlayOrder (Ctx ?s))" "Gameover (Ctx ?s) = VNil" "'''' \<notin> set (PlayOrder (Ctx ?s))"
    using good by (simp_all add: rpsGood_def rpsQuiet_def)
  note s = this
  show "rpsGood (afterReveal req st)" unfolding afterReveal_def by (rule rpsGood_revealed [OF s(1-3)])
  have "rpsAbs ?s = rpsAbs st" by (simp add: rpsAbs_def)
  then show "rpsAbs (afterReveal req st) = resolveRound (rpsAbs st)"
    unfolding afterReveal_def using rpsAbs_revealed(1) [OF s(2,4,3)] by metis
qed

definition clocked :: "moveRequest \<Rightarrow> rpsState state \<Rightarrow> rpsState state" where
  "clocked req st = st\<lparr>Ctx := (Ctx st)\<lparr>NowMs := rqNowMs req\<rparr>\<rparr>"

lemma rps_Apply_throw:
  fixes h :: 'h
  assumes "rpsGood st" "rpsRequest st req = Some (Throw p t)"
  shows "Apply rps st req h = Some (afterThrow req t (clocked req st), None, h)" "p = rqPlayerID req" "p \<in> set (waiting st)"
    "throwArg (rqArgs req) = Some t" "Gameover (Ctx st) = VNil"
proof -
  have r: "Gameover (Ctx st) = VNil" "rqPlayerID req \<in> set (waiting st)" "rqResumeTag req = ''''"
    "rqStateID req \<le> 0 \<or> rqStateID req = StateID st" "rqMove req = ''submit''" "throwArg (rqArgs req) = Some t" "p = rqPlayerID req"
    using assms(2) by (auto simp: rpsRequest_def split: if_splits)
  have a: "admit rps st req = Inr (clocked req st, submitMove :: (rpsState, 'h) move, None)"
    using rps_admit [OF assms(1) r(1,3,2), where 'a = 'h] r(4,5) by (simp add: clocked_def)
  have s: "rpsGood (clocked req st)" "Gameover (Ctx (clocked req st)) = VNil" "rqPlayerID req \<in> set (waiting (clocked req st))"
    using assms(1) r(1,2) by (simp_all add: rpsGood_clock clocked_def)
  show "Apply rps st req h = Some (afterThrow req t (clocked req st), None, h)" using Apply_admitted [OF a rps_throw [OF s r(6)]] by simp
  show "p = rqPlayerID req" "p \<in> set (waiting st)" "throwArg (rqArgs req) = Some t" "Gameover (Ctx st) = VNil" using r by simp_all
qed

lemma rps_Apply_legal:
  fixes h :: 'h
  assumes "rpsGood st" "rpsRequest st req = Some m"
  shows "\<exists>st'. Apply rps st req h = Some (st', None, h) \<and> rpsGood st' \<and> rpsAbs st' = rpsPlay m (rpsAbs st)"
proof -
  let ?s = "clocked req st"
  have over: "Gameover (Ctx st) = VNil" and w: "rqPlayerID req \<in> set (waiting st)"
    and req: "rqResumeTag req = ''''" "rqStateID req \<le> 0 \<or> rqStateID req = StateID st"
    using assms(2) by (auto simp: rpsRequest_def split: if_splits)
  have s: "rpsGood ?s" "Gameover (Ctx ?s) = VNil" "rqPlayerID req \<in> set (waiting ?s)" "rpsAbs ?s = rpsAbs st"
    using assms(1) over w by (simp_all add: rpsGood_clock clocked_def)
  show ?thesis
  proof (cases m)
    case (Throw p t)
    note x = rps_Apply_throw [OF assms(1) assms(2) [unfolded Throw]]
    show ?thesis unfolding x(1) Throw using x(2) rps_after_throw [OF s(1-3), of t] s(4) by (metis (no_types))
  next
    case Resolve
    then have r: "rqMove req = ''reveal''" "\<not> rqFromClient req" using assms(2) by (auto simp: rpsRequest_def split: if_splits)
    then have a: "admit rps st req = Inr (?s, revealMove :: (rpsState, 'h) move, None)"
      using rps_admit [OF assms(1) over req(1) w, where 'a = 'h] req(2) by (simp add: clocked_def)
    show ?thesis using Apply_admitted [OF a rps_reveal [OF s(1,2)]] rps_after_reveal [OF s(1,2), of req] Resolve s(4) by simp
  qed
qed


lemma rps_Apply_illegal:
  fixes h :: 'h
  assumes "rpsGood st" "rpsRequest st req = None"
  shows "\<exists>e. Apply rps st req h = Some (st, Some e, h)"
proof (cases "admit rps st req :: gerror + (rpsState state \<times> (rpsState, 'h) move \<times> blockSpec option)")
  case (Inl e)
  then show ?thesis by (simp add: Apply_refused)
next
  case (Inr a)
  have over: "Gameover (Ctx st) = VNil" using Inr by (auto simp: admit_def split: if_splits)
  have w: "rqResumeTag req = ''''" "rqPlayerID req \<in> set (waiting st)"
    using rps_admit_refused [OF assms(1) over, of req, where 'a = 'h] Inr by auto
  have "rqMove req = ''submit''" "throwArg (rqArgs req) = None" "a = (st\<lparr>Ctx := (Ctx st)\<lparr>NowMs := rqNowMs req\<rparr>\<rparr>, submitMove, None)"
    using Inr rps_admit [OF assms(1) over w, where 'a = 'h] w over assms(2) by (auto simp: rpsRequest_def split: if_splits)

  moreover have "runMove rps s submitMove None req h = Some (Inl ErrInvalidMove, h)" if "throwArg (rqArgs req) = None" for s
    using that by (simp add: runMove_def buildPluginAPIs_def applyFnWrapMove_def submit_def Let_def)
  ultimately show ?thesis using Inr by (simp add: Apply_admitted)
qed

interpretation rpsg: engine_game rps rpsGood rpsAbs rpsRequest rpsPlay
  by unfold_locales (blast dest: rps_Apply_legal rps_Apply_illegal)+


section \<open>Matches\<close>

definition rpsOpening :: "int \<Rightarrow> 64 word \<Rightarrow> rpsState state" where
  "rpsOpening n seed = applySetActivePlayers (freshState \<lparr>rpPending = [], rpScores = [], rpLastRound = [], rpRound = 0\<rparr>
     \<lparr>NumPlayers = n, CurrentPlayer = ''0'', PlayOrder = defaultPlayOrder n, PlayOrderPos = 0, Turn = 1, Phase = '''',
      ActivePlayers = None, Gameover = VNil, NumMoves = 0, NowMs = 0, Seed = seed\<rparr>) ActivePlayersAllOnce"

lemma rps_PlayerCount: "PlayerCount rps n \<in> {2, 3, 4}"
  by (auto simp: PlayerCount_def)

lemma rps_order:
  assumes "n \<in> {2, 3, 4}"
  shows "\<exists>ps. defaultPlayOrder n = ''0'' # ps" "'''' \<notin> set (defaultPlayOrder n)" "length (defaultPlayOrder n) = nat n"
proof -
  have "defaultPlayOrder 2 = [''0'', ''1'']" "defaultPlayOrder 3 = [''0'', ''1'', ''2'']" "defaultPlayOrder 4 = [''0'', ''1'', ''2'', ''3'']"
    by code_simp+
  then show "\<exists>ps. defaultPlayOrder n = ''0'' # ps" "'''' \<notin> set (defaultPlayOrder n)" "length (defaultPlayOrder n) = nat n"
    using assms by auto
qed

lemma rps_NewMatch:
  fixes h :: 'h
  shows "NewMatchSeeded rps n data seed h = Some (rpsOpening (PlayerCount (rps :: (rpsState, 'h) game) n) seed, h)"
proof -
  let ?g = "rps :: (rpsState, 'h) game"
  let ?c = "\<lparr>NumPlayers = PlayerCount ?g n, CurrentPlayer = ''0'', PlayOrder = defaultPlayOrder (PlayerCount ?g n), PlayOrderPos = 0,
     Turn = 1, Phase = '''', ActivePlayers = None, Gameover = VNil, NumMoves = 0, NowMs = 0, Seed = seed\<rparr>"
  obtain ps where o: "defaultPlayOrder (PlayerCount ?g n) = ''0'' # ps" using rps_order(1) [OF rps_PlayerCount] by blast
  then have c: "startCtx ?g n seed = Some ?c" by (simp add: startCtx_def startPhase_def)
  have e: "effectiveOrder (Some rpsTurn :: (rpsState, 'h) turnConfig option) = TurnOrderDefault"
    by (simp add: effectiveOrder_def rpsTurn_def IsDefault_def)
  have g: "gmSetup ?g = Some (\<lambda>c d h. (\<lparr>rpPending = [], rpScores = [], rpLastRound = [], rpRound = 0\<rparr>, h))" by (simp add: rps_def)
  show ?thesis
    by (simp add: NewMatchSeeded_def NewMatchSeededE_def c o e g runPluginSetup_def newHookEnv_def
        buildPluginAPIs_def applyTurnOrderFirst_def TurnOrderDefault_def index_at_def
        applyActivePlayersFromTurn_def runPhaseOnBegin_def runTurnOnBegin_def turnHook_def runHookOpt_def drainEvents_done
        flushPlugins_def drainCascade_def harvestQueue_def qDrain_def emptyQueue_def quiescent_def rpsOpening_def freshState_def Let_def)
qed


lemma rpsOpening_good:
  assumes "n \<in> {2, 3, 4}"
  shows "rpsGood (rpsOpening n seed)" "tbWinner (rpsAbs (rpsOpening n seed)) = None" "tbScore (rpsAbs (rpsOpening n seed)) = (\<lambda>_. 0)"
    "tbRound (rpsAbs (rpsOpening n seed)) = 0" "tbSeats (rpsAbs (rpsOpening n seed)) = set (defaultPlayOrder n)"
proof -
  let ?st = "freshState \<lparr>rpPending = [], rpScores = [], rpLastRound = [], rpRound = 0\<rparr>
     \<lparr>NumPlayers = n, CurrentPlayer = ''0'', PlayOrder = defaultPlayOrder n, PlayOrderPos = 0, Turn = 1, Phase = '''',
      ActivePlayers = None, Gameover = VNil, NumMoves = 0, NowMs = 0, Seed = seed\<rparr>"
  obtain ps where o: "defaultPlayOrder n = ''0'' # ps" using rps_order(1) [OF assms] by blast
  have n: "int (length (defaultPlayOrder n)) = n" using rps_order(3) [OF assms] assms by auto
  have "armedFor (defaultPlayOrder n) (rpsOpening n seed)"
    using rearmed [of ?st] o distinct_defaultPlayOrder [of n] by (simp add: rpsOpening_def freshState_def)
  moreover have "waiting (rpsOpening n seed) = defaultPlayOrder n" by (simp add: waiting_def rpsOpening_def freshState_def)
  ultimately show "rpsGood (rpsOpening n seed)"
    using o n rps_order(2) [OF assms] distinct_defaultPlayOrder [of n]
    by (simp add: rpsGood_def rpsQuiet_def rpsTable_def rpsWf_def mkeys_def rpsOpening_def freshState_def ActivePlayersAllOnce_def)
  show "tbWinner (rpsAbs (rpsOpening n seed)) = None" "tbScore (rpsAbs (rpsOpening n seed)) = (\<lambda>_. 0)"
    "tbRound (rpsAbs (rpsOpening n seed)) = 0" "tbSeats (rpsAbs (rpsOpening n seed)) = set (defaultPlayOrder n)"
    by (auto simp: rpsAbs_def rpsOpening_def freshState_def winnerOf_def scoreOf_def)
qed

text \<open>
  C20. The engine runs rock-paper-scissors by its rules: in a match in good order exactly the throws
  of the players who have not thrown yet, and the server's own reveal, are accepted; a throw
  is kept and the throw that completes the round resolves it within the same request, with
  the scores, the winner or the next round as the rules give them. Any other request changes nothing.
\<close>

theorem rps_refines:
  assumes "rpsGood st"
  shows "case rpsRequest st req of
      None \<Rightarrow> \<exists>e. Apply rps st req h = Some (st, Some e, h)
    | Some m \<Rightarrow> \<exists>st'. Apply rps st req h = Some (st', None, h) \<and> rpsGood st' \<and> rpsAbs st' = rpsPlay m (rpsAbs st)"
  using rps_Apply_legal [OF assms] rps_Apply_illegal [OF assms] by (auto split: option.split)

theorem rps_refines_witness:
  "\<exists>st'. Apply rps (rpsOpening 3 7) (request ''1'' ''submit'' [VStr ''rock'']) () = Some (st', None, ()) \<and>
     tbThrows (rpsAbs st') = [''1'' \<mapsto> ''rock''] \<and> tbRound (rpsAbs st') = 0"
proof -
  let ?r = "request ''1'' ''submit'' [VStr ''rock'']"
  have r: "rpsRequest (rpsOpening 3 7) ?r = Some (Throw ''1'' ''rock'')" by code_simp
  have d: "defaultPlayOrder 3 = [''0'', ''1'', ''2'']" by code_simp
  have t: "tbThrows (rpsAbs (rpsOpening 3 7)) = Map.empty" by (simp add: rpsAbs_def rpsOpening_def freshState_def)
  note o = rpsOpening_good [of 3 7, simplified]
  from rps_refines [OF o(1), of ?r "()"] r obtain st' where st': "Apply rps (rpsOpening 3 7) ?r () = Some (st', None, ())"
    "rpsAbs st' = rpsPlay (Throw ''1'' ''rock'') (rpsAbs (rpsOpening 3 7))" by auto
  have "dom [''1'' \<mapsto> ''rock''] \<noteq> {''0'', ''1'', ''2''}" by auto
  then show ?thesis using st' t o(4,5) d by (intro exI [of _ st']) (simp add: Let_def)
qed


lemma rpsRequest_open: "rpsRequest st req = Some m \<Longrightarrow> tbWinner (rpsAbs st) = None"
  by (auto simp: rpsRequest_def rpsAbs_def winnerOf_def split: if_splits)

definition winnerDecided :: "rpsTableau \<Rightarrow> bool" where
  "winnerDecided b \<longleftrightarrow> tbWinner b = (if \<exists>p. soleLeader (tbScore b) p then Some (THE p. soleLeader (tbScore b) p) else None)"

lemma winnerDecided_play: "winnerDecided b \<Longrightarrow> winnerDecided (rpsPlay m b)"
  by (cases m) (simp_all add: winnerDecided_def resolveRound_def Let_def)

text \<open>
  Who wins. However a match was started and whatever requests were accepted since, the match is
  over exactly if one player alone has reached the target, and that player is the reported winner.
\<close>

theorem rps_sole_leader_wins:
  assumes "NewMatchSeeded rps n data seed h = Some (st0, h0)" "playAll rps reqs st0 h0 = Some (st, h')"
  shows "winnerOf (Gameover (Ctx st)) = Some p \<longleftrightarrow> {q. winTarget \<le> scoreOf (rpScores (G st)) q} = {p}"
proof -
  have 0: "st0 = rpsOpening (PlayerCount (rps :: (rpsState, 'a) game) n) seed" using assms(1) by (simp add: rps_NewMatch)
  note o = rpsOpening_good [OF rps_PlayerCount [of n, where 'a = 'a], of seed, folded 0]
  have d: "winnerDecided (rpsAbs st0)" using o(2,3) by (auto simp: winnerDecided_def soleLeader_def winTarget_def)
  have "winnerDecided (rpsAbs st)"
    using rpsg.playAll_counted [OF assms(2) o(1), of "\<lambda>_. winnerDecided"] d winnerDecided_play by blast
  moreover have "tbWinner (rpsAbs st) = winnerOf (Gameover (Ctx st))" "tbScore (rpsAbs st) = scoreOf (rpScores (G st))"
    by (simp_all add: rpsAbs_def)
  ultimately show ?thesis using soleLeader_unique [of "scoreOf (rpScores (G st))"]
    by (auto simp: winnerDecided_def soleLeader_def [symmetric] split: if_splits)
qed

definition throws :: "string list \<Rightarrow> moveRequest list" where
  "throws ts = map (\<lambda>(i, t). request (itoa i) ''submit'' [VStr t]) (List.enumerate 0 ts)"

theorem rps_sole_leader_wins_witness:
  "\<exists>st. playAll rps (concat (replicate 5 (throws [''rock'', ''scissors'']))) (rpsOpening 2 7) () = Some (st, ()) \<and>
     winnerOf (Gameover (Ctx st)) = Some ''0''"
proof -
  let ?reqs = "concat (replicate 5 (throws [''rock'', ''scissors'']))"
  have "map_option (\<lambda>(st, h). rpScores (G st)) (playAll rps ?reqs (rpsOpening 2 7) ()) = Some [(''0'', 5)]" by code_simp
  then obtain st where p: "playAll rps ?reqs (rpsOpening 2 7) () = Some (st, ())" and s: "rpScores (G st) = [(''0'', 5)]" by auto
  have c: "PlayerCount (rps :: (rpsState, unit) game) 2 = 2" by code_simp
  have n: "NewMatchSeeded rps 2 VNil 7 () = Some (rpsOpening 2 7, ())" using rps_NewMatch [of 2 VNil 7 "()"] c by simp
  have "{q. winTarget \<le> scoreOf (rpScores (G st)) q} = {''0''}" by (auto simp: s scoreOf_def winTarget_def split: if_splits)
  with rps_sole_leader_wins [OF n p, of "''0''"] p show ?thesis by auto
qed

lemma pointsOf_nonneg: "0 \<le> pointsOf pend p"
  by (simp add: pointsOf_def split: option.split)

definition tiedAtTarget :: "string \<Rightarrow> string \<Rightarrow> rpsTableau \<Rightarrow> bool" where
  "tiedAtTarget p q b \<longleftrightarrow> p \<noteq> q \<and> winTarget \<le> tbScore b p \<and> winTarget \<le> tbScore b q \<and> tbWinner b = None"

lemma tied_play:
  assumes "tiedAtTarget p q b"
  shows "tiedAtTarget p q (rpsPlay m b)"
proof -
  have r: "tiedAtTarget p q (resolveRound b')" if "tiedAtTarget p q b'" for b'
  proof -
    let ?sc = "\<lambda>p. tbScore b' p + pointsOf (tbThrows b') p"
    have "winTarget \<le> ?sc p" "winTarget \<le> ?sc q" "p \<noteq> q"
      using that pointsOf_nonneg [of "tbThrows b'"] by (simp_all add: tiedAtTarget_def add_increasing2)
    moreover from this have "\<not> soleLeader ?sc x" for x
      unfolding soleLeader_def by (metis (mono_tags, lifting) mem_Collect_eq singletonD)
    ultimately show ?thesis by (simp add: tiedAtTarget_def resolveRound_def Let_def)
  qed
  have "tiedAtTarget p q (b\<lparr>tbThrows := f\<rparr>)" for f using assms by (simp add: tiedAtTarget_def)
  then show ?thesis using r assms by (cases m) (simp_all add: Let_def)
qed

text \<open>
  Two players who reach the target in the same round never finish: scores only grow, the game ends
  only for a sole leader at the target, and so whatever is played from then on, the match goes on.
\<close>

theorem rps_tie_never_ends:
  assumes "rpsGood st" "p \<noteq> q" "winTarget \<le> scoreOf (rpScores (G st)) p" "winTarget \<le> scoreOf (rpScores (G st)) q"
    "Gameover (Ctx st) = VNil" "playAll rps reqs st h = Some (st', h')"
  shows "winnerOf (Gameover (Ctx st')) = None \<and> rpsGood st'"
proof -
  have "tiedAtTarget p q (rpsAbs st)" using assms(2-5) by (simp add: tiedAtTarget_def rpsAbs_def winnerOf_def)
  then have "rpsGood st' \<and> tiedAtTarget p q (rpsAbs st')"
    using rpsg.playAll_counted [OF assms(6,1), of "\<lambda>_. tiedAtTarget p q"] tied_play by blast
  then show ?thesis by (simp add: tiedAtTarget_def rpsAbs_def)
qed

text \<open>Three players; after five rounds of rock, rock, scissors two of them stand at the target.\<close>

theorem rps_tie_never_ends_witness:
  "\<exists>st. playAll rps (concat (replicate 5 (throws [''rock'', ''rock'', ''scissors'']))) (rpsOpening 3 7) () = Some (st, ()) \<and>
     (\<forall>reqs. case playAll rps reqs st () of None \<Rightarrow> True | Some (st', _) \<Rightarrow> winnerOf (Gameover (Ctx st')) = None)"
proof -
  let ?reqs = "concat (replicate 5 (throws [''rock'', ''rock'', ''scissors'']))"
  have "map_option (\<lambda>(st, h). (rpScores (G st), Gameover (Ctx st))) (playAll rps ?reqs (rpsOpening 3 7) ()) =
      Some ([(''0'', 5), (''1'', 5)], VNil)" by code_simp
  then obtain st where p: "playAll rps ?reqs (rpsOpening 3 7) () = Some (st, ())"
    and s: "rpScores (G st) = [(''0'', 5), (''1'', 5)]" "Gameover (Ctx st) = VNil" by auto
  have good: "rpsGood st" using rpsg.playAll_counted [OF p, of "\<lambda>_ _. True"] rpsOpening_good(1) [of 3 7] by simp
  have "winnerOf (Gameover (Ctx st')) = None" if "playAll rps reqs st () = Some (st', h')" for reqs st' h'
    using rps_tie_never_ends [OF good, of "''0''" "''1''" reqs "()" st' h'] s that by (simp add: scoreOf_def winTarget_def)
  then show ?thesis using p by (auto intro!: exI [of _ st] split: option.split)
qed


section \<open>Secrecy\<close>

text \<open>
  Two states that look alike to a seat: they agree on all that is public and on the seat's own
  throw. Two requests that may differ: the throws of other seats.
\<close>

definition alikeFor :: "string \<Rightarrow> rpsState state \<Rightarrow> rpsState state \<Rightarrow> bool" where
  "alikeFor q s1 s2 \<longleftrightarrow> rpScores (G s1) = rpScores (G s2) \<and> rpLastRound (G s1) = rpLastRound (G s2) \<and> rpRound (G s1) = rpRound (G s2) \<and>
     map_of (rpPending (G s1)) q = map_of (rpPending (G s2)) q \<and> rawG s1 = rawG s2 \<and> rawPlugins s1 = rawPlugins s2 \<and>
     Ctx s1 = Ctx s2 \<and> StateID s1 = StateID s2 \<and> redactedLog (Log s1) q = redactedLog (Log s2) q \<and>
     redactedLog (Undone s1) q = redactedLog (Undone s2) q"

definition alikeReq :: "string \<Rightarrow> moveRequest \<Rightarrow> moveRequest \<Rightarrow> bool" where
  "alikeReq q r1 r2 \<longleftrightarrow> rqMove r1 = ''submit'' \<and> r2 = r1\<lparr>rqArgs := rqArgs r2\<rparr> \<and> (rqPlayerID r1 = q \<longrightarrow> r1 = r2)"

lemma alikeReq_fields:
  assumes "alikeReq q r1 r2"
  shows "rqPlayerID r2 = rqPlayerID r1" "rqMove r2 = ''submit''" "rqNowMs r2 = rqNowMs r1" "rqResumeTag r2 = rqResumeTag r1"
    "rqServerDispatch r2 = rqServerDispatch r1"
proof -
  have "r2 = r1\<lparr>rqArgs := rqArgs r2\<rparr>" "rqMove r1 = ''submit''" using assms by (simp_all add: alikeReq_def)
  then show "rqPlayerID r2 = rqPlayerID r1" "rqMove r2 = ''submit''" "rqNowMs r2 = rqNowMs r1" "rqResumeTag r2 = rqResumeTag r1"
    "rqServerDispatch r2 = rqServerDispatch r1"
    by (metis moveRequest.select_convs(1,2,4-8) moveRequest.surjective moveRequest.update_convs(3))+
qed

lemma alikeFor_view:
  assumes "alikeFor q s1 s2" "rpsGood s1" "rpsGood s2"
  shows "(PlayerView rps s1 q)\<lparr>TurnSnapshots := []\<rparr> = (PlayerView rps s2 q)\<lparr>TurnSnapshots := []\<rparr>"
proof -
  have g: "rpsClone (G s1) = G s1" "rpsClone (G s2) = G s2" using assms(2,3) by (simp_all add: rpsGood_def rpsTable_def rpsClone_id)
  have "rpsPlayerView (G s1) c q = rpsPlayerView (G s2) c q" for c
    using assms(1) by (simp add: rpsPlayerView_def g alikeFor_def)
  moreover have "Queue s1 = Queue s2" "Blocks s1 = Blocks s2" "Plugins s1 = Plugins s2" using assms(2,3) by (simp_all add: rpsGood_def rpsQuiet_def)
  ultimately show ?thesis using assms(1)
    by (intro state.equality) (simp_all add: PlayerView_def alikeFor_def redactPluginData_def redactedBlocks_def)
qed

lemma alikeFor_throw:
  assumes a: "alikeFor q s1 s2" "alikeReq q r1 r2" and good: "rpsGood s1" "rpsGood s2" "Gameover (Ctx s1) = VNil"
    and p: "rqPlayerID r1 \<in> set (waiting s1)" and t: "throwArg (rqArgs r1) = Some t1" "throwArg (rqArgs r2) = Some t2"
    and open1: "\<not> roundFull r1 t1 s1"
  shows "alikeFor q (afterThrow r1 t1 s1) (afterThrow r2 t2 s2)"
proof -
  note r = alikeReq_fields [OF a(2)]
  let ?p = "rqPlayerID r1"
  have ctx: "Ctx s2 = Ctx s1" using a(1) by (simp add: alikeFor_def)
  have q: "rpsQuiet s1" "rpsQuiet s2" "armedFor (waiting s1) s1" "armedFor (waiting s2) s2"
    using good ctx by (simp_all add: rpsGood_def)
  have keys: "waiting s = map fst (the (ActivePlayers (Ctx s)))" if "armedFor (waiting s) s" for s
    using that by (simp add: armedFor_def comp_def)
  have w: "waiting s2 = waiting s1" unfolding keys [OF q(3)] keys [OF q(4)] by (simp add: ctx)
  have full: "\<not> roundFull r2 t2 s2"
    using length_pending [of s1 ?p t1] length_pending [of s2 ?p t2] open1 good q(1,2) p w r(1) ctx
    by (auto simp: roundFull_def rpsGood_def rpsQuiet_def)
  let ?t1 = "throwing r1 t1 s1" let ?t2 = "throwing r2 t2 s2"
  have af: "afterThrow r1 t1 s1 = ?t1" "afterThrow r2 t2 s2 = ?t2" using open1 full by (simp_all add: afterThrow_def)
  note w1 = waiting_throwing [OF q(1), of r1 t1] and w2 = waiting_throwing [OF q(2), of r2 t2]
  have g: "rpsGood ?t1" "rpsGood ?t2"
    using rps_after_throw(1) [OF good(1,3) p, of t1] rps_after_throw(1) [OF good(2), of r2 t2] good(3) p w ctx r(1) af by simp_all
  have act: "ActivePlayers (Ctx ?t1) = ActivePlayers (Ctx ?t2)"
    using g w1 w2 w r(1) good(3) ctx by (simp add: rpsGood_def armedFor_def)
  have fields: "rawG (throwing r x s) = rawG s" "rawPlugins (throwing r x s) = rawPlugins s" "StateID (throwing r x s) = StateID s + 1"
    "Log (throwing r x s) = Log s @ [moveEntry r (Ctx s) True True]" "Undone (throwing r x s) = []"
    "\<exists>b. Ctx (throwing r x s) = (Ctx s)\<lparr>NumMoves := NumMoves (Ctx s) + 1, ActivePlayers := b\<rparr>"
    if "rpsQuiet s" for r x s
    using thrown_fields [of "s\<lparr>G := (G s)\<lparr>rpPending := mput (rqPlayerID r) x (rpPending (G s))\<rparr>, StateID := StateID s + 1,
         Log := Log s @ [moveEntry r (Ctx s) True True], Undone := [],
         TurnSnapshots := TurnSnapshots s @ [cloneStateForSnapshot s]\<rparr>" "rqPlayerID r", folded throwing_def] that
    by (simp_all add: rpsQuiet_def)
  have "Ctx ?t1 = Ctx ?t2" using fields(6) [OF q(1), of r1 t1] fields(6) [OF q(2), of r2 t2] act ctx by auto
  moreover have "redactedLog [moveEntry r1 (Ctx s1) True True] q = redactedLog [moveEntry r2 (Ctx s1) True True] q"
    using a(2) r by (cases "?p = q") (auto simp: redactedLog_def moveEntry_def alikeReq_def)
  moreover have "?p = q \<Longrightarrow> t1 = t2" using a(2) t by (simp add: alikeReq_def)
  ultimately show ?thesis using a(1) ctx r(1) fields [OF q(1)] fields [OF q(2)]
    by (auto simp: af alikeFor_def w1 w2 redactedLog_def)
qed


lemma rounds_grow:
  assumes "playAll rps reqs st h = Some (st', h')" "rpsGood st"
  shows "rpRound (G st) \<le> rpRound (G st')"
proof -
  have step: "tbRound b \<le> tbRound (rpsPlay m b)" for m b by (cases m) (simp_all add: resolveRound_def Let_def)
  have "rpRound (G st) \<le> tbRound (rpsAbs st')"
    using rpsg.playAll_counted [OF assms, of "\<lambda>_ b. rpRound (G st) \<le> tbRound b"] step
    by (metis (no_types, lifting) order_refl order_trans rpsAbs_def rpsTableau.select_convs(5))
  then show ?thesis by (simp add: rpsAbs_def)
qed

lemma round_afterThrow:
  "rpsQuiet st \<Longrightarrow> rpRound (G (afterThrow req t st)) = rpRound (G st) + (if roundFull req t st then 1 else 0)"
  using waiting_throwing(2) [of st req t] by (simp add: afterThrow_def Let_def revealed_cases resolved_def)

lemma accepted_throw:
  assumes "rpsGood s" "Apply rps s r h = Some (a, None, k)" "rqMove r = ''submit''"
  obtains t where "a = afterThrow r t (clocked r s)" "rpsGood a" "throwArg (rqArgs r) = Some t" "rpsGood (clocked r s)"
    "Gameover (Ctx (clocked r s)) = VNil" "rqPlayerID r \<in> set (waiting (clocked r s))"
proof -
  obtain m where m: "rpsRequest s r = Some m" "rpsGood a" using rpsg.accepted_legal [OF assms(1,2)] by metis
  then obtain t where t: "rpsRequest s r = Some (Throw (rqPlayerID r) t)" using assms(3) by (auto simp: rpsRequest_def split: if_splits)
  note x = rps_Apply_throw [OF assms(1) t]
  show ?thesis using that [of t] x(1) [of h] x(3-5) assms(1,2) m(2) by (simp add: clocked_def rpsGood_clock)
qed

lemma alike_run:
  assumes "list_all2 (alikeReq q) reqs1 reqs2" "alikeFor q s1 s2" "rpsGood s1" "rpsGood s2"
    "playAll rps reqs1 s1 h = Some (st1, h1)" "playAll rps reqs2 s2 h' = Some (st2, h2)" "rpRound (G st1) = rpRound (G s1)"
  shows "alikeFor q st1 st2 \<and> rpsGood st1 \<and> rpsGood st2"
  using assms
proof (induction reqs1 reqs2 arbitrary: s1 s2 h h' rule: list_all2_induct)
  case (Cons r1 rs1 r2 rs2)
  obtain a1 k1 a2 k2 where a: "Apply rps s1 r1 h = Some (a1, None, k1)" "playAll rps rs1 a1 k1 = Some (st1, h1)"
    "Apply rps s2 r2 h' = Some (a2, None, k2)" "playAll rps rs2 a2 k2 = Some (st2, h2)"
    using Cons.prems(4,5) by (auto split: option.splits)
  note r = alikeReq_fields [OF Cons.hyps(1)]
  have "rqMove r1 = ''submit''" using Cons.hyps(1) by (simp add: alikeReq_def)
  then obtain t1 where x1: "a1 = afterThrow r1 t1 (clocked r1 s1)" "rpsGood a1" "throwArg (rqArgs r1) = Some t1" "rpsGood (clocked r1 s1)"
    "Gameover (Ctx (clocked r1 s1)) = VNil" "rqPlayerID r1 \<in> set (waiting (clocked r1 s1))"
    using accepted_throw [OF Cons.prems(2) a(1)] by metis
  obtain t2 where x2: "a2 = afterThrow r2 t2 (clocked r2 s2)" "rpsGood a2" "throwArg (rqArgs r2) = Some t2" "rpsGood (clocked r2 s2)"
    using accepted_throw [OF Cons.prems(3) a(3) r(2)] by metis
  have al: "alikeFor q (clocked r1 s1) (clocked r2 s2)" using Cons.prems(1) r(3) by (simp add: alikeFor_def clocked_def)
  have g: "G (clocked r1 s1) = G s1" by (simp add: clocked_def)
  have "rpRound (G a1) = rpRound (G s1) + (if roundFull r1 t1 (clocked r1 s1) then 1 else 0)"
    using x1(1,4) round_afterThrow [of "clocked r1 s1"] g by (simp add: rpsGood_def)
  moreover have "rpRound (G a1) \<le> rpRound (G s1)" using rounds_grow [OF a(2) x1(2)] Cons.prems(6) by simp
  ultimately have n: "\<not> roundFull r1 t1 (clocked r1 s1)" "rpRound (G st1) = rpRound (G a1)" using Cons.prems(6) by (auto split: if_splits)
  have "alikeFor q a1 a2"
    unfolding x1(1) x2(1) by (rule alikeFor_throw [OF al Cons.hyps(1) x1(4) x2(4) x1(5,6,3) x2(3) n(1)])
  then show ?case using Cons.IH [OF _ x1(2) x2(2) a(2,4) n(2)] by simp
qed auto

text \<open>
  A throw is secret until the round is resolved. Take two runs of a match from the same state in
  which the seats throw in the same order, and in which one seat, or a spectator, makes the same
  throws; if no round was resolved in between, what that seat is sent is the same in both: the
  state, the log and the undone entries do not depend on what the others threw.
\<close>

theorem rps_hides_throws:
  assumes "rpsGood st" "playAll rps reqs1 st h = Some (st1, h1)" "playAll rps reqs2 st h = Some (st2, h2)"
    "list_all2 (alikeReq q) reqs1 reqs2" "rpRound (G st1) = rpRound (G st)"
  shows "(PlayerView rps st1 q)\<lparr>TurnSnapshots := []\<rparr> = (PlayerView rps st2 q)\<lparr>TurnSnapshots := []\<rparr>"
proof -
  have "alikeFor q st st" by (simp add: alikeFor_def)
  from alike_run [OF assms(4) this assms(1,1,2,3,5)] show ?thesis using alikeFor_view by blast
qed

theorem rps_hides_throws_witness:
  "\<exists>st1 st2. playAll rps (throws [''rock'', ''paper'']) (rpsOpening 3 7) () = Some (st1, ()) \<and>
     playAll rps (throws [''scissors'', ''paper'']) (rpsOpening 3 7) () = Some (st2, ()) \<and> G st1 \<noteq> G st2 \<and>
     (PlayerView rps st1 ''1'')\<lparr>TurnSnapshots := []\<rparr> = (PlayerView rps st2 ''1'')\<lparr>TurnSnapshots := []\<rparr>"
proof -
  have "map_option (\<lambda>(st, h). (rpRound (G st), map_of (rpPending (G st)) ''0'')) (playAll rps (throws [t, ''paper'']) (rpsOpening 3 7) ()) =
      Some (0, Some t)" if "t \<in> {''rock'', ''scissors''}" for t
    using that by (elim insertE emptyE) (hypsubst, code_simp)+
  from this [of "''rock''"] this [of "''scissors''"]
  obtain st1 st2 where s: "playAll rps (throws [''rock'', ''paper'']) (rpsOpening 3 7) () = Some (st1, ())"
    "playAll rps (throws [''scissors'', ''paper'']) (rpsOpening 3 7) () = Some (st2, ())"
    "rpRound (G st1) = 0" "map_of (rpPending (G st1)) ''0'' = Some ''rock''" "map_of (rpPending (G st2)) ''0'' = Some ''scissors''" by auto
  have z: "itoa 0 = ''0''" "itoa 1 = ''1''" by code_simp+
  have al: "list_all2 (alikeReq ''1'') (throws [''rock'', ''paper'']) (throws [''scissors'', ''paper''])"
    by (simp add: throws_def z alikeReq_def request_def)
  have r: "rpRound (G (rpsOpening 3 7)) = 0" by (simp add: rpsOpening_def freshState_def)
  have "G st1 \<noteq> G st2" using s(4,5) by auto
  then show ?thesis using s rps_hides_throws [OF rpsOpening_good(1) s(1,2) al] r by auto
qed


text \<open>What a bot is offered is what it may do: exactly the throws the engine accepts from the player.\<close>

theorem rps_enumerates:
  fixes h :: 'h
  assumes "rpsGood st" "Gameover (Ctx st) = VNil"
  shows "\<lparr>eaMove = ''submit'', eaArgs = [VStr t]\<rparr> \<in> set (rpsEnumerate (G st) (Ctx st) pid) \<longleftrightarrow>
    (\<exists>st' h'. Apply rps st (request pid ''submit'' [VStr t]) h = Some (st', None, h'))"
proof -
  let ?req = "request pid ''submit'' [VStr t]"
  have a: "armedFor (waiting st) st" using assms by (simp add: rpsGood_def)
  have "\<lparr>eaMove = ''submit'', eaArgs = [VStr t]\<rparr> \<in> set (rpsEnumerate (G st) (Ctx st) pid) \<longleftrightarrow> pid \<in> set (waiting st) \<and> t \<in> set validThrows"
    using a by (auto simp: rpsEnumerate_def armedFor_def map_of_const waiting_def split: if_splits)
  also have "\<dots> \<longleftrightarrow> rpsRequest st ?req \<noteq> None"
    using assms(2) by (simp add: rpsRequest_def request_def throwArg_def)
  also have "\<dots> \<longleftrightarrow> (\<exists>st' h'. Apply rps st ?req h = Some (st', None, h'))"
    using rps_Apply_legal [OF assms(1), of ?req _ h] rps_Apply_illegal [OF assms(1), of ?req h] by fastforce
  finally show ?thesis .
qed

end
