(* ===== verification/Prng.thy ===== *)
theory Prng
  imports GoValue "HOL-Library.Word" "HOL-Library.Multiset"
begin

unbundle bit_operations_syntax

text \<open>
  The seeded generator of \<open>core/random.go\<close> and the seed resolution of
  \<open>plugins/random/random.go\<close>. The PRNG state is a 64-bit word and every draw is the
  splitmix64 step on it; \<open>Random\<close>'s shared state pointer becomes explicit state passing.
  The test overrides (\<open>MockNumber\<close>, \<open>MockDie\<close>, \<open>MockD6\<close>, \<open>MockShuffle\<close>) are optional
  functions of the record.
\<close>

section \<open>The generator\<close>

record random =
  rnState :: "64 word"
  rnMockNumber :: "f64 option"
  rnMockDie :: "(int list \<Rightarrow> goval) option"
  rnMockD6 :: "(int list \<Rightarrow> goval) option"
  rnMockShuffle :: "(goval list \<Rightarrow> goval list) option"

definition NewRandomFromState :: "64 word \<Rightarrow> random" where
  "NewRandomFromState s = \<lparr>rnState = s, rnMockNumber = None, rnMockDie = None,
                            rnMockD6 = None, rnMockShuffle = None\<rparr>"

definition rnSetState :: "64 word \<Rightarrow> random \<Rightarrow> random" where
  "rnSetState s r = r\<lparr>rnState := s\<rparr>"

definition splitmix_mix :: "64 word \<Rightarrow> 64 word" where
  "splitmix_mix s =
     (let z = (s XOR drop_bit 30 s) * 0xBF58476D1CE4E5B9;
          z = (z XOR drop_bit 27 z) * 0x94D049BB133111EB
      in z XOR drop_bit 31 z)"

definition next_u64 :: "random \<Rightarrow> 64 word \<times> random" where
  "next_u64 r = (let s = rnState r + 0x9E3779B97F4A7C15 in (splitmix_mix s, r\<lparr>rnState := s\<rparr>))"

text \<open>53 random bits scaled by \<open>2\<^sup>-\<^sup>5\<^sup>3\<close>: a float64 holds the quotient exactly.\<close>

definition Number :: "random \<Rightarrow> f64 \<times> random" where
  "Number r = (case rnMockNumber r of
     Some f \<Rightarrow> (f, r)
   | None \<Rightarrow> (let (z, r') = next_u64 r
              in (Fin (of_nat (unat (drop_bit 11 z)) / 2 ^ 53), r')))"

definition die :: "int \<Rightarrow> random \<Rightarrow> int \<times> random" where
  "die sides r = (let (z, r') = next_u64 r in (sint (z mod word_of_int sides) + 1, r'))"

fun dice :: "nat \<Rightarrow> int \<Rightarrow> random \<Rightarrow> int list \<times> random" where
  "dice 0 sides r = ([], r)"
| "dice (Suc n) sides r =
     (let (v, r') = die sides r; (vs, r'') = dice n sides r' in (v # vs, r''))"

text \<open>\<open>Die\<close> returns a single int for a count of at most one and a slice otherwise.\<close>

definition Die :: "int list \<Rightarrow> random \<Rightarrow> goval \<times> random" where
  "Die args r = (case rnMockDie r of
     Some f \<Rightarrow> (f args, r)
   | None \<Rightarrow>
       (let sides = (case args of [] \<Rightarrow> 6 | s # _ \<Rightarrow> s);
            cnt = (case args of _ # c # _ \<Rightarrow> c | _ \<Rightarrow> 1);
            sides = (if sides \<le> 0 then 1 else sides)
        in if cnt \<le> 1 then (let (v, r') = die sides r in (VI v, r'))
           else (let (vs, r') = dice (nat cnt) sides r in (VList (map VI vs), r'))))"

definition dWrap :: "int \<Rightarrow> int list \<Rightarrow> random \<Rightarrow> goval \<times> random" where
  "dWrap sides cnt r = (case cnt of
     [] \<Rightarrow> (let (v, r') = die sides r in (VI v, r'))
   | c # _ \<Rightarrow> Die [sides, c] r)"

definition D4 :: "int list \<Rightarrow> random \<Rightarrow> goval \<times> random" where "D4 = dWrap 4"
definition D6 :: "int list \<Rightarrow> random \<Rightarrow> goval \<times> random" where
  "D6 cnt r = (case rnMockD6 r of Some f \<Rightarrow> (f cnt, r) | None \<Rightarrow> dWrap 6 cnt r)"
definition D8 :: "int list \<Rightarrow> random \<Rightarrow> goval \<times> random" where "D8 = dWrap 8"
definition D10 :: "int list \<Rightarrow> random \<Rightarrow> goval \<times> random" where "D10 = dWrap 10"
definition D12 :: "int list \<Rightarrow> random \<Rightarrow> goval \<times> random" where "D12 = dWrap 12"
definition D20 :: "int list \<Rightarrow> random \<Rightarrow> goval \<times> random" where "D20 = dWrap 20"

text \<open>The Fisher-Yates loop: the index runs from \<open>len - 1\<close> down to 1.\<close>

fun shuffleFrom :: "nat \<Rightarrow> random \<Rightarrow> 'a list \<Rightarrow> 'a list \<times> random" where
  "shuffleFrom 0 r out = (out, r)"
| "shuffleFrom (Suc i) r out =
     (let (z, r') = next_u64 r;
          j = unat (z mod word_of_nat (Suc (Suc i)))
      in shuffleFrom i r' (out[Suc i := out ! j, j := out ! Suc i]))"

definition Shuffle :: "random \<Rightarrow> 'a list \<Rightarrow> 'a list \<times> random" where
  "Shuffle r xs = shuffleFrom (length xs - 1) r xs"

section \<open>Seeds (\<open>plugins/random\<close>)\<close>

text \<open>FNV-1a over bytes, and the IEEE bit pattern of a float64.\<close>

definition fnv1a :: "nat list \<Rightarrow> 64 word" where
  "fnv1a bytes = fold (\<lambda>b h. (h XOR word_of_nat b) * 1099511628211) bytes 14695981039346656037"

definition float64bits :: "f64 \<Rightarrow> 64 word" where
  "float64bits x = (case x of
     NaN \<Rightarrow> 0x7FF8000000000001
   | PosInf \<Rightarrow> 0x7FF0000000000000
   | NegInf \<Rightarrow> 0xFFF0000000000000
   | Fin q \<Rightarrow>
      (let (n, d) = quotient_of q;
           m = nat \<bar>n\<bar>; k = bitlen (nat d) - 1; len = bitlen m;
           e = int len - 1 - int k;
           mag = (if m = 0 then 0
                  else if -1022 \<le> e then nat (e + 1023) * 2 ^ 52 + (m * 2 ^ (53 - len) - 2 ^ 52)
                  else m * 2 ^ (1074 - k))
       in word_of_nat mag + (if n < 0 then 0x8000000000000000 else 0)))"

definition le_bytes :: "64 word \<Rightarrow> nat list" where
  "le_bytes w = map (\<lambda>i. unat (drop_bit (8 * i) w AND 255)) [0..<8]"

text \<open>
  Numbers cast directly when they are integral and in range; a cast of an out-of-range
  float never compares equal to the float it came from, so those are hashed.
\<close>

definition float_seed :: "f64 \<Rightarrow> 64 word" where
  "float_seed x = (case x of
     Fin q \<Rightarrow> (if snd (quotient_of q) = 1 \<and> 0 \<le> q \<and> q < 2 ^ 64
               then word_of_int (fst (quotient_of q))
               else fnv1a (le_bytes (float64bits x)))
   | _ \<Rightarrow> fnv1a (le_bytes (float64bits x)))"

fun seedToUint64 :: "goval \<Rightarrow> 64 word" where
  "seedToUint64 (VInt t n) =
     (if t \<in> {''uint64'', ''int'', ''int64'', ''int32''} then word_of_int n else 0)"
| "seedToUint64 (VFloat t x) = (if t = ''float64'' then float_seed x else 0)"
| "seedToUint64 (VStr s) = fnv1a (map of_char s)"
| "seedToUint64 _ = 0"

definition unseededFallback :: "64 word" where
  "unseededFallback = 0xDEADBEEFCAFEBABE"

text \<open>\<open>gameSeed\<close> is \<open>None\<close> when the plugin is set up without a game.\<close>

definition resolveSeed :: "64 word \<Rightarrow> goval option \<Rightarrow> 64 word \<Rightarrow> 64 word" where
  "resolveSeed pluginSeed gameSeed ctxSeed =
     (if pluginSeed \<noteq> 0 then pluginSeed
      else case gameSeed of
        Some s \<Rightarrow> (if s \<noteq> VNil \<and> seedToUint64 s \<noteq> 0 then seedToUint64 s
                   else if ctxSeed \<noteq> 0 then ctxSeed else unseededFallback)
      | None \<Rightarrow> (if ctxSeed \<noteq> 0 then ctxSeed else unseededFallback))"

section \<open>Bounds and permutation\<close>

lemma sint_mod_range:
  assumes "1 \<le> sides" "sides < 2 ^ 63"
  shows "0 \<le> sint (z mod word_of_int sides :: 64 word) \<and> sint (z mod word_of_int sides :: 64 word) < sides"
proof -
  let ?w = "z mod word_of_int sides :: 64 word"
  have us: "uint (word_of_int sides :: 64 word) = sides"
    using assms by (simp add: uint_word_of_int)
  then have u: "uint ?w < sides"
    using assms by (simp add: uint_mod)
  moreover have "0 \<le> uint ?w" by simp
  ultimately have "uint ?w < 2 ^ 63" "- (2 ^ 63) \<le> uint ?w" using assms by linarith+
  then have "sint ?w = uint ?w"
    by (simp add: sint_uint signed_take_bit_int_eq_self_iff)
  with u show ?thesis by simp
qed

lemma die_range:
  "1 \<le> sides \<Longrightarrow> sides < 2 ^ 63 \<Longrightarrow> 1 \<le> fst (die sides r) \<and> fst (die sides r) \<le> sides"
  using sint_mod_range [of sides "fst (next_u64 r)"]
  by (auto simp: die_def split_beta)

text \<open>
  What users of dice rely on: a roll of a die with a sane number of sides lies between 1
  and that number.
\<close>

locale dice_source =
  fixes roll :: "int \<Rightarrow> 's \<Rightarrow> int \<times> 's"
  assumes roll_range: "1 \<le> sides \<Longrightarrow> sides < 2 ^ 63 \<Longrightarrow> 1 \<le> fst (roll sides s) \<and> fst (roll sides s) \<le> sides"
begin

primrec roll_many :: "nat \<Rightarrow> int \<Rightarrow> 's \<Rightarrow> int list \<times> 's" where
  "roll_many 0 sides s = ([], s)"
| "roll_many (Suc n) sides s =
     (let (v, s') = roll sides s; (vs, s'') = roll_many n sides s' in (v # vs, s''))"

lemma roll_many_range:
  assumes "1 \<le> sides" "sides < 2 ^ 63"
  shows "length (fst (roll_many n sides s)) = n \<and> set (fst (roll_many n sides s)) \<subseteq> {1..sides}"
proof (induction n arbitrary: s)
  case (Suc n)
  obtain v s' where v: "roll sides s = (v, s')" by (cases "roll sides s")
  with roll_range [OF assms, of s] have "v \<in> {1..sides}" by simp
  with Suc.IH [of s'] v show ?case by (auto split: prod.splits)
qed simp

end

interpretation splitmix: dice_source die
  by unfold_locales (rule die_range)

lemma dice_roll_many: "dice n sides r = splitmix.roll_many n sides r"
  by (induction n arbitrary: r) simp_all

lemma shuffleFrom_mset:
  assumes "i < length out" "length out < 2 ^ 64"
  shows "mset (fst (shuffleFrom i r out)) = mset out"
  using assms
proof (induction i arbitrary: r out)
  case (Suc i)
  obtain z r' where z: "next_u64 r = (z, r')" by (cases "next_u64 r")
  let ?j = "unat (z mod word_of_nat (Suc (Suc i)))"
  have "unat (word_of_nat (Suc (Suc i)) :: 64 word) = Suc (Suc i)"
    using Suc.prems by (simp add: unat_of_nat take_bit_nat_eq_self del: of_nat_Suc)
  then have "?j < Suc (Suc i)"
    by (simp add: unat_mod del: of_nat_Suc)
  then have j: "?j < length out" using Suc.prems by simp
  let ?out = "out[Suc i := out ! ?j, ?j := out ! Suc i]"
  have "mset (fst (shuffleFrom i r' ?out)) = mset ?out"
    using Suc.prems by (intro Suc.IH) simp_all
  also have "\<dots> = mset out"
    using j Suc.prems by (simp add: mset_swap)
  finally show ?case by (simp add: z Let_def del: of_nat_Suc)
qed simp

lemma mset_Shuffle: "length xs < 2 ^ 64 \<Longrightarrow> mset (fst (Shuffle r xs)) = mset xs"
proof (cases "xs = []")
  case False
  moreover assume "length xs < 2 ^ 64"
  ultimately show ?thesis unfolding Shuffle_def by (intro shuffleFrom_mset) simp_all
qed (simp add: Shuffle_def)

text \<open>
  Shuffle returns a permutation of its input: the same cards with the same
  multiplicities, for any generator state.
\<close>

theorem Shuffle_permutes:
  assumes "length xs < 2 ^ 63"
  shows "mset (fst (Shuffle r xs)) = mset xs"
  using assms by (intro mset_Shuffle) simp

theorem Shuffle_permutes_witness:
  "length [1, 2, 3 :: nat] < 2 ^ 63 \<and>
   mset (fst (Shuffle (NewRandomFromState 42) [1, 2, 3 :: nat])) = {#1, 2, 3#}"
proof -
  have h: "length [1, 2, 3 :: nat] < 2 ^ 63" by simp
  show ?thesis using h Shuffle_permutes [OF h, of "NewRandomFromState 42"] by simp
qed

text \<open>
  Die, without a test override, returns for a positive number of sides either one
  value (count at most 1) or exactly count values, each between 1 and the number of sides;
  a non-positive number of sides is treated as 1.
\<close>

theorem Die_range:
  assumes "rnMockDie r = None" "sides < 2 ^ 63"
  shows "\<exists>vs. set vs \<subseteq> {1..max 1 sides} \<and>
     (if cnt \<le> 1 then length vs = 1 \<and> fst (Die [sides, cnt] r) = VI (hd vs)
      else int (length vs) = cnt \<and> fst (Die [sides, cnt] r) = VList (map VI vs))"
proof -
  define s where "s = (if sides \<le> 0 then 1 else sides)"
  have s: "1 \<le> s" "s < 2 ^ 63" "s = max 1 sides" using assms(2) by (auto simp: s_def)
  show ?thesis
  proof (cases "cnt \<le> 1")
    case True
    have "fst (Die [sides, cnt] r) = VI (fst (die s r))"
      using True assms(1) by (simp add: Die_def s_def split: prod.splits)
    moreover have "fst (die s r) \<in> {1..max 1 sides}" using die_range [OF s(1,2), of r] s(3) by simp
    ultimately show ?thesis using True by (intro exI [of _ "[fst (die s r)]"]) auto
  next
    case False
    let ?vs = "fst (dice (nat cnt) s r)"
    have "fst (Die [sides, cnt] r) = VList (map VI ?vs)"
      using False assms(1) by (simp add: Die_def s_def split: prod.splits)
    moreover have "length ?vs = nat cnt" "set ?vs \<subseteq> {1..max 1 sides}"
      using splitmix.roll_many_range [OF s(1,2), of "nat cnt" r] s(3) by (simp_all add: dice_roll_many)
    ultimately show ?thesis using False by (intro exI [of _ ?vs]) auto
  qed
qed

theorem Die_range_witness:
  "rnMockDie (NewRandomFromState 7) = None \<and> (6 :: int) < 2 ^ 63 \<and>
   (\<exists>vs. set vs \<subseteq> {1..6} \<and> int (length vs) = 3 \<and>
         fst (Die [6, 3] (NewRandomFromState 7)) = VList (map VI vs))"
proof -
  have h: "rnMockDie (NewRandomFromState 7) = None" "(6 :: int) < 2 ^ 63"
    by (simp_all add: NewRandomFromState_def)
  show ?thesis using h Die_range [OF h, of 3] by simp
qed

text \<open>
  The random plugin never starts from PRNG state zero, and takes the most specific
  source of entropy: its own seed, then the game's, then the match's, then a constant.
\<close>

theorem resolveSeed_precedence:
  "resolveSeed p g c \<noteq> 0 \<and>
   (p \<noteq> 0 \<longrightarrow> resolveSeed p g c = p) \<and>
   (p = 0 \<and> seedToUint64 (case g of None \<Rightarrow> VNil | Some s \<Rightarrow> s) = 0 \<and> c \<noteq> 0 \<longrightarrow> resolveSeed p g c = c)"
  by (auto simp: resolveSeed_def unseededFallback_def split: option.splits)

theorem resolveSeed_precedence_witness:
  "resolveSeed 0 (Some (VStr ''abc'')) 5 \<noteq> 0 \<and> resolveSeed 9 (Some (VI 4)) 5 = 9 \<and>
   resolveSeed 0 (Some VNil) 5 = 5"
  using resolveSeed_precedence [of 0 "Some (VStr ''abc'')" 5]
    resolveSeed_precedence [of 9 "Some (VI 4)" 5] resolveSeed_precedence [of 0 "Some VNil" 5]
  by simp

text \<open>
  D4 (and its siblings) called with a count of one yields a bare int, not the slice of
  length one that the documentation of D4 promises for a call with an argument.
\<close>

theorem D4_count_one_is_bare_int:
  "rnMockDie r = None \<Longrightarrow> \<exists>v. fst (D4 [1] r) = VI v \<and> v \<in> {1..4}"
  using die_range [of 4 r] by (auto simp: D4_def dWrap_def Die_def split: prod.splits)

theorem D4_count_one_is_bare_int_witness:
  "rnMockDie (NewRandomFromState 3) = None \<and>
   (\<exists>v. fst (D4 [1] (NewRandomFromState 3)) = VI v \<and> v \<in> {1..4})"
proof -
  have h: "rnMockDie (NewRandomFromState 3) = None" by (simp add: NewRandomFromState_def)
  show ?thesis using h D4_count_one_is_bare_int [OF h] by simp
qed

end
