(* ===== verification/Plugins.thy ===== *)
theory Plugins
  imports Lifecycle Prng
begin

text \<open>
  The two plugins that ship with the engine, as clients of the plugin host: the random plugin
  (\<open>plugins/random/random.go\<close>), whose persisted data is a pointer to the generator's state, and
  the player plugin (\<open>plugins/player/player.go\<close>), whose data is a pointer to a map of records.

  A pointer is a \<open>VRef\<close> into the memory that the engine threads through game code: a list of
  generator states, and a list of record maps. The generator a move gets from its plugin table
  reads and writes the word behind the pointer. Converting a float that does not fit a uint64
  is the parameter \<open>cvt\<close>, and the JSON decoder is a parameter. A failed type assertion panics:
  \<open>None\<close>.
\<close>

section \<open>The random plugin\<close>

type_synonym randomMem = "64 word list"

definition newState :: "64 word \<Rightarrow> randomMem \<Rightarrow> goval \<times> randomMem" where
  "newState s h = (VRef (length h), h @ [s])"

definition randomSetup :: "64 word \<Rightarrow> goval \<Rightarrow> 'g \<Rightarrow> ctx \<Rightarrow> randomMem \<Rightarrow> goval \<times> randomMem" where
  "randomSetup seed gameSeed g c h = newState (resolveSeed seed (Some gameSeed) (Seed c)) h"

definition floatToUint64 :: "(f64 \<Rightarrow> 64 word) \<Rightarrow> f64 \<Rightarrow> 64 word" where
  "floatToUint64 cvt x = (case x of
     Fin q \<Rightarrow> (let n = (if 0 \<le> q then \<lfloor>q\<rfloor> else \<lceil>q\<rceil>) in if 0 \<le> n \<and> n < 2 ^ 64 then word_of_int n else cvt x)
   | _ \<Rightarrow> cvt x)"

text \<open>The generator handed to a move: the data's own state, or a fresh one when the data is generic JSON.\<close>

definition randomAPI :: "(f64 \<Rightarrow> 64 word) \<Rightarrow> 64 word \<Rightarrow> goval \<Rightarrow> goval \<Rightarrow> 'g \<Rightarrow> ctx \<Rightarrow> string \<Rightarrow> randomMem \<Rightarrow> goval \<times> randomMem" where
  "randomAPI cvt seed gameSeed data g c pid h =
     (let fresh = newState (resolveSeed seed (Some gameSeed) (Seed c)) h
      in case data of
        VRef a \<Rightarrow> (VRef a, h)
      | VMap m \<Rightarrow> (case map_of m ''s'' of
                     Some (VFloat t x) \<Rightarrow> if t = ''float64'' then newState (floatToUint64 cvt x) h else fresh
                   | _ \<Rightarrow> fresh)
      | _ \<Rightarrow> fresh)"

definition randomFlush :: "goval \<Rightarrow> goval \<Rightarrow> 'g \<Rightarrow> ctx \<Rightarrow> randomMem \<Rightarrow> goval \<times> randomMem" where
  "randomFlush data api g c h = (data, h)"

definition randomPlayerView :: "goval \<Rightarrow> 'g \<Rightarrow> ctx \<Rightarrow> string \<Rightarrow> goval" where
  "randomPlayerView data g c pid = VNil"

definition randomDecode :: "(string \<Rightarrow> string + 64 word) \<Rightarrow> string \<Rightarrow> randomMem \<Rightarrow> (string + goval) \<times> randomMem" where
  "randomDecode unmarshal raw h = (case unmarshal raw of
     Inl e \<Rightarrow> (Inl e, h)
   | Inr s \<Rightarrow> (let (d, h) = newState s h in (Inr d, h)))"

definition randomPlugin :: "(f64 \<Rightarrow> 64 word) \<Rightarrow> goval \<Rightarrow> goval \<Rightarrow> ('g, randomMem) plugin" where
  "randomPlugin cvt seed gameSeed =
     \<lparr>plName = ''random'', plSetup = Some (randomSetup (seedToUint64 seed) gameSeed),
      plAPI = Some (randomAPI cvt (seedToUint64 seed) gameSeed), plFlush = Some randomFlush, plIsInvalid = None,
      plPlayerView = Some randomPlayerView, plWrapMove = None, plWrapHook = None\<rparr>"

text \<open>A draw from the generator in a move's plugin table; a table without one panics.\<close>

definition drawFrom :: "(random \<Rightarrow> 'a \<times> random) \<Rightarrow> goval \<Rightarrow> randomMem \<Rightarrow> ('a \<times> randomMem) option" where
  "drawFrom f api h = (case api of
     VRef a \<Rightarrow> (if a < length h
               then (let (x, r) = f (NewRandomFromState (h ! a)) in Some (x, h[a := rnState r]))
               else None)
   | _ \<Rightarrow> None)"

section \<open>The player plugin\<close>

type_synonym playerMem = "goval gomap list"

record playerOptions =
  poPlayerSetup :: "(string \<Rightarrow> goval) option"
  poPlayerView :: "goval gomap \<Rightarrow> string \<Rightarrow> goval gomap"

definition defaultPlayerView :: "goval gomap \<Rightarrow> string \<Rightarrow> goval gomap" where
  "defaultPlayerView players pid =
     (if pid = '''' then [] else case map_of players pid of Some v \<Rightarrow> [(pid, v)] | None \<Rightarrow> [])"

definition playerNew :: "(string \<Rightarrow> goval) option \<Rightarrow> (goval gomap \<Rightarrow> string \<Rightarrow> goval gomap) option \<Rightarrow> playerOptions" where
  "playerNew setup view = \<lparr>poPlayerSetup = setup, poPlayerView = (case view of Some f \<Rightarrow> f | None \<Rightarrow> defaultPlayerView)\<rparr>"

definition newData :: "goval gomap \<Rightarrow> playerMem \<Rightarrow> goval \<times> playerMem" where
  "newData m h = (VRef (length h), h @ [m])"

definition playerSetup :: "playerOptions \<Rightarrow> 'g \<Rightarrow> ctx \<Rightarrow> playerMem \<Rightarrow> goval \<times> playerMem" where
  "playerSetup opts g c h = (case poPlayerSetup opts of
     None \<Rightarrow> newData [] h
   | Some f \<Rightarrow> newData (fold (\<lambda>pid m. mput pid (f pid) m) (PlayOrder c) []) h)"

record playerAPI =
  paPlayerID :: string
  paData :: nat
  paOpponent :: "string option"

text \<open>The API of a seat, with the opponent's seat when there are two.\<close>

definition makeAPI :: "goval \<Rightarrow> ctx \<Rightarrow> string \<Rightarrow> playerAPI option" where
  "makeAPI raw c pid = (case raw of
     VRef a \<Rightarrow> Some \<lparr>paPlayerID = pid, paData = a,
        paOpponent = (if NumPlayers c = 2 \<and> pid \<noteq> '''' then find (\<lambda>p. p \<noteq> pid) (PlayOrder c) else None)\<rparr>
   | _ \<Rightarrow> None)"

definition recordOf :: "nat \<Rightarrow> string \<Rightarrow> playerMem \<Rightarrow> goval" where
  "recordOf a pid h = (case map_of (h ! a) pid of Some v \<Rightarrow> v | None \<Rightarrow> VNil)"

definition apiGet :: "playerAPI \<Rightarrow> playerMem \<Rightarrow> goval" where
  "apiGet api h = recordOf (paData api) (paPlayerID api) h"

definition apiSet :: "playerAPI \<Rightarrow> goval \<Rightarrow> playerMem \<Rightarrow> playerMem" where
  "apiSet api v h = h[paData api := mput (paPlayerID api) v (h ! paData api)]"

text \<open>The opponent's API is one of its own, on the same data and without an opponent; nil panics.\<close>

definition opponentOf :: "playerAPI \<Rightarrow> playerAPI option" where
  "opponentOf api = map_option (\<lambda>p. \<lparr>paPlayerID = p, paData = paData api, paOpponent = None\<rparr>) (paOpponent api)"

definition playerFlush :: "goval \<Rightarrow> goval \<Rightarrow> 'g \<Rightarrow> ctx \<Rightarrow> playerMem \<Rightarrow> goval \<times> playerMem" where
  "playerFlush data api g c h = (data, h)"

text \<open>The view of a seat is a record map of its own.\<close>

definition playerPlayerView :: "playerOptions \<Rightarrow> goval \<Rightarrow> string \<Rightarrow> playerMem \<Rightarrow> goval gomap option" where
  "playerPlayerView opts raw pid h = (case raw of VRef a \<Rightarrow> Some (poPlayerView opts (h ! a) pid) | _ \<Rightarrow> None)"


section \<open>Properties of the random plugin\<close>

lemma randomPlugin_simps [simp]:
  "plName (randomPlugin cvt seed gs) = ''random''" "plAPI (randomPlugin cvt seed gs) = Some (randomAPI cvt (seedToUint64 seed) gs)"
  "plSetup (randomPlugin cvt seed gs) = Some (randomSetup (seedToUint64 seed) gs)" "plFlush (randomPlugin cvt seed gs) = Some randomFlush"
  "plPlayerView (randomPlugin cvt seed gs) = Some randomPlayerView"
  by (simp_all add: randomPlugin_def)

lemma mput_single [simp]: "mput k v [] = [(k, v)]"
  by (simp add: mput_def)

text \<open>
  One stream per match. Setup puts a pointer to the seeded state into the plugin data; every
  move is handed that same pointer whoever makes it and leaves it in place, so that draws go on
  where the last ones stopped; and no view contains it.
\<close>

theorem random_plugin_shares_its_state:
  assumes "gmPlugins game = [randomPlugin cvt seed gs]"
  shows "(Plugins st = None \<longrightarrow> runPluginSetup game st h =
      (st\<lparr>Plugins := Some [(''random'', VRef (length h))]\<rparr>, h @ [resolveSeed (seedToUint64 seed) (Some gs) (Seed (Ctx st))])) \<and>
    (pluginDataFor st ''random'' = VRef a \<longrightarrow> buildPluginAPIs game st pid h = (Some [(''random'', VRef a)], h) \<and>
      (let (st', h') = flushPlugins game st mc h in pluginDataFor st' ''random'' = VRef a \<and> h' = h)) \<and>
    (Plugins st \<noteq> None \<longrightarrow> redactPluginData game st pid = Some [])"
  using assms
  by (cases "Plugins st")
    (auto simp: runPluginSetup_def randomSetup_def newState_def mputo_def buildPluginAPIs_def randomAPI_def flushPlugins_def
      randomFlush_def pluginDataFor_def redactPluginData_def randomPlayerView_def Let_def split: option.splits)


text \<open>
  On data that is not the plugin's own, as after a load without its Decode, the generator does
  not advance: every move, whatever was drawn before, is handed a fresh generator in the same
  state, and what it draws is forgotten, so that every move draws the same numbers.
\<close>

theorem degraded_generator_repeats:
  assumes "gmPlugins game = [randomPlugin cvt seed gs]" "\<And>a. pluginDataFor st ''random'' \<noteq> VRef a"
  shows "\<exists>s. \<forall>pid h. buildPluginAPIs game st pid h = (Some [(''random'', VRef (length h))], h @ [s]) \<and>
      (\<forall>f. map_option fst (drawFrom f (VRef (length h)) (h @ [s])) = Some (fst (f (NewRandomFromState s)))) \<and>
      (\<forall>mc. pluginDataFor (fst (flushPlugins game st mc h)) ''random'' = pluginDataFor st ''random'')"
proof -
  define s where "s = (case pluginDataFor st ''random'' of
      VMap m \<Rightarrow> (case map_of m ''s'' of
         Some (VFloat t x) \<Rightarrow> if t = ''float64'' then floatToUint64 cvt x else resolveSeed (seedToUint64 seed) (Some gs) (Seed (Ctx st))
       | _ \<Rightarrow> resolveSeed (seedToUint64 seed) (Some gs) (Seed (Ctx st)))
    | _ \<Rightarrow> resolveSeed (seedToUint64 seed) (Some gs) (Seed (Ctx st)))"
  have api: "randomAPI cvt (seedToUint64 seed) gs (pluginDataFor st ''random'') (G st) (Ctx st) pid h = (VRef (length h), h @ [s])" for pid h
    using assms(2) by (simp add: randomAPI_def s_def newState_def Let_def split: goval.split option.split)
  show ?thesis
    by (rule exI [of _ s])
      (use assms(1) api in \<open>auto simp: buildPluginAPIs_def drawFrom_def flushPlugins_def randomFlush_def mputo_def pluginDataFor_def
        split: prod.splits option.splits\<close>)
qed

text \<open>A game of one die: a roll may be refused after it was drawn.\<close>

definition rollDie :: "(goval list, randomMem) moveFn" where
  "rollDie mc args h = (case drawFrom (D6 []) (mcPlugin mc ''random'') h of
     None \<Rightarrow> (Inl ErrInvalidMove, noEffects, h)
   | Some (v, h) \<Rightarrow> (if args = [] then Inr (mcG mc @ [v]) else Inl ErrInvalidMove, noEffects, h))"

definition dieGame :: "(goval list, randomMem) game" where
  "dieGame = (blankGame [])\<lparr>gmMoves := Some [(''roll'', RawFn rollDie)], gmPlugins := [randomPlugin (\<lambda>_. 0) VNil VNil]\<rparr>"


theorem random_plugin_shares_its_state_witness:
  "\<exists>st h. NewMatchSeeded dieGame 2 VNil 7 [] = Some (st, h) \<and> h = [7] \<and> pluginDataFor st ''random'' = VRef 0 \<and>
     fst (buildPluginAPIs dieGame st ''0'' h) = Some [(''random'', VRef 0)] \<and> redactPluginData dieGame st ''0'' = Some []"
proof -
  have "map_option (\<lambda>(st, h). (pluginDataFor st ''random'', Plugins st = None, h)) (NewMatchSeeded dieGame 2 VNil 7 []) = Some (VRef 0, False, [7])"
    by code_simp
  then obtain st where st: "NewMatchSeeded dieGame 2 VNil 7 [] = Some (st, [7])" "pluginDataFor st ''random'' = VRef 0" "Plugins st \<noteq> None"
    by auto
  have "gmPlugins dieGame = [randomPlugin (\<lambda>_. 0) VNil VNil]" by (simp add: dieGame_def)
  from random_plugin_shares_its_state [OF this, of st "[7]" 0 "''0''"] st show ?thesis by auto
qed

text \<open>The rolls of a match in which the first roll was refused, and of the replay of its log.\<close>

definition refusedThenReplayed :: "(bool \<times> goval list \<times> goval list) option" where
  "refusedThenReplayed = do {
     (st0, h0) \<leftarrow> NewMatchSeeded dieGame 2 VNil 7 [];
     (st1, e1, h1) \<leftarrow> Apply dieGame st0 (request ''0'' ''roll'' [VBool True]) h0;
     (st, e, h) \<leftarrow> Apply dieGame st1 (request ''0'' ''roll'' []) h1;
     (st', e', h') \<leftarrow> ReplaySeeded dieGame (Log st) 2 VNil 7 [];
     Some (e1 \<noteq> None \<and> e = None \<and> e' = None, G st, G st')
   }"

text \<open>The roll of a match before and after it was undone and made again.\<close>

definition undoneThenRolled :: "(bool \<times> goval list \<times> goval list \<times> goval list) option" where
  "undoneThenRolled = do {
     (st0, h0) \<leftarrow> NewMatchSeeded dieGame 2 VNil 7 [];
     (st1, e1, h1) \<leftarrow> Apply dieGame st0 (request ''0'' ''roll'' []) h0;
     (st2, e2, h2) \<leftarrow> Undo dieGame st1 h1;
     (st3, e3, h3) \<leftarrow> Apply dieGame st2 (request ''0'' ''roll'' []) h2;
     Some (e1 = None \<and> e2 = None \<and> e3 = None, G st1, G st2, G st3)
   }"

text \<open>
  A refused move spends randomness. The generator is advanced in place, so a roll that was drawn
  and then refused leaves no trace in the state and the log but moves the stream on: the match
  rolls a 1 where the replay of its own log rolls a 4.
\<close>

theorem refused_roll_breaks_replay: "refusedThenReplayed = Some (True, [VI 1], [VI 4])"
  by code_simp

text \<open>Undo does not rewind the generator: a roll that is undone and made again is a new roll.\<close>

theorem undo_rerolls: "undoneThenRolled = Some (True, [VI 4], [], [VI 1])"
  by code_simp

section \<open>Properties of the player plugin\<close>

text \<open>
  Records are read back as they were set, by their own seat and, with two seats, by the
  opponent's API of the other; nobody else's record changes, and the default view of a seat
  depends on its own record alone.
\<close>

theorem player_records:
  assumes "makeAPI (VRef a) c p = Some api" "a < length h"
  shows "apiGet api (apiSet api v h) = v \<and>
    (\<forall>b q. b \<noteq> a \<or> q \<noteq> p \<longrightarrow> recordOf b q (apiSet api v h) = recordOf b q h) \<and>
    (q \<noteq> p \<longrightarrow> defaultPlayerView (apiSet api v h ! a) q = defaultPlayerView (h ! a) q) \<and>
    (NumPlayers c = 2 \<and> PlayOrder c = [p, q] \<and> p \<noteq> q \<and> p \<noteq> '''' \<and> q \<noteq> '''' \<longrightarrow>
      (\<exists>other. makeAPI (VRef a) c q = Some other \<and> map_option (\<lambda>o'. apiGet o' (apiSet api v h)) (opponentOf other) = Some v))"
proof -
  have api: "paPlayerID api = p" "paData api = a" using assms(1) by (auto simp: makeAPI_def)
  have r: "recordOf b q (apiSet api v h) = (if b = a \<and> q = p then v else recordOf b q h)" for b q
    using assms(2) by (simp add: recordOf_def apiSet_def api nth_list_update)
  have "defaultPlayerView (apiSet api v h ! a) q = defaultPlayerView (h ! a) q" if "q \<noteq> p"
    using that assms(2) by (simp add: defaultPlayerView_def apiSet_def api)
  moreover have "\<exists>other. makeAPI (VRef a) c q = Some other \<and> map_option (\<lambda>o'. apiGet o' (apiSet api v h)) (opponentOf other) = Some v"
    if "NumPlayers c = 2" "PlayOrder c = [p, q]" "p \<noteq> q" "p \<noteq> ''''" "q \<noteq> ''''"
    using that r by (simp add: makeAPI_def opponentOf_def apiGet_def)
  moreover have "apiGet api (apiSet api v h) = v" by (simp add: apiGet_def api r)
  ultimately show ?thesis using r by simp
qed

theorem player_records_witness:
  "\<exists>api other. makeAPI (VRef 0) (blankCtx\<lparr>NumPlayers := 2, PlayOrder := [''0'', ''1'']\<rparr>) ''0'' = Some api \<and>
     makeAPI (VRef 0) (blankCtx\<lparr>NumPlayers := 2, PlayOrder := [''0'', ''1'']\<rparr>) ''1'' = Some other \<and>
     map_option (\<lambda>o'. apiGet o' (apiSet api (VI 9) [[]])) (opponentOf other) = Some (VI 9)"
proof -
  let ?c = "blankCtx\<lparr>NumPlayers := 2, PlayOrder := [''0'', ''1'']\<rparr>"
  obtain api where a: "makeAPI (VRef 0) ?c ''0'' = Some api" by (simp add: makeAPI_def)
  from player_records [OF a, of "[[]]" "VI 9" "''1''"] a show ?thesis by (auto simp: blankCtx_def)
qed

text \<open>
  The plugin has no Decode. Its data comes back from any store that serialises as a generic map,
  and then the API of every seat and the view of every seat panic: after a reload the match can
  neither be played nor shown.
\<close>

theorem player_plugin_panics_on_reload:
  "makeAPI (VMap m) c p = None \<and> playerPlayerView opts (VMap m) p h = None"
  by (simp add: makeAPI_def playerPlayerView_def)

end
