(* ===== verification/GoFloat.thy ===== *)
theory GoFloat
  imports GoValue "HOL-Library.Word"
begin

text \<open>
  The machine arithmetic that the modules built on the engine perform on numbers: wrap-around
  of Go's 64-bit \<open>int\<close>, the float64 operations \<open>+\<close>, \<open>*\<close> and comparison with IEEE rounding
  (53 significant bits, ties to even, gradual underflow, overflow to infinity), and the
  conversion \<open>int(f)\<close>. The sign of zero is not represented. Go leaves \<open>int(f)\<close> of a value
  outside the range of \<open>int\<close> to the implementation; the definition below follows amd64, which
  yields the smallest integer.
\<close>

section \<open>64-bit int\<close>

definition wrap64 :: "int \<Rightarrow> int" where
  "wrap64 i = (i + 2 ^ 63) mod 2 ^ 64 - 2 ^ 63"

definition int64 :: "int \<Rightarrow> bool" where
  "int64 i \<longleftrightarrow> - (2 ^ 63) \<le> i \<and> i < 2 ^ 63"

lemma wrap64_id [simp]: "int64 i \<Longrightarrow> wrap64 i = i"
  by (simp add: wrap64_def int64_def)

lemma int64_wrap64 [simp]: "int64 (wrap64 i)"
proof -
  have "0 \<le> (i + 2 ^ 63) mod 2 ^ 64" "(i + 2 ^ 63) mod 2 ^ 64 < 2 ^ 64" by simp_all
  then show ?thesis by (simp add: wrap64_def int64_def)
qed

lemma int64_bounds:
  "int64 a \<Longrightarrow> 0 \<le> b \<Longrightarrow> b \<le> a \<Longrightarrow> int64 (a - b)"
  "int64 a \<Longrightarrow> 0 \<le> b \<Longrightarrow> b \<le> a \<Longrightarrow> int64 b"
  by (simp_all add: int64_def)

section \<open>float64 arithmetic\<close>

definition pow2 :: "int \<Rightarrow> rat" where
  "pow2 e = (if 0 \<le> e then 2 ^ nat e else 1 / 2 ^ nat (- e))"

text \<open>The exponent of the leading bit of a positive rational.\<close>

definition lead :: "rat \<Rightarrow> int" where
  "lead q = (let (n, d) = quotient_of q; e = int (bitlen (nat n)) - int (bitlen (nat d))
             in if q < pow2 e then e - 1 else e)"

definition round_half_even :: "rat \<Rightarrow> int" where
  "round_half_even q = (let m = \<lfloor>q\<rfloor>; r = q - of_int m
                        in if r < 1 / 2 then m else if 1 / 2 < r then m + 1
                           else if even m then m else m + 1)"

definition f64_round :: "rat \<Rightarrow> f64" where
  "f64_round q =
     (if q = 0 then Fin 0
      else let k = max (lead \<bar>q\<bar> - 52) (- 1074);
               v = of_int (round_half_even (\<bar>q\<bar> / pow2 k)) * pow2 k
           in if pow2 1024 \<le> v then (if q < 0 then NegInf else PosInf)
              else Fin (if q < 0 then - v else v))"

fun f64_add :: "f64 \<Rightarrow> f64 \<Rightarrow> f64" where
  "f64_add (Fin x) (Fin y) = f64_round (x + y)"
| "f64_add NaN _ = NaN"
| "f64_add _ NaN = NaN"
| "f64_add PosInf NegInf = NaN"
| "f64_add NegInf PosInf = NaN"
| "f64_add PosInf _ = PosInf"
| "f64_add _ PosInf = PosInf"
| "f64_add NegInf _ = NegInf"
| "f64_add _ NegInf = NegInf"

definition f64_inf :: "bool \<Rightarrow> f64" where
  "f64_inf neg = (if neg then NegInf else PosInf)"

fun f64_mul :: "f64 \<Rightarrow> f64 \<Rightarrow> f64" where
  "f64_mul (Fin x) (Fin y) = f64_round (x * y)"
| "f64_mul NaN _ = NaN"
| "f64_mul _ NaN = NaN"
| "f64_mul PosInf (Fin y) = (if y = 0 then NaN else f64_inf (y < 0))"
| "f64_mul NegInf (Fin y) = (if y = 0 then NaN else f64_inf (0 < y))"
| "f64_mul (Fin x) PosInf = (if x = 0 then NaN else f64_inf (x < 0))"
| "f64_mul (Fin x) NegInf = (if x = 0 then NaN else f64_inf (0 < x))"
| "f64_mul PosInf PosInf = PosInf"
| "f64_mul PosInf NegInf = NegInf"
| "f64_mul NegInf PosInf = NegInf"
| "f64_mul NegInf NegInf = PosInf"

fun f64_le :: "f64 \<Rightarrow> f64 \<Rightarrow> bool" where
  "f64_le (Fin x) (Fin y) = (x \<le> y)"
| "f64_le NaN _ = False"
| "f64_le _ NaN = False"
| "f64_le NegInf _ = True"
| "f64_le _ PosInf = True"
| "f64_le _ _ = False"

definition rat_trunc :: "rat \<Rightarrow> int" where
  "rat_trunc q = (if 0 \<le> q then \<lfloor>q\<rfloor> else \<lceil>q\<rceil>)"

fun f64_to_int :: "f64 \<Rightarrow> int" where
  "f64_to_int (Fin q) = (if int64 (rat_trunc q) then rat_trunc q else - (2 ^ 63))"
| "f64_to_int _ = - (2 ^ 63)"

subsection \<open>Small integers are exact\<close>

lemma quotient_of_of_int: "quotient_of (Int.of_int i) = (i, 1)"
  using Rat.quotient_of_int [of i] by (simp add: Rat.of_int_def)

lemma pow2_nonpos: "e \<le> 0 \<Longrightarrow> pow2 e = 1 / 2 ^ nat (- e)"
  by (cases "e = 0") (simp_all add: pow2_def)

lemma lead_int: "0 \<le> i \<Longrightarrow> i < 2 ^ 53 \<Longrightarrow> lead (of_int i) \<le> 52"
proof -
  assume i: "0 \<le> i" "i < 2 ^ 53"
  then have "nat i < 2 ^ 53" by (simp add: nat_less_iff)
  then have "bitlen (nat i) \<le> 53" by (rule bitlen_le)
  moreover have "bitlen (nat 1) = 1" by (simp add: bitlen.simps)
  ultimately show ?thesis by (auto simp: lead_def Let_def quotient_of_of_int)
qed

lemma f64_round_int:
  assumes "\<bar>i\<bar> < 2 ^ 53"
  shows "f64_round (of_int i) = Fin (of_int i)"
proof (cases "i = 0")
  case False
  define k where "k = max (lead \<bar>of_int i :: rat\<bar> - 52) (- 1074)"
  have "lead (of_int \<bar>i\<bar>) \<le> 52" using assms by (intro lead_int) auto
  then have k: "k \<le> 0" by (simp add: k_def)
  define n where "n = \<bar>i\<bar> * 2 ^ nat (- k)"
  have q: "\<bar>of_int i :: rat\<bar> / pow2 k = of_int n"
    using k by (simp add: pow2_nonpos n_def)
  have "round_half_even (of_int n) = n" by (simp add: round_half_even_def)
  then have v: "of_int (round_half_even (\<bar>of_int i\<bar> / pow2 k)) * pow2 k = (of_int \<bar>i\<bar> :: rat)"
    using k by (simp add: q pow2_nonpos n_def)
  have "(of_int \<bar>i\<bar> :: rat) < of_int (2 ^ 53)" using assms by (simp only: of_int_less_iff)
  also have "\<dots> \<le> pow2 1024" by (simp add: pow2_def)
  finally have "\<not> pow2 1024 \<le> (of_int \<bar>i\<bar> :: rat)" by simp
  then show ?thesis using False v
    by (cases "i < 0") (simp_all add: f64_round_def Let_def k_def)
qed (simp add: f64_round_def)

lemma f64_to_int_int: "int64 i \<Longrightarrow> f64_to_int (Fin (of_int i)) = i"
  by (simp add: rat_trunc_def)

lemma f64_add_int:
  "\<bar>i\<bar> < 2 ^ 53 \<Longrightarrow> \<bar>j\<bar> < 2 ^ 53 \<Longrightarrow> \<bar>i + j\<bar> < 2 ^ 53 \<Longrightarrow>
   f64_add (int_to_f64 i) (int_to_f64 j) = Fin (of_int (i + j))"
  using f64_round_int [of "i + j"] by (simp add: int_to_f64_exact)

lemma f64_mul_int:
  "\<bar>i\<bar> < 2 ^ 53 \<Longrightarrow> \<bar>j\<bar> < 2 ^ 53 \<Longrightarrow> \<bar>i * j\<bar> < 2 ^ 53 \<Longrightarrow>
   f64_mul (int_to_f64 i) (int_to_f64 j) = Fin (of_int (i * j))"
  using f64_round_int [of "i * j"] by (simp add: int_to_f64_exact)

end
