(* ===== verification/CcgState.thy ===== *)
theory CcgState
  imports Prng GoFloat "HOL-Library.Char_ord" "HOL-Library.List_Lexorder"
begin

text \<open>
  The card-game module's bookkeeping container: entities, card definitions, zones, and the
  operations that create, destroy and move entities (\<open>modules/ccg\<close>: state.go, entity.go,
  carddef.go, zone.go, helpers.go, deckpile.go, decklist.go). The record also declares the
  parts of the state that the event bus, the modifiers and the effect queue use.

  The library mutates the state in place, so every operation returns the state it leaves
  behind together with its error, if any; a Go panic (a negative slice length) is \<open>None\<close>.
  The maps \<open>Entities\<close>, \<open>Zones\<close> and \<open>Modifiers\<close> are association lists over distinct keys;
  every writer of the code allocates a nil map before writing, so a nil map is the empty one.
  \<open>Zones\<close> holds pointers, each stored under one name, so a zone is a value of the map.
  Attribute maps of different entities are values too: a map that the game itself stores in
  two entities at once is not represented as shared.
  Handlers and predicates that the game registers are named by values of \<open>'k\<close>; what they do
  is an argument of the operations that run them.
\<close>

section \<open>Data\<close>

type_synonym entityID = "64 word"

record entity =
  entID :: entityID
  entDefID :: string
  entType :: string
  entOwner :: string
  entController :: string
  entZone :: string
  entVisibility :: "8 word"
  entRevealedTo :: "string list"
  entMask :: "goval gomap option"
  entAttrs :: "goval gomap option"

definition blankEntity :: entity where
  "blankEntity = \<lparr>entID = 0, entDefID = '''', entType = '''', entOwner = '''', entController = '''',
     entZone = '''', entVisibility = 0, entRevealedTo = [], entMask = None, entAttrs = None\<rparr>"

record zone =
  zName :: string
  zOrdered :: bool
  zCapacity :: int
  zMembers :: "entityID list"

datatype modifierOp = OpSet | OpAdd | OpMultiply | OpOther string

record modifier =
  modID :: "64 word"
  modSource :: entityID
  modLayer :: int
  modTarget :: entityID
  modAttribute :: string
  modOp :: modifierOp
  modValue :: goval
  modNote :: string
  modInsertion :: int
  modExpiresWith :: entityID
  modWhileIn :: "string list"

record cevent =
  cevType :: string
  cevSource :: entityID
  cevTarget :: entityID
  cevData :: "goval gomap option"

record effect =
  effID :: "64 word"
  effSource :: entityID
  effController :: string
  effKind :: string
  effTarget :: entityID
  effTargets :: "entityID list"
  effData :: "goval gomap option"
  effCountered :: bool
  effTag :: string

text \<open>
  A predicate or handler on the bus: one of the library's closures (\<open>MatchType\<close>,
  \<open>MatchTypeAndSource\<close>, the wrapper that \<open>BindAbility\<close> builds) or the game's own code.
\<close>

datatype 'k eventPredicate =
    MatchType string
  | MatchTypeAndSource string entityID
  | GamePredicate 'k

datatype 'k eventHandler =
    GameHandler 'k
  | AbilityHandler "64 word" entityID "string list" 'k

record 'k subscription =
  subID :: "64 word"
  subPredicate :: "'k eventPredicate option"
  subHandler :: "'k eventHandler"

record ability =
  abID :: "64 word"
  abEntity :: entityID
  abZones :: "string list"
  abSub :: "64 word"

record idCounters =
  NextEntityID :: "64 word"
  NextModID :: "64 word"
  NextInsertion :: int
  NextSubID :: "64 word"
  NextAbilityID :: "64 word"
  NextEffectID :: "64 word"

record 'k ccg =
  Entities :: "(entityID \<times> entity) list"
  Zones :: "zone gomap"
  Modifiers :: "(64 word \<times> modifier) list"
  BusEvents :: "cevent list"
  PendingEffects :: "effect list"
  StagedTriggers :: "effect list"
  IDs :: idCounters
  subs :: "'k subscription list"
  abilities :: "ability list"

definition NewState :: "'k ccg" where
  "NewState = \<lparr>Entities = [], Zones = [], Modifiers = [], BusEvents = [], PendingEffects = [],
     StagedTriggers = [],
     IDs = \<lparr>NextEntityID = 0, NextModID = 0, NextInsertion = 0, NextSubID = 0, NextAbilityID = 0,
            NextEffectID = 0\<rparr>,
     subs = [], abilities = []\<rparr>"

datatype cerror =
    ErrUnknownZone | ErrUnknownEntity | ErrZoneEmpty | ErrInvalidPosition | ErrZoneFull
  | ErrDuplicateDef | ErrUnknownDef | ErrInsufficientCounters

section \<open>Entities (\<open>entity.go\<close>)\<close>

definition EffectiveController :: "entity \<Rightarrow> string" where
  "EffectiveController e = (if entController e \<noteq> '''' then entController e else entOwner e)"

text \<open>An \<open>int\<close>, an \<open>int64\<close> or a float64 read as an int; other kinds are not numbers here.\<close>

fun counterToInt :: "goval \<Rightarrow> int option" where
  "counterToInt (VInt t n) = (if t = ''int'' \<or> t = ''int64'' then Some n else None)"
| "counterToInt (VFloat t x) = (if t = ''float64'' then Some (f64_to_int x) else None)"
| "counterToInt _ = None"

definition AttrInt :: "entity \<Rightarrow> string \<Rightarrow> int \<Rightarrow> int" where
  "AttrInt e key def =
     (case mget (entAttrs e) key of
        Some v \<Rightarrow> (case counterToInt v of Some n \<Rightarrow> n | None \<Rightarrow> def)
      | None \<Rightarrow> def)"

definition AttrStr :: "entity \<Rightarrow> string \<Rightarrow> string \<Rightarrow> string" where
  "AttrStr e key def = (case mget (entAttrs e) key of Some (VStr s) \<Rightarrow> s | _ \<Rightarrow> def)"

definition AttrBool :: "entity \<Rightarrow> string \<Rightarrow> bool \<Rightarrow> bool" where
  "AttrBool e key def = (case mget (entAttrs e) key of Some (VBool b) \<Rightarrow> b | _ \<Rightarrow> def)"

definition entSetAttr :: "string \<Rightarrow> goval \<Rightarrow> entity \<Rightarrow> entity" where
  "entSetAttr key v e = e\<lparr>entAttrs := mputo key v (entAttrs e)\<rparr>"

section \<open>Card definitions (\<open>carddef.go\<close>)\<close>

record cardDef =
  cdID :: string
  cdType :: string
  cdBaseAttrs :: "goval gomap option"

type_synonym catalog = "cardDef gomap"

definition NewCatalog :: catalog where
  "NewCatalog = []"

definition Register :: "cardDef \<Rightarrow> catalog \<Rightarrow> cerror option \<times> catalog" where
  "Register def c =
     (case map_of c (cdID def) of
        Some _ \<Rightarrow> (Some ErrDuplicateDef, c)
      | None \<Rightarrow> (None, mput (cdID def) \<lparr>cdID = cdID def, cdType = cdType def,
                                        cdBaseAttrs = cdBaseAttrs def\<rparr> c))"

definition catGet :: "catalog \<Rightarrow> string \<Rightarrow> cardDef option" where
  "catGet c k = map_of c k"

definition catLen :: "catalog \<Rightarrow> nat" where
  "catLen c = length c"

section \<open>Minting, reading and destroying entities (\<open>state.go\<close>)\<close>

definition Get :: "'k ccg \<Rightarrow> entityID \<Rightarrow> entity option" where
  "Get s eid = map_of (Entities s) eid"

definition storeEntity :: "entityID \<Rightarrow> entity \<Rightarrow> 'k ccg \<Rightarrow> 'k ccg" where
  "storeEntity eid e s = s\<lparr>Entities := mput eid e (Entities s)\<rparr>"

text \<open>The shared tail of \<open>NewEntity\<close>, \<open>Instantiate\<close> and \<open>Clone\<close>: a fresh id and the store.\<close>

definition mint :: "entity \<Rightarrow> 'k ccg \<Rightarrow> entityID \<times> 'k ccg" where
  "mint e s =
     (let eid = NextEntityID (IDs s) + 1;
          s = s\<lparr>IDs := (IDs s)\<lparr>NextEntityID := eid\<rparr>\<rparr>
      in (eid, storeEntity eid (e\<lparr>entID := eid\<rparr>) s))"

definition NewEntity :: "string \<Rightarrow> string \<Rightarrow> goval gomap option \<Rightarrow> 'k ccg \<Rightarrow> entityID \<times> 'k ccg" where
  "NewEntity typeName owner attrs s =
     mint (blankEntity\<lparr>entType := typeName, entOwner := owner, entAttrs := attrs\<rparr>) s"

text \<open>A nil catalog is \<open>None\<close>.\<close>

definition Instantiate :: "catalog option \<Rightarrow> string \<Rightarrow> string \<Rightarrow> 'k ccg \<Rightarrow> (cerror + entityID) \<times> 'k ccg" where
  "Instantiate c def owner s =
     (case c of
        None \<Rightarrow> (Inl ErrUnknownDef, s)
      | Some cat \<Rightarrow>
          (case catGet cat def of
             None \<Rightarrow> (Inl ErrUnknownDef, s)
           | Some d \<Rightarrow>
               (let (eid, s) = mint (blankEntity\<lparr>entDefID := cdID d, entType := cdType d,
                                                 entOwner := owner, entAttrs := cdBaseAttrs d\<rparr>) s
                in (Inr eid, s))))"

definition removeMember :: "string \<Rightarrow> entityID \<Rightarrow> 'k ccg \<Rightarrow> 'k ccg" where
  "removeMember zn eid s =
     (case map_of (Zones s) zn of
        None \<Rightarrow> s
      | Some z \<Rightarrow> s\<lparr>Zones := mput zn (z\<lparr>zMembers := remove1 eid (zMembers z)\<rparr>) (Zones s)\<rparr>)"

definition Destroy :: "entityID \<Rightarrow> 'k ccg \<Rightarrow> 'k ccg" where
  "Destroy eid s =
     (case Get s eid of
        None \<Rightarrow> s
      | Some e \<Rightarrow>
          (let s = (if entZone e \<noteq> '''' then removeMember (entZone e) eid s else s);
               s = s\<lparr>Modifiers := filter (\<lambda>(mid, m). \<not> (modTarget m = eid \<or> modSource m = eid \<or>
                                                        modExpiresWith m = eid)) (Modifiers s)\<rparr>
           in s\<lparr>Entities := mdel eid (Entities s)\<rparr>))"

definition updEntity :: "(entity \<Rightarrow> entity) \<Rightarrow> entityID \<Rightarrow> 'k ccg \<Rightarrow> 'k ccg" where
  "updEntity f eid s = (case Get s eid of None \<Rightarrow> s | Some e \<Rightarrow> storeEntity eid (f e) s)"

definition SetAttr :: "entityID \<Rightarrow> string \<Rightarrow> goval \<Rightarrow> 'k ccg \<Rightarrow> 'k ccg" where
  "SetAttr eid key v = updEntity (entSetAttr key v) eid"

definition SetController :: "entityID \<Rightarrow> string \<Rightarrow> 'k ccg \<Rightarrow> 'k ccg" where
  "SetController eid p = updEntity (\<lambda>e. e\<lparr>entController := p\<rparr>) eid"

definition CountersAttrKey :: string where
  "CountersAttrKey = ''__counters''"

text \<open>
  \<open>deepCloneValue\<close> copies nested maps and slices; as values, the copy is the original, so
  only the removal of the counters and the overrides are visible. A nil map stays nil unless
  an override is written.
\<close>

definition cloneOverrides :: "goval gomap option \<Rightarrow> goval gomap \<Rightarrow> goval gomap option" where
  "cloneOverrides attrs overrides =
     fold (\<lambda>(k, v). mputo k v) overrides (mdelo CountersAttrKey attrs)"

definition Clone :: "entityID \<Rightarrow> string \<Rightarrow> goval gomap \<Rightarrow> 'k ccg \<Rightarrow> (cerror + entityID) \<times> 'k ccg" where
  "Clone eid owner overrides s =
     (case Get s eid of
        None \<Rightarrow> (Inl ErrUnknownEntity, s)
      | Some src \<Rightarrow>
          (let (nid, s) = mint (blankEntity\<lparr>entDefID := entDefID src, entType := entType src,
                 entOwner := owner, entVisibility := entVisibility src,
                 entAttrs := cloneOverrides (entAttrs src) overrides\<rparr>) s
           in (Inr nid, s)))"

section \<open>Zones (\<open>zone.go\<close>)\<close>

definition NewZone :: "string \<Rightarrow> bool \<Rightarrow> 'k ccg \<Rightarrow> 'k ccg" where
  "NewZone name ordered s =
     (case map_of (Zones s) name of
        Some _ \<Rightarrow> s
      | None \<Rightarrow> s\<lparr>Zones := mput name \<lparr>zName = name, zOrdered = ordered, zCapacity = 0, zMembers = []\<rparr>
                             (Zones s)\<rparr>)"

definition zoneAtCapacity :: "zone \<Rightarrow> bool" where
  "zoneAtCapacity z \<longleftrightarrow> 0 < zCapacity z \<and> zCapacity z \<le> int (length (zMembers z))"

definition setMembers :: "string \<Rightarrow> entityID list \<Rightarrow> 'k ccg \<Rightarrow> 'k ccg" where
  "setMembers zn ms s =
     (case map_of (Zones s) zn of
        None \<Rightarrow> s
      | Some z \<Rightarrow> s\<lparr>Zones := mput zn (z\<lparr>zMembers := ms\<rparr>) (Zones s)\<rparr>)"

definition setZone :: "string \<Rightarrow> entity \<Rightarrow> entity" where
  "setZone zn e = e\<lparr>entZone := zn\<rparr>"

definition Add :: "string \<Rightarrow> entityID \<Rightarrow> 'k ccg \<Rightarrow> cerror option \<times> 'k ccg" where
  "Add zn eid s =
     (case map_of (Zones s) zn of
        None \<Rightarrow> (Some ErrUnknownZone, s)
      | Some z \<Rightarrow>
          (case Get s eid of
             None \<Rightarrow> (Some ErrUnknownEntity, s)
           | Some e \<Rightarrow>
               if zoneAtCapacity z then (Some ErrZoneFull, s)
               else (None, storeEntity eid (setZone zn e) (setMembers zn (zMembers z @ [eid]) s))))"

definition InsertAt :: "string \<Rightarrow> entityID \<Rightarrow> int \<Rightarrow> 'k ccg \<Rightarrow> cerror option \<times> 'k ccg" where
  "InsertAt zn eid pos s =
     (case map_of (Zones s) zn of
        None \<Rightarrow> (Some ErrUnknownZone, s)
      | Some z \<Rightarrow>
          (case Get s eid of
             None \<Rightarrow> (Some ErrUnknownEntity, s)
           | Some e \<Rightarrow>
               if pos < 0 \<or> int (length (zMembers z)) < pos then (Some ErrInvalidPosition, s)
               else if zoneAtCapacity z then (Some ErrZoneFull, s)
               else (None, storeEntity eid (setZone zn e)
                       (setMembers zn (take (nat pos) (zMembers z) @ eid # drop (nat pos) (zMembers z)) s))))"

definition Remove :: "string \<Rightarrow> entityID \<Rightarrow> 'k ccg \<Rightarrow> cerror option \<times> 'k ccg" where
  "Remove zn eid s =
     (case map_of (Zones s) zn of
        None \<Rightarrow> (Some ErrUnknownZone, s)
      | Some z \<Rightarrow> if eid \<in> set (zMembers z) then (None, removeMember zn eid s)
                  else (Some ErrUnknownEntity, s))"

text \<open>
  The member list of the target is read again after the removal: the source may be the
  target, and both names then reach the same zone.
\<close>

definition MoveTo :: "entityID \<Rightarrow> string \<Rightarrow> 'k ccg \<Rightarrow> cerror option \<times> 'k ccg" where
  "MoveTo eid to s =
     (case map_of (Zones s) to of
        None \<Rightarrow> (Some ErrUnknownZone, s)
      | Some toZone \<Rightarrow>
          (case Get s eid of
             None \<Rightarrow> (Some ErrUnknownEntity, s)
           | Some e \<Rightarrow>
               if entZone e \<noteq> to \<and> zoneAtCapacity toZone then (Some ErrZoneFull, s)
               else
                 (let s = (if entZone e \<noteq> '''' then removeMember (entZone e) eid s else s);
                      s = setMembers to ((case map_of (Zones s) to of Some z \<Rightarrow> zMembers z | None \<Rightarrow> []) @ [eid]) s
                  in (None, storeEntity eid (setZone to e) s))))"

text \<open>The loop of \<open>Draw\<close> pops the last member \<open>n\<close> times.\<close>

fun popTop :: "nat \<Rightarrow> 'a list \<Rightarrow> 'a list \<times> 'a list" where
  "popTop 0 ms = ([], ms)"
| "popTop (Suc n) ms = (let (drawn, rest) = popTop n (butlast ms) in (last ms # drawn, rest))"

definition clearZones :: "entityID list \<Rightarrow> 'k ccg \<Rightarrow> 'k ccg" where
  "clearZones ids s = fold (updEntity (setZone '''')) ids s"

definition Draw :: "string \<Rightarrow> int \<Rightarrow> 'k ccg \<Rightarrow> ((cerror + entityID list) \<times> 'k ccg) option" where
  "Draw zn n s =
     (case map_of (Zones s) zn of
        None \<Rightarrow> Some (Inl ErrUnknownZone, s)
      | Some z \<Rightarrow>
          if zMembers z = [] then Some (Inl ErrZoneEmpty, s)
          else
            (let n = (if int (length (zMembers z)) < n then int (length (zMembers z)) else n)
             in if n < 0 then None
                else (let (drawn, rest) = popTop (nat n) (zMembers z)
                      in Some (Inr drawn, clearZones drawn (setMembers zn rest s)))))"

definition Peek :: "string \<Rightarrow> int \<Rightarrow> 'k ccg \<Rightarrow> entityID list option" where
  "Peek zn n s =
     (case map_of (Zones s) zn of
        None \<Rightarrow> Some []
      | Some z \<Rightarrow>
          (let l = length (zMembers z); n = (if int l < n then int l else n)
           in if n < 0 then None else Some (map (\<lambda>i. zMembers z ! (l - 1 - i)) [0..<nat n])))"

definition zoneShuffle :: "string \<Rightarrow> random \<Rightarrow> 'k ccg \<Rightarrow> cerror option \<times> 'k ccg \<times> random" where
  "zoneShuffle zn r s =
     (case map_of (Zones s) zn of
        None \<Rightarrow> (Some ErrUnknownZone, s, r)
      | Some z \<Rightarrow> (let (ms, r) = Shuffle r (zMembers z) in (None, setMembers zn ms s, r)))"

definition Contains :: "string \<Rightarrow> entityID \<Rightarrow> 'k ccg \<Rightarrow> bool" where
  "Contains zn eid s =
     (case map_of (Zones s) zn of None \<Rightarrow> False | Some z \<Rightarrow> list_ex (\<lambda>m. m = eid) (zMembers z))"

definition Size :: "string \<Rightarrow> 'k ccg \<Rightarrow> nat" where
  "Size zn s = (case map_of (Zones s) zn of None \<Rightarrow> 0 | Some z \<Rightarrow> length (zMembers z))"

section \<open>Batches (\<open>helpers.go\<close>)\<close>

text \<open>The pre-flight loop of \<open>Transition\<close>: the number of ids not yet in the target.\<close>

fun inboundOf :: "'k ccg \<Rightarrow> string \<Rightarrow> entityID list \<Rightarrow> nat option" where
  "inboundOf s to [] = Some 0"
| "inboundOf s to (i # is) =
     (case Get s i of
        None \<Rightarrow> None
      | Some e \<Rightarrow> map_option (\<lambda>n. if entZone e \<noteq> to then Suc n else n) (inboundOf s to is))"

fun moveEach :: "entityID list \<Rightarrow> string \<Rightarrow> 'k ccg \<Rightarrow> cerror option \<times> 'k ccg" where
  "moveEach [] to s = (None, s)"
| "moveEach (i # is) to s =
     (case MoveTo i to s of
        (Some err, s) \<Rightarrow> (Some err, s)
      | (None, s) \<Rightarrow> moveEach is to s)"

definition overCapacity :: "zone \<Rightarrow> nat \<Rightarrow> bool" where
  "overCapacity z inbound \<longleftrightarrow> 0 < zCapacity z \<and> zCapacity z < int (length (zMembers z) + inbound)"

definition Transition :: "entityID list \<Rightarrow> string \<Rightarrow> 'k ccg \<Rightarrow> cerror option \<times> 'k ccg" where
  "Transition ids to s =
     (case map_of (Zones s) to of
        None \<Rightarrow> (Some ErrUnknownZone, s)
      | Some toZone \<Rightarrow>
          (case inboundOf s to ids of
             None \<Rightarrow> (Some ErrUnknownEntity, s)
           | Some inbound \<Rightarrow>
               if overCapacity toZone inbound then (Some ErrZoneFull, s)
               else moveEach ids to s))"

text \<open>The snapshots of the source zones, one list per source other than the target.\<close>

fun snapshots :: "'k ccg \<Rightarrow> string \<Rightarrow> string list \<Rightarrow> entityID list list option" where
  "snapshots s to [] = Some []"
| "snapshots s to (f # fs) =
     (case map_of (Zones s) f of
        None \<Rightarrow> None
      | Some z \<Rightarrow> map_option ((#) (if f = to then [] else zMembers z)) (snapshots s to fs))"

definition MoveAllTo :: "string \<Rightarrow> string list \<Rightarrow> 'k ccg \<Rightarrow> cerror option \<times> 'k ccg" where
  "MoveAllTo to from s =
     (case map_of (Zones s) to of
        None \<Rightarrow> (Some ErrUnknownZone, s)
      | Some toZone \<Rightarrow>
          (case snapshots s to from of
             None \<Rightarrow> (Some ErrUnknownZone, s)
           | Some snaps \<Rightarrow>
               if overCapacity toZone (length (concat snaps)) then (Some ErrZoneFull, s)
               else moveEach (concat snaps) to s))"

definition Top :: "string \<Rightarrow> 'k ccg \<Rightarrow> entityID option" where
  "Top zn s = (case map_of (Zones s) zn of
     None \<Rightarrow> None | Some z \<Rightarrow> if zMembers z = [] then None else Some (last (zMembers z)))"

definition Bottom :: "string \<Rightarrow> 'k ccg \<Rightarrow> entityID option" where
  "Bottom zn s = (case map_of (Zones s) zn of
     None \<Rightarrow> None | Some z \<Rightarrow> if zMembers z = [] then None else Some (hd (zMembers z)))"

text \<open>\<open>Mulligan\<close> returns the redrawn ids even when the last step fails.\<close>

definition Mulligan :: "string \<Rightarrow> string \<Rightarrow> int \<Rightarrow> random \<Rightarrow> 'k ccg
    \<Rightarrow> (cerror option \<times> entityID list \<times> 'k ccg \<times> random) option" where
  "Mulligan hand deck n r s =
     (case MoveAllTo deck [hand] s of
        (Some err, s) \<Rightarrow> Some (Some err, [], s, r)
      | (None, s) \<Rightarrow>
          (case zoneShuffle deck r s of
             (Some err, s, r) \<Rightarrow> Some (Some err, [], s, r)
           | (None, s, r) \<Rightarrow>
               if n \<le> 0 then Some (None, [], s, r)
               else (case Draw deck n s of
                       None \<Rightarrow> None
                     | Some (Inl err, s) \<Rightarrow> Some (Some err, [], s, r)
                     | Some (Inr drawn, s) \<Rightarrow>
                         (let (err, s) = Transition drawn hand s in Some (err, drawn, s, r)))))"

text \<open>\<open>Instantiate\<close> then \<open>Add\<close> for each definition, stopping at the first error.\<close>

fun dealEach :: "catalog option \<Rightarrow> string \<Rightarrow> string \<Rightarrow> string list \<Rightarrow> 'k ccg
    \<Rightarrow> cerror option \<times> entityID list \<times> 'k ccg" where
  "dealEach c owner zn [] s = (None, [], s)"
| "dealEach c owner zn (d # ds) s =
     (case Instantiate c d owner s of
        (Inl err, s) \<Rightarrow> (Some err, [], s)
      | (Inr eid, s) \<Rightarrow>
          (case Add zn eid s of
             (Some err, s) \<Rightarrow> (Some err, [], s)
           | (None, s) \<Rightarrow> (let (err, ids, s) = dealEach c owner zn ds s in (err, eid # ids, s))))"

fun Deal :: "catalog option \<Rightarrow> string list \<Rightarrow> string list \<Rightarrow> (string \<Rightarrow> string) \<Rightarrow> 'k ccg
    \<Rightarrow> cerror option \<times> entityID list \<times> 'k ccg" where
  "Deal c defs [] zoneFor s = (None, [], s)"
| "Deal c defs (p # ps) zoneFor s =
     (case dealEach c p (zoneFor p) defs s of
        (Some err, ids, s) \<Rightarrow> (Some err, ids, s)
      | (None, ids, s) \<Rightarrow> (let (err, ids', s) = Deal c defs ps zoneFor s in (err, ids @ ids', s)))"

section \<open>Deck piles (\<open>deckpile.go\<close>)\<close>

record deckPile =
  dpDeck :: string
  dpDiscard :: string
  dpAutoReshuffle :: bool

definition NewDeckPile :: "string \<Rightarrow> string \<Rightarrow> 'k ccg \<Rightarrow> deckPile \<times> 'k ccg" where
  "NewDeckPile deck discard s =
     (\<lparr>dpDeck = deck, dpDiscard = discard, dpAutoReshuffle = False\<rparr>,
      NewZone discard True (NewZone deck True s))"

definition ReshuffleDiscardIntoDeck :: "deckPile \<Rightarrow> random \<Rightarrow> 'k ccg \<Rightarrow> cerror option \<times> 'k ccg \<times> random" where
  "ReshuffleDiscardIntoDeck p r s =
     (if Size (dpDiscard p) s = 0 then (None, s, r)
      else (case MoveAllTo (dpDeck p) [dpDiscard p] s of
              (Some err, s) \<Rightarrow> (Some err, s, r)
            | (None, s) \<Rightarrow> zoneShuffle (dpDeck p) r s))"

definition pileDraw :: "deckPile \<Rightarrow> int \<Rightarrow> random \<Rightarrow> 'k ccg
    \<Rightarrow> ((cerror + entityID list) \<times> 'k ccg \<times> random) option" where
  "pileDraw p n r s =
     (case (if Size (dpDeck p) s = 0 \<and> dpAutoReshuffle p \<and> 0 < Size (dpDiscard p) s
            then ReshuffleDiscardIntoDeck p r s else (None, s, r)) of
        (Some err, s, r) \<Rightarrow> Some (Inl err, s, r)
      | (None, s, r) \<Rightarrow> map_option (\<lambda>(res, s). (res, s, r)) (Draw (dpDeck p) n s))"

definition Discard :: "deckPile \<Rightarrow> entityID list \<Rightarrow> 'k ccg \<Rightarrow> cerror option \<times> 'k ccg" where
  "Discard p ids s = Transition ids (dpDiscard p) s"

definition Mill :: "deckPile \<Rightarrow> int \<Rightarrow> random \<Rightarrow> 'k ccg
    \<Rightarrow> (cerror option \<times> entityID list \<times> 'k ccg \<times> random) option" where
  "Mill p n r s =
     (case pileDraw p n r s of
        None \<Rightarrow> None
      | Some (Inl err, s, r) \<Rightarrow> Some (Some err, [], s, r)
      | Some (Inr drawn, s, r) \<Rightarrow>
          (let (err, s) = Transition drawn (dpDiscard p) s in Some (err, drawn, s, r)))"

definition DeckSize :: "deckPile \<Rightarrow> 'k ccg \<Rightarrow> nat" where
  "DeckSize p s = Size (dpDeck p) s"

definition DiscardSize :: "deckPile \<Rightarrow> 'k ccg \<Rightarrow> nat" where
  "DiscardSize p s = Size (dpDiscard p) s"

end
