(* ===== verification/CcgZones.thy ===== *)
theory CcgZones
  imports CcgState
begin

text \<open>
  Where the cards are. A state of the card-game module is seen as a placement: the ordered
  members of every zone, and the zone every entity names. \<open>zones_ok\<close> is the consistency of the
  two indices (zone members and \<open>Entity.Zone\<close>) that the library maintains; the operations of
  zone.go, helpers.go and deckpile.go are shown to preserve it and to act on the placement
  like the abstract \<open>relocate\<close>.
\<close>

section \<open>The abstract picture\<close>

definition members :: "'k ccg \<Rightarrow> string \<Rightarrow> entityID list" where
  "members s zn = (case map_of (Zones s) zn of None \<Rightarrow> [] | Some z \<Rightarrow> zMembers z)"

definition location :: "'k ccg \<Rightarrow> entityID \<Rightarrow> string option" where
  "location s i = map_option entZone (Get s i)"

definition capacityOf :: "'k ccg \<Rightarrow> string \<Rightarrow> int" where
  "capacityOf s zn = (case map_of (Zones s) zn of None \<Rightarrow> 0 | Some z \<Rightarrow> zCapacity z)"

definition hasZone :: "'k ccg \<Rightarrow> string \<Rightarrow> bool" where
  "hasZone s zn \<longleftrightarrow> map_of (Zones s) zn \<noteq> None"

definition full :: "'k ccg \<Rightarrow> string \<Rightarrow> bool" where
  "full s zn \<longleftrightarrow> 0 < capacityOf s zn \<and> capacityOf s zn \<le> int (length (members s zn))"

lemmas placement_defs = members_def location_def capacityOf_def hasZone_def full_def

lemma Get_storeEntity [simp]: "Get (storeEntity i e s) j = (if j = i then Some e else Get s j)"
  by (simp add: Get_def storeEntity_def)

lemma Get_Zones_update [simp]: "Get (s\<lparr>Zones := zs\<rparr>) i = Get s i"
  by (simp add: Get_def)

lemma Get_setMembers [simp]: "Get (setMembers zn ms s) i = Get s i"
  by (simp add: setMembers_def split: option.split)

lemma Get_removeMember [simp]: "Get (removeMember zn j s) i = Get s i"
  by (simp add: removeMember_def split: option.split)

lemma Get_updEntity: "Get (updEntity f i s) j = (if j = i then map_option f (Get s j) else Get s j)"
  by (simp add: updEntity_def split: option.split)

lemma IDs_writes [simp]: "IDs (storeEntity i e s) = IDs s" "IDs (setMembers zn ms s) = IDs s"
  by (simp_all add: storeEntity_def setMembers_def split: option.split)

lemma mwf_writes [simp]:
  "mwf (Entities s) \<Longrightarrow> mwf (Entities (storeEntity i e s))"
  "mwf (Entities (setMembers zn ms s)) = mwf (Entities s)"
  "mwf (Zones s) \<Longrightarrow> mwf (Zones (setMembers zn ms s))"
  by (simp_all add: storeEntity_def setMembers_def split: option.split)

lemma Zones_storeEntity [simp]: "Zones (storeEntity i e s) = Zones s"
  by (simp add: storeEntity_def)

lemma Zones_updEntity [simp]: "Zones (updEntity f i s) = Zones s"
  by (simp add: updEntity_def split: option.split)

lemma removeMember_setMembers: "removeMember zn i s = setMembers zn (remove1 i (members s zn)) s"
  by (simp add: removeMember_def setMembers_def members_def split: option.split)

lemma members_setMembers:
  "members (setMembers zn ms s) zn' = (if zn' = zn \<and> hasZone s zn then ms else members s zn')"
  by (auto simp: setMembers_def members_def hasZone_def split: option.split)

lemma zone_frame [simp]:
  "capacityOf (setMembers zn ms s) zn' = capacityOf s zn'"
  "hasZone (setMembers zn ms s) zn' = hasZone s zn'"
  "location (setMembers zn ms s) i = location s i"
  by (auto simp: setMembers_def placement_defs split: option.split)

lemma entity_frame [simp]:
  "members (storeEntity i e s) = members s"
  "capacityOf (storeEntity i e s) = capacityOf s"
  "hasZone (storeEntity i e s) = hasZone s"
  "location (storeEntity i e s) = (location s)(i \<mapsto> entZone e)"
  by (auto simp: placement_defs fun_eq_iff)

lemma members_undeclared: "\<not> hasZone s zn \<Longrightarrow> members s zn = []"
  by (auto simp: placement_defs)

definition place :: "entityID \<Rightarrow> entity \<Rightarrow> string \<Rightarrow> 'k ccg \<Rightarrow> 'k ccg" where
  "place i e to s =
     (let s = (if entZone e \<noteq> '''' then removeMember (entZone e) i s else s);
          s = setMembers to (members s to @ [i]) s
      in storeEntity i (setZone to e) s)"

lemma MoveTo_cases:
  "MoveTo i to s =
     (if \<not> hasZone s to then (Some ErrUnknownZone, s)
      else (case Get s i of
              None \<Rightarrow> (Some ErrUnknownEntity, s)
            | Some e \<Rightarrow> if entZone e \<noteq> to \<and> full s to then (Some ErrZoneFull, s)
                        else (None, place i e to s)))"
  by (auto simp: MoveTo_def place_def placement_defs zoneAtCapacity_def Let_def split: option.splits)

section \<open>Consistency of the two indices\<close>

definition zones_ok :: "'k ccg \<Rightarrow> bool" where
  "zones_ok s \<longleftrightarrow> mwf (Entities s) \<and> mwf (Zones s) \<and> \<not> hasZone s '''' \<and>
     (\<forall>zn. distinct (members s zn)) \<and>
     (\<forall>zn i. zn \<noteq> '''' \<longrightarrow> i \<in> set (members s zn) \<longleftrightarrow> location s i = Some zn) \<and>
     (\<forall>i e. Get s i = Some e \<longrightarrow> entID e = i \<and> 0 < i \<and> i \<le> NextEntityID (IDs s))"

definition caps_ok :: "'k ccg \<Rightarrow> bool" where
  "caps_ok s \<longleftrightarrow>
     (\<forall>zn. 0 < capacityOf s zn \<longrightarrow> int (length (members s zn)) \<le> capacityOf s zn)"

lemma zones_okD:
  assumes "zones_ok s"
  shows "mwf (Entities s)" "mwf (Zones s)" "\<not> hasZone s ''''"
    "distinct (members s zn)"
    "zn \<noteq> '''' \<Longrightarrow> i \<in> set (members s zn) \<longleftrightarrow> location s i = Some zn"
    "Get s i = Some e \<Longrightarrow> entID e = i \<and> 0 < i \<and> i \<le> NextEntityID (IDs s)"
  using assms by (auto simp: zones_ok_def)

lemma members_no_name: "zones_ok s \<Longrightarrow> members s '''' = []"
  by (rule members_undeclared) (rule zones_okD)

lemma member_unique:
  "zones_ok s \<Longrightarrow> i \<in> set (members s zn) \<Longrightarrow> i \<in> set (members s zn') \<Longrightarrow> zn = zn'"
  using members_no_name [of s] zones_okD(5) [of s zn i] zones_okD(5) [of s zn' i]
  by (cases "zn = ''''"; cases "zn' = ''''") auto

lemma member_known: "zones_ok s \<Longrightarrow> i \<in> set (members s zn) \<Longrightarrow> location s i = Some zn"
  using members_no_name [of s] zones_okD(5) [of s zn i] by (cases "zn = ''''") auto

lemma declared_if_located: "zones_ok s \<Longrightarrow> location s i = Some zn \<Longrightarrow> zn \<noteq> '''' \<Longrightarrow> hasZone s zn"
  using zones_okD(5) [of s zn i] by (cases "hasZone s zn") (simp_all add: members_undeclared)

lemma filter_neq_remove1: "distinct xs \<Longrightarrow> filter (\<lambda>x. x \<noteq> i) xs = remove1 i xs"
  by (simp add: distinct_remove1_removeAll removeAll_filter_not_eq eq_commute)

text \<open>Moving a card to the end of a zone, as an operation on placements.\<close>

definition relocate :: "'i \<Rightarrow> string \<Rightarrow> (string \<Rightarrow> 'i list) \<Rightarrow> string \<Rightarrow> 'i list" where
  "relocate i to m zn = filter (\<lambda>x. x \<noteq> i) (m zn) @ (if zn = to then [i] else [])"

lemma fold_relocate:
  "distinct ids \<Longrightarrow>
   fold (\<lambda>i. relocate i to) ids m =
     (\<lambda>zn. filter (\<lambda>x. x \<notin> set ids) (m zn) @ (if zn = to then ids else []))"
proof (induction ids arbitrary: m)
  case (Cons i ids)
  then show ?case by (auto simp: relocate_def fun_eq_iff filter_id_conv intro!: filter_cong)
qed simp

lemma set_fold_relocate:
  "set (fold (\<lambda>i. relocate i to) ids m zn) =
     (if zn = to then set (m zn) \<union> set ids else set (m zn) - set ids)"
  by (induction ids arbitrary: m) (auto simp: relocate_def)

subsection \<open>What moving does\<close>

lemma members_place:
  assumes ok: "zones_ok s" and e: "Get s i = Some e" and z: "hasZone s to"
  shows "members (place i e to s) = relocate i to (members s)"
proof
  fix zn
  let ?s = "if entZone e \<noteq> '''' then removeMember (entZone e) i s else s"
  have at: "i \<in> set (members s zn) \<longleftrightarrow> zn = entZone e \<and> zn \<noteq> ''''"
    using ok e members_no_name [OF ok] zones_okD(5) [OF ok, of zn i]
    by (cases "zn = ''''") (auto simp: location_def)
  have m: "members ?s zn = filter (\<lambda>x. x \<noteq> i) (members s zn)"
  proof (cases "i \<in> set (members s zn)")
    case True
    moreover have "hasZone s zn" using True members_undeclared [of s zn] by (cases "hasZone s zn") auto
    ultimately show ?thesis using at filter_neq_remove1 [OF zones_okD(4) [OF ok], of i zn]
      by (auto simp: removeMember_setMembers members_setMembers)
  next
    case False
    then have "filter (\<lambda>x. x \<noteq> i) (members s zn) = members s zn" by (auto simp: filter_id_conv)
    then show ?thesis using False
      by (auto simp: removeMember_setMembers members_setMembers remove1_idem)
  qed
  have "hasZone ?s to" using z by (simp add: removeMember_setMembers)
  then show "members (place i e to s) zn = relocate i to (members s) zn"
    using m by (cases "zn = to") (auto simp: place_def Let_def members_setMembers relocate_def)
qed

lemma place_frame [simp]:
  "capacityOf (place i e to s) = capacityOf s"
  "hasZone (place i e to s) = hasZone s"
  "location (place i e to s) = (location s)(i \<mapsto> to)"
  "Get (place i e to s) j = (if j = i then Some (setZone to e) else Get s j)"
  by (auto simp: place_def Let_def removeMember_setMembers setZone_def fun_eq_iff)

lemma place_maps [simp]:
  "IDs (place i e to s) = IDs s"
  "mwf (Entities s) \<Longrightarrow> mwf (Entities (place i e to s))"
  "mwf (Zones s) \<Longrightarrow> mwf (Zones (place i e to s))"
  by (auto simp: place_def Let_def removeMember_def setMembers_def storeEntity_def split: option.splits)

lemma zones_ok_place:
  assumes ok: "zones_ok s" and e: "Get s i = Some e" and z: "hasZone s to"
  shows "zones_ok (place i e to s)"
  unfolding zones_ok_def
proof (intro conjI allI impI)
  have to: "to \<noteq> ''''" using ok z zones_okD(3) by blast
  show "distinct (members (place i e to s) zn)" for zn
    using zones_okD(4) [OF ok, of zn] by (simp add: members_place [OF assms] relocate_def)
  show "j \<in> set (members (place i e to s) zn) \<longleftrightarrow> location (place i e to s) j = Some zn"
    if "zn \<noteq> ''''" for zn j
    using zones_okD(5) [OF ok that, of j] by (auto simp: members_place [OF assms] relocate_def)
  show "entID e' = j" "0 < j" "j \<le> NextEntityID (IDs (place i e to s))"
    if "Get (place i e to s) j = Some e'" for j e'
    using that zones_okD(6) [OF ok, of j] e by (auto simp: setZone_def split: if_splits)
qed (use ok in \<open>simp_all add: zones_okD(1-3)\<close>)

definition moved :: "entityID \<Rightarrow> string \<Rightarrow> 'k ccg \<Rightarrow> 'k ccg" where
  "moved i to s = (case Get s i of None \<Rightarrow> s | Some e \<Rightarrow> place i e to s)"

text \<open>
  The contract that the batch operations rely on: a store of cards in which a known card can
  be moved to a declared zone, and doing so relocates it and nothing else.
\<close>

locale placements =
  fixes mem :: "'s \<Rightarrow> string \<Rightarrow> 'i list"
    and ok :: "'s \<Rightarrow> bool"
    and movable :: "'i \<Rightarrow> string \<Rightarrow> 's \<Rightarrow> bool"
    and move :: "'i \<Rightarrow> string \<Rightarrow> 's \<Rightarrow> 's"
  assumes move_mem: "ok s \<Longrightarrow> movable i to s \<Longrightarrow> mem (move i to s) = relocate i to (mem s)"
    and move_ok: "ok s \<Longrightarrow> movable i to s \<Longrightarrow> ok (move i to s)"
    and move_movable: "ok s \<Longrightarrow> movable i to s \<Longrightarrow> movable j to' s \<Longrightarrow> movable j to' (move i to s)"
begin

lemma moves:
  "ok s \<Longrightarrow> (\<And>i. i \<in> set ids \<Longrightarrow> movable i to s) \<Longrightarrow>
   ok (fold (\<lambda>i. move i to) ids s) \<and>
   mem (fold (\<lambda>i. move i to) ids s) = fold (\<lambda>i. relocate i to) ids (mem s)"
  by (induction ids arbitrary: s) (simp_all add: move_mem move_ok move_movable)

lemma moves_distinct:
  assumes "ok s" "\<And>i. i \<in> set ids \<Longrightarrow> movable i to s" "distinct ids"
  shows "mem (fold (\<lambda>i. move i to) ids s) zn =
           filter (\<lambda>x. x \<notin> set ids) (mem s zn) @ (if zn = to then ids else [])"
  using moves [of s ids to] assms by (simp add: fold_relocate)

end

definition movable :: "entityID \<Rightarrow> string \<Rightarrow> 'k ccg \<Rightarrow> bool" where
  "movable i to s \<longleftrightarrow> location s i \<noteq> None \<and> hasZone s to"

interpretation moving: placements members zones_ok movable moved
proof unfold_locales
  fix s :: "'k ccg" and i j to to'
  assume ok: "zones_ok s" and mv: "movable i to s"
  then obtain e where e: "Get s i = Some e" and z: "hasZone s to"
    by (auto simp: movable_def location_def)
  show "members (moved i to s) = relocate i to (members s)"
    using members_place [OF ok e z] by (simp add: moved_def e)
  show "zones_ok (moved i to s)" using zones_ok_place [OF ok e z] by (simp add: moved_def e)
  show "movable j to' s \<Longrightarrow> movable j to' (moved i to s)" by (simp add: moved_def e movable_def)
qed

lemma moved_frame [simp]:
  "capacityOf (moved i to s) = capacityOf s"
  "hasZone (moved i to s) = hasZone s"
  "location s i \<noteq> None \<Longrightarrow> location (moved i to s) = (location s)(i \<mapsto> to)"
  by (auto simp: moved_def location_def split: option.split)

lemma moved_all_frame [simp]:
  "capacityOf (fold (\<lambda>i. moved i to) ids s) = capacityOf s"
  "hasZone (fold (\<lambda>i. moved i to) ids s) = hasZone s"
  by (induction ids arbitrary: s) simp_all

definition room :: "'k ccg \<Rightarrow> string \<Rightarrow> nat \<Rightarrow> bool" where
  "room s zn n \<longleftrightarrow> (0 < capacityOf s zn \<longrightarrow> int (length (members s zn) + n) \<le> capacityOf s zn)"

lemma MoveTo_moved:
  "zones_ok s \<Longrightarrow> movable i to s \<Longrightarrow> location s i = Some to \<or> room s to 1 \<Longrightarrow>
   MoveTo i to s = (None, moved i to s)"
  by (auto simp: MoveTo_cases movable_def location_def moved_def room_def full_def)

lemma length_relocate:
  "distinct (m to) \<Longrightarrow>
   length (relocate i to m to) = (if i \<in> set (m to) then length (m to) else Suc (length (m to)))"
  by (auto simp: relocate_def filter_neq_remove1 length_remove1 filter_id_conv
      dest!: length_pos_if_in_set)

text \<open>The pre-flight check of a batch is enough: no move of the batch is refused.\<close>

definition incoming :: "'k ccg \<Rightarrow> string \<Rightarrow> entityID list \<Rightarrow> nat" where
  "incoming s to ids = length (filter (\<lambda>i. location s i \<noteq> Some to) ids)"

lemma incoming_Cons:
  "incoming s to (i # ids) = (if location s i = Some to then incoming s to ids else Suc (incoming s to ids))"
  by (simp add: incoming_def)

lemma length_filter_mono: "(\<And>x. P x \<Longrightarrow> Q x) \<Longrightarrow> length (filter P xs) \<le> length (filter Q xs)"
  by (induction xs) auto

lemma moveEach_moved:
  "zones_ok s \<Longrightarrow> (\<And>i. i \<in> set ids \<Longrightarrow> movable i to s) \<Longrightarrow> room s to (incoming s to ids) \<Longrightarrow>
   moveEach ids to s = (None, fold (\<lambda>i. moved i to) ids s)"
proof (induction ids arbitrary: s)
  case (Cons i ids)
  let ?s = "moved i to s"
  have mv: "movable i to s" "\<And>j. j \<in> set ids \<Longrightarrow> movable j to s" using Cons.prems(2) by auto
  then have to: "to \<noteq> ''''" and known: "location s i \<noteq> None"
    using zones_okD(3) [OF Cons.prems(1)] by (auto simp: movable_def)
  have step: "MoveTo i to s = (None, ?s)"
    using Cons.prems mv by (intro MoveTo_moved) (auto simp: incoming_def room_def split: if_splits)
  have "length (members ?s to) + incoming ?s to ids \<le> length (members s to) + incoming s to (i # ids)"
  proof -
    have "incoming ?s to ids \<le> incoming s to ids"
      using known by (auto simp: incoming_def intro!: length_filter_mono)
    then show ?thesis
      using zones_okD(4,5) [OF Cons.prems(1), of to] to
        length_relocate [of "members s" to i] moving.move_mem [OF Cons.prems(1) mv(1)]
      by (auto simp: incoming_Cons)
  qed
  then have "room ?s to (incoming ?s to ids)"
    using Cons.prems(3) by (auto simp: room_def)
  then have "moveEach ids to ?s = (None, fold (\<lambda>i. moved i to) ids ?s)"
    using Cons.prems(1) mv by (intro Cons.IH moving.move_ok moving.move_movable)
  then show ?case by (simp add: step)
qed simp

section \<open>The operations\<close>

subsection \<open>Batches\<close>

lemma inboundOf_incoming:
  "inboundOf s to ids =
     (if \<exists>i \<in> set ids. location s i = None then None else Some (incoming s to ids))"
  by (induction ids) (auto simp: location_def incoming_def split: option.split)

lemma Transition_cases:
  assumes "zones_ok s"
  shows "Transition ids to s =
     (if \<not> hasZone s to then (Some ErrUnknownZone, s)
      else if \<exists>i \<in> set ids. location s i = None then (Some ErrUnknownEntity, s)
      else if \<not> room s to (incoming s to ids) then (Some ErrZoneFull, s)
      else (None, fold (\<lambda>i. moved i to) ids s))"
  using moveEach_moved [OF assms, of ids to]
  by (auto simp: Transition_def hasZone_def inboundOf_incoming overCapacity_def room_def movable_def
      capacityOf_def members_def split: option.split)

lemma moved_all_ok:
  assumes "zones_ok s" "hasZone s to" "\<And>i. i \<in> set ids \<Longrightarrow> location s i \<noteq> None"
  shows "zones_ok (fold (\<lambda>i. moved i to) ids s)"
    and "members (fold (\<lambda>i. moved i to) ids s) = fold (\<lambda>i. relocate i to) ids (members s)"
  using moving.moves [of s ids to] assms by (simp_all add: movable_def)

lemma length_moved_all:
  "zones_ok s \<Longrightarrow> hasZone s to \<Longrightarrow> (\<And>i. i \<in> set ids \<Longrightarrow> location s i \<noteq> None) \<Longrightarrow>
   length (members (fold (\<lambda>i. moved i to) ids s) to) \<le> length (members s to) + incoming s to ids"
proof (induction ids arbitrary: s)
  case (Cons i ids)
  let ?s = "moved i to s"
  have mv: "movable j to s" if "j \<in> set (i # ids)" for j
    using Cons.prems that by (auto simp: movable_def)
  have known: "location s i \<noteq> None" using Cons.prems by simp
  have "incoming ?s to ids \<le> incoming s to ids"
    using known by (auto simp: incoming_def intro!: length_filter_mono)
  moreover have "to \<noteq> ''''" using Cons.prems zones_okD(3) by blast
  moreover have "length (members (fold (\<lambda>i. moved i to) ids ?s) to) \<le> length (members ?s to) + incoming ?s to ids"
    using Cons.prems mv known by (intro Cons.IH moving.move_ok) auto
  ultimately show ?case
    using zones_okD(4,5) [OF Cons.prems(1), of to] length_relocate [of "members s" to i]
      moving.move_mem [OF Cons.prems(1) mv [of i]]
    by (auto simp: incoming_Cons split: if_splits)
qed simp

lemma snapshots_members:
  "snapshots s to from =
     (if \<exists>f \<in> set from. \<not> hasZone s f then None
      else Some (map (\<lambda>f. if f = to then [] else members s f) from))"
  by (induction "from") (auto simp: hasZone_def members_def split: option.split)

definition sources :: "'k ccg \<Rightarrow> string \<Rightarrow> string list \<Rightarrow> entityID list" where
  "sources s to from = concat (map (\<lambda>f. if f = to then [] else members s f) from)"

lemma sources_outside:
  "zones_ok s \<Longrightarrow> i \<in> set (sources s to from) \<Longrightarrow> location s i \<noteq> None \<and> location s i \<noteq> Some to"
  by (auto simp: sources_def dest: member_known split: if_splits)

lemma incoming_sources: "zones_ok s \<Longrightarrow> incoming s to (sources s to from) = length (sources s to from)"
  using sources_outside [of s _ to "from"]
  by (simp add: incoming_def)

lemma MoveAllTo_cases:
  assumes ok: "zones_ok s"
  shows "MoveAllTo to from s =
     (if \<not> hasZone s to \<or> (\<exists>f \<in> set from. \<not> hasZone s f) then (Some ErrUnknownZone, s)
      else if \<not> room s to (length (sources s to from)) then (Some ErrZoneFull, s)
      else (None, fold (\<lambda>i. moved i to) (sources s to from) s))"
  using moveEach_moved [OF ok, of "sources s to from" to] sources_outside [OF ok, of _ to "from"]
    incoming_sources [OF ok, of to "from"]
  by (auto simp: MoveAllTo_def hasZone_def snapshots_members overCapacity_def room_def movable_def
      sources_def [symmetric] capacityOf_def members_def split: option.split)

lemma zones_ok_MoveTo: "zones_ok s \<Longrightarrow> zones_ok (snd (MoveTo i to s))"
  by (auto simp: MoveTo_cases zones_ok_place split: option.split)

lemma zones_ok_Transition: "zones_ok s \<Longrightarrow> zones_ok (snd (Transition ids to s))"
  by (auto simp: Transition_cases moved_all_ok)

lemma zones_ok_MoveAllTo: "zones_ok s \<Longrightarrow> zones_ok (snd (MoveAllTo to from s))"
  using sources_outside [of s _ to "from"] by (auto simp: MoveAllTo_cases moved_all_ok)

subsection \<open>Minting and destroying\<close>

lemma word_less_succ: "(w :: 64 word) \<noteq> - 1 \<Longrightarrow> w < w + 1"
proof -
  assume "w \<noteq> - 1"
  then have "unat w \<noteq> unat (- 1 :: 64 word)" using unsigned_word_eqI by blast
  then have "Suc (unat w) < 2 ^ 64" using unsigned_less [of w, where ?'a = nat] by (simp add: unsigned_minus_1_eq_mask mask_eq_exp_minus_1)
  then show ?thesis by (simp add: word_less_nat_alt unat_word_ariths)
qed

definition fresh_left :: "'k ccg \<Rightarrow> bool" where
  "fresh_left s \<longleftrightarrow> NextEntityID (IDs s) \<noteq> - 1"

lemma Get_mint [simp]:
  "Get (snd (mint e s)) i = (if i = fst (mint e s) then Some (e\<lparr>entID := i\<rparr>) else Get s i)"
  by (simp add: mint_def Let_def) (simp add: Get_def)

lemma mint_frame [simp]:
  "fst (mint e s) = NextEntityID (IDs s) + 1"
  "NextEntityID (IDs (snd (mint e s))) = NextEntityID (IDs s) + 1"
  "Zones (snd (mint e s)) = Zones s"
  "mwf (Entities s) \<Longrightarrow> mwf (Entities (snd (mint e s)))"
  by (simp_all add: mint_def Let_def storeEntity_def)

lemma less_next: "fresh_left s \<Longrightarrow> NextEntityID (IDs s) < NextEntityID (IDs s) + 1"
  by (simp add: fresh_left_def word_less_succ)

lemma mint_fresh:
  assumes "zones_ok s" "fresh_left s"
  shows "Get s (fst (mint e s)) = None"
  using zones_okD(6) [OF assms(1), of "NextEntityID (IDs s) + 1"] less_next [OF assms(2)]
  by (cases "Get s (NextEntityID (IDs s) + 1)") auto

lemma members_mint [simp]: "members (snd (mint e s)) = members s" "hasZone (snd (mint e s)) = hasZone s"
  "capacityOf (snd (mint e s)) = capacityOf s"
  by (auto simp: placement_defs fun_eq_iff)

lemma zones_ok_mint:
  assumes ok: "zones_ok s" and fr: "fresh_left s" and e: "entZone e = ''''"
  shows "zones_ok (snd (mint e s))"
  unfolding zones_ok_def
proof (intro conjI allI impI)
  let ?n = "NextEntityID (IDs s) + 1"
  show "i \<in> set (members (snd (mint e s)) zn) \<longleftrightarrow> location (snd (mint e s)) i = Some zn"
    if "zn \<noteq> ''''" for zn i
    using that e zones_okD(5) [OF ok that, of i] mint_fresh [OF ok fr, of e]
    by (auto simp: location_def)
  show "entID e' = i" "0 < i" "i \<le> NextEntityID (IDs (snd (mint e s)))"
    if "Get (snd (mint e s)) i = Some e'" for i e'
    using that zones_okD(6) [OF ok, of i e'] less_next [OF fr] fr
    by (auto simp: fresh_left_def word_neq_0_conv [symmetric] add_eq_0_iff2 split: if_splits)
qed (use ok in \<open>simp_all add: zones_okD(1-4)\<close>)

lemma zones_ok_NewEntity: "zones_ok s \<Longrightarrow> fresh_left s \<Longrightarrow> zones_ok (snd (NewEntity t ow attrs s))"
  by (simp add: NewEntity_def zones_ok_mint blankEntity_def)

lemma zones_ok_Instantiate: "zones_ok s \<Longrightarrow> fresh_left s \<Longrightarrow> zones_ok (snd (Instantiate c d ow s))"
  using zones_ok_mint [of s]
  by (simp add: Instantiate_def blankEntity_def split_def split: option.split)

lemma zones_ok_Clone: "zones_ok s \<Longrightarrow> fresh_left s \<Longrightarrow> zones_ok (snd (Clone i ow ov s))"
  using zones_ok_mint [of s] by (simp add: Clone_def blankEntity_def split_def split: option.split)

lemma zones_ok_updEntity:
  assumes ok: "zones_ok s" and f: "\<And>e. entZone (f e) = entZone e" "\<And>e. entID (f e) = entID e"
  shows "zones_ok (updEntity f i s)"
proof -
  have loc: "location (updEntity f i s) = location s"
    using f by (auto simp: location_def Get_updEntity fun_eq_iff option.map_comp o_def)
  moreover have "members (updEntity f i s) = members s" "hasZone (updEntity f i s) = hasZone s"
    by (auto simp: members_def hasZone_def fun_eq_iff)
  moreover have "mwf (Entities (updEntity f i s))" "IDs (updEntity f i s) = IDs s"
    using zones_okD(1) [OF ok] by (auto simp: updEntity_def storeEntity_def split: option.split)
  ultimately show ?thesis
    using ok f unfolding zones_ok_def by (auto simp: Get_updEntity split: if_splits)
qed

lemma members_Destroy:
  assumes ok: "zones_ok s"
  shows "members (Destroy i s) zn = filter (\<lambda>x. x \<noteq> i) (members s zn)"
proof (cases "Get s i")
  case None
  then have "i \<notin> set (members s zn)" using member_known [OF ok, of i zn] by (auto simp: location_def)
  then have "filter (\<lambda>x. x \<noteq> i) (members s zn) = members s zn" by (auto simp: filter_id_conv)
  then show ?thesis by (simp add: Destroy_def None)
next
  case (Some e)
  let ?s = "if entZone e \<noteq> '''' then removeMember (entZone e) i s else s"
  have loc: "location s i = Some (entZone e)" by (simp add: location_def Some)
  have "members (Destroy i s) zn = members ?s zn"
    by (simp add: Destroy_def Some Let_def) (simp add: members_def)
  also have "\<dots> = filter (\<lambda>x. x \<noteq> i) (members s zn)"
  proof (cases "zn = entZone e \<and> zn \<noteq> ''''")
    case True
    then have "hasZone s zn" using declared_if_located [OF ok loc] by auto
    then show ?thesis using True filter_neq_remove1 [OF zones_okD(4) [OF ok]]
      by (auto simp: removeMember_setMembers members_setMembers)
  next
    case False
    then have "i \<notin> set (members s zn)" using loc member_known [OF ok, of i zn] members_no_name [OF ok] by auto
    then have "filter (\<lambda>x. x \<noteq> i) (members s zn) = members s zn" by (auto simp: filter_id_conv)
    then show ?thesis using False by (auto simp: removeMember_setMembers members_setMembers)
  qed
  finally show ?thesis .
qed

lemma Destroy_frame [simp]:
  "hasZone (Destroy i s) = hasZone s"
  "capacityOf (Destroy i s) = capacityOf s"
  "location (Destroy i s) j = (if j = i then None else location s j)"
  "Get (Destroy i s) j = (if j = i then None else Get s j)"
  "IDs (Destroy i s) = IDs s"
  by (auto simp: Destroy_def Let_def placement_defs removeMember_def Get_def fun_eq_iff split: option.split)

lemma zones_ok_Destroy: "zones_ok s \<Longrightarrow> zones_ok (Destroy i s)"
proof -
  assume ok: "zones_ok s"
  then have "mwf (Entities (Destroy i s))" "mwf (Zones (Destroy i s))"
    by (auto simp: Destroy_def Let_def removeMember_def zones_okD(1,2) split: option.split)
  then show ?thesis using ok unfolding zones_ok_def [of "Destroy i s"]
    by (auto simp: members_Destroy zones_okD)
qed

subsection \<open>Declaring zones and placing new cards\<close>

lemma NewZone_frame [simp]:
  "members (NewZone zn b s) = members s"
  "location (NewZone zn b s) = location s"
  "Get (NewZone zn b s) = Get s"
  "hasZone (NewZone zn b s) zn' \<longleftrightarrow> zn' = zn \<or> hasZone s zn'"
  "capacityOf (NewZone zn b s) = capacityOf s"
  by (auto simp: NewZone_def placement_defs Get_def fun_eq_iff split: option.split)

lemma zones_ok_NewZone: "zones_ok s \<Longrightarrow> zn \<noteq> '''' \<Longrightarrow> zones_ok (NewZone zn b s)"
proof -
  assume ok: "zones_ok s" and "zn \<noteq> ''''"
  moreover have "mwf (Zones (NewZone zn b s))" "Entities (NewZone zn b s) = Entities s"
    "IDs (NewZone zn b s) = IDs s"
    using ok by (auto simp: NewZone_def zones_okD(2) split: option.split)
  ultimately show ?thesis by (simp add: zones_ok_def)
qed

lemma Add_moved:
  "location s i = Some '''' \<Longrightarrow> \<not> hasZone s '''' \<Longrightarrow> Add zn i s = MoveTo i zn s"
  by (auto simp: Add_def MoveTo_def Let_def location_def hasZone_def split: option.split)

lemma zones_ok_Add: "zones_ok s \<Longrightarrow> location s i = Some '''' \<Longrightarrow> zones_ok (snd (Add zn i s))"
  by (simp add: Add_moved zones_okD(3) zones_ok_MoveTo)

lemma InsertAt_cases:
  "InsertAt zn i pos s =
     (if \<not> hasZone s zn then (Some ErrUnknownZone, s)
      else (case Get s i of
              None \<Rightarrow> (Some ErrUnknownEntity, s)
            | Some e \<Rightarrow>
                if pos < 0 \<or> int (length (members s zn)) < pos then (Some ErrInvalidPosition, s)
                else if full s zn then (Some ErrZoneFull, s)
                else (None, storeEntity i (setZone zn e)
                        (setMembers zn (take (nat pos) (members s zn) @ i # drop (nat pos) (members s zn)) s))))"
  by (auto simp: InsertAt_def placement_defs zoneAtCapacity_def split: option.split)

lemma zones_ok_put:
  assumes ok: "zones_ok s" and e: "Get s i = Some e" "entZone e = ''''" and z: "hasZone s zn"
    and ms: "mset ms = add_mset i (mset (members s zn))"
  shows "zones_ok (storeEntity i (setZone zn e) (setMembers zn ms s))" (is "zones_ok ?s")
  unfolding zones_ok_def
proof (intro conjI allI impI)
  have zn: "zn \<noteq> ''''" using z zones_okD(3) [OF ok] by auto
  have new: "i \<notin> set (members s zn')" for zn'
    using e member_known [OF ok, of i zn'] members_no_name [OF ok] by (auto simp: location_def)
  have "set ms = insert i (set (members s zn))" using ms by (metis set_mset_add_mset_insert set_mset_mset)
  then show "j \<in> set (members ?s zn') \<longleftrightarrow> location ?s j = Some zn'" if "zn' \<noteq> ''''" for zn' j
    using zones_okD(5) [OF ok that, of j] z new [of zn'] by (auto simp: members_setMembers setZone_def)
  have "distinct ms" using ms new [of zn] zones_okD(4) [OF ok, of zn] mset_eq_imp_distinct_iff [of ms "i # members s zn"]
    by simp
  then show "distinct (members ?s zn')" for zn'
    using zones_okD(4) [OF ok, of zn'] by (simp add: members_setMembers)
  show "entID e' = j" "0 < j" "j \<le> NextEntityID (IDs ?s)" if "Get ?s j = Some e'" for j e'
    using that zones_okD(6) [OF ok, of j] e
    by (auto simp: setZone_def split: if_splits)
qed (use zones_okD(1-3) [OF ok] in \<open>simp_all\<close>)

lemma zones_ok_InsertAt:
  assumes ok: "zones_ok s" and loc: "location s i = Some ''''"
  shows "zones_ok (snd (InsertAt zn i pos s))"
proof (cases "fst (InsertAt zn i pos s)")
  case None
  then obtain e where e: "Get s i = Some e" and z: "hasZone s zn"
    and s': "snd (InsertAt zn i pos s) = storeEntity i (setZone zn e)
               (setMembers zn (take (nat pos) (members s zn) @ i # drop (nat pos) (members s zn)) s)"
    by (auto simp: InsertAt_cases split: option.splits if_splits)
  have "mset (take (nat pos) (members s zn) @ i # drop (nat pos) (members s zn)) = add_mset i (mset (members s zn))"
    by (metis append_take_drop_id mset.simps(2) mset_append union_mset_add_mset_right)
  then show ?thesis unfolding s' using ok e z loc by (intro zones_ok_put) (auto simp: location_def)

next
  case (Some err)
  then have "snd (InsertAt zn i pos s) = s"
    by (auto simp: InsertAt_cases split: option.splits if_splits)
  then show ?thesis using ok by simp
qed

subsection \<open>Drawing and shuffling\<close>

lemma popTop_eq:
  "n \<le> length ms \<Longrightarrow> popTop n ms = (take n (rev ms), take (length ms - n) ms)"
proof (induction n arbitrary: ms)
  case (Suc n)
  then have ne: "ms \<noteq> []" and "n \<le> length (butlast ms)" by auto
  then have "popTop n (butlast ms) = (take n (rev (butlast ms)), take (length ms - Suc n) (butlast ms))"
    using Suc.IH by simp
  moreover have "rev ms = last ms # rev (butlast ms)" using ne by (metis append_butlast_last_id rev_eq_Cons_iff rev_rev_ident)
  moreover have "take (length ms - Suc n) (butlast ms) = take (length ms - Suc n) ms"
    using ne by (simp add: butlast_conv_take min_def)
  ultimately show ?case by (simp only: popTop.simps Let_def split take_Suc_Cons)
qed simp

lemma setZone_setZone [simp]: "setZone a (setZone b e) = setZone a e"
  by (simp add: setZone_def)

lemma Get_clearZones:
  "Get (clearZones ids s) i = (if i \<in> set ids then map_option (setZone '''') (Get s i) else Get s i)"
  unfolding clearZones_def
  by (induction ids arbitrary: s) (auto simp: Get_updEntity option.map_comp o_def)

lemma clearZones_frame [simp]:
  "Zones (clearZones ids s) = Zones s"
  "IDs (clearZones ids s) = IDs s"
  "mwf (Entities s) \<Longrightarrow> mwf (Entities (clearZones ids s))"
  unfolding clearZones_def
  by (induction ids arbitrary: s) (auto simp: updEntity_def storeEntity_def split: option.splits)

lemma clearZones_placement [simp]:
  "members (clearZones ids s) = members s"
  "hasZone (clearZones ids s) = hasZone s"
  "capacityOf (clearZones ids s) = capacityOf s"
  "location (clearZones ids s) i =
     (if i \<in> set ids then map_option (\<lambda>_. '''') (location s i) else location s i)"
  by (auto simp: placement_defs Get_clearZones fun_eq_iff option.map_comp o_def setZone_def)

text \<open>What \<open>Draw\<close> does to a placement, in one equation per outcome.\<close>

definition drawn :: "string \<Rightarrow> nat \<Rightarrow> 'k ccg \<Rightarrow> entityID list" where
  "drawn zn n s = take n (rev (members s zn))"

definition afterDraw :: "string \<Rightarrow> nat \<Rightarrow> 'k ccg \<Rightarrow> 'k ccg" where
  "afterDraw zn n s = clearZones (drawn zn n s) (setMembers zn (take (length (members s zn) - n) (members s zn)) s)"

lemma Draw_cases:
  "Draw zn n s =
     (if \<not> hasZone s zn then Some (Inl ErrUnknownZone, s)
      else if members s zn = [] then Some (Inl ErrZoneEmpty, s)
      else if n < 0 then None
      else Some (Inr (drawn zn (nat n) s), afterDraw zn (nat n) s))"
proof (cases "map_of (Zones s) zn")
  case (Some z)
  have "popTop (nat (min n (int (length (zMembers z))))) (zMembers z) =
    (take (nat n) (rev (zMembers z)), take (length (zMembers z) - nat n) (zMembers z))"
    if "0 \<le> n" by (subst popTop_eq) (use that in \<open>auto simp: min_def\<close>)
  then show ?thesis using Some
    by (cases "n \<le> int (length (zMembers z))")
      (auto simp: Draw_def hasZone_def members_def drawn_def afterDraw_def Let_def min_def)
qed (simp add: Draw_def hasZone_def)

lemma afterDraw_frame [simp]:
  "hasZone (afterDraw zn n s) = hasZone s"
  "capacityOf (afterDraw zn n s) = capacityOf s"
  "IDs (afterDraw zn n s) = IDs s"
  by (simp_all add: afterDraw_def fun_eq_iff)

lemma members_afterDraw:
  "members (afterDraw zn n s) zn' =
     (if zn' = zn then take (length (members s zn) - n) (members s zn) else members s zn')"
  by (auto simp: afterDraw_def members_setMembers members_undeclared)

lemma location_afterDraw:
  "location (afterDraw zn n s) i =
     (if i \<in> set (drawn zn n s) then map_option (\<lambda>_. '''') (location s i) else location s i)"
  by (simp add: afterDraw_def)

lemma split_draw:
  "distinct ms \<Longrightarrow> x \<in> set (take (length ms - n) ms) \<longleftrightarrow> x \<in> set ms \<and> x \<notin> set (take n (rev ms))"
proof -
  assume d: "distinct ms"
  have r: "take n (rev ms) = rev (drop (length ms - n) ms)" by (simp add: take_rev)
  have "distinct (take (length ms - n) ms @ drop (length ms - n) ms)" using d by simp
  then have "set (take (length ms - n) ms) \<inter> set (drop (length ms - n) ms) = {}" by (simp only: distinct_append)
  moreover have "set ms = set (take (length ms - n) ms) \<union> set (drop (length ms - n) ms)"
    by (metis append_take_drop_id set_append)
  ultimately show ?thesis by (auto simp: r)
qed

lemma zones_ok_afterDraw:
  assumes ok: "zones_ok s"
  shows "zones_ok (afterDraw zn n s)"
  unfolding zones_ok_def
proof (intro conjI allI impI)
  show "distinct (members (afterDraw zn n s) zn')" for zn'
    using zones_okD(4) [OF ok] by (simp add: members_afterDraw)
  show "i \<in> set (members (afterDraw zn n s) zn') \<longleftrightarrow> location (afterDraw zn n s) i = Some zn'"
    if "zn' \<noteq> ''''" for zn' i
    using zones_okD(5) [OF ok that, of i] that split_draw [OF zones_okD(4) [OF ok, of zn], of i n]
      member_known [OF ok, of i zn]
    by (auto simp: members_afterDraw location_afterDraw drawn_def dest!: in_set_takeD)
  show "entID e = i" "0 < i" "i \<le> NextEntityID (IDs (afterDraw zn n s))"
    if "Get (afterDraw zn n s) i = Some e" for i e
    using that zones_okD(6) [OF ok, of i]
    by (auto simp: afterDraw_def Get_clearZones setZone_def split: if_splits)
qed (use zones_okD(1-3) [OF ok] in \<open>simp_all add: afterDraw_def\<close>)

lemma zones_ok_reorder:
  assumes ok: "zones_ok s" and ms: "mset ms = mset (members s zn)"
  shows "zones_ok (setMembers zn ms s)"
proof -
  have "set ms = set (members s zn)" using ms by (metis set_mset_mset)
  moreover have "distinct ms" using ms zones_okD(4) [OF ok, of zn] mset_eq_imp_distinct_iff by blast
  ultimately show ?thesis using ok unfolding zones_ok_def by (auto simp: members_setMembers)
qed

lemma members_short:
  assumes "zones_ok s"
  shows "length (members s zn) < 2 ^ 64"
proof -
  have "0 \<notin> set (members s zn)"
  proof
    assume "0 \<in> set (members s zn)"
    then obtain e where "Get s 0 = Some e" using member_known [OF assms] by (auto simp: location_def)
    then show False using zones_okD(6) [OF assms] by auto
  qed
  then have "set (members s zn) \<subset> UNIV" by auto
  then have "card (set (members s zn)) < card (UNIV :: entityID set)" by (intro psubset_card_mono) simp_all
  then show ?thesis using distinct_card [OF zones_okD(4) [OF assms]] by (simp add: card_word)
qed

definition shuffled :: "string \<Rightarrow> random \<Rightarrow> 'k ccg \<Rightarrow> 'k ccg" where
  "shuffled zn r s = setMembers zn (fst (Shuffle r (members s zn))) s"

lemma zoneShuffle_cases:
  "zoneShuffle zn r s =
     (if hasZone s zn then (None, shuffled zn r s, snd (Shuffle r (members s zn)))
      else (Some ErrUnknownZone, s, r))"
  by (auto simp: zoneShuffle_def shuffled_def hasZone_def members_def split_def Let_def split: option.split)

lemma shuffled_members:
  assumes "zones_ok s"
  shows "mset (members (shuffled zn r s) zn') = mset (members s zn')"
    and "length (members (shuffled zn r s) zn') = length (members s zn')"
    and "set (members (shuffled zn r s) zn') = set (members s zn')"
    and "zones_ok (shuffled zn r s)"
proof -
  have m: "mset (fst (Shuffle r (members s zn))) = mset (members s zn)"
    using members_short [OF assms] by (rule mset_Shuffle)
  then show *: "mset (members (shuffled zn r s) zn') = mset (members s zn')" for zn'
    by (simp add: shuffled_def members_setMembers)
  show "length (members (shuffled zn r s) zn') = length (members s zn')"
    "set (members (shuffled zn r s) zn') = set (members s zn')"
    using * [of zn'] by (metis size_mset, metis set_mset_mset)
  show "zones_ok (shuffled zn r s)" unfolding shuffled_def by (rule zones_ok_reorder [OF assms m])
qed

lemma shuffled_frame [simp]:
  "hasZone (shuffled zn r s) = hasZone s"
  "capacityOf (shuffled zn r s) = capacityOf s"
  "location (shuffled zn r s) = location s"
  "IDs (shuffled zn r s) = IDs s"
  "zn' \<noteq> zn \<Longrightarrow> members (shuffled zn r s) zn' = members s zn'"
  by (simp_all add: shuffled_def fun_eq_iff members_setMembers)

end
