(* ===== verification/CcgDecks.thy ===== *)
theory CcgDecks
  imports CcgZones
begin

text \<open>
  Deck lists and their validators (\<open>modules/ccg/decklist.go\<close>), and the properties of the
  composite zone operations: batches, mulligans, deck piles and loading a validated deck.
  The reachable states of a game that drives the zones through the library are described by
  the step relation \<open>zone_step\<close>.
\<close>

section \<open>Deck lists (\<open>decklist.go\<close>)\<close>

type_synonym deckList = "int gomap"

definition Total :: "deckList \<Rightarrow> int" where
  "Total d = foldl (\<lambda>n (k, c). wrap64 (n + c)) 0 d"

definition sortedKeys :: "deckList \<Rightarrow> string list" where
  "sortedKeys d = sort (map fst d)"

definition deckCount :: "deckList \<Rightarrow> string \<Rightarrow> int" where
  "deckCount d k = (case map_of d k of Some c \<Rightarrow> c | None \<Rightarrow> 0)"

text \<open>\<open>make\<close> with a negative capacity panics, so a negative total is \<open>None\<close>.\<close>

definition Cards :: "deckList \<Rightarrow> string list option" where
  "Cards d = (if Total d < 0 then None
              else Some (concat (map (\<lambda>k. replicate (nat (deckCount d k)) k) (sortedKeys d))))"

datatype deckError =
    ErrDeckListMinSize | ErrDeckListMaxSize | ErrDeckListMaxCopies | ErrDeckListUnknownDef
  | ErrDeckListNegativeCnt

datatype deckValidator =
    MinSize int | MaxSize int | MaxCopies int | RequireDefsExist | NonNegativeCounts
  | Compose "deckValidator list"

fun Validate :: "deckValidator \<Rightarrow> deckList \<Rightarrow> catalog option \<Rightarrow> deckError option" where
  "Validate (MinSize n) d c = (if Total d < n then Some ErrDeckListMinSize else None)"
| "Validate (MaxSize n) d c = (if n < Total d then Some ErrDeckListMaxSize else None)"
| "Validate (MaxCopies n) d c =
     (if list_ex (\<lambda>k. n < deckCount d k) (sortedKeys d) then Some ErrDeckListMaxCopies else None)"
| "Validate RequireDefsExist d c =
     (case c of
        None \<Rightarrow> Some ErrDeckListUnknownDef
      | Some cat \<Rightarrow> if list_ex (\<lambda>k. catGet cat k = None) (sortedKeys d) then Some ErrDeckListUnknownDef
                    else None)"
| "Validate NonNegativeCounts d c =
     (if list_ex (\<lambda>k. deckCount d k \<le> 0) (sortedKeys d) then Some ErrDeckListNegativeCnt else None)"
| "Validate (Compose []) d c = None"
| "Validate (Compose (v # vs)) d c =
     (case Validate v d c of Some err \<Rightarrow> Some err | None \<Rightarrow> Validate (Compose vs) d c)"

definition LoadDeckList :: "catalog option \<Rightarrow> deckList \<Rightarrow> string \<Rightarrow> string \<Rightarrow> 'k ccg
    \<Rightarrow> (cerror option \<times> entityID list \<times> 'k ccg) option" where
  "LoadDeckList c d owner zn s =
     (case c of
        None \<Rightarrow> Some (Some ErrUnknownDef, [], s)
      | Some cat \<Rightarrow> map_option (\<lambda>cards. dealEach c owner zn cards s) (Cards d))"

lemma Validate_Compose: "Validate (Compose vs) d c = None \<longleftrightarrow> (\<forall>v \<in> set vs. Validate v d c = None)"
  by (induction vs) (auto split: option.split)

lemma foldl_wrap64:
  "(\<And>c. c \<in> set cs \<Longrightarrow> 0 \<le> c) \<Longrightarrow> 0 \<le> n \<Longrightarrow> n + sum_list cs < 2 ^ 63 \<Longrightarrow>
   foldl (\<lambda>n c. wrap64 (n + c)) n cs = n + sum_list cs"
proof (induction cs arbitrary: n)
  case (Cons c cs)
  have "0 \<le> sum_list cs" using Cons.prems by (intro sum_list_nonneg) simp
  moreover have "0 \<le> c" using Cons.prems by simp
  ultimately have "int64 (n + c)" using Cons.prems(2,3) by (simp add: int64_def)
  then have "wrap64 (n + c) = n + c" by simp
  then show ?case using Cons.IH [of "n + c"] Cons.prems by simp
qed simp

lemma Total_sum:
  assumes "\<And>k c. (k, c) \<in> set d \<Longrightarrow> 0 \<le> c" "sum_list (map snd d) < 2 ^ 63"
  shows "Total d = sum_list (map snd d)"
proof -
  have "Total d = foldl (\<lambda>n c. wrap64 (n + c)) 0 (map snd d)"
    by (simp add: Total_def foldl_map split_def)
  also have "\<dots> = sum_list (map snd d)" using assms by (subst foldl_wrap64) auto
  finally show ?thesis .
qed

lemma length_cards:
  "mwf d \<Longrightarrow> (\<And>k c. (k, c) \<in> set d \<Longrightarrow> 0 \<le> c) \<Longrightarrow>
   int (length (concat (map (\<lambda>k. replicate (nat (deckCount d k)) k) (sortedKeys d)))) = sum_list (map snd d)"
proof -
  assume wf: "mwf d" and pos: "\<And>k c. (k, c) \<in> set d \<Longrightarrow> 0 \<le> c"
  have "length (concat (map (\<lambda>k. replicate (nat (deckCount d k)) k) (sortedKeys d))) =
        sum_list (map (\<lambda>k. nat (deckCount d k)) (sort (map fst d)))"
    by (simp add: length_concat o_def sortedKeys_def)
  also have "\<dots> = sum_list (map (\<lambda>k. nat (deckCount d k)) (map fst d))"
    by (simp only: sum_mset_sum_list [symmetric] mset_map mset_sort)
  also have "\<dots> = sum_list (map (\<lambda>(k, c). nat c) d)"
    using wf by (auto simp: deckCount_def mwf_def o_def split_def intro!: arg_cong [where f = sum_list])
  finally have *: "length (concat (map (\<lambda>k. replicate (nat (deckCount d k)) k) (sortedKeys d))) =
      sum_list (map (\<lambda>(k, c). nat c) d)" .
  have "int (sum_list (map (\<lambda>(k, c). nat c) d)) = sum_list (map snd d)" using pos
    by (induction d) fastforce+
  then show ?thesis by (simp add: *)
qed

lemma count_cards:
  assumes "mwf d"
  shows "count_list (concat (map (\<lambda>k. replicate (nat (deckCount d k)) k) (sortedKeys d))) x = nat (deckCount d x)"
proof -
  have one: "count_list (concat (map (\<lambda>k. replicate (nat (f k)) k) ks)) x = (if x \<in> set ks then nat (f x) else 0)"
    if "distinct ks" for ks :: "string list" and f :: "string \<Rightarrow> int"
    using that by (induction ks) (auto simp: count_mset [symmetric])
  have "x \<notin> set (map fst d) \<Longrightarrow> deckCount d x = 0"
    using map_of_eq_None_iff [of d x] by (simp add: deckCount_def)
  then show ?thesis using one [of "sortedKeys d" "deckCount d"] assms
    by (auto simp: sortedKeys_def mwf_def)
qed

section \<open>Dealing\<close>

definition fresh_for :: "nat \<Rightarrow> 'k ccg \<Rightarrow> bool" where
  "fresh_for n s \<longleftrightarrow> unat (NextEntityID (IDs s)) + n < 2 ^ 64"

lemma fresh_for_left: "fresh_for (Suc n) s \<Longrightarrow> fresh_left s"
proof -
  assume "fresh_for (Suc n) s"
  then have "unat (NextEntityID (IDs s)) \<noteq> 2 ^ 64 - 1" by (auto simp: fresh_for_def)
  moreover have "unat (- 1 :: 64 word) = 2 ^ 64 - 1" by (simp add: unsigned_minus_1_eq_mask mask_eq_exp_minus_1)
  ultimately show ?thesis unfolding fresh_left_def by metis
qed

lemma fresh_for_step:
  "fresh_for (Suc n) s \<Longrightarrow> NextEntityID (IDs s') = NextEntityID (IDs s) + 1 \<Longrightarrow> fresh_for n s'"
  by (simp add: fresh_for_def unat_word_ariths)

lemma place_entity: "Get (snd (MoveTo i to s)) j =
   (if fst (MoveTo i to s) = None \<and> j = i then map_option (setZone to) (Get s j) else Get s j)"
  by (auto simp: MoveTo_cases split: option.splits)

text \<open>The card that \<open>Instantiate\<close> mints from a definition.\<close>

definition stamped :: "cardDef \<Rightarrow> string \<Rightarrow> string \<Rightarrow> entityID \<Rightarrow> entity" where
  "stamped d owner zn i = blankEntity\<lparr>entID := i, entDefID := cdID d, entType := cdType d,
     entOwner := owner, entZone := zn, entAttrs := cdBaseAttrs d\<rparr>"

lemma deal_one:
  assumes ok: "zones_ok s" and fr: "fresh_left s" and z: "hasZone s zn" and r: "room s zn 1"
    and d: "catGet cat d = Some def"
  obtains i s1 s2 where "Instantiate (Some cat) d owner s = (Inr i, s1)" "Add zn i s1 = (None, s2)"
    "zones_ok s2" "i = NextEntityID (IDs s) + 1" "NextEntityID (IDs s2) = i" "Get s i = None"
    "hasZone s2 = hasZone s" "capacityOf s2 = capacityOf s"
    "members s2 = (members s)(zn := members s zn @ [i])"
    "\<And>j. Get s2 j = (if j = i then Some (stamped def owner zn i) else Get s j)"
proof -
  let ?e = "blankEntity\<lparr>entDefID := cdID def, entType := cdType def, entOwner := owner, entAttrs := cdBaseAttrs def\<rparr>"
  let ?i = "NextEntityID (IDs s) + 1" and ?s1 = "snd (mint ?e s)"
  have inst: "Instantiate (Some cat) d owner s = (Inr ?i, ?s1)"
    using mint_frame(1) [of ?e s] by (simp add: Instantiate_def d split_def)
  have ok1: "zones_ok ?s1" using ok fr by (intro zones_ok_mint) (simp_all add: blankEntity_def)
  have e1: "Get ?s1 ?i = Some (?e\<lparr>entID := ?i\<rparr>)" by simp
  have loc: "location ?s1 ?i = Some ''''" by (simp add: location_def blankEntity_def)
  have mv: "movable ?i zn ?s1" using z loc by (simp add: movable_def)
  have "room ?s1 zn 1" using r by (simp add: room_def)
  then have add: "Add zn ?i ?s1 = (None, moved ?i zn ?s1)"
    using MoveTo_moved [OF ok1 mv] loc zones_okD(3) [OF ok1] by (simp add: Add_moved)
  have none: "Get s ?i = None" using mint_fresh [OF ok fr, of ?e] by simp
  have out: "?i \<notin> set (members s zn')" for zn'
    using member_known [OF ok, of ?i zn'] none by (auto simp: location_def)
  have "members (moved ?i zn ?s1) = (members s)(zn := members s zn @ [?i])"
    using moving.move_mem [OF ok1 mv] out by (auto simp: relocate_def fun_eq_iff filter_id_conv)
  moreover have "Get (moved ?i zn ?s1) j = (if j = ?i then Some (stamped def owner zn ?i) else Get s j)" for j
    by (simp add: moved_def e1 stamped_def setZone_def)
  moreover have "NextEntityID (IDs (moved ?i zn ?s1)) = ?i" by (simp add: moved_def e1)
  ultimately show ?thesis
    using that [OF inst add] moving.move_ok [OF ok1 mv] none by simp
qed

lemma dealEach_loads:
  "zones_ok s \<Longrightarrow> fresh_for (length ds) s \<Longrightarrow> hasZone s zn \<Longrightarrow> room s zn (length ds) \<Longrightarrow>
   (\<And>d. d \<in> set ds \<Longrightarrow> catGet cat d \<noteq> None) \<Longrightarrow>
   \<exists>ids s'. dealEach (Some cat) owner zn ds s = (None, ids, s') \<and> zones_ok s' \<and>
     members s' = (members s)(zn := members s zn @ ids) \<and>
     (\<forall>i \<in> set ids. Get s i = None) \<and> (\<forall>i. i \<notin> set ids \<longrightarrow> Get s' i = Get s i) \<and>
     list_all2 (\<lambda>i d. Get s' i = Some (stamped (the (catGet cat d)) owner zn i)) ids ds"
proof (induction ds arbitrary: s)
  case (Cons d ds)
  obtain def where d: "catGet cat d = Some def" using Cons.prems(5) by fastforce
  have r: "room s zn 1" using Cons.prems(4) by (auto simp: room_def)
  have fl: "fresh_left s" using Cons.prems(2) fresh_for_left [of "length ds" s] by simp
  obtain i s1 s2 where i: "Instantiate (Some cat) d owner s = (Inr i, s1)" "Add zn i s1 = (None, s2)"
    "zones_ok s2" "i = NextEntityID (IDs s) + 1" "NextEntityID (IDs s2) = i" "Get s i = None"
    "hasZone s2 = hasZone s" "capacityOf s2 = capacityOf s"
    "members s2 = (members s)(zn := members s zn @ [i])"
    "\<And>j. Get s2 j = (if j = i then Some (stamped def owner zn i) else Get s j)"
    by (rule deal_one [OF Cons.prems(1) fl Cons.prems(3) r d, of owner]) blast
  have room: "room s2 zn (length ds)" using Cons.prems(4) i(8,9) by (simp add: room_def)
  have fresh: "fresh_for (length ds) s2"
    using Cons.prems(2) i(4,5) by (auto intro: fresh_for_step [of "length ds" s])
  have zone: "hasZone s2 zn" using i(7) Cons.prems(3) by simp
  have known: "catGet cat d' \<noteq> None" if "d' \<in> set ds" for d' using Cons.prems(5) that by simp
  obtain ids s' where IH: "dealEach (Some cat) owner zn ds s2 = (None, ids, s')" "zones_ok s'"
    "members s' = (members s2)(zn := members s2 zn @ ids)"
    "\<forall>j \<in> set ids. Get s2 j = None" "\<forall>j. j \<notin> set ids \<longrightarrow> Get s' j = Get s2 j"
    "list_all2 (\<lambda>i d. Get s' i = Some (stamped (the (catGet cat d)) owner zn i)) ids ds"
    using Cons.IH [OF i(3) fresh zone room known] by blast
  have new: "i \<notin> set ids" using IH(4) i(10) [of i] by auto
  show ?case
    using IH i(9,10) d new
    by (intro exI [of _ "i # ids"] exI [of _ s']) (auto simp: i(1,2,6) split: if_splits)
qed simp

section \<open>Capacities\<close>

lemma length_fold_relocate: "zn \<noteq> to \<Longrightarrow> length (fold (\<lambda>i. relocate i to) ids m zn) \<le> length (m zn)"
proof (induction ids arbitrary: m)
  case (Cons i ids)
  have "length (fold (\<lambda>i. relocate i to) ids (relocate i to m) zn) \<le> length (relocate i to m zn)"
    by (rule Cons.IH [OF Cons.prems])
  also have "\<dots> \<le> length (m zn)" using Cons.prems by (simp add: relocate_def)
  finally show ?case by simp
qed simp

lemma caps_ok_moved_all:
  assumes "zones_ok s" "caps_ok s" "hasZone s to" "\<And>i. i \<in> set ids \<Longrightarrow> location s i \<noteq> None"
    "room s to (incoming s to ids)"
  shows "caps_ok (fold (\<lambda>i. moved i to) ids s)"
  unfolding caps_ok_def
proof (intro allI impI)
  fix zn
  let ?s = "fold (\<lambda>i. moved i to) ids s"
  assume c: "0 < capacityOf ?s zn"
  show "int (length (members ?s zn)) \<le> capacityOf ?s zn"
  proof (cases "zn = to")
    case True
    have "length (members ?s to) \<le> length (members s to) + incoming s to ids"
      using assms by (intro length_moved_all) auto
    then show ?thesis using True assms(5) c by (simp add: room_def)
  next
    case False
    then show ?thesis
      using length_fold_relocate [OF False, of ids "members s"] moved_all_ok(2) [OF assms(1,3,4)] assms(2) c
      by (fastforce simp: caps_ok_def)
  qed
qed

lemma caps_ok_mono:
  "caps_ok s \<Longrightarrow> capacityOf s' = capacityOf s \<Longrightarrow>
   (\<And>zn. length (members s' zn) \<le> length (members s zn)) \<Longrightarrow> caps_ok s'"
  unfolding caps_ok_def by (metis order_trans of_nat_mono)

definition placement_ok :: "'k ccg \<Rightarrow> bool" where
  "placement_ok s \<longleftrightarrow> zones_ok s \<and> caps_ok s"

lemma placement_okI: "zones_ok s \<Longrightarrow> caps_ok s \<Longrightarrow> placement_ok s"
  by (simp add: placement_ok_def)

lemma placement_okD: "placement_ok s \<Longrightarrow> zones_ok s" "placement_ok s \<Longrightarrow> caps_ok s"
  by (simp_all add: placement_ok_def)

named_theorems placement_intros \<open>operations that keep a placement consistent\<close>

lemma Transition_placement [placement_intros]: "placement_ok s \<Longrightarrow> placement_ok (snd (Transition ids to s))"
  by (auto simp: placement_ok_def Transition_cases moved_all_ok caps_ok_moved_all)

lemma MoveAllTo_placement [placement_intros]: "placement_ok s \<Longrightarrow> placement_ok (snd (MoveAllTo to from s))"
  using sources_outside [of s _ to "from"] incoming_sources [of s to "from"]
  by (auto simp: placement_ok_def MoveAllTo_cases moved_all_ok caps_ok_moved_all)

lemma MoveTo_placement [placement_intros]: "placement_ok s \<Longrightarrow> placement_ok (snd (MoveTo i to s))"
proof (cases "fst (MoveTo i to s)")
  case None
  assume ok: "placement_ok s"
  from None have "movable i to s" and "location s i = Some to \<or> \<not> full s to"
    and s': "snd (MoveTo i to s) = fold (\<lambda>i. moved i to) [i] s"
    by (auto simp: MoveTo_cases movable_def location_def moved_def split: option.splits if_splits)
  moreover have "room s to (incoming s to [i])"
    using calculation(2) placement_okD(2) [OF ok]
    by (auto simp: room_def incoming_def full_def caps_ok_def)
  ultimately have "zones_ok (fold (\<lambda>i. moved i to) [i] s)" "caps_ok (fold (\<lambda>i. moved i to) [i] s)"
    using placement_okD [OF ok] by (auto simp: movable_def intro!: moved_all_ok caps_ok_moved_all simp del: fold.simps)
  then show ?thesis by (simp add: s' placement_ok_def)
next
  case (Some err)
  assume "placement_ok s"
  moreover from Some have "snd (MoveTo i to s) = s" by (auto simp: MoveTo_cases split: option.splits if_splits)
  ultimately show ?thesis by simp
qed

lemma Add_placement [placement_intros]:
  "placement_ok s \<Longrightarrow> location s i = Some '''' \<Longrightarrow> placement_ok (snd (Add zn i s))"
  using MoveTo_placement [of s i zn] by (simp add: Add_moved placement_okD zones_okD(3))

lemma InsertAt_placement [placement_intros]:
  "placement_ok s \<Longrightarrow> location s i = Some '''' \<Longrightarrow> placement_ok (snd (InsertAt zn i pos s))"
  using zones_ok_InsertAt [of s i zn pos]
  by (auto simp: placement_ok_def InsertAt_cases caps_ok_def full_def members_setMembers split: option.splits)

lemma mint_placement: "placement_ok s \<Longrightarrow> fresh_left s \<Longrightarrow> entZone e = '''' \<Longrightarrow> placement_ok (snd (mint e s))"
  by (simp add: placement_ok_def zones_ok_mint caps_ok_def)

lemma minting_placement [placement_intros]:
  assumes "placement_ok s" "fresh_left s"
  shows "placement_ok (snd (NewEntity t ow attrs s))"
    "placement_ok (snd (Instantiate c d ow s))"
    "placement_ok (snd (Clone i ow ov s))"
  using assms mint_placement [OF assms]
  by (simp_all add: NewEntity_def Instantiate_def Clone_def blankEntity_def split_def split: option.split)

lemma Destroy_placement [placement_intros]: "placement_ok s \<Longrightarrow> placement_ok (Destroy i s)"
  by (auto simp: placement_ok_def zones_ok_Destroy members_Destroy intro: caps_ok_mono)

lemma updEntity_placement:
  "placement_ok s \<Longrightarrow> (\<And>e. entZone (f e) = entZone e) \<Longrightarrow> (\<And>e. entID (f e) = entID e) \<Longrightarrow>
   placement_ok (updEntity f i s)"
  by (auto simp: placement_ok_def zones_ok_updEntity caps_ok_def members_def capacityOf_def)

lemma attrs_placement [placement_intros]:
  assumes "placement_ok s"
  shows "placement_ok (SetAttr i k v s)" "placement_ok (SetController i p s)"
  using assms by (auto simp: SetAttr_def SetController_def entSetAttr_def intro!: updEntity_placement)

lemma NewZone_placement [placement_intros]:
  "placement_ok s \<Longrightarrow> zn \<noteq> '''' \<Longrightarrow> placement_ok (NewZone zn b s)"
  by (simp add: placement_ok_def zones_ok_NewZone caps_ok_def)

lemma Draw_placement [placement_intros]:
  "placement_ok s \<Longrightarrow> Draw zn n s = Some (res, s') \<Longrightarrow> placement_ok s'"
  by (auto simp: placement_ok_def Draw_cases zones_ok_afterDraw members_afterDraw
      intro: caps_ok_mono split: if_splits)

lemma zoneShuffle_placement [placement_intros]:
  "placement_ok s \<Longrightarrow> placement_ok (fst (snd (zoneShuffle zn r s)))"
  by (auto simp: placement_ok_def zoneShuffle_cases shuffled_members intro: caps_ok_mono)

lemma Mulligan_placement [placement_intros]:
  assumes ok: "placement_ok s" and m: "Mulligan hand deck n r s = Some (err, ids, s', r')"
  shows "placement_ok s'"
proof -
  obtain e1 s1 where 1: "MoveAllTo deck [hand] s = (e1, s1)" by (cases "MoveAllTo deck [hand] s")
  obtain e2 s2 r2 where 2: "zoneShuffle deck r s1 = (e2, s2, r2)" by (cases "zoneShuffle deck r s1")
  have s1: "placement_ok s1" using MoveAllTo_placement [OF ok, of deck "[hand]"] 1 by simp
  have s2: "placement_ok s2" using zoneShuffle_placement [OF s1, of deck r] 2 by simp
  have tr: "placement_ok (snd (Transition xs hand s3))" if "Draw deck n s2 = Some (res, s3)" for res s3 xs
    using Draw_placement [OF s2 that] by (rule Transition_placement)
  show ?thesis
    using m s1 s2 tr Draw_placement [OF s2, of deck n]
    by (auto simp: Mulligan_def 1 2 split_def Let_def split: option.splits if_splits sum.splits)
qed

lemma pile_placement [placement_intros]:
  assumes ok: "placement_ok s"
  shows "placement_ok (fst (snd (ReshuffleDiscardIntoDeck p r s)))"
    and "pileDraw p n r s = Some (res, s', r') \<Longrightarrow> placement_ok s'"
    and "Mill p n r s = Some (err, ids, s'', r'') \<Longrightarrow> placement_ok s''"
    and "placement_ok (snd (Discard p xs s))"
proof -
  show reshuffle: "placement_ok (fst (snd (ReshuffleDiscardIntoDeck p r s)))"
    using ok MoveAllTo_placement [OF ok, of "dpDeck p" "[dpDiscard p]"]
      zoneShuffle_placement [of "snd (MoveAllTo (dpDeck p) [dpDiscard p] s)" "dpDeck p" r]
    by (auto simp: ReshuffleDiscardIntoDeck_def split: prod.split option.split)
  show draw: "placement_ok s'" if "pileDraw p n r s = Some (res, s', r')" for res s' r'
    using that ok reshuffle Draw_placement
    by (auto simp: pileDraw_def split: prod.splits option.splits if_splits)
  show "placement_ok (snd (Discard p xs s))" unfolding Discard_def by (rule Transition_placement [OF ok])
  show "placement_ok s''" if "Mill p n r s = Some (err, ids, s'', r'')"
  proof (cases "pileDraw p n r s")
    case (Some x)
    obtain res s1 r1 where x: "x = (res, s1, r1)" by (cases x)
    have "placement_ok s1" using draw Some x by simp
    then show ?thesis using that Transition_placement [of s1]
      by (cases res) (auto simp: Mill_def Some x split_def Let_def)
  qed (use that in \<open>simp add: Mill_def\<close>)
qed

lemma fresh_for_mono: "fresh_for m s \<Longrightarrow> n \<le> m \<Longrightarrow> fresh_for n s"
  by (simp add: fresh_for_def)

lemma dealEach_placement:
  "placement_ok s \<Longrightarrow> fresh_for (length ds + n) s \<Longrightarrow>
   placement_ok (snd (snd (dealEach c ow zn ds s))) \<and> fresh_for n (snd (snd (dealEach c ow zn ds s)))"
proof (induction ds arbitrary: s)
  case (Cons d ds)
  have fl: "fresh_left s" using Cons.prems(2) fresh_for_left [of "length ds + n" s] by simp
  have weak: "fresh_for n s" using Cons.prems(2) by (rule fresh_for_mono) simp
  show ?case
  proof (cases "Instantiate c d ow s")
    case (Pair res s1)
    have s1: "placement_ok s1" using minting_placement(2) [OF Cons.prems(1) fl, of c d ow] Pair by simp
    show ?thesis
    proof (cases res)
      case (Inr i)
      have i: "location s1 i = Some ''''" "NextEntityID (IDs s1) = NextEntityID (IDs s) + 1"
        using Pair Inr by (auto simp: Instantiate_def split_def location_def blankEntity_def split: option.splits)
      obtain e2 s2 where 2: "Add zn i s1 = (e2, s2)" by (cases "Add zn i s1")
      have s2: "placement_ok s2" using Add_placement [OF s1 i(1), of zn] 2 by simp
      have "NextEntityID (IDs s2) = NextEntityID (IDs s1)" using 2
        by (auto simp: Add_def split: option.splits if_splits)
      then have fr: "fresh_for (length ds + n) s2"
        using Cons.prems(2) i(2) by (auto intro: fresh_for_step [of "length ds + n" s])
      then have "fresh_for n s2" by (rule fresh_for_mono) simp
      then show ?thesis using fr Cons.IH [OF s2] s1 s2 by (simp add: Pair Inr 2 split_def Let_def split: option.split)
    next
      case (Inl err)
      then have "s1 = s" using Pair by (auto simp: Instantiate_def split_def split: option.splits)
      then show ?thesis using Pair Inl s1 weak by simp
    qed
  qed
qed simp

lemma Deal_placement [placement_intros]:
  "placement_ok s \<Longrightarrow> fresh_for (length defs * length ps) s \<Longrightarrow>
   placement_ok (snd (snd (Deal c defs ps zoneFor s)))"
proof (induction ps arbitrary: s)
  case (Cons p ps)
  obtain e ids s1 where 1: "dealEach c p (zoneFor p) defs s = (e, ids, s1)"
    by (cases "dealEach c p (zoneFor p) defs s") auto
  have "placement_ok s1 \<and> fresh_for (length defs * length ps) s1"
    using dealEach_placement [OF Cons.prems(1), of defs "length defs * length ps" c p "zoneFor p"] Cons.prems(2) 1
    by (simp add: algebra_simps)
  then show ?case using Cons.IH [of s1] by (simp add: 1 split_def Let_def split: option.split)
qed simp

lemma LoadDeckList_placement [placement_intros]:
  assumes "placement_ok s" "LoadDeckList c d ow zn s = Some (err, ids, s')"
    "\<And>cards. Cards d = Some cards \<Longrightarrow> fresh_for (length cards) s"
  shows "placement_ok s'"
  using assms dealEach_placement [OF assms(1), of _ 0 c ow zn]
  by (fastforce simp: LoadDeckList_def split: option.splits)

section \<open>Reachable placements\<close>

text \<open>The game sets a capacity by writing the field of the zone that \<open>NewZone\<close> returned.\<close>

definition setCapacity :: "string \<Rightarrow> int \<Rightarrow> 'k ccg \<Rightarrow> 'k ccg" where
  "setCapacity zn c s =
     (case map_of (Zones s) zn of
        None \<Rightarrow> s
      | Some z \<Rightarrow> s\<lparr>Zones := mput zn (z\<lparr>zCapacity := c\<rparr>) (Zones s)\<rparr>)"

lemma setCapacity_placement:
  assumes "placement_ok s" "0 < c \<longrightarrow> int (length (members s zn)) \<le> c"
  shows "placement_ok (setCapacity zn c s)"
proof -
  have "members (setCapacity zn c s) = members s" "hasZone (setCapacity zn c s) = hasZone s"
    "location (setCapacity zn c s) = location s" "Get (setCapacity zn c s) = Get s"
    by (auto simp: setCapacity_def placement_defs Get_def fun_eq_iff split: option.split)
  moreover have "mwf (Zones s) \<Longrightarrow> mwf (Zones (setCapacity zn c s))"
    "Entities (setCapacity zn c s) = Entities s" "IDs (setCapacity zn c s) = IDs s"
    by (auto simp: setCapacity_def split: option.split)
  moreover have "capacityOf (setCapacity zn c s) zn' = (if zn' = zn \<and> hasZone s zn then c else capacityOf s zn')" for zn'
    by (auto simp: setCapacity_def capacityOf_def hasZone_def split: option.split)
  ultimately show ?thesis
    using assms by (auto simp: placement_ok_def zones_ok_def caps_ok_def split: if_splits)
qed

text \<open>
  One call of the zone API by a game. \<open>Add\<close> and \<open>InsertAt\<close> are used as documented, on an entity
  that is in no zone; \<open>Remove\<close> on its own is not a step, see below. Capacities are not lowered
  under the current size.
\<close>

inductive zone_step :: "'k ccg \<Rightarrow> 'k ccg \<Rightarrow> bool" where
  new_entity: "fresh_left s \<Longrightarrow> zone_step s (snd (NewEntity t ow attrs s))"
| instantiate: "fresh_left s \<Longrightarrow> zone_step s (snd (Instantiate c d ow s))"
| clone: "fresh_left s \<Longrightarrow> zone_step s (snd (Clone i ow ov s))"
| destroy: "zone_step s (Destroy i s)"
| set_attr: "zone_step s (SetAttr i k v s)"
| set_controller: "zone_step s (SetController i p s)"
| new_zone: "zn \<noteq> '''' \<Longrightarrow> zone_step s (NewZone zn b s)"
| set_capacity: "(0 < c \<longrightarrow> int (length (members s zn)) \<le> c) \<Longrightarrow> zone_step s (setCapacity zn c s)"
| add: "location s i = Some '''' \<Longrightarrow> zone_step s (snd (Add zn i s))"
| insert_at: "location s i = Some '''' \<Longrightarrow> zone_step s (snd (InsertAt zn i pos s))"
| move_to: "zone_step s (snd (MoveTo i to s))"
| draw: "Draw zn n s = Some (res, s') \<Longrightarrow> zone_step s s'"
| shuffle: "zone_step s (fst (snd (zoneShuffle zn r s)))"
| transition: "zone_step s (snd (Transition ids to s))"
| move_all: "zone_step s (snd (MoveAllTo to from s))"
| mulligan: "Mulligan hand deck n r s = Some (err, ids, s', r') \<Longrightarrow> zone_step s s'"
| deal: "fresh_for (length defs * length ps) s \<Longrightarrow> zone_step s (snd (snd (Deal c defs ps zoneFor s)))"
| load: "LoadDeckList c d ow zn s = Some (err, ids, s') \<Longrightarrow>
    (\<And>cards. Cards d = Some cards \<Longrightarrow> fresh_for (length cards) s) \<Longrightarrow> zone_step s s'"
| reshuffle: "zone_step s (fst (snd (ReshuffleDiscardIntoDeck p r s)))"
| pile_draw: "pileDraw p n r s = Some (res, s', r') \<Longrightarrow> zone_step s s'"
| mill: "Mill p n r s = Some (err, ids, s', r') \<Longrightarrow> zone_step s s'"
| discard: "zone_step s (snd (Discard p ids s))"

lemma zone_step_placement: "zone_step s s' \<Longrightarrow> placement_ok s \<Longrightarrow> placement_ok s'"
  by (induction rule: zone_step.induct) (auto intro: placement_intros setCapacity_placement)

lemma NewState_placement: "placement_ok NewState"
  by (simp add: placement_ok_def zones_ok_def caps_ok_def NewState_def placement_defs Get_def)

lemma reachable_placement: "zone_step\<^sup>*\<^sup>* NewState s \<Longrightarrow> placement_ok s"
  by (induction rule: rtranclp_induct) (auto intro: NewState_placement zone_step_placement)

section \<open>Properties\<close>

text \<open>
  C5. In every state a game can reach by driving the zones through the library, the two
  indices agree: an entity is listed by a zone exactly when it exists and names that zone (so
  it is in at most one zone), no zone lists an entity twice, no entity names an undeclared
  zone, and no zone holds more than its capacity.
\<close>

theorem zones_stay_consistent:
  assumes "zone_step\<^sup>*\<^sup>* NewState s"
  shows "(\<forall>zn. distinct (members s zn)) \<and>
     (\<forall>zn i. zn \<noteq> '''' \<longrightarrow> (i \<in> set (members s zn) \<longleftrightarrow> (\<exists>e. Get s i = Some e \<and> entZone e = zn))) \<and>
     (\<forall>i e. Get s i = Some e \<and> entZone e \<noteq> '''' \<longrightarrow> hasZone s (entZone e)) \<and>
     (\<forall>zn z. map_of (Zones s) zn = Some z \<and> 0 < zCapacity z \<longrightarrow> int (length (zMembers z)) \<le> zCapacity z)"
proof (intro conjI allI impI)
  have ok: "zones_ok s" "caps_ok s" using reachable_placement [OF assms] by (rule placement_okD)+
  show "distinct (members s zn)" for zn by (rule zones_okD(4) [OF ok(1)])
  show "i \<in> set (members s zn) \<longleftrightarrow> (\<exists>e. Get s i = Some e \<and> entZone e = zn)" if "zn \<noteq> ''''" for zn i
    using zones_okD(5) [OF ok(1) that, of i] by (auto simp: location_def)
  show "hasZone s (entZone e)" if "Get s i = Some e \<and> entZone e \<noteq> ''''" for i e
    using declared_if_located [OF ok(1), of i "entZone e"] that by (simp add: location_def)
  show "int (length (zMembers z)) \<le> zCapacity z" if "map_of (Zones s) zn = Some z \<and> 0 < zCapacity z" for zn z
    using ok(2) that by (auto simp: caps_ok_def capacityOf_def members_def dest: spec [of _ zn])
qed

definition tableOne :: "unit ccg" where
  "tableOne = snd (MoveTo 1 ''deck'' (snd (NewEntity ''card'' ''0'' None (NewZone ''deck'' True NewState))))"

lemma tableOne_reachable: "zone_step\<^sup>*\<^sup>* NewState tableOne"
proof -
  let ?a = "NewZone ''deck'' True NewState :: unit ccg"
  let ?b = "snd (NewEntity ''card'' ''0'' None ?a)"
  have "zone_step NewState ?a" by (rule new_zone) simp
  then have "zone_step\<^sup>*\<^sup>* NewState ?a" by (rule r_into_rtranclp)
  moreover have "zone_step ?a ?b"
    by (rule new_entity) (simp add: fresh_left_def NewZone_def NewState_def)
  ultimately have "zone_step\<^sup>*\<^sup>* NewState ?b" by (rule rtranclp.rtrancl_into_rtrancl)
  moreover have "zone_step ?b tableOne" unfolding tableOne_def by (rule move_to)
  ultimately show ?thesis by (rule rtranclp.rtrancl_into_rtrancl)
qed


theorem zones_stay_consistent_witness:
  "zone_step\<^sup>*\<^sup>* NewState tableOne \<and> members tableOne ''deck'' = [1] \<and> (\<exists>e. Get tableOne 1 = Some e \<and> entZone e = ''deck'')"
proof -
  have m: "members tableOne ''deck'' = [1]" by code_simp
  have "1 \<in> set (members tableOne ''deck'') \<longleftrightarrow> (\<exists>e. Get tableOne 1 = Some e \<and> entZone e = ''deck'')"
    using zones_stay_consistent [OF tableOne_reachable] by blast
  then show ?thesis using tableOne_reachable m by simp
qed

text \<open>
  C25. Transition is all-or-nothing and does exactly one thing, for distinct ids on a state whose
  zones and entities agree (every card is listed once in the zone it names, and in no other). It
  is refused, with the state unchanged, for an undeclared target, for an unknown entity, or when the
  ids that are not yet in the target would overfill it; otherwise every listed entity is taken out of its zone and
  appended to the target in the order listed, all other members keep their zones and their
  order, and entities change in nothing but the zone they name.
\<close>

theorem Transition_all_or_nothing:
  assumes "zones_ok s" "distinct ids"
  shows "case Transition ids to s of
      (Some err, s') \<Rightarrow> s' = s \<and>
        (if \<not> hasZone s to then err = ErrUnknownZone
         else if \<exists>i \<in> set ids. Get s i = None then err = ErrUnknownEntity
         else err = ErrZoneFull \<and> \<not> room s to (incoming s to ids))
    | (None, s') \<Rightarrow> zones_ok s' \<and> room s to (incoming s to ids) \<and>
        (\<forall>zn. members s' zn =
           filter (\<lambda>i. i \<notin> set ids) (members s zn) @ (if zn = to then ids else [])) \<and>
        (\<forall>i. Get s' i = (if i \<in> set ids then map_option (setZone to) (Get s i) else Get s i))"
proof -
  have ent: "Get (fold (\<lambda>i. moved i to) is s) i = (if i \<in> set is then map_option (setZone to) (Get s i) else Get s i)" for "is" i
    by (induction "is" arbitrary: s) (auto simp: moved_def option.map_comp o_def split: option.split)
  have "members (fold (\<lambda>i. moved i to) ids s) zn =
      filter (\<lambda>i. i \<notin> set ids) (members s zn) @ (if zn = to then ids else [])"
    if "hasZone s to" "\<forall>i \<in> set ids. location s i \<noteq> None" for zn
    using moved_all_ok(2) [OF assms(1), of to ids] that assms(2) by (simp add: fold_relocate)
  moreover have "location s i = None \<longleftrightarrow> Get s i = None" for i by (simp add: location_def)
  ultimately show ?thesis using moved_all_ok(1) [OF assms(1), of to ids] ent
    by (auto simp: Transition_cases [OF assms(1)])
qed

definition tableTwo :: "unit ccg" where
  "tableTwo = setCapacity ''field'' 1 (NewZone ''field'' False tableOne)"

theorem Transition_all_or_nothing_witness:
  "zones_ok tableTwo \<and> distinct [1 :: entityID] \<and> members (snd (Transition [1] ''field'' tableTwo)) ''field'' = [1] \<and>
   members (snd (Transition [1] ''field'' tableTwo)) ''deck'' = []"
proof -
  have "zone_step tableOne (NewZone ''field'' False tableOne)" by (rule new_zone) simp
  then have "placement_ok (NewZone ''field'' False tableOne)"
    using zone_step_placement reachable_placement [OF tableOne_reachable] by blast
  moreover have "members (NewZone ''field'' False tableOne) ''field'' = []" by code_simp
  ultimately have ok: "zones_ok tableTwo"
    unfolding tableTwo_def by (intro placement_okD(1) setCapacity_placement) simp_all
  have t: "fst (Transition [1] ''field'' tableTwo) = None" by code_simp
  have d: "members tableTwo ''deck'' = [1]" "members tableTwo ''field'' = []" by code_simp+
  have d1: "distinct [1 :: entityID]" by simp
  show ?thesis
    using Transition_all_or_nothing [OF ok d1, of "''field''"] ok t d
    by (auto split: prod.splits)
qed

text \<open>
  Without that agreement a batch can fail halfway. Remove leaves the zone an entity names as it was, so a removed card that
  still names the target is not counted as inbound but takes up room: the transition of two
  cards to a bench with room for one reports ErrZoneFull after it has moved the first.
\<close>

definition staleBench :: "unit ccg" where
  "staleBench = snd (Remove ''bench'' 1 (snd (MoveTo 1 ''bench'' (snd (MoveTo 2 ''deck'' (snd (NewEntity ''card'' ''0'' None
     (snd (NewEntity ''card'' ''0'' None (setCapacity ''bench'' 1 (NewZone ''deck'' True (NewZone ''bench'' True NewState))))))))))))"

theorem stale_zone_breaks_transition:
  "members staleBench ''bench'' = [] \<and> fst (Transition [1, 2] ''bench'' staleBench) = Some ErrZoneFull \<and>
   members (snd (Transition [1, 2] ''bench'' staleBench)) ''bench'' = [1]"
  by (intro conjI) code_simp+

lemma location_drawn:
  "zones_ok s \<Longrightarrow> i \<in> set (drawn zn n s) \<Longrightarrow> location (afterDraw zn n s) i = Some ''''"
  by (auto simp: location_afterDraw drawn_def dest!: in_set_takeD member_known)

lemma distinct_drawn: "zones_ok s \<Longrightarrow> distinct (drawn zn n s)"
  by (simp add: drawn_def zones_okD(4))

lemma mset_split_draw: "mset (take n (rev ms)) + mset (take (length ms - n) ms) = mset ms"
proof -
  have "mset (take n (rev ms)) = mset (drop (length ms - n) ms)" by (simp add: take_rev)
  also have "\<dots> + mset (take (length ms - n) ms) = mset (take (length ms - n) ms @ drop (length ms - n) ms)"
    by (simp only: mset_append union_commute)
  finally show ?thesis by simp
qed

text \<open>Sweeping one zone into another leaves the first empty and appends its members in order.\<close>

lemma sweep_one:
  assumes ok: "placement_ok s" and ne: "hand \<noteq> deck" and z: "hasZone s hand" "hasZone s deck"
    and r: "room s deck (length (members s hand))"
  obtains s1 where "MoveAllTo deck [hand] s = (None, s1)" "placement_ok s1"
    "members s1 = (members s)(hand := [], deck := members s deck @ members s hand)"
    "hasZone s1 = hasZone s" "capacityOf s1 = capacityOf s"
proof -
  have ok': "zones_ok s" using ok by (rule placement_okD)
  let ?s1 = "fold (\<lambda>i. moved i deck) (members s hand) s"
  have src: "sources s deck [hand] = members s hand" using ne by (simp add: sources_def)
  have mv: "MoveAllTo deck [hand] s = (None, ?s1)"
    using z r by (simp add: MoveAllTo_cases [OF ok'] src)
  have known: "location s i \<noteq> None" if "i \<in> set (members s hand)" for i
    using member_known [OF ok' that] by simp
  have apart: "filter (\<lambda>x. x \<notin> set (members s hand)) (members s zn) = (if zn = hand then [] else members s zn)" for zn
    using member_unique [OF ok', of _ hand zn] by (auto simp: filter_empty_conv filter_id_conv)
  have "members ?s1 zn = ((members s)(hand := [], deck := members s deck @ members s hand)) zn" for zn
    using moved_all_ok(2) [OF ok' z(2) known] ne by (simp add: fold_relocate zones_okD(4) [OF ok'] apart)
  then show ?thesis
    using that [OF mv] MoveAllTo_placement [OF ok, of deck "[hand]"] mv by (simp add: fun_eq_iff)
qed

text \<open>Drawing \<open>n\<close> cards and putting them into an empty zone with room for them.\<close>

lemma draw_into:
  assumes ok: "placement_ok s" and ne: "hand \<noteq> deck" and z: "hasZone s hand" "hasZone s deck"
    and n: "0 < n" "n \<le> int (length (members s deck))"
    and e: "members s hand = []" and r: "room s hand (nat n)"
  obtains ids s1 s2 where "Draw deck n s = Some (Inr ids, s1)" "Transition ids hand s1 = (None, s2)"
    "placement_ok s2" "length ids = nat n" "ids = take (nat n) (rev (members s deck))"
    "members s2 = (members s)(hand := ids, deck := take (length (members s deck) - nat n) (members s deck))"
proof -
  have ok': "zones_ok s" using ok by (rule placement_okD)
  let ?ids = "drawn deck (nat n) s" and ?s1 = "afterDraw deck (nat n) s"
  have d: "Draw deck n s = Some (Inr ?ids, ?s1)" using n z by (auto simp: Draw_cases)
  have ok1: "zones_ok ?s1" by (rule zones_ok_afterDraw [OF ok'])
  have len: "length ?ids = nat n" using n by (simp add: drawn_def)
  have loc: "location ?s1 i = Some ''''" if "i \<in> set ?ids" for i by (rule location_drawn [OF ok' that])
  have mem1: "members ?s1 = (members s)(deck := take (length (members s deck) - nat n) (members s deck))"
    by (auto simp: members_afterDraw fun_eq_iff)
  have "incoming ?s1 hand ?ids \<le> length ?ids" unfolding incoming_def by (rule length_filter_le)
  then have "incoming ?s1 hand ?ids \<le> nat n" by (simp only: len)
  then have room: "room ?s1 hand (incoming ?s1 hand ?ids)" using r e mem1 ne n(1) by (auto simp: room_def)
  have tr: "Transition ?ids hand ?s1 = (None, fold (\<lambda>i. moved i hand) ?ids ?s1)" (is "_ = (None, ?s2)")
    using loc room z by (auto simp: Transition_cases [OF ok1])
  have out: "filter (\<lambda>x. x \<notin> set ?ids) (members ?s1 zn) = members ?s1 zn" for zn
    using loc member_known [OF ok1, of _ zn] members_no_name [OF ok1] by (fastforce simp: filter_id_conv)
  have "members ?s2 = fold (\<lambda>i. relocate i hand) ?ids (members ?s1)"
    using moved_all_ok(2) [OF ok1, of hand ?ids] loc z by simp
  then have mem2: "members ?s2 zn = members ?s1 zn @ (if zn = hand then ?ids else [])" for zn
    using out by (simp add: fold_relocate distinct_drawn [OF ok'])
  have "members ?s2 = (members s)(hand := ?ids, deck := take (length (members s deck) - nat n) (members s deck))"
    using e ne by (auto simp: mem2 mem1 fun_eq_iff)
  moreover have "placement_ok ?s2"
    using Transition_placement [OF Draw_placement [OF ok d], of ?ids hand] tr by simp
  ultimately show ?thesis using that [OF d tr] len by (simp add: drawn_def)
qed

text \<open>
  A mulligan conserves the player's cards: the old hand is shuffled into the deck, exactly
  \<open>n\<close> cards come back, they are the whole new hand in draw order, hand and deck together hold
  the same cards as before, and no other zone changes.
\<close>

theorem Mulligan_redraws:
  assumes ok: "placement_ok s" and ne: "hand \<noteq> deck" and z: "hasZone s hand" "hasZone s deck"
    and r1: "room s deck (length (members s hand))"
    and n: "0 < n" "n \<le> int (length (members s hand) + length (members s deck))"
    and r2: "0 < capacityOf s hand \<longrightarrow> n \<le> capacityOf s hand"
  shows "\<exists>ids s' r'. Mulligan hand deck n r s = Some (None, ids, s', r') \<and> length ids = nat n \<and>
     members s' hand = ids \<and>
     mset (members s' hand) + mset (members s' deck) = mset (members s hand) + mset (members s deck) \<and>
     (\<forall>zn. zn \<noteq> hand \<and> zn \<noteq> deck \<longrightarrow> members s' zn = members s zn) \<and> placement_ok s'"
proof -
  obtain s1 where s1: "MoveAllTo deck [hand] s = (None, s1)" "placement_ok s1"
    "members s1 = (members s)(hand := [], deck := members s deck @ members s hand)"
    "hasZone s1 = hasZone s" "capacityOf s1 = capacityOf s"
    by (rule sweep_one [OF ok ne z r1])
  let ?s2 = "shuffled deck r s1" and ?r2 = "snd (Shuffle r (members s1 deck))"
  have sh: "zoneShuffle deck r s1 = (None, ?s2, ?r2)" using z s1(4) by (simp add: zoneShuffle_cases)
  have ok2: "placement_ok ?s2" using zoneShuffle_placement [OF s1(2), of deck r] sh by simp
  note sm = shuffled_members [OF placement_okD(1) [OF s1(2)], of deck r]
  have e: "members ?s2 hand = []" using ne s1(3) by simp
  have "mset (members ?s2 deck) = mset (members s deck @ members s hand)"
    using sm(1) [of deck] s1(3) ne by simp
  then have D: "mset (members ?s2 deck) = mset (members s deck) + mset (members s hand)" by simp
  have L: "length (members ?s2 deck) = length (members s deck) + length (members s hand)"
    using sm(2) [of deck] s1(3) ne by simp
  have r3: "room ?s2 hand (nat n)" using e r2 n s1(5) by (auto simp: room_def)
  have z2: "hasZone ?s2 hand" "hasZone ?s2 deck" using z s1(4) by simp_all
  have n2: "n \<le> int (length (members ?s2 deck))" using n(2) L by simp
  obtain ids s3 s4 where d: "Draw deck n ?s2 = Some (Inr ids, s3)" "Transition ids hand s3 = (None, s4)"
    "placement_ok s4" "length ids = nat n" "ids = take (nat n) (rev (members ?s2 deck))"
    "members s4 = (members ?s2)(hand := ids, deck := take (length (members ?s2 deck) - nat n) (members ?s2 deck))"
    by (rule draw_into [OF ok2 ne z2 n(1) n2 e r3])
  have "mset ids + mset (take (length (members ?s2 deck) - nat n) (members ?s2 deck)) = mset (members ?s2 deck)"
    unfolding d(5) by (rule mset_split_draw)
  then have "mset (members s4 hand) + mset (members s4 deck) = mset (members s hand) + mset (members s deck)"
    using ne D by (simp add: d(6) union_commute)
  then show ?thesis using s1(1) sh d ne n(1) s1(3) by (auto simp: Mulligan_def)
qed

theorem Mulligan_redraws_witness:
  "let s = NewZone ''hand'' False tableOne in
   \<exists>ids s' r'. Mulligan ''hand'' ''deck'' 1 (NewRandomFromState 7) s = Some (None, ids, s', r') \<and> length ids = 1"
proof -
  let ?s = "NewZone ''hand'' False tableOne"
  have ok: "placement_ok ?s" using reachable_placement [OF tableOne_reachable] by (rule NewZone_placement) simp
  have "hasZone ?s ''hand''" "hasZone ?s ''deck''" "room ?s ''deck'' (length (members ?s ''hand''))"
    "1 \<le> int (length (members ?s ''hand'') + length (members ?s ''deck''))"
    "0 < capacityOf ?s ''hand'' \<longrightarrow> 1 \<le> capacityOf ?s ''hand''" by code_simp+
  then show ?thesis using Mulligan_redraws [OF ok, of "''hand''" "''deck''" 1 "NewRandomFromState 7"] by (auto simp: Let_def)
qed

lemma Register_keyed:
  "(\<forall>k d. catGet c k = Some d \<longrightarrow> cdID d = k) \<Longrightarrow> (\<forall>k d. catGet (snd (Register def c)) k = Some d \<longrightarrow> cdID d = k)"
  by (auto simp: Register_def catGet_def split: option.split if_splits)

lemma count_loaded:
  "list_all2 (\<lambda>i d. Get s i = Some (stamped (the (catGet cat d)) ow zn i)) ids ds \<Longrightarrow>
   (\<And>k d. catGet cat k = Some d \<Longrightarrow> cdID d = k) \<Longrightarrow> (\<And>d. d \<in> set ds \<Longrightarrow> catGet cat d \<noteq> None) \<Longrightarrow>
   length (filter (\<lambda>i. \<exists>e. Get s i = Some e \<and> entDefID e = k \<and> entOwner e = ow) ids) = count_list ds k"
  by (induction rule: list_all2_induct) (fastforce simp: stamped_def)+

text \<open>
  A deck that passes the validators loads completely. When the counts are positive, every
  definition is registered and the total fits the capacity of the (empty) zone, LoadDeckList
  succeeds; the zone then holds the new cards in the order returned, with exactly the listed
  number of copies of each definition, all owned by the player, and no other zone or entity is
  touched.
\<close>

theorem LoadDeckList_validated:
  assumes v: "Validate (Compose [NonNegativeCounts, RequireDefsExist, MaxSize (capacityOf s zn)]) d (Some cat) = None"
    and keyed: "\<forall>k def. catGet cat k = Some def \<longrightarrow> cdID def = k"
    and ok: "zones_ok s" and z: "hasZone s zn" "members s zn = []"
    and d: "mwf d" "sum_list (map snd d) < 2 ^ 63" and fresh: "fresh_for (nat (Total d)) s"
  shows "\<exists>ids s'. LoadDeckList (Some cat) d owner zn s = Some (None, ids, s') \<and> zones_ok s' \<and>
     members s' = (members s)(zn := ids) \<and> int (length ids) = Total d \<and>
     (\<forall>k. length (filter (\<lambda>i. \<exists>e. Get s' i = Some e \<and> entDefID e = k \<and> entOwner e = owner) ids) =
          nat (deckCount d k)) \<and>
     (\<forall>i. i \<notin> set ids \<longrightarrow> Get s' i = Get s i)"
proof -
  have keys: "set (sortedKeys d) = fst ` set d" by (simp add: sortedKeys_def)
  have vs: "\<forall>k \<in> fst ` set d. 0 < deckCount d k" "\<forall>k \<in> fst ` set d. catGet cat k \<noteq> None"
    "Total d \<le> capacityOf s zn"
    using v by (auto simp: list_ex_iff keys split: if_splits option.splits)
  have pos: "0 \<le> c" if "(k, c) \<in> set d" for k c
  proof -
    have "map_of d k = Some c" using d(1) that by (simp add: mwf_def)
    moreover have "k \<in> fst ` set d" using that by force
    ultimately show ?thesis using vs(1) by (force simp: deckCount_def)
  qed
  let ?cards = "concat (map (\<lambda>k. replicate (nat (deckCount d k)) k) (sortedKeys d))"
  have tot: "Total d = sum_list (map snd d)" using pos d(2) by (rule Total_sum)
  have len: "int (length ?cards) = Total d" using length_cards [OF d(1) pos] tot by simp
  then have cards: "Cards d = Some ?cards" by (auto simp: Cards_def)
  have known: "catGet cat k \<noteq> None" if "k \<in> set ?cards" for k using that vs(2) keys by auto
  have "nat (Total d) = length ?cards" using len by linarith
  then have fr: "fresh_for (length ?cards) s" using fresh by simp
  have rm: "room s zn (length ?cards)" using z(2) len vs(3) by (simp add: room_def)
  obtain ids s' where l: "dealEach (Some cat) owner zn ?cards s = (None, ids, s')" "zones_ok s'"
    "members s' = (members s)(zn := members s zn @ ids)" "\<forall>i. i \<notin> set ids \<longrightarrow> Get s' i = Get s i"
    "list_all2 (\<lambda>i d. Get s' i = Some (stamped (the (catGet cat d)) owner zn i)) ids ?cards"
    using dealEach_loads [OF ok fr z(1) rm known] by blast
  have "length ids = length ?cards" using l(5) by (rule list_all2_lengthD)
  moreover have "length (filter (\<lambda>i. \<exists>e. Get s' i = Some e \<and> entDefID e = k \<and> entOwner e = owner) ids) = nat (deckCount d k)" for k
    using count_loaded [OF l(5) _ known, of k] keyed count_cards [OF d(1), of k] by simp
  ultimately show ?thesis using l(1-4) z(2) len by (simp add: LoadDeckList_def cards)
qed

definition goblinCatalog :: catalog where
  "goblinCatalog = snd (Register \<lparr>cdID = ''goblin'', cdType = ''creature'', cdBaseAttrs = None\<rparr> NewCatalog)"

theorem LoadDeckList_validated_witness:
  "let s = setCapacity ''deck'' 4 (NewZone ''deck'' True (NewState :: unit ccg)) in
   \<exists>ids s'. LoadDeckList (Some goblinCatalog) [(''goblin'', 2)] ''0'' ''deck'' s = Some (None, ids, s') \<and>
     members s' ''deck'' = ids \<and> int (length ids) = Total [(''goblin'', 2)]"
proof -
  let ?s = "setCapacity ''deck'' 4 (NewZone ''deck'' True (NewState :: unit ccg))"
  have "zones_ok ?s"
    by (intro placement_okD(1) setCapacity_placement NewZone_placement NewState_placement) (simp_all add: placement_defs NewState_def)
  moreover have "capacityOf ?s ''deck'' = 4" "hasZone ?s ''deck''" "members ?s ''deck'' = []"
    "NextEntityID (IDs ?s) = 0" "catGet goblinCatalog ''goblin'' \<noteq> None" by code_simp+
  moreover have "Total [(''goblin'', 2)] = 2" by (simp add: Total_def int64_def)
  moreover have "mwf [(''goblin'', 2 :: int)]" "sum_list (map snd [(''goblin'', 2 :: int)]) < 2 ^ 63"
    by (simp_all add: mwf_def)
  moreover have "\<forall>k def. catGet goblinCatalog k = Some def \<longrightarrow> cdID def = k"
    by (auto simp: goblinCatalog_def NewCatalog_def Register_def catGet_def split: if_splits)
  ultimately show ?thesis
    using LoadDeckList_validated [of ?s "''deck''" "[(''goblin'', 2)]" goblinCatalog "''0''"]
    by (force simp: Let_def sortedKeys_def deckCount_def fresh_for_def)
qed

text \<open>
  A deck list whose counts add up to less than zero makes LoadDeckList panic: Cards
  allocates its result with the total as capacity before it skips the entries that are not
  positive. (The documentation says that entries with a count of at most 0 are skipped.)
\<close>

theorem LoadDeckList_negative_panics:
  "LoadDeckList (Some cat) [(''goblin'', - 1)] owner zn s = None \<and>
   Validate (MaxSize 60) [(''goblin'', - 1)] (Some cat) = None"
  by (simp add: LoadDeckList_def Cards_def Total_def wrap64_def)

text \<open>
  Taking a card out of a full zone with Remove, putting another one in and moving the
  first one back overfills the zone: Remove leaves the entity naming the zone it left, and
  MoveTo skips the capacity check for an entity that already names the target.
\<close>

theorem Remove_lets_MoveTo_overfill:
  "let s0 = setCapacity ''field'' 1 (NewZone ''field'' False (NewState :: unit ccg));
       s1 = snd (NewEntity ''b'' '''' None (snd (NewEntity ''a'' '''' None s0)));
       (e1, s2) = Add ''field'' 1 s1; (e2, s3) = Remove ''field'' 1 s2;
       (e3, s4) = Add ''field'' 2 s3; (e4, s5) = MoveTo 1 ''field'' s4
   in [e1, e2, e3, e4] = [None, None, None, None] \<and> capacityOf s5 ''field'' = 1 \<and>
      members s5 ''field'' = [2, 1] \<and> fst (Add ''field'' 1 s4) = Some ErrZoneFull"
  by code_simp


end
