(* ===== verification/CcgBus.thy ===== *)
theory CcgBus
  imports CcgDecks
begin

text \<open>
  The event bus of the card-game module and what is built on it: subscriptions and their
  dispatch (\<open>modules/ccg/event.go\<close>), abilities that unbind themselves when their entity leaves
  its zones (ability.go), and counters (counters.go).

  Handlers are game code: \<open>runHandler\<close> gives the state a handler leaves behind, or \<open>None\<close> when
  it panics or never returns; a handler that publishes further events is a function like any
  other. Predicates are pure. Counter arithmetic wraps at 64 bits.
\<close>

record 'k busCode =
  runPredicate :: "'k \<Rightarrow> cevent \<Rightarrow> bool"
  runHandler :: "'k \<Rightarrow> 'k ccg \<Rightarrow> cevent \<Rightarrow> 'k ccg option"

section \<open>Subscriptions (\<open>event.go\<close>)\<close>

definition Subscribe :: "'k eventPredicate option \<Rightarrow> 'k eventHandler \<Rightarrow> 'k ccg \<Rightarrow> 64 word \<times> 'k ccg" where
  "Subscribe p h s =
     (let i = NextSubID (IDs s) + 1
      in (i, s\<lparr>IDs := (IDs s)\<lparr>NextSubID := i\<rparr>,
              subs := subs s @ [\<lparr>subID = i, subPredicate = p, subHandler = h\<rparr>]\<rparr>))"

definition Unsubscribe :: "64 word \<Rightarrow> 'k ccg \<Rightarrow> 'k ccg" where
  "Unsubscribe i s =
     (case find_index (\<lambda>sub. subID sub = i) (subs s) of
        Some j \<Rightarrow> s\<lparr>subs := remove_at j (subs s)\<rparr>
      | None \<Rightarrow> s)"

definition MaxEventHistory :: nat where
  "MaxEventHistory = 256"

fun matches :: "'k busCode \<Rightarrow> 'k eventPredicate option \<Rightarrow> cevent \<Rightarrow> bool" where
  "matches code None ev = True"
| "matches code (Some (MatchType t)) ev = (cevType ev = t)"
| "matches code (Some (MatchTypeAndSource t src)) ev = (cevType ev = t \<and> cevSource ev = src)"
| "matches code (Some (GamePredicate k)) ev = runPredicate code k ev"

section \<open>Abilities (\<open>ability.go\<close>)\<close>

definition UnbindAbility :: "64 word \<Rightarrow> 'k ccg \<Rightarrow> 'k ccg" where
  "UnbindAbility i s =
     (case find_index (\<lambda>a. abID a = i) (abilities s) of
        Some j \<Rightarrow> (let s' = Unsubscribe (abSub (abilities s ! j)) s
                   in s'\<lparr>abilities := remove_at j (abilities s')\<rparr>)
      | None \<Rightarrow> s)"

definition BindAbility :: "entityID \<Rightarrow> string list \<Rightarrow> 'k eventPredicate option \<Rightarrow> 'k \<Rightarrow> 'k ccg
    \<Rightarrow> 64 word \<times> 'k ccg" where
  "BindAbility ent zones p h s =
     (let aid = NextAbilityID (IDs s) + 1;
          s = s\<lparr>IDs := (IDs s)\<lparr>NextAbilityID := aid\<rparr>\<rparr>;
          (sid, s) = Subscribe p (AbilityHandler aid ent zones h) s
      in (aid, s\<lparr>abilities := abilities s @ [\<lparr>abID = aid, abEntity = ent, abZones = zones, abSub = sid\<rparr>]\<rparr>))"

fun handle :: "'k busCode \<Rightarrow> 'k eventHandler \<Rightarrow> 'k ccg \<Rightarrow> cevent \<Rightarrow> 'k ccg option" where
  "handle code (GameHandler h) s ev = runHandler code h s ev"
| "handle code (AbilityHandler aid ent zones h) s ev =
     (case Get s ent of
        None \<Rightarrow> Some (UnbindAbility aid s)
      | Some e \<Rightarrow> if list_ex (\<lambda>z. entZone e = z) zones then runHandler code h s ev
                  else Some (UnbindAbility aid s))"

section \<open>Publishing\<close>

definition remember :: "cevent \<Rightarrow> 'k ccg \<Rightarrow> 'k ccg" where
  "remember ev s =
     (let evs = BusEvents s @ [ev]
      in s\<lparr>BusEvents := (if MaxEventHistory < length evs then drop (length evs - MaxEventHistory) evs
                         else evs)\<rparr>)"

text \<open>The loop over the snapshot of the subscribers.\<close>

fun dispatch :: "'k busCode \<Rightarrow> 'k subscription list \<Rightarrow> cevent \<Rightarrow> 'k ccg \<Rightarrow> 'k ccg option" where
  "dispatch code [] ev s = Some s"
| "dispatch code (sub # rest) ev s =
     (if matches code (subPredicate sub) ev
      then (case handle code (subHandler sub) s ev of
              None \<Rightarrow> None
            | Some s' \<Rightarrow> dispatch code rest ev s')
      else dispatch code rest ev s)"

definition Publish :: "'k busCode \<Rightarrow> cevent \<Rightarrow> 'k ccg \<Rightarrow> 'k ccg option" where
  "Publish code ev s = (let s = remember ev s in dispatch code (subs s) ev s)"

section \<open>Counters (\<open>counters.go\<close>)\<close>

definition EventCounterChanged :: string where
  "EventCounterChanged = ''counter_changed''"

definition coerceCounters :: "(string \<times> goval) list \<Rightarrow> int gomap" where
  "coerceCounters m = List.map_filter (\<lambda>(k, v). map_option (Pair k) (counterToInt v)) m"

definition readCountersFromAttrs :: "goval gomap option \<Rightarrow> int gomap option" where
  "readCountersFromAttrs attrs =
     (case mget attrs CountersAttrKey of
        Some (VIntMap m) \<Rightarrow> Some m
      | Some (VMap m) \<Rightarrow> Some (coerceCounters m)
      | _ \<Rightarrow> None)"

text \<open>Reading a missing key of a Go map gives 0.\<close>

definition counterIn :: "int gomap option \<Rightarrow> string \<Rightarrow> int" where
  "counterIn m kind = (case mget m kind of Some n \<Rightarrow> n | None \<Rightarrow> 0)"

definition Counters :: "'k ccg \<Rightarrow> entityID \<Rightarrow> string \<Rightarrow> int" where
  "Counters s i kind =
     (case Get s i of None \<Rightarrow> 0 | Some e \<Rightarrow> counterIn (readCountersFromAttrs (entAttrs e)) kind)"

definition AllCounters :: "'k ccg \<Rightarrow> entityID \<Rightarrow> int gomap option" where
  "AllCounters s i =
     (case Get s i of
        None \<Rightarrow> None
      | Some e \<Rightarrow> (case readCountersFromAttrs (entAttrs e) of
                     None \<Rightarrow> None
                   | Some m \<Rightarrow> if m = [] then None else Some m))"

definition writeCounters :: "int gomap \<Rightarrow> entity \<Rightarrow> entity" where
  "writeCounters m e =
     (let attrs = (case entAttrs e of None \<Rightarrow> [] | Some a \<Rightarrow> a)
      in e\<lparr>entAttrs := Some (if m = [] then mdel CountersAttrKey attrs
                             else mput CountersAttrKey (VIntMap m) attrs)\<rparr>)"

definition counterEvent :: "entityID \<Rightarrow> string \<Rightarrow> int \<Rightarrow> int \<Rightarrow> cevent" where
  "counterEvent i kind applied after =
     \<lparr>cevType = EventCounterChanged, cevSource = i, cevTarget = 0,
      cevData = Some [(''kind'', VStr kind), (''delta'', VI applied), (''total_after'', VI after)]\<rparr>"

definition changeCounter :: "'k busCode \<Rightarrow> entityID \<Rightarrow> string \<Rightarrow> int \<Rightarrow> bool \<Rightarrow> 'k ccg \<Rightarrow> 'k ccg option" where
  "changeCounter code i kind signedDelta allowNegative s =
     (case Get s i of
        None \<Rightarrow> Some s
      | Some e \<Rightarrow>
          (let current = (case readCountersFromAttrs (entAttrs e) of None \<Rightarrow> [] | Some m \<Rightarrow> m);
               before = counterIn (Some current) kind;
               after = wrap64 (before + signedDelta);
               after = (if after < 0 \<and> \<not> allowNegative then 0 else after);
               applied = wrap64 (after - before)
           in if applied = 0 then Some s
              else (let current = (if after = 0 then mdel kind current else mput kind after current)
                    in Publish code (counterEvent i kind applied after)
                         (storeEntity i (writeCounters current e) s))))"

definition AddCounter :: "'k busCode \<Rightarrow> entityID \<Rightarrow> string \<Rightarrow> int \<Rightarrow> 'k ccg \<Rightarrow> 'k ccg option" where
  "AddCounter code i kind n s = changeCounter code i kind n False s"

definition AddCounterSigned :: "'k busCode \<Rightarrow> entityID \<Rightarrow> string \<Rightarrow> int \<Rightarrow> 'k ccg \<Rightarrow> 'k ccg option" where
  "AddCounterSigned code i kind n s = changeCounter code i kind n True s"

definition RemoveCounter :: "'k busCode \<Rightarrow> entityID \<Rightarrow> string \<Rightarrow> int \<Rightarrow> 'k ccg \<Rightarrow> 'k ccg option" where
  "RemoveCounter code i kind n s =
     (if n < 0 then Some s else changeCounter code i kind (wrap64 (- n)) False s)"

definition TransferCounters :: "'k busCode \<Rightarrow> entityID \<Rightarrow> entityID \<Rightarrow> string \<Rightarrow> int \<Rightarrow> 'k ccg
    \<Rightarrow> (cerror option \<times> 'k ccg) option" where
  "TransferCounters code from to kind n s =
     (if n \<le> 0 then Some (None, s)
      else case Get s from of
        None \<Rightarrow> Some (Some ErrUnknownEntity, s)
      | Some fe \<Rightarrow>
          (if Get s to = None then Some (Some ErrUnknownEntity, s)
           else if from = to then Some (None, s)
           else if counterIn (readCountersFromAttrs (entAttrs fe)) kind < n
                then Some (Some ErrInsufficientCounters, s)
           else do {
             s \<leftarrow> changeCounter code from kind (wrap64 (- n)) False s;
             s \<leftarrow> changeCounter code to kind n False s;
             Some (None, s)
           }))"

section \<open>What dispatch preserves\<close>

text \<open>
  A property of the state that recording an event and dropping an ability keep is kept by
  every operation that publishes, provided the game's own handlers keep it.
\<close>

definition handlers_keep :: "('k ccg \<Rightarrow> bool) \<Rightarrow> 'k busCode \<Rightarrow> bool" where
  "handlers_keep I code \<longleftrightarrow> (\<forall>h s ev s'. runHandler code h s ev = Some s' \<longrightarrow> I s \<longrightarrow> I s')"

definition handlers_return :: "'k busCode \<Rightarrow> bool" where
  "handlers_return code \<longleftrightarrow> (\<forall>h s ev. runHandler code h s ev \<noteq> None)"

locale bus_invariant =
  fixes I :: "'k ccg \<Rightarrow> bool"
  assumes remember_keeps: "I s \<Longrightarrow> I (remember ev s)"
    and unbind_keeps: "I s \<Longrightarrow> I (UnbindAbility a s)"
begin

lemma handle_keeps: "handlers_keep I code \<Longrightarrow> I s \<Longrightarrow> handle code h s ev = Some s' \<Longrightarrow> I s'"
  by (cases h) (auto simp: handlers_keep_def unbind_keeps split: option.splits if_splits)

lemma dispatch_keeps: "handlers_keep I code \<Longrightarrow> I s \<Longrightarrow> dispatch code ss ev s = Some s' \<Longrightarrow> I s'"
  by (induction ss arbitrary: s) (auto split: if_splits option.splits dest: handle_keeps)

lemma Publish_keeps: "handlers_keep I code \<Longrightarrow> I s \<Longrightarrow> Publish code ev s = Some s' \<Longrightarrow> I s'"
  by (auto simp: Publish_def Let_def intro: dispatch_keeps remember_keeps)

end

lemma dispatch_returns: "handlers_return code \<Longrightarrow> dispatch code ss ev s \<noteq> None"
proof (induction ss arbitrary: s)
  case (Cons sub ss)
  have "handle code (subHandler sub) s ev \<noteq> None"
    using Cons.prems by (cases "subHandler sub") (auto simp: handlers_return_def split: option.split)
  then show ?case using Cons by (auto split: option.splits)
qed simp

lemma Publish_returns: "handlers_return code \<Longrightarrow> \<exists>s'. Publish code ev s = Some s'"
  using dispatch_returns [of code] by (simp add: Publish_def Let_def)


lemma remember_frame [simp]:
  "Entities (remember ev s) = Entities s" "Zones (remember ev s) = Zones s" "IDs (remember ev s) = IDs s"
  "Modifiers (remember ev s) = Modifiers s" "PendingEffects (remember ev s) = PendingEffects s"
  "StagedTriggers (remember ev s) = StagedTriggers s" "subs (remember ev s) = subs s"
  "abilities (remember ev s) = abilities s"
  by (simp_all add: remember_def Let_def)

lemma unbind_frame [simp]:
  "Entities (UnbindAbility a s) = Entities s" "Zones (UnbindAbility a s) = Zones s"
  "IDs (UnbindAbility a s) = IDs s" "Modifiers (UnbindAbility a s) = Modifiers s"
  "PendingEffects (UnbindAbility a s) = PendingEffects s" "StagedTriggers (UnbindAbility a s) = StagedTriggers s"
  "BusEvents (UnbindAbility a s) = BusEvents s"
  by (simp_all add: UnbindAbility_def Unsubscribe_def Let_def split: option.split)

lemma placement_ok_cong:
  "Entities s' = Entities s \<Longrightarrow> Zones s' = Zones s \<Longrightarrow> IDs s' = IDs s \<Longrightarrow> placement_ok s' = placement_ok s"
  by (simp add: placement_ok_def zones_ok_def caps_ok_def placement_defs Get_def)

interpretation entities: bus_invariant "\<lambda>s. Entities s = E" for E
  by unfold_locales simp_all

interpretation history: bus_invariant "\<lambda>s. length (BusEvents s) \<le> MaxEventHistory"
  by unfold_locales (simp_all add: remember_def Let_def MaxEventHistory_def)

interpretation placement: bus_invariant placement_ok
  by unfold_locales (simp_all add: placement_ok_cong [of "remember _ s" s for s]
      placement_ok_cong [of "UnbindAbility _ s" s for s])

section \<open>Counters\<close>

definition setCounter :: "entityID \<Rightarrow> string \<Rightarrow> int \<Rightarrow> 'k ccg \<Rightarrow> 'k ccg" where
  "setCounter i kind v s =
     (case Get s i of
        None \<Rightarrow> s
      | Some e \<Rightarrow>
          (let m = (case readCountersFromAttrs (entAttrs e) of None \<Rightarrow> [] | Some m \<Rightarrow> m)
           in storeEntity i (writeCounters (if v = 0 then mdel kind m else mput kind v m) e) s))"

lemma read_writeCounters [simp]:
  "readCountersFromAttrs (entAttrs (writeCounters m e)) = (if m = [] then None else Some m)"
  by (simp add: writeCounters_def Let_def readCountersFromAttrs_def)

lemma counterIn_simps [simp]:
  "counterIn None k = 0"
  "counterIn (Some []) k = 0"
  "counterIn (Some (mput k v m)) j = (if j = k then v else counterIn (Some m) j)"
  "counterIn (Some (mdel k m)) j = (if j = k then 0 else counterIn (Some m) j)"
  by (simp_all add: counterIn_def)

lemma counterIn_default: "counterIn (Some (case m of None \<Rightarrow> [] | Some m \<Rightarrow> m)) k = counterIn m k"
  by (cases m) simp_all

lemma counterIn_write: "counterIn (if m = [] then None else Some m) k = counterIn (Some m) k"
  by simp

lemma Counters_setCounter:
  "Get s i \<noteq> None \<Longrightarrow>
   Counters (setCounter i kind v s) j k = (if j = i \<and> k = kind then v else Counters s j k)"
  by (auto simp: setCounter_def Counters_def Let_def counterIn_write counterIn_default)

definition counterAfter :: "bool \<Rightarrow> int \<Rightarrow> int \<Rightarrow> int" where
  "counterAfter neg before n =
     (let after = wrap64 (before + n) in if after < 0 \<and> \<not> neg then 0 else after)"

lemma changeCounter_eq:
  assumes "Get s i \<noteq> None"
  shows "changeCounter code i kind n neg s =
    (let before = Counters s i kind; after = counterAfter neg before n; applied = wrap64 (after - before)
     in if applied = 0 then Some s
        else Publish code (counterEvent i kind applied after) (setCounter i kind after s))"
  using assms
  by (auto simp: changeCounter_def setCounter_def Counters_def counterAfter_def Let_def counterIn_default)

lemma wrap64_diff_zero: "int64 a \<Longrightarrow> int64 b \<Longrightarrow> wrap64 (a - b) = 0 \<longleftrightarrow> a = b"
proof
  assume ab: "int64 a" "int64 b" and "wrap64 (a - b) = 0"
  then have "(a - b + 2 ^ 63) mod 2 ^ 64 = 2 ^ 63 mod (2 ^ 64 :: int)" by (simp add: wrap64_def)
  then have "(2 ^ 64 :: int) dvd a - b" by (simp only: mod_eq_dvd_iff add_diff_cancel_right')
  moreover have "\<bar>a - b\<bar> < 2 ^ 64" using ab by (auto simp: int64_def abs_if)
  ultimately show "a = b" using dvd_imp_le_int [of "a - b" "2 ^ 64"] by (cases "a = b") auto
qed (simp add: wrap64_def)

lemma counterAfter_exact:
  "int64 (before + n) \<Longrightarrow> counterAfter neg before n = (if neg then before + n else max 0 (before + n))"
  by (simp add: counterAfter_def Let_def)

lemma counterAfter_int64: "int64 (counterAfter neg before n)"
  using int64_wrap64 [of "before + n"] by (simp add: counterAfter_def Let_def int64_def)

text \<open>Handlers that leave the entities alone: they may read, log, stage triggers or push effects.\<close>

definition quiet :: "'k busCode \<Rightarrow> bool" where
  "quiet code \<longleftrightarrow> handlers_return code \<and> (\<forall>E. handlers_keep (\<lambda>s. Entities s = E) code)"

lemma Publish_quiet:
  assumes "quiet code"
  obtains s' where "Publish code ev s = Some s'" "Entities s' = Entities s"
  using assms Publish_returns [of code ev s] entities.Publish_keeps [of "Entities s" code s ev]
  unfolding quiet_def by blast

lemma Counters_cong: "Entities s' = Entities s \<Longrightarrow> Counters s' = Counters s"
  by (simp add: Counters_def Get_def fun_eq_iff)

lemma changeCounter_quiet:
  assumes q: "quiet code" and known: "Get s i \<noteq> None" and b: "int64 (Counters s i kind)"
  obtains s' where "changeCounter code i kind n neg s = Some s'"
    "\<And>j k. Counters s' j k = (if j = i \<and> k = kind then counterAfter neg (Counters s i kind) n else Counters s j k)"
    "\<And>j. (Get s' j = None) = (Get s j = None)"
proof (cases "counterAfter neg (Counters s i kind) n = Counters s i kind")
  case True
  then show ?thesis using that [of s] by (simp add: changeCounter_eq [OF known] wrap64_def)
next
  case False
  let ?after = "counterAfter neg (Counters s i kind) n"
  let ?applied = "wrap64 (?after - Counters s i kind)"
  have "?applied \<noteq> 0" using False wrap64_diff_zero [OF counterAfter_int64 b] by simp
  moreover obtain s' where s': "Publish code (counterEvent i kind ?applied ?after) (setCounter i kind ?after s) = Some s'"
    "Entities s' = Entities (setCounter i kind ?after s)" using q by (rule Publish_quiet)
  ultimately show ?thesis
    using that [of s'] Counters_cong [OF s'(2)] Counters_setCounter [OF known, of kind ?after] known
    by (auto simp: changeCounter_eq [OF known] Let_def Get_def s' setCounter_def storeEntity_def split: option.splits)
qed

text \<open>
  AddCounter adds exactly \<open>n\<close>, floored at 0, to one counter of one entity and leaves every
  other counter of every entity as it was, as long as the handlers of the bus return and keep
  the entities, and the sum fits 64 bits.
\<close>

theorem AddCounter_adds:
  assumes "quiet code" "Get s i \<noteq> None" "int64 (Counters s i kind)" "int64 (Counters s i kind + n)"
  shows "\<exists>s'. AddCounter code i kind n s = Some s' \<and>
     (\<forall>j k. Counters s' j k = (if j = i \<and> k = kind then max 0 (Counters s i kind + n) else Counters s j k))"
  using changeCounter_quiet [OF assms(1-3), of n False] assms(4)
  by (metis AddCounter_def counterAfter_exact)

text \<open>
  TransferCounters is all-or-nothing: on any error the state is untouched; otherwise exactly
  \<open>n\<close> counters leave the source, the target has what it had plus \<open>n\<close>, but at least 0, and no other
  counter changes. So the total is conserved unless the target was negative before, which
  AddCounterSigned allows.
\<close>

theorem TransferCounters_exact:
  assumes q: "quiet code" and n: "0 < n" "int64 n" and ne: "from \<noteq> to"
    and b: "int64 (Counters s from kind)" "int64 (Counters s to kind)" "int64 (Counters s to kind + n)"
  shows "if Get s from = None \<or> Get s to = None then TransferCounters code from to kind n s = Some (Some ErrUnknownEntity, s)
    else if Counters s from kind < n then TransferCounters code from to kind n s = Some (Some ErrInsufficientCounters, s)
    else \<exists>s'. TransferCounters code from to kind n s = Some (None, s') \<and>
       (\<forall>j k. Counters s' j k = (if k = kind \<and> j = to then max 0 (Counters s to kind + n)
          else if k = kind \<and> j = from then Counters s from kind - n else Counters s j k))"
proof (cases "Get s from = None \<or> Get s to = None \<or> Counters s from kind < n")
  case True
  then show ?thesis using n ne by (auto simp: TransferCounters_def Counters_def split: option.split)
next
  case False
  then have known: "Get s from \<noteq> None" "Get s to \<noteq> None" and enough: "n \<le> Counters s from kind" by auto
  have w: "wrap64 (- n) = - n" using n by (intro wrap64_id) (simp add: int64_def)
  obtain s1 where s1: "changeCounter code from kind (- n) False s = Some s1"
    "\<And>j k. Counters s1 j k = (if j = from \<and> k = kind then counterAfter False (Counters s from kind) (- n) else Counters s j k)"
    "\<And>j. (Get s1 j = None) = (Get s j = None)"
    by (rule changeCounter_quiet [OF q known(1) b(1), of "- n" False]) blast
  have "int64 (Counters s from kind - n)" using enough n b(1) by (simp add: int64_def)
  then have c1: "Counters s1 from kind = Counters s from kind - n"
    using enough s1(2) [of "from" kind] by (simp add: counterAfter_exact)
  have c2: "Counters s1 to kind = Counters s to kind" using s1(2) [of to kind] ne by simp
  have "int64 (Counters s1 to kind)" unfolding c2 using b n by (simp add: int64_def)
  then obtain s2 where s2: "changeCounter code to kind n False s1 = Some s2"
    "\<And>j k. Counters s2 j k = (if j = to \<and> k = kind then counterAfter False (Counters s1 to kind) n else Counters s1 j k)"
    using changeCounter_quiet [OF q, of s1 to kind n False] known(2) s1(3) by metis
  have "counterAfter False (Counters s1 to kind) n = max 0 (Counters s to kind + n)"
    unfolding c2 using counterAfter_exact [OF b(3)] by simp
  then have "Counters s2 j k = (if k = kind \<and> j = to then max 0 (Counters s to kind + n)
      else if k = kind \<and> j = from then Counters s from kind - n else Counters s j k)" for j k
    using s2(2) [of j k] s1(2) [of j k] c1 ne by auto
  moreover have "TransferCounters code from to kind n s = Some (None, s2)"
    using n ne known enough s1(1) s2(1) by (auto simp: TransferCounters_def w Counters_def)
  ultimately show ?thesis using known enough by simp
qed

definition passiveCode :: "unit busCode" where
  "passiveCode = \<lparr>runPredicate = (\<lambda>_ _. True), runHandler = (\<lambda>_ s _. Some s)\<rparr>"

lemma quiet_passiveCode: "quiet passiveCode"
  by (simp add: quiet_def handlers_return_def handlers_keep_def passiveCode_def)

definition tableThree :: "unit ccg" where
  "tableThree = snd (NewEntity ''player'' ''1'' None (snd (NewEntity ''player'' ''0''
     (Some [(CountersAttrKey, VIntMap [(''gold'', 3)])])
     (snd (Subscribe None (GameHandler ()) NewState)))))"

lemma tableThree_counters:
  "Get tableThree 1 \<noteq> None" "Get tableThree 2 \<noteq> None"
  "Counters tableThree 1 ''gold'' = 3" "Counters tableThree 2 ''gold'' = 0"
  by code_simp+

theorem AddCounter_adds_witness:
  "\<exists>s'. AddCounter passiveCode 1 ''gold'' (- 5) tableThree = Some s' \<and> Counters s' 1 ''gold'' = 0"
  using AddCounter_adds [OF quiet_passiveCode tableThree_counters(1), of "''gold''" "- 5"]
  by (auto simp: tableThree_counters int64_def)

theorem TransferCounters_exact_witness:
  "\<exists>s'. TransferCounters passiveCode 1 2 ''gold'' 2 tableThree = Some (None, s') \<and>
     Counters s' 1 ''gold'' = 1 \<and> Counters s' 2 ''gold'' = 2"
  using TransferCounters_exact [OF quiet_passiveCode, of 2 1 2 tableThree "''gold''"]
  by (auto simp: tableThree_counters int64_def)

text \<open>
  A transfer into debt makes counters: three gold to a purse at minus five leave three gold less on one
  side and five more on the other.
\<close>

theorem transfer_into_debt_mints:
  "map_option (\<lambda>s. (Counters s 1 ''gold'' + Counters s 2 ''gold'',
       map_option (\<lambda>(e, s'). (e, Counters s' 1 ''gold'' + Counters s' 2 ''gold'')) (TransferCounters passiveCode 1 2 ''gold'' 3 s)))
     (AddCounterSigned passiveCode 2 ''gold'' (- 5) tableThree) = Some (- 2, Some (None, 0))"
  by code_simp

definition jsonAttrs :: "goval gomap option \<Rightarrow> goval gomap option" where
  "jsonAttrs attrs = map_option (map (\<lambda>(k, v). (k, jsonTrip v))) attrs"

lemma coerceCounters_json:
  "\<forall>(k, n) \<in> set m. \<bar>n\<bar> < 2 ^ 53 \<Longrightarrow>
   coerceCounters (map (\<lambda>(k, n). (k, VFloat ''float64'' (int_to_f64 n))) m) = m"
proof (induction m)
  case (Cons e m)
  obtain k n where e: "e = (k, n)" by (cases e)
  have n: "\<bar>n\<bar> < 2 ^ 53" using Cons.prems e by simp
  then have "int64 n" by (auto simp: int64_def abs_if split: if_splits)
  then have "f64_to_int (int_to_f64 n) = n" using n f64_to_int_int by (simp only: int_to_f64_exact)
  then show ?case using Cons by (simp add: coerceCounters_def e map_filter_simps)
qed (simp add: coerceCounters_def map_filter_simps)

text \<open>
  Counters survive a JSON round trip of the state: an attribute map that was written as
  \<open>map[string]int\<close> comes back as \<open>map[string]any\<close> over float64, and every counter below
  \<open>2\<^sup>5\<^sup>3\<close> in magnitude still reads the same.
\<close>

theorem counters_survive_json:
  assumes "mget attrs CountersAttrKey = Some (VIntMap m)" "\<forall>(k, n) \<in> set m. \<bar>n\<bar> < 2 ^ 53"
  shows "readCountersFromAttrs (jsonAttrs attrs) = readCountersFromAttrs attrs"
proof -
  have "mget (jsonAttrs attrs) CountersAttrKey = map_option jsonTrip (mget attrs CountersAttrKey)"
    by (cases attrs) (simp_all add: jsonAttrs_def map_of_map)
  then show ?thesis using assms coerceCounters_json [of m] by (auto simp: readCountersFromAttrs_def)
qed

theorem counters_survive_json_witness:
  "let attrs = Some [(CountersAttrKey, VIntMap [(''gold'', 3)])] in
   readCountersFromAttrs (jsonAttrs attrs) = Some [(''gold'', 3)]"
  using counters_survive_json [of "Some [(CountersAttrKey, VIntMap [(''gold'', 3)])]" "[(''gold'', 3)]"]
  by (simp add: readCountersFromAttrs_def)

section \<open>Abilities\<close>

text \<open>
  The two tables agree: subscription and ability ids are distinct, never above the counters
  that mint them, and the subscription of an ability is the one the ability table names.
\<close>

definition ability_sync :: "'k ccg \<Rightarrow> bool" where
  "ability_sync s \<longleftrightarrow> distinct (map subID (subs s)) \<and> distinct (map abID (abilities s)) \<and>
     (\<forall>sub \<in> set (subs s). \<forall>a ent zs h. subHandler sub = AbilityHandler a ent zs h \<longrightarrow>
        (\<exists>ab \<in> set (abilities s). abID ab = a \<and> abSub ab = subID sub)) \<and>
     (\<forall>sub \<in> set (subs s). subID sub \<le> NextSubID (IDs s)) \<and>
     (\<forall>ab \<in> set (abilities s). abID ab \<le> NextAbilityID (IDs s))"

definition bound :: "64 word \<Rightarrow> 'k ccg \<Rightarrow> bool" where
  "bound a s \<longleftrightarrow> (\<exists>ab \<in> set (abilities s). abID ab = a) \<or>
     (\<exists>sub \<in> set (subs s). \<exists>ent zs h. subHandler sub = AbilityHandler a ent zs h)"

lemma remove_at_keyed:
  assumes "find_index (\<lambda>x. f x = k) xs = Some j" "distinct (map f xs)"
  shows "set (remove_at j xs) = {x \<in> set xs. f x \<noteq> k}" "distinct (map f (remove_at j xs))"
proof -
  from find_index_Some [OF assms(1)] have j: "j < length xs" "f (xs ! j) = k" by auto
  have xs: "xs = take j xs @ xs ! j # drop (Suc j) xs" using j(1) by (rule id_take_nth_drop)
  then have "distinct (map f (take j xs @ xs ! j # drop (Suc j) xs))" using assms(2) by simp
  then have d: "distinct (map f (take j xs) @ map f (drop (Suc j) xs))"
    and "f (xs ! j) \<notin> f ` (set (take j xs) \<union> set (drop (Suc j) xs))" by auto
  then have d2: "\<forall>x \<in> set (take j xs) \<union> set (drop (Suc j) xs). f x \<noteq> k" using j(2) by (metis imageI)
  show "distinct (map f (remove_at j xs))" using d by (simp add: remove_at_def)
  have "set xs = insert (xs ! j) (set (take j xs) \<union> set (drop (Suc j) xs))"
    by (subst xs) auto
  then show "set (remove_at j xs) = {x \<in> set xs. f x \<noteq> k}" using d2 j(2) by (auto simp: remove_at_def)
qed

lemma set_Unsubscribe:
  "distinct (map subID (subs s)) \<Longrightarrow>
   set (subs (Unsubscribe i s)) = {sub \<in> set (subs s). subID sub \<noteq> i} \<and> distinct (map subID (subs (Unsubscribe i s)))"
  using remove_at_keyed [of subID i "subs s"] find_index_None [of "\<lambda>sub. subID sub = i" "subs s"]
  by (auto simp: Unsubscribe_def split: option.split)

lemma Unsubscribe_frame [simp]:
  "abilities (Unsubscribe i s) = abilities s" "IDs (Unsubscribe i s) = IDs s"
  by (simp_all add: Unsubscribe_def split: option.split)

lemma UnbindAbility_unbinds:
  assumes "ability_sync s"
  shows "\<not> bound a (UnbindAbility a s)" "ability_sync (UnbindAbility a s)"
proof -
  have d: "distinct (map subID (subs s))" "distinct (map abID (abilities s))" using assms by (auto simp: ability_sync_def)
  show "\<not> bound a (UnbindAbility a s)"
  proof (cases "find_index (\<lambda>x. abID x = a) (abilities s)")
    case None
    then show ?thesis using assms find_index_None [of "\<lambda>x. abID x = a" "abilities s"]
      by (auto simp: UnbindAbility_def bound_def ability_sync_def)
  next
    case (Some j)
    have "abilities s ! j \<in> set (abilities s)" "abID (abilities s ! j) = a" using find_index_Some [OF Some] by auto
    then have u: "ab = abilities s ! j" if "ab \<in> set (abilities s)" "abID ab = a" for ab
      using d(2) that by (metis (mono_tags) distinct_map inj_onD)
    show ?thesis
      using remove_at_keyed [OF Some d(2)] set_Unsubscribe [OF d(1), of "abSub (abilities s ! j)"] assms u
      by (fastforce simp: UnbindAbility_def Some Let_def bound_def ability_sync_def)
  qed
  show "ability_sync (UnbindAbility a s)"
  proof (cases "find_index (\<lambda>x. abID x = a) (abilities s)")
    case (Some j)
    have j: "abilities s ! j \<in> set (abilities s)" "abID (abilities s ! j) = a" using find_index_Some [OF Some] by auto
    then have u: "abID ab \<noteq> a" if "ab \<in> set (abilities s)" "abSub ab \<noteq> abSub (abilities s ! j)" for ab
      using d(2) that by (metis (mono_tags) distinct_map inj_onD)
    show ?thesis
      using remove_at_keyed [OF Some d(2)] set_Unsubscribe [OF d(1), of "abSub (abilities s ! j)"] assms u
      unfolding ability_sync_def by (fastforce simp: UnbindAbility_def Some Let_def)
  qed (use assms in \<open>simp add: UnbindAbility_def\<close>)
qed

lemma remember_sync [simp]: "ability_sync (remember ev s) = ability_sync s" "bound a (remember ev s) = bound a s"
  by (simp_all add: ability_sync_def bound_def)

interpretation sync: bus_invariant ability_sync
  by unfold_locales (simp_all add: UnbindAbility_unbinds)

lemma unbind_subset:
  "set (abilities (UnbindAbility b s)) \<subseteq> set (abilities s)" "set (subs (UnbindAbility b s)) \<subseteq> set (subs s)"
  using set_remove_at by (fastforce simp: UnbindAbility_def Unsubscribe_def Let_def split: option.splits)+

interpretation unbound: bus_invariant "\<lambda>s. \<not> bound a s" for a
proof unfold_locales
  fix s :: "'k ccg" and ev b
  assume "\<not> bound a s"
  then show "\<not> bound a (remember ev s)" "\<not> bound a (UnbindAbility b s)"
    using unbind_subset [of b s] by (auto simp: bound_def)
qed

lemma word_succ_new: "(w :: 64 word) \<noteq> - 1 \<Longrightarrow> v \<le> w \<Longrightarrow> v \<noteq> w + 1 \<and> v \<le> w + 1"
  using word_less_succ [of w] by auto

lemma BindAbility_sync:
  assumes "ability_sync s" "NextSubID (IDs s) \<noteq> - 1" "NextAbilityID (IDs s) \<noteq> - 1"
  shows "ability_sync (snd (BindAbility ent zs p h s))"
proof -
  have "\<forall>sub \<in> set (subs s). subID sub \<noteq> NextSubID (IDs s) + 1 \<and> subID sub \<le> NextSubID (IDs s) + 1"
    "\<forall>ab \<in> set (abilities s). abID ab \<noteq> NextAbilityID (IDs s) + 1 \<and> abID ab \<le> NextAbilityID (IDs s) + 1"
    using assms word_succ_new unfolding ability_sync_def by blast+
  then show ?thesis
    using assms(1) unfolding ability_sync_def BindAbility_def Subscribe_def Let_def by fastforce
qed

lemma dispatch_expires:
  assumes keep: "\<And>E. handlers_keep (\<lambda>s. Entities s = E) code" "handlers_keep ability_sync code"
      "handlers_keep (\<lambda>s. \<not> bound a s) code"
    and sub: "subHandler sub = AbilityHandler a ent zs h" "matches code (subPredicate sub) ev"
    and out: "\<And>e. map_of E ent = Some e \<Longrightarrow> entZone e \<notin> set zs"
  shows "sub \<in> set ss \<Longrightarrow> Entities s = E \<Longrightarrow> ability_sync s \<Longrightarrow> dispatch code ss ev s = Some s' \<Longrightarrow> \<not> bound a s'"
proof (induction ss arbitrary: s)
  case (Cons sb ss)
  show ?case
  proof (cases "sb = sub")
    case True
    have "handle code (subHandler sub) s ev = Some (UnbindAbility a s)"
      using out Cons.prems(2) by (auto simp: sub Get_def list_ex_iff split: option.split)
    then have "dispatch code ss ev (UnbindAbility a s) = Some s'" using Cons.prems(4) True sub(2) by simp
    then show ?thesis by (rule unbound.dispatch_keeps [OF keep(3), rotated]) (rule UnbindAbility_unbinds [OF Cons.prems(3)])
  next
    case False
    then have ss: "sub \<in> set ss" using Cons.prems(1) by simp
    show ?thesis
    proof (cases "matches code (subPredicate sb) ev")
      case True
      then obtain s1 where s1: "handle code (subHandler sb) s ev = Some s1" "dispatch code ss ev s1 = Some s'"
        using Cons.prems(4) by (auto split: option.splits)
      show ?thesis
        using Cons.IH [OF ss _ _ s1(2)] entities.handle_keeps [OF keep(1) Cons.prems(2) s1(1)]
          sync.handle_keeps [OF keep(2) Cons.prems(3) s1(1)] by blast
    next
      case False
      then show ?thesis using Cons.IH [OF ss Cons.prems(2,3)] Cons.prems(4) by simp
    qed
  qed
qed simp

text \<open>The game code behind a handler, and the code with another one in its place.\<close>

fun gameCode :: "'k eventHandler \<Rightarrow> 'k" where
  "gameCode (GameHandler h) = h"
| "gameCode (AbilityHandler a ent zs h) = h"

definition withHandler :: "'k \<Rightarrow> ('k ccg \<Rightarrow> cevent \<Rightarrow> 'k ccg option) \<Rightarrow> 'k busCode \<Rightarrow> 'k busCode" where
  "withHandler h f code = code\<lparr>runHandler := (runHandler code)(h := f)\<rparr>"

lemma withHandler_sel [simp]:
  "runPredicate (withHandler h f code) = runPredicate code" "runHandler (withHandler h f code) k = (if k = h then f else runHandler code k)"
  by (simp_all add: withHandler_def)

lemma matches_withHandler [simp]: "matches (withHandler h f code) p ev = matches code p ev"
  by (cases "(code, p, ev)" rule: matches.cases) simp_all


lemma handle_withHandler: "gameCode x \<noteq> h \<Longrightarrow> handle (withHandler h f code) x s ev = handle code x s ev"
  by (cases x) (simp_all split: option.split)

lemma handle_out_of_zone:
  "(\<And>e. Get s ent = Some e \<Longrightarrow> entZone e \<notin> set zs) \<Longrightarrow> handle code (AbilityHandler a ent zs h) s ev = Some (UnbindAbility a s)"
  by (auto simp: list_ex_iff split: option.split)

lemma dispatch_skips:
  assumes keep: "\<And>E. handlers_keep (\<lambda>s. Entities s = E) code"
    and sub: "subHandler sub = AbilityHandler a ent zs h" and out: "\<And>e. map_of E ent = Some e \<Longrightarrow> entZone e \<notin> set zs"
  shows "Entities s = E \<Longrightarrow> \<forall>sb \<in> set ss. gameCode (subHandler sb) = h \<longrightarrow> sb = sub \<Longrightarrow>
    dispatch (withHandler h f code) ss ev s = dispatch code ss ev s"
proof (induction ss arbitrary: s)
  case (Cons sb ss)
  have "handle (withHandler h f code) (subHandler sb) s ev = handle code (subHandler sb) s ev"
  proof (cases "sb = sub")
    case True
    then show ?thesis using handle_out_of_zone [of s ent zs] out Cons.prems(1) by (simp add: sub Get_def)
  qed (use Cons.prems(2) handle_withHandler in auto)
  moreover have "dispatch (withHandler h f code) ss ev s1 = dispatch code ss ev s1" if "handle code (subHandler sb) s ev = Some s1" for s1
    using Cons.IH entities.handle_keeps [OF keep Cons.prems(1) that] Cons.prems(2) by simp
  moreover have "dispatch (withHandler h f code) ss ev s = dispatch code ss ev s" using Cons.IH Cons.prems by simp
  ultimately show ?case by (auto split: option.split)
qed simp

text \<open>
  C34. An ability whose entity is gone or in none of its zones does not run, and is unbound by
  the first matching event, whatever the handlers registered before it do (as long as they keep the
  entities and the tables). Afterwards neither the ability table nor the subscriptions mention it. And
  its handler is not called: where no other subscription shares its code, publishing the
  event gives the same state whatever that code is.
\<close>

theorem ability_expires:
  assumes sync: "ability_sync s"
    and sub: "sub \<in> set (subs s)" "subHandler sub = AbilityHandler a ent zs h" "matches code (subPredicate sub) ev"
    and out: "\<forall>e. Get s ent = Some e \<longrightarrow> entZone e \<notin> set zs"
    and keep: "\<forall>E. handlers_keep (\<lambda>s. Entities s = E) code" "handlers_keep ability_sync code"
      "handlers_keep (\<lambda>s. \<not> bound a s) code"
    and pub: "Publish code ev s = Some s'"
  shows "\<not> bound a s' \<and>
    ((\<forall>sb \<in> set (subs s). gameCode (subHandler sb) = h \<longrightarrow> sb = sub) \<longrightarrow> (\<forall>f. Publish (withHandler h f code) ev s = Some s'))"
proof (intro conjI impI allI)
  have p: "dispatch code (subs s) ev (remember ev s) = Some s'" using pub by (simp add: Publish_def)
  show "\<not> bound a s'"
  proof (rule dispatch_expires [of code a sub ent zs h ev "Entities s" "subs s" "remember ev s" s'])
    show "dispatch code (subs s) ev (remember ev s) = Some s'" by (rule p)
  qed (use sync sub out keep in \<open>auto simp: Get_def\<close>)
  fix f assume only: "\<forall>sb \<in> set (subs s). gameCode (subHandler sb) = h \<longrightarrow> sb = sub"
  have "dispatch (withHandler h f code) (subs s) ev (remember ev s) = dispatch code (subs s) ev (remember ev s)"
  proof (rule dispatch_skips [OF _ sub(2) _ _ only])
    show "Entities (remember ev s) = Entities s" by simp
  qed (use keep(1) out in \<open>simp_all add: Get_def\<close>)
  then show "Publish (withHandler h f code) ev s = Some s'" using p by (simp add: Publish_def)
qed

theorem ability_expires_witness:
  "\<exists>s'. Publish passiveCode \<lparr>cevType = ''drawn'', cevSource = 0, cevTarget = 0, cevData = None\<rparr>
     (snd (BindAbility 9 [''field''] (Some (MatchType ''drawn'')) () NewState)) = Some s' \<and> \<not> bound 1 s' \<and>
     Publish (withHandler () (\<lambda>_ _. None) passiveCode) \<lparr>cevType = ''drawn'', cevSource = 0, cevTarget = 0, cevData = None\<rparr>
     (snd (BindAbility 9 [''field''] (Some (MatchType ''drawn'')) () NewState)) = Some s'"
proof -
  let ?s = "snd (BindAbility 9 [''field''] (Some (MatchType ''drawn'')) () NewState)"
  let ?ev = "\<lparr>cevType = ''drawn'', cevSource = 0, cevTarget = 0, cevData = None\<rparr>"
  have ids: "NextSubID (IDs (NewState :: unit ccg)) = 0" "NextAbilityID (IDs (NewState :: unit ccg)) = 0"
    "ability_sync (NewState :: unit ccg)" by (simp_all add: NewState_def ability_sync_def)
  have sync: "ability_sync ?s" by (rule BindAbility_sync) (simp_all add: ids)
  have sub: "\<lparr>subID = 1, subPredicate = Some (MatchType ''drawn''), subHandler = AbilityHandler 1 9 [''field''] ()\<rparr> \<in> set (subs ?s)"
    by (simp add: BindAbility_def Subscribe_def Let_def NewState_def)
  have keep: "handlers_keep I passiveCode" for I by (simp add: handlers_keep_def passiveCode_def)
  obtain s' where s': "Publish passiveCode ?ev ?s = Some s'"
    using Publish_returns [of passiveCode ?ev ?s] quiet_passiveCode by (auto simp: quiet_def)
  have "Get ?s 9 = None" by (simp add: BindAbility_def Subscribe_def Let_def NewState_def Get_def)
  then have e: "\<not> bound 1 s' \<and> ((\<forall>sb \<in> set (subs ?s). gameCode (subHandler sb) = () \<longrightarrow>
      sb = \<lparr>subID = 1, subPredicate = Some (MatchType ''drawn''), subHandler = AbilityHandler 1 9 [''field''] ()\<rparr>) \<longrightarrow>
      (\<forall>f. Publish (withHandler () f passiveCode) ?ev ?s = Some s'))"
    using ability_expires [OF sync sub _ _ _ _ keep keep s', of 1 9 "[''field'']" "()"] keep by simp
  have "\<forall>sb \<in> set (subs ?s). sb = \<lparr>subID = 1, subPredicate = Some (MatchType ''drawn''), subHandler = AbilityHandler 1 9 [''field''] ()\<rparr>"
    by (simp add: BindAbility_def Subscribe_def Let_def NewState_def)
  with e have "\<not> bound 1 s'" "Publish (withHandler () (\<lambda>_ _. None) passiveCode) ?ev ?s = Some s'" by auto
  then show ?thesis using s' by blast
qed

end
