(* ===== verification/CcgEffects.thy ===== *)
theory CcgEffects
  imports CcgBus
begin

text \<open>
  The pending-effect queue and trigger staging (\<open>modules/ccg/effect.go\<close>, trigger.go): pushing,
  finding, replacing and removing effects by their stable ids, the resolve step with its
  interception events, and the flush of staged triggers in a chosen order. Resolvers, like
  bus handlers, are game code: an argument that returns the error, if any, and the state it
  leaves behind, or \<open>None\<close> when it does not return.
\<close>

section \<open>The queue (\<open>effect.go\<close>)\<close>

definition blankEffect :: effect where
  "blankEffect = \<lparr>effID = 0, effSource = 0, effController = '''', effKind = '''', effTarget = 0,
     effTargets = [], effData = None, effCountered = False, effTag = ''''\<rparr>"

definition effectEvent :: "string \<Rightarrow> effect \<Rightarrow> cevent" where
  "effectEvent t eff = \<lparr>cevType = t, cevSource = effSource eff, cevTarget = effTarget eff,
     cevData = Some [(''effect_id'', VInt ''EffectID'' (uint (effID eff)))]\<rparr>"

definition publishEffectEvent :: "'k busCode \<Rightarrow> string \<Rightarrow> effect \<Rightarrow> 'k ccg \<Rightarrow> 'k ccg option" where
  "publishEffectEvent code t eff s = Publish code (effectEvent t eff) s"

definition nextEffect :: "'k ccg \<Rightarrow> 64 word" where
  "nextEffect s = NextEffectID (IDs s) + 1"

text \<open>The shared part of the three pushes: mint an id and put the effect into the queue.\<close>

definition enqueue :: "(effect \<Rightarrow> effect list \<Rightarrow> effect list) \<Rightarrow> effect \<Rightarrow> 'k ccg \<Rightarrow> 'k ccg" where
  "enqueue put eff s =
     s\<lparr>IDs := (IDs s)\<lparr>NextEffectID := nextEffect s\<rparr>,
       PendingEffects := put (eff\<lparr>effID := nextEffect s\<rparr>) (PendingEffects s)\<rparr>"

definition pushWith :: "(effect \<Rightarrow> effect list \<Rightarrow> effect list) \<Rightarrow> 'k busCode \<Rightarrow> effect \<Rightarrow> 'k ccg
    \<Rightarrow> (64 word \<times> 'k ccg) option" where
  "pushWith put code eff s =
     map_option (Pair (nextEffect s))
       (publishEffectEvent code ''effect_pushed'' (eff\<lparr>effID := nextEffect s\<rparr>) (enqueue put eff s))"

definition PushEffect :: "'k busCode \<Rightarrow> effect \<Rightarrow> 'k ccg \<Rightarrow> (64 word \<times> 'k ccg) option" where
  "PushEffect = pushWith (\<lambda>e q. q @ [e])"

definition PushEffectFront :: "'k busCode \<Rightarrow> effect \<Rightarrow> 'k ccg \<Rightarrow> (64 word \<times> 'k ccg) option" where
  "PushEffectFront = pushWith (\<lambda>e q. e # q)"

definition InsertEffectAt :: "'k busCode \<Rightarrow> int \<Rightarrow> effect \<Rightarrow> 'k ccg \<Rightarrow> (64 word \<times> 'k ccg) option" where
  "InsertEffectAt code idx eff s =
     (let idx = (if idx < 0 then 0 else idx);
          idx = (if int (length (PendingEffects s)) < idx then int (length (PendingEffects s)) else idx)
      in pushWith (\<lambda>e q. take (nat idx) q @ e # drop (nat idx) q) code eff s)"

definition effectIndex :: "64 word \<Rightarrow> 'k ccg \<Rightarrow> nat option" where
  "effectIndex i s = find_index (\<lambda>e. effID e = i) (PendingEffects s)"

definition FindEffect :: "64 word \<Rightarrow> 'k ccg \<Rightarrow> (effect \<times> nat) option" where
  "FindEffect i s = map_option (\<lambda>j. (PendingEffects s ! j, j)) (effectIndex i s)"

definition ReplaceEffect :: "'k busCode \<Rightarrow> 64 word \<Rightarrow> effect \<Rightarrow> 'k ccg \<Rightarrow> (bool \<times> 'k ccg) option" where
  "ReplaceEffect code i next s =
     (case effectIndex i s of
        None \<Rightarrow> Some (False, s)
      | Some j \<Rightarrow>
          (let next = next\<lparr>effID := i\<rparr>
           in map_option (Pair True) (publishEffectEvent code ''effect_replaced'' next
                (s\<lparr>PendingEffects := (PendingEffects s)[j := next]\<rparr>))))"

definition RemoveEffect :: "'k busCode \<Rightarrow> 64 word \<Rightarrow> 'k ccg \<Rightarrow> (bool \<times> 'k ccg) option" where
  "RemoveEffect code i s =
     (case effectIndex i s of
        None \<Rightarrow> Some (False, s)
      | Some j \<Rightarrow>
          map_option (Pair True) (publishEffectEvent code ''effect_removed'' (PendingEffects s ! j)
            (s\<lparr>PendingEffects := remove_at j (PendingEffects s)\<rparr>)))"

definition MutateEffect :: "64 word \<Rightarrow> (effect \<Rightarrow> effect) \<Rightarrow> 'k ccg \<Rightarrow> bool \<times> 'k ccg" where
  "MutateEffect i f s =
     (case effectIndex i s of
        None \<Rightarrow> (False, s)
      | Some j \<Rightarrow> (True, s\<lparr>PendingEffects := (PendingEffects s)[j := (f (PendingEffects s ! j))\<lparr>effID := i\<rparr>]\<rparr>))"

definition PickFront :: "effect list \<Rightarrow> int" where
  "PickFront pending = (if pending = [] then - 1 else 0)"

definition PickBack :: "effect list \<Rightarrow> int" where
  "PickBack pending = int (length pending) - 1"

datatype 'e resolveError = UnknownEffectKind string | ResolverError 'e

type_synonym ('k, 'e) resolver = "'k ccg \<Rightarrow> effect \<Rightarrow> ('e option \<times> 'k ccg) option"

definition dropEffect :: "64 word \<Rightarrow> 'k ccg \<Rightarrow> 'k ccg" where
  "dropEffect i s =
     (case effectIndex i s of
        None \<Rightarrow> s
      | Some j \<Rightarrow> s\<lparr>PendingEffects := remove_at j (PendingEffects s)\<rparr>)"

definition ResolveNext :: "'k busCode \<Rightarrow> (effect list \<Rightarrow> int) \<Rightarrow> (string \<Rightarrow> ('k, 'e) resolver option) \<Rightarrow> 'k ccg
    \<Rightarrow> ((effect \<times> bool \<times> 'e resolveError option) \<times> 'k ccg) option" where
  "ResolveNext code pick table s =
     (case index_at (PendingEffects s) (pick (PendingEffects s)) of
        None \<Rightarrow> Some ((blankEffect, False, None), s)
      | Some eff \<Rightarrow> do {
          s \<leftarrow> publishEffectEvent code ''effect_resolving'' eff s;
          (case FindEffect (effID eff) s of
             None \<Rightarrow> Some ((blankEffect, False, None), s)
           | Some (current, curIdx) \<Rightarrow>
               if effCountered current
               then map_option (Pair (current, True, None))
                      (publishEffectEvent code ''effect_resolved'' current
                         (s\<lparr>PendingEffects := remove_at curIdx (PendingEffects s)\<rparr>))
               else
                 (case table (effKind current) of
                    None \<Rightarrow> Some ((current, False, Some (UnknownEffectKind (effKind current))), s)
                  | Some resolver \<Rightarrow> do {
                      (err, s) \<leftarrow> resolver s current;
                      (case err of
                         Some e \<Rightarrow> Some ((current, False, Some (ResolverError e)), s)
                       | None \<Rightarrow> map_option (Pair (current, True, None))
                           (publishEffectEvent code ''effect_resolved'' current (dropEffect (effID current) s)))
                    }))
        })"

section \<open>Triggers (\<open>trigger.go\<close>)\<close>

definition StageTrigger :: "effect \<Rightarrow> 'k ccg \<Rightarrow> 'k ccg" where
  "StageTrigger eff s = s\<lparr>StagedTriggers := StagedTriggers s @ [eff\<lparr>effID := 0\<rparr>]\<rparr>"

definition EffectFrom :: "'k ccg \<Rightarrow> entityID \<Rightarrow> string \<Rightarrow> goval gomap option \<Rightarrow> effect" where
  "EffectFrom s src kind data =
     (let eff = blankEffect\<lparr>effSource := src, effKind := kind, effData := data\<rparr>
      in case Get s src of None \<Rightarrow> eff | Some e \<Rightarrow> eff\<lparr>effController := EffectiveController e\<rparr>)"

text \<open>
  One pass of \<open>OrderByPlayer\<close> over the effects for one player, with the \<open>taken\<close> flags, then the
  loop over the players and the final pass for the effects nobody took.
\<close>

fun takeFor :: "string \<Rightarrow> effect list \<Rightarrow> bool list \<Rightarrow> effect list \<times> bool list" where
  "takeFor p (e # es) (t # ts) =
     (let (out, ts') = takeFor p es ts
      in if \<not> t \<and> effController e = p then (e # out, True # ts') else (out, t # ts'))"
| "takeFor p _ ts = ([], ts)"

fun takePlayers :: "string list \<Rightarrow> effect list \<Rightarrow> bool list \<Rightarrow> effect list \<times> bool list" where
  "takePlayers [] effs ts = ([], ts)"
| "takePlayers (p # ps) effs ts =
     (let (out, ts) = takeFor p effs ts; (out', ts) = takePlayers ps effs ts in (out @ out', ts))"

definition OrderByPlayer :: "effect list \<Rightarrow> string list \<Rightarrow> effect list" where
  "OrderByPlayer effs order =
     (let (out, ts) = takePlayers order effs (replicate (length effs) False)
      in out @ map fst (filter (\<lambda>(e, t). \<not> t) (zip effs ts)))"

fun pushAll :: "'k busCode \<Rightarrow> effect list \<Rightarrow> 'k ccg \<Rightarrow> (64 word list \<times> 'k ccg) option" where
  "pushAll code [] s = Some ([], s)"
| "pushAll code (e # es) s = do {
     (i, s) \<leftarrow> PushEffect code e s;
     (is, s) \<leftarrow> pushAll code es s;
     Some (i # is, s)
   }"

definition FlushTriggers :: "'k busCode \<Rightarrow> (effect list \<Rightarrow> effect list) option \<Rightarrow> 'k ccg
    \<Rightarrow> (64 word list \<times> 'k ccg) option" where
  "FlushTriggers code reorder s =
     (if StagedTriggers s = [] then Some ([], s)
      else (let batch = StagedTriggers s;
                s = s\<lparr>StagedTriggers := []\<rparr>;
                batch = (case reorder of None \<Rightarrow> batch | Some f \<Rightarrow> f batch)
            in pushAll code batch s))"

section \<open>Ordering by player is a stable partition\<close>



definition untaken :: "effect list \<Rightarrow> bool list \<Rightarrow> effect list" where
  "untaken es ts = map fst (filter (\<lambda>(e, t). \<not> t) (zip es ts))"

lemma takeFor_untaken:
  assumes "length ts = length es"
  shows "fst (takeFor p es ts) = filter (\<lambda>e. effController e = p) (untaken es ts)"
    "untaken es (snd (takeFor p es ts)) = filter (\<lambda>e. effController e \<noteq> p) (untaken es ts)"
    "length (snd (takeFor p es ts)) = length es"
  using assms unfolding untaken_def by (induction p es ts rule: takeFor.induct) (auto simp: split_def Let_def)

fun orderSpec :: "effect list \<Rightarrow> string list \<Rightarrow> effect list" where
  "orderSpec effs [] = effs"
| "orderSpec effs (p # ps) =
     filter (\<lambda>e. effController e = p) effs @ orderSpec (filter (\<lambda>e. effController e \<noteq> p) effs) ps"

lemma takePlayers_spec:
  "length ts = length effs \<Longrightarrow>
   fst (takePlayers ps effs ts) @ untaken effs (snd (takePlayers ps effs ts)) = orderSpec (untaken effs ts) ps"
proof (induction ps arbitrary: ts)
  case (Cons p ps)
  show ?case using Cons.IH [of "snd (takeFor p effs ts)"] takeFor_untaken [OF Cons.prems, of p]
    by (simp add: split_def Let_def)
qed simp

lemma untaken_none: "untaken effs (replicate (length effs) False) = effs"
  by (induction effs) (simp_all add: untaken_def)

lemma OrderByPlayer_spec: "OrderByPlayer effs order = orderSpec effs order"
  using takePlayers_spec [of "replicate (length effs) False" effs order]
  by (simp add: OrderByPlayer_def split_def Let_def untaken_none) (simp add: untaken_def split_def)

lemma mset_orderSpec: "mset (orderSpec effs order) = mset effs"
  by (induction effs order rule: orderSpec.induct) simp_all

lemma orderSpec_stable:
  "filter (\<lambda>e. effController e = q) (orderSpec effs order) = filter (\<lambda>e. effController e = q) effs"
proof (induction effs order rule: orderSpec.induct)
  case (2 effs p ps)
  have "filter (\<lambda>e. effController e = q \<and> effController e \<noteq> p) effs =
        (if q = p then [] else filter (\<lambda>e. effController e = q) effs)"
    by (auto simp: filter_empty_conv intro: filter_cong)
  moreover have "filter (\<lambda>e. effController e = q \<and> effController e = p) effs =
        (if q = p then filter (\<lambda>e. effController e = q) effs else [])"
    by (auto simp: filter_empty_conv intro: filter_cong)
  ultimately show ?case using 2 by (simp add: conj_commute)
qed simp

text \<open>
  OrderByPlayer is a stable partition by controller: nobody's effect is lost or repeated,
  the listed players' effects come first, player by player in the order listed (a repeated
  player adds nothing), the effects of everyone else follow, and each player's own effects
  keep the order in which they were staged.
\<close>

theorem OrderByPlayer_stable_partition:
  "mset (OrderByPlayer effs order) = mset effs \<and>
   filter (\<lambda>e. effController e = q) (OrderByPlayer effs order) = filter (\<lambda>e. effController e = q) effs \<and>
   OrderByPlayer effs [] = effs \<and>
   OrderByPlayer effs (p # ps) =
     filter (\<lambda>e. effController e = p) effs @ OrderByPlayer (filter (\<lambda>e. effController e \<noteq> p) effs) ps"
  by (simp add: OrderByPlayer_spec mset_orderSpec orderSpec_stable)

section \<open>The queue\<close>

text \<open>Ids of pending effects are distinct and have been minted.\<close>

definition effects_ok :: "'k ccg \<Rightarrow> bool" where
  "effects_ok s \<longleftrightarrow> distinct (map effID (PendingEffects s)) \<and>
     (\<forall>e \<in> set (PendingEffects s). effID e \<le> NextEffectID (IDs s))"

text \<open>Handlers that leave the queue alone and mint no effects: they may stage triggers.\<close>

definition queueQuiet :: "'k busCode \<Rightarrow> bool" where
  "queueQuiet code \<longleftrightarrow> handlers_return code \<and>
     (\<forall>q n. handlers_keep (\<lambda>s. PendingEffects s = q \<and> NextEffectID (IDs s) = n) code)"

interpretation pending: bus_invariant "\<lambda>s. PendingEffects s = q \<and> NextEffectID (IDs s) = n" for q n
  by unfold_locales simp_all

lemma publish_queueQuiet:
  assumes "queueQuiet code"
  obtains s' where "publishEffectEvent code t eff s = Some s'"
    "PendingEffects s' = PendingEffects s" "NextEffectID (IDs s') = NextEffectID (IDs s)"
  using assms Publish_returns [of code "effectEvent t eff" s]
    pending.Publish_keeps [of "PendingEffects s" "NextEffectID (IDs s)" code s "effectEvent t eff"]
  unfolding queueQuiet_def publishEffectEvent_def by blast

lemma publish_queue:
  "queueQuiet code \<Longrightarrow> \<exists>s'. publishEffectEvent code t eff s = Some s' \<and> PendingEffects s' = PendingEffects s"
  by (metis publish_queueQuiet)

lemma pushWith_quiet:
  assumes "queueQuiet code"
  obtains s' where "pushWith put code eff s = Some (nextEffect s, s')"
    "PendingEffects s' = put (eff\<lparr>effID := nextEffect s\<rparr>) (PendingEffects s)"
    "NextEffectID (IDs s') = nextEffect s"
proof -
  obtain s' where "publishEffectEvent code ''effect_pushed'' (eff\<lparr>effID := nextEffect s\<rparr>) (enqueue put eff s) = Some s'"
    "PendingEffects s' = PendingEffects (enqueue put eff s)" "NextEffectID (IDs s') = NextEffectID (IDs (enqueue put eff s))"
    by (rule publish_queueQuiet [OF assms])
  then show ?thesis using that by (simp add: pushWith_def enqueue_def)
qed

lemma effects_ok_push:
  assumes ok: "effects_ok s" and fresh: "NextEffectID (IDs s) \<noteq> - 1"
    and put: "\<And>e q. mset (put e q) = add_mset e (mset q)"
    and s': "PendingEffects s' = put (eff\<lparr>effID := nextEffect s\<rparr>) (PendingEffects s)" "NextEffectID (IDs s') = nextEffect s"
  shows "effects_ok s'"
proof -
  have st: "set (put e q) = insert e (set q)" for e q using put by (metis set_mset_add_mset_insert set_mset_mset)
  have less: "NextEffectID (IDs s) < nextEffect s" unfolding nextEffect_def by (rule word_less_succ [OF fresh])
  have "nextEffect s \<notin> effID ` set (PendingEffects s)" using ok less unfolding effects_ok_def by auto
  moreover have "mset (map effID (put e q)) = mset (map effID (e # q))" for e q using put by simp
  then have "distinct (map effID (put e q)) = distinct (map effID (e # q))" for e q by (rule mset_eq_imp_distinct_iff)
  ultimately show ?thesis using ok less unfolding effects_ok_def s' st by auto
qed

lemma find_index_distinct:
  assumes "distinct (map f xs)" "j < length xs"
  shows "find_index (\<lambda>x. f x = f (xs ! j)) xs = Some j"
proof (cases "find_index (\<lambda>x. f x = f (xs ! j)) xs")
  case None
  then have "\<forall>x \<in> set xs. f x \<noteq> f (xs ! j)" by (simp add: find_index_None)
  then show ?thesis using assms(2) nth_mem by blast
next
  case (Some k)
  then have "k < length xs" "f (xs ! k) = f (xs ! j)" by (auto dest: find_index_Some)
  then show ?thesis using assms Some by (metis distinct_conv_nth length_map nth_map)
qed

lemma effectIndex_at:
  "distinct (map effID (PendingEffects s)) \<Longrightarrow> j < length (PendingEffects s) \<Longrightarrow>
   effectIndex (effID (PendingEffects s ! j)) s = Some j"
  unfolding effectIndex_def by (rule find_index_distinct)

lemma effectIndex_append:
  assumes "distinct (map effID q)" "j < length q" "PendingEffects s = q @ new"
  shows "effectIndex (effID (q ! j)) s = Some j"
proof -
  have "find_index P q = Some j \<Longrightarrow> find_index P (q @ new) = Some j" for P
    by (induction q arbitrary: j) (auto split: if_splits)
  then show ?thesis using find_index_distinct [OF assms(1,2)] by (simp add: effectIndex_def assms(3))
qed

text \<open>
  One resolve step, on every branch. With handlers that leave the queue alone, the picked
  effect is: skipped when the pick is out of range; dropped without being resolved when it is
  countered; left pending when its kind has no resolver or the resolver fails; and otherwise
  removed, once, after its resolver ran, with every other effect in its place and whatever the
  resolver appended behind them.
\<close>

theorem ResolveNext_outcomes:
  assumes q: "queueQuiet code" and ok: "effects_ok s"
    and pick: "index_at (PendingEffects s) (pick (PendingEffects s)) = Some eff"
    and res: "\<forall>resolver s1. table (effKind eff) = Some resolver \<and> PendingEffects s1 = PendingEffects s \<longrightarrow>
      (\<exists>s2 new. resolver s1 eff = Some (err, s2) \<and> PendingEffects s2 = PendingEffects s @ new)"
  shows "\<exists>s'.
    (let rest = remove_at (nat (pick (PendingEffects s))) (PendingEffects s) in
     if effCountered eff then
       ResolveNext code pick table s = Some ((eff, True, None), s') \<and> PendingEffects s' = rest
     else if table (effKind eff) = None then
       ResolveNext code pick table s = Some ((eff, False, Some (UnknownEffectKind (effKind eff))), s') \<and>
       PendingEffects s' = PendingEffects s
     else case err of
         Some e \<Rightarrow> ResolveNext code pick table s = Some ((eff, False, Some (ResolverError e)), s') \<and>
           (\<exists>new. PendingEffects s' = PendingEffects s @ new)
       | None \<Rightarrow> ResolveNext code pick table s = Some ((eff, True, None), s') \<and>
           (\<exists>new. PendingEffects s' = rest @ new))"
proof -
  let ?Q = "PendingEffects s" and ?j = "nat (pick (PendingEffects s))"
  have j: "?j < length ?Q" "?Q ! ?j = eff" using pick by (auto simp: index_at_Some)
  have d: "distinct (map effID ?Q)" using ok by (simp add: effects_ok_def)
  obtain s1 where s1: "publishEffectEvent code ''effect_resolving'' eff s = Some s1" "PendingEffects s1 = ?Q"
    by (rule publish_queueQuiet [OF q])
  have f: "FindEffect (effID eff) s1 = Some (eff, ?j)"
    using effectIndex_append [OF d j(1), of s1 "[]"] s1(2) j(2) by (simp add: FindEffect_def)
  have base: "ResolveNext code pick table s =
     (if effCountered eff
      then map_option (Pair (eff, True, None)) (publishEffectEvent code ''effect_resolved'' eff
             (s1\<lparr>PendingEffects := remove_at ?j (PendingEffects s1)\<rparr>))
      else (case table (effKind eff) of
              None \<Rightarrow> Some ((eff, False, Some (UnknownEffectKind (effKind eff))), s1)
            | Some r \<Rightarrow> do {
                (err, s) \<leftarrow> r s1 eff;
                (case err of
                   Some e \<Rightarrow> Some ((eff, False, Some (ResolverError e)), s)
                 | None \<Rightarrow> map_option (Pair (eff, True, None))
                     (publishEffectEvent code ''effect_resolved'' eff (dropEffect (effID eff) s)))
              }))"
    unfolding ResolveNext_def by (simp add: pick s1 f)
  show ?thesis
  proof (cases "effCountered eff \<or> table (effKind eff) = None")
    case True
    obtain s3 where "publishEffectEvent code ''effect_resolved'' eff (s1\<lparr>PendingEffects := remove_at ?j ?Q\<rparr>) = Some s3"
      "PendingEffects s3 = remove_at ?j ?Q" using publish_queue [OF q, of "''effect_resolved''" eff] by fastforce
    then show ?thesis using True s1(2)
      by (intro exI [of _ "if effCountered eff then s3 else s1"]) (auto simp: base Let_def)
  next
    case False
    then obtain r s2 new where r: "table (effKind eff) = Some r" "r s1 eff = Some (err, s2)"
      and s2: "PendingEffects s2 = ?Q @ new" using res s1(2) by blast
    have "PendingEffects (dropEffect (effID eff) s2) = remove_at ?j ?Q @ new"
      using effectIndex_append [OF d j(1) s2] j s2 by (simp add: dropEffect_def remove_at_def)
    then obtain s4 where "publishEffectEvent code ''effect_resolved'' eff (dropEffect (effID eff) s2) = Some s4"
      "PendingEffects s4 = remove_at ?j ?Q @ new" using publish_queue [OF q] by metis
    then show ?thesis using False r s2
      by (intro exI [of _ "if err = None then s4 else s2"]) (auto simp: base Let_def split: option.split)
  qed
qed

definition damage :: effect where
  "damage = blankEffect\<lparr>effKind := ''damage'', effController := ''0''\<rparr>"

lemma queueQuiet_passive: "queueQuiet passiveCode"
  by (simp add: queueQuiet_def handlers_return_def handlers_keep_def passiveCode_def)

definition stackOne :: "unit ccg" where
  "stackOne = NewState\<lparr>PendingEffects := [damage\<lparr>effID := 1\<rparr>], IDs := (IDs (NewState :: unit ccg))\<lparr>NextEffectID := 1\<rparr>\<rparr>"

theorem ResolveNext_outcomes_witness:
  "\<exists>s'. ResolveNext passiveCode PickBack [''damage'' \<mapsto> \<lambda>s e. Some (None :: unit option, s)] stackOne =
      Some ((damage\<lparr>effID := 1\<rparr>, True, None), s') \<and> (\<exists>new. PendingEffects s' = [] @ new)"
proof -
  have "effects_ok stackOne" by (simp add: effects_ok_def stackOne_def)
  moreover have "index_at (PendingEffects stackOne) (PickBack (PendingEffects stackOne)) = Some (damage\<lparr>effID := 1\<rparr>)"
    by (simp add: stackOne_def PickBack_def index_at_def)
  ultimately show ?thesis
    using ResolveNext_outcomes [OF queueQuiet_passive, of stackOne PickBack "damage\<lparr>effID := 1\<rparr>"
        "[''damage'' \<mapsto> \<lambda>s e. Some (None :: unit option, s)]" None]
    by (simp add: stackOne_def damage_def blankEffect_def PickBack_def remove_at_def Let_def)
qed

lemma find_map: "distinct (map effID q) \<Longrightarrow>
   (case find_index (\<lambda>e. effID e = i) q of None \<Rightarrow> None | Some j \<Rightarrow> Some (q ! j)) = map_of (map (\<lambda>e. (effID e, e)) q) i"
  by (induction q) (auto split: option.split)

lemma FindEffect_map_of:
  "distinct (map effID (PendingEffects s)) \<Longrightarrow>
   map_option fst (FindEffect i s) = map_of (map (\<lambda>e. (effID e, e)) (PendingEffects s)) i"
  using find_map [of "PendingEffects s" i]
  by (simp add: FindEffect_def effectIndex_def option.map_comp o_def split: option.splits)

lemma map_of_put:
  assumes "mset q' = add_mset e (mset q)" "distinct (map effID q')"
  shows "map_of (map (\<lambda>e. (effID e, e)) q') i = (if i = effID e then Some e else map_of (map (\<lambda>e. (effID e, e)) q) i)"
proof -
  have m: "mset (map (\<lambda>e. (effID e, e)) q') = mset (map (\<lambda>e. (effID e, e)) (e # q))" using assms(1) by simp
  have "set (map (\<lambda>e. (effID e, e)) q') = set (map (\<lambda>e. (effID e, e)) (e # q))" using m by (rule mset_eq_setD)
  moreover have "distinct (map fst (map (\<lambda>e. (effID e, e)) q'))" using assms(2) by (simp add: o_def)
  moreover have "distinct (map fst (map (\<lambda>e. (effID e, e)) (e # q)))"
    using assms mset_eq_imp_distinct_iff [of "map effID q'" "map effID (e # q)"] by (simp add: o_def)
  ultimately have "map_of (map (\<lambda>e. (effID e, e)) q') = map_of (map (\<lambda>e. (effID e, e)) (e # q))"
    using map_of_inject_set by blast
  then show ?thesis by simp
qed

text \<open>
  A pushed effect is found under the id that the push returned, wherever it was inserted,
  and the lookups of all other ids are unaffected; ids stay distinct.
\<close>

theorem InsertEffectAt_then_FindEffect:
  assumes q: "queueQuiet code" and ok: "effects_ok s" and fresh: "NextEffectID (IDs s) \<noteq> - 1"
  shows "\<exists>i s'. InsertEffectAt code idx eff s = Some (i, s') \<and> effects_ok s' \<and>
     (\<forall>k. map_option fst (FindEffect k s') =
        (if k = i then Some (eff\<lparr>effID := i\<rparr>) else map_option fst (FindEffect k s)))"
proof -
  let ?n = "nat (if int (length (PendingEffects s)) < (if idx < 0 then 0 else idx)
      then int (length (PendingEffects s)) else (if idx < 0 then 0 else idx))"
  let ?put = "\<lambda>e q. take ?n q @ e # drop ?n q"
  have put: "mset (?put e r) = add_mset e (mset r)" for e :: effect and r
    by (metis append_take_drop_id mset.simps(2) mset_append union_mset_add_mset_right)
  obtain s' where s': "pushWith ?put code eff s = Some (nextEffect s, s')"
    "PendingEffects s' = ?put (eff\<lparr>effID := nextEffect s\<rparr>) (PendingEffects s)" "NextEffectID (IDs s') = nextEffect s"
    by (rule pushWith_quiet [OF q])
  have ok': "effects_ok s'" using effects_ok_push [of s ?put s' eff] ok fresh put s'(2,3) by blast
  have "map_option fst (FindEffect k s') =
      (if k = nextEffect s then Some (eff\<lparr>effID := nextEffect s\<rparr>) else map_option fst (FindEffect k s))" for k
    using ok ok' put map_of_put [of "PendingEffects s'" "eff\<lparr>effID := nextEffect s\<rparr>" "PendingEffects s" k]
    by (simp add: FindEffect_map_of effects_ok_def s'(2))
  then show ?thesis using s'(1) ok' by (simp add: InsertEffectAt_def Let_def)
qed

theorem InsertEffectAt_then_FindEffect_witness:
  "\<exists>i s'. InsertEffectAt passiveCode 7 damage stackOne = Some (i, s') \<and>
     map_option fst (FindEffect i s') = Some (damage\<lparr>effID := i\<rparr>)"
proof -
  have "effects_ok stackOne" "NextEffectID (IDs stackOne) \<noteq> - 1" by (simp_all add: effects_ok_def stackOne_def)
  from InsertEffectAt_then_FindEffect [OF queueQuiet_passive this, of 7 damage] show ?thesis by (metis (no_types, lifting))
qed

section \<open>Flushing\<close>

lemma pushAll_quiet:
  assumes "queueQuiet code"
  shows "\<exists>s'. pushAll code batch s = Some (map (\<lambda>k. NextEffectID (IDs s) + of_nat (Suc k)) [0..<length batch], s') \<and>
     PendingEffects s' = PendingEffects s @ map (\<lambda>k. (batch ! k)\<lparr>effID := NextEffectID (IDs s) + of_nat (Suc k)\<rparr>) [0..<length batch]"
proof (induction batch arbitrary: s)
  case (Cons e es)
  obtain s1 where s1: "PushEffect code e s = Some (nextEffect s, s1)"
    "PendingEffects s1 = PendingEffects s @ [e\<lparr>effID := nextEffect s\<rparr>]" "NextEffectID (IDs s1) = nextEffect s"
    unfolding PushEffect_def by (rule pushWith_quiet [OF assms])
  obtain s2 where s2: "pushAll code es s1 = Some (map (\<lambda>k. NextEffectID (IDs s1) + of_nat (Suc k)) [0..<length es], s2)"
    "PendingEffects s2 = PendingEffects s1 @ map (\<lambda>k. (es ! k)\<lparr>effID := NextEffectID (IDs s1) + of_nat (Suc k)\<rparr>) [0..<length es]"
    using Cons by blast
  have up: "[0..<length (e # es)] = 0 # map Suc [0..<length es]" by (simp add: upt_conv_Cons map_Suc_upt del: upt_Suc)
  show ?case unfolding up using s1 s2 by (simp add: nextEffect_def o_def ac_simps)
qed simp

text \<open>
  A flush always returns when the handlers do, and it drains the whole batch: every staged
  effect is pushed exactly once, behind the effects already pending, in the order that
  \<open>reorder\<close> chose, under consecutive fresh ids, which are what the flush returns.
\<close>

theorem FlushTriggers_pushes_the_batch:
  assumes "queueQuiet code"
  shows "\<exists>ids s'. FlushTriggers code reorder s = Some (ids, s') \<and>
     (let batch = (if StagedTriggers s = [] then [] else case reorder of None \<Rightarrow> StagedTriggers s | Some f \<Rightarrow> f (StagedTriggers s)) in
      ids = map (\<lambda>k. NextEffectID (IDs s) + of_nat (Suc k)) [0..<length batch] \<and>
      PendingEffects s' = PendingEffects s @
        map (\<lambda>k. (batch ! k)\<lparr>effID := NextEffectID (IDs s) + of_nat (Suc k)\<rparr>) [0..<length batch])"
proof (cases "StagedTriggers s = []")
  case False
  let ?batch = "case reorder of None \<Rightarrow> StagedTriggers s | Some f \<Rightarrow> f (StagedTriggers s)"
  show ?thesis using pushAll_quiet [OF assms, of ?batch "s\<lparr>StagedTriggers := []\<rparr>"] False
    by (auto simp: FlushTriggers_def Let_def)
qed (simp add: FlushTriggers_def)

theorem FlushTriggers_pushes_the_batch_witness:
  "\<exists>ids s'. FlushTriggers passiveCode (Some (\<lambda>b. OrderByPlayer b [''1'', ''0'']))
      (StageTrigger (damage\<lparr>effController := ''1''\<rparr>) (StageTrigger damage stackOne)) = Some (ids, s') \<and> ids = [2, 3]"
proof -
  let ?s = "StageTrigger (damage\<lparr>effController := ''1''\<rparr>) (StageTrigger damage stackOne)"
  have "StagedTriggers ?s = [damage\<lparr>effID := 0\<rparr>, damage\<lparr>effController := ''1'', effID := 0\<rparr>]" "NextEffectID (IDs ?s) = 1"
    by (simp_all add: StageTrigger_def stackOne_def NewState_def)
  moreover have "length (OrderByPlayer (StagedTriggers ?s) [''1'', ''0'']) = 2"
    unfolding calculation(1) by (simp add: OrderByPlayer_spec damage_def blankEffect_def)
  ultimately show ?thesis
    using FlushTriggers_pushes_the_batch [OF queueQuiet_passive, of "Some (\<lambda>b. OrderByPlayer b [''1'', ''0''])" ?s]
    by (auto simp: Let_def upt_rec)
qed

end
