(* ===== verification/CcgPriority.thy ===== *)
theory CcgPriority
  imports CcgEffects Reducer
begin

text \<open>
  Response windows and step sequences (\<open>modules/ccg/priority.go\<close>, steps.go). A window runs the
  pass protocol over a fixed rotation of players and, when it is wired to a stage, gates the
  engine to the player holding priority by queueing \<open>SetActivePlayers\<close> events; every operation
  below returns the queue of the move's event recorder with what it appended.
\<close>

section \<open>Priority (\<open>priority.go\<close>)\<close>

record priority =
  prOpen :: bool
  prOrder :: "string list"
  prHolderIdx :: int
  prPasses :: int
  prStage :: string

definition closedWindow :: priority where
  "closedWindow = \<lparr>prOpen = False, prOrder = [], prHolderIdx = 0, prPasses = 0, prStage = ''''\<rparr>"

datatype priorityError =
    ErrPriorityOpen | ErrPriorityClosed | ErrNotPriorityHolder | ErrBadPriorityOrder | ErrNotInPriorityOrder

definition IsOpen :: "priority \<Rightarrow> bool" where
  "IsOpen p = prOpen p"

definition Holder :: "priority \<Rightarrow> string" where
  "Holder p =
     (if \<not> prOpen p then ''''
      else case index_at (prOrder p) (prHolderIdx p) of Some x \<Rightarrow> x | None \<Rightarrow> '''')"

definition valueConfig :: "string gomap option \<Rightarrow> activePlayersConfig" where
  "valueConfig v = ActivePlayersConfig None None None v 0 0 None None False None"

definition gateHolder :: "priority \<Rightarrow> event list \<Rightarrow> event list" where
  "gateHolder p evs =
     (if prStage p = '''' then evs
      else evSetActivePlayers (valueConfig (Some [(Holder p, prStage p)])) evs)"

definition closePriority :: "priority \<Rightarrow> event list \<Rightarrow> priority \<times> event list" where
  "closePriority p evs =
     (closedWindow, if prStage p \<noteq> '''' then evSetActivePlayers (valueConfig None) evs else evs)"

text \<open>The validation loop of \<open>OpenWindow\<close>, with the set of players seen so far.\<close>

fun goodOrder :: "string list \<Rightarrow> string list \<Rightarrow> bool" where
  "goodOrder seen [] = True"
| "goodOrder seen (p # ps) = (p \<noteq> '''' \<and> p \<notin> set seen \<and> goodOrder (p # seen) ps)"

definition OpenWindow :: "string list \<Rightarrow> string \<Rightarrow> priority \<Rightarrow> event list
    \<Rightarrow> priorityError option \<times> priority \<times> event list" where
  "OpenWindow players stage p evs =
     (if prOpen p then (Some ErrPriorityOpen, p, evs)
      else if players = [] \<or> \<not> goodOrder [] players then (Some ErrBadPriorityOrder, p, evs)
      else (let p = \<lparr>prOpen = True, prOrder = players, prHolderIdx = 0, prPasses = 0, prStage = stage\<rparr>
            in (None, p, gateHolder p evs)))"

definition rotateHolder :: "priority \<Rightarrow> priority" where
  "rotateHolder p = p\<lparr>prHolderIdx := gomod (prHolderIdx p + 1) (int (length (prOrder p)))\<rparr>"

definition Pass :: "string \<Rightarrow> priority \<Rightarrow> event list \<Rightarrow> (priorityError + bool) \<times> priority \<times> event list" where
  "Pass player p evs =
     (if \<not> prOpen p then (Inl ErrPriorityClosed, p, evs)
      else if player \<noteq> Holder p then (Inl ErrNotPriorityHolder, p, evs)
      else (let p = p\<lparr>prPasses := prPasses p + 1\<rparr>
            in if int (length (prOrder p)) \<le> prPasses p then (Inr True, closePriority p evs)
               else (let p = rotateHolder p in (Inr False, p, gateHolder p evs))))"

definition ActionTaken :: "string \<Rightarrow> bool \<Rightarrow> priority \<Rightarrow> event list \<Rightarrow> priorityError option \<times> priority \<times> event list" where
  "ActionTaken player retain p evs =
     (if \<not> prOpen p then (Some ErrPriorityClosed, p, evs)
      else if player \<noteq> Holder p then (Some ErrNotPriorityHolder, p, evs)
      else (let p = p\<lparr>prPasses := 0\<rparr>
            in if retain then (None, p, evs)
               else (let p = rotateHolder p in (None, p, gateHolder p evs))))"

definition Drop :: "string \<Rightarrow> priority \<Rightarrow> event list \<Rightarrow> (priorityError + bool) \<times> priority \<times> event list" where
  "Drop player p evs =
     (if \<not> prOpen p then (Inl ErrPriorityClosed, p, evs)
      else case find_index (\<lambda>x. x = player) (prOrder p) of
        None \<Rightarrow> (Inl ErrNotInPriorityOrder, p, evs)
      | Some idx \<Rightarrow>
          (let held = (int idx = prHolderIdx p);
               p = p\<lparr>prOrder := remove_at idx (prOrder p)\<rparr>
           in if prOrder p = [] \<or> int (length (prOrder p)) \<le> prPasses p then (Inr True, closePriority p evs)
              else (let h = (if int idx < prHolderIdx p then prHolderIdx p - 1 else prHolderIdx p);
                        p = p\<lparr>prHolderIdx := gomod h (int (length (prOrder p)))\<rparr>
                    in (Inr False, p, if held then gateHolder p evs else evs))))"

definition CloseWindow :: "priority \<Rightarrow> event list \<Rightarrow> priority \<times> event list" where
  "CloseWindow p evs = (if prOpen p then closePriority p evs else (p, evs))"

definition ResetPriority :: "priority \<Rightarrow> priority" where
  "ResetPriority p = closedWindow"

definition HaltWhileOpen :: "priority \<Rightarrow> (effect list \<Rightarrow> int) \<Rightarrow> effect list \<Rightarrow> int" where
  "HaltWhileOpen p inner pending = (if prOpen p then - 1 else inner pending)"

section \<open>Steps (\<open>steps.go\<close>)\<close>

record stepDef =
  sdName :: string
  sdWindow :: bool

record stepSequence =
  sqName :: string
  sqSteps :: "stepDef list"
  sqIndex :: int
  sqActive :: bool

definition noSequence :: stepSequence where
  "noSequence = \<lparr>sqName = '''', sqSteps = [], sqIndex = 0, sqActive = False\<rparr>"

datatype stepError = ErrSequenceActive | ErrSequenceEmpty | ErrSequenceInactive

definition BeginSequence :: "string \<Rightarrow> stepDef list \<Rightarrow> stepSequence \<Rightarrow> stepError option \<times> stepSequence" where
  "BeginSequence name steps s =
     (if sqActive s then (Some ErrSequenceActive, s)
      else if steps = [] then (Some ErrSequenceEmpty, s)
      else (None, \<lparr>sqName = name, sqSteps = steps, sqIndex = 0, sqActive = True\<rparr>))"

definition CurrentStep :: "stepSequence \<Rightarrow> stepDef option" where
  "CurrentStep s = (if \<not> sqActive s then None else index_at (sqSteps s) (sqIndex s))"

definition IsStep :: "string \<Rightarrow> stepSequence \<Rightarrow> bool" where
  "IsStep step s = (case CurrentStep s of Some d \<Rightarrow> sdName d = step | None \<Rightarrow> False)"

definition ResetSequence :: "stepSequence \<Rightarrow> stepSequence" where
  "ResetSequence s = noSequence"

text \<open>\<open>Inr None\<close> is \<open>done\<close>; \<open>Inr (Some next)\<close> the next step.\<close>

definition Advance :: "stepSequence \<Rightarrow> (stepError + stepDef option) \<times> stepSequence" where
  "Advance s =
     (if \<not> sqActive s then (Inl ErrSequenceInactive, s)
      else if sqIndex s < 0 \<or> int (length (sqSteps s)) \<le> sqIndex s then (Inl ErrSequenceInactive, s)
      else if int (length (sqSteps s)) \<le> sqIndex s + 1 then (Inr None, ResetSequence s)
      else (Inr (Some (sqSteps s ! nat (sqIndex s + 1))), s\<lparr>sqIndex := sqIndex s + 1\<rparr>))"

section \<open>The window invariant\<close>

definition priority_ok :: "priority \<Rightarrow> bool" where
  "priority_ok p \<longleftrightarrow>
     (if prOpen p
      then distinct (prOrder p) \<and> '''' \<notin> set (prOrder p) \<and>
           0 \<le> prHolderIdx p \<and> prHolderIdx p < int (length (prOrder p)) \<and>
           0 \<le> prPasses p \<and> prPasses p < int (length (prOrder p))
      else p = closedWindow)"

lemma goodOrder_distinct: "goodOrder seen ps \<longleftrightarrow> distinct ps \<and> '''' \<notin> set ps \<and> set ps \<inter> set seen = {}"
  by (induction ps arbitrary: seen) auto

lemma Holder_nth: "priority_ok p \<Longrightarrow> prOpen p \<Longrightarrow> Holder p = prOrder p ! nat (prHolderIdx p)"
  by (simp add: Holder_def priority_ok_def index_at_in)

lemma Holder_in: "priority_ok p \<Longrightarrow> prOpen p \<Longrightarrow> Holder p \<in> set (prOrder p)"
  by (simp add: Holder_nth) (simp add: priority_ok_def nat_less_iff)

lemma closedWindow_ok [simp]: "priority_ok closedWindow"
  by (simp add: priority_ok_def closedWindow_def)

lemma prOrder_nonempty: "priority_ok p \<Longrightarrow> prOpen p \<Longrightarrow> prOrder p \<noteq> []"
  by (auto simp: priority_ok_def)

lemma rotateHolder_ok: "priority_ok p \<Longrightarrow> prOpen p \<Longrightarrow> priority_ok (rotateHolder p)"
  using gomod_range [of "prHolderIdx p + 1" "int (length (prOrder p))"] prOrder_nonempty [of p]
  by (simp add: priority_ok_def rotateHolder_def)

lemma remove_at_facts:
  assumes "distinct xs" "i < length xs"
  shows "distinct (remove_at i xs)" "set (remove_at i xs) = set xs - {xs ! i}" "length (remove_at i xs) = length xs - 1"
proof -
  have "find_index (\<lambda>x. x = xs ! i) xs = Some i" using find_index_distinct [of "\<lambda>x. x" xs i] assms by simp
  then show "distinct (remove_at i xs)" "set (remove_at i xs) = set xs - {xs ! i}"
    using remove_at_keyed [of "\<lambda>x. x" "xs ! i" xs i] assms(1) by auto
  show "length (remove_at i xs) = length xs - 1" using assms(2) by (rule length_remove_at)
qed

named_theorems priority_intros \<open>operations that keep a response window well-formed\<close>

lemma OpenWindow_ok [priority_intros]: "priority_ok p \<Longrightarrow> priority_ok (fst (snd (OpenWindow players stage p evs)))"
  by (auto simp: OpenWindow_def Let_def priority_ok_def goodOrder_distinct)

lemma Pass_ok [priority_intros]: "priority_ok p \<Longrightarrow> priority_ok (fst (snd (Pass player p evs)))"
proof -
  assume ok: "priority_ok p"
  let ?p = "p\<lparr>prPasses := prPasses p + 1\<rparr>"
  have "priority_ok ?p" if "prOpen p" "\<not> int (length (prOrder p)) \<le> prPasses p + 1"
    using ok that by (simp add: priority_ok_def)
  then show ?thesis using ok rotateHolder_ok [of ?p]
    by (auto simp: Pass_def Let_def closePriority_def)
qed

lemma ActionTaken_ok [priority_intros]: "priority_ok p \<Longrightarrow> priority_ok (fst (snd (ActionTaken player retain p evs)))"
proof -
  assume ok: "priority_ok p"
  then have "priority_ok (p\<lparr>prPasses := 0\<rparr>)" if "prOpen p" using that prOrder_nonempty [OF ok] by (simp add: priority_ok_def)
  then show ?thesis using ok rotateHolder_ok [of "p\<lparr>prPasses := 0\<rparr>"] by (auto simp: ActionTaken_def Let_def)
qed

lemma Drop_ok [priority_intros]:
  assumes ok: "priority_ok p"
  shows "priority_ok (fst (snd (Drop player p evs)))"
proof (cases "prOpen p")
  case op: True
  show ?thesis
  proof (cases "find_index (\<lambda>x. x = player) (prOrder p)")
    case (Some i)
    have i: "i < length (prOrder p)" using find_index_Some [OF Some] by simp
    have d: "distinct (prOrder p)" "'''' \<notin> set (prOrder p)" "0 \<le> prPasses p" "0 \<le> prHolderIdx p"
      using ok op by (auto simp: priority_ok_def)
    let ?q = "remove_at i (prOrder p)"
    show ?thesis
    proof (cases "?q = [] \<or> int (length ?q) \<le> prPasses p")
      case False
      let ?h = "if int i < prHolderIdx p then prHolderIdx p - 1 else prHolderIdx p"
      have "0 \<le> gomod ?h (int (length ?q)) \<and> gomod ?h (int (length ?q)) < int (length ?q)"
        using d(4) False by (intro gomod_range) auto
      then show ?thesis using op Some False d remove_at_facts [OF d(1) i]
        by (auto simp: Drop_def Let_def priority_ok_def split: if_splits)
    qed (use op Some in \<open>auto simp: Drop_def Let_def closePriority_def\<close>)
  qed (use ok op in \<open>simp add: Drop_def\<close>)
qed (use ok in \<open>simp add: Drop_def\<close>)

lemma CloseWindow_ok [priority_intros]: "priority_ok p \<Longrightarrow> priority_ok (fst (CloseWindow p evs))"
  by (simp add: CloseWindow_def closePriority_def)

section \<open>Windows and the engine\<close>

text \<open>The engine's side of a window: the recorded \<open>SetActivePlayers\<close> events are applied in order.\<close>

fun applyGates :: "event list \<Rightarrow> 'g state \<Rightarrow> 'g state" where
  "applyGates [] st = st"
| "applyGates (EvSetActivePlayers cfg # evs) st = applyGates evs (applySetActivePlayers st cfg)"
| "applyGates (_ # evs) st = applyGates evs st"

text \<open>One protocol call of a move, with the events it records applied to the engine's state.\<close>

inductive window_step :: "priority \<times> 'g state \<Rightarrow> priority \<times> 'g state \<Rightarrow> bool" where
  open_window: "OpenWindow players stage p [] = (err, p', evs) \<Longrightarrow> window_step (p, st) (p', applyGates evs st)"
| pass: "Pass player p [] = (res, p', evs) \<Longrightarrow> window_step (p, st) (p', applyGates evs st)"
| action: "ActionTaken player retain p [] = (err, p', evs) \<Longrightarrow> window_step (p, st) (p', applyGates evs st)"
| drop: "Drop player p [] = (res, p', evs) \<Longrightarrow> window_step (p, st) (p', applyGates evs st)"
| close: "CloseWindow p [] = (p', evs) \<Longrightarrow> window_step (p, st) (p', applyGates evs st)"
| reset: "window_step (p, st) (ResetPriority p, st)"

definition gated :: "priority \<Rightarrow> 'g state \<Rightarrow> bool" where
  "gated p st \<longleftrightarrow>
     (prOpen p \<and> prStage p \<noteq> '''' \<longrightarrow> ActivePlayers (Ctx st) = Some [(Holder p, prStage p)])"

lemma gateHolder_gates: "gated p (applyGates (gateHolder p []) st)"
  by (auto simp: gated_def gateHolder_def evSetActivePlayers_def valueConfig_def activeMap_def
      nilIfEmpty_def mput_def)

lemma gated_same: "gated p st \<Longrightarrow> Holder p' = Holder p \<Longrightarrow> prStage p' = prStage p \<Longrightarrow> prOpen p' = prOpen p \<Longrightarrow> gated p' st"
  by (simp add: gated_def)

lemma gated_closed: "gated closedWindow st"
  by (simp add: gated_def closedWindow_def)

lemma Drop_holder:
  assumes ok: "priority_ok p" and op: "prOpen p" and i: "find_index (\<lambda>x. x = player) (prOrder p) = Some i"
    and other: "int i \<noteq> prHolderIdx p" and d: "Drop player p evs = (Inr False, p', evs')"
  shows "Holder p' = Holder p"
proof -
  let ?h = "prHolderIdx p" and ?q = "remove_at i (prOrder p)"
  have b: "0 \<le> ?h" "?h < int (length (prOrder p))" "i < length (prOrder p)"
    using ok op find_index_Some [OF i] by (auto simp: priority_ok_def)
  have len: "length ?q = length (prOrder p) - 1" using b(3) by (rule length_remove_at)
  let ?h' = "if int i < ?h then ?h - 1 else ?h"
  have h': "0 \<le> ?h'" "?h' < int (length ?q)" using b other len by auto
  have p': "p' = p\<lparr>prOrder := ?q, prHolderIdx := ?h'\<rparr>"
    using d op i h' by (auto simp: Drop_def Let_def gomod_nonneg split: if_splits)
  have "?q ! nat ?h' = prOrder p ! nat ?h"
    using b other h' len by (auto simp: remove_at_def nth_append min_def nat_diff_distrib)
  then show ?thesis using op b(1,2) h' by (simp add: Holder_def p' index_at_in)
qed

lemma Drop_stage: "Drop player p evs = (Inr False, p', evs') \<Longrightarrow> prStage p' = prStage p \<and> prOpen p' = prOpen p"
  by (auto simp: Drop_def Let_def split: if_splits option.splits)

lemma Drop_gated:
  assumes ok: "priority_ok p" and g: "gated p st" and d: "Drop player p [] = (res, p', evs)"
  shows "gated p' (applyGates evs st)"
proof (cases "\<exists>i. prOpen p \<and> find_index (\<lambda>x. x = player) (prOrder p) = Some i \<and> res = Inr False")
  case True
  then obtain i where i: "prOpen p" "find_index (\<lambda>x. x = player) (prOrder p) = Some i" "res = Inr False" by blast
  show ?thesis
  proof (cases "int i = prHolderIdx p")
    case True
    then have "evs = gateHolder p' []" using d i by (auto simp: Drop_def Let_def split: if_splits)
    then show ?thesis using gateHolder_gates by simp
  next
    case False
    then have "evs = []" using d i by (auto simp: Drop_def Let_def split: if_splits)
    then show ?thesis
      using gated_same [OF g] Drop_holder [OF ok i(1,2) False] Drop_stage [of player p "[]" p' evs] d i(3) by simp
  qed
next
  case False
  then have "p' = p \<and> evs = [] \<or> p' = closedWindow"
    using d by (auto simp: Drop_def Let_def closePriority_def split: if_splits option.splits)
  then show ?thesis using g gated_closed by auto
qed

lemma window_step_ok:
  "window_step x y \<Longrightarrow> priority_ok (fst x) \<Longrightarrow> gated (fst x) (snd x) \<Longrightarrow> priority_ok (fst y) \<and> gated (fst y) (snd y)"
proof (induction rule: window_step.induct)
  case (open_window players stage p err p' evs st)
  then have "p' = p \<and> evs = [] \<or> evs = gateHolder p' []" by (auto simp: OpenWindow_def Let_def split: if_splits)
  then show ?case using open_window OpenWindow_ok [of p players stage "[]"] gateHolder_gates by fastforce
next
  case (pass player p res p' evs st)
  then have "p' = p \<and> evs = [] \<or> evs = gateHolder p' [] \<or> p' = closedWindow"
    by (auto simp: Pass_def Let_def closePriority_def split: if_splits)
  then show ?case using pass Pass_ok [of p player "[]"] gateHolder_gates gated_closed by fastforce
next
  case (action player retain p err p' evs st)
  have "p' = p \<and> evs = [] \<or> evs = gateHolder p' [] \<or> p' = p\<lparr>prPasses := 0\<rparr> \<and> evs = []"
    using action by (auto simp: ActionTaken_def Let_def split: if_splits)
  moreover have "gated (p\<lparr>prPasses := 0\<rparr>) st" using action by (simp add: gated_def Holder_def)
  ultimately show ?case using action ActionTaken_ok [of p player retain "[]"] gateHolder_gates by fastforce
next
  case (drop player p res p' evs st)
  then show ?case using Drop_gated Drop_ok [of p player "[]"] by fastforce
next
  case (close p p' evs st)
  then have "p' = p \<and> evs = [] \<or> p' = closedWindow" by (auto simp: CloseWindow_def closePriority_def split: if_splits)
  then show ?case using close CloseWindow_ok [of p "[]"] gated_closed by fastforce
qed (simp add: ResetPriority_def gated_closed)

lemma window_reachable:
  "window_step\<^sup>*\<^sup>* (closedWindow, st) x \<Longrightarrow> priority_ok (fst x) \<and> gated (fst x) (snd x)"
  by (induction rule: rtranclp_induct) (auto simp: gated_closed dest: window_step_ok)



section \<open>Progress of a window\<close>

fun passEach :: "string list \<Rightarrow> priority \<Rightarrow> event list \<Rightarrow> (priorityError + bool) list \<times> priority \<times> event list" where
  "passEach [] p evs = ([], p, evs)"
| "passEach (x # xs) p evs =
     (let (res, p, evs) = Pass x p evs; (rs, p, evs) = passEach xs p evs in (res # rs, p, evs))"

text \<open>The players who still have to pass, from the holder on.\<close>

definition stillToPass :: "priority \<Rightarrow> string list" where
  "stillToPass p = take (length (prOrder p) - nat (prPasses p)) (rotate (nat (prHolderIdx p)) (prOrder p))"

lemma rotate_nth_tl:
  assumes "h < length xs" "0 < n" "n \<le> length xs"
  shows "take n (rotate h xs) = xs ! h # take (n - 1) (rotate (Suc h) xs)"
proof -
  have ne: "rotate h xs \<noteq> []" using assms by auto
  have hd: "hd (rotate h xs) = xs ! h" using assms by (subst hd_rotate_conv_nth) auto
  have "rotate (Suc h) xs = tl (rotate h xs) @ [hd (rotate h xs)]" using ne by (simp add: rotate1_hd_tl)
  then have "take (n - 1) (rotate (Suc h) xs) = take (n - 1) (tl (rotate h xs))" using assms by simp
  then show ?thesis using ne hd assms(2) by (cases "rotate h xs"; cases n) auto
qed

lemma stillToPass_step:
  assumes ok: "priority_ok p" and op: "prOpen p" and more: "prPasses p + 1 < int (length (prOrder p))"
  shows "stillToPass p = Holder p # stillToPass (rotateHolder (p\<lparr>prPasses := prPasses p + 1\<rparr>))"
proof -
  let ?n = "length (prOrder p)" and ?h = "nat (prHolderIdx p)"
  have b: "?h < ?n" "0 \<le> prHolderIdx p" "0 \<le> prPasses p" using ok op by (auto simp: priority_ok_def nat_less_iff)
  have "gomod (prHolderIdx p + 1) (int ?n) = (prHolderIdx p + 1) mod int ?n"
    using b by (intro gomod_nonneg) auto
  also have "\<dots> = int (Suc ?h mod ?n)" using b(2) by (simp add: zmod_int add.commute)
  finally have g: "nat (gomod (prHolderIdx p + 1) (int ?n)) = Suc ?h mod ?n" by simp
  have r: "rotate (Suc ?h mod ?n) (prOrder p) = rotate (Suc ?h) (prOrder p)" by (rule rotate_conv_mod [symmetric])
  have "take (?n - nat (prPasses p)) (rotate ?h (prOrder p)) =
      prOrder p ! ?h # take (?n - nat (prPasses p) - 1) (rotate (Suc ?h) (prOrder p))"
    using b more by (intro rotate_nth_tl) auto
  moreover have "?n - nat (prPasses p) - 1 = ?n - nat (prPasses p + 1)" using b(3) by (simp add: nat_add_distrib)
  ultimately show ?thesis using Holder_nth [OF ok op] by (simp add: stillToPass_def rotateHolder_def g r)
qed

lemma passEach_closes:
  "priority_ok p \<Longrightarrow> prOpen p \<Longrightarrow> n = length (prOrder p) - nat (prPasses p) \<Longrightarrow>
   fst (passEach (stillToPass p) p evs) = replicate (n - 1) (Inr False) @ [Inr True] \<and>
   fst (snd (passEach (stillToPass p) p evs)) = closedWindow"
proof (induction n arbitrary: p evs)
  case 0
  then show ?case by (auto simp: priority_ok_def)
next
  case (Suc n)
  let ?p = "p\<lparr>prPasses := prPasses p + 1\<rparr>"
  have b: "0 \<le> prPasses p" "prPasses p < int (length (prOrder p))" "nat (prHolderIdx p) < length (prOrder p)"
    using Suc.prems by (auto simp: priority_ok_def nat_less_iff)
  show ?case
  proof (cases "prPasses p + 1 < int (length (prOrder p))")
    case True
    have okp: "priority_ok ?p" "prOpen ?p" using Suc.prems True by (auto simp: priority_ok_def)
    let ?q = "rotateHolder ?p"
    have q: "priority_ok ?q" "prOpen ?q" using rotateHolder_ok [OF okp] okp(2) by (simp_all add: rotateHolder_def)
    have n: "n = length (prOrder ?q) - nat (prPasses ?q)"
      using Suc.prems(3) b(1) by (simp add: rotateHolder_def nat_add_distrib)
    have "Pass (Holder p) p evs = (Inr False, ?q, gateHolder ?q evs)"
      using Suc.prems(2) True by (simp add: Pass_def Let_def)
    moreover have "n \<noteq> 0" using n True b by (simp add: rotateHolder_def nat_add_distrib)
    ultimately show ?thesis
      using Suc.IH [OF q n, of "gateHolder ?q evs"] stillToPass_step [OF Suc.prems(1,2) True]
      by (cases n) (auto simp: split_def)
  next
    case False
    then have n: "length (prOrder p) - nat (prPasses p) = 1" using b by linarith
    then have "stillToPass p = [Holder p]"
      using rotate_nth_tl [OF b(3), of 1] b Holder_nth [OF Suc.prems(1,2)] by (simp add: stillToPass_def)
    then show ?thesis using Suc.prems False n
      by (auto simp: Pass_def Let_def closePriority_def)
  qed
qed

text \<open>
  C23. A window makes progress: when the players who still have to pass do so in turn, starting
  with the holder, every pass is accepted, none but the last closes the window, and the last
  one does. For a freshly opened window these are exactly its players, once each, in order.
\<close>

theorem unbroken_passes_close_the_window:
  assumes "priority_ok p" "prOpen p"
  shows "fst (passEach (stillToPass p) p evs) = replicate (length (stillToPass p) - 1) (Inr False) @ [Inr True] \<and>
     fst (snd (passEach (stillToPass p) p evs)) = closedWindow \<and>
     (prPasses p = 0 \<and> prHolderIdx p = 0 \<longrightarrow> stillToPass p = prOrder p)"
  using passEach_closes [OF assms refl, of evs] by (simp add: stillToPass_def)

theorem unbroken_passes_close_the_window_witness:
  "let p = fst (snd (OpenWindow [''a'', ''b'', ''c''] '''' closedWindow [])) in
   priority_ok p \<and> prOpen p \<and> fst (passEach [''a'', ''b'', ''c''] p []) = [Inr False, Inr False, Inr True]"
proof -
  let ?p = "fst (snd (OpenWindow [''a'', ''b'', ''c''] '''' closedWindow []))"
  have p: "?p = \<lparr>prOpen = True, prOrder = [''a'', ''b'', ''c''], prHolderIdx = 0, prPasses = 0, prStage = ''''\<rparr>"
    by (simp add: OpenWindow_def closedWindow_def Let_def)
  have ok: "priority_ok ?p" "prOpen ?p" unfolding p by (simp_all add: priority_ok_def)
  have s: "stillToPass ?p = [''a'', ''b'', ''c'']" unfolding p by (simp add: stillToPass_def)
  show ?thesis using unbroken_passes_close_the_window [OF ok, of "[]"] ok unfolding s
    by (simp add: Let_def numeral_2_eq_2)
qed

text \<open>
  A player who is dropped still counts as passed. Dropping shortens the order but not the pass
  count: once the first of three players has passed and left, the window closes on the second
  player's pass although the third was never asked.
\<close>

theorem dropped_pass_still_counts:
  "let (_, p, _) = OpenWindow [''0'', ''1'', ''2''] '''' closedWindow [];
       (_, p, _) = Pass ''0'' p [];
       (dropped, p, _) = Drop ''0'' p [];
       (passed, p, _) = Pass ''1'' p []
   in dropped = Inr False \<and> passed = Inr True \<and> \<not> prOpen p"
  by code_simp

text \<open>
  Dropping a player who has already passed can close the window over a player who never got
  to respond: the passes of the dropped player stay in the count while the order shrinks. Here
  \<open>a\<close> and \<open>b\<close> have passed, \<open>c\<close> holds priority, and dropping \<open>a\<close> reports the window as closed.
\<close>

theorem Drop_closes_over_the_holder:
  "let (e, p0, _) = OpenWindow [''a'', ''b'', ''c''] '''' closedWindow [];
       (r1, p1, _) = Pass ''a'' p0 []; (r2, p2, _) = Pass ''b'' p1 [];
       (r3, p3, _) = Drop ''a'' p2 []
   in e = None \<and> r1 = Inr False \<and> r2 = Inr False \<and> Holder p2 = ''c'' \<and> prOpen p2 \<and> r3 = Inr True \<and> \<not> prOpen p3"
  by code_simp

text \<open>
  While a window is open nothing resolves: with a picker wrapped by HaltWhileOpen, a resolve
  step returns without touching the state, publishing or running any resolver.
\<close>

theorem nothing_resolves_while_open:
  assumes "prOpen p"
  shows "ResolveNext code (HaltWhileOpen p pick) table s = Some ((blankEffect, False, None), s)"
  using assms by (simp add: ResolveNext_def HaltWhileOpen_def index_at_def)

theorem nothing_resolves_while_open_witness:
  "ResolveNext passiveCode (HaltWhileOpen (closedWindow\<lparr>prOpen := True\<rparr>) PickBack) Map.empty stackOne =
     Some ((blankEffect, False, None :: unit resolveError option), stackOne)"
  by (rule nothing_resolves_while_open) simp

section \<open>Progress of a step sequence\<close>

fun advanceAll :: "nat \<Rightarrow> stepSequence \<Rightarrow> (stepError + stepDef option) list \<times> stepSequence" where
  "advanceAll 0 s = ([], s)"
| "advanceAll (Suc n) s = (let (r, s) = Advance s; (rs, s) = advanceAll n s in (r # rs, s))"

lemma advanceAll_from:
  "sqActive s \<Longrightarrow> 0 \<le> sqIndex s \<Longrightarrow> sqIndex s < int (length (sqSteps s)) \<Longrightarrow> n = length (sqSteps s) - nat (sqIndex s) \<Longrightarrow>
   advanceAll n s = (map (\<lambda>d. Inr (Some d)) (drop (nat (sqIndex s) + 1) (sqSteps s)) @ [Inr None], noSequence)"
proof (induction n arbitrary: s)
  case (Suc n)
  show ?case
  proof (cases "sqIndex s + 1 < int (length (sqSteps s))")
    case True
    let ?i = "nat (sqIndex s) + 1" and ?s = "s\<lparr>sqIndex := sqIndex s + 1\<rparr>"
    have i: "nat (sqIndex s + 1) = ?i" "?i < length (sqSteps s)" using Suc.prems True by (auto simp: nat_add_distrib)
    have a: "Advance s = (Inr (Some (sqSteps s ! ?i)), ?s)" using Suc.prems True i by (simp add: Advance_def)
    have "advanceAll n ?s = (map (\<lambda>d. Inr (Some d)) (drop (?i + 1) (sqSteps s)) @ [Inr None], noSequence)"
    proof -
      have "n = length (sqSteps ?s) - nat (sqIndex ?s)" using Suc.prems(4) i by simp
      then show ?thesis using Suc.IH [of ?s] Suc.prems True i(1) by simp
    qed
    moreover have "drop ?i (sqSteps s) = sqSteps s ! ?i # drop (?i + 1) (sqSteps s)"
      using i(2) by (simp add: Cons_nth_drop_Suc)
    ultimately show ?thesis by (simp add: a)
  next
    case False
    then have "n = 0" using Suc.prems by linarith
    moreover have "Advance s = (Inr None, noSequence)" using Suc.prems False by (simp add: Advance_def ResetSequence_def)
    moreover have "drop (nat (sqIndex s) + 1) (sqSteps s) = []" using Suc.prems False by simp
    ultimately show ?thesis by simp
  qed
qed simp

text \<open>
  A step sequence visits every step once, in order, and ends: after Begin the first step is
  current, the following Advance calls return the remaining steps one by one, the call after the
  last step reports done, and the sequence is then inactive.
\<close>

theorem sequence_visits_every_step:
  assumes "\<not> sqActive s" "steps \<noteq> []"
  shows "\<exists>s'. BeginSequence name steps s = (None, s') \<and> CurrentStep s' = Some (hd steps) \<and>
     advanceAll (length steps) s' = (map (\<lambda>d. Inr (Some d)) (tl steps) @ [Inr None], noSequence) \<and>
     fst (Advance noSequence) = Inl ErrSequenceInactive"
proof -
  let ?s = "\<lparr>sqName = name, sqSteps = steps, sqIndex = 0, sqActive = True\<rparr>"
  have "BeginSequence name steps s = (None, ?s)" using assms by (simp add: BeginSequence_def)
  moreover have "CurrentStep ?s = Some (hd steps)" using assms(2) by (simp add: CurrentStep_def index_at_in hd_conv_nth)
  moreover have "advanceAll (length steps) ?s = (map (\<lambda>d. Inr (Some d)) (tl steps) @ [Inr None], noSequence)"
  proof -
    have "advanceAll (length steps) ?s =
      (map (\<lambda>d. Inr (Some d)) (drop (nat (sqIndex ?s) + 1) (sqSteps ?s)) @ [Inr None], noSequence)"
      by (rule advanceAll_from) (use assms(2) in simp_all)
    moreover have "drop (nat (sqIndex ?s) + 1) (sqSteps ?s) = tl steps" by (simp add: drop_Suc)
    ultimately show ?thesis by (simp only:)
  qed
  ultimately show ?thesis by (simp add: Advance_def noSequence_def)
qed

theorem sequence_visits_every_step_witness:
  "\<exists>s'. BeginSequence ''combat'' [\<lparr>sdName = ''declare'', sdWindow = True\<rparr>, \<lparr>sdName = ''damage'', sdWindow = False\<rparr>] noSequence = (None, s') \<and>
     fst (advanceAll 2 s') = [Inr (Some \<lparr>sdName = ''damage'', sdWindow = False\<rparr>), Inr None]"
proof -
  let ?steps = "[\<lparr>sdName = ''declare'', sdWindow = True\<rparr>, \<lparr>sdName = ''damage'', sdWindow = False\<rparr>]"
  have "\<not> sqActive noSequence" "?steps \<noteq> []" by (simp_all add: noSequence_def)
  from sequence_visits_every_step [OF this, of "''combat''"] obtain s' where
    "BeginSequence ''combat'' ?steps noSequence = (None, s')"
    "advanceAll (length ?steps) s' = (map (\<lambda>d. Inr (Some d)) (tl ?steps) @ [Inr None], noSequence)" by blast
  moreover have "length ?steps = 2" by simp
  moreover have "map (\<lambda>d. Inr (Some d)) (tl ?steps) @ [Inr None] = [Inr (Some \<lparr>sdName = ''damage'', sdWindow = False\<rparr>), Inr None]" by simp
  ultimately show ?thesis by (intro exI [of _ s']) (simp only: fst_conv)
qed

end
