(* ===== verification/CcgModifiers.thy ===== *)
theory CcgModifiers
  imports CcgZones "HOL-Library.Product_Lexorder"
begin

text \<open>
  Continuous effects and queries: modifiers with layers, lifetimes and the sweep
  (\<open>modules/ccg/modifier.go\<close>), and the target queries over the entity map (targets.go).
  Go iterates maps in an unspecified order; the association list stands for one such order,
  and the theorems show that the results do not depend on it.
\<close>

section \<open>Modifiers (\<open>modifier.go\<close>)\<close>

definition AddModifier :: "modifier \<Rightarrow> 'k ccg \<Rightarrow> 64 word \<times> 'k ccg" where
  "AddModifier m s =
     (let i = NextModID (IDs s) + 1;
          m = m\<lparr>modID := i, modInsertion := NextInsertion (IDs s)\<rparr>
      in (i, s\<lparr>IDs := (IDs s)\<lparr>NextModID := i, NextInsertion := wrap64 (NextInsertion (IDs s) + 1)\<rparr>,
              Modifiers := mput i m (Modifiers s)\<rparr>))"

definition RemoveModifier :: "64 word \<Rightarrow> 'k ccg \<Rightarrow> 'k ccg" where
  "RemoveModifier i s = s\<lparr>Modifiers := mdel i (Modifiers s)\<rparr>"

definition modifierAlive :: "'k ccg \<Rightarrow> modifier \<Rightarrow> bool" where
  "modifierAlive s m =
     (if modExpiresWith m = 0 then True
      else case Get s (modExpiresWith m) of
        None \<Rightarrow> False
      | Some e \<Rightarrow> modWhileIn m = [] \<or> list_ex (\<lambda>z. entZone e = z) (modWhileIn m))"

text \<open>\<open>sort.SliceStable\<close> by layer, then insertion.\<close>

definition modifiersFor :: "'k ccg \<Rightarrow> entityID \<Rightarrow> string \<Rightarrow> modifier list" where
  "modifiersFor s i attr =
     sort_key (\<lambda>m. (modLayer m, modInsertion m))
       (filter (\<lambda>m. modTarget m = i \<and> modAttribute m = attr \<and> modifierAlive s m) (map snd (Modifiers s)))"

fun toFloat :: "goval \<Rightarrow> f64 option" where
  "toFloat (VInt t n) = (if t = ''int'' \<or> t = ''int64'' then Some (int_to_f64 n) else None)"
| "toFloat (VFloat t x) = (if t = ''float64'' \<or> t = ''float32'' then Some x else None)"
| "toFloat _ = None"

fun asInt :: "goval \<Rightarrow> int option" where
  "asInt (VInt t n) = (if t = ''int'' \<or> t = ''int64'' then Some n else None)"
| "asInt _ = None"

definition numericOp :: "(f64 \<Rightarrow> f64 \<Rightarrow> f64) \<Rightarrow> goval \<Rightarrow> goval \<Rightarrow> goval" where
  "numericOp op a b =
     (case (toFloat a, toFloat b) of
        (Some af, Some bf) \<Rightarrow>
          if asInt a \<noteq> None \<and> asInt b \<noteq> None then VI (f64_to_int (op af bf))
          else VFloat ''float64'' (op af bf)
      | _ \<Rightarrow> a)"

definition numericAdd :: "goval \<Rightarrow> goval \<Rightarrow> goval" where
  "numericAdd a b = numericOp f64_add a b"

definition numericMul :: "goval \<Rightarrow> goval \<Rightarrow> goval" where
  "numericMul a b = numericOp f64_mul a b"

definition applyOp :: "goval \<Rightarrow> modifier \<Rightarrow> goval" where
  "applyOp cur m =
     (case modOp m of
        OpSet \<Rightarrow> modValue m
      | OpAdd \<Rightarrow> numericAdd cur (modValue m)
      | OpMultiply \<Rightarrow> numericMul cur (modValue m)
      | OpOther _ \<Rightarrow> cur)"

definition baseAttr :: "'k ccg \<Rightarrow> entityID \<Rightarrow> string \<Rightarrow> goval \<Rightarrow> goval" where
  "baseAttr s i attr def =
     (case Get s i of
        None \<Rightarrow> def
      | Some e \<Rightarrow> (case mget (entAttrs e) attr of Some v \<Rightarrow> v | None \<Rightarrow> def))"

definition EffectiveAttr :: "'k ccg \<Rightarrow> entityID \<Rightarrow> string \<Rightarrow> goval \<Rightarrow> goval" where
  "EffectiveAttr s i attr def = foldl applyOp (baseAttr s i attr def) (modifiersFor s i attr)"

definition SweepModifiers :: "'k ccg \<Rightarrow> 64 word list \<times> 'k ccg" where
  "SweepModifiers s =
     (let removed = map fst (filter (\<lambda>(i, m). \<not> modifierAlive s m) (Modifiers s))
      in (sort removed, s\<lparr>Modifiers := fold mdel removed (Modifiers s)\<rparr>))"

section \<open>Queries (\<open>targets.go\<close>)\<close>

datatype queryPredicate =
    InZone string | Controlled string | NotControlled string | OwnedBy string | HasType string
  | AttrAtLeast string int | AttrAtMost string int | Where "entity \<Rightarrow> bool"

fun attrAtLeast :: "goval \<Rightarrow> int \<Rightarrow> bool" where
  "attrAtLeast (VInt t n) mn = ((t = ''int'' \<or> t = ''int64'') \<and> mn \<le> n)"
| "attrAtLeast (VFloat t x) mn = (t = ''float64'' \<and> f64_le (int_to_f64 mn) x)"
| "attrAtLeast _ mn = False"

fun attrAtMost :: "goval \<Rightarrow> int \<Rightarrow> bool" where
  "attrAtMost (VInt t n) mx = ((t = ''int'' \<or> t = ''int64'') \<and> n \<le> mx)"
| "attrAtMost (VFloat t x) mx = (t = ''float64'' \<and> f64_le x (int_to_f64 mx))"
| "attrAtMost _ mx = False"

fun queryHolds :: "'k ccg \<Rightarrow> queryPredicate \<Rightarrow> entity \<Rightarrow> bool" where
  "queryHolds s (InZone z) e = (entZone e = z)"
| "queryHolds s (Controlled p) e = (EffectiveController e = p)"
| "queryHolds s (NotControlled p) e = (EffectiveController e \<noteq> p)"
| "queryHolds s (OwnedBy p) e = (entOwner e = p)"
| "queryHolds s (HasType t) e = (entType e = t)"
| "queryHolds s (AttrAtLeast a mn) e = attrAtLeast (EffectiveAttr s (entID e) a (VI 0)) mn"
| "queryHolds s (AttrAtMost a mx) e = attrAtMost (EffectiveAttr s (entID e) a (VI 0)) mx"
| "queryHolds s (Where f) e = f e"

text \<open>
  The insertion sort, on the array: \<open>j\<close> walks down while the element before it is larger,
  shifting it up, and the value lands where the walk stops.
\<close>

fun sortShift :: "nat \<Rightarrow> 'a::linorder \<Rightarrow> 'a list \<Rightarrow> 'a list" where
  "sortShift 0 v ids = ids[0 := v]"
| "sortShift (Suc j) v ids =
     (if v < ids ! j then sortShift j v (ids[Suc j := ids ! j]) else ids[Suc j := v])"

definition sortIDs :: "'a::linorder list \<Rightarrow> 'a list" where
  "sortIDs ids = fold (\<lambda>i ids. sortShift i (ids ! i) ids) [1..<length ids] ids"

text \<open>A query over a nil state is \<open>None\<close>.\<close>

definition Find :: "'k ccg option \<Rightarrow> queryPredicate list \<Rightarrow> entityID list" where
  "Find st preds =
     (case st of
        None \<Rightarrow> []
      | Some s \<Rightarrow> sortIDs (map fst (filter (\<lambda>(i, e). list_all (\<lambda>p. queryHolds s p e) preds) (Entities s))))"

definition First :: "'k ccg option \<Rightarrow> queryPredicate list \<Rightarrow> entityID" where
  "First st preds = (case Find st preds of [] \<Rightarrow> 0 | i # _ \<Rightarrow> i)"

definition Count :: "'k ccg option \<Rightarrow> queryPredicate list \<Rightarrow> nat" where
  "Count st preds =
     (case st of
        None \<Rightarrow> 0
      | Some s \<Rightarrow> length (filter (\<lambda>(i, e). list_all (\<lambda>p. queryHolds s p e) preds) (Entities s)))"

definition Filter :: "(entityID \<times> entity) list \<Rightarrow> (entity \<Rightarrow> bool) \<Rightarrow> entityID list" where
  "Filter es pred = sortIDs (map fst (filter (\<lambda>(i, e). pred e) es))"

section \<open>The insertion sort sorts\<close>

lemma insort_eq_snoc: "sorted xs \<Longrightarrow> (\<And>x. x \<in> set xs \<Longrightarrow> x \<le> v) \<Longrightarrow> insort v xs = xs @ [v]"
proof -
  assume s: "sorted xs" and "\<And>x. x \<in> set xs \<Longrightarrow> x \<le> v"
  then have "sort (v # xs) = xs @ [v]" by (intro properties_for_sort) (auto simp: sorted_append)
  then show ?thesis using s by (simp add: sort_key_id_if_sorted)
qed

lemma insort_snoc: "v < x \<Longrightarrow> insort v (xs @ [x]) = insort v xs @ [x]"
  by (induction xs) auto

lemma sortShift_insort:
  "i < length ids \<Longrightarrow> sorted (take i ids) \<Longrightarrow>
   sortShift i v ids = insort v (take i ids) @ drop (Suc i) ids"
proof (induction i arbitrary: ids)
  case 0
  then show ?case by (cases ids) simp_all
next
  case (Suc j)
  have tk: "take (Suc j) ids = take j ids @ [ids ! j]" using Suc.prems by (simp add: take_Suc_conv_app_nth)
  have so: "sorted (take j ids)" "\<forall>x \<in> set (take j ids). x \<le> ids ! j"
    using Suc.prems(2) unfolding tk by (auto simp: sorted_append)
  show ?case
  proof (cases "v < ids ! j")
    case True
    let ?ids = "ids[Suc j := ids ! j]"
    have "drop (Suc j) ?ids = ids ! j # drop (Suc (Suc j)) ids"
      using Suc.prems by (simp add: drop_update_swap Cons_nth_drop_Suc [symmetric] del: Cons_nth_drop_Suc)
    then show ?thesis
      using True Suc.IH [of ?ids] Suc.prems so insort_snoc [OF True] by (simp add: tk)
  next
    case False
    have "insort v (take (Suc j) ids) = take (Suc j) ids @ [v]"
      using Suc.prems(2) so(2) False by (intro insort_eq_snoc) (auto simp: tk intro: order_trans)
    then show ?thesis
      using False Suc.prems by (simp add: upd_conv_take_nth_drop)
  qed
qed

lemma sortIDs_step:
  "n \<le> length ids \<Longrightarrow> 0 < n \<Longrightarrow>
   fold (\<lambda>i ids. sortShift i (ids ! i) ids) [1..<n] ids = sort (take n ids) @ drop n ids"
proof (induction n)
  case (Suc n)
  show ?case
  proof (cases "n = 0")
    case True
    then show ?thesis using Suc.prems by (cases ids) simp_all
  next
    case False
    let ?ids = "sort (take n ids) @ drop n ids"
    have IH: "fold (\<lambda>i ids. sortShift i (ids ! i) ids) [1..<n] ids = ?ids" using Suc False by simp
    have n: "n < length ids" using Suc.prems by simp
    have "?ids ! n = ids ! n" "take n ?ids = sort (take n ids)" "drop (Suc n) ?ids = drop (Suc n) ids"
      "n < length ?ids" using n by (simp_all add: nth_append)
    then have "sortShift n (?ids ! n) ?ids = insort (ids ! n) (sort (take n ids)) @ drop (Suc n) ids"
      using sortShift_insort [of n ?ids "ids ! n"] by simp
    also have "insort (ids ! n) (sort (take n ids)) = sort (take (Suc n) ids)"
      using n by (simp add: take_Suc_conv_app_nth) (rule sym, rule properties_for_sort, simp_all add: sorted_insort)
    finally show ?thesis using IH False by simp
  qed
qed simp

lemma sortIDs_sort: "sortIDs ids = sort ids"
proof (cases "ids = []")
  case False
  then show ?thesis using sortIDs_step [of "length ids" ids] by (simp add: sortIDs_def)
qed (simp add: sortIDs_def)

section \<open>Queries do not depend on map order\<close>

lemma matching_ids:
  assumes "mwf (Entities s)"
  shows "set (map fst (filter (\<lambda>(i, e). P e) (Entities s))) = {i. \<exists>e. Get s i = Some e \<and> P e}"
    "distinct (map fst (filter (\<lambda>(i, e). P e) (Entities s)))"
proof -
  have d: "distinct (map fst (Entities s))" using assms by (simp add: mwf_def)
  then have "(i, e) \<in> set (Entities s) \<longleftrightarrow> Get s i = Some e" for i e by (simp add: Get_def)
  then show "set (map fst (filter (\<lambda>(i, e). P e) (Entities s))) = {i. \<exists>e. Get s i = Some e \<and> P e}" by force
  show "distinct (map fst (filter (\<lambda>(i, e). P e) (Entities s)))" using d by (rule distinct_map_filter)
qed

text \<open>
  A target query returns exactly the ids of the entities that satisfy every predicate, in
  increasing order and once each, so the result is a function of the map and not of the order
  in which it is iterated; Count is the length of the result and First its least element.
\<close>

theorem Find_exact:
  assumes "mwf (Entities s)"
  shows "Find (Some s) ps = sorted_list_of_set {i. \<exists>e. Get s i = Some e \<and> (\<forall>p \<in> set ps. queryHolds s p e)} \<and>
     Count (Some s) ps = length (Find (Some s) ps) \<and>
     First (Some s) ps = (if Find (Some s) ps = [] then 0 else Min (set (Find (Some s) ps)))"
proof -
  let ?ids = "map fst (filter (\<lambda>(i, e). list_all (\<lambda>p. queryHolds s p e) ps) (Entities s))"
  note ids = matching_ids [OF assms, of "\<lambda>e. list_all (\<lambda>p. queryHolds s p e) ps"]
  have f: "Find (Some s) ps = sort ?ids" by (simp add: Find_def sortIDs_sort)
  have "sort ?ids = sorted_list_of_set (set ?ids)"
    using ids(2) by (simp only: sorted_list_of_set_sort_remdups distinct_remdups_id)
  then have "Find (Some s) ps = sorted_list_of_set {i. \<exists>e. Get s i = Some e \<and> (\<forall>p \<in> set ps. queryHolds s p e)}"
    unfolding f ids(1) by (simp add: list_all_iff)
  moreover have "Count (Some s) ps = length (Find (Some s) ps)" by (simp add: f Count_def)
  moreover have "First (Some s) ps = (if Find (Some s) ps = [] then 0 else Min (set (Find (Some s) ps)))"
  proof (cases "sort ?ids")
    case (Cons x xs)
    then have "sorted (x # xs)" by (metis sorted_sort)
    then have "Min (set (x # xs)) = x" by (intro Min_eqI) auto
    then show ?thesis by (simp add: First_def f Cons)
  qed (simp add: First_def f)
  ultimately show ?thesis by simp
qed

theorem Find_exact_witness:
  "let s = snd (NewEntity ''token'' ''1'' None (snd (NewEntity ''card'' ''0'' None (NewState :: unit ccg)))) in
   mwf (Entities s) \<and> Find (Some s) [OwnedBy ''1''] = [2] \<and>
   Count (Some s) [OwnedBy ''1''] = length (Find (Some s) [OwnedBy ''1''])"
proof -
  let ?s = "snd (NewEntity ''token'' ''1'' None (snd (NewEntity ''card'' ''0'' None (NewState :: unit ccg))))"
  have m: "mwf (Entities ?s)" by (simp add: NewEntity_def NewState_def)
  have "Find (Some ?s) [OwnedBy ''1''] = [2]" by code_simp
  then show ?thesis using m Find_exact [OF m, of "[OwnedBy ''1'']"] by (simp add: Let_def)
qed

section \<open>Modifiers\<close>

definition mods_ok :: "'k ccg \<Rightarrow> bool" where
  "mods_ok s \<longleftrightarrow> mwf (Modifiers s) \<and>
     (\<forall>(i, m) \<in> set (Modifiers s). modID m = i \<and> i \<le> NextModID (IDs s) \<and> modInsertion m < NextInsertion (IDs s)) \<and>
     inj_on modInsertion (snd ` set (Modifiers s))"

lemma mput_new: "k \<notin> fst ` set m \<Longrightarrow> mput k v m = m @ [(k, v)]"
  unfolding mput_def by (induction m) auto

lemma AddModifier_ok:
  assumes ok: "mods_ok s" and fresh: "NextModID (IDs s) \<noteq> - 1" and n: "int64 (NextInsertion (IDs s) + 1)"
  shows "mods_ok (snd (AddModifier m s))"
proof -
  let ?i = "NextModID (IDs s) + 1" and ?m = "m\<lparr>modID := NextModID (IDs s) + 1, modInsertion := NextInsertion (IDs s)\<rparr>"
  have new: "?i \<notin> fst ` set (Modifiers s)"
    using ok word_less_succ [OF fresh] unfolding mods_ok_def by fastforce
  then have upd: "set (mput ?i ?m (Modifiers s)) = insert (?i, ?m) (set (Modifiers s))"
    using mput_new [of ?i "Modifiers s" ?m] by simp
  then show ?thesis
    using ok word_less_succ [OF fresh] n
    unfolding mods_ok_def AddModifier_def Let_def by (fastforce simp: inj_on_def)
qed

text \<open>
  Effective attributes do not depend on the order in which the modifier map is iterated:
  modifiers apply by layer and then by the order in which they were added, and no two
  modifiers tie.
\<close>

theorem EffectiveAttr_order_independent:
  assumes ok: "mods_ok s" and perm: "mset (Modifiers s') = mset (Modifiers s)" and ents: "Entities s' = Entities s"
  shows "EffectiveAttr s' i attr def = EffectiveAttr s i attr def"
proof -
  have alive: "modifierAlive s' m = modifierAlive s m" for m using ents by (simp add: modifierAlive_def Get_def)
  let ?P = "\<lambda>m. modTarget m = i \<and> modAttribute m = attr \<and> modifierAlive s m"
  let ?key = "\<lambda>m. (modLayer m, modInsertion m)"
  have m: "mset (filter ?P (map snd (Modifiers s'))) = mset (filter ?P (map snd (Modifiers s)))"
    using perm by (simp only: mset_filter mset_map)
  have "inj_on modInsertion (set (filter ?P (map snd (Modifiers s'))))"
    using ok mset_eq_setD [OF m] by (auto simp: mods_ok_def inj_on_def)
  then have inj: "inj_on ?key (set (filter ?P (map snd (Modifiers s'))))" by (auto simp: inj_on_def)
  have "sort_key ?key (filter ?P (map snd (Modifiers s'))) = sort_key ?key (filter ?P (map snd (Modifiers s)))"
    using m inj by (intro sort_key_inj_key_eq) simp_all
  then have "modifiersFor s' i attr = modifiersFor s i attr" by (simp add: modifiersFor_def alive)
  moreover have "baseAttr s' i attr def = baseAttr s i attr def" using ents by (simp add: baseAttr_def Get_def)
  ultimately show ?thesis by (simp add: EffectiveAttr_def)
qed

definition modAdd :: "int \<Rightarrow> modifier" where
  "modAdd n = \<lparr>modID = 0, modSource = 0, modLayer = 0, modTarget = 1, modAttribute = ''power'', modOp = OpAdd,
     modValue = VI n, modNote = '''', modInsertion = 0, modExpiresWith = 0, modWhileIn = []\<rparr>"

definition tableFour :: "unit ccg" where
  "tableFour = snd (AddModifier ((modAdd 3)\<lparr>modOp := OpMultiply, modLayer := 1\<rparr>) (snd (AddModifier (modAdd 2)
     (snd (NewEntity ''creature'' ''0'' (Some [(''power'', VI 4)]) NewState)))))"

theorem EffectiveAttr_order_independent_witness:
  "EffectiveAttr (tableFour\<lparr>Modifiers := rev (Modifiers tableFour)\<rparr>) 1 ''power'' VNil = EffectiveAttr tableFour 1 ''power'' VNil"
proof -
  have "mods_ok (snd (NewEntity ''creature'' ''0'' (Some [(''power'', VI 4)]) (NewState :: unit ccg)))"
    by (simp add: mods_ok_def NewEntity_def NewState_def mint_def Let_def storeEntity_def)
  then have "mods_ok tableFour" unfolding tableFour_def
    by (intro AddModifier_ok) (simp_all add: AddModifier_def NewEntity_def NewState_def mint_def Let_def storeEntity_def int64_def)
  then show ?thesis by (rule EffectiveAttr_order_independent) simp_all
qed

lemma fold_mdel_filter: "fold mdel ks m = filter (\<lambda>(k, v). k \<notin> set ks) m"
proof (induction ks arbitrary: m)
  case (Cons k ks)
  have "mdel k m = filter (\<lambda>(j, v). j \<noteq> k) m" by (simp add: mdel_def AList.delete_eq split_def eq_commute)
  then show ?case using Cons by (auto simp: split_def intro: filter_cong)
qed simp

text \<open>
  Sweeping is invisible to readers: it removes exactly the expired modifiers, reports their
  ids in increasing order, leaves everything else in place, and no effective attribute changes;
  a second sweep removes nothing.
\<close>

theorem SweepModifiers_transparent:
  assumes "mwf (Modifiers s)"
  shows "let (removed, s') = SweepModifiers s in
     removed = sorted_list_of_set {i. \<exists>m. map_of (Modifiers s) i = Some m \<and> \<not> modifierAlive s m} \<and>
     s' = s\<lparr>Modifiers := filter (\<lambda>(i, m). modifierAlive s m) (Modifiers s)\<rparr> \<and>
     (\<forall>i attr def. EffectiveAttr s' i attr def = EffectiveAttr s i attr def) \<and> SweepModifiers s' = ([], s')"
proof -
  let ?dead = "map fst (filter (\<lambda>(i, m). \<not> modifierAlive s m) (Modifiers s))"
  let ?live = "filter (\<lambda>(i, m). modifierAlive s m) (Modifiers s)"
  have d: "distinct (map fst (Modifiers s))" using assms by (simp add: mwf_def)
  then have at: "(i, m) \<in> set (Modifiers s) \<longleftrightarrow> map_of (Modifiers s) i = Some m" for i m by simp
  have "distinct ?dead" using d by (rule distinct_map_filter)
  then have "sort ?dead = sorted_list_of_set (set ?dead)"
    by (simp only: sorted_list_of_set_sort_remdups distinct_remdups_id)
  moreover have "set ?dead = {i. \<exists>m. map_of (Modifiers s) i = Some m \<and> \<not> modifierAlive s m}" using at by force
  ultimately have r: "sort ?dead = sorted_list_of_set {i. \<exists>m. map_of (Modifiers s) i = Some m \<and> \<not> modifierAlive s m}" by simp
  have "(i, m) \<in> set (Modifiers s) \<Longrightarrow> i \<in> set ?dead \<longleftrightarrow> \<not> modifierAlive s m" for i m using at by force
  then have live: "fold mdel ?dead (Modifiers s) = ?live" unfolding fold_mdel_filter by (intro filter_cong) auto
  have al: "modifierAlive (s\<lparr>Modifiers := ms\<rparr>) m = modifierAlive s m" for ms m by (simp add: modifierAlive_def Get_def)
  have "filter P (map snd ?live) = filter (\<lambda>m. P m \<and> modifierAlive s m) (map snd (Modifiers s))" for P
    by (simp add: filter_map o_def split_def conj_commute)
  then have "modifiersFor (s\<lparr>Modifiers := ?live\<rparr>) i attr = modifiersFor s i attr" for i attr
    by (simp add: modifiersFor_def al conj_commute conj_left_commute)
  then have eff: "EffectiveAttr (s\<lparr>Modifiers := ?live\<rparr>) i attr def = EffectiveAttr s i attr def" for i attr def
    by (simp add: EffectiveAttr_def baseAttr_def Get_def)
  have "SweepModifiers (s\<lparr>Modifiers := ?live\<rparr>) = ([], s\<lparr>Modifiers := ?live\<rparr>)"
    by (simp add: SweepModifiers_def al split_def)
  then show ?thesis using r live eff by (simp add: SweepModifiers_def Let_def)
qed

theorem SweepModifiers_transparent_witness:
  "let s = snd (AddModifier ((modAdd 1)\<lparr>modExpiresWith := 9\<rparr>) tableFour) in
   mwf (Modifiers s) \<and> fst (SweepModifiers s) = [3] \<and>
   EffectiveAttr (snd (SweepModifiers s)) 1 ''power'' VNil = EffectiveAttr s 1 ''power'' VNil"
proof -
  let ?s = "snd (AddModifier ((modAdd 1)\<lparr>modExpiresWith := 9\<rparr>) tableFour)"
  have m: "mwf (Modifiers ?s)"
    by (simp add: AddModifier_def tableFour_def NewEntity_def NewState_def mint_def Let_def storeEntity_def)
  have "fst (SweepModifiers ?s) = [3]" by code_simp
  then show ?thesis using m SweepModifiers_transparent [OF m] by (auto simp: Let_def split_def)
qed

definition exactStep :: "int \<Rightarrow> modifier \<Rightarrow> int" where
  "exactStep v m =
     (case (modOp m, asInt (modValue m)) of
        (OpSet, Some n) \<Rightarrow> n
      | (OpAdd, Some n) \<Rightarrow> v + n
      | (OpMultiply, Some n) \<Rightarrow> v * n
      | _ \<Rightarrow> v)"

lemma applyOp_exact:
  assumes "modValue m = VI n" "\<bar>v\<bar> < 2 ^ 53" "\<bar>n\<bar> < 2 ^ 53" "\<bar>exactStep v m\<bar> < 2 ^ 53"
  shows "applyOp (VI v) m = VI (exactStep v m)"
proof -
  have i: "f64_to_int (Fin (of_int j)) = j" if "\<bar>j\<bar> < 2 ^ 53" for j
    using that by (intro f64_to_int_int) (auto simp: int64_def abs_if split: if_splits)
  show ?thesis
    using assms i [of "exactStep v m"] f64_add_int [of v n] f64_mul_int [of v n]
    by (cases "modOp m") (simp_all add: applyOp_def exactStep_def numericAdd_def numericMul_def numericOp_def del: f64_to_int.simps of_int_add of_int_mult)
qed

lemma foldl_exact:
  "\<forall>m \<in> set ms. \<exists>n. modValue m = VI n \<and> \<bar>n\<bar> < 2 ^ 53 \<Longrightarrow>
   \<forall>k \<le> length ms. \<bar>foldl exactStep v (take k ms)\<bar> < 2 ^ 53 \<Longrightarrow>
   foldl applyOp (VI v) ms = VI (foldl exactStep v ms)"
proof (induction ms arbitrary: v)
  case (Cons m ms)
  obtain n where n: "modValue m = VI n" "\<bar>n\<bar> < 2 ^ 53" using Cons.prems(1) by auto
  have "\<bar>v\<bar> < 2 ^ 53" "\<bar>exactStep v m\<bar> < 2 ^ 53"
    using Cons.prems(2) [rule_format, of 0] Cons.prems(2) [rule_format, of 1] by simp_all
  moreover have "\<forall>k \<le> length ms. \<bar>foldl exactStep (exactStep v m) (take k ms)\<bar> < 2 ^ 53"
    using Cons.prems(2) [rule_format, of "Suc k" for k] by simp
  ultimately show ?case using Cons n by (simp add: applyOp_exact)
qed simp

text \<open>
  C35. On integers of at most 53 bits the effective attribute is exact integer arithmetic: the
  base value folded with the applicable modifiers in apply order, provided every intermediate
  value stays below \<open>2\<^sup>5\<^sup>3\<close>.
\<close>

theorem EffectiveAttr_exact:
  assumes "baseAttr s i attr def = VI b"
    and "\<forall>m \<in> set (modifiersFor s i attr). \<exists>n. modValue m = VI n \<and> \<bar>n\<bar> < 2 ^ 53"
    and "\<forall>k \<le> length (modifiersFor s i attr). \<bar>foldl exactStep b (take k (modifiersFor s i attr))\<bar> < 2 ^ 53"
  shows "EffectiveAttr s i attr def = VI (foldl exactStep b (modifiersFor s i attr))"
  unfolding EffectiveAttr_def assms(1) using assms(2,3) by (rule foldl_exact)

theorem EffectiveAttr_exact_witness:
  "EffectiveAttr tableFour 1 ''power'' VNil = VI ((4 + 2) * 3)"
proof -
  let ?m1 = "(modAdd 2)\<lparr>modID := 1\<rparr>"
  let ?m2 = "(modAdd 3)\<lparr>modOp := OpMultiply, modLayer := 1, modID := 2, modInsertion := 1\<rparr>"
  have b: "baseAttr tableFour 1 ''power'' VNil = VI 4"
    by (simp add: baseAttr_def tableFour_def AddModifier_def NewEntity_def NewState_def mint_def Let_def storeEntity_def Get_def)
  have ms: "modifiersFor tableFour 1 ''power'' = [?m1, ?m2]"
    by (simp add: modifiersFor_def tableFour_def AddModifier_def NewEntity_def NewState_def mint_def Let_def storeEntity_def
        mput_def modAdd_def modifierAlive_def wrap64_def)
  have "\<bar>foldl exactStep 4 (take k [?m1, ?m2])\<bar> < 2 ^ 53" if "k \<le> 2" for k
  proof -
    from that consider "k = 0" | "k = 1" | "k = 2" by linarith
    then show ?thesis by cases (simp_all add: exactStep_def modAdd_def numeral_2_eq_2)
  qed
  then show ?thesis
    using EffectiveAttr_exact [OF b] by (simp add: ms modAdd_def exactStep_def)
qed

text \<open>
  Beyond 53 bits integers are rounded although both operands are ints: adding 0 to
  \<open>2\<^sup>5\<^sup>3 + 1\<close> yields \<open>2\<^sup>5\<^sup>3\<close>, because the sum is computed in float64 and converted back.
\<close>

theorem EffectiveAttr_loses_large_ints:
  "applyOp (VI 9007199254740993) (modAdd 0) = VI 9007199254740992"
proof -
  have "f64_round_nat 9007199254740993 = 9007199254740992" by (simp add: f64_round_nat_def bitlen.simps)
  then have a: "int_to_f64 9007199254740993 = Fin 9007199254740992" by (simp add: int_to_f64_def)
  have z: "int_to_f64 0 = Fin 0" by (simp add: int_to_f64_def)
  have b1: "bitlen 9007199254740992 = 54" "bitlen (Suc 0) = 1" by (simp_all add: bitlen.simps)
  have "quotient_of 9007199254740992 = (9007199254740992, 1)" using quotient_of_of_int [of 9007199254740992] by simp
  then have "lead 9007199254740992 = 53" by (simp add: lead_def b1 pow2_def)
  then have "f64_round 9007199254740992 = Fin 9007199254740992"
    by (simp add: f64_round_def pow2_def round_half_even_def)
  then have "f64_to_int (f64_add (Fin 9007199254740992) (Fin 0)) = 9007199254740992"
    by (simp add: rat_trunc_def int64_def)
  then show ?thesis by (simp add: applyOp_def modAdd_def numericAdd_def numericOp_def a z)
qed

end
