(* ===== verification/CcgCombat.thy ===== *)
theory CcgCombat
  imports CcgState
begin

text \<open>
  Combat declarations (\<open>modules/ccg/combat.go\<close>) and the conversion between entity pairs and the
  untyped pairs of an assignment prompt (pairs.go). The legality predicates and the
  whole-assignment hook are the game's: arguments of the declarations, absent when nil. An
  error of the game is carried as \<open>GameError\<close>.
\<close>

section \<open>Pairs (\<open>pairs.go\<close>)\<close>

definition entityValue :: "entityID \<Rightarrow> goval" where
  "entityValue i = VInt ''EntityID'' (uint i)"

definition ToAssignmentPairs :: "(entityID \<times> entityID) list \<Rightarrow> (goval \<times> goval) list" where
  "ToAssignmentPairs ps = map (\<lambda>(a, b). (entityValue a, entityValue b)) ps"

fun toEntityID :: "goval \<Rightarrow> entityID option" where
  "toEntityID (VInt t n) =
     (if t = ''EntityID'' \<or> t = ''uint64'' then Some (word_of_int n)
      else if (t = ''int'' \<or> t = ''int64'') \<and> 0 \<le> n then Some (word_of_int n)
      else None)"
| "toEntityID (VFloat t x) =
     (case x of
        Fin q \<Rightarrow> if t = ''float64'' \<and> 0 \<le> q \<and> q < 2 ^ 64 \<and> q = of_int (rat_trunc q)
                 then Some (word_of_int (rat_trunc q)) else None
      | _ \<Rightarrow> None)"
| "toEntityID _ = None"

datatype pairError = ErrBadPair

fun EntityPairs :: "(goval \<times> goval) list \<Rightarrow> pairError + (entityID \<times> entityID) list" where
  "EntityPairs [] = Inr []"
| "EntityPairs ((a, b) # ps) =
     (case (toEntityID a, toEntityID b) of
        (Some i, Some j) \<Rightarrow> (case EntityPairs ps of Inr qs \<Rightarrow> Inr ((i, j) # qs) | Inl e \<Rightarrow> Inl e)
      | _ \<Rightarrow> Inl ErrBadPair)"

section \<open>Combat (\<open>combat.go\<close>)\<close>

record combatTarget =
  ctPlayer :: string
  ctEntity :: entityID

record attack =
  atAttacker :: entityID
  atTarget :: combatTarget

record combat =
  Attacks :: "attack list"
  AttacksDeclared :: bool
  CBlocks :: "(entityID \<times> entityID list) list option"
  BlocksDeclared :: bool
  MaxBlockersPerAttacker :: int

datatype 'e combatError =
    ErrNoAttacks | ErrDuplicateAttacker | ErrAttacksAlreadyDeclared | ErrAttacksNotDeclared
  | ErrBlocksAlreadyDeclared | ErrNotAttacking | ErrBlockerReused | ErrTooManyBlockers | ErrIllegalBlock
  | GameError 'e

definition maxBlockers :: "combat \<Rightarrow> int" where
  "maxBlockers c = (if MaxBlockersPerAttacker c \<le> 0 then 1 else MaxBlockersPerAttacker c)"

fun checkAttacks :: "(attack \<Rightarrow> 'e option) option \<Rightarrow> entityID list \<Rightarrow> attack list \<Rightarrow> 'e combatError option" where
  "checkAttacks legal seen [] = None"
| "checkAttacks legal seen (a # as) =
     (if atAttacker a \<in> set seen then Some ErrDuplicateAttacker
      else case (case legal of None \<Rightarrow> None | Some f \<Rightarrow> f a) of
        Some e \<Rightarrow> Some (GameError e)
      | None \<Rightarrow> checkAttacks legal (atAttacker a # seen) as)"

definition DeclareAttacks :: "attack list \<Rightarrow> (attack \<Rightarrow> 'e option) option \<Rightarrow> combat \<Rightarrow> 'e combatError option \<times> combat" where
  "DeclareAttacks attacks legal c =
     (if AttacksDeclared c then (Some ErrAttacksAlreadyDeclared, c)
      else if attacks = [] then (Some ErrNoAttacks, c)
      else case checkAttacks legal [] attacks of
        Some e \<Rightarrow> (Some e, c)
      | None \<Rightarrow> (None, c\<lparr>Attacks := attacks, AttacksDeclared := True\<rparr>))"

definition Attacking :: "combat \<Rightarrow> entityID \<Rightarrow> bool" where
  "Attacking c i = list_ex (\<lambda>a. atAttacker a = i) (Attacks c)"

type_synonym blockRule = "(entityID \<Rightarrow> entityID \<Rightarrow> bool) option"

definition allowed :: "blockRule \<Rightarrow> entityID \<Rightarrow> entityID \<Rightarrow> bool" where
  "allowed legal b a = (case legal of None \<Rightarrow> True | Some f \<Rightarrow> f b a)"

text \<open>One attacker's pass over the sorted candidates; \<open>prev\<close> is \<open>None\<close> at the first.\<close>

fun legalFor :: "blockRule \<Rightarrow> entityID \<Rightarrow> entityID option \<Rightarrow> entityID list \<Rightarrow> (entityID \<times> entityID) list" where
  "legalFor legal a prev [] = []"
| "legalFor legal a prev (b # bs) =
     (if prev = Some b then legalFor legal a prev bs
      else (if allowed legal b a then [(b, a)] else []) @ legalFor legal a (Some b) bs)"

definition LegalBlocks :: "entityID list \<Rightarrow> blockRule \<Rightarrow> combat \<Rightarrow> (entityID \<times> entityID) list" where
  "LegalBlocks candidates legal c =
     concat (map (\<lambda>a. legalFor legal (atAttacker a) None (sort candidates)) (Attacks c))"

definition BlockRequest :: "string \<Rightarrow> entityID list \<Rightarrow> blockRule \<Rightarrow> combat \<Rightarrow> assignmentRequest" where
  "BlockRequest kind candidates legal c =
     \<lparr>arKind = kind, arPairs = ToAssignmentPairs (LegalBlocks candidates legal c), arMaxPerLeft = 1,
      arMaxPerRight = maxBlockers c, arAllowEmpty = True, arSource = VNil, arData = None\<rparr>"

definition blockersIn :: "(entityID \<times> entityID list) list \<Rightarrow> entityID \<Rightarrow> entityID list" where
  "blockersIn blocks a = (case map_of blocks a of Some bs \<Rightarrow> bs | None \<Rightarrow> [])"

fun checkBlocks :: "combat \<Rightarrow> blockRule \<Rightarrow> entityID list \<Rightarrow> (entityID \<times> entityID list) list
    \<Rightarrow> (entityID \<times> entityID) list \<Rightarrow> 'e combatError + (entityID \<times> entityID list) list" where
  "checkBlocks c legal used blocks [] = Inr blocks"
| "checkBlocks c legal used blocks ((b, a) # ps) =
     (if \<not> Attacking c a then Inl ErrNotAttacking
      else if b \<in> set used then Inl ErrBlockerReused
      else if \<not> allowed legal b a then Inl ErrIllegalBlock
      else if maxBlockers c \<le> int (length (blockersIn blocks a)) then Inl ErrTooManyBlockers
      else checkBlocks c legal (b # used) (mput a (blockersIn blocks a @ [b]) blocks) ps)"

definition declared :: "(entityID \<times> entityID list) list \<Rightarrow> combat \<Rightarrow> combat" where
  "declared blocks c = c\<lparr>CBlocks := (if blocks \<noteq> [] then Some blocks else CBlocks c), BlocksDeclared := True\<rparr>"

definition DeclareBlocks :: "(entityID \<times> entityID) list \<Rightarrow> blockRule \<Rightarrow> (combat \<Rightarrow> 'e option) option \<Rightarrow> combat
    \<Rightarrow> 'e combatError option \<times> combat" where
  "DeclareBlocks pairs legal whole c =
     (if \<not> AttacksDeclared c then (Some ErrAttacksNotDeclared, c)
      else if BlocksDeclared c then (Some ErrBlocksAlreadyDeclared, c)
      else case checkBlocks c legal [] [] pairs of
        Inl e \<Rightarrow> (Some e, c)
      | Inr blocks \<Rightarrow>
          (case (case whole of None \<Rightarrow> None | Some f \<Rightarrow> f (declared blocks c)) of
             Some e \<Rightarrow> (Some (GameError e), c)
           | None \<Rightarrow> (None, declared blocks c)))"

definition Blocked :: "combat \<Rightarrow> entityID \<Rightarrow> bool" where
  "Blocked c a = (mget (CBlocks c) a \<noteq> None)"

definition BlockersOf :: "combat \<Rightarrow> entityID \<Rightarrow> entityID list" where
  "BlockersOf c a = (case mget (CBlocks c) a of Some bs \<Rightarrow> bs | None \<Rightarrow> [])"

definition Blocking :: "combat \<Rightarrow> entityID \<Rightarrow> entityID option" where
  "Blocking c i = map_option atAttacker (find (\<lambda>a. list_ex (\<lambda>b. b = i) (BlockersOf c (atAttacker a))) (Attacks c))"

definition Unblocked :: "combat \<Rightarrow> attack list" where
  "Unblocked c = (if \<not> BlocksDeclared c then [] else filter (\<lambda>a. \<not> Blocked c (atAttacker a)) (Attacks c))"

definition RemoveFromCombat :: "entityID \<Rightarrow> combat \<Rightarrow> combat" where
  "RemoveFromCombat i c =
     (let c = (case find_index (\<lambda>a. atAttacker a = i) (Attacks c) of
                 None \<Rightarrow> c
               | Some j \<Rightarrow> c\<lparr>Attacks := remove_at j (Attacks c), CBlocks := mdelo i (CBlocks c)\<rparr>)
      in c\<lparr>CBlocks := map_option (map (\<lambda>(a, bs). (a, remove1 i bs))) (CBlocks c)\<rparr>)"

definition ResetCombat :: "combat \<Rightarrow> combat" where
  "ResetCombat c = \<lparr>Attacks = [], AttacksDeclared = False, CBlocks = None, BlocksDeclared = False,
     MaxBlockersPerAttacker = MaxBlockersPerAttacker c\<rparr>"

section \<open>Declaring blocks\<close>

lemma checkBlocks_iff:
  "(\<exists>bs. (checkBlocks c legal used blocks ps :: 'e combatError + _) = Inr bs) \<longleftrightarrow>
     (\<forall>(b, a) \<in> set ps. Attacking c a \<and> b \<notin> set used \<and> allowed legal b a) \<and> distinct (map fst ps) \<and>
     (\<forall>a \<in> snd ` set ps. int (length (blockersIn blocks a) + length (filter (\<lambda>p. snd p = a) ps)) \<le> maxBlockers c)"
proof (induction ps arbitrary: used blocks)
  case (Cons p ps)
  obtain b a where p: "p = (b, a)" by (cases p)
  let ?blocks = "mput a (blockersIn blocks a @ [b]) blocks"
  have g: "blockersIn ?blocks x = (if x = a then blockersIn blocks a @ [b] else blockersIn blocks x)" for x
    by (simp add: blockersIn_def)
  have room: "(\<forall>x \<in> snd ` set (p # ps). int (length (blockersIn blocks x) + length (filter (\<lambda>q. snd q = x) (p # ps))) \<le> maxBlockers c)
    \<longleftrightarrow> int (length (blockersIn blocks a)) < maxBlockers c \<and>
      (\<forall>x \<in> snd ` set ps. int (length (blockersIn ?blocks x) + length (filter (\<lambda>q. snd q = x) ps)) \<le> maxBlockers c)"
  proof -
    let ?m = "\<lambda>x. length (filter (\<lambda>q. snd q = x) ps)" and ?n = "\<lambda>x. length (blockersIn blocks x)"
    have "?m a = 0" if "a \<notin> snd ` set ps" using that by (auto simp: filter_empty_conv)
    then have "(\<forall>x \<in> insert a (snd ` set ps). int (?n x + (if x = a then Suc (?m x) else ?m x)) \<le> maxBlockers c) \<longleftrightarrow>
        int (?n a) < maxBlockers c \<and>
        (\<forall>x \<in> snd ` set ps. int ((if x = a then Suc (?n x) else ?n x) + ?m x) \<le> maxBlockers c)"
      by (cases "a \<in> snd ` set ps") (auto split: if_splits)
    then show ?thesis by (simp add: p g if_distrib [of length] if_distrib [of int] eq_commute cong: if_cong)
  qed
  show ?case
  proof (cases "Attacking c a \<and> b \<notin> set used \<and> allowed legal b a \<and> int (length (blockersIn blocks a)) < maxBlockers c")
    case True
    then have "(\<exists>bs. (checkBlocks c legal used blocks (p # ps) :: 'e combatError + _) = Inr bs) \<longleftrightarrow>
      (\<exists>bs. (checkBlocks c legal (b # used) ?blocks ps :: 'e combatError + _) = Inr bs)" by (simp add: p)
    then show ?thesis using True unfolding Cons.IH room by (force simp: p)
  next
    case False
    then show ?thesis unfolding room by (auto simp: p)
  qed
qed auto

lemma checkBlocks_blocks:
  "(checkBlocks c legal used blocks ps :: 'e combatError + _) = Inr bs \<Longrightarrow>
   map_of bs a = (if filter (\<lambda>p. snd p = a) ps = [] then map_of blocks a
                  else Some (blockersIn blocks a @ map fst (filter (\<lambda>p. snd p = a) ps))) \<and> (mwf blocks \<longrightarrow> mwf bs)"
proof (induction ps arbitrary: used blocks)
  case (Cons p ps)
  obtain b x where p: "p = (b, x)" by (cases p)
  have c: "(checkBlocks c legal (b # used) (mput x (blockersIn blocks x @ [b]) blocks) ps :: 'e combatError + _) = Inr bs"
    using Cons.prems by (simp add: p split: if_splits)
  show ?case using Cons.IH [OF c] by (auto simp: p blockersIn_def)
qed simp

lemma length_blocks_of: "length (filter (\<lambda>p. snd p = a) ps) = length (map fst (filter (\<lambda>p. snd p = a) ps))"
  by simp

text \<open>The declaration in accessor terms: who may be declared, and what is recorded.\<close>

definition blocksAllowed :: "combat \<Rightarrow> blockRule \<Rightarrow> (entityID \<times> entityID) list \<Rightarrow> bool" where
  "blocksAllowed c legal ps \<longleftrightarrow> AttacksDeclared c \<and> \<not> BlocksDeclared c \<and>
     (\<forall>(b, a) \<in> set ps. Attacking c a \<and> allowed legal b a) \<and> distinct (map fst ps) \<and>
     (\<forall>a. int (length (filter (\<lambda>p. snd p = a) ps)) \<le> maxBlockers c)"

lemma maxBlockers_pos: "0 < maxBlockers c"
  by (simp add: maxBlockers_def)

lemma checkBlocks_allowed:
  "AttacksDeclared c \<Longrightarrow> \<not> BlocksDeclared c \<Longrightarrow>
   (\<exists>bs. (checkBlocks c legal [] [] ps :: 'e combatError + _) = Inr bs) \<longleftrightarrow> blocksAllowed c legal ps"
proof -
  assume d: "AttacksDeclared c" "\<not> BlocksDeclared c"
  have "(\<forall>a \<in> snd ` set ps. int (length (filter (\<lambda>p. snd p = a) ps)) \<le> maxBlockers c) \<longleftrightarrow>
        (\<forall>a. int (length (filter (\<lambda>p. snd p = a) ps)) \<le> maxBlockers c)"
  proof (intro iffI allI)
    fix a assume h: "\<forall>a \<in> snd ` set ps. int (length (filter (\<lambda>p. snd p = a) ps)) \<le> maxBlockers c"
    show "int (length (filter (\<lambda>p. snd p = a) ps)) \<le> maxBlockers c"
    proof (cases "a \<in> snd ` set ps")
      case False
      then have "filter (\<lambda>p. snd p = a) ps = []" by (auto simp: filter_empty_conv)
      then show ?thesis using maxBlockers_pos [of c] by simp
    qed (use h in blast)
  qed blast
  then show ?thesis unfolding checkBlocks_iff blocksAllowed_def using d by (auto simp: blockersIn_def)
qed

lemma declared_spec:
  assumes nb: "CBlocks c = None" and bs: "(checkBlocks c legal [] [] ps :: 'e combatError + _) = Inr bs"
  shows "BlockersOf (declared bs c) a = map fst (filter (\<lambda>p. snd p = a) ps)"
    and "Blocked (declared bs c) a \<longleftrightarrow> a \<in> snd ` set ps"
    and "Unblocked (declared bs c) = filter (\<lambda>x. atAttacker x \<notin> snd ` set ps) (Attacks c)"
    and "mwf bs"
proof -
  have at: "map_of bs a = (if filter (\<lambda>p. snd p = a) ps = [] then None else Some (map fst (filter (\<lambda>p. snd p = a) ps)))" for a
    using checkBlocks_blocks [OF bs, of a] by (simp add: blockersIn_def)
  have b: "mget (CBlocks (declared bs c)) a = map_of bs a" for a
    by (cases "bs = []") (simp_all add: declared_def nb)
  have bl: "Blocked (declared bs c) a \<longleftrightarrow> a \<in> snd ` set ps" for a
    by (auto simp: Blocked_def b at filter_empty_conv)
  show "Blocked (declared bs c) a \<longleftrightarrow> a \<in> snd ` set ps" by (rule bl)
  show "Unblocked (declared bs c) = filter (\<lambda>x. atAttacker x \<notin> snd ` set ps) (Attacks c)"
    unfolding Unblocked_def bl by (simp add: declared_def)
  show "BlockersOf (declared bs c) a = map fst (filter (\<lambda>p. snd p = a) ps)"
    by (simp add: BlockersOf_def b at)
  show "mwf bs" using checkBlocks_blocks [OF bs] by simp
qed

lemma declared_keeps:
  "BlocksDeclared (declared bs c)" "Attacks (declared bs c) = Attacks c" "maxBlockers (declared bs c) = maxBlockers c"
  "AttacksDeclared (declared bs c) = AttacksDeclared c" "Attacking (declared bs c) = Attacking c"
  by (simp_all add: declared_def maxBlockers_def Attacking_def fun_eq_iff)

text \<open>
  DeclareBlocks is all-or-nothing and records exactly what was declared. Without a
  whole-assignment hook it succeeds precisely when attacks are declared and blocks are not, every
  named attacker attacks, every pair is legal, no blocker is used twice and no attacker gets more
  than the maximum; on any error the combat is unchanged, and on success the blockers of each
  attacker are the declared ones in declaration order, each blocker blocks the attacker it was
  declared for, and the attackers nobody was declared against are the unblocked ones.
\<close>

theorem DeclareBlocks_exact:
  assumes nb: "CBlocks c = None"
  shows "case (DeclareBlocks ps legal None c :: 'e combatError option \<times> combat) of
      (Some err, c') \<Rightarrow> c' = c \<and> \<not> blocksAllowed c legal ps
    | (None, c') \<Rightarrow> blocksAllowed c legal ps \<and> BlocksDeclared c' \<and> Attacks c' = Attacks c \<and>
        (\<forall>a. BlockersOf c' a = map fst (filter (\<lambda>p. snd p = a) ps)) \<and>
        (\<forall>a. Blocked c' a \<longleftrightarrow> a \<in> snd ` set ps) \<and>
        Unblocked c' = filter (\<lambda>x. atAttacker x \<notin> snd ` set ps) (Attacks c)"
proof (cases "blocksAllowed c legal ps")
  case True
  then have d: "AttacksDeclared c" "\<not> BlocksDeclared c" by (auto simp: blocksAllowed_def)
  then obtain bs where bs: "(checkBlocks c legal [] [] ps :: 'e combatError + _) = Inr bs"
    using checkBlocks_allowed [OF d] True by blast
  show ?thesis using True d bs declared_spec [OF nb bs] declared_keeps [of bs c] by (simp add: DeclareBlocks_def)

next
  case False
  then show ?thesis
    using checkBlocks_allowed [of c legal ps, where ?'e = 'e]
    by (auto simp: DeclareBlocks_def split: sum.split)
qed

definition skirmish :: combat where
  "skirmish = \<lparr>Attacks = [\<lparr>atAttacker = 1, atTarget = \<lparr>ctPlayer = ''1'', ctEntity = 0\<rparr>\<rparr>,
      \<lparr>atAttacker = 2, atTarget = \<lparr>ctPlayer = ''1'', ctEntity = 0\<rparr>\<rparr>], AttacksDeclared = True, CBlocks = None,
      BlocksDeclared = False, MaxBlockersPerAttacker = 2\<rparr>"

theorem DeclareBlocks_exact_witness:
  "let c' = snd (DeclareBlocks [(7, 1), (8, 1)] None None skirmish :: unit combatError option \<times> combat) in
   CBlocks skirmish = None \<and> BlockersOf c' 1 = [7, 8] \<and> map atAttacker (Unblocked c') = [2]"
proof -
  have nb: "CBlocks skirmish = None" by (simp add: skirmish_def)
  have "fst (DeclareBlocks [(7, 1), (8, 1)] None None skirmish :: unit combatError option \<times> combat) = None" by code_simp
  then show ?thesis
    using DeclareBlocks_exact [OF nb, of None "[(7, 1), (8, 1)]", where ?'e = unit] nb
    by (auto simp: Let_def skirmish_def split: prod.splits)
qed

section \<open>The combat invariant\<close>

definition combat_ok :: "combat \<Rightarrow> bool" where
  "combat_ok c \<longleftrightarrow> distinct (map atAttacker (Attacks c)) \<and> (\<not> AttacksDeclared c \<longrightarrow> Attacks c = []) \<and>
     (\<not> BlocksDeclared c \<longrightarrow> CBlocks c = None) \<and>
     (\<forall>a. Blocked c a \<longrightarrow> Attacking c a) \<and>
     (\<forall>a. distinct (BlockersOf c a) \<and> int (length (BlockersOf c a)) \<le> maxBlockers c) \<and>
     (\<forall>a a' b. b \<in> set (BlockersOf c a) \<and> b \<in> set (BlockersOf c a') \<longrightarrow> a = a')"

inductive combat_step :: "combat \<Rightarrow> combat \<Rightarrow> bool" where
  attacks: "combat_step c (snd (DeclareAttacks as (legal :: (attack \<Rightarrow> string option) option) c))"
| blocks: "combat_step c (snd (DeclareBlocks ps legal' (whole :: (combat \<Rightarrow> string option) option) c))"
| remove: "combat_step c (RemoveFromCombat i c)"
| reset: "combat_step c (ResetCombat c)"

lemma checkAttacks_distinct:
  "checkAttacks legal seen as = None \<Longrightarrow> distinct (map atAttacker as) \<and> (\<forall>a \<in> set as. atAttacker a \<notin> set seen)"
  by (induction legal seen as rule: checkAttacks.induct) (auto split: if_splits option.splits)

lemma no_blocks: "CBlocks c = None \<Longrightarrow> BlockersOf c a = [] \<and> \<not> Blocked c a"
  by (simp add: BlockersOf_def Blocked_def)

lemma DeclareAttacks_ok:
  assumes ok: "combat_ok c"
  shows "combat_ok (snd (DeclareAttacks as legal c))"
proof (cases "AttacksDeclared c \<or> as = [] \<or> checkAttacks legal [] as \<noteq> None")
  case True
  then show ?thesis using ok by (auto simp: DeclareAttacks_def)
next
  case False
  let ?c = "c\<lparr>Attacks := as, AttacksDeclared := True\<rparr>"
  have "Attacks c = []" using ok False by (auto simp: combat_ok_def)
  then have "\<not> Blocked c a" for a using ok by (auto simp: combat_ok_def Attacking_def)
  then have "mget (CBlocks c) a = None" for a by (simp add: Blocked_def)
  then have nb: "\<not> Blocked ?c a" "BlockersOf ?c a = []" for a by (simp_all add: Blocked_def BlockersOf_def)
  have "distinct (map atAttacker as)" using False checkAttacks_distinct by blast
  moreover have "snd (DeclareAttacks as legal c) = ?c" using False by (auto simp: DeclareAttacks_def)
  moreover have "\<not> BlocksDeclared c \<longrightarrow> CBlocks c = None" using ok by (simp add: combat_ok_def)
  ultimately show ?thesis using maxBlockers_pos [of ?c] nb
    by (simp add: combat_ok_def less_imp_le)
qed

lemma distinct_fst_pairs: "distinct (map fst ps) \<Longrightarrow> (b, a) \<in> set ps \<Longrightarrow> (b, a') \<in> set ps \<Longrightarrow> a = a'"
  by (metis eq_key_imp_eq_value)

lemma declared_ok:
  assumes ok: "combat_ok c" and al: "blocksAllowed c legal ps"
    and bs: "(checkBlocks c legal [] [] ps :: 'e combatError + _) = Inr bs"
  shows "combat_ok (declared bs c)"
proof -
  have nb: "CBlocks c = None" using ok al by (auto simp: combat_ok_def blocksAllowed_def)
  note r = declared_spec [OF nb bs] declared_keeps [of bs c]
  have d: "distinct (map fst ps)" using al by (simp add: blocksAllowed_def)
  have "distinct (BlockersOf (declared bs c) a)" for a using d by (simp add: r distinct_map_filter)
  moreover have "a = a'" if "b \<in> set (BlockersOf (declared bs c) a)" "b \<in> set (BlockersOf (declared bs c) a')" for a a' b
    using that distinct_fst_pairs [OF d, of b a a'] by (auto simp: r)
  moreover have "int (length (BlockersOf (declared bs c) a)) \<le> maxBlockers c" for a
    using al by (simp add: r blocksAllowed_def)
  moreover have "Blocked (declared bs c) a \<longrightarrow> Attacking c a" for a
    using al by (auto simp: r blocksAllowed_def)
  moreover have "\<not> AttacksDeclared c \<longrightarrow> Attacks c = []" "distinct (map atAttacker (Attacks c))"
    using ok by (simp_all add: combat_ok_def)
  moreover have "BlocksDeclared (declared bs c)" by (rule declared_keeps)
  ultimately show ?thesis unfolding combat_ok_def declared_keeps by blast
qed

lemma DeclareBlocks_ok:
  assumes ok: "combat_ok c"
  shows "combat_ok (snd (DeclareBlocks ps legal whole c :: 'e combatError option \<times> combat))"
proof (cases "\<exists>bs. AttacksDeclared c \<and> \<not> BlocksDeclared c \<and> (checkBlocks c legal [] [] ps :: 'e combatError + _) = Inr bs")
  case True
  then obtain bs where d: "AttacksDeclared c" "\<not> BlocksDeclared c"
    and bs: "(checkBlocks c legal [] [] ps :: 'e combatError + _) = Inr bs" by blast
  have "blocksAllowed c legal ps" using checkBlocks_allowed [OF d, of legal ps, where ?'e = 'e] bs by blast
  from declared_ok [OF ok this bs] show ?thesis
    using ok d bs by (auto simp: DeclareBlocks_def split: option.split)
next
  case False
  then show ?thesis using ok by (auto simp: DeclareBlocks_def split: sum.split)
qed

lemma map_of_map_snd: "map_of (map (\<lambda>(k, v). (k, f v)) al) k = map_option f (map_of al k)"
  by (induction al) auto

lemma mget_RemoveFromCombat:
  "mget (CBlocks (RemoveFromCombat i c)) a =
     (if Attacking c i \<and> a = i then None else map_option (remove1 i) (mget (CBlocks c) a))"
proof (cases "find_index (\<lambda>a. atAttacker a = i) (Attacks c)")
  case None
  then have "\<not> Attacking c i" by (auto simp: find_index_None Attacking_def list_ex_iff)
  with None show ?thesis
    by (cases "CBlocks c") (simp_all add: RemoveFromCombat_def map_of_map_snd)
next
  case (Some j)
  then have "Attacking c i" using find_index_Some [OF Some] by (auto simp: Attacking_def list_ex_iff)
  with Some show ?thesis
    by (cases "CBlocks c") (simp_all add: RemoveFromCombat_def map_of_map_snd mdelo_def)
qed

lemma Attacks_RemoveFromCombat:
  assumes "distinct (map atAttacker (Attacks c))"
  shows "Attacks (RemoveFromCombat i c) = filter (\<lambda>a. atAttacker a \<noteq> i) (Attacks c)"
proof (cases "find_index (\<lambda>a. atAttacker a = i) (Attacks c)")
  case None
  moreover from None have "filter (\<lambda>a. atAttacker a \<noteq> i) (Attacks c) = Attacks c"
    by (simp add: find_index_None filter_id_conv)
  ultimately show ?thesis by (simp add: RemoveFromCombat_def)
next
  case (Some j)
  then have j: "j < length (Attacks c)" "atAttacker (Attacks c ! j) = i" using find_index_Some [OF Some] by auto
  have "remove_at j (Attacks c) = filter (\<lambda>a. a \<noteq> Attacks c ! j) (Attacks c)"
    using assms j(1) by (intro remove_at_distinct) (simp_all add: distinct_map)
  moreover have "a \<noteq> Attacks c ! j \<longleftrightarrow> atAttacker a \<noteq> i" if "a \<in> set (Attacks c)" for a
  proof -
    have "inj_on atAttacker (set (Attacks c))" using assms by (simp add: distinct_map)
    then show ?thesis using that j inj_onD nth_mem by metis
  qed
  ultimately show ?thesis using Some by (simp add: RemoveFromCombat_def cong: filter_cong)
qed

lemma RemoveFromCombat_ok:
  assumes ok: "combat_ok c"
  shows "combat_ok (RemoveFromCombat i c)"
proof -
  let ?c = "RemoveFromCombat i c"
  have d: "distinct (map atAttacker (Attacks c))" using ok by (simp add: combat_ok_def)
  have at: "Attacking ?c a \<longleftrightarrow> Attacking c a \<and> a \<noteq> i" for a
    by (auto simp: Attacking_def list_ex_iff Attacks_RemoveFromCombat [OF d])
  have bo: "BlockersOf ?c a = (if Attacking c i \<and> a = i then [] else remove1 i (BlockersOf c a))" for a
    by (cases "mget (CBlocks c) a") (simp_all add: BlockersOf_def mget_RemoveFromCombat)
  have bl: "Blocked ?c a \<longleftrightarrow> Blocked c a \<and> \<not> (Attacking c i \<and> a = i)" for a
    by (simp add: Blocked_def mget_RemoveFromCombat)
  have fl: "AttacksDeclared ?c = AttacksDeclared c" "BlocksDeclared ?c = BlocksDeclared c" "maxBlockers ?c = maxBlockers c"
    "CBlocks c = None \<longrightarrow> CBlocks ?c = None"
    by (auto simp: RemoveFromCombat_def Let_def maxBlockers_def mdelo_def split: option.split)
  have "int (length (BlockersOf ?c a)) \<le> maxBlockers c" for a
  proof -
    have "length (BlockersOf ?c a) \<le> length (BlockersOf c a)" by (simp add: bo length_remove1)
    moreover have "int (length (BlockersOf c a)) \<le> maxBlockers c" using ok by (simp add: combat_ok_def)
    ultimately show ?thesis by linarith
  qed
  moreover have "distinct (BlockersOf ?c a)" for a using ok by (simp add: bo combat_ok_def)
  moreover have "set (BlockersOf ?c a) \<subseteq> set (BlockersOf c a)" for a
    by (simp add: bo set_remove1_subset)
  moreover have "Blocked ?c a \<longrightarrow> Attacking ?c a" for a using ok by (auto simp: at bl combat_ok_def)
  moreover have "distinct (map atAttacker (Attacks ?c))" using d by (simp add: Attacks_RemoveFromCombat [OF d] distinct_map_filter)
  moreover have "\<not> AttacksDeclared c \<longrightarrow> Attacks ?c = []" "\<not> BlocksDeclared c \<longrightarrow> CBlocks ?c = None"
    using ok fl(4) by (auto simp: combat_ok_def Attacks_RemoveFromCombat [OF d])
  ultimately show ?thesis using ok unfolding combat_ok_def fl by (meson subsetD)
qed

lemma ResetCombat_ok: "combat_ok (ResetCombat c)"
  using maxBlockers_pos [of "ResetCombat c"] by (simp add: combat_ok_def ResetCombat_def Blocked_def BlockersOf_def less_imp_le)

lemma combat_step_ok: "combat_step c c' \<Longrightarrow> combat_ok c \<Longrightarrow> combat_ok c'"
  by (induction rule: combat_step.induct)
     (auto intro: DeclareAttacks_ok DeclareBlocks_ok RemoveFromCombat_ok ResetCombat_ok)

text \<open>
  C26. However attacks are declared, blocks are declared, entities leave combat and the round is
  reset, starting from a fresh Combat: no creature attacks twice, every blocked creature attacks,
  nobody blocks two attackers or the same one twice, and no attacker has more blockers than the
  maximum; so Blocking names the one attacker an entity blocks.
\<close>

theorem combat_stays_legal:
  assumes "combat_step\<^sup>*\<^sup>* (ResetCombat c0) c"
  shows "combat_ok c \<and> (\<forall>a b. b \<in> set (BlockersOf c a) \<longrightarrow> Blocking c b = Some a)"
proof -
  from assms have ok: "combat_ok c"
    by (induction rule: rtranclp_induct) (auto intro: ResetCombat_ok combat_step_ok)
  have "Blocking c b = Some a" if b: "b \<in> set (BlockersOf c a)" for a b
  proof -
    have "Blocked c a" using b by (cases "mget (CBlocks c) a") (simp_all add: BlockersOf_def Blocked_def)
    then obtain x where x: "x \<in> set (Attacks c)" "atAttacker x = a"
      using ok by (auto simp: combat_ok_def Attacking_def list_ex_iff)
    have u: "b \<in> set (BlockersOf c a') \<Longrightarrow> a' = a" for a' using ok b unfolding combat_ok_def by blast
    obtain y where y: "find (\<lambda>a. list_ex (\<lambda>b'. b' = b) (BlockersOf c (atAttacker a))) (Attacks c) = Some y"
      using x b by (cases "find (\<lambda>a. list_ex (\<lambda>b'. b' = b) (BlockersOf c (atAttacker a))) (Attacks c)")
        (auto simp: find_None_iff list_ex_iff)
    then have "b \<in> set (BlockersOf c (atAttacker y))" by (auto simp: find_Some_iff list_ex_iff)
    with u y show ?thesis by (simp add: Blocking_def)
  qed
  with ok show ?thesis by blast
qed

theorem combat_stays_legal_witness:
  "let c = snd (DeclareBlocks [(7, 1), (8, 1)] None None
      (snd (DeclareAttacks (Attacks skirmish) None (ResetCombat skirmish) :: string combatError option \<times> combat)) :: string combatError option \<times> combat) in
   8 \<in> set (BlockersOf c 1) \<and> Blocking c 8 = Some 1"
proof -
  let ?c = "snd (DeclareBlocks [(7, 1), (8, 1)] None None
      (snd (DeclareAttacks (Attacks skirmish) None (ResetCombat skirmish) :: string combatError option \<times> combat)) :: string combatError option \<times> combat)"
  have "combat_step\<^sup>*\<^sup>* (ResetCombat skirmish) ?c"
    by (blast intro: combat_step.intros rtranclp.intros)
  moreover have "8 \<in> set (BlockersOf ?c 1)" by code_simp
  ultimately show ?thesis using combat_stays_legal [of skirmish ?c] by (simp add: Let_def)
qed

section \<open>From the prompt to the declaration\<close>

text \<open>
  What an answer's side may be: a float64, as JSON delivers it, or the EntityID the prompt
  offered when the answer never left the process; identifiers up to \<open>2 ^ 53\<close>.
\<close>

definition wireID :: "goval \<Rightarrow> bool" where
  "wireID v = (case v of VFloat t x \<Rightarrow> t = ''float64'' | VInt t n \<Rightarrow> t = ''EntityID'' \<and> 0 \<le> n \<and> n < 2 ^ 53 | _ \<Rightarrow> False)"

definition smallID :: "entityID \<Rightarrow> bool" where
  "smallID i \<longleftrightarrow> uint i < 2 ^ 53"

lemma asNumber_entityValue: "smallID i \<Longrightarrow> asNumber (entityValue i) = Some (Fin (of_int (uint i)))"
  by (simp add: entityValue_def smallID_def int_to_f64_exact)

lemma f64_eq_Fin: "f64_eq (Fin x) y \<longleftrightarrow> y = Fin x"
  by (cases y) auto

lemma rat_trunc_of_int: "0 \<le> n \<Longrightarrow> rat_trunc (of_int n) = n"
  by (simp add: rat_trunc_def)

lemma sameItem_decodes:
  assumes i: "smallID i" and v: "wireID v" and s: "sameItem (entityValue i) v"
  shows "toEntityID v = Some i" "asNumber v = Some (Fin (of_int (uint i)))"
proof -
  show n: "asNumber v = Some (Fin (of_int (uint i)))"
    using s by (simp add: sameItem_def asNumber_entityValue [OF i] f64_eq_Fin split: option.splits)
  show "toEntityID v = Some i"
  proof (cases v)
    case (VInt t k)
    then have t: "t = ''EntityID''" "(of_int k :: rat) = of_int (uint i)"
      using v n by (simp_all add: wireID_def int_to_f64_exact)
    from t(2) have "k = uint i" by (simp only: of_int_eq_iff)
    with t show ?thesis by (simp add: VInt)
  next
    case (VFloat t x)
    then have "x = Fin (of_int (uint i))" "t = ''float64''" using v n by (auto simp: wireID_def)
    moreover obtain n where n': "uint i = n" "0 \<le> n" "n < 2 ^ 64" "word_of_int n = i"
      using uint_bounded [of i] by force
    moreover have "(of_int n :: rat) < 2 ^ 64" using n'(3) by (metis of_int_less_iff of_int_numeral of_int_power)
    ultimately show ?thesis using VFloat by (simp del: of_int_uint add: rat_trunc_of_int)
  qed (use v in \<open>simp_all add: wireID_def\<close>)
qed

lemma set_legalFor: "set (legalFor legal a prev bs) \<subseteq> {(b, x). x = a \<and> b \<in> set bs \<and> allowed legal b a}"
  by (induction legal a prev bs rule: legalFor.induct) auto

lemma set_LegalBlocks:
  "(b, a) \<in> set (LegalBlocks cands legal c) \<Longrightarrow> Attacking c a \<and> b \<in> set cands \<and> allowed legal b a"
  using set_legalFor by (fastforce simp: LegalBlocks_def Attacking_def list_ex_iff)

lemma EntityPairs_map:
  "(\<forall>(l, r) \<in> set ps. toEntityID l = Some (f l) \<and> toEntityID r = Some (f r)) \<Longrightarrow>
   EntityPairs ps = Inr (map (\<lambda>(l, r). (f l, f r)) ps)"
  by (induction ps rule: EntityPairs.induct) auto

lemma distinct_by_count: "(\<forall>x \<in> set xs. length (filter (\<lambda>y. y = x) xs) \<le> 1) \<Longrightarrow> distinct xs"
proof (induction xs)
  case (Cons x xs)
  have "x \<notin> set xs"
    using Cons.prems by (auto simp: filter_empty_conv)
  moreover have "\<forall>z \<in> set xs. length (filter (\<lambda>y. y = z) xs) \<le> 1"
    using Cons.prems by (force split: if_splits)
  ultimately show ?case using Cons.IH by simp
qed simp

text \<open>A legal answer of wire identifiers decodes to a list of offered blocks within the limits.\<close>

lemma legalAnswer_decodes:
  assumes small: "\<forall>(b, a) \<in> set (LegalBlocks cands legal c). smallID b \<and> smallID a"
    and ok: "legalAnswer (BlockRequest kind cands legal c) chosen"
    and wire: "\<forall>(l, r) \<in> set chosen. wireID l \<and> wireID r"
  obtains ps where "EntityPairs chosen = Inr ps" "set ps \<subseteq> set (LegalBlocks cands legal c)"
    "distinct (map fst ps)" "\<forall>a. int (length (filter (\<lambda>p. snd p = a) ps)) \<le> maxBlockers c"
proof -
  define f where "f v = the (toEntityID v)" for v
  define ps where "ps = map (\<lambda>(l, r). (f l, f r)) chosen"
  have off: "\<exists>b a. (b, a) \<in> set (LegalBlocks cands legal c) \<and> toEntityID l = Some b \<and> toEntityID r = Some a \<and>
      asNumber l = Some (Fin (of_int (uint b))) \<and> asNumber r = Some (Fin (of_int (uint a)))"
    if lr: "(l, r) \<in> set chosen" for l r
  proof -
    have "containsPair (ToAssignmentPairs (LegalBlocks cands legal c)) (l, r)"
      using ok lr by (auto simp: legalAnswer_def BlockRequest_def)
    then obtain b a where ba: "(b, a) \<in> set (LegalBlocks cands legal c)" "sameItem (entityValue b) l" "sameItem (entityValue a) r"
      by (auto simp: containsPair_def ToAssignmentPairs_def list_ex_iff samePair_def)
    then show ?thesis using small wire lr sameItem_decodes by blast
  qed
  have enc: "asNumber v = Some (Fin (of_int (uint (f v)))) \<and> toEntityID v = Some (f v)"
    if "\<exists>p \<in> set chosen. v = fst p \<or> v = snd p" for v
    using that off by (force simp: f_def)
  have same: "sameItem v w \<longleftrightarrow> f v = f w" if "\<exists>p \<in> set chosen. v = fst p \<or> v = snd p" "\<exists>p \<in> set chosen. w = fst p \<or> w = snd p" for v w
    using enc [OF that(1)] enc [OF that(2)] of_int_eq_iff [of "uint (f v)" "uint (f w)", where ?'a = rat]
    by (simp add: sameItem_def word_uint_eq_iff)
  have used: "uses side chosen p = length (filter (\<lambda>q. f (side q) = f (side p)) chosen)"
    if "p \<in> set chosen" "side = fst \<or> side = snd" for p side
    unfolding uses_def using that by (intro arg_cong [of _ _ length] filter_cong refl same) auto
  have pair: "fst ((\<lambda>(l, r). (f l, f r)) q) = f (fst q)" "snd ((\<lambda>(l, r). (f l, f r)) q) = f (snd q)" for q
    by (simp_all add: split_beta)
  have "length (filter (\<lambda>y. y = x) (map fst ps)) \<le> 1" if "x \<in> set (map fst ps)" for x
  proof -
    from that obtain p where p: "p \<in> set chosen" "x = f (fst p)" by (auto simp: ps_def)
    have "length (filter (\<lambda>y. y = x) (map fst ps)) = uses fst chosen p"
      by (simp add: used p ps_def filter_map comp_def pair)
    also have "\<dots> \<le> 1" using ok p(1) by (simp add: legalAnswer_def BlockRequest_def capOf_def)
    finally show ?thesis .
  qed
  then have "distinct (map fst ps)" by (intro distinct_by_count ballI)
  moreover have "int (length (filter (\<lambda>p. snd p = a) ps)) \<le> maxBlockers c" for a
  proof (cases "a \<in> snd ` set ps")
    case True
    then obtain p where p: "p \<in> set chosen" "a = f (snd p)" by (auto simp: ps_def)
    have "length (filter (\<lambda>q. snd q = a) ps) = uses snd chosen p"
      by (simp add: used p ps_def filter_map comp_def pair)
    moreover have "int (uses snd chosen p) \<le> maxBlockers c" using ok p maxBlockers_pos [of c] by (auto simp: legalAnswer_def BlockRequest_def capOf_def split: if_splits)
    ultimately show ?thesis by simp
  next
    case False
    then have "filter (\<lambda>p. snd p = a) ps = []" by (auto simp: filter_empty_conv)
    then show ?thesis using maxBlockers_pos [of c] by simp
  qed
  moreover have "EntityPairs chosen = Inr ps"
    unfolding ps_def using off by (intro EntityPairs_map) (fastforce simp: f_def)
  moreover have "set ps \<subseteq> set (LegalBlocks cands legal c)"
    using off by (force simp: ps_def f_def)
  ultimately show thesis using that by blast
qed

text \<open>
  C21. The prompt and the declaration agree: an answer that ValidateAssignment accepts for the
  request built by BlockRequest, whose sides are numbers as JSON delivers them or the offered
  EntityIDs, always converts back with EntityPairs to a subset of the legal blocks, and
  DeclareBlocks accepts that conversion with the same legality predicate.
\<close>

theorem validated_blocks_are_declared:
  assumes d: "AttacksDeclared c" "\<not> BlocksDeclared c"
    and small: "\<forall>(b, a) \<in> set (LegalBlocks cands legal c). smallID b \<and> smallID a"
    and v: "ValidateAssignment (BlockRequest kind cands legal c) args = Inr chosen"
    and wire: "\<forall>(l, r) \<in> set chosen. wireID l \<and> wireID r"
  shows "\<exists>ps c'. EntityPairs chosen = Inr ps \<and> set ps \<subseteq> set (LegalBlocks cands legal c) \<and>
    (DeclareBlocks ps legal None c :: 'e combatError option \<times> combat) = (None, c')"
proof -
  have "chosen = [] \<or> legalAnswer (BlockRequest kind cands legal c) chosen"
    using v by (auto simp: ValidateAssignment_Inr_iff split: if_splits)
  then obtain ps where ps: "EntityPairs chosen = Inr ps" "set ps \<subseteq> set (LegalBlocks cands legal c)"
    "distinct (map fst ps)" "\<forall>a. int (length (filter (\<lambda>p. snd p = a) ps)) \<le> maxBlockers c"
  proof
    assume "chosen = []"
    then show ?thesis using that [of "[]"] maxBlockers_pos [of c] by simp
  next
    assume "legalAnswer (BlockRequest kind cands legal c) chosen"
    then show ?thesis using legalAnswer_decodes [OF small _ wire] that by blast
  qed
  then have "blocksAllowed c legal ps" using d set_LegalBlocks by (fastforce simp: blocksAllowed_def)
  then obtain bs where "(checkBlocks c legal [] [] ps :: 'e combatError + _) = Inr bs"
    using checkBlocks_allowed [OF d] by blast
  then show ?thesis using ps d by (simp add: DeclareBlocks_def)
qed

theorem validated_blocks_are_declared_witness:
  "\<exists>ps c'. EntityPairs [(VF 8, VF 1)] = Inr ps \<and>
     (DeclareBlocks ps None None skirmish :: unit combatError option \<times> combat) = (None, c')"
proof -
  have "ValidateAssignment (BlockRequest ''blocks'' [8, 7] None skirmish) [VList [VF 8, VF 1]] = Inr [(VF 8, VF 1)]"
    by code_simp
  moreover have "\<forall>(b, a) \<in> set (LegalBlocks [8, 7] None skirmish). smallID b \<and> smallID a" by code_simp
  moreover have "AttacksDeclared skirmish" "\<not> BlocksDeclared skirmish" by (simp_all add: skirmish_def)
  ultimately show ?thesis
    using validated_blocks_are_declared [of skirmish "[8, 7]" None "''blocks''" "[VList [VF 8, VF 1]]" "[(VF 8, VF 1)]", where ?'e = unit]
    by (auto simp: wireID_def simp del: EntityPairs.simps)
qed

end
