(* ===== verification/CcgVisibility.thy ===== *)
theory CcgVisibility
  imports CcgModifiers
begin

text \<open>
  Hidden information in the card module (\<open>modules/ccg/visibility.go\<close>): who sees an entity, and
  the redacted copy of a state handed to a viewer. Attribute maps are values here, so the shallow
  and the deep copy of a map are both the map itself.
\<close>

definition Public :: "8 word" where "Public = 0"

definition OwnerOnly :: "8 word" where "OwnerOnly = 1"

definition Hidden :: "8 word" where "Hidden = 2"

definition SetVisibility :: "entityID \<Rightarrow> 8 word \<Rightarrow> 'k ccg \<Rightarrow> 'k ccg" where
  "SetVisibility i v = updEntity (\<lambda>e. e\<lparr>entVisibility := v\<rparr>) i"

fun grant :: "string list \<Rightarrow> string list \<Rightarrow> string list" where
  "grant have [] = have"
| "grant have (v # vs) = grant (if list_ex (\<lambda>h. h = v) have then have else have @ [v]) vs"

definition RevealTo :: "entityID \<Rightarrow> string list \<Rightarrow> 'k ccg \<Rightarrow> 'k ccg" where
  "RevealTo i viewers = updEntity (\<lambda>e. e\<lparr>entRevealedTo := grant (entRevealedTo e) viewers\<rparr>) i"

definition ConcealFrom :: "entityID \<Rightarrow> string \<Rightarrow> 'k ccg \<Rightarrow> 'k ccg" where
  "ConcealFrom i viewer = updEntity (\<lambda>e. e\<lparr>entRevealedTo := remove1 viewer (entRevealedTo e)\<rparr>) i"

definition SetMask :: "entityID \<Rightarrow> goval gomap option \<Rightarrow> 'k ccg \<Rightarrow> 'k ccg" where
  "SetMask i attrs = updEntity (\<lambda>e. e\<lparr>entMask := attrs\<rparr>) i"

definition IsVisibleTo :: "entity \<Rightarrow> string \<Rightarrow> bool" where
  "IsVisibleTo e viewer =
     (if list_ex (\<lambda>v. v = viewer) (entRevealedTo e) then True
      else if entVisibility e = Public then True
      else if entVisibility e = OwnerOnly then entOwner e = viewer
      else if entVisibility e = Hidden then False
      else True)"

definition redactEntity :: "string \<Rightarrow> entity \<Rightarrow> entity" where
  "redactEntity viewer e =
     (if IsVisibleTo e viewer then
        \<lparr>entID = entID e, entDefID = entDefID e, entType = entType e, entOwner = entOwner e,
         entController = entController e, entZone = entZone e, entVisibility = entVisibility e,
         entRevealedTo = entRevealedTo e, entMask = entMask e, entAttrs = entAttrs e\<rparr>
      else blankEntity\<lparr>entID := entID e, entZone := entZone e, entVisibility := entVisibility e,
         entAttrs := entMask e\<rparr>)"

definition redactedIn :: "string \<Rightarrow> 'k ccg \<Rightarrow> entityID \<Rightarrow> bool" where
  "redactedIn viewer s i = (case Get s i of Some e \<Rightarrow> \<not> IsVisibleTo e viewer | None \<Rightarrow> False)"

definition redactModifier :: "string \<Rightarrow> 'k ccg \<Rightarrow> modifier \<Rightarrow> modifier" where
  "redactModifier viewer s m =
     (if redactedIn viewer s (modSource m) \<or> redactedIn viewer s (modTarget m) then
        \<lparr>modID = modID m, modSource = 0, modLayer = modLayer m, modTarget = 0, modAttribute = '''',
         modOp = OpOther '''', modValue = VNil, modNote = '''', modInsertion = modInsertion m,
         modExpiresWith = 0, modWhileIn = []\<rparr>
      else m\<lparr>modExpiresWith := 0, modWhileIn := []\<rparr>)"

definition RedactForViewer :: "string \<Rightarrow> 'k ccg \<Rightarrow> 'k ccg" where
  "RedactForViewer viewer s =
     NewState\<lparr>IDs := (IDs (NewState :: 'k ccg))\<lparr>NextEntityID := NextEntityID (IDs s), NextModID := NextModID (IDs s),
                NextInsertion := NextInsertion (IDs s), NextSubID := NextSubID (IDs s)\<rparr>,
       Entities := map (\<lambda>(i, e). (i, redactEntity viewer e)) (Entities s),
       Zones := map (\<lambda>(n, z). (n, \<lparr>zName = zName z, zOrdered = zOrdered z, zCapacity = zCapacity z,
                  zMembers = zMembers z\<rparr>)) (Zones s),
       Modifiers := map (\<lambda>(i, m). (i, redactModifier viewer s m)) (Modifiers s),
       BusEvents := filter (\<lambda>ev. \<not> (redactedIn viewer s (cevSource ev) \<or> redactedIn viewer s (cevTarget ev)))
                      (BusEvents s)\<rparr>"

section \<open>Grants\<close>

lemma list_ex_eq: "list_ex (\<lambda>h. h = v) xs \<longleftrightarrow> v \<in> set xs"
  by (induction xs) auto

lemma set_grant: "set (grant have vs) = set have \<union> set vs"
  by (induction vs arbitrary: "have") (auto simp: list_ex_eq)

lemma distinct_grant: "distinct (grant have vs) = distinct have"
  by (induction vs arbitrary: "have") (auto simp: list_ex_eq)

text \<open>The grants of every entity are kept without duplicates.\<close>

definition grants_ok :: "'k ccg \<Rightarrow> bool" where
  "grants_ok s \<longleftrightarrow> (\<forall>e \<in> snd ` set (Entities s). distinct (entRevealedTo e))"

lemma IsVisibleTo_RevealTo:
  "Get (RevealTo i vs s) i = Some e' \<Longrightarrow> Get s i = Some e \<Longrightarrow> IsVisibleTo e' viewer \<longleftrightarrow> viewer \<in> set vs \<or> IsVisibleTo e viewer"
  by (auto simp: RevealTo_def Get_updEntity IsVisibleTo_def list_ex_eq set_grant)

lemma IsVisibleTo_ConcealFrom:
  "Get (ConcealFrom i v s) i = Some e' \<Longrightarrow> Get s i = Some e \<Longrightarrow> distinct (entRevealedTo e) \<Longrightarrow>
   IsVisibleTo e' viewer \<longleftrightarrow> (if viewer = v then IsVisibleTo (e\<lparr>entRevealedTo := []\<rparr>) viewer else IsVisibleTo e viewer)"
  by (auto simp: ConcealFrom_def Get_updEntity IsVisibleTo_def list_ex_eq)

section \<open>What a viewer learns\<close>

lemma map_of_map_entry: "map_of (map (\<lambda>(k, v). (k, f v)) al) k = map_option f (map_of al k)"
  by (induction al) auto

lemma Get_view: "Get (RedactForViewer viewer s) i = map_option (redactEntity viewer) (Get s i)"
  by (simp add: Get_def RedactForViewer_def map_of_map_entry)

lemma redactEntity_visible: "IsVisibleTo e viewer \<Longrightarrow> redactEntity viewer e = e"
  by (simp add: redactEntity_def)

lemma BusEvents_view:
  "BusEvents (RedactForViewer viewer s) = filter (\<lambda>ev. \<not> (redactedIn viewer s (cevSource ev) \<or> redactedIn viewer s (cevTarget ev))) (BusEvents s)"
  by (simp add: RedactForViewer_def)

text \<open>
  Two states a viewer must not be able to tell apart: they agree on everything the viewer may
  see, and of the rest only on identifiers, places, visibilities, masks and the order of the
  modifiers. Owner, type, definition, controller, attributes and grants of a hidden entity are
  free, as are the effect and the ends of a modifier that touches one, the events that name one,
  and the pending effects, triggers and subscriptions.
\<close>

definition sameEntity :: "string \<Rightarrow> entity \<Rightarrow> entity \<Rightarrow> bool" where
  "sameEntity viewer e e' \<longleftrightarrow> (if IsVisibleTo e viewer then e' = e
     else \<not> IsVisibleTo e' viewer \<and> entID e' = entID e \<and> entZone e' = entZone e \<and>
       entVisibility e' = entVisibility e \<and> entMask e' = entMask e)"

definition touches :: "string \<Rightarrow> 'k ccg \<Rightarrow> modifier \<Rightarrow> bool" where
  "touches viewer s m \<longleftrightarrow> redactedIn viewer s (modSource m) \<or> redactedIn viewer s (modTarget m)"

definition sameModifier :: "string \<Rightarrow> 'k ccg \<Rightarrow> 'k ccg \<Rightarrow> modifier \<Rightarrow> modifier \<Rightarrow> bool" where
  "sameModifier viewer s t m m' \<longleftrightarrow> (if touches viewer s m
     then touches viewer t m' \<and> modID m' = modID m \<and> modLayer m' = modLayer m \<and> modInsertion m' = modInsertion m
     else m' = m)"

definition visibleEvents :: "string \<Rightarrow> 'k ccg \<Rightarrow> cevent list" where
  "visibleEvents viewer s =
     filter (\<lambda>ev. \<not> redactedIn viewer s (cevSource ev) \<and> \<not> redactedIn viewer s (cevTarget ev)) (BusEvents s)"

definition indistinguishable :: "string \<Rightarrow> 'k ccg \<Rightarrow> 'k ccg \<Rightarrow> bool" where
  "indistinguishable viewer s t \<longleftrightarrow>
     list_all2 (\<lambda>(i, e) (j, e'). i = j \<and> sameEntity viewer e e') (Entities s) (Entities t) \<and>
     Zones t = Zones s \<and>
     list_all2 (\<lambda>(i, m) (j, m'). i = j \<and> sameModifier viewer s t m m') (Modifiers s) (Modifiers t) \<and>
     visibleEvents viewer t = visibleEvents viewer s \<and>
     NextEntityID (IDs t) = NextEntityID (IDs s) \<and> NextModID (IDs t) = NextModID (IDs s) \<and>
     NextInsertion (IDs t) = NextInsertion (IDs s) \<and> NextSubID (IDs t) = NextSubID (IDs s)"

lemma sameEntity_redact: "sameEntity viewer e e' \<Longrightarrow> redactEntity viewer e' = redactEntity viewer e"
  by (auto simp: sameEntity_def redactEntity_def split: if_splits)

lemma sameEntity_visible: "sameEntity viewer e e' \<Longrightarrow> IsVisibleTo e' viewer = IsVisibleTo e viewer"
  by (auto simp: sameEntity_def split: if_splits)

lemma redactedIn_same:
  assumes "list_all2 (\<lambda>(i, e) (j, e'). i = j \<and> sameEntity viewer e e') (Entities s) (Entities t)"
  shows "redactedIn viewer t = redactedIn viewer s"
proof
  fix i
  have "rel_option (sameEntity viewer) (map_of (Entities s) i) (map_of (Entities t) i)"
    using assms by (induction rule: list_all2_induct) auto
  then show "redactedIn viewer t i = redactedIn viewer s i"
    by (cases "map_of (Entities s) i"; cases "map_of (Entities t) i")
       (auto simp: redactedIn_def Get_def dest: sameEntity_visible)
qed

lemma list_all2_map_eq: "list_all2 (\<lambda>x y. f x = g y) xs ys \<Longrightarrow> map g ys = map f xs"
  by (induction rule: list_all2_induct) simp_all

text \<open>
  C8. RedactForViewer leaks nothing: two states that agree on what a viewer may see, and on
  identifiers, places, visibilities and masks of what it may not, give that viewer the same
  redacted state, whatever the hidden entities are, whatever modifiers on them do and whatever
  events named them.
\<close>

theorem RedactForViewer_noninterference:
  assumes "indistinguishable viewer s t"
  shows "RedactForViewer viewer t = RedactForViewer viewer s"
proof -
  note i = assms [unfolded indistinguishable_def]
  have r: "redactedIn viewer t = redactedIn viewer s" using i redactedIn_same by blast
  have "map (\<lambda>(i, e). (i, redactEntity viewer e)) (Entities t) = map (\<lambda>(i, e). (i, redactEntity viewer e)) (Entities s)"
    using i by (intro list_all2_map_eq) (auto elim!: list_all2_mono dest: sameEntity_redact)
  moreover have "redactModifier viewer t m' = redactModifier viewer s m" if "sameModifier viewer s t m m'" for m m'
    using that by (auto simp: sameModifier_def touches_def redactModifier_def r split: if_splits)
  then have "map (\<lambda>(i, m). (i, redactModifier viewer t m)) (Modifiers t) = map (\<lambda>(i, m). (i, redactModifier viewer s m)) (Modifiers s)"
    using i by (intro list_all2_map_eq) (auto elim!: list_all2_mono)
  moreover have "BusEvents (RedactForViewer viewer t) = BusEvents (RedactForViewer viewer s)"
    using i by (simp add: BusEvents_view visibleEvents_def)
  ultimately show ?thesis using i by (simp add: RedactForViewer_def)
qed

lemma SetAttr_hidden_unseen:
  assumes e: "Get s i = Some e" "\<not> IsVisibleTo e viewer" and d: "mwf (Entities s)"
  shows "indistinguishable viewer s (SetAttr i k v s)"
proof -
  have up: "SetAttr i k v s = s\<lparr>Entities := mput i (entSetAttr k v e) (Entities s)\<rparr>"
    using e by (simp add: SetAttr_def updEntity_def storeEntity_def)
  have vis: "IsVisibleTo (entSetAttr k v e) = IsVisibleTo e" by (simp add: IsVisibleTo_def entSetAttr_def fun_eq_iff)
  have "redactedIn viewer (SetAttr i k v s) = redactedIn viewer s"
    using e vis by (auto simp: up redactedIn_def Get_def fun_eq_iff)
  moreover have "list_all2 (\<lambda>(i, e) (j, e'). i = j \<and> sameEntity viewer e e') m (mput i (entSetAttr k v e) m)"
    if "map_of m i = Some e" "distinct (map fst m)" for m
    using that
  proof (induction m)
    case (Cons p m)
    have refl: "list_all2 (\<lambda>(i, e) (j, e'). i = j \<and> sameEntity viewer e e') m m"
      by (rule list_all2_refl) (auto simp: sameEntity_def)
    show ?case
    proof (cases "fst p = i")
      case True
      then have "mput i (entSetAttr k v e) (p # m) = (i, entSetAttr k v e) # m" "snd p = e"
        using Cons.prems by (auto simp: mput_def split: prod.splits)
      then show ?thesis using refl True e vis by (cases p) (auto simp: sameEntity_def entSetAttr_def)
    next
      case False
      then have "mput i (entSetAttr k v e) (p # m) = p # mput i (entSetAttr k v e) m"
        by (cases p) (simp add: mput_def)
      then show ?thesis using Cons False by (cases p) (auto simp: sameEntity_def)
    qed
  qed simp
  ultimately show ?thesis using e d
    by (auto simp: indistinguishable_def up Get_def mwf_def visibleEvents_def sameModifier_def touches_def intro: list_all2_refl)
qed

definition hiddenCard :: "unit ccg" where
  "hiddenCard = SetVisibility 1 Hidden (snd (NewEntity ''card'' ''0'' (Some [(''rank'', VI 3)]) NewState))"

theorem RedactForViewer_noninterference_witness:
  "RedactForViewer ''1'' (SetAttr 1 ''rank'' (VI 12) hiddenCard) = RedactForViewer ''1'' hiddenCard"
proof -
  obtain e where "Get hiddenCard 1 = Some e" "\<not> IsVisibleTo e ''1''"
    by (simp add: hiddenCard_def SetVisibility_def updEntity_def NewEntity_def mint_def NewState_def Let_def storeEntity_def
        Get_def IsVisibleTo_def Public_def OwnerOnly_def Hidden_def blankEntity_def)
  moreover have "mwf (Entities hiddenCard)"
    by (simp add: hiddenCard_def SetVisibility_def updEntity_def NewEntity_def mint_def NewState_def Let_def storeEntity_def Get_def)
  ultimately have "indistinguishable ''1'' hiddenCard (SetAttr 1 ''rank'' (VI 12) hiddenCard)"
    by (rule SetAttr_hidden_unseen)
  then show ?thesis by (rule RedactForViewer_noninterference)
qed

section \<open>What a viewer computes\<close>

lemma insort_key_map: "insort_key k (f x) (map f xs) = map f (insort_key (\<lambda>x. k (f x)) x xs)"
  by (induction xs) auto

lemma sort_key_map_key: "(\<And>x. k (f x) = k x) \<Longrightarrow> sort_key k (map f xs) = map f (sort_key k xs)"
proof (induction xs)
  case (Cons x xs)
  then have "sort_key k (map f (x # xs)) = insort_key k (f x) (map f (sort_key k xs))" by simp
  also have "\<dots> = map f (insort_key k x (sort_key k xs))" unfolding insort_key_map using Cons.prems by simp
  finally show ?case by simp
qed simp

definition everlasting :: "modifier \<Rightarrow> modifier" where
  "everlasting m = m\<lparr>modExpiresWith := 0, modWhileIn := []\<rparr>"

lemma modifiersFor_view:
  assumes i: "i \<noteq> 0" "\<not> redactedIn viewer s i"
    and live: "\<forall>(j, m) \<in> set (Modifiers s). modTarget m = i \<and> modAttribute m = attr \<longrightarrow>
      modifierAlive s m \<and> \<not> redactedIn viewer s (modSource m)"
  shows "modifiersFor (RedactForViewer viewer s) i attr = map everlasting (modifiersFor s i attr)"
proof -
  let ?Q = "\<lambda>m. modTarget m = i \<and> modAttribute m = attr" and ?key = "\<lambda>m. (modLayer m, modInsertion m)"
  have one: "?Q (redactModifier viewer s m) \<and> modifierAlive (RedactForViewer viewer s) (redactModifier viewer s m) \<longleftrightarrow> ?Q m \<and> modifierAlive s m"
    "?Q m \<Longrightarrow> redactModifier viewer s m = everlasting m"
    if "?Q m \<longrightarrow> modifierAlive s m \<and> \<not> redactedIn viewer s (modSource m)" for m
  proof -
    show "?Q m \<Longrightarrow> redactModifier viewer s m = everlasting m"
      using that i by (simp add: redactModifier_def everlasting_def)
    have "modTarget (redactModifier viewer s m) = (if touches viewer s m then 0 else modTarget m)"
      "modAttribute (redactModifier viewer s m) = (if touches viewer s m then '''' else modAttribute m)"
      "modifierAlive (RedactForViewer viewer s) (redactModifier viewer s m)"
      by (simp_all add: redactModifier_def touches_def modifierAlive_def)
    then show "?Q (redactModifier viewer s m) \<and> modifierAlive (RedactForViewer viewer s) (redactModifier viewer s m) \<longleftrightarrow> ?Q m \<and> modifierAlive s m"
      using that i by (auto simp: touches_def split: if_splits)
  qed
  have "filter (\<lambda>m. ?Q m \<and> modifierAlive (RedactForViewer viewer s) m) (map (redactModifier viewer s) ms) =
        map everlasting (filter (\<lambda>m. ?Q m \<and> modifierAlive s m) ms)"
    if "\<forall>m \<in> set ms. ?Q m \<longrightarrow> modifierAlive s m \<and> \<not> redactedIn viewer s (modSource m)" for ms
    using that
  proof (induction ms)
    case (Cons m ms)
    then show ?case using one [of m] by (cases "?Q m \<and> modifierAlive s m") simp_all
  qed simp
  from this [of "map snd (Modifiers s)"] live
  have f: "filter (\<lambda>m. ?Q m \<and> modifierAlive (RedactForViewer viewer s) m) (map snd (Modifiers (RedactForViewer viewer s))) =
        map everlasting (filter (\<lambda>m. ?Q m \<and> modifierAlive s m) (map snd (Modifiers s)))"
    by (auto simp: RedactForViewer_def comp_def split_def)
  have "sort_key ?key (map everlasting ms) = map everlasting (sort_key ?key ms)" for ms
    by (rule sort_key_map_key) (simp add: everlasting_def)
  with f show ?thesis by (simp add: modifiersFor_def)
qed

lemma applyOp_everlasting: "applyOp v (everlasting m) = applyOp v m"
  by (cases "modOp m") (simp_all add: everlasting_def applyOp_def)


lemma foldl_everlasting: "foldl applyOp v (map everlasting ms) = foldl applyOp v ms"
  by (induction ms arbitrary: v) (simp_all add: applyOp_everlasting)

text \<open>
  What a viewer computes from its view is right for what it sees: for a visible entity none
  of whose modifiers on an attribute is expired or comes from an entity hidden from that viewer,
  the effective attribute in the redacted state is the effective attribute in the game.
\<close>

theorem EffectiveAttr_in_view:
  assumes i: "i \<noteq> 0" "\<not> redactedIn viewer s i"
    and live: "\<forall>(j, m) \<in> set (Modifiers s). modTarget m = i \<and> modAttribute m = attr \<longrightarrow>
      modifierAlive s m \<and> \<not> redactedIn viewer s (modSource m)"
  shows "EffectiveAttr (RedactForViewer viewer s) i attr def = EffectiveAttr s i attr def"
proof -
  have "baseAttr (RedactForViewer viewer s) i attr def = baseAttr s i attr def"
    using i by (auto simp: baseAttr_def Get_view redactedIn_def redactEntity_visible split: option.split)
  then show ?thesis by (simp add: EffectiveAttr_def modifiersFor_view [OF i live] foldl_everlasting)
qed

theorem EffectiveAttr_in_view_witness:
  "EffectiveAttr (RedactForViewer ''1'' tableFour) 1 ''power'' VNil = EffectiveAttr tableFour 1 ''power'' VNil"
proof (rule EffectiveAttr_in_view)
  show "\<forall>(j, m) \<in> set (Modifiers tableFour). modTarget m = 1 \<and> modAttribute m = ''power'' \<longrightarrow>
      modifierAlive tableFour m \<and> \<not> redactedIn ''1'' tableFour (modSource m)"
    by code_simp
  show "\<not> redactedIn ''1'' tableFour 1" by code_simp
qed simp

text \<open>
  The view drops a modifier's expiry and keeps the rest of it: a modifier that lasts while an
  entity is on the battlefield no longer counts in the game once the entity is elsewhere, but
  counts again in the view, where a visible creature of power 4 is shown with power 9.
\<close>

theorem view_revives_expired_modifiers:
  "let s = snd (AddModifier ((modAdd 9)\<lparr>modOp := OpSet, modExpiresWith := 1, modWhileIn := [''battlefield'']\<rparr>)
       (snd (NewEntity ''creature'' ''0'' (Some [(''power'', VI 4)]) (NewState :: unit ccg)))) in
   EffectiveAttr s 1 ''power'' VNil = VI 4 \<and> EffectiveAttr (RedactForViewer ''0'' s) 1 ''power'' VNil = VI 9"
  unfolding Let_def by (rule conjI) code_simp+

text \<open>
  Events that name a hidden entity are withheld only while the entity exists: after Destroy the
  identifier is unknown, so nothing is redacted and the same history entry appears in the view.
\<close>

theorem destroyed_secret_surfaces:
  "let ev = \<lparr>cevType = ''peeked'', cevSource = 1, cevTarget = 0, cevData = Some [(''rank'', VI 3)]\<rparr>;
       s = hiddenCard\<lparr>BusEvents := [ev]\<rparr> in
   BusEvents (RedactForViewer ''1'' s) = [] \<and> BusEvents (RedactForViewer ''1'' (Destroy 1 s)) = [ev]"
  unfolding Let_def by (rule conjI) code_simp+

end
