(* ===== verification/Economy.thy ===== *)
theory Economy
  imports CcgBus
begin

text \<open>
  Resources over counters (\<open>modules/economy\<close>): pools (pool.go), baskets that pay a price of several
  kinds at once (basket.go) and the income curve (scaling.go). Pools and baskets hold no state of
  their own. An operation returns \<open>None\<close> when it panics, or when a handler of the bus does.
\<close>

section \<open>Pools (\<open>pool.go\<close>)\<close>

record pool =
  poolOwner :: entityID
  poolKind :: string
  poolCap :: int
  poolAllowNegative :: bool

datatype econError = ErrInsufficient | ErrNegativeSpend | ErrUnknownKind | ErrNegativeCost

definition Current :: "pool \<Rightarrow> 'k ccg \<Rightarrow> int" where
  "Current p s = Counters s (poolOwner p) (poolKind p)"

definition Gain :: "'k busCode \<Rightarrow> pool \<Rightarrow> int \<Rightarrow> 'k ccg \<Rightarrow> (int \<times> 'k ccg) option" where
  "Gain code p n s =
     (let add = (\<lambda>n. map_option (Pair n) (AddCounter code (poolOwner p) (poolKind p) n s))
      in if n \<le> 0 then Some (0, s)
         else if 0 < poolCap p then
           (let gap = wrap64 (poolCap p - Current p s)
            in if gap \<le> 0 then Some (0, s) else add (if gap < n then gap else n))
         else add n)"

definition Spend :: "'k busCode \<Rightarrow> pool \<Rightarrow> int \<Rightarrow> 'k ccg \<Rightarrow> (econError option \<times> 'k ccg) option" where
  "Spend code p n s =
     (if n < 0 then Some (Some ErrNegativeSpend, s)
      else if n = 0 then Some (None, s)
      else if Current p s < n then Some (Some ErrInsufficient, s)
      else map_option (Pair None) (RemoveCounter code (poolOwner p) (poolKind p) n s))"

definition PoolSet :: "'k busCode \<Rightarrow> pool \<Rightarrow> int \<Rightarrow> 'k ccg \<Rightarrow> (int \<times> 'k ccg) option" where
  "PoolSet code p n s =
     (let n = (if \<not> poolAllowNegative p \<and> n < 0 then 0 else n);
          n = (if 0 < poolCap p \<and> poolCap p < n then poolCap p else n);
          delta = wrap64 (n - Current p s)
      in if delta = 0 then Some (n, s)
         else map_option (Pair n)
           (if poolAllowNegative p then AddCounterSigned code (poolOwner p) (poolKind p) delta s
            else AddCounter code (poolOwner p) (poolKind p) delta s))"

section \<open>Baskets (\<open>basket.go\<close>)\<close>

text \<open>
  A price and a basket are Go maps; the price is listed in the order the loop visits it, which
  only decides which of several errors is reported.
\<close>

type_synonym cost = "(string \<times> int) list"

type_synonym basket = "pool gomap"

fun reserveFrom :: "basket \<Rightarrow> 'k ccg \<Rightarrow> int gomap \<Rightarrow> cost \<Rightarrow> econError + int gomap" where
  "reserveFrom b s reserved [] = Inr reserved"
| "reserveFrom b s reserved ((kind, amount) # rest) =
     (if amount < 0 then Inl ErrNegativeCost
      else if amount = 0 then reserveFrom b s reserved rest
      else case map_of b kind of
        None \<Rightarrow> Inl ErrUnknownKind
      | Some p \<Rightarrow> if Current p s < amount then Inl ErrInsufficient
                  else reserveFrom b s (mput kind amount reserved) rest)"

definition reserve :: "basket \<Rightarrow> 'k ccg \<Rightarrow> cost \<Rightarrow> econError + int gomap" where
  "reserve b s cost = reserveFrom b s [] cost"

definition CanPay :: "basket \<Rightarrow> 'k ccg \<Rightarrow> cost \<Rightarrow> bool" where
  "CanPay b s cost = (case reserve b s cost of Inr _ \<Rightarrow> True | Inl _ \<Rightarrow> False)"

definition noPool :: pool where
  "noPool = \<lparr>poolOwner = 0, poolKind = '''', poolCap = 0, poolAllowNegative = False\<rparr>"

text \<open>The loop over the sorted kinds; a Spend that fails panics.\<close>

fun spendKinds :: "'k busCode \<Rightarrow> basket \<Rightarrow> int gomap \<Rightarrow> string list \<Rightarrow> 'k ccg \<Rightarrow> 'k ccg option" where
  "spendKinds code b reserved [] s = Some s"
| "spendKinds code b reserved (kind # kinds) s =
     (case Spend code (case map_of b kind of Some p \<Rightarrow> p | None \<Rightarrow> noPool) (counterIn (Some reserved) kind) s of
        Some (None, s') \<Rightarrow> spendKinds code b reserved kinds s'
      | _ \<Rightarrow> None)"

definition spendReserved :: "'k busCode \<Rightarrow> basket \<Rightarrow> int gomap \<Rightarrow> 'k ccg \<Rightarrow> 'k ccg option" where
  "spendReserved code b reserved s = spendKinds code b reserved (sort (map fst reserved)) s"

definition Pay :: "'k busCode \<Rightarrow> basket \<Rightarrow> cost \<Rightarrow> 'k ccg \<Rightarrow> (econError option \<times> 'k ccg) option" where
  "Pay code b cost s =
     (case reserve b s cost of
        Inl e \<Rightarrow> Some (Some e, s)
      | Inr reserved \<Rightarrow> map_option (Pair None) (spendReserved code b reserved s))"

fun drawGeneric :: "basket \<Rightarrow> 'k ccg \<Rightarrow> int gomap \<Rightarrow> int \<Rightarrow> string list \<Rightarrow> econError + int gomap \<times> int" where
  "drawGeneric b s reserved need [] = Inr (reserved, need)"
| "drawGeneric b s reserved need (kind # kinds) =
     (if need = 0 then Inr (reserved, need)
      else case map_of b kind of
        None \<Rightarrow> Inl ErrUnknownKind
      | Some p \<Rightarrow>
          (let avail = wrap64 (Current p s - counterIn (Some reserved) kind)
           in if avail \<le> 0 then drawGeneric b s reserved need kinds
              else (let take = (if need < avail then need else avail)
                    in drawGeneric b s (mput kind (wrap64 (counterIn (Some reserved) kind + take)) reserved)
                         (wrap64 (need - take)) kinds)))"

definition PayWithGeneric :: "'k busCode \<Rightarrow> basket \<Rightarrow> cost \<Rightarrow> int \<Rightarrow> string list \<Rightarrow> 'k ccg
    \<Rightarrow> (econError option \<times> 'k ccg) option" where
  "PayWithGeneric code b cost generic fallbackOrder s =
     (if generic < 0 then Some (Some ErrNegativeCost, s)
      else case reserve b s cost of
        Inl e \<Rightarrow> Some (Some e, s)
      | Inr reserved \<Rightarrow>
          (case drawGeneric b s reserved generic fallbackOrder of
             Inl e \<Rightarrow> Some (Some e, s)
           | Inr (reserved, need) \<Rightarrow>
               if 0 < need then Some (Some ErrInsufficient, s)
               else map_option (Pair None) (spendReserved code b reserved s)))"

section \<open>Income (\<open>scaling.go\<close>)\<close>

definition Scaled :: "int \<Rightarrow> int \<Rightarrow> int \<Rightarrow> int \<Rightarrow> int" where
  "Scaled turn base per mx =
     (let v = wrap64 (base + wrap64 (wrap64 (turn - 1) * per));
          v = (if v < 0 then 0 else v)
      in if 0 < mx \<and> mx < v then mx else v)"

section \<open>Spending from a pool\<close>

definition counters_fit :: "'k ccg \<Rightarrow> bool" where
  "counters_fit s \<longleftrightarrow> (\<forall>i k. int64 (Counters s i k))"

lemma Current_known: "0 < Current p s \<Longrightarrow> Get s (poolOwner p) \<noteq> None"
  by (cases "Get s (poolOwner p)") (simp_all add: Current_def Counters_def)

lemma Spend_exact:
  assumes q: "quiet code" and fit: "counters_fit s" and n: "0 < n" "n \<le> Current p s"
  obtains s' where "Spend code p n s = Some (None, s')" "counters_fit s'"
    "\<And>i k. Counters s' i k = (if i = poolOwner p \<and> k = poolKind p then Counters s i k - n else Counters s i k)"
proof -
  let ?i = "poolOwner p" and ?k = "poolKind p"
  have c: "int64 (Counters s ?i ?k)" "n \<le> Counters s ?i ?k" using fit n by (simp_all add: counters_fit_def Current_def)
  have w: "wrap64 (- n) = - n" using c n by (intro wrap64_id) (simp add: int64_def)
  have "Get s ?i \<noteq> None" using n by (intro Current_known) simp
  then obtain s' where s': "changeCounter code ?i ?k (- n) False s = Some s'"
    "\<And>i k. Counters s' i k = (if i = ?i \<and> k = ?k then counterAfter False (Counters s ?i ?k) (- n) else Counters s i k)"
    by (rule changeCounter_quiet [OF q _ c(1), of "- n" False]) blast
  have d: "int64 (Counters s ?i ?k - n)" using c n by (simp add: int64_def)
  then have "counterAfter False (Counters s ?i ?k) (- n) = Counters s ?i ?k - n"
    using c(2) by (simp add: counterAfter_exact)
  with s'(2) have r: "Counters s' i k = (if i = ?i \<and> k = ?k then Counters s i k - n else Counters s i k)" for i k by simp
  show thesis
  proof (rule that)
    show "Spend code p n s = Some (None, s')"
      using n s'(1) by (simp add: Spend_def Current_def RemoveCounter_def w)
    show "counters_fit s'" using fit d by (simp add: counters_fit_def r)
  qed (rule r)
qed

section \<open>Reservations\<close>

definition payable :: "basket \<Rightarrow> 'k ccg \<Rightarrow> cost \<Rightarrow> bool" where
  "payable b s cost \<longleftrightarrow>
     (\<forall>(kind, n) \<in> set cost. 0 \<le> n \<and> (0 < n \<longrightarrow> (\<exists>p. map_of b kind = Some p \<and> n \<le> Current p s)))"

text \<open>Every reserved amount is positive and covered by the pool of its kind.\<close>

definition covered :: "basket \<Rightarrow> 'k ccg \<Rightarrow> int gomap \<Rightarrow> bool" where
  "covered b s r \<longleftrightarrow> mwf r \<and> (\<forall>(kind, n) \<in> set r. 0 < n \<and> (\<exists>p. map_of b kind = Some p \<and> n \<le> Current p s))"

abbreviation units :: "(string \<times> int) list \<Rightarrow> int" where
  "units r \<equiv> sum_list (map snd r)"

lemma set_mput: "mwf r \<Longrightarrow> set (mput k v r) = insert (k, v) {e \<in> set r. fst e \<noteq> k}"
  unfolding mput_def mwf_def by (induction r) (auto simp: image_iff)

lemma covered_mput:
  assumes "covered b s r" "0 < n" "map_of b kind = Some p" "n \<le> Current p s"
  shows "covered b s (mput kind n r)"
  using assms by (auto simp: covered_def set_mput)

lemma units_mput: "mwf r \<Longrightarrow> units (mput k v r) = units r - counterIn (Some r) k + v"
  unfolding mput_def mwf_def
proof (induction r)
  case (Cons e r)
  show ?case
  proof (cases "fst e = k")
    case False
    then show ?thesis using Cons by (cases e) (auto simp: counterIn_def)
  qed (cases e, simp add: counterIn_def)
qed (simp add: counterIn_def)

lemma counterIn_covered:
  assumes "covered b s r"
  shows "counterIn (Some r) kind = 0 \<or>
    (\<exists>p. map_of b kind = Some p \<and> 0 < counterIn (Some r) kind \<and> counterIn (Some r) kind \<le> Current p s)"
proof (cases "map_of r kind")
  case (Some n)
  then have "(kind, n) \<in> set r" by (rule map_of_SomeD)
  then show ?thesis using assms Some by (auto simp: covered_def counterIn_def)
qed (simp add: counterIn_def)

lemma reserveFrom_exact:
  assumes "mwf cost" "\<forall>k \<in> fst ` set cost. map_of r k = None" "covered b s r"
  shows "case reserveFrom b s r cost of
      Inl e \<Rightarrow> \<not> payable b s cost
    | Inr r' \<Rightarrow> payable b s cost \<and> covered b s r' \<and> units r' = units r + units cost \<and>
        (\<forall>k. counterIn (Some r') k = counterIn (Some r) k + counterIn (Some cost) k)"
  using assms
proof (induction cost arbitrary: r)
  case Nil
  then show ?case by (simp add: payable_def)
next
  case (Cons c cost)
  obtain kind n where c: "c = (kind, n)" by (cases c)
  have fresh: "map_of cost kind = None" and wf: "mwf cost"
    using Cons.prems(1) by (auto simp: mwf_def c map_of_eq_None_iff)
  have cc: "counterIn (Some ((kind, m) # cost)) k = (if k = kind then m else counterIn (Some cost) k)" for k m
    by (simp add: counterIn_def)
  have z: "counterIn (Some cost) kind = 0" "counterIn (Some r) kind = 0"
    using fresh Cons.prems(2) by (auto simp: counterIn_def c)
  consider "n < 0" | "n = 0" | "0 < n" by linarith
  then show ?case
  proof cases
    case 2
    then show ?thesis using Cons.IH [OF wf _ Cons.prems(3)] Cons.prems(2) z
      by (auto simp: c payable_def cc split: sum.splits)
  next
    case 3
    show ?thesis
    proof (cases "\<exists>p. map_of b kind = Some p \<and> n \<le> Current p s")
      case True
      then obtain p where p: "map_of b kind = Some p" "n \<le> Current p s" by blast
      have "case reserveFrom b s (mput kind n r) cost of
          Inl e \<Rightarrow> \<not> payable b s cost
        | Inr r' \<Rightarrow> payable b s cost \<and> covered b s r' \<and> units r' = units (mput kind n r) + units cost \<and>
            (\<forall>k. counterIn (Some r') k = counterIn (Some (mput kind n r)) k + counterIn (Some cost) k)"
        using Cons.prems fresh wf covered_mput [OF Cons.prems(3) 3 p]
        by (intro Cons.IH) (auto simp: c map_of_eq_None_iff)
      moreover have "units (mput kind n r) = units r + n"
        using units_mput [of r kind n] Cons.prems(3) z by (simp add: covered_def)
      ultimately show ?thesis using 3 p z
        by (auto simp: c payable_def cc split: sum.splits)
    next
      case False
      then show ?thesis using 3 by (auto simp: c payable_def split: option.split)
    qed
  qed (simp add: c payable_def)
qed

lemma reserve_exact:
  assumes "mwf cost"
  shows "case reserve b s cost of
      Inl e \<Rightarrow> \<not> payable b s cost
    | Inr r \<Rightarrow> payable b s cost \<and> covered b s r \<and> units r = units cost \<and>
        counterIn (Some r) = counterIn (Some cost)"
  using reserveFrom_exact [OF assms, of "[]" b s]
  by (auto simp: reserve_def covered_def fun_eq_iff split: sum.splits)

section \<open>Paying\<close>

text \<open>A basket whose kinds draw on different counters.\<close>

definition unaliased :: "basket \<Rightarrow> bool" where
  "unaliased b \<longleftrightarrow> (\<forall>k1 k2 p1 p2. map_of b k1 = Some p1 \<and> map_of b k2 = Some p2 \<and>
     poolOwner p1 = poolOwner p2 \<and> poolKind p1 = poolKind p2 \<longrightarrow> k1 = k2)"

text \<open>The amounts \<open>amt\<close> have left the pools of the basket, and nothing else has changed.\<close>

definition paidFrom :: "basket \<Rightarrow> (string \<Rightarrow> int) \<Rightarrow> 'k ccg \<Rightarrow> 'k ccg \<Rightarrow> bool" where
  "paidFrom b amt s s' \<longleftrightarrow>
     (\<forall>kind p. map_of b kind = Some p \<longrightarrow> Current p s' = Current p s - amt kind) \<and>
     (\<forall>i k. (\<forall>kind p. map_of b kind = Some p \<longrightarrow> (poolOwner p, poolKind p) \<noteq> (i, k)) \<longrightarrow>
        Counters s' i k = Counters s i k)"

lemma spendKinds_exact:
  assumes q: "quiet code" and fit: "counters_fit s" and un: "unaliased b"
    and d: "distinct kinds"
    and c: "\<forall>kind \<in> set kinds. \<exists>p. map_of b kind = Some p \<and> 0 < counterIn (Some r) kind \<and> counterIn (Some r) kind \<le> Current p s"
  shows "\<exists>s'. spendKinds code b r kinds s = Some s' \<and>
    paidFrom b (\<lambda>k. if k \<in> set kinds then counterIn (Some r) k else 0) s s'"
  using fit d c
proof (induction kinds arbitrary: s)
  case (Cons kind kinds)
  let ?n = "counterIn (Some r) kind"
  obtain p where p: "map_of b kind = Some p" "0 < ?n" "?n \<le> Current p s" using Cons.prems(3) by auto
  obtain s1 where s1: "Spend code p ?n s = Some (None, s1)" "counters_fit s1"
    "\<And>i k. Counters s1 i k = (if i = poolOwner p \<and> k = poolKind p then Counters s i k - ?n else Counters s i k)"
    by (rule Spend_exact [OF q Cons.prems(1) p(2,3)]) blast
  have cur: "Current p' s1 = Current p' s - (if k' = kind then ?n else 0)" if "map_of b k' = Some p'" for k' p'
    using un that p(1) unfolding unaliased_def Current_def s1(3) by auto
  have "\<exists>s'. spendKinds code b r kinds s1 = Some s' \<and>
    paidFrom b (\<lambda>k. if k \<in> set kinds then counterIn (Some r) k else 0) s1 s'"
  proof (rule Cons.IH [OF s1(2)])
    show "\<forall>k \<in> set kinds. \<exists>p. map_of b k = Some p \<and> 0 < counterIn (Some r) k \<and> counterIn (Some r) k \<le> Current p s1"
    proof
      fix k assume k: "k \<in> set kinds"
      then obtain p' where "map_of b k = Some p'" "0 < counterIn (Some r) k" "counterIn (Some r) k \<le> Current p' s"
        using Cons.prems(3) by auto
      then show "\<exists>p. map_of b k = Some p \<and> 0 < counterIn (Some r) k \<and> counterIn (Some r) k \<le> Current p s1"
        using cur [of k p'] k Cons.prems(2) by auto
    qed
  qed (use Cons.prems(2) in simp)
  then obtain s' where s': "spendKinds code b r kinds s1 = Some s'"
    "paidFrom b (\<lambda>k. if k \<in> set kinds then counterIn (Some r) k else 0) s1 s'" by blast
  have "Counters s1 i k = Counters s i k" if "\<forall>kind p. map_of b kind = Some p \<longrightarrow> (poolOwner p, poolKind p) \<noteq> (i, k)" for i k
    using that p(1) by (auto simp: s1(3))
  then have "paidFrom b (\<lambda>k. if k \<in> set (kind # kinds) then counterIn (Some r) k else 0) s s'"
    using s'(2) Cons.prems(2) cur unfolding paidFrom_def by auto
  then show ?case using p s1(1) s'(1) by simp
qed (simp add: paidFrom_def)

lemma spendReserved_exact:
  assumes q: "quiet code" and fit: "counters_fit s" and un: "unaliased b" and c: "covered b s r"
  shows "\<exists>s'. spendReserved code b r s = Some s' \<and> paidFrom b (counterIn (Some r)) s s'"
proof -
  have "distinct (sort (map fst r))" using c by (simp add: covered_def mwf_def)
  moreover have pos: "counterIn (Some r) kind \<noteq> 0" if "kind \<in> fst ` set r" for kind
    using that c by (auto simp: covered_def counterIn_def mwf_def split: option.split)
  have "\<forall>kind \<in> set (sort (map fst r)). \<exists>p. map_of b kind = Some p \<and> 0 < counterIn (Some r) kind \<and> counterIn (Some r) kind \<le> Current p s"
    using counterIn_covered [OF c] pos by force
  ultimately obtain s' where s': "spendKinds code b r (sort (map fst r)) s = Some s'"
    "paidFrom b (\<lambda>k. if k \<in> set (sort (map fst r)) then counterIn (Some r) k else 0) s s'"
    using spendKinds_exact [OF q fit un] by blast
  have "(\<lambda>k. if k \<in> set (sort (map fst r)) then counterIn (Some r) k else 0) = counterIn (Some r)"
    by (auto simp: fun_eq_iff counterIn_def dest: map_of_SomeD split: option.split intro: rev_image_eqI)
  then show ?thesis using s' by (simp add: spendReserved_def)
qed

text \<open>
  C27. Basket.Pay is exact and all-or-nothing. For a basket whose kinds draw on different counters
  and handlers that leave entities alone: it succeeds precisely when CanPay says so, which is when
  no amount is negative and every positive one is covered by the pool of its kind; then each pool
  of the basket has lost exactly its amount of the price and no other counter has changed.
  Otherwise it reports an error and the state is untouched. It never panics.
\<close>

theorem Pay_exact:
  assumes q: "quiet code" and fit: "counters_fit s" and un: "unaliased b" and wf: "mwf cost"
  shows "CanPay b s cost = payable b s cost \<and>
    (if CanPay b s cost
     then \<exists>s'. Pay code b cost s = Some (None, s') \<and> paidFrom b (counterIn (Some cost)) s s'
     else \<exists>e. Pay code b cost s = Some (Some e, s))"
proof (cases "reserve b s cost")
  case (Inl e)
  then show ?thesis using reserve_exact [OF wf, of b s] by (simp add: CanPay_def Pay_def)
next
  case (Inr r)
  then have r: "payable b s cost" "covered b s r" "counterIn (Some r) = counterIn (Some cost)"
    using reserve_exact [OF wf, of b s] by simp_all
  then show ?thesis using Inr spendReserved_exact [OF q fit un r(2)] by (auto simp: CanPay_def Pay_def)
qed

section \<open>Generic prices\<close>

lemma drawGeneric_exact:
  assumes fit: "counters_fit s" and r: "covered b s r" and need: "0 \<le> need" "int64 need"
  shows "case drawGeneric b s r need kinds of
      Inl e \<Rightarrow> \<exists>kind \<in> set kinds. map_of b kind = None
    | Inr (r', need') \<Rightarrow> covered b s r' \<and> 0 \<le> need' \<and> units r' + need' = units r + need \<and>
        (\<forall>k. counterIn (Some r) k \<le> counterIn (Some r') k) \<and>
        (0 < need' \<longrightarrow> (\<forall>kind \<in> set kinds. \<exists>p. map_of b kind = Some p \<and> Current p s \<le> counterIn (Some r') kind))"
  using r need
proof (induction kinds arbitrary: r need)
  case (Cons kind kinds)
  show ?case
  proof (cases "need = 0 \<or> map_of b kind = None")
    case True
    then show ?thesis using Cons.prems by auto
  next
    case False
    then obtain p where p: "map_of b kind = Some p" and n0: "need \<noteq> 0" by auto
    let ?have = "counterIn (Some r) kind"
    have bound: "0 \<le> ?have" "?have = 0 \<or> ?have \<le> Current p s" "int64 (Current p s)"
      using counterIn_covered [OF Cons.prems(1), of kind] p fit by (auto simp: counters_fit_def Current_def)
    then have w: "wrap64 (Current p s - ?have) = Current p s - ?have"
      by (intro wrap64_id) (auto simp: int64_def)
    show ?thesis
    proof (cases "Current p s \<le> ?have")
      case True
      have "drawGeneric b s r need (kind # kinds) = drawGeneric b s r need kinds" using p n0 w True by simp
      moreover have "counterIn (Some r) kind \<le> n' \<Longrightarrow> Current p s \<le> n'" for n' using True by simp
      ultimately show ?thesis using Cons.IH [OF Cons.prems] p
        by (auto split: sum.splits prod.splits)
    next
      case False
      let ?take = "if need < Current p s - ?have then need else Current p s - ?have"
      have t: "0 < ?take" "?take \<le> need" "?have + ?take \<le> Current p s" using False n0 Cons.prems(2) by auto
      then have w2: "wrap64 (?have + ?take) = ?have + ?take" "wrap64 (need - ?take) = need - ?take"
        using bound Cons.prems(2,3) by (auto intro!: wrap64_id simp: int64_def)
      let ?r = "mput kind (?have + ?take) r"
      have step: "drawGeneric b s r need (kind # kinds) = drawGeneric b s ?r (need - ?take) kinds"
        using p n0 w w2 False by (simp add: Let_def)
      have cov: "covered b s ?r" using t bound p by (intro covered_mput [OF Cons.prems(1)]) auto
      have tot: "units ?r + (need - ?take) = units r + need"
        using units_mput [of r kind "?have + ?take"] Cons.prems(1) by (simp add: covered_def)
      have up: "counterIn (Some r) k \<le> counterIn (Some ?r) k" for k using t by simp
      have i: "0 \<le> need - ?take" "int64 (need - ?take)" using t Cons.prems(2,3) by (auto simp: int64_def)
      show ?thesis
      proof (cases "need < Current p s - ?have")
        case True
        then have "drawGeneric b s r need (kind # kinds) = Inr (?r, 0)" unfolding step by (cases kinds) simp_all
        moreover have "units ?r = units r + need" using tot True by simp
        ultimately show ?thesis using cov up by simp
      next
        case all: False
        have full: "counterIn (Some ?r) kind = Current p s" using all by simp
        show ?thesis
        proof (cases "drawGeneric b s ?r (need - ?take) kinds")
          case (Inl e)
          then show ?thesis using Cons.IH [OF cov i] unfolding step by auto
        next
          case (Inr rn)
          obtain r' n' where rn: "rn = (r', n')" by (cases rn)
          note h = Cons.IH [OF cov i, unfolded Inr rn sum.case prod.case]
          have "counterIn (Some r) k \<le> counterIn (Some r') k" for k using h up [of k] by (meson order_trans)
          moreover have "Current p s \<le> counterIn (Some r') kind" using h full by metis
          ultimately show ?thesis using h p tot unfolding step Inr rn sum.case prod.case by simp
        qed
      qed

    qed
  qed
qed simp

lemma drawGeneric_zero: "drawGeneric b s r 0 kinds = Inr (r, 0)"
  by (cases kinds) simp_all

text \<open>One turn of the loop, where a pool is there and something is needed: no subtraction wraps.\<close>

lemma drawGeneric_step:
  fixes drawn :: int
  assumes fit: "counters_fit s" and r: "covered b s r" and need: "0 < need" "int64 need" and p: "map_of b kind = Some p"
  defines "drawn \<equiv> min need (Current p s - counterIn (Some r) kind)"
  shows "drawGeneric b s r need (kind # kinds) =
    (if Current p s \<le> counterIn (Some r) kind then drawGeneric b s r need kinds
     else drawGeneric b s (mput kind (counterIn (Some r) kind + drawn) r) (need - drawn) kinds)"
    and "counterIn (Some r) kind < Current p s \<Longrightarrow>
      0 < drawn \<and> int64 (need - drawn) \<and> covered b s (mput kind (counterIn (Some r) kind + drawn) r)"
proof -
  have bound: "0 \<le> counterIn (Some r) kind" "int64 (Current p s)" "counterIn (Some r) kind = 0 \<or> counterIn (Some r) kind \<le> Current p s"
    using counterIn_covered [OF r, of kind] p fit by (auto simp: counters_fit_def Current_def)
  then have w: "wrap64 (Current p s - counterIn (Some r) kind) = Current p s - counterIn (Some r) kind"
    by (intro wrap64_id) (auto simp: int64_def)
  have t: "0 < drawn" "drawn \<le> need" "counterIn (Some r) kind + drawn \<le> Current p s" "int64 (need - drawn)"
    if "counterIn (Some r) kind < Current p s" using that need by (auto simp: drawn_def int64_def)
  have w2: "wrap64 (counterIn (Some r) kind + drawn) = counterIn (Some r) kind + drawn" "wrap64 (need - drawn) = need - drawn"
    if "counterIn (Some r) kind < Current p s"
    using t [OF that] bound by (auto intro!: wrap64_id simp: int64_def)
  show "drawGeneric b s r need (kind # kinds) =
    (if Current p s \<le> counterIn (Some r) kind then drawGeneric b s r need kinds
     else drawGeneric b s (mput kind (counterIn (Some r) kind + drawn) r) (need - drawn) kinds)"
    using p need(1) w w2 by (auto simp: Let_def drawn_def min_def)
  show "0 < drawn \<and> int64 (need - drawn) \<and> covered b s (mput kind (counterIn (Some r) kind + drawn) r)"
    if "counterIn (Some r) kind < Current p s"
    using t [OF that] bound by (auto intro!: covered_mput [OF r _ p])
qed

text \<open>
  The draw is greedy: units beyond the reservation come from the listed kinds only, and a kind is
  drawn on only when the pools of all kinds listed before it are exhausted.
\<close>

definition greedyDraw :: "basket \<Rightarrow> 'k ccg \<Rightarrow> int gomap \<Rightarrow> int gomap \<Rightarrow> string list \<Rightarrow> bool" where
  "greedyDraw b s r r' kinds \<longleftrightarrow>
     (\<forall>k. counterIn (Some r) k \<le> counterIn (Some r') k) \<and>
     (\<forall>k. counterIn (Some r) k < counterIn (Some r') k \<longrightarrow>
        (\<exists>before after. kinds = before @ k # after \<and>
           (\<forall>x \<in> set before. \<exists>p. map_of b x = Some p \<and> Current p s \<le> counterIn (Some r') x)))"

lemma greedyDraw_cons:
  assumes "greedyDraw b s r r' kinds" "map_of b kind = Some p" "Current p s \<le> counterIn (Some r') kind"
  shows "greedyDraw b s r r' (kind # kinds)"
  unfolding greedyDraw_def
proof (intro conjI allI impI)
  fix k assume "counterIn (Some r) k < counterIn (Some r') k"
  then obtain before after where o: "kinds = before @ k # after" "\<forall>x \<in> set before. \<exists>p. map_of b x = Some p \<and> Current p s \<le> counterIn (Some r') x"
    using assms(1) unfolding greedyDraw_def by blast
  then show "\<exists>before after. kind # kinds = before @ k # after \<and> (\<forall>x \<in> set before. \<exists>p. map_of b x = Some p \<and> Current p s \<le> counterIn (Some r') x)"
    using assms(2,3) by (intro exI [of _ "kind # before"] exI [of _ after]) auto
qed (use assms(1) in \<open>simp add: greedyDraw_def\<close>)

lemma greedyDraw_raise:
  assumes g: "greedyDraw b s r1 r' (kind # kinds)" and r1: "\<And>k. counterIn (Some r) k \<le> counterIn (Some r1) k"
    "\<And>k. k \<noteq> kind \<Longrightarrow> counterIn (Some r1) k = counterIn (Some r) k"
  shows "greedyDraw b s r r' (kind # kinds)"
  unfolding greedyDraw_def
proof (intro conjI allI impI)
  fix k
  show "counterIn (Some r) k \<le> counterIn (Some r') k" using g r1(1) [of k] unfolding greedyDraw_def by (meson order_trans)
  assume k: "counterIn (Some r) k < counterIn (Some r') k"
  show "\<exists>before after. kind # kinds = before @ k # after \<and> (\<forall>x \<in> set before. \<exists>p. map_of b x = Some p \<and> Current p s \<le> counterIn (Some r') x)"
  proof (cases "k = kind")
    case True
    then show ?thesis by (intro exI [of _ "[]"] exI [of _ kinds]) simp
  next
    case False
    then have "counterIn (Some r1) k < counterIn (Some r') k" using k r1(2) by simp
    then show ?thesis using g unfolding greedyDraw_def by blast
  qed
qed



lemma drawGeneric_greedy:
  assumes fit: "counters_fit s"
  shows "covered b s r \<Longrightarrow> 0 \<le> need \<Longrightarrow> int64 need \<Longrightarrow> drawGeneric b s r need kinds = Inr (r', need') \<Longrightarrow> greedyDraw b s r r' kinds"
proof (induction kinds arbitrary: r need)
  case (Cons kind kinds)
  show ?case
  proof (cases "need = 0")
    case True
    then show ?thesis using Cons.prems(4) by (simp add: greedyDraw_def)
  next
    case False
    then obtain p where p: "map_of b kind = Some p" using Cons.prems(4) by (auto split: option.splits)
    have n: "0 < need" using False Cons.prems(2) by simp
    let ?have = "counterIn (Some r) kind" let ?take = "min need (Current p s - ?have)"
    note step = drawGeneric_step [OF fit Cons.prems(1) n Cons.prems(3) p]
    show ?thesis
    proof (cases "Current p s \<le> ?have")
      case True
      then have "greedyDraw b s r r' kinds" using Cons.IH [OF Cons.prems(1-3)] Cons.prems(4) step(1) by simp
      moreover from this have "?have \<le> counterIn (Some r') kind" by (simp add: greedyDraw_def)
      ultimately show ?thesis using greedyDraw_cons p True by (meson order_trans)
    next
      case more: False
      let ?r = "mput kind (?have + ?take) r"
      have c: "0 < ?take" "int64 (need - ?take)" "covered b s ?r" using step(2) more by auto
      have d: "drawGeneric b s ?r (need - ?take) kinds = Inr (r', need')" using Cons.prems(4) step(1) more by simp
      have g: "greedyDraw b s ?r r' kinds" using Cons.IH [OF c(3) _ c(2) d] by simp
      have up: "?have + ?take \<le> counterIn (Some r') kind" "k \<noteq> kind \<Longrightarrow> counterIn (Some r) k \<le> counterIn (Some r') k" for k
        using g unfolding greedyDraw_def by (metis counterIn_simps(3))+
      show ?thesis
      proof (cases "need \<le> Current p s - ?have")
        case True
        then have "r' = ?r" using d by (simp add: min_def drawGeneric_zero)
        then have "greedyDraw b s ?r r' (kind # kinds)" by (simp add: greedyDraw_def)
        then show ?thesis by (rule greedyDraw_raise) (use c(1) in auto)
      next
        case False
        then have "Current p s \<le> counterIn (Some r') kind" using up(1) by (simp add: min_def)
        then have "greedyDraw b s ?r r' (kind # kinds)" using greedyDraw_cons g p by blast
        then show ?thesis by (rule greedyDraw_raise) (use c(1) in auto)
      qed
    qed
  qed
qed (simp add: greedyDraw_def)

text \<open>
  C28. Basket.PayWithGeneric pays a specific price and \<open>generic\<close> further units from the fallback
  pools, all or nothing. For a basket whose kinds draw on different counters, handlers that leave
  entities alone and a generic amount that is not negative: on success amounts that the pools of
  the basket cover have left them, in all exactly the price plus \<open>generic\<close>, and no other counter
  has changed; of each kind at least the price is taken, more only of kinds of the fallback order, and of
  those only when the pools of all kinds before it are empty. On an error the state is
  untouched. If the specific price is payable and every fallback kind has a pool, the only error is
  ErrInsufficient, and then what the fallback pools hold beyond the specific price is less than
  \<open>generic\<close>. It never panics.
\<close>

theorem PayWithGeneric_exact:
  assumes q: "quiet code" and fit: "counters_fit s" and un: "unaliased b" and wf: "mwf cost"
    and g: "0 \<le> generic" "int64 generic"
  shows "case PayWithGeneric code b cost generic order s of
      None \<Rightarrow> False
    | Some (None, s') \<Rightarrow> payable b s cost \<and>
        (\<exists>r. covered b s r \<and> paidFrom b (counterIn (Some r)) s s' \<and> units r = units cost + generic \<and> greedyDraw b s cost r order)
    | Some (Some e, s') \<Rightarrow> s' = s \<and> (\<not> payable b s cost \<or> (\<exists>kind \<in> set order. map_of b kind = None) \<or>
        e = ErrInsufficient \<and> (\<exists>r. covered b s r \<and> units r < units cost + generic \<and> greedyDraw b s cost r order \<and>
          (\<forall>kind \<in> set order. \<exists>p. map_of b kind = Some p \<and> Current p s \<le> counterIn (Some r) kind)))"
proof (cases "reserve b s cost")
  case (Inl e)
  then show ?thesis using reserve_exact [OF wf, of b s] g by (simp add: PayWithGeneric_def)
next
  case (Inr r)
  then have r: "payable b s cost" "covered b s r" "counterIn (Some r) = counterIn (Some cost)" "units r = units cost"
    using reserve_exact [OF wf, of b s] by simp_all
  note d = drawGeneric_exact [OF fit r(2) g, of order]
  show ?thesis
  proof (cases "drawGeneric b s r generic order")
    case (Inl e)
    then show ?thesis using d Inr g by (auto simp: PayWithGeneric_def)
  next
    case dr: (Inr rn)
    obtain r' need where rn: "rn = (r', need)" by (cases rn)
    note h = d [unfolded dr rn sum.case prod.case]
    have up: "greedyDraw b s cost r' order" using drawGeneric_greedy [OF fit r(2) g dr [unfolded rn]] r(3) by (simp add: greedyDraw_def)
    show ?thesis
    proof (cases "need = 0")
      case True
      obtain s' where "spendReserved code b r' s = Some s'" "paidFrom b (counterIn (Some r')) s s'"
        using spendReserved_exact [OF q fit un] h by blast
      then show ?thesis using True Inr dr rn g h r(1,4) up by (auto simp: PayWithGeneric_def intro!: exI [of _ r'])
    next
      case False
      then show ?thesis using Inr dr rn g h r(4) up by (auto simp: PayWithGeneric_def intro!: exI [of _ r'])
    qed
  qed
qed


text \<open>A purse of three gold and two silver, kept by one player.\<close>

definition purse :: "unit ccg" where
  "purse = snd (NewEntity ''player'' ''0'' (Some [(CountersAttrKey, VIntMap [(''gold'', 3), (''silver'', 2)])]) NewState)"

definition purseBasket :: basket where
  "purseBasket = [(''gold'', noPool\<lparr>poolOwner := 1, poolKind := ''gold''\<rparr>),
     (''silver'', noPool\<lparr>poolOwner := 1, poolKind := ''silver''\<rparr>)]"

lemma Counters_purse: "Counters purse i k = (if i = 1 then (if k = ''gold'' then 3 else if k = ''silver'' then 2 else 0) else 0)"
  by (simp add: purse_def Counters_def NewEntity_def mint_def NewState_def Let_def storeEntity_def Get_def
      readCountersFromAttrs_def counterIn_def mput_def)

lemma purse_ok: "counters_fit purse" "unaliased purseBasket"
  by (simp_all add: counters_fit_def Counters_purse int64_def unaliased_def purseBasket_def noPool_def)

lemma purse_paid:
  assumes "paidFrom purseBasket amt purse s'"
  shows "Counters s' 1 ''gold'' = 3 - amt ''gold''" "Counters s' 1 ''silver'' = 2 - amt ''silver''"
proof -
  have p: "map_of purseBasket k = Some p \<Longrightarrow> Current p s' = Current p purse - amt k" for k p
    using assms by (simp add: paidFrom_def)
  show "Counters s' 1 ''gold'' = 3 - amt ''gold''" "Counters s' 1 ''silver'' = 2 - amt ''silver''"
    using p [of "''gold''" "noPool\<lparr>poolOwner := 1, poolKind := ''gold''\<rparr>"]
      p [of "''silver''" "noPool\<lparr>poolOwner := 1, poolKind := ''silver''\<rparr>"]
    by (simp_all add: purseBasket_def noPool_def Current_def Counters_purse)
qed

theorem Pay_exact_witness:
  "\<exists>s'. Pay passiveCode purseBasket [(''gold'', 2), (''silver'', 1)] purse = Some (None, s') \<and>
     Counters s' 1 ''gold'' = 1 \<and> Counters s' 1 ''silver'' = 1"
proof -
  have "CanPay purseBasket purse [(''gold'', 2), (''silver'', 1)]" by code_simp
  moreover have "mwf [(''gold'', 2 :: int), (''silver'', 1)]" by (simp add: mwf_def)
  ultimately obtain s' where "Pay passiveCode purseBasket [(''gold'', 2), (''silver'', 1)] purse = Some (None, s')"
    "paidFrom purseBasket (counterIn (Some [(''gold'', 2), (''silver'', 1)])) purse s'"
    using Pay_exact [OF quiet_passiveCode purse_ok] by meson
  with purse_paid [OF this(2)] show ?thesis by (auto simp: counterIn_def)
qed

theorem PayWithGeneric_exact_witness:
  "\<exists>s' r. PayWithGeneric passiveCode purseBasket [(''gold'', 2)] 2 [''silver'', ''gold''] purse = Some (None, s') \<and>
     units r = 4 \<and> covered purseBasket purse r \<and> Counters s' 1 ''gold'' = 3 - counterIn (Some r) ''gold''"
proof -
  obtain s' where s': "PayWithGeneric passiveCode purseBasket [(''gold'', 2)] 2 [''silver'', ''gold''] purse = Some (None, s')"
  proof -
    have "map_option fst (PayWithGeneric passiveCode purseBasket [(''gold'', 2)] 2 [''silver'', ''gold''] purse) = Some None"
      by code_simp
    then show thesis using that by (cases "PayWithGeneric passiveCode purseBasket [(''gold'', 2)] 2 [''silver'', ''gold''] purse") auto
  qed
  have wf: "mwf [(''gold'', 2 :: int)]" "(0 :: int) \<le> 2" "int64 2" by (simp_all add: mwf_def int64_def)
  obtain r where "paidFrom purseBasket (counterIn (Some r)) purse s'" "covered purseBasket purse r" "units r = units [(''gold'', 2)] + 2"
    using PayWithGeneric_exact [OF quiet_passiveCode purse_ok wf, of "[''silver'', ''gold'']"]
    unfolding s' option.case prod.case by blast
  with s' purse_paid [OF this(1)] show ?thesis by auto
qed


text \<open>
  A basket that names one counter twice, which the type's documentation allows, is not safe:
  each kind alone is covered, so CanPay accepts the price, and Pay panics in the middle of the
  payment, after the first kind has been spent.
\<close>

theorem aliased_basket_panics:
  "let b = [(''a'', noPool\<lparr>poolOwner := 1, poolKind := ''gold''\<rparr>), (''b'', noPool\<lparr>poolOwner := 1, poolKind := ''gold''\<rparr>)];
       cost = [(''a'', 2), (''b'', 2)] in
   CanPay b purse cost \<and> Pay passiveCode b cost purse = None"
  unfolding Let_def by (rule conjI) code_simp+

section \<open>Gaining, setting and income\<close>

lemma changeCounter_sets:
  assumes q: "quiet code" and fit: "counters_fit s" and known: "Get s i \<noteq> None" and v: "int64 v" and neg: "neg \<or> 0 \<le> v"
  obtains s' where "changeCounter code i kind (wrap64 (v - Counters s i kind)) neg s = Some s'"
    "\<And>j k. Counters s' j k = (if j = i \<and> k = kind then v else Counters s j k)"
proof -
  have c: "int64 (Counters s i kind)" using fit by (simp add: counters_fit_def)
  have "wrap64 (Counters s i kind + wrap64 (v - Counters s i kind)) = wrap64 v"
    by (simp add: wrap64_def mod_simps algebra_simps)
  then have "counterAfter neg (Counters s i kind) (wrap64 (v - Counters s i kind)) = v"
    using v neg by (auto simp: counterAfter_def Let_def)
  then show thesis using changeCounter_quiet [OF q known c, of "wrap64 (v - Counters s i kind)" neg] that by metis
qed

definition clamped :: "pool \<Rightarrow> int \<Rightarrow> int" where
  "clamped p n = (let n = (if poolAllowNegative p then n else max 0 n) in if 0 < poolCap p then min (poolCap p) n else n)"

text \<open>
  Pool.Set leaves the pool at exactly the requested value clamped to the pool's range, returns
  that value, and changes no other counter, even where the distance to the old value does not fit
  an int.
\<close>

theorem PoolSet_exact:
  assumes q: "quiet code" and fit: "counters_fit s" and known: "Get s (poolOwner p) \<noteq> None"
    and n: "int64 n" "int64 (poolCap p)"
  shows "\<exists>s'. PoolSet code p n s = Some (clamped p n, s') \<and> Current p s' = clamped p n \<and>
    (\<forall>i k. (i, k) \<noteq> (poolOwner p, poolKind p) \<longrightarrow> Counters s' i k = Counters s i k)"
proof -
  let ?v = "clamped p n"
  have v: "int64 ?v" "poolAllowNegative p \<or> 0 \<le> ?v" using n by (auto simp: clamped_def Let_def int64_def)
  have s: "PoolSet code p n s = (if wrap64 (?v - Current p s) = 0 then Some (?v, s)
     else map_option (Pair ?v) (changeCounter code (poolOwner p) (poolKind p) (wrap64 (?v - Current p s)) (poolAllowNegative p) s))"
    by (auto simp: PoolSet_def clamped_def Let_def AddCounter_def AddCounterSigned_def min_def max_def)
  show ?thesis
  proof (cases "wrap64 (?v - Current p s) = 0")
    case True
    then have "?v = Current p s" using wrap64_diff_zero [OF v(1)] fit by (simp add: counters_fit_def Current_def)
    then show ?thesis using s True by simp
  next
    case False
    obtain s' where "changeCounter code (poolOwner p) (poolKind p) (wrap64 (?v - Current p s)) (poolAllowNegative p) s = Some s'"
      "\<And>j k. Counters s' j k = (if j = poolOwner p \<and> k = poolKind p then ?v else Counters s j k)"
      unfolding Current_def by (rule changeCounter_sets [OF q fit known v]) blast
    then show ?thesis using s False by (auto simp: Current_def)
  qed
qed

theorem PoolSet_exact_witness:
  "\<exists>s'. PoolSet passiveCode (noPool\<lparr>poolOwner := 1, poolKind := ''gold'', poolCap := 10\<rparr>) 12 purse = Some (10, s') \<and>
     Counters s' 1 ''gold'' = 10"
proof -
  have "Get purse 1 \<noteq> None" by (simp add: purse_def NewEntity_def mint_def NewState_def Let_def storeEntity_def Get_def)
  then show ?thesis
    using PoolSet_exact [OF quiet_passiveCode purse_ok(1), of "noPool\<lparr>poolOwner := 1, poolKind := ''gold'', poolCap := 10\<rparr>" 12]
    by (auto simp: noPool_def clamped_def int64_def Current_def)
qed

lemma Gain_capped:
  assumes q: "quiet code" and fit: "counters_fit s" and known: "Get s (poolOwner p) \<noteq> None"
    and cap: "0 < poolCap p" "int64 (poolCap p)" and c: "0 \<le> Current p s" and n: "int64 n"
  shows "\<exists>s'. Gain code p n s = Some (max 0 (min n (poolCap p - Current p s)), s') \<and>
    Current p s' = Current p s + max 0 (min n (poolCap p - Current p s))"
proof -
  let ?gap = "poolCap p - Current p s"
  have "int64 (Current p s)" using fit by (simp add: counters_fit_def Current_def)
  then have w: "wrap64 ?gap = ?gap" using cap c by (intro wrap64_id) (simp add: int64_def)
  show ?thesis
  proof (cases "n \<le> 0 \<or> ?gap \<le> 0")
    case True
    then have "Gain code p n s = Some (0, s)" using w cap by (auto simp: Gain_def)
    then show ?thesis using True by auto
  next
    case False
    let ?d = "min n ?gap"
    have d: "0 < ?d" "int64 (Counters s (poolOwner p) (poolKind p) + ?d)"
      using False cap c by (auto simp: int64_def Current_def min_def)
    obtain s' where s': "changeCounter code (poolOwner p) (poolKind p) ?d False s = Some s'"
      "\<And>j k. Counters s' j k = (if j = poolOwner p \<and> k = poolKind p
         then counterAfter False (Counters s (poolOwner p) (poolKind p)) ?d else Counters s j k)"
      using changeCounter_quiet [OF q known, of "poolKind p" ?d False] fit unfolding counters_fit_def by metis
    have "Gain code p n s = Some (?d, s')"
      using False w cap s'(1) by (auto simp: Gain_def AddCounter_def min_def)
    moreover have "Current p s' = Current p s + ?d"
      using s'(2) counterAfter_exact [OF d(2), of False] d(1) c by (simp add: Current_def)
    ultimately show ?thesis using d(1) by simp
  qed
qed

lemma Scaled_range: "0 \<le> Scaled turn base per mx" "0 < mx \<Longrightarrow> Scaled turn base per mx \<le> mx"
  by (auto simp: Scaled_def Let_def)

lemma Scaled_exact:
  assumes "int64 (turn - 1)" "int64 ((turn - 1) * per)" "int64 (base + (turn - 1) * per)"
  shows "Scaled turn base per mx = (let v = max 0 (base + (turn - 1) * per) in if 0 < mx then min mx v else v)"
  using assms by (auto simp: Scaled_def Let_def)

lemma Scaled_monotone:
  assumes "1 \<le> t" "t \<le> t'" "0 \<le> per" "int64 (t' - 1)" "int64 ((t' - 1) * per)" "int64 (base + (t' - 1) * per)" "0 \<le> base"
  shows "Scaled t base per mx \<le> Scaled t' base per mx"
proof -
  define x y where "x = (t - 1) * per" and "y = (t' - 1) * per"
  have m: "0 \<le> x" "x \<le> y" unfolding x_def y_def using assms by (auto intro: mult_right_mono)
  have "int64 y" "int64 (base + y)" using assms by (simp_all add: y_def)
  then have "int64 (t - 1)" "int64 x" "int64 (base + x)" using m assms(1,2,4,7) by (simp_all add: int64_def)
  then have "Scaled t base per mx = (let v = max 0 (base + x) in if 0 < mx then min mx v else v)"
    "Scaled t' base per mx = (let v = max 0 (base + y) in if 0 < mx then min mx v else v)"
    using assms by (simp_all add: Scaled_exact x_def y_def)
  then show ?thesis using m by (auto simp: Let_def)
qed

end
