(* ===== verification/Shop.thy ===== *)
theory Shop
  imports CcgDecks
begin

text \<open>
  A market row over two zones of the card module (\<open>modules/shop\<close>): the freeze flag (freeze.go),
  refreshing the row from the stock (refresh.go) and buying from it (buy.go). The shop itself is
  a configuration; its state is the zones and a reserved attribute of the items.
\<close>

record shop =
  shSlots :: string
  shStock :: string
  shSize :: int

datatype shopError = ErrNotInSlots | ZoneError cerror

definition ShopFrozenAttrKey :: string where
  "ShopFrozenAttrKey = ''__shop_frozen''"

definition Freeze :: "shop \<Rightarrow> entityID \<Rightarrow> 'k ccg \<Rightarrow> shopError option \<times> 'k ccg" where
  "Freeze sh i s =
     (if \<not> Contains (shSlots sh) i s then (Some ErrNotInSlots, s)
      else (None, SetAttr i ShopFrozenAttrKey (VBool True) s))"

definition Unfreeze :: "shop \<Rightarrow> entityID \<Rightarrow> 'k ccg \<Rightarrow> 'k ccg" where
  "Unfreeze sh i s =
     (case Get s i of
        None \<Rightarrow> s
      | Some e \<Rightarrow>
          (case entAttrs e of
             None \<Rightarrow> s
           | Some attrs \<Rightarrow>
               if map_of attrs ShopFrozenAttrKey \<noteq> None
               then storeEntity i (e\<lparr>entAttrs := Some (mdel ShopFrozenAttrKey attrs)\<rparr>) s
               else s))"

definition IsFrozen :: "shop \<Rightarrow> 'k ccg \<Rightarrow> entityID \<Rightarrow> bool" where
  "IsFrozen sh s i =
     (case Get s i of
        None \<Rightarrow> False
      | Some e \<Rightarrow> (case mget (entAttrs e) ShopFrozenAttrKey of Some (VBool b) \<Rightarrow> b | _ \<Rightarrow> False))"

definition Clear :: "shop \<Rightarrow> string \<Rightarrow> 'k ccg \<Rightarrow> cerror option \<times> 'k ccg" where
  "Clear sh dest s =
     (case map_of (Zones s) (shSlots sh) of
        None \<Rightarrow> (Some ErrUnknownZone, s)
      | Some z \<Rightarrow>
          (let victims = filter (\<lambda>i. \<not> IsFrozen sh s i) (zMembers z)
           in if dest = '''' then (None, fold Destroy victims s)
              else if map_of (Zones s) dest = None then (Some ErrUnknownZone, s)
              else moveEach victims dest s))"

definition Fill :: "shop \<Rightarrow> 'k ccg \<Rightarrow> (cerror option \<times> 'k ccg) option" where
  "Fill sh s =
     (case map_of (Zones s) (shSlots sh) of
        None \<Rightarrow> Some (Some ErrUnknownZone, s)
      | Some slots \<Rightarrow>
          (case map_of (Zones s) (shStock sh) of
             None \<Rightarrow> Some (Some ErrUnknownZone, s)
           | Some stock \<Rightarrow>
               (let want = wrap64 (shSize sh - int (length (zMembers slots)))
                in if want \<le> 0 then Some (None, s)
                   else (let want = (if int (length (zMembers stock)) < want then int (length (zMembers stock)) else want)
                         in if want = 0 then Some (None, s)
                            else (case Draw (shStock sh) want s of
                                    None \<Rightarrow> None
                                  | Some (Inl e, s) \<Rightarrow> Some (Some e, s)
                                  | Some (Inr ids, s) \<Rightarrow> Some (moveEach ids (shSlots sh) s))))))"

definition Roll :: "shop \<Rightarrow> string \<Rightarrow> 'k ccg \<Rightarrow> (cerror option \<times> 'k ccg) option" where
  "Roll sh dest s =
     (case Clear sh dest s of
        (Some e, s) \<Rightarrow> Some (Some e, s)
      | (None, s) \<Rightarrow> Fill sh s)"

definition Buy :: "shop \<Rightarrow> entityID \<Rightarrow> string \<Rightarrow> 'k ccg \<Rightarrow> shopError option \<times> 'k ccg" where
  "Buy sh item dest s =
     (if \<not> Contains (shSlots sh) item s then (Some ErrNotInSlots, s)
      else if map_of (Zones s) dest = None then (Some (ZoneError ErrUnknownZone), s)
      else (case MoveTo item dest s of
              (Some e, s) \<Rightarrow> (Some (ZoneError e), s)
            | (None, s) \<Rightarrow> (None, Unfreeze sh item s)))"

section \<open>The freeze flag\<close>

lemma Unfreeze_updEntity:
  "Unfreeze sh i s = updEntity (\<lambda>e. e\<lparr>entAttrs := map_option (mdel ShopFrozenAttrKey) (entAttrs e)\<rparr>) i s \<or> Unfreeze sh i s = s"
  by (auto simp: Unfreeze_def updEntity_def split: option.splits)

lemma IsFrozen_Unfreeze: "IsFrozen sh (Unfreeze sh i s) j \<longleftrightarrow> j \<noteq> i \<and> IsFrozen sh s j"
  by (auto simp: IsFrozen_def Unfreeze_def split: option.splits)

lemma IsFrozen_Freeze:
  "Freeze sh i s = (None, s') \<Longrightarrow> zones_ok s \<Longrightarrow> IsFrozen sh s' j \<longleftrightarrow> j = i \<or> IsFrozen sh s j"
  using member_known [of s i "shSlots sh"]
  by (auto simp: Freeze_def Contains_def IsFrozen_def SetAttr_def Get_updEntity entSetAttr_def members_def location_def
      list_ex_iff split: if_splits option.splits)

lemma Unfreeze_placement [simp]:
  "members (Unfreeze sh i s) = members s" "location (Unfreeze sh i s) = location s" "hasZone (Unfreeze sh i s) = hasZone s"
  by (auto simp: Unfreeze_def placement_defs fun_eq_iff split: option.splits)

section \<open>Refreshing the row\<close>

lemma fold_Destroy:
  "zones_ok s \<Longrightarrow> zones_ok (fold Destroy is s) \<and> members (fold Destroy is s) zn = filter (\<lambda>x. x \<notin> set is) (members s zn) \<and>
     Get (fold Destroy is s) j = (if j \<in> set is then None else Get s j) \<and>
     hasZone (fold Destroy is s) = hasZone s \<and> capacityOf (fold Destroy is s) = capacityOf s"
proof (induction "is" arbitrary: s)
  case (Cons i "is")
  have "filter (\<lambda>x. x \<noteq> i \<and> x \<notin> set is) xs = filter (\<lambda>x. x \<notin> set is) (filter (\<lambda>x. x \<noteq> i) xs)" for xs :: "entityID list"
    by (simp add: conj_commute)
  then show ?case using Cons.IH [OF zones_ok_Destroy [OF Cons.prems, of i]] members_Destroy [OF Cons.prems]
    by (auto simp: conj_commute)
qed simp

text \<open>How many items a refill takes.\<close>

definition refill :: "shop \<Rightarrow> 'k ccg \<Rightarrow> nat" where
  "refill sh s = min (nat (shSize sh) - length (members s (shSlots sh))) (length (members s (shStock sh)))"

definition shop_ok :: "shop \<Rightarrow> 'k ccg \<Rightarrow> bool" where
  "shop_ok sh s \<longleftrightarrow> zones_ok s \<and> shSlots sh \<noteq> shStock sh \<and> hasZone s (shSlots sh) \<and> hasZone s (shStock sh) \<and>
     0 \<le> shSize sh \<and> int64 (shSize sh) \<and> int64 (int (length (members s (shSlots sh)))) \<and>
     (0 < capacityOf s (shSlots sh) \<longrightarrow> shSize sh \<le> capacityOf s (shSlots sh))"

lemma Fill_spec:
  assumes ok: "shop_ok sh s"
  obtains s' where "Fill sh s = Some (None, s')" "zones_ok s'"
    "members s' (shSlots sh) = members s (shSlots sh) @ take (refill sh s) (rev (members s (shStock sh)))"
    "members s' (shStock sh) = take (length (members s (shStock sh)) - refill sh s) (members s (shStock sh))"
    "\<And>zn. zn \<noteq> shSlots sh \<Longrightarrow> zn \<noteq> shStock sh \<Longrightarrow> members s' zn = members s zn"
proof -
  let ?sl = "shSlots sh" and ?st = "shStock sh"
  have z: "zones_ok s" "?sl \<noteq> ?st" "hasZone s ?sl" "hasZone s ?st" using ok by (auto simp: shop_ok_def)
  have w: "wrap64 (shSize sh - int (length (members s ?sl))) = shSize sh - int (length (members s ?sl))"
    using ok by (intro wrap64_id) (simp add: shop_ok_def int64_def)
  have f: "Fill sh s = (if refill sh s = 0 then Some (None, s)
      else case Draw ?st (int (refill sh s)) s of None \<Rightarrow> None | Some (Inl e, s) \<Rightarrow> Some (Some e, s)
        | Some (Inr ids, s) \<Rightarrow> Some (moveEach ids ?sl s))"
  proof -
    obtain zl zt where "map_of (Zones s) ?sl = Some zl" "map_of (Zones s) ?st = Some zt" using z by (auto simp: hasZone_def)
    then show ?thesis using w ok by (auto simp: Fill_def Let_def refill_def members_def min_def shop_ok_def)
  qed
  show thesis
  proof (cases "refill sh s = 0")
    case True
    then show thesis using that [of s] f z by simp
  next
    case False
    let ?n = "refill sh s" and ?d = "drawn ?st (refill sh s) s" and ?s = "afterDraw ?st (refill sh s) s"
    have n: "?n \<le> length (members s ?st)" "?n \<le> nat (shSize sh) - length (members s ?sl)" by (simp_all add: refill_def)
    have ne: "members s ?st \<noteq> []" using False n by auto
    have ok1: "zones_ok ?s" using z(1) by (rule zones_ok_afterDraw)
    have d: "distinct ?d" "set ?d \<subseteq> set (members s ?st)" "length ?d = ?n"
      using zones_okD(4) [OF z(1), of ?st] n set_take_subset [of ?n "rev (members s ?st)"] by (auto simp: drawn_def)
    have loc: "location ?s i = Some ''''" if "i \<in> set ?d" for i
      using that d(2) member_known [OF z(1), of i ?st] by (auto simp: location_afterDraw)
    have mv: "movable i ?sl ?s" if "i \<in> set ?d" for i using loc [OF that] z(3) by (simp add: movable_def)
    have sl: "members ?s ?sl = members s ?sl" using z(2) by (simp add: members_afterDraw)
    have "incoming ?s ?sl ?d = ?n"
    proof -
      have "filter (\<lambda>i. location ?s i \<noteq> Some ?sl) ?d = ?d"
        using loc zones_okD(3) [OF z(1)] z(3) by (auto simp: filter_id_conv)
      then show ?thesis using d(3) by (simp add: incoming_def)
    qed
    then have "room ?s ?sl (incoming ?s ?sl ?d)"
      using ok n(2) False by (auto simp: room_def sl shop_ok_def)
    then have me: "moveEach ?d ?sl ?s = (None, fold (\<lambda>i. moved i ?sl) ?d ?s)" using ok1 mv by (intro moveEach_moved)
    let ?s' = "fold (\<lambda>i. moved i ?sl) ?d ?s"
    have m: "members ?s' zn = filter (\<lambda>x. x \<notin> set ?d) (members ?s zn) @ (if zn = ?sl then ?d else [])" for zn
      using moving.moves_distinct [OF ok1 mv d(1)] .
    have "x \<notin> set ?d" if x: "x \<in> set (members ?s zn)" for x zn
    proof
      assume "x \<in> set ?d"
      then have "zn = ''''" using loc member_known [OF ok1 x] by simp
      then show False using x members_no_name [OF ok1] by simp
    qed
    then have "filter (\<lambda>x. x \<notin> set ?d) (members ?s zn) = members ?s zn" for zn by (simp add: filter_id_conv)
    then have m': "members ?s' zn = members ?s zn @ (if zn = ?sl then ?d else [])" for zn using m by simp
    show thesis
    proof (rule that)
      show "Fill sh s = Some (None, ?s')" using f False z ne me by (simp add: Draw_cases)
      show "zones_ok ?s'" using moving.moves [OF ok1, of ?d ?sl] mv by blast
      show "members ?s' ?sl = members s ?sl @ take ?n (rev (members s ?st))" by (simp add: m' sl) (simp add: drawn_def)
      show "members ?s' ?st = take (length (members s ?st) - ?n) (members s ?st)"
        using z(2) unfolding m' by (simp add: members_afterDraw)
      show "members ?s' zn = members s zn" if "zn \<noteq> ?sl" "zn \<noteq> ?st" for zn
        using that unfolding m' by (simp add: members_afterDraw)
    qed
  qed
qed

text \<open>
  Roll replaces exactly the unfrozen items: the row keeps its frozen items, in order, and is
  filled from the top of the stock up to Size, or until the stock is empty; the unfrozen items
  are gone from the game, every other zone is untouched and the zones stay consistent.
\<close>

theorem Roll_keeps_frozen:
  assumes ok: "shop_ok sh s"
  shows "\<exists>s'. Roll sh '''' s = Some (None, s') \<and> zones_ok s' \<and>
    (let frozen = filter (IsFrozen sh s) (members s (shSlots sh)); stock = members s (shStock sh);
         n = min (nat (shSize sh) - length frozen) (length stock) in
     members s' (shSlots sh) = frozen @ take n (rev stock) \<and>
     members s' (shStock sh) = take (length stock - n) stock \<and>
     (\<forall>zn. zn \<noteq> shSlots sh \<and> zn \<noteq> shStock sh \<longrightarrow> members s' zn = members s zn))"
proof -
  let ?sl = "shSlots sh" and ?victims = "filter (\<lambda>i. \<not> IsFrozen sh s i) (members s (shSlots sh))"
  let ?s = "fold Destroy ?victims s"
  have z: "zones_ok s" "?sl \<noteq> shStock sh" "hasZone s ?sl" using ok by (auto simp: shop_ok_def)
  note fd = fold_Destroy [OF z(1), of ?victims]
  have sl: "members ?s ?sl = filter (IsFrozen sh s) (members s ?sl)"
  proof -
    have "members ?s ?sl = filter (\<lambda>x. x \<notin> set ?victims) (members s ?sl)" using fd by blast
    then show ?thesis by (auto intro: filter_cong)
  qed
  have other: "members ?s zn = members s zn" if "zn \<noteq> ?sl" for zn
  proof -
    have "members ?s zn = filter (\<lambda>x. x \<notin> set ?victims) (members s zn)" using fd by blast
    also have "\<dots> = members s zn" using that member_unique [OF z(1), of _ zn ?sl] by (auto simp: filter_id_conv)
    finally show ?thesis .
  qed
  have clear: "Clear sh '''' s = (None, ?s)" using z(3) by (auto simp: Clear_def hasZone_def members_def)
  have "length (members ?s ?sl) \<le> length (members s ?sl)" unfolding sl by simp
  moreover have "zones_ok ?s" "hasZone ?s = hasZone s" "capacityOf ?s = capacityOf s" using fd by blast+
  ultimately have ok': "shop_ok sh ?s" using ok unfolding shop_ok_def int64_def by simp
  obtain s' where s': "Fill sh ?s = Some (None, s')" "zones_ok s'"
    "members s' ?sl = members ?s ?sl @ take (refill sh ?s) (rev (members ?s (shStock sh)))"
    "members s' (shStock sh) = take (length (members ?s (shStock sh)) - refill sh ?s) (members ?s (shStock sh))"
    "\<And>zn. zn \<noteq> ?sl \<Longrightarrow> zn \<noteq> shStock sh \<Longrightarrow> members s' zn = members ?s zn"
    using Fill_spec [OF ok'] by blast
  have st: "members ?s (shStock sh) = members s (shStock sh)" using other z(2) by metis
  show ?thesis
    using s' by (intro exI [of _ s']) (simp add: Roll_def clear Let_def refill_def sl st other)
qed

definition marketDay :: "unit ccg" where
  "marketDay = (let s = NewZone ''hand'' True (NewZone ''slots'' True (NewZone ''stock'' True NewState));
     s = snd (NewEntity ''item'' '''' None (snd (NewEntity ''item'' '''' None (snd (NewEntity ''item'' '''' None (snd (NewEntity ''item'' '''' None s)))))));
     s = snd (MoveTo 2 ''slots'' (snd (MoveTo 1 ''slots'' s)));
     s = snd (MoveTo 4 ''stock'' (snd (MoveTo 3 ''stock'' s)))
   in snd (Freeze \<lparr>shSlots = ''slots'', shStock = ''stock'', shSize = 2\<rparr> 1 s))"

abbreviation market :: shop where
  "market \<equiv> \<lparr>shSlots = ''slots'', shStock = ''stock'', shSize = 2\<rparr>"

lemma zones_ok_NewState: "zones_ok (NewState :: unit ccg)"
  by (simp add: zones_ok_def NewState_def mwf_def placement_defs Get_def)

lemma zones_ok_marketDay: "zones_ok marketDay"
proof -
  let ?s0 = "NewZone ''hand'' True (NewZone ''slots'' True (NewZone ''stock'' True (NewState :: unit ccg)))"
  let ?n = "\<lambda>s :: unit ccg. snd (NewEntity ''item'' '''' None s)"
  have "zones_ok ?s0" by (intro zones_ok_NewZone zones_ok_NewState) simp_all
  then have "zones_ok (?n (?n (?n (?n ?s0))))"
    by (intro zones_ok_NewEntity) (simp_all add: fresh_left_def NewEntity_def mint_def Let_def NewZone_def NewState_def storeEntity_def)
  then show ?thesis
    unfolding marketDay_def Let_def Freeze_def by (auto simp: SetAttr_def entSetAttr_def intro!: zones_ok_MoveTo zones_ok_updEntity)
qed

theorem Roll_keeps_frozen_witness:
  "shop_ok market marketDay \<and> (\<exists>s'. Roll market '''' marketDay = Some (None, s') \<and>
     members s' ''slots'' = [1, 4] \<and> members s' ''stock'' = [3] \<and> members s' ''hand'' = [])"
proof -
  have m: "members marketDay ''slots'' = [1, 2]" "members marketDay ''stock'' = [3, 4]" "members marketDay ''hand'' = []"
    "hasZone marketDay ''slots''" "hasZone marketDay ''stock''" "capacityOf marketDay ''slots'' = 0"
    "filter (IsFrozen market marketDay) [1, 2] = [1]"
    by code_simp+
  have ok: "shop_ok market marketDay"
    using zones_ok_marketDay by (simp add: shop_ok_def m int64_def)
  obtain s' where s': "Roll market '''' marketDay = Some (None, s')"
    "let frozen = filter (IsFrozen market marketDay) (members marketDay ''slots''); stock = members marketDay ''stock'';
         n = min (nat 2 - length frozen) (length stock) in
     members s' ''slots'' = frozen @ take n (rev stock) \<and>
     members s' ''stock'' = take (length stock - n) stock \<and>
     (\<forall>zn. zn \<noteq> ''slots'' \<and> zn \<noteq> ''stock'' \<longrightarrow> members s' zn = members marketDay zn)"
    using Roll_keeps_frozen [OF ok] by (simp only: shop.simps) blast
  from s'(2) have "members s' ''slots'' = [1, 4]" "members s' ''stock'' = [3]" "members s' ''hand'' = []"
    unfolding m Let_def by (simp_all add: m)
  with s'(1) ok show ?thesis by blast
qed

section \<open>Buying\<close>

lemma Contains_members: "Contains zn i s \<longleftrightarrow> i \<in> set (members s zn)"
  by (auto simp: Contains_def members_def list_ex_iff split: option.split)

text \<open>
  Buy takes exactly the bought item: it succeeds precisely when the item is in the row and the
  destination is a zone that is not full (or the row itself), and then the item is at the end of
  the destination, unfrozen, and every other item is where it was, with its flag. Otherwise the
  error says why and nothing has changed.
\<close>

theorem Buy_exact:
  assumes ok: "zones_ok s"
  shows "case Buy sh item dest s of
      (Some e, s') \<Rightarrow> s' = s \<and> (item \<notin> set (members s (shSlots sh)) \<or> \<not> hasZone s dest \<or> full s dest)
    | (None, s') \<Rightarrow> item \<in> set (members s (shSlots sh)) \<and> hasZone s dest \<and> members s' = relocate item dest (members s) \<and>
        (\<forall>i. IsFrozen sh s' i \<longleftrightarrow> i \<noteq> item \<and> IsFrozen sh s i)"
proof (cases "item \<in> set (members s (shSlots sh)) \<and> hasZone s dest")
  case True
  then obtain e where e: "Get s item = Some e" using member_known [OF ok] by (fastforce simp: location_def)
  show ?thesis
  proof (cases "entZone e \<noteq> dest \<and> full s dest")
    case full: True
    then show ?thesis using True e by (simp add: Buy_def Contains_members hasZone_def MoveTo_cases)
  next
    case False
    have "IsFrozen sh (place item e dest s) i = IsFrozen sh s i" for i
      using e by (auto simp: IsFrozen_def place_def Let_def setZone_def)
    then show ?thesis using True False e members_place [OF ok e]
      by (auto simp: Buy_def Contains_members hasZone_def MoveTo_cases IsFrozen_Unfreeze)
  qed
qed (auto simp: Buy_def Contains_members hasZone_def)

theorem Buy_exact_witness:
  "zones_ok marketDay \<and> fst (Buy market 1 ''hand'' marketDay) = None \<and>
   members (snd (Buy market 1 ''hand'' marketDay)) ''slots'' = [2] \<and>
   \<not> IsFrozen market (snd (Buy market 1 ''hand'' marketDay)) 1"
proof -
  have "fst (Buy market 1 ''hand'' marketDay) = None" "members marketDay ''slots'' = [1, 2]" by code_simp+
  then show ?thesis using zones_ok_marketDay Buy_exact [OF zones_ok_marketDay, of 1 market "''hand''"]
    by (auto simp: relocate_def split: prod.splits)
qed

text \<open>
  Fill can lose items: when the row has a capacity below Size, the items are drawn from the
  stock before the row refuses them. The call reports that the zone is full, and an item that was
  in the stock is in no zone afterwards.
\<close>

theorem Fill_loses_items:
  "let s = NewZone ''slots'' True (NewZone ''stock'' True (NewState :: unit ccg));
       s = s\<lparr>Zones := map (\<lambda>(n, z). (n, if n = ''slots'' then z\<lparr>zCapacity := 1\<rparr> else z)) (Zones s)\<rparr>;
       s = snd (NewEntity ''item'' '''' None (snd (NewEntity ''item'' '''' None s)));
       s = snd (MoveTo 2 ''stock'' (snd (MoveTo 1 ''stock'' s))) in
   members s ''stock'' = [1, 2] \<and>
   (case Fill market s of
      None \<Rightarrow> False
    | Some (err, s') \<Rightarrow> err = Some ErrZoneFull \<and> members s' ''stock'' = [] \<and> members s' ''slots'' = [2] \<and> location s' 1 = Some '''')"
  by code_simp

end
