(* ===== verification/TabletopBoard.thy ===== *)
theory TabletopBoard
  imports GoFloat
begin

text \<open>
  The geometry of \<open>modules/tabletop\<close>: square boards (square.go), hex boards (hex.go), the line of
  sight over either (board.go). Coordinates are Go ints: every sum and difference wraps at 64
  bits. The loop of the Bresenham line ends only when it hits the target, so the line is a
  partial function; a line that never ends is \<open>None\<close>.
\<close>

section \<open>Positions and boards (\<open>pos.go\<close>, \<open>board.go\<close>)\<close>

type_synonym pos = "int \<times> int"

datatype board = SquareBoard int int | HexBoard int int

definition clampSize :: "int \<Rightarrow> int" where
  "clampSize n = (if n < 1 then 1 else n)"

definition NewSquareBoard :: "int \<Rightarrow> int \<Rightarrow> board" where
  "NewSquareBoard w h = SquareBoard (clampSize w) (clampSize h)"

definition NewHexBoard :: "int \<Rightarrow> int \<Rightarrow> board" where
  "NewHexBoard w h = HexBoard (clampSize w) (clampSize h)"

fun InBounds :: "board \<Rightarrow> pos \<Rightarrow> bool" where
  "InBounds (SquareBoard w h) (x, y) = (0 \<le> x \<and> x < w \<and> 0 \<le> y \<and> y < h)"
| "InBounds (HexBoard w h) (x, y) = (0 \<le> x \<and> x < w \<and> 0 \<le> y \<and> y < h)"

definition absDiff :: "int \<Rightarrow> int" where
  "absDiff d = (if d < 0 then wrap64 (- d) else d)"

text \<open>Go's division truncates towards zero.\<close>

definition half :: "int \<Rightarrow> int" where
  "half n = (if 0 \<le> n then n div 2 else - ((- n) div 2))"

definition squareDistance :: "pos \<Rightarrow> pos \<Rightarrow> int" where
  "squareDistance a c =
     (let dx = absDiff (wrap64 (fst a - fst c)); dy = absDiff (wrap64 (snd a - snd c))
      in if dy < dx then dx else dy)"

definition hexDistance :: "pos \<Rightarrow> pos \<Rightarrow> int" where
  "hexDistance a c =
     (let dq = absDiff (wrap64 (fst a - fst c)); dr = absDiff (wrap64 (snd a - snd c));
          ds = absDiff (wrap64 (wrap64 (fst a - fst c) + wrap64 (snd a - snd c)))
      in half (wrap64 (wrap64 (dq + dr) + ds)))"

fun Distance :: "board \<Rightarrow> pos \<Rightarrow> pos \<Rightarrow> int" where
  "Distance (SquareBoard _ _) a c = squareDistance a c"
| "Distance (HexBoard _ _) a c = hexDistance a c"

definition squareOffsets :: "(int \<times> int) list" where
  "squareOffsets = [(0, -1), (1, -1), (1, 0), (1, 1), (0, 1), (-1, 1), (-1, 0), (-1, -1)]"

definition hexOffsets :: "(int \<times> int) list" where
  "hexOffsets = [(1, 0), (1, -1), (0, -1), (-1, 0), (-1, 1), (0, 1)]"

definition neighborsBy :: "(int \<times> int) list \<Rightarrow> board \<Rightarrow> pos \<Rightarrow> pos list" where
  "neighborsBy offsets b p =
     filter (InBounds b) (map (\<lambda>(dx, dy). (wrap64 (fst p + dx), wrap64 (snd p + dy))) offsets)"

fun Neighbors :: "board \<Rightarrow> pos \<Rightarrow> pos list" where
  "Neighbors (SquareBoard w h) p = neighborsBy squareOffsets (SquareBoard w h) p"
| "Neighbors (HexBoard w h) p = neighborsBy hexOffsets (HexBoard w h) p"

section \<open>Lines (\<open>square.go\<close>, \<open>hex.go\<close>)\<close>

definition direction :: "int \<Rightarrow> int \<Rightarrow> int" where
  "direction a t = (if t \<le> a then (if a = t then 0 else -1) else 1)"

text \<open>One iteration of the Bresenham loop: the next error term and cell.\<close>

definition bresenhamStep :: "int \<Rightarrow> int \<Rightarrow> int \<Rightarrow> int \<Rightarrow> int \<Rightarrow> pos \<Rightarrow> int \<times> pos" where
  "bresenhamStep dx dy sx sy err p =
     (let e2 = wrap64 (2 * err);
          (err, x) = (if wrap64 (- dy) < e2 then (wrap64 (err - dy), wrap64 (fst p + sx)) else (err, fst p));
          (err, y) = (if e2 < dx then (wrap64 (err + dx), wrap64 (snd p + sy)) else (err, snd p))
      in (err, (x, y)))"

partial_function (option) bresenham :: "int \<Rightarrow> int \<Rightarrow> int \<Rightarrow> int \<Rightarrow> pos \<Rightarrow> int \<Rightarrow> pos \<Rightarrow> pos list \<Rightarrow> pos list option" where
  [code]: "bresenham dx dy sx sy target err p out =
     (if p = target then Some out
      else (let step = bresenhamStep dx dy sx sy err p
            in bresenham dx dy sx sy target (fst step) (snd step) (out @ [snd step])))"

definition squareLine :: "pos \<Rightarrow> pos \<Rightarrow> pos list option" where
  "squareLine a target =
     (let dx = absDiff (wrap64 (fst target - fst a)); dy = absDiff (wrap64 (snd target - snd a))
      in bresenham dx dy (direction (fst a) (fst target)) (direction (snd a) (snd target)) target
           (wrap64 (dx - dy)) a [a])"

text \<open>The float64 operations of the hex line, with IEEE rounding.\<close>

fun f64_neg :: "f64 \<Rightarrow> f64" where
  "f64_neg (Fin q) = Fin (- q)"
| "f64_neg PosInf = NegInf"
| "f64_neg NegInf = PosInf"
| "f64_neg NaN = NaN"

definition f64_sub :: "f64 \<Rightarrow> f64 \<Rightarrow> f64" where
  "f64_sub a b = f64_add a (f64_neg b)"

text \<open>Division of finite values by a nonzero finite value, the only one the line performs.\<close>

fun f64_div :: "f64 \<Rightarrow> f64 \<Rightarrow> f64" where
  "f64_div (Fin x) (Fin y) = (if y = 0 then NaN else f64_round (x / y))"
| "f64_div _ _ = NaN"

fun f64_abs :: "f64 \<Rightarrow> f64" where
  "f64_abs (Fin q) = Fin \<bar>q\<bar>"
| "f64_abs NegInf = PosInf"
| "f64_abs x = x"

definition f64_less :: "f64 \<Rightarrow> f64 \<Rightarrow> bool" where
  "f64_less a b \<longleftrightarrow> f64_le a b \<and> \<not> f64_le b a"

text \<open>\<open>math.Round\<close>: to the nearest integer, halves away from zero.\<close>

fun mathRound :: "f64 \<Rightarrow> f64" where
  "mathRound (Fin q) = Fin (of_int (if 0 \<le> q then \<lfloor>q + 1 / 2\<rfloor> else - \<lfloor>1 / 2 - q\<rfloor>))"
| "mathRound x = x"

definition cubeRound :: "f64 \<Rightarrow> f64 \<Rightarrow> f64 \<Rightarrow> int \<times> int \<times> int" where
  "cubeRound x y z =
     (let rx = f64_to_int (mathRound x); ry = f64_to_int (mathRound y); rz = f64_to_int (mathRound z);
          dx = f64_abs (f64_sub (int_to_f64 rx) x); dy = f64_abs (f64_sub (int_to_f64 ry) y);
          dz = f64_abs (f64_sub (int_to_f64 rz) z)
      in if f64_less dy dx \<and> f64_less dz dx then (wrap64 (wrap64 (- ry) - rz), ry, rz)
         else if f64_less dz dy then (rx, wrap64 (wrap64 (- rx) - rz), rz)
         else (rx, ry, wrap64 (wrap64 (- rx) - ry)))"

definition hexCell :: "pos \<Rightarrow> pos \<Rightarrow> int \<Rightarrow> int \<Rightarrow> pos" where
  "hexCell a target n i =
     (let ax = int_to_f64 (fst a); az = int_to_f64 (snd a); ay = f64_sub (f64_neg ax) az;
          tx = int_to_f64 (fst target); tz = int_to_f64 (snd target); ty = f64_sub (f64_neg tx) tz;
          t = f64_div (int_to_f64 i) (int_to_f64 n);
          cx = f64_add ax (f64_mul (f64_sub tx ax) t);
          cy = f64_add ay (f64_mul (f64_sub ty ay) t);
          cz = f64_add az (f64_mul (f64_sub tz az) t);
          (rx, _, rz) = cubeRound cx cy cz
      in (rx, rz))"

text \<open>
  The loop runs from 0 to \<open>n\<close>; the ends are overwritten with the exact cells. A negative \<open>n\<close>, which
  only a wrapped distance gives, makes the allocation of the line panic: \<open>None\<close>.
\<close>

definition hexLine :: "pos \<Rightarrow> pos \<Rightarrow> pos list option" where
  "hexLine a target =
     (let n = hexDistance a target
      in if n = 0 then Some [a]
         else if n < 0 then None
         else (let out = map (\<lambda>i. hexCell a target n (int i)) [0..<Suc (nat n)];
                   out = out[0 := a]
               in Some (out[length out - 1 := target])))"

fun Line :: "board \<Rightarrow> pos \<Rightarrow> pos \<Rightarrow> pos list option" where
  "Line (SquareBoard _ _) a target = squareLine a target"
| "Line (HexBoard _ _) a target = hexLine a target"

definition LineOfSight :: "board \<Rightarrow> pos \<Rightarrow> pos \<Rightarrow> (pos \<Rightarrow> bool) option \<Rightarrow> bool option" where
  "LineOfSight b from target blocks =
     (case blocks of
        None \<Rightarrow> Some True
      | Some blk \<Rightarrow>
          map_option (\<lambda>line. if length line \<le> 2 then True else \<not> list_ex blk (butlast (tl line)))
            (Line b from target))"

section \<open>Boards on the wire (\<open>board.go\<close>)\<close>

record boardJSON =
  bjKind :: string
  bjW :: int
  bjH :: int

fun MarshalBoard :: "board \<Rightarrow> boardJSON" where
  "MarshalBoard (SquareBoard w h) = \<lparr>bjKind = ''square'', bjW = w, bjH = h\<rparr>"
| "MarshalBoard (HexBoard w h) = \<lparr>bjKind = ''hex'', bjW = w, bjH = h\<rparr>"

definition UnmarshalBoard :: "boardJSON \<Rightarrow> board option" where
  "UnmarshalBoard bj =
     (if bjKind bj = ''square'' then Some (NewSquareBoard (bjW bj) (bjH bj))
      else if bjKind bj = ''hex'' then Some (NewHexBoard (bjW bj) (bjH bj))
      else None)"

section \<open>Distances\<close>

text \<open>Coordinates far from the edge of the 64-bit range, where no sum of the geometry wraps.\<close>

definition near :: "pos \<Rightarrow> bool" where
  "near p \<longleftrightarrow> \<bar>fst p\<bar> < 2 ^ 59 \<and> \<bar>snd p\<bar> < 2 ^ 59"

lemma int64_small: "\<bar>i\<bar> < 2 ^ 63 \<Longrightarrow> int64 i"
  by (simp add: int64_def abs_if split: if_splits)

lemma absDiff_near: "\<bar>d\<bar> < 2 ^ 62 \<Longrightarrow> absDiff (wrap64 d) = \<bar>d\<bar>"
proof -
  assume d: "\<bar>d\<bar> < 2 ^ 62"
  then have "wrap64 d = d" "wrap64 (- d) = - d" by (simp_all add: int64_small)
  then show ?thesis by (simp add: absDiff_def)
qed

lemma near_diff: "near a \<Longrightarrow> near b \<Longrightarrow> \<bar>fst a - fst b\<bar> < 2 ^ 60 \<and> \<bar>snd a - snd b\<bar> < 2 ^ 60"
  by (auto simp: near_def)

lemma squareDistance_near:
  "near a \<Longrightarrow> near b \<Longrightarrow> squareDistance a b = max \<bar>fst a - fst b\<bar> \<bar>snd a - snd b\<bar>"
  using near_diff [of a b] by (simp add: squareDistance_def Let_def absDiff_near)

lemma half_sum: "half (\<bar>q\<bar> + \<bar>r\<bar> + \<bar>q + r\<bar>) = max (max \<bar>q\<bar> \<bar>r\<bar>) \<bar>q + r\<bar>"
  by (simp add: half_def abs_if max_def) presburger

lemma hexDistance_near:
  assumes n: "near a" "near b"
  shows "hexDistance a b = max (max \<bar>fst a - fst b\<bar> \<bar>snd a - snd b\<bar>) \<bar>(fst a - fst b) + (snd a - snd b)\<bar>"
proof -
  define q r where "q = fst a - fst b" and "r = snd a - snd b"
  have b: "\<bar>q\<bar> < 2 ^ 60" "\<bar>r\<bar> < 2 ^ 60" using near_diff [OF n] by (simp_all add: q_def r_def)
  then have s: "\<bar>q + r\<bar> < 2 ^ 61" by (auto simp: abs_if split: if_splits)
  have w: "wrap64 q = q" "wrap64 r = r" "wrap64 (\<bar>q\<bar> + \<bar>r\<bar>) = \<bar>q\<bar> + \<bar>r\<bar>"
    "wrap64 (\<bar>q\<bar> + \<bar>r\<bar> + \<bar>q + r\<bar>) = \<bar>q\<bar> + \<bar>r\<bar> + \<bar>q + r\<bar>"
    using b s by (simp_all add: int64_small)
  have ab: "absDiff q = \<bar>q\<bar>" "absDiff r = \<bar>r\<bar>" using absDiff_near [of q] absDiff_near [of r] w b by simp_all
  have "absDiff (wrap64 (q + r)) = \<bar>q + r\<bar>" using s by (intro absDiff_near) simp
  then show ?thesis by (simp add: hexDistance_def Let_def w ab half_sum q_def [symmetric] r_def [symmetric])
qed

text \<open>
  What the users of a board rely on, for either geometry: a metric whose unit steps are the
  steps to a neighbouring cell.
\<close>

locale metric =
  fixes dist :: "pos \<Rightarrow> pos \<Rightarrow> int" and offsets :: "(int \<times> int) list"
  assumes dist_zero: "near a \<Longrightarrow> near b \<Longrightarrow> dist a b = 0 \<longleftrightarrow> a = b"
    and dist_sym: "near a \<Longrightarrow> near b \<Longrightarrow> dist a b = dist b a"
    and dist_triangle: "near a \<Longrightarrow> near b \<Longrightarrow> near c \<Longrightarrow> dist a c \<le> dist a b + dist b c"
    and dist_step: "near a \<Longrightarrow> near b \<Longrightarrow> dist a b = 1 \<longleftrightarrow> (fst b - fst a, snd b - snd a) \<in> set offsets"
begin

definition adjacent :: "pos \<Rightarrow> pos \<Rightarrow> bool" where
  "adjacent a b \<longleftrightarrow> dist a b = 1"

lemma dist_nonneg: "near a \<Longrightarrow> near b \<Longrightarrow> 0 \<le> dist a b"
  using dist_triangle [of a b a] dist_sym [of a b] dist_zero [of a a] by simp

lemma walk_length:
  "successively adjacent (p # ps) \<Longrightarrow> \<forall>c \<in> set (p # ps). near c \<Longrightarrow> dist p (last (p # ps)) \<le> int (length ps)"
proof (induction ps arbitrary: p)
  case Nil
  then show ?case using dist_zero [of p p] by simp
next
  case (Cons q ps)
  then have "dist q (last (q # ps)) \<le> int (length ps)" "dist p q = 1" by (auto simp: adjacent_def)
  moreover have "near p" "near q" "near (last (q # ps))" using Cons.prems(2) last_in_set [of "q # ps"] by auto
  ultimately show ?case using dist_triangle [of p q "last (q # ps)"] by simp
qed

lemma walk_shortest:
  assumes "successively adjacent ps" "ps \<noteq> []" "\<forall>c \<in> set ps. near c"
  shows "dist (hd ps) (last ps) + 1 \<le> int (length ps)"
  using walk_length [of "hd ps" "tl ps"] assms by (cases ps) auto

end

interpretation square: metric squareDistance squareOffsets
proof unfold_locales
  fix a b c :: pos
  assume n: "near a" "near b"
  show "squareDistance a b = 0 \<longleftrightarrow> a = b" by (cases a; cases b) (use n in \<open>auto simp: squareDistance_near max_def\<close>)
  show "squareDistance a b = squareDistance b a" using n by (simp add: squareDistance_near abs_minus_commute)
  show "near c \<Longrightarrow> squareDistance a c \<le> squareDistance a b + squareDistance b c"
    using n by (simp add: squareDistance_near) (simp add: max_def abs_if)
  obtain dx dy where d: "dx = fst b - fst a" "dy = snd b - snd a" by simp
  have "max \<bar>dx\<bar> \<bar>dy\<bar> = 1 \<longleftrightarrow> (dx, dy) \<in> set squareOffsets"
    unfolding squareOffsets_def by (auto simp: max_def abs_if)
  then show "squareDistance a b = 1 \<longleftrightarrow> (fst b - fst a, snd b - snd a) \<in> set squareOffsets"
    using n by (simp add: squareDistance_near d abs_minus_commute)
qed

interpretation hex: metric hexDistance hexOffsets
proof unfold_locales
  fix a b c :: pos
  assume n: "near a" "near b"
  show "hexDistance a b = 0 \<longleftrightarrow> a = b" by (cases a; cases b) (use n in \<open>auto simp: hexDistance_near max_def\<close>)
  show "hexDistance a b = hexDistance b a"
    using n by (simp add: hexDistance_near) (simp add: max_def abs_if)
  show "hexDistance a c \<le> hexDistance a b + hexDistance b c" if "near c"
  proof -
    have m: "\<bar>x\<bar> \<le> max (max \<bar>x\<bar> \<bar>y\<bar>) \<bar>x + y\<bar>" "\<bar>y\<bar> \<le> max (max \<bar>x\<bar> \<bar>y\<bar>) \<bar>x + y\<bar>"
      "\<bar>x + y\<bar> \<le> max (max \<bar>x\<bar> \<bar>y\<bar>) \<bar>x + y\<bar>" for x y :: int by simp_all
    have t: "\<bar>z\<bar> \<le> M + N" if "z = x + y" "\<bar>x\<bar> \<le> M" "\<bar>y\<bar> \<le> N" for x y z M N :: int
      using that abs_triangle_ineq [of x y] by simp
    show ?thesis
      unfolding hexDistance_near [OF n(1) that] hexDistance_near [OF n] hexDistance_near [OF n(2) that]
    proof (intro max.boundedI)
    qed (rule t [OF _ m(1) m(1)] t [OF _ m(2) m(2)] t [OF _ m(3) m(3)], simp)+
  qed
  obtain dx dy where d: "dx = fst b - fst a" "dy = snd b - snd a" by simp
  have "max (max \<bar>dx\<bar> \<bar>dy\<bar>) \<bar>dx + dy\<bar> = 1 \<longleftrightarrow> (dx, dy) \<in> set hexOffsets"
    unfolding hexOffsets_def by (auto simp: max_def abs_if)
  moreover have "hexDistance a b = max (max \<bar>dx\<bar> \<bar>dy\<bar>) \<bar>dx + dy\<bar>"
    using n by (simp add: hexDistance_near d) (simp add: max_def abs_if)
  ultimately show "hexDistance a b = 1 \<longleftrightarrow> (fst b - fst a, snd b - snd a) \<in> set hexOffsets" by (simp add: d)
qed

section \<open>The Bresenham line\<close>

text \<open>One iteration without wrap-around, on the pair of the error term and the cell.\<close>

definition plotStep :: "int \<Rightarrow> int \<Rightarrow> int \<Rightarrow> int \<Rightarrow> int \<times> pos \<Rightarrow> int \<times> pos" where
  "plotStep dx dy sx sy st =
     (let e = fst st; x = fst (snd st); y = snd (snd st) in
      (e - (if - dy < 2 * e then dy else 0) + (if 2 * e < dx then dx else 0),
       (if - dy < 2 * e then x + sx else x, if 2 * e < dx then y + sy else y)))"

definition plotAt :: "int \<Rightarrow> int \<Rightarrow> int \<Rightarrow> int \<Rightarrow> pos \<Rightarrow> nat \<Rightarrow> int \<times> pos" where
  "plotAt dx dy sx sy a k = (plotStep dx dy sx sy ^^ k) (dx - dy, a)"

lemma plotAt_simps [simp]:
  "plotAt dx dy sx sy a 0 = (dx - dy, a)"
  "plotAt dx dy sx sy a (Suc k) = plotStep dx dy sx sy (plotAt dx dy sx sy a k)"
  by (simp_all add: plotAt_def)

text \<open>Exchanging the axes exchanges the two tests and negates the error term.\<close>

lemma plotAt_swap: "plotAt dy dx sy sx (prod.swap a) k = (- fst (plotAt dx dy sx sy a k), prod.swap (snd (plotAt dx dy sx sy a k)))"
  by (induction k) (auto simp: plotStep_def Let_def)

text \<open>Along the longer axis every iteration advances; the error term keeps the other axis in step.\<close>

lemma plotAt_major:
  assumes d: "0 < dx" "0 \<le> dy" "dy \<le> dx" and k: "int k \<le> dx"
  shows "\<exists>j. 0 \<le> j \<and> j \<le> dy \<and> (int k = dx \<longrightarrow> j = dy) \<and>
    plotAt dx dy sx sy (ax, ay) k = (dx * (j + 1) - dy * (int k + 1), (ax + int k * sx, ay + j * sy)) \<and>
    - dy < 2 * (dx * (j + 1) - dy * (int k + 1)) \<and> 2 * (dx * (j + 1) - dy * (int k + 1)) < 3 * dx - 2 * dy"
  using k
proof (induction k)
  case 0
  show ?case using d by (intro exI [of _ 0]) auto
next
  case (Suc k)
  then obtain j where j: "0 \<le> j" "plotAt dx dy sx sy (ax, ay) k = (dx * (j + 1) - dy * (int k + 1), (ax + int k * sx, ay + j * sy))"
    "- dy < 2 * (dx * (j + 1) - dy * (int k + 1))" "2 * (dx * (j + 1) - dy * (int k + 1)) < 3 * dx - 2 * dy" by auto
  define e where "e = dx * (j + 1) - dy * (int k + 1)"
  define j' where "j' = (if 2 * e < dx then j + 1 else j)"
  have e': "dx * (j' + 1) - dy * (int (Suc k) + 1) = e - dy + (if 2 * e < dx then dx else 0)"
    by (simp add: e_def j'_def algebra_simps)
  have st: "plotAt dx dy sx sy (ax, ay) (Suc k) =
      (dx * (j' + 1) - dy * (int (Suc k) + 1), (ax + int (Suc k) * sx, ay + j' * sy))"
    unfolding e' plotAt_simps j(2) [folded e_def] using j(3) [folded e_def]
    by (simp add: plotStep_def Let_def j'_def distrib_right)
  have b: "- dy < 2 * (dx * (j' + 1) - dy * (int (Suc k) + 1))" "2 * (dx * (j' + 1) - dy * (int (Suc k) + 1)) < 3 * dx - 2 * dy"
    using j(3,4) d unfolding e' e_def [symmetric] by auto
  have "dy * int (Suc k) \<le> dy * dx" using Suc.prems d(2) by (intro mult_left_mono) auto
  then have "2 * (dx * (j' + 1)) < dx * (3 + 2 * dy)" using b(2) by (simp add: algebra_simps)
  then have "dx * (2 * (j' + 1)) < dx * (3 + 2 * dy)" by (simp only: mult.left_commute)
  then have le: "j' \<le> dy" using d(1) by (simp add: mult_less_cancel_left_pos)
  have "j' = dy" if "int (Suc k) = dx"
  proof -
    have "dx * (2 * (j' + 1)) > dx * (2 * dy)" using b(1) [unfolded that] d(2) by (simp add: algebra_simps)
    then have "dy < j' + 1" using d(1) by (simp add: mult_less_cancel_left_pos)
    then show ?thesis using le by simp
  qed
  then show ?case using st b le j(1) by (intro exI [of _ j']) (simp add: j'_def)
qed

text \<open>The loop of the program follows the plot as long as nothing wraps.\<close>

definition inRange :: "int \<times> pos \<Rightarrow> bool" where
  "inRange st \<longleftrightarrow> \<bar>fst st\<bar> < 2 ^ 62 - 2 ^ 60 \<and> \<bar>fst (snd st)\<bar> < 2 ^ 60 \<and> \<bar>snd (snd st)\<bar> < 2 ^ 60"

lemma bresenhamStep_plotStep:
  assumes r: "inRange st" and d: "0 \<le> dx" "dx < 2 ^ 60" "0 \<le> dy" "dy < 2 ^ 60" "\<bar>sx\<bar> \<le> 1" "\<bar>sy\<bar> \<le> 1"
  shows "bresenhamStep dx dy sx sy (fst st) (snd st) = plotStep dx dy sx sy st"
proof -
  obtain e x y where st: "st = (e, (x, y))" by (cases st) auto
  have "wrap64 (2 * e) = 2 * e" "wrap64 (- dy) = - dy" "wrap64 (e - dy) = e - dy" "wrap64 (e + dx) = e + dx"
    "wrap64 (e - dy + dx) = e - dy + dx" "wrap64 (x + sx) = x + sx" "wrap64 (y + sy) = y + sy"
    using r d unfolding st inRange_def by (auto intro!: wrap64_id int64_small)
  then show ?thesis by (simp add: bresenhamStep_def plotStep_def Let_def st)
qed

lemma bresenham_run:
  assumes go: "\<And>k. k < n \<Longrightarrow> snd (st k) \<noteq> target \<and> bresenhamStep dx dy sx sy (fst (st k)) (snd (st k)) = st (Suc k)"
    and stop: "snd (st n) = target"
  shows "bresenham dx dy sx sy target (fst (st 0)) (snd (st 0)) out = Some (out @ map (\<lambda>k. snd (st k)) [1..<Suc n])"
proof -
  have "m \<le> n \<Longrightarrow> bresenham dx dy sx sy target (fst (st (n - m))) (snd (st (n - m))) out =
      Some (out @ map (\<lambda>k. snd (st k)) [Suc (n - m)..<Suc n])" for m out
  proof (induction m arbitrary: out)
    case 0
    then show ?case using stop by (simp add: bresenham.simps)
  next
    case (Suc m)
    then have k: "n - Suc m < n" "Suc (n - Suc m) = n - m" by auto
    have "bresenham dx dy sx sy target (fst (st (n - Suc m))) (snd (st (n - Suc m))) out =
        bresenham dx dy sx sy target (fst (st (n - m))) (snd (st (n - m))) (out @ [snd (st (n - m))])"
      using go [OF k(1)] by (subst bresenham.simps) (simp add: Let_def k(2))
    also have "\<dots> = Some ((out @ [snd (st (n - m))]) @ map (\<lambda>k. snd (st k)) [Suc (n - m)..<Suc n])"
      using Suc by (intro Suc.IH) simp
    also have "[Suc (n - Suc m)..<Suc n] = (n - m) # [Suc (n - m)..<Suc n]"
      using k by (metis Suc_diff_Suc Suc_le_eq diff_less_Suc less_Suc_eq_le Suc.prems upt_conv_Cons diff_le_self le_imp_less_Suc)
    ultimately show ?case by simp
  qed
  from this [of n out] show ?thesis by simp
qed

text \<open>Every cell of the plot lies in the box spanned by the two ends.\<close>

lemma between_near:
  fixes a s j d :: int
  assumes "\<bar>a\<bar> < N" "\<bar>a + d * s\<bar> < N" "0 \<le> j" "j \<le> d" "\<bar>s\<bar> \<le> 1"
  shows "\<bar>a + j * s\<bar> < N"
proof -
  from assms(5) consider "s = 0" | "s = 1" | "s = - 1" by linarith
  then show ?thesis by cases (use assms in auto)
qed

lemma direction_reaches: "a + \<bar>t - a\<bar> * direction a t = t" "\<bar>direction a t\<bar> \<le> 1" "a \<noteq> t \<Longrightarrow> direction a t \<noteq> 0"
  by (auto simp: direction_def)

lemma map_upt_tail: "a # map f [1..<Suc n] = map f [0..<Suc n]" if "f 0 = a"
  using that by (simp add: upt_conv_Cons del: upt_Suc)

definition goodLine :: "pos \<Rightarrow> pos \<Rightarrow> pos list \<Rightarrow> bool" where
  "goodLine a b l \<longleftrightarrow> l \<noteq> [] \<and> hd l = a \<and> last l = b \<and> int (length l) = squareDistance a b + 1 \<and>
     successively (\<lambda>p q. squareDistance p q = 1) l \<and> (\<forall>c \<in> set l. near c)"

text \<open>
  The line as a sequence: cells that advance by one along a longer axis and reach the target
  after as many steps as that axis is long.
\<close>

lemma squareLine_sequence:
  assumes n: "near a" "near b" and ab: "a \<noteq> b"
    and dx: "dx = \<bar>fst b - fst a\<bar>" and dy: "dy = \<bar>snd b - snd a\<bar>"
    and sx: "sx = direction (fst a) (fst b)" and sy: "sy = direction (snd a) (snd b)"
    and st: "st = plotAt dx dy sx sy a" and N: "int N = max dx dy"
    and range: "\<And>k. k \<le> N \<Longrightarrow> inRange (st k) \<and> near (snd (st k))"
    and moves: "\<And>k. k < N \<Longrightarrow> snd (st (Suc k)) \<noteq> snd (st k)"
    and early: "\<And>k. k < N \<Longrightarrow> snd (st k) \<noteq> b" and stop: "snd (st N) = b"
  shows "\<exists>l. squareLine a b = Some l \<and> goodLine a b l"
proof -
  have small: "dx < 2 ^ 60" "dy < 2 ^ 60" using near_diff [OF n] dx dy by (auto simp: abs_minus_commute)
  have s: "\<bar>sx\<bar> \<le> 1" "\<bar>sy\<bar> \<le> 1" using direction_reaches(2) sx sy by blast+
  have step: "bresenhamStep dx dy sx sy (fst (st k)) (snd (st k)) = st (Suc k)" if "k < N" for k
    using bresenhamStep_plotStep [of "st k" dx dy sx sy] range [of k] that small s dx dy unfolding st by simp
  have w: "absDiff (wrap64 (fst b - fst a)) = dx" "absDiff (wrap64 (snd b - snd a)) = dy" "wrap64 (dx - dy) = dx - dy"
    using near_diff [OF n(2,1)] small dx dy by (auto simp: absDiff_near intro!: wrap64_id int64_small)
  have "squareLine a b = bresenham dx dy sx sy b (fst (st 0)) (snd (st 0)) [a]"
    by (simp add: squareLine_def Let_def w sx sy st)
  also have "\<dots> = Some ([a] @ map (\<lambda>k. snd (st k)) [1..<Suc N])"
    using early step stop by (intro bresenham_run) auto
  also have "[a] @ map (\<lambda>k. snd (st k)) [1..<Suc N] = map (\<lambda>k. snd (st k)) [0..<Suc N]"
    using map_upt_tail [of "\<lambda>k. snd (st k)" a N] by (simp add: st)
  finally have l: "squareLine a b = Some (map (\<lambda>k. snd (st k)) [0..<Suc N])" .
  have "squareDistance (snd (st k)) (snd (st (Suc k))) = 1" if "k < N" for k
  proof -
    have nr: "near (snd (st k))" "near (snd (st (Suc k)))" using range that by auto
    have "\<bar>fst (snd (st (Suc k))) - fst (snd (st k))\<bar> \<le> 1" "\<bar>snd (snd (st (Suc k))) - snd (snd (st k))\<bar> \<le> 1"
      using s by (simp_all add: st plotStep_def Let_def)
    moreover have "fst (snd (st (Suc k))) \<noteq> fst (snd (st k)) \<or> snd (snd (st (Suc k))) \<noteq> snd (snd (st k))"
      using moves [OF that] by (metis prod_eqI)
    ultimately show ?thesis unfolding squareDistance_near [OF nr] by (auto simp: max_def)
  qed
  then have "successively (\<lambda>p q. squareDistance p q = 1) (map (\<lambda>k. snd (st k)) [0..<Suc N])"
    by (simp add: successively_conv_nth del: upt_Suc)
  moreover have "squareDistance a b = int N" using n N dx dy by (simp add: squareDistance_near abs_minus_commute)
  moreover have "hd (map (\<lambda>k. snd (st k)) [0..<Suc N]) = a" by (simp add: st hd_map upt_conv_Cons del: upt_Suc)
  moreover have "last (map (\<lambda>k. snd (st k)) [0..<Suc N]) = b" using stop by simp
  ultimately show ?thesis using l range unfolding goodLine_def by (intro exI conjI) (auto simp: less_Suc_eq_le)
qed

lemma major_facts:
  fixes a b :: pos and dx dy :: int
  defines "dx \<equiv> \<bar>fst b - fst a\<bar>" and "dy \<equiv> \<bar>snd b - snd a\<bar>"
  defines "st \<equiv> plotAt dx dy (direction (fst a) (fst b)) (direction (snd a) (snd b)) a"
  assumes n: "near a" "near b" and d: "0 < dx" "dy \<le> dx"
  shows "int k \<le> dx \<Longrightarrow> inRange (st k) \<and> near (snd (st k))"
    and "int k < dx \<Longrightarrow> snd (st (Suc k)) \<noteq> snd (st k) \<and> snd (st k) \<noteq> b"
    and "snd (st (nat dx)) = b"
proof -
  let ?sx = "direction (fst a) (fst b)" and ?sy = "direction (snd a) (snd b)"
  have dy: "0 \<le> dy" by (simp add: dy_def)
  have small: "dx < 2 ^ 60" "dy < 2 ^ 60" using near_diff [OF n] by (simp_all add: dx_def dy_def abs_minus_commute)
  have rx: "fst a + dx * ?sx = fst b" "\<bar>?sx\<bar> \<le> 1" and ry: "snd a + dy * ?sy = snd b" "\<bar>?sy\<bar> \<le> 1"
    using direction_reaches [of "fst a" "fst b"] direction_reaches [of "snd a" "snd b"] by (simp_all add: dx_def dy_def)
  have nz: "?sx \<noteq> 0" using d(1) direction_reaches(3) [of "fst a" "fst b"] by (auto simp: dx_def)
  have at: "\<exists>j e. 0 \<le> j \<and> j \<le> dy \<and> (int k = dx \<longrightarrow> j = dy) \<and> st k = (e, (fst a + int k * ?sx, snd a + j * ?sy)) \<and> - dy < 2 * e \<and> 2 * e < 3 * dx - 2 * dy"
    if "int k \<le> dx" for k
    using plotAt_major [OF d(1) dy d(2) that, of ?sx ?sy "fst a" "snd a"] unfolding st_def by auto
  show r: "inRange (st k) \<and> near (snd (st k))" if k: "int k \<le> dx" for k
  proof -
    obtain j e where j: "0 \<le> j" "j \<le> dy" "st k = (e, (fst a + int k * ?sx, snd a + j * ?sy))" "- dy < 2 * e" "2 * e < 3 * dx - 2 * dy"
      using at [OF k] by blast
    have "\<bar>fst a + int k * ?sx\<bar> < 2 ^ 59" "\<bar>snd a + j * ?sy\<bar> < 2 ^ 59"
      using between_near [of "fst a" "2 ^ 59" dx ?sx "int k"] between_near [of "snd a" "2 ^ 59" dy ?sy j]
        n rx ry j k by (simp_all add: near_def)
    then show ?thesis using j small dy by (auto simp: inRange_def near_def abs_if split: if_splits)
  qed
  have x: "fst (snd (st k)) = fst a + int k * ?sx" if "int k \<le> dx" for k using at [OF that] by auto
  show "snd (st (Suc k)) \<noteq> snd (st k) \<and> snd (st k) \<noteq> b" if k: "int k < dx" for k
  proof -
    have "fst (snd (st (Suc k))) \<noteq> fst (snd (st k))" using x [of k] x [of "Suc k"] k nz by (simp add: distrib_right)
    moreover have "fst (snd (st k)) \<noteq> fst b"
    proof
      assume "fst (snd (st k)) = fst b"
      then have "int k * ?sx = dx * ?sx" using x [of k] k rx(1) by linarith
      then show False using nz k by simp
    qed
    ultimately show ?thesis by metis
  qed
  show "snd (st (nat dx)) = b"
  proof -
    obtain e where "st (nat dx) = (e, (fst a + dx * ?sx, snd a + dy * ?sy))" using at [of "nat dx"] d(1) by auto
    then show ?thesis using rx(1) ry(1) by (cases b) simp
  qed
qed

lemma squareLine_good:
  assumes n: "near a" "near b"
  shows "\<exists>l. squareLine a b = Some l \<and> goodLine a b l"
proof -
  let ?dx = "\<bar>fst b - fst a\<bar>" and ?dy = "\<bar>snd b - snd a\<bar>"
  let ?sx = "direction (fst a) (fst b)" and ?sy = "direction (snd a) (snd b)"
  show ?thesis
  proof (cases "a = b")
    case True
    then have "squareLine a b = Some [a]" by (simp add: squareLine_def Let_def bresenham.simps)
    moreover have "squareDistance a a = 0" using square.dist_zero [OF n(1) n(1)] by simp
    ultimately show ?thesis using True n by (auto simp: goodLine_def)
  next
    case False
    show ?thesis
    proof (cases "?dy \<le> ?dx")
      case True
      then have "0 < ?dx" using False by (cases a; cases b) auto
      note f = major_facts [OF n this True]
      show ?thesis
        by (rule squareLine_sequence [OF n False refl refl refl refl refl, of "nat ?dx"]) (use f True in \<open>auto simp: nat_less_iff\<close>)
    next
      case minor: False
      let ?a = "prod.swap a" and ?b = "prod.swap b"
      have "near ?a" "near ?b" "0 < \<bar>fst ?b - fst ?a\<bar>" "\<bar>snd ?b - snd ?a\<bar> \<le> \<bar>fst ?b - fst ?a\<bar>"
        using n minor by (auto simp: near_def)
      note f = major_facts [OF this, unfolded fst_swap snd_swap plotAt_swap snd_conv]
      have sw: "inRange (- e, prod.swap p) = inRange (e, p)" "near (prod.swap p) = near p" for e p
        by (auto simp: inRange_def near_def)
      have f': "inRange (plotAt ?dx ?dy ?sx ?sy a k)" "near (snd (plotAt ?dx ?dy ?sx ?sy a k))" if "int k \<le> ?dy" for k
        using f(1) [OF that] sw(1) [of "fst (plotAt ?dx ?dy ?sx ?sy a k)" "snd (plotAt ?dx ?dy ?sx ?sy a k)"] by (simp_all add: sw)
      have inj: "prod.swap p = prod.swap q \<longleftrightarrow> p = q" for p q :: pos by (metis swap_swap)
      show ?thesis
        by (rule squareLine_sequence [OF n False refl refl refl refl refl, of "nat ?dy"])
           (use f(2,3) f' minor in \<open>auto simp: nat_less_iff inj simp del: plotAt_simps\<close>)
    qed
  qed
qed

text \<open>
  C22. The line of a square board is a shortest path of king's moves: for any two cells whose
  coordinates are below \<open>2 ^ 59\<close>, the Bresenham loop ends, its line starts at the first cell and ends
  at the second, has Distance + 1 cells, and each cell is a neighbour of the one before it. No
  connected line can have fewer cells.
\<close>

theorem squareLine_shortest:
  assumes n: "near a" "near b"
  shows "\<exists>l. squareLine a b = Some l \<and> l \<noteq> [] \<and> hd l = a \<and> last l = b \<and>
    int (length l) = squareDistance a b + 1 \<and> successively (\<lambda>p q. squareDistance p q = 1) l \<and>
    (\<forall>l'. l' \<noteq> [] \<and> hd l' = a \<and> last l' = b \<and> (\<forall>c \<in> set l'. near c) \<and>
       successively (\<lambda>p q. squareDistance p q = 1) l' \<longrightarrow> length l \<le> length l')"
proof -
  obtain l where l: "squareLine a b = Some l" "goodLine a b l" using squareLine_good [OF n] by blast
  have "length l \<le> length l'"
    if "l' \<noteq> [] \<and> hd l' = a \<and> last l' = b \<and> (\<forall>c \<in> set l'. near c) \<and> successively (\<lambda>p q. squareDistance p q = 1) l'" for l'
    using square.walk_shortest [of l'] that l(2) by (simp add: goodLine_def square.adjacent_def [abs_def])
  then show ?thesis using l by (auto simp: goodLine_def)
qed

theorem squareLine_shortest_witness:
  "\<exists>l. squareLine (0, 0) (5, 2) = Some l \<and> length l = 6"
proof -
  have "near (0, 0)" "near (5, 2)" by (simp_all add: near_def)
  from squareLine_shortest [OF this] this show ?thesis by (auto simp: squareDistance_near)
qed

section \<open>Neighbours, sight and the wire\<close>

text \<open>A board every cell of which is far from the edge of the integers.\<close>

fun fits :: "board \<Rightarrow> bool" where
  "fits (SquareBoard w h) = (w \<le> 2 ^ 58 \<and> h \<le> 2 ^ 58)"
| "fits (HexBoard w h) = (w \<le> 2 ^ 58 \<and> h \<le> 2 ^ 58)"

lemma InBounds_near: "fits b \<Longrightarrow> InBounds b p \<Longrightarrow> near p"
  by (cases b; cases p) (auto simp: near_def)

lemma set_neighborsBy:
  assumes "near p" "\<forall>d \<in> set offsets. \<bar>fst d\<bar> \<le> 1 \<and> \<bar>snd d\<bar> \<le> 1"
  shows "set (neighborsBy offsets b p) = {q. InBounds b q \<and> (fst q - fst p, snd q - snd p) \<in> set offsets}"
proof -
  have w: "(wrap64 (fst p + fst d), wrap64 (snd p + snd d)) = (fst p + fst d, snd p + snd d)" if "d \<in> set offsets" for d
    using assms that by (auto simp: near_def intro!: wrap64_id int64_small)
  have "set (map (\<lambda>(dx, dy). (wrap64 (fst p + dx), wrap64 (snd p + dy))) offsets) = {q. (fst q - fst p, snd q - snd p) \<in> set offsets}"
    using w by (force simp: image_iff split_def)
  then show ?thesis unfolding neighborsBy_def by auto
qed

text \<open>
  Neighbors lists exactly the cells of the board at distance 1, on either geometry, for
  boards of up to \<open>2 ^ 58\<close> cells a side.
\<close>

theorem Neighbors_exact:
  assumes "fits b" "InBounds b p"
  shows "set (Neighbors b p) = {q. InBounds b q \<and> Distance b p q = 1}"
proof -
  have p: "near p" using InBounds_near assms by blast
  have q: "near q" if "InBounds b q" for q using InBounds_near assms(1) that by blast
  have o: "\<forall>d \<in> set squareOffsets. \<bar>fst d\<bar> \<le> 1 \<and> \<bar>snd d\<bar> \<le> 1" "\<forall>d \<in> set hexOffsets. \<bar>fst d\<bar> \<le> 1 \<and> \<bar>snd d\<bar> \<le> 1"
    by (simp_all add: squareOffsets_def hexOffsets_def)
  show ?thesis
    by (cases b) (use set_neighborsBy [OF p o(1)] set_neighborsBy [OF p o(2)] square.dist_step [OF p q] hex.dist_step [OF p q] in auto)
qed

theorem Neighbors_exact_witness:
  "set (Neighbors (SquareBoard 3 3) (0, 0)) = {q. InBounds (SquareBoard 3 3) q \<and> squareDistance (0, 0) q = 1} \<and>
   Neighbors (SquareBoard 3 3) (0, 0) = [(1, 0), (1, 1), (0, 1)]"
proof
  show "set (Neighbors (SquareBoard 3 3) (0, 0)) = {q. InBounds (SquareBoard 3 3) q \<and> squareDistance (0, 0) q = 1}"
    using Neighbors_exact [of "SquareBoard 3 3" "(0, 0)"] by simp
  show "Neighbors (SquareBoard 3 3) (0, 0) = [(1, 0), (1, 1), (0, 1)]" by code_simp
qed

lemma LineOfSight_adjacent:
  assumes "near a" "near c" "squareDistance a c \<le> 1"
  shows "LineOfSight (SquareBoard w h) a c blocks = Some True"
proof -
  obtain l where l: "squareLine a c = Some l" "goodLine a c l"
    using squareLine_good [OF assms(1,2)] by blast
  then have "length l \<le> 2" using assms(3) by (simp add: goodLine_def)
  then show ?thesis using l(1) by (cases blocks) (simp_all add: LineOfSight_def)
qed

text \<open>
  Sight need not be mutual: the line from one cell to another is not always the reverse of the
  line back, so with one blocking cell the first player sees the second and not conversely.
\<close>

lemma LineOfSight_not_mutual:
  "LineOfSight (SquareBoard 3 2) (0, 0) (2, 1) (Some (\<lambda>p. p = (1, 0))) = Some False \<and>
   LineOfSight (SquareBoard 3 2) (2, 1) (0, 0) (Some (\<lambda>p. p = (1, 0))) = Some True"
  by (rule conjI) code_simp+

lemma hexLine_ends:
  assumes n: "near a" "near b"
  shows "\<exists>l. hexLine a b = Some l \<and> l \<noteq> [] \<and> hd l = a \<and> last l = b \<and> int (length l) = hexDistance a b + 1"
proof -
  consider "hexDistance a b = 0" | "0 < hexDistance a b" using hex.dist_nonneg [OF n] by linarith
  then show ?thesis
  proof cases
    case 1
    then show ?thesis using hex.dist_zero [OF n] by (simp add: hexLine_def)
  next
    case 2
    define out where "out = map (\<lambda>i. hexCell a b (hexDistance a b) (int i)) [0..<Suc (nat (hexDistance a b))]"
    have l: "length out = Suc (nat (hexDistance a b))" "2 \<le> length out" using 2 by (simp_all add: out_def del: upt_Suc)
    let ?l = "out[0 := a, length out - 1 := b]"
    have "?l \<noteq> []" using l(2) by auto
    then have "hd ?l = a" "last ?l = b" "out \<noteq> []" using l(2) by (auto simp: hd_conv_nth last_conv_nth nth_list_update)
    moreover have "hexLine a b = Some (out[0 := a, length out - 1 := b])"
      using 2 by (simp add: hexLine_def Let_def out_def del: upt_Suc)
    ultimately show ?thesis using l 2 by auto
  qed
qed

lemma UnmarshalBoard_MarshalBoard:
  "UnmarshalBoard (MarshalBoard (NewSquareBoard w h)) = Some (NewSquareBoard w h)"
  "UnmarshalBoard (MarshalBoard (NewHexBoard w h)) = Some (NewHexBoard w h)"
  by (simp_all add: UnmarshalBoard_def NewSquareBoard_def NewHexBoard_def clampSize_def)

end
