(* ===== verification/TabletopUnits.thy ===== *)
theory TabletopUnits
  imports TabletopBoard Prng "HOL-Library.Product_Lexorder" "HOL-Library.List_Lexorder" "HOL-Library.Char_ord"
begin

text \<open>
  What stands on a board (\<open>modules/tabletop\<close>): units and the lazily built index from cells to units
  (state.go), terrain tags and their wire format (terrain.go), and dice pools (combat.go). A type
  assertion on a mocked die that is not an int panics: \<open>None\<close>.
\<close>

section \<open>Units (\<open>state.go\<close>)\<close>

type_synonym unitID = "64 word"

record spatial =
  Positions :: "(unitID \<times> pos) list option"
  byCell :: "(pos \<times> unitID list) list option"

definition NewSpatial :: spatial where
  "NewSpatial = \<lparr>Positions = Some [], byCell = Some []\<rparr>"

definition positionsOf :: "spatial \<Rightarrow> (unitID \<times> pos) list" where
  "positionsOf s = (case Positions s of None \<Rightarrow> [] | Some m \<Rightarrow> m)"

definition cellIn :: "(pos \<times> unitID list) list \<Rightarrow> pos \<Rightarrow> unitID list" where
  "cellIn m p = (case map_of m p of None \<Rightarrow> [] | Some us \<Rightarrow> us)"

definition indexOf :: "(unitID \<times> pos) list \<Rightarrow> (pos \<times> unitID list) list" where
  "indexOf ps = fold (\<lambda>(u, p) m. mput p (cellIn m p @ [u]) m) ps []"

definition ensureIndex :: "spatial \<Rightarrow> spatial" where
  "ensureIndex s =
     (case byCell s of
        Some _ \<Rightarrow> s
      | None \<Rightarrow> s\<lparr>byCell := Some (indexOf (positionsOf s))\<rparr>)"

definition theIndex :: "spatial \<Rightarrow> (pos \<times> unitID list) list" where
  "theIndex s = (case byCell s of None \<Rightarrow> [] | Some m \<Rightarrow> m)"

definition removeFromCell :: "pos \<Rightarrow> unitID \<Rightarrow> spatial \<Rightarrow> spatial" where
  "removeFromCell p u s =
     (let s = ensureIndex s; cell = cellIn (theIndex s) p
      in case find_index (\<lambda>v. v = u) cell of
           None \<Rightarrow> s
         | Some i \<Rightarrow>
             (let rest = remove_at i cell
              in s\<lparr>byCell := Some (if rest = [] then mdel p (theIndex s) else mput p rest (theIndex s))\<rparr>))"

definition addToCell :: "pos \<Rightarrow> unitID \<Rightarrow> spatial \<Rightarrow> spatial" where
  "addToCell p u s =
     (case byCell s of
        None \<Rightarrow> ensureIndex s
      | Some m \<Rightarrow> s\<lparr>byCell := Some (mput p (cellIn m p @ [u]) m)\<rparr>)"

definition Place :: "unitID \<Rightarrow> pos \<Rightarrow> spatial \<Rightarrow> spatial" where
  "Place u p s =
     (let s = s\<lparr>Positions := Some (positionsOf s)\<rparr>;
          s = (case map_of (positionsOf s) u of None \<Rightarrow> s | Some old \<Rightarrow> removeFromCell old u s);
          s = s\<lparr>Positions := Some (mput u p (positionsOf s))\<rparr>
      in addToCell p u s)"

definition MoveUnit :: "unitID \<Rightarrow> pos \<Rightarrow> spatial \<Rightarrow> spatial" where
  "MoveUnit u p s = Place u p s"

definition RemoveUnit :: "unitID \<Rightarrow> spatial \<Rightarrow> spatial" where
  "RemoveUnit u s =
     (case map_of (positionsOf s) u of
        None \<Rightarrow> s
      | Some p \<Rightarrow> (let s = removeFromCell p u s in s\<lparr>Positions := mdelo u (Positions s)\<rparr>))"

definition PositionOf :: "spatial \<Rightarrow> unitID \<Rightarrow> pos option" where
  "PositionOf s u = mget (Positions s) u"

definition EntitiesAt :: "pos \<Rightarrow> spatial \<Rightarrow> unitID list \<times> spatial" where
  "EntitiesAt p s = (let s = ensureIndex s in (sort (cellIn (theIndex s) p), s))"

definition Within :: "board \<Rightarrow> pos \<Rightarrow> int \<Rightarrow> spatial \<Rightarrow> unitID list" where
  "Within b center radius s =
     (if radius < 0 then []
      else sort (map fst (filter (\<lambda>(u, p). Distance b center p \<le> radius) (positionsOf s))))"

text \<open>The wire form is the positions alone, omitted when empty; decoding forgets the index.\<close>

definition marshalSpatial :: "spatial \<Rightarrow> (unitID \<times> pos) list option" where
  "marshalSpatial s = (if positionsOf s = [] then None else Positions s)"

definition unmarshalSpatial :: "(unitID \<times> pos) list option \<Rightarrow> spatial" where
  "unmarshalSpatial w = \<lparr>Positions = w, byCell = None\<rparr>"

section \<open>Terrain (\<open>terrain.go\<close>)\<close>

type_synonym terrain = "(pos \<times> (string \<times> bool) list) list option"

definition TerrainTagBlocksLOS :: string where
  "TerrainTagBlocksLOS = ''blocks_los''"

definition NewTerrainMap :: terrain where
  "NewTerrainMap = Some []"

definition Tag :: "pos \<Rightarrow> string \<Rightarrow> terrain \<Rightarrow> terrain" where
  "Tag p tag t =
     (let cells = (case t of None \<Rightarrow> [] | Some m \<Rightarrow> m);
          tags = (case map_of cells p of None \<Rightarrow> [] | Some ts \<Rightarrow> ts)
      in Some (mput p (mput tag True tags) cells))"

definition Untag :: "pos \<Rightarrow> string \<Rightarrow> terrain \<Rightarrow> terrain" where
  "Untag p tag t =
     (case mget t p of
        None \<Rightarrow> t
      | Some tags \<Rightarrow>
          (let tags = mdel tag tags
           in if tags = [] then mdelo p t else mputo p tags t))"

definition HasTag :: "terrain \<Rightarrow> pos \<Rightarrow> string \<Rightarrow> bool" where
  "HasTag t p tag =
     (case mget t p of
        None \<Rightarrow> False
      | Some tags \<Rightarrow> (case map_of tags tag of None \<Rightarrow> False | Some b \<Rightarrow> b))"

definition TerrainBlocks :: "terrain \<Rightarrow> pos \<Rightarrow> bool" where
  "TerrainBlocks t p = HasTag t p TerrainTagBlocksLOS"

definition marshalTerrain :: "terrain \<Rightarrow> (pos \<times> string list) list" where
  "marshalTerrain t =
     sort_key fst (map (\<lambda>(p, tags). (p, sort (map fst tags))) (case t of None \<Rightarrow> [] | Some m \<Rightarrow> m))"

definition unmarshalTerrain :: "(pos \<times> string list) list \<Rightarrow> terrain" where
  "unmarshalTerrain cells =
     Some (fold (\<lambda>(p, tags). mput p (fold (\<lambda>tag. mput tag True) tags [])) cells [])"

section \<open>Dice (\<open>combat.go\<close>)\<close>

definition dieInt :: "int \<Rightarrow> random \<Rightarrow> (int \<times> random) option" where
  "dieInt sides r = (case Die [sides] r of (VInt t v, r') \<Rightarrow> if t = ''int'' then Some (v, r') else None | _ \<Rightarrow> None)"

fun rollDice :: "nat \<Rightarrow> int \<Rightarrow> random \<Rightarrow> (int list \<times> random) option" where
  "rollDice 0 sides r = Some ([], r)"
| "rollDice (Suc n) sides r =
     (case dieInt sides r of
        None \<Rightarrow> None
      | Some (v, r) \<Rightarrow> map_option (\<lambda>(vs, r). (v # vs, r)) (rollDice n sides r))"

record dicePool =
  poolDice :: int
  poolSides :: int

definition RollPool :: "dicePool \<Rightarrow> random \<Rightarrow> (int list \<times> random) option" where
  "RollPool p r =
     (if poolDice p \<le> 0 then Some ([], r)
      else rollDice (nat (poolDice p)) (if poolSides p \<le> 0 then 6 else poolSides p) r)"

definition Successes :: "int list \<Rightarrow> int \<Rightarrow> int" where
  "Successes rolls target = int (length (filter (\<lambda>v. target \<le> v) rolls))"

definition inferSides :: "int list \<Rightarrow> int" where
  "inferSides rolls = fold (\<lambda>v m. if m < v then v else m) rolls 6"

fun rerollEach :: "int \<Rightarrow> int \<Rightarrow> int list \<Rightarrow> random \<Rightarrow> (int list \<times> random) option" where
  "rerollEach sides threshold [] r = Some ([], r)"
| "rerollEach sides threshold (v # vs) r =
     (case (if v < threshold then dieInt sides r else Some (v, r)) of
        None \<Rightarrow> None
      | Some (w, r) \<Rightarrow> map_option (\<lambda>(ws, r). (w # ws, r)) (rerollEach sides threshold vs r))"

definition RerollBelow :: "int list \<Rightarrow> int \<Rightarrow> random \<Rightarrow> (int list \<times> random) option" where
  "RerollBelow rolls threshold r = rerollEach (inferSides rolls) threshold rolls r"

record resolve =
  rsAttacks :: int
  rsHitOn :: int
  rsWoundOn :: int
  rsSaveOn :: int

record resolveResult =
  rrHits :: int
  rrWounds :: int
  rrUnsaved :: int

definition noResult :: resolveResult where
  "noResult = \<lparr>rrHits = 0, rrWounds = 0, rrUnsaved = 0\<rparr>"

definition d6 :: "int \<Rightarrow> dicePool" where
  "d6 n = \<lparr>poolDice = n, poolSides = 6\<rparr>"

definition RunResolve :: "resolve \<Rightarrow> random \<Rightarrow> (resolveResult \<times> random) option" where
  "RunResolve c r =
     (if rsAttacks c \<le> 0 then Some (noResult, r)
      else do {
        (hitRolls, r) \<leftarrow> RollPool (d6 (rsAttacks c)) r;
        let hits = Successes hitRolls (rsHitOn c);
        if hits = 0 then Some (noResult, r)
        else do {
          (woundRolls, r) \<leftarrow> RollPool (d6 hits) r;
          let wounds = Successes woundRolls (rsWoundOn c);
          if wounds = 0 then Some (noResult\<lparr>rrHits := hits\<rparr>, r)
          else do {
            (saveRolls, r) \<leftarrow> RollPool (d6 wounds) r;
            let unsaved = wounds - Successes saveRolls (rsSaveOn c);
            Some (\<lparr>rrHits = hits, rrWounds = wounds, rrUnsaved = (if unsaved < 0 then 0 else unsaved)\<rparr>, r)
          }
        }
      })"

section \<open>The index of cells\<close>

text \<open>
  The abstract state is the map from units to cells. The index, once built, lists under every cell
  exactly the units that stand there, each once.
\<close>

definition unitsAt :: "spatial \<Rightarrow> pos \<Rightarrow> unitID set" where
  "unitsAt s p = {u. PositionOf s u = Some p}"

definition indexes :: "(pos \<times> unitID list) list \<Rightarrow> (pos \<Rightarrow> unitID set) \<Rightarrow> bool" where
  "indexes m U \<longleftrightarrow> (\<forall>p. distinct (cellIn m p) \<and> set (cellIn m p) = U p)"

definition spatial_ok :: "spatial \<Rightarrow> bool" where
  "spatial_ok s \<longleftrightarrow> mwf (positionsOf s) \<and> (case byCell s of None \<Rightarrow> True | Some m \<Rightarrow> indexes m (unitsAt s))"

lemma indexesI: "(\<And>p. distinct (cellIn m p) \<and> set (cellIn m p) = U p) \<Longrightarrow> indexes m U"
  unfolding indexes_def by blast

lemma indexesD: "indexes m U \<Longrightarrow> distinct (cellIn m p) \<and> set (cellIn m p) = U p"
  unfolding indexes_def by blast

lemma PositionOf_positionsOf: "PositionOf s u = map_of (positionsOf s) u"
  by (cases "Positions s") (simp_all add: PositionOf_def positionsOf_def)

lemma cellIn_simps [simp]:
  "cellIn [] p = []"
  "cellIn (mput q us m) p = (if p = q then us else cellIn m p)"
  "cellIn (mdel q m) p = (if p = q then [] else cellIn m p)"
  by (simp_all add: cellIn_def)

lemma cellIn_indexOf_from:
  "cellIn (fold (\<lambda>(u, p) m. mput p (cellIn m p @ [u]) m) ps m) q = cellIn m q @ map fst (filter (\<lambda>(u, p). p = q) ps)"
  by (induction ps arbitrary: m) auto

lemma cellIn_indexOf: "cellIn (indexOf ps) q = map fst (filter (\<lambda>(u, p). p = q) ps)"
  by (simp add: indexOf_def cellIn_indexOf_from)

lemma indexOf_ok:
  assumes "mwf ps"
  shows "distinct (cellIn (indexOf ps) q)" "set (cellIn (indexOf ps) q) = {u. map_of ps u = Some q}"
proof -
  have d: "distinct (map fst ps)" using assms by (simp add: mwf_def)
  then show "distinct (cellIn (indexOf ps) q)" by (simp add: cellIn_indexOf distinct_map_filter)
  show "set (cellIn (indexOf ps) q) = {u. map_of ps u = Some q}"
    using d by (force simp: cellIn_indexOf map_of_eq_Some_iff)
qed

lemma ensureIndex_frame [simp]:
  "Positions (ensureIndex s) = Positions s" "positionsOf (ensureIndex s) = positionsOf s" "PositionOf (ensureIndex s) = PositionOf s"
  "byCell (ensureIndex s) = Some (theIndex (ensureIndex s))"
  by (auto simp: ensureIndex_def positionsOf_def PositionOf_def theIndex_def fun_eq_iff split: option.splits)

lemma unitsAt_ensureIndex [simp]: "unitsAt (ensureIndex s) = unitsAt s"
  by (simp add: unitsAt_def fun_eq_iff)

lemma spatial_ok_ensureIndex: "spatial_ok s \<Longrightarrow> spatial_ok (ensureIndex s)"
proof (cases "byCell s")
  case None
  assume "spatial_ok s"
  then have "mwf (positionsOf s)" by (simp add: spatial_ok_def)
  then have "indexes (indexOf (positionsOf s)) (unitsAt s)"
    by (intro indexesI) (simp add: indexOf_ok unitsAt_def PositionOf_positionsOf)
  moreover have "byCell (ensureIndex s) = Some (indexOf (positionsOf s))" using None by (simp add: ensureIndex_def)
  ultimately show ?thesis using \<open>mwf (positionsOf s)\<close> unfolding spatial_ok_def by simp
qed (simp add: ensureIndex_def)

lemma theIndex_ok:
  "spatial_ok s \<Longrightarrow> distinct (cellIn (theIndex (ensureIndex s)) p) \<and> set (cellIn (theIndex (ensureIndex s)) p) = unitsAt s p"
  using spatial_ok_ensureIndex [of s] by (auto simp: spatial_ok_def dest: indexesD)

text \<open>Taking a unit off its cell leaves the index of everybody else.\<close>

lemma removeFromCell_spec:
  assumes ok: "spatial_ok s" and u: "u \<in> unitsAt s p"
  shows "\<exists>m. removeFromCell p u s = (ensureIndex s)\<lparr>byCell := Some m\<rparr> \<and> indexes m (\<lambda>q. unitsAt s q - {u})"
proof -
  let ?m = "theIndex (ensureIndex s)"
  note i = theIndex_ok [OF ok]
  have "u \<in> set (cellIn ?m p)" using i [of p] u by simp
  then obtain j where j: "find_index (\<lambda>v. v = u) (cellIn ?m p) = Some j"
    by (cases "find_index (\<lambda>v. v = u) (cellIn ?m p)") (auto simp: find_index_None)
  then have at: "j < length (cellIn ?m p)" "cellIn ?m p ! j = u" using find_index_Some [OF j] by auto
  have r: "remove_at j (cellIn ?m p) = filter (\<lambda>x. x \<noteq> u) (cellIn ?m p)"
    using remove_at_distinct [OF _ at(1)] i [of p] at(2) by simp
  let ?r = "filter (\<lambda>x. x \<noteq> u) (cellIn ?m p)"
  let ?m' = "if ?r = [] then mdel p ?m else mput p ?r ?m"
  have "cellIn ?m' q = (if q = p then ?r else cellIn ?m q)" for q by auto
  moreover have "u \<notin> unitsAt s q" if "q \<noteq> p" for q using u that by (simp add: unitsAt_def)
  ultimately have "distinct (cellIn ?m' q) \<and> set (cellIn ?m' q) = unitsAt s q - {u}" for q
    using i [of q] i [of p] by auto
  moreover have "removeFromCell p u s = (ensureIndex s)\<lparr>byCell := Some ?m'\<rparr>"
    by (simp add: removeFromCell_def Let_def j r)
  ultimately show ?thesis by (blast intro: indexesI)
qed

lemma Place_spec:
  assumes ok: "spatial_ok s"
  shows "spatial_ok (Place u p s)" "PositionOf (Place u p s) = (PositionOf s)(u \<mapsto> p)"
proof -
  define s1 where "s1 = s\<lparr>Positions := Some (positionsOf s)\<rparr>"
  have s1: "positionsOf s1 = positionsOf s" "byCell s1 = byCell s" by (simp_all add: s1_def positionsOf_def)
  then have u1: "unitsAt s1 = unitsAt s" unfolding unitsAt_def by (intro ext) (simp add: PositionOf_positionsOf)
  have ok1: "spatial_ok s1" using ok by (cases "byCell s") (simp_all add: spatial_ok_def s1 u1)
  define s2 where "s2 = (case map_of (positionsOf s) u of None \<Rightarrow> s1 | Some old \<Rightarrow> removeFromCell old u s1)"
  have s2: "positionsOf s2 = positionsOf s \<and> (case byCell s2 of None \<Rightarrow> map_of (positionsOf s) u = None
      | Some m \<Rightarrow> indexes m (\<lambda>q. unitsAt s q - {u}))"
  proof (cases "map_of (positionsOf s) u")
    case None
    then have "u \<notin> unitsAt s q" for q by (simp add: unitsAt_def PositionOf_positionsOf)
    then have "(\<lambda>q. unitsAt s q - {u}) = unitsAt s" by (intro ext) simp
    then show ?thesis using None ok1 by (cases "byCell s") (simp_all add: s2_def s1 spatial_ok_def u1)
  next
    case (Some old)
    then have "u \<in> unitsAt s1 old" by (simp add: u1 unitsAt_def PositionOf_positionsOf)
    then obtain m where "removeFromCell old u s1 = (ensureIndex s1)\<lparr>byCell := Some m\<rparr>"
      "indexes m (\<lambda>q. unitsAt s1 q - {u})" using removeFromCell_spec [OF ok1] by blast
    then show ?thesis using Some by (simp add: s2_def u1 s1 positionsOf_def) (simp add: s1 [unfolded positionsOf_def])
  qed
  let ?s3 = "s2\<lparr>Positions := Some (mput u p (positionsOf s2))\<rparr>"
  have pl: "Place u p s = addToCell p u ?s3" by (simp add: Place_def Let_def s1_def [symmetric] s1 s2_def)
  have pos3: "positionsOf ?s3 = mput u p (positionsOf s)" using s2 by (simp add: positionsOf_def)
  have pos: "positionsOf (Place u p s) = mput u p (positionsOf s)"
    unfolding pl addToCell_def using pos3 by (auto simp: positionsOf_def split: option.split)
  then show P: "PositionOf (Place u p s) = (PositionOf s)(u \<mapsto> p)" by (simp add: PositionOf_positionsOf fun_eq_iff)
  have wf: "mwf (mput u p (positionsOf s))" using ok by (simp add: spatial_ok_def)
  show "spatial_ok (Place u p s)"
  proof (cases "byCell s2")
    case None
    then have "Place u p s = ensureIndex ?s3" by (simp add: pl addToCell_def)
    moreover have "spatial_ok ?s3" using None wf pos3 by (simp add: spatial_ok_def)
    ultimately show ?thesis by (simp add: spatial_ok_ensureIndex)
  next
    case (Some m)
    then have m: "byCell (Place u p s) = Some (mput p (cellIn m p @ [u]) m)" by (simp add: pl addToCell_def)
    have c: "distinct (cellIn m q) \<and> set (cellIn m q) = unitsAt s q - {u}" for q using s2 Some by (auto dest: indexesD)
    have "unitsAt (Place u p s) q = (if q = p then insert u (unitsAt s q) else unitsAt s q - {u})" for q
      by (auto simp: unitsAt_def P)
    then have "indexes (mput p (cellIn m p @ [u]) m) (unitsAt (Place u p s))"
      by (intro indexesI) (use c in auto)
    then show ?thesis using wf by (simp add: spatial_ok_def pos m)
  qed
qed

lemma RemoveUnit_spec:
  assumes ok: "spatial_ok s"
  shows "spatial_ok (RemoveUnit u s)" "PositionOf (RemoveUnit u s) = (PositionOf s)(u := None)"
proof (atomize (full), cases "map_of (positionsOf s) u")
  case None
  then show "spatial_ok (RemoveUnit u s) \<and> PositionOf (RemoveUnit u s) = (PositionOf s)(u := None)"
    using ok by (auto simp: RemoveUnit_def PositionOf_positionsOf fun_eq_iff)
next
  case (Some p)
  then have "u \<in> unitsAt s p" by (simp add: unitsAt_def PositionOf_positionsOf)
  then obtain m where m: "removeFromCell p u s = (ensureIndex s)\<lparr>byCell := Some m\<rparr>"
    "indexes m (\<lambda>q. unitsAt s q - {u})" using removeFromCell_spec [OF ok] by blast
  have r: "RemoveUnit u s = \<lparr>Positions = mdelo u (Positions s), byCell = Some m\<rparr>"
    using Some m(1) by (simp add: RemoveUnit_def Let_def)
  then have P: "PositionOf (RemoveUnit u s) = (PositionOf s)(u := None)" by (simp add: PositionOf_def fun_eq_iff)
  then have "unitsAt (RemoveUnit u s) = (\<lambda>q. unitsAt s q - {u})" unfolding unitsAt_def by (intro ext) auto
  moreover have "mwf (positionsOf (RemoveUnit u s))"
    using ok by (cases "Positions s") (simp_all add: r positionsOf_def mdelo_def spatial_ok_def)
  ultimately show "spatial_ok (RemoveUnit u s) \<and> PositionOf (RemoveUnit u s) = (PositionOf s)(u := None)"
    using m(2) P by (simp add: spatial_ok_def r)
qed

text \<open>What a game does with the units: place, move, remove, look, save and load.\<close>

inductive unit_step :: "spatial \<Rightarrow> spatial \<Rightarrow> bool" where
  place: "unit_step s (Place u p s)"
| move: "unit_step s (MoveUnit u p s)"
| remove: "unit_step s (RemoveUnit u s)"
| look: "unit_step s (snd (EntitiesAt p s))"
| reload: "unit_step s (unmarshalSpatial (marshalSpatial s))"

lemma reload_positions: "positionsOf (unmarshalSpatial (marshalSpatial s)) = positionsOf s"
  by (cases "Positions s") (auto simp: unmarshalSpatial_def marshalSpatial_def positionsOf_def)

lemma unit_step_ok: "unit_step s s' \<Longrightarrow> spatial_ok s \<Longrightarrow> spatial_ok s'"
proof (induction rule: unit_step.induct)
  case (look s p)
  then show ?case by (simp add: EntitiesAt_def Let_def spatial_ok_ensureIndex)
next
  case (reload s)
  then show ?case by (simp add: spatial_ok_def reload_positions) (simp add: unmarshalSpatial_def)
qed (auto simp: MoveUnit_def Place_spec RemoveUnit_spec)

lemma EntitiesAt_spec: "spatial_ok s \<Longrightarrow> fst (EntitiesAt p s) = sorted_list_of_set (unitsAt s p)"
  using theIndex_ok [of s p] sorted_list_of_set_sort_remdups [of "cellIn (theIndex (ensureIndex s)) p"]
  by (simp add: EntitiesAt_def Let_def distinct_remdups_id)

lemma EntitiesAt_frame: "spatial_ok s \<Longrightarrow> spatial_ok (snd (EntitiesAt p s))" "unitsAt (snd (EntitiesAt p s)) = unitsAt s"
  "PositionOf (snd (EntitiesAt p s)) = PositionOf s"
  by (simp_all add: EntitiesAt_def Let_def spatial_ok_ensureIndex)

lemma reachable_units_ok: "unit_step\<^sup>*\<^sup>* NewSpatial s \<Longrightarrow> spatial_ok s"
proof (induction rule: rtranclp_induct)
  case base
  show ?case by (simp add: spatial_ok_def NewSpatial_def positionsOf_def unitsAt_def PositionOf_def indexesI)
qed (auto intro: unit_step_ok)

lemma finite_unitsAt: "spatial_ok s \<Longrightarrow> finite (unitsAt s p)"
  using theIndex_ok [of s p] by (metis List.finite_set)

text \<open>
  C29. The lazy index never lies: however units were placed, moved and removed, and whenever the
  state was saved and loaded in between, EntitiesAt returns exactly the units whose position is
  the cell, each once and in ascending order, and does not change any position.
\<close>

theorem EntitiesAt_exact:
  assumes "unit_step\<^sup>*\<^sup>* NewSpatial s"
  shows "fst (EntitiesAt p s) = sorted_list_of_set {u. PositionOf s u = Some p} \<and>
    set (fst (EntitiesAt p s)) = {u. PositionOf s u = Some p} \<and> PositionOf (snd (EntitiesAt p s)) = PositionOf s"
proof -
  have ok: "spatial_ok s" by (rule reachable_units_ok) (rule assms)
  then show ?thesis using EntitiesAt_spec [OF ok, of p] EntitiesAt_frame(3) [of p s] by (simp add: unitsAt_def finite_unitsAt [OF ok, of p, unfolded unitsAt_def])
qed

theorem EntitiesAt_exact_witness:
  "let s = Place 7 (1, 1) (unmarshalSpatial (marshalSpatial (Place 9 (1, 1) (Place 7 (0, 0) NewSpatial)))) in
   unit_step\<^sup>*\<^sup>* NewSpatial s \<and> set (fst (EntitiesAt (1, 1) s)) = {u. PositionOf s u = Some (1, 1)} \<and>
   fst (EntitiesAt (1, 1) s) = [7, 9]"
proof -
  let ?s = "Place 7 (1, 1) (unmarshalSpatial (marshalSpatial (Place 9 (1, 1) (Place 7 (0, 0) NewSpatial))))"
  have r: "unit_step\<^sup>*\<^sup>* NewSpatial ?s"
  proof (rule rtranclp.rtrancl_into_rtrancl [where r = unit_step, OF _ unit_step.place [of _ 7 "(1, 1)"]])
    have "unit_step\<^sup>*\<^sup>* NewSpatial (Place 7 (0, 0) NewSpatial)" by (rule r_into_rtranclp, rule unit_step.place)
    then have "unit_step\<^sup>*\<^sup>* NewSpatial (Place 9 (1, 1) (Place 7 (0, 0) NewSpatial))"
      by (rule rtranclp.rtrancl_into_rtrancl) (rule unit_step.place)
    then show "unit_step\<^sup>*\<^sup>* NewSpatial (unmarshalSpatial (marshalSpatial (Place 9 (1, 1) (Place 7 (0, 0) NewSpatial))))"
      by (rule rtranclp.rtrancl_into_rtrancl) (rule unit_step.reload)
  qed

  have "fst (EntitiesAt (1, 1) ?s) = [7, 9]" by code_simp
  then show ?thesis using EntitiesAt_exact [OF r, of "(1, 1)"] r unfolding Let_def by blast
qed

lemma Within_exact:
  assumes ok: "spatial_ok s" and r: "0 \<le> radius"
  shows "set (Within b c radius s) = {u. \<exists>p. PositionOf s u = Some p \<and> Distance b c p \<le> radius}"
    "sorted (Within b c radius s)" "distinct (Within b c radius s)"
proof -
  have d: "distinct (map fst (positionsOf s))" using ok by (simp add: spatial_ok_def mwf_def)
  show "set (Within b c radius s) = {u. \<exists>p. PositionOf s u = Some p \<and> Distance b c p \<le> radius}"
    using r d by (force simp: Within_def PositionOf_positionsOf map_of_eq_Some_iff)
  show "distinct (Within b c radius s)" using d by (simp add: Within_def distinct_map_filter)
qed (simp add: Within_def)

section \<open>Terrain\<close>

text \<open>Maps as \<open>Tag\<close> builds them: no duplicate keys, no empty cell, no tag set to false.\<close>

definition tags_ok :: "(string \<times> bool) list \<Rightarrow> bool" where
  "tags_ok tags \<longleftrightarrow> mwf tags \<and> tags \<noteq> [] \<and> snd ` set tags \<subseteq> {True}"

definition terrain_ok :: "terrain \<Rightarrow> bool" where
  "terrain_ok t \<longleftrightarrow> (let m = (case t of None \<Rightarrow> [] | Some m \<Rightarrow> m) in
     mwf m \<and> (\<forall>e \<in> set m. tags_ok (snd e)))"

definition tagSet :: "terrain \<Rightarrow> pos \<Rightarrow> string set" where
  "tagSet t p = {tag. HasTag t p tag}"

lemma set_mputE: "e \<in> set (mput k v m) \<Longrightarrow> e = (k, v) \<or> e \<in> set m"
  unfolding mput_def by (induction m) (auto split: if_splits)

lemma set_mdel: "set (mdel k m) \<subseteq> set m"
  by (auto simp: mdel_def AList.delete_eq)

lemma mput_not_Nil: "mput k v m \<noteq> []"
proof
  assume "mput k v m = []"
  then have "map_of (mput k v m) k = None" by (simp only: map_of.simps)
  then show False by simp
qed

lemma tags_ok_put: "tags_ok tags \<or> tags = [] \<Longrightarrow> tags_ok (mput tag True tags)"
proof -
  assume a: "tags_ok tags \<or> tags = []"
  then have "mwf tags" "snd ` set tags \<subseteq> {True}" by (auto simp: tags_ok_def)
  then have "mwf (mput tag True tags)" "snd ` set (mput tag True tags) \<subseteq> {True}"
    using set_mputE [of _ tag True tags] by (blast, force)
  then show ?thesis by (simp add: tags_ok_def mput_not_Nil)
qed

lemma Tag_ok: "terrain_ok t \<Longrightarrow> terrain_ok (Tag p tag t)"
proof -
  assume ok: "terrain_ok t"
  define m where "m = (case t of None \<Rightarrow> [] | Some m \<Rightarrow> m)"
  define tags where "tags = (case map_of m p of None \<Rightarrow> [] | Some ts \<Rightarrow> ts)"
  have m: "mwf m" "\<And>e. e \<in> set m \<Longrightarrow> tags_ok (snd e)" using ok by (auto simp: terrain_ok_def m_def)
  have "tags_ok tags \<or> tags = []"
  proof (cases "map_of m p")
    case (Some ts)
    then show ?thesis using m(2) [OF map_of_SomeD [OF Some]] by (simp add: tags_def)
  qed (simp add: tags_def)
  then have "tags_ok (mput tag True tags)" by (rule tags_ok_put)
  moreover have "Tag p tag t = Some (mput p (mput tag True tags) m)" by (simp add: Tag_def m_def tags_def Let_def)
  ultimately show ?thesis using m by (auto simp: terrain_ok_def dest: set_mputE)
qed

lemma Untag_ok: "terrain_ok t \<Longrightarrow> terrain_ok (Untag p tag t)"
proof (cases "mget t p")
  case (Some tags)
  assume ok: "terrain_ok t"
  obtain m where t: "t = Some m" "map_of m p = Some tags" using Some by (cases t) auto
  have m: "mwf m" "\<And>e. e \<in> set m \<Longrightarrow> tags_ok (snd e)" using ok t by (auto simp: terrain_ok_def)
  then have "tags_ok tags" using m(2) [of "(p, tags)"] t(2) by (auto dest: map_of_SomeD)
  then have "mdel tag tags \<noteq> [] \<Longrightarrow> tags_ok (mdel tag tags)" using set_mdel [of tag tags] by (auto simp: tags_ok_def)
  then show ?thesis using m set_mdel [of p m] t
    by (auto simp: Untag_def Let_def terrain_ok_def mdelo_def mputo_def dest: set_mputE)
qed (simp add: Untag_def)


lemma HasTag_Tag: "HasTag (Tag p tag t) q k \<longleftrightarrow> (q = p \<and> k = tag) \<or> HasTag t q k"
  by (cases t) (auto simp: HasTag_def Tag_def Let_def split: option.splits)

lemma HasTag_Untag: "HasTag (Untag p tag t) q k \<longleftrightarrow> \<not> (q = p \<and> k = tag) \<and> HasTag t q k"
proof (cases "mget t p")
  case (Some tags)
  have "map_of tags k = None" if "mdel tag tags = []" "k \<noteq> tag"
  proof -
    have "map_of (mdel tag tags) k = None" unfolding that(1) by simp
    then show ?thesis using that(2) by simp
  qed
  then show ?thesis using Some by (auto simp: HasTag_def Untag_def Let_def split: option.splits)
qed (auto simp: HasTag_def Untag_def split: option.splits)

lemma tags_ok_lookup: "tags_ok tags \<Longrightarrow> (case map_of tags tag of None \<Rightarrow> False | Some b \<Rightarrow> b) \<longleftrightarrow> tag \<in> fst ` set tags"
proof (cases "map_of tags tag")
  case (Some b)
  assume "tags_ok tags"
  moreover have "(tag, b) \<in> set tags" using Some by (rule map_of_SomeD)
  ultimately show ?thesis using Some by (force simp: tags_ok_def)
next
  case None
  then have "tag \<notin> fst ` set tags" by (simp add: map_of_eq_None_iff)
  then show ?thesis unfolding None option.case by simp
qed

lemma HasTag_keys:
  assumes "terrain_ok t" "mget t p = Some tags"
  shows "tagSet t p = fst ` set tags" "tags_ok tags"
proof -
  obtain m where m: "t = Some m" "map_of m p = Some tags" using assms(2) by (cases t) auto
  show ok: "tags_ok tags" using assms(1) m map_of_SomeD [OF m(2)] by (auto simp: terrain_ok_def)
  show "tagSet t p = fst ` set tags" by (auto simp: tagSet_def HasTag_def assms(2) tags_ok_lookup [OF ok])
qed

text \<open>The wire form in terms of the sets of tags: one entry per tagged cell, with its tags sorted.\<close>

lemma sort_keys_set: "tags_ok tags \<Longrightarrow> sort (map fst tags) = sorted_list_of_set (fst ` set tags)"
  using sorted_list_of_set_sort_remdups [of "map fst tags"] by (simp add: tags_ok_def mwf_def distinct_remdups_id)

lemma marshalTerrain_cells:
  assumes ok: "terrain_ok t"
  defines "m \<equiv> (case t of None \<Rightarrow> [] | Some m \<Rightarrow> m)"
  defines "cells \<equiv> map (\<lambda>(p, tags). (p, sort (map fst tags))) m"
  shows "distinct (map fst cells)" "set cells = {(p, sorted_list_of_set (tagSet t p)) | p. tagSet t p \<noteq> {}}"
proof -
  have m: "mwf m" "\<And>e. e \<in> set m \<Longrightarrow> tags_ok (snd e)" "\<And>p. mget t p = map_of m p"
    using ok by (cases t; auto simp: terrain_ok_def m_def)+
  have fst_cells: "map fst cells = map fst m" by (simp add: cells_def split_def)
  then show "distinct (map fst cells)" using m(1) by (simp add: mwf_def)
  have entry: "sort (map fst tags) = sorted_list_of_set (tagSet t p) \<and> tagSet t p \<noteq> {}" if "map_of m p = Some tags" for p tags
    using HasTag_keys [OF ok, of p tags] that m(3) sort_keys_set by (auto simp: tags_ok_def)
  have "e \<in> set cells \<longleftrightarrow> (\<exists>p tags. map_of m p = Some tags \<and> e = (p, sort (map fst tags)))" for e
    using m(1) by (force simp: cells_def mwf_def map_of_eq_Some_iff)
  moreover have "\<exists>tags. map_of m p = Some tags" if "tagSet t p \<noteq> {}" for p
    using that m(3) by (auto simp: tagSet_def HasTag_def split: option.splits)
  ultimately show "set cells = {(p, sorted_list_of_set (tagSet t p)) | p. tagSet t p \<noteq> {}}"
    using entry by (intro set_eqI) (smt (verit, best) mem_Collect_eq)
qed

lemma marshalTerrain_unique:
  assumes "terrain_ok t" "terrain_ok t'" "tagSet t = tagSet t'"
  shows "marshalTerrain t = marshalTerrain t'"
proof -
  let ?c = "\<lambda>t. map (\<lambda>(p, tags). (p, sort (map fst tags))) (case t of None \<Rightarrow> [] | Some m \<Rightarrow> m)"
  note c = marshalTerrain_cells [OF assms(1)] marshalTerrain_cells [OF assms(2)]
  have "set (?c t) = set (?c t')" unfolding c assms(3) ..
  moreover have "distinct (?c t)" "distinct (?c t')" using c(1,3) by (simp_all only: distinct_map)
  ultimately have ms: "mset (?c t) = mset (?c t')" by (rule iffD1 [OF set_eq_iff_mset_eq_distinct, rotated 2])
  have i: "inj_on fst (set (?c t))" using c(1) by (simp only: distinct_map)
  have "mset (?c t) = mset (sort_key fst (?c t'))" by (simp only: ms mset_sort)
  from sort_key_inj_key_eq [OF this i sorted_sort_key] have "sort_key fst (?c t) = sort_key fst (?c t')" .
  then show ?thesis by (simp only: marshalTerrain_def)
qed

lemma fold_mput_map_of:
  "distinct (map fst cells) \<Longrightarrow>
   map_of (fold (\<lambda>(p, tags). mput p (f tags)) cells m) q = (case map_of cells q of Some tags \<Rightarrow> Some (f tags) | None \<Rightarrow> map_of m q)"
proof (induction cells arbitrary: m)
  case (Cons c cells)
  obtain p tags where c: "c = (p, tags)" by (cases c)
  have "map_of cells p = None" using Cons.prems by (auto simp: c map_of_eq_None_iff)
  then show ?case using Cons.IH [of "mput p (f tags) m"] Cons.prems by (cases "q = p"; cases "map_of cells q") (simp_all add: c)
qed simp

lemma HasTag_unmarshal:
  assumes "distinct (map fst cells)"
  shows "HasTag (unmarshalTerrain cells) p tag \<longleftrightarrow> (\<exists>tags. (p, tags) \<in> set cells \<and> tag \<in> set tags)"
proof -
  have "map_of (fold (\<lambda>tag. mput tag True) tags []) tag = (if tag \<in> set tags then Some True else None)" for tags :: "string list"
    using gomap.get_fold_put [of "\<lambda>_. True" tags "[]" tag] by simp
  then have "HasTag (unmarshalTerrain cells) p tag \<longleftrightarrow> (\<exists>tags. map_of cells p = Some tags \<and> tag \<in> set tags)"
    using assms by (cases "map_of cells p") (simp_all add: HasTag_def unmarshalTerrain_def fold_mput_map_of)
  then show ?thesis using assms by (simp add: map_of_eq_Some_iff)
qed

text \<open>
  Terrain survives the wire, and its wire form is canonical: a terrain map built by tagging
  decodes from its encoding to a map with exactly the same tags on every cell, and two maps with
  the same tags have the same encoding, in whatever order they were built.
\<close>

theorem terrain_wire_roundtrip:
  assumes ok: "terrain_ok t"
  shows "HasTag (unmarshalTerrain (marshalTerrain t)) p tag = HasTag t p tag \<and>
    (\<forall>t'. terrain_ok t' \<and> HasTag t' = HasTag t \<longrightarrow> marshalTerrain t' = marshalTerrain t)"
proof
  let ?c = "map (\<lambda>(p, tags). (p, sort (map fst tags))) (case t of None \<Rightarrow> [] | Some m \<Rightarrow> m)"
  note c = marshalTerrain_cells [OF ok]
  have "distinct ?c" "inj_on fst (set ?c)" using c(1) by (simp_all only: distinct_map)
  then have "distinct (map fst (sort_key fst ?c))" by (simp only: distinct_map distinct_sort set_sort)
  then have "HasTag (unmarshalTerrain (marshalTerrain t)) p tag \<longleftrightarrow> (\<exists>tags. (p, tags) \<in> set ?c \<and> tag \<in> set tags)"
    using HasTag_unmarshal by (simp add: marshalTerrain_def)
  also have "\<dots> \<longleftrightarrow> tag \<in> tagSet t p"
  proof -
    have "finite (tagSet t p)" using HasTag_keys [OF ok, of p] by (cases "mget t p") (auto simp: tagSet_def HasTag_def)
    moreover have "(\<exists>tags. (p, tags) \<in> set ?c \<and> tag \<in> set tags) \<longleftrightarrow> tagSet t p \<noteq> {} \<and> tag \<in> set (sorted_list_of_set (tagSet t p))"
      unfolding c(2) by blast
    ultimately show ?thesis by auto
  qed
  finally show "HasTag (unmarshalTerrain (marshalTerrain t)) p tag = HasTag t p tag" by (simp add: tagSet_def)
  show "\<forall>t'. terrain_ok t' \<and> HasTag t' = HasTag t \<longrightarrow> marshalTerrain t' = marshalTerrain t"
    using marshalTerrain_unique [OF _ ok] by (metis ext tagSet_def)
qed

theorem terrain_wire_roundtrip_witness:
  "let t = Tag (1, 2) ''cover'' (Tag (0, 3) ''blocks_los'' (Tag (1, 2) ''difficult'' NewTerrainMap)) in
   terrain_ok t \<and> HasTag (unmarshalTerrain (marshalTerrain t)) (1, 2) ''cover'' \<and>
   marshalTerrain t = [((0, 3), [''blocks_los'']), ((1, 2), [''cover'', ''difficult''])]"
proof -
  let ?t = "Tag (1, 2) ''cover'' (Tag (0, 3) ''blocks_los'' (Tag (1, 2) ''difficult'' NewTerrainMap))"
  have ok: "terrain_ok ?t" by (intro Tag_ok) (simp add: terrain_ok_def NewTerrainMap_def)
  have "HasTag ?t (1, 2) ''cover''" by (simp add: HasTag_Tag)
  moreover have "marshalTerrain ?t = [((0, 3), [''blocks_los'']), ((1, 2), [''cover'', ''difficult''])]" by code_simp
  ultimately show ?thesis using terrain_wire_roundtrip [OF ok, of "(1, 2)" "''cover''"] ok unfolding Let_def by blast
qed

section \<open>Dice\<close>

lemma dieInt_range:
  assumes "rnMockDie r = None" "1 \<le> sides" "sides < 2 ^ 63"
  obtains v r' where "dieInt sides r = Some (v, r')" "1 \<le> v" "v \<le> sides" "rnMockDie r' = None"
proof -
  have "rnMockDie (snd (die sides r)) = None" using assms(1) by (simp add: die_def next_u64_def Let_def split_beta)
  moreover have "dieInt sides r = Some (die sides r)"
    using assms by (simp add: dieInt_def Die_def Let_def split: prod.split)
  ultimately show thesis using that [of "fst (die sides r)" "snd (die sides r)"] die_range [OF assms(2,3), of r] by simp
qed

lemma rollDice_range:
  "rnMockDie r = None \<Longrightarrow> 1 \<le> sides \<Longrightarrow> sides < 2 ^ 63 \<Longrightarrow>
   \<exists>vs r'. rollDice n sides r = Some (vs, r') \<and> length vs = n \<and> set vs \<subseteq> {1..sides} \<and> rnMockDie r' = None"
proof (induction n arbitrary: r)
  case (Suc n)
  obtain v r1 where v: "dieInt sides r = Some (v, r1)" "1 \<le> v" "v \<le> sides" "rnMockDie r1 = None"
    by (rule dieInt_range [OF Suc.prems])
  obtain vs r2 where "rollDice n sides r1 = Some (vs, r2)" "length vs = n" "set vs \<subseteq> {1..sides}" "rnMockDie r2 = None"
    using Suc.IH [OF v(4) Suc.prems(2,3)] by blast
  then show ?case using v by simp
qed simp

lemma RollPool_d6:
  assumes "rnMockDie r = None" "0 \<le> n"
  obtains vs r' where "RollPool (d6 n) r = Some (vs, r')" "int (length vs) = n" "set vs \<subseteq> {1..6}" "rnMockDie r' = None"
  using rollDice_range [OF assms(1), of 6 "nat n"] assms(2) that by (cases "n = 0") (fastforce simp: RollPool_def d6_def assms(1))+

lemma Successes_bounds: "0 \<le> Successes vs t \<and> Successes vs t \<le> int (length vs)"
  by (simp add: Successes_def)

lemma Successes_all: "set vs \<subseteq> {1..6} \<Longrightarrow> t \<le> 1 \<Longrightarrow> Successes vs t = int (length vs)"
proof -
  assume "set vs \<subseteq> {1..6}" "t \<le> 1"
  then have "filter (\<lambda>v. t \<le> v) vs = vs" by (auto simp: filter_id_conv)
  then show ?thesis by (simp add: Successes_def)
qed

lemma Successes_none: "set vs \<subseteq> {1..6} \<Longrightarrow> 7 \<le> t \<Longrightarrow> Successes vs t = 0"
  by (auto simp: Successes_def filter_empty_conv)

text \<open>
  A combat resolves within its bounds: with unmocked dice Run always returns, no more attacks
  hit than were made, no more wound than hit, and no more go unsaved than wounded; a stage with
  target 1 or less always succeeds and one with target 7 or more never does, so a hit on 1, a
  wound on 1 and an impossible save make every attack go through.
\<close>

theorem RunResolve_bounds:
  assumes r: "rnMockDie r = None" and a: "0 \<le> rsAttacks c"
  shows "\<exists>res r'. RunResolve c r = Some (res, r') \<and> 0 \<le> rrUnsaved res \<and> rrUnsaved res \<le> rrWounds res \<and>
    rrWounds res \<le> rrHits res \<and> rrHits res \<le> rsAttacks c \<and>
    (rsHitOn c \<le> 1 \<longrightarrow> rrHits res = rsAttacks c) \<and> (7 \<le> rsHitOn c \<longrightarrow> rrHits res = 0) \<and>
    (rsWoundOn c \<le> 1 \<longrightarrow> rrWounds res = rrHits res) \<and> (7 \<le> rsWoundOn c \<longrightarrow> rrWounds res = 0) \<and>
    (rsSaveOn c \<le> 1 \<longrightarrow> rrUnsaved res = 0) \<and> (7 \<le> rsSaveOn c \<longrightarrow> rrUnsaved res = rrWounds res)"
proof (cases "rsAttacks c = 0")
  case True
  then show ?thesis by (simp add: RunResolve_def noResult_def)
next
  case False
  obtain hs r1 where h: "RollPool (d6 (rsAttacks c)) r = Some (hs, r1)" "int (length hs) = rsAttacks c" "set hs \<subseteq> {1..6}" "rnMockDie r1 = None"
    by (rule RollPool_d6 [OF r a])
  define hits where "hits = Successes hs (rsHitOn c)"
  have hb: "0 \<le> hits" "hits \<le> rsAttacks c" using Successes_bounds [of hs] h(2) by (simp_all add: hits_def)
  have ha: "rsHitOn c \<le> 1 \<longrightarrow> hits = rsAttacks c" "7 \<le> rsHitOn c \<longrightarrow> hits = 0"
    using Successes_all [OF h(3)] Successes_none [OF h(3)] h(2) by (auto simp: hits_def)
  obtain ws r2 where w: "RollPool (d6 hits) r1 = Some (ws, r2)" "int (length ws) = hits" "set ws \<subseteq> {1..6}" "rnMockDie r2 = None"
    by (rule RollPool_d6 [OF h(4) hb(1)])
  define wounds where "wounds = Successes ws (rsWoundOn c)"
  have wb: "0 \<le> wounds" "wounds \<le> hits" using Successes_bounds [of ws] w(2) by (simp_all add: wounds_def)
  have wa: "rsWoundOn c \<le> 1 \<longrightarrow> wounds = hits" "7 \<le> rsWoundOn c \<longrightarrow> wounds = 0"
    using Successes_all [OF w(3)] Successes_none [OF w(3)] w(2) by (auto simp: wounds_def)
  obtain ss r3 where s: "RollPool (d6 wounds) r2 = Some (ss, r3)" "int (length ss) = wounds" "set ss \<subseteq> {1..6}"
    by (rule RollPool_d6 [OF w(4) wb(1)])
  define saves where "saves = Successes ss (rsSaveOn c)"
  have sb: "0 \<le> saves" "saves \<le> wounds" using Successes_bounds [of ss] s(2) by (simp_all add: saves_def)
  have sa: "rsSaveOn c \<le> 1 \<longrightarrow> saves = wounds" "7 \<le> rsSaveOn c \<longrightarrow> saves = 0"
    using Successes_all [OF s(3)] Successes_none [OF s(3)] s(2) by (auto simp: saves_def)
  have run: "RunResolve c r = (if hits = 0 then Some (noResult, r1) else if wounds = 0 then Some (noResult\<lparr>rrHits := hits\<rparr>, r2)
      else Some (\<lparr>rrHits = hits, rrWounds = wounds, rrUnsaved = wounds - saves\<rparr>, r3))"
    using False a h(1) w(1) s(1) sb
    by (simp add: RunResolve_def Let_def hits_def [symmetric] wounds_def [symmetric] saves_def [symmetric])
  consider "hits = 0" | "hits \<noteq> 0" "wounds = 0" | "hits \<noteq> 0" "wounds \<noteq> 0" by blast
  then show ?thesis by cases (use run ha wa sa hb wb sb in \<open>auto simp: noResult_def\<close>)
qed

theorem RunResolve_bounds_witness:
  "let c = \<lparr>rsAttacks = 3, rsHitOn = 1, rsWoundOn = 1, rsSaveOn = 7\<rparr> in
   \<exists>res r'. RunResolve c (NewRandomFromState 7) = Some (res, r') \<and> rrUnsaved res = 3"
  unfolding Let_def
  using RunResolve_bounds [of "NewRandomFromState 7" "\<lparr>rsAttacks = 3, rsHitOn = 1, rsWoundOn = 1, rsSaveOn = 7\<rparr>"]
  by (auto simp: NewRandomFromState_def)

lemma RerollBelow_keeps: "rerollEach sides t vs r = Some (ws, r') \<Longrightarrow> length ws = length vs \<and> (\<forall>i < length vs. t \<le> vs ! i \<longrightarrow> ws ! i = vs ! i)"
proof (induction vs arbitrary: r ws r')
  case (Cons v vs)
  then obtain w r1 ws' where "(if v < t then dieInt sides r else Some (v, r)) = Some (w, r1)"
    "rerollEach sides t vs r1 = Some (ws', r')" "ws = w # ws'"
    by (auto split: option.splits)
  then show ?case using Cons.IH by (fastforce simp: less_Suc_eq_0_disj split: if_splits)
qed simp

end
