(* ===== verification/Regions.thy ===== *)
theory Regions
  imports TabletopUnits CcgState
begin

text \<open>
  Area control (\<open>modules/tabletop/regions\<close>): the partition of a board into named regions and the
  influence of each player (regions.go), and the scoring rules (scoring.go). The owner of a unit
  and a custom tie break are the game's: parameters.
\<close>

section \<open>Regions (\<open>regions.go\<close>)\<close>

record region =
  rgID :: string
  rgCells :: "pos list"
  rgLabel :: string

record regionMap =
  mapRegions :: "region list"
  cellToRegion :: "(pos \<times> string) list option"

datatype regionError = ErrEmptyID | ErrDuplicateID | ErrOverlap

fun claimCells :: "string \<Rightarrow> pos list \<Rightarrow> (pos \<times> string) list \<Rightarrow> (pos \<times> string) list option" where
  "claimCells rid [] cells = Some cells"
| "claimCells rid (p # ps) cells =
     (case map_of cells p of Some _ \<Rightarrow> None | None \<Rightarrow> claimCells rid ps (mput p rid cells))"

fun addRegions :: "string list \<Rightarrow> (pos \<times> string) list \<Rightarrow> region list \<Rightarrow> region list \<Rightarrow> regionError + regionMap" where
  "addRegions seen cells out [] = Inr \<lparr>mapRegions = out, cellToRegion = Some cells\<rparr>"
| "addRegions seen cells out (r # rs) =
     (if rgID r = '''' then Inl ErrEmptyID
      else if rgID r \<in> set seen then Inl ErrDuplicateID
      else case claimCells (rgID r) (rgCells r) cells of
        None \<Rightarrow> Inl ErrOverlap
      | Some cells \<Rightarrow>
          addRegions (rgID r # seen) cells (out @ [\<lparr>rgID = rgID r, rgCells = rgCells r, rgLabel = rgLabel r\<rparr>]) rs)"

definition NewMap :: "region list \<Rightarrow> regionError + regionMap" where
  "NewMap rs = addRegions [] [] [] rs"

definition buildIndex :: "regionMap \<Rightarrow> regionMap" where
  "buildIndex m =
     m\<lparr>cellToRegion := Some (fold (\<lambda>r. fold (\<lambda>p. mput p (rgID r)) (rgCells r)) (mapRegions m) [])\<rparr>"

definition Of :: "pos \<Rightarrow> regionMap \<Rightarrow> string option \<times> regionMap" where
  "Of p m = (let m = (if cellToRegion m = None then buildIndex m else m) in (mget (cellToRegion m) p, m))"

definition CellsOf :: "string \<Rightarrow> regionMap \<Rightarrow> pos list" where
  "CellsOf rid m = (case find (\<lambda>r. rgID r = rid) (mapRegions m) of Some r \<Rightarrow> rgCells r | None \<Rightarrow> [])"

type_synonym ownerFn = "unitID \<Rightarrow> string"

definition tallyOf :: "(string \<times> int) list \<Rightarrow> string \<Rightarrow> int" where
  "tallyOf m pid = (case map_of m pid of None \<Rightarrow> 0 | Some n \<Rightarrow> n)"

definition countUnits :: "ownerFn \<Rightarrow> unitID list \<Rightarrow> (string \<times> int) list \<Rightarrow> (string \<times> int) list" where
  "countUnits owner us inner =
     fold (\<lambda>u inner. if owner u = '''' then inner else mput (owner u) (tallyOf inner (owner u) + 1) inner) us inner"

fun countCells :: "ownerFn \<Rightarrow> pos list \<Rightarrow> (string \<times> int) list \<Rightarrow> spatial \<Rightarrow> (string \<times> int) list \<times> spatial" where
  "countCells owner [] inner s = (inner, s)"
| "countCells owner (p # ps) inner s =
     (let (us, s) = EntitiesAt p s in countCells owner ps (countUnits owner us inner) s)"

fun influenceOf :: "ownerFn \<Rightarrow> region list \<Rightarrow> (string \<times> (string \<times> int) list) list \<Rightarrow> spatial
    \<Rightarrow> (string \<times> (string \<times> int) list) list \<times> spatial" where
  "influenceOf owner [] out s = (out, s)"
| "influenceOf owner (r # rs) out s =
     (let (inner, s) = countCells owner (rgCells r) [] s in influenceOf owner rs (mput (rgID r) inner out) s)"

definition Influence :: "regionMap \<Rightarrow> ownerFn \<Rightarrow> spatial \<Rightarrow> (string \<times> (string \<times> int) list) list \<times> spatial" where
  "Influence m owner s = influenceOf owner (mapRegions m) [] s"

definition ByCCGOwner :: "'k ccg \<Rightarrow> ownerFn" where
  "ByCCGOwner cs u = (case map_of (Entities cs) u of None \<Rightarrow> '''' | Some e \<Rightarrow> AttrStr e ''owner'' '''')"

section \<open>Scoring (\<open>scoring.go\<close>)\<close>

datatype scoringKind = Plurality | TopN | Threshold | OtherKind int

datatype tieBreak = Split | NoAward | BothAward | Custom | OtherTie int

text \<open>A custom tie break is given the influence and the rule it belongs to.\<close>

record scoringRule =
  srKind :: scoringKind
  srPerPlace :: "int list"
  srThreshold :: int
  srPayout :: int
  srTieBreak :: tieBreak
  srCustomTie :: "((string \<times> int) list \<Rightarrow> (string \<times> int) list) option"

definition share :: "int \<Rightarrow> nat \<Rightarrow> int" where
  "share pot n = (if 0 \<le> pot then pot div int n else - ((- pot) div int n))"

definition rankedGroups :: "(string \<times> int) list \<Rightarrow> string list list" where
  "rankedGroups infl =
     map (\<lambda>v. sort (map fst (filter (\<lambda>(p, n). n = v) infl))) (rev (sort (remdups (map snd infl))))"

definition award :: "int \<Rightarrow> string list \<Rightarrow> (string \<times> int) list \<Rightarrow> (string \<times> int) list" where
  "award pts tied result = fold (\<lambda>pid. mput pid pts) tied result"

definition zeroes :: "(string \<times> int) list \<Rightarrow> (string \<times> int) list" where
  "zeroes infl = fold (\<lambda>(pid, _). mput pid 0) infl []"

definition scorePlurality :: "(string \<times> int) list \<Rightarrow> scoringRule \<Rightarrow> (string \<times> int) list" where
  "scorePlurality infl rule =
     (if infl = [] then []
      else (let groups = rankedGroups infl; result = zeroes infl
            in if groups = [] \<or> srPerPlace rule = [] then result
               else (let pts = hd (srPerPlace rule); top = hd groups
                     in if length top = 1 then award pts top result
                        else case srTieBreak rule of
                          Split \<Rightarrow> award (share pts (length top)) top result
                        | BothAward \<Rightarrow> award pts top result
                        | _ \<Rightarrow> result)))"

text \<open>The places a tied tied spans, as far as points are given for them.\<close>

definition pot :: "int list \<Rightarrow> nat \<Rightarrow> nat \<Rightarrow> int" where
  "pot points place n = fold (\<lambda>p acc. wrap64 (acc + p)) (take n (drop place points)) 0"

fun scorePlaces :: "scoringRule \<Rightarrow> nat \<Rightarrow> string list list \<Rightarrow> (string \<times> int) list \<Rightarrow> (string \<times> int) list" where
  "scorePlaces rule place [] result = result"
| "scorePlaces rule place (tied # groups) result =
     (if length (srPerPlace rule) \<le> place then result
      else if length tied = 1 then
        scorePlaces rule (place + 1) groups (award (srPerPlace rule ! place) tied result)
      else case srTieBreak rule of
        Split \<Rightarrow> scorePlaces rule (place + length tied) groups
                   (award (share (pot (srPerPlace rule) place (length tied)) (length tied)) tied result)
      | NoAward \<Rightarrow> scorePlaces rule (place + length tied) groups result
      | BothAward \<Rightarrow> scorePlaces rule (place + 1) groups (award (srPerPlace rule ! place) tied result)
      | _ \<Rightarrow> scorePlaces rule place groups result)"

definition scoreTopN :: "(string \<times> int) list \<Rightarrow> scoringRule \<Rightarrow> (string \<times> int) list" where
  "scoreTopN infl rule =
     (if srPerPlace rule = [] then zeroes infl
      else scorePlaces rule 0 (rankedGroups infl) (zeroes infl))"

definition scoreThreshold :: "(string \<times> int) list \<Rightarrow> scoringRule \<Rightarrow> (string \<times> int) list" where
  "scoreThreshold infl rule =
     fold (\<lambda>(pid, v). mput pid (if srThreshold rule \<le> v then srPayout rule else 0)) infl []"

definition ScoreRegion :: "(string \<times> int) list \<Rightarrow> scoringRule \<Rightarrow> (string \<times> int) list" where
  "ScoreRegion infl rule =
     (case (srTieBreak rule, srCustomTie rule) of
        (Custom, Some f) \<Rightarrow> f infl
      | _ \<Rightarrow> (case srKind rule of
                Plurality \<Rightarrow> scorePlurality infl rule
              | TopN \<Rightarrow> scoreTopN infl rule
              | Threshold \<Rightarrow> scoreThreshold infl rule
              | OtherKind _ \<Rightarrow> []))"

definition addScores :: "(string \<times> int) list \<Rightarrow> (string \<times> int) list \<Rightarrow> (string \<times> int) list" where
  "addScores per totals = fold (\<lambda>(pid, pts) totals. mput pid (wrap64 (tallyOf totals pid + pts)) totals) per totals"

definition ScoreAll :: "regionMap \<Rightarrow> ownerFn \<Rightarrow> scoringRule \<Rightarrow> spatial \<Rightarrow> (string \<times> int) list \<times> spatial" where
  "ScoreAll m owner rule s =
     (let (infl, s) = Influence m owner s
      in (fold (\<lambda>r. addScores (ScoreRegion (case map_of infl (rgID r) of Some i \<Rightarrow> i | None \<Rightarrow> []) rule)) (mapRegions m) [], s))"

section \<open>Lemmas\<close>

lemma claimCells_spec:
  "claimCells rid ps cells = (if distinct ps \<and> (\<forall>p\<in>set ps. map_of cells p = None)
     then Some (fold (\<lambda>p. mput p rid) ps cells) else None)"
  by (induction ps arbitrary: cells) (auto split: option.splits)

definition cellsClaimed :: "region list \<Rightarrow> (pos \<times> string) list \<Rightarrow> (pos \<times> string) list" where
  "cellsClaimed rs cells = fold (\<lambda>r. fold (\<lambda>p. mput p (rgID r)) (rgCells r)) rs cells"

definition partition_ok :: "region list \<Rightarrow> bool" where
  "partition_ok rs \<longleftrightarrow> (\<forall>r\<in>set rs. rgID r \<noteq> '''') \<and> distinct (map rgID rs) \<and> distinct (concat (map rgCells rs))"

lemma map_of_cellsClaimed:
  "distinct (concat (map rgCells rs)) \<Longrightarrow>
   map_of (cellsClaimed rs cells) p =
     (case find (\<lambda>r. p \<in> set (rgCells r)) rs of Some r \<Rightarrow> Some (rgID r) | None \<Rightarrow> map_of cells p)"
proof (induction rs arbitrary: cells)
  case (Cons r rs)
  then have "p \<in> set (rgCells r) \<Longrightarrow> find (\<lambda>r. p \<in> set (rgCells r)) rs = None"
    by (auto simp: find_None_iff)
  with Cons show ?case
    by (auto simp: cellsClaimed_def gomap.get_fold_put [where f = "\<lambda>_. rgID r"] split: option.splits)
qed (simp add: cellsClaimed_def)

lemma map_of_fold_mput_None:
  "map_of (fold (\<lambda>p. mput p v) ps cells) q = None \<longleftrightarrow> q \<notin> set ps \<and> map_of cells q = None"
  by (simp add: gomap.get_fold_put [where f = "\<lambda>_. v"])

lemma addRegions_accepts:
  "(\<exists>m. addRegions seen cells out rs = Inr m) \<longleftrightarrow>
   partition_ok rs \<and> (\<forall>r\<in>set rs. rgID r \<notin> set seen) \<and> (\<forall>r\<in>set rs. \<forall>p\<in>set (rgCells r). map_of cells p = None)"
proof (induction rs arbitrary: seen cells out)
  case (Cons r rs)
  show ?case
    by (auto simp: Cons claimCells_spec partition_ok_def map_of_fold_mput_None) (metis imageI)
qed (simp add: partition_ok_def)

lemma addRegions_result:
  "addRegions seen cells out rs = Inr m \<Longrightarrow> mapRegions m = out @ rs \<and> cellToRegion m = Some (cellsClaimed rs cells)"
proof (induction rs arbitrary: seen cells out)
  case (Cons r rs)
  then show ?case by (fastforce simp: claimCells_spec cellsClaimed_def split: if_splits)
qed (auto simp: cellsClaimed_def)

lemma NewMap_Inr:
  assumes "NewMap rs = Inr m"
  shows "mapRegions m = rs" "partition_ok rs" "cellToRegion m = Some (cellsClaimed rs [])"
  using addRegions_result [of "[]" "[]" "[]" rs m] addRegions_accepts [of "[]" "[]" "[]" rs] assms
  by (auto simp: NewMap_def)

lemma find_region_iff:
  assumes d: "distinct (map rgID rs)" "distinct (concat (map rgCells rs))"
  shows "(\<exists>r. find (\<lambda>r. p \<in> set (rgCells r)) rs = Some r \<and> rgID r = rid) \<longleftrightarrow>
    (\<exists>r\<in>set rs. rgID r = rid \<and> p \<in> set (rgCells r))"
  using d by (induction rs) auto

lemma Of_NewMap:
  assumes "NewMap rs = Inr m"
  shows "fst (Of p m) = Some rid \<longleftrightarrow> (\<exists>r\<in>set rs. rgID r = rid \<and> p \<in> set (rgCells r))"
    "fst (Of p (m\<lparr>cellToRegion := None\<rparr>)) = fst (Of p m)"
  using NewMap_Inr [OF assms] find_region_iff [of rs p rid]
  by (auto simp: Of_def Let_def buildIndex_def cellsClaimed_def [symmetric] partition_ok_def map_of_cellsClaimed
      split: option.splits)

text \<open>
  NewMap accepts exactly the partitions: names that are not empty and differ, and no cell
  listed twice. Of the accepted map, Of answers a region for a cell exactly when the region
  lists it, also after a round trip through JSON, which drops the index; and Cells returns the
  cells of each region as given.
\<close>

theorem NewMap_exact:
  "((\<exists>m. NewMap rs = Inr m) \<longleftrightarrow>
     (\<forall>r\<in>set rs. rgID r \<noteq> '''') \<and> distinct (map rgID rs) \<and> distinct (concat (map rgCells rs))) \<and>
   (\<forall>m p rid. NewMap rs = Inr m \<longrightarrow>
     mapRegions m = rs \<and>
     (fst (Of p m) = Some rid \<longleftrightarrow> (\<exists>r\<in>set rs. rgID r = rid \<and> p \<in> set (rgCells r))) \<and>
     fst (Of p (m\<lparr>cellToRegion := None\<rparr>)) = fst (Of p m) \<and>
     set (CellsOf rid m) = {p. fst (Of p m) = Some rid})"
proof (intro conjI allI impI)
  show "(\<exists>m. NewMap rs = Inr m) \<longleftrightarrow>
     (\<forall>r\<in>set rs. rgID r \<noteq> '''') \<and> distinct (map rgID rs) \<and> distinct (concat (map rgCells rs))"
    by (simp add: NewMap_def addRegions_accepts partition_ok_def)
next
  fix m p rid assume m: "NewMap rs = Inr m"
  note facts = NewMap_Inr [OF m] Of_NewMap [OF m]
  show "mapRegions m = rs" "fst (Of p m) = Some rid \<longleftrightarrow> (\<exists>r\<in>set rs. rgID r = rid \<and> p \<in> set (rgCells r))"
    "fst (Of p (m\<lparr>cellToRegion := None\<rparr>)) = fst (Of p m)" using facts by auto
  show "set (CellsOf rid m) = {p. fst (Of p m) = Some rid}"
  proof (cases "find (\<lambda>r. rgID r = rid) rs")
    case None
    then have "CellsOf rid m = []" by (simp add: CellsOf_def facts(1))
    moreover have "\<forall>r\<in>set rs. rgID r \<noteq> rid" using None by (auto simp: find_None_iff)
    ultimately show ?thesis using facts(4) by auto
  next
    case (Some r)
    then have r: "r \<in> set rs" "rgID r = rid" by (auto simp: find_Some_iff)
    have u: "r' \<in> set rs \<Longrightarrow> rgID r' = rid \<Longrightarrow> r' = r" for r'
      using facts(2) r by (auto simp: partition_ok_def distinct_map inj_on_def)
    have "CellsOf rid m = rgCells r" using Some by (simp add: CellsOf_def facts(1))
    moreover have "p \<in> set (rgCells r) \<longleftrightarrow> fst (Of p m) = Some rid" for p using facts(4) [of p rid] r u by metis
    ultimately show ?thesis by (intro set_eqI) (simp del: split_paired_All)
  qed
qed

theorem NewMap_exact_witness:
  "let rs = [\<lparr>rgID = ''north'', rgCells = [(0, 0), (1, 0)], rgLabel = ''''\<rparr>, \<lparr>rgID = ''south'', rgCells = [(0, 1)], rgLabel = ''S''\<rparr>] in
   (\<exists>m. NewMap rs = Inr m \<and> fst (Of (1, 0) (m\<lparr>cellToRegion := None\<rparr>)) = Some ''north'') \<and>
   NewMap (rs @ [\<lparr>rgID = ''east'', rgCells = [(0, 1)], rgLabel = ''''\<rparr>]) = Inl ErrOverlap"
proof -
  let ?rs = "[\<lparr>rgID = ''north'', rgCells = [(0, 0), (1, 0)], rgLabel = ''''\<rparr>, \<lparr>rgID = ''south'', rgCells = [(0, 1)], rgLabel = ''S''\<rparr>]"
  obtain m where m: "NewMap ?rs = Inr m" using NewMap_exact [of ?rs] by auto
  then have "fst (Of (1, 0) (m\<lparr>cellToRegion := None\<rparr>)) = Some ''north''"
    using NewMap_exact [of ?rs] by simp
  moreover have "NewMap (?rs @ [\<lparr>rgID = ''east'', rgCells = [(0, 1)], rgLabel = ''''\<rparr>]) = Inl ErrOverlap"
    by code_simp
  ultimately show ?thesis using m unfolding Let_def by blast
qed


lemma tallyOf_mput: "tallyOf (mput k v m) j = (if j = k then v else tallyOf m j)"
  by (simp add: tallyOf_def)

text \<open>A tally that counts the members of a set: an entry is never zero.\<close>

definition tallies :: "(string \<times> int) list \<Rightarrow> (string \<Rightarrow> nat) \<Rightarrow> bool" where
  "tallies t f \<longleftrightarrow> (\<forall>pid. map_of t pid = (if pid = '''' \<or> f pid = 0 then None else Some (int (f pid))))"

lemma countUnits_tallies:
  "tallies t f \<Longrightarrow> tallies (countUnits owner us t) (\<lambda>pid. f pid + length (filter (\<lambda>u. owner u = pid) us))"
proof (induction us arbitrary: t f)
  case (Cons u us)
  let ?t = "if owner u = '''' then t else mput (owner u) (tallyOf t (owner u) + 1) t"
  have "tallies ?t (\<lambda>pid. f pid + (if owner u = pid then 1 else 0))"
    using Cons.prems by (auto simp: tallies_def tallyOf_def)
  from Cons.IH [OF this] have
    "tallies (countUnits owner us ?t)
       (\<lambda>pid. f pid + (if owner u = pid then 1 else 0) + length (filter (\<lambda>u. owner u = pid) us))" .
  moreover have "countUnits owner (u # us) t = countUnits owner us ?t" by (simp add: countUnits_def)
  moreover have "(\<lambda>pid. f pid + (if owner u = pid then 1 else 0) + length (filter (\<lambda>u. owner u = pid) us)) =
      (\<lambda>pid. f pid + length (filter (\<lambda>u. owner u = pid) (u # us)))" by (rule ext) simp
  ultimately show ?case by (simp only:)
qed (simp add: countUnits_def)

definition holdings :: "ownerFn \<Rightarrow> pos set \<Rightarrow> spatial \<Rightarrow> string \<Rightarrow> unitID set" where
  "holdings owner ps s pid = {u. owner u = pid \<and> (\<exists>p\<in>ps. PositionOf s u = Some p)}"

lemma holdings_insert:
  assumes ok: "spatial_ok s" and p: "p \<notin> ps" and fin: "finite (holdings owner ps s pid)"
  shows "finite (holdings owner (insert p ps) s pid)" "card (holdings owner (insert p ps) s pid) =
    length (filter (\<lambda>u. owner u = pid) (fst (EntitiesAt p s))) + card (holdings owner ps s pid)"
proof -
  let ?us = "filter (\<lambda>u. owner u = pid) (fst (EntitiesAt p s))"
  have us: "set ?us = {u \<in> unitsAt s p. owner u = pid}" "distinct ?us"
    using finite_unitsAt [OF ok, of p] by (auto simp: EntitiesAt_spec [OF ok])
  have "holdings owner (insert p ps) s pid = set ?us \<union> holdings owner ps s pid"
    unfolding us(1) by (auto simp: holdings_def unitsAt_def)
  moreover have "set ?us \<inter> holdings owner ps s pid = {}"
    unfolding us(1) using p by (auto simp: holdings_def unitsAt_def)
  ultimately show "finite (holdings owner (insert p ps) s pid)" "card (holdings owner (insert p ps) s pid) =
    length ?us + card (holdings owner ps s pid)"
    using fin distinct_card [OF us(2)] by (simp_all add: card_Un_disjoint)
qed

lemma holdings_frame: "PositionOf s' = PositionOf s \<Longrightarrow> holdings owner ps s' = holdings owner ps s"
  by (simp add: holdings_def fun_eq_iff)

lemma holdings_finite:
  assumes "spatial_ok s" shows "finite (holdings owner (set ps) s pid)"
proof -
  have "holdings owner (set ps) s pid \<subseteq> (\<Union>p\<in>set ps. unitsAt s p)" by (auto simp: holdings_def unitsAt_def)
  then show ?thesis by (rule finite_subset) (simp add: finite_unitsAt [OF assms])
qed

lemma countCells_tallies:
  assumes "spatial_ok s" "distinct ps" "tallies t f"
  shows "tallies (fst (countCells owner ps t s)) (\<lambda>pid. f pid + card (holdings owner (set ps) s pid))"
    "spatial_ok (snd (countCells owner ps t s))" "PositionOf (snd (countCells owner ps t s)) = PositionOf s"
  using assms
proof (atomize (full), induction ps arbitrary: t f s)
  case Nil
  then show ?case by (simp add: holdings_def)
next
  case (Cons p ps)
  let ?s = "snd (EntitiesAt p s)" and ?us = "fst (EntitiesAt p s)"
  have s: "spatial_ok ?s" "PositionOf ?s = PositionOf s" using Cons.prems EntitiesAt_frame by auto
  have card: "card (holdings owner (set (p # ps)) s pid) =
      length (filter (\<lambda>u. owner u = pid) ?us) + card (holdings owner (set ps) s pid)" for pid
    using holdings_insert(2) [OF Cons.prems(1) _ holdings_finite [OF Cons.prems(1)], of p ps owner pid] Cons.prems(2)
    by simp
  have t: "tallies (countUnits owner ?us t) (\<lambda>pid. f pid + length (filter (\<lambda>u. owner u = pid) ?us))"
    by (rule countUnits_tallies) (rule Cons.prems)
  show ?case using Cons.IH [OF s(1) _ t] Cons.prems(2) s(2)
    by (simp add: split_beta Let_def card add.assoc holdings_frame [OF s(2)] del: set_simps)
qed

lemma influenceOf_spec:
  assumes "spatial_ok s" "distinct (map rgID rs)" "\<forall>r\<in>set rs. distinct (rgCells r)"
  shows "\<forall>r\<in>set rs. \<exists>t. map_of (fst (influenceOf owner rs out s)) (rgID r) = Some t \<and>
      tallies t (\<lambda>pid. card (holdings owner (set (rgCells r)) s pid))"
    "rid \<notin> rgID ` set rs \<Longrightarrow> map_of (fst (influenceOf owner rs out s)) rid = map_of out rid"
    "spatial_ok (snd (influenceOf owner rs out s)) \<and> PositionOf (snd (influenceOf owner rs out s)) = PositionOf s"
  using assms
proof (atomize (full), induction rs arbitrary: out s rid)
  case (Cons r rs)
  let ?c = "countCells owner (rgCells r) [] s"
  have "tallies [] (\<lambda>_. 0)" by (simp add: tallies_def)
  note c = countCells_tallies [OF Cons.prems(1) _ this, of "rgCells r" owner]
  have d: "distinct (rgCells r)" using Cons.prems(3) by simp
  let ?out = "mput (rgID r) (fst ?c) out"
  have rs: "distinct (map rgID rs)" "\<forall>r\<in>set rs. distinct (rgCells r)" using Cons.prems by auto
  note IH = Cons.IH [OF c(2) [OF d] rs, where out = ?out]
  have eq: "influenceOf owner (r # rs) out s = influenceOf owner rs ?out (snd ?c)" by (simp add: split_beta Let_def)
  have new: "rgID r \<notin> rgID ` set rs" using Cons.prems(2) by simp
  have r: "map_of (fst (influenceOf owner rs ?out (snd ?c))) (rgID r) = Some (fst ?c)"
    using IH [where rid = "rgID r"] new by simp
  have "tallies (fst ?c) (\<lambda>pid. card (holdings owner (set (rgCells r)) s pid))" using c(1) [OF d] by simp
  then show ?case using IH [where rid = rid] r new c(3) [OF d] holdings_frame [OF c(3) [OF d], of owner] unfolding eq by auto
qed simp

text \<open>
  C31. Influence is exact: for a map NewMap accepted and units placed, moved, removed, saved and
  loaded in any way, every region has an entry, and in it a player's number is the number of
  units the player owns that stand on cells of the region; a player with none has no entry.
  Counting moves nothing.
\<close>

theorem Influence_counts:
  assumes map: "NewMap rs = Inr m" and units: "unit_step\<^sup>*\<^sup>* NewSpatial s" and r: "r \<in> set rs" and pid: "pid \<noteq> ''''"
  shows "\<exists>t. map_of (fst (Influence m owner s)) (rgID r) = Some t \<and>
      (let n = card {u. owner u = pid \<and> (\<exists>p. PositionOf s u = Some p \<and> fst (Of p m) = Some (rgID r))}
       in map_of t pid = (if n = 0 then None else Some (int n))) \<and> map_of t '''' = None \<and>
      PositionOf (snd (Influence m owner s)) = PositionOf s"
proof -
  note m = NewMap_Inr [OF map]
  have d: "distinct (map rgID rs)" "\<forall>r\<in>set rs. distinct (rgCells r)"
    using m(2) by (auto simp: partition_ok_def distinct_concat_iff)
  note spec = influenceOf_spec [OF reachable_units_ok [OF units] d, where owner = owner and out = "[]"]
  have "p \<in> set (rgCells r) \<longleftrightarrow> fst (Of p m) = Some (rgID r)" for p
    using r d(1) Of_NewMap(1) [OF map, of p "rgID r"] by (auto simp: distinct_map inj_on_def)
  then have "holdings owner (set (rgCells r)) s pid =
      {u. owner u = pid \<and> (\<exists>p. PositionOf s u = Some p \<and> fst (Of p m) = Some (rgID r))}"
    by (auto simp: holdings_def)
  moreover obtain t where t: "map_of (fst (Influence m owner s)) (rgID r) = Some t"
    "tallies t (\<lambda>pid. card (holdings owner (set (rgCells r)) s pid))"
    using spec(1) r unfolding Influence_def m(1) by blast
  ultimately show ?thesis using pid spec(3) unfolding Let_def tallies_def Influence_def m(1) by (intro exI [of _ t]) simp
qed

theorem Influence_counts_witness:
  "let m = \<lparr>mapRegions = [\<lparr>rgID = ''north'', rgCells = [(0, 0), (1, 0)], rgLabel = ''''\<rparr>],
            cellToRegion = Some [((0, 0), ''north''), ((1, 0), ''north'')]\<rparr>;
       s = Place 7 (1, 0) NewSpatial
   in NewMap (mapRegions m) = Inr m \<and> unit_step\<^sup>*\<^sup>* NewSpatial s \<and>
      fst (Influence m (\<lambda>_. ''alice'') s) = [(''north'', [(''alice'', 1)])] \<and>
      (\<exists>t. map_of (fst (Influence m (\<lambda>_. ''alice'') s)) ''north'' = Some t \<and> map_of t '''' = None)"
proof -
  let ?m = "\<lparr>mapRegions = [\<lparr>rgID = ''north'', rgCells = [(0, 0), (1, 0)], rgLabel = ''''\<rparr>],
            cellToRegion = Some [((0, 0), ''north''), ((1, 0), ''north'')]\<rparr>"
  let ?s = "Place 7 (1, 0) NewSpatial"
  have m: "NewMap (mapRegions ?m) = Inr ?m" by code_simp
  have s: "unit_step\<^sup>*\<^sup>* NewSpatial ?s" by (rule r_into_rtranclp, rule unit_step.place)
  have "fst (Influence ?m (\<lambda>_. ''alice'') ?s) = [(''north'', [(''alice'', 1)])]" by code_simp
  then show ?thesis using m s Influence_counts [OF m s, of _ "''alice''" "\<lambda>_. ''alice''"]
    unfolding Let_def by (intro conjI) auto
qed


section \<open>Scores\<close>

definition pt :: "int list \<Rightarrow> nat \<Rightarrow> int" where
  "pt points i = (if i < length points then points ! i else 0)"

definition descending :: "int list \<Rightarrow> bool" where
  "descending points \<longleftrightarrow> sorted_wrt (\<ge>) points \<and> (\<forall>x\<in>set points. 0 \<le> x) \<and> sum_list points < 2 ^ 63"

lemma pt_nonneg: "descending points \<Longrightarrow> 0 \<le> pt points i"
  by (simp add: descending_def pt_def)

lemma pt_antimono:
  assumes "descending points" "i \<le> j" shows "pt points j \<le> pt points i"
  using assms pt_nonneg [OF assms(1), of i] by (cases "i = j") (auto simp: descending_def pt_def sorted_wrt_iff_nth_less)

lemma fold_wrap64:
  "\<forall>x\<in>set xs. 0 \<le> x \<Longrightarrow> 0 \<le> a \<Longrightarrow> a + sum_list xs < 2 ^ 63 \<Longrightarrow> fold (\<lambda>p acc. wrap64 (acc + p)) xs a = a + sum_list xs"
proof (induction xs arbitrary: a)
  case (Cons x xs)
  moreover have "0 \<le> sum_list xs" using Cons.prems(1) by (intro sum_list_nonneg) simp
  ultimately have "wrap64 (a + x) = a + x" by (intro wrap64_id) (simp add: int64_def)
  with Cons show ?case by (simp add: add.assoc)
qed simp

lemma pot_sum:
  assumes d: "descending points"
  shows "pot points place n = sum_list (take n (drop place points))"
proof -
  let ?xs = "take n (drop place points)"
  have pos: "\<forall>x\<in>set points. 0 \<le> x" using d by (simp add: descending_def)
  have "sum_list points = sum_list (take place points) + (sum_list ?xs + sum_list (drop n (drop place points)))"
    by (metis append_take_drop_id sum_list_append)
  moreover have "0 \<le> sum_list (take place points)" "0 \<le> sum_list (drop n (drop place points))"
    using pos by (auto intro!: sum_list_nonneg dest: in_set_takeD in_set_dropD)
  ultimately have "sum_list ?xs < 2 ^ 63" using d by (simp add: descending_def)
  then show ?thesis
    using pos unfolding pot_def by (subst fold_wrap64) (auto dest: in_set_takeD in_set_dropD)
qed

lemma pot_bounds:
  assumes d: "descending points"
  shows "pot points place n = (\<Sum>i<n. pt points (place + i))"
    "int n * pt points (place + n) \<le> pot points place n" "pot points place n \<le> int n * pt points place"
proof -
  have "sum_list (take n (drop place points)) = (\<Sum>i<n. pt points (place + i))"
  proof (induction n)
    case (Suc n)
    then show ?case by (cases "place + n < length points") (simp_all add: take_Suc_conv_app_nth pt_def)
  qed simp
  then show eq: "pot points place n = (\<Sum>i<n. pt points (place + i))" by (simp add: pot_sum [OF d])
  have "(\<Sum>i<n. pt points (place + n)) \<le> (\<Sum>i<n. pt points (place + i))"
    by (rule sum_mono) (simp add: pt_antimono [OF d])
  then show "int n * pt points (place + n) \<le> pot points place n" by (simp add: eq)
  have "(\<Sum>i<n. pt points (place + i)) \<le> (\<Sum>i<n. pt points place)"
    by (rule sum_mono) (simp add: pt_antimono [OF d])
  then show "pot points place n \<le> int n * pt points place" by (simp add: eq)
qed

lemma share_bounds:
  assumes d: "descending points" and n: "0 < n"
  shows "pt points (place + n) \<le> share (pot points place n) n" "share (pot points place n) n \<le> pt points place"
    "int n * share (pot points place n) n \<le> pot points place n"
proof -
  have nonneg: "0 \<le> pot points place n" using pot_bounds(1) [OF d] pt_nonneg [OF d] by (simp add: sum_nonneg)
  then have s: "share (pot points place n) n = pot points place n div int n" by (simp add: share_def)
  have "pt points (place + n) * int n \<le> pot points place n" using pot_bounds(2) [OF d, of n place] by (simp add: mult.commute)
  then show "pt points (place + n) \<le> share (pot points place n) n"
    unfolding s using n by (metis nonzero_mult_div_cancel_right of_nat_0_less_iff less_numeral_extra(3) zdiv_mono1)
  have "pot points place n \<le> pt points place * int n" using pot_bounds(3) [OF d, of place n] by (simp add: mult.commute)
  then show "share (pot points place n) n \<le> pt points place"
    unfolding s using n by (metis nonzero_mult_div_cancel_right of_nat_0_less_iff less_numeral_extra(3) zdiv_mono1)
  show "int n * share (pot points place n) n \<le> pot points place n"
    unfolding s using n mult_div_mod_eq [of "int n" "pot points place n"] pos_mod_sign [of "int n" "pot points place n"] by linarith
qed

lemma map_of_award: "map_of (award pts tied result) pid = (if pid \<in> set tied then Some pts else map_of result pid)"
  by (simp add: award_def gomap.get_fold_put [where f = "\<lambda>_. pts"])

lemma scorePlaces_others:
  "pid \<notin> (\<Union>g\<in>set groups. set g) \<Longrightarrow> map_of (scorePlaces rule place groups result) pid = map_of result pid"
  by (induction rule place groups result rule: scorePlaces.induct)
    (simp_all add: map_of_award split: tieBreak.splits)

lemma scorePlaces_head:
  assumes "p \<in> set g" "distinct (concat (g # groups))"
  shows "map_of (scorePlaces rule place groups (award x g result)) p = Some x"
proof -
  have "p \<notin> (\<Union>h\<in>set groups. set h)" using assms by auto
  then show ?thesis using assms(1) by (simp add: scorePlaces_others map_of_award)
qed

text \<open>The points of a first group and the place the next group starts from.\<close>

definition placePoints :: "scoringRule \<Rightarrow> nat \<Rightarrow> nat \<Rightarrow> int" where
  "placePoints rule place n = (if n = 1 \<or> srTieBreak rule \<noteq> Split then pt (srPerPlace rule) place
     else share (pot (srPerPlace rule) place n) n)"

definition nextPlace :: "scoringRule \<Rightarrow> nat \<Rightarrow> nat \<Rightarrow> nat" where
  "nextPlace rule place n = (if n = 1 \<or> srTieBreak rule \<noteq> Split then place + 1 else place + n)"

lemma scorePlaces_step:
  "srTieBreak rule \<in> {Split, BothAward} \<Longrightarrow> place < length (srPerPlace rule) \<Longrightarrow>
   scorePlaces rule place (g # groups) result =
   scorePlaces rule (nextPlace rule place (length g)) groups (award (placePoints rule place (length g)) g result)"
  by (auto simp: nextPlace_def placePoints_def pt_def)

lemma placePoints_bounds:
  assumes "descending (srPerPlace rule)" "0 < n"
  shows "pt (srPerPlace rule) (nextPlace rule place n) \<le> placePoints rule place n"
    "placePoints rule place n \<le> pt (srPerPlace rule) place"
  using share_bounds [OF assms, of place] pt_antimono [OF assms(1), of place "Suc place"]
  by (auto simp: nextPlace_def placePoints_def)

definition scored :: "string list list \<Rightarrow> (string \<Rightarrow> int) \<Rightarrow> bool" where
  "scored groups sc \<longleftrightarrow> sorted_wrt (\<lambda>g h. \<forall>p\<in>set g. \<forall>q\<in>set h. sc q \<le> sc p) groups \<and>
     (\<forall>g\<in>set groups. \<forall>p\<in>set g. \<forall>q\<in>set g. sc p = sc q)"

lemma scored_const: "\<forall>g\<in>set groups. \<forall>p\<in>set g. sc p = 0 \<Longrightarrow> scored groups sc"
  by (induction groups) (auto simp: scored_def)

lemma scored_Cons:
  assumes "scored groups sc" "\<And>p. p \<in> set g \<Longrightarrow> sc p = x" "\<And>h q. h \<in> set groups \<Longrightarrow> q \<in> set h \<Longrightarrow> sc q \<le> x"
  shows "scored (g # groups) sc"
proof -
  have "\<forall>h\<in>set groups. \<forall>p\<in>set g. \<forall>q\<in>set h. sc q \<le> sc p" using assms(2,3) by metis
  moreover have "\<forall>p\<in>set g. \<forall>q\<in>set g. sc p = sc q" using assms(2) by metis
  ultimately show ?thesis using assms(1) unfolding scored_def sorted_wrt.simps set_simps ball_simps by blast
qed

lemma scorePlaces_fair:
  assumes tb: "srTieBreak rule \<in> {Split, BothAward}" and d: "descending (srPerPlace rule)"
  shows "distinct (concat groups) \<Longrightarrow> [] \<notin> set groups \<Longrightarrow> \<forall>g\<in>set groups. \<forall>p\<in>set g. map_of result p = Some 0 \<Longrightarrow>
    scored groups (tallyOf (scorePlaces rule place groups result)) \<and>
    (\<forall>g\<in>set groups. \<forall>p\<in>set g. 0 \<le> tallyOf (scorePlaces rule place groups result) p \<and>
       tallyOf (scorePlaces rule place groups result) p \<le> pt (srPerPlace rule) place)"
proof (induction groups arbitrary: place result)
  case (Cons g groups)
  show ?case
  proof (cases "place < length (srPerPlace rule)")
    case False
    then have "tallyOf (scorePlaces rule place (g # groups) result) p = 0" if "h \<in> set (g # groups)" "p \<in> set h" for h p
      using Cons.prems(3) that by (auto simp: tallyOf_def)
    then show ?thesis using pt_nonneg [OF d, of place] scored_const by (simp del: scorePlaces.simps)
  next
    case True
    let ?n = "length g" let ?pts = "placePoints rule place ?n" let ?place = "nextPlace rule place ?n"
    let ?sc = "tallyOf (scorePlaces rule place (g # groups) result)"
    have eq: "scorePlaces rule place (g # groups) result = scorePlaces rule ?place groups (award ?pts g result)"
      using tb True by (rule scorePlaces_step)
    have n: "0 < ?n" using Cons.prems(2) by auto
    have head: "?sc p = ?pts" if "p \<in> set g" for p
      unfolding eq by (simp add: tallyOf_def scorePlaces_head [OF that Cons.prems(1)])
    have "\<forall>h\<in>set groups. \<forall>p\<in>set h. map_of (award ?pts g result) p = Some 0"
      using Cons.prems(1,3) by (auto simp: map_of_award)
    from Cons.IH [OF _ _ this, of ?place] Cons.prems
    have IH: "scored groups ?sc" "\<forall>h\<in>set groups. \<forall>p\<in>set h. 0 \<le> ?sc p \<and> ?sc p \<le> pt (srPerPlace rule) ?place"
      unfolding eq by auto
    note b = placePoints_bounds [OF d n, of place] pt_antimono [OF d, of place ?place] pt_nonneg [OF d, of ?place]
    have le: "place \<le> ?place" using n by (simp add: nextPlace_def)
    have tail: "?sc q \<le> ?pts" "?sc q \<le> pt (srPerPlace rule) place" if "h \<in> set groups" "q \<in> set h" for h q
      using IH(2) that b(1,2) by fastforce+
    have "scored (g # groups) ?sc" by (rule scored_Cons [OF IH(1)]) (use head tail(1) in blast)+
    moreover have "0 \<le> ?pts" "?pts \<le> pt (srPerPlace rule) place" using b by linarith+
    moreover define sc where "sc = ?sc"
    ultimately have "scored (g # groups) sc" "\<forall>p\<in>set g. 0 \<le> sc p \<and> sc p \<le> pt (srPerPlace rule) place"
      "\<forall>h\<in>set groups. \<forall>p\<in>set h. 0 \<le> sc p \<and> sc p \<le> pt (srPerPlace rule) place"
      using IH(2) head tail(2) by (metis, metis, metis)
    then show ?thesis unfolding sc_def by simp
  qed
qed (simp add: scored_def)


lemma scorePlaces_split_conserves:
  assumes tb: "srTieBreak rule = Split" and d: "descending (srPerPlace rule)"
  shows "distinct (concat groups) \<Longrightarrow> [] \<notin> set groups \<Longrightarrow> \<forall>g\<in>set groups. \<forall>p\<in>set g. map_of result p = Some 0 \<Longrightarrow>
    sum_list (map (tallyOf (scorePlaces rule place groups result)) (concat groups)) \<le> sum_list (drop place (srPerPlace rule))"
proof (induction groups arbitrary: place result)
  case Nil
  show ?case using d by (auto simp: descending_def intro!: sum_list_nonneg dest: in_set_dropD)
next
  case (Cons g groups)
  have n: "0 < length g" using Cons.prems(2) by auto
  show ?case
  proof (cases "place < length (srPerPlace rule)")
    case False
    then have "\<forall>p\<in>set (concat (g # groups)). tallyOf (scorePlaces rule place (g # groups) result) p = 0"
      using Cons.prems(3) by (auto simp: tallyOf_def)
    then have "map (tallyOf (scorePlaces rule place (g # groups) result)) (concat (g # groups)) =
        map (\<lambda>_. 0) (concat (g # groups))" by (simp only: map_eq_conv)
    then show ?thesis using False by (simp only: sum_list_0) simp
  next
    case True
    let ?n = "length g" let ?pts = "placePoints rule place ?n" let ?xs = "srPerPlace rule"
    have nx: "nextPlace rule place ?n = place + ?n" using tb by (simp add: nextPlace_def)
    have eq: "scorePlaces rule place (g # groups) result = scorePlaces rule (place + ?n) groups (award ?pts g result)"
      using scorePlaces_step [OF _ True, of g groups result] tb nx by simp
    have "\<forall>p\<in>set g. tallyOf (scorePlaces rule place (g # groups) result) p = ?pts"
      unfolding eq by (simp add: tallyOf_def scorePlaces_head [OF _ Cons.prems(1)])
    then have "map (tallyOf (scorePlaces rule place (g # groups) result)) g = map (\<lambda>_. ?pts) g"
      by (simp only: map_eq_conv)
    then have head: "sum_list (map (tallyOf (scorePlaces rule place (g # groups) result)) g) = int ?n * ?pts"
      by (simp only: sum_list_triv)
    have "\<forall>h\<in>set groups. \<forall>p\<in>set h. map_of (award ?pts g result) p = Some 0"
      using Cons.prems(1,3) by (auto simp: map_of_award)
    from Cons.IH [OF _ _ this, of "place + ?n"] Cons.prems
    have IH: "sum_list (map (tallyOf (scorePlaces rule place (g # groups) result)) (concat groups)) \<le> sum_list (drop (place + ?n) ?xs)"
      unfolding eq by auto
    have pot: "pot ?xs place ?n = sum_list (take ?n (drop place ?xs))" by (rule pot_sum [OF d])
    have "int ?n * ?pts \<le> pot ?xs place ?n"
    proof (cases "?n = 1")
      case True
      then show ?thesis by (simp add: placePoints_def pot_bounds(1) [OF d])
    qed (use share_bounds(3) [OF d n] tb in \<open>simp add: placePoints_def\<close>)
    moreover have "sum_list (drop place ?xs) = pot ?xs place ?n + sum_list (drop (place + ?n) ?xs)"
      unfolding pot by (metis append_take_drop_id drop_drop add.commute sum_list_append)
    ultimately show ?thesis using IH head by (simp del: scorePlaces.simps)
  qed
qed

lemma sorted_wrt_both:
  "sorted_wrt R xs \<Longrightarrow> sorted_wrt (\<lambda>x y. y < (x :: int)) xs \<Longrightarrow> x \<in> set xs \<Longrightarrow> y \<in> set xs \<Longrightarrow> y < x \<Longrightarrow> R x y"
  by (induction xs) auto

definition playersAt :: "(string \<times> int) list \<Rightarrow> int \<Rightarrow> string list" where
  "playersAt infl v = sort (map fst (filter (\<lambda>(p, n). n = v) infl))"

lemma playersAt_iff: "mwf infl \<Longrightarrow> p \<in> set (playersAt infl v) \<longleftrightarrow> map_of infl p = Some v"
  by (force simp: playersAt_def mwf_def map_of_eq_Some_iff)

lemma rankedGroups_eq: "rankedGroups infl = map (playersAt infl) (rev (sort (remdups (map snd infl))))"
  by (simp add: rankedGroups_def playersAt_def)

lemma sorted_values: "sorted_wrt (\<lambda>x y. y < x) (rev (sort (remdups (map snd infl))))" for infl :: "(string \<times> int) list"
  by (simp add: sorted_wrt_rev strict_sorted_iff)

lemma rankedGroups_ok:
  assumes wf: "mwf infl"
  shows "distinct (concat (rankedGroups infl))" "[] \<notin> set (rankedGroups infl)"
    "set (concat (rankedGroups infl)) = fst ` set infl"
proof -
  have mem: "p \<in> set (playersAt infl v) \<longleftrightarrow> map_of infl p = Some v" for p v by (rule playersAt_iff [OF wf])
  have "distinct (playersAt infl v)" for v
    using wf distinct_map_filter [of fst infl] by (simp add: playersAt_def mwf_def)
  then show "distinct (concat (rankedGroups infl))" unfolding rankedGroups_eq
  proof (intro distinct_concat)
    have at: "v \<in> snd ` set infl \<Longrightarrow> \<exists>p. p \<in> set (playersAt infl v)" for v
      using wf mem by (auto simp: mwf_def map_of_eq_Some_iff)
    have "inj_on (playersAt infl) (snd ` set infl)"
      by (rule inj_onI) (metis at mem option.inject)
    then show "distinct (map (playersAt infl) (rev (sort (remdups (map snd infl)))))" by (simp add: distinct_map)
  qed (use mem in auto)
  have at: "v \<in> snd ` set infl \<Longrightarrow> \<exists>p. map_of infl p = Some v" for v
    using wf by (auto simp: mwf_def map_of_eq_Some_iff)
  have "playersAt infl v \<noteq> []" if "v \<in> snd ` set infl" for v
    using at [OF that] mem [of _ v] by (cases "playersAt infl v") simp_all
  then show "[] \<notin> set (rankedGroups infl)" unfolding rankedGroups_eq by (force simp: image_iff)
  show "set (concat (rankedGroups infl)) = fst ` set infl"
    using wf by (force simp: rankedGroups_eq mem mwf_def map_of_eq_Some_iff)
qed

lemma scored_mono:
  assumes sc: "scored (rankedGroups infl) sc" and wf: "mwf infl"
    and p: "map_of infl p = Some a" and q: "map_of infl q = Some b" and ab: "a \<le> b"
  shows "sc p \<le> sc q"
proof -
  let ?vals = "rev (sort (remdups (map snd infl)))"
  have ins: "p \<in> set (playersAt infl a)" "q \<in> set (playersAt infl b)" using p q wf by (simp_all add: playersAt_iff)
  have vals: "a \<in> set ?vals" "b \<in> set ?vals" using p q by (force dest: map_of_SomeD)+
  show ?thesis
  proof (cases "a = b")
    case True
    then have "sc p = sc q" using sc ins vals unfolding scored_def rankedGroups_eq by auto
    then show ?thesis by simp
  next
    case False
    have "sorted_wrt (\<lambda>v w. \<forall>p\<in>set (playersAt infl v). \<forall>q\<in>set (playersAt infl w). sc q \<le> sc p) ?vals"
      using sc by (simp only: scored_def rankedGroups_eq sorted_wrt_map)
    from sorted_wrt_both [OF this sorted_values vals(2,1)] False ab ins show ?thesis by auto
  qed
qed


lemma map_of_zeroes: "map_of (zeroes infl) p = (if p \<in> fst ` set infl then Some 0 else None)"
proof -
  have "zeroes infl = fold (\<lambda>p. mput p 0) (map fst infl) []" by (simp add: zeroes_def fold_map comp_def case_prod_unfold)
  then show ?thesis by (simp add: gomap.get_fold_put [where f = "\<lambda>_. 0"])
qed

lemma scorePlaces_keeps: "map_of result p \<noteq> None \<Longrightarrow> map_of (scorePlaces rule place groups result) p \<noteq> None"
  by (induction rule place groups result rule: scorePlaces.induct)
    (auto simp: map_of_award split: tieBreak.split)

lemma scoreTopN_fair:
  assumes wf: "mwf infl" and tb: "srTieBreak rule \<in> {Split, BothAward}" and d: "descending (srPerPlace rule)"
  shows "map_of infl p = Some a \<Longrightarrow> map_of infl q = Some b \<Longrightarrow> a \<le> b \<Longrightarrow>
      tallyOf (scoreTopN infl rule) p \<le> tallyOf (scoreTopN infl rule) q"
    "map_of infl p = Some a \<Longrightarrow> 0 \<le> tallyOf (scoreTopN infl rule) p \<and> map_of (scoreTopN infl rule) p \<noteq> None"
    "srTieBreak rule = Split \<Longrightarrow>
      sum_list (map (tallyOf (scoreTopN infl rule)) (map fst infl)) \<le> sum_list (srPerPlace rule)"
proof -
  let ?gs = "rankedGroups infl" let ?sc = "scorePlaces rule 0 ?gs (zeroes infl)"
  have eq: "scoreTopN infl rule = ?sc" by (cases ?gs) (simp_all add: scoreTopN_def)
  note g = rankedGroups_ok [OF wf]
  have z: "\<forall>g\<in>set ?gs. \<forall>p\<in>set g. map_of (zeroes infl) p = Some 0"
    using g(3) by (auto simp: map_of_zeroes)
  note fair = scorePlaces_fair [OF tb d g(1,2) z, of 0]
  show "map_of infl p = Some a \<Longrightarrow> map_of infl q = Some b \<Longrightarrow> a \<le> b \<Longrightarrow>
      tallyOf (scoreTopN infl rule) p \<le> tallyOf (scoreTopN infl rule) q"
    unfolding eq using fair wf by (blast intro: scored_mono)
  show "0 \<le> tallyOf (scoreTopN infl rule) p \<and> map_of (scoreTopN infl rule) p \<noteq> None" if "map_of infl p = Some a"
  proof -
    have p: "p \<in> fst ` set infl" using that by (force dest: map_of_SomeD)
    then obtain g' where "g' \<in> set ?gs" "p \<in> set g'" using g(3) by force
    then show ?thesis unfolding eq using fair scorePlaces_keeps [of "zeroes infl" p] p by (simp add: map_of_zeroes)
  qed
  show "sum_list (map (tallyOf (scoreTopN infl rule)) (map fst infl)) \<le> sum_list (srPerPlace rule)"
    if "srTieBreak rule = Split"
  proof -
    have "sum_list (map f (map fst infl)) = sum_list (map f (concat ?gs))" for f :: "string \<Rightarrow> int"
      using g(1,3) wf by (simp only: sum_list_distinct_conv_sum_set mwf_def set_map)
    then show ?thesis using scorePlaces_split_conserves [OF that d g(1,2) z, of 0] unfolding eq by simp
  qed
qed

lemma scorePlurality_is_top1:
  assumes "descending (srPerPlace rule)" "srTieBreak rule \<in> {Split, BothAward}" "mwf infl"
  shows "scorePlurality infl rule = scoreTopN infl (rule\<lparr>srPerPlace := take 1 (srPerPlace rule)\<rparr>)"
proof (cases "srPerPlace rule")
  case Nil
  then show ?thesis by (simp add: scorePlurality_def scoreTopN_def zeroes_def)
next
  case (Cons x xs)
  have "0 \<le> sum_list xs" using assms(1) by (intro sum_list_nonneg) (simp add: descending_def Cons)
  then have x: "wrap64 x = x" using assms(1) by (intro wrap64_id) (simp add: descending_def Cons int64_def)
  have stop: "scorePlaces r place gs res = res" if "length (srPerPlace r) \<le> place" for r place gs res
    using that by (cases gs) simp_all
  show ?thesis
  proof (cases "rankedGroups infl")
    case Nil
    then show ?thesis by (auto simp: scorePlurality_def scoreTopN_def Cons zeroes_def)
  next
    case (Cons g gs)
    moreover from Cons have "infl \<noteq> []" by (auto simp: rankedGroups_def)
    moreover have "pot [x] 0 (length g) = x" if "g \<noteq> []" using that x by (cases g) (simp_all add: pot_def)
    moreover have ne: "g \<noteq> []" using rankedGroups_ok(2) [OF assms(3)] Cons by auto
    moreover from ne have "Suc 0 \<le> length g" by (cases g) simp_all
    ultimately show ?thesis using assms(2) \<open>srPerPlace rule = x # xs\<close>
      by (auto simp: scorePlurality_def scoreTopN_def stop Let_def split: tieBreak.splits)
  qed
qed


lemma scoreThreshold_spec:
  assumes wf: "mwf infl"
  shows "map_of (scoreThreshold infl rule) p =
    map_option (\<lambda>v. if srThreshold rule \<le> v then srPayout rule else 0) (map_of infl p)"
proof -
  let ?f = "\<lambda>v. if srThreshold rule \<le> v then srPayout rule else 0"
  have "map_of (fold (\<lambda>(pid, v). mput pid (?f v)) xs m) p =
      (case map_of xs p of None \<Rightarrow> map_of m p | Some v \<Rightarrow> Some (?f v))" if "mwf xs" for xs and m :: "int gomap"
    using that
  proof (induction xs arbitrary: m)
    case (Cons x xs)
    obtain k v where x: "x = (k, v)" by (cases x)
    have k: "map_of xs k = None" and wf: "mwf xs" using Cons.prems by (simp_all add: mwf_def x map_of_eq_None_iff)
    have "fold (\<lambda>(pid, v). mput pid (?f v)) (x # xs) m = fold (\<lambda>(pid, v). mput pid (?f v)) xs (mput k (?f v) m)"
      by (simp add: x)
    then show ?case using Cons.IH [OF wf, of "mput k (?f v) m"] k
      by (cases "p = k") (simp_all only: x map_of.simps map_of_mput fun_upd_apply fst_conv snd_conv option.case if_True if_False refl)
  qed simp
  from this [OF wf, of "[]"] have
    "map_of (scoreThreshold infl rule) p = (case map_of infl p of None \<Rightarrow> map_of [] p | Some v \<Rightarrow> Some (?f v))"
    unfolding scoreThreshold_def .
  then show ?thesis by (cases "map_of infl p") simp_all
qed

lemma descending_take: "descending points \<Longrightarrow> descending (take 1 points) \<and> sum_list (take 1 points) \<le> sum_list points"
proof (cases points)
  case (Cons x xs)
  assume "descending points"
  moreover from this have "0 \<le> sum_list xs" by (intro sum_list_nonneg) (simp add: descending_def Cons)
  ultimately show ?thesis by (simp add: descending_def Cons)
qed simp

text \<open>
  C30. Scoring is fair: under all three rules, with tied places split or awarded to each, and points
  that do not grow with the place, every participant has an entry, nobody scores below zero, and
  more influence never scores fewer points (so equal influence scores equally). Splitting ties
  never creates points: what all players get together is at most what the places are worth.
\<close>

theorem ScoreRegion_fair:
  assumes wf: "mwf infl" and tie: "srTieBreak rule \<in> {Split, BothAward}" and kind: "srKind rule \<in> {Plurality, TopN, Threshold}"
    and points: "sorted_wrt (\<ge>) (srPerPlace rule)" "\<forall>x\<in>set (srPerPlace rule). 0 \<le> x" "sum_list (srPerPlace rule) < 2 ^ 63"
    and payout: "0 \<le> srPayout rule"
    and p: "map_of infl p = Some a" and q: "map_of infl q = Some b" and ab: "a \<le> b"
  shows "(\<exists>x y. map_of (ScoreRegion infl rule) p = Some x \<and> map_of (ScoreRegion infl rule) q = Some y \<and> 0 \<le> x \<and> x \<le> y) \<and>
    (srTieBreak rule = Split \<and> srKind rule \<noteq> Threshold \<longrightarrow>
      sum_list (map (tallyOf (ScoreRegion infl rule)) (map fst infl)) \<le> sum_list (srPerPlace rule))"
proof -
  have d: "descending (srPerPlace rule)" using points by (simp add: descending_def)
  let ?one = "rule\<lparr>srPerPlace := take 1 (srPerPlace rule)\<rparr>"
  have one: "descending (srPerPlace ?one)" "sum_list (srPerPlace ?one) \<le> sum_list (srPerPlace rule)" "srTieBreak ?one \<in> {Split, BothAward}"
    using descending_take [OF d] tie by simp_all
  have top: "\<exists>r. ScoreRegion infl rule = scoreTopN infl r \<and> descending (srPerPlace r) \<and> srTieBreak r = srTieBreak rule \<and>
      sum_list (srPerPlace r) \<le> sum_list (srPerPlace rule)" if "srKind rule \<noteq> Threshold"
  proof (cases "srKind rule = TopN")
    case True
    then show ?thesis using tie d by (auto simp: ScoreRegion_def)
  next
    case False
    then have "ScoreRegion infl rule = scoreTopN infl ?one"
      using kind that tie scorePlurality_is_top1 [OF d tie wf] by (auto simp: ScoreRegion_def)
    then show ?thesis using one by auto
  qed
  have "\<exists>x y. map_of (ScoreRegion infl rule) p = Some x \<and> map_of (ScoreRegion infl rule) q = Some y \<and> 0 \<le> x \<and> x \<le> y"
  proof (cases "srKind rule = Threshold")
    case True
    then have "ScoreRegion infl rule = scoreThreshold infl rule" using tie by (auto simp: ScoreRegion_def)
    then show ?thesis using p q ab payout by (simp add: scoreThreshold_spec [OF wf])
  next
    case False
    then obtain r where r: "ScoreRegion infl rule = scoreTopN infl r" "descending (srPerPlace r)" "srTieBreak r \<in> {Split, BothAward}"
      using top tie by auto
    note fair = scoreTopN_fair [OF wf r(3,2)]
    show ?thesis using fair(1) [OF p q ab] fair(2) [OF p] fair(2) [OF q] unfolding r(1) by (auto simp: tallyOf_def)
  qed
  moreover have "sum_list (map (tallyOf (ScoreRegion infl rule)) (map fst infl)) \<le> sum_list (srPerPlace rule)"
    if split: "srTieBreak rule = Split" "srKind rule \<noteq> Threshold"
  proof -
    obtain r where r: "ScoreRegion infl rule = scoreTopN infl r" "descending (srPerPlace r)" "srTieBreak r = Split"
      "sum_list (srPerPlace r) \<le> sum_list (srPerPlace rule)" using top [OF split(2)] split(1) by auto
    show ?thesis using scoreTopN_fair(3) [OF wf _ r(2,3)] r(3,4) unfolding r(1) by simp
  qed
  ultimately show ?thesis by blast
qed

theorem ScoreRegion_fair_witness:
  "let infl = [(''a'', 2), (''b'', 5), (''c'', 5)];
       rule = \<lparr>srKind = TopN, srPerPlace = [5, 2, 1], srThreshold = 0, srPayout = 0, srTieBreak = Split, srCustomTie = None\<rparr>
   in ScoreRegion infl rule = [(''a'', 1), (''b'', 3), (''c'', 3)] \<and>
      sum_list (map (tallyOf (ScoreRegion infl rule)) (map fst infl)) \<le> sum_list (srPerPlace rule)"
proof -
  let ?infl = "[(''a'', 2), (''b'', 5), (''c'', 5)] :: (string \<times> int) list"
  let ?rule = "\<lparr>srKind = TopN, srPerPlace = [5, 2, 1], srThreshold = 0, srPayout = 0, srTieBreak = Split, srCustomTie = None\<rparr>"
  have "ScoreRegion ?infl ?rule = [(''a'', 1), (''b'', 3), (''c'', 3)]" by code_simp
  moreover have "sum_list (map (tallyOf (ScoreRegion ?infl ?rule)) (map fst ?infl)) \<le> sum_list (srPerPlace ?rule)"
    using ScoreRegion_fair [of ?infl ?rule "''a''" 2 "''b''" 5] by (simp add: mwf_def)
  ultimately show ?thesis unfolding Let_def by blast
qed

text \<open>
  With the tie break Custom and no custom function, a tie takes up no place: two players tied
  for first get nothing, and the next player, third in influence, is paid for the first place.
\<close>

theorem Custom_without_function_shifts_places:
  "let infl = [(''a'', 1), (''b'', 5), (''c'', 5)];
       rule = \<lparr>srKind = TopN, srPerPlace = [10, 4, 1], srThreshold = 0, srPayout = 0, srTieBreak = Custom, srCustomTie = None\<rparr>
   in ScoreRegion infl rule = [(''a'', 10), (''b'', 0), (''c'', 0)] \<and>
      ScoreRegion infl (rule\<lparr>srTieBreak := NoAward\<rparr>) = [(''a'', 1), (''b'', 0), (''c'', 0)]"
  by code_simp

end
