(* ===== verification/McpAuth.thy ===== *)
theory McpAuth
  imports GoFloat
begin

text \<open>
  Authentication of the hosted MCP server (\<open>mcp/auth.go\<close>): bearer tokens are JWTs, verified
  against the keys an issuer publishes at a JWKS endpoint and that the verifier caches.

  \<open>verifier\<close> is the state of a \<open>JWTVerifier\<close>: the cached keys, when they were fetched and when a
  fetch was last tried; a zero \<open>time.Time\<close> is \<open>None\<close>. \<open>world\<close> is what it is given: its options, the
  clock and the endpoint (each a function of how often it was asked), the JSON decoders and the
  cryptographic checks. Times are nanoseconds. base64url is modelled as the standard
  library decodes it: line breaks are skipped and stray low bits of the last character ignored.
\<close>

section \<open>Encodings\<close>

definition b64digit :: "char \<Rightarrow> nat option" where
  "b64digit c = (let n = of_char c :: nat in
     if 65 \<le> n \<and> n \<le> 90 then Some (n - 65) else if 97 \<le> n \<and> n \<le> 122 then Some (n - 71)
     else if 48 \<le> n \<and> n \<le> 57 then Some (n + 4) else if n = 45 then Some 62 else if n = 95 then Some 63 else None)"

fun b64groups :: "nat list \<Rightarrow> nat list option" where
  "b64groups [] = Some []"
| "b64groups [a] = None"
| "b64groups [a, b] = Some [a * 4 + b div 16]"
| "b64groups [a, b, c] = Some [a * 4 + b div 16, (b mod 16) * 16 + c div 4]"
| "b64groups (a # b # c # d # rest) =
     map_option (\<lambda>out. [a * 4 + b div 16, (b mod 16) * 16 + c div 4, (c mod 4) * 64 + d] @ out) (b64groups rest)"

fun allSome :: "'a option list \<Rightarrow> 'a list option" where
  "allSome [] = Some []"
| "allSome (None # xs) = None"
| "allSome (Some x # xs) = map_option ((#) x) (allSome xs)"

definition DecodeString :: "string \<Rightarrow> nat list option" where
  "DecodeString s = Option.bind (allSome (map b64digit (filter (\<lambda>c. of_char c \<notin> {10 :: nat, 13}) s))) b64groups"

definition SetBytes :: "nat list \<Rightarrow> nat" where
  "SetBytes bs = fold (\<lambda>b n. n * 256 + b) bs 0"

section \<open>Keys\<close>

record jwk =
  jwKty :: string
  jwKid :: string
  jwUse :: string
  jwN :: string
  jwE :: string
  jwCrv :: string
  jwX :: string
  jwY :: string

datatype publicKey = RSAKey nat int | ECKey nat nat

text \<open>The outer option is an error, the inner one a key that is skipped.\<close>

definition toPublicKey :: "jwk \<Rightarrow> publicKey option option" where
  "toPublicKey k =
     (if jwUse k \<noteq> '''' \<and> jwUse k \<noteq> ''sig'' then Some None
      else if jwKty k = ''RSA'' then
        (case (DecodeString (jwN k), DecodeString (jwE k)) of
           (Some n, Some e) \<Rightarrow> Some (Some (RSAKey (SetBytes n) (fold (\<lambda>b e. wrap64 (e * 256 + int b)) e 0)))
         | _ \<Rightarrow> None)
      else if jwKty k = ''EC'' then
        (if jwCrv k \<noteq> ''P-256'' then None
         else case (DecodeString (jwX k), DecodeString (jwY k)) of
           (Some x, Some y) \<Rightarrow> Some (Some (ECKey (SetBytes x) (SetBytes y)))
         | _ \<Rightarrow> None)
      else None)"

record jwtHeader =
  hdAlg :: string
  hdKid :: string

record jwtClaims =
  clIss :: string
  clSub :: string
  clAud :: "string list"
  clExp :: int
  clNbf :: int

datatype authError =
    BadSegments | BadHeader | Unsigned | UnsupportedAlg | NoKid | BadPayload | IssuerMismatch | AudienceMismatch
  | Expired | NotYetValid | NoSub | RateLimited | FetchFailed | NoUsableKeys | UnknownKid | BadSignatureEncoding
  | WrongKeyType | BadSignatureLength | BadSignature

record world =
  wIssuer :: string
  wAudience :: string
  wSkew :: int
  wCacheTTL :: int
  wNow :: "nat \<Rightarrow> int"
  wFetch :: "nat \<Rightarrow> jwk option list option"
  wHeader :: "nat list \<Rightarrow> jwtHeader option"
  wClaims :: "nat list \<Rightarrow> jwtClaims option"
  wHash :: "string \<Rightarrow> nat list"
  wRSAVerify :: "nat \<Rightarrow> int \<Rightarrow> nat list \<Rightarrow> nat list \<Rightarrow> bool"
  wECDSAVerify :: "nat \<Rightarrow> nat \<Rightarrow> nat list \<Rightarrow> nat \<Rightarrow> nat \<Rightarrow> bool"

record verifier =
  vfKeys :: "publicKey gomap"
  vfFetchedAt :: "int option"
  vfLastFetch :: "int option"
  vfReads :: nat
  vfFetches :: nat

definition NewVerifier :: verifier where
  "NewVerifier = \<lparr>vfKeys = [], vfFetchedAt = None, vfLastFetch = None, vfReads = 0, vfFetches = 0\<rparr>"

definition now :: "world \<Rightarrow> verifier \<Rightarrow> int \<times> verifier" where
  "now w v = (wNow w (vfReads v), v\<lparr>vfReads := vfReads v + 1\<rparr>)"

definition second :: int where
  "second = 1000000000"

section \<open>The key cache\<close>

definition cacheTTL :: "world \<Rightarrow> int" where
  "cacheTTL w = (if wCacheTTL w = 0 then 15 * 60 * second else wCacheTTL w)"

text \<open>Entries that do not parse, and keys that are skipped, are left out; a later entry wins.\<close>

fun parseKeys :: "jwk option list \<Rightarrow> publicKey gomap \<Rightarrow> publicKey gomap" where
  "parseKeys [] parsed = parsed"
| "parseKeys (None # ks) parsed = parseKeys ks parsed"
| "parseKeys (Some k # ks) parsed = (case toPublicKey k of
     Some (Some pk) \<Rightarrow> parseKeys ks (mput (jwKid k) pk parsed)
   | _ \<Rightarrow> parseKeys ks parsed)"

definition refreshJWKS :: "world \<Rightarrow> verifier \<Rightarrow> authError option \<times> verifier" where
  "refreshJWKS w v =
     (let (limited, v) = (case vfLastFetch v of
            None \<Rightarrow> (False, v)
          | Some t \<Rightarrow> (let (n, v) = now w v in (n - t < 60 * second, v)))
      in if limited then (Some RateLimited, v)
         else
           let (n, v) = now w v;
               v = v\<lparr>vfLastFetch := Some n\<rparr>;
               doc = wFetch w (vfFetches v);
               v = v\<lparr>vfFetches := vfFetches v + 1\<rparr>
           in case doc of
             None \<Rightarrow> (Some FetchFailed, v)
           | Some ks \<Rightarrow>
               (let parsed = parseKeys ks []
                in if parsed = [] then (Some NoUsableKeys, v)
                   else (let (n, v) = now w (v\<lparr>vfKeys := parsed\<rparr>) in (None, v\<lparr>vfFetchedAt := Some n\<rparr>))))"

definition lookupKey :: "world \<Rightarrow> string \<Rightarrow> verifier \<Rightarrow> (authError + publicKey) \<times> verifier" where
  "lookupKey w kid v =
     (let cached = map_of (vfKeys v) kid;
          (stale, v) = (case vfFetchedAt v of
             None \<Rightarrow> (True, v)
           | Some t \<Rightarrow> (let (n, v) = now w v in (cacheTTL w < n - t, v)))
      in case (cached, stale) of
        (Some key, False) \<Rightarrow> (Inr key, v)
      | _ \<Rightarrow>
          (case refreshJWKS w v of
             (Some e, v) \<Rightarrow> (case cached of Some key \<Rightarrow> (Inr key, v) | None \<Rightarrow> (Inl e, v))
           | (None, v) \<Rightarrow> (case map_of (vfKeys v) kid of None \<Rightarrow> (Inl UnknownKid, v) | Some key \<Rightarrow> (Inr key, v))))"

section \<open>Verification\<close>

definition verifySignature :: "world \<Rightarrow> string \<Rightarrow> publicKey \<Rightarrow> string \<Rightarrow> nat list \<Rightarrow> authError option" where
  "verifySignature w alg key input sig =
     (let h = wHash w input
      in if alg = ''RS256'' then
           (case key of RSAKey n e \<Rightarrow> if wRSAVerify w n e h sig then None else Some BadSignature | _ \<Rightarrow> Some WrongKeyType)
         else if alg = ''ES256'' then
           (case key of
              ECKey x y \<Rightarrow> if length sig \<noteq> 64 then Some BadSignatureLength
                else if wECDSAVerify w x y h (SetBytes (take 32 sig)) (SetBytes (drop 32 sig)) then None else Some BadSignature
            | _ \<Rightarrow> Some WrongKeyType)
         else Some UnsupportedAlg)"

text \<open>The checks on the decoded claims, in order; \<open>n\<close> is the clock reading.\<close>

definition checkClaims :: "world \<Rightarrow> int \<Rightarrow> jwtClaims \<Rightarrow> authError option" where
  "checkClaims w n c =
     (let skew = (if wSkew w = 0 then 30 * second else wSkew w)
      in if clExp c \<noteq> 0 \<and> clExp c * second + skew < n then Some Expired
         else if clNbf c \<noteq> 0 \<and> n + skew < clNbf c * second then Some NotYetValid
         else if clSub c = '''' then Some NoSub
         else None)"

definition Verify :: "world \<Rightarrow> string \<Rightarrow> verifier \<Rightarrow> (authError + string) \<times> verifier" where
  "Verify w token v = (case splitOn (CHR ''.'') token of
     [h, p, s] \<Rightarrow>
       (case Option.bind (DecodeString h) (wHeader w) of
          None \<Rightarrow> (Inl BadHeader, v)
        | Some hdr \<Rightarrow>
            if hdAlg hdr \<noteq> ''RS256'' \<and> hdAlg hdr \<noteq> ''ES256''
            then (Inl (if hdAlg hdr = '''' \<or> hdAlg hdr = ''none'' then Unsigned else UnsupportedAlg), v)
            else if hdKid hdr = '''' then (Inl NoKid, v)
            else case Option.bind (DecodeString p) (wClaims w) of
              None \<Rightarrow> (Inl BadPayload, v)
            | Some c \<Rightarrow>
                if wIssuer w \<noteq> '''' \<and> clIss c \<noteq> wIssuer w then (Inl IssuerMismatch, v)
                else if wAudience w \<noteq> '''' \<and> wAudience w \<notin> set (clAud c) then (Inl AudienceMismatch, v)
                else
                  let (n, v) = now w v
                  in case checkClaims w n c of
                    Some e \<Rightarrow> (Inl e, v)
                  | None \<Rightarrow>
                      (case lookupKey w (hdKid hdr) v of
                         (Inl e, v) \<Rightarrow> (Inl e, v)
                       | (Inr key, v) \<Rightarrow>
                           (case DecodeString s of
                              None \<Rightarrow> (Inl BadSignatureEncoding, v)
                            | Some sig \<Rightarrow>
                                (case verifySignature w (hdAlg hdr) key (h @ ''.'' @ p) sig of
                                   Some e \<Rightarrow> (Inl e, v)
                                 | None \<Rightarrow> (Inr (clSub c), v)))))
   | _ \<Rightarrow> (Inl BadSegments, v))"

text \<open>
  The middleware: a request without a bearer token or with one that does not verify is refused;
  otherwise the handler runs as the verified subject.
\<close>

definition AuthMiddleware :: "(string \<Rightarrow> 'v \<Rightarrow> (authError + string) \<times> 'v) \<Rightarrow> string \<Rightarrow> 'v
    \<Rightarrow> (authError option + string) \<times> 'v" where
  "AuthMiddleware verify auth v =
     (if take 7 auth \<noteq> ''Bearer '' then (Inl None, v)
      else case verify (drop 7 auth) v of
        (Inl e, v) \<Rightarrow> (Inl (Some e), v)
      | (Inr sub, v) \<Rightarrow> (Inr sub, v))"

definition NoVerify :: "string \<Rightarrow> string \<Rightarrow> 'v \<Rightarrow> (authError + string) \<times> 'v" where
  "NoVerify subject token v = (Inr (if subject = '''' then ''anonymous'' else subject), v)"


section \<open>Which keys are trusted\<close>

text \<open>Every cached key was published by the endpoint under its id, in one of the documents fetched so far.\<close>

definition published :: "world \<Rightarrow> nat \<Rightarrow> string \<Rightarrow> publicKey \<Rightarrow> bool" where
  "published w n kid key \<longleftrightarrow> (\<exists>i<n. \<exists>ks k. wFetch w i = Some ks \<and> Some k \<in> set ks \<and> jwKid k = kid \<and> toPublicKey k = Some (Some key))"

definition trusts :: "world \<Rightarrow> verifier \<Rightarrow> bool" where
  "trusts w v \<longleftrightarrow> (\<forall>kid key. map_of (vfKeys v) kid = Some key \<longrightarrow> published w (vfFetches v) kid key)"

lemma published_mono: "published w n kid key \<Longrightarrow> n \<le> m \<Longrightarrow> published w m kid key"
  unfolding published_def by (metis order_less_le_trans)

lemma parseKeys_from:
  "map_of (parseKeys ks parsed) kid = Some key \<Longrightarrow>
   map_of parsed kid = Some key \<or> (\<exists>k. Some k \<in> set ks \<and> jwKid k = kid \<and> toPublicKey k = Some (Some key))"
proof (induction ks parsed rule: parseKeys.induct)
  case (3 k ks parsed)
  then show ?case by (auto split: option.splits if_splits)
qed auto

lemma now_fields [simp]: "vfKeys (snd (now w v)) = vfKeys v" "vfFetches (snd (now w v)) = vfFetches v"
  "vfLastFetch (snd (now w v)) = vfLastFetch v" "vfFetchedAt (snd (now w v)) = vfFetchedAt v"
  by (simp_all add: now_def)

lemma trusts_now [simp]: "trusts w (snd (now w v)) = trusts w v"
  by (simp add: trusts_def)

lemma refreshJWKS_trusts:
  assumes "trusts w v"
  shows "trusts w (snd (refreshJWKS w v)) \<and> vfFetches v \<le> vfFetches (snd (refreshJWKS w v))"
proof -
  have keep: "trusts w (u\<lparr>vfLastFetch := t, vfFetches := Suc (vfFetches v)\<rparr>)"
    if "vfKeys u = vfKeys v" for u t
    using assms that published_mono [of w "vfFetches v" _ _ "Suc (vfFetches v)"] by (auto simp: trusts_def)
  have new: "published w (Suc (vfFetches v)) kid key"
    if "wFetch w (vfFetches v) = Some ks" "map_of (parseKeys ks []) kid = Some key" for ks kid key
    using parseKeys_from [OF that(2)] that(1) unfolding published_def by auto
  show ?thesis using assms keep new
    by (auto simp: refreshJWKS_def Let_def now_def trusts_def split: option.splits prod.splits if_splits)
qed

lemma lookupKey_trusts:
  assumes "trusts w v" "lookupKey w kid v = (r, v')"
  shows "trusts w v' \<and> (\<forall>key. r = Inr key \<longrightarrow> published w (vfFetches v') kid key)"
proof -
  define u where "u = (case vfFetchedAt v of None \<Rightarrow> v | Some t \<Rightarrow> snd (now w v))"
  have u: "trusts w u" "vfKeys u = vfKeys v" "vfFetches u = vfFetches v" using assms(1) by (simp_all add: u_def split: option.split)
  have c: "map_of (vfKeys v) kid = Some key \<Longrightarrow> published w n kid key" if "vfFetches v \<le> n" for key n
    using assms(1) that published_mono unfolding trusts_def by blast
  note R = refreshJWKS_trusts [OF u(1)]
  have R2: "map_of (vfKeys (snd (refreshJWKS w u))) kid = Some key \<Longrightarrow> published w (vfFetches (snd (refreshJWKS w u))) kid key" for key
    using R unfolding trusts_def by blast
  from assms(2) have "(r, v') = (Inr (the (map_of (vfKeys v) kid)), u) \<and> map_of (vfKeys v) kid \<noteq> None \<or>
      v' = snd (refreshJWKS w u) \<and> (\<forall>key. r = Inr key \<longrightarrow> map_of (vfKeys v) kid = Some key \<or> map_of (vfKeys v') kid = Some key)"
    by (auto simp: lookupKey_def u_def Let_def now_def split: option.splits prod.splits bool.splits)
  then show ?thesis
  proof
    assume "(r, v') = (Inr (the (map_of (vfKeys v) kid)), u) \<and> map_of (vfKeys v) kid \<noteq> None"
    then show ?thesis using u c [of "vfFetches v"] by auto
  next
    assume "v' = snd (refreshJWKS w u) \<and> (\<forall>key. r = Inr key \<longrightarrow> map_of (vfKeys v) kid = Some key \<or> map_of (vfKeys v') kid = Some key)"
    then show ?thesis using R R2 c [of "vfFetches v'"] u(3) by auto
  qed
qed


text \<open>Verifying a list of tokens one after the other with the same verifier.\<close>

fun verifyAll :: "world \<Rightarrow> string list \<Rightarrow> verifier \<Rightarrow> verifier" where
  "verifyAll w [] v = v"
| "verifyAll w (t # ts) v = verifyAll w ts (snd (Verify w t v))"

text \<open>What an accepted token must look like when \<open>key\<close> is the key behind its key id and \<open>n\<close> the time.\<close>

fun signedBy :: "world \<Rightarrow> string \<Rightarrow> publicKey \<Rightarrow> string \<Rightarrow> nat list \<Rightarrow> bool" where
  "signedBy w alg (RSAKey m e) input sig \<longleftrightarrow> alg = ''RS256'' \<and> wRSAVerify w m e (wHash w input) sig"
| "signedBy w alg (ECKey x y) input sig \<longleftrightarrow> alg = ''ES256'' \<and> length sig = 64 \<and>
     wECDSAVerify w x y (wHash w input) (SetBytes (take 32 sig)) (SetBytes (drop 32 sig))"

definition validToken :: "world \<Rightarrow> int \<Rightarrow> string \<Rightarrow> string \<Rightarrow> publicKey \<Rightarrow> string \<Rightarrow> bool" where
  "validToken w n token kid key sub \<longleftrightarrow> (\<exists>h p s hdr c sig. splitOn (CHR ''.'') token = [h, p, s] \<and> Option.bind (DecodeString h) (wHeader w) = Some hdr \<and>
     Option.bind (DecodeString p) (wClaims w) = Some c \<and> DecodeString s = Some sig \<and> hdKid hdr = kid \<and> kid \<noteq> '''' \<and>
     clSub c = sub \<and> sub \<noteq> '''' \<and> (wIssuer w \<noteq> '''' \<longrightarrow> clIss c = wIssuer w) \<and> (wAudience w \<noteq> '''' \<longrightarrow> wAudience w \<in> set (clAud c)) \<and>
     checkClaims w n c = None \<and> signedBy w (hdAlg hdr) key (h @ ''.'' @ p) sig)"

lemma verifySignature_ok: "verifySignature w alg key input sig = None \<longleftrightarrow> signedBy w alg key input sig"
  by (cases key) (auto simp: verifySignature_def Let_def)


lemma checkClaims_sub: "checkClaims w n c = None \<Longrightarrow> clSub c \<noteq> ''''"
  by (auto simp: checkClaims_def Let_def split: if_splits)

lemma Verify_cases:
  assumes "Verify w token v = (r, v')"
  shows "(r, v') \<in> {(r, v'). (\<exists>e. r = Inl e) \<and> v' \<in> {v, snd (now w v)}} \<or>
    (\<exists>kid k. lookupKey w kid (snd (now w v)) = (k, v') \<and>
      (\<forall>sub. r = Inr sub \<longrightarrow> (\<exists>key. k = Inr key \<and> validToken w (fst (now w v)) token kid key sub)))"
  using assms unfolding Verify_def validToken_def
  by (auto simp: Let_def now_def verifySignature_ok checkClaims_sub split: list.splits option.splits if_splits prod.splits sum.splits)


lemma Verify_trusts: "trusts w v \<Longrightarrow> trusts w (snd (Verify w token v))"
  using Verify_cases [of w token v "fst (Verify w token v)" "snd (Verify w token v)"] lookupKey_trusts [of w "snd (now w v)"] by auto

lemma verifyAll_trusts: "trusts w v \<Longrightarrow> trusts w (verifyAll w ts v)"
  by (induction ts arbitrary: v) (auto intro: Verify_trusts)

section \<open>Properties\<close>


text \<open>An issuer with one RSA key, for a clock that stands still; a signature is valid if it is the one byte 7.\<close>

definition demoWorld :: world where
  "demoWorld = \<lparr>wIssuer = '''', wAudience = '''', wSkew = 0, wCacheTTL = 0, wNow = (\<lambda>_. 0),
     wFetch = (\<lambda>i. if i = 0 then Some [Some \<lparr>jwKty = ''RSA'', jwKid = ''k1'', jwUse = ''sig'', jwN = ''Aw'', jwE = ''AQAB'',
       jwCrv = '''', jwX = '''', jwY = ''''\<rparr>] else None),
     wHeader = (\<lambda>bs. Some \<lparr>hdAlg = ''RS256'', hdKid = ''k1''\<rparr>),
     wClaims = (\<lambda>bs. Some \<lparr>clIss = '''', clSub = ''alice'', clAud = [], clExp = 0, clNbf = 0\<rparr>),
     wHash = map of_char, wRSAVerify = (\<lambda>n e h sig. n = 3 \<and> e = 65537 \<and> sig = [7]), wECDSAVerify = (\<lambda>_ _ _ _ _. False)\<rparr>"


lemma refresh_failing:
  assumes "\<And>i. vfFetches v \<le> i \<Longrightarrow> wFetch w i = None" "refreshJWKS w v = (e, v')"
  shows "e \<noteq> None \<and> vfKeys v' = vfKeys v \<and> vfFetches v \<le> vfFetches v'"
  using assms(2) assms(1) [of "vfFetches v"]
  by (auto simp: refreshJWKS_def Let_def now_def split: option.splits prod.splits if_splits)

lemma lookup_failing:
  assumes "\<And>i. vfFetches v \<le> i \<Longrightarrow> wFetch w i = None" "lookupKey w kid v = (r, v')"
  shows "vfKeys v' = vfKeys v \<and> vfFetches v \<le> vfFetches v' \<and> (\<forall>key. map_of (vfKeys v) kid = Some key \<longrightarrow> r = Inr key)"
proof -
  define u where "u = (case vfFetchedAt v of None \<Rightarrow> v | Some t \<Rightarrow> snd (now w v))"
  have u: "vfKeys u = vfKeys v" "vfFetches u = vfFetches v" by (simp_all add: u_def split: option.split)
  obtain e v2 where r: "refreshJWKS w u = (e, v2)" by fastforce
  have f: "e \<noteq> None \<and> vfKeys v2 = vfKeys v \<and> vfFetches v \<le> vfFetches v2"
    using refresh_failing [OF _ r] assms(1) u by auto
  show ?thesis using assms(2) f r u
    by (auto simp: lookupKey_def u_def Let_def now_def split: option.splits prod.splits bool.splits)
qed

lemma Verify_failing:
  assumes "\<And>i. vfFetches v \<le> i \<Longrightarrow> wFetch w i = None"
  shows "vfKeys (snd (Verify w token v)) = vfKeys v \<and> vfFetches v \<le> vfFetches (snd (Verify w token v))"
  using Verify_cases [of w token v "fst (Verify w token v)" "snd (Verify w token v)"] assms lookup_failing [of "snd (now w v)" w]
  by auto

lemma verifyAll_failing:
  "(\<And>i. vfFetches v \<le> i \<Longrightarrow> wFetch w i = None) \<Longrightarrow>
   vfKeys (verifyAll w ts v) = vfKeys v \<and> vfFetches v \<le> vfFetches (verifyAll w ts v)"
proof (induction ts arbitrary: v)
  case (Cons t ts)
  have step: "vfKeys (snd (Verify w t v)) = vfKeys v \<and> vfFetches v \<le> vfFetches (snd (Verify w t v))"
    using Verify_failing [OF Cons.prems] by simp
  then show ?case using Cons.IH [of "snd (Verify w t v)"] Cons.prems by (auto intro: order_trans)
qed simp

text \<open>
  A cached key outlives its expiry. The cache has a lifetime after which keys are fetched anew,
  but while the endpoint does not answer the old key is served, without any limit: whatever
  the clock says and whatever tokens came in between, the key verifies tokens.
\<close>

theorem stale_keys_never_expire:
  assumes "map_of (vfKeys v) kid = Some key" "\<And>i. vfFetches v \<le> i \<Longrightarrow> wFetch w i = None"
  shows "fst (lookupKey w kid (verifyAll w seen v)) = Inr key"
proof -
  note a = verifyAll_failing [where ts = seen, OF assms(2)]
  have "\<And>i. vfFetches (verifyAll w seen v) \<le> i \<Longrightarrow> wFetch w i = None" using a assms(2) by (meson order_trans)
  from lookup_failing [OF this, where kid = kid and r = "fst (lookupKey w kid (verifyAll w seen v))" and
      v' = "snd (lookupKey w kid (verifyAll w seen v))"]
  show ?thesis using a assms(1) by simp
qed

text \<open>The demo issuer's key, years after the cache expired.\<close>

theorem stale_keys_never_expire_witness:
  "fst (lookupKey (demoWorld\<lparr>wNow := (\<lambda>_. 10 ^ 18)\<rparr>) ''k1''
     \<lparr>vfKeys = [(''k1'', RSAKey 3 65537)], vfFetchedAt = Some 0, vfLastFetch = Some 0, vfReads = 0, vfFetches = 1\<rparr>) = Inr (RSAKey 3 65537)"
  using stale_keys_never_expire [of "\<lparr>vfKeys = [(''k1'', RSAKey 3 65537)], vfFetchedAt = Some 0, vfLastFetch = Some 0, vfReads = 0, vfFetches = 1\<rparr>"
      "''k1''" "RSAKey 3 65537" "demoWorld\<lparr>wNow := (\<lambda>_. 10 ^ 18)\<rparr>" "[]"]
  by (simp add: demoWorld_def)

text \<open>
  One fetch a minute. After any attempt to fetch, successful or not, a token with a key id that is
  not cached is refused for a minute, even when the endpoint already publishes the key; and a
  token that needs no valid signature, only an unknown key id, makes such an attempt.
\<close>

theorem unknown_key_locks_out_rotation:
  assumes "vfLastFetch v = Some t" "map_of (vfKeys v) kid = None" "\<And>i. wNow w i - t < 60 * second"
  shows "fst (lookupKey w kid v) = Inl RateLimited"
  using assms by (auto simp: lookupKey_def refreshJWKS_def Let_def now_def split: option.splits prod.splits)

theorem unknown_key_locks_out_rotation_witness:
  "fst (Verify demoWorld ''AA.AA.Bw'' (snd (lookupKey demoWorld ''other'' NewVerifier))) = Inr ''alice'' \<and>
   fst (lookupKey demoWorld ''k2'' (snd (lookupKey demoWorld ''other'' NewVerifier))) = Inl RateLimited"
proof -
  let ?v = "snd (lookupKey demoWorld ''other'' NewVerifier)"
  have v: "vfLastFetch ?v = Some 0" "map_of (vfKeys ?v) ''k2'' = None" by code_simp+
  have n: "wNow demoWorld i - 0 < 60 * second" for i by (simp add: demoWorld_def second_def)
  have "fst (Verify demoWorld ''AA.AA.Bw'' ?v) = Inr ''alice''" by code_simp
  then show ?thesis using unknown_key_locks_out_rotation [OF v n] by simp
qed

text \<open>The middleware runs its handler only as a verified subject.\<close>

theorem AuthMiddleware_authenticates:
  "fst (AuthMiddleware (Verify w) auth v) = Inr sub \<longleftrightarrow> take 7 auth = ''Bearer '' \<and> fst (Verify w (drop 7 auth) v) = Inr sub"
  by (auto simp: AuthMiddleware_def split: prod.splits sum.splits)

end
