(* ===== verification/Storage.thy ===== *)
theory Storage
  imports Views
begin

text \<open>
  Persistence of matches (\<open>storage/\<close>): the data of a match and the Storage interface
  (storage.go), the in-memory store (memory.go), the flat-file store (flatfile.go) and two
  decorators of any store, the write-through cache (cached.go) and the write-behind buffer
  (writebehind.go).

  A \<open>*Match\<close> is an address into a list of matches, the heap: stores hand out and keep pointers,
  and which of them share a match decides what a caller's later writes can change. A store is a
  record of its methods, each a function of the heap and the store's own state. The JSON codec
  of the flat files and the clock of the cache are parameters.
\<close>

section \<open>Matches and the interface (\<open>storage.go\<close>)\<close>

record player =
  prID :: string
  prName :: string
  prSeat :: string
  prCredentials :: string
  prData :: goval
  prIsConnected :: bool

record 'g match =
  maID :: string
  maGameName :: string
  maState :: "'g state"
  maPlayers :: "player list"
  maSetupData :: goval
  maUnlisted :: bool
  maCreatedAt :: int
  maNextMatchID :: string
  maName :: string
  maJoinCode :: string
  maSchemaVersion :: int

datatype storeError = ErrNotFound | ErrConflict | ErrExists string | ErrDecode string | ErrIO string

type_synonym addr = nat
type_synonym 'g heap = "'g match list"

text \<open>The methods of a Storage; \<open>stUpdateIfStateID\<close> is there when it is an OptimisticStorage.\<close>

record ('g, 's) storage =
  stCreate :: "addr \<Rightarrow> 'g heap \<times> 's \<Rightarrow> storeError option \<times> 'g heap \<times> 's"
  stGet :: "string \<Rightarrow> 'g heap \<times> 's \<Rightarrow> (storeError + addr) \<times> 'g heap \<times> 's"
  stUpdate :: "addr \<Rightarrow> 'g heap \<times> 's \<Rightarrow> storeError option \<times> 'g heap \<times> 's"
  stList :: "string \<Rightarrow> 'g heap \<times> 's \<Rightarrow> (storeError + addr list) \<times> 'g heap \<times> 's"
  stWipe :: "string \<Rightarrow> 'g heap \<times> 's \<Rightarrow> storeError option \<times> 'g heap \<times> 's"
  stUpdateIfStateID :: "(addr \<Rightarrow> int \<Rightarrow> 'g heap \<times> 's \<Rightarrow> storeError option \<times> 'g heap \<times> 's) option"

definition alloc :: "'g match \<Rightarrow> 'g heap \<Rightarrow> addr \<times> 'g heap" where
  "alloc m H = (length H, H @ [m])"

definition allocAll :: "'g match list \<Rightarrow> 'g heap \<Rightarrow> addr list \<times> 'g heap" where
  "allocAll ms H = ([length H..<length H + length ms], H @ ms)"

definition ofGame :: "string \<Rightarrow> 'g match \<Rightarrow> bool" where
  "ofGame gameName m = (gameName = '''' \<or> maGameName m = gameName)"

section \<open>The in-memory store (\<open>memory.go\<close>)\<close>

text \<open>Every match is cloned on its way in and out, so the store's matches are values.\<close>

type_synonym 'g memory = "'g match gomap"

definition memCreate :: "addr \<Rightarrow> 'g heap \<times> 'g memory \<Rightarrow> storeError option \<times> 'g heap \<times> 'g memory" where
  "memCreate a = (\<lambda>(H, s). (None, H, mput (maID (H ! a)) (H ! a) s))"

definition memGet :: "string \<Rightarrow> 'g heap \<times> 'g memory \<Rightarrow> (storeError + addr) \<times> 'g heap \<times> 'g memory" where
  "memGet i = (\<lambda>(H, s). case map_of s i of
      None \<Rightarrow> (Inl ErrNotFound, H, s)
    | Some m \<Rightarrow> (let (a, H) = alloc m H in (Inr a, H, s)))"

definition memUpdate :: "addr \<Rightarrow> 'g heap \<times> 'g memory \<Rightarrow> storeError option \<times> 'g heap \<times> 'g memory" where
  "memUpdate a = (\<lambda>(H, s). case map_of s (maID (H ! a)) of
      None \<Rightarrow> (Some ErrNotFound, H, s)
    | Some _ \<Rightarrow> (None, H, mput (maID (H ! a)) (H ! a) s))"

definition memList :: "string \<Rightarrow> 'g heap \<times> 'g memory \<Rightarrow> (storeError + addr list) \<times> 'g heap \<times> 'g memory" where
  "memList gameName = (\<lambda>(H, s). let (as, H) = allocAll (filter (ofGame gameName) (map snd s)) H in (Inr as, H, s))"

definition memWipe :: "string \<Rightarrow> 'g heap \<times> 'g memory \<Rightarrow> storeError option \<times> 'g heap \<times> 'g memory" where
  "memWipe i = (\<lambda>(H, s). case map_of s i of
      None \<Rightarrow> (Some ErrNotFound, H, s)
    | Some _ \<Rightarrow> (None, H, mdel i s))"

definition memUpdateIfStateID :: "addr \<Rightarrow> int \<Rightarrow> 'g heap \<times> 'g memory \<Rightarrow> storeError option \<times> 'g heap \<times> 'g memory" where
  "memUpdateIfStateID a expected = (\<lambda>(H, s). case map_of s (maID (H ! a)) of
      None \<Rightarrow> (Some ErrNotFound, H, s)
    | Some cur \<Rightarrow>
        (if StateID (maState cur) \<noteq> expected then (Some ErrConflict, H, s)
         else (None, H, mput (maID (H ! a)) (H ! a) s)))"

definition Memory :: "('g, 'g memory) storage" where
  "Memory = \<lparr>stCreate = memCreate, stGet = memGet, stUpdate = memUpdate, stList = memList, stWipe = memWipe,
     stUpdateIfStateID = Some memUpdateIfStateID\<rparr>"

section \<open>Flat files (\<open>flatfile.go\<close>)\<close>

text \<open>
  A directory maps file names to contents. Match ids contain no path separator, so the path of
  a match is a name in the directory. \<open>enc\<close> is the JSON encoder (which may fail), \<open>dec\<close> the
  decoder. A write goes to a temporary file that is then renamed over the target, so it either
  replaces the whole file or changes nothing; a crash can leave the temporary file behind.
\<close>

type_synonym dir = "string gomap"

record 'g codec =
  cdEncode :: "'g match \<Rightarrow> string option"
  cdDecode :: "string \<Rightarrow> 'g match option"

definition matchPath :: "string \<Rightarrow> string" where
  "matchPath i = i @ ''.json''"

definition hasSuffix :: "string \<Rightarrow> string \<Rightarrow> bool" where
  "hasSuffix s suf = (length suf \<le> length s \<and> drop (length s - length suf) s = suf)"

definition trimSuffix :: "string \<Rightarrow> string \<Rightarrow> string" where
  "trimSuffix s suf = (if hasSuffix s suf then take (length s - length suf) s else s)"

definition ffWrite :: "'g codec \<Rightarrow> string \<Rightarrow> 'g match \<Rightarrow> dir \<Rightarrow> storeError option \<times> dir" where
  "ffWrite cd path m d = (case cdEncode cd m of
      None \<Rightarrow> (Some (ErrIO ''encode''), d)
    | Some bytes \<Rightarrow> (None, mput path bytes d))"

definition ffRead :: "'g codec \<Rightarrow> string \<Rightarrow> dir \<Rightarrow> storeError + 'g match" where
  "ffRead cd i d = (case map_of d (matchPath i) of
      None \<Rightarrow> Inl ErrNotFound
    | Some bytes \<Rightarrow> (case cdDecode cd bytes of None \<Rightarrow> Inl (ErrDecode i) | Some m \<Rightarrow> Inr m))"

definition ffCreate :: "'g codec \<Rightarrow> addr \<Rightarrow> 'g heap \<times> dir \<Rightarrow> storeError option \<times> 'g heap \<times> dir" where
  "ffCreate cd a = (\<lambda>(H, d). let path = matchPath (maID (H ! a)) in
     case map_of d path of
       Some _ \<Rightarrow> (Some (ErrExists (maID (H ! a))), H, d)
     | None \<Rightarrow> (let (e, d) = ffWrite cd path (H ! a) d in (e, H, d)))"

definition ffGet :: "'g codec \<Rightarrow> string \<Rightarrow> 'g heap \<times> dir \<Rightarrow> (storeError + addr) \<times> 'g heap \<times> dir" where
  "ffGet cd i = (\<lambda>(H, d). case ffRead cd i d of
      Inl e \<Rightarrow> (Inl e, H, d)
    | Inr m \<Rightarrow> (let (a, H) = alloc m H in (Inr a, H, d)))"

definition ffUpdate :: "'g codec \<Rightarrow> addr \<Rightarrow> 'g heap \<times> dir \<Rightarrow> storeError option \<times> 'g heap \<times> dir" where
  "ffUpdate cd a = (\<lambda>(H, d). let path = matchPath (maID (H ! a)) in
     case map_of d path of
       None \<Rightarrow> (Some ErrNotFound, H, d)
     | Some _ \<Rightarrow> (let (e, d) = ffWrite cd path (H ! a) d in (e, H, d)))"

definition ffMatches :: "'g codec \<Rightarrow> string \<Rightarrow> dir \<Rightarrow> 'g match list" where
  "ffMatches cd gameName d =
     List.map_filter (\<lambda>(name, _). if \<not> hasSuffix name ''.json'' then None
       else case ffRead cd (trimSuffix name ''.json'') d of
              Inl _ \<Rightarrow> None
            | Inr m \<Rightarrow> (if ofGame gameName m then Some m else None)) d"

definition ffList :: "'g codec \<Rightarrow> string \<Rightarrow> 'g heap \<times> dir \<Rightarrow> (storeError + addr list) \<times> 'g heap \<times> dir" where
  "ffList cd gameName = (\<lambda>(H, d). let (as, H) = allocAll (ffMatches cd gameName d) H in (Inr as, H, d))"

definition ffWipe :: "string \<Rightarrow> 'g heap \<times> dir \<Rightarrow> storeError option \<times> 'g heap \<times> dir" where
  "ffWipe i = (\<lambda>(H, d). case map_of d (matchPath i) of
      None \<Rightarrow> (Some ErrNotFound, H, d)
    | Some _ \<Rightarrow> (None, H, mdel (matchPath i) d))"

definition FlatFile :: "'g codec \<Rightarrow> ('g, dir) storage" where
  "FlatFile cd = \<lparr>stCreate = ffCreate cd, stGet = ffGet cd, stUpdate = ffUpdate cd, stList = ffList cd,
     stWipe = ffWipe, stUpdateIfStateID = None\<rparr>"

section \<open>The write-through cache (\<open>cached.go\<close>)\<close>

text \<open>
  The cache and the LRU list keep the pointers they are given. \<open>coNow\<close> is the clock: the time
  of its n-th reading, in nanoseconds; \<open>caTicks\<close> counts the readings. Times are far from the
  limits of an int64.
\<close>

record cacheOpts =
  coTTL :: int
  coMaxEntries :: int
  coNow :: "nat \<Rightarrow> int"

record cacheEntry =
  ceMatch :: addr
  ceExpiry :: int

record 's cached =
  caInner :: 's
  caCache :: "cacheEntry gomap"
  caLRU :: "string list"
  caTicks :: nat

definition NewCached :: "'s \<Rightarrow> 's cached" where
  "NewCached s = \<lparr>caInner = s, caCache = [], caLRU = [], caTicks = 0\<rparr>"

definition evictLocked :: "string \<Rightarrow> 's cached \<Rightarrow> 's cached" where
  "evictLocked i c = (case map_of (caCache c) i of
      None \<Rightarrow> c
    | Some _ \<Rightarrow> c\<lparr>caLRU := removeAll i (caLRU c), caCache := mdel i (caCache c)\<rparr>)"

definition moveToFront :: "string \<Rightarrow> 's cached \<Rightarrow> 's cached" where
  "moveToFront i c = c\<lparr>caLRU := i # removeAll i (caLRU c)\<rparr>"

text \<open>The expiry of an entry put now: the clock is only read when there is a TTL.\<close>

definition stamp :: "cacheOpts \<Rightarrow> int \<Rightarrow> 's cached \<Rightarrow> int \<times> 's cached" where
  "stamp opts old c =
     (if 0 < coTTL opts then (coNow opts (caTicks c) + coTTL opts, c\<lparr>caTicks := Suc (caTicks c)\<rparr>) else (old, c))"

definition cachePut :: "cacheOpts \<Rightarrow> addr \<Rightarrow> 'g heap \<Rightarrow> 's cached \<Rightarrow> 's cached" where
  "cachePut opts a H c =
     (let i = maID (H ! a) in
      case map_of (caCache c) i of
        Some e \<Rightarrow>
          (let (expiry, c) = stamp opts (ceExpiry e) c
           in moveToFront i (c\<lparr>caCache := mput i \<lparr>ceMatch = a, ceExpiry = expiry\<rparr> (caCache c)\<rparr>))
      | None \<Rightarrow>
          (let (expiry, c) = stamp opts 0 c;
               c = c\<lparr>caLRU := i # caLRU c, caCache := mput i \<lparr>ceMatch = a, ceExpiry = expiry\<rparr> (caCache c)\<rparr>
           in if 0 < coMaxEntries opts \<and> coMaxEntries opts < int (length (caLRU c))
              then evictLocked (last (caLRU c)) c else c))"

text \<open>Running a method of the inner store.\<close>

definition inner :: "('g heap \<times> 's \<Rightarrow> 'r \<times> 'g heap \<times> 's) \<Rightarrow> 'g heap \<times> 's cached \<Rightarrow> 'r \<times> 'g heap \<times> 's cached" where
  "inner f = (\<lambda>(H, c). let (r, H, s) = f (H, caInner c) in (r, H, c\<lparr>caInner := s\<rparr>))"

definition caCreate :: "('g, 's) storage \<Rightarrow> cacheOpts \<Rightarrow> addr \<Rightarrow> 'g heap \<times> 's cached \<Rightarrow> storeError option \<times> 'g heap \<times> 's cached" where
  "caCreate st opts a w = (case inner (stCreate st a) w of
      (Some e, w) \<Rightarrow> (Some e, w)
    | (None, H, c) \<Rightarrow> (None, H, cachePut opts a H c))"

text \<open>
  Get is two critical sections with the inner Get between them: a look at the cache, and the
  insertion of what the inner store returned.
\<close>

definition cacheLook :: "cacheOpts \<Rightarrow> string \<Rightarrow> 's cached \<Rightarrow> addr option \<times> 's cached" where
  "cacheLook opts i c = (case map_of (caCache c) i of
      None \<Rightarrow> (None, c)
    | Some e \<Rightarrow>
        (if coTTL opts = 0 then (Some (ceMatch e), moveToFront i c)
         else (let now = coNow opts (caTicks c); c = c\<lparr>caTicks := Suc (caTicks c)\<rparr>
               in if now < ceExpiry e then (Some (ceMatch e), moveToFront i c) else (None, evictLocked i c))))"

definition caGet :: "('g, 's) storage \<Rightarrow> cacheOpts \<Rightarrow> string \<Rightarrow> 'g heap \<times> 's cached \<Rightarrow> (storeError + addr) \<times> 'g heap \<times> 's cached" where
  "caGet st opts i = (\<lambda>(H, c). case cacheLook opts i c of
      (Some a, c) \<Rightarrow> (Inr a, H, c)
    | (None, c) \<Rightarrow>
        (case inner (stGet st i) (H, c) of
           (Inl e, w) \<Rightarrow> (Inl e, w)
         | (Inr a, H, c) \<Rightarrow> (Inr a, H, cachePut opts a H c)))"

definition caUpdate :: "('g, 's) storage \<Rightarrow> cacheOpts \<Rightarrow> addr \<Rightarrow> 'g heap \<times> 's cached \<Rightarrow> storeError option \<times> 'g heap \<times> 's cached" where
  "caUpdate st opts a w = (case inner (stUpdate st a) w of
      (Some e, w) \<Rightarrow> (Some e, w)
    | (None, H, c) \<Rightarrow> (None, H, cachePut opts a H c))"

definition caWipe :: "('g, 's) storage \<Rightarrow> string \<Rightarrow> 'g heap \<times> 's cached \<Rightarrow> storeError option \<times> 'g heap \<times> 's cached" where
  "caWipe st i = (\<lambda>(H, c). inner (stWipe st i) (H, evictLocked i c))"

definition Invalidate :: "string \<Rightarrow> 's cached \<Rightarrow> 's cached" where
  "Invalidate i c = evictLocked i c"

definition Cached :: "('g, 's) storage \<Rightarrow> cacheOpts \<Rightarrow> ('g, 's cached) storage" where
  "Cached st opts = \<lparr>stCreate = caCreate st opts, stGet = caGet st opts, stUpdate = caUpdate st opts,
     stList = (\<lambda>gameName. inner (stList st gameName)), stWipe = caWipe st, stUpdateIfStateID = None\<rparr>"

section \<open>The write-behind buffer (\<open>writebehind.go\<close>)\<close>

text \<open>
  \<open>wbPending\<close> keeps the pointers of the matches to be written. The background loop runs
  flushOnce at times of its own choosing, and so do List and Sync; flushOnce takes the pending
  map in one critical section and then writes its matches one by one, so \<open>flushTake\<close> and
  \<open>flushWrite\<close> are its steps. \<open>wbKicked\<close> is the pending wake-up of the loop, \<open>wbErrors\<close> what
  OnFlushError was told.
\<close>

record writeBehindOpts =
  woBatchSize :: int
  woFlushInterval :: int

record 's writeBehind =
  wbInner :: 's
  wbPending :: "addr gomap"
  wbKicked :: bool
  wbErrors :: "(string \<times> storeError) list"

definition NewWriteBehind :: "'s \<Rightarrow> writeBehindOpts \<Rightarrow> 's writeBehind option" where
  "NewWriteBehind s opts = (if woBatchSize opts \<le> 0 \<and> woFlushInterval opts \<le> 0 then None
     else Some \<lparr>wbInner = s, wbPending = [], wbKicked = False, wbErrors = []\<rparr>)"

definition behind :: "('g heap \<times> 's \<Rightarrow> 'r \<times> 'g heap \<times> 's) \<Rightarrow> 'g heap \<times> 's writeBehind \<Rightarrow> 'r \<times> 'g heap \<times> 's writeBehind" where
  "behind f = (\<lambda>(H, w). let (r, H, s) = f (H, wbInner w) in (r, H, w\<lparr>wbInner := s\<rparr>))"

definition flushTake :: "'s writeBehind \<Rightarrow> addr gomap \<times> 's writeBehind" where
  "flushTake w = (wbPending w, w\<lparr>wbPending := []\<rparr>)"

definition flushWrite :: "('g, 's) storage \<Rightarrow> string \<times> addr \<Rightarrow> 'g heap \<times> 's writeBehind \<Rightarrow> 'g heap \<times> 's writeBehind" where
  "flushWrite st = (\<lambda>(i, a) w. case behind (stUpdate st a) w of
      (None, w) \<Rightarrow> w
    | (Some e, H, w) \<Rightarrow> (H, w\<lparr>wbErrors := wbErrors w @ [(i, e)]\<rparr>))"

definition flushOnce :: "('g, 's) storage \<Rightarrow> 'g heap \<times> 's writeBehind \<Rightarrow> 'g heap \<times> 's writeBehind" where
  "flushOnce st = (\<lambda>(H, w). let (batch, w) = flushTake w in fold (flushWrite st) batch (H, w))"

definition wbGet :: "('g, 's) storage \<Rightarrow> string \<Rightarrow> 'g heap \<times> 's writeBehind \<Rightarrow> (storeError + addr) \<times> 'g heap \<times> 's writeBehind" where
  "wbGet st i = (\<lambda>(H, w). case map_of (wbPending w) i of
      Some a \<Rightarrow> (Inr a, H, w)
    | None \<Rightarrow> behind (stGet st i) (H, w))"

definition wbUpdate :: "writeBehindOpts \<Rightarrow> addr \<Rightarrow> 'g heap \<times> 's writeBehind \<Rightarrow> storeError option \<times> 'g heap \<times> 's writeBehind" where
  "wbUpdate opts a = (\<lambda>(H, w).
     let w = w\<lparr>wbPending := mput (maID (H ! a)) a (wbPending w)\<rparr>;
         full = (0 < woBatchSize opts \<and> woBatchSize opts \<le> int (length (wbPending w)))
     in (None, H, if full then w\<lparr>wbKicked := True\<rparr> else w))"

definition wbList :: "('g, 's) storage \<Rightarrow> string \<Rightarrow> 'g heap \<times> 's writeBehind \<Rightarrow> (storeError + addr list) \<times> 'g heap \<times> 's writeBehind" where
  "wbList st gameName w = behind (stList st gameName) (flushOnce st w)"

definition wbWipe :: "('g, 's) storage \<Rightarrow> string \<Rightarrow> 'g heap \<times> 's writeBehind \<Rightarrow> storeError option \<times> 'g heap \<times> 's writeBehind" where
  "wbWipe st i = (\<lambda>(H, w). behind (stWipe st i) (H, w\<lparr>wbPending := mdel i (wbPending w)\<rparr>))"

text \<open>One round of the background loop: it wakes up on a kick, a tick of the ticker, or Close.\<close>

definition flushLoopRound :: "('g, 's) storage \<Rightarrow> 'g heap \<times> 's writeBehind \<Rightarrow> 'g heap \<times> 's writeBehind" where
  "flushLoopRound st = (\<lambda>(H, w). flushOnce st (H, w\<lparr>wbKicked := False\<rparr>))"

definition WriteBehind :: "('g, 's) storage \<Rightarrow> writeBehindOpts \<Rightarrow> ('g, 's writeBehind) storage" where
  "WriteBehind st opts = \<lparr>stCreate = (\<lambda>a. behind (stCreate st a)), stGet = wbGet st, stUpdate = wbUpdate opts,
     stList = wbList st, stWipe = wbWipe st, stUpdateIfStateID = None\<rparr>"


section \<open>The contract of a store\<close>

text \<open>
  What the match manager relies on: \<open>saved\<close> is the matches a store holds, and a match that is
  written reads readBack as \<open>readBack\<close> of it (itself for the in-memory store, what JSON makes of it for
  a serialising one). A Get allocates a match of its own, so no pointer into the store leaves it
  and what a caller writes later does not change \<open>saved\<close>; an operation that fails changes
  nothing.
\<close>

text \<open>What a serialisation never changes of a match.\<close>

definition sameMatch :: "'g match \<Rightarrow> 'g match \<Rightarrow> bool" where
  "sameMatch m n \<longleftrightarrow> maID m = maID n \<and> maGameName m = maGameName n \<and> maSchemaVersion m = maSchemaVersion n \<and>
     map (\<lambda>p. (prID p, prSeat p, prCredentials p)) (maPlayers m) = map (\<lambda>p. (prID p, prSeat p, prCredentials p)) (maPlayers n)"

locale store_contract =
  fixes st :: "('g, 's) storage"
    and ok :: "'s \<Rightarrow> bool"
    and saved :: "'s \<Rightarrow> string \<Rightarrow> 'g match option"
    and readBack :: "'g match \<Rightarrow> 'g match"
  assumes saved_id: "ok s \<Longrightarrow> saved s i = Some m \<Longrightarrow> maID m = i"
    and get_found: "ok s \<Longrightarrow> stGet st i (H, s) = (Inr a, H', s') \<Longrightarrow>
      a = length H \<and> ok s' \<and> saved s' = saved s \<and> (\<exists>m. saved s i = Some m \<and> H' = H @ [m])"
    and get_failed: "ok s \<Longrightarrow> stGet st i (H, s) = (Inl e, H', s') \<Longrightarrow>
      H' = H \<and> ok s' \<and> saved s' = saved s \<and> (e = ErrNotFound \<longrightarrow> saved s i = None)"
    and create_done: "ok s \<Longrightarrow> stCreate st a (H, s) = (None, H', s') \<Longrightarrow>
      H' = H \<and> ok s' \<and> saved s' = (saved s)(maID (H ! a) \<mapsto> readBack (H ! a))"
    and create_failed: "ok s \<Longrightarrow> stCreate st a (H, s) = (Some e, H', s') \<Longrightarrow> H' = H \<and> ok s' \<and> saved s' = saved s"
    and update_done: "ok s \<Longrightarrow> stUpdate st a (H, s) = (None, H', s') \<Longrightarrow>
      H' = H \<and> ok s' \<and> saved s (maID (H ! a)) \<noteq> None \<and> saved s' = (saved s)(maID (H ! a) \<mapsto> readBack (H ! a))"
    and update_failed: "ok s \<Longrightarrow> stUpdate st a (H, s) = (Some e, H', s') \<Longrightarrow>
      H' = H \<and> ok s' \<and> saved s' = saved s \<and> e \<noteq> ErrConflict"
    and reads_back: "sameMatch (readBack m) m"
    and list_done: "ok s \<Longrightarrow> stList st n (H, s) = (Inr as, H', s') \<Longrightarrow>
      ok s' \<and> saved s' = saved s \<and> (\<exists>ms. H' = H @ ms \<and> as = [length H..<length H + length ms] \<and>
        set ms = {m. \<exists>i. saved s i = Some m \<and> ofGame n m})"
    and list_failed: "ok s \<Longrightarrow> stList st n (H, s) = (Inl e, H', s') \<Longrightarrow> H' = H \<and> ok s' \<and> saved s' = saved s"
    and wipe_done: "ok s \<Longrightarrow> stWipe st i (H, s) = (None, H', s') \<Longrightarrow>
      H' = H \<and> ok s' \<and> saved s i \<noteq> None \<and> saved s' = (saved s)(i := None)"
    and wipe_failed: "ok s \<Longrightarrow> stWipe st i (H, s) = (Some e, H', s') \<Longrightarrow> H' = H \<and> ok s' \<and> saved s' = saved s"
    and swap_done: "ok s \<Longrightarrow> stUpdateIfStateID st = Some f \<Longrightarrow> f a k (H, s) = (None, H', s') \<Longrightarrow>
      H' = H \<and> ok s' \<and> (\<exists>cur. saved s (maID (H ! a)) = Some cur \<and> StateID (maState cur) = k) \<and>
      saved s' = (saved s)(maID (H ! a) \<mapsto> readBack (H ! a))"
    and swap_failed: "ok s \<Longrightarrow> stUpdateIfStateID st = Some f \<Longrightarrow> f a k (H, s) = (Some e, H', s') \<Longrightarrow>
      H' = H \<and> ok s' \<and> saved s' = saved s"
begin

text \<open>Read your writes: what a successful Update stored is what the next Get returns.\<close>

lemma get_after_update:
  assumes "ok s" "stUpdate st a (H, s) = (None, H', s')" "stGet st (maID (H ! a)) (H', s') = (Inr b, H'', s'')"
  shows "H'' ! b = readBack (H ! a)"
  using update_done [OF assms(1,2)] get_found [OF _ assms(3)] by auto

lemma get_after_wipe:
  assumes "ok s" "stWipe st i (H, s) = (None, H', s')"
  shows "\<exists>e w. stGet st i (H', s') = (Inl e, w)"
proof -
  have s': "ok s'" "saved s' i = None" using wipe_done [OF assms] by auto
  obtain r H'' s'' where g: "stGet st i (H', s') = (r, H'', s'')" by (metis prod_cases3)
  then show ?thesis using get_found [OF s'(1), of i H'] s'(2) by (cases r) auto
qed

end

text \<open>A store whose Get never fails on a match it holds.\<close>

locale reliable_store = store_contract +
  assumes get_there: "ok s \<Longrightarrow> saved s i = Some m \<Longrightarrow> \<exists>a w. stGet st i (H, s) = (Inr a, w)"

definition memOk :: "'g memory \<Rightarrow> bool" where
  "memOk s \<longleftrightarrow> mwf s \<and> (\<forall>(i, m)\<in>set s. maID m = i)"

lemma memOk_map_of: "memOk s \<Longrightarrow> map_of s i = Some m \<Longrightarrow> maID m = i"
  by (auto simp: memOk_def dest!: map_of_SomeD)

lemma memOk_iff: "memOk s \<longleftrightarrow> mwf s \<and> (\<forall>i m. map_of s i = Some m \<longrightarrow> maID m = i)"
  by (auto simp: memOk_def mwf_def)

lemma memOk_mput: "memOk s \<Longrightarrow> memOk (mput (maID m) m s)"
  by (auto simp: memOk_iff)

lemma memOk_mdel: "memOk s \<Longrightarrow> memOk (mdel i s)"
  by (auto simp: memOk_iff)

lemma mem_values: "memOk s \<Longrightarrow> set (filter P (map snd s)) = {m. \<exists>i. map_of s i = Some m \<and> P m}"
  by (force simp: memOk_def mwf_def map_of_eq_Some_iff)

lemmas mem_defs = Memory_def memCreate_def memGet_def memUpdate_def memList_def memWipe_def memUpdateIfStateID_def
  alloc_def allocAll_def Let_def

interpretation mem: reliable_store Memory memOk map_of "\<lambda>m. m"
proof unfold_locales
  fix s :: "'a memory" and as n H H' s'
  assume "memOk s" "stList Memory n (H, s) = (Inr as, H', s')"
  then show "memOk s' \<and> map_of s' = map_of s \<and> (\<exists>ms. H' = H @ ms \<and> as = [length H..<length H + length ms] \<and>
        set ms = {m. \<exists>i. map_of s i = Some m \<and> ofGame n m})"
    using mem_values [of s "ofGame n"] by (auto simp: mem_defs)
next
  fix s :: "'a memory" and f a k H H' s'
  assume s: "memOk s" and f: "stUpdateIfStateID Memory = Some f" and r: "f a k (H, s) = (None, H', s')"
  from f have "f = memUpdateIfStateID" by (simp add: Memory_def)
  with r s show "H' = H \<and> memOk s' \<and> (\<exists>cur. map_of s (maID (H ! a)) = Some cur \<and> StateID (maState cur) = k) \<and>
      map_of s' = (map_of s)(maID (H ! a) \<mapsto> H ! a)"
    by (auto simp: memUpdateIfStateID_def memOk_mput fun_eq_iff split: option.splits if_splits)
next
  fix s :: "'a memory" and f a k H e H' s'
  assume s: "memOk s" and f: "stUpdateIfStateID Memory = Some f" and r: "f a k (H, s) = (Some e, H', s')"
  from f have "f = memUpdateIfStateID" by (simp add: Memory_def)
  with r s show "H' = H \<and> memOk s' \<and> map_of s' = map_of s"
    by (auto simp: memUpdateIfStateID_def split: option.splits if_splits)
qed (auto simp: mem_defs sameMatch_def memOk_map_of memOk_mput memOk_mdel fun_eq_iff split: option.splits if_splits)

text \<open>
  The law of the codec the flat files rely on: what was encoded decodes, to a match with the
  same metadata. \<open>readBack\<close> says to which.
\<close>

definition codecOk :: "'g codec \<Rightarrow> ('g match \<Rightarrow> 'g match) \<Rightarrow> bool" where
  "codecOk cd readBack \<longleftrightarrow> (\<forall>m. sameMatch (readBack m) m) \<and> (\<forall>m b. cdEncode cd m = Some b \<longrightarrow> cdDecode cd b = Some (readBack m))"

definition ffOk :: "'g codec \<Rightarrow> dir \<Rightarrow> bool" where
  "ffOk cd d \<longleftrightarrow> mwf d \<and> (\<forall>i b. map_of d (matchPath i) = Some b \<longrightarrow> (\<exists>m. cdDecode cd b = Some m \<and> maID m = i))"

definition ffSaved :: "'g codec \<Rightarrow> dir \<Rightarrow> string \<Rightarrow> 'g match option" where
  "ffSaved cd d i = (case ffRead cd i d of Inl _ \<Rightarrow> None | Inr m \<Rightarrow> Some m)"

lemma matchPath_inject [simp]: "matchPath i = matchPath j \<longleftrightarrow> i = j"
  by (simp add: matchPath_def)

lemma hasSuffix_matchPath: "hasSuffix name ''.json'' \<longleftrightarrow> (\<exists>i. name = matchPath i)"
proof
  assume s: "hasSuffix name ''.json''"
  define k where "k = length name - length ''.json''"
  have "drop k name = ''.json''" using s by (simp add: hasSuffix_def k_def)
  then have "name = take k name @ ''.json''" by (metis append_take_drop_id)
  then show "\<exists>i. name = matchPath i" by (auto simp: matchPath_def)
qed (auto simp: hasSuffix_def matchPath_def)

lemma trimSuffix_matchPath [simp]: "trimSuffix (matchPath i) ''.json'' = i"
  by (simp add: trimSuffix_def hasSuffix_def matchPath_def)

lemma ffSaved_simp: "ffSaved cd d i = Option.bind (map_of d (matchPath i)) (cdDecode cd)"
  by (simp add: ffSaved_def ffRead_def split: option.splits)


lemma set_map_filter_iff: "y \<in> set (List.map_filter f xs) \<longleftrightarrow> (\<exists>x\<in>set xs. f x = Some y)"
  by (induction xs) (auto split: option.splits)

lemma flatfile_contract:
  assumes codec: "codecOk cd readBack"
  shows "reliable_store (FlatFile cd) (ffOk cd) (ffSaved cd) readBack"
proof -
  have put: "ffOk cd (mput (matchPath (maID m)) b d)" "ffSaved cd (mput (matchPath (maID m)) b d) = (ffSaved cd d)(maID m \<mapsto> readBack m)"
    if "ffOk cd d" "cdEncode cd m = Some b" for m b d
    using that codec by (auto simp: ffOk_def ffSaved_simp codecOk_def sameMatch_def fun_eq_iff)
  have del: "ffOk cd (mdel (matchPath i) d)" "ffSaved cd (mdel (matchPath i) d) = (ffSaved cd d)(i := None)" if "ffOk cd d" for i d
    using that by (auto simp: ffOk_def ffSaved_simp fun_eq_iff)
  have there: "ffSaved cd d i \<noteq> None" if "ffOk cd d" "map_of d (matchPath i) = Some b" for d i b
    using that by (auto simp: ffOk_def ffSaved_simp)
  have ms: "set (ffMatches cd n d) = {m. \<exists>i. ffSaved cd d i = Some m \<and> ofGame n m}" if "ffOk cd d" for n d
  proof -
    have mem: "(name, b) \<in> set d \<longleftrightarrow> map_of d name = Some b" for name b
      using that by (simp add: ffOk_def mwf_def)
    let ?f = "\<lambda>(name, _). if \<not> hasSuffix name ''.json'' then None
       else case ffRead cd (trimSuffix name ''.json'') d of Inl _ \<Rightarrow> None | Inr m \<Rightarrow> if ofGame n m then Some m else None"
    have f: "?f (name, b) = Some m \<longleftrightarrow> (\<exists>i. name = matchPath i \<and> ffSaved cd d i = Some m \<and> ofGame n m)" for name b m
    proof (cases "\<exists>i. name = matchPath i")
      case True
      then obtain i where i: "name = matchPath i" ..
      then have "hasSuffix name ''.json''" by (auto simp: hasSuffix_matchPath)
      then show ?thesis by (cases "ffRead cd i d") (auto simp: i ffSaved_def)
    qed (auto simp: hasSuffix_matchPath)
    have "m \<in> set (ffMatches cd n d) \<longleftrightarrow> (\<exists>name b. map_of d name = Some b \<and> ?f (name, b) = Some m)" for m
      unfolding ffMatches_def set_map_filter_iff Bex_def split_paired_Ex mem ..
    also have "\<dots> m \<longleftrightarrow> (\<exists>i. ffSaved cd d i = Some m \<and> ofGame n m)" for m
      unfolding f by (auto simp: ffSaved_simp bind_eq_Some_conv)
    finally show ?thesis by blast
  qed
  note defs = FlatFile_def ffCreate_def ffGet_def ffUpdate_def ffList_def ffWipe_def ffWrite_def alloc_def allocAll_def Let_def
  show ?thesis
    apply unfold_locales
    subgoal by (fastforce simp: ffOk_def ffSaved_simp bind_eq_Some_conv)
    subgoal by (auto simp: defs ffSaved_def split: sum.splits)
    subgoal by (auto simp: defs ffSaved_def split: sum.splits)
    subgoal by (auto simp: defs put split: option.splits)
    subgoal by (auto simp: defs split: option.splits)
    subgoal by (auto simp: defs put dest: there split: option.splits)
    subgoal by (auto simp: defs split: option.splits)
    subgoal using codec by (simp add: codecOk_def)
    subgoal by (auto simp: defs ms)
    subgoal by (auto simp: defs)
    subgoal by (auto simp: defs del dest: there split: option.splits)
    subgoal by (auto simp: defs split: option.splits)
    subgoal by (simp add: defs)
    subgoal by (simp add: defs)
    subgoal by (auto simp: defs ffSaved_def split: sum.splits)
    done
qed

section \<open>The cache is coherent\<close>

definition entryFor :: "('s \<Rightarrow> string \<Rightarrow> 'g match option) \<Rightarrow> ('g match \<Rightarrow> 'g match) \<Rightarrow> 'g heap \<Rightarrow> 's \<Rightarrow> string \<Rightarrow> addr \<Rightarrow> bool" where
  "entryFor saved readBack H s i a \<longleftrightarrow> a < length H \<and> maID (H ! a) = i \<and>
     (saved s i = Some (H ! a) \<or> saved s i = Some (readBack (H ! a)))"

definition cacheShape :: "cacheOpts \<Rightarrow> 's cached \<Rightarrow> bool" where
  "cacheShape opts c \<longleftrightarrow> distinct (caLRU c) \<and> set (caLRU c) = dom (map_of (caCache c)) \<and>
     (0 < coMaxEntries opts \<longrightarrow> int (length (caLRU c)) \<le> coMaxEntries opts)"

definition cacheOk :: "('s \<Rightarrow> bool) \<Rightarrow> ('s \<Rightarrow> string \<Rightarrow> 'g match option) \<Rightarrow> ('g match \<Rightarrow> 'g match) \<Rightarrow> cacheOpts \<Rightarrow> 'g heap \<times> 's cached \<Rightarrow> bool" where
  "cacheOk ok saved readBack opts = (\<lambda>(H, c). ok (caInner c) \<and> cacheShape opts c \<and>
     (\<forall>i e. map_of (caCache c) i = Some e \<longrightarrow> entryFor saved readBack H (caInner c) i (ceMatch e)))"

text \<open>
  The use of a cache by one server that never writes through a pointer the cache handed out:
  the methods, an invalidation from outside, and matches allocated elsewhere.
\<close>

inductive cache_step :: "('g, 's) storage \<Rightarrow> cacheOpts \<Rightarrow> 'g heap \<times> 's cached \<Rightarrow> 'g heap \<times> 's cached \<Rightarrow> bool"
  for st opts where
  create: "a < length H \<Longrightarrow> cache_step st opts (H, c) (snd (caCreate st opts a (H, c)))"
| get: "cache_step st opts (H, c) (snd (caGet st opts i (H, c)))"
| update: "a < length H \<Longrightarrow> cache_step st opts (H, c) (snd (caUpdate st opts a (H, c)))"
| list: "cache_step st opts (H, c) (snd (inner (stList st n) (H, c)))"
| wipe: "cache_step st opts (H, c) (snd (caWipe st i (H, c)))"
| invalidate: "cache_step st opts (H, c) (H, Invalidate i c)"
| new: "cache_step st opts (H, c) (H @ [m], c)"

lemma evictLocked_fields [simp]: "caInner (evictLocked i c) = caInner c" "caTicks (evictLocked i c) = caTicks c"
  "map_of (caCache (evictLocked i c)) = (map_of (caCache c))(i := None)"
  by (auto simp: evictLocked_def fun_eq_iff split: option.splits)

lemma removeAll_length: "distinct xs \<Longrightarrow> x \<in> set xs \<Longrightarrow> length (removeAll x xs) = length xs - 1"
  by (simp add: distinct_remove1_removeAll [symmetric] length_remove1)

lemma evictLocked_LRU:
  "set (caLRU c) = dom (map_of (caCache c)) \<Longrightarrow> caLRU (evictLocked i c) = removeAll i (caLRU c)"
  by (auto simp: evictLocked_def domIff removeAll_id split: option.splits)

lemma cacheShape_evict: "cacheShape opts c \<Longrightarrow> cacheShape opts (evictLocked i c)"
  by (auto simp: cacheShape_def evictLocked_LRU distinct_removeAll
      intro: order_trans [OF zle_int [THEN iffD2, OF length_removeAll_less_eq]])

lemma cacheShape_front:
  assumes c: "cacheShape opts c" "map_of (caCache c) i \<noteq> None"
  shows "cacheShape opts (moveToFront i c)"
proof -
  have i: "i \<in> set (caLRU c)" using c by (auto simp: cacheShape_def domIff)
  then have "length (i # removeAll i (caLRU c)) = length (caLRU c)"
    using c length_pos_if_in_set [OF i] by (simp add: cacheShape_def removeAll_length)
  then show ?thesis using c i by (auto simp: cacheShape_def moveToFront_def distinct_removeAll)
qed

lemma stamp_fields:
  "stamp opts old c = (x, c') \<Longrightarrow> caInner c' = caInner c \<and> caCache c' = caCache c \<and> caLRU c' = caLRU c"
  by (auto simp: stamp_def split: if_splits)

lemma cachePut_spec:
  assumes c: "cacheShape opts c"
  shows "cacheShape opts (cachePut opts a H c) \<and> caInner (cachePut opts a H c) = caInner c \<and>
    (\<forall>j e. map_of (caCache (cachePut opts a H c)) j = Some e \<longrightarrow>
       (if j = maID (H ! a) then ceMatch e = a else map_of (caCache c) j = Some e))"
proof (cases "map_of (caCache c) (maID (H ! a))")
  case (Some e)
  obtain x c' where s: "stamp opts (ceExpiry e) c = (x, c')" by fastforce
  let ?c = "c'\<lparr>caCache := mput (maID (H ! a)) \<lparr>ceMatch = a, ceExpiry = x\<rparr> (caCache c')\<rparr>"
  have shape: "cacheShape opts ?c" using c Some stamp_fields [OF s] by (auto simp: cacheShape_def domIff split: if_splits)
  have "cachePut opts a H c = moveToFront (maID (H ! a)) ?c" by (simp add: cachePut_def Some s Let_def)
  moreover have "cacheShape opts (moveToFront (maID (H ! a)) ?c)" by (rule cacheShape_front [OF shape]) simp
  ultimately show ?thesis using stamp_fields [OF s] by (auto simp: moveToFront_def)
next
  case None
  obtain x c' where s: "stamp opts 0 c = (x, c')" by fastforce
  let ?i = "maID (H ! a)"
  define d where "d = c'\<lparr>caLRU := ?i # caLRU c', caCache := mput ?i \<lparr>ceMatch = a, ceExpiry = x\<rparr> (caCache c')\<rparr>"
  have put: "cachePut opts a H c = (if 0 < coMaxEntries opts \<and> coMaxEntries opts < int (length (caLRU d)) then evictLocked (last (caLRU d)) d else d)"
    by (simp add: cachePut_def None s d_def Let_def)
  have d: "distinct (caLRU d)" "set (caLRU d) = dom (map_of (caCache d))" "caLRU d \<noteq> []" "caInner d = caInner c"
    "length (caLRU d) = Suc (length (caLRU c))"
    "\<And>j e. map_of (caCache d) j = Some e \<Longrightarrow> (if j = ?i then ceMatch e = a else map_of (caCache c) j = Some e)"
    using c None stamp_fields [OF s] by (auto simp: d_def cacheShape_def domIff split: if_splits)
  show ?thesis
  proof (cases "0 < coMaxEntries opts \<and> coMaxEntries opts < int (length (caLRU d))")
    case True
    have "length (removeAll (last (caLRU d)) (caLRU d)) = length (caLRU c)"
      using removeAll_length [OF d(1) last_in_set [OF d(3)]] d(5) by simp
    then have "cacheShape opts (evictLocked (last (caLRU d)) d)"
      using c d(1,2) by (auto simp: cacheShape_def evictLocked_LRU distinct_removeAll)
    then show ?thesis using True d(4,6) by (auto simp: put split: if_splits)
  next
    case False
    then have "cacheShape opts d" using d(1,2) by (auto simp: cacheShape_def)
    then show ?thesis using False d(4,6) by (auto simp: put)
  qed
qed

lemma cacheOk_put:
  assumes "ok s" "cacheShape opts c" "entryFor saved readBack H s (maID (H ! a)) a"
    and others: "\<And>j e. map_of (caCache c) j = Some e \<Longrightarrow> j \<noteq> maID (H ! a) \<Longrightarrow> entryFor saved readBack H s j (ceMatch e)"
    and s: "caInner c = s"
  shows "cacheOk ok saved readBack opts (H, cachePut opts a H c)"
proof -
  note p = cachePut_spec [OF assms(2), of a H]
  have "entryFor saved readBack H s i (ceMatch e)" if e: "map_of (caCache (cachePut opts a H c)) i = Some e" for i e
    using p e assms(3) others [of i e] by (cases "i = maID (H ! a)") auto
  then show ?thesis using p assms(1) s by (simp add: cacheOk_def)
qed

lemma entryFor_append: "entryFor saved readBack H s i a \<Longrightarrow> entryFor saved readBack (H @ ms) s i a"
  by (auto simp: entryFor_def nth_append)

lemma cacheOk_inner:
  assumes c: "cacheOk ok saved readBack opts (H, c)" and s: "ok s" "saved s = saved (caInner c)"
  shows "cacheOk ok saved readBack opts (H @ ms, c\<lparr>caInner := s\<rparr>)"
proof -
  have "entryFor saved readBack (H @ ms) s i a" if "entryFor saved readBack H (caInner c) i a" for i a
    using entryFor_append [OF that, of ms] s(2) by (simp add: entryFor_def)
  then show ?thesis using c s(1) by (simp add: cacheOk_def cacheShape_def)
qed

context store_contract
begin

text \<open>What Get returns through the cache, and that it keeps the cache coherent.\<close>

lemma cacheLook_spec:
  assumes c: "cacheOk ok saved readBack opts (H, c)" and l: "cacheLook opts i c = (r, c')"
  shows "cacheOk ok saved readBack opts (H, c') \<and> caInner c' = caInner c \<and>
    (\<forall>a. r = Some a \<longrightarrow> entryFor saved readBack H (caInner c) i a)"
proof (cases "map_of (caCache c) i")
  case None
  then show ?thesis using c l by (auto simp: cacheLook_def)
next
  case (Some e)
  have tick: "cacheOk ok saved readBack opts (H, d\<lparr>caTicks := t\<rparr>) = cacheOk ok saved readBack opts (H, d)" for d t
    by (simp add: cacheOk_def cacheShape_def)
  have front: "cacheOk ok saved readBack opts (H, moveToFront i c)" if "cacheOk ok saved readBack opts (H, c)" "map_of (caCache c) i \<noteq> None" for c
    using that by (auto simp: cacheOk_def cacheShape_front) (auto simp: moveToFront_def)
  have evict: "cacheOk ok saved readBack opts (H, evictLocked i c)" if "cacheOk ok saved readBack opts (H, c)" for c
    using that by (auto simp: cacheOk_def cacheShape_evict split: if_splits)
  have e: "entryFor saved readBack H (caInner c) i (ceMatch e)" using c Some by (auto simp: cacheOk_def)
  let ?c = "c\<lparr>caTicks := Suc (caTicks c)\<rparr>"
  have "cacheOk ok saved readBack opts (H, ?c)" using c tick by simp
  note this = front [OF c] front [OF this] evict [OF this]
  with l Some e show ?thesis
    by (auto simp: cacheLook_def Let_def moveToFront_def split: if_splits)
qed

lemma caGet_spec:
  assumes c: "cacheOk ok saved readBack opts (H, c)" and g: "caGet st opts i (H, c) = (r, H', c')"
  shows "cacheOk ok saved readBack opts (H', c') \<and> saved (caInner c') = saved (caInner c) \<and>
    (case r of Inr a \<Rightarrow> entryFor saved readBack H' (caInner c) i a | Inl e \<Rightarrow> e = ErrNotFound \<longrightarrow> saved (caInner c) i = None)"
proof -
  obtain ho d where look: "cacheLook opts i c = (ho, d)" by fastforce
  note l = cacheLook_spec [OF c look]
  show ?thesis
  proof (cases ho)
    case (Some a)
    then show ?thesis using g look l by (auto simp: caGet_def)
  next
    case None
    obtain q H1 s where q: "stGet st i (H, caInner d) = (q, H1, s)" by (metis prod_cases3)
    have okd: "ok (caInner d)" using l by (auto simp: cacheOk_def)
    show ?thesis
    proof (cases q)
      case (Inl e)
      with get_failed [OF okd] q have f: "H1 = H" "ok s" "saved s = saved (caInner d)" "e = ErrNotFound \<longrightarrow> saved (caInner d) i = None" by blast+
      have "cacheOk ok saved readBack opts (H, d\<lparr>caInner := s\<rparr>)"
        using cacheOk_inner [of ok saved readBack opts H d s "[]"] l f(2,3) by simp
      then show ?thesis using g look None q Inl f l by (auto simp: caGet_def inner_def)
    next
      case (Inr a)
      with get_found [OF okd] q obtain m where f: "a = length H" "ok s" "saved s = saved (caInner d)" "saved (caInner d) i = Some m" "H1 = H @ [m]"
        by blast
      have id: "maID m = i" using saved_id [OF okd f(4)] .
      have new: "entryFor saved readBack H1 s (maID (H1 ! a)) a" using f id by (simp add: entryFor_def)
      let ?d = "d\<lparr>caInner := s\<rparr>"
      have old: "entryFor saved readBack H1 s j (ceMatch e)" if "map_of (caCache ?d) j = Some e" for j e
        using l that f(3,5) entryFor_append [of saved readBack H "caInner d" j "ceMatch e" "[m]"]
        by (auto simp: cacheOk_def entryFor_def)
      have shape: "cacheShape opts ?d" using l by (auto simp: cacheOk_def cacheShape_def)
      have "cacheOk ok saved readBack opts (H1, cachePut opts a H1 ?d)"
        by (rule cacheOk_put [where s = s]) (use f(2) shape new old in auto)
      moreover have "caInner (cachePut opts a H1 ?d) = s" using cachePut_spec [OF shape, of a H1] by simp
      moreover have "(r, H', c') = (Inr a, H1, cachePut opts a H1 ?d)"
        using g look None q Inr by (auto simp: caGet_def inner_def)
      ultimately show ?thesis using new f l id by (auto simp: entryFor_def)
    qed
  qed
qed

lemma cache_step_ok:
  assumes "cache_step st opts w w'" "cacheOk ok saved readBack opts w"
  shows "cacheOk ok saved readBack opts w'"
  using assms
proof (induction rule: cache_step.induct)
  case (create a H c)
  obtain q H1 s where q: "stCreate st a (H, caInner c) = (q, H1, s)" by (metis prod_cases3)
  have c: "ok (caInner c)" "cacheShape opts c" using create by (auto simp: cacheOk_def)
  let ?d = "c\<lparr>caInner := s\<rparr>"
  have shape: "cacheShape opts ?d" using c by (simp add: cacheShape_def)
  show ?case
  proof (cases q)
    case (Some e)
    then have "H1 = H" "ok s" "saved s = saved (caInner c)" using create_failed [OF c(1)] q by blast+
    then show ?thesis using cacheOk_inner [OF create.prems, of s "[]"] Some q by (simp add: caCreate_def inner_def)
  next
    case None
    then have f: "H1 = H" "ok s" "saved s = (saved (caInner c))(maID (H ! a) \<mapsto> readBack (H ! a))"
      using create_done [OF c(1)] q by blast+
    have "cacheOk ok saved readBack opts (H, cachePut opts a H ?d)"
      by (rule cacheOk_put [where s = s]) (use create f(2,3) shape in \<open>auto simp: entryFor_def cacheOk_def\<close>)
    then show ?thesis using None q f(1) by (simp add: caCreate_def inner_def)
  qed
next
  case (get H c i)
  then show ?case using caGet_spec [OF get, of i] by (metis prod.collapse)
next
  case (update a H c)
  obtain q H1 s where q: "stUpdate st a (H, caInner c) = (q, H1, s)" by (metis prod_cases3)
  have c: "ok (caInner c)" "cacheShape opts c" using update by (auto simp: cacheOk_def)
  let ?d = "c\<lparr>caInner := s\<rparr>"
  have shape: "cacheShape opts ?d" using c by (simp add: cacheShape_def)
  show ?case
  proof (cases q)
    case (Some e)
    then have "H1 = H" "ok s" "saved s = saved (caInner c)" using update_failed [OF c(1)] q by blast+
    then show ?thesis using cacheOk_inner [OF update.prems, of s "[]"] Some q by (simp add: caUpdate_def inner_def)
  next
    case None
    then have f: "H1 = H" "ok s" "saved s = (saved (caInner c))(maID (H ! a) \<mapsto> readBack (H ! a))"
      using update_done [OF c(1)] q by blast+
    have "cacheOk ok saved readBack opts (H, cachePut opts a H ?d)"
      by (rule cacheOk_put [where s = s]) (use update f(2,3) shape in \<open>auto simp: entryFor_def cacheOk_def\<close>)
    then show ?thesis using None q f(1) by (simp add: caUpdate_def inner_def)
  qed
next
  case (list H c n)
  obtain q H1 s where q: "stList st n (H, caInner c) = (q, H1, s)" by (metis prod_cases3)
  have c: "ok (caInner c)" using list by (auto simp: cacheOk_def)
  obtain ms where f: "H1 = H @ ms" "ok s" "saved s = saved (caInner c)"
    using q list_done [OF c] list_failed [OF c] by (cases q) (metis append_Nil2)+
  then show ?case using cacheOk_inner [OF list f(2,3), of ms] q by (simp add: inner_def)
next
  case (wipe H c i)
  obtain q H1 s where q: "stWipe st i (H, caInner c) = (q, H1, s)" by (metis prod_cases3)
  have c: "ok (caInner c)" "cacheShape opts c" using wipe by (auto simp: cacheOk_def)
  have f: "H1 = H" "ok s" "\<And>j. j \<noteq> i \<Longrightarrow> saved s j = saved (caInner c) j"
    using q wipe_done [OF c(1)] wipe_failed [OF c(1)] by (cases q; force)+
  have "cacheShape opts ((evictLocked i c)\<lparr>caInner := s\<rparr>)"
    using cacheShape_evict [OF c(2), of i] by (simp add: cacheShape_def)
  then show ?case using wipe f q by (auto simp: caWipe_def inner_def cacheOk_def entryFor_def split: if_splits)
next
  case (invalidate H c i)
  then show ?case by (auto simp: Invalidate_def cacheOk_def cacheShape_evict split: if_splits)
next
  case (new H c m)
  then show ?case by (auto simp: cacheOk_def intro: entryFor_append)
qed

lemma cache_reachable_ok:
  assumes "ok s" "(cache_step st opts)\<^sup>*\<^sup>* (H, NewCached s) w"
  shows "cacheOk ok saved readBack opts w"
  using assms(2)
proof (induction rule: rtranclp_induct)
  case base
  show ?case using assms(1) by (auto simp: cacheOk_def cacheShape_def NewCached_def)
qed (auto intro: cache_step_ok)

end



text \<open>A match of one player with a given state id, for concrete runs.\<close>

definition demoCtx :: ctx where
  "demoCtx = \<lparr>NumPlayers = 1, CurrentPlayer = ''0'', PlayOrder = [''0''], PlayOrderPos = 0, Turn = 1, Phase = '''',
     ActivePlayers = None, Gameover = VNil, NumMoves = 0, NowMs = 0, Seed = 1\<rparr>"

definition demoMatch :: "string \<Rightarrow> int \<Rightarrow> int match" where
  "demoMatch i n = \<lparr>maID = i, maGameName = ''demo'', maState = (freshState 0 demoCtx)\<lparr>StateID := n\<rparr>, maPlayers = [],
     maSetupData = VNil, maUnlisted = False, maCreatedAt = 0, maNextMatchID = '''', maName = '''', maJoinCode = '''',
     maSchemaVersion = 0\<rparr>"

definition demoCache :: cacheOpts where
  "demoCache = \<lparr>coTTL = 10, coMaxEntries = 1, coNow = (\<lambda>n. 100 * int n)\<rparr>"



text \<open>
  The cache is not safe under concurrency: Get does not hold its lock while it reads the
  inner store. Without a TTL, a reader misses (the match is not cached yet) and reads state 1; a
  writer stores state 2, in the cache and in the inner store; the reader then puts its old copy
  into the cache. From then on the cache serves state 1 while the store holds state 2.
\<close>

theorem cached_get_races_update:
  "let st = Memory; opts = demoCache\<lparr>coTTL := 0\<rparr>;
       w0 = ([demoMatch ''m'' 1, demoMatch ''m'' 2], NewCached [(''m'', demoMatch ''m'' 1)]);
       (miss, c1) = cacheLook opts ''m'' (snd w0);
       (read, w1) = inner (stGet st ''m'') (fst w0, c1);
       (written, H2, c2) = caUpdate st opts 1 w1;
       c3 = cachePut opts (projr read) H2 c2;
       (served, H4, c4) = caGet st opts ''m'' (H2, c3)
   in miss = None \<and> written = None \<and> StateID (maState (H4 ! projr served)) = 1 \<and>
      map_option (\<lambda>m. StateID (maState m)) (map_of (caInner c4) ''m'') = Some 2"
  by code_simp


definition pendingOk :: "'g heap \<Rightarrow> addr gomap \<Rightarrow> bool" where
  "pendingOk H batch \<longleftrightarrow> mwf batch \<and> (\<forall>(i, a)\<in>set batch. maID (H ! a) = i)"

definition updatesExisting :: "('g, 's) storage \<Rightarrow> ('s \<Rightarrow> bool) \<Rightarrow> ('s \<Rightarrow> string \<Rightarrow> 'g match option) \<Rightarrow> bool" where
  "updatesExisting st ok saved \<longleftrightarrow> (\<forall>s H a. ok s \<longrightarrow> fst (stUpdate st a (H, s)) =
     (if saved s (maID (H ! a)) = None then Some ErrNotFound else None))"

lemma flush_batch:
  assumes store: "store_contract st ok saved readBack" and upd: "updatesExisting st ok saved"
  shows "ok (wbInner w) \<Longrightarrow> pendingOk H batch \<Longrightarrow>
    \<exists>w'. fold (flushWrite st) batch (H, w) = (H, w') \<and> wbPending w' = wbPending w \<and> ok (wbInner w') \<and>
      (\<forall>i. saved (wbInner w') i = (case map_of batch i of
         Some a \<Rightarrow> if saved (wbInner w) i = None then None else Some (readBack (H ! a)) | None \<Rightarrow> saved (wbInner w) i)) \<and>
      wbErrors w' = wbErrors w @ map (\<lambda>(i, a). (i, ErrNotFound)) (filter (\<lambda>(i, a). saved (wbInner w) i = None) batch)"
proof (induction batch arbitrary: w)
  case (Cons x batch)
  note update_done = store_contract.update_done [OF store] and update_failed = store_contract.update_failed [OF store]
  obtain i a where x: "x = (i, a)" by (cases x)
  have i: "maID (H ! a) = i" and new: "map_of batch i = None" and ok': "pendingOk H batch"
    using Cons.prems by (auto simp: pendingOk_def mwf_def x map_of_eq_None_iff)
  obtain q H1 s where q: "stUpdate st a (H, wbInner w) = (q, H1, s)" by (metis prod_cases3)
  have qv: "q = (if saved (wbInner w) i = None then Some ErrNotFound else None)"
    using upd Cons.prems(1) q i unfolding updatesExisting_def by (metis fst_conv)
  define w1 where "w1 = (case q of None \<Rightarrow> w\<lparr>wbInner := s\<rparr> | Some e \<Rightarrow> w\<lparr>wbInner := s, wbErrors := wbErrors w @ [(i, e)]\<rparr>)"
  have s: "H1 = H \<and> ok s \<and> saved s = (if saved (wbInner w) i = None then saved (wbInner w) else (saved (wbInner w))(i \<mapsto> readBack (H ! a)))"
  proof (cases "saved (wbInner w) i = None")
    case True
    with q qv have "stUpdate st a (H, wbInner w) = (Some ErrNotFound, H1, s)" by simp
    from update_failed [OF Cons.prems(1) this] True show ?thesis by simp
  next
    case False
    with q qv have "stUpdate st a (H, wbInner w) = (None, H1, s)" by simp
    from update_done [OF Cons.prems(1) this] False i show ?thesis by auto
  qed
  then have s: "H1 = H" "ok s" "saved s = (if saved (wbInner w) i = None then saved (wbInner w) else (saved (wbInner w))(i \<mapsto> readBack (H ! a)))" by auto
  have step: "flushWrite st x (H, w) = (H, w1)" using q s(1) by (auto simp: x flushWrite_def behind_def w1_def split: option.splits)
  have w1: "wbInner w1 = s" "wbPending w1 = wbPending w"
    "wbErrors w1 = wbErrors w @ (if saved (wbInner w) i = None then [(i, ErrNotFound)] else [])"
    using qv by (auto simp: w1_def)
  from Cons.IH [of w1] ok' s(2) obtain w' where w': "fold (flushWrite st) batch (H, w1) = (H, w')" "wbPending w' = wbPending w"
    "ok (wbInner w')" "\<And>j. saved (wbInner w') j = (case map_of batch j of
         Some a \<Rightarrow> if saved s j = None then None else Some (readBack (H ! a)) | None \<Rightarrow> saved s j)"
    "wbErrors w' = wbErrors w1 @ map (\<lambda>(i, a). (i, ErrNotFound)) (filter (\<lambda>(i, a). saved s i = None) batch)"
    using w1(1,2) by auto
  have "saved (wbInner w') j = (case map_of (x # batch) j of
         Some a \<Rightarrow> if saved (wbInner w) j = None then None else Some (readBack (H ! a)) | None \<Rightarrow> saved (wbInner w) j)" for j
    using w'(4) [of j] new s(3) by (cases "j = i") (auto simp: x split: option.splits)
  moreover have "filter (\<lambda>(i, a). saved s i = None) batch = filter (\<lambda>(i, a). saved (wbInner w) i = None) batch"
    using s(3) new by (intro filter_cong) (auto simp: map_of_eq_None_iff split: if_splits)
  ultimately show ?case using step w'(1,2,3,5) w1(3) by (auto simp: x)
qed simp

text \<open>
  C33. The write-behind buffer makes its writes durable: a flush of pending matches over a store
  that accepts updates of the matches it holds leaves nothing pending, stores for each pending
  match its latest version, leaves the other matches alone, and reports exactly the pending
  matches that the store does not hold.
\<close>

theorem flush_makes_durable:
  assumes store: "store_contract st ok saved readBack" and upd: "updatesExisting st ok saved"
    and ok: "ok (wbInner w)" "pendingOk H (wbPending w)"
  shows "\<exists>w'. flushOnce st (H, w) = (H, w') \<and> wbPending w' = [] \<and>
    (\<forall>i. saved (wbInner w') i = (case map_of (wbPending w) i of
       Some a \<Rightarrow> if saved (wbInner w) i = None then None else Some (readBack (H ! a)) | None \<Rightarrow> saved (wbInner w) i)) \<and>
    wbErrors w' = wbErrors w @ map (\<lambda>(i, a). (i, ErrNotFound)) (filter (\<lambda>(i, a). saved (wbInner w) i = None) (wbPending w))"
proof -
  let ?w = "w\<lparr>wbPending := []\<rparr>"
  have w: "wbInner ?w = wbInner w" "wbErrors ?w = wbErrors w" "wbPending ?w = []" by simp_all
  have "flushOnce st (H, w) = fold (flushWrite st) (wbPending w) (H, ?w)" by (simp add: flushOnce_def flushTake_def)
  then show ?thesis using flush_batch [OF store upd, of ?w H "wbPending w", unfolded w] ok by auto
qed


lemma Memory_updatesExisting: "updatesExisting Memory memOk map_of"
  by (auto simp: updatesExisting_def Memory_def memUpdate_def split: option.splits)

theorem flush_makes_durable_witness:
  "let H = [demoMatch ''m'' 2]; w = \<lparr>wbInner = [(''m'', demoMatch ''m'' 1)], wbPending = [(''m'', 0)], wbKicked = False, wbErrors = []\<rparr>
   in memOk (wbInner w) \<and> pendingOk H (wbPending w) \<and>
      (\<exists>w'. flushOnce Memory (H, w) = (H, w') \<and> wbPending w' = [] \<and> map_of (wbInner w') ''m'' = Some (demoMatch ''m'' 2))"
proof -
  let ?H = "[demoMatch ''m'' 2]"
  let ?w = "\<lparr>wbInner = [(''m'', demoMatch ''m'' 1)], wbPending = [(''m'', 0)], wbKicked = False, wbErrors = []\<rparr>"
  have ok: "memOk (wbInner ?w)" "pendingOk ?H (wbPending ?w)" by (simp_all add: memOk_def mwf_def pendingOk_def demoMatch_def)
  from flush_makes_durable [OF mem.store_contract_axioms Memory_updatesExisting ok] obtain w' where
    "flushOnce Memory (?H, ?w) = (?H, w')" "wbPending w' = []" "map_of (wbInner w') ''m'' = Some (demoMatch ''m'' 2)"
    by auto
  then show ?thesis unfolding Let_def using ok by blast
qed

text \<open>
  While a flush is in flight its matches are neither pending nor stored, so a Get does not see
  them, although the comment promises the in-flight version; and two flushes that overlap can
  store an older version over a newer one: here state 3 is stored and then overwritten by state
  2.
\<close>

theorem write_behind_flush_races:
  "let st = Memory; opts = \<lparr>woBatchSize = 1, woFlushInterval = 0\<rparr>;
       start = ([demoMatch ''m'' 2, demoMatch ''m'' 3],
              \<lparr>wbInner = [(''m'', demoMatch ''m'' 1)], wbPending = [], wbKicked = False, wbErrors = []\<rparr>);
       (e1, H1, w1) = wbUpdate opts 0 start;
       (batch1, w2) = flushTake w1;
       (read, H3, w3) = wbGet st ''m'' (H1, w2);
       (e2, H4, w4) = wbUpdate opts 1 (H3, w3);
       (H5, w5) = flushOnce st (H4, w4);
       (H6, w6) = fold (flushWrite st) batch1 (H5, w5)
   in e1 = None \<and> e2 = None \<and> StateID (maState (H3 ! projr read)) = 1 \<and>
      map_option (\<lambda>m. StateID (maState m)) (map_of (wbInner w5) ''m'') = Some 3 \<and>
      wbPending w6 = [] \<and> map_option (\<lambda>m. StateID (maState m)) (map_of (wbInner w6) ''m'') = Some 2"
  by code_simp

text \<open>
  The stores disagree on creating a match whose id is taken: the flat files refuse it, as the
  comment says in the name of parity with the in-memory store, which silently overwrites.
\<close>

theorem Create_of_a_taken_id:
  assumes "codecOk cd readBack" "ffOk cd d" "ffSaved cd d (maID (H ! a)) \<noteq> None"
  shows "stCreate (FlatFile cd) a (H, d) = (Some (ErrExists (maID (H ! a))), H, d) \<and>
    (\<forall>s. stCreate Memory a (H, s) = (None, H, mput (maID (H ! a)) (H ! a) s))"
  using assms by (auto simp: FlatFile_def ffCreate_def Memory_def memCreate_def ffSaved_simp Let_def split: option.splits)

end
