(* ===== verification/Manager.thy ===== *)
theory Manager
  imports Storage GoFloat
begin

text \<open>
  The match manager (\<open>match/\<close>): creating matches, seating players, applying moves under the
  lock of a match, storing and broadcasting the result, observers (lifecycle.go), turn timers
  (timer.go), export and import (export.go) and the janitor (janitor.go).

  \<open>mgr\<close> is the state a Manager reaches: the heap of matches and the store behind it, the memory
  of game code, the registered games, subscribers and observers with what they have been sent,
  and the armed timers. \<open>config\<close> is what it is constructed with: the store's methods, the
  sources of ids, credentials, seeds and time, and its options. Random draws and clock readings
  are numbered by \<open>mgDraws\<close>. The operations on one match hold its lock, so each is one step; an
  operation returns \<open>None\<close> when the engine panics or does not return.
\<close>

section \<open>Configuration and state (\<open>manager.go\<close>)\<close>

datatype matchError =
    ErrUnknownGame string | ErrSeatTaken | ErrNoSeatsLeft | ErrUnknownSeat | ErrSeatRequired | ErrBadCredentials
  | ErrInvalidPlayerCount | ErrInvalidSetupData string | ErrJoinCodeTaken string | ErrSetup gerror
  | ErrStateIDRequired | ErrStore storeError | ErrCore gerror | ErrDecodeG string | ErrDecodePlugin string string
  | ErrNoMigrate | ErrMigrate int string | ErrReplay gerror | ErrInvalidGame "problem list"

text \<open>A registered game, with the parts of Game only the manager uses.\<close>

record ('g, 'h) hosted =
  hgGame :: "('g, 'h) game"
  hgBeforePersist :: "('g state \<Rightarrow> 'g state) option"
  hgDeltaState :: bool
  hgAllowDynamicPlayers :: bool
  hgSchemaVersion :: int
  hgMigrate :: "('g state \<Rightarrow> int \<Rightarrow> string + 'g state) option"
  hgDecodeG :: "(string \<Rightarrow> string + 'g) option"
  hgPluginDecode :: "(string \<times> (string \<Rightarrow> string + goval)) list"

record subscriber =
  sbID :: nat
  sbPlayerID :: string
  sbPatch :: bool

record chatMessage =
  cmID :: string
  cmSender :: string
  cmPayload :: goval

datatype 'g frame = Send "'g state" | SendPatch "'g state" | SendChat chatMessage | SendMatchData "player list"

definition LifecycleMatchCreated :: string where "LifecycleMatchCreated = ''match.created''"
definition LifecycleMatchJoined :: string where "LifecycleMatchJoined = ''match.joined''"
definition LifecycleMatchLeft :: string where "LifecycleMatchLeft = ''match.left''"
definition LifecycleMatchMoved :: string where "LifecycleMatchMoved = ''match.moved''"
definition LifecycleMatchMoveRejected :: string where "LifecycleMatchMoveRejected = ''match.moveRejected''"
definition LifecycleMatchGameOver :: string where "LifecycleMatchGameOver = ''match.gameOver''"
definition LifecycleMatchReset :: string where "LifecycleMatchReset = ''match.reset''"

record 'g lifecycleEvent =
  lvKind :: string
  lvMatchID :: string
  lvPlayerID :: string
  lvState :: "'g state option"
  lvMatch :: "'g match option"
  lvMove :: string
  lvArgs :: "goval list"
  lvPrevState :: "'g state option"
  lvLogDelta :: "logEntry list"
  lvErr :: "gerror option"
  lvStateID :: int

definition newEvent :: "string \<Rightarrow> string \<Rightarrow> string \<Rightarrow> 'g lifecycleEvent" where
  "newEvent kind i pid = \<lparr>lvKind = kind, lvMatchID = i, lvPlayerID = pid, lvState = None, lvMatch = None, lvMove = '''',
     lvArgs = [], lvPrevState = None, lvLogDelta = [], lvErr = None, lvStateID = 0\<rparr>"

record ('g, 'h, 's) mgr =
  mgHeap :: "'g heap"
  mgStore :: 's
  mgMem :: 'h
  mgGames :: "('g, 'h) hosted gomap"
  mgSubs :: "subscriber list gomap"
  mgSent :: "(subscriber \<times> 'g frame) list"
  mgLifecycle :: "nat option list gomap"
  mgFired :: "(nat \<times> 'g lifecycleEvent) list"
  mgTimers :: "(int \<times> int) gomap"
  mgDraws :: nat

record ('g, 's) config =
  cfStore :: "('g, 's) storage"
  cfNewID :: "nat \<Rightarrow> string"
  cfRand :: "nat \<Rightarrow> 64 word"
  cfSeedFn :: "(nat \<Rightarrow> 64 word) option"
  cfNow :: "nat \<Rightarrow> int"
  cfGenerateCredentials :: "nat \<Rightarrow> string"
  cfAuthenticate :: "string \<Rightarrow> player \<Rightarrow> bool"
  cfRequireStateID :: bool
  cfUseOptimisticConcurrency :: bool
  cfOCCMaxRetries :: int

text \<open>The default check of credentials.\<close>

definition defaultAuthenticate :: "string \<Rightarrow> player \<Rightarrow> bool" where
  "defaultAuthenticate supplied p = (supplied \<noteq> '''' \<and> supplied = prCredentials p)"

definition NewManager :: "'s \<Rightarrow> 'h \<Rightarrow> ('g, 'h, 's) mgr" where
  "NewManager s h = \<lparr>mgHeap = [], mgStore = s, mgMem = h, mgGames = [], mgSubs = [], mgSent = [], mgLifecycle = [],
     mgFired = [], mgTimers = [], mgDraws = 0\<rparr>"

definition match_at :: "('g, 'h, 's) mgr \<Rightarrow> addr \<Rightarrow> 'g match" where
  "match_at mg a = mgHeap mg ! a"

definition assign :: "addr \<Rightarrow> 'g match \<Rightarrow> ('g, 'h, 's) mgr \<Rightarrow> ('g, 'h, 's) mgr" where
  "assign a m mg = mg\<lparr>mgHeap := (mgHeap mg)[a := m]\<rparr>"

definition newMatch :: "'g match \<Rightarrow> ('g, 'h, 's) mgr \<Rightarrow> addr \<times> ('g, 'h, 's) mgr" where
  "newMatch m mg = (let (a, H) = alloc m (mgHeap mg) in (a, mg\<lparr>mgHeap := H\<rparr>))"

definition runStore :: "('g heap \<times> 's \<Rightarrow> 'r \<times> 'g heap \<times> 's) \<Rightarrow> ('g, 'h, 's) mgr \<Rightarrow> 'r \<times> ('g, 'h, 's) mgr" where
  "runStore f mg = (let (r, H, s) = f (mgHeap mg, mgStore mg) in (r, mg\<lparr>mgHeap := H, mgStore := s\<rparr>))"

definition draw :: "(nat \<Rightarrow> 'a) \<Rightarrow> ('g, 'h, 's) mgr \<Rightarrow> 'a \<times> ('g, 'h, 's) mgr" where
  "draw f mg = (f (mgDraws mg), mg\<lparr>mgDraws := Suc (mgDraws mg)\<rparr>)"

text \<open>The clock in milliseconds; \<open>Unix\<close> is in seconds.\<close>

definition nowUnix :: "('g, 's) config \<Rightarrow> ('g, 'h, 's) mgr \<Rightarrow> int \<times> ('g, 'h, 's) mgr" where
  "nowUnix cf mg = (let (t, mg) = draw (cfNow cf) mg in (t div 1000, mg))"

text \<open>Draws from crypto/rand until one is not zero.\<close>

partial_function (option) drawSeed :: "(nat \<Rightarrow> 64 word) \<Rightarrow> nat \<Rightarrow> (64 word \<times> nat) option" where
  [code]: "drawSeed rand n = (if rand n \<noteq> 0 then Some (rand n, Suc n) else drawSeed rand (Suc n))"

definition seed :: "('g, 's) config \<Rightarrow> ('g, 'h, 's) mgr \<Rightarrow> (64 word \<times> ('g, 'h, 's) mgr) option" where
  "seed cf mg = (case cfSeedFn cf of
      Some f \<Rightarrow> Some (draw f mg)
    | None \<Rightarrow> map_option (\<lambda>(s, n). (s, mg\<lparr>mgDraws := n\<rparr>)) (drawSeed (cfRand cf) (mgDraws mg)))"

section \<open>Games, observers and subscribers\<close>

definition Register :: "('g, 'h) hosted \<Rightarrow> ('g, 'h, 's) mgr \<Rightarrow> matchError option \<times> ('g, 'h, 's) mgr" where
  "Register g mg = (if Validate (hgGame g) \<noteq> [] then (Some (ErrInvalidGame (Validate (hgGame g))), mg)
     else (None, mg\<lparr>mgGames := mput (gmName (hgGame g)) g (mgGames mg)\<rparr>))"

definition MustRegister :: "('g, 'h) hosted \<Rightarrow> ('g, 'h, 's) mgr \<Rightarrow> ('g, 'h, 's) mgr option" where
  "MustRegister g mg = (case Register g mg of (Some _, _) \<Rightarrow> None | (None, mg) \<Rightarrow> Some mg)"

definition Game :: "('g, 'h, 's) mgr \<Rightarrow> string \<Rightarrow> ('g, 'h) hosted option" where
  "Game mg name = map_of (mgGames mg) name"

definition GameNames :: "('g, 'h, 's) mgr \<Rightarrow> string list" where
  "GameNames mg = map fst (mgGames mg)"

definition handlersOf :: "string \<Rightarrow> ('g, 'h, 's) mgr \<Rightarrow> nat option list" where
  "handlersOf kind mg = (case map_of (mgLifecycle mg) kind of None \<Rightarrow> [] | Some hs \<Rightarrow> hs)"

text \<open>Registering an observer returns the index its unsubscribe function clears.\<close>

definition OnLifecycleKind :: "string \<Rightarrow> nat \<Rightarrow> ('g, 'h, 's) mgr \<Rightarrow> nat \<times> ('g, 'h, 's) mgr" where
  "OnLifecycleKind kind handler mg =
     (let hs = handlersOf kind mg @ [Some handler]
      in (length hs - 1, mg\<lparr>mgLifecycle := mput kind hs (mgLifecycle mg)\<rparr>))"

definition OnLifecycle :: "nat \<Rightarrow> ('g, 'h, 's) mgr \<Rightarrow> nat \<times> ('g, 'h, 's) mgr" where
  "OnLifecycle handler mg = OnLifecycleKind '''' handler mg"

definition unsubscribeLifecycle :: "string \<Rightarrow> nat \<Rightarrow> ('g, 'h, 's) mgr \<Rightarrow> ('g, 'h, 's) mgr" where
  "unsubscribeLifecycle kind idx mg =
     (let hs = handlersOf kind mg
      in if idx < length hs then mg\<lparr>mgLifecycle := mput kind (hs[idx := None]) (mgLifecycle mg)\<rparr> else mg)"

definition fireLifecycle :: "'g lifecycleEvent \<Rightarrow> ('g, 'h, 's) mgr \<Rightarrow> ('g, 'h, 's) mgr" where
  "fireLifecycle ev mg =
     mg\<lparr>mgFired := mgFired mg @ map (\<lambda>h. (h, ev))
          (List.map_filter id (handlersOf (lvKind ev) mg) @ List.map_filter id (handlersOf '''' mg))\<rparr>"

definition subsOf :: "string \<Rightarrow> ('g, 'h, 's) mgr \<Rightarrow> subscriber list" where
  "subsOf i mg = (case map_of (mgSubs mg) i of None \<Rightarrow> [] | Some ss \<Rightarrow> ss)"

definition Subscribe :: "string \<Rightarrow> subscriber \<Rightarrow> ('g, 'h, 's) mgr \<Rightarrow> ('g, 'h, 's) mgr" where
  "Subscribe i s mg = mg\<lparr>mgSubs := mput i (List.insert s (subsOf i mg)) (mgSubs mg)\<rparr>"

definition unsubscribe :: "string \<Rightarrow> subscriber \<Rightarrow> ('g, 'h, 's) mgr \<Rightarrow> ('g, 'h, 's) mgr" where
  "unsubscribe i s mg = (case map_of (mgSubs mg) i of
      None \<Rightarrow> mg
    | Some ss \<Rightarrow> (let ss = removeAll s ss
                  in if ss = [] then mg\<lparr>mgSubs := mdel i (mgSubs mg)\<rparr> else mg\<lparr>mgSubs := mput i ss (mgSubs mg)\<rparr>))"

definition sendAll :: "(subscriber \<Rightarrow> 'g frame) \<Rightarrow> subscriber list \<Rightarrow> ('g, 'h, 's) mgr \<Rightarrow> ('g, 'h, 's) mgr" where
  "sendAll f ss mg = mg\<lparr>mgSent := mgSent mg @ map (\<lambda>s. (s, f s)) ss\<rparr>"

definition Chat :: "('g, 's) config \<Rightarrow> string \<Rightarrow> string \<Rightarrow> goval \<Rightarrow> ('g, 'h, 's) mgr \<Rightarrow> ('g, 'h, 's) mgr" where
  "Chat cf i sender payload mg =
     (let (mid, mg) = draw (cfNewID cf) mg
      in sendAll (\<lambda>_. SendChat \<lparr>cmID = mid, cmSender = sender, cmPayload = payload\<rparr>) (subsOf i mg) mg)"

section \<open>Turn timers (\<open>timer.go\<close>)\<close>

text \<open>An armed timer: its budget and the turn it was armed for.\<close>

definition cancelTurnTimer :: "string \<Rightarrow> ('g, 'h, 's) mgr \<Rightarrow> ('g, 'h, 's) mgr" where
  "cancelTurnTimer i mg = mg\<lparr>mgTimers := mdel i (mgTimers mg)\<rparr>"

definition scheduleTurnTimer :: "string \<Rightarrow> 'g state \<Rightarrow> ('g, 'h) hosted \<Rightarrow> ('g, 'h, 's) mgr \<Rightarrow> ('g, 'h, 's) mgr" where
  "scheduleTurnTimer i st g mg =
     (let budget = (case scopeTurn (hgGame g) (Phase (Ctx st)) of Some t \<Rightarrow> tcTimeBudget t | None \<Rightarrow> 0);
          mg = cancelTurnTimer i mg
      in if budget \<le> 0 \<or> Gameover (Ctx st) \<noteq> VNil then mg
         else mg\<lparr>mgTimers := mput i (budget, Turn (Ctx st)) (mgTimers mg)\<rparr>)"

section \<open>Loading a match\<close>

definition decodeState :: "('g, 'h) hosted \<Rightarrow> 'g state \<Rightarrow> string + 'g state" where
  "decodeState g s = (case (hgDecodeG g, rawG s) of
      (Some dec, Some raw) \<Rightarrow>
        (if raw = '''' then Inr s
         else case dec raw of Inl e \<Rightarrow> Inl e | Inr x \<Rightarrow> Inr (s\<lparr>G := x\<rparr>))
    | _ \<Rightarrow> Inr s)"

text \<open>The plugins decoded before one fails stay decoded.\<close>

fun decodePlugins :: "(string \<times> (string \<Rightarrow> string + goval)) list \<Rightarrow> 'g state \<Rightarrow> (string \<times> string) option \<times> 'g state" where
  "decodePlugins [] s = (None, s)"
| "decodePlugins ((name, dec) # ps) s =
     (let raw = (case mget (rawPlugins s) name of Some raw \<Rightarrow> raw | None \<Rightarrow> '''')
      in if raw = '''' then decodePlugins ps s
         else case dec raw of
                Inl e \<Rightarrow> (Some (name, e), s)
              | Inr v \<Rightarrow> decodePlugins ps (s\<lparr>Plugins := mputo name v (Plugins s)\<rparr>))"

fun migrateFrom :: "('g state \<Rightarrow> int \<Rightarrow> string + 'g state) \<Rightarrow> int \<Rightarrow> nat \<Rightarrow> 'g state \<Rightarrow> (int \<times> string) + 'g state" where
  "migrateFrom mig v 0 s = Inr s"
| "migrateFrom mig v (Suc n) s = (case mig s v of Inl e \<Rightarrow> Inl (v, e) | Inr s \<Rightarrow> migrateFrom mig (v + 1) n s)"

definition setState :: "addr \<Rightarrow> 'g state \<Rightarrow> ('g, 'h, 's) mgr \<Rightarrow> ('g, 'h, 's) mgr" where
  "setState a s mg = assign a ((match_at mg a)\<lparr>maState := s\<rparr>) mg"

definition migrate :: "('g, 's) config \<Rightarrow> ('g, 'h) hosted \<Rightarrow> addr \<Rightarrow> ('g, 'h, 's) mgr \<Rightarrow> (matchError + addr) \<times> ('g, 'h, 's) mgr" where
  "migrate cf g a mg =
     (let m = match_at mg a
      in if hgSchemaVersion g \<le> maSchemaVersion m then (Inr a, mg)
         else case hgMigrate g of
           None \<Rightarrow> (Inl ErrNoMigrate, mg)
         | Some mig \<Rightarrow>
             (case migrateFrom mig (maSchemaVersion m) (nat (hgSchemaVersion g - maSchemaVersion m)) (maState m) of
                Inl (v, e) \<Rightarrow> (Inl (ErrMigrate v e), mg)
              | Inr s \<Rightarrow>
                  (let mg = assign a (m\<lparr>maState := s, maSchemaVersion := hgSchemaVersion g\<rparr>) mg;
                       (_, mg) = runStore (stUpdate (cfStore cf) a) mg
                   in (Inr a, mg))))"

definition rehydrate :: "('g, 'h) hosted \<Rightarrow> addr \<Rightarrow> ('g, 'h, 's) mgr \<Rightarrow> matchError option \<times> ('g, 'h, 's) mgr" where
  "rehydrate g a mg = (case decodeState g (maState (match_at mg a)) of
      Inl e \<Rightarrow> (Some (ErrDecodeG e), mg)
    | Inr s \<Rightarrow> (case decodePlugins (hgPluginDecode g) s of
        (Some (name, e), s) \<Rightarrow> (Some (ErrDecodePlugin name e), setState a s mg)
      | (None, s) \<Rightarrow> (None, setState a (ClearRaw s) mg)))"

definition loadMigrated :: "('g, 's) config \<Rightarrow> string \<Rightarrow> ('g, 'h, 's) mgr \<Rightarrow> (matchError + addr) \<times> ('g, 'h, 's) mgr" where
  "loadMigrated cf i mg = (case runStore (stGet (cfStore cf) i) mg of
      (Inl e, mg) \<Rightarrow> (Inl (ErrStore e), mg)
    | (Inr a, mg) \<Rightarrow> (case Game mg (maGameName (match_at mg a)) of
        None \<Rightarrow> (Inr a, mg)
      | Some g \<Rightarrow> (case rehydrate g a mg of
          (Some e, mg) \<Rightarrow> (Inl e, mg)
        | (None, mg) \<Rightarrow> migrate cf g a mg)))"

definition State :: "('g, 's) config \<Rightarrow> string \<Rightarrow> ('g, 'h, 's) mgr \<Rightarrow> (matchError + addr) \<times> ('g, 'h, 's) mgr" where
  "State cf i mg = loadMigrated cf i mg"

definition ListMatches :: "('g, 's) config \<Rightarrow> string \<Rightarrow> ('g, 'h, 's) mgr \<Rightarrow> (matchError + addr list) \<times> ('g, 'h, 's) mgr" where
  "ListMatches cf gameName mg = (case runStore (stList (cfStore cf) gameName) mg of
      (Inl e, mg) \<Rightarrow> (Inl (ErrStore e), mg) | (Inr as, mg) \<Rightarrow> (Inr as, mg))"

section \<open>Broadcasts\<close>

definition broadcastMatchData :: "('g, 's) config \<Rightarrow> string \<Rightarrow> ('g, 'h, 's) mgr \<Rightarrow> ('g, 'h, 's) mgr" where
  "broadcastMatchData cf i mg = (case loadMigrated cf i mg of
      (Inl _, mg) \<Rightarrow> mg
    | (Inr a, mg) \<Rightarrow> sendAll (\<lambda>_. SendMatchData (maPlayers (match_at mg a))) (subsOf i mg) mg)"

definition frameFor :: "('g, 'h) hosted \<Rightarrow> 'g state \<Rightarrow> subscriber \<Rightarrow> 'g frame" where
  "frameFor g st s =
     (let v = PlayerView (hgGame g) st (sbPlayerID s) in if hgDeltaState g \<and> sbPatch s then SendPatch v else Send v)"

definition broadcast :: "('g, 's) config \<Rightarrow> string \<Rightarrow> 'g state \<Rightarrow> ('g, 'h, 's) mgr \<Rightarrow> ('g, 'h, 's) mgr" where
  "broadcast cf i st mg =
     (let subs = subsOf i mg
      in case loadMigrated cf i mg of
           (Inl _, mg) \<Rightarrow> mg
         | (Inr a, mg) \<Rightarrow> (case Game mg (maGameName (match_at mg a)) of
             None \<Rightarrow> mg
           | Some g \<Rightarrow> sendAll (frameFor g st) subs mg))"


section \<open>Creating matches\<close>

record createOptions =
  opNumPlayers :: int
  opSetupData :: goval
  opUnlisted :: bool
  opName :: string
  opJoinCode :: string

definition FindByJoinCode :: "('g, 's) config \<Rightarrow> string \<Rightarrow> string \<Rightarrow> ('g, 'h, 's) mgr \<Rightarrow> (matchError + addr) \<times> ('g, 'h, 's) mgr" where
  "FindByJoinCode cf gameName code mg =
     (if code = '''' then (Inl (ErrStore ErrNotFound), mg)
      else case ListMatches cf gameName mg of
        (Inl e, mg) \<Rightarrow> (Inl e, mg)
      | (Inr as, mg) \<Rightarrow> (case find (\<lambda>a. maJoinCode (match_at mg a) = code) as of
          Some a \<Rightarrow> (Inr a, mg)
        | None \<Rightarrow> (Inl (ErrStore ErrNotFound), mg)))"

text \<open>Storing a new match, announcing it and arming its timer: the end of both create routines.\<close>

definition install :: "('g, 's) config \<Rightarrow> ('g, 'h) hosted \<Rightarrow> 'g match \<Rightarrow> ('g, 'h, 's) mgr \<Rightarrow> (matchError + string) \<times> ('g, 'h, 's) mgr" where
  "install cf g m mg =
     (let (a, mg) = newMatch m mg
      in case runStore (stCreate (cfStore cf) a) mg of
           (Some e, mg) \<Rightarrow> (Inl (ErrStore e), mg)
         | (None, mg) \<Rightarrow>
             (let mg = fireLifecycle ((newEvent LifecycleMatchCreated (maID m) '''')\<lparr>lvState := Some (maState m), lvMatch := Some m\<rparr>) mg
              in (Inr (maID m), scheduleTurnTimer (maID m) (maState m) g mg)))"

definition setupError :: "('g, 'h) hosted \<Rightarrow> goval \<Rightarrow> int \<Rightarrow> matchError option" where
  "setupError g data n = (case gmValidateSetupData (hgGame g) of
      None \<Rightarrow> None
    | Some f \<Rightarrow> (let msg = f data (PlayerCount (hgGame g) n) in if msg = '''' then None else Some (ErrInvalidSetupData msg)))"

definition startMatch :: "('g, 's) config \<Rightarrow> ('g, 'h) hosted \<Rightarrow> createOptions \<Rightarrow> string \<Rightarrow> ('g, 'h, 's) mgr
    \<Rightarrow> ((matchError + string) \<times> ('g, 'h, 's) mgr) option" where
  "startMatch cf g opts gameName mg = do {
     (sd, mg) \<leftarrow> seed cf mg;
     (st, err, h) \<leftarrow> NewMatchSeededE (hgGame g) (opNumPlayers opts) (opSetupData opts) sd (mgMem mg);
     let mg = mg\<lparr>mgMem := h\<rparr>;
     (case err of
        Some e \<Rightarrow> Some (Inl (ErrSetup e), mg)
      | None \<Rightarrow>
          (let (i, mg) = draw (cfNewID cf) mg; (now, mg) = nowUnix cf mg
           in Some (install cf g
                \<lparr>maID = i, maGameName = gameName, maState = st, maPlayers = [], maSetupData = opSetupData opts,
                 maUnlisted = opUnlisted opts, maCreatedAt = now, maNextMatchID = '''', maName = opName opts,
                 maJoinCode = opJoinCode opts, maSchemaVersion = hgSchemaVersion g\<rparr> mg)))
   }"

definition badPlayerCount :: "('g, 'h) hosted \<Rightarrow> int \<Rightarrow> bool" where
  "badPlayerCount g n \<longleftrightarrow> 0 < n \<and>
     (0 < gmMinPlayers (hgGame g) \<and> n < gmMinPlayers (hgGame g) \<or> 0 < gmMaxPlayers (hgGame g) \<and> gmMaxPlayers (hgGame g) < n)"

definition createLockedFull :: "('g, 's) config \<Rightarrow> string \<Rightarrow> createOptions \<Rightarrow> ('g, 'h, 's) mgr
    \<Rightarrow> ((matchError + string) \<times> ('g, 'h, 's) mgr) option" where
  "createLockedFull cf gameName opts mg = (case Game mg gameName of
      None \<Rightarrow> Some (Inl (ErrUnknownGame gameName), mg)
    | Some g \<Rightarrow>
        (if badPlayerCount g (opNumPlayers opts) then Some (Inl ErrInvalidPlayerCount, mg)
         else case setupError g (opSetupData opts) (opNumPlayers opts) of
           Some e \<Rightarrow> Some (Inl e, mg)
         | None \<Rightarrow>
             (let (taken, mg) = (if opJoinCode opts = '''' then (False, mg)
                                 else (case FindByJoinCode cf gameName (opJoinCode opts) mg of
                                         (Inr _, mg) \<Rightarrow> (True, mg) | (Inl _, mg) \<Rightarrow> (False, mg)))
              in if taken then Some (Inl (ErrJoinCodeTaken (opJoinCode opts)), mg) else startMatch cf g opts gameName mg)))"

definition Create :: "('g, 's) config \<Rightarrow> string \<Rightarrow> createOptions \<Rightarrow> ('g, 'h, 's) mgr
    \<Rightarrow> ((matchError + string) \<times> ('g, 'h, 's) mgr) option" where
  "Create cf gameName opts mg = createLockedFull cf gameName opts mg"

definition createLocked :: "('g, 's) config \<Rightarrow> string \<Rightarrow> int \<Rightarrow> goval \<Rightarrow> bool \<Rightarrow> ('g, 'h, 's) mgr
    \<Rightarrow> ((matchError + string) \<times> ('g, 'h, 's) mgr) option" where
  "createLocked cf gameName n data unlisted mg = (case Game mg gameName of
      None \<Rightarrow> Some (Inl (ErrUnknownGame gameName), mg)
    | Some g \<Rightarrow> (case setupError g data n of
        Some e \<Rightarrow> Some (Inl e, mg)
      | None \<Rightarrow> startMatch cf g \<lparr>opNumPlayers = n, opSetupData = data, opUnlisted = unlisted, opName = '''', opJoinCode = ''''\<rparr> gameName mg))"

section \<open>Seats\<close>

record joinResult =
  jrPlayerID :: string
  jrSeat :: string
  jrPlayerCredentials :: string

record joinOptions =
  joPlayerID :: string
  joSeat :: string
  joData :: goval

text \<open>The seat a player gets; growing the table changes the match through its pointer.\<close>

definition pickSeat :: "('g, 'h) hosted option \<Rightarrow> string \<Rightarrow> 'g match \<Rightarrow> matchError + (string \<times> 'g match)" where
  "pickSeat game requested m =
     (let taken = (\<lambda>s. s \<in> prSeat ` set (maPlayers m));
          c = Ctx (maState m);
          dynamic = (case game of None \<Rightarrow> False | Some g \<Rightarrow> hgAllowDynamicPlayers g)
      in if requested \<noteq> '''' then (if taken requested then Inl ErrSeatTaken else Inr (requested, m))
         else case find (\<lambda>s. \<not> taken s) (map itoa [0..<nat (NumPlayers c)]) of
           Some s \<Rightarrow> Inr (s, m)
         | None \<Rightarrow>
             (if \<not> dynamic then Inl ErrNoSeatsLeft
              else case game of
                None \<Rightarrow> Inl ErrNoSeatsLeft
              | Some g \<Rightarrow>
                  (let seat = itoa (nat (NumPlayers c))
                   in if 0 < gmMaxPlayers (hgGame g) \<and> gmMaxPlayers (hgGame g) \<le> NumPlayers c then Inl ErrNoSeatsLeft
                      else Inr (seat, m\<lparr>maState := (maState m)\<lparr>Ctx := c\<lparr>PlayOrder := PlayOrder c @ [seat],
                                        NumPlayers := NumPlayers c + 1\<rparr>\<rparr>\<rparr>))))"

definition Join :: "('g, 's) config \<Rightarrow> string \<Rightarrow> string \<Rightarrow> joinOptions \<Rightarrow> ('g, 'h, 's) mgr
    \<Rightarrow> (matchError + joinResult) \<times> ('g, 'h, 's) mgr" where
  "Join cf i name opts mg = (case loadMigrated cf i mg of
      (Inl e, mg) \<Rightarrow> (Inl e, mg)
    | (Inr a, mg) \<Rightarrow>
        (let m = match_at mg a;
             requested = (if joSeat opts = '''' then joPlayerID opts else joSeat opts)
         in case (if joPlayerID opts = '''' then None else find (\<lambda>p. prID p = joPlayerID opts) (maPlayers m)) of
              Some p \<Rightarrow> (Inr \<lparr>jrPlayerID = prID p, jrSeat = prSeat p, jrPlayerCredentials = prCredentials p\<rparr>, mg)
            | None \<Rightarrow> (case pickSeat (Game mg (maGameName m)) requested m of
                Inl e \<Rightarrow> (Inl e, mg)
              | Inr (seat, m) \<Rightarrow>
                  (let pid = (if joPlayerID opts = '''' then seat else joPlayerID opts);
                       (creds, mg) = draw (cfGenerateCredentials cf) mg;
                       m = m\<lparr>maPlayers := maPlayers m @ [\<lparr>prID = pid, prName = name, prSeat = seat,
                                prCredentials = creds, prData = joData opts, prIsConnected = False\<rparr>]\<rparr>;
                       mg = assign a m mg
                   in case runStore (stUpdate (cfStore cf) a) mg of
                        (Some e, mg) \<Rightarrow> (Inl (ErrStore e), mg)
                      | (None, mg) \<Rightarrow>
                          (let mg = broadcastMatchData cf i mg;
                               mg = fireLifecycle ((newEvent LifecycleMatchJoined i pid)\<lparr>lvState := Some (maState m), lvMatch := Some m\<rparr>) mg
                           in (Inr \<lparr>jrPlayerID = pid, jrSeat = seat, jrPlayerCredentials = creds\<rparr>, mg))))))"

text \<open>The first player with the id, as the loops over \<open>match.Players\<close> find it.\<close>

definition playerIndex :: "string \<Rightarrow> 'g match \<Rightarrow> nat option" where
  "playerIndex pid m = find_index (\<lambda>p. prID p = pid) (maPlayers m)"

text \<open>Storing a change of the players and announcing it.\<close>

definition savePlayers :: "('g, 's) config \<Rightarrow> string \<Rightarrow> addr \<Rightarrow> player list \<Rightarrow> ('g, 'h, 's) mgr \<Rightarrow> matchError option \<times> ('g, 'h, 's) mgr" where
  "savePlayers cf i a ps mg =
     (let mg = assign a ((match_at mg a)\<lparr>maPlayers := ps\<rparr>) mg
      in case runStore (stUpdate (cfStore cf) a) mg of
           (Some e, mg) \<Rightarrow> (Some (ErrStore e), mg)
         | (None, mg) \<Rightarrow> (None, broadcastMatchData cf i mg))"

definition SetConnected :: "('g, 's) config \<Rightarrow> string \<Rightarrow> string \<Rightarrow> bool \<Rightarrow> ('g, 'h, 's) mgr \<Rightarrow> matchError option \<times> ('g, 'h, 's) mgr" where
  "SetConnected cf i pid present mg =
     (if pid = '''' then (None, mg)
      else case loadMigrated cf i mg of
        (Inl e, mg) \<Rightarrow> (Some e, mg)
      | (Inr a, mg) \<Rightarrow>
          (let m = match_at mg a
           in case playerIndex pid m of
                None \<Rightarrow> (None, mg)
              | Some k \<Rightarrow>
                  (let p = maPlayers m ! k
                   in if prIsConnected p = present then (None, mg)
                      else savePlayers cf i a ((maPlayers m)[k := p\<lparr>prIsConnected := present\<rparr>]) mg)))"

definition Leave :: "('g, 's) config \<Rightarrow> string \<Rightarrow> string \<Rightarrow> string \<Rightarrow> ('g, 'h, 's) mgr \<Rightarrow> matchError option \<times> ('g, 'h, 's) mgr" where
  "Leave cf i pid creds mg = (case loadMigrated cf i mg of
      (Inl e, mg) \<Rightarrow> (Some e, mg)
    | (Inr a, mg) \<Rightarrow>
        (let m = match_at mg a
         in case playerIndex pid m of
              None \<Rightarrow> (Some ErrUnknownSeat, mg)
            | Some k \<Rightarrow>
                (if \<not> cfAuthenticate cf creds (maPlayers m ! k) then (Some ErrBadCredentials, mg)
                 else case savePlayers cf i a (remove_at k (maPlayers m)) mg of
                   (Some e, mg) \<Rightarrow> (Some e, mg)
                 | (None, mg) \<Rightarrow>
                     (None, fireLifecycle ((newEvent LifecycleMatchLeft i pid)\<lparr>lvState := Some (maState m),
                              lvMatch := Some (m\<lparr>maPlayers := remove_at k (maPlayers m)\<rparr>)\<rparr>) mg))))"

record updatePlayerOpts =
  upNewName :: "string option"
  upData :: goval
  upHasData :: bool

definition UpdatePlayer :: "('g, 's) config \<Rightarrow> string \<Rightarrow> string \<Rightarrow> string \<Rightarrow> updatePlayerOpts \<Rightarrow> ('g, 'h, 's) mgr
    \<Rightarrow> matchError option \<times> ('g, 'h, 's) mgr" where
  "UpdatePlayer cf i pid creds opts mg = (case loadMigrated cf i mg of
      (Inl e, mg) \<Rightarrow> (Some e, mg)
    | (Inr a, mg) \<Rightarrow>
        (let m = match_at mg a
         in case playerIndex pid m of
              None \<Rightarrow> (Some ErrUnknownSeat, mg)
            | Some k \<Rightarrow>
                (let p = maPlayers m ! k;
                     q = p\<lparr>prName := (case upNewName opts of Some n \<Rightarrow> n | None \<Rightarrow> prName p),
                           prData := (if upHasData opts then upData opts else prData p)\<rparr>
                 in if \<not> cfAuthenticate cf creds p then (Some ErrBadCredentials, mg)
                    else savePlayers cf i a ((maPlayers m)[k := q]) mg)))"

definition Authenticate :: "('g, 's) config \<Rightarrow> string \<Rightarrow> string \<Rightarrow> string \<Rightarrow> ('g, 'h, 's) mgr \<Rightarrow> bool \<times> ('g, 'h, 's) mgr" where
  "Authenticate cf i pid creds mg =
     (if pid = '''' then (False, mg)
      else case loadMigrated cf i mg of
        (Inl _, mg) \<Rightarrow> (False, mg)
      | (Inr a, mg) \<Rightarrow> (case playerIndex pid (match_at mg a) of
          None \<Rightarrow> (False, mg)
        | Some k \<Rightarrow> (cfAuthenticate cf creds (maPlayers (match_at mg a) ! k), mg)))"

text \<open>Reset and PlayAgain accept any player with the id whose credentials match.\<close>

definition authed :: "('g, 's) config \<Rightarrow> string \<Rightarrow> string \<Rightarrow> 'g match \<Rightarrow> bool" where
  "authed cf pid creds m = (\<exists>p\<in>set (maPlayers m). prID p = pid \<and> cfAuthenticate cf creds p)"

definition Reset :: "('g, 's) config \<Rightarrow> string \<Rightarrow> string \<Rightarrow> string \<Rightarrow> ('g, 'h, 's) mgr \<Rightarrow> (matchError option \<times> ('g, 'h, 's) mgr) option" where
  "Reset cf i pid creds mg = (case loadMigrated cf i mg of
      (Inl e, mg) \<Rightarrow> Some (Some e, mg)
    | (Inr a, mg) \<Rightarrow>
        (let m = match_at mg a
         in if \<not> authed cf pid creds m then Some (Some ErrBadCredentials, mg)
            else case Game mg (maGameName m) of
              None \<Rightarrow> Some (Some (ErrUnknownGame (maGameName m)), mg)
            | Some g \<Rightarrow> do {
                (sd, mg) \<leftarrow> seed cf mg;
                (fresh, err, h) \<leftarrow> NewMatchSeededE (hgGame g) (NumPlayers (Ctx (maState m))) (maSetupData m) sd (mgMem mg);
                let mg = mg\<lparr>mgMem := h\<rparr>;
                (case err of
                   Some e \<Rightarrow> Some (Some (ErrSetup e), mg)
                 | None \<Rightarrow>
                     (let m = m\<lparr>maState := fresh, maPlayers := map (prIsConnected_update (\<lambda>_. False)) (maPlayers m)\<rparr>;
                          mg = assign a m mg
                      in case runStore (stUpdate (cfStore cf) a) mg of
                           (Some e, mg) \<Rightarrow> Some (Some (ErrStore e), mg)
                         | (None, mg) \<Rightarrow>
                             (let mg = broadcast cf i fresh mg;
                                  mg = broadcastMatchData cf i mg;
                                  mg = fireLifecycle ((newEvent LifecycleMatchReset i pid)\<lparr>lvState := Some fresh, lvMatch := Some m\<rparr>) mg
                              in Some (None, scheduleTurnTimer i fresh g mg))))
              }))"

definition PlayAgain :: "('g, 's) config \<Rightarrow> string \<Rightarrow> string \<Rightarrow> string \<Rightarrow> int \<Rightarrow> goval \<Rightarrow> bool \<Rightarrow> ('g, 'h, 's) mgr
    \<Rightarrow> ((matchError + string) \<times> ('g, 'h, 's) mgr) option" where
  "PlayAgain cf i pid creds n data usePrev mg = (case loadMigrated cf i mg of
      (Inl e, mg) \<Rightarrow> Some (Inl e, mg)
    | (Inr a, mg) \<Rightarrow>
        (let prev = match_at mg a
         in if \<not> authed cf pid creds prev then Some (Inl ErrBadCredentials, mg)
            else if maNextMatchID prev \<noteq> '''' then Some (Inr (maNextMatchID prev), mg)
            else do {
              let data = (if usePrev \<and> data = VNil then maSetupData prev else data);
              let n = (if n \<le> 0 then NumPlayers (Ctx (maState prev)) else n);
              (r, mg) \<leftarrow> createLocked cf (maGameName prev) n data False mg;
              (case r of
                 Inl e \<Rightarrow> Some (Inl e, mg)
               | Inr i' \<Rightarrow>
                   (let mg = assign a ((match_at mg a)\<lparr>maNextMatchID := i'\<rparr>) mg;
                        (_, mg) = runStore (stUpdate (cfStore cf) a) mg
                    in Some (Inr i', mg)))
            }))"


section \<open>Moves\<close>

text \<open>The seat of the caller: the first player with the id, checked unless no credentials are given.\<close>

definition seatOf :: "('g, 's) config \<Rightarrow> string \<Rightarrow> string \<Rightarrow> 'g match \<Rightarrow> matchError + string" where
  "seatOf cf pid creds m = (case playerIndex pid m of
      None \<Rightarrow> Inl ErrUnknownSeat
    | Some k \<Rightarrow>
        (let p = maPlayers m ! k
         in if creds \<noteq> '''' \<and> \<not> cfAuthenticate cf creds p then Inl ErrBadCredentials
            else if prSeat p = '''' then Inl ErrUnknownSeat else Inr (prSeat p)))"

definition asClient :: "string \<Rightarrow> moveRequest \<Rightarrow> moveRequest" where
  "asClient seat req = req\<lparr>rqPlayerID := seat, rqServerDispatch := False, rqFromClient := True\<rparr>"

text \<open>The match a dispatch hands to the store: a trimmed copy when the game has BeforePersist.\<close>

definition persistMatch :: "('g, 'h) hosted \<Rightarrow> addr \<Rightarrow> 'g state \<Rightarrow> ('g, 'h, 's) mgr \<Rightarrow> addr \<times> ('g, 'h, 's) mgr" where
  "persistMatch g a next mg = (case hgBeforePersist g of
      None \<Rightarrow> (a, mg)
    | Some f \<Rightarrow> newMatch ((match_at mg a)\<lparr>maState := f next\<rparr>) mg)"

definition writeMatch :: "('g, 's) config \<Rightarrow> addr \<Rightarrow> int \<Rightarrow> ('g, 'h, 's) mgr \<Rightarrow> storeError option \<times> ('g, 'h, 's) mgr" where
  "writeMatch cf a expected mg =
     (case (cfUseOptimisticConcurrency cf, stUpdateIfStateID (cfStore cf)) of
        (True, Some swap) \<Rightarrow> runStore (swap a expected) mg
      | _ \<Rightarrow> runStore (stUpdate (cfStore cf) a) mg)"

definition occRetries :: "('g, 's) config \<Rightarrow> nat" where
  "occRetries cf = (if cfOCCMaxRetries cf \<le> 0 then 8 else nat (cfOCCMaxRetries cf))"

text \<open>The retry loop: \<open>left\<close> attempts may still be made. It returns the new and the previous state.\<close>

fun dispatchLoop :: "('g, 's) config \<Rightarrow> nat \<Rightarrow> string \<Rightarrow> string \<Rightarrow> ('g, 'h) hosted \<Rightarrow> addr \<Rightarrow> moveRequest \<Rightarrow> ('g, 'h, 's) mgr
    \<Rightarrow> ((matchError + (addr \<times> 'g state \<times> 'g state)) \<times> ('g, 'h, 's) mgr) option" where
  "dispatchLoop cf 0 i pid g a req mg = Some (Inl (ErrStore ErrConflict), mg)"
| "dispatchLoop cf (Suc left) i pid g a req mg = do {
     let prev = maState (match_at mg a);
     (next, err, h) \<leftarrow> ApplyContext (hgGame g) prev req (mgMem mg);
     let mg = mg\<lparr>mgMem := h\<rparr>;
     (case err of
        Some e \<Rightarrow>
          Some (Inl (ErrCore e), fireLifecycle ((newEvent LifecycleMatchMoveRejected i pid)\<lparr>lvMove := rqMove req,
            lvArgs := rqArgs req, lvErr := Some e, lvStateID := StateID prev\<rparr>) mg)
      | None \<Rightarrow>
          (let mg = setState a next mg;
               (b, mg) = persistMatch g a next mg
           in case writeMatch cf b (StateID next - 1) mg of
                (None, mg) \<Rightarrow> Some (Inr (a, next, prev), mg)
              | (Some ErrConflict, mg) \<Rightarrow>
                  (if left = 0 then Some (Inl (ErrStore ErrConflict), mg)
                   else case loadMigrated cf i mg of
                     (Inl e, mg) \<Rightarrow> Some (Inl e, mg)
                   | (Inr a, mg) \<Rightarrow> dispatchLoop cf left i pid g a req mg)
              | (Some e, mg) \<Rightarrow> Some (Inl (ErrStore e), mg)))
   }"

text \<open>\<open>next.Log[len(prev.Log):]\<close> panics when the log got shorter.\<close>

definition logDelta :: "'g state \<Rightarrow> 'g state \<Rightarrow> logEntry list option" where
  "logDelta prev next = (if length (Log prev) \<le> length (Log next) then Some (drop (length (Log prev)) (Log next)) else None)"

definition dispatchLocked :: "('g, 's) config \<Rightarrow> string \<Rightarrow> string \<Rightarrow> ('g, 'h) hosted \<Rightarrow> addr \<Rightarrow> moveRequest \<Rightarrow> ('g, 'h, 's) mgr
    \<Rightarrow> ((matchError + 'g state) \<times> ('g, 'h, 's) mgr) option" where
  "dispatchLocked cf i pid g a req mg = do {
     (r, mg) \<leftarrow> dispatchLoop cf (occRetries cf) i pid g a req mg;
     (case r of
        Inl e \<Rightarrow> Some (Inl e, mg)
      | Inr (a, next, prev) \<Rightarrow> do {
          let mg = broadcast cf i next mg;
          delta \<leftarrow> logDelta prev next;
          let m = match_at mg a;
          let mg = fireLifecycle ((newEvent LifecycleMatchMoved i pid)\<lparr>lvState := Some next, lvMatch := Some m, lvMove := rqMove req,
                     lvArgs := rqArgs req, lvPrevState := Some prev, lvLogDelta := delta\<rparr>) mg;
          let mg = (if Gameover (Ctx next) \<noteq> VNil \<and> Gameover (Ctx prev) = VNil
                    then fireLifecycle ((newEvent LifecycleMatchGameOver i pid)\<lparr>lvState := Some next, lvMatch := Some m\<rparr>) mg else mg);
          Some (Inr next, scheduleTurnTimer i next g mg)
        })
   }"

definition MoveReqCtx :: "('g, 's) config \<Rightarrow> string \<Rightarrow> string \<Rightarrow> string \<Rightarrow> moveRequest \<Rightarrow> ('g, 'h, 's) mgr
    \<Rightarrow> ((matchError + 'g state) \<times> ('g, 'h, 's) mgr) option" where
  "MoveReqCtx cf i pid creds req mg =
     (let (now, mg) = (if rqNowMs req = 0 then draw (cfNow cf) mg else (rqNowMs req, mg));
          req = req\<lparr>rqNowMs := now\<rparr>
      in if cfRequireStateID cf \<and> rqStateID req = 0 then Some (Inl ErrStateIDRequired, mg)
         else case loadMigrated cf i mg of
           (Inl e, mg) \<Rightarrow> Some (Inl e, mg)
         | (Inr a, mg) \<Rightarrow>
             (let m = match_at mg a
              in case Game mg (maGameName m) of
                   None \<Rightarrow> Some (Inl (ErrUnknownGame (maGameName m)), mg)
                 | Some g \<Rightarrow> (case seatOf cf pid creds m of
                     Inl e \<Rightarrow> Some (Inl e, mg)
                   | Inr seat \<Rightarrow>
                       (if \<not> hgAllowDynamicPlayers g \<and> int (length (maPlayers m)) < NumPlayers (Ctx (maState m))
                        then Some (Inl ErrSeatRequired, mg)
                        else dispatchLocked cf i pid g a (asClient seat req) mg))))"

definition MoveReq :: "('g, 's) config \<Rightarrow> string \<Rightarrow> string \<Rightarrow> string \<Rightarrow> moveRequest \<Rightarrow> ('g, 'h, 's) mgr
    \<Rightarrow> ((matchError + 'g state) \<times> ('g, 'h, 's) mgr) option" where
  "MoveReq cf i pid creds req mg = MoveReqCtx cf i pid creds req mg"

definition plainRequest :: "string \<Rightarrow> goval list \<Rightarrow> moveRequest" where
  "plainRequest move args = \<lparr>rqPlayerID = '''', rqMove = move, rqArgs = args, rqStateID = 0, rqResumeTag = '''', rqNowMs = 0,
     rqServerDispatch = False, rqFromClient = False\<rparr>"

definition Move :: "('g, 's) config \<Rightarrow> string \<Rightarrow> string \<Rightarrow> string \<Rightarrow> string \<Rightarrow> goval list \<Rightarrow> ('g, 'h, 's) mgr
    \<Rightarrow> ((matchError + 'g state) \<times> ('g, 'h, 's) mgr) option" where
  "Move cf i pid creds move args mg = MoveReq cf i pid creds (plainRequest move args) mg"

definition DryMoveReq :: "('g, 's) config \<Rightarrow> string \<Rightarrow> string \<Rightarrow> string \<Rightarrow> moveRequest \<Rightarrow> ('g, 'h, 's) mgr
    \<Rightarrow> ((matchError + 'g state) \<times> ('g, 'h, 's) mgr) option" where
  "DryMoveReq cf i pid creds req mg = (case loadMigrated cf i mg of
      (Inl e, mg) \<Rightarrow> Some (Inl e, mg)
    | (Inr a, mg) \<Rightarrow>
        (let m = match_at mg a
         in case Game mg (maGameName m) of
              None \<Rightarrow> Some (Inl (ErrUnknownGame (maGameName m)), mg)
            | Some g \<Rightarrow> (case seatOf cf pid creds m of
                Inl e \<Rightarrow> Some (Inl e, mg)
              | Inr seat \<Rightarrow> do {
                  (next, err, h) \<leftarrow> Apply (hgGame g) (maState m) (asClient seat req) (mgMem mg);
                  Some (case err of Some e \<Rightarrow> Inl (ErrCore e) | None \<Rightarrow> Inr next, mg\<lparr>mgMem := h\<rparr>)
                })))"

definition DryMove :: "('g, 's) config \<Rightarrow> string \<Rightarrow> string \<Rightarrow> string \<Rightarrow> string \<Rightarrow> goval list \<Rightarrow> ('g, 'h, 's) mgr
    \<Rightarrow> ((matchError + 'g state) \<times> ('g, 'h, 's) mgr) option" where
  "DryMove cf i pid creds move args mg = DryMoveReq cf i pid creds (plainRequest move args) mg"

definition DispatchServer :: "('g, 's) config \<Rightarrow> string \<Rightarrow> string \<Rightarrow> string \<Rightarrow> goval list \<Rightarrow> ('g, 'h, 's) mgr
    \<Rightarrow> ((matchError + 'g state) \<times> ('g, 'h, 's) mgr) option" where
  "DispatchServer cf i pid move args mg = (case loadMigrated cf i mg of
      (Inl e, mg) \<Rightarrow> Some (Inl e, mg)
    | (Inr a, mg) \<Rightarrow>
        (let m = match_at mg a
         in case Game mg (maGameName m) of
              None \<Rightarrow> Some (Inl (ErrUnknownGame (maGameName m)), mg)
            | Some g \<Rightarrow>
                (let (now, mg) = draw (cfNow cf) mg
                 in dispatchLocked cf i pid g a
                      ((plainRequest move args)\<lparr>rqPlayerID := pid, rqStateID := StateID (maState m), rqNowMs := now,
                         rqServerDispatch := True\<rparr>) mg)))"

text \<open>A timer that fires (timer.go).\<close>

definition AutoExpire :: "('g, 's) config \<Rightarrow> string \<Rightarrow> int \<Rightarrow> ('g, 'h, 's) mgr \<Rightarrow> (matchError option \<times> ('g, 'h, 's) mgr) option" where
  "AutoExpire cf i expectedTurn mg = (case loadMigrated cf i mg of
      (Inl e, mg) \<Rightarrow> Some (Some e, mg)
    | (Inr a, mg) \<Rightarrow>
        (let m = match_at mg a
         in if Turn (Ctx (maState m)) \<noteq> expectedTurn \<or> Gameover (Ctx (maState m)) \<noteq> VNil then Some (None, mg)
            else case Game mg (maGameName m) of
              None \<Rightarrow> Some (None, mg)
            | Some g \<Rightarrow> do {
                (next, err, h) \<leftarrow> ForceEndTurnE (hgGame g) (maState m) (mgMem mg);
                let mg = mg\<lparr>mgMem := h\<rparr>;
                (case err of
                   Some e \<Rightarrow> Some (Some (ErrCore e), mg)
                 | None \<Rightarrow>
                     (let mg = setState a next mg
                      in case runStore (stUpdate (cfStore cf) a) mg of
                           (Some e, mg) \<Rightarrow> Some (Some (ErrStore e), mg)
                         | (None, mg) \<Rightarrow>
                             (let mg = broadcast cf i next mg;
                                  mg = fireLifecycle ((newEvent LifecycleMatchMoved i '''')\<lparr>lvState := Some next,
                                         lvMatch := Some (match_at mg a), lvMove := ''__turn_expired__''\<rparr>) mg
                              in Some (None, scheduleTurnTimer i next g mg))))
              }))"

section \<open>Export and import (\<open>export.go\<close>)\<close>

record exportedMatch =
  exGameName :: string
  exNumPlayers :: int
  exSetupData :: goval
  exLog :: "logEntry list"
  exSchemaVersion :: int
  exSeed :: "64 word"

definition ExportMatch :: "('g, 's) config \<Rightarrow> string \<Rightarrow> ('g, 'h, 's) mgr \<Rightarrow> (matchError + exportedMatch) \<times> ('g, 'h, 's) mgr" where
  "ExportMatch cf i mg = (case loadMigrated cf i mg of
      (Inl e, mg) \<Rightarrow> (Inl e, mg)
    | (Inr a, mg) \<Rightarrow>
        (let m = match_at mg a
         in (Inr \<lparr>exGameName = maGameName m, exNumPlayers = NumPlayers (Ctx (maState m)), exSetupData = maSetupData m,
                  exLog = Log (maState m), exSchemaVersion = maSchemaVersion m, exSeed = Seed (Ctx (maState m))\<rparr>, mg)))"

definition ImportMatch :: "('g, 's) config \<Rightarrow> exportedMatch \<Rightarrow> ('g, 'h, 's) mgr \<Rightarrow> ((matchError + string) \<times> ('g, 'h, 's) mgr) option" where
  "ImportMatch cf ex mg = (case Game mg (exGameName ex) of
      None \<Rightarrow> Some (Inl (ErrUnknownGame (exGameName ex)), mg)
    | Some g \<Rightarrow> do {
        (st, err, h) \<leftarrow> ReplaySeeded (hgGame g) (exLog ex) (exNumPlayers ex) (exSetupData ex) (exSeed ex) (mgMem mg);
        let mg = mg\<lparr>mgMem := h\<rparr>;
        (case err of
           Some e \<Rightarrow> Some (Inl (ErrReplay e), mg)
         | None \<Rightarrow>
             (let (i, mg) = draw (cfNewID cf) mg;
                  (now, mg) = nowUnix cf mg;
                  (a, mg) = newMatch \<lparr>maID = i, maGameName = exGameName ex, maState = st, maPlayers = [],
                    maSetupData = exSetupData ex, maUnlisted = False, maCreatedAt = now, maNextMatchID = '''', maName = '''',
                    maJoinCode = '''', maSchemaVersion = exSchemaVersion ex\<rparr> mg
              in case runStore (stCreate (cfStore cf) a) mg of
                   (Some e, mg) \<Rightarrow> Some (Inl (ErrStore e), mg)
                 | (None, mg) \<Rightarrow> Some (Inr i, snd (loadMigrated cf i mg))))
      })"

section \<open>The janitor (\<open>janitor.go\<close>)\<close>

text \<open>Durations are int64 nanoseconds.\<close>

record janitorOptions =
  jaIdleAfter :: int
  jaFinishedAfter :: int
  jaTick :: int

definition janitorDefaults :: "janitorOptions \<Rightarrow> janitorOptions" where
  "janitorDefaults opts =
     (let idle = (if jaIdleAfter opts \<le> 0 then 24 * 3600 * 1000000000 else jaIdleAfter opts)
      in \<lparr>jaIdleAfter = idle, jaFinishedAfter = (if jaFinishedAfter opts \<le> 0 then idle div 2 else jaFinishedAfter opts),
          jaTick = (if jaTick opts \<le> 0 then 300 * 1000000000 else jaTick opts)\<rparr>)"

definition isStale :: "janitorOptions \<Rightarrow> int \<Rightarrow> 'g match \<Rightarrow> bool" where
  "isStale opts now m =
     (let idle = wrap64 (wrap64 (now - maCreatedAt m) * 1000000000);
          threshold = (if Gameover (Ctx (maState m)) \<noteq> VNil then jaFinishedAfter opts else jaIdleAfter opts)
      in threshold \<le> idle)"

definition janitorWipe :: "('g, 's) config \<Rightarrow> 'g match \<Rightarrow> ('g, 'h, 's) mgr \<Rightarrow> ('g, 'h, 's) mgr" where
  "janitorWipe cf m mg = (case runStore (stWipe (cfStore cf) (maID m)) mg of
      (Some _, mg) \<Rightarrow> mg
    | (None, mg) \<Rightarrow> cancelTurnTimer (maID m) mg)"

definition janitorSweep :: "('g, 's) config \<Rightarrow> janitorOptions \<Rightarrow> ('g, 'h, 's) mgr \<Rightarrow> ('g, 'h, 's) mgr" where
  "janitorSweep cf opts mg =
     (let (now, mg) = nowUnix cf mg
      in case runStore (stList (cfStore cf) '''') mg of
           (Inl _, mg) \<Rightarrow> mg
         | (Inr as, mg) \<Rightarrow> fold (janitorWipe cf) (filter (isStale opts now) (map (match_at mg) as)) mg)"

end
