(* ===== verification/ManagerLaws.thy ===== *)
theory ManagerLaws
  imports Manager
begin

text \<open>
  What the match manager guarantees over any store that keeps its contract: moves commit
  entirely or change nothing, seats stay distinct, an exported match imports as the same match;
  and runs that show where it does less than its comments say.
\<close>

section \<open>Loading\<close>

text \<open>A game whose decode hooks never fail, and the match they produce.\<close>

definition decodes :: "('g, 'h) hosted \<Rightarrow> bool" where
  "decodes g \<longleftrightarrow> (\<forall>s. \<exists>s'. decodeState g s = Inr s') \<and> (\<forall>s :: 'g state. fst (decodePlugins (hgPluginDecode g) s) = None)"

definition hydrate :: "('g, 'h) hosted \<Rightarrow> 'g match \<Rightarrow> 'g match" where
  "hydrate g m = (case decodeState g (maState m) of
      Inl _ \<Rightarrow> m | Inr s \<Rightarrow> m\<lparr>maState := ClearRaw (snd (decodePlugins (hgPluginDecode g) s))\<rparr>)"

lemma no_hooks_decodes: "hgDecodeG g = None \<Longrightarrow> hgPluginDecode g = [] \<Longrightarrow> decodes g"
  by (simp add: decodes_def decodeState_def)

lemma hydrate_fields [simp]:
  "maID (hydrate g m) = maID m" "maGameName (hydrate g m) = maGameName m" "maPlayers (hydrate g m) = maPlayers m"
  "maSchemaVersion (hydrate g m) = maSchemaVersion m"
  by (simp_all add: hydrate_def split: sum.splits)

text \<open>The parts of the manager that loading does not touch.\<close>

definition sameRest :: "('g, 'h, 's) mgr \<Rightarrow> ('g, 'h, 's) mgr \<Rightarrow> bool" where
  "sameRest mg mg' \<longleftrightarrow> mgMem mg' = mgMem mg \<and> mgGames mg' = mgGames mg \<and> mgSubs mg' = mgSubs mg \<and> mgSent mg' = mgSent mg \<and>
     mgLifecycle mg' = mgLifecycle mg \<and> mgFired mg' = mgFired mg \<and> mgTimers mg' = mgTimers mg \<and> mgDraws mg' = mgDraws mg"

lemma sameRest_trans: "sameRest a b \<Longrightarrow> sameRest b c \<Longrightarrow> sameRest a c"
  by (simp add: sameRest_def)

lemma sameRest_ops [simp]: "sameRest mg mg" "sameRest mg (assign a m mg)" "sameRest mg (setState a s mg)"
  "sameRest mg (mg\<lparr>mgHeap := H, mgStore := store\<rparr>)"
  by (simp_all add: sameRest_def assign_def setState_def)

lemma runStore_sameRest: "runStore f mg = (r, mg') \<Longrightarrow> sameRest mg mg'"
  by (auto simp: runStore_def split: prod.splits)

lemma rehydrate_fields: "rehydrate g a mg = (r, mg') \<Longrightarrow> sameRest mg mg' \<and> mgStore mg' = mgStore mg \<and> length (mgHeap mg') = length (mgHeap mg)"
  by (auto simp: rehydrate_def setState_def assign_def sameRest_def split: sum.splits prod.splits option.splits)

lemma migrate_sameRest: "migrate cf g a mg = (r, mg') \<Longrightarrow> sameRest mg mg'"
  unfolding migrate_def Let_def
  by (auto split: if_splits option.splits sum.splits prod.splits dest!: runStore_sameRest
      intro: sameRest_trans [OF sameRest_ops(2)])

lemma loadMigrated_sameRest: "loadMigrated cf i mg = (r, mg') \<Longrightarrow> sameRest mg mg'"
  unfolding loadMigrated_def
  by (auto split: option.splits sum.splits prod.splits dest!: runStore_sameRest rehydrate_fields migrate_sameRest intro: sameRest_trans)

lemma rehydrate_decodes:
  assumes "decodes g" "a < length (mgHeap mg)"
  shows "rehydrate g a mg = (None, mg\<lparr>mgHeap := (mgHeap mg)[a := hydrate g (mgHeap mg ! a)]\<rparr>)"
proof -
  obtain s where s: "decodeState g (maState (mgHeap mg ! a)) = Inr s" using assms(1) by (auto simp: decodes_def)
  obtain s' where s': "decodePlugins (hgPluginDecode g) s = (None, s')"
    using assms(1) by (metis decodes_def prod.collapse)
  show ?thesis using assms(2) by (simp add: rehydrate_def match_at_def s s' setState_def assign_def hydrate_def)
qed

text \<open>A match whose game is registered, decodes and has no newer schema.\<close>

definition current :: "('g, 'h, 's) mgr \<Rightarrow> ('g, 'h) hosted \<Rightarrow> 'g match \<Rightarrow> bool" where
  "current mg g m \<longleftrightarrow> Game mg (maGameName m) = Some g \<and> decodes g \<and> hgSchemaVersion g \<le> maSchemaVersion m"

lemma current_same: "sameMatch n m \<Longrightarrow> current mg g m \<Longrightarrow> current mg g n"
  by (simp add: current_def sameMatch_def)

lemma current_hydrate [simp]: "current mg g (hydrate g m) = current mg g m"
  by (simp add: current_def)

context store_contract
begin

text \<open>Loading a current match allocates its hydrated form and changes nothing else.\<close>

lemma load_current:
  assumes cf: "cfStore cf = st" and mg: "ok (mgStore mg)" and m: "saved (mgStore mg) i = Some m" "current mg g m"
    and r: "loadMigrated cf i mg = (r, mg')"
  shows "sameRest mg mg' \<and> ok (mgStore mg') \<and> saved (mgStore mg') = saved (mgStore mg) \<and>
    (case r of
       Inr a \<Rightarrow> a = length (mgHeap mg) \<and> mgHeap mg' = mgHeap mg @ [hydrate g m]
     | Inl e \<Rightarrow> mgHeap mg' = mgHeap mg \<and> (\<exists>e'. e = ErrStore e' \<and> e' \<noteq> ErrNotFound))"
proof -
  obtain q H s where q: "stGet st i (mgHeap mg, mgStore mg) = (q, H, s)" by (metis prod_cases3)
  have same: "sameRest mg mg'" using loadMigrated_sameRest [OF r] .
  show ?thesis
  proof (cases q)
    case (Inl e)
    with get_failed [OF mg] q have "H = mgHeap mg" "ok s" "saved s = saved (mgStore mg)" "e \<noteq> ErrNotFound" using m(1) by fastforce+
    then show ?thesis using same r q cf Inl by (auto simp: loadMigrated_def runStore_def)
  next
    case (Inr a)
    with get_found [OF mg] q m(1) have f: "a = length (mgHeap mg)" "ok s" "saved s = saved (mgStore mg)" "H = mgHeap mg @ [m]" by force+
    let ?mg = "mg\<lparr>mgHeap := H, mgStore := s\<rparr>"
    have hydrated: "rehydrate g a ?mg = (None, mg\<lparr>mgHeap := mgHeap mg @ [hydrate g m], mgStore := s\<rparr>)"
      using rehydrate_decodes [of g a ?mg] m(2) f by (simp add: current_def)
    have "loadMigrated cf i mg = (Inr a, mg\<lparr>mgHeap := mgHeap mg @ [hydrate g m], mgStore := s\<rparr>)"
      using q cf Inr f m(2) hydrated
      by (simp add: loadMigrated_def runStore_def match_at_def current_def Game_def migrate_def)
    then show ?thesis using same r f by auto
  qed
qed

end

context reliable_store
begin

lemma load_reliable:
  assumes cf: "cfStore cf = st" and mg: "ok (mgStore mg)" and m: "saved (mgStore mg) i = Some m" "current mg g m"
  obtains mg' where "loadMigrated cf i mg = (Inr (length (mgHeap mg)), mg')" "sameRest mg mg'" "ok (mgStore mg')"
    "saved (mgStore mg') = saved (mgStore mg)" "mgHeap mg' = mgHeap mg @ [hydrate g m]"
proof -
  obtain r mg' where r: "loadMigrated cf i mg = (r, mg')" by fastforce
  obtain a w where "stGet st i (mgHeap mg, mgStore mg) = (Inr a, w)" using get_there [OF mg m(1)] by blast
  then have "\<nexists>e. r = Inl (ErrStore e)"
    using r cf m(2) rehydrate_fields
    by (auto simp: loadMigrated_def runStore_def migrate_def rehydrate_def Let_def split: prod.splits option.splits sum.splits if_splits)
  then have "\<exists>a. r = Inr a" using load_current [OF cf mg m r] by (cases r) auto
  then show ?thesis using that load_current [OF cf mg m r] r by auto
qed

lemma broadcast_sends:
  assumes cf: "cfStore cf = st" and mg: "ok (mgStore mg)" and m: "saved (mgStore mg) i = Some m" "current mg g m"
  shows "\<exists>mg'. broadcast cf i next mg = mg'\<lparr>mgSent := mgSent mg @ map (\<lambda>s. (s, frameFor g next s)) (subsOf i mg)\<rparr> \<and>
    sameRest mg mg' \<and> ok (mgStore mg') \<and> saved (mgStore mg') = saved (mgStore mg) \<and> mgHeap mg' = mgHeap mg @ [hydrate g m]"
proof -
  obtain mg' where l: "loadMigrated cf i mg = (Inr (length (mgHeap mg)), mg')" "sameRest mg mg'" "ok (mgStore mg')"
    "saved (mgStore mg') = saved (mgStore mg)" "mgHeap mg' = mgHeap mg @ [hydrate g m]"
    using load_reliable [OF cf mg m] .
  moreover from l have "Game mg' (maGameName (match_at mg' (length (mgHeap mg)))) = Some g"
    using m(2) by (simp add: current_def Game_def match_at_def sameRest_def)
  ultimately have "broadcast cf i next mg = sendAll (frameFor g next) (subsOf i mg) mg'" by (simp add: broadcast_def)
  then show ?thesis using l by (intro exI [of _ mg']) (simp add: sendAll_def sameRest_def)
qed

text \<open>Storing a loaded match and announcing it: how AutoExpire and DispatchServer end.\<close>

lemma write_then_broadcast:
  assumes cf: "cfStore cf = st" and mg: "ok (mgStore mg)" "mgHeap mg = H0 @ [n]" "current mg g n"
    and run: "runStore (stUpdate (cfStore cf) (length H0)) mg = (q, mg2)"
  shows "\<exists>s. mg2 = mg\<lparr>mgStore := s\<rparr> \<and> ok s \<and> (q \<noteq> None \<longrightarrow> saved s = saved (mgStore mg)) \<and>
    (q = None \<longrightarrow> saved s = (saved (mgStore mg))(maID n \<mapsto> readBack n) \<and>
      (\<exists>mg3. broadcast cf (maID n) next mg2 = mg3\<lparr>mgSent := mgSent mg @ map (\<lambda>s. (s, frameFor g next s)) (subsOf (maID n) mg)\<rparr> \<and>
        sameRest mg mg3 \<and> saved (mgStore mg3) = saved s))"
proof -
  obtain H s where u: "stUpdate st (length H0) (mgHeap mg, mgStore mg) = (q, H, s)" and mg2: "mg2 = mg\<lparr>mgHeap := H, mgStore := s\<rparr>"
    using run cf by (auto simp: runStore_def split: prod.splits)
  show ?thesis
  proof (cases q)
    case (Some e)
    then show ?thesis using update_failed [OF mg(1)] u mg2 by (intro exI [of _ s]) simp
  next
    case None
    then have s: "H = mgHeap mg" "ok s" "saved s = (saved (mgStore mg))(maID n \<mapsto> readBack n)"
      using update_done [OF mg(1)] u mg(2) by auto
    have "current mg2 g n" using mg(3) mg2 by (simp add: current_def Game_def)
    then have cur: "current mg2 g (readBack n)" using current_same [OF reads_back] by blast
    from broadcast_sends [OF cf _ _ cur, of "maID n" "next"] s mg2 obtain mg3 where
      "broadcast cf (maID n) next mg2 = mg3\<lparr>mgSent := mgSent mg @ map (\<lambda>s. (s, frameFor g next s)) (subsOf (maID n) mg)\<rparr>"
      "sameRest mg2 mg3" "saved (mgStore mg3) = saved s" by (auto simp: subsOf_def)
    then show ?thesis using s mg2 None by (intro exI [of _ s]) (auto simp: sameRest_def)
  qed
qed

end


section \<open>Moves\<close>

definition persisted :: "('g, 'h) hosted \<Rightarrow> 'g state \<Rightarrow> 'g state" where
  "persisted g nx = (case hgBeforePersist g of None \<Rightarrow> nx | Some f \<Rightarrow> f nx)"

lemma occRetries_Suc: "\<exists>n. occRetries cf = Suc n"
  by (rule exI [of _ "occRetries cf - 1"]) (auto simp: occRetries_def)

lemma persistMatch_spec:
  assumes "persistMatch g a nx (setState a nx mg) = (b, mg')" "a < length (mgHeap mg)"
  shows "sameRest mg mg' \<and> mgStore mg' = mgStore mg \<and> mgHeap mg' ! a = (mgHeap mg ! a)\<lparr>maState := nx\<rparr> \<and> a < length (mgHeap mg') \<and>
    mgHeap mg' ! b = (mgHeap mg ! a)\<lparr>maState := persisted g nx\<rparr>"
  using assms
  by (auto simp: persistMatch_def persisted_def newMatch_def alloc_def setState_def assign_def match_at_def sameRest_def nth_append
      split: option.splits)

lemma fireLifecycle_fields [simp]:
  "mgHeap (fireLifecycle ev mg) = mgHeap mg" "mgStore (fireLifecycle ev mg) = mgStore mg" "mgMem (fireLifecycle ev mg) = mgMem mg"
  "mgGames (fireLifecycle ev mg) = mgGames mg" "mgSent (fireLifecycle ev mg) = mgSent mg" "mgSubs (fireLifecycle ev mg) = mgSubs mg"
  "mgTimers (fireLifecycle ev mg) = mgTimers mg" "mgDraws (fireLifecycle ev mg) = mgDraws mg"
  by (simp_all add: fireLifecycle_def)

lemma scheduleTurnTimer_fields [simp]:
  "mgHeap (scheduleTurnTimer i s g mg) = mgHeap mg" "mgStore (scheduleTurnTimer i s g mg) = mgStore mg"
  "mgMem (scheduleTurnTimer i s g mg) = mgMem mg" "mgGames (scheduleTurnTimer i s g mg) = mgGames mg"
  "mgSent (scheduleTurnTimer i s g mg) = mgSent mg" "mgSubs (scheduleTurnTimer i s g mg) = mgSubs mg"
  "mgFired (scheduleTurnTimer i s g mg) = mgFired mg" "mgDraws (scheduleTurnTimer i s g mg) = mgDraws mg"
  by (simp_all add: scheduleTurnTimer_def cancelTurnTimer_def Let_def)

context reliable_store
begin

lemma dispatchLoop_spec:
  assumes cf: "cfStore cf = st" "\<not> cfUseOptimisticConcurrency cf" and mg: "ok (mgStore mg)"
    and a: "a < length (mgHeap mg)" "maID (mgHeap mg ! a) = i"
    and r: "dispatchLoop cf (Suc n) i pid g a req mg = Some (r, mg')"
  obtains (rejected) e where "r = Inl (ErrCore e)" "saved (mgStore mg') = saved (mgStore mg)" "mgSent mg' = mgSent mg" "mgTimers mg' = mgTimers mg"
      "ok (mgStore mg')" "mgGames mg' = mgGames mg"
  | (unsaved) e where "r = Inl (ErrStore e)" "saved (mgStore mg') = saved (mgStore mg)" "mgSent mg' = mgSent mg" "mgTimers mg' = mgTimers mg"
      "ok (mgStore mg')" "mgGames mg' = mgGames mg"
  | (committed) nx where "r = Inr (a, nx, maState (mgHeap mg ! a))" "sameRest (mg\<lparr>mgMem := mgMem mg'\<rparr>) mg'" "ok (mgStore mg')"
      "ApplyContext (hgGame g) (maState (mgHeap mg ! a)) req (mgMem mg) = Some (nx, None, mgMem mg')"
      "saved (mgStore mg) i \<noteq> None"
      "saved (mgStore mg') = (saved (mgStore mg))(i \<mapsto> readBack ((mgHeap mg ! a)\<lparr>maState := persisted g nx\<rparr>))"
proof -
  let ?prev = "maState (mgHeap mg ! a)"
  obtain nx err h where ap: "ApplyContext (hgGame g) ?prev req (mgMem mg) = Some (nx, err, h)"
    using r by (cases "ApplyContext (hgGame g) ?prev req (mgMem mg)") (auto simp: match_at_def)
  show ?thesis
  proof (cases err)
    case (Some e)
    then show ?thesis using r ap mg by (intro rejected [of e]) (auto simp: match_at_def)
  next
    case None
    let ?mg = "mg\<lparr>mgMem := h\<rparr>"
    obtain b mg1 where p: "persistMatch g a nx (setState a nx ?mg) = (b, mg1)" by fastforce
    note ps = persistMatch_spec [OF p, simplified, OF a(1)]
    obtain q H s where q: "stUpdate st b (mgHeap mg1, mgStore mg1) = (q, H, s)" by (metis prod_cases3)
    have id: "maID (mgHeap mg1 ! b) = i" using ps a(2) by simp
    have ok1: "ok (mgStore mg1)" using ps mg by simp
    let ?mg2 = "mg1\<lparr>mgHeap := H, mgStore := s\<rparr>"
    have w: "writeMatch cf b (StateID nx - 1) mg1 = (q, ?mg2)"
      using cf q by (simp add: writeMatch_def runStore_def split: option.split)
    have same: "sameRest ?mg ?mg2" using ps by (simp add: sameRest_def)
    show ?thesis
    proof (cases q)
      case (Some e)
      then have e: "e \<noteq> ErrConflict" "saved s = saved (mgStore mg)" "ok s" using update_failed [OF ok1] q ps by force+
      then have "r = Inl (ErrStore e)" "mg' = ?mg2"
        using r ap None p w Some by (auto simp: match_at_def split: storeError.splits)
      then show ?thesis using same e(2,3) by (intro unsaved [of e]) (auto simp: sameRest_def)
    next
      case written: None
      then have u: "ok s" "saved (mgStore mg1) i \<noteq> None" "saved s = (saved (mgStore mg1))(i \<mapsto> readBack (mgHeap mg1 ! b))"
        using update_done [OF ok1] q id by force+
      have "r = Inr (a, nx, ?prev)" "mg' = ?mg2" using r ap None p w written by (auto simp: match_at_def)
      moreover have "mgMem ?mg2 = h" using same by (simp add: sameRest_def)
      ultimately show ?thesis using same u ps ap None by (intro committed [of nx]) auto
    qed
  qed
qed

lemma dispatchLocked_spec:
  assumes cf: "cfStore cf = st" "\<not> cfUseOptimisticConcurrency cf" and mg: "ok (mgStore mg)"
    and m: "saved (mgStore mg) i = Some m" "current mg g m" and a: "a < length (mgHeap mg)" "mgHeap mg ! a = hydrate g m"
    and r: "dispatchLocked cf i pid g a req mg = Some (r, mg')"
  shows "ok (mgStore mg') \<and> mgGames mg' = mgGames mg \<and> (case r of
      Inl e \<Rightarrow> saved (mgStore mg') = saved (mgStore mg) \<and> mgSent mg' = mgSent mg \<and> mgTimers mg' = mgTimers mg
    | Inr nx \<Rightarrow>
        ApplyContext (hgGame g) (maState (hydrate g m)) req (mgMem mg) = Some (nx, None, mgMem mg') \<and>
        saved (mgStore mg') = (saved (mgStore mg))(i \<mapsto> readBack ((hydrate g m)\<lparr>maState := persisted g nx\<rparr>)) \<and>
        mgSent mg' = mgSent mg @ map (\<lambda>s. (s, frameFor g nx s)) (subsOf i mg))"
proof -
  obtain n where n: "occRetries cf = Suc n" using occRetries_Suc by blast
  obtain q mg1 where q: "dispatchLoop cf (Suc n) i pid g a req mg = Some (q, mg1)"
    using r n by (cases "dispatchLoop cf (Suc n) i pid g a req mg") (auto simp: dispatchLocked_def)
  have id: "maID (mgHeap mg ! a) = i" using saved_id [OF mg m(1)] a(2) by simp
  from q show ?thesis
  proof (cases rule: dispatchLoop_spec [OF cf mg a(1) id, consumes 1, case_names rejected unsaved committed])
    case (rejected e)
    then show ?thesis using r n q by (auto simp: dispatchLocked_def)
  next
    case (unsaved e)
    then show ?thesis using r n q by (auto simp: dispatchLocked_def)
  next
    case (committed nx)
    let ?m = "readBack ((hydrate g m)\<lparr>maState := persisted g nx\<rparr>)"
    have m1: "saved (mgStore mg1) i = Some ?m" using committed(6) a(2) by simp
    have "current mg1 g ?m"
      using m(2) committed(2) reads_back [of "(hydrate g m)\<lparr>maState := persisted g nx\<rparr>"]
      by (simp add: current_def Game_def sameRest_def sameMatch_def)
    from broadcast_sends [OF cf(1) committed(3) m1 this, of nx] obtain mg2 where
      b: "broadcast cf i nx mg1 = mg2\<lparr>mgSent := mgSent mg1 @ map (\<lambda>s. (s, frameFor g nx s)) (subsOf i mg1)\<rparr>"
      "sameRest mg1 mg2" "saved (mgStore mg2) = saved (mgStore mg1)" "ok (mgStore mg2)" by blast
    from r n q committed(1) have "r = Inr nx \<and> mgStore mg' = mgStore mg2 \<and> mgMem mg' = mgMem mg2 \<and> mgGames mg' = mgGames mg2 \<and>
        mgSent mg' = mgSent mg1 @ map (\<lambda>s. (s, frameFor g nx s)) (subsOf i mg1)"
      by (auto simp: dispatchLocked_def b(1) Let_def bind_eq_Some_conv)
    then show ?thesis using b(2-4) committed(2,4,6) a(2) by (auto simp: sameRest_def subsOf_def)
  qed
qed

end


lemma MoveReqCtx_spec:
  assumes store: "reliable_store (cfStore cf) ok saved readBack" and cf: "\<not> cfUseOptimisticConcurrency cf"
    and mg: "ok (mgStore mg)" "saved (mgStore mg) i = Some m" "current mg g m"
    and r: "MoveReqCtx cf i pid creds req mg = Some (r, mg')"
  shows "ok (mgStore mg') \<and> mgGames mg' = mgGames mg \<and> (case r of
      Inl e \<Rightarrow> saved (mgStore mg') = saved (mgStore mg) \<and> mgSent mg' = mgSent mg \<and> mgTimers mg' = mgTimers mg
    | Inr nx \<Rightarrow> \<exists>k now.
        find_index (\<lambda>p. prID p = pid) (maPlayers m) = Some k \<and>
        (creds = '''' \<or> cfAuthenticate cf creds (maPlayers m ! k)) \<and>
        (hgAllowDynamicPlayers g \<or> NumPlayers (Ctx (maState (hydrate g m))) \<le> int (length (maPlayers m))) \<and>
        ApplyContext (hgGame g) (maState (hydrate g m)) (asClient (prSeat (maPlayers m ! k)) (req\<lparr>rqNowMs := now\<rparr>)) (mgMem mg) =
          Some (nx, None, mgMem mg') \<and>
        saved (mgStore mg') = (saved (mgStore mg))(i \<mapsto> readBack ((hydrate g m)\<lparr>maState := persisted g nx\<rparr>)) \<and>
        mgSent mg' = mgSent mg @ map (\<lambda>s. (s, frameFor g nx s)) (subsOf i mg))"
proof -
  obtain now mg0 where now: "(if rqNowMs req = 0 then draw (cfNow cf) mg else (rqNowMs req, mg)) = (now, mg0)" by fastforce
  let ?req = "req\<lparr>rqNowMs := now\<rparr>"
  have mg0: "mgStore mg0 = mgStore mg" "mgSent mg0 = mgSent mg" "mgTimers mg0 = mgTimers mg" "mgSubs mg0 = mgSubs mg" "mgMem mg0 = mgMem mg"
    "mgGames mg0 = mgGames mg" using now by (auto simp: draw_def split: if_splits)
  have cur0: "ok (mgStore mg0)" "saved (mgStore mg0) i = Some m" "current mg0 g m"
    using mg by (simp_all add: mg0 current_def Game_def)
  obtain q mg1 where l: "loadMigrated cf i mg0 = (q, mg1)" by fastforce
  note load = store_contract.load_current [OF reliable_store.axioms(1) [OF store] refl cur0 l]
  show ?thesis
  proof (cases "cfRequireStateID cf \<and> rqStateID req = 0 \<or> (\<exists>e. q = Inl e)")
    case True
    then have "(\<exists>e. r = Inl e) \<and> (mg' = mg0 \<or> mg' = mg1)" using r l by (auto simp: MoveReqCtx_def now Let_def split: if_splits)
    then show ?thesis using load mg(1) by (auto simp: mg0 sameRest_def)
  next
    case False
    then obtain a where a: "q = Inr a" by (cases q) auto
    with load have s: "sameRest mg0 mg1" "ok (mgStore mg1)" "saved (mgStore mg1) = saved (mgStore mg0)" "a < length (mgHeap mg1)"
      "mgHeap mg1 ! a = hydrate g m" by auto
    have cur1: "saved (mgStore mg1) i = Some m" "current mg1 g m"
      using cur0 s(1,3) by (auto simp: current_def Game_def sameRest_def)
    have game: "Game mg1 (maGameName (hydrate g m)) = Some g" using cur1(2) by (simp add: current_def)
    show ?thesis
    proof (cases "seatOf cf pid creds (hydrate g m)")
      case (Inl e)
      then have "r = Inl e" "mg' = mg1" using r l False a s(5) game by (auto simp: MoveReqCtx_def now Let_def match_at_def)
      then show ?thesis using s(1-3) by (auto simp: mg0 sameRest_def)
    next
      case (Inr seat)
      then obtain k where k: "find_index (\<lambda>p. prID p = pid) (maPlayers m) = Some k" "seat = prSeat (maPlayers m ! k)"
        "creds = '''' \<or> cfAuthenticate cf creds (maPlayers m ! k)"
        by (auto simp: seatOf_def playerIndex_def Let_def split: option.splits if_splits)
      show ?thesis
      proof (cases "\<not> hgAllowDynamicPlayers g \<and> int (length (maPlayers m)) < NumPlayers (Ctx (maState (hydrate g m)))")
        case True
        then have "r = Inl ErrSeatRequired" "mg' = mg1" using r l False a s(5) game Inr by (auto simp: MoveReqCtx_def now Let_def match_at_def)
        then show ?thesis using s(1-3) by (auto simp: mg0 sameRest_def)
      next
        case seated: False
        have "dispatchLocked cf i pid g a (asClient seat ?req) mg1 = Some (r, mg')"
          using r l False a s(5) game Inr seated by (auto simp: MoveReqCtx_def now Let_def match_at_def)
        note d = reliable_store.dispatchLocked_spec [OF store refl cf s(2) cur1 s(4,5) this]
        show ?thesis using d k seated s(1,3) by (cases r) (auto simp: mg0 sameRest_def subsOf_def)
      qed
    qed
  qed
qed


section \<open>A table to play at\<close>

definition hostedCounter :: "(nat, unit) hosted" where
  "hostedCounter = \<lparr>hgGame = counterGame\<lparr>gmName := ''counter''\<rparr>, hgBeforePersist = None, hgDeltaState = False, hgAllowDynamicPlayers = False,
     hgSchemaVersion = 0, hgMigrate = None, hgDecodeG = None, hgPluginDecode = []\<rparr>"

definition seated :: "string \<Rightarrow> string \<Rightarrow> string \<Rightarrow> player" where
  "seated pid seat creds = \<lparr>prID = pid, prName = ''p'', prSeat = seat, prCredentials = creds, prData = VNil, prIsConnected = False\<rparr>"

definition tableMatch :: "nat match" where
  "tableMatch = \<lparr>maID = ''m'', maGameName = ''counter'', maState = counterState, maPlayers = [seated ''0'' ''0'' ''s0'', seated ''1'' ''1'' ''s1''],
     maSetupData = VNil, maUnlisted = False, maCreatedAt = 0, maNextMatchID = '''', maName = '''', maJoinCode = '''', maSchemaVersion = 0\<rparr>"

definition tableMgr :: "'s \<Rightarrow> (nat, unit, 's) mgr" where
  "tableMgr s = (NewManager s ())\<lparr>mgGames := [(''counter'', hostedCounter)],
     mgSubs := [(''m'', [\<lparr>sbID = 1, sbPlayerID = ''1'', sbPatch = False\<rparr>])]\<rparr>"

definition tableConfig :: "(nat, 's) storage \<Rightarrow> (nat, 's) config" where
  "tableConfig st = \<lparr>cfStore = st, cfNewID = (\<lambda>n. ''x'' @ itoa n), cfRand = (\<lambda>n. of_nat n), cfSeedFn = None, cfNow = (\<lambda>n. 1000 * int n),
     cfGenerateCredentials = (\<lambda>n. ''secret'' @ itoa n), cfAuthenticate = defaultAuthenticate, cfRequireStateID = False,
     cfUseOptimisticConcurrency = False, cfOCCMaxRetries = 0\<rparr>"

lemma tableMatch_current: "current (tableMgr s) hostedCounter tableMatch"
  by (simp add: current_def tableMgr_def tableMatch_def Game_def hostedCounter_def no_hooks_decodes)



section \<open>Seats\<close>

text \<open>
  What the seating operations do to the stored players of a match: nothing, a new player on a
  free seat, a player less, or a change that keeps every player's id, seat and credentials.
\<close>

definition keys :: "player list \<Rightarrow> (string \<times> string \<times> string) list" where
  "keys ps = map (\<lambda>p. (prID p, prSeat p, prCredentials p)) ps"

definition seats :: "player list \<Rightarrow> string list" where
  "seats ps = map prSeat ps"

lemma seats_keys: "seats ps = map (fst \<circ> snd) (keys ps)"
  by (simp add: seats_def keys_def)

lemma sameMatch_seats: "sameMatch m n \<Longrightarrow> seats (maPlayers m) = seats (maPlayers n)"
  by (simp add: sameMatch_def seats_keys keys_def)

inductive lobby_step :: "('g, 's) config \<Rightarrow> ('g, 'h, 's) mgr \<Rightarrow> ('g, 'h, 's) mgr \<Rightarrow> bool" for cf where
  join: "lobby_step cf mg (snd (Join cf i name opts mg))"
| leave: "lobby_step cf mg (snd (Leave cf i pid creds mg))"
| update: "lobby_step cf mg (snd (UpdatePlayer cf i pid creds upd mg))"
| connect: "lobby_step cf mg (snd (SetConnected cf i pid present mg))"
| look: "lobby_step cf mg (snd (State cf i mg))"
| move: "MoveReqCtx cf i pid creds req mg = Some (r, mg') \<Longrightarrow> lobby_step cf mg mg'"

definition tablesOk :: "('s \<Rightarrow> bool) \<Rightarrow> ('s \<Rightarrow> string \<Rightarrow> 'g match option) \<Rightarrow> ('g, 'h, 's) mgr \<Rightarrow> bool" where
  "tablesOk ok saved mg \<longleftrightarrow> ok (mgStore mg) \<and>
     (\<forall>name g. Game mg name = Some g \<longrightarrow> decodes g \<and> \<not> hgAllowDynamicPlayers g \<and> hgSchemaVersion g \<le> 0) \<and>
     (\<forall>i m. saved (mgStore mg) i = Some m \<longrightarrow>
        0 \<le> maSchemaVersion m \<and> Game mg (maGameName m) \<noteq> None \<and> distinct (seats (maPlayers m)))"

lemma tablesOk_current:
  assumes "tablesOk ok saved mg" "saved (mgStore mg) i = Some m"
  obtains g where "current mg g m" "\<not> hgAllowDynamicPlayers g"
  using assms by (fastforce simp: tablesOk_def current_def)

lemma tablesOk_same:
  assumes "tablesOk ok saved mg" "ok (mgStore mg')" "mgGames mg' = mgGames mg" "saved (mgStore mg') = saved (mgStore mg)"
  shows "tablesOk ok saved mg'"
  using assms by (simp add: tablesOk_def Game_def)

lemma tablesOk_store:
  assumes "tablesOk ok saved mg" "ok (mgStore mg')" "mgGames mg' = mgGames mg" "saved (mgStore mg) i = Some m"
    "saved (mgStore mg') = (saved (mgStore mg))(i \<mapsto> n)"
    "maGameName n = maGameName m" "maSchemaVersion n = maSchemaVersion m" "distinct (seats (maPlayers n))"
  shows "tablesOk ok saved mg'"
proof -
  have games: "\<forall>name g. Game mg' name = Some g \<longrightarrow> decodes g \<and> \<not> hgAllowDynamicPlayers g \<and> hgSchemaVersion g \<le> 0"
    using assms(1) by (simp add: tablesOk_def Game_def assms(3))
  have "0 \<le> maSchemaVersion x \<and> Game mg' (maGameName x) \<noteq> None \<and> distinct (seats (maPlayers x))"
    if x: "saved (mgStore mg') j = Some x" for j x
  proof (cases "j = i")
    case True
    then have "x = n" using x assms(5) by simp
    moreover have "0 \<le> maSchemaVersion m \<and> Game mg (maGameName m) \<noteq> None"
      using assms(1,4) unfolding tablesOk_def by blast
    ultimately show ?thesis using assms(3,6,7,8) by (simp add: Game_def)
  next
    case False
    then have "saved (mgStore mg) j = Some x" using x assms(5) by simp
    then show ?thesis using assms(1,3) unfolding tablesOk_def Game_def by metis
  qed
  then show ?thesis using games assms(2) unfolding tablesOk_def by blast
qed

lemma tablesOk_fields [simp]: "tablesOk ok saved (mg\<lparr>mgSent := x\<rparr>) = tablesOk ok saved mg"
  "tablesOk ok saved (fireLifecycle ev mg) = tablesOk ok saved mg" "tablesOk ok saved (mg\<lparr>mgDraws := n\<rparr>) = tablesOk ok saved mg"
  by (simp_all add: tablesOk_def Game_def)

context store_contract
begin

text \<open>A load leaves a table as it was and yields the match itself up to decoding.\<close>

lemma load_table:
  assumes cf: "cfStore cf = st" and mg: "tablesOk ok saved mg" and l: "loadMigrated cf i mg = (r, mg')"
  shows "tablesOk ok saved mg' \<and> saved (mgStore mg') = saved (mgStore mg) \<and> sameRest mg mg' \<and>
    (\<forall>a. r = Inr a \<longrightarrow> a < length (mgHeap mg') \<and> (\<exists>m g. saved (mgStore mg) i = Some m \<and> current mg g m \<and>
       \<not> hgAllowDynamicPlayers g \<and> match_at mg' a = hydrate g m))"
proof (cases "saved (mgStore mg) i")
  case None
  have ok: "ok (mgStore mg)" using mg by (simp add: tablesOk_def)
  obtain q H s where q: "stGet st i (mgHeap mg, mgStore mg) = (q, H, s)" by (metis prod_cases3)
  have "\<exists>e. q = Inl e" using get_found [OF ok, of i "mgHeap mg"] None q by (cases q) auto
  then obtain e where e: "q = Inl e" ..
  with get_failed [OF ok] q have s: "H = mgHeap mg" "ok s" "saved s = saved (mgStore mg)" by blast+
  have "r = Inl (ErrStore e)" "mg' = mg\<lparr>mgHeap := H, mgStore := s\<rparr>" using l q e cf by (auto simp: loadMigrated_def runStore_def)
  then show ?thesis using s tablesOk_same [OF mg, of mg'] by (simp add: sameRest_def)
next
  case (Some m)
  have ok: "ok (mgStore mg)" using mg by (simp add: tablesOk_def)
  obtain g where g: "current mg g m" "\<not> hgAllowDynamicPlayers g" using tablesOk_current [OF mg Some] .
  note load = load_current [OF cf ok Some g(1) l]
  then have "tablesOk ok saved mg'" using tablesOk_same [OF mg, of mg'] by (simp add: sameRest_def)
  then show ?thesis using load Some g by (auto simp: match_at_def)
qed

lemma broadcastMatchData_table:
  assumes "cfStore cf = st" "tablesOk ok saved mg"
  shows "tablesOk ok saved (broadcastMatchData cf i mg)"
proof -
  obtain r mg' where l: "loadMigrated cf i mg = (r, mg')" by fastforce
  from load_table [OF assms l] show ?thesis
    by (cases r) (auto simp: broadcastMatchData_def l sendAll_def)
qed

text \<open>Storing other players for a match that was loaded.\<close>

lemma store_players:
  assumes cf: "cfStore cf = st" and mg: "tablesOk ok saved mg" and a: "a < length (mgHeap mg)"
    and m: "saved (mgStore mg) i = Some m" and n: "maID n = i" "maGameName n = maGameName m" "maSchemaVersion n = maSchemaVersion m"
    and d: "distinct (seats (maPlayers n))" and u: "runStore (stUpdate (cfStore cf) a) (assign a n mg) = (e, mg')"
  shows "tablesOk ok saved mg'"
proof -
  have ok: "ok (mgStore mg)" using mg by (simp add: tablesOk_def)
  obtain q H s where q: "stUpdate st a ((mgHeap mg)[a := n], mgStore mg) = (q, H, s)" by (metis prod_cases3)
  have mg': "e = q" "mg' = (assign a n mg)\<lparr>mgHeap := H, mgStore := s\<rparr>" using u q cf by (auto simp: runStore_def assign_def)
  show ?thesis
  proof (cases q)
    case (Some x)
    with update_failed [OF ok] q have "ok s" "saved s = saved (mgStore mg)" by blast+
    then show ?thesis using mg' by (intro tablesOk_same [OF mg]) (auto simp: assign_def)
  next
    case None
    with update_done [OF ok] q a n(1) have s: "ok s" "saved s = (saved (mgStore mg))(i \<mapsto> readBack n)" by fastforce+
    show ?thesis
      by (rule tablesOk_store [OF mg _ _ m, of mg' "readBack n"])
        (use s mg' n d reads_back [of n] sameMatch_seats [OF reads_back, of n] in \<open>auto simp: assign_def sameMatch_def\<close>)
  qed
qed

lemma savePlayers_table:
  assumes cf: "cfStore cf = st" and mg: "tablesOk ok saved mg" and a: "a < length (mgHeap mg)"
    and m: "saved (mgStore mg) i = Some m" "match_at mg a = hydrate g m" and d: "distinct (seats ps)"
  shows "tablesOk ok saved (snd (savePlayers cf i a ps mg))"
proof -
  let ?n = "(match_at mg a)\<lparr>maPlayers := ps\<rparr>"
  have id: "maID m = i" using saved_id m(1) mg by (auto simp: tablesOk_def)
  obtain e mg' where u: "runStore (stUpdate (cfStore cf) a) (assign a ?n mg) = (e, mg')" by fastforce
  have "tablesOk ok saved mg'"
    by (rule store_players [OF cf mg a m(1) _ _ _ _ u]) (use id m(2) d in auto)
  then show ?thesis using u broadcastMatchData_table [OF cf] by (auto simp: savePlayers_def Let_def split: option.splits)
qed

end


lemma seats_update: "prSeat q = prSeat (ps ! k) \<Longrightarrow> seats (ps[k := q]) = seats ps"
  by (cases "k < length ps") (simp_all add: seats_def map_update list_update_beyond, metis list_update_id nth_map)

lemma seats_remove_at: "distinct (seats ps) \<Longrightarrow> distinct (seats (remove_at k ps))"
proof -
  assume "distinct (seats ps)"
  moreover have "seats ps = seats (take k ps) @ seats (drop k ps)" by (simp add: seats_def flip: map_append)
  moreover have "seats (remove_at k ps) = seats (take k ps) @ drop 1 (seats (drop k ps))"
    by (simp add: remove_at_def seats_def drop_map)
  ultimately show ?thesis by (auto dest: in_set_dropD)
qed

lemma pickSeat_free:
  assumes "pickSeat game requested m = Inr (seat, n)" "case game of None \<Rightarrow> True | Some g \<Rightarrow> \<not> hgAllowDynamicPlayers g"
  shows "n = m \<and> seat \<notin> set (seats (maPlayers m))"
  using assms by (auto simp: pickSeat_def seats_def Let_def find_Some_iff split: if_splits option.splits)

context store_contract
begin

lemma Join_table:
  assumes cf: "cfStore cf = st" and mg: "tablesOk ok saved mg" and j: "Join cf i name opts mg = (r, mg')"
  shows "tablesOk ok saved mg'"
proof -
  obtain q mg1 where l: "loadMigrated cf i mg = (q, mg1)" by fastforce
  note load = load_table [OF cf mg l]
  show ?thesis
  proof (cases q)
    case (Inl e)
    then show ?thesis using j l load by (simp add: Join_def)
  next
    case (Inr a)
    then obtain m g where m: "a < length (mgHeap mg1)" "saved (mgStore mg1) i = Some m" "current mg1 g m" "\<not> hgAllowDynamicPlayers g"
      "match_at mg1 a = hydrate g m" using load by (auto simp: current_def Game_def sameRest_def)
    have id: "maID m = i" using saved_id m(2) load by (auto simp: tablesOk_def)
    have d: "distinct (seats (maPlayers m))" using load m(2) by (auto simp: tablesOk_def)
    have game: "Game mg1 (maGameName m) = Some g" using m(3) by (simp add: current_def)
    let ?requested = "if joSeat opts = '''' then joPlayerID opts else joSeat opts"
    consider (reconnect) "mg' = mg1" | (seat) seat n where "pickSeat (Some g) ?requested (hydrate g m) = Inr (seat, n)"
      using j l Inr m(5) game by (auto simp: Join_def Let_def split: option.splits sum.splits)
    then show ?thesis
    proof cases
      case reconnect
      then show ?thesis using load by simp
    next
      case (seat seat n)
      have n: "n = hydrate g m" "seat \<notin> set (seats (maPlayers m))" using pickSeat_free [OF seat] m(4) by auto
      let ?pid = "if joPlayerID opts = '''' then seat else joPlayerID opts"
      let ?p = "\<lparr>prID = ?pid, prName = name, prSeat = seat, prCredentials = cfGenerateCredentials cf (mgDraws mg1),
        prData = joData opts, prIsConnected = False\<rparr>"
      let ?n = "(hydrate g m)\<lparr>maPlayers := maPlayers m @ [?p]\<rparr>"
      let ?mg = "mg1\<lparr>mgDraws := Suc (mgDraws mg1)\<rparr>"
      obtain e mg2 where u: "runStore (stUpdate (cfStore cf) a) (assign a ?n ?mg) = (e, mg2)" by fastforce
      have t: "tablesOk ok saved mg2"
        by (rule store_players [OF cf _ _ _ _ _ _ _ u, of i m])
          (use load m(1,2) id d n(2) in \<open>auto simp: seats_def\<close>)
      have "mg' = mg1 \<or> (\<exists>ev. mg' = mg2 \<or> mg' = fireLifecycle ev (broadcastMatchData cf i mg2))"
        using j l Inr m(5) game seat n(1) u
        by (auto simp: Join_def Let_def draw_def split: option.splits)
      then show ?thesis using load t broadcastMatchData_table [OF cf t] by auto
    qed
  qed
qed

lemma players_table:
  assumes cf: "cfStore cf = st" and mg: "tablesOk ok saved mg"
  shows "tablesOk ok saved (snd (Leave cf i pid creds mg))" "tablesOk ok saved (snd (UpdatePlayer cf i pid creds upd mg))"
    "tablesOk ok saved (snd (SetConnected cf i pid present mg))" "tablesOk ok saved (snd (State cf i mg))"
proof -
  obtain q mg1 where l: "loadMigrated cf i mg = (q, mg1)" by fastforce
  note load = load_table [OF cf mg l]
  have save: "tablesOk ok saved (snd (savePlayers cf i a ps mg1))"
    if "q = Inr a" "distinct (seats (maPlayers (match_at mg1 a))) \<Longrightarrow> distinct (seats ps)" for a ps
  proof -
    from that(1) load obtain m g where m: "a < length (mgHeap mg1)" "saved (mgStore mg1) i = Some m" "match_at mg1 a = hydrate g m"
      "current mg g m" by auto
    have "distinct (seats (maPlayers m))" using load m(2) by (auto simp: tablesOk_def)
    then show ?thesis using savePlayers_table [OF cf _ m(1,2,3)] load that(2) m(3) by simp
  qed
  show "tablesOk ok saved (snd (State cf i mg))" using load by (simp add: State_def l)
  show "tablesOk ok saved (snd (Leave cf i pid creds mg))"
  proof (cases q)
    case (Inr a)
    show ?thesis
    proof (cases "playerIndex pid (match_at mg1 a)")
      case (Some k)
      have "tablesOk ok saved (snd (savePlayers cf i a (remove_at k (maPlayers (match_at mg1 a))) mg1))"
        by (rule save [OF Inr]) (rule seats_remove_at)
      then show ?thesis using load Some by (auto simp: Leave_def l Inr Let_def split: prod.splits option.splits)
    qed (use load in \<open>simp add: Leave_def l Inr Let_def\<close>)
  qed (use load in \<open>simp add: Leave_def l\<close>)
  show "tablesOk ok saved (snd (UpdatePlayer cf i pid creds upd mg))"
    using load by (auto simp: UpdatePlayer_def l Let_def split: sum.splits option.splits intro!: save) (simp_all add: seats_update)
  show "tablesOk ok saved (snd (SetConnected cf i pid present mg))"
    using load mg by (auto simp: SetConnected_def l Let_def split: sum.splits option.splits intro!: save) (simp_all add: seats_update)
qed

end

lemma lobby_step_ok:
  assumes store: "reliable_store (cfStore cf) ok saved readBack" and cf: "\<not> cfUseOptimisticConcurrency cf"
    and step: "lobby_step cf mg mg'" and mg: "tablesOk ok saved mg"
  shows "tablesOk ok saved mg'"
  using step mg
proof (induction rule: lobby_step.induct)
  case (join mg i name opts)
  then show ?case using store_contract.Join_table [OF reliable_store.axioms(1) [OF store] refl] by (metis prod.collapse)
next
  case (move i pid creds req mg r mg')
  show ?case
  proof (cases "saved (mgStore mg) i")
    case None
    obtain now mg0 where now: "(if rqNowMs req = 0 then draw (cfNow cf) mg else (rqNowMs req, mg)) = (now, mg0)" by fastforce
    then have mg0: "mg0 = mg\<lparr>mgDraws := mgDraws mg0\<rparr>" by (auto simp: draw_def split: if_splits)
    then have t0: "tablesOk ok saved mg0" using move.prems tablesOk_fields(3) by metis
    obtain q mg1 where l: "loadMigrated cf i mg0 = (q, mg1)" by fastforce
    note load = store_contract.load_table [OF reliable_store.axioms(1) [OF store] refl t0 l]
    have "mgStore mg0 = mgStore mg" by (subst mg0) simp
    then have "\<exists>e. q = Inl e" using load None by (cases q) auto
    then have "mg' = mg0 \<or> mg' = mg1" using move.hyps l by (auto simp: MoveReqCtx_def now Let_def split: if_splits)
    then show ?thesis using t0 load by auto
  next
    case (Some m)
    obtain g where g: "current mg g m" using tablesOk_current [OF move.prems Some] .
    have ok: "ok (mgStore mg)" using move.prems by (simp add: tablesOk_def)
    note spec = MoveReqCtx_spec [OF store cf ok Some g move.hyps]
    show ?thesis
    proof (cases r)
      case (Inl e)
      then show ?thesis using spec tablesOk_same [OF move.prems, of mg'] by auto
    next
      case (Inr nx)
      let ?n = "(hydrate g m)\<lparr>maState := persisted g nx\<rparr>"
      have d: "distinct (seats (maPlayers m))" using move.prems Some by (auto simp: tablesOk_def)
      have same: "sameMatch (readBack ?n) ?n" by (rule store_contract.reads_back [OF reliable_store.axioms(1) [OF store]])
      show ?thesis
        by (rule tablesOk_store [OF move.prems _ _ Some, of mg' "readBack ?n"])
          (use spec Inr same sameMatch_seats [OF same] d in \<open>auto simp: sameMatch_def\<close>)
    qed
  qed
qed (simp_all add: store_contract.players_table [OF reliable_store.axioms(1) [OF store] refl])





section \<open>Joining\<close>

text \<open>
  Join hands out credentials: asked for a player id that is seated, it returns that player's
  seat and credentials to whoever asks, without any check, and the ids are the seat numbers
  unless the players chose others.
\<close>

theorem Join_reveals_credentials:
  assumes store: "reliable_store (cfStore cf) ok saved readBack" and mg: "ok (mgStore mg)" "saved (mgStore mg) i = Some m" "current mg g m"
    and p: "joPlayerID opts \<noteq> ''''" "find (\<lambda>p. prID p = joPlayerID opts) (maPlayers m) = Some p"
  shows "\<exists>mg'. Join cf i name opts mg = (Inr \<lparr>jrPlayerID = prID p, jrSeat = prSeat p, jrPlayerCredentials = prCredentials p\<rparr>, mg') \<and>
    saved (mgStore mg') = saved (mgStore mg)"
proof -
  obtain mg' where "loadMigrated cf i mg = (Inr (length (mgHeap mg)), mg')" "saved (mgStore mg') = saved (mgStore mg)"
    "mgHeap mg' = mgHeap mg @ [hydrate g m]" using reliable_store.load_reliable [OF store refl mg] .
  then show ?thesis using p by (intro exI [of _ mg']) (simp add: Join_def match_at_def Let_def)
qed

theorem Join_reveals_credentials_witness:
  "let cf = tableConfig Memory; mg = tableMgr [(''m'', tableMatch)]; opts = \<lparr>joPlayerID = ''0'', joSeat = '''', joData = VNil\<rparr>
   in fst (Join cf ''m'' ''mallory'' opts mg) = Inr \<lparr>jrPlayerID = ''0'', jrSeat = ''0'', jrPlayerCredentials = ''s0''\<rparr>"
proof -
  have st: "reliable_store (cfStore (tableConfig Memory)) memOk map_of (\<lambda>m. m)" by (simp add: tableConfig_def mem.reliable_store_axioms)
  have mg: "memOk (mgStore (tableMgr [(''m'', tableMatch)]))" "map_of (mgStore (tableMgr [(''m'', tableMatch)])) ''m'' = Some tableMatch"
    by (simp_all add: tableMgr_def NewManager_def memOk_def mwf_def tableMatch_def)
  from Join_reveals_credentials [OF st mg tableMatch_current, of "\<lparr>joPlayerID = ''0'', joSeat = '''', joData = VNil\<rparr>" "seated ''0'' ''0'' ''s0''" "''mallory''"]
  show ?thesis by (auto simp: tableMatch_def seated_def)
qed

definition joining :: "string \<Rightarrow> string \<Rightarrow> joinOptions" where
  "joining pid seat = \<lparr>joPlayerID = pid, joSeat = seat, joData = VNil\<rparr>"

text \<open>
  Two players can end up with one id: the first sits down on seat 0 under the id 1, the second
  takes the free seat 1 and with it the id 1. The second player's own credentials are then
  refused, because every call finds the first.
\<close>

theorem Join_duplicates_an_id:
  "let cf = tableConfig Memory; mg = tableMgr [(''m'', tableMatch\<lparr>maPlayers := []\<rparr>)];
       (r1, mg) = Join cf ''m'' ''a'' (joining ''1'' ''0'') mg;
       (r2, mg) = Join cf ''m'' ''b'' (joining '''' '''') mg
   in map jrPlayerID [projr r1, projr r2] = [''1'', ''1''] \<and>
      map_option (\<lambda>(r, _). map_sum id StateID r)
        (MoveReqCtx cf ''m'' (jrPlayerID (projr r2)) (jrPlayerCredentials (projr r2)) (plainRequest ''bump'' []) mg) =
      Some (Inl ErrBadCredentials)"
  by code_simp

text \<open>
  Seats are not checked against the table. A player may take a seat that does not exist, which
  counts towards a full table; and in a game that seats players dynamically the table can grow
  onto a seat somebody took that way, so two players share it.
\<close>

theorem Join_ignores_the_table:
  "let cf = tableConfig Memory; mg = tableMgr [(''m'', tableMatch\<lparr>maPlayers := []\<rparr>)];
       dyn = mg\<lparr>mgGames := [(''counter'', hostedCounter\<lparr>hgAllowDynamicPlayers := True\<rparr>)]\<rparr>;
       (_, mg) = Join cf ''m'' ''a'' (joining ''0'' ''0'') mg;
       (r, mg) = Join cf ''m'' ''b'' (joining ''x'' ''banana'') mg;
       (_, dyn) = Join cf ''m'' ''a'' (joining '''' ''2'') dyn;
       (_, dyn) = Join cf ''m'' ''b'' (joining '''' '''') dyn;
       (_, dyn) = Join cf ''m'' ''c'' (joining '''' '''') dyn;
       (_, dyn) = Join cf ''m'' ''d'' (joining '''' '''') dyn
   in jrSeat (projr r) = ''banana'' \<and>
      map_option (\<lambda>(r, _). map_sum id StateID r) (MoveReqCtx cf ''m'' ''0'' '''' (plainRequest ''bump'' []) mg) = Some (Inr 1) \<and>
      map_option (\<lambda>m. map prSeat (maPlayers m)) (map_of (mgStore dyn) ''m'') = Some [''2'', ''0'', ''1'', ''2'']"
  by code_simp

section \<open>Optimistic concurrency\<close>

text \<open>A game with a move that chains another.\<close>

definition chainBump :: "(nat, unit) moveFn" where
  "chainBump mc args h = (Inr (Suc (mcG mc)), noEffects\<lparr>efEvents := [EvRunMove ''bump'' []]\<rparr>, h)"

definition hostedChain :: "(nat, unit) hosted" where
  "hostedChain = hostedCounter\<lparr>hgGame := counterGame\<lparr>gmName := ''counter'', gmMoves := Some [(''bump'', RawFn bump), (''chain'', RawFn chainBump)]\<rparr>\<rparr>"

definition chainMgr :: "(nat, unit, nat memory) mgr" where
  "chainMgr = (tableMgr [(''m'', tableMatch)])\<lparr>mgGames := [(''counter'', hostedChain)]\<rparr>"

definition occConfig :: "(nat, nat memory) config" where
  "occConfig = (tableConfig Memory)\<lparr>cfUseOptimisticConcurrency := True\<rparr>"

text \<open>
  The compare-and-swap expects the id before the new one, but a chained move counts too. So
  under optimistic concurrency a move that chains another can never be stored: with nobody else
  writing, all eight attempts conflict.
\<close>

theorem occ_never_stores_a_chained_move:
  "map_option (\<lambda>(r, mg). (map_sum id StateID r, map_option (\<lambda>m. StateID (maState m)) (map_of (mgStore mg) ''m'')))
     (MoveReqCtx occConfig ''m'' ''0'' ''s0'' (plainRequest ''chain'' []) chainMgr) =
   Some (Inl (ErrStore ErrConflict), Some 0)"
  by code_simp

text \<open>
  And it can overwrite a peer's move: this manager loads the match at state 0, a peer stores
  a move (state 1), and the chained move made on state 0 gives state 2, whose expected
  predecessor is 1. The swap succeeds and the peer's move is gone.
\<close>

theorem occ_overwrites_a_peers_move:
  "let (mine, mg) = loadMigrated occConfig ''m'' chainMgr;
       peer = MoveReqCtx occConfig ''m'' ''0'' ''s0'' (plainRequest ''bump'' []) chainMgr;
       shared = mgStore (snd (the peer));
       r = dispatchLocked occConfig ''m'' ''0'' hostedChain (projr mine) (asClient ''0'' (plainRequest ''chain'' [])) (mg\<lparr>mgStore := shared\<rparr>)
   in map_option (\<lambda>m. (StateID (maState m), length (Log (maState m)))) (map_of shared ''m'') = Some (1, 1) \<and>
      map_option (\<lambda>(r, mg). (map_sum id StateID r,
        map_option (\<lambda>m. map (\<lambda>e. (leKind e, leMove e)) (Log (maState m))) (map_of (mgStore mg) ''m''))) r =
      Some (Inr 2, Some [(''move'', ''chain''), (''chained-move'', ''bump'')])"
  by code_simp

section \<open>Cached stores\<close>

definition readOnly :: "(nat, nat memory) storage" where
  "readOnly = Memory\<lparr>stUpdate := (\<lambda>a (H, s). (Some (ErrIO ''disk full''), H, s))\<rparr>"

definition cacheForever :: cacheOpts where
  "cacheForever = \<lparr>coTTL = 0, coMaxEntries = 0, coNow = (\<lambda>_. 0)\<rparr>"

text \<open>
  A move that could not be stored still happens in the cache: the manager writes the new state
  into the match the cache handed out before it tries to store it. The call fails with the
  store's error, and the next read shows the move.
\<close>

theorem failed_move_stays_in_the_cache:
  "let cf = tableConfig (Cached readOnly cacheForever);
       mg = tableMgr (NewCached [(''m'', tableMatch)]);
       r = MoveReqCtx cf ''m'' ''0'' ''s0'' (plainRequest ''bump'' []) mg
   in map_option (\<lambda>(r, mg). (map_sum id StateID r,
        map_option (\<lambda>m. StateID (maState m)) (map_of (caInner (mgStore mg)) ''m''),
        (case State cf ''m'' mg of (Inr a, mg) \<Rightarrow> StateID (maState (match_at mg a)) | _ \<Rightarrow> -1))) r =
      Some (Inl (ErrStore (ErrIO ''disk full'')), Some 0, 1)"
  by code_simp


section \<open>Export and import\<close>


lemma counter_played:
  "\<exists>st0 h0 S h'. NewMatchSeeded (hgGame hostedCounter) 2 VNil 7 () = Some (st0, h0) \<and>
     playAll (hgGame hostedCounter) counterPlay st0 h0 = Some (S, h') \<and> G S = 3 \<and> NumPlayers (Ctx S) = 2 \<and> Seed (Ctx S) = 7 \<and>
     rawG S = None \<and> rawPlugins S = None"
proof -
  have "Option.bind (NewMatchSeeded (hgGame hostedCounter) 2 VNil 7 ()) (\<lambda>(st0, h0). map_option
      (\<lambda>(S, h). (G S, NumPlayers (Ctx S), Seed (Ctx S), rawG S, rawPlugins S)) (playAll (hgGame hostedCounter) counterPlay st0 h0)) =
      Some (3, 2, 7, None, None)" by code_simp
  then show ?thesis by (auto simp: bind_eq_Some_conv)
qed


lemma Import_sameTimers: "ImportMatch cf ex mg = Some (r, mg') \<Longrightarrow> mgTimers mg' = mgTimers mg"
proof -
  have *: "runStore f mg = (q, mg1) \<Longrightarrow> mgTimers mg1 = mgTimers mg" for f q and mg mg1 :: "('a, 'b, 'c) mgr"
    using runStore_sameRest [of f mg q mg1] by (simp add: sameRest_def)
  have "mgTimers (snd (loadMigrated cf j mg)) = mgTimers mg" for j and mg :: "('a, 'b, 'c) mgr"
    using loadMigrated_sameRest [of cf j mg] by (metis prod.collapse sameRest_def)
  then show "ImportMatch cf ex mg = Some (r, mg') \<Longrightarrow> mgTimers mg' = mgTimers mg"
    by (auto simp: ImportMatch_def draw_def nowUnix_def newMatch_def alloc_def Let_def bind_eq_Some_conv split: option.splits prod.splits dest!: *)
qed

text \<open>
  Importing a match never arms its turn timer, although scheduleTurnTimer is documented to be
  called after an import: a match imported in the middle of a timed turn does not expire until
  somebody moves.
\<close>

theorem Import_arms_no_timer:
  assumes "ImportMatch cf ex mg = Some (Inr i, mg')" "map_of (mgTimers mg) i = None"
  shows "map_of (mgTimers mg') i = None"
  using Import_sameTimers [OF assms(1)] assms(2) by simp

section \<open>The janitor\<close>

text \<open>A store that lists and wipes what it holds.\<close>

definition sweepable :: "('g, 's) storage \<Rightarrow> ('s \<Rightarrow> bool) \<Rightarrow> ('s \<Rightarrow> string \<Rightarrow> 'g match option) \<Rightarrow> bool" where
  "sweepable st ok saved \<longleftrightarrow> (\<forall>s H. ok s \<longrightarrow> (\<exists>as w. stList st '''' (H, s) = (Inr as, w))) \<and>
     (\<forall>s H i. ok s \<and> saved s i \<noteq> None \<longrightarrow> fst (stWipe st i (H, s)) = None)"

context store_contract
begin

lemma janitorWipe_all:
  assumes cf: "cfStore cf = st" and sweep: "sweepable st ok saved"
  shows "ok (mgStore mg) \<Longrightarrow> ok (mgStore (fold (janitorWipe cf) ms mg)) \<and>
    saved (mgStore (fold (janitorWipe cf) ms mg)) = (\<lambda>i. if i \<in> maID ` set ms then None else saved (mgStore mg) i) \<and>
    mgSent (fold (janitorWipe cf) ms mg) = mgSent mg"
proof (induction ms arbitrary: mg)
  case (Cons m ms)
  obtain q H s where q: "stWipe st (maID m) (mgHeap mg, mgStore mg) = (q, H, s)" by (metis prod_cases3)
  have s: "ok s \<and> saved s = (saved (mgStore mg))(maID m := None)"
  proof (cases q)
    case None
    then show ?thesis using wipe_done [OF Cons.prems] q by simp
  next
    case (Some e)
    then have "saved (mgStore mg) (maID m) = None" using sweep Cons.prems q unfolding sweepable_def by (metis fst_conv option.distinct(1))
    then show ?thesis using wipe_failed [OF Cons.prems] q Some by (simp add: fun_upd_idem)
  qed
  have w: "mgStore (janitorWipe cf m mg) = s" "mgSent (janitorWipe cf m mg) = mgSent mg"
    using q cf by (simp_all add: janitorWipe_def runStore_def cancelTurnTimer_def split: option.split)
  have "fold (janitorWipe cf) (m # ms) mg = fold (janitorWipe cf) ms (janitorWipe cf m mg)" by simp
  then show ?case using Cons.IH [of "janitorWipe cf m mg"] s w by (auto simp: fun_eq_iff)
qed simp

end

text \<open>
  A sweep wipes exactly the stale matches: over a store that lists and wipes what it holds, the
  matches left are those whose age is below the threshold (a shorter one for finished games),
  unchanged, and nobody is notified.
\<close>

theorem janitor_wipes_the_stale:
  assumes store: "store_contract (cfStore cf) ok saved readBack" and sweep: "sweepable (cfStore cf) ok saved" and ok: "ok (mgStore mg)"
  shows "let now = cfNow cf (mgDraws mg) div 1000; mg' = janitorSweep cf opts mg in
    saved (mgStore mg') = (\<lambda>i. case saved (mgStore mg) i of None \<Rightarrow> None | Some m \<Rightarrow> if isStale opts now m then None else Some m) \<and>
    mgSent mg' = mgSent mg"
proof -
  let ?now = "cfNow cf (mgDraws mg) div 1000" let ?mg = "mg\<lparr>mgDraws := Suc (mgDraws mg)\<rparr>"
  obtain as H s where q: "stList (cfStore cf) '''' (mgHeap mg, mgStore mg) = (Inr as, H, s)"
    using sweep ok unfolding sweepable_def by (metis prod.exhaust)
  from store_contract.list_done [OF store ok q] obtain ms where
    l: "ok s" "saved s = saved (mgStore mg)" "H = mgHeap mg @ ms" "as = [length (mgHeap mg)..<length (mgHeap mg) + length ms]"
    "set ms = {m. \<exists>i. saved (mgStore mg) i = Some m}" by (auto simp: ofGame_def)
  let ?mg1 = "?mg\<lparr>mgHeap := H, mgStore := s\<rparr>"
  have "map (match_at ?mg1) as = ms"
    by (rule nth_equalityI) (simp_all add: l(3,4) match_at_def)
  then have sw: "janitorSweep cf opts mg = fold (janitorWipe cf) (filter (isStale opts ?now) ms) ?mg1"
    using q by (simp add: janitorSweep_def nowUnix_def draw_def runStore_def Let_def)
  have id: "saved (mgStore mg) i = Some m \<Longrightarrow> maID m = i" for i m by (rule store_contract.saved_id [OF store ok])
  have "i \<in> maID ` set (filter (isStale opts ?now) ms) \<longleftrightarrow> (\<exists>m. saved (mgStore mg) i = Some m \<and> isStale opts ?now m)" for i
    using id by (auto simp: l(5) image_iff)
  then show ?thesis using store_contract.janitorWipe_all [OF store refl sweep, of ?mg1 "filter (isStale opts ?now) ms"] l(1,2)
    by (auto simp: Let_def sw fun_eq_iff split: option.splits)
qed

lemma Memory_sweepable: "sweepable Memory memOk map_of"
  by (auto simp: sweepable_def Memory_def memList_def memWipe_def allocAll_def split: option.splits)

theorem janitor_wipes_the_stale_witness:
  "let cf = (tableConfig Memory)\<lparr>cfNow := (\<lambda>_. 86400 * 1000)\<rparr>; mg = tableMgr [(''m'', tableMatch), (''n'', tableMatch\<lparr>maID := ''n'', maCreatedAt := 86000\<rparr>)];
       mg' = janitorSweep cf (janitorDefaults \<lparr>jaIdleAfter = 0, jaFinishedAfter = 0, jaTick = 0\<rparr>) mg
   in memOk (mgStore mg) \<and> map_of (mgStore mg') ''m'' = None \<and> mgSent mg' = mgSent mg"
proof -
  let ?cf = "(tableConfig Memory)\<lparr>cfNow := (\<lambda>_. 86400 * 1000)\<rparr>"
  let ?mg = "tableMgr [(''m'', tableMatch), (''n'', tableMatch\<lparr>maID := ''n'', maCreatedAt := 86000\<rparr>)]"
  let ?opts = "janitorDefaults \<lparr>jaIdleAfter = 0, jaFinishedAfter = 0, jaTick = 0\<rparr>"
  have st: "store_contract (cfStore ?cf) memOk map_of (\<lambda>m. m)" "sweepable (cfStore ?cf) memOk map_of"
    by (simp_all add: tableConfig_def mem.store_contract_axioms Memory_sweepable)
  have ok: "memOk (mgStore ?mg)" by (simp add: tableMgr_def NewManager_def memOk_def mwf_def tableMatch_def)
  have "isStale ?opts 86400 tableMatch" by code_simp
  then show ?thesis using janitor_wipes_the_stale [OF st ok, of ?opts] ok
    by (simp add: Let_def tableConfig_def) (simp add: tableMgr_def NewManager_def)
qed

text \<open>
  The janitor counts from the creation of a match, not from its last move: a match a day old
  is wiped although a move was made in it a moment before.
\<close>

theorem janitor_wipes_a_match_in_play:
  "let cf = (tableConfig Memory)\<lparr>cfNow := (\<lambda>_. 86400 * 1000)\<rparr>; mg = tableMgr [(''m'', tableMatch)];
       opts = janitorDefaults \<lparr>jaIdleAfter = 0, jaFinishedAfter = 0, jaTick = 0\<rparr>
   in map_option (\<lambda>(r, mg). (isl r, map_option (\<lambda>m. map leNowMs (Log (maState m))) (map_of (mgStore mg) ''m''), mgStore (janitorSweep cf opts mg)))
        (MoveReqCtx cf ''m'' ''0'' ''s0'' (plainRequest ''bump'' []) mg) = Some (False, Some [86400000], [])"
  by code_simp


section \<open>Turn timers\<close>



end
