(* ===== verification/McpGames.thy ===== *)
theory McpGames
  imports ManagerLaws "HOL-Library.Char_ord" "HOL-Library.List_Lexorder"
begin

text \<open>
  The multi-tenant part of the MCP server: who owns which match (\<open>mcp/ownership.go\<close>,
  \<open>mcp/ownership_pg.go\<close>), the store of designed games (\<open>mcp/usergames.go\<close>) and the registry that
  scopes designed games by user on top of the match manager (\<open>mcp/registry.go\<close>).

  The Starlark front end is a parameter: loading a spec, validating it and building its game.
  The table behind the Postgres store is a list of rows; every statement may fail.
\<close>

section \<open>Ownership of matches (\<open>ownership.go\<close>)\<close>

datatype ownError = UserIDRequired | MatchIDRequired | AlreadyOwned string | QueryFailed

record 'o ownershipStore =
  owClaim :: "string \<Rightarrow> string \<Rightarrow> 'o \<Rightarrow> ownError option \<times> 'o"
  owOwns :: "string \<Rightarrow> string \<Rightarrow> 'o \<Rightarrow> (ownError + bool) \<times> 'o"
  owMatchesFor :: "string \<Rightarrow> 'o \<Rightarrow> (ownError + string list) \<times> 'o"

record memoryOwnership =
  moOwners :: "string gomap"
  moByUserID :: "string list gomap"

definition NewMemoryOwnership :: memoryOwnership where
  "NewMemoryOwnership = \<lparr>moOwners = [], moByUserID = []\<rparr>"

definition matchesOf :: "string \<Rightarrow> memoryOwnership \<Rightarrow> string list" where
  "matchesOf userID o1 = (case map_of (moByUserID o1) userID of None \<Rightarrow> [] | Some is \<Rightarrow> is)"

definition memClaim :: "string \<Rightarrow> string \<Rightarrow> memoryOwnership \<Rightarrow> ownError option \<times> memoryOwnership" where
  "memClaim userID matchID o1 =
     (if userID = '''' then (Some UserIDRequired, o1)
      else if matchID = '''' then (Some MatchIDRequired, o1)
      else if (case map_of (moOwners o1) matchID of None \<Rightarrow> False | Some existing \<Rightarrow> existing \<noteq> userID)
      then (Some (AlreadyOwned matchID), o1)
      else
        (let o1 = o1\<lparr>moOwners := mput matchID userID (moOwners o1)\<rparr>
         in if matchID \<in> set (matchesOf userID o1) then (None, o1)
            else (None, o1\<lparr>moByUserID := mput userID (matchesOf userID o1 @ [matchID]) (moByUserID o1)\<rparr>)))"

definition memOwns :: "string \<Rightarrow> string \<Rightarrow> memoryOwnership \<Rightarrow> (ownError + bool) \<times> memoryOwnership" where
  "memOwns userID matchID o1 = (case map_of (moOwners o1) matchID of
      None \<Rightarrow> (Inr False, o1) | Some owner \<Rightarrow> (Inr (owner = userID), o1))"

definition memMatchesFor :: "string \<Rightarrow> memoryOwnership \<Rightarrow> (ownError + string list) \<times> memoryOwnership" where
  "memMatchesFor userID o1 = (Inr (matchesOf userID o1), o1)"

definition MemoryOwnership :: "memoryOwnership ownershipStore" where
  "MemoryOwnership = \<lparr>owClaim = memClaim, owOwns = memOwns, owMatchesFor = memMatchesFor\<rparr>"

section \<open>Ownership in Postgres (\<open>ownership_pg.go\<close>)\<close>

record ownershipRow =
  orUserID :: string
  orMatchID :: string
  orCreatedAt :: int

record pgOwnership =
  poRows :: "ownershipRow list"
  poQueries :: nat

text \<open>Which statements fail, and the database's clock at each of them.\<close>

record pgWorld =
  pwFails :: "nat \<Rightarrow> bool"
  pwNow :: "nat \<Rightarrow> int"

definition query :: "pgOwnership \<Rightarrow> pgOwnership" where
  "query o1 = o1\<lparr>poQueries := Suc (poQueries o1)\<rparr>"

text \<open>\<open>SELECT user_id ... WHERE match_id = $1 LIMIT 1\<close>; no row is not an error.\<close>

definition existingOwner :: "pgWorld \<Rightarrow> string \<Rightarrow> pgOwnership \<Rightarrow> (ownError + string option) \<times> pgOwnership" where
  "existingOwner w matchID o1 =
     (if pwFails w (poQueries o1) then Inl QueryFailed
      else Inr (map_option orUserID (find (\<lambda>r. orMatchID r = matchID) (poRows o1))), query o1)"

text \<open>\<open>INSERT ... ON CONFLICT (user_id, match_id) DO NOTHING\<close>.\<close>

definition insertOwner :: "pgWorld \<Rightarrow> string \<Rightarrow> string \<Rightarrow> pgOwnership \<Rightarrow> ownError option \<times> pgOwnership" where
  "insertOwner w userID matchID o1 =
     (if pwFails w (poQueries o1) then (Some QueryFailed, query o1)
      else if \<exists>r\<in>set (poRows o1). orUserID r = userID \<and> orMatchID r = matchID then (None, query o1)
      else (None, (query o1)\<lparr>poRows := poRows o1 @
        [\<lparr>orUserID = userID, orMatchID = matchID, orCreatedAt = pwNow w (poQueries o1)\<rparr>]\<rparr>))"

definition pgClaim :: "pgWorld \<Rightarrow> string \<Rightarrow> string \<Rightarrow> pgOwnership \<Rightarrow> ownError option \<times> pgOwnership" where
  "pgClaim w userID matchID o1 =
     (if userID = '''' then (Some UserIDRequired, o1)
      else if matchID = '''' then (Some MatchIDRequired, o1)
      else case existingOwner w matchID o1 of
        (Inl e, o1) \<Rightarrow> (Some e, o1)
      | (Inr existing, o1) \<Rightarrow>
          (if existing \<noteq> None \<and> existing \<noteq> Some userID then (Some (AlreadyOwned matchID), o1)
           else insertOwner w userID matchID o1))"

definition pgOwns :: "pgWorld \<Rightarrow> string \<Rightarrow> string \<Rightarrow> pgOwnership \<Rightarrow> (ownError + bool) \<times> pgOwnership" where
  "pgOwns w userID matchID o1 =
     (if pwFails w (poQueries o1) then Inl QueryFailed
      else Inr (\<exists>r\<in>set (poRows o1). orUserID r = userID \<and> orMatchID r = matchID), query o1)"

definition pgMatchesFor :: "pgWorld \<Rightarrow> string \<Rightarrow> pgOwnership \<Rightarrow> (ownError + string list) \<times> pgOwnership" where
  "pgMatchesFor w userID o1 =
     (if pwFails w (poQueries o1) then Inl QueryFailed
      else Inr (map orMatchID (sort_key orCreatedAt (filter (\<lambda>r. orUserID r = userID) (poRows o1)))), query o1)"

definition PostgresOwnership :: "pgWorld \<Rightarrow> pgOwnership ownershipStore" where
  "PostgresOwnership w = \<lparr>owClaim = pgClaim w, owOwns = pgOwns w, owMatchesFor = pgMatchesFor w\<rparr>"

section \<open>Designed games (\<open>usergames.go\<close>)\<close>

record userGame =
  ugUserID :: string
  ugName :: string
  ugSource :: string
  ugLLMGuide :: string
  ugCreatedAt :: "int option"

record 'u userGameStore =
  ugPut :: "userGame \<Rightarrow> 'u \<Rightarrow> string option \<times> 'u"
  ugGet :: "string \<Rightarrow> string \<Rightarrow> 'u \<Rightarrow> (string + userGame option) \<times> 'u"
  ugList :: "string \<Rightarrow> 'u \<Rightarrow> (string + string list) \<times> 'u"
  ugListAll :: "'u \<Rightarrow> (string + userGame list) \<times> 'u"
  ugDelete :: "string \<Rightarrow> string \<Rightarrow> 'u \<Rightarrow> string option \<times> 'u"

definition NUL :: char where "NUL = CHR 0x00"

definition ugKey :: "string \<Rightarrow> string \<Rightarrow> string" where
  "ugKey userID name = userID @ NUL # name"

text \<open>The map of games and the number of clock readings so far.\<close>

record inMemoryUserGames =
  imGames :: "userGame gomap"
  imReads :: nat

definition imPut :: "(nat \<Rightarrow> int) \<Rightarrow> userGame \<Rightarrow> inMemoryUserGames \<Rightarrow> string option \<times> inMemoryUserGames" where
  "imPut clock ug s =
     (let (ug, s) = (if ugCreatedAt ug = None then (ug\<lparr>ugCreatedAt := Some (clock (imReads s))\<rparr>, s\<lparr>imReads := Suc (imReads s)\<rparr>) else (ug, s))
      in (None, s\<lparr>imGames := mput (ugKey (ugUserID ug) (ugName ug)) ug (imGames s)\<rparr>))"

definition imGet :: "string \<Rightarrow> string \<Rightarrow> inMemoryUserGames \<Rightarrow> (string + userGame option) \<times> inMemoryUserGames" where
  "imGet userID name s = (Inr (map_of (imGames s) (ugKey userID name)), s)"

definition imList :: "string \<Rightarrow> inMemoryUserGames \<Rightarrow> (string + string list) \<times> inMemoryUserGames" where
  "imList userID s =
     (let prefix = userID @ [NUL]
      in (Inr (sort (map (drop (length prefix))
            (filter (\<lambda>k. length prefix < length k \<and> take (length prefix) k = prefix) (map fst (imGames s))))), s))"

definition imListAll :: "inMemoryUserGames \<Rightarrow> (string + userGame list) \<times> inMemoryUserGames" where
  "imListAll s = (Inr (map snd (imGames s)), s)"

definition imDelete :: "string \<Rightarrow> string \<Rightarrow> inMemoryUserGames \<Rightarrow> string option \<times> inMemoryUserGames" where
  "imDelete userID name s = (None, s\<lparr>imGames := mdel (ugKey userID name) (imGames s)\<rparr>)"

definition InMemoryUserGames :: "(nat \<Rightarrow> int) \<Rightarrow> inMemoryUserGames userGameStore" where
  "InMemoryUserGames clock = \<lparr>ugPut = imPut clock, ugGet = imGet, ugList = imList, ugListAll = imListAll, ugDelete = imDelete\<rparr>"

section \<open>The registry (\<open>registry.go\<close>)\<close>

text \<open>
  The Starlark front end: LoadSpec, Validate, META.name and BuildCoreGame, and whether the text of
  a registration error contains the word already.
\<close>

record ('g, 'h, 'sp) starlark =
  slLoadSpec :: "string \<Rightarrow> string + 'sp"
  slValidate :: "'sp \<Rightarrow> string option"
  slName :: "'sp \<Rightarrow> string"
  slBuildCoreGame :: "'sp \<Rightarrow> ('g, 'h) hosted"
  slSaysAlready :: "matchError \<Rightarrow> bool"

text \<open>The names LoadSpec accepts (\<open>nameRe\<close> of \<open>starlarkgame/spec.go\<close>).\<close>

definition nameChar :: "char \<Rightarrow> bool" where
  "nameChar c \<longleftrightarrow> CHR ''a'' \<le> c \<and> c \<le> CHR ''z'' \<or> CHR ''0'' \<le> c \<and> c \<le> CHR ''9'' \<or> c = CHR ''-''"

definition nameRe :: "string \<Rightarrow> bool" where
  "nameRe s \<longleftrightarrow> 1 \<le> length s \<and> length s \<le> 40 \<and> list_all nameChar s"

datatype registryError =
    LoadFailed string | ValidateFailed string | NameCollides string | StoreFailed string | RegisterFailed matchError
  | UnknownGame string | NoSuchGame | ReplayFailed string string registryError

record gameListing =
  glName :: string
  glMinPlayers :: int
  glMaxPlayers :: int
  glUserOwned :: bool

record 'u registry =
  rgStore :: 'u
  rgUserKeys :: "string gomap gomap"

definition NewUserAwareRegistry :: "'u \<Rightarrow> 'u registry" where
  "NewUserAwareRegistry s = \<lparr>rgStore = s, rgUserKeys = []\<rparr>"

definition userGameKeyPrefix :: string where "userGameKeyPrefix = ''usergame:''"

definition managerKeyFor :: "string \<Rightarrow> string \<Rightarrow> string" where
  "managerKeyFor userID publicName = userGameKeyPrefix @ userID @ CHR '':'' # publicName"

definition hasUserGameKeyPrefix :: "string \<Rightarrow> bool" where
  "hasUserGameKeyPrefix s = (take (length userGameKeyPrefix) s = userGameKeyPrefix)"

definition publicGameName :: "string \<Rightarrow> string" where
  "publicGameName managerKey =
     (if \<not> hasUserGameKeyPrefix managerKey then managerKey
      else let rest = drop (length userGameKeyPrefix) managerKey
           in case find_index (\<lambda>c. c = CHR '':'') rest of Some i \<Rightarrow> drop (i + 1) rest | None \<Rightarrow> managerKey)"

definition keysOf :: "string \<Rightarrow> 'u registry \<Rightarrow> string gomap" where
  "keysOf userID rg = (case map_of (rgUserKeys rg) userID of None \<Rightarrow> [] | Some ks \<Rightarrow> ks)"

definition registerLocked :: "('g, 'h, 'sp) starlark \<Rightarrow> string \<Rightarrow> string \<Rightarrow> string \<Rightarrow> 'u registry \<Rightarrow> ('g, 'h, 's) mgr
    \<Rightarrow> registryError option \<times> 'u registry \<times> ('g, 'h, 's) mgr" where
  "registerLocked sl userID publicName source rg mg = (case slLoadSpec sl source of
      Inl _ \<Rightarrow> (None, rg, mg)
    | Inr spec \<Rightarrow>
        (let key = managerKeyFor userID publicName;
             g = slBuildCoreGame sl spec;
             g = g\<lparr>hgGame := (hgGame g)\<lparr>gmName := key\<rparr>\<rparr>;
             (err, mg) = Manager.Register g mg
         in if (case err of None \<Rightarrow> False | Some e \<Rightarrow> \<not> slSaysAlready sl e) then (map_option RegisterFailed err, rg, mg)
            else (None, rg\<lparr>rgUserKeys := mput userID (mput publicName key (keysOf userID rg)) (rgUserKeys rg)\<rparr>, mg)))"

definition RegisterUserGame :: "('g, 'h, 'sp) starlark \<Rightarrow> 'u userGameStore \<Rightarrow> string \<Rightarrow> string \<Rightarrow> string \<Rightarrow> 'u registry \<Rightarrow> ('g, 'h, 's) mgr
    \<Rightarrow> registryError option \<times> 'u registry \<times> ('g, 'h, 's) mgr" where
  "RegisterUserGame sl us userID source llmGuide rg mg = (case slLoadSpec sl source of
      Inl e \<Rightarrow> (Some (LoadFailed e), rg, mg)
    | Inr spec \<Rightarrow> (case slValidate sl spec of
        Some e \<Rightarrow> (Some (ValidateFailed e), rg, mg)
      | None \<Rightarrow>
          (let publicName = slName sl spec
           in if Game mg publicName \<noteq> None then (Some (NameCollides publicName), rg, mg)
              else case ugPut us \<lparr>ugUserID = userID, ugName = publicName, ugSource = source, ugLLMGuide = llmGuide, ugCreatedAt = None\<rparr> (rgStore rg) of
                (Some e, s) \<Rightarrow> (Some (StoreFailed e), rg\<lparr>rgStore := s\<rparr>, mg)
              | (None, s) \<Rightarrow> registerLocked sl userID publicName source (rg\<lparr>rgStore := s\<rparr>) mg)))"

fun replayAll :: "('g, 'h, 'sp) starlark \<Rightarrow> userGame list \<Rightarrow> 'u registry \<Rightarrow> ('g, 'h, 's) mgr
    \<Rightarrow> registryError option \<times> 'u registry \<times> ('g, 'h, 's) mgr" where
  "replayAll sl [] rg mg = (None, rg, mg)"
| "replayAll sl (ug # ugs) rg mg = (case registerLocked sl (ugUserID ug) (ugName ug) (ugSource ug) rg mg of
      (Some e, rg, mg) \<Rightarrow> (Some (ReplayFailed (ugUserID ug) (ugName ug) e), rg, mg)
    | (None, rg, mg) \<Rightarrow> replayAll sl ugs rg mg)"

definition ReplayFromStore :: "('g, 'h, 'sp) starlark \<Rightarrow> 'u userGameStore \<Rightarrow> 'u registry \<Rightarrow> ('g, 'h, 's) mgr
    \<Rightarrow> registryError option \<times> 'u registry \<times> ('g, 'h, 's) mgr" where
  "ReplayFromStore sl us rg mg = (case ugListAll us (rgStore rg) of
      (Inl e, s) \<Rightarrow> (Some (StoreFailed e), rg\<lparr>rgStore := s\<rparr>, mg)
    | (Inr all, s) \<Rightarrow> replayAll sl all (rg\<lparr>rgStore := s\<rparr>) mg)"

text \<open>The manager key and the owning user, empty for a game found on the manager.\<close>

definition LookupForUser :: "string \<Rightarrow> string \<Rightarrow> 'u registry \<Rightarrow> ('g, 'h, 's) mgr \<Rightarrow> registryError + (string \<times> string)" where
  "LookupForUser userID publicName rg mg =
     (if Game mg publicName \<noteq> None then Inr (publicName, '''')
      else case map_of (keysOf userID rg) publicName of
        Some k \<Rightarrow> Inr (k, userID)
      | None \<Rightarrow> Inl (UnknownGame publicName))"

definition listing :: "string \<Rightarrow> bool \<Rightarrow> ('g, 'h) hosted \<Rightarrow> gameListing" where
  "listing name own g = \<lparr>glName = name, glMinPlayers = gmMinPlayers (hgGame g), glMaxPlayers = gmMaxPlayers (hgGame g), glUserOwned = own\<rparr>"

definition ListForUser :: "string \<Rightarrow> 'u registry \<Rightarrow> ('g, 'h, 's) mgr \<Rightarrow> gameListing list" where
  "ListForUser userID rg mg = sort_key glName
     (List.map_filter (\<lambda>n. if hasUserGameKeyPrefix n then None else map_option (listing n False) (Game mg n)) (GameNames mg) @
      List.map_filter (\<lambda>(publicName, key). map_option (listing publicName True) (Game mg key)) (keysOf userID rg))"

definition DeleteUserGame :: "'u userGameStore \<Rightarrow> string \<Rightarrow> string \<Rightarrow> 'u registry \<Rightarrow> registryError option \<times> 'u registry" where
  "DeleteUserGame us userID publicName rg =
     (if map_of (keysOf userID rg) publicName = None then (Some NoSuchGame, rg)
      else case ugDelete us userID publicName (rgStore rg) of
        (Some e, s) \<Rightarrow> (Some (StoreFailed e), rg\<lparr>rgStore := s\<rparr>)
      | (None, s) \<Rightarrow> (None, rg\<lparr>rgStore := s, rgUserKeys := mput userID (mdel publicName (keysOf userID rg)) (rgUserKeys rg)\<rparr>))"

definition UserGame :: "'u userGameStore \<Rightarrow> string \<Rightarrow> string \<Rightarrow> 'u registry \<Rightarrow> (string + userGame option) \<times> 'u registry" where
  "UserGame us userID publicName rg = (case ugGet us userID publicName (rgStore rg) of (r, s) \<Rightarrow> (r, rg\<lparr>rgStore := s\<rparr>))"

section \<open>What an ownership store promises\<close>

text \<open>
  The contract of \<open>OwnershipStore\<close>, over the owner each match has: a claim makes the caller the
  owner unless another user is, nothing else changes an owner, and the queries agree with it.
\<close>

locale ownership_contract =
  fixes st :: "'o ownershipStore"
    and ok :: "'o \<Rightarrow> bool"
    and owner :: "'o \<Rightarrow> string \<Rightarrow> string option"
  assumes claim_done: "ok s \<Longrightarrow> owClaim st u i s = (None, s') \<Longrightarrow>
      ok s' \<and> u \<noteq> '''' \<and> i \<noteq> '''' \<and> owner s i \<in> {None, Some u} \<and> owner s' = (owner s)(i \<mapsto> u)"
    and claim_failed: "ok s \<Longrightarrow> owClaim st u i s = (Some e, s') \<Longrightarrow> ok s' \<and> owner s' = owner s"
    and owns_done: "ok s \<Longrightarrow> owOwns st u i s = (Inr b, s') \<Longrightarrow> ok s' \<and> owner s' = owner s \<and> (b \<longleftrightarrow> owner s i = Some u)"
    and owns_failed: "ok s \<Longrightarrow> owOwns st u i s = (Inl e, s') \<Longrightarrow> ok s' \<and> owner s' = owner s"
    and matches_done: "ok s \<Longrightarrow> owMatchesFor st u s = (Inr is, s') \<Longrightarrow>
      ok s' \<and> owner s' = owner s \<and> distinct is \<and> set is = {i. owner s i = Some u}"
    and matches_failed: "ok s \<Longrightarrow> owMatchesFor st u s = (Inl e, s') \<Longrightarrow> ok s' \<and> owner s' = owner s"
begin

text \<open>Whoever claims what, an owner stays the owner.\<close>

lemma claim_keeps_owner:
  assumes "ok s" "owner s i = Some v" "owClaim st u j s = (r, s')"
  shows "ok s' \<and> owner s' i = Some v"
  using claim_done [OF assms(1), of u j s'] claim_failed [OF assms(1), of u j _ s'] assms(2,3) by (cases r) auto

end

definition memOwnOk :: "memoryOwnership \<Rightarrow> bool" where
  "memOwnOk s \<longleftrightarrow> (\<forall>u. distinct (matchesOf u s) \<and> set (matchesOf u s) = {i. map_of (moOwners s) i = Some u})"

lemma matchesOf_put:
  "matchesOf v (s\<lparr>moOwners := x, moByUserID := mput u is (moByUserID s)\<rparr>) = (if v = u then is else matchesOf v s)"
  "matchesOf v (s\<lparr>moOwners := x\<rparr>) = matchesOf v s"
  by (simp_all add: matchesOf_def)

lemma memClaim_done:
  assumes "memOwnOk s" "memClaim u i s = (None, s')"
  shows "memOwnOk s' \<and> u \<noteq> '''' \<and> i \<noteq> '''' \<and> map_of (moOwners s) i \<in> {None, Some u} \<and> map_of (moOwners s') = (map_of (moOwners s))(i \<mapsto> u)"
proof -
  have o: "map_of (moOwners s) i = None \<or> map_of (moOwners s) i = Some u" "u \<noteq> ''''" "i \<noteq> ''''"
    using assms(2) by (auto simp: memClaim_def split: if_splits option.splits)
  have m: "i \<in> set (matchesOf u s) \<longleftrightarrow> map_of (moOwners s) i = Some u" using assms(1) by (auto simp: memOwnOk_def)
  have s': "s' = s\<lparr>moOwners := mput i u (moOwners s)\<rparr> \<and> i \<in> set (matchesOf u s) \<or>
      s' = s\<lparr>moOwners := mput i u (moOwners s), moByUserID := mput u (matchesOf u s @ [i]) (moByUserID s)\<rparr> \<and> i \<notin> set (matchesOf u s)"
    using assms(2) o by (auto simp: memClaim_def Let_def matchesOf_put split: if_splits option.splits)
  have "memOwnOk s'" using s' assms(1) o m by (auto simp: memOwnOk_def matchesOf_put split: if_splits)
  then show ?thesis using s' o by auto
qed

interpretation memory_own: ownership_contract MemoryOwnership memOwnOk "\<lambda>s. map_of (moOwners s)"
proof unfold_locales
  fix s s' :: memoryOwnership and u i e
  show "memOwnOk s \<Longrightarrow> owClaim MemoryOwnership u i s = (None, s') \<Longrightarrow>
      memOwnOk s' \<and> u \<noteq> '''' \<and> i \<noteq> '''' \<and> map_of (moOwners s) i \<in> {None, Some u} \<and> map_of (moOwners s') = (map_of (moOwners s))(i \<mapsto> u)"
    using memClaim_done by (simp add: MemoryOwnership_def)
  show "memOwnOk s \<Longrightarrow> owClaim MemoryOwnership u i s = (Some e, s') \<Longrightarrow> memOwnOk s' \<and> map_of (moOwners s') = map_of (moOwners s)"
    by (auto simp: MemoryOwnership_def memClaim_def Let_def split: if_splits)
qed (auto simp: MemoryOwnership_def memOwns_def memMatchesFor_def memOwnOk_def split: option.splits)

text \<open>The table: at most one row for a match.\<close>

definition pgOk :: "pgOwnership \<Rightarrow> bool" where
  "pgOk s \<longleftrightarrow> distinct (map orMatchID (poRows s))"

definition pgOwner :: "pgOwnership \<Rightarrow> string \<Rightarrow> string option" where
  "pgOwner s i = map_option orUserID (find (\<lambda>r. orMatchID r = i) (poRows s))"

lemma pgOwner_row:
  assumes "pgOk s"
  shows "pgOwner s i = Some u \<longleftrightarrow> (\<exists>r\<in>set (poRows s). orUserID r = u \<and> orMatchID r = i)"
proof -
  have "find P xs = Some r \<longleftrightarrow> r \<in> set xs \<and> P r" if "distinct (map orMatchID xs)" "P = (\<lambda>r. orMatchID r = i)" for xs P r
    using that by (induction xs) (auto simp: rev_image_eqI)
  then show ?thesis using assms by (auto simp: pgOwner_def pgOk_def)
qed

lemma pgOwner_None: "pgOwner s i = None \<longleftrightarrow> i \<notin> orMatchID ` set (poRows s)"
  by (auto simp: pgOwner_def find_None_iff)

lemma find_append: "find P (xs @ ys) = (case find P xs of None \<Rightarrow> find P ys | Some x \<Rightarrow> Some x)"
  by (induction xs) auto

lemma pg_query [simp]: "poRows (query s) = poRows s" "pgOk (query s) = pgOk s" "pgOwner (query s) = pgOwner s"
  by (simp_all add: query_def pgOk_def pgOwner_def fun_eq_iff)

lemma existingOwner_cases:
  "existingOwner w i s = (r, s') \<Longrightarrow> s' = query s \<and> (r = Inl QueryFailed \<or> r = Inr (pgOwner s i))"
  by (auto simp: existingOwner_def pgOwner_def split: if_splits)

lemma insertOwner_done:
  assumes "pgOk s" "pgOwner s i \<in> {None, Some u}" "insertOwner w u i s = (None, s')"
  shows "pgOk s' \<and> pgOwner s' = (pgOwner s)(i \<mapsto> u)"
proof (cases "pgOwner s i")
  case None
  then have new: "\<not> (\<exists>r\<in>set (poRows s). orUserID r = u \<and> orMatchID r = i)" using pgOwner_None [of s i] by force
  have "pgOwner s' j = ((pgOwner s)(i \<mapsto> u)) j" for j
    using None new assms(3)
    by (auto simp: insertOwner_def pgOwner_def query_def find_append split: if_splits option.splits)
  moreover have "pgOk s'" using None new assms(1,3) pgOwner_None [of s i]
    by (auto simp: insertOwner_def pgOk_def split: if_splits)
  ultimately show ?thesis by blast
next
  case (Some v)
  then have "\<exists>r\<in>set (poRows s). orUserID r = u \<and> orMatchID r = i" using assms(2) pgOwner_row [OF assms(1), of i u] by auto
  then have "s' = query s" using assms(3) by (auto simp: insertOwner_def split: if_splits)
  then show ?thesis using assms(1,2) Some by (auto simp: fun_eq_iff)
qed

lemma insertOwner_failed: "insertOwner w u i s = (Some e, s') \<Longrightarrow> s' = query s"
  by (auto simp: insertOwner_def split: if_splits)

interpretation postgres_own: ownership_contract "PostgresOwnership w" pgOk pgOwner
proof unfold_locales
  fix s s' u i e ms
  show "pgOk s' \<and> u \<noteq> '''' \<and> i \<noteq> '''' \<and> pgOwner s i \<in> {None, Some u} \<and> pgOwner s' = (pgOwner s)(i \<mapsto> u)"
    if "pgOk s" "owClaim (PostgresOwnership w) u i s = (None, s')"
    using that existingOwner_cases [of w i s] insertOwner_done [of "query s" i u w s']
    by (auto simp: PostgresOwnership_def pgClaim_def split: if_splits prod.splits sum.splits)
  show "pgOk s' \<and> pgOwner s' = pgOwner s" if "pgOk s" "owClaim (PostgresOwnership w) u i s = (Some e, s')"
    using that existingOwner_cases [of w i s] insertOwner_failed [of w u i "query s"]
    by (auto simp: PostgresOwnership_def pgClaim_def split: if_splits prod.splits sum.splits)
  show "pgOk s' \<and> pgOwner s' = pgOwner s \<and> distinct ms \<and> set ms = {i. pgOwner s i = Some u}"
    if "pgOk s" "owMatchesFor (PostgresOwnership w) u s = (Inr ms, s')"
  proof -
    have "ms = map orMatchID (sort_key orCreatedAt (filter (\<lambda>r. orUserID r = u) (poRows s)))" "s' = query s"
      using that(2) by (auto simp: PostgresOwnership_def pgMatchesFor_def split: if_splits)
    moreover have "distinct (map orMatchID (filter (\<lambda>r. orUserID r = u) (poRows s)))" using that(1) by (simp add: pgOk_def distinct_map_filter)
    ultimately show ?thesis using that(1) pgOwner_row [OF that(1)] by (auto simp: distinct_map distinct_sort)
  qed
qed (auto simp: PostgresOwnership_def pgOwns_def pgMatchesFor_def pgOwner_row split: if_splits)

text \<open>
  Two servers on one database. Claim reads the owner and then inserts, under a mutex of its own
  process; the key of the table is the pair of user and match. When two processes interleave
  their claims of one match, both succeed and both users own it, though the comment has the
  database reject the second.
\<close>

theorem concurrent_claims_share_a_match:
  "let w = \<lparr>pwFails = (\<lambda>_. False), pwNow = int\<rparr>;
       (a, s1) = existingOwner w ''m'' \<lparr>poRows = [], poQueries = 0\<rparr>;
       (b, s2) = existingOwner w ''m'' s1;
       (ra, s3) = insertOwner w ''alice'' ''m'' s2;
       (rb, s4) = insertOwner w ''bob'' ''m'' s3
   in a = Inr None \<and> b = Inr None \<and> ra = None \<and> rb = None \<and>
      fst (pgOwns w ''alice'' ''m'' s4) = Inr True \<and> fst (pgOwns w ''bob'' ''m'' s4) = Inr True"
  by code_simp

section \<open>Keys of designed games\<close>

text \<open>A separator that does not occur in the second part makes the two parts recoverable.\<close>

lemma last_separator:
  assumes "u @ c # n = v @ c # k" "c \<notin> set n" "c \<notin> set k"
  shows "u = v \<and> n = k"
  using assms by (auto simp: append_eq_append_conv2 Cons_eq_append_conv append_eq_Cons_conv)

lemma nameRe_chars: "nameRe n \<Longrightarrow> CHR '':'' \<notin> set n \<and> NUL \<notin> set n \<and> CHR ''/'' \<notin> set n"
proof -
  have "\<not> nameChar (CHR '':'')" "\<not> nameChar NUL" "\<not> nameChar (CHR ''/'')" by code_simp+
  then show "nameRe n \<Longrightarrow> ?thesis" by (auto simp: nameRe_def list_all_iff)
qed

lemma managerKeyFor_inj: "nameRe n \<Longrightarrow> nameRe k \<Longrightarrow> managerKeyFor u n = managerKeyFor v k \<longleftrightarrow> u = v \<and> n = k"
  by (auto simp: managerKeyFor_def dest: last_separator nameRe_chars)

lemma ugKey_inj: "nameRe n \<Longrightarrow> nameRe k \<Longrightarrow> ugKey u n = ugKey v k \<longleftrightarrow> u = v \<and> n = k"
  by (auto simp: ugKey_def dest: last_separator nameRe_chars)

lemma managerKeyFor_prefix [simp]: "hasUserGameKeyPrefix (managerKeyFor u n)"
  by (simp add: hasUserGameKeyPrefix_def managerKeyFor_def)

lemma nameRe_not_prefixed: "nameRe n \<Longrightarrow> \<not> hasUserGameKeyPrefix n"
proof
  assume "nameRe n" "hasUserGameKeyPrefix n"
  then have "take (length userGameKeyPrefix) n = userGameKeyPrefix" by (simp add: hasUserGameKeyPrefix_def)
  then have "set userGameKeyPrefix \<subseteq> set n" by (metis set_take_subset)
  then have "CHR '':'' \<in> set n" by (simp add: userGameKeyPrefix_def)
  then show False using nameRe_chars [OF \<open>nameRe n\<close>] by simp
qed

lemma find_index_first: "c \<notin> set u \<Longrightarrow> find_index (\<lambda>x. x = c) (u @ c # n) = Some (length u)"
  by (induction u) auto

text \<open>
  The public name is recovered from the manager's key exactly when the user's id has no colon:
  get_state reports the game of a user \<open>auth:alice\<close> under a wrong name.
\<close>

theorem publicGameName_recovers:
  assumes "nameRe n"
  shows "publicGameName (managerKeyFor u n) = n \<longleftrightarrow> CHR '':'' \<notin> set u"
proof (cases "CHR '':'' \<in> set u")
  case True
  then obtain a b where u: "u = a @ CHR '':'' # b" "CHR '':'' \<notin> set a" by (meson split_list_first)
  then have "publicGameName (managerKeyFor u n) = b @ CHR '':'' # n"
    using find_index_first [of "CHR '':''" a "b @ CHR '':'' # n"] by (simp add: publicGameName_def) (simp add: managerKeyFor_def)
  then show ?thesis using True by auto
next
  case False
  then show ?thesis using find_index_first [OF False, of n] by (simp add: publicGameName_def) (simp add: managerKeyFor_def)
qed

theorem publicGameName_recovers_witness:
  "publicGameName (managerKeyFor ''alice'' ''chess'') = ''chess'' \<and> publicGameName (managerKeyFor ''auth:alice'' ''chess'') \<noteq> ''chess''"
proof -
  have "nameRe ''chess''" by code_simp
  from publicGameName_recovers [OF this, of "''alice''"] publicGameName_recovers [OF this, of "''auth:alice''"] show ?thesis by simp
qed

section \<open>What a store of designed games promises\<close>

locale user_games_contract =
  fixes us :: "'u userGameStore"
    and ok :: "'u \<Rightarrow> bool"
    and games :: "'u \<Rightarrow> string \<Rightarrow> string \<Rightarrow> userGame option"
  assumes stored: "ok s \<Longrightarrow> games s u n = Some g \<Longrightarrow> nameRe n \<and> ugUserID g = u \<and> ugName g = n"
    and put_done: "ok s \<Longrightarrow> nameRe (ugName g) \<Longrightarrow> ugPut us g s = (None, s') \<Longrightarrow>
      ok s' \<and> (\<exists>t. \<forall>u n. games s' u n = (if u = ugUserID g \<and> n = ugName g then Some (g\<lparr>ugCreatedAt := t\<rparr>) else games s u n))"
    and put_failed: "ok s \<Longrightarrow> nameRe (ugName g) \<Longrightarrow> ugPut us g s = (Some e, s') \<Longrightarrow> ok s' \<and> games s' = games s"
    and get_done: "ok s \<Longrightarrow> nameRe n \<Longrightarrow> ugGet us u n s = (Inr r, s') \<Longrightarrow> ok s' \<and> games s' = games s \<and> r = games s u n"
    and list_all_done: "ok s \<Longrightarrow> ugListAll us s = (Inr gs, s') \<Longrightarrow>
      ok s' \<and> games s' = games s \<and> set gs = {g. \<exists>u n. games s u n = Some g}"
    and delete_done: "ok s \<Longrightarrow> nameRe n \<Longrightarrow> ugDelete us u n s = (None, s') \<Longrightarrow>
      ok s' \<and> (\<forall>v k. games s' v k = (if v = u \<and> k = n then None else games s v k))"
    and delete_failed: "ok s \<Longrightarrow> nameRe n \<Longrightarrow> ugDelete us u n s = (Some e, s') \<Longrightarrow> ok s' \<and> games s' = games s"

definition imOk :: "inMemoryUserGames \<Rightarrow> bool" where
  "imOk s \<longleftrightarrow> mwf (imGames s) \<and> (\<forall>k g. map_of (imGames s) k = Some g \<longrightarrow> nameRe (ugName g) \<and> k = ugKey (ugUserID g) (ugName g))"

definition imFind :: "inMemoryUserGames \<Rightarrow> string \<Rightarrow> string \<Rightarrow> userGame option" where
  "imFind s u n = (if nameRe n then map_of (imGames s) (ugKey u n) else None)"

interpretation memory_games: user_games_contract "InMemoryUserGames clock" imOk imFind
proof unfold_locales
  fix s s' g u n gs
  show "nameRe n \<and> ugUserID g = u \<and> ugName g = n" if "imOk s" "imFind s u n = Some g"
    using that ugKey_inj [of n "ugName g" u "ugUserID g"] by (auto simp: imOk_def imFind_def split: if_splits)
  show "imOk s' \<and> (\<exists>t. \<forall>u n. imFind s' u n = (if u = ugUserID g \<and> n = ugName g then Some (g\<lparr>ugCreatedAt := t\<rparr>) else imFind s u n))"
    if "imOk s" "nameRe (ugName g)" "ugPut (InMemoryUserGames clock) g s = (None, s')"
  proof -
    note p = that
    define t where "t = (case ugCreatedAt g of None \<Rightarrow> Some (clock (imReads s)) | Some x \<Rightarrow> Some x)"
    have s': "imGames s' = mput (ugKey (ugUserID g) (ugName g)) (g\<lparr>ugCreatedAt := t\<rparr>) (imGames s)"
      using p(3) by (cases g) (auto simp: t_def InMemoryUserGames_def imPut_def Let_def split: option.splits if_splits)
    then have "imOk s'" using p(1,2) by (auto simp: imOk_def)
    moreover have "imFind s' u n = (if u = ugUserID g \<and> n = ugName g then Some (g\<lparr>ugCreatedAt := t\<rparr>) else imFind s u n)" for u n
      using s' p(2) ugKey_inj [of n "ugName g" u "ugUserID g"] by (auto simp: imFind_def)
    ultimately show ?thesis by blast
  qed
  show "imOk s' \<and> imFind s' = imFind s \<and> set gs = {g. \<exists>u n. imFind s u n = Some g}"
    if "imOk s" "ugListAll (InMemoryUserGames clock) s = (Inr gs, s')"
  proof -
    have s': "s' = s" "gs = map snd (imGames s)" using that(2) by (auto simp: InMemoryUserGames_def imListAll_def)
    have "g \<in> set gs \<longleftrightarrow> (\<exists>u n. imFind s u n = Some g)" for g
    proof -
      have "g \<in> set gs \<longleftrightarrow> (\<exists>k. map_of (imGames s) k = Some g)"
        using that(1) s' by (force simp: imOk_def mwf_def)
      then show ?thesis using that(1) by (auto simp: imOk_def imFind_def split: if_splits)
    qed
    then show ?thesis using s'(1) that(1) by blast
  qed
qed (auto simp: InMemoryUserGames_def imPut_def imGet_def imDelete_def imOk_def imFind_def ugKey_inj Let_def split: if_splits)

section \<open>The registry follows its store\<close>

text \<open>
  What LoadSpec and BuildCoreGame guarantee of a spec that loads: its name matches \<open>nameRe\<close>, and
  the game built from it (one start phase, checked player bounds, moves that are functions) is valid.
\<close>

definition frontOk :: "('g, 'h, 'sp) starlark \<Rightarrow> bool" where
  "frontOk sl \<longleftrightarrow> (\<forall>src sp. slLoadSpec sl src = Inr sp \<longrightarrow> nameRe (slName sl sp) \<and> Validate (hgGame (slBuildCoreGame sl sp)) = [])"

definition built :: "('g, 'h, 'sp) starlark \<Rightarrow> string \<Rightarrow> 'sp \<Rightarrow> ('g, 'h) hosted" where
  "built sl key sp = (slBuildCoreGame sl sp)\<lparr>hgGame := (hgGame (slBuildCoreGame sl sp))\<lparr>gmName := key\<rparr>\<rparr>"

lemma Validate_name [simp]: "Validate (g\<lparr>gmName := k\<rparr>) = Validate g"
  by (simp add: Validate_def cong: phaseNext.case_cong if_cong)

lemma Register_Game: "Manager.Register g mg = (e, mg') \<Longrightarrow>
    Game mg' x = (if e = None \<and> x = gmName (hgGame g) then Some g else Game mg x)"
  by (auto simp: Manager.Register_def Game_def split: if_splits)

lemma registerLocked_spec:
  assumes "frontOk sl" "slLoadSpec sl src = Inr sp" "registerLocked sl u n src rg mg = (e, rg', mg')"
  shows "e = None \<and> rgStore rg' = rgStore rg \<and>
    (\<forall>v k. map_of (keysOf v rg') k = (if v = u \<and> k = n then Some (managerKeyFor u n) else map_of (keysOf v rg) k)) \<and>
    (\<forall>x. Game mg' x = (if x = managerKeyFor u n then Some (built sl (managerKeyFor u n) sp) else Game mg x))"
proof -
  obtain e1 mg1 where r: "Manager.Register (built sl (managerKeyFor u n) sp) mg = (e1, mg1)" by fastforce
  have "e1 = None" using r assms(1,2) by (auto simp: Manager.Register_def built_def frontOk_def)
  with r assms(2,3) have "e = None" "mg' = mg1"
    "rg' = rg\<lparr>rgUserKeys := mput u (mput n (managerKeyFor u n) (keysOf u rg)) (rgUserKeys rg)\<rparr>"
    by (auto simp: registerLocked_def built_def Let_def)
  moreover have "gmName (hgGame (built sl (managerKeyFor u n) sp)) = managerKeyFor u n" by (simp add: built_def)
  ultimately show ?thesis using Register_Game [OF r] \<open>e1 = None\<close> by (auto simp: keysOf_def)
qed

text \<open>
  The user keys are those of the stored games, and the manager runs the source stored last.
\<close>

definition registryOk :: "('g, 'h, 'sp) starlark \<Rightarrow> ('u \<Rightarrow> bool) \<Rightarrow> ('u \<Rightarrow> string \<Rightarrow> string \<Rightarrow> userGame option)
    \<Rightarrow> 'u registry \<Rightarrow> ('g, 'h, 's) mgr \<Rightarrow> bool" where
  "registryOk sl ok games rg mg \<longleftrightarrow> ok (rgStore rg) \<and>
     (\<forall>u n. map_of (keysOf u rg) n = map_option (\<lambda>_. managerKeyFor u n) (games (rgStore rg) u n)) \<and>
     (\<forall>u n g. games (rgStore rg) u n = Some g \<longrightarrow>
        (\<exists>sp. slLoadSpec sl (ugSource g) = Inr sp \<and> Game mg (managerKeyFor u n) = Some (built sl (managerKeyFor u n) sp)))"

inductive registry_step :: "('g, 'h, 'sp) starlark \<Rightarrow> 'u userGameStore \<Rightarrow> 'u registry \<times> ('g, 'h, 's) mgr \<Rightarrow> 'u registry \<times> ('g, 'h, 's) mgr \<Rightarrow> bool"
  for sl us where
  register: "RegisterUserGame sl us u src guide rg mg = (e, rg', mg') \<Longrightarrow> registry_step sl us (rg, mg) (rg', mg')"
| delete: "DeleteUserGame us u n rg = (e, rg') \<Longrightarrow> registry_step sl us (rg, mg) (rg', mg)"
| builtin: "\<not> hasUserGameKeyPrefix (gmName (hgGame g)) \<Longrightarrow> Manager.Register g mg = (e, mg') \<Longrightarrow> registry_step sl us (rg, mg) (rg, mg')"

context user_games_contract
begin

lemma registryOk_register:
  assumes front: "frontOk sl" and inv: "registryOk sl ok games rg mg" and r: "RegisterUserGame sl us u src guide rg mg = (e, rg', mg')"
  shows "registryOk sl ok games rg' mg'"
proof (cases "\<exists>sp. slLoadSpec sl src = Inr sp \<and> slValidate sl sp = None \<and> Game mg (slName sl sp) = None")
  case False
  then have "rg' = rg" "mg' = mg" using r by (auto simp: RegisterUserGame_def Let_def split: sum.splits option.splits)
  then show ?thesis using inv by simp
next
  case True
  then obtain sp where sp: "slLoadSpec sl src = Inr sp" "slValidate sl sp = None" "Game mg (slName sl sp) = None" by blast
  let ?g = "\<lparr>ugUserID = u, ugName = slName sl sp, ugSource = src, ugLLMGuide = guide, ugCreatedAt = None\<rparr>"
  have n: "nameRe (ugName ?g)" using front sp(1) by (simp add: frontOk_def)
  have o: "ok (rgStore rg)" using inv by (simp add: registryOk_def)
  obtain pe s where p: "ugPut us ?g (rgStore rg) = (pe, s)" by fastforce
  show ?thesis
  proof (cases pe)
    case (Some x)
    then have "rg' = rg\<lparr>rgStore := s\<rparr>" "mg' = mg" using r sp p by (auto simp: RegisterUserGame_def Let_def)
    then show ?thesis using inv put_failed [OF o n p [unfolded Some]] by (simp add: registryOk_def keysOf_def)
  next
    case None
    then have "registerLocked sl u (slName sl sp) src (rg\<lparr>rgStore := s\<rparr>) mg = (e, rg', mg')"
      using r sp p by (auto simp: RegisterUserGame_def Let_def)
    note l = registerLocked_spec [OF front sp(1) this]
    from put_done [OF o n p [unfolded None]] obtain t where t: "ok s"
      "\<And>v k. games s v k = (if v = u \<and> k = slName sl sp then Some (?g\<lparr>ugCreatedAt := t\<rparr>) else games (rgStore rg) v k)" by auto
    have keys: "map_of (keysOf v rg') k = map_option (\<lambda>_. managerKeyFor v k) (games s v k)" for v k
      using l inv by (simp add: t(2) registryOk_def keysOf_def)
    have "\<exists>sp. slLoadSpec sl (ugSource g) = Inr sp \<and> Game mg' (managerKeyFor v k) = Some (built sl (managerKeyFor v k) sp)"
      if g: "games s v k = Some g" for v k g
    proof (cases "v = u \<and> k = slName sl sp")
      case True
      then show ?thesis using g l sp(1) by (auto simp: t(2))
    next
      case False
      then have "games (rgStore rg) v k = Some g" using g t(2) [of v k] by auto
      moreover from this have "nameRe k" using stored [OF o] by blast
      ultimately show ?thesis using False inv l n managerKeyFor_inj [of k "slName sl sp" v u] by (auto simp: registryOk_def)
    qed
    then show ?thesis using t(1) l keys by (simp add: registryOk_def)
  qed
qed

lemma registryOk_delete:
  assumes inv: "registryOk sl ok games rg mg" and d: "DeleteUserGame us u n rg = (e, rg')"
  shows "registryOk sl ok games rg' mg"
proof (cases "games (rgStore rg) u n")
  case None
  then show ?thesis using d inv by (auto simp: DeleteUserGame_def registryOk_def)
next
  case (Some g)
  have o: "ok (rgStore rg)" using inv by (simp add: registryOk_def)
  have n: "nameRe n" using stored [OF o Some] by simp
  obtain pe s where p: "ugDelete us u n (rgStore rg) = (pe, s)" by fastforce
  have k: "map_of (keysOf u rg) n \<noteq> None" using inv Some by (simp add: registryOk_def)
  show ?thesis
  proof (cases pe)
    case (Some x)
    then show ?thesis using inv d p k delete_failed [OF o n p [unfolded Some]]
      by (auto simp: registryOk_def keysOf_def DeleteUserGame_def)
  next
    case None
    then have "rg' = rg\<lparr>rgStore := s, rgUserKeys := mput u (mdel n (keysOf u rg)) (rgUserKeys rg)\<rparr>"
      using d p k by (auto simp: DeleteUserGame_def)
    then show ?thesis using inv delete_done [OF o n p [unfolded None]] by (auto simp: registryOk_def keysOf_def split: if_splits)
  qed
qed

lemma registryOk_steps:
  assumes front: "frontOk sl" and steps: "(registry_step sl us)\<^sup>*\<^sup>* x y" and inv: "registryOk sl ok games (fst x) (snd x)"
  shows "registryOk sl ok games (fst y) (snd y)"
  using steps inv
proof (induction rule: rtranclp_induct)
  case (step y z)
  from step.hyps(2) step.IH [OF step.prems] show ?case
  proof cases
    case (builtin g mg e mg' rg)
    moreover from this have "managerKeyFor u n \<noteq> gmName (hgGame g)" for u n by (metis managerKeyFor_prefix)
    ultimately show ?thesis using step.IH [OF step.prems] Register_Game [OF builtin(4)] by (simp add: registryOk_def)
  qed (auto intro: registryOk_register [OF front] registryOk_delete)
qed

lemma replayAll_spec:
  assumes front: "frontOk sl" and "\<forall>g\<in>set gs. nameRe (ugName g) \<and> (\<exists>sp. slLoadSpec sl (ugSource g) = Inr sp)"
    and "\<forall>g\<in>set gs. \<forall>h\<in>set gs. ugUserID g = ugUserID h \<longrightarrow> ugName g = ugName h \<longrightarrow> g = h"
    and "replayAll sl gs rg mg = (e, rg', mg')"
  shows "e = None \<and> rgStore rg' = rgStore rg \<and>
    (\<forall>u n. map_of (keysOf u rg') n = (if \<exists>g\<in>set gs. ugUserID g = u \<and> ugName g = n then Some (managerKeyFor u n) else map_of (keysOf u rg) n)) \<and>
    (\<forall>g\<in>set gs. \<forall>sp. slLoadSpec sl (ugSource g) = Inr sp \<longrightarrow>
       Game mg' (managerKeyFor (ugUserID g) (ugName g)) = Some (built sl (managerKeyFor (ugUserID g) (ugName g)) sp)) \<and>
    (\<forall>x. (\<forall>g\<in>set gs. x \<noteq> managerKeyFor (ugUserID g) (ugName g)) \<longrightarrow> Game mg' x = Game mg x)"
  using assms(2-)
proof (induction gs arbitrary: rg mg)
  case (Cons g gs)
  obtain sp where sp: "slLoadSpec sl (ugSource g) = Inr sp" using Cons.prems(1) by fastforce
  obtain e1 rg1 mg1 where l: "registerLocked sl (ugUserID g) (ugName g) (ugSource g) rg mg = (e1, rg1, mg1)" by (metis prod_cases3)
  note first = registerLocked_spec [OF front sp l]
  have rest: "replayAll sl gs rg1 mg1 = (e, rg', mg')" using Cons.prems(3) l first by simp
  note IH = Cons.IH [OF _ _ rest]
  have same: "managerKeyFor (ugUserID h) (ugName h) = managerKeyFor (ugUserID g) (ugName g) \<longleftrightarrow> h = g" if "h \<in> set gs" for h
    using that Cons.prems(1,2) managerKeyFor_inj by (metis list.set_intros)
  have IH': "e = None" "rgStore rg' = rgStore rg1"
    "map_of (keysOf u rg') n = (if \<exists>g\<in>set gs. ugUserID g = u \<and> ugName g = n then Some (managerKeyFor u n) else map_of (keysOf u rg1) n)"
    "h \<in> set gs \<Longrightarrow> slLoadSpec sl (ugSource h) = Inr sq \<Longrightarrow>
       Game mg' (managerKeyFor (ugUserID h) (ugName h)) = Some (built sl (managerKeyFor (ugUserID h) (ugName h)) sq)"
    "(\<forall>g\<in>set gs. x \<noteq> managerKeyFor (ugUserID g) (ugName g)) \<Longrightarrow> Game mg' x = Game mg1 x" for u n h sq x
    using IH Cons.prems(1,2) by auto
  have game: "Game mg' (managerKeyFor (ugUserID g) (ugName g)) = Some (built sl (managerKeyFor (ugUserID g) (ugName g)) sp)"
    using IH'(4) [OF _ sp] IH'(5) [of "managerKeyFor (ugUserID g) (ugName g)"] first same by (metis (full_types))
  have keys: "map_of (keysOf u rg') n = (if \<exists>h\<in>set (g # gs). ugUserID h = u \<and> ugName h = n then Some (managerKeyFor u n) else map_of (keysOf u rg) n)" for u n
    using IH'(3) [of u n] first by auto
  have other: "Game mg' x = Game mg x" if "\<forall>h\<in>set (g # gs). x \<noteq> managerKeyFor (ugUserID h) (ugName h)" for x
    using IH'(5) [of x] that first by simp
  show ?case using IH'(1,2,4) first game keys other sp by auto
qed simp

end

text \<open>
  The registry follows its store. Starting from an empty store that keeps its contract, with a
  Starlark front end that loads only sources with a valid name and builds only valid games:
  whatever users register and delete, in any order and with built-in games added in between, a
  user who looks up a valid name gets the built-in game of that name if there is one, otherwise
  exactly the game they have stored, under a key of their own, and the manager runs the source
  they stored last.
\<close>

theorem registry_follows_store:
  assumes store: "user_games_contract us ok games" and front: "frontOk sl" and empty: "ok s" "\<And>u n. games s u n = None"
    and steps: "(registry_step sl us)\<^sup>*\<^sup>* (NewUserAwareRegistry s, mg) (rg', mg')" and n: "nameRe n"
  shows "LookupForUser u n rg' mg' =
      (if Game mg' n \<noteq> None then Inr (n, '''')
       else if games (rgStore rg') u n \<noteq> None then Inr (managerKeyFor u n, u) else Inl (UnknownGame n)) \<and>
    (\<forall>g. games (rgStore rg') u n = Some g \<longrightarrow>
       (\<exists>sp. slLoadSpec sl (ugSource g) = Inr sp \<and> Game mg' (managerKeyFor u n) = Some (built sl (managerKeyFor u n) sp)))"
proof -
  have "registryOk sl ok games (NewUserAwareRegistry s) mg" using empty by (simp add: registryOk_def NewUserAwareRegistry_def keysOf_def)
  then have "registryOk sl ok games rg' mg'" using user_games_contract.registryOk_steps [OF store front steps] by simp
  then show ?thesis by (auto simp: registryOk_def LookupForUser_def)
qed

text \<open>A front end whose specs are their own names.\<close>

definition demoFront :: "(nat, unit, string) starlark" where
  "demoFront = \<lparr>slLoadSpec = (\<lambda>src. if nameRe src then Inr src else Inl ''parse''), slValidate = (\<lambda>_. None), slName = (\<lambda>sp. sp),
     slBuildCoreGame = (\<lambda>_. hostedCounter\<lparr>hgGame := (hgGame hostedCounter)\<lparr>gmSetup := Some (\<lambda>c data h. (0, h))\<rparr>\<rparr>), slSaysAlready = (\<lambda>_. False)\<rparr>"

lemma demoFront_ok: "frontOk demoFront"
proof -
  have "Validate (hgGame (slBuildCoreGame demoFront sp)) = []" for sp
    by (simp add: demoFront_def hostedCounter_def counterGame_def blankGame_def Validate_def badMoves_def stageProblems_def)
  then show ?thesis by (auto simp: frontOk_def demoFront_def split: if_splits)
qed

definition noGames :: inMemoryUserGames where "noGames = \<lparr>imGames = [], imReads = 0\<rparr>"

lemma noGames_empty: "imOk noGames" "imFind noGames u n = None"
  by (simp_all add: noGames_def imOk_def imFind_def mwf_def)

theorem registry_follows_store_witness:
  "let us = InMemoryUserGames int; mg = tableMgr ([] :: nat memory);
       (e, rg', mg') = RegisterUserGame demoFront us ''alice'' ''duel'' '''' (NewUserAwareRegistry noGames) mg
   in LookupForUser ''alice'' ''duel'' rg' mg' = Inr (''usergame:alice:duel'', ''alice'') \<and>
      LookupForUser ''bob'' ''duel'' rg' mg' = Inl (UnknownGame ''duel'')"
proof -
  let ?us = "InMemoryUserGames int" let ?mg = "tableMgr ([] :: nat memory)"
  obtain e rg' mg' where r: "RegisterUserGame demoFront ?us ''alice'' ''duel'' '''' (NewUserAwareRegistry noGames) ?mg = (e, rg', mg')"
    by (metis prod_cases3)
  have n: "nameRe ''duel''" by code_simp
  have "(\<lambda>(e, rg', mg'). Game mg' ''duel'' = None \<and> imFind (rgStore rg') ''alice'' ''duel'' \<noteq> None \<and> imFind (rgStore rg') ''bob'' ''duel'' = None)
      (RegisterUserGame demoFront ?us ''alice'' ''duel'' '''' (NewUserAwareRegistry noGames) ?mg)" by code_simp
  then have f: "Game mg' ''duel'' = None" "imFind (rgStore rg') ''alice'' ''duel'' \<noteq> None" "imFind (rgStore rg') ''bob'' ''duel'' = None"
    by (simp_all add: r)
  note t = registry_follows_store [OF memory_games.user_games_contract_axioms demoFront_ok noGames_empty
      r_into_rtranclp [of "registry_step demoFront ?us", OF registry_step.register [OF r]] n]
  show ?thesis using t [of "''alice''"] t [of "''bob''"] f r by (simp add: Let_def managerKeyFor_def userGameKeyPrefix_def)
qed

text \<open>
  A restart. A fresh registry that replays the store over a manager with only the built-in games
  resolves every lookup as before, and the manager runs the same designed games.
\<close>

theorem replay_restores_the_games:
  assumes store: "user_games_contract us ok games" and front: "frontOk sl" and inv: "registryOk sl ok games rg mg"
    and builtins: "\<And>x. Game mg0 x = (if hasUserGameKeyPrefix x then None else Game mg x)"
    and listed: "ugListAll us (rgStore rg) = (Inr gs, s)"
    and r: "ReplayFromStore sl us (NewUserAwareRegistry (rgStore rg)) mg0 = (e, rg', mg')"
  shows "e = None \<and> registryOk sl ok games rg' mg' \<and> (\<forall>u n. nameRe n \<longrightarrow> LookupForUser u n rg' mg' = LookupForUser u n rg mg) \<and>
    (\<forall>u n. games (rgStore rg) u n \<noteq> None \<longrightarrow> Game mg' (managerKeyFor u n) = Game mg (managerKeyFor u n))"
proof -
  have o: "ok (rgStore rg)" using inv by (simp add: registryOk_def)
  have gs: "ok s" "games s = games (rgStore rg)" "set gs = {g. \<exists>u n. games (rgStore rg) u n = Some g}"
    using user_games_contract.list_all_done [OF store o listed] by auto
  have st: "nameRe n \<and> ugUserID g = u \<and> ugName g = n" if "games (rgStore rg) u n = Some g" for u n g
    using user_games_contract.stored [OF store o that] .
  have loads: "\<forall>g\<in>set gs. nameRe (ugName g) \<and> (\<exists>sp. slLoadSpec sl (ugSource g) = Inr sp)"
    using st inv by (fastforce simp: gs(3) registryOk_def)
  have uniq: "\<forall>g\<in>set gs. \<forall>h\<in>set gs. ugUserID g = ugUserID h \<longrightarrow> ugName g = ugName h \<longrightarrow> g = h"
    using st by (fastforce simp: gs(3))
  have "replayAll sl gs ((NewUserAwareRegistry (rgStore rg))\<lparr>rgStore := s\<rparr>) mg0 = (e, rg', mg')"
    using r listed by (simp add: ReplayFromStore_def NewUserAwareRegistry_def)
  note all = user_games_contract.replayAll_spec [OF store front loads uniq this]
  have mem: "(\<exists>g\<in>set gs. ugUserID g = u \<and> ugName g = n) \<longleftrightarrow> games (rgStore rg) u n \<noteq> None" for u n
    using st by (fastforce simp: gs(3))
  have keys: "map_of (keysOf u rg') n = map_option (\<lambda>_. managerKeyFor u n) (games (rgStore rg) u n)" for u n
  proof -
    from all have "\<forall>u n. map_of (keysOf u rg') n = (if \<exists>g\<in>set gs. ugUserID g = u \<and> ugName g = n then Some (managerKeyFor u n)
        else map_of (keysOf u ((NewUserAwareRegistry (rgStore rg))\<lparr>rgStore := s\<rparr>)) n)" by blast
    then have "map_of (keysOf u rg') n = (if games (rgStore rg) u n \<noteq> None then Some (managerKeyFor u n)
        else map_of (keysOf u ((NewUserAwareRegistry (rgStore rg))\<lparr>rgStore := s\<rparr>)) n)" unfolding mem by blast
    moreover have "keysOf u ((NewUserAwareRegistry (rgStore rg))\<lparr>rgStore := s\<rparr>) = []" by (simp add: NewUserAwareRegistry_def keysOf_def)
    ultimately show ?thesis by (cases "games (rgStore rg) u n") simp_all
  qed
  have game: "Game mg' (managerKeyFor u n) = Some (built sl (managerKeyFor u n) sp)"
    if "games (rgStore rg) u n = Some g" "slLoadSpec sl (ugSource g) = Inr sp" for u n g sp
  proof -
    have "g \<in> set gs" using that(1) gs(3) by blast
    with all that(2) have "Game mg' (managerKeyFor (ugUserID g) (ugName g)) = Some (built sl (managerKeyFor (ugUserID g) (ugName g)) sp)" by blast
    then show ?thesis using st [OF that(1)] by simp
  qed
  have plain: "Game mg' n = Game mg n" if "nameRe n" for n
    using all builtins [of n] nameRe_not_prefixed [OF that] by (metis managerKeyFor_prefix)
  have same: "rgStore rg' = s" using all by (simp add: NewUserAwareRegistry_def)
  have "\<exists>sp. slLoadSpec sl (ugSource g) = Inr sp \<and> Game mg' (managerKeyFor u n) = Some (built sl (managerKeyFor u n) sp)"
    if "games (rgStore rg) u n = Some g" for u n g
    using inv that game [OF that] unfolding registryOk_def by blast
  then have "registryOk sl ok games rg' mg'" using gs(1,2) keys by (simp add: registryOk_def same)
  moreover have "LookupForUser u n rg' mg' = LookupForUser u n rg mg" if "nameRe n" for u n
    using plain [OF that] keys inv by (simp add: LookupForUser_def registryOk_def)
  moreover have "Game mg' (managerKeyFor u n) = Game mg (managerKeyFor u n)" if "games (rgStore rg) u n \<noteq> None" for u n
    using that game inv by (force simp: registryOk_def)
  ultimately show ?thesis using all by blast
qed

theorem replay_restores_the_games_witness:
  "let us = InMemoryUserGames int; mg = tableMgr ([] :: nat memory);
       (e, rg, mg1) = RegisterUserGame demoFront us ''alice'' ''duel'' '''' (NewUserAwareRegistry noGames) mg;
       (e', rg', mg') = ReplayFromStore demoFront us (NewUserAwareRegistry (rgStore rg)) mg
   in e' = None \<and> LookupForUser ''alice'' ''duel'' rg' mg' = LookupForUser ''alice'' ''duel'' rg mg1 \<and>
      LookupForUser ''alice'' ''duel'' rg' mg' = Inr (''usergame:alice:duel'', ''alice'')"
proof -
  let ?us = "InMemoryUserGames int" let ?mg = "tableMgr ([] :: nat memory)"
  obtain e rg mg1 where r: "RegisterUserGame demoFront ?us ''alice'' ''duel'' '''' (NewUserAwareRegistry noGames) ?mg = (e, rg, mg1)"
    by (metis prod_cases3)
  obtain e' rg' mg' where r': "ReplayFromStore demoFront ?us (NewUserAwareRegistry (rgStore rg)) ?mg = (e', rg', mg')" by (metis prod_cases3)
  have "registryOk demoFront imOk imFind (NewUserAwareRegistry noGames) ?mg"
    by (simp add: registryOk_def NewUserAwareRegistry_def keysOf_def noGames_empty)
  then have inv: "registryOk demoFront imOk imFind rg mg1" using memory_games.registryOk_register [OF demoFront_ok _ r] by blast
  have sp: "slLoadSpec demoFront ''duel'' = Inr ''duel''" by code_simp
  obtain s where "registerLocked demoFront ''alice'' ''duel'' ''duel'' ((NewUserAwareRegistry noGames)\<lparr>rgStore := s\<rparr>) ?mg = (e, rg, mg1)"
    using r sp
    by (auto simp: RegisterUserGame_def demoFront_def InMemoryUserGames_def imPut_def Let_def Game_def tableMgr_def split: prod.splits if_splits)
  from registerLocked_spec [OF demoFront_ok sp this]
  have "Game mg1 x = (if x = ''usergame:alice:duel'' then Some (built demoFront ''usergame:alice:duel'' ''duel'') else Game ?mg x)" for x
    by (simp add: managerKeyFor_def userGameKeyPrefix_def)
  then have b: "Game ?mg x = (if hasUserGameKeyPrefix x then None else Game mg1 x)" for x
    by (auto simp: Game_def tableMgr_def hasUserGameKeyPrefix_def userGameKeyPrefix_def)
  have l: "ugListAll ?us (rgStore rg) = (Inr (map snd (imGames (rgStore rg))), rgStore rg)" by (simp add: InMemoryUserGames_def imListAll_def)
  have n: "nameRe ''duel''" by code_simp
  have "(\<lambda>(e, rg', mg'). LookupForUser ''alice'' ''duel'' rg' mg' = Inr (''usergame:alice:duel'', ''alice''))
      (RegisterUserGame demoFront ?us ''alice'' ''duel'' '''' (NewUserAwareRegistry noGames) ?mg)" by code_simp
  then have "LookupForUser ''alice'' ''duel'' rg mg1 = Inr (''usergame:alice:duel'', ''alice'')" by (simp add: r)
  then show ?thesis
    using replay_restores_the_games [OF memory_games.user_games_contract_axioms demoFront_ok inv b l r'] n r r' by (simp add: Let_def)
qed

text \<open>
  Keys are names. A key of the manager is found like a built-in game, so any user can play a
  designed game of another under its key, and still can when its owner has deleted it.
\<close>

theorem deleted_game_stays_open_to_all:
  assumes store: "user_games_contract us ok games" and front: "frontOk sl" and s: "ok (rgStore rg)"
    and r: "RegisterUserGame sl us u src guide rg mg = (None, rg1, mg1)" and sp: "slLoadSpec sl src = Inr sp"
    and d: "DeleteUserGame us u (slName sl sp) rg1 = (None, rg2)"
  shows "LookupForUser u (slName sl sp) rg2 mg1 = Inl (UnknownGame (slName sl sp)) \<and>
    LookupForUser v (managerKeyFor u (slName sl sp)) rg2 mg1 = Inr (managerKeyFor u (slName sl sp), '''')"
proof -
  let ?n = "slName sl sp" let ?k = "managerKeyFor u ?n"
  have n: "nameRe ?n" using front sp by (simp add: frontOk_def)
  obtain s' where l: "registerLocked sl u ?n src (rg\<lparr>rgStore := s'\<rparr>) mg = (None, rg1, mg1)" "Game mg ?n = None"
    using r sp by (auto simp: RegisterUserGame_def Let_def split: option.splits prod.splits if_splits)
  note g = registerLocked_spec [OF front sp l(1)]
  have "?n \<noteq> ?k" using nameRe_not_prefixed [OF n] by (metis managerKeyFor_prefix)
  then have "Game mg1 ?n = None" "Game mg1 ?k \<noteq> None" using g l(2) by auto
  moreover have "map_of (keysOf u rg2) ?n = None" using d by (auto simp: DeleteUserGame_def keysOf_def split: if_splits prod.splits option.splits)
  ultimately show ?thesis by (auto simp: LookupForUser_def)
qed

theorem deleted_game_stays_open_to_all_witness:
  "let us = InMemoryUserGames int; mg = tableMgr ([] :: nat memory);
       (e, rg1, mg1) = RegisterUserGame demoFront us ''alice'' ''duel'' '''' (NewUserAwareRegistry noGames) mg;
       (e', rg2) = DeleteUserGame us ''alice'' ''duel'' rg1
   in LookupForUser ''mallory'' ''usergame:alice:duel'' rg2 mg1 = Inr (''usergame:alice:duel'', '''')"
proof -
  let ?us = "InMemoryUserGames int" let ?mg = "tableMgr ([] :: nat memory)"
  let ?r = "RegisterUserGame demoFront ?us ''alice'' ''duel'' '''' (NewUserAwareRegistry noGames) ?mg"
  obtain e rg1 mg1 where r: "?r = (e, rg1, mg1)" by (metis prod_cases3)
  obtain e' rg2 where d: "DeleteUserGame ?us ''alice'' ''duel'' rg1 = (e', rg2)" by fastforce
  have "(\<lambda>(e, rg1, mg1). e = None \<and> fst (DeleteUserGame ?us ''alice'' ''duel'' rg1) = None) ?r" by code_simp
  then have e: "e = None" "e' = None" using d by (simp_all add: r)
  have sp: "slLoadSpec demoFront ''duel'' = Inr ''duel''" by code_simp
  have nm: "slName demoFront ''duel'' = ''duel''" by (simp add: demoFront_def)
  show ?thesis
    using deleted_game_stays_open_to_all [OF memory_games.user_games_contract_axioms demoFront_ok _ r [unfolded e] sp, of rg2 "''mallory''"]
      d e noGames_empty(1) r by (simp add: nm Let_def NewUserAwareRegistry_def managerKeyFor_def userGameKeyPrefix_def)
qed

end
