(* ===== verification/ManagerFrame.thy ===== *)
theory ManagerFrame
  imports ManagerLaws
begin

text \<open>
  The frame of the match manager's operations: over any store that keeps its contract, a call
  about one match leaves every other stored match as it was, whatever it returns, with or without
  optimistic concurrency and also when it migrates the match on the way.
\<close>

section \<open>A call of the manager touches one match\<close>

text \<open>All stored matches but one are as they were; a pointer holds a match with a given id.\<close>

definition touches :: "('s \<Rightarrow> bool) \<Rightarrow> ('s \<Rightarrow> string \<Rightarrow> 'g match option) \<Rightarrow> string \<Rightarrow> ('g, 'h, 's) mgr \<Rightarrow> ('g, 'h, 's) mgr \<Rightarrow> bool" where
  "touches ok saved i mg mg' \<longleftrightarrow> ok (mgStore mg') \<and> (\<forall>j. j \<noteq> i \<longrightarrow> saved (mgStore mg') j = saved (mgStore mg) j)"

definition heldAt :: "addr \<Rightarrow> string \<Rightarrow> ('g, 'h, 's) mgr \<Rightarrow> bool" where
  "heldAt a i mg \<longleftrightarrow> a < length (mgHeap mg) \<and> maID (mgHeap mg ! a) = i"

lemma touches_refl: "ok (mgStore mg) \<Longrightarrow> touches ok saved i mg mg"
  by (simp add: touches_def)

lemma touches_trans: "touches ok saved i a b \<Longrightarrow> touches ok saved i b c \<Longrightarrow> touches ok saved i a c"
  by (simp add: touches_def)

lemma touches_store: "mgStore mg1 = mgStore mg \<Longrightarrow> touches ok saved i mg1 mg' = touches ok saved i mg mg'"
  "mgStore mg2 = mgStore mg' \<Longrightarrow> touches ok saved i mg mg2 = touches ok saved i mg mg'"
  by (simp_all add: touches_def)

lemma heldAt_assign: "heldAt a i mg \<Longrightarrow> maID m = i \<Longrightarrow> heldAt a i (assign a m mg)"
  by (simp add: heldAt_def assign_def)

lemma heldAt_setState: "heldAt a i mg \<Longrightarrow> heldAt a i (setState a s mg)"
  by (simp add: heldAt_def setState_def assign_def match_at_def)

lemma heldAt_match: "heldAt a i mg \<Longrightarrow> maID (match_at mg a) = i"
  by (simp add: heldAt_def match_at_def)

lemma assign_store [simp]: "mgStore (assign a m mg) = mgStore mg" "mgStore (setState a s mg) = mgStore mg"
  by (simp_all add: assign_def setState_def)

lemma rehydrate_held: "heldAt a i mg \<Longrightarrow> rehydrate g a mg = (r, mg') \<Longrightarrow> heldAt a i mg' \<and> mgStore mg' = mgStore mg"
  by (auto simp: rehydrate_def heldAt_setState split: sum.splits prod.splits option.splits)

lemma persistMatch_held:
  "heldAt a i mg \<Longrightarrow> persistMatch g a s mg = (b, mg') \<Longrightarrow> heldAt b i mg' \<and> heldAt a i mg' \<and> mgStore mg' = mgStore mg"
  by (auto simp: persistMatch_def newMatch_def alloc_def heldAt_def match_at_def nth_append split: option.splits)

lemma sendAll_store [simp]: "mgStore (sendAll f ss mg) = mgStore mg"
  by (simp add: sendAll_def)

lemma pickSeat_id: "pickSeat game s m = Inr (seat, n) \<Longrightarrow> maID n = maID m"
  by (auto simp: pickSeat_def Let_def split: if_splits option.splits)

context store_contract
begin

lemma update_touches:
  assumes "ok (mgStore mg)" "heldAt a i mg" "runStore (stUpdate st a) mg = (e, mg')"
  shows "touches ok saved i mg mg' \<and> heldAt a i mg'"
proof -
  obtain q H s where q: "stUpdate st a (mgHeap mg, mgStore mg) = (q, H, s)" by (metis prod_cases3)
  then show ?thesis using assms update_failed [OF assms(1)] update_done [OF assms(1)]
    by (cases q) (fastforce simp: runStore_def touches_def heldAt_def)+
qed

lemma write_touches:
  assumes "ok (mgStore mg)" "heldAt a i mg" "cfStore cf = st" "writeMatch cf a k mg = (e, mg')"
  shows "touches ok saved i mg mg'"
proof (cases "\<exists>f. cfUseOptimisticConcurrency cf \<and> stUpdateIfStateID st = Some f")
  case True
  then obtain f where f: "cfUseOptimisticConcurrency cf" "stUpdateIfStateID st = Some f" by blast
  obtain q H s where q: "f a k (mgHeap mg, mgStore mg) = (q, H, s)" by (metis prod_cases3)
  have "mg' = mg\<lparr>mgHeap := H, mgStore := s\<rparr>" using assms(3,4) f q by (auto simp: writeMatch_def runStore_def)
  then show ?thesis using swap_done [OF assms(1) f(2)] swap_failed [OF assms(1) f(2)] q assms(2)
    by (cases q) (fastforce simp: touches_def heldAt_def)+
next
  case False
  then have "runStore (stUpdate st a) mg = (e, mg')" using assms(3,4) by (auto simp: writeMatch_def split: option.splits bool.splits)
  then show ?thesis using update_touches [OF assms(1,2)] by blast
qed

lemma load_touches:
  assumes cf: "cfStore cf = st" and mg: "ok (mgStore mg)" and l: "loadMigrated cf i mg = (r, mg')"
  shows "touches ok saved i mg mg' \<and> (\<forall>a. r = Inr a \<longrightarrow> heldAt a i mg')"
proof -
  obtain q H s where q: "stGet st i (mgHeap mg, mgStore mg) = (q, H, s)" by (metis prod_cases3)
  let ?mg = "mg\<lparr>mgHeap := H, mgStore := s\<rparr>"
  show ?thesis
  proof (cases q)
    case (Inl e)
    then have "r = Inl (ErrStore e)" "mg' = ?mg" using l q cf by (auto simp: loadMigrated_def runStore_def)
    then show ?thesis using get_failed [OF mg q [unfolded Inl]] by (simp add: touches_def)
  next
    case (Inr a)
    from get_found [OF mg q [unfolded Inr]] saved_id [OF mg] have a: "heldAt a i ?mg" "touches ok saved i mg ?mg" "ok s"
      by (auto simp: heldAt_def touches_def)
    show ?thesis
    proof (cases "Game ?mg (maGameName (match_at ?mg a))")
      case None
      then have "r = Inr a" "mg' = ?mg" using l q cf Inr by (auto simp: loadMigrated_def runStore_def)
      then show ?thesis using a by simp
    next
      case (Some g)
      obtain e mg1 where h: "rehydrate g a ?mg = (e, mg1)" by fastforce
      have h1: "heldAt a i mg1" "touches ok saved i mg mg1" "ok (mgStore mg1)"
        using rehydrate_held [OF a(1) h] a(2,3) touches_store(2) [of mg1 ?mg] by auto
      show ?thesis
      proof (cases e)
        case None
        then have m: "migrate cf g a mg1 = (r, mg')" using l q cf Inr Some h by (simp add: loadMigrated_def runStore_def)
        consider "mg' = mg1" "\<forall>b. r = Inr b \<longrightarrow> b = a"
          | n x where "runStore (stUpdate st a) (assign a n mg1) = (x, mg')" "maID n = i" "r = Inr a"
          using m cf heldAt_match [OF h1(1)] by (auto simp: migrate_def Let_def split: if_splits option.splits sum.splits prod.splits)
        then show ?thesis
        proof cases
          case (2 n x)
          have "touches ok saved i (assign a n mg1) mg' \<and> heldAt a i mg'"
            by (rule update_touches [OF _ _ 2(1)]) (use h1 2(2) heldAt_assign in auto)
          then show ?thesis using 2(3) h1(2) touches_trans [of ok saved i mg mg1 mg'] touches_store(1) [of "assign a n mg1" mg1] by auto
        qed (use h1 in auto)
      qed (use l q cf Inr Some h h1 in \<open>auto simp: loadMigrated_def runStore_def\<close>)
    qed
  qed
qed

lemma broadcast_touches:
  assumes "cfStore cf = st" "ok (mgStore mg)"
  shows "touches ok saved i mg (broadcast cf i s mg)" "touches ok saved i mg (broadcastMatchData cf i mg)"
proof -
  obtain r mg' where l: "loadMigrated cf i mg = (r, mg')" by fastforce
  have t: "touches ok saved i mg mg'" using load_touches [OF assms l] by blast
  then show "touches ok saved i mg (broadcast cf i s mg)" using l
    by (auto simp: touches_def broadcast_def Let_def split: sum.splits option.splits)
  show "touches ok saved i mg (broadcastMatchData cf i mg)" using l t
    by (auto simp: touches_def broadcastMatchData_def split: sum.splits)
qed

lemma State_touches:
  assumes "cfStore cf = st" "ok (mgStore mg)" "State cf i mg = (r, mg')"
  shows "touches ok saved i mg mg'"
  using load_touches [OF assms(1,2)] assms(3) by (auto simp: State_def)

end

context store_contract
begin

lemma Join_touches:
  assumes cf: "cfStore cf = st" and mg: "ok (mgStore mg)" and j: "Join cf i name opts mg = (r, mg')"
  shows "touches ok saved i mg mg'"
proof -
  obtain q mg1 where l: "loadMigrated cf i mg = (q, mg1)" by fastforce
  have t1: "touches ok saved i mg mg1" using load_touches [OF cf mg l] by blast
  show ?thesis
  proof (cases "mg' = mg1")
    case False
    then obtain a where a: "q = Inr a" using j l by (cases q) (auto simp: Join_def)
    have h: "heldAt a i mg1" using load_touches [OF cf mg l] a by blast
    let ?mg = "mg1\<lparr>mgDraws := Suc (mgDraws mg1)\<rparr>"
    let ?m = "match_at mg1 a" let ?requested = "if joSeat opts = '''' then joPlayerID opts else joSeat opts"
    obtain seat m where p: "pickSeat (Game mg1 (maGameName ?m)) ?requested ?m = Inr (seat, m)"
      "(if joPlayerID opts = '''' then None else find (\<lambda>p. prID p = joPlayerID opts) (maPlayers ?m)) = None"
      using j l a False by (auto simp: Join_def Let_def split: option.splits sum.splits)
    define n where "n = m\<lparr>maPlayers := maPlayers m @ [\<lparr>prID = if joPlayerID opts = '''' then seat else joPlayerID opts, prName = name,
      prSeat = seat, prCredentials = cfGenerateCredentials cf (mgDraws mg1), prData = joData opts, prIsConnected = False\<rparr>]\<rparr>"
    obtain e mg2 where w: "runStore (stUpdate st a) (assign a n ?mg) = (e, mg2)" by fastforce
    have "maID n = i" using pickSeat_id [OF p(1)] heldAt_match [OF h] by (simp add: n_def)
    moreover have "mg' = mg2 \<or> (\<exists>ev. mg' = fireLifecycle ev (broadcastMatchData cf i mg2))"
      using j l a cf p w unfolding n_def by (cases e) (auto simp: Join_def Let_def draw_def)
    ultimately have u: "runStore (stUpdate st a) (assign a n ?mg) = (e, mg2)" "maID n = i"
      "mg' = mg2 \<or> (\<exists>ev. mg' = fireLifecycle ev (broadcastMatchData cf i mg2))" using w by blast+
    have "touches ok saved i (assign a n ?mg) mg2 \<and> heldAt a i mg2"
      by (rule update_touches [OF _ _ u(1)]) (use h t1 u(2) in \<open>auto simp: touches_def heldAt_def assign_def\<close>)
    then have t2: "touches ok saved i mg mg2" using t1 by (simp add: touches_def)
    then have "touches ok saved i mg (broadcastMatchData cf i mg2)"
      using broadcast_touches(2) [OF cf, of mg2 i] touches_trans by (metis touches_def)
    then show ?thesis using u(3) t2 by (auto simp: touches_def)
  qed (use t1 in simp)
qed

lemma dispatchLoop_touches:
  assumes cf: "cfStore cf = st"
  shows "ok (mgStore mg) \<Longrightarrow> heldAt a i mg \<Longrightarrow> dispatchLoop cf n i pid g a req mg = Some (r, mg') \<Longrightarrow> touches ok saved i mg mg'"
proof (induction n arbitrary: a mg)
  case 0
  then show ?case by (simp add: touches_refl)
next
  case (Suc n)
  let ?prev = "maState (match_at mg a)"
  obtain nx err h where ap: "ApplyContext (hgGame g) ?prev req (mgMem mg) = Some (nx, err, h)"
    using Suc.prems(3) by (cases "ApplyContext (hgGame g) ?prev req (mgMem mg)") auto
  show ?case
  proof (cases err)
    case (Some e)
    then show ?thesis using Suc.prems ap by (auto simp: touches_def)
  next
    case None
    let ?mg = "setState a nx (mg\<lparr>mgMem := h\<rparr>)"
    obtain b mg1 where p: "persistMatch g a nx ?mg = (b, mg1)" by fastforce
    have "heldAt a i ?mg" using Suc.prems(2) by (intro heldAt_setState) (simp add: heldAt_def)
    from persistMatch_held [OF this p] have b: "heldAt b i mg1" "mgStore mg1 = mgStore mg" by auto
    obtain e mg2 where w: "writeMatch cf b (StateID nx - 1) mg1 = (e, mg2)" by fastforce
    have t2: "touches ok saved i mg mg2" using write_touches [OF _ b(1) cf w] b(2) Suc.prems(1) by (simp add: touches_def)
    obtain q mg3 where l: "loadMigrated cf i mg2 = (q, mg3)" by fastforce
    have t3: "touches ok saved i mg2 mg3" "\<forall>c. q = Inr c \<longrightarrow> heldAt c i mg3"
      using load_touches [OF cf _ l] t2 by (auto simp: touches_def)
    have "mg' = mg2 \<or> mg' = mg3 \<or> (\<exists>c. q = Inr c \<and> dispatchLoop cf n i pid g c req mg3 = Some (r, mg'))"
      using Suc.prems(3) ap None p w l by (auto split: option.splits storeError.splits if_splits sum.splits)
    moreover have "touches ok saved i mg mg3" using touches_trans [OF t2 t3(1)] .
    moreover have "touches ok saved i mg mg'" if "q = Inr c" "dispatchLoop cf n i pid g c req mg3 = Some (r, mg')" for c
      using Suc.IH [OF _ _ that(2)] t3 that(1) \<open>touches ok saved i mg mg3\<close> by (auto simp: touches_def)
    ultimately show ?thesis using t2 by blast
  qed
qed

lemma MoveReqCtx_touches:
  assumes cf: "cfStore cf = st" and mg: "ok (mgStore mg)" and r: "MoveReqCtx cf i pid creds req mg = Some (r, mg')"
  shows "touches ok saved i mg mg'"
proof -
  obtain now mg0 where now: "(if rqNowMs req = 0 then draw (cfNow cf) mg else (rqNowMs req, mg)) = (now, mg0)" by fastforce
  then have s0: "mgStore mg0 = mgStore mg" by (auto simp: draw_def split: if_splits)
  obtain q mg1 where l: "loadMigrated cf i mg0 = (q, mg1)" by fastforce
  have t1: "touches ok saved i mg mg1" "\<forall>a. q = Inr a \<longrightarrow> heldAt a i mg1"
    using load_touches [OF cf _ l] mg s0 by (auto simp: touches_def)
  consider "mg' = mg0" | "mg' = mg1" | a g seat where "q = Inr a" "dispatchLocked cf i pid g a (asClient seat (req\<lparr>rqNowMs := now\<rparr>)) mg1 = Some (r, mg')"
    using r l by (auto simp: MoveReqCtx_def now Let_def split: if_splits sum.splits option.splits)
  then show ?thesis
  proof cases
    case (3 a g seat)
    let ?req = "asClient seat (req\<lparr>rqNowMs := now\<rparr>)"
    obtain x mg2 where d1: "dispatchLoop cf (occRetries cf) i pid g a ?req mg1 = Some (x, mg2)"
      using 3(2) by (auto simp: dispatchLocked_def bind_eq_Some_conv)
    have d2: "mg' = mg2 \<or> (\<exists>s. mgStore mg' = mgStore (broadcast cf i s mg2))"
    proof (cases x)
      case (Inr y)
      obtain b nx prev where "y = (b, nx, prev)" by (metis prod_cases3)
      then have "mgStore mg' = mgStore (broadcast cf i nx mg2)"
        using 3(2) d1 Inr by (auto simp: dispatchLocked_def Let_def bind_eq_Some_conv)
      then show ?thesis by blast
    qed (use 3(2) d1 in \<open>simp add: dispatchLocked_def\<close>)
    note d = d1 d2
    have "touches ok saved i mg1 mg2" using dispatchLoop_touches [OF cf _ _ d(1)] t1 3(1) by (auto simp: touches_def)
    then have t2: "touches ok saved i mg mg2" using touches_trans t1(1) by blast
    moreover have "touches ok saved i mg2 (broadcast cf i s mg2)" for s using broadcast_touches(1) [OF cf] t2 by (auto simp: touches_def)
    ultimately show ?thesis using d(2) by (auto simp: touches_def)
  qed (use t1 mg s0 in \<open>auto simp: touches_def\<close>)
qed

lemma list_touches:
  assumes "cfStore cf = st" "ok (mgStore mg)" "FindByJoinCode cf game code mg = (r, mg')"
  shows "ok (mgStore mg') \<and> saved (mgStore mg') = saved (mgStore mg)"
proof -
  obtain q H s where q: "stList st game (mgHeap mg, mgStore mg) = (q, H, s)" by (metis prod_cases3)
  then have "ok s \<and> saved s = saved (mgStore mg)" using list_done [OF assms(2)] list_failed [OF assms(2)] by (cases q) blast+
  then show ?thesis using assms q
    by (auto simp: FindByJoinCode_def ListMatches_def runStore_def split: if_splits sum.splits option.splits prod.splits)
qed

lemma install_touches:
  assumes "cfStore cf = st" "ok (mgStore mg)" "install cf g m mg = (r, mg')"
  shows "touches ok saved (maID m) mg mg' \<and> (\<forall>i. r = Inr i \<longrightarrow> i = maID m) \<and> mgHeap mg' = mgHeap mg @ [m]"
proof -
  obtain q H s where q: "stCreate st (length (mgHeap mg)) (mgHeap mg @ [m], mgStore mg) = (q, H, s)" by (metis prod_cases3)
  have "ok s \<and> (\<forall>j. j \<noteq> maID m \<longrightarrow> saved s j = saved (mgStore mg) j) \<and> H = mgHeap mg @ [m]"
    using create_done [OF assms(2)] create_failed [OF assms(2)] q by (cases q) fastforce+
  then show ?thesis using assms(1,3) q
    by (auto simp: install_def newMatch_def alloc_def runStore_def touches_def Let_def split: option.splits)
qed

lemma startMatch_touches:
  assumes cf: "cfStore cf = st" and mg: "ok (mgStore mg)" and s: "startMatch cf g opts game mg = Some (r, mg')"
  shows "\<exists>n. touches ok saved (cfNewID cf n) mg mg' \<and> (\<forall>i. r = Inr i \<longrightarrow> i = cfNewID cf n)" "heldAt a j mg \<Longrightarrow> heldAt a j mg'"
proof -
  obtain sd mg2 where d: "seed cf mg = Some (sd, mg2)" using s by (auto simp: startMatch_def bind_eq_Some_conv)
  then have d2: "mgStore mg2 = mgStore mg" "mgHeap mg2 = mgHeap mg" by (auto simp: seed_def draw_def split: option.splits)
  let ?mg = "\<lambda>h. mg2\<lparr>mgMem := h, mgDraws := Suc (Suc (mgDraws mg2))\<rparr>"
  have "(\<exists>n. touches ok saved (cfNewID cf n) mg mg' \<and> (\<forall>i. r = Inr i \<longrightarrow> i = cfNewID cf n)) \<and> (\<exists>ms. mgHeap mg' = mgHeap mg @ ms)"
  proof -
    consider h where "mg' = mg2\<lparr>mgMem := h\<rparr>" "\<exists>e. r = Inl e"
      | h m where "install cf g m (?mg h) = (r, mg')" "maID m = cfNewID cf (mgDraws mg2)"
      using s d by (fastforce simp: startMatch_def bind_eq_Some_conv Let_def draw_def nowUnix_def split: option.splits prod.splits)
    then show ?thesis
    proof cases
      case (1 h)
      then show ?thesis using d2 mg by (auto simp: touches_def)
    next
      case (2 h m)
      show ?thesis using install_touches [OF cf _ 2(1)] mg d2 2(2) by (auto simp: touches_def)
    qed
  qed
  then show "\<exists>n. touches ok saved (cfNewID cf n) mg mg' \<and> (\<forall>i. r = Inr i \<longrightarrow> i = cfNewID cf n)" "heldAt a j mg \<Longrightarrow> heldAt a j mg'"
    by (auto simp: heldAt_def nth_append)
qed

lemma Create_touches:
  assumes cf: "cfStore cf = st" and mg: "ok (mgStore mg)" and c: "Create cf game opts mg = Some (r, mg')"
  shows "\<exists>n. touches ok saved (cfNewID cf n) mg mg' \<and> (\<forall>i. r = Inr i \<longrightarrow> i = cfNewID cf n)"
proof -
  obtain t mg1 where j: "(if opJoinCode opts = '''' then (False, mg)
      else (case FindByJoinCode cf game (opJoinCode opts) mg of (Inr _, mg) \<Rightarrow> (True, mg) | (Inl _, mg) \<Rightarrow> (False, mg))) = (t, mg1)" by fastforce
  have t1: "ok (mgStore mg1)" "saved (mgStore mg1) = saved (mgStore mg)"
    using j mg list_touches [OF cf mg] by (auto split: if_splits prod.splits sum.splits)
  consider "mg' = mg" "\<exists>e. r = Inl e" | "mg' = mg1" "\<exists>e. r = Inl e" | g where "startMatch cf g opts game mg1 = Some (r, mg')"
    using c j by (fastforce simp: Create_def createLockedFull_def Let_def split: option.splits if_splits prod.splits)
  then show ?thesis
  proof cases
    case (3 g)
    then show ?thesis using startMatch_touches(1) [OF cf t1(1) 3] t1(2) by (auto simp: touches_def)
  qed (use t1 mg in \<open>auto simp: touches_def\<close>)
qed

text \<open>PlayAgain writes two matches: the successor, under an id of its own, and the link to it.\<close>

lemma PlayAgain_touches:
  assumes cf: "cfStore cf = st" and mg: "ok (mgStore mg)" and p: "PlayAgain cf i pid creds n data usePrev mg = Some (r, mg')"
  shows "ok (mgStore mg') \<and> (\<exists>k. \<forall>j. j \<noteq> i \<longrightarrow> j \<noteq> cfNewID cf k \<longrightarrow> saved (mgStore mg') j = saved (mgStore mg) j)"
proof -
  obtain q mg1 where l: "loadMigrated cf i mg = (q, mg1)" by fastforce
  note t = load_touches [OF cf mg l]
  have stay: ?thesis if "mg' = mg1" using t that by (auto simp: touches_def)
  show ?thesis
  proof (cases q)
    case (Inl e)
    then show ?thesis using p l stay by (simp add: PlayAgain_def)
  next
    case (Inr a)
    then have held: "heldAt a i mg1" using t by blast
    show ?thesis
    proof (cases "authed cf pid creds (match_at mg1 a) \<and> maNextMatchID (match_at mg1 a) = ''''")
      case False
      then show ?thesis using p l Inr stay by (auto simp: PlayAgain_def Let_def split: if_splits)
    next
      case True
      obtain game n' data' where c: "\<exists>mg2 r2. createLocked cf game n' data' False mg1 = Some (r2, mg2) \<and>
          (case r2 of Inl e \<Rightarrow> mg' = mg2
           | Inr i' \<Rightarrow> \<exists>e. runStore (stUpdate st a) (assign a ((match_at mg2 a)\<lparr>maNextMatchID := i'\<rparr>) mg2) = (e, mg'))"
        using p l Inr True cf by (fastforce simp: PlayAgain_def Let_def bind_eq_Some_conv split: sum.splits prod.splits)
      then obtain r2 mg2 where c2: "createLocked cf game n' data' False mg1 = Some (r2, mg2)"
        "case r2 of Inl e \<Rightarrow> mg' = mg2
           | Inr i' \<Rightarrow> \<exists>e. runStore (stUpdate st a) (assign a ((match_at mg2 a)\<lparr>maNextMatchID := i'\<rparr>) mg2) = (e, mg')" by blast
      have ok1: "ok (mgStore mg1)" using t by (simp add: touches_def)
      obtain k where k: "touches ok saved (cfNewID cf k) mg1 mg2" and h2: "heldAt a i mg2"
      proof (cases "mg2 = mg1")
        case True
        then show thesis using that held ok1 touches_refl by blast
      next
        case False
        then obtain g opts where "startMatch cf g opts game mg1 = Some (r2, mg2)"
          using c2(1) by (auto simp: createLocked_def split: option.splits)
        from startMatch_touches [OF cf ok1 this] held that show thesis by blast
      qed
      show ?thesis
      proof (cases r2)
        case (Inl e)
        then show ?thesis using c2(2) t k by (auto simp: touches_def intro!: exI [of _ k])
      next
        case (Inr i')
        let ?mg = "assign a ((match_at mg2 a)\<lparr>maNextMatchID := i'\<rparr>) mg2"
        obtain e where u: "runStore (stUpdate st a) ?mg = (e, mg')" using c2(2) Inr by auto
        have "heldAt a i ?mg" using h2 heldAt_match [OF h2] by (intro heldAt_assign) simp_all
        then have "touches ok saved i ?mg mg'" using update_touches [OF _ _ u] k by (simp add: touches_def)
        then show ?thesis using t k by (auto simp: touches_def intro!: exI [of _ k])
      qed
    qed
  qed
qed


end

context store_contract
begin

lemma savePlayers_touches:
  assumes cf: "cfStore cf = st" and mg: "ok (mgStore mg)" "heldAt a i mg"
  shows "touches ok saved i mg (snd (savePlayers cf i a ps mg))"
proof -
  let ?n = "(match_at mg a)\<lparr>maPlayers := ps\<rparr>"
  obtain e mg1 where u: "runStore (stUpdate st a) (assign a ?n mg) = (e, mg1)" by fastforce
  have "touches ok saved i (assign a ?n mg) mg1"
    using update_touches [OF _ heldAt_assign [OF mg(2)] u] mg(1) heldAt_match [OF mg(2)] by simp
  then have t1: "touches ok saved i mg mg1" by (simp add: touches_def)
  have t2: "touches ok saved i mg (broadcastMatchData cf i mg1)"
    using broadcast_touches(2) [OF cf, of mg1 i] t1 by (auto simp: touches_def)
  show ?thesis using u t1 t2 cf by (auto simp: savePlayers_def Let_def split: option.splits)
qed

lemma players_touch:
  assumes cf: "cfStore cf = st" and mg: "ok (mgStore mg)"
  shows "touches ok saved i mg (snd (Leave cf i pid creds mg))" "touches ok saved i mg (snd (UpdatePlayer cf i pid creds upd mg))"
    "touches ok saved i mg (snd (SetConnected cf i pid present mg))" "touches ok saved i mg (snd (Authenticate cf i pid creds mg))"
proof -
  obtain q mg1 where l: "loadMigrated cf i mg = (q, mg1)" by fastforce
  note load = load_touches [OF cf mg l]
  have save: "touches ok saved i mg (snd (savePlayers cf i a ps mg1))" if "q = Inr a" for a ps
    using savePlayers_touches [OF cf, of mg1 a i ps] load that by (auto simp: touches_def)
  show "touches ok saved i mg (snd (Leave cf i pid creds mg))"
  proof (cases q)
    case (Inr a)
    show ?thesis
    proof (cases "playerIndex pid (match_at mg1 a)")
      case (Some k)
      have "touches ok saved i mg (snd (savePlayers cf i a (remove_at k (maPlayers (match_at mg1 a))) mg1))" using save [OF Inr] .
      then show ?thesis using load Some by (auto simp: Leave_def l Inr Let_def touches_def split: prod.splits option.splits)
    qed (use load in \<open>simp add: Leave_def l Inr Let_def\<close>)
  qed (use load in \<open>simp add: Leave_def l\<close>)
  show "touches ok saved i mg (snd (UpdatePlayer cf i pid creds upd mg))"
    using load by (auto simp: UpdatePlayer_def l Let_def split: sum.splits option.splits intro!: save)
  show "touches ok saved i mg (snd (SetConnected cf i pid present mg))"
    using load mg by (auto simp: SetConnected_def l Let_def touches_refl split: sum.splits option.splits intro!: save)
  show "touches ok saved i mg (snd (Authenticate cf i pid creds mg))"
    using load mg by (auto simp: Authenticate_def l touches_refl split: sum.splits option.splits)
qed

lemma DryMoveReq_touches:
  assumes cf: "cfStore cf = st" and mg: "ok (mgStore mg)" and d: "DryMoveReq cf i pid creds req mg = Some (r, mg')"
  shows "touches ok saved i mg mg'"
proof -
  obtain q mg1 where l: "loadMigrated cf i mg = (q, mg1)" by fastforce
  have "mgStore mg' = mgStore mg1"
    using d l by (auto simp: DryMoveReq_def Let_def split: sum.splits option.splits)
  then show ?thesis using load_touches [OF cf mg l] by (simp add: touches_def)
qed

lemma Reset_touches:
  assumes cf: "cfStore cf = st" and mg: "ok (mgStore mg)" and d: "Reset cf i pid creds mg = Some (r, mg')"
  shows "touches ok saved i mg mg'"
proof -
  obtain q mg1 where l: "loadMigrated cf i mg = (q, mg1)" by fastforce
  note load = load_touches [OF cf mg l]
  show ?thesis
  proof (cases "mgStore mg' = mgStore mg1")
    case False
    then obtain a where a: "q = Inr a" using d l by (cases q) (auto simp: Reset_def)
    let ?m = "match_at mg1 a"
    have h: "heldAt a i mg1" using load a by blast
    obtain g where g: "authed cf pid creds ?m" "Game mg1 (maGameName ?m) = Some g"
      using d l a False by (auto simp: Reset_def Let_def split: if_splits option.splits)
    obtain sd mg2 where s: "seed cf mg1 = Some (sd, mg2)" using d l a g by (auto simp: Reset_def Let_def)
    then have s2: "mgStore mg2 = mgStore mg1" "mgHeap mg2 = mgHeap mg1" by (auto simp: seed_def draw_def split: option.splits)
    obtain fresh err hp where n: "NewMatchSeededE (hgGame g) (NumPlayers (Ctx (maState ?m))) (maSetupData ?m) sd (mgMem mg2) = Some (fresh, err, hp)"
      using d l a g s by (auto simp: Reset_def Let_def)
    have e: "err = None" using d l a g s n s2 False by (cases err) (auto simp: Reset_def Let_def)
    let ?n = "?m\<lparr>maState := fresh, maPlayers := map (prIsConnected_update (\<lambda>_. False)) (maPlayers ?m)\<rparr>"
    let ?mg = "mg2\<lparr>mgMem := hp\<rparr>"
    obtain x mg3 where u: "runStore (stUpdate st a) (assign a ?n ?mg) = (x, mg3)" by fastforce
    have "heldAt a i (assign a ?n ?mg)" using h heldAt_match [OF h] s2 by (simp add: heldAt_def assign_def)
    then have "touches ok saved i (assign a ?n ?mg) mg3" using update_touches [OF _ _ u] load s2 by (simp add: touches_def)
    then have t3: "touches ok saved i mg mg3" using load s2 by (simp add: touches_def)
    let ?b = "broadcastMatchData cf i (broadcast cf i fresh mg3)"
    have "touches ok saved i mg3 (broadcast cf i fresh mg3)" by (rule broadcast_touches(1) [OF cf]) (use t3 in \<open>simp add: touches_def\<close>)
    then have "touches ok saved i mg (broadcast cf i fresh mg3)" using t3 touches_trans by blast
    then have tb: "touches ok saved i mg ?b" using broadcast_touches(2) [OF cf, of "broadcast cf i fresh mg3" i] by (auto simp: touches_def)
    have "mgStore mg' = mgStore mg3 \<or> mgStore mg' = mgStore ?b"
      using d l a g s n e u cf by (cases x) (auto simp: Reset_def Let_def)
    then show ?thesis using t3 tb by (auto simp: touches_def)
  qed (use load in \<open>simp add: touches_def\<close>)
qed

end

end
