(* ===== verification/McpTools.thy ===== *)
theory McpTools
  imports McpGames ManagerFrame
begin

text \<open>
  The MCP tools over matches and designed games (\<open>mcp/tools.go\<close>), the ownership gate in front of
  them (\<open>requireOwnership\<close>) and the guides of designed games (\<open>mcp/resources.go\<close>).

  \<open>tools\<close> is the mutable state a handler reaches; a component that is not configured is \<open>None\<close>.
  The caller's user id, empty when there is none, is an argument. The outer \<open>None\<close> of a result is a
  panic or a call that does not return, as for the manager.
\<close>

section \<open>State and results\<close>

datatype toolError =
    Required string | NotAuthenticated | OwnershipCheck ownError | ErrNotOwned string string | ClaimFailed ownError
  | GameError registryError | ManagerError matchError | NoLongerRegistered string | NoEnumerate string
  | RegistryNotConfigured | BadURI string | Forbidden string string string | GuideNotFound | GuideStore string
  | ResourcesNotWired

record ('g, 'h, 's, 'o, 'u) tools =
  tlManager :: "('g, 'h, 's) mgr"
  tlRegistry :: "'u registry option"
  tlOwnership :: "'o option"

record ('g, 'h, 's, 'o, 'u, 'sp) toolConfig =
  tcManager :: "('g, 's) config"
  tcOwnership :: "'o ownershipStore"
  tcUserGames :: "'u userGameStore"
  tcStarlark :: "('g, 'h, 'sp) starlark"

definition setManager :: "('g, 'h, 's) mgr \<Rightarrow> ('g, 'h, 's, 'o, 'u) tools \<Rightarrow> ('g, 'h, 's, 'o, 'u) tools" where
  "setManager mg ts = ts\<lparr>tlManager := mg\<rparr>"

section \<open>The gate (\<open>ownership.go\<close>)\<close>

definition requireOwnership :: "('g, 'h, 's, 'o, 'u, 'sp) toolConfig \<Rightarrow> string \<Rightarrow> string \<Rightarrow> ('g, 'h, 's, 'o, 'u) tools
    \<Rightarrow> toolError option \<times> ('g, 'h, 's, 'o, 'u) tools" where
  "requireOwnership tc userID matchID ts = (case tlOwnership ts of
      None \<Rightarrow> (None, ts)
    | Some s \<Rightarrow>
        (if userID = '''' then (Some NotAuthenticated, ts)
         else case owOwns (tcOwnership tc) userID matchID s of
           (Inl e, s) \<Rightarrow> (Some (OwnershipCheck e), ts\<lparr>tlOwnership := Some s\<rparr>)
         | (Inr owns, s) \<Rightarrow> (if owns then None else Some (ErrNotOwned matchID userID), ts\<lparr>tlOwnership := Some s\<rparr>)))"

section \<open>Listing and creating\<close>

definition ListGames :: "string \<Rightarrow> ('g, 'h, 's, 'o, 'u) tools \<Rightarrow> gameListing list" where
  "ListGames userID ts = (case tlRegistry ts of
      Some rg \<Rightarrow> ListForUser userID rg (tlManager ts)
    | None \<Rightarrow> sort_key glName (List.map_filter
        (\<lambda>n. if hasUserGameKeyPrefix n then None else map_option (\<lambda>g. listing (gmName (hgGame g)) False g) (Game (tlManager ts) n))
        (GameNames (tlManager ts))))"

record createMatchArgs =
  caGame :: string
  caNumPlayers :: int
  caSetupData :: goval
  caName :: string

record createMatchResult =
  crMatchID :: string
  crGame :: string
  crNumPlayers :: int

text \<open>The manager's key for the game: the name itself without a registry.\<close>

definition resolveGame :: "string \<Rightarrow> string \<Rightarrow> ('g, 'h, 's, 'o, 'u) tools \<Rightarrow> toolError + string" where
  "resolveGame userID game ts = (case tlRegistry ts of
      None \<Rightarrow> Inr game
    | Some rg \<Rightarrow> (case LookupForUser userID game rg (tlManager ts) of Inl e \<Rightarrow> Inl (GameError e) | Inr (key, _) \<Rightarrow> Inr key))"

definition claimMatch :: "('g, 'h, 's, 'o, 'u, 'sp) toolConfig \<Rightarrow> string \<Rightarrow> string \<Rightarrow> ('g, 'h, 's, 'o, 'u) tools
    \<Rightarrow> toolError option \<times> ('g, 'h, 's, 'o, 'u) tools" where
  "claimMatch tc userID matchID ts = (case tlOwnership ts of
      None \<Rightarrow> (None, ts)
    | Some s \<Rightarrow> (case owClaim (tcOwnership tc) userID matchID s of
        (e, s) \<Rightarrow> (map_option ClaimFailed e, ts\<lparr>tlOwnership := Some s\<rparr>)))"

definition CreateMatch :: "('g, 'h, 's, 'o, 'u, 'sp) toolConfig \<Rightarrow> string \<Rightarrow> createMatchArgs \<Rightarrow> ('g, 'h, 's, 'o, 'u) tools
    \<Rightarrow> ((toolError + createMatchResult) \<times> ('g, 'h, 's, 'o, 'u) tools) option" where
  "CreateMatch tc userID args ts =
     (if caGame args = '''' then Some (Inl (Required ''game''), ts)
      else if tlOwnership ts \<noteq> None \<and> userID = '''' then Some (Inl NotAuthenticated, ts)
      else case resolveGame userID (caGame args) ts of
        Inl e \<Rightarrow> Some (Inl e, ts)
      | Inr managerKey \<Rightarrow> do {
          (r, mg) \<leftarrow> Create (tcManager tc) managerKey
            \<lparr>opNumPlayers = caNumPlayers args, opSetupData = caSetupData args, opUnlisted = False, opName = caName args, opJoinCode = ''''\<rparr>
            (tlManager ts);
          let ts = setManager mg ts;
          (case r of
             Inl e \<Rightarrow> Some (Inl (ManagerError e), ts)
           | Inr matchID \<Rightarrow> (case claimMatch tc userID matchID ts of
               (Some e, ts) \<Rightarrow> Some (Inl e, ts)
             | (None, ts) \<Rightarrow> (case State (tcManager tc) matchID (tlManager ts) of
                 (Inl e, mg) \<Rightarrow> Some (Inl (ManagerError e), setManager mg ts)
               | (Inr a, mg) \<Rightarrow> Some (Inr \<lparr>crMatchID = matchID, crGame = caGame args,
                   crNumPlayers = NumPlayers (Ctx (maState (match_at mg a)))\<rparr>, setManager mg ts))))
        })"

section \<open>Playing\<close>

definition JoinMatch :: "('g, 'h, 's, 'o, 'u, 'sp) toolConfig \<Rightarrow> string \<Rightarrow> string \<Rightarrow> string \<Rightarrow> string \<Rightarrow> ('g, 'h, 's, 'o, 'u) tools
    \<Rightarrow> (toolError + joinResult) \<times> ('g, 'h, 's, 'o, 'u) tools" where
  "JoinMatch tc userID matchID playerID name ts =
     (if matchID = '''' then (Inl (Required ''matchID''), ts)
      else case requireOwnership tc userID matchID ts of
        (Some e, ts) \<Rightarrow> (Inl e, ts)
      | (None, ts) \<Rightarrow> (case Join (tcManager tc) matchID name \<lparr>joPlayerID = playerID, joSeat = '''', joData = VNil\<rparr> (tlManager ts) of
          (Inl e, mg) \<Rightarrow> (Inl (ManagerError e), setManager mg ts)
        | (Inr res, mg) \<Rightarrow> (Inr res, setManager mg ts)))"

record playerInfo =
  piPlayerID :: string
  piSeat :: string
  piName :: string
  piIsConnected :: bool

record 'g getStateResult =
  gsMatchID :: string
  gsGame :: string
  gsState :: "'g state"
  gsCurrentPlayer :: string
  gsPhase :: string
  gsTurn :: int
  gsPlayers :: "playerInfo list"
  gsGameover :: goval

text \<open>The match and its game, after the gate: the head of get_state and list_legal_moves.\<close>

definition loadOwned :: "('g, 'h, 's, 'o, 'u, 'sp) toolConfig \<Rightarrow> string \<Rightarrow> string \<Rightarrow> ('g, 'h, 's, 'o, 'u) tools
    \<Rightarrow> (toolError + ('g match \<times> ('g, 'h) hosted)) \<times> ('g, 'h, 's, 'o, 'u) tools" where
  "loadOwned tc userID matchID ts = (case requireOwnership tc userID matchID ts of
      (Some e, ts) \<Rightarrow> (Inl e, ts)
    | (None, ts) \<Rightarrow> (case State (tcManager tc) matchID (tlManager ts) of
        (Inl e, mg) \<Rightarrow> (Inl (ManagerError e), setManager mg ts)
      | (Inr a, mg) \<Rightarrow>
          (let m = match_at mg a
           in case Game mg (maGameName m) of
                None \<Rightarrow> (Inl (NoLongerRegistered (maGameName m)), setManager mg ts)
              | Some g \<Rightarrow> (Inr (m, g), setManager mg ts))))"

definition GetState :: "('g, 'h, 's, 'o, 'u, 'sp) toolConfig \<Rightarrow> string \<Rightarrow> string \<Rightarrow> string \<Rightarrow> ('g, 'h, 's, 'o, 'u) tools
    \<Rightarrow> (toolError + 'g getStateResult) \<times> ('g, 'h, 's, 'o, 'u) tools" where
  "GetState tc userID matchID playerID ts =
     (if matchID = '''' then (Inl (Required ''matchID''), ts)
      else case loadOwned tc userID matchID ts of
        (Inl e, ts) \<Rightarrow> (Inl e, ts)
      | (Inr (m, g), ts) \<Rightarrow>
          (let st = PlayerView (hgGame g) (maState m) playerID
           in (Inr \<lparr>gsMatchID = maID m, gsGame = publicGameName (maGameName m), gsState = st,
                 gsCurrentPlayer = CurrentPlayer (Ctx st), gsPhase = Phase (Ctx st), gsTurn = Turn (Ctx st),
                 gsPlayers = map (\<lambda>p. \<lparr>piPlayerID = prID p, piSeat = prSeat p, piName = prName p, piIsConnected = prIsConnected p\<rparr>) (maPlayers m),
                 gsGameover = Gameover (Ctx st)\<rparr>, ts)))"

definition ListLegalMoves :: "('g, 'h, 's, 'o, 'u, 'sp) toolConfig \<Rightarrow> string \<Rightarrow> string \<Rightarrow> string \<Rightarrow> ('g, 'h, 's, 'o, 'u) tools
    \<Rightarrow> (toolError + enumerateAction list) \<times> ('g, 'h, 's, 'o, 'u) tools" where
  "ListLegalMoves tc userID matchID playerID ts =
     (if matchID = '''' then (Inl (Required ''matchID''), ts)
      else if playerID = '''' then (Inl (Required ''playerID''), ts)
      else case loadOwned tc userID matchID ts of
        (Inl e, ts) \<Rightarrow> (Inl e, ts)
      | (Inr (m, g), ts) \<Rightarrow> (case gmEnumerate (hgGame g) of
          None \<Rightarrow> (Inl (NoEnumerate (maGameName m)), ts)
        | Some f \<Rightarrow> (Inr (f (G (maState m)) (Ctx (maState m)) playerID), ts)))"

record makeMoveArgs =
  maaMatchID :: string
  maaPlayerID :: string
  maaCredentials :: string
  maaMove :: string
  maaArgs :: "goval list"
  maaResumeTag :: string

record 'g makeMoveResult =
  mmMatchID :: string
  mmState :: "'g state"
  mmCurrentPlayer :: string
  mmGameover :: goval

definition moveRequestOf :: "makeMoveArgs \<Rightarrow> moveRequest" where
  "moveRequestOf args = \<lparr>rqPlayerID = maaPlayerID args, rqMove = maaMove args, rqArgs = maaArgs args, rqStateID = 0,
     rqResumeTag = maaResumeTag args, rqNowMs = 0, rqServerDispatch = False, rqFromClient = False\<rparr>"

text \<open>The state as the mover sees it, unless the match cannot be read back.\<close>

definition moverView :: "('g, 'h, 's, 'o, 'u, 'sp) toolConfig \<Rightarrow> makeMoveArgs \<Rightarrow> 'g state \<Rightarrow> ('g, 'h, 's) mgr \<Rightarrow> 'g state \<times> ('g, 'h, 's) mgr" where
  "moverView tc args st mg = (case State (tcManager tc) (maaMatchID args) mg of
      (Inl _, mg) \<Rightarrow> (st, mg)
    | (Inr a, mg) \<Rightarrow> (case Game mg (maGameName (match_at mg a)) of
        None \<Rightarrow> (st, mg)
      | Some g \<Rightarrow> (PlayerView (hgGame g) st (maaPlayerID args), mg)))"

definition MakeMove :: "('g, 'h, 's, 'o, 'u, 'sp) toolConfig \<Rightarrow> string \<Rightarrow> makeMoveArgs \<Rightarrow> ('g, 'h, 's, 'o, 'u) tools
    \<Rightarrow> ((toolError + 'g makeMoveResult) \<times> ('g, 'h, 's, 'o, 'u) tools) option" where
  "MakeMove tc userID args ts =
     (if maaMatchID args = '''' then Some (Inl (Required ''matchID''), ts)
      else if maaPlayerID args = '''' then Some (Inl (Required ''playerID''), ts)
      else if maaMove args = '''' then Some (Inl (Required ''move''), ts)
      else case requireOwnership tc userID (maaMatchID args) ts of
        (Some e, ts) \<Rightarrow> Some (Inl e, ts)
      | (None, ts) \<Rightarrow> do {
          (r, mg) \<leftarrow> MoveReqCtx (tcManager tc) (maaMatchID args) (maaPlayerID args) (maaCredentials args) (moveRequestOf args) (tlManager ts);
          (case r of
             Inl e \<Rightarrow> Some (Inl (ManagerError e), setManager mg ts)
           | Inr st \<Rightarrow>
               (let (st, mg) = moverView tc args st mg
                in Some (Inr \<lparr>mmMatchID = maaMatchID args, mmState = st, mmCurrentPlayer = CurrentPlayer (Ctx st),
                           mmGameover = Gameover (Ctx st)\<rparr>, setManager mg ts)))
        })"

section \<open>Designed games\<close>

definition RegisterGame :: "('g, 'h, 's, 'o, 'u, 'sp) toolConfig \<Rightarrow> string \<Rightarrow> string \<Rightarrow> string \<Rightarrow> ('g, 'h, 's, 'o, 'u) tools
    \<Rightarrow> (toolError + string) \<times> ('g, 'h, 's, 'o, 'u) tools" where
  "RegisterGame tc userID source llmGuide ts = (case tlRegistry ts of
      None \<Rightarrow> (Inl RegistryNotConfigured, ts)
    | Some rg \<Rightarrow> (case RegisterUserGame (tcStarlark tc) (tcUserGames tc) userID source llmGuide rg (tlManager ts) of
        (e, rg, mg) \<Rightarrow>
          (let ts = ts\<lparr>tlRegistry := Some rg, tlManager := mg\<rparr>
           in case e of
                Some e \<Rightarrow> (Inl (GameError e), ts)
              | None \<Rightarrow> (case slLoadSpec (tcStarlark tc) source of
                  Inl e \<Rightarrow> (Inl (GameError (LoadFailed e)), ts)
                | Inr spec \<Rightarrow> (Inr (slName (tcStarlark tc) spec), ts)))))"

definition DeleteGame :: "('g, 'h, 's, 'o, 'u, 'sp) toolConfig \<Rightarrow> string \<Rightarrow> string \<Rightarrow> ('g, 'h, 's, 'o, 'u) tools
    \<Rightarrow> toolError option \<times> ('g, 'h, 's, 'o, 'u) tools" where
  "DeleteGame tc userID name ts = (case tlRegistry ts of
      None \<Rightarrow> (Some RegistryNotConfigured, ts)
    | Some rg \<Rightarrow> (case DeleteUserGame (tcUserGames tc) userID name rg of
        (e, rg) \<Rightarrow> (map_option GameError e, ts\<lparr>tlRegistry := Some rg\<rparr>)))"

section \<open>Guides (\<open>resources.go\<close>)\<close>

definition guidePrefix :: string where "guidePrefix = ''game://''"

definition guideURI :: "string \<Rightarrow> string \<Rightarrow> string" where
  "guideURI userID n = guidePrefix @ userID @ CHR ''/'' # n @ ''/guide''"

text \<open>The URIs of the guides of a user, for each name of the list in turn.\<close>

fun guidesOf :: "'u userGameStore \<Rightarrow> string \<Rightarrow> string list \<Rightarrow> 'u \<Rightarrow> string list \<times> 'u" where
  "guidesOf us userID [] s = ([], s)"
| "guidesOf us userID (n # ns) s = (case ugGet us userID n s of
      (r, s) \<Rightarrow> (case guidesOf us userID ns s of
        (uris, s) \<Rightarrow> (case r of
          Inr (Some ug) \<Rightarrow> (if ugLLMGuide ug = '''' then uris else guideURI userID n # uris, s)
        | _ \<Rightarrow> (uris, s))))"

definition listGuideResources :: "'u userGameStore \<Rightarrow> string \<Rightarrow> 'u registry option \<Rightarrow> (toolError + string list) \<times> 'u registry option" where
  "listGuideResources us userID gr = (case gr of
      None \<Rightarrow> (Inr [], gr)
    | Some rg \<Rightarrow> (case ugList us userID (rgStore rg) of
        (Inl e, s) \<Rightarrow> (Inl (GuideStore e), Some (rg\<lparr>rgStore := s\<rparr>))
      | (Inr names, s) \<Rightarrow> (case guidesOf us userID names s of (uris, s) \<Rightarrow> (Inr uris, Some (rg\<lparr>rgStore := s\<rparr>)))))"

definition readGuideResource :: "'u userGameStore \<Rightarrow> string \<Rightarrow> string \<Rightarrow> 'u registry option \<Rightarrow> (toolError + string) \<times> 'u registry option" where
  "readGuideResource us caller uri gr = (case gr of
      None \<Rightarrow> (Inl ResourcesNotWired, gr)
    | Some rg \<Rightarrow>
        (if take (length guidePrefix) uri \<noteq> guidePrefix then (Inl (BadURI uri), gr)
         else case splitOn (CHR ''/'') (drop (length guidePrefix) uri) of
           [owner, name, guide] \<Rightarrow>
             (if guide \<noteq> ''guide'' then (Inl (BadURI uri), gr)
              else if caller \<noteq> owner then (Inl (Forbidden caller owner name), gr)
              else case ugGet us owner name (rgStore rg) of
                (r, s) \<Rightarrow> (case r of
                  Inl e \<Rightarrow> (Inl (GuideStore e), Some (rg\<lparr>rgStore := s\<rparr>))
                | Inr None \<Rightarrow> (Inl GuideNotFound, Some (rg\<lparr>rgStore := s\<rparr>))
                | Inr (Some ug) \<Rightarrow> (Inr (ugLLMGuide ug), Some (rg\<lparr>rgStore := s\<rparr>))))
         | _ \<Rightarrow> (Inl (BadURI uri), gr)))"

section \<open>Tenants\<close>

text \<open>A tool call by a user, as a step of the server.\<close>

inductive tool_step :: "('g, 'h, 's, 'o, 'u, 'sp) toolConfig \<Rightarrow> string \<Rightarrow> ('g, 'h, 's, 'o, 'u) tools \<Rightarrow> ('g, 'h, 's, 'o, 'u) tools \<Rightarrow> bool"
  for tc v where
  create: "CreateMatch tc v cargs ts = Some (r, ts') \<Longrightarrow> tool_step tc v ts ts'"
| join: "JoinMatch tc v j pid name ts = (r, ts') \<Longrightarrow> tool_step tc v ts ts'"
| look: "GetState tc v j pid ts = (r, ts') \<Longrightarrow> tool_step tc v ts ts'"
| legal: "ListLegalMoves tc v j pid ts = (r, ts') \<Longrightarrow> tool_step tc v ts ts'"
| move: "MakeMove tc v margs ts = Some (r, ts') \<Longrightarrow> tool_step tc v ts ts'"
| register: "RegisterGame tc v src guide ts = (r, ts') \<Longrightarrow> tool_step tc v ts ts'"
| delete: "DeleteGame tc v name ts = (r, ts') \<Longrightarrow> tool_step tc v ts ts'"

inductive_cases tool_stepE: "tool_step tc v ts ts'"

text \<open>A refusal at the gate, or of a request that names no match, player or move.\<close>

fun refusal :: "toolError \<Rightarrow> bool" where
  "refusal (Required _) = True"
| "refusal NotAuthenticated = True"
| "refusal (OwnershipCheck _) = True"
| "refusal (ErrNotOwned _ _) = True"
| "refusal _ = False"

lemma RegisterUserGame_store: "RegisterUserGame sl us u src guide rg mg = (e, rg', mg') \<Longrightarrow> mgStore mg' = mgStore mg"
  by (auto simp: RegisterUserGame_def registerLocked_def Manager.Register_def Let_def split: sum.splits option.splits if_splits prod.splits)

text \<open>A server whose matches and owners are stored by providers that keep their contracts.\<close>

locale tenancy = store_contract st ok saved readBack + own: ownership_contract ow ownOk owner
  for st :: "('g, 's) storage" and ok saved readBack and ow :: "'o ownershipStore" and ownOk owner
begin

definition hosts :: "string \<Rightarrow> string \<Rightarrow> ('g, 'h, 's, 'o, 'u) tools \<Rightarrow> bool" where
  "hosts u i ts \<longleftrightarrow> ok (mgStore (tlManager ts)) \<and> (\<exists>s. tlOwnership ts = Some s \<and> ownOk s \<and> owner s i = Some u)"

lemma hosts_manager: "hosts u i ts \<Longrightarrow> ok (mgStore mg) \<Longrightarrow> hosts u i (setManager mg ts)"
  by (simp add: hosts_def setManager_def)

lemma gate:
  assumes "tcOwnership tc = ow" "hosts u i ts" "requireOwnership tc v j ts = (e, ts')"
  shows "hosts u i ts' \<and> tlManager ts' = tlManager ts \<and> tlRegistry ts' = tlRegistry ts \<and>
    (case e of Some x \<Rightarrow> refusal x | None \<Rightarrow> j = i \<longrightarrow> v = u)"
proof -
  obtain s where s: "tlOwnership ts = Some s" "ownOk s" "owner s i = Some u" "ok (mgStore (tlManager ts))"
    using assms(2) by (auto simp: hosts_def)
  obtain r s' where r: "owOwns ow v j s = (r, s')" by fastforce
  show ?thesis
  proof (cases r)
    case (Inl x)
    then show ?thesis using assms s r own.owns_failed [OF s(2) r [unfolded Inl]]
      by (auto simp: requireOwnership_def hosts_def split: if_splits)
  next
    case (Inr b)
    then show ?thesis using assms s r own.owns_done [OF s(2) r [unfolded Inr]]
      by (auto simp: requireOwnership_def hosts_def split: if_splits)
  qed
qed

lemma refused:
  assumes tc: "tcOwnership tc = ow" and ts: "hosts u i ts" "v \<noteq> u"
  shows "\<exists>e ts'. requireOwnership tc v i ts = (Some e, ts') \<and> refusal e \<and> tlManager ts' = tlManager ts"
proof -
  obtain e ts' where r: "requireOwnership tc v i ts = (e, ts')" by fastforce
  show ?thesis using gate [OF tc ts(1) r] ts(2) r by (cases e) auto
qed

text \<open>What a step of another user may do to a match.\<close>

definition keeps :: "string \<Rightarrow> string \<Rightarrow> ('g, 'h, 's, 'o, 'u) tools \<Rightarrow> ('g, 'h, 's, 'o, 'u) tools \<Rightarrow> bool" where
  "keeps u i ts ts' \<longleftrightarrow> hosts u i ts' \<and> saved (mgStore (tlManager ts')) i = saved (mgStore (tlManager ts)) i"

lemma touches_keeps:
  "hosts u i ts1 \<Longrightarrow> tlManager ts1 = tlManager ts \<Longrightarrow> touches ok saved j (tlManager ts) mg \<Longrightarrow> j \<noteq> i \<Longrightarrow> keeps u i ts (setManager mg ts1)"
  by (auto simp: keeps_def hosts_def touches_def setManager_def)

lemma loadOwned_keeps:
  assumes tc: "cfStore (tcManager tc) = st" "tcOwnership tc = ow" and ts: "hosts u i ts" "v \<noteq> u" and l: "loadOwned tc v j ts = (r, ts')"
  shows "keeps u i ts ts'"
proof -
  obtain e ts1 where g: "requireOwnership tc v j ts = (e, ts1)" by fastforce
  note gt = gate [OF tc(2) ts(1) g]
  show ?thesis
  proof (cases e)
    case None
    obtain q mg where q: "State (tcManager tc) j (tlManager ts1) = (q, mg)" by fastforce
    have t: "touches ok saved j (tlManager ts) mg" using State_touches [OF tc(1) _ q] gt ts(1) by (simp add: hosts_def)
    have "ts' = setManager mg ts1" using l g None q by (auto simp: loadOwned_def Let_def split: sum.splits option.splits)
    then show ?thesis using touches_keeps [OF _ _ t] gt None ts(2) by auto
  qed (use l g gt in \<open>auto simp: loadOwned_def keeps_def\<close>)
qed

lemma join_keeps:
  assumes tc: "cfStore (tcManager tc) = st" "tcOwnership tc = ow" and ts: "hosts u i ts" "v \<noteq> u" and j: "JoinMatch tc v j pid name ts = (r, ts')"
  shows "keeps u i ts ts'"
proof -
  obtain e ts1 where g: "requireOwnership tc v j ts = (e, ts1)" by fastforce
  note gt = gate [OF tc(2) ts(1) g]
  show ?thesis
  proof (cases "j = '''' \<or> e \<noteq> None")
    case False
    let ?opts = "\<lparr>joPlayerID = pid, joSeat = '''', joData = VNil\<rparr>"
    obtain q mg where q: "Join (tcManager tc) j name ?opts (tlManager ts1) = (q, mg)" by fastforce
    have t: "touches ok saved j (tlManager ts) mg" using Join_touches [OF tc(1) _ q] gt ts(1) by (simp add: hosts_def)
    have "ts' = setManager mg ts1" using j g False q by (auto simp: JoinMatch_def split: sum.splits)
    then show ?thesis using touches_keeps [OF _ _ t] gt False ts(2) by auto
  qed (use j g gt ts(1) in \<open>auto simp: JoinMatch_def keeps_def split: if_splits\<close>)
qed

lemma move_keeps:
  assumes tc: "cfStore (tcManager tc) = st" "tcOwnership tc = ow" and ts: "hosts u i ts" "v \<noteq> u" and m: "MakeMove tc v args ts = Some (r, ts')"
  shows "keeps u i ts ts'"
proof -
  let ?j = "maaMatchID args"
  obtain e ts1 where g: "requireOwnership tc v ?j ts = (e, ts1)" by fastforce
  note gt = gate [OF tc(2) ts(1) g]
  show ?thesis
  proof (cases "ts' = ts \<or> ts' = ts1")
    case False
    then have e: "e = None" using m g by (cases e) (auto simp: MakeMove_def split: if_splits)
    obtain q mg where q: "MoveReqCtx (tcManager tc) ?j (maaPlayerID args) (maaCredentials args) (moveRequestOf args) (tlManager ts1) = Some (q, mg)"
      using m g e False by (auto simp: MakeMove_def bind_eq_Some_conv split: if_splits)
    have t: "touches ok saved ?j (tlManager ts) mg" using MoveReqCtx_touches [OF tc(1) _ q] gt ts(1) by (simp add: hosts_def)
    obtain w mg2 where w: "State (tcManager tc) ?j mg = (w, mg2)" by fastforce
    have t2: "touches ok saved ?j (tlManager ts) mg2" using State_touches [OF tc(1) _ w] t by (auto simp: touches_def)
    have "snd (moverView tc args x mg) = mg2" for x using w by (auto simp: moverView_def split: sum.splits option.splits)
    then have "ts' = setManager mg ts1 \<or> ts' = setManager mg2 ts1"
      using m g e q False by (auto simp: MakeMove_def split: if_splits sum.splits prod.splits) (metis snd_conv)+
    then show ?thesis using touches_keeps [OF _ _ t] touches_keeps [OF _ _ t2] gt e ts(2) by auto
  qed (use ts(1) gt in \<open>auto simp: keeps_def\<close>)
qed

lemma create_keeps:
  assumes tc: "cfStore (tcManager tc) = st" "tcOwnership tc = ow" and ts: "hosts u i ts" and fresh: "\<And>n. cfNewID (tcManager tc) n \<noteq> i"
    and c: "CreateMatch tc v args ts = Some (r, ts')"
  shows "keeps u i ts ts'"
proof (cases "ts' = ts")
  case False
  obtain key where k: "resolveGame v (caGame args) ts = Inr key"
    using c False by (auto simp: CreateMatch_def split: if_splits sum.splits)
  let ?opts = "\<lparr>opNumPlayers = caNumPlayers args, opSetupData = caSetupData args, opUnlisted = False, opName = caName args, opJoinCode = ''''\<rparr>"
  obtain q mg where q: "Create (tcManager tc) key ?opts (tlManager ts) = Some (q, mg)"
    using c False k by (auto simp: CreateMatch_def bind_eq_Some_conv split: if_splits)
  obtain n where n: "touches ok saved (cfNewID (tcManager tc) n) (tlManager ts) mg" "\<forall>j. q = Inr j \<longrightarrow> j = cfNewID (tcManager tc) n"
    using Create_touches [OF tc(1) _ q] ts by (auto simp: hosts_def)
  let ?ts = "setManager mg ts" let ?j = "cfNewID (tcManager tc) n"
  have k1: "keeps u i ts ?ts" using touches_keeps [OF ts _ n(1)] fresh by simp
  obtain e ts2 where cl: "claimMatch tc v ?j ?ts = (e, ts2)" by fastforce
  obtain s where s: "tlOwnership ?ts = Some s" "ownOk s" "owner s i = Some u" "ok (mgStore mg)"
    using k1 by (auto simp: keeps_def hosts_def setManager_def)
  obtain x s' where x: "owClaim ow v ?j s = (x, s')" by fastforce
  have "ts2 = ?ts\<lparr>tlOwnership := Some s'\<rparr>" using cl tc(2) s(1) x by (auto simp: claimMatch_def)
  then have h2: "hosts u i ts2" "tlManager ts2 = mg"
    using own.claim_keeps_owner [OF s(2,3) x] s(4) by (simp_all add: hosts_def setManager_def)
  obtain w mg3 where w: "State (tcManager tc) ?j mg = (w, mg3)" by fastforce
  have t3: "touches ok saved ?j (tlManager ts) mg3" using State_touches [OF tc(1) _ w] n(1) by (auto simp: touches_def)
  have "ts' = ?ts \<or> ts' = ts2 \<or> ts' = setManager mg3 ts2"
    using c k q n(2) cl w h2(2) False by (cases q) (auto simp: CreateMatch_def split: if_splits option.splits sum.splits)
  moreover have "keeps u i ts ts2" using h2 k1 by (simp add: keeps_def setManager_def)
  moreover have "keeps u i ts (setManager mg3 ts2)" using h2(1) t3 fresh [of n] by (simp add: keeps_def hosts_def setManager_def touches_def)
  ultimately show ?thesis using k1 by blast
qed (use ts in \<open>simp add: keeps_def\<close>)

lemma step_keeps:
  assumes tc: "cfStore (tcManager tc) = st" "tcOwnership tc = ow" and ts: "hosts u i ts" "v \<noteq> u" and fresh: "\<And>n. cfNewID (tcManager tc) n \<noteq> i"
    and step: "tool_step tc v ts ts'"
  shows "keeps u i ts ts'"
  using step
proof cases
  case (look j pid r)
  obtain q ts1 where l: "loadOwned tc v j ts = (q, ts1)" by fastforce
  then have "ts' = ts \<or> ts' = ts1" using look by (auto simp: GetState_def Let_def split: if_splits sum.splits prod.splits)
  then show ?thesis using loadOwned_keeps [OF tc ts l] ts(1) by (auto simp: keeps_def)
next
  case (legal j pid r)
  obtain q ts1 where l: "loadOwned tc v j ts = (q, ts1)" by fastforce
  then have "ts' = ts \<or> ts' = ts1" using legal by (auto simp: ListLegalMoves_def split: if_splits sum.splits prod.splits option.splits)
  then show ?thesis using loadOwned_keeps [OF tc ts l] ts(1) by (auto simp: keeps_def)
next
  case (register src guide r)
  then have "tlOwnership ts' = tlOwnership ts" "mgStore (tlManager ts') = mgStore (tlManager ts)"
    using RegisterUserGame_store by (fastforce simp: RegisterGame_def Let_def split: option.splits prod.splits sum.splits)+
  then show ?thesis using ts(1) by (simp add: keeps_def hosts_def)
next
  case (delete name r)
  then show ?thesis using ts(1) by (auto simp: DeleteGame_def keeps_def hosts_def split: option.splits prod.splits)
qed (blast intro: create_keeps [OF tc ts(1) fresh] join_keeps [OF tc ts] move_keeps [OF tc ts])+

end

interpretation memory_tenancy: tenancy Memory memOk map_of "\<lambda>m. m" MemoryOwnership memOwnOk "\<lambda>s. map_of (moOwners s)"
  by unfold_locales

interpretation postgres_tenancy: tenancy Memory memOk map_of "\<lambda>m. m" "PostgresOwnership w" pgOk pgOwner
  by unfold_locales


text \<open>A hosted server with the match of the table above, owned by alice.\<close>

definition demoTools :: "(nat, unit, nat memory, memoryOwnership, inMemoryUserGames) tools" where
  "demoTools = \<lparr>tlManager = tableMgr [(''m'', tableMatch)], tlRegistry = Some (NewUserAwareRegistry noGames),
     tlOwnership = Some (snd (memClaim ''alice'' ''m'' NewMemoryOwnership))\<rparr>"

definition demoToolConfig :: "(nat, unit, nat memory, memoryOwnership, inMemoryUserGames, string) toolConfig" where
  "demoToolConfig = \<lparr>tcManager = tableConfig Memory, tcOwnership = MemoryOwnership, tcUserGames = InMemoryUserGames int, tcStarlark = demoFront\<rparr>"

definition bump0 :: makeMoveArgs where
  "bump0 = \<lparr>maaMatchID = ''m'', maaPlayerID = ''0'', maaCredentials = ''s0'', maaMove = ''bump'', maaArgs = [], maaResumeTag = ''''\<rparr>"

lemma demoTools_start: "memOk (mgStore (tlManager demoTools))" "tlOwnership demoTools = Some \<lparr>moOwners = [(''m'', ''alice'')], moByUserID = [(''alice'', [''m''])]\<rparr>"
  "memOwnOk \<lparr>moOwners = [(''m'', ''alice'')], moByUserID = [(''alice'', [''m''])]\<rparr>"
  by (auto simp: demoTools_def tableMgr_def NewManager_def memOk_def mwf_def tableMatch_def memClaim_def NewMemoryOwnership_def
      matchesOf_def mput_def memOwnOk_def split: if_splits)


text \<open>
  A stranger is refused. Joining, reading, listing the moves of or moving in a match that another
  user owns fails at the gate: the manager is not consulted and nothing of the match is returned.
\<close>

theorem strangers_are_refused:
  assumes store: "store_contract (cfStore (tcManager tc)) ok saved readBack" and own: "ownership_contract (tcOwnership tc) ownOk owner"
    and start: "ok (mgStore (tlManager ts))" "tlOwnership ts = Some s" "ownOk s" "owner s i = Some u" and v: "v \<noteq> u"
  shows "(\<exists>e ts'. JoinMatch tc v i pid name ts = (Inl e, ts') \<and> refusal e \<and> tlManager ts' = tlManager ts) \<and>
    (\<exists>e ts'. GetState tc v i pid ts = (Inl e, ts') \<and> refusal e \<and> tlManager ts' = tlManager ts) \<and>
    (\<exists>e ts'. ListLegalMoves tc v i pid ts = (Inl e, ts') \<and> refusal e \<and> tlManager ts' = tlManager ts) \<and>
    (maaMatchID args = i \<longrightarrow> (\<exists>e ts'. MakeMove tc v args ts = Some (Inl e, ts') \<and> refusal e \<and> tlManager ts' = tlManager ts))"
proof -
  have t: "tenancy (cfStore (tcManager tc)) ok saved readBack (tcOwnership tc) ownOk owner" using store own by (rule tenancy.intro)
  have "tenancy.hosts ok ownOk owner u i ts" using start by (auto simp: tenancy.hosts_def [OF t])
  from tenancy.refused [OF t refl this v] obtain e ts' where "requireOwnership tc v i ts = (Some e, ts')" "refusal e" "tlManager ts' = tlManager ts"
    by blast
  then show ?thesis by (auto simp: JoinMatch_def GetState_def ListLegalMoves_def MakeMove_def loadOwned_def)
qed

theorem strangers_are_refused_witness:
  "\<exists>e ts'. GetState demoToolConfig ''mallory'' ''m'' ''0'' demoTools = (Inl e, ts') \<and> refusal e \<and> tlManager ts' = tlManager demoTools"
proof -
  have c: "store_contract (cfStore (tcManager demoToolConfig)) memOk map_of (\<lambda>m. m)"
    "ownership_contract (tcOwnership demoToolConfig) memOwnOk (\<lambda>s. map_of (moOwners s))"
    by (simp_all add: demoToolConfig_def tableConfig_def mem.store_contract_axioms memory_own.ownership_contract_axioms)
  show ?thesis using strangers_are_refused [OF c, OF demoTools_start, of "''m''" "''alice''" "''mallory''"] by auto
qed

section \<open>Guides\<close>

text \<open>
  A listed guide reads back. The URI of a user's guide gives its owner the stored text, and
  anyone else an error, when the user's id has no slash; with one (an id that is a URL) nobody
  can read it, for the URI does not parse.
\<close>

theorem guide_uri_reads_back:
  assumes store: "user_games_contract us ok games" and s: "ok (rgStore rg)" "games (rgStore rg) u n = Some g"
    and read: "readGuideResource us caller (guideURI u n) (Some rg) = (r, gr)"
    and available: "\<And>e s'. ugGet us u n (rgStore rg) \<noteq> (Inl e, s')"
  shows "r = (if CHR ''/'' \<in> set u then Inl (BadURI (guideURI u n))
     else if caller = u then Inr (ugLLMGuide g) else Inl (Forbidden caller u n))"
proof -
  have n: "nameRe n" using user_games_contract.stored [OF store s] by simp
  then have slash: "CHR ''/'' \<notin> set n" using nameRe_chars by blast
  have p: "take (length guidePrefix) (guideURI u n) = guidePrefix" "drop (length guidePrefix) (guideURI u n) = u @ CHR ''/'' # n @ CHR ''/'' # ''guide''"
    by (simp_all add: guideURI_def)
  have tail: "splitOn (CHR ''/'') (n @ CHR ''/'' # ''guide'') = [n, ''guide'']" using splitOn_append [OF slash] by simp
  show ?thesis
  proof (cases "CHR ''/'' \<in> set u")
    case True
    then obtain a b where u: "u = a @ CHR ''/'' # b" "CHR ''/'' \<notin> set a" by (meson split_list_first)
    have "Suc (Suc (Suc 0)) \<le> length (splitOn (CHR ''/'') (b @ CHR ''/'' # n @ CHR ''/'' # ''guide''))"
    proof (induction b)
      case (Cons c b)
      then show ?case by (auto split: list.split)
    qed (simp add: tail)
    then obtain x y z ws where "splitOn (CHR ''/'') (b @ CHR ''/'' # n @ CHR ''/'' # ''guide'') = x # y # z # ws"
      by (auto simp: Suc_le_length_iff)
    then have "splitOn (CHR ''/'') (u @ CHR ''/'' # n @ CHR ''/'' # ''guide'') = a # x # y # z # ws"
      using splitOn_append [OF u(2), of "b @ CHR ''/'' # n @ CHR ''/'' # ''guide''"] u(1) by simp
    then show ?thesis using read p True by (simp add: readGuideResource_def)
  next
    case False
    then have sp: "splitOn (CHR ''/'') (u @ CHR ''/'' # n @ CHR ''/'' # ''guide'') = [u, n, ''guide'']" using splitOn_append [OF False] tail by simp
    obtain q s' where q: "ugGet us u n (rgStore rg) = (q, s')" by fastforce
    then have "q = Inr (Some g)" using available user_games_contract.get_done [OF store s(1) n] s(2) by (cases q) auto
    then show ?thesis using read p False sp q by (auto simp: readGuideResource_def split: if_splits)
  qed
qed

theorem guide_uri_reads_back_witness:
  "let us = InMemoryUserGames int;
       (e, rg, mg) = RegisterUserGame demoFront us ''alice'' ''duel'' ''play well'' (NewUserAwareRegistry noGames) (tableMgr ([] :: nat memory))
   in fst (readGuideResource us ''alice'' ''game://alice/duel/guide'' (Some rg)) = Inr ''play well''"
proof -
  let ?us = "InMemoryUserGames int"
  let ?r = "RegisterUserGame demoFront ?us ''alice'' ''duel'' ''play well'' (NewUserAwareRegistry noGames) (tableMgr ([] :: nat memory))"
  obtain e rg mg where r: "?r = (e, rg, mg)" by (metis prod_cases3)
  have "registryOk demoFront imOk imFind (NewUserAwareRegistry noGames) (tableMgr ([] :: nat memory))"
    by (simp add: registryOk_def NewUserAwareRegistry_def keysOf_def noGames_empty)
  then have ok: "imOk (rgStore rg)" using memory_games.registryOk_register [OF demoFront_ok _ r] by (auto simp: registryOk_def)
  have "(\<lambda>(e, rg, mg). map_option ugLLMGuide (imFind (rgStore rg) ''alice'' ''duel'') = Some ''play well'') ?r" by code_simp
  then obtain g where g: "imFind (rgStore rg) ''alice'' ''duel'' = Some g" "ugLLMGuide g = ''play well''" by (auto simp: r)
  obtain q gr where q: "readGuideResource ?us ''alice'' (guideURI ''alice'' ''duel'') (Some rg) = (q, gr)" by fastforce
  have "guideURI ''alice'' ''duel'' = ''game://alice/duel/guide''" by code_simp
  then show ?thesis
    using guide_uri_reads_back [OF memory_games.user_games_contract_axioms ok g(1) q] g(2) q r
    by (simp add: Let_def InMemoryUserGames_def imGet_def)
qed

section \<open>The view of the mover\<close>

text \<open>
  make_move fails open. It answers with the mover's view of the new state, but when the match
  cannot be read back after the move it answers with the whole state, the seed and the hands of
  the other players included.
\<close>

theorem failed_reread_returns_the_full_state:
  assumes args: "maaMatchID args \<noteq> ''''" "maaPlayerID args \<noteq> ''''" "maaMove args \<noteq> ''''"
    and gate: "requireOwnership tc v (maaMatchID args) ts = (None, ts1)"
    and moved: "MoveReqCtx (tcManager tc) (maaMatchID args) (maaPlayerID args) (maaCredentials args) (moveRequestOf args) (tlManager ts1) = Some (Inr st, mg)"
    and unread: "State (tcManager tc) (maaMatchID args) mg = (Inl e, mg')"
  shows "\<exists>res. MakeMove tc v args ts = Some (Inr res, setManager mg' ts1) \<and> mmState res = st"
  using assms by (simp add: MakeMove_def moverView_def)

text \<open>A store that answers two reads only, and a match with a seed in it.\<close>

definition lifted :: "('a heap \<times> 'a memory \<Rightarrow> 'r \<times> 'a heap \<times> 'a memory) \<Rightarrow> 'a heap \<times> 'a memory \<times> nat \<Rightarrow> 'r \<times> 'a heap \<times> 'a memory \<times> nat" where
  "lifted f w = (case w of (H, s, k) \<Rightarrow> (case f (H, s) of (r, H, s) \<Rightarrow> (r, H, s, k)))"

definition tired :: "(nat, nat memory \<times> nat) storage" where
  "tired = \<lparr>stCreate = (\<lambda>a. lifted (stCreate Memory a)),
     stGet = (\<lambda>i (H, s, k). if 2 \<le> k then (Inl ErrNotFound, H, s, k) else (case stGet Memory i (H, s) of (r, H, s) \<Rightarrow> (r, H, s, Suc k))),
     stUpdate = (\<lambda>a. lifted (stUpdate Memory a)), stList = (\<lambda>n. lifted (stList Memory n)), stWipe = (\<lambda>i. lifted (stWipe Memory i)),
     stUpdateIfStateID = None\<rparr>"

definition seededMatch :: "nat match" where
  "seededMatch = tableMatch\<lparr>maState := (maState tableMatch)\<lparr>Ctx := (Ctx (maState tableMatch))\<lparr>Seed := 7\<rparr>\<rparr>\<rparr>"

definition tiredTools :: "(nat, unit, nat memory \<times> nat, memoryOwnership, inMemoryUserGames) tools" where
  "tiredTools = \<lparr>tlManager = tableMgr ([(''m'', seededMatch)], 0), tlRegistry = None, tlOwnership = None\<rparr>"

definition tiredConfig :: "(nat, unit, nat memory \<times> nat, memoryOwnership, inMemoryUserGames, string) toolConfig" where
  "tiredConfig = \<lparr>tcManager = tableConfig tired, tcOwnership = MemoryOwnership, tcUserGames = InMemoryUserGames int, tcStarlark = demoFront\<rparr>"

theorem failed_reread_returns_the_full_state_witness:
  "\<exists>res ts'. MakeMove tiredConfig '''' bump0 tiredTools = Some (Inr res, ts') \<and> Seed (Ctx (mmState res)) = 7"
proof -
  let ?mv = "MoveReqCtx (tcManager tiredConfig) ''m'' ''0'' ''s0'' (moveRequestOf bump0) (tlManager tiredTools)"
  have "map_option (\<lambda>(r, mg). (case r of Inl _ \<Rightarrow> 0 | Inr st \<Rightarrow> Seed (Ctx st), isl (fst (State (tcManager tiredConfig) ''m'' mg)))) ?mv = Some (7, True)"
    by code_simp
  then obtain r mg where m: "?mv = Some (r, mg)" "(case r of Inl _ \<Rightarrow> 0 | Inr st \<Rightarrow> Seed (Ctx st)) = 7" "isl (fst (State (tcManager tiredConfig) ''m'' mg))"
    by auto
  then obtain st where st: "r = Inr st" "Seed (Ctx st) = 7" by (auto split: sum.splits)
  obtain e mg' where e: "State (tcManager tiredConfig) ''m'' mg = (Inl e, mg')" using m(3) by (metis isl_def prod.collapse)
  have g: "requireOwnership tiredConfig '''' (maaMatchID bump0) tiredTools = (None, tiredTools)" by (simp add: requireOwnership_def tiredTools_def)
  from failed_reread_returns_the_full_state [OF _ _ _ g, of st mg e mg'] m(1) st e show ?thesis
    by (auto simp: bump0_def)
qed

end
