(* ===== verification/HttpServer.thy ===== *)
theory HttpServer
  imports ManagerFrame
begin

text \<open>
  The HTTP and WebSocket server (\<open>server/http.go\<close>, \<open>server/cors.go\<close>, \<open>server/ws.go\<close>): routing, the
  handlers of the lobby API over the match manager, error statuses, the origin check, and a
  connected client with its bounded queue of frames.

  A request carries what \<open>encoding/json\<close> makes of its body for each kind of handler. Parsing an
  origin (\<open>net/url\<close>), comparing states (\<open>jsondiff\<close>) and which games admit spectators are
  parameters. The outer \<open>None\<close> of a handler is a panic or a call that does not return.
\<close>

section \<open>Requests and responses (\<open>http.go\<close>)\<close>

datatype httpMethod = MethodGet | MethodPost | MethodOptions | MethodOther

record createReq =
  cqNumPlayers :: int
  cqSetupData :: goval
  cqUnlisted :: bool
  cqName :: string
  cqJoinCode :: string

record joinReq =
  jqPlayerName :: string
  jqPlayerID :: string
  jqData :: goval

record authReq =
  aqPlayerID :: string
  aqCredentials :: string

record updateReq = authReq +
  uqNewName :: "string option"
  uqData :: goval
  uqHasData :: bool

record playAgainReq = authReq +
  pqNumPlayers :: int
  pqSetupData :: "goval option"

record moveReq = authReq +
  mqMove :: string
  mqArgs :: "goval list"
  mqStateID :: int
  mqResumeTag :: string

text \<open>The body, decoded for each handler; a failed decode is the error.\<close>

record httpBody =
  hbCreate :: createReq
  hbJoin :: "string + joinReq"
  hbAuth :: "string + authReq"
  hbUpdate :: "string + updateReq"
  hbPlayAgain :: "string + playAgainReq"
  hbMove :: "string + moveReq"

record playerSummary =
  psID :: string
  psName :: string
  psSeat :: string
  psIsConnected :: bool
  psData :: goval

record matchSummary =
  smMatchID :: string
  smPlayers :: "playerSummary list"
  smSetupData :: goval
  smGameName :: string
  smCreatedAt :: int
  smCtx :: ctx

datatype httpError = DecodeError string | MatchErr matchError

datatype 'g httpReply =
    ReplyGames "string list" | ReplyMatches "matchSummary list" | ReplyMatch matchSummary | ReplyCreated string
  | ReplyJoined joinResult | ReplyEmpty | ReplyNext string | ReplyState "'g state" | ReplyError httpError | NotFound | Upgrade

type_synonym 'g response = "int \<times> 'g httpReply"

record metrics =
  MatchesCreated :: int
  MatchesJoined :: int
  MovesApplied :: int
  MovesRejected :: int
  ChatMessages :: int
  WebSocketConns :: int

record ('g, 'h, 's) server =
  svManager :: "('g, 'h, 's) mgr"
  svMetrics :: metrics

definition withManager :: "('g, 'h, 's) mgr \<Rightarrow> ('g, 'h, 's) server \<Rightarrow> ('g, 'h, 's) server" where
  "withManager mg sv = sv\<lparr>svManager := mg\<rparr>"

definition count :: "(metrics \<Rightarrow> metrics) \<Rightarrow> ('g, 'h, 's) server \<Rightarrow> ('g, 'h, 's) server" where
  "count f sv = sv\<lparr>svMetrics := f (svMetrics sv)\<rparr>"

section \<open>Error statuses\<close>

definition ruleError :: "gerror \<Rightarrow> bool" where
  "ruleError e \<longleftrightarrow> e \<in> {ErrWrongPlayer, ErrUnknownMove, ErrMoveNotInStage, ErrInvalidMove, ErrInactivePlayer, ErrGameOver}"

text \<open>The engine error a manager error wraps.\<close>

fun coreError :: "matchError \<Rightarrow> gerror option" where
  "coreError (ErrCore e) = Some e"
| "coreError (ErrSetup e) = Some e"
| "coreError (ErrReplay e) = Some e"
| "coreError _ = None"

fun statusOf :: "httpError \<Rightarrow> int" where
  "statusOf (DecodeError _) = 400"
| "statusOf (MatchErr e) =
     (if e = ErrStore ErrNotFound then 404
      else if (case e of ErrUnknownGame _ \<Rightarrow> True | _ \<Rightarrow> False) then 404
      else if e = ErrBadCredentials then 401
      else if e \<in> {ErrSeatTaken, ErrNoSeatsLeft, ErrSeatRequired, ErrUnknownSeat} \<or>
        (case coreError e of Some c \<Rightarrow> ruleError c | None \<Rightarrow> False) then 409
      else 400)"

definition writeErr :: "httpError \<Rightarrow> 'g response" where
  "writeErr e = (statusOf e, ReplyError e)"

section \<open>Handlers\<close>

definition toSummary :: "'g match \<Rightarrow> matchSummary" where
  "toSummary m = \<lparr>smMatchID = maID m,
     smPlayers = map (\<lambda>p. \<lparr>psID = prID p, psName = prName p, psSeat = prSeat p, psIsConnected = prIsConnected p, psData = prData p\<rparr>) (maPlayers m),
     smSetupData = maSetupData m, smGameName = maGameName m, smCreatedAt = maCreatedAt m, smCtx = Ctx (maState m)\<rparr>"

definition handleCreate :: "('g, 's) config \<Rightarrow> string \<Rightarrow> createReq \<Rightarrow> ('g, 'h, 's) server \<Rightarrow> ('g response \<times> ('g, 'h, 's) server) option" where
  "handleCreate cf gameName req sv = do {
     (r, mg) \<leftarrow> Create cf gameName \<lparr>opNumPlayers = cqNumPlayers req, opSetupData = cqSetupData req, opUnlisted = cqUnlisted req,
       opName = cqName req, opJoinCode = cqJoinCode req\<rparr> (svManager sv);
     let sv = withManager mg sv;
     (case r of
        Inl e \<Rightarrow> Some (writeErr (MatchErr e), sv)
      | Inr i \<Rightarrow> Some ((201, ReplyCreated i), count (MatchesCreated_update (\<lambda>n. n + 1)) sv))
   }"

definition handleByCode :: "('g, 's) config \<Rightarrow> string \<Rightarrow> string \<Rightarrow> ('g, 'h, 's) server \<Rightarrow> 'g response \<times> ('g, 'h, 's) server" where
  "handleByCode cf gameName code sv = (case FindByJoinCode cf gameName code (svManager sv) of
      (Inl e, mg) \<Rightarrow> (writeErr (MatchErr e), withManager mg sv)
    | (Inr a, mg) \<Rightarrow> ((200, ReplyMatch (toSummary (match_at mg a))), withManager mg sv))"

definition handleListGames :: "('g, 'h, 's) server \<Rightarrow> 'g response \<times> ('g, 'h, 's) server" where
  "handleListGames sv = ((200, ReplyGames (GameNames (svManager sv))), sv)"

definition handleListMatches :: "('g, 's) config \<Rightarrow> string \<Rightarrow> ('g, 'h, 's) server \<Rightarrow> 'g response \<times> ('g, 'h, 's) server" where
  "handleListMatches cf gameName sv = (case ListMatches cf gameName (svManager sv) of
      (Inl e, mg) \<Rightarrow> (writeErr (MatchErr e), withManager mg sv)
    | (Inr as, mg) \<Rightarrow> ((200, ReplyMatches (map toSummary (filter (\<lambda>m. \<not> maUnlisted m) (map (match_at mg) as)))), withManager mg sv))"

definition handleGetMatch :: "('g, 's) config \<Rightarrow> string \<Rightarrow> ('g, 'h, 's) server \<Rightarrow> 'g response \<times> ('g, 'h, 's) server" where
  "handleGetMatch cf i sv = (case State cf i (svManager sv) of
      (Inl e, mg) \<Rightarrow> (writeErr (MatchErr e), withManager mg sv)
    | (Inr a, mg) \<Rightarrow> ((200, ReplyMatch (toSummary (match_at mg a))), withManager mg sv))"

definition handleJoin :: "('g, 's) config \<Rightarrow> string \<Rightarrow> string + joinReq \<Rightarrow> ('g, 'h, 's) server \<Rightarrow> 'g response \<times> ('g, 'h, 's) server" where
  "handleJoin cf i body sv = (case body of
      Inl e \<Rightarrow> (writeErr (DecodeError e), sv)
    | Inr req \<Rightarrow> (case Join cf i (jqPlayerName req) \<lparr>joPlayerID = jqPlayerID req, joSeat = '''', joData = jqData req\<rparr> (svManager sv) of
        (Inl e, mg) \<Rightarrow> (writeErr (MatchErr e), withManager mg sv)
      | (Inr res, mg) \<Rightarrow> ((200, ReplyJoined res), count (MatchesJoined_update (\<lambda>n. n + 1)) (withManager mg sv))))"

text \<open>The reply of an operation that returns only an error.\<close>

definition ack :: "matchError option \<Rightarrow> 'g response" where
  "ack e = (case e of Some e \<Rightarrow> writeErr (MatchErr e) | None \<Rightarrow> (200, ReplyEmpty))"

definition handleLeave :: "('g, 's) config \<Rightarrow> string \<Rightarrow> string + authReq \<Rightarrow> ('g, 'h, 's) server \<Rightarrow> 'g response \<times> ('g, 'h, 's) server" where
  "handleLeave cf i body sv = (case body of
      Inl e \<Rightarrow> (writeErr (DecodeError e), sv)
    | Inr req \<Rightarrow> (case Leave cf i (aqPlayerID req) (aqCredentials req) (svManager sv) of (e, mg) \<Rightarrow> (ack e, withManager mg sv)))"

definition handleUpdate :: "('g, 's) config \<Rightarrow> string \<Rightarrow> string + updateReq \<Rightarrow> ('g, 'h, 's) server \<Rightarrow> 'g response \<times> ('g, 'h, 's) server" where
  "handleUpdate cf i body sv = (case body of
      Inl e \<Rightarrow> (writeErr (DecodeError e), sv)
    | Inr req \<Rightarrow> (case UpdatePlayer cf i (aqPlayerID req) (aqCredentials req)
          \<lparr>upNewName = uqNewName req, upData = uqData req, upHasData = uqHasData req\<rparr> (svManager sv) of (e, mg) \<Rightarrow> (ack e, withManager mg sv)))"

definition handlePlayAgain :: "('g, 's) config \<Rightarrow> string \<Rightarrow> string + playAgainReq \<Rightarrow> ('g, 'h, 's) server
    \<Rightarrow> ('g response \<times> ('g, 'h, 's) server) option" where
  "handlePlayAgain cf i body sv = (case body of
      Inl e \<Rightarrow> Some (writeErr (DecodeError e), sv)
    | Inr req \<Rightarrow> do {
        (r, mg) \<leftarrow> PlayAgain cf i (aqPlayerID req) (aqCredentials req) (pqNumPlayers req)
          (case pqSetupData req of Some d \<Rightarrow> d | None \<Rightarrow> VNil) (pqSetupData req = None) (svManager sv);
        Some (case r of Inl e \<Rightarrow> writeErr (MatchErr e) | Inr next \<Rightarrow> (200, ReplyNext next), withManager mg sv)
      })"

definition requestOf :: "moveReq \<Rightarrow> moveRequest" where
  "requestOf req = (plainRequest (mqMove req) (mqArgs req))\<lparr>rqStateID := mqStateID req, rqResumeTag := mqResumeTag req\<rparr>"

text \<open>The state as the caller sees it, unless the match cannot be read back.\<close>

definition callerView :: "('g, 's) config \<Rightarrow> string \<Rightarrow> string \<Rightarrow> 'g state \<Rightarrow> ('g, 'h, 's) mgr \<Rightarrow> 'g state \<times> ('g, 'h, 's) mgr" where
  "callerView cf i pid st mg = (case State cf i mg of
      (Inl _, mg) \<Rightarrow> (st, mg)
    | (Inr a, mg) \<Rightarrow> (case Game mg (maGameName (match_at mg a)) of
        None \<Rightarrow> (st, mg)
      | Some g \<Rightarrow> (PlayerView (hgGame g) st pid, mg)))"

definition handleMove :: "('g, 's) config \<Rightarrow> string \<Rightarrow> string + moveReq \<Rightarrow> ('g, 'h, 's) server \<Rightarrow> ('g response \<times> ('g, 'h, 's) server) option" where
  "handleMove cf i body sv = (case body of
      Inl e \<Rightarrow> Some (writeErr (DecodeError e), sv)
    | Inr req \<Rightarrow> do {
        (r, mg) \<leftarrow> MoveReqCtx cf i (aqPlayerID req) (aqCredentials req) (requestOf req) (svManager sv);
        let sv = withManager mg sv;
        (case r of
           Inl e \<Rightarrow> Some (writeErr (MatchErr e), count (MovesRejected_update (\<lambda>n. n + 1)) sv)
         | Inr st \<Rightarrow>
             (let (st, mg) = callerView cf i (aqPlayerID req) st mg
              in Some ((200, ReplyState st), count (MovesApplied_update (\<lambda>n. n + 1)) (withManager mg sv))))
      })"

definition handleDryMove :: "('g, 's) config \<Rightarrow> string \<Rightarrow> string + moveReq \<Rightarrow> ('g, 'h, 's) server \<Rightarrow> ('g response \<times> ('g, 'h, 's) server) option" where
  "handleDryMove cf i body sv = (case body of
      Inl e \<Rightarrow> Some (writeErr (DecodeError e), sv)
    | Inr req \<Rightarrow> do {
        (r, mg) \<leftarrow> DryMoveReq cf i (aqPlayerID req) (aqCredentials req) (requestOf req) (svManager sv);
        (case r of
           Inl e \<Rightarrow> Some (writeErr (MatchErr e), withManager mg sv)
         | Inr st \<Rightarrow> (let (st, mg) = callerView cf i (aqPlayerID req) st mg in Some ((200, ReplyState st), withManager mg sv)))
      })"

definition handleReset :: "('g, 's) config \<Rightarrow> string \<Rightarrow> string + authReq \<Rightarrow> ('g, 'h, 's) server \<Rightarrow> ('g response \<times> ('g, 'h, 's) server) option" where
  "handleReset cf i body sv = (case body of
      Inl e \<Rightarrow> Some (writeErr (DecodeError e), sv)
    | Inr req \<Rightarrow> do {
        (e, mg) \<leftarrow> Reset cf i (aqPlayerID req) (aqCredentials req) (svManager sv);
        Some (ack e, withManager mg sv)
      })"

section \<open>Routing\<close>

datatype endpoint =
    EpListGames | EpListMatches string | EpCreate string | EpByCode string string | EpGetMatch string string
  | EpJoin string string | EpLeave string string | EpUpdate string string | EpPlayAgain string string
  | EpMove string string | EpDryMove string string | EpReset string string | EpWS string string

text \<open>\<open>strings.Trim(path, "/")\<close>.\<close>

definition trimSlashes :: "string \<Rightarrow> string" where
  "trimSlashes s = rev (dropWhile (\<lambda>c. c = CHR ''/'') (rev (dropWhile (\<lambda>c. c = CHR ''/'') s)))"

text \<open>The switch of \<open>route\<close>: the handler and the game name and match id it is called with.\<close>

definition endpointOf :: "httpMethod \<Rightarrow> string \<Rightarrow> endpoint option" where
  "endpointOf m path = (case splitOn (CHR ''/'') (trimSlashes path) of
      [] \<Rightarrow> None
    | games # parts \<Rightarrow>
        (if games \<noteq> ''games'' then None
         else case parts of
           [] \<Rightarrow> (if m = MethodGet then Some EpListGames else None)
         | [name] \<Rightarrow> (if m = MethodGet then Some (EpListMatches name) else None)
         | [name, a] \<Rightarrow>
             (if a = ''create'' \<and> m = MethodPost then Some (EpCreate name)
              else if m = MethodGet then Some (EpGetMatch name a) else None)
         | [name, a, b] \<Rightarrow>
             (if a = ''byCode'' \<and> m = MethodGet then Some (EpByCode name b)
              else if b = ''join'' \<and> m = MethodPost then Some (EpJoin name a)
              else if b = ''leave'' \<and> m = MethodPost then Some (EpLeave name a)
              else if b = ''update'' \<and> m = MethodPost then Some (EpUpdate name a)
              else if b = ''playAgain'' \<and> m = MethodPost then Some (EpPlayAgain name a)
              else if b = ''move'' \<and> m = MethodPost then Some (EpMove name a)
              else if b = ''dryMove'' \<and> m = MethodPost then Some (EpDryMove name a)
              else if b = ''reset'' \<and> m = MethodPost then Some (EpReset name a)
              else if b = ''ws'' \<and> m = MethodGet then Some (EpWS name a)
              else None)
         | _ \<Rightarrow> None))"

text \<open>The handlers; the WebSocket endpoint goes on with \<open>connect\<close> below.\<close>

fun serve :: "('g, 's) config \<Rightarrow> httpBody \<Rightarrow> endpoint \<Rightarrow> ('g, 'h, 's) server \<Rightarrow> ('g response \<times> ('g, 'h, 's) server) option" where
  "serve cf body EpListGames sv = Some (handleListGames sv)"
| "serve cf body (EpListMatches name) sv = Some (handleListMatches cf name sv)"
| "serve cf body (EpCreate name) sv = handleCreate cf name (hbCreate body) sv"
| "serve cf body (EpByCode name code) sv = Some (handleByCode cf name code sv)"
| "serve cf body (EpGetMatch name i) sv = Some (handleGetMatch cf i sv)"
| "serve cf body (EpJoin name i) sv = Some (handleJoin cf i (hbJoin body) sv)"
| "serve cf body (EpLeave name i) sv = Some (handleLeave cf i (hbAuth body) sv)"
| "serve cf body (EpUpdate name i) sv = Some (handleUpdate cf i (hbUpdate body) sv)"
| "serve cf body (EpPlayAgain name i) sv = handlePlayAgain cf i (hbPlayAgain body) sv"
| "serve cf body (EpMove name i) sv = handleMove cf i (hbMove body) sv"
| "serve cf body (EpDryMove name i) sv = handleDryMove cf i (hbMove body) sv"
| "serve cf body (EpReset name i) sv = handleReset cf i (hbAuth body) sv"
| "serve cf body (EpWS name i) sv = Some ((101, Upgrade), sv)"

definition route :: "('g, 's) config \<Rightarrow> httpMethod \<Rightarrow> string \<Rightarrow> httpBody \<Rightarrow> ('g, 'h, 's) server \<Rightarrow> ('g response \<times> ('g, 'h, 's) server) option" where
  "route cf m path body sv = (case endpointOf m path of None \<Rightarrow> Some ((404, NotFound), sv) | Some ep \<Rightarrow> serve cf body ep sv)"

section \<open>Origins (\<open>cors.go\<close>)\<close>

definition OriginLocalhostInDevelopment :: string where
  "OriginLocalhostInDevelopment = ''boardgame-go:localhost-in-development''"

definition OriginLocalhost :: string where
  "OriginLocalhost = ''boardgame-go:localhost''"

text \<open>\<open>url.Parse\<close> gives the scheme and the host name, or fails.\<close>

definition isLocalhost :: "(string \<Rightarrow> (string \<times> string) option) \<Rightarrow> string \<Rightarrow> bool" where
  "isLocalhost parse origin = (case parse origin of
      None \<Rightarrow> False
    | Some (scheme, host) \<Rightarrow> scheme \<in> {''http'', ''https''} \<and> host \<in> {''localhost'', ''127.0.0.1'', ''::1''})"

fun originAllowed :: "(string \<Rightarrow> (string \<times> string) option) \<Rightarrow> string \<Rightarrow> string list \<Rightarrow> string \<Rightarrow> bool" where
  "originAllowed parse goEnv [] origin = False"
| "originAllowed parse goEnv (allow # rest) origin =
     (if allow = ''*'' then True
      else if allow = OriginLocalhostInDevelopment
      then (goEnv \<noteq> ''production'' \<and> isLocalhost parse origin) \<or> originAllowed parse goEnv rest origin
      else if allow = OriginLocalhost then isLocalhost parse origin \<or> originAllowed parse goEnv rest origin
      else allow = origin \<or> originAllowed parse goEnv rest origin)"

text \<open>The Access-Control-Allow-Origin header, and whether the request goes on to the router.\<close>

definition applyCORS :: "(string \<Rightarrow> (string \<times> string) option) \<Rightarrow> string \<Rightarrow> string list \<Rightarrow> httpMethod \<Rightarrow> string \<Rightarrow> string option \<times> bool" where
  "applyCORS parse goEnv origins m origin =
     (if origin \<noteq> '''' \<and> originAllowed parse goEnv origins origin then Some origin else None, m \<noteq> MethodOptions)"

section \<open>A connected client (\<open>ws.go\<close>)\<close>

record playerInfoFrame =
  pfID :: string
  pfName :: string
  pfSeat :: string
  pfIsConnected :: bool

datatype ('g, 'p) wsFrame =
    UpdateFrame "'g state" | PatchFrame 'p int int | ChatFrame chatMessage | MatchDataFrame "playerInfoFrame list"
  | SyncFrame "'g state" "playerInfoFrame list" string | ErrorFrame matchError

record ('g, 'p) wsClient =
  wcPlayerID :: string
  wcOut :: "('g, 'p) wsFrame list"
  wcPrev :: "'g state option"

definition wsSendBufferSize :: nat where "wsSendBufferSize = 32"

definition newWSClient :: "string \<Rightarrow> ('g, 'p) wsClient" where
  "newWSClient pid = \<lparr>wcPlayerID = pid, wcOut = [], wcPrev = None\<rparr>"

definition enqueue :: "('g, 'p) wsFrame \<Rightarrow> ('g, 'p) wsClient \<Rightarrow> ('g, 'p) wsClient" where
  "enqueue frame c =
     (if length (wcOut c) < wsSendBufferSize then c\<lparr>wcOut := wcOut c @ [frame]\<rparr>
      else let c = c\<lparr>wcOut := tl (wcOut c)\<rparr>
           in if length (wcOut c) < wsSendBufferSize then c\<lparr>wcOut := wcOut c @ [frame]\<rparr> else c)"

definition wsSend :: "'g state \<Rightarrow> ('g, 'p) wsClient \<Rightarrow> ('g, 'p) wsClient" where
  "wsSend st c = enqueue (UpdateFrame st) (c\<lparr>wcPrev := Some st\<rparr>)"

definition wsSendChat :: "chatMessage \<Rightarrow> ('g, 'p) wsClient \<Rightarrow> ('g, 'p) wsClient" where
  "wsSendChat msg c = enqueue (ChatFrame msg) c"

definition wsSendPatch :: "('g state \<Rightarrow> 'g state \<Rightarrow> string + 'p) \<Rightarrow> 'g state \<Rightarrow> ('g, 'p) wsClient \<Rightarrow> ('g, 'p) wsClient" where
  "wsSendPatch compare next c = (case wcPrev c of
      None \<Rightarrow> wsSend next c
    | Some prev \<Rightarrow> (case compare prev next of
        Inl _ \<Rightarrow> wsSend next c
      | Inr patch \<Rightarrow> enqueue (PatchFrame patch (StateID prev) (StateID next)) (c\<lparr>wcPrev := Some next\<rparr>)))"

definition playerFrames :: "player list \<Rightarrow> playerInfoFrame list" where
  "playerFrames ps = map (\<lambda>p. \<lparr>pfID = prID p, pfName = prName p, pfSeat = prSeat p, pfIsConnected = prIsConnected p\<rparr>) ps"

definition wsSendMatchData :: "player list \<Rightarrow> ('g, 'p) wsClient \<Rightarrow> ('g, 'p) wsClient" where
  "wsSendMatchData players c = enqueue (MatchDataFrame (playerFrames players)) c"

definition sendError :: "matchError \<Rightarrow> ('g, 'p) wsClient \<Rightarrow> ('g, 'p) wsClient" where
  "sendError e c = enqueue (ErrorFrame e) c"

text \<open>What the manager pushes to a subscriber.\<close>

fun deliver :: "('g state \<Rightarrow> 'g state \<Rightarrow> string + 'p) \<Rightarrow> 'g frame \<Rightarrow> ('g, 'p) wsClient \<Rightarrow> ('g, 'p) wsClient" where
  "deliver compare (Send st) c = wsSend st c"
| "deliver compare (SendPatch st) c = wsSendPatch compare st c"
| "deliver compare (SendChat msg) c = wsSendChat msg c"
| "deliver compare (SendMatchData ps) c = wsSendMatchData ps c"

text \<open>\<open>handleWS\<close> up to its read loop.\<close>

datatype wsRefusal = OriginNotAllowed | InvalidCredentials | SpectatorsNotAllowed

record wsRequest =
  wqOrigin :: string
  wqPlayerID :: string
  wqCredentials :: string
  wqConnection :: nat

definition syncFrame :: "('g, 's) config \<Rightarrow> string \<Rightarrow> ('g, 'p) wsClient \<Rightarrow> ('g, 'h, 's) mgr \<Rightarrow> ('g, 'p) wsClient \<times> ('g, 'h, 's) mgr" where
  "syncFrame cf i c mg = (case State cf i mg of
      (Inl _, mg) \<Rightarrow> (c, mg)
    | (Inr a, mg) \<Rightarrow>
        (let m = match_at mg a
         in case Game mg (maGameName m) of
              None \<Rightarrow> (c, mg)
            | Some g \<Rightarrow>
                (let view = PlayerView (hgGame g) (maState m) (wcPlayerID c)
                 in (enqueue (SyncFrame view (playerFrames (maPlayers m)) i) (c\<lparr>wcPrev := Some view\<rparr>), mg))))"

definition spectatorRefused :: "('g, 's) config \<Rightarrow> (string \<Rightarrow> bool option) \<Rightarrow> string \<Rightarrow> ('g, 'h, 's) mgr \<Rightarrow> bool \<times> ('g, 'h, 's) mgr" where
  "spectatorRefused cf spectators i mg = (case State cf i mg of
      (Inl _, mg) \<Rightarrow> (False, mg)
    | (Inr a, mg) \<Rightarrow>
        (Game mg (maGameName (match_at mg a)) \<noteq> None \<and> spectators (maGameName (match_at mg a)) = Some False, mg))"

definition connect :: "('g, 's) config \<Rightarrow> (string \<Rightarrow> bool) \<Rightarrow> (string \<Rightarrow> bool option) \<Rightarrow> string \<Rightarrow> wsRequest \<Rightarrow> ('g, 'h, 's) server
    \<Rightarrow> (wsRefusal + ('g, 'p) wsClient) \<times> ('g, 'h, 's) server" where
  "connect cf allowed spectators i req sv =
     (if wqOrigin req \<noteq> '''' \<and> \<not> allowed (wqOrigin req) then (Inl OriginNotAllowed, sv)
      else
        (let (ok, mg) = (if wqPlayerID req = '''' then (True, svManager sv)
                         else Authenticate cf i (wqPlayerID req) (wqCredentials req) (svManager sv))
         in if \<not> ok then (Inl InvalidCredentials, withManager mg sv)
            else
              (let (refused, mg) = (if wqPlayerID req = '''' then spectatorRefused cf spectators i mg else (False, mg))
               in if refused then (Inl SpectatorsNotAllowed, withManager mg sv)
                  else
                    (let mg = Manager.Subscribe i \<lparr>sbID = wqConnection req, sbPlayerID = wqPlayerID req, sbPatch = True\<rparr> mg;
                         (c, mg) = syncFrame cf i (newWSClient (wqPlayerID req)) mg;
                         (_, mg) = SetConnected cf i (wqPlayerID req) True mg
                     in (Inr c, count (WebSocketConns_update (\<lambda>n. n + 1)) (withManager mg sv))))))"

text \<open>One message of the read loop.\<close>

record inbound = authReq +
  inType :: string
  inMove :: string
  inArgs :: "goval list"
  inStateID :: int
  inResumeTag :: string
  inPayload :: goval

definition handleMessage :: "('g, 's) config \<Rightarrow> string \<Rightarrow> inbound \<Rightarrow> ('g, 'p) wsClient \<Rightarrow> ('g, 'h, 's) server
    \<Rightarrow> (('g, 'p) wsClient \<times> ('g, 'h, 's) server) option" where
  "handleMessage cf i msg c sv =
     (if inType msg = ''move'' then do {
        (r, mg) \<leftarrow> MoveReqCtx cf i (aqPlayerID msg) (aqCredentials msg)
          ((plainRequest (inMove msg) (inArgs msg))\<lparr>rqStateID := inStateID msg, rqResumeTag := inResumeTag msg\<rparr>) (svManager sv);
        let sv = withManager mg sv;
        Some (case r of
            Inl e \<Rightarrow> (sendError e c, count (MovesRejected_update (\<lambda>n. n + 1)) sv)
          | Inr _ \<Rightarrow> (c, count (MovesApplied_update (\<lambda>n. n + 1)) sv))
      }
      else if inType msg = ''chat'' then
        (let (ok, mg) = (if aqPlayerID msg = '''' then (True, svManager sv)
                         else Authenticate cf i (aqPlayerID msg) (aqCredentials msg) (svManager sv))
         in if \<not> ok then Some (sendError ErrBadCredentials c, withManager mg sv)
            else Some (c, count (ChatMessages_update (\<lambda>n. n + 1))
                   (withManager (Chat cf i (aqPlayerID msg) (inPayload msg) mg) sv)))
      else Some (c, sv))"

text \<open>The deferred calls when the connection ends.\<close>

definition disconnect :: "('g, 's) config \<Rightarrow> string \<Rightarrow> wsRequest \<Rightarrow> ('g, 'h, 's) server \<Rightarrow> ('g, 'h, 's) server" where
  "disconnect cf i req sv =
     (let (_, mg) = SetConnected cf i (wqPlayerID req) False (svManager sv);
          mg = unsubscribe i \<lparr>sbID = wqConnection req, sbPlayerID = wqPlayerID req, sbPatch = True\<rparr> mg
      in count (WebSocketConns_update (\<lambda>n. n - 1)) (withManager mg sv))"

section \<open>The routing table\<close>

text \<open>The method and the path segments that the API documents for an endpoint.\<close>

fun methodOf :: "endpoint \<Rightarrow> httpMethod" where
  "methodOf EpListGames = MethodGet"
| "methodOf (EpListMatches _) = MethodGet"
| "methodOf (EpByCode _ _) = MethodGet"
| "methodOf (EpGetMatch _ _) = MethodGet"
| "methodOf (EpWS _ _) = MethodGet"
| "methodOf _ = MethodPost"

fun segmentsOf :: "endpoint \<Rightarrow> string list" where
  "segmentsOf EpListGames = [''games'']"
| "segmentsOf (EpListMatches n) = [''games'', n]"
| "segmentsOf (EpCreate n) = [''games'', n, ''create'']"
| "segmentsOf (EpByCode n c) = [''games'', n, ''byCode'', c]"
| "segmentsOf (EpGetMatch n i) = [''games'', n, i]"
| "segmentsOf (EpJoin n i) = [''games'', n, i, ''join'']"
| "segmentsOf (EpLeave n i) = [''games'', n, i, ''leave'']"
| "segmentsOf (EpUpdate n i) = [''games'', n, i, ''update'']"
| "segmentsOf (EpPlayAgain n i) = [''games'', n, i, ''playAgain'']"
| "segmentsOf (EpMove n i) = [''games'', n, i, ''move'']"
| "segmentsOf (EpDryMove n i) = [''games'', n, i, ''dryMove'']"
| "segmentsOf (EpReset n i) = [''games'', n, i, ''reset'']"
| "segmentsOf (EpWS n i) = [''games'', n, i, ''ws'']"

text \<open>
  The switch implements the table of the API exactly: a request reaches an endpoint if and only
  if it has the endpoint's method and segments, up to leading and trailing slashes; only a
  WebSocket to a match named byCode is taken for a join code.
\<close>

theorem endpointOf_implements_the_table:
  "endpointOf m path = Some ep \<longleftrightarrow>
     m = methodOf ep \<and> splitOn (CHR ''/'') (trimSlashes path) = segmentsOf ep \<and> (\<forall>n. ep \<noteq> EpWS n ''byCode'')"
proof (cases "splitOn (CHR ''/'') (trimSlashes path)")
  case (Cons games parts)
  show ?thesis
  proof (cases "games = ''games''")
    case True
    note s = Cons [unfolded True]
    consider "parts = []" | n where "parts = [n]" | n a where "parts = [n, a]" | n a b where "parts = [n, a, b]" | n a b c r where "parts = n # a # b # c # r"
      by (metis list.exhaust)
    then show ?thesis by cases (cases ep; auto simp: endpointOf_def s)+
  qed (cases ep; simp add: endpointOf_def Cons)
qed (cases ep; simp add: endpointOf_def)

section \<open>Credentials\<close>

lemma statusOf_error: "statusOf e \<noteq> 200"
  by (cases e) auto

lemma MoveReqCtx_no_credentials:
  assumes "MoveReqCtx cf i pid creds req mg = Some (Inr st, mg')"
  shows "MoveReqCtx cf i pid '''' req mg = Some (Inr st, mg')"
proof -
  have "seatOf cf pid creds m = Inr seat \<Longrightarrow> seatOf cf pid '''' m = Inr seat" for m seat
    by (auto simp: seatOf_def Let_def split: option.splits if_splits)
  then show ?thesis using assms by (fastforce simp: MoveReqCtx_def Let_def split: if_splits sum.splits option.splits prod.splits)
qed

text \<open>
  Credentials are optional for moves. Whatever move a player makes over HTTP with their
  credentials, anyone makes with none: an empty string is not checked. The same holds for a move
  over a WebSocket, so also a spectator moves for a player.
\<close>

theorem moves_need_no_credentials:
  assumes "handleMove cf i (Inr req) sv = Some ((200, reply), sv')"
  shows "handleMove cf i (Inr (req\<lparr>aqCredentials := ''''\<rparr>)) sv = Some ((200, reply), sv')"
proof -
  obtain r mg where m: "MoveReqCtx cf i (aqPlayerID req) (aqCredentials req) (requestOf req) (svManager sv) = Some (r, mg)"
    using assms by (auto simp: handleMove_def)
  have req: "requestOf (req\<lparr>aqCredentials := ''''\<rparr>) = requestOf req" by (simp add: requestOf_def)
  obtain st where "r = Inr st" using assms m
    by (cases r) (auto simp: handleMove_def writeErr_def Let_def statusOf_error simp del: statusOf.simps)
  moreover from this m have "MoveReqCtx cf i (aqPlayerID req) '''' (requestOf req) (svManager sv) = Some (Inr st, mg)"
    using MoveReqCtx_no_credentials by blast
  ultimately show ?thesis using assms m by (simp add: handleMove_def req Let_def)
qed

definition tableServer :: "(nat, unit, nat memory) server" where
  "tableServer = \<lparr>svManager = tableMgr [(''m'', tableMatch)],
     svMetrics = \<lparr>MatchesCreated = 0, MatchesJoined = 0, MovesApplied = 0, MovesRejected = 0, ChatMessages = 0, WebSocketConns = 0\<rparr>\<rparr>"

definition bumpAs :: "string \<Rightarrow> moveReq" where
  "bumpAs creds = \<lparr>aqPlayerID = ''0'', aqCredentials = creds, mqMove = ''bump'', mqArgs = [], mqStateID = 0, mqResumeTag = ''''\<rparr>"

theorem moves_need_no_credentials_witness:
  "\<exists>reply sv'. handleMove (tableConfig Memory) ''m'' (Inr (bumpAs '''')) tableServer = Some ((200, reply), sv')"
proof -
  have "map_option (fst \<circ> fst) (handleMove (tableConfig Memory) ''m'' (Inr (bumpAs ''s0'')) tableServer) = Some 200" by code_simp
  then obtain reply sv' where "handleMove (tableConfig Memory) ''m'' (Inr (bumpAs ''s0'')) tableServer = Some ((200, reply), sv')" by auto
  from moves_need_no_credentials [OF this] show ?thesis by (auto simp: bumpAs_def)
qed

section \<open>The seed\<close>

lemma decodePlugins_Ctx: "Ctx (snd (decodePlugins ps s)) = Ctx s"
  by (induction ps s rule: decodePlugins.induct) (auto split: option.splits sum.splits)

lemma hydrate_Ctx: "Ctx (maState (hydrate g m)) = Ctx (maState m)"
  by (auto simp: hydrate_def ClearRaw_def decodePlugins_Ctx decodeState_def split: sum.splits option.splits)

text \<open>
  The seed reaches clients. The source says it must never: it is the secret the shuffles of a match
  are drawn from, and every view zeroes it. The summary of a match, which anyone may ask for,
  carries the engine's whole Ctx and with it the seed.
\<close>

theorem summary_reveals_the_seed:
  assumes store: "reliable_store (cfStore cf) ok saved readBack" and sv: "ok (mgStore (svManager sv))"
    and m: "saved (mgStore (svManager sv)) i = Some m" "current (svManager sv) g m"
  shows "\<exists>sm. fst (handleGetMatch cf i sv) = (200, ReplyMatch sm) \<and> Seed (smCtx sm) = Seed (Ctx (maState m)) \<and>
    Seed (Ctx (PlayerView (hgGame g) (maState m) pid)) = 0"
proof -
  obtain mg' where l: "loadMigrated cf i (svManager sv) = (Inr (length (mgHeap (svManager sv))), mg')"
    "mgHeap mg' = mgHeap (svManager sv) @ [hydrate g m]"
    using reliable_store.load_reliable [OF store refl sv m] by metis
  then show ?thesis
    by (simp add: handleGetMatch_def State_def match_at_def toSummary_def hydrate_Ctx PlayerView_def)
qed

definition seededServer :: "(nat, unit, nat memory) server" where
  "seededServer = tableServer\<lparr>svManager := tableMgr [(''m'', tableMatch\<lparr>maState := counterState\<lparr>Ctx := (Ctx counterState)\<lparr>Seed := 7\<rparr>\<rparr>\<rparr>)]\<rparr>"

theorem summary_reveals_the_seed_witness:
  "\<exists>sm. fst (handleGetMatch (tableConfig Memory) ''m'' seededServer) = (200, ReplyMatch sm) \<and> Seed (smCtx sm) = 7"
proof -
  let ?m = "tableMatch\<lparr>maState := counterState\<lparr>Ctx := (Ctx counterState)\<lparr>Seed := 7\<rparr>\<rparr>\<rparr>"
  have st: "reliable_store (cfStore (tableConfig Memory :: (nat, nat memory) config)) memOk map_of (\<lambda>m. m)"
    by (simp add: tableConfig_def mem.reliable_store_axioms)
  have ok: "memOk (mgStore (svManager seededServer))" "map_of (mgStore (svManager seededServer)) ''m'' = Some ?m"
    by (simp_all add: seededServer_def tableMgr_def NewManager_def memOk_def mwf_def tableMatch_def)
  have c: "current (svManager seededServer) hostedCounter ?m"
    using tableMatch_current by (simp add: current_def seededServer_def Game_def tableMgr_def)
  show ?thesis using summary_reveals_the_seed [OF st, OF ok c] by auto
qed

section \<open>What a request touches\<close>

text \<open>The match a request is about.\<close>

fun matchOf :: "endpoint \<Rightarrow> string option" where
  "matchOf (EpGetMatch _ i) = Some i"
| "matchOf (EpJoin _ i) = Some i"
| "matchOf (EpLeave _ i) = Some i"
| "matchOf (EpUpdate _ i) = Some i"
| "matchOf (EpPlayAgain _ i) = Some i"
| "matchOf (EpMove _ i) = Some i"
| "matchOf (EpDryMove _ i) = Some i"
| "matchOf (EpReset _ i) = Some i"
| "matchOf _ = None"

text \<open>The endpoints that create a match.\<close>

fun creates :: "endpoint \<Rightarrow> bool" where
  "creates (EpCreate _) = True"
| "creates (EpPlayAgain _ _) = True"
| "creates _ = False"

lemma withManager_manager [simp]: "svManager (withManager mg sv) = mg" "svManager (count f sv) = svManager sv"
  by (simp_all add: withManager_def count_def)

context store_contract
begin

lemma ListMatches_keeps:
  assumes "cfStore cf = st" "ok (mgStore mg)" "ListMatches cf game mg = (r, mg')"
  shows "ok (mgStore mg') \<and> saved (mgStore mg') = saved (mgStore mg)"
proof -
  obtain q H s where q: "stList st game (mgHeap mg, mgStore mg) = (q, H, s)" by (metis prod_cases3)
  then have "ok s \<and> saved s = saved (mgStore mg)" using list_done [OF assms(2)] list_failed [OF assms(2)] by (cases q) blast+
  then show ?thesis using assms q by (auto simp: ListMatches_def runStore_def split: sum.splits)
qed

lemma callerView_touches:
  assumes "cfStore cf = st" "touches ok saved i mg0 mg" "callerView cf i pid st0 mg = (v, mg')"
  shows "touches ok saved i mg0 mg'"
proof -
  obtain r mg1 where s: "State cf i mg = (r, mg1)" by fastforce
  then have "mg' = mg1" using assms(3) by (auto simp: callerView_def split: sum.splits option.splits)
  then show ?thesis using State_touches [OF assms(1) _ s] assms(2) by (auto simp: touches_def)
qed

lemma moves_touch:
  assumes cf: "cfStore cf = st" and sv: "ok (mgStore (svManager sv))"
  shows "handleMove cf i body sv = Some (r, sv') \<Longrightarrow> touches ok saved i (svManager sv) (svManager sv')"
    "handleDryMove cf i body sv = Some (r, sv') \<Longrightarrow> touches ok saved i (svManager sv) (svManager sv')"
proof -
  assume h: "handleMove cf i body sv = Some (r, sv')"
  show "touches ok saved i (svManager sv) (svManager sv')"
  proof (cases body)
    case (Inr req)
    obtain q mg where m: "MoveReqCtx cf i (aqPlayerID req) (aqCredentials req) (requestOf req) (svManager sv) = Some (q, mg)"
      using h Inr by (auto simp: handleMove_def)
    note t = MoveReqCtx_touches [OF cf sv m]
    show ?thesis using h Inr m t callerView_touches [OF cf t]
      by (cases q) (auto simp: handleMove_def Let_def split: prod.splits)
  qed (use h sv in \<open>auto simp: handleMove_def touches_refl\<close>)
next
  assume h: "handleDryMove cf i body sv = Some (r, sv')"
  show "touches ok saved i (svManager sv) (svManager sv')"
  proof (cases body)
    case (Inr req)
    obtain q mg where m: "DryMoveReq cf i (aqPlayerID req) (aqCredentials req) (requestOf req) (svManager sv) = Some (q, mg)"
      using h Inr by (auto simp: handleDryMove_def)
    note t = DryMoveReq_touches [OF cf sv m]
    show ?thesis using h Inr m t callerView_touches [OF cf t]
      by (cases q) (auto simp: handleDryMove_def Let_def split: prod.splits)
  qed (use h sv in \<open>auto simp: handleDryMove_def touches_refl\<close>)
qed

lemma serve_touches:
  assumes cf: "cfStore cf = st" and sv: "ok (mgStore (svManager sv))" and s: "serve cf body ep sv = Some (r, sv')"
    and i: "matchOf ep = Some i" "\<not> creates ep"
  shows "touches ok saved i (svManager sv) (svManager sv')"
proof (cases ep)
  case (EpGetMatch n j)
  then show ?thesis using s i State_touches [OF cf sv]
    by (auto simp: handleGetMatch_def split: sum.splits prod.splits)
next
  case (EpJoin n j)
  then show ?thesis using s i sv Join_touches [OF cf sv]
    by (auto simp: handleJoin_def touches_refl split: sum.splits prod.splits)
next
  case (EpLeave n j)
  then show ?thesis using s i sv players_touch(1) [OF cf sv]
    by (auto simp: handleLeave_def touches_refl split: sum.splits prod.splits) (metis snd_conv)
next
  case (EpUpdate n j)
  then show ?thesis using s i sv players_touch(2) [OF cf sv]
    by (auto simp: handleUpdate_def touches_refl split: sum.splits prod.splits) (metis snd_conv)
next
  case (EpReset n j)
  then show ?thesis using s i sv Reset_touches [OF cf sv]
    by (auto simp: handleReset_def touches_refl split: sum.splits)
qed (use s i moves_touch [OF cf sv] in auto)

end




section \<open>Connections\<close>

lemma syncFrame_reliable:
  assumes "reliable_store (cfStore cf) ok saved readBack" "ok (mgStore mg)" "saved (mgStore mg) i = Some m" "current mg g m"
  shows "fst (syncFrame cf i (newWSClient pid) mg) =
    (newWSClient pid)\<lparr>wcPrev := Some (PlayerView (hgGame g) (maState (hydrate g m)) pid),
      wcOut := [SyncFrame (PlayerView (hgGame g) (maState (hydrate g m)) pid) (playerFrames (maPlayers m)) i]\<rparr>"
proof -
  obtain mg' where l: "loadMigrated cf i mg = (Inr (length (mgHeap mg)), mg')" "sameRest mg mg'" "mgHeap mg' = mgHeap mg @ [hydrate g m]"
    using reliable_store.load_reliable [OF assms(1) refl assms(2-)] by metis
  then have "Game mg' (maGameName m) = Some g" using assms(4) by (simp add: current_def Game_def sameRest_def)
  then show ?thesis using l by (simp add: syncFrame_def State_def match_at_def newWSClient_def enqueue_def wsSendBufferSize_def Let_def)
qed

lemma Authenticate_reliable:
  assumes store: "reliable_store (cfStore cf) ok saved readBack" and mg: "ok (mgStore mg)" and m: "saved (mgStore mg) i = Some m" "current mg g m"
    and a: "Authenticate cf i pid creds mg = (True, mg')"
  shows "(\<exists>k. playerIndex pid m = Some k \<and> cfAuthenticate cf creds (maPlayers m ! k)) \<and>
    ok (mgStore mg') \<and> saved (mgStore mg') i = Some m \<and> current mg' g m"
proof -
  obtain mg1 where l: "loadMigrated cf i mg = (Inr (length (mgHeap mg)), mg1)" "sameRest mg mg1" "ok (mgStore mg1)"
    "saved (mgStore mg1) = saved (mgStore mg)" "mgHeap mg1 = mgHeap mg @ [hydrate g m]"
    using reliable_store.load_reliable [OF store refl mg m] .
  have p: "playerIndex pid (hydrate g m) = playerIndex pid m" by (simp add: playerIndex_def)
  have "mg' = mg1 \<and> (\<exists>k. playerIndex pid m = Some k \<and> cfAuthenticate cf creds (maPlayers m ! k))"
    using a l p by (auto simp: Authenticate_def match_at_def split: option.splits if_splits)
  then show ?thesis using l m by (auto simp: current_def Game_def sameRest_def)
qed

lemma spectatorRefused_reliable:
  assumes store: "reliable_store (cfStore cf) ok saved readBack" and mg: "ok (mgStore mg)" and m: "saved (mgStore mg) i = Some m" "current mg g m"
    and a: "spectatorRefused cf spectators i mg = (refused, mg')"
  shows "refused = (spectators (maGameName m) = Some False) \<and> ok (mgStore mg') \<and> saved (mgStore mg') i = Some m \<and> current mg' g m"
proof -
  obtain mg1 where l: "loadMigrated cf i mg = (Inr (length (mgHeap mg)), mg1)" "sameRest mg mg1" "ok (mgStore mg1)"
    "saved (mgStore mg1) = saved (mgStore mg)" "mgHeap mg1 = mgHeap mg @ [hydrate g m]"
    using reliable_store.load_reliable [OF store refl mg m] .
  then have "Game mg1 (maGameName m) = Some g" using m(2) by (simp add: current_def Game_def sameRest_def)
  then show ?thesis using a l m by (auto simp: spectatorRefused_def State_def match_at_def current_def Game_def sameRest_def)
qed





section \<open>The queue of a connection\<close>

text \<open>The queue holds the newest frames, as many as fit.\<close>

definition newest :: "nat \<Rightarrow> 'a list \<Rightarrow> 'a list" where
  "newest n xs = drop (length xs - n) xs"

lemma enqueue_newest: "length (wcOut c) \<le> wsSendBufferSize \<Longrightarrow> wcOut (enqueue f c) = newest wsSendBufferSize (wcOut c @ [f])"
  by (cases "wcOut c") (auto simp: enqueue_def newest_def wsSendBufferSize_def Let_def)

lemma newest_length: "length (newest n xs) \<le> n"
  by (simp add: newest_def)

lemma newest_newest: "newest n (newest n xs @ ys) = newest n (xs @ ys)"
  by (cases "length xs \<le> n") (simp_all add: newest_def drop_append add.commute)

lemma newest_Nil: "length xs \<le> n \<Longrightarrow> newest n xs = xs"
  by (simp add: newest_def)

text \<open>
  Frames that a client does not read in time: of all frames sent, the 32 newest are kept, in order.
\<close>

theorem queue_keeps_the_newest:
  assumes "length (wcOut c) \<le> wsSendBufferSize"
  shows "wcOut (fold enqueue fs c) = newest wsSendBufferSize (wcOut c @ fs)"
proof (induction fs rule: rev_induct)
  case Nil
  then show ?case using assms by (simp add: newest_Nil)
next
  case (snoc f fs)
  then show ?case using enqueue_newest [of "fold enqueue fs c" f] newest_length newest_newest by (metis append_assoc comp_apply fold_append fold_simps)
qed

theorem queue_keeps_the_newest_witness:
  "wcOut (fold enqueue (map (\<lambda>n. ErrorFrame (ErrMigrate n '''')) [1..40]) (newWSClient '''' :: (nat, unit) wsClient)) =
   map (\<lambda>n. ErrorFrame (ErrMigrate n '''')) [9..40]"
  using queue_keeps_the_newest [of "newWSClient '''' :: (nat, unit) wsClient" "map (\<lambda>n. ErrorFrame (ErrMigrate n '''')) [1..40]"]
  by (simp add: newWSClient_def newest_def wsSendBufferSize_def upto.simps)

lemma wsSendPatch_step:
  "wcPrev c = Some a \<Longrightarrow> cmp a s = Inr d \<Longrightarrow> wsSendPatch cmp s c = enqueue (PatchFrame d (StateID a) (StateID s)) (c\<lparr>wcPrev := Some s\<rparr>)"
  by (simp add: wsSendPatch_def)

text \<open>
  Dropping is wrong for patches. Patches that do not fit push out the oldest, and the ones that
  remain no longer start from the state the client has: after more than 32 unread patches the first
  in the queue is relative to a state that was never sent, though the comment holds dropping
  correct because only the latest state matters.
\<close>

theorem dropped_patches_lose_the_base:
  fixes c :: "('g, 'p) wsClient"
  assumes c: "wcOut c = []" "wcPrev c = Some p" and patches: "\<And>a b. \<exists>d. cmp a b = Inr d"
    and ids: "\<And>k. k < length sts \<Longrightarrow> StateID (sts ! k) = StateID p + int k + 1" and many: "32 < length sts"
  shows "\<exists>d b n rest. wcOut (fold (wsSendPatch cmp) sts c) = PatchFrame d b n # rest \<and> b \<noteq> StateID p"
proof -
  define fs :: "'g state list \<Rightarrow> ('g, 'p) wsFrame list"
    where "fs ss = map2 (\<lambda>a b. PatchFrame (projr (cmp a b)) (StateID a) (StateID b)) (p # ss) ss" for ss
  have "wcOut (fold (wsSendPatch cmp) ss c) = newest wsSendBufferSize (fs ss) \<and> wcPrev (fold (wsSendPatch cmp) ss c) = Some (last (p # ss))" for ss
  proof (induction ss rule: rev_induct)
    case Nil
    then show ?case using c by (simp add: fs_def newest_def)
  next
    case (snoc s ss)
    let ?c = "fold (wsSendPatch cmp) ss c"
    obtain d where d: "cmp (last (p # ss)) s = Inr d" using patches by blast
    let ?f = "PatchFrame d (StateID (last (p # ss))) (StateID s)"
    have fs: "fs (ss @ [s]) = fs ss @ [?f]"
    proof -
      have "zip (p # ss @ [s]) (ss @ [s]) = zip (p # ss) ss @ [(last (p # ss), s)]"
        by (induction ss arbitrary: p) auto
      then show ?thesis using d by (auto simp: fs_def split: if_splits)
    qed
    have step: "fold (wsSendPatch cmp) (ss @ [s]) c = enqueue ?f (?c\<lparr>wcPrev := Some s\<rparr>)"
    proof -
      have "wsSendPatch cmp s ?c = enqueue ?f (?c\<lparr>wcPrev := Some s\<rparr>)" using wsSendPatch_step [of ?c "last (p # ss)" cmp s d] snoc d by blast
      then show ?thesis by (simp del: last.simps)
    qed
    have "wcOut (enqueue ?f (?c\<lparr>wcPrev := Some s\<rparr>)) = newest wsSendBufferSize (newest wsSendBufferSize (fs ss) @ [?f])"
    proof -
      have "wcOut (?c\<lparr>wcPrev := Some s\<rparr>) = newest wsSendBufferSize (fs ss)" using snoc by simp
      then show ?thesis using enqueue_newest [of "?c\<lparr>wcPrev := Some s\<rparr>" ?f] newest_length [of wsSendBufferSize "fs ss"] by simp
    qed
    moreover have "wcPrev (enqueue ?f (?c\<lparr>wcPrev := Some s\<rparr>)) = Some s" by (simp add: enqueue_def Let_def)
    ultimately show ?case using fs newest_newest step by (metis last_ConsR last_snoc snoc_eq_iff_butlast)
  qed
  then have q: "wcOut (fold (wsSendPatch cmp) sts c) = drop (length sts - 32) (fs sts)"
    by (simp add: newest_def wsSendBufferSize_def fs_def)
  let ?k = "length sts - 32"
  have k: "0 < ?k" "?k < length (fs sts)" using many by (simp_all add: fs_def)
  then have "drop ?k (fs sts) = fs sts ! ?k # drop (Suc ?k) (fs sts)" by (simp add: Cons_nth_drop_Suc)
  moreover have "fs sts ! ?k = PatchFrame (projr (cmp (sts ! (?k - 1)) (sts ! ?k))) (StateID (sts ! (?k - 1))) (StateID (sts ! ?k))"
    using k by (simp add: fs_def nth_Cons')
  moreover have "StateID (sts ! (?k - 1)) \<noteq> StateID p" using ids [of "?k - 1"] k many by simp
  ultimately show ?thesis using q by auto
qed

theorem dropped_patches_lose_the_base_witness:
  "\<exists>d b n rest. wcOut (fold (wsSendPatch (\<lambda>a b. Inr ())) (map (\<lambda>n. counterState\<lparr>StateID := n\<rparr>) [1..33])
     ((newWSClient '''' :: (nat, unit) wsClient)\<lparr>wcPrev := Some (counterState\<lparr>StateID := 0\<rparr>)\<rparr>)) = PatchFrame d b n # rest \<and> b \<noteq> 0"
  using dropped_patches_lose_the_base [of "(newWSClient '''' :: (nat, unit) wsClient)\<lparr>wcPrev := Some (counterState\<lparr>StateID := 0\<rparr>)\<rparr>"
      "counterState\<lparr>StateID := 0\<rparr>" "\<lambda>a b. Inr ()" "map (\<lambda>n. counterState\<lparr>StateID := n\<rparr>) [1..33]"]
  by (simp add: newWSClient_def nth_upto)

end
