(* ===== verification/Bots.thy ===== *)
theory Bots
  imports HttpServer Plugins Rps
begin

text \<open>
  Bot players (\<open>bots/\<close>): the random bot and Monte Carlo tree search (bots.go), headless simulation
  (simulate.go) and the player that runs a bot on a seat of a live match (runner.go).

  \<open>math.Log\<close> and \<open>math.Sqrt\<close> are parameters of the search, and cancellation is a predicate on the
  iteration. Search and simulation call the engine on states that may share memory with the match, so
  the memory of game code is threaded through them; the outer \<open>None\<close> is a panic, as before.
\<close>

section \<open>Bots (\<open>bots.go\<close>)\<close>

type_synonym 'g enumerateFn = "'g \<Rightarrow> ctx \<Rightarrow> string \<Rightarrow> enumerateAction list"

datatype botError = ErrNoMoves | NoEnumerateFn | GameRequired

definition resolveEnumerate :: "'g enumerateFn option \<Rightarrow> ('g, 'h) game option \<Rightarrow> 'g enumerateFn option" where
  "resolveEnumerate explicit game = (case explicit of Some f \<Rightarrow> Some f | None \<Rightarrow> (case game of Some g \<Rightarrow> gmEnumerate g | None \<Rightarrow> None))"

definition botNext :: "64 word \<Rightarrow> 64 word \<times> 64 word" where
  "botNext s = (let s = s + 0x9E3779B97F4A7C15 in (splitmix_mix s, s))"

fun botSeed :: "goval \<Rightarrow> 64 word" where
  "botSeed VNil = 0xDEADBEEFCAFEBABE"
| "botSeed (VInt t n) = (if t \<in> {''uint64'', ''int'', ''int64''} then word_of_int n else 0)"
| "botSeed (VStr s) = fnv1a (map of_char s)"
| "botSeed _ = 0"

text \<open>\<open>actions[int(next(&state) % uint64(len(actions)))]\<close>.\<close>

definition pick :: "'a list \<Rightarrow> 64 word \<Rightarrow> 'a \<times> 64 word" where
  "pick xs s = (let (z, s) = botNext s in (xs ! unat (z mod word_of_nat (length xs)), s))"

record ('g, 'h) randomBot =
  rbEnumerate :: "'g enumerateFn option"
  rbGame :: "('g, 'h) game option"
  rbSeed :: goval
  rbState :: "64 word option"

definition randomPlay :: "'g state \<Rightarrow> string \<Rightarrow> ('g, 'h) randomBot \<Rightarrow> (botError + enumerateAction) \<times> ('g, 'h) randomBot" where
  "randomPlay st pid b = (case resolveEnumerate (rbEnumerate b) (rbGame b) of
      None \<Rightarrow> (Inl NoEnumerateFn, b)
    | Some enum \<Rightarrow>
        (let actions = enum (G st) (Ctx st) pid
         in if actions = [] then (Inl ErrNoMoves, b)
            else let s = (case rbState b of None \<Rightarrow> botSeed (rbSeed b) | Some s \<Rightarrow> s);
                     (a, s) = pick actions s
                 in (Inr a, b\<lparr>rbState := Some s\<rparr>)))"

section \<open>Monte Carlo tree search\<close>

fun f64_div :: "f64 \<Rightarrow> f64 \<Rightarrow> f64" where
  "f64_div (Fin x) (Fin y) = (if y = 0 then (if x = 0 then NaN else f64_inf (x < 0)) else f64_round (x / y))"
| "f64_div NaN _ = NaN"
| "f64_div _ NaN = NaN"
| "f64_div (Fin x) _ = Fin 0"
| "f64_div PosInf (Fin y) = f64_inf (y < 0)"
| "f64_div NegInf (Fin y) = f64_inf (0 \<le> y)"
| "f64_div _ _ = NaN"

definition f64_less :: "f64 \<Rightarrow> f64 \<Rightarrow> bool" where
  "f64_less x y \<longleftrightarrow> f64_le x y \<and> \<not> f64_le y x"

record mathLib =
  mlLog :: "f64 \<Rightarrow> f64"
  mlSqrt :: "f64 \<Rightarrow> f64"

record ('g, 'h) mctsBot =
  mbGame :: "('g, 'h) game option"
  mbEnumerate :: "'g enumerateFn option"
  mbIterations :: int
  mbSeed :: goval
  mbEarlyStop :: "(enumerateAction list \<Rightarrow> f64 list \<Rightarrow> int list \<Rightarrow> bool) option"
  mbEarlyStopAfter :: int
  mbPerspective :: bool

text \<open>The value of a finished match for the viewer.\<close>

definition score :: "goval \<Rightarrow> string \<Rightarrow> f64" where
  "score gameover viewer = (case gameover of
      VMap m \<Rightarrow> (case map_of m ''winner'' of
        Some (VStr w) \<Rightarrow> if w = viewer then Fin 1 else Fin 0
      | _ \<Rightarrow> Fin (1 / 2))
    | _ \<Rightarrow> Fin (1 / 2))"

definition uct :: "mathLib \<Rightarrow> f64 list \<Rightarrow> int list \<Rightarrow> f64 \<Rightarrow> nat \<Rightarrow> f64" where
  "uct ml wins visits tlog i =
     f64_add (f64_div (wins ! i) (int_to_f64 (visits ! i)))
       (mlSqrt ml (f64_div (f64_mul (Fin 2) tlog) (int_to_f64 (visits ! i))))"

fun bestBy :: "(nat \<Rightarrow> f64) \<Rightarrow> nat list \<Rightarrow> nat \<Rightarrow> f64 \<Rightarrow> nat" where
  "bestBy f [] best bestScore = best"
| "bestBy f (i # is) best bestScore = (if f64_less bestScore (f i) then bestBy f is i (f i) else bestBy f is best bestScore)"

definition selectByUCT :: "mathLib \<Rightarrow> f64 list \<Rightarrow> int list \<Rightarrow> int \<Rightarrow> nat" where
  "selectByUCT ml wins visits tot = (case find_index (\<lambda>v. v = 0) visits of
      Some i \<Rightarrow> i
    | None \<Rightarrow> bestBy (uct ml wins visits (mlLog ml (int_to_f64 (tot + 1)))) [0..<length wins] 0 (Fin (- 1)))"

definition maxDepth :: nat where "maxDepth = 100"

text \<open>The rollout, with the number of steps left.\<close>

fun rolloutFrom :: "nat \<Rightarrow> ('g, 'h) game \<Rightarrow> 'g enumerateFn \<Rightarrow> bool \<Rightarrow> string \<Rightarrow> 'g state \<Rightarrow> 64 word \<Rightarrow> 'h \<Rightarrow> ('g state \<times> 64 word \<times> 'h) option" where
  "rolloutFrom 0 game enum persp viewer st rng h = Some (st, rng, h)"
| "rolloutFrom (Suc d) game enum persp viewer st rng h =
     (if Gameover (Ctx st) \<noteq> VNil then Some (st, rng, h)
      else
        (let view = (if persp then PlayerView game st viewer else st);
             actions = enum (G view) (Ctx view) (CurrentPlayer (Ctx st))
         in if actions = [] then Some (st, rng, h)
            else do {
              let (a, rng) = pick actions rng;
              (nx, err, h) \<leftarrow> Apply game st (request (CurrentPlayer (Ctx st)) (eaMove a) (eaArgs a)) h;
              (case err of
                 Some _ \<Rightarrow> Some (st, rng, h)
               | None \<Rightarrow> rolloutFrom d game enum persp viewer nx rng h)
            }))"

definition rollout :: "('g, 'h) game \<Rightarrow> 'g enumerateFn \<Rightarrow> bool \<Rightarrow> string \<Rightarrow> 'g state \<Rightarrow> 64 word \<Rightarrow> 'h \<Rightarrow> (f64 \<times> 64 word \<times> 'h) option" where
  "rollout game enum persp viewer st rng h =
     map_option (\<lambda>(st, rng, h). (score (Gameover (Ctx st)) viewer, rng, h)) (rolloutFrom maxDepth game enum persp viewer st rng h)"

record 'h search =
  shWins :: "f64 list"
  shVisits :: "int list"
  shRng :: "64 word"
  shMem :: 'h

definition visit :: "nat \<Rightarrow> f64 \<Rightarrow> 'h search \<Rightarrow> 'h search" where
  "visit i w s = s\<lparr>shWins := (shWins s)[i := f64_add (shWins s ! i) w], shVisits := (shVisits s)[i := shVisits s ! i + 1]\<rparr>"

definition earlyStopAfter :: "('g, 'h) mctsBot \<Rightarrow> int" where
  "earlyStopAfter b = (if mbEarlyStopAfter b \<le> 0 then 16 else mbEarlyStopAfter b)"

text \<open>The iterations \<open>it, it + 1, \<dots>\<close>, of which \<open>left\<close> may still run.\<close>

fun searchLoop :: "mathLib \<Rightarrow> (nat \<Rightarrow> bool) \<Rightarrow> ('g, 'h) mctsBot \<Rightarrow> ('g, 'h) game \<Rightarrow> 'g enumerateFn \<Rightarrow> string \<Rightarrow> 'g state \<Rightarrow> enumerateAction list
    \<Rightarrow> nat \<Rightarrow> nat \<Rightarrow> 'h search \<Rightarrow> 'h search option" where
  "searchLoop ml cancelled b game enum pid st actions 0 it s = Some s"
| "searchLoop ml cancelled b game enum pid st actions (Suc left) it s =
     (if cancelled it then Some s
      else do {
        let i = selectByUCT ml (shWins s) (shVisits s) (int it);
        (nx, err, h) \<leftarrow> Apply game st (request pid (eaMove (actions ! i)) (eaArgs (actions ! i))) (shMem s);
        let s = s\<lparr>shMem := h\<rparr>;
        (case err of
           Some _ \<Rightarrow> searchLoop ml cancelled b game enum pid st actions left (Suc it) (s\<lparr>shVisits := (shVisits s)[i := shVisits s ! i + 1]\<rparr>)
         | None \<Rightarrow> do {
             (w, rng, h) \<leftarrow> rollout game enum (mbPerspective b) pid nx (shRng s) (shMem s);
             let s = visit i w (s\<lparr>shRng := rng, shMem := h\<rparr>);
             if (case mbEarlyStop b of None \<Rightarrow> False | Some stop \<Rightarrow> earlyStopAfter b \<le> int it + 1 \<and> stop actions (shWins s) (shVisits s))
             then Some s else searchLoop ml cancelled b game enum pid st actions left (Suc it) s
           })
      })"

fun mostVisited :: "int list \<Rightarrow> nat \<Rightarrow> nat \<Rightarrow> int \<Rightarrow> nat" where
  "mostVisited [] i best bestVisits = best"
| "mostVisited (v # vs) i best bestVisits = (if bestVisits < v then mostVisited vs (Suc i) i v else mostVisited vs (Suc i) best bestVisits)"

definition mctsIterations :: "('g, 'h) mctsBot \<Rightarrow> nat" where
  "mctsIterations b = (if mbIterations b = 0 then 100 else nat (mbIterations b))"

definition mctsPlay :: "mathLib \<Rightarrow> (nat \<Rightarrow> bool) \<Rightarrow> ('g, 'h) mctsBot \<Rightarrow> 'g state \<Rightarrow> string \<Rightarrow> 'h \<Rightarrow> ((botError + enumerateAction) \<times> 'h) option" where
  "mctsPlay ml cancelled b st pid h = (case mbGame b of
      None \<Rightarrow> Some (Inl GameRequired, h)
    | Some game \<Rightarrow> (case resolveEnumerate (mbEnumerate b) (mbGame b) of
        None \<Rightarrow> Some (Inl NoEnumerateFn, h)
      | Some enum \<Rightarrow>
          (let st = (if mbPerspective b then PlayerView game st pid else st);
               actions = enum (G st) (Ctx st) pid
           in if actions = [] then Some (Inl ErrNoMoves, h)
              else do {
                s \<leftarrow> searchLoop ml cancelled b game enum pid st actions (mctsIterations b) 0
                  \<lparr>shWins = replicate (length actions) (Fin 0), shVisits = replicate (length actions) 0, shRng = botSeed (mbSeed b), shMem = h\<rparr>;
                Some (Inr (actions ! mostVisited (shVisits s) 0 0 (- 1)), shMem s)
              })))"

section \<open>Simulation (\<open>simulate.go\<close>)\<close>

text \<open>A bot as Simulate sees it: a strategy on a state of its own.\<close>

type_synonym ('g, 'b, 'h) strategy = "'g state \<Rightarrow> string \<Rightarrow> 'b \<Rightarrow> 'h \<Rightarrow> ((botError + enumerateAction) \<times> 'b \<times> 'h) option"

record simulationResult =
  srMatches :: int
  srWins :: "int gomap"
  srDraws :: int
  srErrors :: int
  srAvgMoves :: f64
  srAvgTurns :: f64

record ('g, 'b, 'h) simulateOptions =
  soGame :: "('g, 'h) game option"
  soBots :: "('g, 'b, 'h) strategy gomap"
  soMatches :: int
  soMaxMoves :: int
  soSetupData :: goval
  soNumPlayers :: int

definition seatToPlay :: "ctx \<Rightarrow> string" where
  "seatToPlay c = (case ActivePlayers c of Some ((k, _) # _) \<Rightarrow> k | _ \<Rightarrow> CurrentPlayer c)"

text \<open>One match: the final state, the moves made and whether it broke off; \<open>left\<close> moves may still be made.\<close>

fun playOut :: "('g, 'h) game \<Rightarrow> ('g, 'b, 'h) strategy gomap \<Rightarrow> nat \<Rightarrow> int \<Rightarrow> 'g state \<Rightarrow> 'b \<Rightarrow> 'h \<Rightarrow> (('g state \<times> int \<times> bool) \<times> 'b \<times> 'h) option" where
  "playOut game bots 0 moves st b h = Some ((st, moves, False), b, h)"
| "playOut game bots (Suc left) moves st b h =
     (if Gameover (Ctx st) \<noteq> VNil then Some ((st, moves, False), b, h)
      else
        (let pid = seatToPlay (Ctx st)
         in case map_of bots pid of
              None \<Rightarrow> Some ((st, moves, True), b, h)
            | Some strat \<Rightarrow> do {
                (r, b, h) \<leftarrow> strat st pid b h;
                (case r of
                   Inl _ \<Rightarrow> Some ((st, moves, True), b, h)
                 | Inr a \<Rightarrow> do {
                     (nx, err, h) \<leftarrow> Apply game st (request pid (eaMove a) (eaArgs a)) h;
                     (case err of
                        Some _ \<Rightarrow> Some ((st, moves, True), b, h)
                      | None \<Rightarrow> playOut game bots left (moves + 1) nx b h)
                   })
              }))"

record tally =
  tyResult :: simulationResult
  tyMoves :: int
  tyTurns :: int
  tyCompleted :: int

definition addMatch :: "'g state \<times> int \<times> bool \<Rightarrow> tally \<Rightarrow> tally" where
  "addMatch m t = (case m of (st, moves, errored) \<Rightarrow>
     (let res = (tyResult t)\<lparr>srMatches := srMatches (tyResult t) + 1\<rparr>
      in if errored \<or> Gameover (Ctx st) = VNil then t\<lparr>tyResult := res\<lparr>srErrors := srErrors res + 1\<rparr>\<rparr>
         else
           (let res = (case Gameover (Ctx st) of
                VMap m \<Rightarrow> (case map_of m ''winner'' of
                  Some (VStr w) \<Rightarrow> res\<lparr>srWins := mput w ((case map_of (srWins res) w of Some n \<Rightarrow> n | None \<Rightarrow> 0) + 1) (srWins res)\<rparr>
                | _ \<Rightarrow> if map_of m ''draw'' = Some (VBool True) then res\<lparr>srDraws := srDraws res + 1\<rparr> else res)
              | _ \<Rightarrow> res)
            in \<lparr>tyResult = res, tyMoves = tyMoves t + moves, tyTurns = tyTurns t + Turn (Ctx st), tyCompleted = tyCompleted t + 1\<rparr>)))"

text \<open>The matches \<open>i, i + 1, \<dots>\<close>; a cancelled run returns the tally so far, without averages.\<close>

fun simulateLoop :: "(nat \<Rightarrow> bool) \<Rightarrow> ('g, 'h) game \<Rightarrow> ('g, 'b, 'h) simulateOptions \<Rightarrow> nat \<Rightarrow> nat \<Rightarrow> nat \<Rightarrow> tally \<Rightarrow> 'b \<Rightarrow> 'h
    \<Rightarrow> (bool \<times> tally \<times> 'b \<times> 'h) option" where
  "simulateLoop cancelled game opts maxMoves 0 i t b h = Some (False, t, b, h)"
| "simulateLoop cancelled game opts maxMoves (Suc left) i t b h =
     (if cancelled i then Some (True, t, b, h)
      else do {
        (st, h) \<leftarrow> NewMatch game (soNumPlayers opts) (soSetupData opts) h;
        (m, b, h) \<leftarrow> playOut game (soBots opts) maxMoves 0 st b h;
        simulateLoop cancelled game opts maxMoves left (Suc i) (addMatch m t) b h
      })"

definition noResult :: simulationResult where
  "noResult = \<lparr>srMatches = 0, srWins = [], srDraws = 0, srErrors = 0, srAvgMoves = Fin 0, srAvgTurns = Fin 0\<rparr>"

definition withAverages :: "tally \<Rightarrow> simulationResult" where
  "withAverages t = (if 0 < tyCompleted t
     then (tyResult t)\<lparr>srAvgMoves := f64_div (int_to_f64 (tyMoves t)) (int_to_f64 (tyCompleted t)),
                       srAvgTurns := f64_div (int_to_f64 (tyTurns t)) (int_to_f64 (tyCompleted t))\<rparr>
     else tyResult t)"

datatype simulateError = SimGameRequired | SimBotRequired | SimCancelled

definition Simulate :: "(nat \<Rightarrow> bool) \<Rightarrow> ('g, 'b, 'h) simulateOptions \<Rightarrow> 'b \<Rightarrow> 'h \<Rightarrow> ((simulationResult \<times> simulateError option) \<times> 'b \<times> 'h) option" where
  "Simulate cancelled opts b h = (case soGame opts of
      None \<Rightarrow> Some ((noResult, Some SimGameRequired), b, h)
    | Some game \<Rightarrow>
        (if soBots opts = [] then Some ((noResult, Some SimBotRequired), b, h)
         else do {
           let matches = (if soMatches opts \<le> 0 then 1 else nat (soMatches opts));
           let maxMoves = (if soMaxMoves opts \<le> 0 then 1000 else nat (soMaxMoves opts));
           (stopped, t, b, h) \<leftarrow> simulateLoop cancelled game opts maxMoves matches 0
             \<lparr>tyResult = noResult, tyMoves = 0, tyTurns = 0, tyCompleted = 0\<rparr> b h;
           Some (if stopped then (tyResult t, Some SimCancelled) else (withAverages t, None), b, h)
         }))"

section \<open>A bot on a seat (\<open>runner.go\<close>)\<close>

text \<open>The channel of one pending state; \<open>None\<close> before Run has made it.\<close>

record ('g, 'b) autoPlayer =
  apMatchID :: string
  apPlayerID :: string
  apCredentials :: string
  apPending :: "'g state list option"
  apBot :: 'b

definition autoSend :: "'g state \<Rightarrow> ('g, 'b) autoPlayer \<Rightarrow> ('g, 'b) autoPlayer" where
  "autoSend st a = (case apPending a of
      None \<Rightarrow> a
    | Some [] \<Rightarrow> a\<lparr>apPending := Some [st]\<rparr>
    | Some (_ # rest) \<Rightarrow> if rest = [] then a\<lparr>apPending := Some [st]\<rparr> else a\<lparr>apPending := Some rest\<rparr>)"

definition isMyTurn :: "('g, 'b) autoPlayer \<Rightarrow> 'g state \<Rightarrow> bool" where
  "isMyTurn a st = (case ActivePlayers (Ctx st) of
      Some active \<Rightarrow> map_of active (apPlayerID a) \<noteq> None
    | None \<Rightarrow> CurrentPlayer (Ctx st) = apPlayerID a)"

text \<open>Run up to its loop: make the channel, subscribe, and take the current state.\<close>

definition autoStart :: "('g, 's) config \<Rightarrow> nat \<Rightarrow> ('g, 'b) autoPlayer \<Rightarrow> ('g, 'h, 's) mgr \<Rightarrow> ('g, 'b) autoPlayer \<times> ('g, 'h, 's) mgr" where
  "autoStart cf conn a mg =
     (let a = a\<lparr>apPending := Some []\<rparr>;
          mg = Manager.Subscribe (apMatchID a) \<lparr>sbID = conn, sbPlayerID = apPlayerID a, sbPatch = False\<rparr> mg
      in case State cf (apMatchID a) mg of
           (Inl _, mg) \<Rightarrow> (a, mg)
         | (Inr m, mg) \<Rightarrow> (autoSend (maState (match_at mg m)) a, mg))"

text \<open>One round of the loop on a pending state; the flag is whether Run returns.\<close>

definition autoStep :: "('g, 's) config \<Rightarrow> ('g, 'b, 'h) strategy \<Rightarrow> ('g, 'b) autoPlayer \<Rightarrow> ('g, 'h, 's) mgr
    \<Rightarrow> (bool \<times> ('g, 'b) autoPlayer \<times> ('g, 'h, 's) mgr) option" where
  "autoStep cf strat a mg = (case apPending a of
      Some (st # rest) \<Rightarrow>
        (let a = a\<lparr>apPending := Some rest\<rparr>
         in if Gameover (Ctx st) \<noteq> VNil then Some (True, a, mg)
            else if \<not> isMyTurn a st then Some (False, a, mg)
            else do {
              (r, b, h) \<leftarrow> strat st (apPlayerID a) (apBot a) (mgMem mg);
              let a = a\<lparr>apBot := b\<rparr>;
              let mg = mg\<lparr>mgMem := h\<rparr>;
              (case r of
                 Inl _ \<Rightarrow> Some (False, a, mg)
               | Inr act \<Rightarrow> do {
                   (_, mg) \<leftarrow> MoveReqCtx cf (apMatchID a) (apPlayerID a) (apCredentials a)
                     ((plainRequest (eaMove act) (eaArgs act))\<lparr>rqStateID := StateID st\<rparr>) mg;
                   Some (False, a, mg)
                 })
            })
    | _ \<Rightarrow> Some (False, a, mg))"

section \<open>Legal play\<close>

lemma pick_member:
  assumes "xs \<noteq> []" "length xs < 2 ^ 64"
  shows "fst (pick xs s) \<in> set xs"
proof -
  let ?n = "word_of_nat (length xs) :: 64 word" let ?z = "fst (botNext s)"
  have n: "unat ?n = length xs" using assms(2) by (simp add: unsigned_of_nat take_bit_nat_eq_self)
  then have "?n \<noteq> 0" using assms(1) by (metis length_0_conv unat_0)
  then have "unat (?z mod ?n) < length xs" using n assms(1) by (simp add: unat_mod)
  then show ?thesis by (simp add: pick_def case_prod_beta Let_def)
qed

text \<open>
  The random bot always has an answer when a move is enumerated, and it is one of them.
\<close>

theorem randomBot_plays_an_enumerated_action:
  assumes "resolveEnumerate (rbEnumerate b) (rbGame b) = Some enum"
    and "enum (G st) (Ctx st) pid \<noteq> []" "length (enum (G st) (Ctx st) pid) < 2 ^ 64"
  shows "\<exists>a b'. randomPlay st pid b = (Inr a, b') \<and> a \<in> set (enum (G st) (Ctx st) pid)"
  using assms pick_member [OF assms(2,3)] by (auto simp: randomPlay_def Let_def case_prod_beta)

section \<open>The search\<close>

lemma find_index_zero: "find_index (\<lambda>v. v = 0) (replicate k (1 :: int) @ replicate (Suc m) 0) = Some k"
  by (induction k) auto

lemma bestBy_in: "bestBy f is best sc \<in> insert best (set is)"
  by (induction "is" arbitrary: best sc) auto

text \<open>The visits after \<open>k\<close> iterations: the first \<open>n\<close> explore the actions in order.\<close>

definition explored :: "nat \<Rightarrow> nat \<Rightarrow> int list \<Rightarrow> bool" where
  "explored n k vs \<longleftrightarrow> length vs = n \<and> sum_list vs = int k \<and>
     (if k < n then vs = replicate k 1 @ replicate (n - k) 0 else (\<forall>v\<in>set vs. 1 \<le> v))"

lemma sum_list_bump: "i < length vs \<Longrightarrow> sum_list (vs[i := vs ! i + 1]) = sum_list vs + (1 :: int)"
  by (induction vs arbitrary: i) (auto simp: nth_Cons split: nat.splits)

lemma explored_step:
  assumes e: "explored n k vs" and n: "0 < n" "length wins = n" and i: "i = selectByUCT ml wins vs tot"
  shows "i < n \<and> explored n (Suc k) (vs[i := vs ! i + 1])"
proof (cases "k < n")
  case True
  then obtain m where m: "n - k = Suc m" by (metis Suc_diff_Suc)
  then have vs: "vs = replicate k 1 @ replicate (Suc m) 0" using e True by (simp add: explored_def)
  then have "i = k" using i find_index_zero [of k m] by (simp add: selectByUCT_def)
  moreover have "vs[k := vs ! k + 1] = replicate (Suc k) 1 @ replicate (n - Suc k) 0"
    using vs m by (simp add: list_update_append nth_append replicate_append_same) (metis Suc_diff_Suc True diff_Suc_Suc nat.inject replicate_app_Cons_same)
  moreover have "sum_list (vs[k := vs ! k + 1]) = int (Suc k)"
    using sum_list_bump [of k vs] e True unfolding explored_def by (metis add.commute of_nat_Suc)
  ultimately show ?thesis using e True by (auto simp: explored_def dest: in_set_replicate [THEN iffD1])
next
  case False
  then have one: "\<forall>v\<in>set vs. 1 \<le> v" and l: "length vs = n" using e by (auto simp: explored_def)
  then have "find_index (\<lambda>v. v = 0) vs = None" by (auto simp: find_index_None)
  then have "i = bestBy (uct ml wins vs (mlLog ml (int_to_f64 (tot + 1)))) [0..<n] 0 (Fin (- 1))" using i n(2) by (simp add: selectByUCT_def)
  then have "i \<in> insert 0 (set [0..<n])" by (simp only:) (rule bestBy_in)
  then have i': "i < n" using n(1) by auto
  have "\<forall>v\<in>set (vs[i := vs ! i + 1]). 1 \<le> v" using one l i' by (metis add_increasing2 insertE nth_mem set_update_subset_insert subsetD zero_le_one)
  then show ?thesis using e False i' l sum_list_bump [of i vs] by (auto simp: explored_def)
qed

lemma searchLoop_explores:
  assumes b: "mbEarlyStop b = None" and n: "0 < n"
  shows "searchLoop ml (\<lambda>_. False) b game enum pid st actions left it s = Some s' \<Longrightarrow> explored n k (shVisits s) \<Longrightarrow> length (shWins s) = n \<Longrightarrow>
    explored n (k + left) (shVisits s')"
proof (induction left arbitrary: it s k)
  case (Suc left)
  let ?i = "selectByUCT ml (shWins s) (shVisits s) (int it)"
  obtain nx err h where ap: "Apply game st (request pid (eaMove (actions ! ?i)) (eaArgs (actions ! ?i))) (shMem s) = Some (nx, err, h)"
    using Suc.prems(1) by (auto simp: Let_def)
  have e: "explored n (Suc k) ((shVisits s)[?i := shVisits s ! ?i + 1])" using explored_step [OF Suc.prems(2) n Suc.prems(3) refl] by blast
  show ?case
  proof (cases err)
    case (Some x)
    let ?s = "s\<lparr>shMem := h, shVisits := (shVisits s)[?i := shVisits s ! ?i + 1]\<rparr>"
    have "searchLoop ml (\<lambda>_. False) b game enum pid st actions left (Suc it) ?s = Some s'" using Suc.prems(1) ap Some by (simp add: Let_def)
    from Suc.IH [OF this, of "Suc k"] e Suc.prems(3) show ?thesis by simp
  next
    case None
    obtain w rng h' where r: "rollout game enum (mbPerspective b) pid nx (shRng s) h = Some (w, rng, h')"
      using Suc.prems(1) ap None by (auto simp: Let_def)
    let ?s = "visit ?i w (s\<lparr>shMem := h, shRng := rng, shMem := h'\<rparr>)"
    have "searchLoop ml (\<lambda>_. False) b game enum pid st actions left (Suc it) ?s = Some s'" using Suc.prems(1) b ap None r by (simp add: Let_def)
    from Suc.IH [OF this, of "Suc k"] e Suc.prems(3) show ?thesis by (simp add: visit_def)
  qed
qed simp

lemma mostVisited_max:
  "(mostVisited vs i best bv = best \<and> (\<forall>v\<in>set vs. v \<le> bv)) \<or>
   (\<exists>m<length vs. mostVisited vs i best bv = i + m \<and> bv < vs ! m \<and> (\<forall>v\<in>set vs. v \<le> vs ! m))"
proof (induction vs arbitrary: i best bv)
  case (Cons v vs)
  show ?case
  proof (cases "bv < v")
    case True
    from Cons.IH [of "Suc i" i v] show ?thesis
    proof
      assume "\<exists>m<length vs. mostVisited vs (Suc i) i v = Suc i + m \<and> v < vs ! m \<and> (\<forall>x\<in>set vs. x \<le> vs ! m)"
      then obtain m where "m < length vs" "mostVisited vs (Suc i) i v = Suc i + m" "v < vs ! m" "\<forall>x\<in>set vs. x \<le> vs ! m" by blast
      then show ?thesis using True by (intro disjI2 exI [of _ "Suc m"]) auto
    qed (use True in \<open>auto intro!: exI [of _ 0]\<close>)
  next
    case False
    from Cons.IH [of "Suc i" best bv] show ?thesis
    proof
      assume "\<exists>m<length vs. mostVisited vs (Suc i) best bv = Suc i + m \<and> bv < vs ! m \<and> (\<forall>x\<in>set vs. x \<le> vs ! m)"
      then obtain m where "m < length vs" "mostVisited vs (Suc i) best bv = Suc i + m" "bv < vs ! m" "\<forall>x\<in>set vs. x \<le> vs ! m" by blast
      then show ?thesis using False by (intro disjI2 exI [of _ "Suc m"]) auto
    qed (use False in auto)
  qed
qed simp

text \<open>
  The search plays the action it visited most. Without cancellation and early stop the loop over
  the enumerated actions of the bot's view makes exactly the configured number of visits, explores
  every action when it has at least as many iterations as there are actions, and the bot answers
  with an action that none was visited more often than.
\<close>

theorem mcts_plays_the_most_visited:
  assumes b: "mbGame b = Some game" "resolveEnumerate (mbEnumerate b) (Some game) = Some enum" "mbEarlyStop b = None"
    and view: "view = (if mbPerspective b then PlayerView game st pid else st)" "actions = enum (G view) (Ctx view) pid" "actions \<noteq> []"
    and play: "mctsPlay ml (\<lambda>_. False) b st pid h = Some (r, h')"
  shows "\<exists>s i. searchLoop ml (\<lambda>_. False) b game enum pid view actions (mctsIterations b) 0
      \<lparr>shWins = replicate (length actions) (Fin 0), shVisits = replicate (length actions) 0, shRng = botSeed (mbSeed b), shMem = h\<rparr> = Some s \<and>
    length (shVisits s) = length actions \<and> sum_list (shVisits s) = int (mctsIterations b) \<and>
    (length actions \<le> mctsIterations b \<longrightarrow> (\<forall>v\<in>set (shVisits s). 1 \<le> v)) \<and>
    i < length actions \<and> r = Inr (actions ! i) \<and> (\<forall>v\<in>set (shVisits s). v \<le> shVisits s ! i)"
proof -
  let ?n = "length actions"
  let ?s0 = "\<lparr>shWins = replicate ?n (Fin 0), shVisits = replicate ?n 0, shRng = botSeed (mbSeed b), shMem = h\<rparr>"
  obtain s where s: "searchLoop ml (\<lambda>_. False) b game enum pid view actions (mctsIterations b) 0 ?s0 = Some s"
    "r = Inr (actions ! mostVisited (shVisits s) 0 0 (- 1))"
    using play b view by (auto simp: mctsPlay_def Let_def)
  have n: "0 < ?n" using view(3) by simp
  have e0: "explored ?n 0 (shVisits ?s0)" using n by (simp add: explored_def sum_list_replicate)
  have e: "explored ?n (mctsIterations b) (shVisits s)" using searchLoop_explores [OF b(3) n s(1) e0] by simp
  then have l: "length (shVisits s) = ?n" by (simp add: explored_def)
  have nonneg: "\<forall>v\<in>set (shVisits s). 0 \<le> v" using e by (fastforce simp: explored_def split: if_splits)
  have "\<exists>m<?n. mostVisited (shVisits s) 0 0 (- 1) = m \<and> (\<forall>v\<in>set (shVisits s). v \<le> shVisits s ! m)"
    using mostVisited_max [of "shVisits s" 0 0 "- 1"] nonneg l n by (metis add_0 length_greater_0_conv nth_mem neg_0_le_iff_le not_one_le_zero order_trans)
  then show ?thesis using e l s by (intro exI [of _ s]) (auto simp: explored_def not_less)
qed

text \<open>A counter that is always bumped.\<close>

definition bumping :: "nat enumerateFn" where
  "bumping g c pid = [\<lparr>eaMove = ''bump'', eaArgs = []\<rparr>, \<lparr>eaMove = ''twice'', eaArgs = []\<rparr>]"

theorem randomBot_plays_an_enumerated_action_witness:
  "\<exists>a b'. randomPlay counterState ''0'' \<lparr>rbEnumerate = Some bumping, rbGame = Some counterGame, rbSeed = VNil, rbState = None\<rparr> = (Inr a, b') \<and>
     eaMove a \<in> {''bump'', ''twice''}"
proof -
  have l: "bumping g c p \<noteq> []" "length (bumping g c p) < 2 ^ 64" for g c p by (simp_all add: bumping_def)
  show ?thesis
    using randomBot_plays_an_enumerated_action [of "\<lparr>rbEnumerate = Some bumping, rbGame = Some counterGame, rbSeed = VNil, rbState = None\<rparr>"
        bumping counterState "''0''", OF _ l]
    by (auto simp: resolveEnumerate_def bumping_def)
qed

definition flatMath :: mathLib where "flatMath = \<lparr>mlLog = (\<lambda>x. x), mlSqrt = (\<lambda>x. x)\<rparr>"

definition bumpSearch :: "(nat, unit) mctsBot" where
  "bumpSearch = \<lparr>mbGame = Some counterGame, mbEnumerate = Some bumping, mbIterations = 2, mbSeed = VNil, mbEarlyStop = None,
     mbEarlyStopAfter = 0, mbPerspective = False\<rparr>"

theorem mcts_plays_the_most_visited_witness:
  "\<exists>r h'. mctsPlay flatMath (\<lambda>_. False) bumpSearch (counterState\<lparr>Ctx := (Ctx counterState)\<lparr>Gameover := VBool True\<rparr>\<rparr>) ''0'' () = Some (r, h') \<and>
     (\<exists>visits i. length visits = 2 \<and> sum_list visits = 2 \<and> (\<forall>v\<in>set visits. 1 \<le> v) \<and> r = Inr (bumping 0 (Ctx counterState) ''0'' ! i) \<and>
        (\<forall>v\<in>set visits. v \<le> (visits ! i :: int)))"
proof -
  let ?st = "counterState\<lparr>Ctx := (Ctx counterState)\<lparr>Gameover := VBool True\<rparr>\<rparr>"
  have "mctsPlay flatMath (\<lambda>_. False) bumpSearch ?st ''0'' () \<noteq> None" by code_simp
  then obtain r h' where p: "mctsPlay flatMath (\<lambda>_. False) bumpSearch ?st ''0'' () = Some (r, h')" by auto
  have b: "mbGame bumpSearch = Some counterGame" "resolveEnumerate (mbEnumerate bumpSearch) (Some counterGame) = Some bumping"
    "mbEarlyStop bumpSearch = None" by (simp_all add: bumpSearch_def resolveEnumerate_def)
  have v: "?st = (if mbPerspective bumpSearch then PlayerView counterGame ?st ''0'' else ?st)" by (simp add: bumpSearch_def)
  have a: "bumping (G ?st) (Ctx ?st) ''0'' \<noteq> []" by (simp add: bumping_def)
  have n: "mctsIterations bumpSearch = 2" "bumping (G ?st) (Ctx ?st) ''0'' = bumping 0 (Ctx counterState) ''0''"
    "length (bumping 0 (Ctx counterState) ''0'') = 2" by (simp_all add: bumpSearch_def mctsIterations_def bumping_def)
  from mcts_plays_the_most_visited [OF b v refl a p, unfolded n] obtain s :: "unit search" and i where
    "length (shVisits s) = 2" "sum_list (shVisits s) = int 2" "(2 :: nat) \<le> 2 \<longrightarrow> (\<forall>v\<in>set (shVisits s). 1 \<le> v)"
    "r = Inr (bumping 0 (Ctx counterState) ''0'' ! i)" "\<forall>v\<in>set (shVisits s). v \<le> shVisits s ! i" by blast
  then show ?thesis using p by (metis order_refl of_nat_numeral)
qed

section \<open>Simulation\<close>

lemma sum_mput: "mwf m \<Longrightarrow> sum_list (map snd (mput k v m)) = sum_list (map snd m) + (v - (case map_of m k of Some n \<Rightarrow> n | None \<Rightarrow> (0 :: int)))"
proof (induction m)
  case (Cons p m)
  then show ?case by (cases p) (auto simp: mput_def mwf_def split: option.splits dest: map_of_SomeD)
qed (simp add: mput_def)

definition accounted :: "tally \<Rightarrow> bool" where
  "accounted t \<longleftrightarrow> mwf (srWins (tyResult t)) \<and> 0 \<le> tyCompleted t \<and> 0 \<le> srErrors (tyResult t) \<and>
     srMatches (tyResult t) = srErrors (tyResult t) + tyCompleted t \<and>
     sum_list (map snd (srWins (tyResult t))) + srDraws (tyResult t) \<le> tyCompleted t"

lemma addMatch_accounted: "accounted t \<Longrightarrow> accounted (addMatch m t) \<and> srMatches (tyResult (addMatch m t)) = srMatches (tyResult t) + 1"
  by (cases m) (auto simp: addMatch_def accounted_def Let_def sum_mput split: goval.splits option.splits)

lemma simulateLoop_accounts:
  fixes game :: "('g, 'h) game"
  shows "simulateLoop (\<lambda>_. False) game opts mm left i t b h = Some (x, t', b', h') \<Longrightarrow> accounted t \<Longrightarrow>
   \<not> x \<and> accounted t' \<and> srMatches (tyResult t') = srMatches (tyResult t) + int left"
proof (induction left arbitrary: i t b h)
  case (Suc left)
  then obtain m :: "'g state \<times> int \<times> bool" and b1 h1 where s: "simulateLoop (\<lambda>_. False) game opts mm left (Suc i) (addMatch m t) b1 h1 = Some (x, t', b', h')" by auto
  from Suc.IH [OF s] addMatch_accounted [OF Suc.prems(2), of m] show ?case by simp
qed simp

text \<open>
  Every match is counted once: an uncancelled simulation plays the configured number of matches,
  each of which is an error or completed, and no completed match is counted as more than one
  win or draw.
\<close>

theorem Simulate_accounts_for_every_match:
  assumes "Simulate (\<lambda>_. False) opts b h = Some ((r, None), b', h')"
  shows "srMatches r = (if soMatches opts \<le> 0 then 1 else soMatches opts) \<and>
    sum_list (map snd (srWins r)) + srDraws r + srErrors r \<le> srMatches r"
proof -
  obtain game where g: "soGame opts = Some game" "soBots opts \<noteq> []"
    using assms by (auto simp: Simulate_def split: option.splits if_splits)
  let ?n = "if soMatches opts \<le> 0 then 1 else nat (soMatches opts)" let ?mm = "if soMaxMoves opts \<le> 0 then 1000 else nat (soMaxMoves opts)"
  let ?t = "\<lparr>tyResult = noResult, tyMoves = 0, tyTurns = 0, tyCompleted = 0\<rparr>"
  obtain x t b1 h1 where s: "simulateLoop (\<lambda>_. False) game opts ?mm ?n 0 ?t b h = Some (x, t, b1, h1)"
    "(if x then (tyResult t, Some SimCancelled) else (withAverages t, None)) = (r, None)"
    using assms g by (auto simp: Simulate_def Let_def)
  have "accounted ?t" by (simp add: accounted_def noResult_def mwf_def)
  from simulateLoop_accounts [OF s(1) this] s(2) show ?thesis
    by (auto simp: noResult_def accounted_def withAverages_def split: if_splits)
qed

text \<open>
  A match can be counted nowhere. The comment has draws and errors make up what the wins leave; a
  match that ends with neither a winner nor a draw, as a ranking, is in none of them.
\<close>

definition ranked :: "(nat, unit) game" where
  "ranked = counterGame\<lparr>gmSetup := Some (\<lambda>c data h. (0, h)), gmEndIf := Some (\<lambda>mc h. (VMap [(''ranking'', VList [VStr ''1'', VStr ''0''])], noEffects, h))\<rparr>"

definition firstAction :: "(nat, unit, unit) strategy" where
  "firstAction st pid b h = Some (Inr \<lparr>eaMove = ''bump'', eaArgs = []\<rparr>, b, h)"

definition rankedRun :: "(nat, unit, unit) simulateOptions" where
  "rankedRun = \<lparr>soGame = Some ranked, soBots = [(''0'', firstAction), (''1'', firstAction)], soMatches = 2, soMaxMoves = 3,
     soSetupData = VNil, soNumPlayers = 2\<rparr>"

lemma rankedRun_tally:
  "map_option (\<lambda>(x, t, b, h). (x, (\<lambda>r. (srMatches r, srWins r, srDraws r, srErrors r)) (tyResult t)))
     (simulateLoop (\<lambda>_. False) ranked rankedRun 3 2 0 \<lparr>tyResult = noResult, tyMoves = 0, tyTurns = 0, tyCompleted = 0\<rparr> () ()) =
   Some (False, 2, [], 0, 0)"
  by code_simp

lemma rankedRun_result:
  "map_option (\<lambda>((r, e), b, h). (srMatches r, srWins r, srDraws r, srErrors r, e)) (Simulate (\<lambda>_. False) rankedRun () ()) = Some (2, [], 0, 0, None)"
proof -
  have r: "soGame rankedRun = Some ranked" "soBots rankedRun \<noteq> []" "soMatches rankedRun = 2" "soMaxMoves rankedRun = 3"
    by (simp_all add: rankedRun_def)
  from rankedRun_tally obtain t where t: "simulateLoop (\<lambda>_. False) ranked rankedRun 3 2 0
      \<lparr>tyResult = noResult, tyMoves = 0, tyTurns = 0, tyCompleted = 0\<rparr> () () = Some (False, t, (), ())"
    "srMatches (tyResult t) = 2" "srWins (tyResult t) = []" "srDraws (tyResult t) = 0" "srErrors (tyResult t) = 0" by auto
  from t(2-) have "srMatches (withAverages t) = 2" "srWins (withAverages t) = []" "srDraws (withAverages t) = 0" "srErrors (withAverages t) = 0"
    by (simp_all add: withAverages_def)
  then show ?thesis by (simp add: Simulate_def r t(1))
qed

theorem Simulate_accounts_for_every_match_witness:
  "\<exists>r b' h'. Simulate (\<lambda>_. False) rankedRun () () = Some ((r, None), b', h') \<and> srMatches r = 2"
proof -
  obtain r b' h' where s: "Simulate (\<lambda>_. False) rankedRun () () = Some ((r, None), b', h')" using rankedRun_result by auto
  from Simulate_accounts_for_every_match [OF s] s show ?thesis by (simp add: rankedRun_def)
qed

theorem a_match_can_count_nowhere:
  "map_option (\<lambda>((r, e), b, h). (e, srMatches r, srWins r, srDraws r, srErrors r)) (Simulate (\<lambda>_. False) rankedRun () ()) = Some (None, 2, [], 0, 0)"
  using rankedRun_result by auto

section \<open>A bot on a seat\<close>

text \<open>
  A bot moves when the engine would let it: the runner's test of whose turn it is agrees with the
  reducer's check of the seat, also when several seats are active.
\<close>

theorem isMyTurn_agrees_with_the_reducer:
  "isMyTurn a st \<longleftrightarrow> snd (authorizedStage (Ctx st) (apPlayerID a)) = None"
  by (auto simp: isMyTurn_def authorizedStage_def split: option.splits)

text \<open>
  A bot starts with the whole state. What the manager pushes later is the view of the bot's seat, but
  the first state Run hands to the bot is the stored one, with everybody's secrets and the seed.
\<close>

theorem autoStart_hands_out_the_full_state:
  assumes store: "reliable_store (cfStore cf) ok saved readBack" and mg: "ok (mgStore mg)"
    and m: "saved (mgStore mg) (apMatchID a) = Some m" "current mg g m"
  shows "apPending (fst (autoStart cf conn a mg)) = Some [maState (hydrate g m)]"
proof -
  let ?sub = "\<lparr>sbID = conn, sbPlayerID = apPlayerID a, sbPatch = False\<rparr>"
  let ?mg = "Manager.Subscribe (apMatchID a) ?sub mg"
  have s: "ok (mgStore ?mg)" "saved (mgStore ?mg) (apMatchID a) = Some m" "current ?mg g m"
    using mg m by (simp_all add: Manager.Subscribe_def current_def Game_def)
  obtain mg' where l: "loadMigrated cf (apMatchID a) ?mg = (Inr (length (mgHeap ?mg)), mg')" "mgHeap mg' = mgHeap ?mg @ [hydrate g m]"
    using reliable_store.load_reliable [OF store refl s] .
  then show ?thesis by (simp add: autoStart_def State_def match_at_def autoSend_def)
qed

theorem autoStart_hands_out_the_full_state_witness:
  "let a = \<lparr>apMatchID = ''m'', apPlayerID = ''1'', apCredentials = ''s1'', apPending = None, apBot = ()\<rparr>
   in map_option (map (Seed \<circ> Ctx)) (apPending (fst (autoStart (tableConfig Memory) 5 a (svManager seededServer)))) = Some [7]"
proof -
  let ?m = "tableMatch\<lparr>maState := counterState\<lparr>Ctx := (Ctx counterState)\<lparr>Seed := 7\<rparr>\<rparr>\<rparr>"
  let ?a = "\<lparr>apMatchID = ''m'', apPlayerID = ''1'', apCredentials = ''s1'', apPending = None, apBot = ()\<rparr> :: (nat, unit) autoPlayer"
  have st: "reliable_store (cfStore (tableConfig Memory :: (nat, nat memory) config)) memOk map_of (\<lambda>m. m)"
    by (simp add: tableConfig_def mem.reliable_store_axioms)
  have ok: "memOk (mgStore (svManager seededServer))" "map_of (mgStore (svManager seededServer)) (apMatchID ?a) = Some ?m"
    by (simp_all add: seededServer_def tableMgr_def NewManager_def memOk_def mwf_def tableMatch_def)
  have c: "current (svManager seededServer) hostedCounter ?m"
    using tableMatch_current by (simp add: current_def seededServer_def Game_def tableMgr_def)
  from autoStart_hands_out_the_full_state [OF st, OF ok c] show ?thesis by (simp add: hydrate_Ctx)
qed

section \<open>Seats that move together\<close>

text \<open>
  The search is blind where seats move together. A rollout lets only the current player move; in
  rock paper scissors, once the bot has thrown, the current player has nothing left to do, so the
  rollout ends at once and is worth a draw, whatever was thrown.
\<close>

theorem rollout_is_blind_when_seats_move_together:
  "list_all (\<lambda>t. map_option (\<lambda>(w, _, _). w)
      (Option.bind (NewMatch (rps :: (rpsState, unit) game) 2 VNil ())
        (\<lambda>(st, h). Option.bind (Apply rps st (request ''0'' ''submit'' [VStr t]) h)
          (\<lambda>(nx, err, h). if err = None \<and> Gameover (Ctx nx) = VNil then rollout rps rpsEnumerate False ''0'' nx 1 h else None))) = Some (Fin (1 / 2))) validThrows"
  by code_simp

end
