(* ===== verification/Spec2Isabelle.thy ===== *)
theory Spec2Isabelle
  imports Views Prompts TicTacToe Rps Plugins CcgPriority CcgModifiers CcgCombat CcgVisibility Economy Shop Regions McpAuth McpTools HttpServer Bots
begin

text \<open>
  A verification library for the board-game engine \<open>boardgame-go\<close>: the packages \<open>core\<close>,
  \<open>plugins/random\<close>, \<open>plugins/player\<close>, \<open>games/tictactoe\<close>, \<open>games/rps\<close>, \<open>modules/ccg\<close>,
  \<open>modules/economy\<close>, \<open>modules/shop\<close>, \<open>modules/tabletop\<close> with \<open>regions\<close>, \<open>storage\<close>, \<open>match\<close>,
  \<open>server\<close>, \<open>bots\<close> and the multi-tenant part of \<open>mcp\<close> under \<open>src/\<close>.

  \<^bold>\<open>The program.\<close> A match is a \<open>State\<close>: the game's own data \<open>G\<close>, the engine's \<open>Ctx\<close> (seats,
  turn, phase, active players, game over), the move log, pending prompts (\<open>Blocks\<close>), queued
  actions, move counts and limits of the active players, and undo snapshots. A \<open>Game\<close> supplies
  moves, hooks, predicates, turn orders and plugins. The pure reducer \<open>Apply\<close> takes a request
  through these stages: the checks (game over, prompt answered, move found, server only,
  blocked, seat, stale state id, stage); the move itself; plugin flush and validation; the
  \<open>OnMove\<close> hook; the events the game code queued (end of turn, phase, stage or game, active
  players, elimination, chained moves), each of which may run hooks that queue more; the
  automatic ends (game, phase, stage budgets, turn); and the cascade of queued actions, up to
  a limit. \<open>NewMatch\<close>, \<open>ForceEndTurn\<close>, \<open>Undo\<close>, \<open>Redo\<close> and \<open>Replay\<close> are built on the same
  transitions, and \<open>PlayerView\<close> redacts a state for a seat.

  Around the engine stand the modules a game composes inside its own \<open>G\<close>: the card module \<open>ccg\<close>
  (entities in zones, an event bus, counters, modifiers, pending effects, triggers, priority
  windows, combat declarations, visibility), \<open>economy\<close> and \<open>shop\<close> on its counters and zones, and
  \<open>tabletop\<close> (boards, units, terrain, dice, regions). The match manager hosts matches: it
  authenticates a caller, loads the match from a \<open>Storage\<close>, calls the reducer, stores the result
  and broadcasts every subscriber's own view; turn timers and a janitor act on matches too. A
  storage is a map from ids to matches, in memory or in files, possibly behind a cache or a
  write-behind buffer. Clients reach the manager through the HTTP and WebSocket server, or
  through the tools of the MCP server, which authenticates users by signed tokens, records who
  owns which match and lets users register games of their own. Bots play on enumerated actions,
  in simulations or on a seat of a live match.

  \<^bold>\<open>Modelling.\<close> Go values of type \<open>any\<close> are the datatype \<open>goval\<close>; maps are association lists in
  key order, a nil map is \<open>None\<close>. A move, hook or predicate is a function from its context and
  a memory (the type parameter of games written \<open>'h\<close>, threaded through every call in order, for
  whatever game code or plugins share by reference) to a result, the effects it requested
  (events, queue operations, dropped prompts, log entries) and the new memory; game code is thus
  a parameter of every definition. The engine's copies of maps (\<open>ownContainers\<close>,
  \<open>cloneStateForSnapshot\<close>) are kept as operations. An error is a value of \<open>gerror\<close>, or of the
  component's own error type; the outer \<open>None\<close> of an operation is a run-time panic (an index out
  of range, a division by zero) or an event drain that never ends. Loops are structural recursion,
  but for the mutual recursion of \<open>advancePlayOrderPos\<close> and \<open>endPhase\<close> (a measure on whether a
  phase is active) and two partial functions, where \<open>None\<close> is not returning: the event drain,
  whose hooks can queue events forever, and the line drawing of square boards. No fuel is used. The
  limits are those of the source: 32 chained moves per move (\<open>maxChainedMoves\<close>), 200 cascade steps
  (\<open>MaxDrainDepth\<close>), 256 remembered events of the bus (\<open>MaxEventHistory\<close>) and the retries of
  an optimistic write (\<open>occRetries\<close>). Engine integers are unbounded, since counters that
  grow by one per move do not reach 64 bits; the generator and the ids of the card module are
  64-bit words, and the modules' arithmetic on game-chosen numbers wraps (\<open>wrap64\<close>) and rounds
  (float64) as Go's does. Matches are shared by pointer between manager, cache and store, so
  \<open>Storage\<close> has an explicit heap of matches, and aliasing is part of the model.

  \<^bold>\<open>The theories\<close>, with the source files they model. Shared:

    \<^item> \<open>Prelude\<close>: maps, lists and Go's remainder; the rules that take do-blocks apart.
    \<^item> \<open>GoFloat\<close>: 64-bit wrap-around and the float64 operations the modules use.

  The engine:

    \<^item> \<open>GoValue\<close> (\<open>core/target.go\<close>, \<open>core/assignment.go\<close>): values, float64 conversion, and the
      validation of prompt answers. The validators accept exactly the legal answers, answers
      that went through JSON fare as they did before, and identifiers beyond 53 bits are conflated.
    \<^item> \<open>Prng\<close> (\<open>core/random.go\<close>, \<open>plugins/random/random.go\<close>): the generator, dice and shuffle.
      Dice stay in range and a shuffle permutes.
    \<^item> \<open>EngineTypes\<close> (\<open>core/ctx.go\<close>, \<open>state.go\<close>, \<open>log.go\<close>, \<open>move.go\<close>, \<open>game.go\<close>, \<open>phase.go\<close>,
      \<open>queue.go\<close>, \<open>events.go\<close>): the records and their operations.
    \<^item> \<open>Stages\<close> (\<open>core/stage.go\<close> and its parts in \<open>transitions.go\<close> and \<open>reducer.go\<close>): active
      players. What a configuration installs, that a reverting one restores its predecessor,
      that an ordered list activates each player once, that spent players retire.
    \<^item> \<open>Hooks\<close> (\<open>core/plugin.go\<close>, hook environment of \<open>transitions.go\<close>): running game code;
      the frame of every hook.
    \<^item> \<open>TurnOrders\<close> (\<open>core/turn.go\<close>): the built-in orders, with the contracts \<open>turn_order\<close> and
      \<open>cyclic_order\<close> as locales that the orders interpret.
    \<^item> \<open>Transitions\<close> and \<open>Rotation\<close> (\<open>core/transitions.go\<close>): turns, phases, stages,
      elimination and the event drain; no transition panics, the drain returns when hooks queue
      no events (and need not otherwise), turns go round the table, and what elimination does.
    \<^item> \<open>Reducer\<close> and \<open>Applying\<close> (\<open>core/reducer.go\<close>): the checks as one function equal to a
      declarative rule, the move, the cascade; Apply is total and atomic, logs the move
      faithfully, has no effect when it refuses, and an endless cascade is rolled back.
    \<^item> \<open>Lifecycle\<close> (\<open>core/state.go\<close>, \<open>timeout.go\<close>, \<open>undo.go\<close>, \<open>replay.go\<close>): match creation,
      forced turn ends, undo and redo, replay. Replaying a log reproduces the match and any
      earlier point of it; undo restores the state before a move, and where it does not.
    \<^item> \<open>Prompts\<close>: a locale \<open>env_frame\<close> of relations on the hook environment that all game code
      respects, carried through every transition; its interpretation shows which prompts a move
      or a forced turn end keeps, drops and adds.
    \<^item> \<open>Views\<close> (\<open>core/playerview.go\<close>, \<open>blockview.go\<close>, \<open>validate.go\<close>, \<open>PlayerView\<close>, wire form of
      \<open>Ctx\<close>): what a seat can learn, the wire round trip, and what a validated game guarantees.
    \<^item> \<open>GameContract\<close> and \<open>TicTacToe\<close> (\<open>games/tictactoe/tictactoe.go\<close>): the contract between the
      engine and the rules of a game as a locale \<open>engine_game\<close>, and the reference game as its
      instance: the engine accepts exactly the legal clicks, every match is fair and ends, and
      the enumerated actions are the acceptable ones.
    \<^item> \<open>Rps\<close> (\<open>games/rps/rps.go\<close>): simultaneous throws resolved by a queued action; it refines its
      rules, hides the throws of a round until it is resolved, and never ends after a tie at the target.
    \<^item> \<open>Plugins\<close> (\<open>plugins/random/random.go\<close>, \<open>plugins/player/player.go\<close>): both plugins as
      instances of the plugin record, their state a cell of the threaded memory; what this sharing
      means for refused moves, undo and reloads.

  The card module (\<open>modules/ccg\<close>) and what uses it. The user's predicates, handlers and resolvers
  are names of a type \<open>'k\<close> whose meaning is the parameter \<open>busCode\<close>; the library's own closures
  are constructors.

    \<^item> \<open>CcgState\<close> (state.go, entity.go, carddef.go, zone.go, helpers.go, deckpile.go): the container with its
      entities and zones, and every operation that creates, moves and destroys.
    \<^item> \<open>CcgZones\<close>: the abstract placement of the cards; the locale \<open>placements\<close> carries the
      placement laws from one move to batches. A batch is all or nothing.
    \<^item> \<open>CcgDecks\<close> (decklist.go): deck lists and validators; the invariant of zones and entities
      over every sequence of operations.
    \<^item> \<open>CcgBus\<close> (event.go, ability.go, counters.go): the bus, abilities and counters; the locale
      \<open>bus_invariant\<close> shows that a property kept by the handlers is kept by every publication,
      with five interpretations.
    \<^item> \<open>CcgEffects\<close> (effect.go, trigger.go), \<open>CcgPriority\<close> (priority.go, steps.go): pending effects,
      triggers, windows and step sequences: what resolution does, that the window gates its
      holder, closes after an unbroken round of passes, and blocks resolution.
    \<^item> \<open>CcgModifiers\<close> (modifier.go, targets.go), \<open>CcgCombat\<close> (combat.go, pairs.go), \<open>CcgVisibility\<close>
      (visibility.go): effective attributes and queries; legal combat, and its agreement with
      the engine's assignment prompt; the view as a non-interference property.
    \<^item> \<open>Economy\<close> (\<open>modules/economy\<close>) and \<open>Shop\<close> (\<open>modules/shop\<close>): exact, all-or-nothing payment and
      the market row, with the inputs where they are not.

  The tabletop module:

    \<^item> \<open>TabletopBoard\<close> (pos.go, board.go, square.go, hex.go): both geometries, interpreted as a \<open>metric\<close>;
      lines are shortest paths.
    \<^item> \<open>TabletopUnits\<close> (state.go, terrain.go, combat.go): the lazy
      index of units refines the map from units to cells; terrain round trips; dice bounds.
    \<^item> \<open>Regions\<close> (\<open>modules/tabletop/regions\<close>): partitions, influence and scoring.

  Hosting:

    \<^item> \<open>Storage\<close> (\<open>storage/\<close>: storage.go, memory.go, flatfile.go, cached.go, writebehind.go): the
      interface as a record of methods. The locales \<open>store_contract\<close> and \<open>reliable_store\<close> state
      what a client may rely on; the in-memory store interprets them, the file store meets the
      first for every codec that decodes what it encodes, and the cache over any reliable store
      is coherent with it. Races of the cache and the write-behind buffer are explicit
      interleavings of their locked sections.
    \<^item> \<open>Manager\<close> and \<open>ManagerLaws\<close> (\<open>match/\<close>: manager.go, lifecycle.go, timer.go, export.go,
      janitor.go): every operation of the manager over an arbitrary storage. A move is stored
      and announced, or nothing is; seats stay distinct; an export imports as the same match; a
      timer ends only its own turn; the sweep wipes exactly the stale; and where optimistic
      writes, the cache, joining and the janitor depart from that.

    \<^item> \<open>ManagerFrame\<close>: which stored matches each operation of the manager may change.
    \<^item> \<open>HttpServer\<close> (\<open>server/\<close>: http.go, cors.go, ws.go, the counters of admin.go): the routing table, every
      endpoint, the origin policy, and WebSocket connections up to their send queue. A request
      changes only its own match, a connection sees only the view of the seat it authenticated for;
      and where moves without credentials, match summaries and dropped patches break the contract.
    \<^item> \<open>Bots\<close> (\<open>bots/\<close>: bots.go, simulate.go, runner.go): the random bot, the tree search, simulations
      and the seat runner.

  The MCP server (\<open>mcp/\<close>):

    \<^item> \<open>McpAuth\<close> (auth.go): the token verifier with its key cache; what an accepted token guarantees, and
      what a failing key endpoint does.
    \<^item> \<open>McpGames\<close> (ownership.go, ownership_pg.go, usergames.go, registry.go): the locales
      \<open>ownership_contract\<close>, interpreted on both stores, and \<open>user_games_contract\<close>; the registry
      follows its store and survives a restart.
    \<^item> \<open>McpTools\<close> (tools.go, resources.go): the tools over manager, ownership and registry; tenants are
      isolated (locale \<open>tenancy\<close>, interpreted for both ownership stores).

  \<^bold>\<open>Assumptions that recur.\<close> \<open>ordersOk\<close>: every turn order of the game meets \<open>turn_order\<close>, as all
  built-in orders do. \<open>quietHooks\<close>: hooks queue no events (moves may). \<open>logsOk P\<close>: log entries
  that game code adds satisfy \<open>P\<close>. \<open>seatsOk\<close>: the cursor is on a seat; match creation establishes
  it. \<open>quiet\<close> and \<open>queueQuiet\<close>: subscribers of the bus do not touch the counters or the queue a
  theorem is about. \<open>current\<close>: a stored match is of the game's current schema and its state is
  decoded. Each has a witness on a concrete game.

  \<^bold>\<open>Not modelled.\<close> JSON encoding and the decoders of \<open>G\<close> and of plugin data (parameters), the clock
  and the random source of ids and credentials (parameters), and contexts with deadlines
  (\<open>ApplyContext\<close> is modelled for a context that is not cancelled). The mutexes of the manager
  and the stores are represented by the atomicity of what they protect; goroutines appear as
  interleavings of those steps where a theorem is about a race. The SQL and Redis stores are
  queries to external services. Of the server, the write and heartbeat goroutines, the body limit and
  the admin mux are left out; of the MCP server, the JSON-RPC transport, the prompts, and the tools
  that run or describe Starlark code. The Starlark games and the module bridge are bindings to a
  third-party interpreter; where the registry uses them they are a parameter. The games \<open>hearts\<close>,
  \<open>loveletter\<close>, \<open>risklike\<close>, \<open>stackduel\<close> and \<open>threeprovinces\<close> are further clients of the same engine
  and modules. The language-model bots, the typed wrappers, test helpers, commands and benchmarks
  are I/O, reflection or glue around the parts above.
\<close>

end
